(* ===== verification/JS_Prelude.thy ===== *)
theory JS_Prelude
  imports Main "HOL-Library.Word" "HOL-Library.AList"
begin

text \<open>
  Shared vocabulary of the development: the JavaScript values the modelled functions receive
  (numbers, bigints, buffers, objects with data and accessor properties, proxies with throwing
  traps, opaque handles), errors as values of a sum type, a state-and-exception combinator for the
  methods that mutate a class and may throw half way, big-endian integers over byte lists and the
  list facts the components share.
\<close>

unbundle bit_operations_syntax

named_theorems result_simps \<open>case analysis of results that may be errors\<close>
named_theorems be_simps \<open>big-endian integers over byte lists\<close>

section \<open>Bytes and buffers\<close>

type_synonym byte = "8 word"
type_synonym bytes = "byte list"

text \<open>
  A typed-array view: the identity of its backing store, its byte offset in that store, whether the
  store is a \<^verbatim>\<open>SharedArrayBuffer\<close>, and the bytes it shows.
\<close>

record buffer =
  backing :: nat
  byteOffset :: nat
  sharedStore :: bool
  content :: bytes

abbreviation byteLength :: "buffer \<Rightarrow> nat" where
  "byteLength b \<equiv> length (content b)"

section \<open>JavaScript values\<close>

text \<open>
  \<open>JNum\<close> is a number that is an integer, \<open>JFloat\<close> any other number (a fraction, NaN, an
  infinity). \<open>JObj\<close> lists the own properties and the names found on the prototype chain,
  \<open>JProxy\<close> is an object whose property traps throw, \<open>JRef\<close> an opaque frozen object known by
  its identity.
\<close>

datatype jsval =
    Undefined
  | Null
  | JBool bool
  | JNum int
  | JFloat
  | JBig int
  | JStr string
  | JBuf buffer
  | JFun nat
  | JArr "jsval list"
  | JObj "(string \<times> jsprop) list" "string list"
  | JProxy
  | JRef nat
and jsprop = DataProp jsval | AccessorProp

definition MAX_SAFE_INTEGER :: int where
  "MAX_SAFE_INTEGER = 2 ^ 53 - 1"

fun isSafeInteger :: "jsval \<Rightarrow> bool" where
  "isSafeInteger (JNum n) = (\<bar>n\<bar> \<le> MAX_SAFE_INTEGER)"
| "isSafeInteger _ = False"

text \<open>\<open>val !== null && typeof val === 'object' && !Array.isArray(val)\<close>\<close>

fun plainObject :: "jsval \<Rightarrow> bool" where
  "plainObject (JObj _ _) = True"
| "plainObject JProxy = True"
| "plainObject (JRef _) = True"
| "plainObject (JBuf _) = True"
| "plainObject _ = False"

text \<open>
  \<open>Object.getOwnPropertyDescriptor(obj, name)\<close>: \<open>Inl ()\<close> when the trap throws. Buffers and
  opaque handles have no own property of the names the code reads.
\<close>

fun ownDescriptor :: "jsval \<Rightarrow> string \<Rightarrow> unit + jsprop option" where
  "ownDescriptor JProxy _ = Inl ()"
| "ownDescriptor (JObj own _) name = Inr (map_of own name)"
| "ownDescriptor _ _ = Inr None"

text \<open>\<open>name in obj\<close> for a name that is not an own property.\<close>

fun inheritedName :: "jsval \<Rightarrow> string \<Rightarrow> bool" where
  "inheritedName (JObj _ inh) name = (name \<in> set inh)"
| "inheritedName _ _ = False"

text \<open>The length of a buffer, \<open>-1\<close> for any other value.\<close>

fun bufferLength :: "jsval \<Rightarrow> int" where
  "bufferLength (JBuf b) = int (byteLength b)"
| "bufferLength _ = -1"

section \<open>Errors as values\<close>

fun bindE :: "'e + 'a \<Rightarrow> ('a \<Rightarrow> 'e + 'b) \<Rightarrow> 'e + 'b" where
  "bindE (Inl e) f = Inl e"
| "bindE (Inr x) f = f x"

definition requireE :: "'e \<Rightarrow> bool \<Rightarrow> 'e + unit" where
  "requireE e ok = (if ok then Inr () else Inl e)"

fun mapE :: "('a \<Rightarrow> 'e + 'b) \<Rightarrow> 'a list \<Rightarrow> 'e + 'b list" where
  "mapE f [] = Inr []"
| "mapE f (x # xs) = bindE (f x) (\<lambda>y. bindE (mapE f xs) (\<lambda>ys. Inr (y # ys)))"

lemma bindE_cong [fundef_cong]:
  "r = r' \<Longrightarrow> (\<And>x. r' = Inr x \<Longrightarrow> f x = g x) \<Longrightarrow> bindE r f = bindE r' g"
  by (cases r') auto

lemma bindE_Inr [result_simps]: "bindE r f = Inr y \<longleftrightarrow> (\<exists>x. r = Inr x \<and> f x = Inr y)"
  by (cases r) auto

lemma bindE_Inl [result_simps]:
  "bindE r f = Inl e \<longleftrightarrow> r = Inl e \<or> (\<exists>x. r = Inr x \<and> f x = Inl e)"
  by (cases r) auto

lemma requireE_Inr [simp]: "requireE e ok = Inr u \<longleftrightarrow> ok"
  by (simp add: requireE_def)

lemma requireE_Inl [simp]: "requireE e ok = Inl e' \<longleftrightarrow> \<not> ok \<and> e' = e"
  by (auto simp: requireE_def)

lemma requireE_True [simp]: "requireE e True = Inr ()"
  by simp

lemma requireE_False [simp]: "requireE e False = Inl e"
  by simp

lemma mapE_length: "mapE f xs = Inr ys \<Longrightarrow> length ys = length xs"
  by (induction xs arbitrary: ys) (auto simp: result_simps)

lemma mapE_nth: "mapE f xs = Inr ys \<Longrightarrow> i < length xs \<Longrightarrow> f (xs ! i) = Inr (ys ! i)"
proof (induction xs arbitrary: ys i)
  case (Cons x xs)
  then show ?case by (cases i) (auto simp: result_simps)
qed simp

text \<open>
  A method that mutates its object and may throw: the new state is returned on both paths, since
  an exception does not undo what was written before it.
\<close>

type_synonym ('s, 'e, 'a) action = "'s \<Rightarrow> 's \<times> ('e + 'a)"

definition returnS :: "'a \<Rightarrow> ('s, 'e, 'a) action" where
  "returnS x s = (s, Inr x)"

definition throwS :: "'e \<Rightarrow> ('s, 'e, 'a) action" where
  "throwS e s = (s, Inl e)"

definition modifyS :: "('s \<Rightarrow> 's) \<Rightarrow> ('s, 'e, unit) action" where
  "modifyS f s = (f s, Inr ())"

definition bindS :: "('s, 'e, 'a) action \<Rightarrow> ('a \<Rightarrow> ('s, 'e, 'b) action) \<Rightarrow> ('s, 'e, 'b) action" where
  "bindS m f s = (case m s of (s', Inl e) \<Rightarrow> (s', Inl e) | (s', Inr x) \<Rightarrow> f x s')"

lemma bindS_simps [simp]:
  "m s = (s', Inl e) \<Longrightarrow> bindS m f s = (s', Inl e)"
  "m s = (s', Inr x) \<Longrightarrow> bindS m f s = f x s'"
  by (simp_all add: bindS_def)

lemma bindS_Inr [result_simps]:
  "bindS m f s = (t, Inr y) \<longleftrightarrow> (\<exists>s' x. m s = (s', Inr x) \<and> f x s' = (t, Inr y))"
  by (auto simp: bindS_def split: prod.splits sum.splits)

lemma returnS_eq [simp]: "returnS x s = (s, Inr x)"
  by (simp add: returnS_def)

lemma throwS_eq [simp]: "throwS e s = (s, Inl e)"
  by (simp add: throwS_def)

lemma modifyS_eq [simp]: "modifyS f s = (f s, Inr ())"
  by (simp add: modifyS_def)

lemma bindS_modifyS [simp]: "bindS (modifyS f) g s = g () (f s)"
  by (simp add: bindS_def)

section \<open>Big-endian integers\<close>

text \<open>
  \<open>be_bytes n v\<close> is what the writers store: the low \<open>n\<close> bytes of \<open>v\<close>, most significant
  first (a \<^verbatim>\<open>Uint8Array\<close> element keeps its value modulo 256). \<open>be_nat\<close> is what the readers
  compute: shift the accumulator left by eight and or the next byte in.
\<close>

fun be_bytes :: "nat \<Rightarrow> nat \<Rightarrow> bytes" where
  "be_bytes 0 v = []"
| "be_bytes (Suc n) v = be_bytes n (v div 256) @ [word_of_nat v]"

definition be_nat :: "bytes \<Rightarrow> nat" where
  "be_nat bs = foldl (\<lambda>value b. push_bit 8 value OR unat b) 0 bs"

lemma be_bytes_length [simp]: "length (be_bytes n v) = n"
  by (induction n arbitrary: v) auto

lemma shift_or_byte: "push_bit 8 (v::nat) OR unat (b::byte) = v * 256 + unat b"
proof -
  have "push_bit 8 v + unat b = push_bit 8 v OR unat b"
    by (rule disjunctive_add) (auto simp: bit_push_bit_iff bit_unsigned_iff dest: bit_imp_le_length)
  then show ?thesis
    by (simp add: push_bit_eq_mult)
qed

lemma be_nat_snoc [be_simps]: "be_nat (bs @ [b]) = be_nat bs * 256 + unat b"
  by (simp add: be_nat_def shift_or_byte)

lemma be_nat_Nil [simp]: "be_nat [] = 0"
  by (simp add: be_nat_def)

lemma be_nat_be_bytes [be_simps]: "be_nat (be_bytes n v) = v mod 256 ^ n"
proof (induction n arbitrary: v)
  case (Suc n)
  have "be_nat (be_bytes (Suc n) v) = (v div 256) mod 256 ^ n * 256 + v mod 256"
    using Suc by (simp add: be_nat_snoc unat_of_nat)
  also have "\<dots> = v mod (256 * 256 ^ n)"
    by (simp add: mod_mult2_eq)
  finally show ?case
    by simp
qed simp

lemma be_nat_less: "be_nat bs < 256 ^ length bs"
proof (induction bs rule: rev_induct)
  case (snoc b bs)
  have "unat b < 256"
    using unsigned_less [of b] by simp
  then have "be_nat bs * 256 + unat b < (be_nat bs + 1) * 256"
    by simp
  also have "\<dots> \<le> 256 ^ length bs * 256"
    using snoc by (intro mult_right_mono) auto
  finally show ?case
    by (simp add: be_nat_snoc mult.commute)
qed simp

lemma be_bytes_be_nat [be_simps]: "be_bytes (length bs) (be_nat bs) = bs"
proof (induction bs rule: rev_induct)
  case (snoc b bs)
  have "unat b < 256"
    using unsigned_less [of b] by simp
  then have "(be_nat bs * 256 + unat b) div 256 = be_nat bs"
    by simp
  moreover have "(word_of_nat (be_nat bs * 256 + unat b) :: byte) = b"
  proof -
    have "(256::byte) = 0" by simp
    then show ?thesis by (simp only: of_nat_add of_nat_mult of_nat_numeral) simp
  qed
  ultimately show ?case
    using snoc by (simp add: be_nat_snoc)
qed simp

lemma be_bytes_inject:
  assumes "be_bytes n v = be_bytes n w" "v < 256 ^ n" "w < 256 ^ n"
  shows "v = w"
  using arg_cong [OF assms(1), of be_nat] assms(2,3) by (simp add: be_simps)

section \<open>Lists\<close>

lemma slice_append_exact [simp]:
  "n = length xs \<Longrightarrow> take m (drop n (xs @ ys)) = take m ys"
  by simp

lemma length_delete_less:
  assumes "map_of al k = Some v"
  shows "length (AList.delete k al) < length al"
proof -
  from assms have "k \<in> fst ` set al"
    by (metis domI dom_map_of_conv_image_fst)
  then show ?thesis
    by (auto simp: AList.delete_eq intro!: length_filter_less)
qed

lemma set_delete [simp]: "set (AList.delete k al) = {p \<in> set al. fst p \<noteq> k}"
  by (auto simp: AList.delete_eq)

end
