(* ===== verification/Private_Errors.thy ===== *)
theory Private_Errors
  imports JS_Prelude
begin

text \<open>
  The error values of private routing (\<^verbatim>\<open>lib/private/errors.js\<close>): the two frozen code lists,
  the message of each code and the constructor \<^verbatim>\<open>new PrivateRouteError(code)\<close>, which refuses any
  string outside the two lists with a \<^verbatim>\<open>TypeError\<close>. The other theories throw the constructors of
  \<open>error_code\<close>, as the code throws the static factories of the class.
\<close>

section \<open>The codes\<close>

datatype error_code =
    INVALID_IDENTITY
  | INVALID_KEY
  | INVALID_ROLE
  | INVALID_ROUTE
  | INVALID_DESCRIPTOR
  | UNAUTHORIZED
  | REPLAY
  | COUNTER_INVALID
  | COUNTER_GAP
  | COUNTER_EXHAUSTED
  | CELL_INVALID
  | CIRCUIT_LIMIT
  | CIRCUIT_STATE
  | ROUTE_UNAVAILABLE
  | VIRTUAL_LIMIT
  | ERR_PRIVACY_UNAVAILABLE
  | ERR_PRIVATE_BRANCH_ROTATING
  | ERR_INCOMPATIBLE_RELAY
  | ERR_AUTHENTICATION
  | ERR_REPLAY
  | ERR_BUSY
  | ERR_QUOTA_EXCEEDED
  | ERR_PRIVATE_RECORDS_UNAVAILABLE
  | ERR_PRIVATE_GUARD_UNAVAILABLE
  | ERR_DESTROYED

definition ERROR_CODES :: "error_code list" where
  "ERROR_CODES = [
    INVALID_IDENTITY, INVALID_KEY, INVALID_ROLE, INVALID_ROUTE, INVALID_DESCRIPTOR,
    UNAUTHORIZED, REPLAY, COUNTER_INVALID, COUNTER_GAP, COUNTER_EXHAUSTED, CELL_INVALID,
    CIRCUIT_LIMIT, CIRCUIT_STATE, ROUTE_UNAVAILABLE, VIRTUAL_LIMIT]"

definition M3_ERROR_CODES :: "error_code list" where
  "M3_ERROR_CODES = [
    ERR_PRIVACY_UNAVAILABLE, ERR_PRIVATE_BRANCH_ROTATING, ERR_INCOMPATIBLE_RELAY,
    ERR_AUTHENTICATION, ERR_REPLAY, ERR_BUSY, ERR_QUOTA_EXCEEDED,
    ERR_PRIVATE_RECORDS_UNAVAILABLE, ERR_PRIVATE_GUARD_UNAVAILABLE, ERR_DESTROYED]"

definition ALL_ERROR_CODES :: "error_code list" where
  "ALL_ERROR_CODES = ERROR_CODES @ M3_ERROR_CODES"

text \<open>The string a code is spelled with, and its message.\<close>

fun code_name :: "error_code \<Rightarrow> string" where
  "code_name INVALID_IDENTITY = ''INVALID_IDENTITY''"
| "code_name INVALID_KEY = ''INVALID_KEY''"
| "code_name INVALID_ROLE = ''INVALID_ROLE''"
| "code_name INVALID_ROUTE = ''INVALID_ROUTE''"
| "code_name INVALID_DESCRIPTOR = ''INVALID_DESCRIPTOR''"
| "code_name UNAUTHORIZED = ''UNAUTHORIZED''"
| "code_name REPLAY = ''REPLAY''"
| "code_name COUNTER_INVALID = ''COUNTER_INVALID''"
| "code_name COUNTER_GAP = ''COUNTER_GAP''"
| "code_name COUNTER_EXHAUSTED = ''COUNTER_EXHAUSTED''"
| "code_name CELL_INVALID = ''CELL_INVALID''"
| "code_name CIRCUIT_LIMIT = ''CIRCUIT_LIMIT''"
| "code_name CIRCUIT_STATE = ''CIRCUIT_STATE''"
| "code_name ROUTE_UNAVAILABLE = ''ROUTE_UNAVAILABLE''"
| "code_name VIRTUAL_LIMIT = ''VIRTUAL_LIMIT''"
| "code_name ERR_PRIVACY_UNAVAILABLE = ''ERR_PRIVACY_UNAVAILABLE''"
| "code_name ERR_PRIVATE_BRANCH_ROTATING = ''ERR_PRIVATE_BRANCH_ROTATING''"
| "code_name ERR_INCOMPATIBLE_RELAY = ''ERR_INCOMPATIBLE_RELAY''"
| "code_name ERR_AUTHENTICATION = ''ERR_AUTHENTICATION''"
| "code_name ERR_REPLAY = ''ERR_REPLAY''"
| "code_name ERR_BUSY = ''ERR_BUSY''"
| "code_name ERR_QUOTA_EXCEEDED = ''ERR_QUOTA_EXCEEDED''"
| "code_name ERR_PRIVATE_RECORDS_UNAVAILABLE = ''ERR_PRIVATE_RECORDS_UNAVAILABLE''"
| "code_name ERR_PRIVATE_GUARD_UNAVAILABLE = ''ERR_PRIVATE_GUARD_UNAVAILABLE''"
| "code_name ERR_DESTROYED = ''ERR_DESTROYED''"

fun MESSAGES :: "error_code \<Rightarrow> string" where
  "MESSAGES INVALID_IDENTITY = ''Identity must be a 32-byte buffer''"
| "MESSAGES INVALID_KEY = ''Key is invalid''"
| "MESSAGES INVALID_ROLE = ''Role is invalid''"
| "MESSAGES INVALID_ROUTE = ''Route is invalid''"
| "MESSAGES INVALID_DESCRIPTOR = ''Descriptor is invalid''"
| "MESSAGES UNAUTHORIZED = ''Operation is unauthorized''"
| "MESSAGES REPLAY = ''Replay was detected''"
| "MESSAGES COUNTER_INVALID = ''Counter is invalid''"
| "MESSAGES COUNTER_GAP = ''Counter sequence contains a gap''"
| "MESSAGES COUNTER_EXHAUSTED = ''Counter is exhausted''"
| "MESSAGES CELL_INVALID = ''Cell is invalid''"
| "MESSAGES CIRCUIT_LIMIT = ''Circuit limit was reached''"
| "MESSAGES CIRCUIT_STATE = ''Circuit state is invalid''"
| "MESSAGES ROUTE_UNAVAILABLE = ''Route is unavailable''"
| "MESSAGES VIRTUAL_LIMIT = ''Virtual endpoint limit was reached''"
| "MESSAGES ERR_PRIVACY_UNAVAILABLE = ''Private routing is unavailable''"
| "MESSAGES ERR_PRIVATE_BRANCH_ROTATING = ''Private branch is rotating''"
| "MESSAGES ERR_INCOMPATIBLE_RELAY = ''Relay is incompatible''"
| "MESSAGES ERR_AUTHENTICATION = ''Authentication failed''"
| "MESSAGES ERR_REPLAY = ''Replay was detected''"
| "MESSAGES ERR_BUSY = ''Private routing is busy''"
| "MESSAGES ERR_QUOTA_EXCEEDED = ''Private routing quota was exceeded''"
| "MESSAGES ERR_PRIVATE_RECORDS_UNAVAILABLE = ''Private records are unavailable''"
| "MESSAGES ERR_PRIVATE_GUARD_UNAVAILABLE = ''Private guard is unavailable''"
| "MESSAGES ERR_DESTROYED = ''Private routing state is destroyed''"

section \<open>The error object\<close>

record route_error =
  err_name :: string
  err_code :: error_code
  err_message :: string

datatype type_error = TypeError string

text \<open>\<open>new PrivateRouteError(code)\<close> for an arbitrary string.\<close>

definition PrivateRouteError :: "string \<Rightarrow> type_error + route_error" where
  "PrivateRouteError code =
     (case find (\<lambda>c. code_name c = code) ALL_ERROR_CODES of
        None \<Rightarrow> Inl (TypeError ''Unknown private route error code'')
      | Some c \<Rightarrow> Inr \<lparr>err_name = ''PrivateRouteError'', err_code = c, err_message = MESSAGES c\<rparr>)"

text \<open>\<open>unsupportedCommand()\<close>: a frozen error of its own name and code, outside the two lists.\<close>

record command_error =
  cmd_name :: string
  cmd_code :: string
  cmd_message :: string

definition unsupportedCommand :: command_error where
  "unsupportedCommand =
     \<lparr>cmd_name = ''PrivateCommandUnsupportedError'',
      cmd_code = ''ERR_PRIVATE_COMMAND_UNSUPPORTED'',
      cmd_message = ''Private DHT command is unsupported''\<rparr>"

section \<open>Lemmas\<close>

lemma all_codes_listed: "c \<in> set ALL_ERROR_CODES"
  by (cases c) (simp_all add: ALL_ERROR_CODES_def ERROR_CODES_def M3_ERROR_CODES_def)

lemma code_lists_disjoint: "set ERROR_CODES \<inter> set M3_ERROR_CODES = {}"
  by (simp add: ERROR_CODES_def M3_ERROR_CODES_def)

lemma code_name_inject: "code_name c = code_name d \<longleftrightarrow> c = d"
  by (cases c; cases d) simp_all

lemma find_code_name: "find (\<lambda>d. code_name d = code_name c) xs = (if c \<in> set xs then Some c else None)"
  by (induction xs) (auto simp: code_name_inject)

lemma PrivateRouteError_code_name:
  "PrivateRouteError (code_name c) =
     Inr \<lparr>err_name = ''PrivateRouteError'', err_code = c, err_message = MESSAGES c\<rparr>"
  by (simp add: PrivateRouteError_def find_code_name all_codes_listed)

lemma PrivateRouteError_unknown:
  "code \<notin> range code_name \<Longrightarrow>
     PrivateRouteError code = Inl (TypeError ''Unknown private route error code'')"
  by (auto simp: PrivateRouteError_def find_None_iff split: option.splits dest!: find_Some_iff [THEN iffD1])

end
