(* ===== verification/Interfaces.thy ===== *)
theory Interfaces
  imports JS_Prelude
begin

text \<open>
  The contracts several components share, as locales. A component that provides one interprets the
  locale on its own operations in its own theory; the consequences proved here once (an invariant
  along every run, no event emitted twice, encodings that cannot collide) are what the properties of
  the components rest on.
\<close>

section \<open>Runs of operations\<close>

text \<open>A run applies operations in order and collects the events they emit.\<close>

fun run_events :: "('o \<Rightarrow> 's \<Rightarrow> 's \<times> 'e option) \<Rightarrow> 'o list \<Rightarrow> 's \<Rightarrow> 's \<times> 'e list" where
  "run_events stp [] s = (s, [])"
| "run_events stp (x # xs) s =
     (let (t, e) = stp x s; (u, es) = run_events stp xs t
      in (u, case e of None \<Rightarrow> es | Some y \<Rightarrow> y # es))"

text \<open>A state machine whose operations keep an invariant.\<close>

locale op_system =
  fixes stp :: "'o \<Rightarrow> 's \<Rightarrow> 's"
    and inv :: "'s \<Rightarrow> bool"
  assumes step_inv: "inv s \<Longrightarrow> inv (stp x s)"
begin

lemma run_inv: "inv s \<Longrightarrow> inv (fold stp xs s)"
  by (induction xs arbitrary: s) (auto intro: step_inv)

lemma run_prefix_inv: "inv s \<Longrightarrow> inv (fold stp (take n xs) s)"
  by (rule run_inv)

end

text \<open>
  A machine that consumes tokens: whatever a step emits could still be emitted before it and never
  after it, and nothing becomes available again.
\<close>

locale single_use =
  fixes stp :: "'o \<Rightarrow> 's \<Rightarrow> 's \<times> 'e option"
    and inv :: "'s \<Rightarrow> bool"
    and fresh :: "'s \<Rightarrow> 'e \<Rightarrow> bool"
  assumes use_inv: "inv s \<Longrightarrow> stp x s = (t, r) \<Longrightarrow> inv t"
    and use_fresh: "inv s \<Longrightarrow> stp x s = (t, Some e) \<Longrightarrow> fresh s e"
    and use_spent: "inv s \<Longrightarrow> stp x s = (t, Some e) \<Longrightarrow> \<not> fresh t e"
    and use_antimono: "inv s \<Longrightarrow> stp x s = (t, r) \<Longrightarrow> fresh t d \<Longrightarrow> fresh s d"
begin

lemma run_fresh: "inv s \<Longrightarrow> e \<in> set (snd (run_events stp xs s)) \<Longrightarrow> fresh s e"
proof (induction xs arbitrary: s)
  case (Cons x xs)
  obtain t r where st: "stp x s = (t, r)" by force
  with Cons.prems(1) have "inv t" by (rule use_inv)
  from Cons.prems(2) st consider "r = Some e" | "e \<in> set (snd (run_events stp xs t))"
    by (cases r) (auto simp: case_prod_unfold Let_def)
  then show ?case
  proof cases
    case 1
    with st Cons.prems(1) show ?thesis by (blast intro: use_fresh)
  next
    case 2
    with \<open>inv t\<close> have "fresh t e" by (rule Cons.IH)
    with Cons.prems(1) st show ?thesis by (rule use_antimono)
  qed
qed simp

lemma run_distinct: "inv s \<Longrightarrow> distinct (snd (run_events stp xs s))"
proof (induction xs arbitrary: s)
  case (Cons x xs)
  obtain t r where st: "stp x s = (t, r)" by force
  with Cons.prems have "inv t" by (rule use_inv)
  then have "distinct (snd (run_events stp xs t))" by (rule Cons.IH)
  moreover have "e \<notin> set (snd (run_events stp xs t))" if "r = Some e" for e
    using use_spent [OF Cons.prems] st that run_fresh [OF \<open>inv t\<close>] by blast
  ultimately show ?case
    using st by (cases r) (auto simp: case_prod_unfold Let_def)
qed simp

lemma run_state_inv: "inv s \<Longrightarrow> inv (fst (run_events stp xs s))"
proof (induction xs arbitrary: s)
  case (Cons x xs)
  obtain t r where st: "stp x s = (t, r)" by force
  with Cons.prems have "inv t" by (rule use_inv)
  then show ?case
    using Cons.IH st by (simp add: case_prod_unfold Let_def)
qed simp

end

section \<open>Encodings\<close>

text \<open>
  An encoder that may refuse its argument and a strict decoder: what is encoded decodes to itself,
  and whatever decodes is exactly the encoding of the result.
\<close>

locale strict_codec =
  fixes enc :: "'a \<Rightarrow> 'e + bytes"
    and dec :: "bytes \<Rightarrow> 'e + 'a"
  assumes dec_enc: "enc x = Inr bs \<Longrightarrow> dec bs = Inr x"
    and enc_dec: "dec bs = Inr x \<Longrightarrow> enc x = Inr bs"
begin

lemma decode_iff_encode: "dec bs = Inr x \<longleftrightarrow> enc x = Inr bs"
  using dec_enc enc_dec by blast

lemma enc_inject: "enc x = Inr bs \<Longrightarrow> enc y = Inr bs \<Longrightarrow> x = y"
  by (metis dec_enc sum.inject(2))

lemma dec_inject: "dec bs = Inr x \<Longrightarrow> dec cs = Inr x \<Longrightarrow> bs = cs"
  by (metis enc_dec sum.inject(2))

lemma dec_refuses_non_image: "(\<And>x. enc x \<noteq> Inr bs) \<Longrightarrow> \<exists>e. dec bs = Inl e"
  using enc_dec by (cases "dec bs") auto

end

end
