(* ===== verification/Counters.thy ===== *)
theory Counters
  imports Private_Errors Interfaces
begin

text \<open>
  The per-link counters of private routing (\<^verbatim>\<open>lib/private/counters.js\<close>): the sender's nonce counter,
  the ordered receiver that reorders authenticated cells inside a window and fails the link on a gap,
  and the datagram replay window. The clock and the test-only buffer observer are callbacks of the
  caller; each call is an argument of the method that makes it, saying what it returns (or that it
  throws) and whether it destroys the receiver re-entrantly.
\<close>

section \<open>Options and scalar checks\<close>

definition MAX_COUNTER :: nat where
  "MAX_COUNTER = 2 ^ 64 - 1"

definition ROTATE_AT :: nat where
  "ROTATE_AT = MAX_COUNTER - 1024"

definition MAX_WINDOW :: int where
  "MAX_WINDOW = 4096"

definition MAX_BUFFERED_PAYLOAD :: int where
  "MAX_BUFFERED_PAYLOAD = 1146"

abbreviation TEST_ONLY_BUFFER_OBSERVER :: string where
  "TEST_ONLY_BUFFER_OBSERVER \<equiv> ''Symbol(test-only-buffer-observer)''"

definition counters_optionsObject :: "jsval \<Rightarrow> bool \<Rightarrow> error_code + jsval" where
  "counters_optionsObject options optional =
     (if options = Undefined \<and> optional then Inr (JObj [] [])
      else if plainObject options then Inr options
      else Inl COUNTER_INVALID)"

definition counters_option :: "jsval \<Rightarrow> string \<Rightarrow> bool \<Rightarrow> error_code + jsval" where
  "counters_option options name required =
     (case ownDescriptor options name of
        Inl _ \<Rightarrow> Inl COUNTER_INVALID
      | Inr None \<Rightarrow>
          if inheritedName options name \<or> required then Inl COUNTER_INVALID else Inr Undefined
      | Inr (Some AccessorProp) \<Rightarrow> Inl COUNTER_INVALID
      | Inr (Some (DataProp v)) \<Rightarrow> Inr v)"

fun counterValue :: "jsval \<Rightarrow> nat \<Rightarrow> error_code + nat" where
  "counterValue (JBig v) maximum =
     (if v < 0 \<or> v > int maximum then Inl COUNTER_INVALID else Inr (nat v))"
| "counterValue _ maximum = Inl COUNTER_INVALID"

definition counterMaximum :: "jsval \<Rightarrow> error_code + nat" where
  "counterMaximum value =
     counterValue (if value = Undefined then JBig (int MAX_COUNTER) else value) MAX_COUNTER"

definition rotationAt :: "nat \<Rightarrow> nat" where
  "rotationAt maximum = (if maximum > 1024 then maximum - 1024 else 0)"

fun windowSize :: "jsval \<Rightarrow> error_code + nat" where
  "windowSize (JNum v) = (if v < 1 \<or> v > MAX_WINDOW then Inl COUNTER_INVALID else Inr (nat v))"
| "windowSize _ = Inl COUNTER_INVALID"

fun timeValue :: "jsval \<Rightarrow> error_code + nat" where
  "timeValue (JNum v) =
     (if isSafeInteger (JNum v) \<and> v \<ge> 0 then Inr (nat v) else Inl COUNTER_INVALID)"
| "timeValue _ = Inl COUNTER_INVALID"

fun isFunction :: "jsval \<Rightarrow> bool" where
  "isFunction (JFun _) = True"
| "isFunction _ = False"

lemma counterValue_Inr: "counterValue v m = Inr c \<longleftrightarrow> v = JBig (int c) \<and> c \<le> m"
  by (cases "(v, m)" rule: counterValue.cases) auto

lemma windowSize_Inr: "windowSize v = Inr w \<longleftrightarrow> v = JNum (int w) \<and> 1 \<le> w \<and> w \<le> 4096"
  by (cases v) (auto simp: MAX_WINDOW_def)

section \<open>SenderCounter\<close>

record SenderCounter =
  sc_value :: nat
  sc_maximum :: nat
  sc_rotateAt :: nat
  sc_closed :: bool

definition SenderCounter_new :: "jsval \<Rightarrow> error_code + SenderCounter" where
  "SenderCounter_new options0 =
     bindE (counters_optionsObject options0 True) (\<lambda>options.
     bindE (counters_option options ''initial'' False) (\<lambda>configured.
     bindE (bindE (counters_option options ''maximum'' False) counterMaximum) (\<lambda>maximum.
     bindE (counterValue (if configured = Undefined then JBig 0 else configured) maximum) (\<lambda>value.
       Inr \<lparr>sc_value = value, sc_maximum = maximum, sc_rotateAt = rotationAt maximum,
            sc_closed = False\<rparr>))))"

definition sc_needsRotation :: "SenderCounter \<Rightarrow> bool" where
  "sc_needsRotation s = (sc_value s \<ge> sc_rotateAt s)"

definition sc_next :: "(SenderCounter, error_code, nat) action" where
  "sc_next s =
     (if sc_closed s then (s, Inl COUNTER_EXHAUSTED)
      else let counter = sc_value s in
        if counter = sc_maximum s then (s\<lparr>sc_closed := True\<rparr>, Inr counter)
        else (s\<lparr>sc_value := counter + 1\<rparr>, Inr counter))"

definition sc_destroy :: "SenderCounter \<Rightarrow> SenderCounter" where
  "sc_destroy s = s\<lparr>sc_value := 0, sc_closed := True\<rparr>"

datatype sender_op = SendNext | SendDestroy

fun sender_step :: "sender_op \<Rightarrow> SenderCounter \<Rightarrow> SenderCounter \<times> nat option" where
  "sender_step SendNext s =
     (case sc_next s of (t, Inl _) \<Rightarrow> (t, None) | (t, Inr c) \<Rightarrow> (t, Some c))"
| "sender_step SendDestroy s = (sc_destroy s, None)"

definition sender_inv :: "SenderCounter \<Rightarrow> bool" where
  "sender_inv s \<longleftrightarrow> sc_value s \<le> sc_maximum s \<and> sc_maximum s \<le> MAX_COUNTER"

definition sender_fresh :: "SenderCounter \<Rightarrow> nat \<Rightarrow> bool" where
  "sender_fresh s c \<longleftrightarrow> \<not> sc_closed s \<and> sc_value s \<le> c \<and> c \<le> sc_maximum s"

lemma SenderCounter_new_inv:
  "SenderCounter_new v = Inr s \<Longrightarrow>
     sender_inv s \<and> \<not> sc_closed s \<and> sc_rotateAt s = rotationAt (sc_maximum s)"
  by (auto simp: SenderCounter_new_def result_simps sender_inv_def counterMaximum_def
      counterValue_Inr)

lemma sc_next_inv: "sender_inv s \<Longrightarrow> sc_next s = (t, r) \<Longrightarrow> sender_inv t"
  by (auto simp: sc_next_def sender_inv_def Let_def split: if_splits)

lemmas sender_simps = sc_next_def sc_destroy_def sender_inv_def sender_fresh_def Let_def

interpretation snd_use: single_use sender_step sender_inv sender_fresh
proof unfold_locales
  fix s t :: SenderCounter and x r
  assume s: "sender_inv s" and st: "sender_step x s = (t, r)"
  show "sender_inv t"
    using s st by (cases x) (auto simp: sender_simps split: if_splits)
  show "sender_fresh t d \<Longrightarrow> sender_fresh s d" for d
    using s st by (cases x) (auto simp: sender_simps split: if_splits)
next
  fix s t :: SenderCounter and x e
  assume s: "sender_inv s" and st: "sender_step x s = (t, Some e)"
  show "sender_fresh s e"
    using s st by (cases x) (auto simp: sender_simps split: if_splits)
  show "\<not> sender_fresh t e"
    using s st by (cases x) (auto simp: sender_simps split: if_splits)
qed

text \<open>What \<open>n\<close> calls of \<open>next()\<close> give: the counters from the current value on, then exhaustion.\<close>

fun sender_outputs :: "nat \<Rightarrow> SenderCounter \<Rightarrow> (error_code + nat) list" where
  "sender_outputs 0 s = []"
| "sender_outputs (Suc n) s = (case sc_next s of (t, r) \<Rightarrow> r # sender_outputs n t)"

lemma sender_outputs_closed:
  "sc_closed s \<Longrightarrow> sender_outputs n s = replicate n (Inl COUNTER_EXHAUSTED)"
  by (induction n) (simp_all add: sc_next_def)

lemma sender_outputs_open:
  "sender_inv s \<Longrightarrow> \<not> sc_closed s \<Longrightarrow>
     sender_outputs n s =
       map (\<lambda>i. if sc_value s + i \<le> sc_maximum s then Inr (sc_value s + i) else Inl COUNTER_EXHAUSTED)
         [0..<n]"
proof (induction n arbitrary: s)
  case (Suc n)
  show ?case
  proof (cases "sc_value s = sc_maximum s")
    case True
    with Suc.prems show ?thesis
      by (simp add: sc_next_def Let_def sender_outputs_closed upt_conv_Cons map_replicate_const
          flip: map_Suc_upt del: upt_Suc)
         (simp add: map_replicate_const o_def)
  next
    case False
    define t where "t = s\<lparr>sc_value := sc_value s + 1\<rparr>"
    from False Suc.prems have t: "sender_inv t" "\<not> sc_closed t" "sc_next s = (t, Inr (sc_value s))"
      by (auto simp: t_def sender_simps)
    show ?thesis
      using t Suc.IH [OF t(1,2)] Suc.prems False
      by (simp add: upt_conv_Cons flip: map_Suc_upt del: upt_Suc)
         (simp add: t_def o_def sender_inv_def)
  qed
qed simp

section \<open>Properties of the sender\<close>

text \<open>
  a sender built from any accepted options hands out its counters consecutively from the
  configured start: the \<open>i\<close>-th call of \<open>next()\<close> returns start plus \<open>i\<close> while that does not pass
  the maximum, and every later call throws \<open>COUNTER_EXHAUSTED\<close>. The counter never wraps.
\<close>

theorem sender_counts_up_to_maximum:
  assumes "SenderCounter_new v = Inr s"
  shows "sender_outputs n s =
    map (\<lambda>i. if sc_value s + i \<le> sc_maximum s then Inr (sc_value s + i) else Inl COUNTER_EXHAUSTED)
      [0..<n]"
  using SenderCounter_new_inv [OF assms] by (intro sender_outputs_open) auto

theorem sender_counts_up_to_maximum_witness:
  "sender_outputs 4 \<lparr>sc_value = 5, sc_maximum = 7, sc_rotateAt = 0, sc_closed = False\<rparr> =
     [Inr 5, Inr 6, Inr 7, Inl COUNTER_EXHAUSTED]"
proof -
  have "SenderCounter_new (JObj [(''initial'', DataProp (JBig 5)), (''maximum'', DataProp (JBig 7))] []) =
      Inr \<lparr>sc_value = 5, sc_maximum = 7, sc_rotateAt = 0, sc_closed = False\<rparr>"
    by (simp add: SenderCounter_new_def counters_optionsObject_def counters_option_def
        counterMaximum_def MAX_COUNTER_def rotationAt_def)
  from sender_counts_up_to_maximum [OF this, of 4] show ?thesis
    by (simp add: upt_rec)
qed

text \<open>
  whatever the interleaving of \<open>next()\<close> and \<open>destroy()\<close>, no counter value is handed out twice,
  so no nonce built from it is used twice.
\<close>

theorem sender_never_repeats:
  assumes "SenderCounter_new v = Inr s"
  shows "distinct (snd (run_events sender_step ops s))"
  using SenderCounter_new_inv [OF assms] by (intro snd_use.run_distinct) simp

theorem sender_never_repeats_witness:
  "distinct (snd (run_events sender_step [SendNext, SendNext, SendDestroy, SendNext]
     \<lparr>sc_value = 0, sc_maximum = MAX_COUNTER, sc_rotateAt = ROTATE_AT, sc_closed = False\<rparr>)) \<and>
   snd (run_events sender_step [SendNext, SendNext, SendDestroy, SendNext]
     \<lparr>sc_value = 0, sc_maximum = MAX_COUNTER, sc_rotateAt = ROTATE_AT, sc_closed = False\<rparr>) = [0, 1]"
proof -
  have "SenderCounter_new Undefined =
      Inr \<lparr>sc_value = 0, sc_maximum = MAX_COUNTER, sc_rotateAt = ROTATE_AT, sc_closed = False\<rparr>"
    by (simp add: SenderCounter_new_def counters_optionsObject_def counters_option_def
        counterMaximum_def MAX_COUNTER_def rotationAt_def ROTATE_AT_def)
  from sender_never_repeats [OF this] show ?thesis
    by (simp add: sc_next_def sc_destroy_def MAX_COUNTER_def)
qed

end
