(* ===== verification/Ordered_Receiver.thy ===== *)
theory Ordered_Receiver
  imports Counters
begin

text \<open>
  \<^verbatim>\<open>OrderedReceiver\<close> of \<^verbatim>\<open>lib/private/counters.js\<close>: authenticated cells arrive in any order inside a
  window and are delivered in counter order; a duplicate is refused, a gap that stays open past the
  timeout or leaves the window fails the receiver for good. The private fields are the record's
  fields; \<open>#now\<close> and \<open>#observeBuffered\<close> are kept as "present" flags, their calls are arguments.
  Zeroization of released copies is not observable in a value model and is left out.
\<close>

section \<open>State\<close>

record OrderedReceiver =
  or_window :: nat
  or_gapTimeout :: nat
  or_hasNow :: bool
  or_next :: nat
  or_maximum :: nat
  or_rotateAt :: nat
  or_buffer :: "(nat \<times> jsval) list"
  or_gapStartedAt :: "nat option"
  or_lastObservedAt :: "nat option"
  or_closed :: bool
  or_mutating :: bool
  or_destroyRequested :: bool
  or_observes :: bool

text \<open>
  One call of a callback: whether it calls \<open>destroy()\<close> on the receiver before it returns, and its
  result, \<open>None\<close> when it throws. A re-entrant \<open>pushAuthenticated\<close> or \<open>expire\<close> throws inside the
  callback (the \<open>#mutating\<close> guard) and changes nothing.
\<close>

record callback =
  cb_destroys :: bool
  cb_result :: "jsval option"

definition OrderedReceiver_new :: "jsval \<Rightarrow> error_code + OrderedReceiver" where
  "OrderedReceiver_new options0 =
     bindE (counters_optionsObject options0 False) (\<lambda>options.
     bindE (counters_option options ''window'' True) (\<lambda>window.
     bindE (counters_option options ''gapTimeout'' True) (\<lambda>gapTimeout.
     bindE (counters_option options ''now'' True) (\<lambda>now.
     bindE (counters_option options ''initial'' False) (\<lambda>configured.
     bindE (counters_option options TEST_ONLY_BUFFER_OBSERVER False) (\<lambda>observeBuffered.
     bindE (windowSize window) (\<lambda>w.
     bindE (timeValue gapTimeout) (\<lambda>gt.
     bindE (requireE COUNTER_INVALID (isFunction now)) (\<lambda>_.
     bindE (requireE COUNTER_INVALID (observeBuffered = Undefined \<or> isFunction observeBuffered)) (\<lambda>_.
     bindE (bindE (counters_option options ''maximum'' False) counterMaximum) (\<lambda>maximum.
     bindE (counterValue (if configured = Undefined then JBig 0 else configured) maximum) (\<lambda>nxt.
       Inr \<lparr>or_window = w, or_gapTimeout = gt, or_hasNow = True, or_next = nxt,
            or_maximum = maximum, or_rotateAt = rotationAt maximum, or_buffer = [],
            or_gapStartedAt = None, or_lastObservedAt = None, or_closed = False,
            or_mutating = False, or_destroyRequested = False,
            or_observes = (observeBuffered \<noteq> Undefined)\<rparr>))))))))))))"

definition or_needsRotation :: "OrderedReceiver \<Rightarrow> bool" where
  "or_needsRotation s = (or_next s \<ge> or_rotateAt s)"

definition or_buffered :: "OrderedReceiver \<Rightarrow> nat" where
  "or_buffered s = length (or_buffer s)"

section \<open>Private methods\<close>

text \<open>\<open>b4a.byteLength\<close> of a string: its length in UTF-8, where a character of the model takes one or two bytes.\<close>

definition utf8Length :: "string \<Rightarrow> nat" where
  "utf8Length str = sum_list (map (\<lambda>c. if (of_char c :: nat) < 128 then 1 else 2) str)"

definition or_clearBuffered :: "OrderedReceiver \<Rightarrow> OrderedReceiver" where
  "or_clearBuffered s = s\<lparr>or_buffer := [], or_gapStartedAt := None, or_lastObservedAt := None\<rparr>"

definition or_failGap :: "(OrderedReceiver, error_code, 'a) action" where
  "or_failGap s = ((or_clearBuffered s)\<lparr>or_closed := True\<rparr>, Inl COUNTER_GAP)"

definition or_failInvalid :: "(OrderedReceiver, error_code, 'a) action" where
  "or_failInvalid s = ((or_clearBuffered s)\<lparr>or_closed := True\<rparr>, Inl COUNTER_INVALID)"

definition or_closeExhausted :: "OrderedReceiver \<Rightarrow> OrderedReceiver" where
  "or_closeExhausted s = (or_clearBuffered s)\<lparr>or_next := or_maximum s, or_closed := True\<rparr>"

definition or_destroyNow :: "OrderedReceiver \<Rightarrow> OrderedReceiver" where
  "or_destroyNow s =
     (or_clearBuffered s)\<lparr>or_destroyRequested := False, or_next := 0, or_closed := True,
        or_hasNow := False, or_observes := False\<rparr>"

definition or_destroy :: "OrderedReceiver \<Rightarrow> OrderedReceiver" where
  "or_destroy s =
     (if or_mutating s then s\<lparr>or_destroyRequested := True, or_closed := True\<rparr> else or_destroyNow s)"

definition or_failClock :: "(OrderedReceiver, error_code, 'a) action" where
  "or_failClock s =
     (if or_gapStartedAt s \<noteq> None then or_failInvalid s else throwS COUNTER_INVALID s)"

definition or_clockValue :: "jsval \<Rightarrow> (OrderedReceiver, error_code, nat) action" where
  "or_clockValue current s =
     (case timeValue current of Inl _ \<Rightarrow> or_failClock s | Inr n \<Rightarrow> returnS n s)"

definition or_assertCallbackState :: "(OrderedReceiver, error_code, unit) action" where
  "or_assertCallbackState s =
     (if or_destroyRequested s \<or> or_closed s then throwS COUNTER_EXHAUSTED s else returnS () s)"

definition or_assertNoDeferredDestroy :: "(OrderedReceiver, error_code, unit) action" where
  "or_assertNoDeferredDestroy s =
     (if or_destroyRequested s then throwS COUNTER_EXHAUSTED s else returnS () s)"

definition or_runCallback :: "callback \<Rightarrow> OrderedReceiver \<Rightarrow> OrderedReceiver" where
  "or_runCallback cb s = (if cb_destroys cb then or_destroy s else s)"

definition or_readNow :: "callback \<Rightarrow> (OrderedReceiver, error_code, nat) action" where
  "or_readNow cb s0 =
     (let s = or_runCallback cb s0 in
      case cb_result cb of
        None \<Rightarrow> or_failClock s
      | Some current \<Rightarrow> bindS or_assertCallbackState (\<lambda>_. or_clockValue current) s)"

text \<open>\<open>current < null\<close> compares with 0, so an unset observation time never fails.\<close>

definition or_expireAt :: "nat \<Rightarrow> (OrderedReceiver, error_code, bool) action" where
  "or_expireAt current s =
     (case or_gapStartedAt s of
        None \<Rightarrow> returnS False s
      | Some started \<Rightarrow>
          if current < (case or_lastObservedAt s of None \<Rightarrow> 0 | Some t \<Rightarrow> t) then or_failInvalid s
          else let s' = s\<lparr>or_lastObservedAt := Some current\<rparr> in
            if int current - int started < int (or_gapTimeout s') then returnS False s'
            else or_failGap s')"

definition or_copyForBuffer :: "jsval \<Rightarrow> (OrderedReceiver, error_code, jsval) action" where
  "or_copyForBuffer payload s =
     (case payload of
        JBuf b \<Rightarrow>
          if int (byteLength b) > MAX_BUFFERED_PAYLOAD then or_failInvalid s else returnS payload s
      | JStr str \<Rightarrow>
          if int (utf8Length str) > MAX_BUFFERED_PAYLOAD then or_failInvalid s else returnS payload s
      | _ \<Rightarrow> or_failInvalid s)"

definition or_notifyObserver :: "callback \<Rightarrow> (OrderedReceiver, error_code, unit) action" where
  "or_notifyObserver cb s0 =
     (if \<not> or_observes s0 then returnS () s0
      else let s = or_runCallback cb s0 in
        case cb_result cb of
          None \<Rightarrow> or_failInvalid s
        | Some _ \<Rightarrow> or_assertCallbackState s)"

definition or_takeBuffered :: "nat \<Rightarrow> OrderedReceiver \<Rightarrow> OrderedReceiver" where
  "or_takeBuffered counter s = s\<lparr>or_buffer := AList.delete counter (or_buffer s)\<rparr>"

text \<open>The delivery loop: \<open>while (this.#buffer.has(this.#next))\<close>.\<close>

function or_drain :: "OrderedReceiver \<Rightarrow> jsval list \<Rightarrow> OrderedReceiver \<times> jsval list \<times> bool" where
  "or_drain s delivered =
     (case map_of (or_buffer s) (or_next s) of
        None \<Rightarrow> (s, delivered, False)
      | Some p \<Rightarrow>
          let s' = or_takeBuffered (or_next s) s in
          if or_next s' = or_maximum s' then (or_closeExhausted s', delivered @ [p], True)
          else or_drain (s'\<lparr>or_next := or_next s' + 1\<rparr>) (delivered @ [p]))"
  by pat_completeness auto
termination
  by (relation "measure (\<lambda>(s, _). length (or_buffer s))")
     (auto simp: or_takeBuffered_def intro: length_delete_less)

declare or_drain.simps [simp del]

section \<open>Public methods\<close>

text \<open>\<open>#pushAuthenticated\<close>, branch \<open>counter > this.#next\<close>: keep the cell for later.\<close>

definition or_store :: "callback \<Rightarrow> nat \<Rightarrow> jsval \<Rightarrow> bool \<Rightarrow> nat \<Rightarrow> (OrderedReceiver, error_code, jsval list) action" where
  "or_store obs counter payload startsGap startedAt =
     bindS (or_copyForBuffer payload) (\<lambda>owned.
     bindS (modifyS (\<lambda>s. s\<lparr>or_buffer := AList.update counter owned (or_buffer s)\<rparr>)) (\<lambda>_.
     bindS (modifyS (\<lambda>s. if startsGap
                          then s\<lparr>or_gapStartedAt := Some startedAt, or_lastObservedAt := Some startedAt\<rparr>
                          else s)) (\<lambda>_.
     bindS (or_notifyObserver obs) (\<lambda>_.
     bindS or_assertNoDeferredDestroy (\<lambda>_.
     returnS [])))))"

definition or_pushAhead :: "callback \<Rightarrow> callback \<Rightarrow> nat \<Rightarrow> jsval \<Rightarrow> (OrderedReceiver, error_code, jsval list) action" where
  "or_pushAhead now obs counter payload s =
     (if counter - or_next s \<ge> or_window s then or_failGap s
      else if or_gapTimeout s = 0 then or_failGap s
      else case or_gapStartedAt s of
             None \<Rightarrow> bindS (or_readNow now) (or_store obs counter payload True) s
           | Some started \<Rightarrow> or_store obs counter payload False started s)"

text \<open>\<open>#pushAuthenticated\<close>, branch \<open>counter === this.#next\<close>: deliver it and what follows it.\<close>

definition or_pushNext :: "nat \<Rightarrow> jsval \<Rightarrow> (OrderedReceiver, error_code, jsval list) action" where
  "or_pushNext counter payload s =
     (if counter = or_maximum s then
        bindS (modifyS or_closeExhausted) (\<lambda>_.
        bindS or_assertNoDeferredDestroy (\<lambda>_. returnS [payload])) s
      else
        case or_drain (s\<lparr>or_next := counter + 1\<rparr>) [payload] of
          (s', delivered, exhausted) \<Rightarrow>
            bindS (modifyS (\<lambda>s. if \<not> exhausted \<and> or_buffer s = []
                                 then s\<lparr>or_gapStartedAt := None, or_lastObservedAt := None\<rparr>
                                 else s)) (\<lambda>_.
            bindS or_assertNoDeferredDestroy (\<lambda>_. returnS delivered)) s')"

definition or_push :: "callback \<Rightarrow> callback \<Rightarrow> nat \<Rightarrow> jsval \<Rightarrow> (OrderedReceiver, error_code, jsval list) action" where
  "or_push now obs counter payload =
     bindS (\<lambda>s. if or_closed s then throwS COUNTER_EXHAUSTED s else returnS () s) (\<lambda>_.
     bindS (\<lambda>s. if or_gapStartedAt s \<noteq> None then bindS (or_readNow now) or_expireAt s
                 else returnS False s) (\<lambda>_ s.
       if counter < or_next s \<or> map_of (or_buffer s) counter \<noteq> None then throwS REPLAY s
       else if counter > or_next s then or_pushAhead now obs counter payload s
       else or_pushNext counter payload s))"

definition or_mutate :: "(OrderedReceiver, error_code, 'a) action \<Rightarrow> (OrderedReceiver, error_code, 'a) action" where
  "or_mutate operation s =
     (if or_mutating s then throwS COUNTER_INVALID s
      else case operation (s\<lparr>or_mutating := True\<rparr>) of
        (t, r) \<Rightarrow>
          let u = t\<lparr>or_mutating := False\<rparr>
          in (if or_destroyRequested u then or_destroyNow u else u, r))"

definition pushAuthenticated ::
  "callback \<Rightarrow> callback \<Rightarrow> jsval \<Rightarrow> jsval \<Rightarrow> (OrderedReceiver, error_code, jsval list) action" where
  "pushAuthenticated now obs counter payload =
     or_mutate (\<lambda>s. case counterValue counter (or_maximum s) of
                       Inl e \<Rightarrow> throwS e s
                     | Inr c \<Rightarrow> or_push now obs c payload s)"

definition or_expire :: "callback \<Rightarrow> jsval \<Rightarrow> (OrderedReceiver, error_code, bool) action" where
  "or_expire now at =
     or_mutate
       (bindS (\<lambda>s. if or_closed s then throwS COUNTER_EXHAUSTED s else returnS () s) (\<lambda>_.
        bindS (if at = Undefined then or_readNow now else or_clockValue at) or_expireAt))"

section \<open>Invariant\<close>

fun payloadSize :: "jsval \<Rightarrow> nat" where
  "payloadSize (JBuf b) = byteLength b"
| "payloadSize (JStr str) = utf8Length str"
| "payloadSize _ = 0"

text \<open>What holds of the buffer at every moment, also while a method runs.\<close>

definition or_core :: "OrderedReceiver \<Rightarrow> bool" where
  "or_core s \<longleftrightarrow>
     1 \<le> or_window s \<and> or_window s \<le> 4096 \<and> or_next s \<le> or_maximum s \<and> or_maximum s \<le> MAX_COUNTER \<and>
     distinct (map fst (or_buffer s)) \<and>
     (\<forall>(c, p) \<in> set (or_buffer s). or_next s < c \<and> c < or_next s + or_window s \<and>
        c \<le> or_maximum s \<and> payloadSize p \<le> 1146) \<and>
     (or_gapStartedAt s = None \<longleftrightarrow> or_buffer s = []) \<and>
     (or_lastObservedAt s = None \<longleftrightarrow> or_buffer s = [])"

text \<open>Between calls.\<close>

definition or_inv :: "OrderedReceiver \<Rightarrow> bool" where
  "or_inv s \<longleftrightarrow> or_core s \<and> \<not> or_mutating s \<and> \<not> or_destroyRequested s \<and>
     (or_closed s \<longrightarrow> or_buffer s = [])"

lemmas or_fail_defs = or_failGap_def or_failInvalid_def or_clearBuffered_def

lemma or_drain_spec:
  assumes "or_drain s acc = (t, out, ex)"
    and "\<forall>(c, p) \<in> set (or_buffer s). or_next s \<le> c \<and> c \<le> or_maximum s"
    and "or_next s \<le> or_maximum s"
  shows "\<exists>k. out = acc @ map (\<lambda>i. the (map_of (or_buffer s) i)) [or_next s ..< or_next s + k] \<and>
    (\<forall>i \<in> {or_next s ..< or_next s + k}. map_of (or_buffer s) i \<noteq> None) \<and>
    (if ex then t = or_closeExhausted s \<and> or_next s + k = or_maximum s + 1
     else t = s\<lparr>or_next := or_next s + k,
                  or_buffer := filter (\<lambda>(c, _). or_next s + k \<le> c) (or_buffer s)\<rparr> \<and>
          or_next s + k \<le> or_maximum s \<and> map_of (or_buffer s) (or_next s + k) = None)"
  using assms
proof (induction s acc arbitrary: t out ex rule: or_drain.induct)
  case (1 s acc)
  let ?n = "or_next s" and ?b = "or_buffer s"
  show ?case
  proof (cases "map_of ?b ?n")
    case None
    with "1.prems" have "t = s" "out = acc" "\<not> ex"
      by (auto simp: or_drain.simps [of s acc])
    moreover have "filter (\<lambda>(c, _). ?n \<le> c) ?b = ?b"
      using "1.prems"(2) by (auto intro!: filter_True)
    ultimately show ?thesis
      using None "1.prems"(3) by (intro exI [of _ 0]) simp
  next
    case (Some p)
    show ?thesis
    proof (cases "?n = or_maximum s")
      case True
      with Some "1.prems" have "t = or_closeExhausted s" "out = acc @ [p]" ex
        by (auto simp: or_drain.simps [of s acc] or_takeBuffered_def or_closeExhausted_def
            or_clearBuffered_def)
      with True Some show ?thesis
        by (intro exI [of _ 1]) simp
    next
      case False
      define u where "u = (or_takeBuffered ?n s)\<lparr>or_next := ?n + 1\<rparr>"
      have ub: "or_buffer u = AList.delete ?n ?b" and un: "or_next u = ?n + 1"
        and um: "or_maximum u = or_maximum s"
        by (simp_all add: u_def or_takeBuffered_def)
      have dr: "or_drain u (acc @ [p]) = (t, out, ex)"
        using "1.prems"(1) Some False
        by (simp add: or_drain.simps [of s acc] u_def or_takeBuffered_def)
      have pre: "\<forall>(c, q) \<in> set (or_buffer u). or_next u \<le> c \<and> c \<le> or_maximum u"
        using "1.prems"(2) by (fastforce simp: ub un um)
      have le: "or_next u \<le> or_maximum u"
        using False "1.prems"(3) by (simp add: un um)
      have nm: "or_next (or_takeBuffered ?n s) \<noteq> or_maximum (or_takeBuffered ?n s)"
        using False by (simp add: or_takeBuffered_def)
      have ueq: "u = (or_takeBuffered ?n s)\<lparr>or_next := or_next (or_takeBuffered ?n s) + 1\<rparr>"
        by (simp add: u_def or_takeBuffered_def)
      have look: "map_of (or_buffer u) i = map_of ?b i" if "i \<noteq> ?n" for i
        using that by (simp add: ub delete_conv)
      obtain k where out: "out = (acc @ [p]) @ map (\<lambda>i. the (map_of (or_buffer u) i)) [or_next u ..< or_next u + k]"
        and hit: "\<forall>i \<in> {or_next u ..< or_next u + k}. map_of (or_buffer u) i \<noteq> None"
        and fin: "if ex then t = or_closeExhausted u \<and> or_next u + k = or_maximum u + 1
           else t = u\<lparr>or_next := or_next u + k,
                        or_buffer := filter (\<lambda>(c, _). or_next u + k \<le> c) (or_buffer u)\<rparr> \<and>
                or_next u + k \<le> or_maximum u \<and> map_of (or_buffer u) (or_next u + k) = None"
        using "1.IH" [OF Some refl nm, folded ueq, OF dr pre le] by blast
      have "out = acc @ map (\<lambda>i. the (map_of ?b i)) [?n ..< ?n + Suc k]"
        using out Some by (simp add: un upt_conv_Cons look del: upt_Suc)
      moreover have "\<forall>i \<in> {?n ..< ?n + Suc k}. map_of ?b i \<noteq> None"
        using hit Some by (metis Suc_eq_plus1 atLeastLessThan_iff le_neq_implies_less look un
            Suc_leI add_Suc_shift option.discI)
      moreover have "filter (\<lambda>(c, _). ?n + Suc k \<le> c) (AList.delete ?n ?b)
          = filter (\<lambda>(c, _). ?n + Suc k \<le> c) ?b"
        by (auto simp: AList.delete_eq intro: filter_cong)
      moreover have "or_closeExhausted u = or_closeExhausted s"
        by (simp add: u_def or_takeBuffered_def or_closeExhausted_def or_clearBuffered_def)
      ultimately show ?thesis
        using fin by (intro exI [of _ "Suc k"])
          (auto simp: un um ub look u_def or_takeBuffered_def delete_conv split: if_splits)
    qed
  qed
qed

subsection \<open>The pieces of a push\<close>

text \<open>
  A method body runs with the mutation flag set on a receiver that is live; a state it may leave
  behind is either live or closed with its buffer gone (or about to go, when a callback asked for
  destruction).
\<close>

definition or_live :: "OrderedReceiver \<Rightarrow> bool" where
  "or_live s \<longleftrightarrow> or_core s \<and> or_mutating s \<and> \<not> or_closed s \<and> \<not> or_destroyRequested s"

definition or_dead :: "OrderedReceiver \<Rightarrow> bool" where
  "or_dead s \<longleftrightarrow> or_core s \<and> or_mutating s \<and> or_closed s \<and> (or_destroyRequested s \<or> or_buffer s = [])"

text \<open>The state every failure path leaves: buffer dropped, receiver closed.\<close>

definition or_shut :: "OrderedReceiver \<Rightarrow> OrderedReceiver" where
  "or_shut s = (or_clearBuffered s)\<lparr>or_closed := True\<rparr>"

lemma or_fail_shut [simp]:
  "or_failGap s = (or_shut s, Inl COUNTER_GAP)"
  "or_failInvalid s = (or_shut s, Inl COUNTER_INVALID)"
  "or_failClock s = (if or_gapStartedAt s = None then s else or_shut s, Inl COUNTER_INVALID)"
  by (simp_all add: or_failGap_def or_failInvalid_def or_failClock_def or_shut_def)

lemma or_dead_shut [simp, intro]: "or_core s \<Longrightarrow> or_mutating s \<Longrightarrow> or_dead (or_shut s)"
  by (simp add: or_shut_def or_clearBuffered_def or_dead_def or_core_def)

lemma or_core_flags [simp]:
  "or_core (s\<lparr>or_destroyRequested := d\<rparr>) = or_core s"
  "or_core (s\<lparr>or_closed := c\<rparr>) = or_core s"
  "or_core (s\<lparr>or_mutating := m\<rparr>) = or_core s"
  by (simp_all add: or_core_def)

lemma or_liveD:
  assumes "or_live s"
  shows "or_core s" "or_mutating s" "\<not> or_closed s" "\<not> or_destroyRequested s"
  using assms by (auto simp: or_live_def)

lemma or_runCallback_live:
  "or_live s \<Longrightarrow> or_runCallback cb s =
     (if cb_destroys cb then s\<lparr>or_destroyRequested := True, or_closed := True\<rparr> else s)"
  by (simp add: or_runCallback_def or_destroy_def or_live_def)

lemma or_dead_requested:
  "or_live s \<Longrightarrow> or_dead (s\<lparr>or_destroyRequested := True, or_closed := True\<rparr>)"
  by (simp add: or_live_def or_dead_def)

lemma or_readNow_live:
  assumes "or_live s" "or_readNow cb s = (t, r)"
  shows "(\<exists>n. r = Inr n \<and> t = s) \<or> (\<exists>e. r = Inl e \<and> (t = s \<and> or_gapStartedAt s = None \<or> or_dead t))"
proof (cases "cb_destroys cb")
  case True
  let ?d = "s\<lparr>or_destroyRequested := True, or_closed := True\<rparr>"
  have "or_runCallback cb s = ?d" using True or_runCallback_live [OF assms(1)] by simp
  then have "(t = ?d \<or> t = or_shut ?d) \<and> (\<exists>e. r = Inl e)"
    using assms(2) by (auto simp: or_readNow_def or_assertCallbackState_def bindS_def Let_def
        split: option.splits if_splits)
  moreover have "or_dead ?d" "or_dead (or_shut ?d)"
    using or_dead_requested [OF assms(1)] or_liveD [OF assms(1)] by auto
  ultimately show ?thesis by blast
next
  case False
  then have "or_runCallback cb s = s" by (simp add: or_runCallback_def)
  then show ?thesis
    using assms(2) or_liveD [OF assms(1)]
    by (cases "cb_result cb"; cases "timeValue (the (cb_result cb))")
       (auto simp: or_readNow_def or_assertCallbackState_def or_clockValue_def bindS_def Let_def
         split: if_splits dest!: sym [of "Inr _" "timeValue _"])
qed

lemma or_core_observed:
  "or_buffer s \<noteq> [] \<Longrightarrow> or_core s \<Longrightarrow> or_core (s\<lparr>or_lastObservedAt := Some n\<rparr>)"
  by (auto simp: or_core_def)

lemma or_expireAt_live:
  assumes "or_live s" "or_gapStartedAt s \<noteq> None" "or_expireAt n s = (t, r)"
  shows "(r = Inr False \<and> t = s\<lparr>or_lastObservedAt := Some n\<rparr> \<and> or_live t) \<or> (\<exists>e. r = Inl e \<and> or_dead t)"
proof -
  have "or_buffer s \<noteq> []"
    using assms(1,2) by (auto simp: or_live_def or_core_def)
  with assms(1) have "or_live (s\<lparr>or_lastObservedAt := Some n\<rparr>)"
    by (simp add: or_live_def or_core_observed)
  moreover from this assms(1) have "or_dead (or_shut s)" "or_dead (or_shut (s\<lparr>or_lastObservedAt := Some n\<rparr>))"
    by (auto dest: or_liveD)
  ultimately show ?thesis
    using assms(2,3) by (auto simp: or_expireAt_def Let_def split: if_splits)
qed

text \<open>The expiry check at the start of a push.\<close>

lemma or_expiry_stage:
  assumes "or_live s"
    and "(if or_gapStartedAt s \<noteq> None then bindS (or_readNow now) or_expireAt s else returnS False s) = (t, r)"
  shows "(r = Inr False \<and> (\<exists>l. t = s\<lparr>or_lastObservedAt := l\<rparr>) \<and> or_live t) \<or>
         (\<exists>e. r = Inl e \<and> or_dead t)"
proof (cases "or_gapStartedAt s")
  case None
  with assms have "t = s\<lparr>or_lastObservedAt := or_lastObservedAt s\<rparr>" "r = Inr False" "or_live t" by auto
  then show ?thesis by blast
next
  case (Some g)
  then have gap: "or_gapStartedAt s \<noteq> None" by simp
  obtain s1 r1 where rd: "or_readNow now s = (s1, r1)" by force
  from or_readNow_live [OF assms(1) rd] show ?thesis
  proof (elim disjE exE conjE)
    fix n assume "r1 = Inr n" "s1 = s"
    then show ?thesis
      using assms(2) rd gap or_expireAt_live [OF assms(1) gap, of n t r] by auto
  qed (use assms(2) rd Some in auto)
qed

text \<open>Buffering a cell beyond the next one.\<close>

definition or_park :: "nat \<Rightarrow> jsval \<Rightarrow> nat \<Rightarrow> OrderedReceiver \<Rightarrow> OrderedReceiver" where
  "or_park counter payload startedAt s =
     (let s1 = s\<lparr>or_buffer := AList.update counter payload (or_buffer s)\<rparr>
      in if or_gapStartedAt s = None
         then s1\<lparr>or_gapStartedAt := Some startedAt, or_lastObservedAt := Some startedAt\<rparr> else s1)"

lemma update_new: "map_of al k = None \<Longrightarrow> AList.update k v al = al @ [(k, v)]"
  by (induction al) (auto split: if_splits)

lemma or_park_live:
  assumes "or_live s" "or_next s < c" "c < or_next s + or_window s" "c \<le> or_maximum s"
    "map_of (or_buffer s) c = None" "payloadSize p \<le> 1146"
  shows "or_live (or_park c p n s)" and "or_buffer (or_park c p n s) = or_buffer s @ [(c, p)]"
    and "or_next (or_park c p n s) = or_next s"
  using assms
  by (auto simp: or_park_def or_live_def or_core_def update_new Let_def map_of_eq_None_iff)

lemma or_copyForBuffer_cases:
  "or_copyForBuffer p s = (s, Inr p) \<and> payloadSize p \<le> 1146 \<or>
   or_copyForBuffer p s = (or_shut s, Inl COUNTER_INVALID)"
  by (cases p) (auto simp: or_copyForBuffer_def MAX_BUFFERED_PAYLOAD_def)

lemma or_notifyObserver_live:
  assumes "or_live s" "or_notifyObserver cb s = (t, r)"
  shows "(r = Inr () \<and> t = s) \<or> (\<exists>e. r = Inl e \<and> or_dead t)"
proof (cases "or_observes s \<and> cb_destroys cb")
  case True
  let ?d = "s\<lparr>or_destroyRequested := True, or_closed := True\<rparr>"
  have "or_runCallback cb s = ?d" using True or_runCallback_live [OF assms(1)] by simp
  then have "(t = ?d \<or> t = or_shut ?d) \<and> (\<exists>e. r = Inl e)"
    using assms(2) True by (auto simp: or_notifyObserver_def or_assertCallbackState_def Let_def
        split: option.splits)
  moreover have "or_dead ?d" "or_dead (or_shut ?d)"
    using or_dead_requested [OF assms(1)] or_liveD [OF assms(1)] by auto
  ultimately show ?thesis by blast
next
  case False
  then show ?thesis
    using assms(2) or_liveD [OF assms(1)]
    by (auto simp: or_notifyObserver_def or_assertCallbackState_def or_runCallback_def Let_def
        split: option.splits if_splits)
qed

subsection \<open>What a push does\<close>

text \<open>
  The three outcomes of a push of counter \<open>c\<close>: an error, after which the receiver is closed or is
  the one before the call up to the time it last looked at the clock; the cell is buffered; the cell
  and the run of buffered cells right behind it are delivered.
\<close>

definition or_refused :: "OrderedReceiver \<Rightarrow> OrderedReceiver \<Rightarrow> (error_code + jsval list) \<Rightarrow> bool" where
  "or_refused s t r \<longleftrightarrow>
     (\<exists>e. r = Inl e) \<and> (or_closed t \<or> (\<exists>l. t = s\<lparr>or_lastObservedAt := l\<rparr>))"

definition or_parked :: "OrderedReceiver \<Rightarrow> nat \<Rightarrow> jsval \<Rightarrow> OrderedReceiver \<Rightarrow> (error_code + jsval list) \<Rightarrow> bool" where
  "or_parked s c p t r \<longleftrightarrow>
     r = Inr [] \<and> \<not> or_closed s \<and> \<not> or_closed t \<and> or_next s < c \<and> c < or_next s + or_window s \<and>
     map_of (or_buffer s) c = None \<and> or_next t = or_next s \<and> or_buffer t = or_buffer s @ [(c, p)]"

definition or_delivered :: "OrderedReceiver \<Rightarrow> nat \<Rightarrow> jsval \<Rightarrow> OrderedReceiver \<Rightarrow> (error_code + jsval list) \<Rightarrow> bool" where
  "or_delivered s c p t r \<longleftrightarrow>
     (\<exists>k. r = Inr (p # map (\<lambda>i. the (map_of (or_buffer s) i)) [c + 1 ..< c + 1 + k]) \<and>
        \<not> or_closed s \<and> c = or_next s \<and>
        (\<forall>i \<in> {c + 1 ..< c + 1 + k}. map_of (or_buffer s) i \<noteq> None) \<and>
        (if or_closed t then c + k = or_maximum s
         else or_next t = c + 1 + k \<and> map_of (or_buffer s) (c + 1 + k) = None \<and>
              or_buffer t = filter (\<lambda>(i, _). c + 1 + k \<le> i) (or_buffer s)))"

lemma or_park_stage:
  assumes "or_live s" "or_next s < c" "c < or_next s + or_window s" "c \<le> or_maximum s"
    "map_of (or_buffer s) c = None"
    and eq: "or_store obs c p startsGap n s = (t, r)"
    and g: "startsGap = (or_gapStartedAt s = None)"
  shows "(or_parked s c p t r \<and> or_live t) \<or> (\<exists>e. r = Inl e) \<and> or_dead t"
proof (cases "or_copyForBuffer p s = (s, Inr p) \<and> payloadSize p \<le> 1146")
  case True
  note live = or_park_live [OF assms(1-5) conjunct2 [OF True]]
  obtain t' r' where ob: "or_notifyObserver obs (or_park c p n s) = (t', r')" by force
  have eq': "bindS (or_notifyObserver obs) (\<lambda>_. bindS or_assertNoDeferredDestroy (\<lambda>_. returnS []))
      (or_park c p n s) = (t, r)"
    using eq True g by (simp add: or_store_def or_park_def Let_def cong: if_cong split: if_splits)
  from or_notifyObserver_live [OF live(1) ob] show ?thesis
  proof (elim disjE conjE exE)
    assume "r' = Inr ()" "t' = or_park c p n s"
    then have "t = or_park c p n s" "r = Inr []"
      using eq' ob or_liveD(4) [OF live(1)]
      by (auto simp: or_assertNoDeferredDestroy_def bindS_def)
    then show ?thesis
      using live assms(1-5) by (auto simp: or_parked_def dest: or_liveD)
  qed (use eq' ob in auto)
next
  case False
  then show ?thesis
    using or_copyForBuffer_cases [of p s] eq or_liveD [OF assms(1)] by (auto simp: or_store_def)
qed

lemma or_delivery_stage:
  assumes "or_live s" "c = or_next s" "c \<noteq> or_maximum s"
    and dr: "or_drain (s\<lparr>or_next := c + 1\<rparr>) [p] = (s', out, ex)"
    and t: "t = (if \<not> ex \<and> or_buffer s' = []
                 then s'\<lparr>or_gapStartedAt := None, or_lastObservedAt := None\<rparr> else s')"
  shows "or_delivered s c p t (Inr out) \<and> (or_live t \<or> or_dead t \<and> \<not> or_destroyRequested t)"
proof -
  have core: "or_core s" using assms(1) by (rule or_liveD)
  let ?s1 = "s\<lparr>or_next := c + 1\<rparr>"
  have pre: "\<forall>(i, q) \<in> set (or_buffer ?s1). or_next ?s1 \<le> i \<and> i \<le> or_maximum ?s1"
    and le: "or_next ?s1 \<le> or_maximum ?s1"
    using core assms(2,3) by (auto simp: or_core_def)
  have sel: "or_next ?s1 = c + 1" "or_buffer ?s1 = or_buffer s" "or_maximum ?s1 = or_maximum s"
    by simp_all
  from or_drain_spec [OF dr pre le, unfolded sel] obtain k where
    out: "out = [p] @ map (\<lambda>i. the (map_of (or_buffer s) i)) [c + 1 ..< c + 1 + k]"
    and hit: "\<forall>i \<in> {c + 1 ..< c + 1 + k}. map_of (or_buffer s) i \<noteq> None"
    and fin: "if ex then s' = or_closeExhausted ?s1 \<and> c + 1 + k = or_maximum s + 1
       else s' = ?s1\<lparr>or_next := c + 1 + k, or_buffer := filter (\<lambda>(i, _). c + 1 + k \<le> i) (or_buffer s)\<rparr> \<and>
            c + 1 + k \<le> or_maximum s \<and> map_of (or_buffer s) (c + 1 + k) = None"
    by blast
  show ?thesis
  proof (cases ex)
    case True
    with fin t have "t = or_closeExhausted (s\<lparr>or_next := c + 1\<rparr>)" "c + k = or_maximum s" by auto
    then show ?thesis
      using out hit core or_liveD [OF assms(1)] assms(2)
      by (auto simp: or_delivered_def or_closeExhausted_def or_clearBuffered_def or_dead_def or_core_def
          intro!: exI [of _ k])
  next
    case False
    have "c + 1 + k \<notin> fst ` set (or_buffer s)"
      using fin False by (simp add: map_of_eq_None_iff)
    then have strict: "c + 1 + k < i" if "(i, q) \<in> set (or_buffer s)" "c + 1 + k \<le> i" for i q
      using that by (metis fst_conv image_eqI le_neq_implies_less)
    have "or_live t"
      using fin t False core or_liveD [OF assms(1)] assms(2) strict
      by (auto simp: or_live_def or_core_def distinct_map_filter filter_empty_conv
          split: if_splits)
    then show ?thesis
      using out hit fin t False or_liveD [OF assms(1)] assms(2)
      by (auto simp: or_delivered_def dest: or_liveD intro!: exI [of _ k])
  qed
qed

lemma or_refused_same: "or_refused s s (Inl e)"
proof -
  have "s = s\<lparr>or_lastObservedAt := or_lastObservedAt s\<rparr>" by simp
  then show ?thesis unfolding or_refused_def by blast
qed

lemma or_refused_dead: "or_dead t \<Longrightarrow> r = Inl e \<Longrightarrow> or_refused s t r"
  by (simp add: or_refused_def or_dead_def)

text \<open>The outcome does not depend on the time the clock was last read.\<close>

lemma or_outcome_observed:
  assumes "s1 = s\<lparr>or_lastObservedAt := l\<rparr>"
  shows "or_refused s1 t r \<Longrightarrow> or_refused s t r" "or_parked s1 c p t r = or_parked s c p t r"
    "or_delivered s1 c p t r = or_delivered s c p t r"
  using assms by (auto simp: or_refused_def or_parked_def or_delivered_def)

definition or_outcome :: "OrderedReceiver \<Rightarrow> nat \<Rightarrow> jsval \<Rightarrow> OrderedReceiver \<Rightarrow> (error_code + jsval list) \<Rightarrow> bool" where
  "or_outcome s c p t r \<longleftrightarrow> or_refused s t r \<or> or_parked s c p t r \<or> or_delivered s c p t r"

lemma or_pushAhead_live:
  assumes s: "or_live s" and c: "or_next s < c" "c \<le> or_maximum s" "map_of (or_buffer s) c = None"
    and push: "or_pushAhead now obs c p s = (t, r)"
  shows "or_outcome s c p t r \<and> (or_live t \<or> or_dead t)"
proof (cases "c - or_next s \<ge> or_window s \<or> or_gapTimeout s = 0")
  case True
  then show ?thesis
    using push or_liveD [OF s] or_refused_dead [OF or_dead_shut, of s]
    by (auto simp: or_pushAhead_def or_outcome_def split: if_splits)
next
  case False
  with c(1) have w: "c < or_next s + or_window s" by linarith
  note stored = or_park_stage [OF s c(1) w c(2,3)]
  have fin: ?thesis if "or_store obs c p g n s = (t, r)" "g = (or_gapStartedAt s = None)" for g n
    using stored [OF that] by (auto simp: or_outcome_def or_refused_dead)
  show ?thesis
  proof (cases "or_gapStartedAt s")
    case None
    obtain s1 r1 where rd: "or_readNow now s = (s1, r1)" by force
    from or_readNow_live [OF s rd] show ?thesis
    proof (elim disjE exE conjE)
      fix n assume "r1 = Inr n" "s1 = s"
      with push False None rd show ?thesis
        by (intro fin [of True n]) (auto simp: or_pushAhead_def)
    next
      fix e assume "r1 = Inl e" "s1 = s"
      with push False None rd s show ?thesis
        by (auto simp: or_pushAhead_def or_outcome_def or_refused_same)
    next
      fix e assume "r1 = Inl e" "or_dead s1"
      with push False None rd show ?thesis
        by (auto simp: or_pushAhead_def or_outcome_def or_refused_dead)
    qed
  next
    case (Some g)
    with push False show ?thesis
      by (intro fin [of False g]) (auto simp: or_pushAhead_def)
  qed
qed

lemma or_pushNext_live:
  assumes s: "or_live s" and c: "c = or_next s" and push: "or_pushNext c p s = (t, r)"
  shows "or_outcome s c p t r \<and> (or_live t \<or> or_dead t)"
proof (cases "c = or_maximum s")
  case True
  have "t = or_closeExhausted s" "r = Inr [p]"
    using push True or_liveD [OF s]
    by (auto simp: or_pushNext_def or_assertNoDeferredDestroy_def or_closeExhausted_def
        or_clearBuffered_def)
  then show ?thesis
    using True c or_liveD [OF s]
    by (auto simp: or_outcome_def or_delivered_def or_dead_def or_core_def or_closeExhausted_def
        or_clearBuffered_def intro!: disjI2 exI [of _ 0])
next
  case False
  obtain s' out ex where dr: "or_drain (s\<lparr>or_next := c + 1\<rparr>) [p] = (s', out, ex)"
    using prod_cases3 by blast
  define u where "u = (if \<not> ex \<and> or_buffer s' = []
      then s'\<lparr>or_gapStartedAt := None, or_lastObservedAt := None\<rparr> else s')"
  have del: "or_delivered s c p u (Inr out) \<and> (or_live u \<or> or_dead u \<and> \<not> or_destroyRequested u)"
    by (rule or_delivery_stage [OF s c False dr u_def])
  have "(t, r) = bindS or_assertNoDeferredDestroy (\<lambda>_. returnS out) u"
    using push False dr by (simp add: or_pushNext_def u_def)
  moreover have "\<not> or_destroyRequested u"
    using del by (auto dest: or_liveD)
  ultimately have "t = u" "r = Inr out"
    by (auto simp: or_assertNoDeferredDestroy_def bindS_def)
  with del show ?thesis by (auto simp: or_outcome_def)
qed

lemma or_push_live:
  assumes s: "or_live s" and c: "c \<le> or_maximum s" and push: "or_push now obs c p s = (t, r)"
  shows "or_outcome s c p t r \<and> (or_live t \<or> or_dead t)"
proof -
  obtain s1 r1 where ex: "(if or_gapStartedAt s \<noteq> None then bindS (or_readNow now) or_expireAt s
      else returnS False s) = (s1, r1)" by force
  note closed = or_liveD(3) [OF s]
  show ?thesis
    using or_expiry_stage [OF s ex]
  proof (elim disjE conjE exE)
    fix e assume "r1 = Inl e" "or_dead s1"
    with ex push closed show ?thesis
      by (auto simp: or_push_def bindS_def or_outcome_def or_refused_dead split: if_splits)
  next
    fix l assume r1: "r1 = Inr False" and eq: "s1 = s\<lparr>or_lastObservedAt := l\<rparr>"
      and s1: "or_live s1"
    have max: "or_maximum s1 = or_maximum s" by (subst eq) simp
    have tail: "(if c < or_next s1 \<or> map_of (or_buffer s1) c \<noteq> None then throwS REPLAY s1
       else if c > or_next s1 then or_pushAhead now obs c p s1 else or_pushNext c p s1) = (t, r)"
      using push ex r1 closed unfolding or_push_def by (simp only: bindS_def) (auto split: if_splits)
    have "or_outcome s1 c p t r \<and> (or_live t \<or> or_dead t)"
    proof (cases "c < or_next s1 \<or> map_of (or_buffer s1) c \<noteq> None")
      case True
      with tail s1 show ?thesis by (auto simp: or_outcome_def or_refused_same)
    next
      case False
      show ?thesis
      proof (cases "or_next s1 < c")
        case True
        with False tail c max show ?thesis
          by (intro or_pushAhead_live [OF s1 True, of now obs p]) auto
      next
        case ge: False
        with False tail show ?thesis
          by (intro or_pushNext_live [OF s1, of c p]) auto
      qed
    qed
    then show ?thesis
      using or_outcome_observed [OF eq] by (auto simp: or_outcome_def)
  qed
qed

section \<open>The public methods\<close>

lemma or_inv_live: "or_inv s \<Longrightarrow> \<not> or_closed s \<Longrightarrow> or_live (s\<lparr>or_mutating := True\<rparr>)"
  by (simp add: or_inv_def or_live_def)

text \<open>What \<open>#mutate\<close> does after its operation.\<close>

definition or_settle :: "OrderedReceiver \<Rightarrow> OrderedReceiver" where
  "or_settle t = (let u = t\<lparr>or_mutating := False\<rparr> in if or_destroyRequested u then or_destroyNow u else u)"

lemma or_mutate_settle:
  "\<not> or_mutating s \<Longrightarrow> or_mutate m s = (case m (s\<lparr>or_mutating := True\<rparr>) of (t, r) \<Rightarrow> (or_settle t, r))"
  by (simp add: or_mutate_def or_settle_def Let_def)

lemma or_settle_inv: "or_live t \<or> or_dead t \<Longrightarrow> or_inv (or_settle t)"
  by (auto simp: or_settle_def or_live_def or_dead_def or_inv_def or_destroyNow_def
      or_clearBuffered_def or_core_def Let_def)

lemma or_settle_live: "or_live t \<Longrightarrow> or_settle t = t\<lparr>or_mutating := False\<rparr>"
  by (simp add: or_settle_def or_live_def)

lemma or_settle_dead: "or_dead t \<Longrightarrow> or_closed (or_settle t)"
  by (auto simp: or_settle_def or_dead_def or_destroyNow_def or_clearBuffered_def Let_def)

lemma or_settle_idle:
  "\<not> or_mutating s \<Longrightarrow> \<not> or_destroyRequested s \<Longrightarrow> or_settle (s\<lparr>or_mutating := True\<rparr>) = s"
  by (cases s) (simp add: or_settle_def)

lemma or_outcome_mutating [simp]:
  "or_parked (s\<lparr>or_mutating := m\<rparr>) c p t r = or_parked s c p t r"
  "or_parked s c p (t\<lparr>or_mutating := m\<rparr>) r = or_parked s c p t r"
  "or_delivered (s\<lparr>or_mutating := m\<rparr>) c p t r = or_delivered s c p t r"
  "or_delivered s c p (t\<lparr>or_mutating := m\<rparr>) r = or_delivered s c p t r"
  by (simp_all add: or_parked_def or_delivered_def)

lemma or_delivered_closed:
  "or_delivered s c p t r \<Longrightarrow> or_closed t \<Longrightarrow> or_closed u \<Longrightarrow> or_delivered s c p u r"
  by (simp add: or_delivered_def)

lemma or_outcome_settle:
  assumes "or_outcome (s\<lparr>or_mutating := True\<rparr>) c p t r" "or_live t \<or> or_dead t" "\<not> or_mutating s"
  shows "or_outcome s c p (or_settle t) r"
  using assms(2)
proof
  assume live: "or_live t"
  have ref: "or_refused s (t\<lparr>or_mutating := False\<rparr>) r" if "or_refused (s\<lparr>or_mutating := True\<rparr>) t r"
  proof -
    have "t\<lparr>or_mutating := False\<rparr> = s\<lparr>or_lastObservedAt := l\<rparr>"
      if "t = s\<lparr>or_mutating := True, or_lastObservedAt := l\<rparr>" for l
      using that assms(3) by (cases s) simp
    then show ?thesis
      using that or_liveD(3) [OF live] by (auto simp: or_refused_def)
  qed
  show ?thesis
    using assms(1) ref or_settle_live [OF live] by (auto simp: or_outcome_def)
next
  assume dead: "or_dead t"
  then have "or_closed t" by (simp add: or_dead_def)
  with assms(1) or_settle_dead [OF dead] show ?thesis
    by (auto simp: or_outcome_def or_refused_def or_parked_def intro: or_delivered_closed)
qed

lemma pushAuthenticated_spec:
  assumes "or_inv s" "pushAuthenticated now obs v p s = (t, r)"
  shows "or_inv t \<and> (or_refused s t r \<or> (\<exists>c. v = JBig (int c) \<and> c \<le> or_maximum s \<and> or_outcome s c p t r))"
proof -
  let ?m = "s\<lparr>or_mutating := True\<rparr>"
  have idle: "\<not> or_mutating s" "\<not> or_destroyRequested s" using assms(1) by (auto simp: or_inv_def)
  note eq = assms(2) [unfolded pushAuthenticated_def or_mutate_settle [OF idle(1)]]
  show ?thesis
  proof (cases "counterValue v (or_maximum s)")
    case (Inl e)
    with eq show ?thesis
      using assms(1) by (auto simp: or_settle_idle [OF idle] or_refused_same)
  next
    case (Inr c)
    then have c: "v = JBig (int c)" "c \<le> or_maximum s" by (auto simp: counterValue_Inr)
    show ?thesis
    proof (cases "or_closed s")
      case True
      with eq Inr show ?thesis
        using assms(1) by (auto simp: or_settle_idle [OF idle] or_refused_same or_push_def bindS_def)
    next
      case False
      obtain t' where push: "or_push now obs c p ?m = (t', r)" and t: "t = or_settle t'"
        using eq Inr by (auto split: prod.splits)
      have "or_outcome ?m c p t' r \<and> (or_live t' \<or> or_dead t')"
        using or_push_live [OF or_inv_live [OF assms(1) False] _ push] c(2) by simp
      then show ?thesis
        using or_outcome_settle [OF _ _ idle(1)] or_settle_inv c t by blast
    qed
  qed
qed

lemma or_expire_spec:
  assumes "or_inv s" "or_expire now at s = (t, r)"
  shows "or_inv t \<and> (or_closed t \<or> (\<exists>l. t = s\<lparr>or_lastObservedAt := l\<rparr>))"
proof -
  let ?m = "s\<lparr>or_mutating := True\<rparr>"
  have idle: "\<not> or_mutating s" "\<not> or_destroyRequested s" using assms(1) by (auto simp: or_inv_def)
  note eq = assms(2) [unfolded or_expire_def or_mutate_settle [OF idle(1)]]
  show ?thesis
  proof (cases "or_closed s")
    case True
    with eq have "t = s\<lparr>or_lastObservedAt := or_lastObservedAt s\<rparr>"
      by (auto simp: or_settle_idle [OF idle] bindS_def)
    with assms(1) show ?thesis by (metis OrderedReceiver.surjective OrderedReceiver.update_convs(9))
  next
    case False
    note live = or_inv_live [OF assms(1) False]
    obtain t' where run: "bindS (if at = Undefined then or_readNow now else or_clockValue at) or_expireAt ?m = (t', r)"
      and t: "t = or_settle t'"
      using eq False by (auto simp: bindS_def split: prod.splits)
    obtain s1 r1 where rd: "(if at = Undefined then or_readNow now else or_clockValue at) ?m = (s1, r1)"
      by force
    have clock: "(\<exists>n. r1 = Inr n \<and> s1 = ?m) \<or> (\<exists>e. r1 = Inl e \<and> (s1 = ?m \<or> or_dead s1))"
      using rd or_readNow_live [OF live, of now s1 r1] or_liveD [OF live]
      by (cases "timeValue at")
         (auto simp: or_clockValue_def split: if_splits dest!: sym [of "Inr _" "timeValue _"])
    have "t' = ?m \<or> or_dead t' \<or> (\<exists>n. t' = ?m\<lparr>or_lastObservedAt := Some n\<rparr> \<and> or_live t')"
      using clock
    proof (elim disjE exE conjE)
      fix n assume "r1 = Inr n" "s1 = ?m"
      with run rd have ex: "or_expireAt n ?m = (t', r)" by simp
      show ?thesis
      proof (cases "or_gapStartedAt ?m = None")
        case True
        with ex show ?thesis by (simp add: or_expireAt_def)
      next
        case False
        from or_expireAt_live [OF live False ex] show ?thesis by blast
      qed
    qed (use run rd in auto)
    then show ?thesis
    proof (elim disjE exE conjE)
      fix n assume "t' = ?m\<lparr>or_lastObservedAt := Some n\<rparr>" "or_live t'"
      moreover from this(1) have "t'\<lparr>or_mutating := False\<rparr> = s\<lparr>or_lastObservedAt := Some n\<rparr>"
        using idle by (cases s) simp
      ultimately show ?thesis
        using t or_settle_inv or_settle_live by fastforce
    next
      assume "t' = ?m"
      with t have "t = s\<lparr>or_lastObservedAt := or_lastObservedAt s\<rparr>" by (simp add: or_settle_idle [OF idle])
      with assms(1) show ?thesis by (metis OrderedReceiver.surjective OrderedReceiver.update_convs(9))
    qed (use t or_settle_dead or_settle_inv in auto)
  qed
qed

lemma or_destroy_spec: "or_inv s \<Longrightarrow> or_inv (or_destroy s) \<and> or_closed (or_destroy s)"
  by (auto simp: or_inv_def or_destroy_def or_destroyNow_def or_clearBuffered_def or_core_def)

lemma OrderedReceiver_new_inv:
  "OrderedReceiver_new v = Inr s \<Longrightarrow> or_inv s \<and> \<not> or_closed s \<and> or_buffer s = []"
  by (auto simp: OrderedReceiver_new_def result_simps or_inv_def or_core_def counterMaximum_def
      counterValue_Inr windowSize_Inr)

section \<open>Sequences of calls\<close>

datatype or_op =
    OrPush callback callback jsval jsval
  | OrExpire callback jsval
  | OrDestroy

text \<open>
  A run of a receiver: its final state, the pushes it accepted (counter and payload) and everything
  it delivered, in order.
\<close>

fun or_counter :: "jsval \<Rightarrow> nat" where
  "or_counter (JBig v) = nat v"
| "or_counter _ = 0"

fun or_run :: "or_op list \<Rightarrow> OrderedReceiver \<Rightarrow> OrderedReceiver \<times> (nat \<times> jsval) list \<times> jsval list" where
  "or_run [] s = (s, [], [])"
| "or_run (OrPush now obs v p # xs) s =
     (case pushAuthenticated now obs v p s of
        (t, Inl _) \<Rightarrow> or_run xs t
      | (t, Inr ds) \<Rightarrow> (case or_run xs t of (u, acc, out) \<Rightarrow> (u, (or_counter v, p) # acc, ds @ out)))"
| "or_run (OrExpire now at # xs) s = or_run xs (fst (or_expire now at s))"
| "or_run (OrDestroy # xs) s = or_run xs (or_destroy s)"

lemma or_run_closed:
  assumes "or_inv s" "or_closed s"
  shows "\<exists>t. or_run xs s = (t, [], []) \<and> or_closed t"
  using assms
proof (induction xs arbitrary: s)
  case (Cons x xs)
  show ?case
  proof (cases x)
    case (OrPush now obs v p)
    obtain t r where eq: "pushAuthenticated now obs v p s = (t, r)" by force
    from pushAuthenticated_spec [OF Cons.prems(1) eq] Cons.prems(2)
    have "or_inv t" "or_closed t" "\<exists>e. r = Inl e"
      by (auto simp: or_outcome_def or_refused_def or_parked_def or_delivered_def)
    with OrPush eq Cons.IH show ?thesis by auto
  next
    case (OrExpire now at)
    obtain t r where eq: "or_expire now at s = (t, r)" by force
    from or_expire_spec [OF Cons.prems(1) eq] Cons.prems(2) have "or_inv t" "or_closed t"
      by auto
    with OrExpire eq Cons.IH show ?thesis by auto
  next
    case OrDestroy
    with or_destroy_spec Cons show ?thesis by auto
  qed
qed simp

text \<open>
  The abstract view of a run: \<open>log\<close> holds every cell the receiver holds or accepts; the deliveries
  are the cells of the log read off in counter order from \<open>n\<close> up to the first counter that is not in
  it, and an open receiver still buffers exactly the accepted cells beyond its next counter.
\<close>

definition or_in_order :: "nat \<Rightarrow> (nat \<times> jsval) list \<Rightarrow> jsval list \<Rightarrow> OrderedReceiver \<Rightarrow> bool" where
  "or_in_order n log out t \<longleftrightarrow>
     distinct (map fst log) \<and> (\<forall>c \<in> fst ` set log. n \<le> c) \<and>
     out = map (\<lambda>c. the (map_of log c)) [n ..< n + length out] \<and>
     (\<forall>c \<in> {n ..< n + length out}. map_of log c \<noteq> None) \<and>
     map_of log (n + length out) = None \<and>
     (\<not> or_closed t \<longrightarrow> or_next t = n + length out \<and>
        (\<forall>c. map_of (or_buffer t) c = (if n + length out \<le> c then map_of log c else None)))"

lemma map_of_filter_ge:
  "map_of (filter (\<lambda>(i, _). m \<le> i) al) c = (if m \<le> c then map_of al c else None)"
  for m :: nat
  by (induction al) auto

lemma or_in_order_deliver:
  assumes rest: "or_in_order (n + 1 + k) (filter (\<lambda>(i, _). n + 1 + k \<le> i) buf @ acc) out t"
    and buf: "distinct (map fst buf)" "\<forall>c \<in> fst ` set buf. n < c"
    and hit: "\<forall>i \<in> {n + 1 ..< n + 1 + k}. map_of buf i \<noteq> None"
  shows "or_in_order n (buf @ (n, p) # acc)
           (p # map (\<lambda>i. the (map_of buf i)) [n + 1 ..< n + 1 + k] @ out) t"
proof -
  define log where "log = buf @ (n, p) # acc"
  define tail where "tail = filter (\<lambda>(i, _). n + 1 + k \<le> i) buf @ acc"
  define all where "all = p # map (\<lambda>i. the (map_of buf i)) [n + 1 ..< n + 1 + k] @ out"
  note rest' = rest [folded tail_def, unfolded or_in_order_def]
  have n: "n \<notin> fst ` set buf" using buf(2) by blast
  have acc: "\<forall>c \<in> fst ` set acc. n + 1 + k \<le> c" "distinct (map fst acc)"
    "fst ` set (filter (\<lambda>(i, _). n + 1 + k \<le> i) buf) \<inter> fst ` set acc = {}"
    using rest by (auto simp: or_in_order_def)
  have lookup: "map_of log c = (if c = n then Some p
      else if c < n + 1 + k then map_of buf c else map_of tail c)" for c
  proof -
    have "map_of acc c = None" if "c < n + 1 + k"
      using acc(1) that by (auto simp: map_of_eq_None_iff)
    moreover have "map_of buf n = None"
      using n by (simp add: map_of_eq_None_iff)
    ultimately show ?thesis
      by (auto simp: log_def tail_def map_add_def map_of_filter_ge split: option.splits)
  qed
  have disj: "fst ` set buf \<inter> fst ` set acc = {}"
    using acc(1,3) by fastforce
  have len: "n + length all = n + 1 + k + length out" by (simp add: all_def)
  have upt: "[n ..< n + 1 + k + length out] = n # [n + 1 ..< n + 1 + k] @ [n + 1 + k ..< n + 1 + k + length out]"
    using upt_add_eq_append [of n "n + 1 + k" "length out"] by (simp add: upt_conv_Cons del: upt_Suc)
  have "all = map (\<lambda>c. the (map_of log c)) [n ..< n + length all]"
  proof -
    have "out = map (\<lambda>c. the (map_of log c)) [n + 1 + k ..< n + 1 + k + length out]"
      using rest' by (subst (asm) (1) map_cong [OF refl, of _ _ "\<lambda>c. the (map_of log c)"])
        (auto simp: lookup)
    then show ?thesis
      unfolding len upt by (simp add: all_def lookup del: upt_Suc)
  qed
  moreover have "distinct (map fst log)"
    using buf acc(1,2) disj n by (auto simp: log_def)
  moreover have "\<forall>c \<in> fst ` set log. n \<le> c"
    using buf(2) acc(1) by (fastforce simp: log_def)
  moreover have "\<forall>c \<in> {n ..< n + length all}. map_of log c \<noteq> None"
    using rest' hit unfolding len by (auto simp: lookup)
  moreover have "map_of log (n + length all) = None"
    using rest' unfolding len by (auto simp: lookup)
  moreover have "\<not> or_closed t \<longrightarrow> or_next t = n + length all \<and>
      (\<forall>c. map_of (or_buffer t) c = (if n + length all \<le> c then map_of log c else None))"
    using rest' unfolding len by (auto simp: lookup)
  ultimately show ?thesis
    unfolding or_in_order_def log_def [symmetric] all_def [symmetric] by blast
qed

lemma or_in_order_refl:
  "or_inv s \<Longrightarrow> or_in_order (or_next s) (or_buffer s) [] s"
  by (auto simp: or_in_order_def or_inv_def or_core_def map_of_eq_None_iff)

lemma or_in_order_closed:
  "or_inv s \<Longrightarrow> or_closed t \<Longrightarrow> or_in_order (or_next s) (or_buffer s) [] t"
  using or_in_order_refl [of s] by (simp add: or_in_order_def)

lemma or_run_in_order:
  "or_inv s \<Longrightarrow> or_run xs s = (t, acc, out) \<Longrightarrow>
     or_in_order (or_next s) (or_buffer s @ acc) out t"
proof (induction xs arbitrary: s acc out)
  case Nil
  then show ?case using or_in_order_refl by simp
next
  case (Cons x xs)
  have closed: "or_in_order (or_next s) (or_buffer s @ acc) out t"
    if "or_inv u" "or_closed u" "or_run xs u = (t, acc, out)" for u
    using or_run_closed [OF that(1,2), of xs] that(3) or_in_order_closed [OF Cons.prems(1), of t] by auto
  have same: "or_in_order (or_next s) (or_buffer s @ acc) out t"
    if "or_inv u" "or_closed u \<or> (\<exists>l. u = s\<lparr>or_lastObservedAt := l\<rparr>)" "or_run xs u = (t, acc, out)" for u
    using that closed [OF that(1) _ that(3)] Cons.IH [OF that(1,3)] by auto
  show ?case
  proof (cases x)
    case (OrPush now obs v p)
    obtain u r where eq: "pushAuthenticated now obs v p s = (u, r)" by force
    note spec = pushAuthenticated_spec [OF Cons.prems(1) eq]
    show ?thesis
    proof (cases r)
      case (Inl e)
      with OrPush eq Cons.prems(2) spec show ?thesis
        by (intro same [of u]) (auto simp: or_outcome_def or_refused_def or_parked_def or_delivered_def)
    next
      case (Inr ds)
      then obtain c acc' out' where v: "v = JBig (int c)" and oc: "or_parked s c p u r \<or> or_delivered s c p u r"
        and run: "or_run xs u = (t, acc', out')" and a: "acc = (c, p) # acc'" "out = ds @ out'"
        using spec OrPush eq Cons.prems(2)
        by (auto simp: or_outcome_def or_refused_def split: prod.splits)
      have inv: "or_inv u" using spec by simp
      show ?thesis
        using oc
      proof
        assume "or_parked s c p u r"
        then have "ds = []" "or_next u = or_next s" "or_buffer u = or_buffer s @ [(c, p)]"
          using Inr by (auto simp: or_parked_def)
        with Cons.IH [OF inv run] a show ?thesis by simp
      next
        assume "or_delivered s c p u r"
        then obtain k where k: "ds = p # map (\<lambda>i. the (map_of (or_buffer s) i)) [c + 1 ..< c + 1 + k]"
          "c = or_next s" "\<forall>i \<in> {c + 1 ..< c + 1 + k}. map_of (or_buffer s) i \<noteq> None"
          and fin: "if or_closed u then c + k = or_maximum s else or_next u = c + 1 + k \<and>
            map_of (or_buffer s) (c + 1 + k) = None \<and>
            or_buffer u = filter (\<lambda>(i, _). c + 1 + k \<le> i) (or_buffer s)"
          unfolding or_delivered_def Inr sum.inject by blast
        have buf: "distinct (map fst (or_buffer s))" "\<forall>i \<in> fst ` set (or_buffer s). c < i"
          "\<forall>i \<in> fst ` set (or_buffer s). i \<le> or_maximum s"
          using Cons.prems(1) k(2) by (auto simp: or_inv_def or_core_def)
        have "or_in_order (c + 1 + k) (filter (\<lambda>(i, _). c + 1 + k \<le> i) (or_buffer s) @ acc') out' t"
        proof (cases "or_closed u")
          case True
          then have "filter (\<lambda>(i, _). c + 1 + k \<le> i) (or_buffer s) = []"
            using fin buf(3) by (force simp: filter_empty_conv)
          with or_run_closed [OF inv True, of xs] run show ?thesis by (auto simp: or_in_order_def)
        next
          case False
          with fin Cons.IH [OF inv run] show ?thesis by simp
        qed
        from or_in_order_deliver [OF this buf(1,2) k(3)] k(1,2) a show ?thesis by simp
      qed
    qed
  next
    case (OrExpire now at)
    obtain u r where eq: "or_expire now at s = (u, r)" by force
    with OrExpire Cons.prems or_expire_spec [OF Cons.prems(1) eq] show ?thesis
      by (intro same [of u]) auto
  next
    case OrDestroy
    with Cons.prems or_destroy_spec [OF Cons.prems(1)] show ?thesis
      by (intro same [of "or_destroy s"]) auto
  qed
qed

section \<open>Properties\<close>

lemma or_run_inv: "or_inv s \<Longrightarrow> or_run xs s = (t, acc, out) \<Longrightarrow> or_inv t"
proof (induction xs arbitrary: s acc out)
  case (Cons x xs)
  show ?case
  proof (cases x)
    case (OrPush now obs v p)
    obtain u r where eq: "pushAuthenticated now obs v p s = (u, r)" by force
    with pushAuthenticated_spec [OF Cons.prems(1) eq] OrPush Cons show ?thesis
      by (auto split: sum.splits prod.splits)
  next
    case (OrExpire now at)
    obtain u r where eq: "or_expire now at s = (u, r)" by force
    with or_expire_spec [OF Cons.prems(1) eq] OrExpire Cons show ?thesis by auto
  next
    case OrDestroy
    with or_destroy_spec Cons show ?thesis by auto
  qed
qed simp

lemma or_push_ready:
  assumes "or_inv s" "\<not> or_closed s" "or_buffer s = []"
  shows "snd (pushAuthenticated now obs (JBig (int (or_next s))) p s) = Inr [p]"
proof -
  let ?m = "s\<lparr>or_mutating := True\<rparr>" and ?c = "or_next s"
  have s: "or_gapStartedAt s = None" "\<not> or_mutating s" "\<not> or_destroyRequested s" "?c \<le> or_maximum s"
    using assms by (auto simp: or_inv_def or_core_def)
  have "counterValue (JBig (int ?c)) (or_maximum s) = Inr ?c"
    using s(4) by (simp add: counterValue_Inr)
  moreover have "snd (or_push now obs ?c p ?m) = Inr [p]"
    using assms(2,3) s
    by (simp add: or_push_def or_pushNext_def or_drain.simps bindS_def or_assertNoDeferredDestroy_def or_closeExhausted_def
        or_clearBuffered_def)
  ultimately show ?thesis
    using s(2) by (simp add: pushAuthenticated_def or_mutate_settle split_beta)
qed

text \<open>
  C1: along any sequence of pushes, expiry checks and destroys, with any clock and any observer
  (callbacks may throw or destroy the receiver in the middle of a push), the payloads delivered are
  exactly those of the accepted cells with counters \<open>start, start + 1, \<dots>\<close> up to the first counter that
  was not accepted, in that order: nothing is delivered twice, skipped, reordered or held back, and no
  counter is accepted twice. As long as the receiver is open, the accepted cells beyond that counter are
  exactly those it buffers; when it buffers none, it accepts and delivers the next one at once.
\<close>

theorem receiver_delivers_in_order_once:
  assumes "OrderedReceiver_new v = Inr s" "or_run ops s = (t, accepted, delivered)"
  shows "distinct (map fst accepted) \<and>
    delivered = map (\<lambda>c. the (map_of accepted c)) [or_next s ..< or_next s + length delivered] \<and>
    (\<forall>c \<in> {or_next s ..< or_next s + length delivered}. map_of accepted c \<noteq> None) \<and>
    map_of accepted (or_next s + length delivered) = None \<and>
    (\<not> or_closed t \<longrightarrow>
       or_next t = or_next s + length delivered \<and>
       (\<forall>c. map_of (or_buffer t) c = (if or_next t < c then map_of accepted c else None)) \<and>
       (or_buffer t = [] \<longrightarrow> snd (pushAuthenticated now obs (JBig (int (or_next t))) p t) = Inr [p]))"
proof -
  from OrderedReceiver_new_inv [OF assms(1)] have s: "or_inv s" "or_buffer s = []" by auto
  have t: "or_inv t"
    by (rule or_run_inv [OF s(1) assms(2)])
  have o: "or_in_order (or_next s) accepted delivered t"
    using or_run_in_order [OF s(1) assms(2)] s(2) by simp
  have "map_of (or_buffer t) c = (if or_next t < c then map_of accepted c else None)" if "\<not> or_closed t" for c
    using o that unfolding or_in_order_def by (metis nless_le)
  then show ?thesis
    using o or_push_ready [OF t] unfolding or_in_order_def by blast
qed

abbreviation quiet :: callback where
  "quiet \<equiv> \<lparr>cb_destroys = False, cb_result = Some (JNum 10)\<rparr>"

abbreviation example_receiver :: OrderedReceiver where
  "example_receiver \<equiv> \<lparr>or_window = 8, or_gapTimeout = 50, or_hasNow = True, or_next = 3,
     or_maximum = 9, or_rotateAt = 0, or_buffer = [], or_gapStartedAt = None,
     or_lastObservedAt = None, or_closed = False, or_mutating = False, or_destroyRequested = False,
     or_observes = False\<rparr>"

lemma example_receiver_new:
  "OrderedReceiver_new (JObj [(''window'', DataProp (JNum 8)), (''gapTimeout'', DataProp (JNum 50)),
      (''now'', DataProp (JFun 0)), (''initial'', DataProp (JBig 3)), (''maximum'', DataProp (JBig 9))] [])
   = Inr example_receiver"
  by (simp add: OrderedReceiver_new_def counters_optionsObject_def counters_option_def MAX_WINDOW_def
      MAX_SAFE_INTEGER_def counterMaximum_def MAX_COUNTER_def rotationAt_def)

abbreviation example_ops :: "or_op list" where
  "example_ops \<equiv> [OrPush quiet quiet (JBig 4) (JStr ''b''), OrPush quiet quiet (JBig 3) (JStr ''a''),
     OrPush quiet quiet (JBig 4) (JStr ''x''), OrPush quiet quiet (JBig 5) (JStr ''c'')]"

lemmas or_eval = or_mutate_def pushAuthenticated_def or_push_def or_pushAhead_def or_pushNext_def or_store_def
  or_readNow_def or_expireAt_def or_copyForBuffer_def or_notifyObserver_def or_assertNoDeferredDestroy_def
  or_assertCallbackState_def or_clockValue_def or_runCallback_def or_takeBuffered_def or_drain.simps
  or_failGap_def or_clearBuffered_def
  bindS_def MAX_SAFE_INTEGER_def MAX_BUFFERED_PAYLOAD_def utf8Length_def Let_def

lemma example_run:
  "\<exists>t. or_run example_ops example_receiver =
     (t, [(4, JStr ''b''), (3, JStr ''a''), (5, JStr ''c'')], [JStr ''a'', JStr ''b'', JStr ''c''])
     \<and> or_next t = 6"
  by (simp add: or_eval)

theorem receiver_delivers_in_order_once_witness:
  "[JStr ''a'', JStr ''b'', JStr ''c''] =
     map (\<lambda>c. the (map_of [(4, JStr ''b''), (3, JStr ''a''), (5, JStr ''c'')] c)) [3 ..< 6] \<and>
   (\<exists>t. or_run example_ops example_receiver =
     (t, [(4, JStr ''b''), (3, JStr ''a''), (5, JStr ''c'')], [JStr ''a'', JStr ''b'', JStr ''c'']))"
proof -
  obtain t where "or_run example_ops example_receiver =
     (t, [(4, JStr ''b''), (3, JStr ''a''), (5, JStr ''c'')], [JStr ''a'', JStr ''b'', JStr ''c''])"
    using example_run by blast
  from receiver_delivers_in_order_once [OF example_receiver_new this, of quiet quiet Null] this show ?thesis by simp
qed

text \<open>
  the reorder buffer is bounded: in every reachable state it holds fewer cells than the window
  (at most 4096), each of at most 1146 bytes and each inside the window above the next counter.
\<close>

theorem receiver_buffer_bounded:
  assumes "OrderedReceiver_new v = Inr s" "or_run ops s = (t, accepted, delivered)"
  shows "length (or_buffer t) < or_window t \<and> or_window t \<le> 4096 \<and>
    (\<forall>(c, p) \<in> set (or_buffer t). or_next t < c \<and> c < or_next t + or_window t \<and> payloadSize p \<le> 1146)"
proof -
  have inv: "or_inv t"
    using OrderedReceiver_new_inv [OF assms(1)] or_run_inv [OF _ assms(2)] by blast
  have "set (map fst (or_buffer t)) \<subseteq> {or_next t <..< or_next t + or_window t}"
    using inv by (auto simp: or_inv_def or_core_def)
  then have "card (set (map fst (or_buffer t))) \<le> card {or_next t <..< or_next t + or_window t}"
    by (intro card_mono) auto
  then have "length (or_buffer t) \<le> or_window t - 1"
    using inv distinct_card [of "map fst (or_buffer t)"] by (simp add: or_inv_def or_core_def)
  then show ?thesis
    using inv by (auto simp: or_inv_def or_core_def)
qed

theorem receiver_buffer_bounded_witness:
  "\<exists>t. or_run [OrPush quiet quiet (JBig 5) (JStr ''c'')] example_receiver = (t, [(5, JStr ''c'')], [])
     \<and> length (or_buffer t) < or_window t \<and> or_buffer t = [(5, JStr ''c'')]"
proof -
  obtain t where t: "or_run [OrPush quiet quiet (JBig 5) (JStr ''c'')] example_receiver = (t, [(5, JStr ''c'')], [])"
    "or_buffer t = [(5, JStr ''c'')]"
    by (simp add: or_eval)
  from receiver_buffer_bounded [OF example_receiver_new t(1)] t show ?thesis by blast
qed

end
