(* ===== verification/Replay_Window.thy ===== *)
theory Replay_Window
  imports Counters
begin

text \<open>
  \<^verbatim>\<open>DatagramReplayWindow\<close> of \<^verbatim>\<open>lib/private/counters.js\<close>: the highest accepted counter and a bitmap
  whose bit \<open>i\<close> says that counter \<open>highest - i\<close> was accepted. The bitmap is a bigint, kept as a
  natural number with the bitwise operations of the source.
\<close>

section \<open>State and operations\<close>

record DatagramReplayWindow =
  dw_window :: nat
  dw_mask :: nat
  dw_highest :: "nat option"
  dw_maximum :: nat
  dw_rotateAt :: nat
  dw_bitmap :: nat
  dw_closed :: bool

definition DatagramReplayWindow_new :: "jsval \<Rightarrow> error_code + DatagramReplayWindow" where
  "DatagramReplayWindow_new options0 =
     bindE (counters_optionsObject options0 False) (\<lambda>options.
     bindE (bindE (counters_option options ''window'' True) windowSize) (\<lambda>w.
     bindE (bindE (counters_option options ''maximum'' False) counterMaximum) (\<lambda>maximum.
       Inr \<lparr>dw_window = w, dw_mask = push_bit w 1 - 1, dw_highest = None, dw_maximum = maximum,
            dw_rotateAt = rotationAt maximum, dw_bitmap = 0, dw_closed = False\<rparr>)))"

definition dw_floor :: "DatagramReplayWindow \<Rightarrow> nat" where
  "dw_floor s =
     (case dw_highest s of
        None \<Rightarrow> 0
      | Some h \<Rightarrow> if h < dw_window s then 0 else h - dw_window s + 1)"

definition dw_needsRotation :: "DatagramReplayWindow \<Rightarrow> bool" where
  "dw_needsRotation s = (case dw_highest s of None \<Rightarrow> False | Some h \<Rightarrow> h \<ge> dw_rotateAt s)"

text \<open>The \<open>buffered\<close> getter: clear the lowest set bit until none is left.\<close>

lemma lowest_bit: "n \<noteq> 0 \<Longrightarrow> \<exists>j. bit n j \<and> (\<forall>i. bit (n AND (n - 1)) i \<longleftrightarrow> bit n i \<and> i \<noteq> j)"
  for n :: nat
proof (induction n rule: less_induct)
  case (less n)
  show ?case
  proof (cases "even n")
    case True
    then obtain m where m: "n = 2 * m" by blast
    with less.prems have "m \<noteq> 0" "m < n" by auto
    with less.IH obtain j where j: "bit m j" "\<forall>i. bit (m AND (m - 1)) i \<longleftrightarrow> bit m i \<and> i \<noteq> j"
      by blast
    have halves: "n div 2 = m" "(n - 1) div 2 = m - 1" using m \<open>m \<noteq> 0\<close> by auto
    have "bit (n AND (n - 1)) i \<longleftrightarrow> bit n i \<and> i \<noteq> Suc j" for i
    proof (cases i)
      case 0
      with True show ?thesis by (simp add: even_and_iff bit_0)
    next
      case (Suc k)
      with halves j(2) [unfolded bit_and_iff] show ?thesis
        unfolding bit_and_iff by (simp add: bit_Suc)
    qed
    moreover have "bit n (Suc j)" using j(1) halves by (simp add: bit_Suc)
    ultimately show ?thesis by blast
  next
    case False
    then obtain m where m: "n = 2 * m + 1" using oddE by blast
    then have halves: "n div 2 = m" "(n - 1) div 2 = m" "even (n - 1)" by auto
    have "bit (n AND (n - 1)) i \<longleftrightarrow> bit n i \<and> i \<noteq> 0" for i
    proof (cases i)
      case 0
      with halves(3) show ?thesis by (metis bit_0 even_and_iff)
    next
      case (Suc k)
      with halves show ?thesis unfolding bit_and_iff by (simp add: bit_Suc)
    qed
    moreover have "bit n 0" using False by (simp add: bit_0)
    ultimately show ?thesis by blast
  qed
qed

lemma and_pred_less: "n \<noteq> 0 \<Longrightarrow> n AND (n - 1) < n"
  for n :: nat
proof -
  assume "n \<noteq> 0"
  have "n AND (n - 1) \<le> n - 1"
    by (metis and.commute and_nat_def of_nat_0_le_iff AND_upper2 nat_int nat_mono)
  with \<open>n \<noteq> 0\<close> show ?thesis by simp
qed

function popcount :: "nat \<Rightarrow> nat \<Rightarrow> nat" where
  "popcount bitmap count =
     (if bitmap = 0 then count else popcount (bitmap AND (bitmap - 1)) (count + 1))"
  by pat_completeness auto
termination
  by (relation "measure fst") (use and_pred_less in auto)

declare popcount.simps [simp del]

lemma finite_bits: "finite {i. bit (n::nat) i}"
proof (rule finite_subset)
  show "{i. bit n i} \<subseteq> {..n}"
    by (metis (mono_tags) atMost_iff bit_take_bit_iff mem_Collect_eq less_exp linorder_not_less nle_le
        subsetI take_bit_nat_eq_self)
qed simp

lemma popcount_card: "popcount n c = c + card {i. bit n i}"
proof (induction n c rule: popcount.induct)
  case (1 n c)
  show ?case
  proof (cases "n = 0")
    case False
    obtain j where j: "bit n j" "\<forall>i. bit (n AND (n - 1)) i \<longleftrightarrow> bit n i \<and> i \<noteq> j"
      using lowest_bit [OF False] by blast
    then have "{i. bit (n AND (n - 1)) i} = {i. bit n i} - {j}" by auto
    moreover have "card {i. bit n i} = Suc (card ({i. bit n i} - {j}))"
      using j(1) finite_bits by (intro card.remove) auto
    ultimately show ?thesis
      using "1.IH" False by (simp add: popcount.simps [of n c])
  qed (simp add: popcount.simps)
qed

definition dw_buffered :: "DatagramReplayWindow \<Rightarrow> nat" where
  "dw_buffered s = popcount (dw_bitmap s) 0"

definition dw_accept :: "nat \<Rightarrow> (DatagramReplayWindow, error_code, bool) action" where
  "dw_accept counter s =
     (if dw_closed s then (s, Inl COUNTER_EXHAUSTED)
      else case dw_highest s of
        None \<Rightarrow>
          (s\<lparr>dw_highest := Some counter, dw_bitmap := 1, dw_closed := (counter = dw_maximum s)\<rparr>, Inr True)
      | Some h \<Rightarrow>
          if counter > h then
            let sh = counter - h;
                bm = (if sh \<ge> dw_window s then 1 else (push_bit sh (dw_bitmap s) OR 1) AND dw_mask s)
            in (s\<lparr>dw_bitmap := bm, dw_highest := Some counter, dw_closed := (counter = dw_maximum s)\<rparr>,
                Inr True)
          else if counter < dw_floor s then (s, Inl REPLAY)
          else let b = push_bit (h - counter) 1 in
            if dw_bitmap s AND b \<noteq> 0 then (s, Inl REPLAY)
            else (s\<lparr>dw_bitmap := dw_bitmap s OR b\<rparr>, Inr True))"

definition acceptAuthenticated :: "jsval \<Rightarrow> (DatagramReplayWindow, error_code, bool) action" where
  "acceptAuthenticated v s =
     (case counterValue v (dw_maximum s) of Inl e \<Rightarrow> (s, Inl e) | Inr c \<Rightarrow> dw_accept c s)"

definition dw_destroy :: "DatagramReplayWindow \<Rightarrow> DatagramReplayWindow" where
  "dw_destroy s = s\<lparr>dw_highest := None, dw_bitmap := 0, dw_closed := True\<rparr>"

section \<open>Abstract specification\<close>

text \<open>
  The contract, on the list of counters accepted so far: a counter is refused when the maximum has
  been accepted (the window is exhausted), when it was accepted before, or when it lies a full window
  or more below the highest accepted one.
\<close>

definition replay_spec :: "nat \<Rightarrow> nat \<Rightarrow> nat list \<Rightarrow> nat \<Rightarrow> error_code + bool" where
  "replay_spec w mx seen c =
     (if mx \<in> set seen then Inl COUNTER_EXHAUSTED
      else if seen \<noteq> [] \<and> (c \<in> set seen \<or> c + w \<le> Max (set seen)) then Inl REPLAY
      else Inr True)"

definition dw_represents :: "DatagramReplayWindow \<Rightarrow> nat list \<Rightarrow> bool" where
  "dw_represents s seen \<longleftrightarrow>
     1 \<le> dw_window s \<and> dw_mask s = mask (dw_window s) \<and> (\<forall>c \<in> set seen. c \<le> dw_maximum s) \<and>
     dw_closed s = (dw_maximum s \<in> set seen) \<and>
     dw_highest s = (if seen = [] then None else Some (Max (set seen))) \<and>
     (\<forall>i. bit (dw_bitmap s) i \<longleftrightarrow>
        seen \<noteq> [] \<and> i < dw_window s \<and> i \<le> Max (set seen) \<and> Max (set seen) - i \<in> set seen)"

lemma and_bit_zero_iff: "(n AND push_bit k 1 = 0) \<longleftrightarrow> \<not> bit n k" for n k :: nat
  by (simp add: push_bit_of_1 and_exp_eq_0_iff_not_bit)

lemma dw_new_represents:
  "DatagramReplayWindow_new v = Inr s \<Longrightarrow> dw_represents s [] \<and> dw_maximum s \<le> MAX_COUNTER"
  by (auto simp: DatagramReplayWindow_new_def result_simps dw_represents_def windowSize_Inr
      mask_eq_exp_minus_1 push_bit_eq_mult counterMaximum_def counterValue_Inr)

text \<open>The three ways to accept a counter.\<close>

lemma dw_represents_first:
  assumes "dw_represents s []" "c \<le> dw_maximum s"
  shows "dw_represents (s\<lparr>dw_highest := Some c, dw_bitmap := 1, dw_closed := (c = dw_maximum s)\<rparr>) [c]"
  using assms by (auto simp: dw_represents_def bit_Suc_0_iff)

lemma dw_represents_above:
  assumes rep: "dw_represents s seen" and h: "seen \<noteq> []" "Max (set seen) < c" and c: "c \<le> dw_maximum s"
    and bm: "bm = (if c - Max (set seen) \<ge> dw_window s then 1
                   else (push_bit (c - Max (set seen)) (dw_bitmap s) OR 1) AND dw_mask s)"
    and live: "\<not> dw_closed s"
  shows "dw_represents (s\<lparr>dw_bitmap := bm, dw_highest := Some c, dw_closed := (c = dw_maximum s)\<rparr>) (c # seen)"
proof -
  define h where "h = Max (set seen)"
  have hc: "h < c" using h by (simp only: h_def)
  have le: "x \<le> h" if "x \<in> set seen" for x using that by (simp add: h_def)
  have old: "bit (dw_bitmap s) i \<longleftrightarrow> i < dw_window s \<and> i \<le> h \<and> h - i \<in> set seen" for i
    using rep h(1) by (simp add: dw_represents_def h_def)
  have top: "Max (set (c # seen)) = c"
  proof -
    have "Max (set (c # seen)) = max c h" using h(1) by (simp add: h_def)
    also have "\<dots> = c" using hc by simp
    finally show ?thesis .
  qed
  have shifted: "c - i \<in> set seen \<longleftrightarrow> c - h \<le> i \<and> h - (i - (c - h)) \<in> set seen" if "i \<le> c" for i
  proof -
    have "h - (i - (c - h)) = c - i" if "c - h \<le> i" using that hc by linarith
    moreover have "c - h \<le> i" if "c - i \<in> set seen" using le [OF that] \<open>i \<le> c\<close> by linarith
    ultimately show ?thesis by auto
  qed
  have w: "1 \<le> dw_window s" and m: "dw_mask s = mask (dw_window s)"
    using rep by (simp_all add: dw_represents_def)
  have bits: "bit bm i \<longleftrightarrow> i < dw_window s \<and> i \<le> c \<and> c - i \<in> set (c # seen)" for i
  proof (cases "i \<le> c")
    case True
    then show ?thesis
      using bm w m hc shifted [OF True] unfolding h_def [symmetric]
      by (auto simp: old bit_simps bit_Suc_0_iff)
  next
    case False
    then show ?thesis
      using bm m hc unfolding h_def [symmetric] by (auto simp: old bit_simps bit_Suc_0_iff)
  qed
  show ?thesis
    using rep c top bits live by (auto simp: dw_represents_def)
qed

lemma dw_represents_inside:
  assumes rep: "dw_represents s seen" and h: "seen \<noteq> []" "c \<le> Max (set seen)"
    and w: "Max (set seen) < c + dw_window s" and live: "\<not> dw_closed s"
  shows "dw_represents (s\<lparr>dw_bitmap := dw_bitmap s OR push_bit (Max (set seen) - c) 1\<rparr>) (c # seen)"
proof -
  define h where "h = Max (set seen)"
  have ch: "c \<le> h" and hw: "h < c + dw_window s" using assms by (simp_all only: h_def)
  have hin: "h \<in> set seen" using h(1) by (simp add: h_def)
  have old: "bit (dw_bitmap s) i \<longleftrightarrow> i < dw_window s \<and> i \<le> h \<and> h - i \<in> set seen" for i
    using rep h(1) by (simp add: dw_represents_def h_def)
  have top: "Max (set (c # seen)) = h"
    using ch h(1) by (simp add: h_def max_absorb2)
  have bits: "bit (dw_bitmap s OR push_bit (h - c) 1) i \<longleftrightarrow>
      i < dw_window s \<and> i \<le> h \<and> h - i \<in> set (c # seen)" for i
    using ch hw by (auto simp: old bit_simps bit_Suc_0_iff push_bit_of_1 bit_exp_iff)
  have "c = dw_maximum s \<Longrightarrow> c = h" and "h \<noteq> dw_maximum s"
    using rep live ch hin by (auto simp: dw_represents_def)
  then have cm: "c \<noteq> dw_maximum s" by auto
  have cle: "c \<le> dw_maximum s"
    using rep ch hin by (auto simp: dw_represents_def)
  show ?thesis
    unfolding dw_represents_def top
    using rep bits cm cle h(1) by (simp add: dw_represents_def h_def [symmetric])
qed

lemma dw_floor_iff:
  "dw_highest s = Some h \<Longrightarrow> 1 \<le> dw_window s \<Longrightarrow> c \<le> h \<Longrightarrow> c < dw_floor s \<longleftrightarrow> c + dw_window s \<le> h"
  by (auto simp: dw_floor_def)

lemma dw_accept_refines:
  assumes rep: "dw_represents s seen" and c: "c \<le> dw_maximum s"
  shows "\<exists>t. dw_accept c s = (t, replay_spec (dw_window s) (dw_maximum s) seen c) \<and>
    dw_represents t (if replay_spec (dw_window s) (dw_maximum s) seen c = Inr True then c # seen else seen) \<and>
    dw_window t = dw_window s \<and> dw_maximum t = dw_maximum s"
proof (cases "dw_closed s")
  case True
  with rep show ?thesis by (auto simp: dw_accept_def replay_spec_def dw_represents_def)
next
  case live: False
  then have mx: "dw_maximum s \<notin> set seen" using rep by (simp add: dw_represents_def)
  show ?thesis
  proof (cases "seen = []")
    case True
    with rep live c show ?thesis
      using dw_represents_first [of s c]
      by (auto simp: dw_accept_def replay_spec_def dw_represents_def [of s])
  next
    case ne: False
    define h where "h = Max (set seen)"
    have hi: "dw_highest s = Some h" and w: "1 \<le> dw_window s"
      using rep ne by (auto simp: dw_represents_def h_def)
    have old: "bit (dw_bitmap s) i \<longleftrightarrow> i < dw_window s \<and> i \<le> h \<and> h - i \<in> set seen" for i
      using rep ne by (simp add: dw_represents_def h_def)
    have spec: "replay_spec (dw_window s) (dw_maximum s) seen c =
        (if c \<in> set seen \<or> c + dw_window s \<le> h then Inl REPLAY else Inr True)"
      using mx ne by (simp add: replay_spec_def h_def)
    show ?thesis
    proof (cases "h < c")
      case True
      have "c \<notin> set seen" using True by (metis List.finite_set Max_ge h_def linorder_not_less)
      then have "replay_spec (dw_window s) (dw_maximum s) seen c = Inr True"
        using spec True by simp
      then show ?thesis
        using dw_represents_above [OF rep ne True [unfolded h_def] c refl live, folded h_def] live hi True
        by (cases "dw_window s \<le> c - h") (simp_all add: dw_accept_def Let_def)
    next
      case False
      then have ch: "c \<le> h" by simp
      note fl = dw_floor_iff [OF hi w ch]
      have hit: "dw_bitmap s AND push_bit (h - c) 1 \<noteq> 0 \<longleftrightarrow> h - c < dw_window s \<and> c \<in> set seen"
        unfolding and_bit_zero_iff old using ch by auto
      show ?thesis
      proof (cases "c \<in> set seen \<or> c + dw_window s \<le> h")
        case True
        then show ?thesis
          using rep spec live hi False fl hit ch by (auto simp: dw_accept_def Let_def)
      next
        case fresh: False
        then have "Max (set seen) < c + dw_window s" "c \<le> Max (set seen)"
          using ch by (simp_all add: h_def)
        from dw_represents_inside [OF rep ne this(2,1) live] show ?thesis
          using spec fresh live hi False fl hit by (simp add: dw_accept_def Let_def h_def [symmetric])
      qed
    qed
  qed
qed

section \<open>Runs\<close>

text \<open>The results of a sequence of offered counters, by the code and by the contract.\<close>

fun dw_results :: "nat list \<Rightarrow> DatagramReplayWindow \<Rightarrow> (error_code + bool) list" where
  "dw_results [] s = []"
| "dw_results (c # cs) s =
     (case acceptAuthenticated (JBig (int c)) s of (t, r) \<Rightarrow> r # dw_results cs t)"

fun spec_results :: "nat \<Rightarrow> nat \<Rightarrow> nat list \<Rightarrow> nat list \<Rightarrow> (error_code + bool) list" where
  "spec_results w mx seen [] = []"
| "spec_results w mx seen (c # cs) =
     (if c > mx then Inl COUNTER_INVALID # spec_results w mx seen cs
      else let r = replay_spec w mx seen c in
        r # spec_results w mx (if r = Inr True then c # seen else seen) cs)"

lemma dw_results_refine:
  "dw_represents s seen \<Longrightarrow> dw_results cs s = spec_results (dw_window s) (dw_maximum s) seen cs"
proof (induction cs arbitrary: s seen)
  case (Cons c cs)
  show ?case
  proof (cases "c > dw_maximum s")
    case True
    with Cons.IH [OF Cons.prems] show ?thesis by (simp add: acceptAuthenticated_def)
  next
    case False
    then have "c \<le> dw_maximum s" by simp
    from dw_accept_refines [OF Cons.prems this] obtain t where
      t: "dw_accept c s = (t, replay_spec (dw_window s) (dw_maximum s) seen c)"
      "dw_represents t (if replay_spec (dw_window s) (dw_maximum s) seen c = Inr True then c # seen else seen)"
      "dw_window t = dw_window s" "dw_maximum t = dw_maximum s" by blast
    with False Cons.IH [OF t(2)] show ?thesis by (simp add: acceptAuthenticated_def Let_def)
  qed
qed simp

text \<open>The state after a sequence of offers, and the counters it accepted, latest first.\<close>

fun dw_feed_from :: "nat list \<Rightarrow> DatagramReplayWindow \<Rightarrow> nat list \<Rightarrow> DatagramReplayWindow \<times> nat list" where
  "dw_feed_from [] s seen = (s, seen)"
| "dw_feed_from (c # cs) s seen =
     (case acceptAuthenticated (JBig (int c)) s of
        (t, Inl _) \<Rightarrow> dw_feed_from cs t seen
      | (t, Inr _) \<Rightarrow> dw_feed_from cs t (c # seen))"

abbreviation dw_feed :: "nat list \<Rightarrow> DatagramReplayWindow \<Rightarrow> DatagramReplayWindow \<times> nat list" where
  "dw_feed cs s \<equiv> dw_feed_from cs s []"

lemma dw_feed_represents:
  "dw_represents s seen \<Longrightarrow> dw_feed_from cs s seen = (t, seen') \<Longrightarrow> dw_represents t seen'"
proof (induction cs arbitrary: s seen)
  case (Cons c cs)
  show ?case
  proof (cases "c \<le> dw_maximum s")
    case True
    from dw_accept_refines [OF Cons.prems(1) True] Cons.IH Cons.prems(2) True show ?thesis
      by (auto simp: acceptAuthenticated_def replay_spec_def split: if_splits)
  next
    case False
    with Cons show ?thesis by (auto simp: acceptAuthenticated_def)
  qed
qed simp

lemma dw_buffered_card:
  assumes "dw_represents s seen" "seen \<noteq> []"
  shows "dw_buffered s = card {c \<in> set seen. Max (set seen) < c + dw_window s}"
proof -
  define h where "h = Max (set seen)"
  have le: "x \<le> h" if "x \<in> set seen" for x using that by (simp add: h_def)
  have old: "bit (dw_bitmap s) i \<longleftrightarrow> i < dw_window s \<and> i \<le> h \<and> h - i \<in> set seen" for i
    using assms by (simp add: dw_represents_def h_def)
  have close: "h - c < dw_window s" if "c \<in> set seen" "h < c + dw_window s" for c
    using le [OF that(1)] that(2) by linarith
  have "bij_betw (\<lambda>i. h - i) {i. bit (dw_bitmap s) i} {c \<in> set seen. h < c + dw_window s}"
    by (rule bij_betw_byWitness [where f' = "\<lambda>c. h - c"]) (use le close in \<open>auto simp: old\<close>)
  then show ?thesis
    using bij_betw_same_card by (fastforce simp: dw_buffered_def popcount_card h_def)
qed

subsection \<open>Single use\<close>

datatype dw_op = DwAccept jsval | DwDestroy

fun dw_step :: "dw_op \<Rightarrow> DatagramReplayWindow \<Rightarrow> DatagramReplayWindow \<times> nat option" where
  "dw_step (DwAccept v) s =
     (case acceptAuthenticated v s of
        (t, Inl _) \<Rightarrow> (t, None)
      | (t, Inr _) \<Rightarrow> (t, case counterValue v (dw_maximum s) of Inl _ \<Rightarrow> None | Inr c \<Rightarrow> Some c))"
| "dw_step DwDestroy s = (dw_destroy s, None)"

definition dw_inv :: "DatagramReplayWindow \<Rightarrow> bool" where
  "dw_inv s \<longleftrightarrow> (\<exists>seen. dw_represents s seen) \<or> dw_closed s"

definition dw_fresh :: "DatagramReplayWindow \<Rightarrow> nat \<Rightarrow> bool" where
  "dw_fresh s c \<longleftrightarrow> \<not> dw_closed s \<and>
     (case dw_highest s of
        None \<Rightarrow> True
      | Some h \<Rightarrow> h < c \<or> h < c + dw_window s \<and> \<not> bit (dw_bitmap s) (h - c))"

lemma dw_fresh_iff:
  assumes "dw_represents s seen"
  shows "dw_fresh s c \<longleftrightarrow> dw_maximum s \<notin> set seen \<and> c \<notin> set seen \<and>
           (seen = [] \<or> Max (set seen) < c + dw_window s)"
proof (cases "seen = []")
  case True
  with assms show ?thesis by (simp add: dw_fresh_def dw_represents_def)
next
  case False
  define h where "h = Max (set seen)"
  have le: "x \<le> h" if "x \<in> set seen" for x using that by (simp add: h_def)
  have old: "bit (dw_bitmap s) i \<longleftrightarrow> i < dw_window s \<and> i \<le> h \<and> h - i \<in> set seen" for i
    using assms False by (simp add: dw_represents_def h_def)
  have hi: "dw_highest s = Some h" "dw_closed s = (dw_maximum s \<in> set seen)"
    using assms False by (simp_all add: dw_represents_def h_def)
  show ?thesis
  proof (cases "c \<le> h")
    case True
    then have "h - c < dw_window s \<longleftrightarrow> h < c + dw_window s" by linarith
    with True show ?thesis
      using False unfolding h_def [symmetric] by (auto simp: dw_fresh_def hi old)
  next
    case gt: False
    with le [of c] show ?thesis
      using False unfolding h_def [symmetric] by (auto simp: dw_fresh_def hi)
  qed
qed

lemma dw_step_closed: "dw_closed s \<Longrightarrow> dw_step x s = (t, r) \<Longrightarrow> dw_closed t \<and> r = None"
  by (cases x) (auto simp: acceptAuthenticated_def dw_accept_def dw_destroy_def split: sum.splits)

lemma dw_accept_error: "dw_accept c s = (t, Inl e) \<Longrightarrow> t = s"
  by (auto simp: dw_accept_def Let_def split: if_splits option.splits)

lemma dw_step_represents:
  assumes rep: "dw_represents s seen" and st: "dw_step (DwAccept v) s = (t, r)"
  shows "r = None \<and> t = s \<or>
         (\<exists>c. r = Some c \<and> dw_represents t (c # seen) \<and> dw_fresh s c \<and> dw_window t = dw_window s \<and>
              dw_maximum t = dw_maximum s)"
proof (cases "counterValue v (dw_maximum s)")
  case (Inl e)
  with st show ?thesis by (simp add: acceptAuthenticated_def)
next
  case (Inr c)
  then have "c \<le> dw_maximum s" by (simp add: counterValue_Inr)
  from dw_accept_refines [OF rep this] Inr st show ?thesis
    by (auto simp: acceptAuthenticated_def dw_fresh_iff [OF rep] replay_spec_def
        split: if_splits dest: dw_accept_error)
qed

text \<open>A step from a state that may still accept: nothing, a destroy, or one more counter.\<close>

lemma dw_step_cases [consumes 2, case_names shut idle admit]:
  assumes "dw_inv s" "dw_step x s = (t, r)"
  obtains (shut) "dw_closed t" "r = None"
  | (idle) "t = s" "r = None"
  | (admit) c seen where "r = Some c" "dw_represents s seen" "dw_represents t (c # seen)" "dw_fresh s c"
      "dw_window t = dw_window s" "dw_maximum t = dw_maximum s"
proof (cases "dw_closed s")
  case True
  with assms(2) dw_step_closed shut show ?thesis by blast
next
  case False
  then obtain seen where rep: "dw_represents s seen" using assms(1) by (auto simp: dw_inv_def)
  show ?thesis
  proof (cases x)
    case (DwAccept v)
    with dw_step_represents [OF rep] assms(2) idle admit rep show ?thesis by blast
  next
    case DwDestroy
    with assms(2) shut show ?thesis by (auto simp: dw_destroy_def)
  qed
qed

interpretation dw_use: single_use dw_step dw_inv dw_fresh
proof unfold_locales
  fix s t :: DatagramReplayWindow and x r
  assume s: "dw_inv s" and st: "dw_step x s = (t, r)"
  show "dw_inv t"
    using s st s by (cases rule: dw_step_cases) (auto simp: dw_inv_def)
  show "dw_fresh s d" if "dw_fresh t d" for d
    using s st
  proof (cases rule: dw_step_cases)
    case (admit c seen)
    have "dw_maximum s \<notin> set (c # seen)" "d \<notin> set (c # seen)" "Max (set (c # seen)) < d + dw_window s"
      using that unfolding dw_fresh_iff [OF admit(3)] admit(5,6) by blast+
    moreover have "Max (set seen) \<le> Max (set (c # seen))" if "seen \<noteq> []"
      using that by (intro Max_mono) auto
    ultimately show ?thesis
      unfolding dw_fresh_iff [OF admit(2)] by (meson le_less_trans list.set_intros(2))
  qed (use that in \<open>auto simp: dw_fresh_def\<close>)
next
  fix s t :: DatagramReplayWindow and x e
  assume s: "dw_inv s" and st: "dw_step x s = (t, Some e)"
  show "dw_fresh s e"
    using s st by (cases rule: dw_step_cases) auto
  show "\<not> dw_fresh t e"
    using s st by (cases rule: dw_step_cases) (auto simp: dw_fresh_iff)
qed

section \<open>Properties\<close>

text \<open>
  C5: for every sequence of offered counters the replay window answers exactly as its contract does
  on the list of counters accepted so far: the bitmap with its shifts and mask implements "accept
  each counter at most once, and only within a window of the highest one".
\<close>

theorem replay_window_refines_spec:
  assumes "DatagramReplayWindow_new v = Inr s"
  shows "dw_results cs s = spec_results (dw_window s) (dw_maximum s) [] cs"
  using dw_new_represents [OF assms] by (blast intro: dw_results_refine)

abbreviation example_window :: DatagramReplayWindow where
  "example_window \<equiv> \<lparr>dw_window = 4, dw_mask = 15, dw_highest = None, dw_maximum = 20,
     dw_rotateAt = 0, dw_bitmap = 0, dw_closed = False\<rparr>"

lemma example_window_new:
  "DatagramReplayWindow_new (JObj [(''window'', DataProp (JNum 4)), (''maximum'', DataProp (JBig 20))] [])
     = Inr example_window"
  by (simp add: DatagramReplayWindow_new_def counters_optionsObject_def counters_option_def
      counterMaximum_def MAX_COUNTER_def MAX_WINDOW_def rotationAt_def push_bit_eq_mult)

theorem replay_window_refines_spec_witness:
  "dw_results [7, 9, 7, 5, 8, 25, 20, 19] example_window =
     [Inr True, Inr True, Inl REPLAY, Inl REPLAY, Inr True, Inl COUNTER_INVALID, Inr True, Inl COUNTER_EXHAUSTED]"
  using replay_window_refines_spec [OF example_window_new, of "[7, 9, 7, 5, 8, 25, 20, 19]"]
  by (simp add: replay_spec_def Let_def)

text \<open>
  Across any sequence of calls, including invalid values and \<open>destroy()\<close>, the window accepts no
  counter twice.
\<close>

theorem replay_window_accepts_once:
  assumes "DatagramReplayWindow_new v = Inr s"
  shows "distinct (snd (run_events dw_step ops s))"
proof -
  have "dw_inv s" using dw_new_represents [OF assms] by (auto simp: dw_inv_def)
  then show ?thesis by (rule dw_use.run_distinct)
qed

theorem replay_window_accepts_once_witness:
  "distinct (snd (run_events dw_step
     [DwAccept (JBig 3), DwAccept (JNum 3), DwAccept (JBig 3), DwAccept (JBig 1), DwDestroy] example_window))"
  by (rule replay_window_accepts_once [OF example_window_new])

text \<open>
  The \<open>buffered\<close> getter, which clears the lowest set bit of the bitmap until none is left, returns
  the number of accepted counters that are still inside the window.
\<close>

theorem replay_window_buffered:
  assumes "DatagramReplayWindow_new v = Inr s" "dw_feed cs s = (t, seen)" "seen \<noteq> []"
  shows "dw_buffered t = card {c \<in> set seen. Max (set seen) < c + dw_window t}"
  using dw_new_represents [OF assms(1)] dw_feed_represents [of s "[]", OF _ assms(2)] dw_buffered_card assms(3)
  by auto

theorem replay_window_buffered_witness:
  "dw_feed [7, 9, 7, 3, 8] example_window =
     (example_window\<lparr>dw_highest := Some 9, dw_bitmap := 7\<rparr>, [8, 9, 7]) \<and>
   dw_buffered (example_window\<lparr>dw_highest := Some 9, dw_bitmap := 7\<rparr>) = 3"
proof -
  have feed: "dw_feed [7, 9, 7, 3, 8] example_window =
     (example_window\<lparr>dw_highest := Some 9, dw_bitmap := 7\<rparr>, [8, 9, 7])"
    by (simp add: acceptAuthenticated_def dw_accept_def dw_floor_def Let_def push_bit_eq_mult)
  have "{c \<in> set [8, 9, 7]. Max (set [8, 9, 7]) < c + (4::nat)} = {7, 8, 9}" by auto
  then have "card {c \<in> set [8, 9, 7]. Max (set [8, 9, 7]) < c + (4::nat)} = 3" by simp
  with replay_window_buffered [OF example_window_new feed] feed show ?thesis by simp
qed

end
