(* ===== verification/Object_Envelope.thy ===== *)
theory Object_Envelope
  imports Private_Errors Interfaces
begin

text \<open>
  What the two object codecs of the private protocol share (\<^verbatim>\<open>protocol.js\<close> and
  \<^verbatim>\<open>peer-protocol.js\<close>): the eight-byte header (version, message id, body length), the
  reading of big-endian fields at an offset and the split of an encoding into its fields.
\<close>

record wire_object =
  protocolVersion :: nat
  messageId :: nat
  body :: bytes
  authSuffix :: bytes

section \<open>Fields at an offset\<close>

lemma be_bytes_two: "be_bytes 2 v = [word_of_nat (drop_bit 8 v), word_of_nat v]"
proof -
  have "be_bytes (Suc (Suc 0)) v = [word_of_nat (drop_bit 8 v), word_of_nat v]"
    by (simp add: drop_bit_eq_div)
  then show ?thesis
    by (simp only: numeral_2_eq_2)
qed

lemma be_bytes_four:
  "be_bytes 4 v =
     [word_of_nat (drop_bit 24 v), word_of_nat (drop_bit 16 v), word_of_nat (drop_bit 8 v),
      word_of_nat v]"
proof -
  have "be_bytes (Suc (Suc (Suc (Suc 0)))) v =
     [word_of_nat (drop_bit 24 v), word_of_nat (drop_bit 16 v), word_of_nat (drop_bit 8 v),
      word_of_nat v]"
    by (simp add: drop_bit_eq_div div_mult2_eq [symmetric])
  moreover have "4 = Suc (Suc (Suc (Suc 0)))"
    by simp
  ultimately show ?thesis
    by metis
qed

lemma take_two_drop:
  "i + 2 \<le> length bs \<Longrightarrow> take 2 (drop i bs) = [bs ! i, bs ! (i + 1)]"
  by (simp add: take_Suc_conv_app_nth numeral_2_eq_2)

lemma take_four_drop:
  "i + 4 \<le> length bs \<Longrightarrow>
     take 4 (drop i bs) = [bs ! i, bs ! (i + 1), bs ! (i + 2), bs ! (i + 3)]"
  by (simp add: take_Suc_conv_app_nth eval_nat_numeral)

lemma be_nat_two: "be_nat [a, b] = push_bit 8 (unat a) OR unat b"
  by (simp add: be_nat_def)

lemma be_nat_four:
  "be_nat [a, b, c, d] =
     unat a * 0x1000000 + push_bit 16 (unat b) + push_bit 8 (unat c) + unat d"
  using be_nat_snoc [of "[a, b, c]" d] be_nat_snoc [of "[a, b]" c] be_nat_snoc [of "[a]" b]
    be_nat_snoc [of "[]" a] by (simp add: push_bit_eq_mult)

lemma be_bytes_take_drop:
  assumes "i + n \<le> length bs"
  shows "be_bytes n (be_nat (take n (drop i bs))) = take n (drop i bs)"
  using be_bytes_be_nat [of "take n (drop i bs)"] assms by simp

lemma be_nat_take_less: "be_nat (take n bs) < 256 ^ n"
proof -
  have "be_nat (take n bs) < 256 ^ length (take n bs)"
    by (rule be_nat_less)
  also have "\<dots> \<le> 256 ^ n"
    by (intro power_increasing) auto
  finally show ?thesis .
qed

section \<open>The eight-byte header\<close>

text \<open>Version, identifier and body length in front of the body and the authentication suffix.\<close>

definition envelope :: "nat \<Rightarrow> nat \<Rightarrow> bytes \<Rightarrow> bytes \<Rightarrow> bytes" where
  "envelope v i b a = be_bytes 4 v @ be_bytes 2 i @ be_bytes 2 (length b) @ b @ a"

lemma envelope_fields [simp]:
  "length (envelope v i b a) = 8 + length b + length a"
  "be_nat (take 4 (drop 0 (envelope v i b a))) = v mod 256 ^ 4"
  "be_nat (take 2 (drop 4 (envelope v i b a))) = i mod 256 ^ 2"
  "be_nat (take 2 (drop 6 (envelope v i b a))) = length b mod 256 ^ 2"
  "take (length b) (drop 8 (envelope v i b a)) = b"
  "drop (8 + length b) (envelope v i b a) = a"
  by (simp_all add: envelope_def be_nat_be_bytes)

lemma envelope_of_fields:
  assumes "8 \<le> length bs" "8 + n \<le> length bs" "be_nat (take 2 (drop 6 bs)) = n"
  shows "envelope (be_nat (take 4 (drop 0 bs))) (be_nat (take 2 (drop 4 bs)))
           (take n (drop 8 bs)) (drop (8 + n) bs) = bs"
proof -
  have len: "length (take n (drop 8 bs)) = n"
    using assms by simp
  have join: "take k (drop i bs) @ drop (k + i) bs = drop i bs" for i k
    by (metis append_take_drop_id drop_drop)
  have "envelope (be_nat (take 4 (drop 0 bs))) (be_nat (take 2 (drop 4 bs)))
           (take n (drop 8 bs)) (drop (8 + n) bs)
        = take 4 (drop 0 bs) @ take 2 (drop 4 bs) @ take 2 (drop 6 bs) @ take n (drop 8 bs) @
          drop (8 + n) bs"
    unfolding envelope_def len using assms be_bytes_take_drop [of 0 4 bs]
      be_bytes_take_drop [of 4 2 bs] be_bytes_take_drop [of 6 2 bs] by simp
  also have "\<dots> = bs"
    using join [of n 8] join [of 2 6] join [of 2 4] join [of 4 0] by (simp add: add.commute)
  finally show ?thesis .
qed

end
