(* ===== verification/M3_Objects.thy ===== *)
theory M3_Objects
  imports Object_Envelope "HOL-Library.Sublist"
begin

text \<open>
  \<^verbatim>\<open>lib/private/protocol.js\<close>: the registries of the private protocol (message
  identifiers, error identifiers, roles, cell classes, domain-separation tags), the role derived
  from an identity key, and the strict codec of its objects. Hashing belongs to
  \<^verbatim>\<open>hypercore-crypto\<close> and is an argument.
\<close>

section \<open>Registries\<close>

definition PROTOCOL_VERSION :: nat where
  "PROTOCOL_VERSION = 0"

definition M3_PROTOCOL_VERSION :: nat where
  "M3_PROTOCOL_VERSION = 1"

definition BRANCH_CLASS :: "(string \<times> nat) list" where
  "BRANCH_CLASS =
     [(''LOOKUP'', 0), (''ANNOUNCE'', 1)]"

definition M3_LINK_ROLE :: "(string \<times> nat) list" where
  "M3_LINK_ROLE =
     [(''CLIENT'', 0), (''SAFETY_RELAY'', 1),
      (''DHT_EXIT'', 2)]"

definition RELAY_CAPABILITY :: "(string \<times> nat) list" where
  "RELAY_CAPABILITY =
     [(''CIRCUIT_RELAY_V1'', 1), (''DHT_EXIT_V1'', 2),
      (''PRIVATE_RECORDS_V1'', 4)]"

definition CAPACITY_CLASS :: "(string \<times> nat) list" where
  "CAPACITY_CLASS =
     [(''SMALL'', 0), (''MEDIUM'', 1),
      (''LARGE'', 2)]"

definition MUTATION_FLAG :: "(string \<times> nat) list" where
  "MUTATION_FLAG =
     [(''READ_ONLY'', 0), (''MUTATING'', 1)]"

definition DESTINATION_VALIDATION_CLASS :: "(string \<times> nat) list" where
  "DESTINATION_VALIDATION_CLASS =
     [(''EXIT_LOCAL'', 0), (''DHT_NODE_HANDLE'', 1),
      (''SIGNED_CAPABILITY_HANDLE'', 2)]"

definition CONTEXT_CLASS :: "(string \<times> nat) list" where
  "CONTEXT_CLASS =
     [(''TAIL_CONTROL_ORDERED'', 0), (''TAIL_FINALIZE_DATAGRAM'', 1),
      (''FINAL_EXIT_FINALIZE_DATAGRAM'', 2), (''ROUTE_PAYLOAD'', 3),
      (''TERMINAL_CONTROL_ORDERED'', 4)]"

definition M3_MESSAGE_ID :: "(string \<times> nat) list" where
  "M3_MESSAGE_ID =
     [(''CAPABILITY_ADVERTISEMENT_V1'', 0x0001), (''CAPS_QUERY_V1'', 0x0002),
      (''CAPS_RESPONSE_V1'', 0x0003), (''ACTIVE_CHALLENGE_V1'', 0x0004),
      (''ACTIVE_CHALLENGE_RESPONSE_V1'', 0x0005), (''RELAY_DISCOVER_V1'', 0x0006),
      (''RELAY_DISCOVER_RESPONSE_V1'', 0x0007), (''CORE_FRAGMENT_V1'', 0x0008),
      (''CAPS_COOKIE_CHALLENGE_V1'', 0x0009), (''LINK_OFFER_V1'', 0x0020),
      (''LINK_ACCEPT_V1'', 0x0021), (''REDACTED_RESPONDER_PROOF_V1'', 0x0022),
      (''EXTENDED_V1'', 0x0023), (''TAIL_READY_V1'', 0x0024),
      (''EXTEND_REQUEST_V1'', 0x0025), (''BRANCH_DESTROY_V1'', 0x0026),
      (''BRANCH_TEARDOWN_V1'', 0x0027), (''BRANCH_TEARDOWN_ACK_V1'', 0x0028),
      (''DHT_EXIT_ACTIVATE_V1'', 0x0040), (''DHT_EXIT_READY_V1'', 0x0041),
      (''DHT_EXIT_READY_ACK_V1'', 0x0042), (''DHT_EXIT_OPEN_V1'', 0x0043),
      (''DHT_EXIT_SEEDS_V1'', 0x0044), (''DHT_EXIT_DHT_SEEDS_V1'', 0x0045),
      (''EXIT_RPC_OPEN_V1'', 0x0050), (''EXIT_RPC_ACCEPT_V1'', 0x0051),
      (''EXIT_RPC_FRAGMENT_V1'', 0x0052), (''EXIT_RPC_REQUEST_V1'', 0x0053),
      (''EXIT_RPC_RESPONSE_V1'', 0x0054), (''DESTINATION_REF_V1'', 0x0100),
      (''ROUTED_REQUEST_V1'', 0x0101), (''ROUTED_REPLY_V1'', 0x0102),
      (''ROUTED_REQUEST_V2'', 0x0103), (''IMMUTABLE_GET_V1'', 0x0120),
      (''IMMUTABLE_PUT_V1'', 0x0121), (''MUTABLE_GET_V1'', 0x0122),
      (''MUTABLE_PUT_V1'', 0x0123), (''PRIVATE_FIND_NODE_V1'', 0x0200),
      (''PRIVATE_FIND_NODE_RESPONSE_V1'', 0x0201), (''PRIVATE_PRESENCE_RECORD_V1'', 0x0280),
      (''PRIVATE_TOMBSTONE_V1'', 0x0281), (''PRIVATE_LOOKUP_RESPONSE_V1'', 0x0282),
      (''PRIVATE_WRITE_TOKEN_V1'', 0x0283), (''PRIVATE_WRITE_RECEIPT_V1'', 0x0284),
      (''PRIVATE_LOOKUP_V1'', 0x02a0), (''PRIVATE_PREPARE_V1'', 0x02a1),
      (''PRIVATE_ANNOUNCE_V1'', 0x02a2), (''PRIVATE_UNANNOUNCE_V1'', 0x02a3)]"

definition REPLY_MODE :: "(string \<times> nat) list" where
  "REPLY_MODE =
     [(''CORRELATED'', 1), (''SURB_REQUIRED'', 2)]"

definition ROUTED_ERROR :: "(string \<times> nat) list" where
  "ROUTED_ERROR =
     [(''MALFORMED'', 0x0180), (''UNSUPPORTED_COMMAND'', 0x0181),
      (''POLICY_MISMATCH'', 0x0182), (''DESTINATION_INVALID'', 0x0183),
      (''DESTINATION_EXPIRED'', 0x0184), (''DEADLINE_EXPIRED'', 0x0185),
      (''BUSY'', 0x0186), (''RESPONSE_TOO_LARGE'', 0x0187),
      (''AMPLIFICATION_EXCEEDED'', 0x0188), (''UPSTREAM_TIMEOUT'', 0x0189),
      (''UPSTREAM_REJECTED'', 0x018a), (''TOKEN_INVALID'', 0x018b),
      (''STORAGE_UNAVAILABLE'', 0x018c), (''RECORD_CONFLICT'', 0x018d),
      (''QUOTA_EXCEEDED'', 0x018e)]"

text \<open>\<open>Object.values(...)\<close> of both tables, sorted by the numeric comparator.\<close>

definition M3_ID_REGISTRY :: "nat list" where
  "M3_ID_REGISTRY = sort (map snd M3_MESSAGE_ID @ map snd ROUTED_ERROR)"

definition ROLE :: "(string \<times> nat) list" where
  "ROLE =
     [(''SAFETY'', 0), (''PRIVATE'', 1)]"

definition TOPOLOGY_ROLE :: "(string \<times> nat) list" where
  "TOPOLOGY_ROLE =
     [(''SOURCE'', 0), (''SAFETY_GUARD'', 1),
      (''SAFETY_FINAL'', 2), (''PRIVATE_ENTRY'', 3),
      (''PRIVATE_MIDDLE'', 4), (''PRIVATE_FINAL'', 5),
      (''DESTINATION'', 6)]"

definition LINK_OPERATION :: "(string \<times> nat) list" where
  "LINK_OPERATION =
     [(''INITIATE'', 1), (''ACCEPT'', 2),
      (''KNOWN'', 3)]"

definition CELL_CLASS :: "(string \<times> nat) list" where
  "CELL_CLASS =
     [(''CONTROL'', 0), (''STREAM'', 1),
      (''DATAGRAM'', 2)]"

definition BOOTSTRAP_TYPE :: "(string \<times> nat) list" where
  "BOOTSTRAP_TYPE =
     [(''LINK_CREATE'', 0), (''LINK_CREATED'', 1),
      (''LINK_REJECT'', 2), (''LINK_CANCEL'', 3)]"

definition BOOTSTRAP_REJECT_CODE :: "(string \<times> nat) list" where
  "BOOTSTRAP_REJECT_CODE =
     [(''UNAUTHORIZED'', 0), (''CIRCUIT_LIMIT'', 1),
      (''ROUTE_UNAVAILABLE'', 2)]"

definition DIRECTION :: "(string \<times> nat) list" where
  "DIRECTION =
     [(''FORWARD'', 0), (''REVERSE'', 1)]"

definition CIRCUIT_STATE :: "(string \<times> nat) list" where
  "CIRCUIT_STATE =
     [(''CREATE'', 0), (''CREATED'', 1),
      (''OPEN'', 2), (''DRAINING'', 3),
      (''DESTROYED'', 4)]"

definition CAPABILITY :: "(string \<times> nat) list" where
  "CAPABILITY =
     [(''FORWARD'', 1), (''DATAGRAM'', 2),
      (''STREAM'', 4), (''KNOWN'', 7)]"

text \<open>\<open>b4a.from(string)\<close> for the ASCII strings the table holds.\<close>

definition utf8 :: "string \<Rightarrow> bytes" where
  "utf8 s = map of_char s"

definition DOMAIN_VALUES :: "(string \<times> bytes) list" where
  "DOMAIN_VALUES =
     [(''ROLE'', utf8 ''hyperdht-private-routes/role/v0''),
      (''UDX_BOOTSTRAP'', utf8 ''hyperdht-private-routes/udx-bootstrap/v0''),
      (''TOPOLOGY_GRANT'', utf8 ''hyperdht-private-routes/topology-grant/v0''),
      (''TOPOLOGY_GRANT_V1'', utf8 ''hyperdht-private-routes/topology-grant/v1''),
      (''RELAY_ADVERTISEMENT'', utf8 ''hyperdht-private-routes/relay-advertisement/v0''),
      (''DESCRIPTOR_DIRECT'', utf8 ''hyperdht-private-routes/descriptor/direct/v0''),
      (''DELEGATION'', utf8 ''hyperdht-private-routes/delegation/v0''),
      (''DESCRIPTOR_DELEGATED'', utf8 ''hyperdht-private-routes/descriptor/delegated/v0''),
      (''KDF_FORWARD_KEY'', utf8 ''hyperdht-private-routes/kdf/v0/forward-key''),
      (''KDF_REVERSE_KEY'', utf8 ''hyperdht-private-routes/kdf/v0/reverse-key''),
      (''KDF_FORWARD_NONCE'', utf8 ''hyperdht-private-routes/kdf/v0/forward-nonce''),
      (''KDF_REVERSE_NONCE'', utf8 ''hyperdht-private-routes/kdf/v0/reverse-nonce''),
      (''LINK_CREATE'', utf8 ''hyperdht-private-routes/link/create/v0''),
      (''LINK_CREATED'', utf8 ''hyperdht-private-routes/link/created/v0''),
      (''TEMPLATE_REGISTER'', utf8 ''hyperdht-private-routes/template/register/v0''),
      (''TEMPLATE_REGISTERED'', utf8 ''hyperdht-private-routes/template/registered/v0''),
      (''ACTIVATE_CREATE'', utf8 ''hyperdht-private-routes/activate/create/v0''),
      (''ACTIVATE_ENTRY_PROOF'', utf8 ''hyperdht-private-routes/activate/entry-proof/v0''),
      (''ACTIVATE_DESTINATION_PROOF'', utf8 ''hyperdht-private-routes/activate/destination-proof/v0''),
      (''ACTIVATE_CHALLENGE'', utf8 ''hyperdht-private-routes/activate/challenge/v0''),
      (''ACTIVATE_PARAMETERS'', utf8 ''hyperdht-private-routes/activate/parameters/v0''),
      (''CELL_HEADER'', utf8 ''hyperdht-private-routes/cell/header/v0''),
      (''ROUTE_PAYLOAD'', utf8 ''hyperdht-private-routes/route-payload/v0''),
      (''DHT_EXIT_DHT_SEEDS'', utf8 ''hyperdht-private-routes/m3/dht-exit-dht-seeds/v1''),
      (''DHT_EXIT_DHT_SEEDS_SET'', utf8 ''hyperdht-private-routes/m3/dht-exit-dht-seeds/set/v1'')]"

definition m3BufferLength :: "jsval \<Rightarrow> int" where
  "m3BufferLength v = bufferLength v"

text \<open>A value that carries its own \<open>byteLength\<close> property is refused.\<close>

fun identityBufferLength :: "jsval \<Rightarrow> int" where
  "identityBufferLength (JObj own inh) =
     (if map_of own ''byteLength'' \<noteq> None then -1 else m3BufferLength (JObj own inh))"
| "identityBufferLength v = m3BufferLength v"

text \<open>The hash of the concatenation of a list of buffers is the argument \<open>hash\<close>.\<close>

definition roleForIdentity :: "(bytes list \<Rightarrow> bytes) \<Rightarrow> jsval \<Rightarrow> error_code + nat" where
  "roleForIdentity hash publicKey =
     (if identityBufferLength publicKey \<noteq> 32 then Inl INVALID_IDENTITY
      else case (publicKey, map_of DOMAIN_VALUES ''ROLE'') of
        (JBuf k, Some tag) \<Rightarrow> Inr (unat ((hash [tag, content k]) ! 0) AND 1)
      | _ \<Rightarrow> Inl INVALID_IDENTITY)"

section \<open>The object codec\<close>

text \<open>Minimum and maximum body length and length of the authentication suffix.\<close>

definition M3_OBJECT_LAYOUT :: "(int \<times> nat \<times> nat \<times> nat) list" where
  "M3_OBJECT_LAYOUT =
     [(0x0001, (188, 476, 64)), (0x0002, (110, 110, 0)), (0x0003, (335, 4473, 64)),
      (0x0004, (176, 176, 0)), (0x0005, (272, 272, 64)), (0x0006, (69, 69, 0)),
      (0x0007, (41, 4441, 0)), (0x0008, (48, 1192, 0)), (0x0009, (72, 72, 0)),
      (0x0020, (302, 302, 64)), (0x0021, (213, 213, 64)), (0x0022, (306, 306, 64)),
      (0x0023, (486, 486, 0)), (0x0024, (210, 210, 64)), (0x0025, (458, 746, 0)),
      (0x0026, (42, 42, 0)), (0x0027, (58, 58, 0)), (0x0028, (58, 58, 0)),
      (0x0040, (96, 96, 0)), (0x0041, (233, 233, 64)), (0x0042, (105, 105, 0)),
      (0x0043, (169, 169, 0)), (0x0044, (905, 4265, 64)), (0x0045, (310, 654, 64)),
      (0x0050, (578, 738, 64)), (0x0051, (124, 124, 16)), (0x0052, (27, 1176, 16)),
      (0x0053, (30, 1191, 0)), (0x0054, (20, 8082, 0)), (0x0100, (164, 164, 0)),
      (0x0101, (221, 1382, 0)), (0x0102, (200, 8262, 0)), (0x0201, (141, 2891, 64)),
      (0x0280, (132, 899, 64)), (0x0281, (131, 131, 64)), (0x0282, (206, 7990, 64)),
      (0x0283, (72, 72, 0)), (0x0284, (301, 301, 64))]"

definition m3ObjectDataProperty :: "jsval \<Rightarrow> string \<Rightarrow> bool \<Rightarrow> error_code + jsval" where
  "m3ObjectDataProperty value name required =
     (case ownDescriptor value name of
        Inl _ \<Rightarrow> Inl INVALID_ROUTE
      | Inr None \<Rightarrow> if required then Inl INVALID_ROUTE else Inr Undefined
      | Inr (Some AccessorProp) \<Rightarrow> Inl INVALID_ROUTE
      | Inr (Some (DataProp v)) \<Rightarrow> Inr v)"

text \<open>\<open>b4a.alloc(0)\<close>; the store of a fresh allocation is not observable through the codec.\<close>

definition emptyBuffer :: buffer where
  "emptyBuffer = \<lparr>backing = 0, byteOffset = 0, sharedStore = False, content = []\<rparr>"

definition m3ObjectOptions :: "jsval \<Rightarrow> error_code + jsval \<times> jsval \<times> jsval" where
  "m3ObjectOptions value =
     (if \<not> plainObject value then Inl INVALID_ROUTE
      else bindE (m3ObjectDataProperty value ''messageId'' True) (\<lambda>i.
           bindE (m3ObjectDataProperty value ''body'' True) (\<lambda>b.
           bindE (m3ObjectDataProperty value ''authSuffix'' False) (\<lambda>a.
           Inr (i, b, if a = Undefined then JBuf emptyBuffer else a)))))"

fun m3ObjectLayout :: "jsval \<Rightarrow> error_code + nat \<times> nat \<times> nat" where
  "m3ObjectLayout (JNum i) =
     (if \<not> isSafeInteger (JNum i) then Inl INVALID_ROUTE
      else case map_of M3_OBJECT_LAYOUT i of None \<Rightarrow> Inl INVALID_ROUTE | Some l \<Rightarrow> Inr l)"
| "m3ObjectLayout _ = Inl INVALID_ROUTE"

definition writeM3Uint16 :: "nat \<Rightarrow> bytes" where
  "writeM3Uint16 v = [word_of_nat (drop_bit 8 v), word_of_nat v]"

definition writeM3Uint32 :: "nat \<Rightarrow> bytes" where
  "writeM3Uint32 v =
     [word_of_nat (drop_bit 24 v), word_of_nat (drop_bit 16 v), word_of_nat (drop_bit 8 v),
      word_of_nat v]"

definition readM3Uint16 :: "bytes \<Rightarrow> nat \<Rightarrow> nat" where
  "readM3Uint16 bs i = push_bit 8 (unat (bs ! i)) OR unat (bs ! (i + 1))"

definition readM3Uint32 :: "bytes \<Rightarrow> nat \<Rightarrow> nat" where
  "readM3Uint32 bs i =
     unat (bs ! i) * 0x1000000 + push_bit 16 (unat (bs ! (i + 1))) +
     push_bit 8 (unat (bs ! (i + 2))) + unat (bs ! (i + 3))"

text \<open>
  The output is allocated with \<open>8 + bodyBytes + authBytes\<close> bytes and every byte of it is written
  once, front to back.
\<close>

definition encodeM3Object :: "jsval \<Rightarrow> error_code + bytes" where
  "encodeM3Object value =
     bindE (m3ObjectOptions value) (\<lambda>(i, b, a).
     bindE (m3ObjectLayout i) (\<lambda>(minimumBodyBytes, maximumBodyBytes, authBytes).
       let bodyBytes = m3BufferLength b; actualAuthBytes = m3BufferLength a in
       if bodyBytes < int minimumBodyBytes \<or> bodyBytes > int maximumBodyBytes \<or>
          bodyBytes > 0xffff \<or> actualAuthBytes \<noteq> int authBytes
       then Inl INVALID_ROUTE
       else case (i, b, a) of
         (JNum n, JBuf bb, JBuf ab) \<Rightarrow>
           Inr (writeM3Uint32 M3_PROTOCOL_VERSION @ writeM3Uint16 (nat n) @
                writeM3Uint16 (nat bodyBytes) @ content bb @ content ab)
       | _ \<Rightarrow> Inl INVALID_ROUTE))"

text \<open>
  The body and the suffix of the result are copies of the subarrays \<open>[8, 8 + bodyBytes)\<close> and
  \<open>[8 + bodyBytes, encodedBytes)\<close>.
\<close>

definition m3Subarray :: "bytes \<Rightarrow> nat \<Rightarrow> nat \<Rightarrow> bytes" where
  "m3Subarray bs i j = take (j - i) (drop i bs)"

fun decodeM3Object :: "jsval \<Rightarrow> error_code + wire_object" where
  "decodeM3Object (JBuf encoded) =
     (let bs = content encoded; encodedBytes = length bs in
      if encodedBytes < 8 then Inl INVALID_ROUTE
      else if readM3Uint32 bs 0 \<noteq> M3_PROTOCOL_VERSION then Inl INVALID_ROUTE
      else
        let i = readM3Uint16 bs 4; bodyBytes = readM3Uint16 bs 6 in
        bindE (m3ObjectLayout (JNum (int i))) (\<lambda>(minimumBodyBytes, maximumBodyBytes, authBytes).
          if bodyBytes < minimumBodyBytes \<or> bodyBytes > maximumBodyBytes \<or>
             encodedBytes \<noteq> 8 + bodyBytes + authBytes
          then Inl INVALID_ROUTE
          else Inr \<lparr>protocolVersion = M3_PROTOCOL_VERSION, messageId = i,
                    body = m3Subarray bs 8 (8 + bodyBytes),
                    authSuffix = m3Subarray bs (8 + bodyBytes) encodedBytes\<rparr>))"
| "decodeM3Object _ = Inl INVALID_ROUTE"

section \<open>Correctness of the codec\<close>

lemma m3_write [simp]: "writeM3Uint16 v = be_bytes 2 v" "writeM3Uint32 v = be_bytes 4 v"
  by (simp_all only: writeM3Uint16_def writeM3Uint32_def be_bytes_two be_bytes_four)

lemma readM3Uint16_be: "i + 2 \<le> length bs \<Longrightarrow> readM3Uint16 bs i = be_nat (take 2 (drop i bs))"
  by (simp only: readM3Uint16_def take_two_drop be_nat_two)

lemma readM3Uint32_be: "i + 4 \<le> length bs \<Longrightarrow> readM3Uint32 bs i = be_nat (take 4 (drop i bs))"
  by (simp only: readM3Uint32_def take_four_drop be_nat_four)

text \<open>The object whose fields are plain data properties, as the callers build it.\<close>

definition m3Object :: "nat \<Rightarrow> bytes \<Rightarrow> bytes \<Rightarrow> jsval" where
  "m3Object i b a = JObj [(''messageId'', DataProp (JNum (int i))),
     (''body'', DataProp (JBuf \<lparr>backing = 0, byteOffset = 0, sharedStore = False, content = b\<rparr>)),
     (''authSuffix'',
       DataProp (JBuf \<lparr>backing = 1, byteOffset = 0, sharedStore = False, content = a\<rparr>))] []"

definition m3_valid :: "nat \<Rightarrow> bytes \<Rightarrow> bytes \<Rightarrow> bool" where
  "m3_valid i b a = (case map_of M3_OBJECT_LAYOUT (int i) of
     None \<Rightarrow> False
   | Some (lo, hi, auth) \<Rightarrow> lo \<le> length b \<and> length b \<le> hi \<and> length a = auth)"

lemma m3_key_bounds: "map_of M3_OBJECT_LAYOUT i = Some (lo, hi, auth) \<Longrightarrow> 0 < i \<and> i < 65536 \<and> hi < 65536"
proof -
  assume "map_of M3_OBJECT_LAYOUT i = Some (lo, hi, auth)"
  then have "(i, lo, hi, auth) \<in> set M3_OBJECT_LAYOUT"
    by (rule map_of_SomeD)
  moreover have "list_all (\<lambda>(i, lo, hi, auth). 0 < i \<and> i < 65536 \<and> hi < 65536) M3_OBJECT_LAYOUT"
    by (simp add: M3_OBJECT_LAYOUT_def)
  ultimately show ?thesis
    by (auto simp: list_all_iff)
qed

lemma m3ObjectLayout_eq:
  "m3ObjectLayout (JNum i) =
     (case map_of M3_OBJECT_LAYOUT i of None \<Rightarrow> Inl INVALID_ROUTE | Some l \<Rightarrow> Inr l)"
  using m3_key_bounds [of i]
  by (auto simp: MAX_SAFE_INTEGER_def split: option.splits)

lemma encodeM3Object_fields:
  "encodeM3Object (m3Object i b a) =
     (if m3_valid i b a then Inr (envelope M3_PROTOCOL_VERSION i b a) else Inl INVALID_ROUTE)"
proof -
  have "m3ObjectOptions (m3Object i b a) = Inr (JNum (int i),
      JBuf \<lparr>backing = 0, byteOffset = 0, sharedStore = False, content = b\<rparr>,
      JBuf \<lparr>backing = 1, byteOffset = 0, sharedStore = False, content = a\<rparr>)"
    by (simp add: m3ObjectOptions_def m3Object_def m3ObjectDataProperty_def)
  then show ?thesis
    using m3_key_bounds [of "int i"]
    by (auto simp: encodeM3Object_def m3_valid_def m3BufferLength_def envelope_def
        m3ObjectLayout_eq Let_def simp del: m3ObjectLayout.simps split: option.splits)
qed

text \<open>Decoding in terms of the header fields.\<close>

lemma decodeM3Object_fields:
  assumes "decodeM3Object (JBuf e) = Inr w"
  shows "protocolVersion w = M3_PROTOCOL_VERSION"
    and "m3_valid (messageId w) (body w) (authSuffix w)"
    and "content e = envelope M3_PROTOCOL_VERSION (messageId w) (body w) (authSuffix w)"
proof -
  define bs where "bs = content e"
  define n where "n = be_nat (take 2 (drop 6 bs))"
  from assms have len: "8 \<le> length bs"
    by (auto simp: bs_def Let_def split: if_splits)
  then have rd: "readM3Uint32 bs 0 = be_nat (take 4 (drop 0 bs))"
      "readM3Uint16 bs 4 = be_nat (take 2 (drop 4 bs))" "readM3Uint16 bs 6 = n"
    by (simp_all only: readM3Uint16_be readM3Uint32_be n_def)
  from assms len rd obtain lo hi auth where
    lay: "map_of M3_OBJECT_LAYOUT (int (readM3Uint16 bs 4)) = Some (lo, hi, auth)"
    and ver: "be_nat (take 4 (drop 0 bs)) = M3_PROTOCOL_VERSION"
    and size: "lo \<le> n" "n \<le> hi" "length bs = 8 + n + auth"
    and w: "w = \<lparr>protocolVersion = M3_PROTOCOL_VERSION, messageId = readM3Uint16 bs 4,
              body = take n (drop 8 bs), authSuffix = drop (8 + n) bs\<rparr>"
    by (auto simp: bs_def [symmetric] Let_def result_simps m3ObjectLayout_eq m3Subarray_def
        simp del: m3ObjectLayout.simps split: if_splits option.splits)
  show "protocolVersion w = M3_PROTOCOL_VERSION"
    by (simp add: w)
  show "m3_valid (messageId w) (body w) (authSuffix w)"
    using lay size by (simp add: m3_valid_def w)
  show "content e = envelope M3_PROTOCOL_VERSION (messageId w) (body w) (authSuffix w)"
    using envelope_of_fields [of bs n, OF len _ n_def [symmetric]] size(3)
    by (simp only: w rd ver bs_def [symmetric]) simp
qed

lemma decodeM3Object_envelope:
  assumes "m3_valid i b a" "content e = envelope M3_PROTOCOL_VERSION i b a"
  shows "decodeM3Object (JBuf e) =
    Inr \<lparr>protocolVersion = M3_PROTOCOL_VERSION, messageId = i, body = b, authSuffix = a\<rparr>"
proof -
  from assms(1) obtain lo hi auth where
    lay: "map_of M3_OBJECT_LAYOUT (int i) = Some (lo, hi, auth)" and
    size: "lo \<le> length b" "length b \<le> hi" "length a = auth"
    by (auto simp: m3_valid_def split: option.splits)
  then have "i < 65536" "length b < 65536"
    using m3_key_bounds [OF lay] by auto
  then have small: "i mod 256 ^ 2 = i" "length b mod 256 ^ 2 = length b"
    by simp_all
  have len: "length (content e) = 8 + length b + length a"
    by (simp only: assms(2) envelope_fields)
  have "readM3Uint32 (content e) 0 = be_nat (take 4 (drop 0 (content e)))"
      "readM3Uint16 (content e) 4 = be_nat (take 2 (drop 4 (content e)))"
      "readM3Uint16 (content e) 6 = be_nat (take 2 (drop 6 (content e)))"
    using len by (simp_all only: readM3Uint16_be readM3Uint32_be)
  then have rd: "readM3Uint32 (content e) 0 = M3_PROTOCOL_VERSION"
      "readM3Uint16 (content e) 4 = i" "readM3Uint16 (content e) 6 = length b"
    by (simp_all only: assms(2) envelope_fields small) (simp add: M3_PROTOCOL_VERSION_def)
  have "take (length b) (drop 8 (content e)) = b" "drop (8 + length b) (content e) = a"
    by (simp_all only: assms(2) envelope_fields)
  with rd len lay size show ?thesis
    by (simp add: m3ObjectLayout_eq m3Subarray_def del: m3ObjectLayout.simps)
qed

lemma encodeM3Object_Inr:
  "encodeM3Object v = Inr bs \<longleftrightarrow>
     (\<exists>i bb ab. m3ObjectOptions v = Inr (JNum (int i), JBuf bb, JBuf ab) \<and>
        m3_valid i (content bb) (content ab) \<and>
        bs = envelope M3_PROTOCOL_VERSION i (content bb) (content ab))" (is "?L \<longleftrightarrow> ?R")
proof
  assume ?L
  then obtain i b a lo hi auth where o: "m3ObjectOptions v = Inr (i, b, a)"
    and lay: "m3ObjectLayout i = Inr (lo, hi, auth)"
    by (auto simp: encodeM3Object_def result_simps)
  from lay obtain n where n: "i = JNum n" "map_of M3_OBJECT_LAYOUT n = Some (lo, hi, auth)"
    by (cases i) (auto simp: m3ObjectLayout_eq simp del: m3ObjectLayout.simps(1) split: option.splits)
  then have pos: "n = int (nat n)"
    using m3_key_bounds by fastforce
  from \<open>?L\<close> o lay n obtain bb ab where "b = JBuf bb" "a = JBuf ab"
    by (cases b; cases a) (auto simp: encodeM3Object_def Let_def split: if_splits)
  with \<open>?L\<close> o lay n pos show ?R
    by (intro exI [of _ "nat n"] exI [of _ bb] exI [of _ ab])
      (auto simp: encodeM3Object_def Let_def m3_valid_def m3BufferLength_def envelope_def
        split: if_splits)
next
  assume ?R
  then obtain i bb ab where o: "m3ObjectOptions v = Inr (JNum (int i), JBuf bb, JBuf ab)"
    and val: "m3_valid i (content bb) (content ab)"
    and bs: "bs = envelope M3_PROTOCOL_VERSION i (content bb) (content ab)"
    by blast
  from val show ?L
    using m3_key_bounds [of "int i"]
    by (auto simp: encodeM3Object_def o bs m3_valid_def m3BufferLength_def envelope_def
        m3ObjectLayout_eq Let_def simp del: m3ObjectLayout.simps split: option.splits)
qed

text \<open>The codec as functions of the three fields, for the shared contract of strict codecs.\<close>

definition m3_enc :: "nat \<times> bytes \<times> bytes \<Rightarrow> error_code + bytes" where
  "m3_enc = (\<lambda>(i, b, a). encodeM3Object (m3Object i b a))"

definition m3_dec :: "bytes \<Rightarrow> error_code + nat \<times> bytes \<times> bytes" where
  "m3_dec bs = bindE (decodeM3Object (JBuf (emptyBuffer\<lparr>content := bs\<rparr>)))
     (\<lambda>w. Inr (messageId w, body w, authSuffix w))"

interpretation m3c: strict_codec m3_enc m3_dec
proof
  fix x bs
  assume "m3_enc x = Inr bs"
  then show "m3_dec bs = Inr x"
    by (cases x) (auto simp: m3_enc_def m3_dec_def encodeM3Object_fields decodeM3Object_envelope
        simp del: decodeM3Object.simps split: if_splits)
next
  fix bs x
  assume "m3_dec bs = Inr x"
  then obtain w where "decodeM3Object (JBuf (emptyBuffer\<lparr>content := bs\<rparr>)) = Inr w"
    and x: "x = (messageId w, body w, authSuffix w)"
    by (auto simp: m3_dec_def result_simps)
  from decodeM3Object_fields [OF this(1)] show "m3_enc x = Inr bs"
    by (simp add: m3_enc_def x encodeM3Object_fields)
qed

lemma byte_of_char_inj: "inj (of_char :: char \<Rightarrow> byte)"
proof (rule injI)
  fix c d :: char
  assume "(of_char c :: byte) = of_char d"
  then have "unat (word_of_nat (of_char c) :: byte) = unat (word_of_nat (of_char d) :: byte)"
    by (simp only: of_nat_of_char)
  then have "(of_char c :: nat) mod 256 = of_char d mod 256"
    by (simp only: unat_of_nat) simp
  then show "c = d"
    by simp
qed

lemma prefix_map_inj: "inj f \<Longrightarrow> prefix (map f xs) (map f ys) \<longleftrightarrow> prefix xs ys"
proof (induction xs arbitrary: ys)
  case (Cons x xs)
  then show ?case
    by (cases ys) (auto dest: injD)
qed simp

lemma utf8_prefix: "prefix (utf8 s) (utf8 t) \<longleftrightarrow> prefix s t"
  unfolding utf8_def by (rule prefix_map_inj [OF byte_of_char_inj])

section \<open>Properties\<close>

text \<open>
  C10: A byte string decodes as an object of the private protocol exactly when it is the encoding of
  the decoded fields: the version is the protocol's, the identifier is registered, the body and
  suffix lengths are those of its layout, and there is no second encoding of the same object and no
  trailing byte.
\<close>

theorem m3_object_strict_codec:
  "decodeM3Object (JBuf e) = Inr w \<longleftrightarrow>
     protocolVersion w = M3_PROTOCOL_VERSION \<and>
     encodeM3Object (m3Object (messageId w) (body w) (authSuffix w)) = Inr (content e)"
proof
  assume "decodeM3Object (JBuf e) = Inr w"
  from decodeM3Object_fields [OF this]
  show "protocolVersion w = M3_PROTOCOL_VERSION \<and>
     encodeM3Object (m3Object (messageId w) (body w) (authSuffix w)) = Inr (content e)"
    by (simp add: encodeM3Object_fields)
next
  assume "protocolVersion w = M3_PROTOCOL_VERSION \<and>
     encodeM3Object (m3Object (messageId w) (body w) (authSuffix w)) = Inr (content e)"
  then show "decodeM3Object (JBuf e) = Inr w"
    using decodeM3Object_envelope [of "messageId w" "body w" "authSuffix w" e]
    by (cases w) (auto simp: encodeM3Object_fields simp del: decodeM3Object.simps split: if_splits)
qed

text \<open>
  Whatever JavaScript value the encoder accepts, its output decodes, and the decoded object
  holds the identifier, the body bytes and the suffix bytes of the own data properties of that
  value (an empty suffix when the property is missing).
\<close>

theorem m3_encode_then_decode:
  assumes "encodeM3Object v = Inr bs" "content e = bs"
  shows "\<exists>i bb ab. m3ObjectOptions v = Inr (JNum (int i), JBuf bb, JBuf ab) \<and>
    decodeM3Object (JBuf e) = Inr \<lparr>protocolVersion = M3_PROTOCOL_VERSION, messageId = i,
      body = content bb, authSuffix = content ab\<rparr>"
  using assms(1) decodeM3Object_envelope [of _ _ _ e] unfolding assms(2) [symmetric]
  by (auto simp: encodeM3Object_Inr simp del: decodeM3Object.simps)

definition example_destroy :: jsval where
  "example_destroy = JObj [(''messageId'', DataProp (JNum 0x26)),
     (''body'', DataProp (JBuf (emptyBuffer\<lparr>content := replicate 42 7\<rparr>)))] []"

theorem m3_encode_then_decode_witness:
  "\<exists>i bb ab. m3ObjectOptions example_destroy = Inr (JNum (int i), JBuf bb, JBuf ab) \<and>
    decodeM3Object (JBuf (emptyBuffer\<lparr>content := envelope 1 0x26 (replicate 42 7) []\<rparr>)) =
      Inr \<lparr>protocolVersion = M3_PROTOCOL_VERSION, messageId = i,
        body = content bb, authSuffix = content ab\<rparr>"
proof (rule m3_encode_then_decode)
  show "encodeM3Object example_destroy = Inr (envelope 1 0x26 (replicate 42 7) [])"
    by (simp add: encodeM3Object_def example_destroy_def m3ObjectOptions_def
        m3ObjectDataProperty_def emptyBuffer_def M3_OBJECT_LAYOUT_def MAX_SAFE_INTEGER_def
        m3BufferLength_def envelope_def M3_PROTOCOL_VERSION_def)
qed simp


end
