(* ===== verification/Peer_Objects.thy ===== *)
theory Peer_Objects
  imports M3_Objects
begin

text \<open>
  \<^verbatim>\<open>lib/private/peer-protocol.js\<close>: the identifiers, record limits and strict object codec
  of native peer wire version 3. The codec mirrors the one of \<^verbatim>\<open>protocol.js\<close> with its own
  version, layout table and the optional list of allowed body lengths.
\<close>

section \<open>Registries\<close>

definition PEER_PROTOCOL_VERSION :: nat where
  "PEER_PROTOCOL_VERSION = 3"

definition PEER_MESSAGE_ID :: "(string \<times> nat) list" where
  "PEER_MESSAGE_ID =
     [(''PEER_CAPABILITY_ADVERTISEMENT_V2'', 0x0300), (''PEER_CAPS_QUERY_V2'', 0x0301),
      (''PEER_CAPS_COOKIE_CHALLENGE_V2'', 0x0302), (''PEER_CAPS_RESPONSE_V2'', 0x0303),
      (''PEER_ACTIVE_CHALLENGE_V2'', 0x0304), (''PEER_ACTIVE_CHALLENGE_RESPONSE_V2'', 0x0305),
      (''PEER_DISCOVER_REQUEST_V2'', 0x0306), (''PEER_DISCOVER_RESPONSE_V2'', 0x0307),
      (''PEER_LINK_OFFER_V2'', 0x0308), (''PEER_LINK_ACCEPT_V2'', 0x0309),
      (''PEER_REDACTED_RESPONDER_PROOF_V2'', 0x030a), (''PEER_EXTENDED_V2'', 0x030b),
      (''PEER_TAIL_READY_V2'', 0x030c), (''PEER_EXTEND_REQUEST_V2'', 0x030d),
      (''PEER_BRANCH_DESTROY_V2'', 0x030e), (''PEER_BRANCH_TEARDOWN_V2'', 0x030f),
      (''PEER_BRANCH_TEARDOWN_ACK_V2'', 0x0310), (''PEER_ROUTE_OFFER_V2'', 0x0311),
      (''PEER_ROUTE_ACCEPT_V2'', 0x0312), (''PEER_ROUTE_REJECT_V2'', 0x0313),
      (''PEER_RELIABLE_PACKET_V2'', 0x0314), (''PEER_RELIABLE_ACK_V2'', 0x0315),
      (''PEER_OPEN_V2'', 0x0316), (''PEER_OPENED_V2'', 0x0317),
      (''PEER_HANDSHAKE_V2'', 0x0318), (''PEER_DATA_V2'', 0x0319),
      (''PEER_CREDIT_V2'', 0x031a), (''PEER_FIN_V2'', 0x031b),
      (''PEER_CLOSE_V2'', 0x031c), (''PEER_RESET_V2'', 0x031d),
      (''PEER_ROUTE_CLOSE_V2'', 0x031e), (''PEER_ROUTE_CLOSE_ACK_V2'', 0x031f),
      (''PEER_DESCRIPTOR_V2'', 0x0340), (''LEGACY_RESOLVE_V2'', 0x0341),
      (''LEGACY_RESOLVED_V2'', 0x0342), (''LEGACY_RESERVE_V2'', 0x0343),
      (''LEGACY_RESERVED_V2'', 0x0344), (''PEER_NOISE_FRAGMENT_V2'', 0x0345),
      (''LEGACY_HANDSHAKE_ACCEPT_V2'', 0x0346), (''LEGACY_OPEN_V2'', 0x0347),
      (''ENTRY_REGISTER_V2'', 0x0349), (''ENTRY_REGISTERED_V2'', 0x034a),
      (''ENTRY_REVOKE_V2'', 0x034b), (''PRIVATE_ACTIVATE_V2'', 0x0360),
      (''PRIVATE_READY_V2'', 0x0361), (''PRIVATE_ACK_V2'', 0x0362),
      (''PRIVATE_ACCEPTED_V2'', 0x0363), (''PRIVATE_SOURCE_RECEIPT_V2'', 0x0364),
      (''PRIVATE_OPEN_V2'', 0x0365), (''PRESENCE_LOOKUP_V2'', 0x0370),
      (''PRESENCE_STORE_V2'', 0x0371), (''PRESENCE_RECORD_V2'', 0x0372),
      (''PRESENCE_ABSENT_V2'', 0x0373), (''PRESENCE_STORED_V2'', 0x0374),
      (''PRESENCE_UNAVAILABLE_V2'', 0x0375)]"

definition PEER_PURPOSE :: "(string \<times> nat) list" where
  "PEER_PURPOSE =
     [(''LEGACY_PEER_EGRESS'', 1), (''PRIVATE_PEER_SOURCE'', 2),
      (''PRIVATE_PEER_DESTINATION'', 3)]"

definition PEER_RECORD_PREFIX_BYTES :: nat where
  "PEER_RECORD_PREFIX_BYTES = 3"

record record_limits =
  rl_plaintext :: nat
  rl_body :: nat
  rl_raw :: nat

definition LEGACY_RECORD_LIMITS :: record_limits where
  "LEGACY_RECORD_LIMITS = \<lparr>rl_plaintext = 16777198, rl_body = 16777215, rl_raw = 16777218\<rparr>"

definition PRIVATE_RECORD_LIMITS :: record_limits where
  "PRIVATE_RECORD_LIMITS = \<lparr>rl_plaintext = 65536, rl_body = 65553, rl_raw = 65556\<rparr>"

definition PEER_RECORD_LIMITS :: "(nat \<times> record_limits) list" where
  "PEER_RECORD_LIMITS =
     [(1, LEGACY_RECORD_LIMITS), (2, PRIVATE_RECORD_LIMITS), (3, PRIVATE_RECORD_LIMITS)]"

definition PEER_BRANCH_CLASS :: "(string \<times> nat) list" where
  "PEER_BRANCH_CLASS =
     [(''PEER'', 2)]"

definition PEER_LINK_ROLE :: "(string \<times> nat) list" where
  "PEER_LINK_ROLE =
     [(''CLIENT'', 0), (''SAFETY_RELAY'', 1),
      (''TERMINAL'', 2)]"

definition PEER_CONTEXT_CLASS :: "(string \<times> nat) list" where
  "PEER_CONTEXT_CLASS =
     [(''PEER_TAIL_FINALIZE_DATAGRAM'', 5), (''PEER_ROUTE_DATAGRAM'', 6)]"

definition PEER_SEMANTIC_CLASS :: "(string \<times> nat) list" where
  "PEER_SEMANTIC_CLASS =
     [(''REGISTRATION_CONTROL'', 1), (''APPLICATION'', 2)]"

definition PEER_TRANSPORT_ID_REGISTRY :: "nat list" where
  "PEER_TRANSPORT_ID_REGISTRY =
     filter (\<lambda>i. i \<ge> 0x0300 \<and> i \<le> 0x031f) (map snd PEER_MESSAGE_ID)"

definition PEER_SEMANTIC_ID_REGISTRY :: "nat list" where
  "PEER_SEMANTIC_ID_REGISTRY =
     filter (\<lambda>i. i \<ge> 0x0340 \<and> i \<le> 0x0365) (map snd PEER_MESSAGE_ID)"

definition PEER_PRESENCE_ID_REGISTRY :: "nat list" where
  "PEER_PRESENCE_ID_REGISTRY =
     filter (\<lambda>i. i \<ge> 0x0370 \<and> i \<le> 0x037f) (map snd PEER_MESSAGE_ID)"

definition PEER_ID_REGISTRY :: "nat list" where
  "PEER_ID_REGISTRY = sort (PEER_TRANSPORT_ID_REGISTRY @ PEER_SEMANTIC_ID_REGISTRY @
     PEER_PRESENCE_ID_REGISTRY)"

section \<open>The object codec\<close>

text \<open>
  Minimum and maximum body length, length of the authentication suffix, and the allowed lengths of
  a disjoint range.
\<close>

definition PEER_OBJECT_LAYOUT :: "(int \<times> nat \<times> nat \<times> nat \<times> nat list option) list" where
  "PEER_OBJECT_LAYOUT =
     [(0x0300, (188, 188, 64, None)), (0x0301, (110, 110, 0, None)),
      (0x0302, (72, 72, 0, None)), (0x0303, (335, 335, 64, None)),
      (0x0304, (176, 176, 0, None)), (0x0305, (240, 240, 64, None)),
      (0x0306, (79, 339, 0, Some [79, 339])), (0x0307, (436, 436, 0, None)),
      (0x0308, (360, 360, 64, None)), (0x0309, (213, 213, 64, None)),
      (0x030a, (338, 338, 64, None)), (0x030b, (518, 518, 0, None)),
      (0x030c, (210, 210, 64, None)), (0x030d, (516, 516, 0, None)),
      (0x030e, (42, 42, 0, None)), (0x030f, (58, 58, 0, None)),
      (0x0310, (58, 58, 0, None)), (0x0311, (212, 212, 16, None)),
      (0x0312, (260, 260, 16, None)), (0x0313, (64, 64, 16, None)),
      (0x0314, (29, 1065, 0, None)), (0x0315, (64, 64, 0, None)),
      (0x0316, (88, 88, 0, None)), (0x0317, (64, 64, 0, None)),
      (0x0318, (49, 1029, 0, None)), (0x0319, (45, 1021, 0, None)),
      (0x031a, (60, 60, 0, None)), (0x031b, (56, 56, 0, None)),
      (0x031c, (56, 56, 0, None)), (0x031d, (60, 60, 0, None)),
      (0x031e, (40, 40, 0, None)), (0x031f, (40, 40, 0, None)),
      (0x0340, (511, 511, 0, None)), (0x0341, (104, 104, 0, None)),
      (0x0342, (106, 106, 0, None)), (0x0343, (96, 96, 0, None)),
      (0x0344, (132, 132, 0, None)), (0x0345, (64, 1065, 0, None)),
      (0x0346, (132, 132, 0, None)), (0x0347, (100, 100, 0, None)),
      (0x0349, (478, 478, 0, None)), (0x034a, (136, 136, 0, None)),
      (0x034b, (88, 88, 0, None)), (0x0360, (749, 749, 0, None)),
      (0x0361, (220, 220, 0, None)), (0x0362, (232, 232, 0, None)),
      (0x0363, (168, 168, 0, None)), (0x0364, (120, 120, 0, None)),
      (0x0365, (216, 216, 0, None)), (0x0370, (48, 48, 0, None)),
      (0x0371, (1011, 1011, 0, None)), (0x0372, (979, 979, 0, None)),
      (0x0373, (16, 16, 0, None)), (0x0374, (22, 22, 0, None)),
      (0x0375, (16, 16, 0, None))]"

definition peerBufferLength :: "jsval \<Rightarrow> int" where
  "peerBufferLength v = bufferLength v"

definition peerObjectDataProperty :: "jsval \<Rightarrow> string \<Rightarrow> bool \<Rightarrow> error_code + jsval" where
  "peerObjectDataProperty value name required =
     (case ownDescriptor value name of
        Inl _ \<Rightarrow> Inl INVALID_ROUTE
      | Inr None \<Rightarrow> if required then Inl INVALID_ROUTE else Inr Undefined
      | Inr (Some AccessorProp) \<Rightarrow> Inl INVALID_ROUTE
      | Inr (Some (DataProp v)) \<Rightarrow> Inr v)"

definition peerObjectOptions :: "jsval \<Rightarrow> error_code + jsval \<times> jsval \<times> jsval" where
  "peerObjectOptions value =
     (if \<not> plainObject value then Inl INVALID_ROUTE
      else bindE (peerObjectDataProperty value ''messageId'' True) (\<lambda>i.
           bindE (peerObjectDataProperty value ''body'' True) (\<lambda>b.
           bindE (peerObjectDataProperty value ''authSuffix'' False) (\<lambda>a.
           Inr (i, b, if a = Undefined then JBuf emptyBuffer else a)))))"

type_synonym peer_layout = "nat \<times> nat \<times> nat \<times> nat list option"

fun peerObjectLayout :: "jsval \<Rightarrow> error_code + peer_layout" where
  "peerObjectLayout (JNum i) =
     (if \<not> isSafeInteger (JNum i) then Inl INVALID_ROUTE
      else case map_of PEER_OBJECT_LAYOUT i of None \<Rightarrow> Inl INVALID_ROUTE | Some l \<Rightarrow> Inr l)"
| "peerObjectLayout _ = Inl INVALID_ROUTE"

fun validPeerBodyLength :: "int \<Rightarrow> peer_layout \<Rightarrow> bool" where
  "validPeerBodyLength n (lo, hi, auth, Some allowed) = (n \<in> int ` set allowed)"
| "validPeerBodyLength n (lo, hi, auth, None) = (int lo \<le> n \<and> n \<le> int hi)"

definition writePeerUint16 :: "nat \<Rightarrow> bytes" where
  "writePeerUint16 v = [word_of_nat (drop_bit 8 v), word_of_nat v]"

definition writePeerUint32 :: "nat \<Rightarrow> bytes" where
  "writePeerUint32 v =
     [word_of_nat (drop_bit 24 v), word_of_nat (drop_bit 16 v), word_of_nat (drop_bit 8 v),
      word_of_nat v]"

definition readPeerUint16 :: "bytes \<Rightarrow> nat \<Rightarrow> nat" where
  "readPeerUint16 bs i = push_bit 8 (unat (bs ! i)) OR unat (bs ! (i + 1))"

definition readPeerUint32 :: "bytes \<Rightarrow> nat \<Rightarrow> nat" where
  "readPeerUint32 bs i =
     unat (bs ! i) * 0x1000000 + push_bit 16 (unat (bs ! (i + 1))) +
     push_bit 8 (unat (bs ! (i + 2))) + unat (bs ! (i + 3))"

text \<open>
  The output is allocated with \<open>8 + bodyBytes + authBytes\<close> bytes and every byte of it is written
  once, front to back.
\<close>

definition encodePeerObject :: "jsval \<Rightarrow> error_code + bytes" where
  "encodePeerObject value =
     bindE (peerObjectOptions value) (\<lambda>(i, b, a).
     bindE (peerObjectLayout i) (\<lambda>(lo, hi, authBytes, allowed).
       let bodyBytes = peerBufferLength b; actualAuthBytes = peerBufferLength a in
       if \<not> validPeerBodyLength bodyBytes (lo, hi, authBytes, allowed) \<or> bodyBytes > 0xffff \<or> actualAuthBytes \<noteq> int authBytes
       then Inl INVALID_ROUTE
       else case (i, b, a) of
         (JNum n, JBuf bb, JBuf ab) \<Rightarrow>
           Inr (writePeerUint32 PEER_PROTOCOL_VERSION @ writePeerUint16 (nat n) @
                writePeerUint16 (nat bodyBytes) @ content bb @ content ab)
       | _ \<Rightarrow> Inl INVALID_ROUTE))"

text \<open>
  The body and the suffix of the result are copies of the subarrays \<open>[8, 8 + bodyBytes)\<close> and
  \<open>[8 + bodyBytes, encodedBytes)\<close>.
\<close>

definition peerSubarray :: "bytes \<Rightarrow> nat \<Rightarrow> nat \<Rightarrow> bytes" where
  "peerSubarray bs i j = take (j - i) (drop i bs)"

fun decodePeerObject :: "jsval \<Rightarrow> error_code + wire_object" where
  "decodePeerObject (JBuf encoded) =
     (let bs = content encoded; encodedBytes = length bs in
      if encodedBytes < 8 then Inl INVALID_ROUTE
      else if readPeerUint32 bs 0 \<noteq> PEER_PROTOCOL_VERSION then Inl INVALID_ROUTE
      else
        let i = readPeerUint16 bs 4; bodyBytes = readPeerUint16 bs 6 in
        bindE (peerObjectLayout (JNum (int i))) (\<lambda>(lo, hi, authBytes, allowed).
          if \<not> validPeerBodyLength (int bodyBytes) (lo, hi, authBytes, allowed) \<or>
             encodedBytes \<noteq> 8 + bodyBytes + authBytes
          then Inl INVALID_ROUTE
          else Inr \<lparr>protocolVersion = PEER_PROTOCOL_VERSION, messageId = i,
                    body = peerSubarray bs 8 (8 + bodyBytes),
                    authSuffix = peerSubarray bs (8 + bodyBytes) encodedBytes\<rparr>))"
| "decodePeerObject _ = Inl INVALID_ROUTE"

section \<open>Correctness of the codec\<close>

lemma peer_write [simp]: "writePeerUint16 v = be_bytes 2 v" "writePeerUint32 v = be_bytes 4 v"
  by (simp_all only: writePeerUint16_def writePeerUint32_def be_bytes_two be_bytes_four)

lemma readPeerUint16_be: "i + 2 \<le> length bs \<Longrightarrow> readPeerUint16 bs i = be_nat (take 2 (drop i bs))"
  by (simp only: readPeerUint16_def take_two_drop be_nat_two)

lemma readPeerUint32_be: "i + 4 \<le> length bs \<Longrightarrow> readPeerUint32 bs i = be_nat (take 4 (drop i bs))"
  by (simp only: readPeerUint32_def take_four_drop be_nat_four)

text \<open>The object whose fields are plain data properties, as the callers build it.\<close>

definition peerObject :: "nat \<Rightarrow> bytes \<Rightarrow> bytes \<Rightarrow> jsval" where
  "peerObject i b a = JObj [(''messageId'', DataProp (JNum (int i))),
     (''body'', DataProp (JBuf \<lparr>backing = 0, byteOffset = 0, sharedStore = False, content = b\<rparr>)),
     (''authSuffix'',
       DataProp (JBuf \<lparr>backing = 1, byteOffset = 0, sharedStore = False, content = a\<rparr>))] []"

definition peer_valid :: "nat \<Rightarrow> bytes \<Rightarrow> bytes \<Rightarrow> bool" where
  "peer_valid i b a = (case map_of PEER_OBJECT_LAYOUT (int i) of
     None \<Rightarrow> False
   | Some l \<Rightarrow> validPeerBodyLength (int (length b)) l \<and> length a = fst (snd (snd l)))"

lemma peer_layout_small:
  assumes "map_of PEER_OBJECT_LAYOUT i = Some l"
  shows "0 < i \<and> i < 65536" and "validPeerBodyLength n l \<Longrightarrow> 0 \<le> n \<and> n < 65536"
proof -
  obtain lo hi auth al where l: "l = (lo, hi, auth, al)"
    by (cases l)
  from assms have "(i, l) \<in> set PEER_OBJECT_LAYOUT"
    by (rule map_of_SomeD)
  moreover have "list_all (\<lambda>(i, lo, hi, auth, al). 0 < i \<and> i < 65536 \<and> hi < 65536 \<and>
      list_all (\<lambda>n. n < 65536) (case al of None \<Rightarrow> [] | Some ns \<Rightarrow> ns)) PEER_OBJECT_LAYOUT"
    by (simp add: PEER_OBJECT_LAYOUT_def)
  ultimately have "0 < i \<and> i < 65536 \<and> hi < 65536 \<and>
      list_all (\<lambda>n. n < 65536) (case al of None \<Rightarrow> [] | Some ns \<Rightarrow> ns)"
    unfolding l by (auto simp: list_all_iff)
  then show "0 < i \<and> i < 65536" "validPeerBodyLength n l \<Longrightarrow> 0 \<le> n \<and> n < 65536"
    unfolding l by (cases al; auto simp: list_all_iff)+
qed

lemma peerObjectLayout_eq:
  "peerObjectLayout (JNum i) =
     (case map_of PEER_OBJECT_LAYOUT i of None \<Rightarrow> Inl INVALID_ROUTE | Some l \<Rightarrow> Inr l)"
  using peer_layout_small(1) [of i]
  by (auto simp: MAX_SAFE_INTEGER_def split: option.splits)

lemma encodePeerObject_fields:
  "encodePeerObject (peerObject i b a) =
     (if peer_valid i b a then Inr (envelope PEER_PROTOCOL_VERSION i b a) else Inl INVALID_ROUTE)"
proof -
  have "peerObjectOptions (peerObject i b a) = Inr (JNum (int i),
      JBuf \<lparr>backing = 0, byteOffset = 0, sharedStore = False, content = b\<rparr>,
      JBuf \<lparr>backing = 1, byteOffset = 0, sharedStore = False, content = a\<rparr>)"
    by (simp add: peerObjectOptions_def peerObject_def peerObjectDataProperty_def)
  then show ?thesis
    by (auto simp: encodePeerObject_def peer_valid_def peerBufferLength_def envelope_def
        peerObjectLayout_eq Let_def simp del: peerObjectLayout.simps split: option.splits
        dest: peer_layout_small(2))
qed

text \<open>Decoding in terms of the header fields.\<close>

lemma decodePeerObject_fields:
  assumes "decodePeerObject (JBuf e) = Inr w"
  shows "protocolVersion w = PEER_PROTOCOL_VERSION"
    and "peer_valid (messageId w) (body w) (authSuffix w)"
    and "content e = envelope PEER_PROTOCOL_VERSION (messageId w) (body w) (authSuffix w)"
proof -
  define bs where "bs = content e"
  define n where "n = be_nat (take 2 (drop 6 bs))"
  from assms have len: "8 \<le> length bs"
    by (auto simp: bs_def Let_def split: if_splits)
  then have rd: "readPeerUint32 bs 0 = be_nat (take 4 (drop 0 bs))"
      "readPeerUint16 bs 4 = be_nat (take 2 (drop 4 bs))" "readPeerUint16 bs 6 = n"
    by (simp_all only: readPeerUint16_be readPeerUint32_be n_def)
  from assms len rd obtain lo hi auth al where
    lay: "map_of PEER_OBJECT_LAYOUT (int (readPeerUint16 bs 4)) = Some (lo, hi, auth, al)"
    and ver: "be_nat (take 4 (drop 0 bs)) = PEER_PROTOCOL_VERSION"
    and size: "validPeerBodyLength (int n) (lo, hi, auth, al)" "length bs = 8 + n + auth"
    and w: "w = \<lparr>protocolVersion = PEER_PROTOCOL_VERSION, messageId = readPeerUint16 bs 4,
              body = take n (drop 8 bs), authSuffix = drop (8 + n) bs\<rparr>"
    by (auto simp: bs_def [symmetric] Let_def result_simps peerObjectLayout_eq peerSubarray_def
        simp del: peerObjectLayout.simps split: if_splits option.splits)
  show "protocolVersion w = PEER_PROTOCOL_VERSION"
    by (simp add: w)
  show "peer_valid (messageId w) (body w) (authSuffix w)"
    using lay size by (simp add: peer_valid_def w)
  show "content e = envelope PEER_PROTOCOL_VERSION (messageId w) (body w) (authSuffix w)"
    using envelope_of_fields [of bs n, OF len _ n_def [symmetric]] size(2)
    by (simp only: w rd ver bs_def [symmetric]) simp
qed

lemma decodePeerObject_envelope:
  assumes "peer_valid i b a" "content e = envelope PEER_PROTOCOL_VERSION i b a"
  shows "decodePeerObject (JBuf e) =
    Inr \<lparr>protocolVersion = PEER_PROTOCOL_VERSION, messageId = i, body = b, authSuffix = a\<rparr>"
proof -
  from assms(1) obtain lo hi auth al where
    lay: "map_of PEER_OBJECT_LAYOUT (int i) = Some (lo, hi, auth, al)" and
    size: "validPeerBodyLength (int (length b)) (lo, hi, auth, al)" "length a = auth"
    by (auto simp: peer_valid_def split: option.splits)
  then have "i < 65536" "length b < 65536"
    using peer_layout_small(1) [OF lay] peer_layout_small(2) [OF lay size(1)] by auto
  then have small: "i mod 256 ^ 2 = i" "length b mod 256 ^ 2 = length b"
    by simp_all
  have len: "length (content e) = 8 + length b + length a"
    by (simp only: assms(2) envelope_fields)
  have "readPeerUint32 (content e) 0 = be_nat (take 4 (drop 0 (content e)))"
      "readPeerUint16 (content e) 4 = be_nat (take 2 (drop 4 (content e)))"
      "readPeerUint16 (content e) 6 = be_nat (take 2 (drop 6 (content e)))"
    using len by (simp_all only: readPeerUint16_be readPeerUint32_be)
  then have rd: "readPeerUint32 (content e) 0 = PEER_PROTOCOL_VERSION"
      "readPeerUint16 (content e) 4 = i" "readPeerUint16 (content e) 6 = length b"
    by (simp_all only: assms(2) envelope_fields small) (simp add: PEER_PROTOCOL_VERSION_def)
  have "take (length b) (drop 8 (content e)) = b" "drop (8 + length b) (content e) = a"
    by (simp_all only: assms(2) envelope_fields)
  with rd len lay size show ?thesis
    by (simp add: peerObjectLayout_eq peerSubarray_def del: peerObjectLayout.simps)
qed

lemma encodePeerObject_Inr:
  "encodePeerObject v = Inr bs \<longleftrightarrow>
     (\<exists>i bb ab. peerObjectOptions v = Inr (JNum (int i), JBuf bb, JBuf ab) \<and>
        peer_valid i (content bb) (content ab) \<and>
        bs = envelope PEER_PROTOCOL_VERSION i (content bb) (content ab))" (is "?L \<longleftrightarrow> ?R")
proof
  assume ?L
  then obtain i b a lo hi auth al where o: "peerObjectOptions v = Inr (i, b, a)"
    and lay: "peerObjectLayout i = Inr (lo, hi, auth, al)"
    by (auto simp: encodePeerObject_def result_simps)
  from lay obtain n where n: "i = JNum n" "map_of PEER_OBJECT_LAYOUT n = Some (lo, hi, auth, al)"
    by (cases i) (auto simp: peerObjectLayout_eq simp del: peerObjectLayout.simps(1) split: option.splits)
  then have pos: "n = int (nat n)"
    using peer_layout_small(1) by fastforce
  from \<open>?L\<close> o lay n obtain bb ab where "b = JBuf bb" "a = JBuf ab"
    by (cases b; cases a) (auto simp: encodePeerObject_def Let_def split: if_splits)
  with \<open>?L\<close> o lay n pos show ?R
    by (intro exI [of _ "nat n"] exI [of _ bb] exI [of _ ab])
      (auto simp: encodePeerObject_def Let_def peer_valid_def peerBufferLength_def envelope_def
        split: if_splits)
next
  assume ?R
  then obtain i bb ab where o: "peerObjectOptions v = Inr (JNum (int i), JBuf bb, JBuf ab)"
    and val: "peer_valid i (content bb) (content ab)"
    and bs: "bs = envelope PEER_PROTOCOL_VERSION i (content bb) (content ab)"
    by blast
  from val show ?L
    by (auto simp: encodePeerObject_def o bs peer_valid_def peerBufferLength_def envelope_def
        peerObjectLayout_eq Let_def simp del: peerObjectLayout.simps split: option.splits
        dest: peer_layout_small(2))
qed

text \<open>The codec as functions of the three fields, for the shared contract of strict codecs.\<close>

definition peer_enc :: "nat \<times> bytes \<times> bytes \<Rightarrow> error_code + bytes" where
  "peer_enc = (\<lambda>(i, b, a). encodePeerObject (peerObject i b a))"

definition peer_dec :: "bytes \<Rightarrow> error_code + nat \<times> bytes \<times> bytes" where
  "peer_dec bs = bindE (decodePeerObject (JBuf (emptyBuffer\<lparr>content := bs\<rparr>)))
     (\<lambda>w. Inr (messageId w, body w, authSuffix w))"

interpretation peerc: strict_codec peer_enc peer_dec
proof
  fix x bs
  assume "peer_enc x = Inr bs"
  then show "peer_dec bs = Inr x"
    by (cases x) (auto simp: peer_enc_def peer_dec_def encodePeerObject_fields decodePeerObject_envelope
        simp del: decodePeerObject.simps split: if_splits)
next
  fix bs x
  assume "peer_dec bs = Inr x"
  then obtain w where "decodePeerObject (JBuf (emptyBuffer\<lparr>content := bs\<rparr>)) = Inr w"
    and x: "x = (messageId w, body w, authSuffix w)"
    by (auto simp: peer_dec_def result_simps)
  from decodePeerObject_fields [OF this(1)] show "peer_enc x = Inr bs"
    by (simp add: peer_enc_def x encodePeerObject_fields)
qed

section \<open>Properties\<close>

text \<open>
  A byte string decodes as a native peer object exactly when it is the encoding of the decoded
  fields, with version 3, a registered identifier and the body and suffix lengths of its layout,
  disjoint length ranges included.
\<close>

theorem peer_object_strict_codec:
  "decodePeerObject (JBuf e) = Inr w \<longleftrightarrow>
     protocolVersion w = PEER_PROTOCOL_VERSION \<and>
     encodePeerObject (peerObject (messageId w) (body w) (authSuffix w)) = Inr (content e)"
proof
  assume "decodePeerObject (JBuf e) = Inr w"
  from decodePeerObject_fields [OF this]
  show "protocolVersion w = PEER_PROTOCOL_VERSION \<and>
     encodePeerObject (peerObject (messageId w) (body w) (authSuffix w)) = Inr (content e)"
    by (simp add: encodePeerObject_fields)
next
  assume "protocolVersion w = PEER_PROTOCOL_VERSION \<and>
     encodePeerObject (peerObject (messageId w) (body w) (authSuffix w)) = Inr (content e)"
  then show "decodePeerObject (JBuf e) = Inr w"
    using decodePeerObject_envelope [of "messageId w" "body w" "authSuffix w" e]
    by (cases w) (auto simp: encodePeerObject_fields simp del: decodePeerObject.simps split: if_splits)
qed

text \<open>
  The two wire formats cannot be confused: no buffer decodes both as an object of the private
  protocol and as a native peer object, and the two identifier registries share no identifier.
\<close>

theorem wire_versions_disjoint:
  "\<not> (\<exists>v w. decodeM3Object x = Inr v \<and> decodePeerObject x = Inr w) \<and>
   set M3_ID_REGISTRY \<inter> set PEER_ID_REGISTRY = {}"
proof
  show "\<not> (\<exists>v w. decodeM3Object x = Inr v \<and> decodePeerObject x = Inr w)"
    by (cases x) (auto simp: Let_def M3_PROTOCOL_VERSION_def PEER_PROTOCOL_VERSION_def
        readM3Uint32_def readPeerUint32_def split: if_splits)
  show "set M3_ID_REGISTRY \<inter> set PEER_ID_REGISTRY = {}"
    by (simp add: M3_ID_REGISTRY_def M3_MESSAGE_ID_def ROUTED_ERROR_def PEER_ID_REGISTRY_def
        PEER_TRANSPORT_ID_REGISTRY_def PEER_SEMANTIC_ID_REGISTRY_def PEER_PRESENCE_ID_REGISTRY_def
        PEER_MESSAGE_ID_def)
qed

text \<open>
  The peer registry is strictly ascending and complete: the three ranges partition the
  identifiers, every identifier has an object layout and every layout belongs to an identifier;
  a record body is the plaintext plus 17 bytes and a raw record adds the length prefix, whose three
  bytes can hold every body length.
\<close>

theorem peer_registry_complete:
  "sorted_wrt (<) PEER_ID_REGISTRY \<and> set PEER_ID_REGISTRY = snd ` set PEER_MESSAGE_ID \<and>
   map fst PEER_OBJECT_LAYOUT = map int PEER_ID_REGISTRY \<and>
   list_all (\<lambda>(purpose, l). rl_body l = rl_plaintext l + 17 \<and>
     rl_raw l = rl_body l + PEER_RECORD_PREFIX_BYTES \<and>
     rl_body l < 2 ^ (8 * PEER_RECORD_PREFIX_BYTES)) PEER_RECORD_LIMITS \<and>
   map fst PEER_RECORD_LIMITS = map snd PEER_PURPOSE"
  by (simp add: PEER_ID_REGISTRY_def PEER_TRANSPORT_ID_REGISTRY_def PEER_SEMANTIC_ID_REGISTRY_def
      PEER_PRESENCE_ID_REGISTRY_def PEER_MESSAGE_ID_def PEER_OBJECT_LAYOUT_def
      PEER_RECORD_LIMITS_def PEER_PURPOSE_def LEGACY_RECORD_LIMITS_def PRIVATE_RECORD_LIMITS_def
      PEER_RECORD_PREFIX_BYTES_def insert_commute)

end
