(* ===== verification/Peer_Budget.thy ===== *)
theory Peer_Budget
  imports Peer_Objects
begin

text \<open>
  \<^verbatim>\<open>lib/private/peer-ledger.js\<close>, part one: the strict readers of caller-owned options and
  the three budget formulas (bytes owned by the semantic layer, queued bytes, and the cells, bytes
  and commands of a whole route). Quantities are integers: every accepted value is below \<open>2 ^ 53\<close>
  or a bigint, where the source's arithmetic is exact.
\<close>

section \<open>Strict option readers\<close>

definition MAX_U32 :: int where
  "MAX_U32 = 0xffffffff"

definition MAX_U64 :: int where
  "MAX_U64 = 0xffffffffffffffff"

definition CELL_SIZE :: int where
  "CELL_SIZE = 1200"

definition ownProp :: "jsval \<Rightarrow> string \<Rightarrow> error_code + jsval" where
  "ownProp obj name =
     (if \<not> plainObject obj then Inl INVALID_ROUTE
      else case ownDescriptor obj name of
        Inr (Some (DataProp v)) \<Rightarrow> Inr v
      | _ \<Rightarrow> Inl INVALID_ROUTE)"

text \<open>\<open>Reflect.ownKeys\<close>; a buffer or an opaque handle never has the named keys.\<close>

fun ownKeys :: "jsval \<Rightarrow> error_code + string list" where
  "ownKeys (JObj own _) = Inr (map fst own)"
| "ownKeys JProxy = Inl INVALID_ROUTE"
| "ownKeys _ = Inr []"

definition exactKeys :: "jsval \<Rightarrow> string list \<Rightarrow> error_code + unit" where
  "exactKeys obj names =
     (if \<not> plainObject obj then Inl INVALID_ROUTE
      else bindE (ownKeys obj) (\<lambda>keys.
        requireE INVALID_ROUTE
          (length keys = length names \<and> list_all (\<lambda>k. k \<in> set names) keys)))"

fun ownIndex :: "jsval \<Rightarrow> nat \<Rightarrow> error_code + jsval" where
  "ownIndex (JArr xs) i = (if i < length xs then Inr (xs ! i) else Inl INVALID_ROUTE)"
| "ownIndex _ i = Inl INVALID_ROUTE"

text \<open>\<open>Array.isArray\<close>, with the elements that \<open>ownIndex\<close> reads in order.\<close>

fun arrayElements :: "jsval \<Rightarrow> error_code + jsval list" where
  "arrayElements (JArr xs) = Inr xs"
| "arrayElements _ = Inl INVALID_ROUTE"

fun checkU32 :: "jsval \<Rightarrow> error_code + int" where
  "checkU32 (JNum n) = (if n < 0 \<or> n > MAX_U32 then Inl INVALID_ROUTE else Inr n)"
| "checkU32 _ = Inl INVALID_ROUTE"

fun checkU64 :: "jsval \<Rightarrow> error_code + int" where
  "checkU64 (JBig n) = (if n < 0 \<or> n > MAX_U64 then Inl INVALID_ROUTE else Inr n)"
| "checkU64 _ = Inl INVALID_ROUTE"

fun checkBool :: "jsval \<Rightarrow> error_code + bool" where
  "checkBool (JBool b) = Inr b"
| "checkBool _ = Inl INVALID_ROUTE"

abbreviation u32Prop :: "jsval \<Rightarrow> string \<Rightarrow> error_code + int" where
  "u32Prop obj name \<equiv> bindE (ownProp obj name) checkU32"

abbreviation u64Prop :: "jsval \<Rightarrow> string \<Rightarrow> error_code + int" where
  "u64Prop obj name \<equiv> bindE (ownProp obj name) checkU64"

lemma checkU32_Inr: "checkU32 v = Inr n \<longleftrightarrow> v = JNum n \<and> 0 \<le> n \<and> n \<le> MAX_U32"
  by (cases v) auto

lemma checkU64_Inr: "checkU64 v = Inr n \<longleftrightarrow> v = JBig n \<and> 0 \<le> n \<and> n \<le> MAX_U64"
  by (cases v) auto

lemma readers_Inl:
  "ownProp obj name = Inl e \<Longrightarrow> e = INVALID_ROUTE" "checkU32 v = Inl e \<Longrightarrow> e = INVALID_ROUTE"
  "checkU64 v = Inl e \<Longrightarrow> e = INVALID_ROUTE"
  by (auto simp: ownProp_def split: if_splits sum.splits option.splits jsprop.splits)
    (cases v; auto split: if_splits)+

section \<open>Bytes owned by the semantic layer\<close>

definition LEGACY_CACHE_BYTES :: int where "LEGACY_CACHE_BYTES = 9620"
definition PRIVATE_SOURCE_CACHE_BYTES :: int where "PRIVATE_SOURCE_CACHE_BYTES = 2049"
definition REGISTRATION_CACHE_BYTES :: int where "REGISTRATION_CACHE_BYTES = 726"
definition PRIVATE_DESTINATION_CACHE_BYTES :: int where "PRIVATE_DESTINATION_CACHE_BYTES = 1921"
definition LEGACY_NOISE_SCRATCH_BYTES :: int where "LEGACY_NOISE_SCRATCH_BYTES = 8192"
definition PRIVATE_CONFIRMATION_BYTES :: int where "PRIVATE_CONFIRMATION_BYTES = 528"
definition LEGACY_PRE_OPEN_BYTES :: int where "LEGACY_PRE_OPEN_BYTES = 16777280"

definition recordRaw :: "int \<Rightarrow> int" where
  "recordRaw p = (case map_of PEER_RECORD_LIMITS (nat p) of None \<Rightarrow> 0 | Some l \<Rightarrow> int (rl_raw l))"

definition semanticOwnedBytes :: "int \<Rightarrow> bool \<Rightarrow> int \<Rightarrow> int" where
  "semanticOwnedBytes p ini m =
     (let recordSlotBytes = 2 * recordRaw p + int PEER_RECORD_PREFIX_BYTES in
      if p = 1 then
        let endpointStreams = (if ini then m else 0) in
        LEGACY_CACHE_BYTES * m + LEGACY_NOISE_SCRATCH_BYTES * m + recordSlotBytes * endpointStreams +
          (if ini then 0 else LEGACY_PRE_OPEN_BYTES)
      else if p = 2 then
        let endpointStreams = (if ini then m else 0) in
        PRIVATE_SOURCE_CACHE_BYTES * m + PRIVATE_CONFIRMATION_BYTES * endpointStreams +
          recordSlotBytes * endpointStreams + 0
      else
        let endpointStreams = (if ini then m - 1 else 0) in
        REGISTRATION_CACHE_BYTES + PRIVATE_DESTINATION_CACHE_BYTES * (m - 1) +
          PRIVATE_CONFIRMATION_BYTES * endpointStreams + recordSlotBytes * endpointStreams + 0)"

definition computePeerSemanticOwnedBytes :: "jsval \<Rightarrow> error_code + int" where
  "computePeerSemanticOwnedBytes options =
     bindE (exactKeys options [''purpose'', ''isInitiator'', ''maxStreams'']) (\<lambda>_.
     bindE (u32Prop options ''purpose'') (\<lambda>p.
     bindE (bindE (ownProp options ''isInitiator'') checkBool) (\<lambda>ini.
     bindE (u32Prop options ''maxStreams'') (\<lambda>m.
     bindE (requireE INVALID_ROUTE (\<not> (p < 1 \<or> p > 3 \<or> m < 1))) (\<lambda>_.
       let result = semanticOwnedBytes p ini m in
       if \<not> isSafeInteger (JNum result) \<or> result < 0 \<or> result > MAX_U32 then Inl INVALID_ROUTE
       else Inr result)))))"

definition computePeerQueuedBytes :: "jsval \<Rightarrow> error_code + int" where
  "computePeerQueuedBytes options =
     bindE (requireE INVALID_ROUTE (plainObject options)) (\<lambda>_.
     bindE (u32Prop options ''maxStreams'') (\<lambda>m.
     bindE (u32Prop options ''receiveBytes'') (\<lambda>r.
     bindE (u32Prop options ''semanticOwnedBytes'') (\<lambda>s.
       let total = 157200 + 1073 * m + r + s in
       if total > MAX_U32 then Inl INVALID_ROUTE else Inr total))))"

section \<open>The budget of a route\<close>

record app_row =
  forwardFrames :: int
  reverseFrames :: int
  forwardBytes :: int
  reverseBytes :: int
  forwardWindow :: int
  reverseWindow :: int

record usage =
  u_cells :: int
  u_bytes :: int
  u_commands :: int

record duplex =
  forward :: usage
  reverse :: usage

record route_budget =
  reliablePackets :: int
  adjacencies :: "duplex list"
  directDiscovery :: "duplex list"
  purpose :: duplex
  totalCells :: int
  totalBytes :: int

text \<open>One turn of the loop over \<open>applications\<close>: the reads, then the range checks.\<close>

definition readApplication :: "jsval \<Rightarrow> error_code + app_row" where
  "readApplication app =
     bindE (exactKeys app [''forwardFrames'', ''reverseFrames'', ''forwardBytes'',
       ''reverseBytes'', ''forwardWindow'', ''reverseWindow'']) (\<lambda>_.
     bindE (u32Prop app ''forwardFrames'') (\<lambda>Qf.
     bindE (u32Prop app ''reverseFrames'') (\<lambda>Qr.
     bindE (u64Prop app ''forwardBytes'') (\<lambda>Bf.
     bindE (u64Prop app ''reverseBytes'') (\<lambda>Br.
     bindE (u32Prop app ''forwardWindow'') (\<lambda>Wf.
     bindE (u32Prop app ''reverseWindow'') (\<lambda>Wr.
     bindE (requireE INVALID_ROUTE (\<not> (Qf < 1 \<or> Qr < 1))) (\<lambda>_.
     bindE (requireE INVALID_ROUTE (\<not> (Bf < 59 \<or> Bf > 977 * Qf))) (\<lambda>_.
     bindE (requireE INVALID_ROUTE (\<not> (Br < 59 \<or> Br > 977 * Qr))) (\<lambda>_.
     bindE (requireE INVALID_ROUTE (\<not> (Wf < 1 \<or> Wf > min 24 Qf))) (\<lambda>_.
     bindE (requireE INVALID_ROUTE (\<not> (Wr < 1 \<or> Wr > min 24 Qr))) (\<lambda>_.
       Inr \<lparr>forwardFrames = Qf, reverseFrames = Qr, forwardBytes = Bf, reverseBytes = Br,
            forwardWindow = Wf, reverseWindow = Wr\<rparr>))))))))))))"

definition reliableForward :: "int \<Rightarrow> int \<Rightarrow> app_row list \<Rightarrow> int" where
  "reliableForward p m apps =
     (if p = 1 then 13 * m else if p = 2 then 5 * m else 3 + 4 * (m - 1)) +
     sum_list (map forwardFrames apps) +
     sum_list (map (\<lambda>a. 1 + (reverseFrames a - reverseWindow a)) apps) + int (length apps)"

definition reliableReverse :: "int \<Rightarrow> int \<Rightarrow> app_row list \<Rightarrow> int" where
  "reliableReverse p m apps =
     (if p = 1 then 13 * m else if p = 2 then 5 * m else 1 + 5 * (m - 1)) +
     sum_list (map reverseFrames apps) +
     sum_list (map (\<lambda>a. 1 + (forwardFrames a - forwardWindow a)) apps) + int (length apps)"

definition terminalCf :: "int \<Rightarrow> int \<Rightarrow> int" where
  "terminalCf p m = (if p = 1 then 3 * m else if p = 2 then 2 * m else 2)"

definition setupAttempts :: "int \<Rightarrow> int \<Rightarrow> (int \<times> int \<times> int \<times> int) list" where
  "setupAttempts p m =
     [(40, 56, 1 + (if p = 3 then 2 * (m - 1) else 0) + 0 + m + 2, 2 + 0 + 0 + m + 2),
      (24, 40, 1 + 0 + 0 + m + 2, 2 + 0 + 0 + m + 2),
      (8, 16, 1 + 0 + 0 + m + 2, 1 + terminalCf p m + 1 + m + 2)]"

definition adjacencyRow :: "int \<Rightarrow> int \<Rightarrow> int \<times> int \<times> int \<times> int \<Rightarrow> error_code + duplex" where
  "adjacencyRow N m = (\<lambda>(Sif, Sir, fCmds, rCmds).
     let fCells = Sif + 8 * N + 16 * m + 34; rCells = Sir + 8 * N + 16 * m + 34 in
     if fCells > MAX_U32 \<or> rCells > MAX_U32 then Inl INVALID_ROUTE
     else if fCmds > MAX_U32 \<or> rCmds > MAX_U32 then Inl INVALID_ROUTE
     else Inr \<lparr>forward = \<lparr>u_cells = fCells, u_bytes = fCells * CELL_SIZE, u_commands = fCmds\<rparr>,
               reverse = \<lparr>u_cells = rCells, u_bytes = rCells * CELL_SIZE, u_commands = rCmds\<rparr>\<rparr>)"

definition discoveryRow :: duplex where
  "discoveryRow = \<lparr>forward = \<lparr>u_cells = 24, u_bytes = 28800, u_commands = 0\<rparr>,
     reverse = \<lparr>u_cells = 24, u_bytes = 28800, u_commands = 1\<rparr>\<rparr>"

definition duplexCells :: "duplex \<Rightarrow> int" where
  "duplexCells d = u_cells (forward d) + u_cells (reverse d)"

definition routeBudget :: "int \<Rightarrow> int \<Rightarrow> app_row list \<Rightarrow> error_code + route_budget" where
  "routeBudget p m apps =
     (let N = reliableForward p m apps + reliableReverse p m apps in
      bindE (mapE (adjacencyRow N m) (setupAttempts p m)) (\<lambda>rows.
        let cellsTotal = sum_list (map duplexCells rows) + 144;
            purposeCells = 8 * N + 16 * m + 24 in
        if cellsTotal > MAX_U32 then Inl INVALID_ROUTE
        else if purposeCells > MAX_U32 then Inl INVALID_ROUTE
        else Inr \<lparr>reliablePackets = N, adjacencies = rows,
          directDiscovery = [discoveryRow, discoveryRow, discoveryRow],
          purpose =
            \<lparr>forward = \<lparr>u_cells = purposeCells, u_bytes = purposeCells * CELL_SIZE,
               u_commands = (if p = 3 then 2 * (m - 1) else 0) + m + 1\<rparr>,
             reverse = \<lparr>u_cells = purposeCells, u_bytes = purposeCells * CELL_SIZE,
               u_commands = terminalCf p m + 1 + m + 1\<rparr>\<rparr>,
          totalCells = cellsTotal, totalBytes = cellsTotal * CELL_SIZE\<rparr>))"

definition computePeerRouteBudget :: "jsval \<Rightarrow> error_code + route_budget" where
  "computePeerRouteBudget options =
     bindE (exactKeys options [''purpose'', ''maxStreams'', ''applications'']) (\<lambda>_.
     bindE (u32Prop options ''purpose'') (\<lambda>p.
     bindE (u32Prop options ''maxStreams'') (\<lambda>m.
     bindE (ownProp options ''applications'') (\<lambda>apps.
     bindE (requireE INVALID_ROUTE (\<not> (p < 1 \<or> p > 3 \<or> m < 1))) (\<lambda>_.
     bindE (arrayElements apps) (\<lambda>xs.
     bindE (requireE INVALID_ROUTE (int (length xs) = (if p = 3 then m - 1 else m))) (\<lambda>_.
     bindE (mapE readApplication xs) (\<lambda>rows. routeBudget p m rows))))))))"

section \<open>Properties of the budgets\<close>

lemma readApplication_ranges:
  "readApplication v = Inr a \<Longrightarrow>
     1 \<le> forwardWindow a \<and> forwardWindow a \<le> forwardFrames a \<and> forwardWindow a \<le> 24 \<and>
     1 \<le> reverseWindow a \<and> reverseWindow a \<le> reverseFrames a \<and> reverseWindow a \<le> 24"
  by (auto simp: readApplication_def result_simps)

lemma mapE_all:
  "mapE f xs = Inr ys \<Longrightarrow> (\<And>x y. f x = Inr y \<Longrightarrow> P y) \<Longrightarrow> list_all P ys"
  by (induction xs arbitrary: ys) (auto simp: result_simps)

lemma sum_list_map_nonneg: "list_all (\<lambda>a. (0::int) \<le> f a) xs \<Longrightarrow> 0 \<le> sum_list (map f xs)"
  by (induction xs) auto

definition app_row_ok :: "app_row \<Rightarrow> bool" where
  "app_row_ok a =
     (1 \<le> forwardWindow a \<and> forwardWindow a \<le> forwardFrames a \<and>
      1 \<le> reverseWindow a \<and> reverseWindow a \<le> reverseFrames a)"

lemma reliable_nonneg:
  assumes "list_all app_row_ok apps" "1 \<le> m"
  shows "0 \<le> reliableForward p m apps" "0 \<le> reliableReverse p m apps"
proof -
  have "list_all (\<lambda>a. 0 \<le> forwardFrames a) apps" "list_all (\<lambda>a. 0 \<le> reverseFrames a) apps"
    "list_all (\<lambda>a. 0 \<le> 1 + (reverseFrames a - reverseWindow a)) apps"
    "list_all (\<lambda>a. 0 \<le> 1 + (forwardFrames a - forwardWindow a)) apps"
    using assms(1) by (auto simp: list_all_iff app_row_ok_def)
  note sums = this [THEN sum_list_map_nonneg]
  show "0 \<le> reliableForward p m apps" "0 \<le> reliableReverse p m apps"
    using sums assms(2) by (auto simp: reliableForward_def reliableReverse_def)
qed

definition usage_ok :: "usage \<Rightarrow> bool" where
  "usage_ok u = (0 \<le> u_cells u \<and> u_cells u \<le> MAX_U32 \<and> u_bytes u = u_cells u * CELL_SIZE \<and>
     0 \<le> u_commands u \<and> u_commands u \<le> MAX_U32)"

definition duplex_ok :: "duplex \<Rightarrow> bool" where
  "duplex_ok d = (usage_ok (forward d) \<and> usage_ok (reverse d))"

text \<open>What the budget of a route promises to the owners of its adjacencies.\<close>

definition budget_sound :: "route_budget \<Rightarrow> bool" where
  "budget_sound b =
     (length (adjacencies b) = 3 \<and> list_all duplex_ok (adjacencies b) \<and>
      list_all duplex_ok (directDiscovery b) \<and> duplex_ok (purpose b) \<and>
      totalCells b = sum_list (map duplexCells (adjacencies b @ directDiscovery b)) \<and>
      totalCells b \<le> MAX_U32 \<and> totalBytes b = totalCells b * CELL_SIZE)"

definition purpose_funded :: "route_budget \<Rightarrow> bool" where
  "purpose_funded b =
     (list_all (\<lambda>a. u_cells (forward (purpose b)) \<le> u_cells (forward a) \<and>
         u_cells (reverse (purpose b)) \<le> u_cells (reverse a)) (adjacencies b) \<and>
      u_commands (forward (purpose b)) \<le> u_commands (forward (adjacencies b ! 0)) \<and>
      u_commands (reverse (purpose b)) \<le> u_commands (reverse (adjacencies b ! 2)))"

lemma routeBudget_sound:
  assumes "routeBudget p m apps = Inr b" "list_all app_row_ok apps" "1 \<le> m"
  shows "budget_sound b \<and> purpose_funded b \<and> 0 \<le> reliablePackets b \<and>
    8 * reliablePackets b + 16 * m \<le> u_cells (forward (purpose b))"
proof -
  define N where "N = reliableForward p m apps + reliableReverse p m apps"
  have "0 \<le> N"
    using reliable_nonneg [OF assms(2,3)] by (simp add: N_def)
  with assms(1,3) show ?thesis
    by (auto simp: routeBudget_def N_def [symmetric] setupAttempts_def adjacencyRow_def Let_def
        result_simps budget_sound_def purpose_funded_def duplex_ok_def usage_ok_def duplexCells_def
        discoveryRow_def CELL_SIZE_def terminalCf_def MAX_U32_def split: if_splits)
qed

lemma computePeerRouteBudget_rows:
  assumes "computePeerRouteBudget options = Inr b"
  obtains p m apps where "routeBudget p m apps = Inr b" "list_all app_row_ok apps" "1 \<le> m"
proof -
  from assms obtain p m apps xs where "routeBudget p m apps = Inr b" "mapE readApplication xs = Inr apps"
    "1 \<le> m"
    by (auto simp: computePeerRouteBudget_def result_simps)
  moreover have "app_row_ok a" if "readApplication v = Inr a" for v a
    using readApplication_ranges [OF that] by (simp add: app_row_ok_def)
  ultimately show ?thesis
    using that mapE_all by blast
qed

text \<open>
  A route budget is internally consistent and pays for the purpose it was computed for: there
  are three adjacencies, every cell and command count fits 32 bits and every byte count is the
  cell count times the cell size; the total is the sum over the adjacencies and the three
  direct-discovery legs; and the rows of the purpose route (eight cells per reliable packet,
  sixteen per stream, and the route close) are covered in both directions of every adjacency they
  cross, their commands by the first adjacency at the source and the last one at the terminal.
\<close>

theorem route_budget_funds_purpose:
  assumes "computePeerRouteBudget options = Inr b"
  shows "budget_sound b \<and> purpose_funded b \<and>
    8 * reliablePackets b \<le> u_cells (forward (purpose b))"
proof -
  from assms obtain p m apps where
    "routeBudget p m apps = Inr b" "list_all app_row_ok apps" "1 \<le> m"
    by (rule computePeerRouteBudget_rows)
  from routeBudget_sound [OF this] \<open>1 \<le> m\<close> show ?thesis
    by auto
qed

definition example_application :: jsval where
  "example_application = JObj [(''forwardFrames'', DataProp (JNum 100)),
     (''reverseFrames'', DataProp (JNum 50)), (''forwardBytes'', DataProp (JBig 9000)),
     (''reverseBytes'', DataProp (JBig 59)), (''forwardWindow'', DataProp (JNum 24)),
     (''reverseWindow'', DataProp (JNum 8))] []"

definition example_route :: jsval where
  "example_route = JObj [(''purpose'', DataProp (JNum 3)), (''maxStreams'', DataProp (JNum 2)),
     (''applications'', DataProp (JArr [example_application]))] []"

definition example_budget :: route_budget where
  "example_budget = (case computePeerRouteBudget example_route of Inr b \<Rightarrow> b)"

theorem route_budget_funds_purpose_witness:
  "computePeerRouteBudget example_route = Inr example_budget \<and>
   budget_sound example_budget \<and> purpose_funded example_budget \<and>
   8 * reliablePackets example_budget \<le> u_cells (forward (purpose example_budget))"
proof -
  have "computePeerRouteBudget example_route = Inr example_budget"
    by (simp add: example_budget_def example_route_def example_application_def
        computePeerRouteBudget_def exactKeys_def ownProp_def readApplication_def routeBudget_def
        MAX_U32_def MAX_U64_def Let_def setupAttempts_def adjacencyRow_def reliableForward_def
        reliableReverse_def duplexCells_def terminalCf_def)
  from route_budget_funds_purpose [OF this] this show ?thesis
    by simp
qed

definition semanticOptions :: "int \<Rightarrow> bool \<Rightarrow> int \<Rightarrow> jsval" where
  "semanticOptions p ini m = JObj [(''purpose'', DataProp (JNum p)),
     (''isInitiator'', DataProp (JBool ini)), (''maxStreams'', DataProp (JNum m))] []"

text \<open>The bytes owned per stream and per route, in closed form.\<close>

definition ownedPerRoute :: "int \<Rightarrow> bool \<Rightarrow> int" where
  "ownedPerRoute p ini = (if p = 1 \<and> \<not> ini then 16777280 else if p = 3 then 726 else 0)"

definition ownedPerStream :: "int \<Rightarrow> bool \<Rightarrow> int" where
  "ownedPerStream p ini =
     (if p = 1 then if ini then 33572251 else 17812
      else if p = 2 then if ini then 133692 else 2049
      else if ini then 133564 else 1921)"

lemma semanticOwnedBytes_linear:
  assumes "1 \<le> p" "p \<le> 3"
  shows "semanticOwnedBytes p ini m =
    ownedPerRoute p ini + ownedPerStream p ini * (if p = 3 then m - 1 else m)"
proof -
  from assms consider "p = 1" | "p = 2" | "p = 3"
    by linarith
  then show ?thesis
    by cases (auto simp: semanticOwnedBytes_def ownedPerRoute_def ownedPerStream_def
        recordRaw_def PEER_RECORD_LIMITS_def LEGACY_RECORD_LIMITS_def PRIVATE_RECORD_LIMITS_def
        PEER_RECORD_PREFIX_BYTES_def LEGACY_CACHE_BYTES_def PRIVATE_SOURCE_CACHE_BYTES_def
        REGISTRATION_CACHE_BYTES_def PRIVATE_DESTINATION_CACHE_BYTES_def
        LEGACY_NOISE_SCRATCH_BYTES_def PRIVATE_CONFIRMATION_BYTES_def LEGACY_PRE_OPEN_BYTES_def)
qed

lemma ownedPerStream_ge: "1921 \<le> ownedPerStream p ini" "0 \<le> ownedPerRoute p ini"
  by (auto simp: ownedPerStream_def ownedPerRoute_def)

text \<open>
  The semantic layer admits a stream count exactly when the caches, Noise scratch, confirmation
  arenas, record slots and the legacy pre-OPEN slot together fit a 32-bit byte count; the result is
  linear in the streams that own storage (a destination's first stream is its registration). Every
  other purpose or count is refused, e.g. the 128th stream of a legacy initiator.
\<close>

theorem semantic_owned_bytes_linear:
  "computePeerSemanticOwnedBytes (semanticOptions p ini m) =
     (let owned = ownedPerRoute p ini + ownedPerStream p ini * (if p = 3 then m - 1 else m) in
      if 1 \<le> p \<and> p \<le> 3 \<and> 1 \<le> m \<and> owned \<le> MAX_U32 then Inr owned else Inl INVALID_ROUTE)"
proof -
  define q where "q = (if p = 3 then m - 1 else m)"
  define owned where "owned = ownedPerRoute p ini + ownedPerStream p ini * q"
  have pos: "1 \<le> m \<Longrightarrow> 0 \<le> owned" and small: "1 \<le> m \<Longrightarrow> owned \<le> MAX_U32 \<Longrightarrow> m \<le> MAX_U32"
  proof -
    assume "1 \<le> m"
    then have "0 \<le> q" "m \<le> q + 1"
      by (auto simp: q_def)
    then have "1921 * q \<le> ownedPerStream p ini * q"
      using ownedPerStream_ge by (intro mult_right_mono) auto
    then show "0 \<le> owned" and "owned \<le> MAX_U32 \<Longrightarrow> m \<le> MAX_U32"
      using \<open>0 \<le> q\<close> \<open>m \<le> q + 1\<close> ownedPerStream_ge(2) [of p ini]
      by (auto simp: owned_def MAX_U32_def)
  qed
  have "computePeerSemanticOwnedBytes (semanticOptions p ini m) =
     (if 0 \<le> p \<and> p \<le> MAX_U32 \<and> 0 \<le> m \<and> m \<le> MAX_U32 \<and> 1 \<le> p \<and> p \<le> 3 \<and> 1 \<le> m \<and>
       isSafeInteger (JNum (semanticOwnedBytes p ini m)) \<and> 0 \<le> semanticOwnedBytes p ini m \<and>
       semanticOwnedBytes p ini m \<le> MAX_U32
      then Inr (semanticOwnedBytes p ini m) else Inl INVALID_ROUTE)"
    by (auto simp: computePeerSemanticOwnedBytes_def semanticOptions_def exactKeys_def ownProp_def
        Let_def requireE_def)
  also have "\<dots> = (if 1 \<le> p \<and> p \<le> 3 \<and> 1 \<le> m \<and> owned \<le> MAX_U32 then Inr owned
      else Inl INVALID_ROUTE)"
    using pos small semanticOwnedBytes_linear [of p ini m]
    by (auto simp: owned_def [symmetric] q_def [symmetric] MAX_SAFE_INTEGER_def MAX_U32_def)
  finally show ?thesis
    by (simp add: owned_def q_def Let_def)
qed

end
