(* ===== verification/Peer_Ledger.thy ===== *)
theory Peer_Ledger
  imports Peer_Budget
begin

text \<open>
  \<^verbatim>\<open>lib/private/peer-ledger.js\<close>, part two: the tree of ledgers. A ledger holds an allocation
  of cells, bytes and commands; part of it is spent, part is reserved for child ledgers. The module's
  \<^verbatim>\<open>WeakMap\<close> from handles to mutable states is an explicit store from references to states, so
  that parents, children and handles alias as they do in the code. The two loops that follow
  pointers (a charge walks up to the root, a release recurses over the children) carry a bound on
  their steps and answer \<open>NoReturn\<close> when it is exceeded; the theorems show that they return.
\<close>

named_theorems row_simps \<open>componentwise arithmetic of rows\<close>
named_theorems store_simps \<open>reading the store after a write\<close>

section \<open>Rows of cells, bytes and commands\<close>

datatype row = Row (r_cells: int) (r_bytes: int) (r_commands: int)

instantiation row :: ordered_ab_group_add
begin

definition zero_row :: row where
  "0 = Row 0 0 0"

definition plus_row :: "row \<Rightarrow> row \<Rightarrow> row" where
  "a + b = Row (r_cells a + r_cells b) (r_bytes a + r_bytes b) (r_commands a + r_commands b)"

definition minus_row :: "row \<Rightarrow> row \<Rightarrow> row" where
  "a - b = Row (r_cells a - r_cells b) (r_bytes a - r_bytes b) (r_commands a - r_commands b)"

definition uminus_row :: "row \<Rightarrow> row" where
  "- a = Row (- r_cells a) (- r_bytes a) (- r_commands a)"

definition less_eq_row :: "row \<Rightarrow> row \<Rightarrow> bool" where
  "a \<le> b \<longleftrightarrow> r_cells a \<le> r_cells b \<and> r_bytes a \<le> r_bytes b \<and> r_commands a \<le> r_commands b"

definition less_row :: "row \<Rightarrow> row \<Rightarrow> bool" where
  "a < b \<longleftrightarrow> a \<le> b \<and> \<not> b \<le> (a::row)"

instance
  by standard (auto simp: zero_row_def plus_row_def minus_row_def uminus_row_def less_eq_row_def
      less_row_def intro: row.expand)

end

lemma row_fields [simp]:
  "r_cells 0 = 0" "r_bytes 0 = 0" "r_commands 0 = 0"
  "r_cells (a + b) = r_cells a + r_cells b" "r_bytes (a + b) = r_bytes a + r_bytes b"
  "r_commands (a + b) = r_commands a + r_commands b"
  "r_cells (a - b) = r_cells a - r_cells b" "r_bytes (a - b) = r_bytes a - r_bytes b"
  "r_commands (a - b) = r_commands a - r_commands b"
  by (simp_all add: zero_row_def plus_row_def minus_row_def)

lemma Row_eq_0 [row_simps]: "Row a b c = 0 \<longleftrightarrow> a = 0 \<and> b = 0 \<and> c = 0"
  by (simp add: zero_row_def)

lemmas row_arith [row_simps] = plus_row_def minus_row_def less_eq_row_def

section \<open>The store\<close>

record ledger_state =
  allocated :: row
  spent :: row
  reserved :: row
  directCellsSpent :: int
  released :: bool
  children :: "nat list"
  parentState :: "nat option"

record ledger_store =
  ledgers :: "nat \<rightharpoonup> ledger_state"
  nextRef :: nat

text \<open>What a call may do instead of returning a value.\<close>

datatype failure = Throws error_code | NoReturn

definition invalidE :: "error_code + 'a \<Rightarrow> failure + 'a" where
  "invalidE r = (case r of Inl e \<Rightarrow> Inl (Throws e) | Inr x \<Rightarrow> Inr x)"

fun refOf :: "jsval \<Rightarrow> nat option" where
  "refOf (JRef n) = Some n"
| "refOf _ = None"

definition getLedger :: "'z ledger_store_scheme \<Rightarrow> jsval \<Rightarrow> (nat \<times> ledger_state) option" where
  "getLedger st handle =
     (case refOf handle of None \<Rightarrow> None | Some h \<Rightarrow> map_option (Pair h) (ledgers st h))"

definition updLedger ::
  "nat \<Rightarrow> (ledger_state \<Rightarrow> ledger_state) \<Rightarrow> 'z ledger_store_scheme \<Rightarrow> 'z ledger_store_scheme" where
  "updLedger h f st = (case ledgers st h of
     None \<Rightarrow> st | Some s \<Rightarrow> st\<lparr>ledgers := (ledgers st)(h \<mapsto> f s)\<rparr>)"

text \<open>\<open>ledgers.set(Object.freeze({}), state)\<close>: a handle that no other object has.\<close>

definition newLedger :: "ledger_state \<Rightarrow> 'z ledger_store_scheme \<Rightarrow> nat \<times> 'z ledger_store_scheme" where
  "newLedger s st =
     (nextRef st, st\<lparr>ledgers := (ledgers st)(nextRef st \<mapsto> s), nextRef := nextRef st + 1\<rparr>)"

section \<open>Operations\<close>

definition readRow :: "jsval \<Rightarrow> failure + row" where
  "readRow options = invalidE (
     bindE (requireE INVALID_ROUTE (plainObject options)) (\<lambda>_.
     bindE (u32Prop options ''cells'') (\<lambda>c.
     bindE (u64Prop options ''bytes'') (\<lambda>b.
     bindE (u32Prop options ''commands'') (\<lambda>cmd. Inr (Row c b cmd))))))"

definition freshLedger :: "row \<Rightarrow> nat option \<Rightarrow> ledger_state" where
  "freshLedger r parent = \<lparr>allocated = r, spent = 0, reserved = 0, directCellsSpent = 0,
     released = False, children = [], parentState = parent\<rparr>"

definition remaining :: "ledger_state \<Rightarrow> row" where
  "remaining s = allocated s - spent s - reserved s"

definition createPeerLedger :: "jsval \<Rightarrow> ('z ledger_store_scheme, failure, jsval) action" where
  "createPeerLedger options st = (case readRow options of
     Inl e \<Rightarrow> (st, Inl e)
   | Inr r \<Rightarrow> let (h, st') = newLedger (freshLedger r None) st in (st', Inr (JRef h)))"

definition reservePeerLedger ::
  "jsval \<Rightarrow> jsval \<Rightarrow> ('z ledger_store_scheme, failure, jsval) action" where
  "reservePeerLedger parentHandle options st = (case getLedger st parentHandle of
     None \<Rightarrow> (st, Inl (Throws INVALID_ROUTE))
   | Some (p, ps) \<Rightarrow>
       if released ps then (st, Inl (Throws INVALID_ROUTE))
       else case readRow options of
         Inl e \<Rightarrow> (st, Inl e)
       | Inr r \<Rightarrow>
           if \<not> r \<le> remaining ps then (st, Inl (Throws INVALID_ROUTE))
           else
             let st1 = updLedger p (\<lambda>s. s\<lparr>reserved := reserved s + r\<rparr>) st;
                 (h, st2) = newLedger (freshLedger r (Some p)) st1;
                 st3 = updLedger p (\<lambda>s. s\<lparr>children := children s @ [h]\<rparr>) st2
             in (st3, Inr (JRef h)))"

definition spendLocal :: "row \<Rightarrow> ledger_state \<Rightarrow> ledger_state" where
  "spendLocal r s = s\<lparr>spent := spent s + r, directCellsSpent := directCellsSpent s + r_cells r\<rparr>"

definition spendReserved :: "row \<Rightarrow> ledger_state \<Rightarrow> ledger_state" where
  "spendReserved r s = s\<lparr>reserved := reserved s - r, spent := spent s + r\<rparr>"

text \<open>\<open>while (current)\<close>: from a parent up to the root, at most \<open>fuel\<close> steps.\<close>

fun chargeAncestors ::
  "nat \<Rightarrow> row \<Rightarrow> nat option \<Rightarrow> ('z ledger_store_scheme, failure, unit) action" where
  "chargeAncestors fuel r None st = (st, Inr ())"
| "chargeAncestors 0 r (Some p) st = (st, Inl NoReturn)"
| "chargeAncestors (Suc fuel) r (Some p) st = (case ledgers st p of
     None \<Rightarrow> (st, Inr ())
   | Some s \<Rightarrow> chargeAncestors fuel r (parentState s) (updLedger p (spendReserved r) st))"

definition chargePeerLedger :: "jsval \<Rightarrow> jsval \<Rightarrow> ('z ledger_store_scheme, failure, unit) action" where
  "chargePeerLedger handle options st = (case getLedger st handle of
     None \<Rightarrow> (st, Inl (Throws INVALID_ROUTE))
   | Some (h, s) \<Rightarrow>
       if released s then (st, Inl (Throws INVALID_ROUTE))
       else case readRow options of
         Inl e \<Rightarrow> (st, Inl e)
       | Inr r \<Rightarrow>
           if \<not> r \<le> remaining s then (st, Inl (Throws INVALID_ROUTE))
           else chargeAncestors (nextRef st) r (parentState s) (updLedger h (spendLocal r) st))"

text \<open>\<open>for (const x of xs) f(x)\<close>: the first exception ends the loop.\<close>

fun forS :: "('a \<Rightarrow> ('s, 'e, 'b) action) \<Rightarrow> 'a list \<Rightarrow> ('s, 'e, unit) action" where
  "forS f [] = returnS ()"
| "forS f (x # xs) = bindS (f x) (\<lambda>_. forS f xs)"

text \<open>The end of a release: clear the children, give the unspent part back, leave the parent.\<close>

definition detachLedger :: "nat \<Rightarrow> 'z ledger_store_scheme \<Rightarrow> 'z ledger_store_scheme" where
  "detachLedger h st =
     (let st1 = updLedger h (\<lambda>s. s\<lparr>children := []\<rparr>) st in
      case ledgers st1 h of
        None \<Rightarrow> st1
      | Some s \<Rightarrow> (case parentState s of
          None \<Rightarrow> st1
        | Some p \<Rightarrow> updLedger p (\<lambda>q. q\<lparr>reserved := reserved q - (allocated s - spent s),
            children := removeAll h (children q)\<rparr>) st1))"

text \<open>The recursion over the children is at most \<open>fuel\<close> deep.\<close>

primrec releaseLedger :: "nat \<Rightarrow> nat \<Rightarrow> ('z ledger_store_scheme, failure, bool) action" where
  "releaseLedger 0 = (\<lambda>h st. (st, Inl NoReturn))"
| "releaseLedger (Suc fuel) = (\<lambda>h st. case ledgers st h of
     None \<Rightarrow> (st, Inl (Throws INVALID_ROUTE))
   | Some s \<Rightarrow>
       if released s then (st, Inr False)
       else bindS (forS (releaseLedger fuel) (children s))
         (\<lambda>_ st'. (detachLedger h st', Inr True))
         (updLedger h (\<lambda>s. s\<lparr>released := True\<rparr>) st))"

definition releasePeerLedger :: "jsval \<Rightarrow> ('z ledger_store_scheme, failure, bool) action" where
  "releasePeerLedger handle st = (case refOf handle of
     None \<Rightarrow> (st, Inl (Throws INVALID_ROUTE))
   | Some h \<Rightarrow> releaseLedger (Suc (nextRef st)) h st)"

record ledger_view =
  v_allocated :: row
  v_spent :: row
  v_reserved :: row
  v_remaining :: row
  v_released :: bool

definition readPeerLedger :: "jsval \<Rightarrow> 'z ledger_store_scheme \<Rightarrow> failure + ledger_view" where
  "readPeerLedger handle st = (case getLedger st handle of
     None \<Rightarrow> Inl (Throws INVALID_ROUTE)
   | Some (h, s) \<Rightarrow> Inr \<lparr>v_allocated = allocated s, v_spent = spent s, v_reserved = reserved s,
       v_remaining = remaining s, v_released = released s\<rparr>)"

definition readPeerLedgerDirectCells :: "jsval \<Rightarrow> 'z ledger_store_scheme \<Rightarrow> failure + int" where
  "readPeerLedgerDirectCells handle st = (case getLedger st handle of
     None \<Rightarrow> Inl (Throws INVALID_ROUTE) | Some (h, s) \<Rightarrow> Inr (directCellsSpent s))"

text \<open>The walk up the parents; \<open>None\<close> when it takes more than \<open>fuel\<close> steps.\<close>

fun withinAncestors :: "nat \<Rightarrow> 'z ledger_store_scheme \<Rightarrow> nat option \<Rightarrow> nat \<Rightarrow> bool option" where
  "withinAncestors fuel st None root = Some False"
| "withinAncestors 0 st (Some p) root = None"
| "withinAncestors (Suc fuel) st (Some p) root =
     (if p = root then Some True
      else case ledgers st p of
        None \<Rightarrow> Some False
      | Some s \<Rightarrow> withinAncestors fuel st (parentState s) root)"

definition isPeerLedgerWithin :: "jsval \<Rightarrow> jsval \<Rightarrow> 'z ledger_store_scheme \<Rightarrow> bool option" where
  "isPeerLedgerWithin ledger ancestor st =
     (case (getLedger st ledger, getLedger st ancestor) of
        (Some (h, s), Some (a, root)) \<Rightarrow>
          if released s \<or> released root then Some False
          else withinAncestors (nextRef st) st (parentState s) a
      | _ \<Rightarrow> Some False)"

end
