(* ===== verification/Ledger_Invariant.thy ===== *)
theory Ledger_Invariant
  imports Peer_Ledger
begin

text \<open>
  The conservation law of the ledger tree and the proof that every operation of
  \<^verbatim>\<open>peer-ledger.js\<close> on it returns and keeps the law. The law has two parameters for the
  moments inside an operation when it is suspended: the ledgers whose release is under way, and
  the amounts a charge has taken from a child and not yet moved at its parent.
\<close>

section \<open>The law\<close>

definition unspent :: "(nat \<rightharpoonup> ledger_state) \<Rightarrow> nat \<Rightarrow> row" where
  "unspent L c = (case L c of None \<Rightarrow> 0 | Some t \<Rightarrow> allocated t - spent t)"

definition amounts_ok :: "ledger_state \<Rightarrow> bool" where
  "amounts_ok s = (0 \<le> spent s \<and> 0 \<le> reserved s \<and> spent s + reserved s \<le> allocated s)"

definition children_ok :: "nat set \<Rightarrow> (nat \<rightharpoonup> ledger_state) \<Rightarrow> nat \<Rightarrow> ledger_state \<Rightarrow> bool" where
  "children_ok A L h s =
     (distinct (children s) \<and>
      (\<forall>c\<in>set (children s). h < c \<and>
         (\<exists>t. L c = Some t \<and> parentState t = Some h \<and> (released t \<longrightarrow> c \<in> A))))"

definition parent_ok :: "(nat \<rightharpoonup> ledger_state) \<Rightarrow> nat \<Rightarrow> ledger_state \<Rightarrow> bool" where
  "parent_ok L h s =
     (\<forall>p. parentState s = Some p \<longrightarrow>
        p < h \<and> (\<exists>q. L p = Some q \<and> (\<not> released s \<longrightarrow> h \<in> set (children q))))"

definition node_ok ::
  "nat set \<Rightarrow> (nat \<Rightarrow> row) \<Rightarrow> (nat \<rightharpoonup> ledger_state) \<Rightarrow> nat \<Rightarrow> ledger_state \<Rightarrow> bool" where
  "node_ok A D L h s =
     (amounts_ok s \<and> children_ok A L h s \<and> parent_ok L h s \<and>
      reserved s = sum_list (map (unspent L) (children s)) + D h \<and>
      (released s \<and> h \<notin> A \<longrightarrow> children s = []))"

definition ledger_inv_with ::
  "nat set \<Rightarrow> (nat \<Rightarrow> row) \<Rightarrow> (nat \<rightharpoonup> ledger_state) \<Rightarrow> nat \<Rightarrow> bool" where
  "ledger_inv_with A D L n = (\<forall>h s. L h = Some s \<longrightarrow> h < n \<and> node_ok A D L h s)"

definition ledger_inv :: "'z ledger_store_scheme \<Rightarrow> bool" where
  "ledger_inv st = ledger_inv_with {} (\<lambda>_. 0) (ledgers st) (nextRef st)"

lemma inv_node:
  assumes "ledger_inv_with A D L n" "L h = Some s"
  shows "h < n" "amounts_ok s" "children_ok A L h s" "parent_ok L h s"
    "reserved s = sum_list (map (unspent L) (children s)) + D h"
    "released s \<Longrightarrow> h \<notin> A \<Longrightarrow> children s = []"
  using assms by (auto simp: ledger_inv_with_def node_ok_def)

lemma inv_intro:
  assumes "\<And>h s. L h = Some s \<Longrightarrow> h < n" "\<And>h s. L h = Some s \<Longrightarrow> amounts_ok s"
    "\<And>h s. L h = Some s \<Longrightarrow> children_ok A L h s" "\<And>h s. L h = Some s \<Longrightarrow> parent_ok L h s"
    "\<And>h s. L h = Some s \<Longrightarrow> reserved s = sum_list (map (unspent L) (children s)) + D h"
    "\<And>h s. L h = Some s \<Longrightarrow> released s \<Longrightarrow> h \<notin> A \<Longrightarrow> children s = []"
  shows "ledger_inv_with A D L n"
  using assms by (simp add: ledger_inv_with_def node_ok_def)

section \<open>Reading the store after a write\<close>

lemma ledgers_updLedger [simp]:
  "ledgers (updLedger h f st) = (ledgers st)(h := map_option f (ledgers st h))"
  by (auto simp: updLedger_def split: option.split)

lemma nextRef_updLedger [simp]: "nextRef (updLedger h f st) = nextRef st"
  by (simp add: updLedger_def split: option.split)

lemma unspent_upd:
  "unspent (L(h \<mapsto> s)) = (unspent L)(h := allocated s - spent s)"
  by (auto simp: unspent_def)

lemma unspent_Some [simp]: "L c = Some t \<Longrightarrow> unspent L c = allocated t - spent t"
  by (simp add: unspent_def)

lemma sum_list_fun_upd:
  fixes f :: "'k \<Rightarrow> row"
  assumes "distinct xs"
  shows "sum_list (map (f(h := v)) xs) =
    sum_list (map f xs) + (if h \<in> set xs then v - f h else 0)"
  using assms by (induction xs) (auto simp: algebra_simps)

lemma sum_list_removeAll:
  fixes f :: "'k \<Rightarrow> row"
  assumes "distinct xs" "h \<in> set xs"
  shows "sum_list (map f (removeAll h xs)) = sum_list (map f xs) - f h"
  using assms by (induction xs) auto

lemma sum_list_rows_nonneg:
  fixes f :: "'k \<Rightarrow> row"
  assumes "\<And>x. x \<in> set xs \<Longrightarrow> 0 \<le> f x"
  shows "0 \<le> sum_list (map f xs)"
  using assms by (induction xs) (auto intro: add_nonneg_nonneg)

lemma inv_unspent_nonneg: "ledger_inv_with A D L n \<Longrightarrow> 0 \<le> unspent L c"
proof (cases "L c")
  case (Some t)
  assume "ledger_inv_with A D L n"
  with Some have "0 \<le> reserved t" "spent t + reserved t \<le> allocated t"
    using inv_node(2) by (auto simp: amounts_ok_def)
  then have "spent t + 0 \<le> allocated t"
    by (meson add_left_mono order_trans)
  with Some show ?thesis by simp
qed (simp add: unspent_def)

lemma inv_children_sum_nonneg:
  "ledger_inv_with A D L n \<Longrightarrow> 0 \<le> sum_list (map (unspent L) xs)"
  by (rule sum_list_rows_nonneg) (rule inv_unspent_nonneg)

section \<open>A live ledger and its parent\<close>

lemma inv_parent:
  assumes "ledger_inv_with A D L n" "L h = Some s" "parentState s = Some p"
  shows "p < h" "\<exists>q. L p = Some q"
  using inv_node(4) [OF assms(1,2)] assms(3) by (auto simp: parent_ok_def)

lemma inv_live_parent:
  assumes "ledger_inv_with A D L n" "L h = Some s" "\<not> released s" "parentState s = Some p"
  shows "\<exists>q. L p = Some q \<and> h \<in> set (children q) \<and> (released q \<longrightarrow> p \<in> A)"
proof -
  from inv_node(4) [OF assms(1,2)] assms(3,4) obtain q where q: "L p = Some q" "h \<in> set (children q)"
    by (auto simp: parent_ok_def)
  moreover have "released q \<Longrightarrow> p \<in> A"
    using inv_node(6) [OF assms(1) q(1)] q(2) by (metis empty_iff list.set(1))
  ultimately show ?thesis
    by blast
qed

lemma inv_child_iff:
  assumes "ledger_inv_with A D L n" "L h = Some s" "\<not> released s" "L k = Some t"
  shows "h \<in> set (children t) \<longleftrightarrow> parentState s = Some k"
proof
  assume "h \<in> set (children t)"
  with inv_node(3) [OF assms(1,4)] assms(2) show "parentState s = Some k"
    by (auto simp: children_ok_def)
next
  assume "parentState s = Some k"
  with inv_live_parent [OF assms(1-3)] assms(4) show "h \<in> set (children t)"
    by (metis option.inject)
qed

section \<open>Changing the amounts of one live ledger\<close>

text \<open>What a change of one ledger's amounts does to the suspended amounts.\<close>

definition shifted :: "(nat \<Rightarrow> row) \<Rightarrow> nat \<Rightarrow> ledger_state \<Rightarrow> ledger_state \<Rightarrow> nat \<Rightarrow> row" where
  "shifted D h s s' k = D k + (if k = h then reserved s' - reserved s else 0) -
     (if parentState s = Some k then allocated s' - spent s' - (allocated s - spent s) else 0)"

lemma inv_amounts:
  assumes inv: "ledger_inv_with A D L n" and h: "L h = Some s" and live: "\<not> released s"
    and same: "children s' = children s" "released s' = released s" "parentState s' = parentState s"
    and ok: "amounts_ok s'"
  shows "ledger_inv_with A (shifted D h s s') (L(h \<mapsto> s')) n"
proof (rule inv_intro)
  fix k t
  assume kt: "(L(h \<mapsto> s')) k = Some t"
  show "k < n" "amounts_ok t"
    using kt inv_node(1,2) [OF inv] h ok by (auto split: if_splits)
  obtain t0 where t0: "L k = Some t0" "children t = children t0" "released t = released t0"
      "parentState t = parentState t0" "k \<noteq> h \<Longrightarrow> t = t0" "k = h \<Longrightarrow> t = s' \<and> t0 = s"
    using kt h same by (cases "k = h") auto
  show "children_ok A (L(h \<mapsto> s')) k t"
    using inv_node(3) [OF inv t0(1)] h same by (auto simp: children_ok_def t0(2))
  show "parent_ok (L(h \<mapsto> s')) k t"
    using inv_node(4) [OF inv t0(1)] h same by (auto simp: parent_ok_def t0)
  show "released t \<Longrightarrow> k \<notin> A \<Longrightarrow> children t = []"
    using inv_node(6) [OF inv t0(1)] t0 by simp
  have "distinct (children t0)"
    using inv_node(3) [OF inv t0(1)] by (simp add: children_ok_def)
  moreover have "h \<in> set (children t0) \<longleftrightarrow> parentState s = Some k"
    by (rule inv_child_iff [OF inv h live t0(1)])
  ultimately have "sum_list (map (unspent (L(h \<mapsto> s'))) (children t0)) =
      sum_list (map (unspent L) (children t0)) +
      (if parentState s = Some k then allocated s' - spent s' - (allocated s - spent s) else 0)"
    using h by (simp add: unspent_upd sum_list_fun_upd)
  with inv_node(5) [OF inv t0(1)] t0(5,6)
  show "reserved t = sum_list (map (unspent (L(h \<mapsto> s'))) (children t)) + shifted D h s s' k"
    by (cases "k = h") (auto simp: shifted_def t0(2) same)
qed

section \<open>Charging\<close>

definition pending :: "nat option \<Rightarrow> row \<Rightarrow> nat \<Rightarrow> row" where
  "pending q r k = (if q = Some k then r else 0)"

text \<open>The references above a ledger, nearest first.\<close>

inductive ancestors :: "(nat \<rightharpoonup> ledger_state) \<Rightarrow> nat option \<Rightarrow> nat list \<Rightarrow> bool" where
  root: "ancestors L None []"
| up: "L p = Some s \<Longrightarrow> ancestors L (parentState s) ps \<Longrightarrow> ancestors L (Some p) (p # ps)"

inductive_simps ancestors_simps:
  "ancestors L None ps" "ancestors L (Some p) ps"

lemma ancestors_fun: "ancestors L q ps \<Longrightarrow> ancestors L q ps' \<Longrightarrow> ps = ps'"
proof (induction arbitrary: ps' rule: ancestors.induct)
  case (up L p s ps)
  from up.prems up.hyps(1) obtain qs where "ps' = p # qs" "ancestors L (parentState s) qs"
    by (auto simp: ancestors_simps(2))
  with up.IH show ?case by blast
qed (simp add: ancestors_simps(1))

lemma ancestors_exist:
  assumes "ledger_inv_with A D L n" "L h = Some s"
  shows "\<exists>ps. ancestors L (parentState s) ps \<and> (\<forall>p\<in>set ps. p < h) \<and> distinct ps"
  using assms(2)
proof (induction h arbitrary: s rule: less_induct)
  case (less h)
  show ?case
  proof (cases "parentState s")
    case (Some p)
    from inv_parent [OF assms(1) less.prems Some] obtain q where q: "p < h" "L p = Some q"
      by auto
    from less.IH [OF this] obtain ps where
      "ancestors L (parentState q) ps" "\<forall>k\<in>set ps. k < p" "distinct ps"
      by auto
    with q Some show ?thesis
      by (intro exI [of _ "p # ps"]) (auto intro: ancestors.up)
  qed (auto intro: ancestors.root)
qed

text \<open>What a charge of \<open>r\<close> leaves in the store: \<open>spendReserved\<close> at every ancestor.\<close>

definition charged :: "row \<Rightarrow> nat list \<Rightarrow> (nat \<rightharpoonup> ledger_state) \<Rightarrow> nat \<rightharpoonup> ledger_state" where
  "charged r ps L k = (if k \<in> set ps then map_option (spendReserved r) (L k) else L k)"

lemma ancestors_spendReserved:
  assumes "ancestors L q ps"
  shows "ancestors (L(p := map_option (spendReserved r) (L p))) q ps"
  using assms
proof (induction rule: ancestors.induct)
  case (up L a s ps)
  then show ?case
    by (cases "a = p") (auto intro!: ancestors.up simp: spendReserved_def)
qed (rule ancestors.root)

lemma spendReserved_fields [simp]:
  "children (spendReserved r s) = children s" "released (spendReserved r s) = released s"
  "parentState (spendReserved r s) = parentState s" "allocated (spendReserved r s) = allocated s"
  "spent (spendReserved r s) = spent s + r" "reserved (spendReserved r s) = reserved s - r"
  "directCellsSpent (spendReserved r s) = directCellsSpent s"
  by (simp_all add: spendReserved_def)

lemma spendLocal_fields [simp]:
  "children (spendLocal r s) = children s" "released (spendLocal r s) = released s"
  "parentState (spendLocal r s) = parentState s" "allocated (spendLocal r s) = allocated s"
  "spent (spendLocal r s) = spent s + r" "reserved (spendLocal r s) = reserved s"
  "directCellsSpent (spendLocal r s) = directCellsSpent s + r_cells r"
  by (simp_all add: spendLocal_def)

text \<open>One step of the walk: the parent moves the amount from reserved to spent.\<close>

lemma inv_spendReserved:
  assumes inv: "ledger_inv_with {} (pending (Some p) r) L n" and p: "L p = Some s"
    and live: "\<not> released s" and r: "0 \<le> r"
  shows "ledger_inv_with {} (pending (parentState s) r) (L(p \<mapsto> spendReserved r s)) n"
proof -
  have res: "reserved s - r = sum_list (map (unspent L) (children s))"
    using inv_node(5) [OF inv p] by (simp add: pending_def)
  then have "0 \<le> reserved s - r"
    using inv_children_sum_nonneg [OF inv] by metis
  moreover have "0 \<le> spent s" "spent s + reserved s \<le> allocated s"
    using inv_node(2) [OF inv p] by (auto simp: amounts_ok_def)
  ultimately have "amounts_ok (spendReserved r s)"
    using r by (auto simp: amounts_ok_def algebra_simps)
  from inv_amounts [OF inv p live _ _ _ this]
  have "ledger_inv_with {} (shifted (pending (Some p) r) p s (spendReserved r s))
      (L(p \<mapsto> spendReserved r s)) n"
    by simp
  moreover have "shifted (pending (Some p) r) p s (spendReserved r s) = pending (parentState s) r"
    using inv_parent(1) [OF inv p] by (fastforce simp: shifted_def pending_def)
  ultimately show ?thesis by simp
qed

lemma chargeAncestors_spec:
  assumes "ancestors (ledgers st) q ps" "length ps \<le> fuel" "0 \<le> r" "distinct ps"
    and "ledger_inv_with {} (pending q r) (ledgers st) (nextRef st)"
    and "\<And>p s. q = Some p \<Longrightarrow> ledgers st p = Some s \<Longrightarrow> \<not> released s"
  shows "\<exists>st'. chargeAncestors fuel r q st = (st', Inr ()) \<and> nextRef st' = nextRef st \<and>
    ledgers st' = charged r ps (ledgers st) \<and> ledger_inv st'"
  using assms
proof (induction ps arbitrary: q fuel st rule: list.induct)
  case Nil
  then have "q = None"
    by (auto elim: ancestors.cases)
  moreover have "pending None r = (\<lambda>_. 0)" "charged r [] (ledgers st) = ledgers st"
    by (auto simp: pending_def charged_def)
  ultimately show ?case
    using Nil.prems(5) by (auto simp: ledger_inv_def)
next
  case (Cons p ps)
  from Cons.prems(1) obtain s where q: "q = Some p" and s: "ledgers st p = Some s"
    and anc: "ancestors (ledgers st) (parentState s) ps"
    by (auto elim: ancestors.cases)
  with Cons.prems(6) have live: "\<not> released s" by simp
  from Cons.prems(2) obtain m where m: "fuel = Suc m" "length ps \<le> m"
    by (cases fuel) auto
  define st1 where "st1 = updLedger p (spendReserved r) st"
  have L1: "ledgers st1 = (ledgers st)(p \<mapsto> spendReserved r s)"
    using s by (simp add: st1_def)
  have inv1: "ledger_inv_with {} (pending (parentState s) r) (ledgers st1) (nextRef st1)"
    using inv_spendReserved [OF Cons.prems(5) [unfolded q] s live Cons.prems(3)]
    unfolding L1 by (simp add: st1_def)
  have anc1: "ancestors (ledgers st1) (parentState s) ps"
    using ancestors_spendReserved [OF anc, of p r] s by (simp add: L1)
  have live1: "\<not> released t" if "parentState s = Some k" "ledgers st1 k = Some t" for k t
    using inv_live_parent [of "{}" _ "ledgers st1" _ p "spendReserved r s" k] inv1 that live
    by (auto simp: L1 split: if_splits)
  have "distinct ps" using Cons.prems(4) by simp
  have "\<exists>st'. chargeAncestors m r (parentState s) st1 = (st', Inr ()) \<and>
      nextRef st' = nextRef st1 \<and> ledgers st' = charged r ps (ledgers st1) \<and> ledger_inv st'"
    by (rule Cons.IH [OF anc1 m(2) Cons.prems(3) \<open>distinct ps\<close> inv1]) (rule live1)
  then obtain st' where
    st': "chargeAncestors m r (parentState s) st1 = (st', Inr ())" "nextRef st' = nextRef st1"
      "ledgers st' = charged r ps (ledgers st1)" "ledger_inv st'"
    by auto
  have "charged r ps (ledgers st1) = charged r (p # ps) (ledgers st)"
    using Cons.prems(4) s by (auto simp: charged_def L1)
  with st' show ?case
    by (simp add: q m(1) s st1_def)
qed

lemma readRow_nonneg: "readRow options = Inr r \<Longrightarrow> 0 \<le> r"
  by (auto simp: readRow_def invalidE_def result_simps checkU32_Inr checkU64_Inr less_eq_row_def
      split: sum.splits)

lemma readRow_Inl: "readRow options = Inl e \<Longrightarrow> e = Throws INVALID_ROUTE"
  by (auto simp: readRow_def invalidE_def result_simps dest: readers_Inl split: sum.splits)

lemma getLedger_Some: "getLedger st handle = Some (h, s) \<longleftrightarrow> handle = JRef h \<and> ledgers st h = Some s"
  by (cases handle) (auto simp: getLedger_def)

lemma ancestors_upd_local:
  assumes "ancestors L q ps" "h \<notin> set ps"
  shows "ancestors (L(h \<mapsto> s')) q ps"
  using assms by (induction rule: ancestors.induct) (auto intro: ancestors.intros)

lemma inv_spendLocal:
  assumes inv: "ledger_inv_with {} (\<lambda>_. 0) L n" and h: "L h = Some s" and live: "\<not> released s"
    and r: "0 \<le> r" "r \<le> remaining s"
  shows "ledger_inv_with {} (pending (parentState s) r) (L(h \<mapsto> spendLocal r s)) n"
proof -
  have "0 \<le> spent s" "0 \<le> reserved s"
    using inv_node(2) [OF inv h] by (auto simp: amounts_ok_def)
  with r have "amounts_ok (spendLocal r s)"
    by (auto simp: amounts_ok_def remaining_def algebra_simps)
  from inv_amounts [OF inv h live _ _ _ this]
  have "ledger_inv_with {} (shifted (\<lambda>_. 0) h s (spendLocal r s)) (L(h \<mapsto> spendLocal r s)) n"
    by simp
  moreover have "shifted (\<lambda>_. 0) h s (spendLocal r s) = pending (parentState s) r"
    by (auto simp: shifted_def pending_def)
  ultimately show ?thesis by simp
qed

lemma chargePeerLedger_spec:
  assumes inv: "ledger_inv st" and h: "getLedger st handle = Some (h, s)" and live: "\<not> released s"
    and r: "readRow options = Inr r" "r \<le> remaining s"
  obtains ps st' where "chargePeerLedger handle options st = (st', Inr ())"
    "ancestors (ledgers st) (parentState s) ps" "h \<notin> set ps" "nextRef st' = nextRef st"
    "ledgers st' = charged r ps ((ledgers st)(h \<mapsto> spendLocal r s))" "ledger_inv st'"
proof -
  let ?L = "(ledgers st)(h \<mapsto> spendLocal r s)"
  define st1 where "st1 = updLedger h (spendLocal r) st"
  from h have L: "ledgers st h = Some s"
    by (simp add: getLedger_Some)
  then have st1: "ledgers st1 = ?L" "nextRef st1 = nextRef st"
    by (simp_all add: st1_def)
  have inv0: "ledger_inv_with {} (\<lambda>_. 0) (ledgers st) (nextRef st)"
    using inv by (simp add: ledger_inv_def)
  have nonneg: "0 \<le> r" by (rule readRow_nonneg [OF r(1)])
  from ancestors_exist [OF inv0 L] obtain ps where
    ps: "ancestors (ledgers st) (parentState s) ps" "\<forall>p\<in>set ps. p < h" "distinct ps"
    by auto
  have "set ps \<subseteq> {..<nextRef st}"
    using ps(2) inv_node(1) [OF inv0 L] by auto
  then have "length ps \<le> nextRef st"
    using ps(3) card_mono [of "{..<nextRef st}" "set ps"] by (simp add: distinct_card)
  moreover have anc1: "ancestors (ledgers st1) (parentState s) ps"
    using ancestors_upd_local [OF ps(1)] ps(2) by (auto simp: st1)
  moreover have inv1: "ledger_inv_with {} (pending (parentState s) r) (ledgers st1) (nextRef st1)"
    using inv_spendLocal [OF inv0 L live nonneg r(2)] by (simp only: st1)
  moreover have "\<not> released t" if "parentState s = Some p" "ledgers st1 p = Some t" for p t
    using inv_live_parent [OF inv0 L live that(1)] that(2) inv_parent(1) [OF inv0 L that(1)]
    by (auto simp: st1)
  ultimately obtain st' where "chargeAncestors (nextRef st) r (parentState s) st1 = (st', Inr ())"
    "nextRef st' = nextRef st1" "ledgers st' = charged r ps (ledgers st1)" "ledger_inv st'"
    using chargeAncestors_spec [of st1 "parentState s" ps "nextRef st" r] nonneg ps(3) by blast
  with ps h live r show ?thesis
    by (intro that [of st' ps]) (auto simp: chargePeerLedger_def st1 st1_def [symmetric])
qed

lemma chargePeerLedger_refused:
  assumes "\<not> (\<exists>h s r. getLedger st handle = Some (h, s) \<and> \<not> released s \<and>
    readRow options = Inr r \<and> r \<le> remaining s)"
  shows "chargePeerLedger handle options st = (st, Inl (Throws INVALID_ROUTE))"
  using assms readRow_Inl [of options]
  by (cases "readRow options") (auto simp: chargePeerLedger_def split: option.splits)

section \<open>Creating and reserving\<close>

lemma inv_new_root:
  assumes "ledger_inv_with {} (\<lambda>_. 0) L n" "0 \<le> r"
  shows "ledger_inv_with {} (\<lambda>_. 0) (L(n \<mapsto> freshLedger r None)) (Suc n)"
proof (rule inv_intro)
  fix k t
  assume kt: "(L(n \<mapsto> freshLedger r None)) k = Some t"
  have fresh: "L k = Some t \<Longrightarrow> k \<noteq> n" for k t
    using inv_node(1) [OF assms(1)] by fastforce
  show "k < Suc n" "amounts_ok t" "released t \<Longrightarrow> k \<notin> {} \<Longrightarrow> children t = []"
    using kt assms(2) inv_node(1,2,6) [OF assms(1)]
    by (fastforce simp: freshLedger_def amounts_ok_def split: if_splits)+
  show "children_ok {} (L(n \<mapsto> freshLedger r None)) k t"
    using kt inv_node(3) [OF assms(1), of k t] fresh
    by (fastforce simp: freshLedger_def children_ok_def split: if_splits)
  show "parent_ok (L(n \<mapsto> freshLedger r None)) k t"
    using kt inv_node(4) [OF assms(1), of k t] fresh
    by (fastforce simp: freshLedger_def parent_ok_def split: if_splits)
  have "n \<notin> set (children t)"
    using kt inv_node(3) [OF assms(1), of k t] fresh
    by (fastforce simp: freshLedger_def children_ok_def split: if_splits)
  then have same: "map (unspent (L(n \<mapsto> freshLedger r None))) (children t) = map (unspent L) (children t)"
    by (auto simp: unspent_def)
  have "reserved t = sum_list (map (unspent L) (children t))"
    using kt inv_node(5) [OF assms(1), of k t]
    by (auto simp: freshLedger_def split: if_splits)
  then show "reserved t = sum_list (map (unspent (L(n \<mapsto> freshLedger r None))) (children t)) + 0"
    by (simp only: same add_0_right)
qed

lemma createPeerLedger_inv:
  assumes "ledger_inv st"
  shows "ledger_inv (fst (createPeerLedger options st))"
proof (cases "readRow options")
  case (Inr r)
  from inv_new_root [OF assms [unfolded ledger_inv_def] readRow_nonneg [OF this]] Inr show ?thesis
    by (simp add: createPeerLedger_def newLedger_def ledger_inv_def)
qed (use assms in \<open>simp add: createPeerLedger_def\<close>)

text \<open>The parent after a reservation.\<close>

definition adopt :: "row \<Rightarrow> nat \<Rightarrow> ledger_state \<Rightarrow> ledger_state" where
  "adopt r c s = s\<lparr>reserved := reserved s + r, children := children s @ [c]\<rparr>"

lemma adopt_fields [simp]:
  "children (adopt r c s) = children s @ [c]" "released (adopt r c s) = released s"
  "parentState (adopt r c s) = parentState s" "allocated (adopt r c s) = allocated s"
  "spent (adopt r c s) = spent s" "reserved (adopt r c s) = reserved s + r"
  "directCellsSpent (adopt r c s) = directCellsSpent s"
  by (simp_all add: adopt_def)

lemma inv_new_child:
  assumes inv: "ledger_inv_with {} (\<lambda>_. 0) L n" and p: "L p = Some s" "\<not> released s"
    and r: "0 \<le> r" "r \<le> remaining s"
  shows "ledger_inv_with {} (\<lambda>_. 0) (L(n \<mapsto> freshLedger r (Some p), p \<mapsto> adopt r n s)) (Suc n)"
    (is "ledger_inv_with {} _ ?L _")
proof (rule inv_intro)
  have pn: "p < n" and n: "L n = None"
    using inv_node(1) [OF inv p(1)] inv_node(1) [OF inv, of n] by (cases "L n"; auto)+
  fix k t
  assume "?L k = Some t"
  then consider (new) "k = n" "t = freshLedger r (Some p)" | (parent) "k = p" "t = adopt r n s"
    | (other) "k \<noteq> n" "k \<noteq> p" "L k = Some t"
    using pn by (auto split: if_splits)
  note kt = this
  have old: "\<exists>t'. ?L c = Some t' \<and> parentState t' = parentState t \<and> released t' = released t \<and>
      (c = p \<or> t' = t) \<and> set (children t) \<subseteq> set (children t')" if "L c = Some t" for c t
    using that p(1) n by (cases "c = p") auto
  show "k < Suc n"
    using kt pn inv_node(1) [OF inv] by cases fastforce+
  have "0 \<le> spent s" "0 \<le> reserved s"
    using inv_node(2) [OF inv p(1)] by (auto simp: amounts_ok_def)
  with kt show "amounts_ok t"
    using r inv_node(2) [OF inv]
    by cases (auto simp: amounts_ok_def freshLedger_def remaining_def algebra_simps)
  have kids: "children_ok {} L k t'" "\<not> released t' \<or> children t' = []" if "L k = Some t'" for k t'
    using inv_node(3,6) [OF inv that] by auto
  have nkid: "n \<notin> set (children t')" if "L k = Some t'" for k t'
    using kids(1) [OF that] n by (auto simp: children_ok_def)
  show "children_ok {} ?L k t"
    using kt
  proof cases
    case parent
    then show ?thesis
      using kids(1) [OF p(1)] nkid [OF p(1)] pn old
      by (fastforce simp: children_ok_def freshLedger_def)
  next
    case other
    then show ?thesis
      using kids(1) [OF other(3)] old by (fastforce simp: children_ok_def)
  qed (simp add: children_ok_def freshLedger_def)
  show "parent_ok ?L k t"
    using kt
  proof cases
    case parent
    then show ?thesis
      using inv_node(4) [OF inv p(1)] old by (fastforce simp: parent_ok_def)
  next
    case other
    then show ?thesis
      using inv_node(4) [OF inv other(3)] old by (fastforce simp: parent_ok_def)
  qed (use pn in \<open>auto simp: parent_ok_def freshLedger_def\<close>)
  show "released t \<Longrightarrow> k \<notin> {} \<Longrightarrow> children t = []"
    using kt p(2) inv_node(6) [OF inv] by cases (auto simp: freshLedger_def)
  have same: "map (unspent ?L) (children t') = map (unspent L) (children t')" if "L k = Some t'" for k t'
    using nkid [OF that] p(1) by (auto simp: unspent_def)
  show "reserved t = sum_list (map (unspent ?L) (children t)) + 0"
    using kt
  proof cases
    case parent
    have "unspent ?L n = r"
      using pn by (simp add: unspent_def freshLedger_def)
    with parent show ?thesis
      using inv_node(5) [OF inv p(1)] by (simp add: same [OF p(1)] del: fun_upd_apply)
  next
    case other
    then show ?thesis
      using inv_node(5) [OF inv other(3)] by (simp add: same [OF other(3)] del: fun_upd_apply)
  qed (simp add: freshLedger_def)
qed

lemma reservePeerLedger_spec:
  assumes "getLedger st handle = Some (p, s)" "\<not> released s" "readRow options = Inr r"
    "r \<le> remaining s" "ledger_inv st"
  obtains st' where "reservePeerLedger handle options st = (st', Inr (JRef (nextRef st)))"
    "ledgers st' = (ledgers st)(nextRef st \<mapsto> freshLedger r (Some p), p \<mapsto> adopt r (nextRef st) s)"
    "nextRef st' = Suc (nextRef st)" "ledger_inv st'"
proof -
  from assms(1) have p: "ledgers st p = Some s"
    by (simp add: getLedger_Some)
  have inv0: "ledger_inv_with {} (\<lambda>_. 0) (ledgers st) (nextRef st)"
    using assms(5) by (simp add: ledger_inv_def)
  have "p < nextRef st"
    using inv_node(1) [OF inv0 p] .
  let ?st = "fst (reservePeerLedger handle options st)"
  have st': "reservePeerLedger handle options st = (?st, Inr (JRef (nextRef st)))"
    "ledgers ?st = (ledgers st)(nextRef st \<mapsto> freshLedger r (Some p), p \<mapsto> adopt r (nextRef st) s)"
    "nextRef ?st = Suc (nextRef st)"
    using assms(1-4) p \<open>p < nextRef st\<close>
    by (auto simp: reservePeerLedger_def newLedger_def adopt_def Let_def)
  moreover have "ledger_inv ?st"
    using inv_new_child [OF inv0 p assms(2) readRow_nonneg [OF assms(3)] assms(4)]
    unfolding ledger_inv_def st'(2,3) .
  ultimately show ?thesis
    by (rule that)
qed

lemma reservePeerLedger_refused:
  assumes "\<not> (\<exists>p s r. getLedger st handle = Some (p, s) \<and> \<not> released s \<and>
    readRow options = Inr r \<and> r \<le> remaining s)"
  shows "reservePeerLedger handle options st = (st, Inl (Throws INVALID_ROUTE))"
  using assms readRow_Inl [of options]
  by (cases "readRow options") (auto simp: reservePeerLedger_def split: option.splits)

end
