(* ===== verification/Ledger_Release.thy ===== *)
theory Ledger_Release
  imports Ledger_Invariant
begin

text \<open>
  Releasing a ledger of \<^verbatim>\<open>peer-ledger.js\<close>: the recursion over the children returns within the
  number of handles ever made, keeps the conservation law, gives the unspent part back to the parent,
  leaves every ledger outside the released subtree alone, and forgets nothing that was spent.
\<close>

section \<open>What a release may change\<close>

definition child_of :: "(nat \<rightharpoonup> ledger_state) \<Rightarrow> (nat \<times> nat) set" where
  "child_of L = {(p, c). \<exists>t. L c = Some t \<and> parentState t = Some p}"

abbreviation descendant :: "(nat \<rightharpoonup> ledger_state) \<Rightarrow> nat \<Rightarrow> nat \<Rightarrow> bool" where
  "descendant L h k \<equiv> (h, k) \<in> (child_of L)\<^sup>*"

text \<open>Every ledger keeps its allocation, its spending and its parent; releases are not undone.\<close>

definition history_kept :: "ledger_state \<Rightarrow> ledger_state \<Rightarrow> bool" where
  "history_kept t t' = (allocated t' = allocated t \<and> spent t' = spent t \<and>
     directCellsSpent t' = directCellsSpent t \<and> parentState t' = parentState t \<and>
     (released t \<longrightarrow> released t'))"

definition kept :: "(nat \<rightharpoonup> ledger_state) \<Rightarrow> (nat \<rightharpoonup> ledger_state) \<Rightarrow> bool" where
  "kept L L' = (\<forall>k. rel_option history_kept (L k) (L' k))"

lemma history_kept_trans: "history_kept s t \<Longrightarrow> history_kept t u \<Longrightarrow> history_kept s u"
  by (auto simp: history_kept_def)

lemma keptD: "kept L L' \<Longrightarrow> L k = Some t \<Longrightarrow> \<exists>t'. L' k = Some t' \<and> history_kept t t'"
  unfolding kept_def by (metis option_rel_Some1)

lemma keptD2: "kept L L' \<Longrightarrow> L' k = Some t' \<Longrightarrow> \<exists>t. L k = Some t \<and> history_kept t t'"
  unfolding kept_def by (metis option_rel_Some2)

lemma keptN: "kept L L' \<Longrightarrow> L k = None \<Longrightarrow> L' k = None"
  unfolding kept_def by (metis option.rel_distinct(1) option.exhaust)

lemma kept_refl [simp]: "kept L L"
  by (simp add: kept_def history_kept_def option.rel_refl)

lemma kept_trans: "kept L L' \<Longrightarrow> kept L' L'' \<Longrightarrow> kept L L''"
  unfolding kept_def
proof (intro allI)
  fix k
  assume "\<forall>k. rel_option history_kept (L k) (L' k)" "\<forall>k. rel_option history_kept (L' k) (L'' k)"
  then have "rel_option history_kept (L k) (L' k)" "rel_option history_kept (L' k) (L'' k)"
    by auto
  then show "rel_option history_kept (L k) (L'' k)"
    by (cases "L k"; cases "L' k"; cases "L'' k") (auto intro: history_kept_trans)
qed

lemma kept_child_of:
  assumes "kept L L'"
  shows "child_of L' = child_of L"
  using keptD [OF assms] keptD2 [OF assms] unfolding child_of_def history_kept_def by fastforce

lemma kept_unspent: "kept L L' \<Longrightarrow> unspent L' = unspent L"
proof
  fix k
  assume "kept L L'"
  then show "unspent L' k = unspent L k"
    using keptD [of L L' k] keptN [of L L' k]
    by (cases "L k") (auto simp: unspent_def history_kept_def)
qed

lemma kept_upd:
  "(\<And>t. L h = Some t \<Longrightarrow> history_kept t (f t)) \<Longrightarrow> kept L (L(h := map_option f (L h)))"
  by (auto simp: kept_def history_kept_def option.rel_map option.rel_refl
      intro!: option.rel_refl_strong)

lemma descendant_ge:
  assumes "ledger_inv_with A D L n" "descendant L h k"
  shows "h \<le> k"
  using assms(2)
proof (induction rule: rtrancl_induct)
  case (step j k)
  then obtain t where "L k = Some t" "parentState t = Some j"
    by (auto simp: child_of_def)
  from inv_parent(1) [OF assms(1) this] step.IH show ?case by simp
qed simp

section \<open>The first and the last step\<close>

text \<open>Marking a live ledger suspends the law at it.\<close>

lemma inv_mark:
  assumes inv: "ledger_inv_with A (\<lambda>_. 0) L n" and h: "L h = Some s"
  shows "ledger_inv_with (insert h A) (\<lambda>_. 0) (L(h \<mapsto> s\<lparr>released := True\<rparr>)) n"
proof (rule inv_intro)
  let ?L = "L(h \<mapsto> s\<lparr>released := True\<rparr>)"
  fix k t
  assume kt: "?L k = Some t"
  obtain t0 where t0: "L k = Some t0" "children t = children t0" "amounts_ok t = amounts_ok t0"
      "parentState t = parentState t0" "reserved t = reserved t0" "k \<noteq> h \<Longrightarrow> t = t0"
      "\<not> released t \<Longrightarrow> \<not> released t0"
    using kt h by (cases "k = h") (auto simp: amounts_ok_def)
  show "k < n" "amounts_ok t"
    using inv_node(1,2) [OF inv t0(1)] t0(3) by auto
  show "children_ok (insert h A) ?L k t"
    using inv_node(3) [OF inv t0(1)] h by (auto simp: children_ok_def t0(2))
  show "parent_ok ?L k t"
    using inv_node(4) [OF inv t0(1)] h t0(4,7) by (auto simp: parent_ok_def)
  show "released t \<Longrightarrow> k \<notin> insert h A \<Longrightarrow> children t = []"
    using inv_node(6) [OF inv t0(1)] t0(6) by auto
  have "unspent ?L = unspent L"
    using h by (auto simp: unspent_def)
  then show "reserved t = sum_list (map (unspent ?L) (children t)) + 0"
    using inv_node(5) [OF inv t0(1)] by (simp only: t0(2,5))
qed

text \<open>A marked ledger without children leaves its parent with its unspent part returned.\<close>

definition disown :: "nat \<Rightarrow> row \<Rightarrow> ledger_state \<Rightarrow> ledger_state" where
  "disown h r q = q\<lparr>reserved := reserved q - r, children := removeAll h (children q)\<rparr>"

lemma disown_fields [simp]:
  "children (disown h r q) = removeAll h (children q)" "released (disown h r q) = released q"
  "parentState (disown h r q) = parentState q" "allocated (disown h r q) = allocated q"
  "spent (disown h r q) = spent q" "reserved (disown h r q) = reserved q - r"
  "directCellsSpent (disown h r q) = directCellsSpent q"
  by (simp_all add: disown_def)

lemma inv_unmark_root:
  assumes inv: "ledger_inv_with (insert h A) (\<lambda>_. 0) L n" and h: "L h = Some s"
    and s: "children s = []" "parentState s = None"
  shows "ledger_inv_with A (\<lambda>_. 0) L n"
proof (rule inv_intro)
  fix k t
  assume kt: "L k = Some t"
  show "k < n" "amounts_ok t" "parent_ok L k t"
      "reserved t = sum_list (map (unspent L) (children t)) + 0"
    using inv_node [OF inv kt] by auto
  show "released t \<Longrightarrow> k \<notin> A \<Longrightarrow> children t = []"
    using inv_node(6) [OF inv kt] kt h s by (cases "k = h") auto
  show "children_ok A L k t"
    using inv_node(3) [OF inv kt] h s(2) by (fastforce simp: children_ok_def)
qed

lemma inv_unmark_child:
  assumes inv: "ledger_inv_with (insert h A) (\<lambda>_. 0) L n" and h: "L h = Some s"
    and s: "children s = []" "parentState s = Some p" "released s"
    and p: "L p = Some q" "h \<in> set (children q)"
  shows "ledger_inv_with A (\<lambda>_. 0) (L(p \<mapsto> disown h (allocated s - spent s) q)) n"
    (is "ledger_inv_with A _ ?L n")
proof (rule inv_intro)
  have ph: "p < h"
    using inv_parent(1) [OF inv h s(2)] .
  have dist: "distinct (children q)"
    using inv_node(3) [OF inv p(1)] by (simp add: children_ok_def)
  have uns: "unspent ?L = unspent L"
    using p(1) by (auto simp: unspent_def)
  have "reserved q = sum_list (map (unspent L) (children q))"
    using inv_node(5) [OF inv p(1)] by simp
  then have res: "reserved q - (allocated s - spent s) =
      sum_list (map (unspent L) (removeAll h (children q)))"
    using sum_list_removeAll [OF dist p(2), of "unspent L"] h by simp
  fix k t
  assume kt: "?L k = Some t"
  then consider (parent) "k = p" "t = disown h (allocated s - spent s) q" | (other) "k \<noteq> p" "L k = Some t"
    by (auto split: if_splits)
  note kt = this
  have lookup: "\<exists>t'. ?L c = Some t' \<and> parentState t' = parentState t \<and> released t' = released t \<and>
      (c \<noteq> p \<longrightarrow> t' = t) \<and> set (children t) - {h} \<subseteq> set (children t')" if "L c = Some t" for c t
    using that p(1) by (cases "c = p") auto
  show "k < n"
    using kt inv_node(1) [OF inv] p(1) by cases auto
  have "0 \<le> allocated s - spent s"
    using inv_unspent_nonneg [OF inv, of h] h by simp
  then have "spent q + (reserved q - (allocated s - spent s)) \<le> spent q + reserved q"
    by simp
  also have "spent q + reserved q \<le> allocated q"
    using inv_node(2) [OF inv p(1)] by (simp add: amounts_ok_def)
  finally have "amounts_ok (disown h (allocated s - spent s) q)"
    using inv_node(2) [OF inv p(1)] inv_children_sum_nonneg [OF inv, of "removeAll h (children q)"]
    unfolding amounts_ok_def disown_fields res by simp
  with kt show "amounts_ok t"
    using inv_node(2) [OF inv] by cases auto
  have notin: "h \<notin> set (children t)"
    using kt
  proof cases
    case other
    then show ?thesis
      using inv_node(3) [OF inv other(2)] h s(2) by (auto simp: children_ok_def)
  qed simp
  obtain t0 where t0: "L k = Some t0" "set (children t) \<subseteq> set (children t0)" "distinct (children t)"
      "parentState t = parentState t0" "released t = released t0"
    using kt p(1) dist inv_node(3) [OF inv] by cases (auto simp: children_ok_def distinct_removeAll)
  show "children_ok A ?L k t"
    unfolding children_ok_def
  proof (intro conjI ballI)
    fix c
    assume c: "c \<in> set (children t)"
    with t0(2) inv_node(3) [OF inv t0(1)] obtain u where
      u: "k < c" "L c = Some u" "parentState u = Some k" "released u \<longrightarrow> c \<in> insert h A"
      by (auto simp: children_ok_def)
    show "k < c" by (rule u)
    from lookup [OF u(2)] u c notin show "\<exists>t'. ?L c = Some t' \<and> parentState t' = Some k \<and>
        (released t' \<longrightarrow> c \<in> A)"
      by auto
  qed (rule t0(3))
  show "parent_ok ?L k t"
    unfolding parent_ok_def
  proof (intro allI impI)
    fix a
    assume "parentState t = Some a"
    then have "parentState t0 = Some a"
      by (simp only: t0(4))
    with inv_node(4) [OF inv t0(1)] obtain b where
      b: "a < k" "L a = Some b" "\<not> released t0 \<longrightarrow> k \<in> set (children b)"
      by (auto simp: parent_ok_def)
    moreover have "\<not> released t0 \<Longrightarrow> k \<noteq> h"
      using t0(1) h s(3) by auto
    moreover obtain b' where "?L a = Some b'" "set (children b) - {h} \<subseteq> set (children b')"
      using lookup [OF b(2)] by blast
    ultimately show "a < k \<and> (\<exists>b. ?L a = Some b \<and> (\<not> released t \<longrightarrow> k \<in> set (children b)))"
      using t0(5) by blast
  qed
  show "children t = []" if "released t" "k \<notin> A"
    using kt
  proof cases
    case parent
    with that ph have "released q" "p \<notin> insert h A"
      by auto
    from inv_node(6) [OF inv p(1) this] p(2) show ?thesis
      by simp
  next
    case other
    then show ?thesis
      using inv_node(6) [OF inv other(2) that(1)] that(2) h s(1) by (cases "k = h") auto
  qed
  show "reserved t = sum_list (map (unspent ?L) (children t)) + 0"
    unfolding uns using kt inv_node(5) [OF inv] res by cases auto
qed

section \<open>The recursion\<close>

text \<open>
  A release of \<open>h\<close> seen from outside: history is kept, \<open>h\<close> ends released, its parent is changed
  as \<open>disown\<close> says and nothing but descendants of \<open>h\<close> and the parent is touched.
\<close>

definition release_effect ::
  "(nat \<rightharpoonup> ledger_state) \<Rightarrow> nat \<Rightarrow> ledger_state \<Rightarrow> (nat \<rightharpoonup> ledger_state) \<Rightarrow> bool" where
  "release_effect L h s L' =
     (kept L L' \<and> (\<exists>s'. L' h = Some s' \<and> released s') \<and>
      (\<forall>p q. parentState s = Some p \<longrightarrow> L p = Some q \<longrightarrow>
         L' p = Some (disown h (allocated s - spent s) q)) \<and>
      (\<forall>k. \<not> descendant L h k \<longrightarrow> parentState s \<noteq> Some k \<longrightarrow> L' k = L k))"

definition same_store :: "'z ledger_store_scheme \<Rightarrow> 'z ledger_store_scheme \<Rightarrow> bool" where
  "same_store st st' = (st' = st\<lparr>ledgers := ledgers st'\<rparr>)"

lemma same_store_trans: "same_store a b \<Longrightarrow> same_store b c \<Longrightarrow> same_store a c"
  unfolding same_store_def by (cases a; cases b; cases c) simp

lemma same_store_nextRef: "same_store a b \<Longrightarrow> nextRef b = nextRef a"
  unfolding same_store_def by (cases a; cases b) simp

lemma same_store_upd [simp]: "same_store st (updLedger h f st)"
  by (cases st) (auto simp: same_store_def updLedger_def split: option.splits)

lemma ledgers_detach:
  assumes "ledgers st h = Some s" "children s = []"
  shows "ledgers (detachLedger h st) = (case parentState s of
      None \<Rightarrow> ledgers st
    | Some p \<Rightarrow> (ledgers st)(p := map_option (disown h (allocated s - spent s)) (ledgers st p)))"
proof -
  have "s\<lparr>children := []\<rparr> = s"
    using assms(2) by (cases s) simp
  then have "ledgers (updLedger h (\<lambda>s. s\<lparr>children := []\<rparr>) st) = ledgers st"
    using assms(1) by auto
  then show ?thesis
    using assms(1) by (auto simp: detachLedger_def Let_def disown_def [abs_def] split: option.split)
qed

lemma same_store_detach [simp]: "same_store st (detachLedger h st)"
proof -
  have "same_store st (updLedger p f (updLedger h g st))" for p f g
    by (rule same_store_trans [of _ "updLedger h g st"]) auto
  then show ?thesis
    by (auto simp: detachLedger_def Let_def split: option.split)
qed

text \<open>The loop over the children of a marked ledger \<open>h\<close>.\<close>

definition loop_effect :: "nat set \<Rightarrow> nat \<Rightarrow> 'z ledger_store_scheme \<Rightarrow> 'z ledger_store_scheme \<Rightarrow> bool" where
  "loop_effect A h st st' =
     (same_store st st' \<and> ledger_inv_with (insert h A) (\<lambda>_. 0) (ledgers st') (nextRef st) \<and>
      kept (ledgers st) (ledgers st') \<and>
      (\<exists>s. ledgers st' h = Some s \<and> children s = []) \<and>
      (\<forall>k. k \<noteq> h \<longrightarrow> \<not> descendant (ledgers st) h k \<longrightarrow> ledgers st' k = ledgers st k))"

lemma release_loop:
  assumes step: "\<And>c t (st :: 'z ledger_store_scheme). nextRef st = n \<Longrightarrow>
      ledger_inv_with (insert h A) (\<lambda>_. 0) (ledgers st) (nextRef st) \<Longrightarrow> ledgers st c = Some t \<Longrightarrow> \<not> released t \<Longrightarrow> h < c \<Longrightarrow>
      \<exists>st'. f c st = (st', Inr True) \<and> same_store st st' \<and>
        ledger_inv_with (insert h A) (\<lambda>_. 0) (ledgers st') (nextRef st) \<and>
        release_effect (ledgers st) c t (ledgers st')"
    and A: "\<forall>a\<in>A. a < h"
  shows "ledger_inv_with (insert h A) (\<lambda>_. 0) (ledgers st) (nextRef st) \<Longrightarrow>
    ledgers st h = Some s \<Longrightarrow> children s = cs \<Longrightarrow> nextRef st = n \<Longrightarrow>
    \<exists>st'. forS f cs st = (st', Inr ()) \<and> loop_effect A h st st'"
proof (induction cs arbitrary: st s)
  case Nil
  then show ?case
    by (auto simp: loop_effect_def same_store_def)
next
  case (Cons c cs)
  let ?L = "ledgers st"
  from inv_node(3) [OF Cons.prems(1,2)] Cons.prems(3) obtain t where
    t: "h < c" "?L c = Some t" "parentState t = Some h" "released t \<longrightarrow> c \<in> insert h A" "c \<notin> set cs"
    by (auto simp: children_ok_def)
  have "\<not> released t"
    using t(1,4) A by auto
  from step [OF Cons.prems(4,1) t(2) this t(1)] obtain st1 where
    st1: "f c st = (st1, Inr True)" "same_store st st1"
      "ledger_inv_with (insert h A) (\<lambda>_. 0) (ledgers st1) (nextRef st)"
      "release_effect ?L c t (ledgers st1)"
    by blast
  have n1: "nextRef st1 = nextRef st"
    by (rule same_store_nextRef [OF st1(2)])
  have h1: "ledgers st1 h = Some (disown c (allocated t - spent t) s)"
    using st1(4) t(3) Cons.prems(2) by (simp add: release_effect_def)
  moreover have "children (disown c (allocated t - spent t) s) = cs"
    using Cons.prems(3) t(5) by simp
  ultimately obtain st' where st': "forS f cs st1 = (st', Inr ())" "loop_effect A h st1 st'"
    using Cons.IH [of st1] st1(3) n1 Cons.prems(4) by auto
  have k1: "kept ?L (ledgers st1)"
    using st1(4) by (simp add: release_effect_def)
  have sub: "descendant ?L h k" if "descendant ?L c k" for k
    using that t(2,3) by (auto simp: child_of_def intro: converse_rtrancl_into_rtrancl)
  have frame: "ledgers st' k = ?L k" if "k \<noteq> h" "\<not> descendant ?L h k" for k
  proof -
    have "ledgers st' k = ledgers st1 k"
      using st'(2) that by (simp add: loop_effect_def kept_child_of [OF k1])
    also have "\<dots> = ?L k"
      using st1(4) that sub t(3) by (auto simp: release_effect_def)
    finally show ?thesis .
  qed
  have "loop_effect A h st st'"
    using st'(2) st1(2) k1 frame n1
    by (auto simp: loop_effect_def intro: same_store_trans kept_trans)
  then show ?case
    using st1(1) st'(1) by simp
qed

lemma release_finish:
  assumes inv: "ledger_inv_with A (\<lambda>_. 0) (ledgers st) (nextRef st)" and h: "ledgers st h = Some s"
    and live: "\<not> released s"
    and loop: "loop_effect A h (updLedger h (\<lambda>s. s\<lparr>released := True\<rparr>) st) st2"
  shows "ledger_inv_with A (\<lambda>_. 0) (ledgers (detachLedger h st2)) (nextRef st)"
    and "release_effect (ledgers st) h s (ledgers (detachLedger h st2))"
proof -
  let ?L = "ledgers st" and ?L2 = "ledgers st2" and ?r = "allocated s - spent s"
  define L1 where "L1 = ?L(h \<mapsto> s\<lparr>released := True\<rparr>)"
  have L1: "ledgers (updLedger h (\<lambda>s. s\<lparr>released := True\<rparr>) st) = L1"
    using h by (simp add: L1_def)
  have k1: "kept ?L L1"
    unfolding L1 [symmetric] ledgers_updLedger by (rule kept_upd) (simp add: history_kept_def)
  have k12: "kept L1 ?L2" and inv2: "ledger_inv_with (insert h A) (\<lambda>_. 0) ?L2 (nextRef st)"
    and frame': "\<And>k. k \<noteq> h \<Longrightarrow> \<not> descendant ?L h k \<Longrightarrow> ?L2 k = ?L k"
    using loop kept_child_of [OF k1] unfolding loop_effect_def L1 by (auto simp: L1_def)
  have frame: "\<not> descendant ?L h k \<Longrightarrow> ?L2 k = ?L k" for k
    using frame' [of k] by (cases "k = h") auto
  from loop obtain s2 where s2: "?L2 h = Some s2" "children s2 = []"
    by (auto simp: loop_effect_def)
  have "history_kept (s\<lparr>released := True\<rparr>) s2"
    using keptD [OF k12, of h] s2(1) by (auto simp: L1_def)
  then have s2h: "allocated s2 = allocated s" "spent s2 = spent s" "released s2"
      "parentState s2 = parentState s"
    by (auto simp: history_kept_def)
  note kept2 = kept_trans [OF k1 k12]
  have "ledger_inv_with A (\<lambda>_. 0) (ledgers (detachLedger h st2)) (nextRef st) \<and>
    release_effect ?L h s (ledgers (detachLedger h st2))"
  proof (cases "parentState s")
    case None
    then have "ledgers (detachLedger h st2) = ?L2"
      using ledgers_detach [OF s2] s2h by simp
    moreover have "release_effect ?L h s ?L2"
      unfolding release_effect_def using None kept2 s2 s2h frame by auto
    ultimately show ?thesis
      using inv_unmark_root [OF inv2 s2] None s2h by simp
  next
    case (Some p)
    from inv_live_parent [OF inv h live Some] obtain q where q: "?L p = Some q" "h \<in> set (children q)"
      by blast
    have ph: "p < h"
      using inv_parent(1) [OF inv h Some] .
    then have "\<not> descendant ?L h p"
      using descendant_ge [OF inv] by fastforce
    with ph frame q have p2: "?L2 p = Some q"
      by simp
    then have d: "ledgers (detachLedger h st2) = ?L2(p \<mapsto> disown h ?r q)"
      using ledgers_detach [OF s2] s2h Some by simp
    have "kept ?L2 (?L2(p := map_option (disown h ?r) (?L2 p)))"
      by (rule kept_upd) (simp add: history_kept_def)
    then have "kept ?L (?L2(p \<mapsto> disown h ?r q))"
      using kept_trans [OF kept2] p2 by simp
    then have "release_effect ?L h s (?L2(p \<mapsto> disown h ?r q))"
      using s2 s2h frame ph q Some by (auto simp: release_effect_def)
    moreover have "ledger_inv_with A (\<lambda>_. 0) (?L2(p \<mapsto> disown h ?r q)) (nextRef st)"
      using inv_unmark_child [OF inv2 s2(1,2) _ s2h(3) p2 q(2)] Some s2h by simp
    ultimately show ?thesis
      by (simp only: d)
  qed
  then show "ledger_inv_with A (\<lambda>_. 0) (ledgers (detachLedger h st2)) (nextRef st)"
    and "release_effect ?L h s (ledgers (detachLedger h st2))"
    by auto
qed

lemma releaseLedger_spec:
  assumes "ledger_inv_with A (\<lambda>_. 0) (ledgers st) (nextRef st)" "ledgers st h = Some s"
    "\<not> released s" "\<forall>a\<in>A. a < h" "nextRef st < h + fuel"
  shows "\<exists>st'. releaseLedger fuel h st = (st', Inr True) \<and> same_store st st' \<and>
    ledger_inv_with A (\<lambda>_. 0) (ledgers st') (nextRef st) \<and>
    release_effect (ledgers st) h s (ledgers st')"
  using assms
proof (induction fuel arbitrary: A st h s)
  case 0
  then show ?case
    using inv_node(1) by fastforce
next
  case (Suc fuel)
  note inv = Suc.prems(1) and h = Suc.prems(2) and live = Suc.prems(3)
  let ?s = "s\<lparr>released := True\<rparr>"
  define st1 where "st1 = updLedger h (\<lambda>s. s\<lparr>released := True\<rparr>) st"
  have L1: "ledgers st1 = (ledgers st)(h \<mapsto> ?s)" and n1: "nextRef st1 = nextRef st"
    using h by (simp_all add: st1_def)
  have k1: "kept (ledgers st) (ledgers st1)"
    unfolding st1_def ledgers_updLedger by (rule kept_upd) (simp add: history_kept_def)
  have inv1: "ledger_inv_with (insert h A) (\<lambda>_. 0) (ledgers st1) (nextRef st1)"
    using inv_mark [OF inv h] by (simp only: L1 n1)
  have "\<exists>st'. forS (releaseLedger fuel) (children s) st1 = (st', Inr ()) \<and> loop_effect A h st1 st'"
  proof (rule release_loop [where s = ?s and n = "nextRef st"])
    fix c t and sc :: "'a ledger_store_scheme"
    assume "ledger_inv_with (insert h A) (\<lambda>_. 0) (ledgers sc) (nextRef sc)" "ledgers sc c = Some t"
      "\<not> released t" "h < c" "nextRef sc = nextRef st"
    moreover have "\<forall>a\<in>insert h A. a < c"
      using \<open>h < c\<close> Suc.prems(4) by auto
    moreover have "nextRef sc < c + fuel"
      using \<open>h < c\<close> \<open>nextRef sc = nextRef st\<close> Suc.prems(5) by simp
    ultimately show "\<exists>st'. releaseLedger fuel c sc = (st', Inr True) \<and> same_store sc st' \<and>
        ledger_inv_with (insert h A) (\<lambda>_. 0) (ledgers st') (nextRef sc) \<and>
        release_effect (ledgers sc) c t (ledgers st')"
      by (intro Suc.IH)
  qed (use inv1 L1 n1 Suc.prems(4) in auto)
  then obtain st2 where st2: "forS (releaseLedger fuel) (children s) st1 = (st2, Inr ())"
    "loop_effect A h st1 st2"
    by blast
  have run: "releaseLedger (Suc fuel) h st = (detachLedger h st2, Inr True)"
    using h live st2(1) by (simp add: st1_def bindS_def)
  have "same_store st (detachLedger h st2)"
    using same_store_trans [OF same_store_trans [of st st1 st2] same_store_detach [of st2 h]] st2(2)
    by (simp add: loop_effect_def st1_def)
  with run release_finish [OF inv h live st2(2) [unfolded st1_def]] show ?case
    by auto
qed

end
