(* ===== verification/Ledger_Properties.thy ===== *)
theory Ledger_Properties
  imports Ledger_Release
begin

text \<open>
  The ledger module as a whole: any sequence of creations, reservations, charges and releases with
  any arguments. The conservation law is an invariant of the module, every call returns, and the
  cells a ledger has spent are the ones charged to it directly and to the ledgers below it.
\<close>

section \<open>The module as a state machine\<close>

datatype ledger_op =
    CreateLedger jsval
  | ReserveLedger jsval jsval
  | ChargeLedger jsval jsval
  | ReleaseLedger jsval

fun ledger_step :: "ledger_op \<Rightarrow> 'z ledger_store_scheme \<Rightarrow> 'z ledger_store_scheme" where
  "ledger_step (CreateLedger options) st = fst (createPeerLedger options st)"
| "ledger_step (ReserveLedger parent options) st = fst (reservePeerLedger parent options st)"
| "ledger_step (ChargeLedger handle options) st = fst (chargePeerLedger handle options st)"
| "ledger_step (ReleaseLedger handle) st = fst (releasePeerLedger handle st)"

definition emptyLedgers :: ledger_store where
  "emptyLedgers = \<lparr>ledgers = Map.empty, nextRef = 0\<rparr>"

lemma emptyLedgers_inv: "ledger_inv emptyLedgers"
  by (simp add: emptyLedgers_def ledger_inv_def ledger_inv_with_def)

lemma releasePeerLedger_spec:
  assumes "ledger_inv st" "ledgers st h = Some s" "\<not> released s"
  obtains st' where "releasePeerLedger (JRef h) st = (st', Inr True)" "same_store st st'"
    "ledger_inv st'" "release_effect (ledgers st) h s (ledgers st')"
proof -
  from releaseLedger_spec [of "{}" st h s "Suc (nextRef st)"] assms obtain st' where
    "releaseLedger (Suc (nextRef st)) h st = (st', Inr True)" "same_store st st'"
    "ledger_inv_with {} (\<lambda>_. 0) (ledgers st') (nextRef st)"
    "release_effect (ledgers st) h s (ledgers st')"
    by (auto simp: ledger_inv_def simp del: releaseLedger.simps)
  then show ?thesis
    by (intro that [of st']) (auto simp: releasePeerLedger_def ledger_inv_def
        same_store_nextRef simp del: releaseLedger.simps)
qed

lemma releasePeerLedger_cases:
  assumes "ledger_inv st"
  shows "(\<exists>h s. handle = JRef h \<and> ledgers st h = Some s \<and> \<not> released s) \<or>
    fst (releasePeerLedger handle st) = st \<and> snd (releasePeerLedger handle st) \<noteq> Inl NoReturn"
  by (cases handle) (auto simp: releasePeerLedger_def split: option.splits)

lemma ledger_step_inv: "ledger_inv st \<Longrightarrow> ledger_inv (ledger_step x st)"
proof (induction x st rule: ledger_step.induct)
  case (1 options st)
  then show ?case by (simp add: createPeerLedger_inv)
next
  case (2 parent options st)
  then show ?case
    using reservePeerLedger_spec reservePeerLedger_refused
    by (metis fst_conv ledger_step.simps(2))
next
  case (3 handle options st)
  then show ?case
    using chargePeerLedger_spec chargePeerLedger_refused
    by (metis fst_conv ledger_step.simps(3))
next
  case (4 handle st)
  then show ?case
    using releasePeerLedger_cases [OF 4, of handle] releasePeerLedger_spec [OF 4]
    by (metis fst_conv ledger_step.simps(4))
qed

interpretation led: op_system ledger_step ledger_inv
  by unfold_locales (rule ledger_step_inv)

lemma ledger_run_inv: "ledger_inv (fold ledger_step ops emptyLedgers)"
  by (rule led.run_inv [OF emptyLedgers_inv])

section \<open>Where spent cells come from\<close>

definition cells_of :: "(nat \<rightharpoonup> ledger_state) \<Rightarrow> nat \<Rightarrow> int" where
  "cells_of L c = (case L c of None \<Rightarrow> 0 | Some t \<Rightarrow> r_cells (spent t))"

definition below :: "(nat \<rightharpoonup> ledger_state) \<Rightarrow> nat \<Rightarrow> nat \<Rightarrow> nat set" where
  "below L n h = {c. c < n \<and> (h, c) \<in> child_of L}"

definition spent_law :: "(nat \<Rightarrow> int) \<Rightarrow> (nat \<rightharpoonup> ledger_state) \<Rightarrow> nat \<Rightarrow> bool" where
  "spent_law D L n = (\<forall>h s. L h = Some s \<longrightarrow>
     r_cells (spent s) + D h = directCellsSpent s + sum (cells_of L) (below L n h))"

lemma finite_below [simp]: "finite (below L n h)"
  by (simp add: below_def)

lemma sum_fun_upd:
  fixes f :: "'k \<Rightarrow> int"
  assumes "finite C"
  shows "sum (f(p := v)) C = sum f C + (if p \<in> C then v - f p else 0)"
proof (cases "p \<in> C")
  case True
  have "sum (f(p := v)) C = v + sum f (C - {p})"
    using sum.remove [OF assms True, of "f(p := v)"] by simp
  also have "\<dots> = v + (sum f C - f p)"
    using sum.remove [OF assms True, of f] by simp
  finally show ?thesis using True by simp
next
  case False
  then have "sum (f(p := v)) C = sum f C"
    by (intro sum.cong) auto
  with False show ?thesis by simp
qed

lemma spent_law_upd:
  assumes law: "spent_law D L n" and p: "L p = Some s" "p < n" "parentState s' = parentState s"
    and D': "\<And>k. D' k = D k +
      (if k = p then directCellsSpent s' - directCellsSpent s - (r_cells (spent s') - r_cells (spent s)) else 0) +
      (if parentState s = Some k then r_cells (spent s') - r_cells (spent s) else 0)"
  shows "spent_law D' (L(p \<mapsto> s')) n"
  unfolding spent_law_def
proof (intro allI impI)
  fix k t
  assume kt: "(L(p \<mapsto> s')) k = Some t"
  have co: "child_of (L(p \<mapsto> s')) = child_of L"
    using p by (auto simp: child_of_def)
  have cells: "cells_of (L(p \<mapsto> s')) = (cells_of L)(p := r_cells (spent s'))"
    by (auto simp: cells_of_def)
  have bl: "below (L(p \<mapsto> s')) n k = below L n k" and cp: "cells_of L p = r_cells (spent s)"
    using p(1) by (simp_all add: below_def co cells_of_def)
  have "p \<in> below L n k \<longleftrightarrow> parentState s = Some k"
    using p by (auto simp: below_def child_of_def)
  then have "sum (cells_of (L(p \<mapsto> s'))) (below (L(p \<mapsto> s')) n k) = sum (cells_of L) (below L n k) +
      (if parentState s = Some k then r_cells (spent s') - r_cells (spent s) else 0)"
    using bl cp by (simp add: cells sum_fun_upd del: fun_upd_apply)
  moreover have "r_cells (spent s) + D p = directCellsSpent s + sum (cells_of L) (below L n p)"
    using law p(1) by (auto simp: spent_law_def)
  ultimately show "r_cells (spent t) + D' k =
      directCellsSpent t + sum (cells_of (L(p \<mapsto> s'))) (below (L(p \<mapsto> s')) n k)"
    using kt law by (cases "k = p") (auto simp: D' spent_law_def)
qed

lemma chargeAncestors_spent_law:
  assumes "chargeAncestors fuel r q st = (st', Inr ())" "\<And>k s. ledgers st k = Some s \<Longrightarrow> k < n"
    "spent_law (\<lambda>k. if q = Some k then r_cells r else 0) (ledgers st) n"
  shows "spent_law (\<lambda>_. 0) (ledgers st') n"
  using assms
proof (induction fuel r q st rule: chargeAncestors.induct)
  case (3 fuel r p st)
  show ?case
  proof (cases "ledgers st p")
    case None
    then have "st' = st" "\<And>k s. ledgers st k = Some s \<Longrightarrow> k \<noteq> p"
      using 3(2) by auto
    then show ?thesis
      using 3(4) by (auto simp: spent_law_def split: if_splits)
  next
    case (Some s)
    have "spent_law (\<lambda>k. if parentState s = Some k then r_cells r else 0)
        ((ledgers st)(p \<mapsto> spendReserved r s)) n"
      using 3(3) Some by (intro spent_law_upd [OF 3(4) Some]) auto
    moreover have L: "ledgers (updLedger p (spendReserved r) st) = (ledgers st)(p \<mapsto> spendReserved r s)"
      using Some by simp
    moreover have "k < n" if "ledgers (updLedger p (spendReserved r) st) k = Some t" for k t
      using that 3(3) Some unfolding L by (auto split: if_splits)
    moreover have "chargeAncestors fuel r (parentState s) (updLedger p (spendReserved r) st) = (st', Inr ())"
      using 3(2) Some by simp
    ultimately show ?thesis
      using 3(1) [OF Some] unfolding L by blast
  qed
qed auto

lemma kept_spent_law: "kept L L' \<Longrightarrow> spent_law D L n \<Longrightarrow> spent_law D L' n"
proof -
  assume k: "kept L L'" and law: "spent_law D L n"
  have "cells_of L' = cells_of L"
  proof
    fix c
    show "cells_of L' c = cells_of L c"
      using keptD [OF k, of c] keptN [OF k, of c]
      by (cases "L c") (auto simp: cells_of_def history_kept_def)
  qed
  moreover have "below L' n h = below L n h" for h
    by (simp add: below_def kept_child_of [OF k])
  ultimately show ?thesis
    using law keptD2 [OF k] by (fastforce simp: spent_law_def history_kept_def)
qed

lemma spent_law_new:
  assumes law: "spent_law (\<lambda>_. 0) L n" and n: "L n = None" "\<And>k s. L k = Some s \<Longrightarrow> parentState s \<noteq> Some n"
    and s: "spent s = 0" "directCellsSpent s = 0" "parentState s \<noteq> Some n"
  shows "spent_law (\<lambda>_. 0) (L(n \<mapsto> s)) (Suc n)"
  unfolding spent_law_def
proof (intro allI impI)
  fix k t
  assume kt: "(L(n \<mapsto> s)) k = Some t"
  have "cells_of (L(n \<mapsto> s)) = (cells_of L)(n := 0)"
    using s by (auto simp: cells_of_def)
  moreover have "cells_of L n = 0"
    using n by (simp add: cells_of_def)
  ultimately have cells: "cells_of (L(n \<mapsto> s)) = cells_of L"
    by auto
  have "below (L(n \<mapsto> s)) (Suc n) k - {n} = below L n k"
    by (auto simp: below_def child_of_def)
  then have "sum (cells_of L) (below (L(n \<mapsto> s)) (Suc n) k) = sum (cells_of L) (below L n k)"
    using \<open>cells_of L n = 0\<close> by (metis finite_below sum.remove add_0 Diff_idemp Diff_empty Diff_insert0)
  moreover have "below L n n = {}"
    using n(2) by (auto simp: below_def child_of_def)
  ultimately show "r_cells (spent t) + 0 =
      directCellsSpent t + sum (cells_of (L(n \<mapsto> s))) (below (L(n \<mapsto> s)) (Suc n) k)"
    unfolding cells using kt law s n by (cases "k = n") (auto simp: spent_law_def)
qed

lemma inv_unused_ref:
  assumes "ledger_inv_with A D L n"
  shows "L n = None" "L k = Some s \<Longrightarrow> parentState s \<noteq> Some n"
proof -
  show "L n = None"
    using inv_node(1) [OF assms, of n] by (cases "L n") auto
  show "L k = Some s \<Longrightarrow> parentState s \<noteq> Some n"
    using inv_parent(1) [OF assms, of k s n] inv_node(1) [OF assms, of k s] by force
qed

definition ledger_law :: "'z ledger_store_scheme \<Rightarrow> bool" where
  "ledger_law st = (ledger_inv st \<and> spent_law (\<lambda>_. 0) (ledgers st) (nextRef st))"

lemma ledger_law_unused:
  assumes "ledger_law st"
  shows "ledgers st (nextRef st) = None" "ledgers st k = Some s \<Longrightarrow> parentState s \<noteq> Some (nextRef st)"
    "ledgers st k = Some s \<Longrightarrow> k < nextRef st" "spent_law (\<lambda>_. 0) (ledgers st) (nextRef st)"
proof -
  have inv: "ledger_inv_with {} (\<lambda>_. 0) (ledgers st) (nextRef st)"
    using assms by (simp add: ledger_law_def ledger_inv_def)
  from inv_unused_ref [OF inv] inv_node(1) [OF inv] assms
  show "ledgers st (nextRef st) = None" "ledgers st k = Some s \<Longrightarrow> parentState s \<noteq> Some (nextRef st)"
    "ledgers st k = Some s \<Longrightarrow> k < nextRef st" "spent_law (\<lambda>_. 0) (ledgers st) (nextRef st)"
    by (auto simp: ledger_law_def)
qed

lemma create_spent_law:
  assumes "ledger_law st" "createPeerLedger options st = (st', res)"
  shows "spent_law (\<lambda>_. 0) (ledgers st') (nextRef st')"
proof -
  note un = ledger_law_unused [OF assms(1)]
  have "spent_law (\<lambda>_. 0) ((ledgers st)(nextRef st \<mapsto> freshLedger r None)) (Suc (nextRef st))" for r
    using un by (intro spent_law_new [OF un(4)]) (auto simp: freshLedger_def)
  with assms(2) un(4) show ?thesis
    by (auto simp: createPeerLedger_def newLedger_def split: sum.splits)
qed

lemma reserve_spent_law:
  assumes "ledger_law st" "getLedger st parent = Some (p, s)" "\<not> released s"
    "readRow options = Inr r" "r \<le> remaining s" "reservePeerLedger parent options st = (st', res)"
  shows "spent_law (\<lambda>_. 0) (ledgers st') (nextRef st')"
proof -
  note un = ledger_law_unused [OF assms(1)]
  from assms(2) have p: "ledgers st p = Some s" "p < nextRef st"
    using un(3) by (auto simp: getLedger_Some)
  let ?L = "(ledgers st)(nextRef st \<mapsto> freshLedger r (Some p))"
  have "spent_law (\<lambda>_. 0) ?L (Suc (nextRef st))"
    using un p by (intro spent_law_new [OF un(4)]) (auto simp: freshLedger_def)
  then have "spent_law (\<lambda>_. 0) (?L(p \<mapsto> adopt r (nextRef st) s)) (Suc (nextRef st))"
    by (rule spent_law_upd [where s = s]) (use p in auto)
  moreover have "ledger_inv st"
    using assms(1) by (simp add: ledger_law_def)
  from reservePeerLedger_spec [OF assms(2-5) this] obtain st'' where
    "reservePeerLedger parent options st = (st'', Inr (JRef (nextRef st)))"
    "ledgers st'' = ?L(p \<mapsto> adopt r (nextRef st) s)" "nextRef st'' = Suc (nextRef st)"
    by blast
  ultimately show ?thesis
    using assms(6) by simp
qed

lemma charge_spent_law:
  assumes "ledger_law st" "getLedger st handle = Some (h, s)" "\<not> released s"
    "readRow options = Inr r" "r \<le> remaining s" "chargePeerLedger handle options st = (st', res)"
  shows "spent_law (\<lambda>_. 0) (ledgers st') (nextRef st')"
proof -
  note un = ledger_law_unused [OF assms(1)]
  from assms(2) have h: "ledgers st h = Some s"
    by (simp add: getLedger_Some)
  let ?st1 = "updLedger h (spendLocal r) st"
  have st1: "ledgers ?st1 = (ledgers st)(h \<mapsto> spendLocal r s)"
    using h by simp
  have "ledger_inv st"
    using assms(1) by (simp add: ledger_law_def)
  from chargePeerLedger_spec [OF this assms(2-5)] assms(6)
  have res: "res = Inr ()" and n: "nextRef st' = nextRef st"
    by auto
  have "chargeAncestors (nextRef st) r (parentState s) ?st1 = (st', Inr ())"
    using assms(2-6) res by (simp add: chargePeerLedger_def)
  then have "spent_law (\<lambda>_. 0) (ledgers st') (nextRef st)"
  proof (rule chargeAncestors_spent_law)
    show "k < nextRef st" if "ledgers ?st1 k = Some t" for k t
      using that un(3) h by (auto split: if_splits)
    show "spent_law (\<lambda>k. if parentState s = Some k then r_cells r else 0) (ledgers ?st1) (nextRef st)"
      unfolding st1 using un(3) h by (intro spent_law_upd [OF un(4) h]) auto
  qed
  with n show ?thesis by simp
qed

lemma release_spent_law:
  assumes "ledger_law st" "ledgers st h = Some s" "\<not> released s"
    "releasePeerLedger (JRef h) st = (st', res)"
  shows "spent_law (\<lambda>_. 0) (ledgers st') (nextRef st')"
proof -
  have "ledger_inv st"
    using assms(1) by (simp add: ledger_law_def)
  from releasePeerLedger_spec [OF this assms(2,3)] assms(4)
  have "same_store st st'" "release_effect (ledgers st) h s (ledgers st')"
    by auto
  then show ?thesis
    using kept_spent_law ledger_law_unused(4) [OF assms(1)]
    by (auto simp: release_effect_def same_store_nextRef)
qed

lemma ledger_step_law:
  assumes "ledger_law st"
  shows "ledger_law (ledger_step x st)"
proof -
  have inv: "ledger_inv st" and sl: "spent_law (\<lambda>_. 0) (ledgers st) (nextRef st)"
    using assms by (auto simp: ledger_law_def)
  have "spent_law (\<lambda>_. 0) (ledgers (ledger_step x st)) (nextRef (ledger_step x st))"
  proof (cases x)
    case (CreateLedger options)
    then show ?thesis
      using create_spent_law [OF assms, of options] by (simp add: prod_eq_iff)
  next
    case (ReserveLedger parent options)
    then show ?thesis
      using reserve_spent_law [OF assms, of parent _ _ options] sl
        reservePeerLedger_refused [of st parent options]
      by (metis fst_conv ledger_step.simps(2) surj_pair)
  next
    case (ChargeLedger handle options)
    then show ?thesis
      using charge_spent_law [OF assms, of handle _ _ options] sl
        chargePeerLedger_refused [of st handle options]
      by (metis fst_conv ledger_step.simps(3) surj_pair)
  next
    case (ReleaseLedger handle)
    then show ?thesis
      using release_spent_law [OF assms] sl releasePeerLedger_cases [OF inv, of handle]
      by (metis fst_conv ledger_step.simps(4) surj_pair)
  qed
  with ledger_step_inv [OF inv] show ?thesis
    by (simp add: ledger_law_def)
qed

interpretation ledl: op_system ledger_step ledger_law
  by unfold_locales (rule ledger_step_law)

lemma ledger_run_law: "ledger_law (fold ledger_step ops emptyLedgers)"
proof (rule ledl.run_inv)
  show "ledger_law emptyLedgers"
    using emptyLedgers_inv by (simp add: ledger_law_def spent_law_def emptyLedgers_def)
qed

section \<open>Properties\<close>

lemma ancestors_present: "ancestors L q ps \<Longrightarrow> p \<in> set ps \<Longrightarrow> \<exists>a. L p = Some a"
  by (induction rule: ancestors.induct) auto

text \<open>
  C3: Conservation. After any sequence of creations, reservations, charges and releases with any
  arguments, every ledger satisfies: what it has spent and what it has reserved for its children are
  not negative and together at most its allocation; what it has reserved is exactly the unspent part
  of its live children; a released ledger holds no reservation; and a live ledger's parent is live and
  lists it as a child.
\<close>

theorem ledger_conservation:
  assumes "L = ledgers (fold ledger_step ops emptyLedgers)" "L h = Some s"
  shows "0 \<le> spent s \<and> 0 \<le> reserved s \<and> spent s + reserved s \<le> allocated s \<and>
    distinct (children s) \<and> reserved s = sum_list (map (unspent L) (children s)) \<and>
    (\<forall>c \<in> set (children s). \<exists>t. L c = Some t \<and> \<not> released t \<and> parentState t = Some h) \<and>
    (released s \<longrightarrow> reserved s = 0) \<and>
    (\<forall>p. \<not> released s \<longrightarrow> parentState s = Some p \<longrightarrow>
       (\<exists>q. L p = Some q \<and> \<not> released q \<and> h \<in> set (children q)))"
proof -
  have inv: "ledger_inv_with {} (\<lambda>_. 0) L (nextRef (fold ledger_step ops emptyLedgers))"
    using ledger_run_inv [of ops] by (simp add: ledger_inv_def assms(1))
  show ?thesis
    using inv_node [OF inv assms(2)] inv_live_parent [OF inv assms(2)]
    by (fastforce simp: amounts_ok_def children_ok_def)
qed

definition example_row :: "int \<Rightarrow> jsval" where
  "example_row n = JObj [(''cells'', DataProp (JNum n)), (''bytes'', DataProp (JBig (1200 * n))),
     (''commands'', DataProp (JNum 0))] []"

definition example_ops :: "ledger_op list" where
  "example_ops = [CreateLedger (example_row 100), ReserveLedger (JRef 0) (example_row 60),
     ReserveLedger (JRef 1) (example_row 50), ChargeLedger (JRef 2) (example_row 7)]"

lemma readRow_example [simp]:
  "0 \<le> n \<Longrightarrow> n \<le> 1000 \<Longrightarrow> readRow (example_row n) = Inr (Row n (1200 * n) 0)"
  by (simp add: readRow_def invalidE_def example_row_def ownProp_def MAX_U32_def MAX_U64_def)

lemmas ledger_eval = createPeerLedger_def reservePeerLedger_def chargePeerLedger_def
  newLedger_def updLedger_def getLedger_def freshLedger_def remaining_def spendLocal_def
  spendReserved_def zero_row_def plus_row_def minus_row_def less_eq_row_def emptyLedgers_def

definition example_middle :: ledger_state where
  "example_middle = \<lparr>allocated = Row 60 72000 0, spent = Row 7 8400 0, reserved = Row 43 51600 0,
     directCellsSpent = 0, released = False, children = [2], parentState = Some 0\<rparr>"

lemma example_ops_middle: "ledgers (fold ledger_step example_ops emptyLedgers) 1 = Some example_middle"
  by (simp add: example_ops_def example_middle_def ledger_eval)

theorem ledger_conservation_witness:
  "reserved example_middle = sum_list (map (unspent
     (ledgers (fold ledger_step example_ops emptyLedgers))) [2]) \<and>
   spent example_middle + reserved example_middle \<le> allocated example_middle"
proof -
  have "children example_middle = [2]"
    by (simp add: example_middle_def)
  with ledger_conservation [OF refl example_ops_middle] show ?thesis
    by metis
qed

text \<open>
  Spending is never forgotten and never counted twice: in every reachable state the cells a ledger
  has spent are the cells charged directly to it plus the cells spent by every ledger ever reserved
  below it, released ones included.
\<close>

theorem ledger_spending_accounted:
  assumes "st = fold ledger_step ops emptyLedgers" "ledgers st h = Some s"
  shows "r_cells (spent s) = directCellsSpent s + sum (cells_of (ledgers st)) (below (ledgers st) (nextRef st) h)"
  using ledger_run_law [of ops] assms by (auto simp: ledger_law_def spent_law_def)

theorem ledger_spending_accounted_witness:
  "let st = fold ledger_step example_ops emptyLedgers in
   r_cells (spent example_middle) = directCellsSpent example_middle +
     sum (cells_of (ledgers st)) (below (ledgers st) (nextRef st) 1)"
  using ledger_spending_accounted [OF refl example_ops_middle] by simp

text \<open>
  A charge is all or nothing. It succeeds exactly for a live ledger and a row of valid amounts
  within its remaining allocation; then the ledger's spending grows by the row, every ledger above it
  moves the row from reserved to spent, so that its remaining allocation is unchanged, and no other
  ledger changes. In every other case the call throws INVALID_ROUTE and nothing changes. It always
  returns.
\<close>

theorem charge_all_or_nothing:
  assumes "st = fold ledger_step ops emptyLedgers"
  shows "case chargePeerLedger handle options st of
      (st', Inr _) \<Rightarrow> (\<exists>h s r ps. getLedger st handle = Some (h, s) \<and> \<not> released s \<and>
         readRow options = Inr r \<and> r \<le> remaining s \<and> ancestors (ledgers st) (parentState s) ps \<and>
         h \<notin> set ps \<and> ledgers st' = charged r ps ((ledgers st)(h \<mapsto> spendLocal r s)) \<and>
         (\<forall>p \<in> set ps. \<exists>a b. ledgers st p = Some a \<and> ledgers st' p = Some b \<and> remaining b = remaining a))
    | (st', Inl e) \<Rightarrow> st' = st \<and> e = Throws INVALID_ROUTE \<and>
         \<not> (\<exists>h s r. getLedger st handle = Some (h, s) \<and> \<not> released s \<and>
           readRow options = Inr r \<and> r \<le> remaining s)"
proof (cases "\<exists>h s r. getLedger st handle = Some (h, s) \<and> \<not> released s \<and>
    readRow options = Inr r \<and> r \<le> remaining s")
  case True
  then obtain h s r where g: "getLedger st handle = Some (h, s)" "\<not> released s"
      "readRow options = Inr r" "r \<le> remaining s"
    by blast
  have "ledger_inv st"
    using ledger_run_inv by (simp add: assms)
  then obtain ps st' where
    c: "chargePeerLedger handle options st = (st', Inr ())"
      "ancestors (ledgers st) (parentState s) ps" "h \<notin> set ps" "nextRef st' = nextRef st"
      "ledgers st' = charged r ps ((ledgers st)(h \<mapsto> spendLocal r s))" "ledger_inv st'"
    by (rule chargePeerLedger_spec [OF _ g])
  moreover have "\<exists>a b. ledgers st p = Some a \<and> ledgers st' p = Some b \<and> remaining b = remaining a"
    if "p \<in> set ps" for p
  proof -
    from ancestors_present [OF c(2) that] obtain a where "ledgers st p = Some a" ..
    moreover have "p \<noteq> h"
      using c(3) that by auto
    ultimately show ?thesis
      using that by (simp add: c(5) charged_def remaining_def)
  qed
  ultimately show ?thesis
    unfolding c(1) prod.case sum.case using g by (intro exI [of _ h] exI [of _ s] exI [of _ r] exI [of _ ps]) simp
qed (simp add: chargePeerLedger_refused)

theorem charge_all_or_nothing_witness:
  "let st = fold ledger_step example_ops emptyLedgers in
   case chargePeerLedger (JRef 2) (example_row 44) st of
      (st', Inr _) \<Rightarrow> False
    | (st', Inl e) \<Rightarrow> st' = st \<and> e = Throws INVALID_ROUTE"
proof -
  have "snd (chargePeerLedger (JRef 2) (example_row 44) (fold ledger_step example_ops emptyLedgers)) =
      Inl (Throws INVALID_ROUTE)"
    by (simp add: example_ops_def ledger_eval)
  then show ?thesis
    using charge_all_or_nothing [OF refl, of example_ops "JRef 2" "example_row 44"]
    by (auto simp: Let_def split: prod.splits sum.splits)
qed

text \<open>
  C14: Releasing a live ledger returns true; afterwards it is released together with every ledger
  below it, its parent has its unspent allocation back (and no longer lists it), ledgers that are
  neither below it nor its parent are unchanged, and allocation, spending and parent of every ledger
  are as before.
\<close>

theorem release_returns_unspent:
  assumes "st = fold ledger_step ops emptyLedgers" "ledgers st h = Some s" "\<not> released s"
  shows "\<exists>st'. releasePeerLedger (JRef h) st = (st', Inr True) \<and> kept (ledgers st) (ledgers st') \<and>
    (\<forall>k t. descendant (ledgers st) h k \<longrightarrow> ledgers st' k = Some t \<longrightarrow> released t) \<and>
    (\<forall>p q. parentState s = Some p \<longrightarrow> ledgers st p = Some q \<longrightarrow>
       ledgers st' p = Some (disown h (allocated s - spent s) q)) \<and>
    (\<forall>k. \<not> descendant (ledgers st) h k \<longrightarrow> parentState s \<noteq> Some k \<longrightarrow> ledgers st' k = ledgers st k)"
proof -
  have inv: "ledger_inv st"
    using ledger_run_inv by (simp add: assms(1))
  from releasePeerLedger_spec [OF inv assms(2,3)] obtain st' where
    st': "releasePeerLedger (JRef h) st = (st', Inr True)" "ledger_inv st'"
      "release_effect (ledgers st) h s (ledgers st')"
    by blast
  have "released t" if "descendant (ledgers st) h k" "ledgers st' k = Some t" for k t
    using that
  proof (induction arbitrary: t rule: rtrancl_induct)
    case base
    then show ?case using st'(3) by (auto simp: release_effect_def)
  next
    case (step j k)
    have "(j, k) \<in> child_of (ledgers st')"
      using step.hyps(2) st'(3) kept_child_of by (auto simp: release_effect_def)
    with step.prems have "parentState t = Some j"
      by (auto simp: child_of_def)
    with inv_live_parent [of "{}" _ "ledgers st'" _ k t j] st'(2) step.prems step.IH show ?case
      by (auto simp: ledger_inv_def)
  qed
  with st' show ?thesis
    by (auto simp: release_effect_def)
qed

theorem release_returns_unspent_witness:
  "\<exists>st'. releasePeerLedger (JRef 1) (fold ledger_step example_ops emptyLedgers) = (st', Inr True) \<and>
    (\<forall>q. ledgers (fold ledger_step example_ops emptyLedgers) 0 = Some q \<longrightarrow>
       ledgers st' 0 = Some (disown 1 (Row 53 63600 0) q))"
proof -
  have "\<not> released example_middle" "parentState example_middle = Some 0"
      "allocated example_middle - spent example_middle = Row 53 63600 0"
    by (simp_all add: example_middle_def minus_row_def)
  with release_returns_unspent [OF refl example_ops_middle] show ?thesis
    by metis
qed

end
