(* ===== verification/Peer_Memory.thy ===== *)
theory Peer_Memory
  imports Ledger_Properties
begin

text \<open>
  \<^verbatim>\<open>lib/private/peer-ledger.js\<close>, part three: memory pools. A pool of bytes hands out
  reservations; a reservation that is taken becomes the capacity of a child pool. Pools and
  reservations are nodes of the same store of handles as the ledgers. Releasing a reservation
  releases the pool made from it and everything reserved there.
\<close>

record pool_state =
  p_capacity :: int
  p_reserved :: int
  p_taken :: int
  p_released :: bool
  p_reservations :: "nat list"
  p_parent :: "nat option"

record reservation_state =
  rs_pool :: nat
  rs_kind :: string
  rs_capacity :: int
  rs_taken :: bool
  rs_child :: "nat option"
  rs_released :: bool

record memory_store = ledger_store +
  pools :: "nat \<rightharpoonup> pool_state"
  reservations :: "nat \<rightharpoonup> reservation_state"

definition updPool ::
  "nat \<Rightarrow> (pool_state \<Rightarrow> pool_state) \<Rightarrow> 'z memory_store_scheme \<Rightarrow> 'z memory_store_scheme" where
  "updPool p f st = st\<lparr>pools := (pools st)(p := map_option f (pools st p))\<rparr>"

definition updReservation ::
  "nat \<Rightarrow> (reservation_state \<Rightarrow> reservation_state) \<Rightarrow> 'z memory_store_scheme \<Rightarrow> 'z memory_store_scheme" where
  "updReservation r f st =
     st\<lparr>reservations := (reservations st)(r := map_option f (reservations st r))\<rparr>"

definition getPool :: "'z memory_store_scheme \<Rightarrow> jsval \<Rightarrow> (nat \<times> pool_state) option" where
  "getPool st handle =
     (case refOf handle of None \<Rightarrow> None | Some p \<Rightarrow> map_option (Pair p) (pools st p))"

definition getReservation :: "'z memory_store_scheme \<Rightarrow> jsval \<Rightarrow> (nat \<times> reservation_state) option" where
  "getReservation st handle =
     (case refOf handle of None \<Rightarrow> None | Some r \<Rightarrow> map_option (Pair r) (reservations st r))"

definition freshPool :: "int \<Rightarrow> nat option \<Rightarrow> pool_state" where
  "freshPool cap parent = \<lparr>p_capacity = cap, p_reserved = 0, p_taken = 0, p_released = False,
     p_reservations = [], p_parent = parent\<rparr>"

definition newPool :: "pool_state \<Rightarrow> 'z memory_store_scheme \<Rightarrow> nat \<times> 'z memory_store_scheme" where
  "newPool s st =
     (nextRef st, st\<lparr>pools := (pools st)(nextRef st \<mapsto> s), nextRef := nextRef st + 1\<rparr>)"

section \<open>Operations\<close>

definition createPeerMemoryPool :: "jsval \<Rightarrow> ('z memory_store_scheme, failure, jsval) action" where
  "createPeerMemoryPool capacityBytes st = (case checkU32 capacityBytes of
     Inl e \<Rightarrow> (st, Inl (Throws e))
   | Inr cap \<Rightarrow> let (h, st') = newPool (freshPool cap None) st in (st', Inr (JRef h)))"

text \<open>\<open>typeof kind !== 'string' || kind.length === 0\<close>\<close>

fun kindOk :: "jsval \<Rightarrow> bool" where
  "kindOk (JStr s) = (s \<noteq> [])"
| "kindOk _ = False"

fun kindName :: "jsval \<Rightarrow> string" where
  "kindName (JStr s) = s"
| "kindName _ = []"

definition reservePeerMemory ::
  "jsval \<Rightarrow> jsval \<Rightarrow> jsval \<Rightarrow> ('z memory_store_scheme, failure, jsval) action" where
  "reservePeerMemory poolHandle kind capacityBytes st = (case getPool st poolHandle of
     None \<Rightarrow> (st, Inl (Throws INVALID_ROUTE))
   | Some (p, ps) \<Rightarrow>
       if p_released ps then (st, Inl (Throws INVALID_ROUTE))
       else if \<not> kindOk kind then (st, Inl (Throws INVALID_ROUTE))
       else case checkU32 capacityBytes of
         Inl e \<Rightarrow> (st, Inl (Throws e))
       | Inr cap \<Rightarrow>
           if cap > p_capacity ps - p_reserved ps then (st, Inl (Throws INVALID_ROUTE))
           else
             let st1 = updPool p (\<lambda>s. s\<lparr>p_reserved := p_reserved s + cap\<rparr>) st;
                 r = nextRef st1;
                 st2 = updPool p (\<lambda>s. s\<lparr>p_reservations := p_reservations s @ [r]\<rparr>) st1;
                 st3 = st2\<lparr>reservations := (reservations st2)(r \<mapsto>
                   \<lparr>rs_pool = p, rs_kind = kindName kind, rs_capacity = cap, rs_taken = False,
                    rs_child = None, rs_released = False\<rparr>), nextRef := r + 1\<rparr>
             in (st3, Inr (JRef r)))"

definition takePeerMemory :: "jsval \<Rightarrow> ('z memory_store_scheme, failure, jsval) action" where
  "takePeerMemory resHandle st = (case getReservation st resHandle of
     None \<Rightarrow> (st, Inl (Throws INVALID_ROUTE))
   | Some (r, rs) \<Rightarrow>
       if rs_released rs \<or> rs_taken rs then (st, Inl (Throws INVALID_ROUTE))
       else
         let st1 = updPool (rs_pool rs) (\<lambda>s. s\<lparr>p_taken := p_taken s + rs_capacity rs\<rparr>) st;
             (c, st2) = newPool (freshPool (rs_capacity rs) (Some r)) st1;
             st3 = updReservation r (\<lambda>t. t\<lparr>rs_taken := True, rs_child := Some c\<rparr>) st2
         in (st3, Inr (JRef c)))"

text \<open>What a pool keeps when one of its reservations is released.\<close>

definition forget :: "nat \<Rightarrow> reservation_state \<Rightarrow> pool_state \<Rightarrow> pool_state" where
  "forget r t s = s\<lparr>p_reservations := removeAll r (p_reservations s),
     p_reserved := p_reserved s - rs_capacity t,
     p_taken := (if rs_taken t then p_taken s - rs_capacity t else p_taken s)\<rparr>"

text \<open>
  \<open>_releaseReservation\<close>: at most \<open>fuel\<close> nested levels. The set of a child pool is iterated while
  each step deletes the element it is at, which visits every element once.
\<close>

primrec releaseReservation :: "nat \<Rightarrow> nat \<Rightarrow> ('z memory_store_scheme, failure, bool) action" where
  "releaseReservation 0 = (\<lambda>r st. (st, Inl NoReturn))"
| "releaseReservation (Suc fuel) = (\<lambda>r st. case reservations st r of
     None \<Rightarrow> (st, Inr False)
   | Some t \<Rightarrow>
       if rs_released t then (st, Inr False)
       else
         let st1 = updReservation r (\<lambda>t. t\<lparr>rs_released := True\<rparr>) st;
             st2 = updPool (rs_pool t) (forget r t) st1 in
         case (if rs_taken t then rs_child t else None) of
           None \<Rightarrow> (st2, Inr True)
         | Some c \<Rightarrow> (case pools st2 c of
             None \<Rightarrow> (st2, Inr True)
           | Some cs \<Rightarrow>
               if p_released cs then (st2, Inr True)
               else bindS (forS (releaseReservation fuel) (p_reservations cs))
                 (\<lambda>_ st'. (updPool c (\<lambda>s. s\<lparr>p_reservations := []\<rparr>) st', Inr True))
                 (updPool c (\<lambda>s. s\<lparr>p_released := True\<rparr>) st2)))"

definition releasePeerMemory :: "jsval \<Rightarrow> ('z memory_store_scheme, failure, bool) action" where
  "releasePeerMemory handle st = (case getPool st handle of
     Some (p, ps) \<Rightarrow>
       if p_released ps then (st, Inr False)
       else bindS (forS (releaseReservation (Suc (nextRef st))) (p_reservations ps))
         (\<lambda>_ st1.
           let st2 = updPool p (\<lambda>s. s\<lparr>p_reservations := []\<rparr>) st1 in
           case p_parent ps of
             None \<Rightarrow> (st2, Inr True)
           | Some r \<Rightarrow> bindS (releaseReservation (Suc (nextRef st)) r) (\<lambda>_ st3. (st3, Inr True)) st2)
         (updPool p (\<lambda>s. s\<lparr>p_released := True\<rparr>) st)
   | None \<Rightarrow> (case getReservation st handle of
       Some (r, rs) \<Rightarrow> releaseReservation (Suc (nextRef st)) r st
     | None \<Rightarrow> (st, Inl (Throws INVALID_ROUTE))))"

datatype memory_view =
    PoolView int int int int bool
  | ReservationView string int bool bool

definition readPeerMemory :: "jsval \<Rightarrow> 'z memory_store_scheme \<Rightarrow> failure + memory_view" where
  "readPeerMemory handle st = (case getPool st handle of
     Some (p, s) \<Rightarrow> Inr (PoolView (p_capacity s) (p_reserved s) (p_taken s)
       (p_capacity s - p_reserved s) (p_released s))
   | None \<Rightarrow> (case getReservation st handle of
       Some (r, t) \<Rightarrow> Inr (ReservationView (rs_kind t) (rs_capacity t) (rs_taken t) (rs_released t))
     | None \<Rightarrow> Inl (Throws INVALID_ROUTE)))"

section \<open>The law of the pools\<close>

definition capacity_of :: "(nat \<rightharpoonup> reservation_state) \<Rightarrow> nat \<Rightarrow> int" where
  "capacity_of R r = (case R r of None \<Rightarrow> 0 | Some t \<Rightarrow> rs_capacity t)"

definition taken_of :: "(nat \<rightharpoonup> reservation_state) \<Rightarrow> nat \<Rightarrow> int" where
  "taken_of R r = (case R r of None \<Rightarrow> 0 | Some t \<Rightarrow> if rs_taken t then rs_capacity t else 0)"

definition pool_ok ::
  "nat set \<Rightarrow> (nat \<rightharpoonup> pool_state) \<Rightarrow> (nat \<rightharpoonup> reservation_state) \<Rightarrow> nat \<Rightarrow> pool_state \<Rightarrow> bool" where
  "pool_ok A P R p s =
     (distinct (p_reservations s) \<and> p_reserved s \<le> p_capacity s \<and>
      (\<forall>r\<in>set (p_reservations s). p < r \<and>
         (\<exists>t. R r = Some t \<and> rs_pool t = p \<and> \<not> rs_released t)) \<and>
      p_reserved s = sum_list (map (capacity_of R) (p_reservations s)) \<and>
      p_taken s = sum_list (map (taken_of R) (p_reservations s)) \<and>
      (p_released s \<and> p \<notin> A \<longrightarrow> p_reservations s = []) \<and>
      (\<forall>r. p_parent s = Some r \<longrightarrow> r < p \<and> (\<exists>t. R r = Some t \<and> rs_taken t \<and>
         rs_child t = Some p \<and> rs_capacity t = p_capacity s)))"

definition reservation_ok ::
  "(nat \<rightharpoonup> pool_state) \<Rightarrow> (nat \<rightharpoonup> reservation_state) \<Rightarrow> nat \<Rightarrow> reservation_state \<Rightarrow> bool" where
  "reservation_ok P R r t =
     (0 \<le> rs_capacity t \<and> rs_pool t < r \<and> (rs_taken t \<longleftrightarrow> rs_child t \<noteq> None) \<and>
      (\<exists>s. P (rs_pool t) = Some s \<and> (\<not> rs_released t \<longrightarrow> r \<in> set (p_reservations s))) \<and>
      (\<forall>c. rs_child t = Some c \<longrightarrow> r < c \<and> (\<exists>s. P c = Some s \<and> p_parent s = Some r)))"

definition memory_inv_with ::
  "nat set \<Rightarrow> (nat \<rightharpoonup> pool_state) \<Rightarrow> (nat \<rightharpoonup> reservation_state) \<Rightarrow> nat \<Rightarrow> bool" where
  "memory_inv_with A P R n =
     ((\<forall>p s. P p = Some s \<longrightarrow> p < n \<and> pool_ok A P R p s) \<and>
      (\<forall>r t. R r = Some t \<longrightarrow> r < n \<and> reservation_ok P R r t))"

definition memory_inv :: "'z memory_store_scheme \<Rightarrow> bool" where
  "memory_inv st = memory_inv_with {} (pools st) (reservations st) (nextRef st)"

end
