(* ===== verification/Memory_Invariant.thy ===== *)
theory Memory_Invariant
  imports Peer_Memory
begin

text \<open>
  Every operation on memory pools returns and keeps the law: the reserved bytes of a pool are the
  capacities of its live reservations and fit its capacity, the taken bytes are those of the taken
  ones, and a released pool holds nothing.
\<close>

section \<open>Reading the law\<close>

lemma mem_pool:
  assumes "memory_inv_with A P R n" "P p = Some s"
  shows "p < n" "pool_ok A P R p s"
  using assms by (auto simp: memory_inv_with_def)

lemma mem_reservation:
  assumes "memory_inv_with A P R n" "R r = Some t"
  shows "r < n" "reservation_ok P R r t"
  using assms by (auto simp: memory_inv_with_def)

lemma mem_intro:
  assumes "\<And>p s. P p = Some s \<Longrightarrow> p < n" "\<And>p s. P p = Some s \<Longrightarrow> pool_ok A P R p s"
    "\<And>r t. R r = Some t \<Longrightarrow> r < n" "\<And>r t. R r = Some t \<Longrightarrow> reservation_ok P R r t"
  shows "memory_inv_with A P R n"
  using assms by (simp add: memory_inv_with_def)

lemma mem_unused:
  assumes "memory_inv_with A P R n"
  shows "P n = None" "R n = None"
proof -
  show "P n = None"
    using mem_pool(1) [OF assms, of n] by (cases "P n") auto
  show "R n = None"
    using mem_reservation(1) [OF assms, of n] by (cases "R n") auto
qed

lemma mem_live_member:
  assumes "memory_inv_with A P R n" "R r = Some t" "\<not> rs_released t"
  shows "\<exists>s. P (rs_pool t) = Some s \<and> r \<in> set (p_reservations s)"
  using mem_reservation(2) [OF assms(1,2)] assms(3) by (auto simp: reservation_ok_def)

lemma mem_member_iff:
  assumes "memory_inv_with A P R n" "R r = Some t" "\<not> rs_released t" "P p = Some s"
  shows "r \<in> set (p_reservations s) \<longleftrightarrow> p = rs_pool t"
  using mem_live_member [OF assms(1-3)] mem_pool(2) [OF assms(1,4)] assms(2,4)
  by (auto simp: pool_ok_def)

lemma sum_list_cong_upd:
  "r \<notin> set xs \<Longrightarrow> sum_list (map (f(r := v)) xs) = sum_list (map f xs)"
  by (induction xs) auto

lemma sum_list_int_upd:
  fixes f :: "'k \<Rightarrow> int"
  assumes "distinct xs" "r \<in> set xs"
  shows "sum_list (map (f(r := v)) xs) = sum_list (map f xs) + v - f r"
  using assms by (induction xs) auto

lemma sum_list_int_removeAll:
  fixes f :: "'k \<Rightarrow> int"
  assumes "distinct xs" "r \<in> set xs"
  shows "sum_list (map f (removeAll r xs)) = sum_list (map f xs) - f r"
  using assms by (induction xs) auto

lemma capacity_of_upd: "capacity_of (R(r \<mapsto> t)) = (capacity_of R)(r := rs_capacity t)"
  by (auto simp: capacity_of_def)

lemma taken_of_upd:
  "taken_of (R(r \<mapsto> t)) = (taken_of R)(r := if rs_taken t then rs_capacity t else 0)"
  by (auto simp: taken_of_def)

lemma capacity_of_Some [simp]: "R r = Some t \<Longrightarrow> capacity_of R r = rs_capacity t"
  by (simp add: capacity_of_def)

lemma taken_of_Some: "R r = Some t \<Longrightarrow> taken_of R r = (if rs_taken t then rs_capacity t else 0)"
  by (simp add: taken_of_def)

lemma mem_taken_le_reserved:
  assumes "memory_inv_with A P R n" "P p = Some s"
  shows "0 \<le> p_taken s" "p_taken s \<le> p_reserved s"
proof -
  have "0 \<le> taken_of R r \<and> taken_of R r \<le> capacity_of R r" for r
    using mem_reservation(2) [OF assms(1), of r]
    by (cases "R r") (auto simp: taken_of_def capacity_of_def reservation_ok_def)
  then have "0 \<le> sum_list (map (taken_of R) xs) \<and>
      sum_list (map (taken_of R) xs) \<le> sum_list (map (capacity_of R) xs)" for xs
    by (induction xs) (auto intro: add_mono)
  then show "0 \<le> p_taken s" "p_taken s \<le> p_reserved s"
    using mem_pool(2) [OF assms] by (auto simp: pool_ok_def)
qed

section \<open>Creating, reserving and taking\<close>

lemma mem_new_pool:
  assumes inv: "memory_inv_with {} P R n" and cap: "0 \<le> cap"
  shows "memory_inv_with {} (P(n \<mapsto> freshPool cap None)) R (Suc n)"
proof (rule mem_intro)
  note un = mem_unused [OF inv]
  fix p s
  assume ps: "(P(n \<mapsto> freshPool cap None)) p = Some s"
  show "p < Suc n"
    using ps mem_pool(1) [OF inv, of p s] by (auto split: if_splits)
  show "pool_ok {} (P(n \<mapsto> freshPool cap None)) R p s"
    using ps mem_pool(2) [OF inv, of p s] cap by (auto simp: pool_ok_def freshPool_def split: if_splits)
next
  note un = mem_unused [OF inv]
  fix r t
  assume rt: "R r = Some t"
  show "r < Suc n"
    using mem_reservation(1) [OF inv rt] by simp
  show "reservation_ok (P(n \<mapsto> freshPool cap None)) R r t"
    using mem_reservation(2) [OF inv rt] un by (auto simp: reservation_ok_def)
qed

definition gain :: "nat \<Rightarrow> int \<Rightarrow> pool_state \<Rightarrow> pool_state" where
  "gain r cap s = s\<lparr>p_reserved := p_reserved s + cap, p_reservations := p_reservations s @ [r]\<rparr>"

definition freshReservation :: "nat \<Rightarrow> string \<Rightarrow> int \<Rightarrow> reservation_state" where
  "freshReservation p k cap = \<lparr>rs_pool = p, rs_kind = k, rs_capacity = cap, rs_taken = False,
     rs_child = None, rs_released = False\<rparr>"

lemma mem_new_reservation:
  assumes inv: "memory_inv_with {} P R n" and p: "P p = Some s" "\<not> p_released s"
    and cap: "0 \<le> cap" "cap \<le> p_capacity s - p_reserved s"
  shows "memory_inv_with {} (P(p \<mapsto> gain n cap s)) (R(n \<mapsto> freshReservation p k cap)) (Suc n)"
    (is "memory_inv_with {} ?P ?R _")
proof (rule mem_intro)
  note un = mem_unused [OF inv]
  have pn: "p < n" by (rule mem_pool(1) [OF inv p(1)])
  have fresh: "n \<notin> set (p_reservations s')" if "P q = Some s'" for q s'
    using mem_pool(2) [OF inv that] un by (auto simp: pool_ok_def)
  fix q s'
  assume qs: "?P q = Some s'"
  show "q < Suc n"
    using qs pn mem_pool(1) [OF inv, of q s'] by (auto split: if_splits)
  show "pool_ok {} ?P ?R q s'"
  proof (cases "q = p")
    case True
    with qs have "s' = gain n cap s" by simp
    with True show ?thesis
      using mem_pool(2) [OF inv p(1)] fresh [OF p(1)] p(2) cap pn un
      by (auto simp: pool_ok_def gain_def freshReservation_def capacity_of_upd taken_of_upd
          sum_list_cong_upd simp del: fun_upd_apply) (auto simp: fun_upd_apply)
  next
    case False
    with qs have q: "P q = Some s'" by simp
    show ?thesis
      using mem_pool(2) [OF inv q] fresh [OF q] un
      by (auto simp: pool_ok_def capacity_of_upd taken_of_upd sum_list_cong_upd
          simp del: fun_upd_apply) (auto simp: fun_upd_apply)
  qed
next
  note un = mem_unused [OF inv]
  have pn: "p < n" by (rule mem_pool(1) [OF inv p(1)])
  fix r t
  assume rt: "?R r = Some t"
  show "r < Suc n"
    using rt mem_reservation(1) [OF inv, of r t] by (auto split: if_splits)
  show "reservation_ok ?P ?R r t"
  proof (cases "r = n")
    case True
    with rt show ?thesis
      using cap pn by (auto simp: reservation_ok_def freshReservation_def gain_def)
  next
    case False
    with rt have "R r = Some t" by simp
    from mem_reservation(2) [OF inv this] show ?thesis
      using p by (fastforce simp: reservation_ok_def gain_def)
  qed
qed

definition lend :: "int \<Rightarrow> pool_state \<Rightarrow> pool_state" where
  "lend cap s = s\<lparr>p_taken := p_taken s + cap\<rparr>"

definition takenBy :: "nat \<Rightarrow> reservation_state \<Rightarrow> reservation_state" where
  "takenBy c t = t\<lparr>rs_taken := True, rs_child := Some c\<rparr>"

lemma mem_take:
  assumes inv: "memory_inv_with {} P R n" and r: "R r = Some t" "\<not> rs_released t" "\<not> rs_taken t"
    and p: "P (rs_pool t) = Some s"
  shows "memory_inv_with {} (P(rs_pool t \<mapsto> lend (rs_capacity t) s,
      n \<mapsto> freshPool (rs_capacity t) (Some r))) (R(r \<mapsto> takenBy n t)) (Suc n)"
    (is "memory_inv_with {} ?P ?R _")
proof (rule mem_intro)
  note un = mem_unused [OF inv]
  have pn: "rs_pool t < n" by (rule mem_pool(1) [OF inv p])
  have rn: "r < n" by (rule mem_reservation(1) [OF inv r(1)])
  have rc: "rs_child t = None" "0 \<le> rs_capacity t"
    using mem_reservation(2) [OF inv r(1)] r(3) by (auto simp: reservation_ok_def)
  fix q s'
  assume qs: "?P q = Some s'"
  then consider (new) "q = n" "s' = freshPool (rs_capacity t) (Some r)"
    | (owner) "q = rs_pool t" "s' = lend (rs_capacity t) s"
    | (other) "q \<noteq> n" "q \<noteq> rs_pool t" "P q = Some s'"
    by (auto split: if_splits)
  note cases_q = this
  show "q < Suc n"
    using cases_q pn mem_pool(1) [OF inv] by cases fastforce+
  have caps: "capacity_of ?R = capacity_of R"
    using r(1) by (auto simp: capacity_of_def takenBy_def)
  have taken: "sum_list (map (taken_of ?R) (p_reservations u)) = sum_list (map (taken_of R) (p_reservations u)) +
      (if k = rs_pool t then rs_capacity t else 0)" if "P k = Some u" for k u
  proof -
    have "distinct (p_reservations u)"
      using mem_pool(2) [OF inv that] by (simp add: pool_ok_def)
    with mem_member_iff [OF inv r(1,2) that] r(1,3) show ?thesis
      by (auto simp: taken_of_upd takenBy_def sum_list_int_upd sum_list_cong_upd taken_of_Some
          simp del: fun_upd_apply)
  qed
  have parents: "p_parent u \<noteq> Some r" if "P k = Some u" for k u
    using mem_pool(2) [OF inv that] r(1,3) by (auto simp: pool_ok_def)
  show "pool_ok {} ?P ?R q s'"
    using cases_q
  proof cases
    case new
    with rn rc show ?thesis
      by (simp add: pool_ok_def freshPool_def takenBy_def)
  next
    case owner
    with mem_pool(2) [OF inv p] taken [OF p] parents [OF p] caps r(1) show ?thesis
      by (auto simp: pool_ok_def lend_def takenBy_def)
  next
    case other
    with mem_pool(2) [OF inv other(3)] taken [OF other(3)] parents [OF other(3)] caps r(1) show ?thesis
      by (auto simp: pool_ok_def takenBy_def)
  qed
next
  note un = mem_unused [OF inv]
  have pn: "rs_pool t < n" by (rule mem_pool(1) [OF inv p])
  have rn: "r < n" by (rule mem_reservation(1) [OF inv r(1)])
  have old: "\<exists>u'. ?P k = Some u' \<and> p_reservations u' = p_reservations u \<and> p_parent u' = p_parent u"
    if "P k = Some u" for k u
    using that p un by (cases "k = rs_pool t") (auto simp: lend_def)
  fix k u
  assume ku: "?R k = Some u"
  show "k < Suc n"
    using ku rn mem_reservation(1) [OF inv, of k u] by (auto split: if_splits)
  obtain u0 where u0: "R k = Some u0" "rs_capacity u = rs_capacity u0" "rs_pool u = rs_pool u0"
    "rs_released u = rs_released u0" "k \<noteq> r \<Longrightarrow> u = u0" "k = r \<Longrightarrow> u = takenBy n t"
    using ku r(1) by (cases "k = r") (auto simp: takenBy_def)
  show "reservation_ok ?P ?R k u"
  proof (cases "k = r")
    case True
    with mem_reservation(2) [OF inv u0(1)] u0 old rn show ?thesis
      by (fastforce simp: reservation_ok_def takenBy_def freshPool_def)
  next
    case False
    with mem_reservation(2) [OF inv u0(1)] u0 old show ?thesis
      by (fastforce simp: reservation_ok_def)
  qed
qed

section \<open>Releasing a reservation\<close>

text \<open>The first step: the reservation is marked and leaves its pool.\<close>

lemma mem_forget:
  assumes inv: "memory_inv_with A P R n" and r: "R r = Some t" "\<not> rs_released t"
    and p: "P (rs_pool t) = Some s"
  shows "memory_inv_with A (P(rs_pool t \<mapsto> forget r t s)) (R(r \<mapsto> t\<lparr>rs_released := True\<rparr>)) n"
    (is "memory_inv_with A ?P ?R _")
proof (rule mem_intro)
  have caps: "capacity_of ?R = capacity_of R" and taken: "taken_of ?R = taken_of R"
    using r(1) by (auto simp: capacity_of_def taken_of_def)
  have mem: "r \<in> set (p_reservations s)" and dist: "distinct (p_reservations s)"
    using mem_live_member [OF inv r] mem_pool(2) [OF inv p] p by (auto simp: pool_ok_def)
  have cap0: "0 \<le> rs_capacity t"
    using mem_reservation(2) [OF inv r(1)] by (simp add: reservation_ok_def)
  fix q s'
  assume qs: "?P q = Some s'"
  show "q < n"
    using qs mem_pool(1) [OF inv, of q] p by (auto split: if_splits)
  show "pool_ok A ?P ?R q s'"
  proof (cases "q = rs_pool t")
    case True
    with qs have "s' = forget r t s" by simp
    with True mem_pool(2) [OF inv p] mem dist cap0 r(1) show ?thesis
      unfolding pool_ok_def caps taken
      by (auto simp: forget_def sum_list_int_removeAll taken_of_Some distinct_removeAll)
  next
    case False
    with qs have q: "P q = Some s'" by simp
    have "r \<notin> set (p_reservations s')"
      using mem_member_iff [OF inv r q] False by simp
    with mem_pool(2) [OF inv q] r(1) show ?thesis
      unfolding pool_ok_def caps taken by auto
  qed
next
  fix k u
  assume ku: "?R k = Some u"
  obtain u0 where u0: "R k = Some u0" "rs_capacity u = rs_capacity u0" "rs_pool u = rs_pool u0"
    "rs_taken u = rs_taken u0" "rs_child u = rs_child u0" "k \<noteq> r \<Longrightarrow> u = u0" "k = r \<Longrightarrow> rs_released u"
    using ku r(1) by (cases "k = r") auto
  show "k < n"
    by (rule mem_reservation(1) [OF inv u0(1)])
  have old: "\<exists>v'. ?P j = Some v' \<and> p_parent v' = p_parent v \<and>
      set (p_reservations v) - {r} \<subseteq> set (p_reservations v')" if "P j = Some v" for j v
    using that p by (cases "j = rs_pool t") (auto simp: forget_def)
  show "reservation_ok ?P ?R k u"
    unfolding reservation_ok_def
  proof (intro conjI allI impI)
    show "0 \<le> rs_capacity u" "rs_pool u < k" "rs_taken u \<longleftrightarrow> rs_child u \<noteq> None"
      using mem_reservation(2) [OF inv u0(1)] u0(2-5) by (auto simp: reservation_ok_def)
    from mem_reservation(2) [OF inv u0(1)] obtain v where v: "P (rs_pool u0) = Some v"
      "\<not> rs_released u0 \<longrightarrow> k \<in> set (p_reservations v)"
      by (auto simp: reservation_ok_def)
    from old [OF v(1)] obtain v' where v': "?P (rs_pool u) = Some v'"
      "set (p_reservations v) - {r} \<subseteq> set (p_reservations v')"
      unfolding u0(3) by blast
    have "k \<in> set (p_reservations v')" if "\<not> rs_released u"
      using that v v' u0(6,7) by (cases "k = r") auto
    with v'(1) show "\<exists>s. ?P (rs_pool u) = Some s \<and> (\<not> rs_released u \<longrightarrow> k \<in> set (p_reservations s))"
      by blast
  next
    fix c
    assume "rs_child u = Some c"
    with mem_reservation(2) [OF inv u0(1)] obtain v where "k < c" "P c = Some v" "p_parent v = Some k"
      unfolding u0(5) by (auto simp: reservation_ok_def)
    with old [OF this(2)] show "k < c" "\<exists>s. ?P c = Some s \<and> p_parent s = Some k"
      by (blast, metis)
  qed
qed

text \<open>A pool whose release is under way may still list reservations.\<close>

lemma mem_mark:
  assumes inv: "memory_inv_with A P R n" and c: "P c = Some s"
  shows "memory_inv_with (insert c A) (P(c \<mapsto> s\<lparr>p_released := True\<rparr>)) R n"
proof (rule mem_intro)
  let ?P = "P(c \<mapsto> s\<lparr>p_released := True\<rparr>)"
  fix q s'
  assume qs: "?P q = Some s'"
  show "q < n"
    using qs mem_pool(1) [OF inv, of q] c by (auto split: if_splits)
  show "pool_ok (insert c A) ?P R q s'"
    using qs mem_pool(2) [OF inv, of q] c by (cases "q = c") (auto simp: pool_ok_def)
next
  fix k u
  assume "R k = Some u"
  from mem_reservation [OF inv this] c
  show "k < n" "reservation_ok (P(c \<mapsto> s\<lparr>p_released := True\<rparr>)) R k u"
    by (fastforce simp: reservation_ok_def)+
qed

lemma mem_unmark:
  assumes inv: "memory_inv_with (insert c A) P R n" and c: "P c = Some s" "p_reservations s = []"
  shows "memory_inv_with A P R n"
proof (rule mem_intro)
  fix q s'
  assume q: "P q = Some s'"
  show "q < n" "pool_ok A P R q s'"
    using mem_pool [OF inv q] c q by (cases "q = c"; auto simp: pool_ok_def)+
qed (use mem_reservation [OF inv] in auto)

section \<open>The recursion\<close>

abbreviation mem_ok :: "nat set \<Rightarrow> 'z memory_store_scheme \<Rightarrow> bool" where
  "mem_ok A st \<equiv> memory_inv_with A (pools st) (reservations st) (nextRef st)"

text \<open>Only pools and reservations change, and none with a reference below \<open>m\<close>.\<close>

definition only_memory :: "'z memory_store_scheme \<Rightarrow> 'z memory_store_scheme \<Rightarrow> bool" where
  "only_memory st st' = (st' = st\<lparr>pools := pools st', reservations := reservations st'\<rparr>)"

definition untouched :: "nat \<Rightarrow> 'z memory_store_scheme \<Rightarrow> 'z memory_store_scheme \<Rightarrow> bool" where
  "untouched m st st' =
     (\<forall>k<m. pools st' k = pools st k \<and> reservations st' k = reservations st k)"

lemma only_memory_refl [simp]: "only_memory st st"
  by (simp add: only_memory_def)

lemma only_memory_trans [trans]: "only_memory a b \<Longrightarrow> only_memory b c \<Longrightarrow> only_memory a c"
  unfolding only_memory_def by (cases a; cases b; cases c) simp

lemma only_memory_nextRef: "only_memory a b \<Longrightarrow> nextRef b = nextRef a"
  unfolding only_memory_def by (cases a; cases b) simp

lemma only_memory_upd [simp]: "only_memory st (updPool p f st)" "only_memory st (updReservation r g st)"
  by (cases st; simp add: only_memory_def updPool_def updReservation_def)+

lemma upd_reads [simp]:
  "pools (updPool p f st) = (pools st)(p := map_option f (pools st p))"
  "reservations (updPool p f st) = reservations st" "nextRef (updPool p f st) = nextRef st"
  "reservations (updReservation r g st) = (reservations st)(r := map_option g (reservations st r))"
  "pools (updReservation r g st) = pools st" "nextRef (updReservation r g st) = nextRef st"
  by (simp_all add: updPool_def updReservation_def)

text \<open>Releasing the live reservation \<open>r\<close>, seen from the references below it.\<close>

definition release_done ::
  "nat set \<Rightarrow> nat \<Rightarrow> reservation_state \<Rightarrow> 'z memory_store_scheme \<Rightarrow> 'z memory_store_scheme \<Rightarrow> bool" where
  "release_done A r t st st' =
     (only_memory st st' \<and> mem_ok A st' \<and>
      reservations st' r = Some (t\<lparr>rs_released := True\<rparr>) \<and>
      (\<forall>k<r. reservations st' k = reservations st k) \<and>
      (\<forall>k<r. pools st' k = (if k = rs_pool t then map_option (forget r t) (pools st k) else pools st k)))"

lemma release_members:
  assumes step: "\<And>r t (st :: 'z memory_store_scheme). nextRef st = n \<Longrightarrow> mem_ok (insert c A) st \<Longrightarrow>
      reservations st r = Some t \<Longrightarrow> \<not> rs_released t \<Longrightarrow> c < r \<Longrightarrow>
      \<exists>st'. f r st = (st', Inr True) \<and> release_done (insert c A) r t st st'"
  shows "mem_ok (insert c A) st \<Longrightarrow> pools st c = Some s \<Longrightarrow> p_reservations s = rs \<Longrightarrow> nextRef st = n \<Longrightarrow>
    \<exists>st' s'. forS f rs st = (st', Inr ()) \<and> only_memory st st' \<and> mem_ok (insert c A) st' \<and>
      pools st' c = Some s' \<and> p_reservations s' = [] \<and> p_parent s' = p_parent s \<and>
      p_released s' = p_released s \<and> untouched c st st'"
proof (induction rs arbitrary: st s)
  case Nil
  then show ?case
    by (auto simp: untouched_def)
next
  case (Cons r rs)
  from mem_pool(2) [OF Cons.prems(1,2)] Cons.prems(3) obtain t where
    t: "c < r" "reservations st r = Some t" "rs_pool t = c" "\<not> rs_released t" "r \<notin> set rs"
    by (auto simp: pool_ok_def)
  from step [OF Cons.prems(4,1) t(2,4,1)] obtain st1 where
    st1: "f r st = (st1, Inr True)" "release_done (insert c A) r t st st1"
    by blast
  have c1: "pools st1 c = Some (forget r t s)" and om: "only_memory st st1"
    and ok1: "mem_ok (insert c A) st1"
    using st1(2) t(1,3) Cons.prems(2) by (auto simp: release_done_def)
  have un: "untouched c st st1"
    using st1(2) t(1,3) by (auto simp: release_done_def untouched_def)
  have "p_reservations (forget r t s) = rs"
    using Cons.prems(3) t(5) by (simp add: forget_def)
  moreover have "nextRef st1 = n"
    using only_memory_nextRef [OF om] Cons.prems(4) by simp
  ultimately obtain st' s' where st': "forS f rs st1 = (st', Inr ())" "only_memory st1 st'"
    "mem_ok (insert c A) st'" "pools st' c = Some s'" "p_reservations s' = []"
    "p_parent s' = p_parent (forget r t s)" "p_released s' = p_released (forget r t s)"
    "untouched c st1 st'"
    using Cons.IH [OF ok1 c1] by blast
  moreover have "untouched c st st'"
    using un st'(8) by (simp add: untouched_def)
  ultimately show ?case
    using st1(1) only_memory_trans [OF om st'(2)] by (auto simp: forget_def)
qed

lemma releaseReservation_spec:
  assumes "mem_ok A st" "reservations st r = Some t" "\<not> rs_released t" "nextRef st < r + fuel"
  shows "\<exists>st'. releaseReservation fuel r st = (st', Inr True) \<and> release_done A r t st st'"
  using assms
proof (induction fuel arbitrary: A st r t)
  case 0
  then show ?case
    using mem_reservation(1) by fastforce
next
  case (Suc fuel)
  note ok = Suc.prems(1) and r = Suc.prems(2,3)
  from mem_live_member [OF ok r] obtain s where s: "pools st (rs_pool t) = Some s"
    by auto
  define st2 where "st2 = updPool (rs_pool t) (forget r t) (updReservation r (\<lambda>t. t\<lparr>rs_released := True\<rparr>) st)"
  have P2: "pools st2 = (pools st)(rs_pool t \<mapsto> forget r t s)"
    and R2: "reservations st2 = (reservations st)(r \<mapsto> t\<lparr>rs_released := True\<rparr>)"
    and n2: "nextRef st2 = nextRef st"
    using s r(1) by (simp_all add: st2_def)
  have ok2: "mem_ok A st2"
    using mem_forget [OF ok r s] by (simp only: P2 R2 n2)
  have om2: "only_memory st st2"
    unfolding st2_def by (rule only_memory_trans [of _ "updReservation r (\<lambda>t. t\<lparr>rs_released := True\<rparr>) st"]) auto
  have child: "r < c \<and> (\<exists>cs. pools st2 c = Some cs)" if "rs_child t = Some c" for c
    using mem_reservation(2) [OF ok r(1)] that s by (auto simp: reservation_ok_def P2)
  have done2: "release_done A r t st st2"
    using om2 ok2 s r mem_reservation(2) [OF ok r(1)]
    by (auto simp: release_done_def P2 R2 reservation_ok_def)
  have run: "releaseReservation (Suc fuel) r st = (case (if rs_taken t then rs_child t else None) of
      None \<Rightarrow> (st2, Inr True)
    | Some c \<Rightarrow> (case pools st2 c of
        None \<Rightarrow> (st2, Inr True)
      | Some cs \<Rightarrow>
          if p_released cs then (st2, Inr True)
          else bindS (forS (releaseReservation fuel) (p_reservations cs))
            (\<lambda>_ st'. (updPool c (\<lambda>s. s\<lparr>p_reservations := []\<rparr>) st', Inr True))
            (updPool c (\<lambda>s. s\<lparr>p_released := True\<rparr>) st2)))"
    unfolding st2_def using r by (simp add: Let_def)
  show ?case
  proof (cases "\<exists>c cs. rs_taken t \<and> rs_child t = Some c \<and> pools st2 c = Some cs \<and> \<not> p_released cs")
    case False
    then have "releaseReservation (Suc fuel) r st = (st2, Inr True)"
      unfolding run by (auto split: option.split)
    with done2 show ?thesis by blast
  next
    case True
    then obtain c cs where c: "rs_taken t" "rs_child t = Some c" "pools st2 c = Some cs"
      "\<not> p_released cs"
      by blast
    have rc: "r < c"
      using child [OF c(2)] by blast
    define st3 where "st3 = updPool c (\<lambda>s. s\<lparr>p_released := True\<rparr>) st2"
    have P3: "pools st3 = (pools st2)(c \<mapsto> cs\<lparr>p_released := True\<rparr>)"
      and R3: "reservations st3 = reservations st2" and n3: "nextRef st3 = nextRef st"
      using c(3) n2 by (simp_all add: st3_def)
    have ok3: "mem_ok (insert c A) st3"
      using mem_mark [OF ok2 c(3)] by (simp only: P3 R3 n2 n3)
    have "\<exists>st' s'. forS (releaseReservation fuel) (p_reservations cs) st3 = (st', Inr ()) \<and>
        only_memory st3 st' \<and> mem_ok (insert c A) st' \<and> pools st' c = Some s' \<and>
        p_reservations s' = [] \<and> p_parent s' = p_parent (cs\<lparr>p_released := True\<rparr>) \<and>
        p_released s' = p_released (cs\<lparr>p_released := True\<rparr>) \<and> untouched c st3 st'"
    proof (rule release_members [OF _ ok3 _ _ n3])
      fix x u and sx :: "'a memory_store_scheme"
      assume "nextRef sx = nextRef st" "mem_ok (insert c A) sx" "reservations sx x = Some u"
        "\<not> rs_released u" "c < x"
      then show "\<exists>st'. releaseReservation fuel x sx = (st', Inr True) \<and>
          release_done (insert c A) x u sx st'"
        using Suc.prems(4) rc by (intro Suc.IH) auto
    qed (simp_all add: P3)
    then obtain st4 s4 where st4: "forS (releaseReservation fuel) (p_reservations cs) st3 = (st4, Inr ())"
      "only_memory st3 st4" "mem_ok (insert c A) st4" "pools st4 c = Some s4" "p_reservations s4 = []"
      "untouched c st3 st4"
      by blast
    define st5 where "st5 = updPool c (\<lambda>s. s\<lparr>p_reservations := []\<rparr>) st4"
    have "s4\<lparr>p_reservations := []\<rparr> = s4"
      using st4(5) by (cases s4) simp
    then have P5: "pools st5 = pools st4"
      using st4(4) by (auto simp: st5_def)
    then have ok5: "mem_ok A st5"
      using mem_unmark [OF st4(3-5)] by (simp add: st5_def)
    have run5: "releaseReservation (Suc fuel) r st = (st5, Inr True)"
      unfolding run using c st4(1) by (simp add: st5_def st3_def)
    have "only_memory st3 st5"
      by (rule only_memory_trans [OF st4(2)]) (simp add: st5_def)
    moreover have "only_memory st st3"
      by (rule only_memory_trans [OF om2]) (simp add: st3_def)
    ultimately have om5: "only_memory st st5"
      using only_memory_trans by blast
    have below: "pools st5 k = pools st2 k \<and> reservations st5 k = reservations st2 k" if "k < c" for k
      using st4(6) that P5 by (auto simp: untouched_def P3 R3 st5_def)
    have "release_done A r t st st5"
      using done2 om5 ok5 below rc by (auto simp: release_done_def)
    with run5 show ?thesis by blast
  qed
qed

end
