(* ===== verification/Memory_Properties.thy ===== *)
theory Memory_Properties
  imports Memory_Invariant
begin

text \<open>
  The memory pools of \<^verbatim>\<open>peer-ledger.js\<close> as a state machine: any sequence of pool creations,
  reservations, takes and releases with any arguments.
\<close>

section \<open>Every call returns and keeps the law\<close>

lemma getPool_Some: "getPool st h = Some (p, s) \<longleftrightarrow> h = JRef p \<and> pools st p = Some s"
  by (cases h) (auto simp: getPool_def)

lemma getReservation_Some:
  "getReservation st h = Some (r, t) \<longleftrightarrow> h = JRef r \<and> reservations st r = Some t"
  by (cases h) (auto simp: getReservation_def)

lemma createPeerMemoryPool_inv:
  assumes "memory_inv st"
  shows "memory_inv (fst (createPeerMemoryPool v st))"
proof (cases "checkU32 v")
  case (Inr cap)
  then have "0 \<le> cap"
    by (simp add: checkU32_Inr)
  from mem_new_pool [OF assms [unfolded memory_inv_def] this] Inr show ?thesis
    by (simp add: createPeerMemoryPool_def newPool_def memory_inv_def)
qed (use assms in \<open>simp add: createPeerMemoryPool_def\<close>)

lemma reservePeerMemory_spec:
  assumes "memory_inv st" "getPool st h = Some (p, s)" "\<not> p_released s" "kindOk kind"
    "checkU32 v = Inr cap" "cap \<le> p_capacity s - p_reserved s"
  shows "\<exists>st'. reservePeerMemory h kind v st = (st', Inr (JRef (nextRef st))) \<and>
    pools st' = (pools st)(p \<mapsto> gain (nextRef st) cap s) \<and>
    reservations st' = (reservations st)(nextRef st \<mapsto> freshReservation p (kindName kind) cap) \<and>
    nextRef st' = Suc (nextRef st) \<and> memory_inv st'"
proof -
  have p: "pools st p = Some s"
    using assms(2) by (simp add: getPool_Some)
  have "0 \<le> cap"
    using assms(5) by (simp add: checkU32_Inr)
  note inv = mem_new_reservation [OF assms(1) [unfolded memory_inv_def] p assms(3) this assms(6)]
  let ?st = "fst (reservePeerMemory h kind v st)"
  have st: "reservePeerMemory h kind v st = (?st, Inr (JRef (nextRef st)))"
    "pools ?st = (pools st)(p \<mapsto> gain (nextRef st) cap s)"
    "reservations ?st = (reservations st)(nextRef st \<mapsto> freshReservation p (kindName kind) cap)"
    "nextRef ?st = Suc (nextRef st)"
    using assms p by (auto simp: reservePeerMemory_def Let_def gain_def freshReservation_def)
  moreover have "memory_inv ?st"
    using inv unfolding memory_inv_def st(2-4) .
  ultimately show ?thesis
    by blast
qed

lemma reservePeerMemory_refused:
  assumes "\<not> (\<exists>p s cap. getPool st h = Some (p, s) \<and> \<not> p_released s \<and> kindOk kind \<and>
    checkU32 v = Inr cap \<and> cap \<le> p_capacity s - p_reserved s)"
  shows "reservePeerMemory h kind v st = (st, Inl (Throws INVALID_ROUTE))"
  using assms readers_Inl(2) [of v]
  by (cases "checkU32 v") (auto simp: reservePeerMemory_def split: option.splits)

lemma takePeerMemory_spec:
  assumes "memory_inv st" "getReservation st h = Some (r, t)" "\<not> rs_released t" "\<not> rs_taken t"
  shows "\<exists>st' s. takePeerMemory h st = (st', Inr (JRef (nextRef st))) \<and>
    pools st (rs_pool t) = Some s \<and>
    pools st' = (pools st)(rs_pool t \<mapsto> lend (rs_capacity t) s,
      nextRef st \<mapsto> freshPool (rs_capacity t) (Some r)) \<and>
    reservations st' = (reservations st)(r \<mapsto> takenBy (nextRef st) t) \<and> memory_inv st'"
proof -
  have inv: "mem_ok {} st"
    using assms(1) by (simp add: memory_inv_def)
  have r: "reservations st r = Some t"
    using assms(2) by (simp add: getReservation_Some)
  from mem_live_member [OF inv r assms(3)] obtain s where s: "pools st (rs_pool t) = Some s"
    by auto
  let ?st = "fst (takePeerMemory h st)"
  have st: "takePeerMemory h st = (?st, Inr (JRef (nextRef st)))"
    "pools ?st = (pools st)(rs_pool t \<mapsto> lend (rs_capacity t) s,
      nextRef st \<mapsto> freshPool (rs_capacity t) (Some r))"
    "reservations ?st = (reservations st)(r \<mapsto> takenBy (nextRef st) t)"
    "nextRef ?st = Suc (nextRef st)"
    using assms r s by (auto simp: takePeerMemory_def newPool_def Let_def lend_def takenBy_def)
  moreover have "memory_inv ?st"
    using mem_take [OF inv r assms(3,4) s] unfolding memory_inv_def st(2-4) .
  ultimately show ?thesis
    using s by blast
qed

lemma takePeerMemory_refused:
  assumes "\<not> (\<exists>r t. getReservation st h = Some (r, t) \<and> \<not> rs_released t \<and> \<not> rs_taken t)"
  shows "takePeerMemory h st = (st, Inl (Throws INVALID_ROUTE))"
  using assms by (auto simp: takePeerMemory_def split: option.splits)

lemma releaseReservation_returns:
  assumes "mem_ok {} st" "reservations st r = Some t" "nextRef st < r + fuel"
  shows "\<exists>st' b. releaseReservation fuel r st = (st', Inr b) \<and> mem_ok {} st' \<and> only_memory st st'"
proof (cases "rs_released t")
  case True
  from assms obtain m where "fuel = Suc m"
    using mem_reservation(1) [OF assms(1,2)] by (cases fuel) auto
  then have "releaseReservation fuel r st = (st, Inr False)"
    using True assms(2) by simp
  with assms(1) show ?thesis
    by (intro exI [of _ st] exI [of _ False]) simp
next
  case False
  from releaseReservation_spec [OF assms(1,2) False assms(3)] show ?thesis
    by (auto simp: release_done_def)
qed

text \<open>Releasing a live pool: its reservations first, then the reservation it was made from.\<close>

lemma release_pool_members:
  assumes ok: "mem_ok {} st" and p: "pools st p = Some s"
  shows "\<exists>st1 s1. forS (releaseReservation (Suc (nextRef st))) (p_reservations s)
      (updPool p (\<lambda>s. s\<lparr>p_released := True\<rparr>) st) = (st1, Inr ()) \<and> only_memory st st1 \<and>
    mem_ok {} (updPool p (\<lambda>s. s\<lparr>p_reservations := []\<rparr>) st1) \<and> pools st1 p = Some s1 \<and>
    p_reservations s1 = [] \<and> p_parent s1 = p_parent s \<and> p_released s1"
proof -
  define st0 where "st0 = updPool p (\<lambda>s. s\<lparr>p_released := True\<rparr>) st"
  have P0: "pools st0 = (pools st)(p \<mapsto> s\<lparr>p_released := True\<rparr>)"
    and R0: "reservations st0 = reservations st" "nextRef st0 = nextRef st"
    using p by (simp_all add: st0_def)
  have ok0: "mem_ok (insert p {}) st0"
    using mem_mark [OF ok p] by (simp only: P0 R0)
  have "\<exists>st' s'. forS (releaseReservation (Suc (nextRef st))) (p_reservations s) st0 = (st', Inr ()) \<and>
      only_memory st0 st' \<and> mem_ok (insert p {}) st' \<and> pools st' p = Some s' \<and>
      p_reservations s' = [] \<and> p_parent s' = p_parent (s\<lparr>p_released := True\<rparr>) \<and>
      p_released s' = p_released (s\<lparr>p_released := True\<rparr>) \<and> untouched p st0 st'"
  proof (rule release_members [OF _ ok0 _ _ R0(2)])
    fix x u and sx :: "'a memory_store_scheme"
    assume "nextRef sx = nextRef st" "mem_ok {p} sx" "reservations sx x = Some u"
      "\<not> rs_released u" "p < x"
    then show "\<exists>st'. releaseReservation (Suc (nextRef st)) x sx = (st', Inr True) \<and>
        release_done {p} x u sx st'"
      by (intro releaseReservation_spec) auto
  qed (simp_all add: P0)
  then obtain st1 s1 where st1:
    "forS (releaseReservation (Suc (nextRef st))) (p_reservations s) st0 = (st1, Inr ())"
    "only_memory st0 st1" "mem_ok {p} st1" "pools st1 p = Some s1" "p_reservations s1 = []"
    "p_parent s1 = p_parent s" "p_released s1"
    by auto
  have "s1\<lparr>p_reservations := []\<rparr> = s1"
    using st1(5) by (cases s1) simp
  then have "pools (updPool p (\<lambda>s. s\<lparr>p_reservations := []\<rparr>) st1) = pools st1"
    using st1(4) by auto
  then have "mem_ok {} (updPool p (\<lambda>s. s\<lparr>p_reservations := []\<rparr>) st1)"
    using mem_unmark [of p "{}", OF st1(3-5)] by simp
  moreover have "only_memory st st1"
    by (rule only_memory_trans [OF _ st1(2)]) (simp add: st0_def)
  ultimately show ?thesis
    using st1 by (simp add: st0_def)
qed

lemma releasePeerMemory_returns:
  assumes "memory_inv st"
  shows "\<exists>st' res. releasePeerMemory h st = (st', res) \<and> memory_inv st' \<and> only_memory st st' \<and>
    res \<in> {Inr True, Inr False, Inl (Throws INVALID_ROUTE)}"
proof -
  have ok: "mem_ok {} st"
    using assms by (simp add: memory_inv_def)
  consider (pool) p s where "getPool st h = Some (p, s)" "\<not> p_released s"
    | (gone) p s where "getPool st h = Some (p, s)" "p_released s"
    | (reservation) r t where "getPool st h = None" "getReservation st h = Some (r, t)"
    | (neither) "getPool st h = None" "getReservation st h = None"
    by (cases "getPool st h"; cases "getReservation st h") auto
  then show ?thesis
  proof cases
    case pool
    then have p: "pools st p = Some s"
      by (simp add: getPool_Some)
    from release_pool_members [OF ok p] obtain st1 s1 where st1:
      "forS (releaseReservation (Suc (nextRef st))) (p_reservations s)
        (updPool p (\<lambda>s. s\<lparr>p_released := True\<rparr>) st) = (st1, Inr ())" "only_memory st st1"
      "mem_ok {} (updPool p (\<lambda>s. s\<lparr>p_reservations := []\<rparr>) st1)" "pools st1 p = Some s1"
      "p_parent s1 = p_parent s"
      by blast
    define st2 where "st2 = updPool p (\<lambda>s. s\<lparr>p_reservations := []\<rparr>) st1"
    have om2: "only_memory st st2" and n2: "nextRef st2 = nextRef st"
      using st1(2) only_memory_trans only_memory_nextRef by (fastforce simp: st2_def)+
    have "\<exists>st' b. releasePeerMemory h st = (st', Inr b) \<and> mem_ok {} st' \<and> only_memory st2 st'"
    proof (cases "p_parent s")
      case None
      then show ?thesis
        using pool st1
        by (intro exI [of _ st2] exI [of _ True])
          (simp add: releasePeerMemory_def st2_def del: releaseReservation.simps)
    next
      case (Some r)
      have ok2: "mem_ok {} st2"
        using st1(3) by (simp add: st2_def)
      moreover have "pools st2 p = Some (s1\<lparr>p_reservations := []\<rparr>)"
        using st1(4) by (simp add: st2_def)
      ultimately obtain t where "reservations st2 r = Some t"
        using mem_pool(2) [of "{}" "pools st2"] Some st1(5) by (fastforce simp: pool_ok_def)
      from releaseReservation_returns [OF ok2 this, of "Suc (nextRef st)"] n2 obtain st' b where
        "releaseReservation (Suc (nextRef st)) r st2 = (st', Inr b)" "mem_ok {} st'" "only_memory st2 st'"
        by auto
      with Some pool st1(1) show ?thesis
        by (intro exI [of _ st'] exI [of _ True]) (simp add: releasePeerMemory_def st2_def Let_def del: releaseReservation.simps)
    qed
    then obtain st' b where "releasePeerMemory h st = (st', Inr b)" "mem_ok {} st'" "only_memory st2 st'"
      by blast
    with only_memory_trans [OF om2] show ?thesis
      by (cases b) (auto simp: memory_inv_def)
  next
    case gone
    then show ?thesis
      using assms by (simp add: releasePeerMemory_def)
  next
    case reservation
    then have "reservations st r = Some t"
      by (simp add: getReservation_Some)
    from releaseReservation_returns [OF ok this, of "Suc (nextRef st)"] obtain st' b where
      "releaseReservation (Suc (nextRef st)) r st = (st', Inr b)" "mem_ok {} st'" "only_memory st st'"
      by auto
    with reservation show ?thesis
      by (cases b) (auto simp: releasePeerMemory_def memory_inv_def simp del: releaseReservation.simps)
  next
    case neither
    then show ?thesis
      using assms by (simp add: releasePeerMemory_def)
  qed
qed

section \<open>The state machine\<close>

datatype memory_op =
    CreatePool jsval
  | ReserveMemory jsval jsval jsval
  | TakeMemory jsval
  | ReleaseMemory jsval

fun memory_step :: "memory_op \<Rightarrow> 'z memory_store_scheme \<Rightarrow> 'z memory_store_scheme" where
  "memory_step (CreatePool v) st = fst (createPeerMemoryPool v st)"
| "memory_step (ReserveMemory pool kind v) st = fst (reservePeerMemory pool kind v st)"
| "memory_step (TakeMemory h) st = fst (takePeerMemory h st)"
| "memory_step (ReleaseMemory h) st = fst (releasePeerMemory h st)"

definition emptyMemory :: memory_store where
  "emptyMemory = \<lparr>ledgers = Map.empty, nextRef = 0, pools = Map.empty, reservations = Map.empty\<rparr>"

lemma memory_step_inv: "memory_inv st \<Longrightarrow> memory_inv (memory_step x st)"
proof (induction x st rule: memory_step.induct)
  case (2 pool kind v st)
  then show ?case
    using reservePeerMemory_spec reservePeerMemory_refused by (metis fst_conv memory_step.simps(2))
next
  case (3 h st)
  then show ?case
    using takePeerMemory_spec takePeerMemory_refused by (metis fst_conv memory_step.simps(3))
next
  case (4 h st)
  then show ?case
    using releasePeerMemory_returns by (metis fst_conv memory_step.simps(4))
qed (simp add: createPeerMemoryPool_inv)

interpretation memm: op_system memory_step memory_inv
  by unfold_locales (rule memory_step_inv)

lemma memory_run_inv: "memory_inv (fold memory_step ops emptyMemory)"
  by (rule memm.run_inv) (simp add: emptyMemory_def memory_inv_def memory_inv_with_def)

section \<open>Properties\<close>

text \<open>
  After any sequence of pool creations, reservations, takes and releases every pool satisfies:
  the bytes taken are at most the bytes reserved and those at most its capacity; the reserved bytes
  are exactly the capacities of its live reservations; a pool made from a taken reservation has
  exactly the capacity of that reservation; and a released pool has nothing reserved.
\<close>

theorem memory_pools_within_capacity:
  assumes "st = fold memory_step ops emptyMemory" "pools st p = Some s"
  shows "0 \<le> p_taken s \<and> p_taken s \<le> p_reserved s \<and> p_reserved s \<le> p_capacity s \<and>
    p_reserved s = sum_list (map (capacity_of (reservations st)) (p_reservations s)) \<and>
    (\<forall>r\<in>set (p_reservations s). \<exists>t. reservations st r = Some t \<and> rs_pool t = p \<and> \<not> rs_released t) \<and>
    (\<forall>r. p_parent s = Some r \<longrightarrow> capacity_of (reservations st) r = p_capacity s) \<and>
    (p_released s \<longrightarrow> p_reserved s = 0)"
proof -
  have ok: "mem_ok {} st"
    using memory_run_inv [of ops] by (simp add: memory_inv_def assms(1))
  show ?thesis
    using mem_taken_le_reserved [OF ok assms(2)] mem_pool(2) [OF ok assms(2)]
    by (fastforce simp: pool_ok_def)
qed

definition example_memory :: "memory_op list" where
  "example_memory = [CreatePool (JNum 100), ReserveMemory (JRef 0) (JStr ''noise'') (JNum 60),
     TakeMemory (JRef 1), ReserveMemory (JRef 2) (JStr ''slot'') (JNum 50)]"

lemmas memory_eval = createPeerMemoryPool_def reservePeerMemory_def takePeerMemory_def newPool_def
  getPool_def getReservation_def freshPool_def emptyMemory_def MAX_U32_def

lemma example_memory_pool:
  "pools (fold memory_step example_memory emptyMemory) 2 = Some \<lparr>p_capacity = 60, p_reserved = 50,
     p_taken = 0, p_released = False, p_reservations = [3], p_parent = Some 1\<rparr>"
  by (simp add: example_memory_def memory_eval)

theorem memory_pools_within_capacity_witness:
  "capacity_of (reservations (fold memory_step example_memory emptyMemory)) 1 = 60"
  using memory_pools_within_capacity [OF refl example_memory_pool] by simp

text \<open>
  Releasing memory always returns. Releasing a live reservation returns true, marks it
  released, and its pool gets its capacity back (and, when it was taken, is charged that much less
  as taken); no pool and no reservation made before it changes otherwise.
\<close>

theorem memory_release_returns_capacity:
  assumes "st = fold memory_step ops emptyMemory" "pools st r = None"
    "reservations st r = Some t" "\<not> rs_released t"
  shows "\<exists>st' s. releasePeerMemory (JRef r) st = (st', Inr True) \<and>
    reservations st' r = Some (t\<lparr>rs_released := True\<rparr>) \<and>
    pools st (rs_pool t) = Some s \<and> r \<in> set (p_reservations s) \<and>
    pools st' (rs_pool t) = Some (forget r t s) \<and>
    (\<forall>k<r. reservations st' k = reservations st k \<and> (k \<noteq> rs_pool t \<longrightarrow> pools st' k = pools st k))"
proof -
  have ok: "mem_ok {} st"
    using memory_run_inv [of ops] by (simp add: memory_inv_def assms(1))
  from releaseReservation_spec [OF ok assms(3,4), of "Suc (nextRef st)"] obtain st' where
    st': "releaseReservation (Suc (nextRef st)) r st = (st', Inr True)" "release_done {} r t st st'"
    by auto
  moreover obtain s where "pools st (rs_pool t) = Some s" "r \<in> set (p_reservations s)"
    using mem_live_member [OF ok assms(3,4)] by blast
  moreover have "rs_pool t < r"
    using mem_reservation(2) [OF ok assms(3)] by (simp add: reservation_ok_def)
  ultimately show ?thesis
    using assms(2,3)
    by (auto simp: releasePeerMemory_def getPool_def getReservation_def release_done_def
        simp del: releaseReservation.simps)
qed

theorem memory_release_returns_capacity_witness:
  "\<exists>st' s. releasePeerMemory (JRef 3) (fold memory_step example_memory emptyMemory) = (st', Inr True) \<and>
    pools (fold memory_step example_memory emptyMemory) 2 = Some s \<and>
    pools st' 2 = Some (forget 3 (freshReservation 2 ''slot'' 50) s)"
proof -
  have "reservations (fold memory_step example_memory emptyMemory) 3 = Some (freshReservation 2 ''slot'' 50)"
      "pools (fold memory_step example_memory emptyMemory) 3 = None"
    by (simp_all add: example_memory_def memory_eval freshReservation_def)
  from memory_release_returns_capacity [OF refl this(2,1)] show ?thesis
    by (auto simp: freshReservation_def)
qed

end
