(* ===== verification/Peer_Narrow.thy ===== *)
theory Peer_Narrow
  imports Memory_Properties
begin

text \<open>
  \<^verbatim>\<open>narrowPeerReservations\<close> of \<^verbatim>\<open>lib/private/peer-ledger.js\<close>: a downward renegotiation of
  several ledgers and memory reservations at once. Everything is read, then checked against the live
  state, then published together.
\<close>

section \<open>Reading the plan\<close>

definition readLedgerPlan :: "jsval \<Rightarrow> error_code + jsval \<times> row" where
  "readLedgerPlan v =
     bindE (ownProp v ''ledger'') (\<lambda>handle.
     bindE (u32Prop v ''cells'') (\<lambda>c.
     bindE (u64Prop v ''bytes'') (\<lambda>b.
     bindE (u32Prop v ''commands'') (\<lambda>cmd. Inr (handle, Row c b cmd)))))"

definition readMemoryPlan :: "jsval \<Rightarrow> error_code + jsval \<times> int" where
  "readMemoryPlan v =
     bindE (ownProp v ''reservation'') (\<lambda>handle.
     bindE (u32Prop v ''capacityBytes'') (\<lambda>cap. Inr (handle, cap)))"

definition readPlans :: "jsval \<Rightarrow> error_code + (jsval \<times> row) list \<times> (jsval \<times> int) list" where
  "readPlans options =
     bindE (ownProp options ''ledgers'') (\<lambda>ledgerRows.
     bindE (ownProp options ''memory'') (\<lambda>memoryRows.
     bindE (arrayElements ledgerRows) (\<lambda>ls.
     bindE (arrayElements memoryRows) (\<lambda>ms.
     bindE (mapE readLedgerPlan ls) (\<lambda>lps.
     bindE (mapE readMemoryPlan ms) (\<lambda>mps. Inr (lps, mps)))))))"

section \<open>Checking it against the live state\<close>

text \<open>
  The first loop: resolve each handle, refuse a repeated or dead one and a row above the current
  allocation, and add up what flows back to each parent (\<open>returnedToParent\<close>).
\<close>

fun resolveLedgers ::
  "'z ledger_store_scheme \<Rightarrow> (jsval \<times> row) list \<Rightarrow> jsval list \<Rightarrow> (nat \<Rightarrow> row) \<Rightarrow>
   error_code + (nat \<times> ledger_state \<times> row) list \<times> jsval list \<times> (nat \<Rightarrow> row)" where
  "resolveLedgers st [] seen ret = Inr ([], seen, ret)"
| "resolveLedgers st ((handle, r) # plans) seen ret = (case getLedger st handle of
     None \<Rightarrow> Inl INVALID_ROUTE
   | Some (h, s) \<Rightarrow>
       if released s \<or> handle \<in> set seen then Inl INVALID_ROUTE
       else if \<not> r \<le> allocated s then Inl INVALID_ROUTE
       else
         let ret' = (case parentState s of
               None \<Rightarrow> ret
             | Some p \<Rightarrow> ret(p := ret p + (allocated s - r))) in
         bindE (resolveLedgers st plans (handle # seen) ret') (\<lambda>(ps, seen', ret''). Inr ((h, s, r) # ps, seen', ret'')))"

text \<open>The second loop: no row below what is spent and will remain reserved.\<close>

definition ledgersFit :: "(nat \<times> ledger_state \<times> row) list \<Rightarrow> (nat \<Rightarrow> row) \<Rightarrow> bool" where
  "ledgersFit plans ret = list_all (\<lambda>(h, s, r). spent s + reserved s - ret h \<le> r) plans"

fun resolveMemory ::
  "'z memory_store_scheme \<Rightarrow> (jsval \<times> int) list \<Rightarrow> jsval list \<Rightarrow>
   error_code + (nat \<times> reservation_state \<times> int) list" where
  "resolveMemory st [] seen = Inr []"
| "resolveMemory st ((handle, cap) # plans) seen = (case getReservation st handle of
     None \<Rightarrow> Inl INVALID_ROUTE
   | Some (r, t) \<Rightarrow>
       if rs_released t \<or> handle \<in> set seen then Inl INVALID_ROUTE
       else if cap > rs_capacity t then Inl INVALID_ROUTE
       else if rs_taken t \<and> cap \<noteq> rs_capacity t then Inl INVALID_ROUTE
       else bindE (resolveMemory st plans (handle # seen)) (\<lambda>ps. Inr ((r, t, cap) # ps)))"

section \<open>Publishing\<close>

definition publishLedger ::
  "nat \<times> ledger_state \<times> row \<Rightarrow> 'z ledger_store_scheme \<Rightarrow> 'z ledger_store_scheme" where
  "publishLedger = (\<lambda>(h, s, r) st.
     let st1 = updLedger h (\<lambda>u. u\<lparr>allocated := r\<rparr>) st in
     case parentState s of
       None \<Rightarrow> st1
     | Some p \<Rightarrow> updLedger p (\<lambda>q. q\<lparr>reserved := reserved q - (allocated s - r)\<rparr>) st1)"

definition publishMemory ::
  "nat \<times> reservation_state \<times> int \<Rightarrow> 'z memory_store_scheme \<Rightarrow> 'z memory_store_scheme" where
  "publishMemory = (\<lambda>(r, t, cap) st.
     updPool (rs_pool t) (\<lambda>s. s\<lparr>p_reserved := p_reserved s - (rs_capacity t - cap)\<rparr>)
       (updReservation r (\<lambda>u. u\<lparr>rs_capacity := cap\<rparr>) st))"

definition narrowPeerReservations :: "jsval \<Rightarrow> ('z memory_store_scheme, failure, unit) action" where
  "narrowPeerReservations options st =
     (case bindE (readPlans options) (\<lambda>(lps, mps).
             bindE (resolveLedgers st lps [] (\<lambda>_. 0)) (\<lambda>(ls, seen, ret).
             bindE (requireE INVALID_ROUTE (ledgersFit ls ret)) (\<lambda>_.
             bindE (resolveMemory st mps seen) (\<lambda>ms. Inr (ls, ms))))) of
        Inl e \<Rightarrow> (st, Inl (Throws e))
      | Inr (ls, ms) \<Rightarrow> (fold publishMemory ms (fold publishLedger ls st), Inr ()))"

section \<open>The ledgers after publication\<close>

text \<open>What a plan takes from each ledger's allocation, and what flows back to each parent.\<close>

fun cutOf :: "(nat \<times> ledger_state \<times> row) list \<Rightarrow> nat \<Rightarrow> row" where
  "cutOf [] = (\<lambda>_. 0)"
| "cutOf ((h, s, r) # ps) = (cutOf ps)(h := allocated s - r)"

fun flow :: "(nat \<times> ledger_state \<times> row) list \<Rightarrow> nat \<Rightarrow> row" where
  "flow [] = (\<lambda>_. 0)"
| "flow ((h, s, r) # ps) =
     (\<lambda>k. flow ps k + (if parentState s = Some k then allocated s - r else 0))"

definition narrowed :: "row \<Rightarrow> row \<Rightarrow> ledger_state \<Rightarrow> ledger_state" where
  "narrowed c f s = s\<lparr>allocated := allocated s - c, reserved := reserved s - f\<rparr>"

lemma narrowed_fields [simp]:
  "children (narrowed c f s) = children s" "released (narrowed c f s) = released s"
  "parentState (narrowed c f s) = parentState s" "allocated (narrowed c f s) = allocated s - c"
  "spent (narrowed c f s) = spent s" "reserved (narrowed c f s) = reserved s - f"
  "directCellsSpent (narrowed c f s) = directCellsSpent s"
  by (simp_all add: narrowed_def)

text \<open>A resolved plan: distinct live ledgers of the store, rows within their allocations.\<close>

definition plan_ok :: "(nat \<rightharpoonup> ledger_state) \<Rightarrow> (nat \<times> ledger_state \<times> row) list \<Rightarrow> bool" where
  "plan_ok L ps = (distinct (map fst ps) \<and>
     list_all (\<lambda>(h, s, r). L h = Some s \<and> \<not> released s \<and> r \<le> allocated s) ps)"

lemma resolveLedgers_ok:
  "resolveLedgers st lps seen ret = Inr (ps, seen', ret') \<Longrightarrow>
     plan_ok (ledgers st) ps \<and> ret' = (\<lambda>k. ret k + flow ps k) \<and>
     (\<forall>(h, s, r)\<in>set ps. JRef h \<notin> set seen) \<and> set seen \<subseteq> set seen'"
proof (induction lps arbitrary: seen ret ps ret')
  case Nil
  then show ?case by (auto simp: plan_ok_def)
next
  case (Cons x lps)
  obtain handle r where x: "x = (handle, r)" by force
  from Cons.prems obtain h s where hs: "getLedger st handle = Some (h, s)"
    by (cases "getLedger st handle") (auto simp: x)
  define ret1 where "ret1 = (case parentState s of
      None \<Rightarrow> ret | Some p \<Rightarrow> ret(p := ret p + (allocated s - r)))"
  from hs have g: "handle = JRef h" "ledgers st h = Some s"
    by (simp_all add: getLedger_Some)
  from Cons.prems have cond: "\<not> released s" "handle \<notin> set seen" "r \<le> allocated s"
    and run: "bindE (resolveLedgers st lps (handle # seen) ret1)
      (\<lambda>(ps, seen', ret''). Inr ((h, s, r) # ps, seen', ret'')) = Inr (ps, seen', ret')"
    by (simp_all add: x hs ret1_def Let_def split: if_splits)
  from run obtain ps0 where ps: "ps = (h, s, r) # ps0"
    and rec: "resolveLedgers st lps (handle # seen) ret1 = Inr (ps0, seen', ret')"
    by (auto simp: result_simps)
  note ih = Cons.IH [OF rec]
  then have apart: "\<And>k u v. (k, u, v) \<in> set ps0 \<Longrightarrow> k \<noteq> h \<and> JRef k \<notin> set seen"
    using g(1) by auto
  show ?case
  proof (intro conjI)
    show "plan_ok (ledgers st) ps"
      using ih g cond apart unfolding ps plan_ok_def by fastforce
    show "ret' = (\<lambda>k. ret k + flow ps k)"
      using ih unfolding ps by (cases "parentState s") (auto simp: ret1_def fun_eq_iff add_ac)
    show "\<forall>(h, s, r)\<in>set ps. JRef h \<notin> set seen"
      using apart g(1) cond(2) unfolding ps by auto
    show "set seen \<subseteq> set seen'"
      using ih by auto
  qed
qed

lemma narrowed_0 [simp]: "narrowed 0 0 u = u"
  by (cases u) (simp add: narrowed_def)

lemma narrowed_narrowed [simp]: "narrowed c f (narrowed c' f' u) = narrowed (c + c') (f + f') u"
  by (cases u) (simp add: narrowed_def algebra_simps)

lemma narrowed_allocated: "u\<lparr>allocated := r\<rparr> = narrowed (allocated u - r) 0 u"
  by (cases u) (simp add: narrowed_def)

lemma narrowed_reserved: "u\<lparr>reserved := reserved u - f\<rparr> = narrowed 0 f u"
  by (cases u) (simp add: narrowed_def)

lemma ledgers_publishLedger:
  assumes "map_option allocated (ledgers st h) = Some (allocated s)"
  shows "ledgers (publishLedger (h, s, r) st) k = map_option (narrowed (if k = h then allocated s - r else 0)
      (if parentState s = Some k then allocated s - r else 0)) (ledgers st k)"
proof -
  obtain u where u: "ledgers st h = Some u" "allocated u = allocated s"
    using assms by auto
  have id: "map_option (narrowed 0 0) x = x" for x
    by (simp add: option.map_ident_strong)
  show ?thesis
    using u by (cases "parentState s"; cases "k = h")
      (auto simp: publishLedger_def narrowed_allocated narrowed_reserved id)
qed

lemma cut_notin: "h \<notin> fst ` set ps \<Longrightarrow> cutOf ps h = 0"
  by (induction ps rule: cutOf.induct) auto

lemma ledgers_publish:
  assumes "plan_ok L ps" "\<And>h s r. (h, s, r) \<in> set ps \<Longrightarrow> map_option allocated (ledgers st h) = Some (allocated s)"
  shows "ledgers (fold publishLedger ps st) k = map_option (narrowed (cutOf ps k) (flow ps k)) (ledgers st k)"
  using assms
proof (induction ps arbitrary: st)
  case Nil
  then show ?case
    by (simp add: option.map_ident_strong)
next
  case (Cons x ps)
  obtain h s r where x: "x = (h, s, r)" by (cases x)
  let ?st = "publishLedger (h, s, r) st"
  have one: "ledgers ?st k = map_option (narrowed (if k = h then allocated s - r else 0)
      (if parentState s = Some k then allocated s - r else 0)) (ledgers st k)" for k
    using Cons.prems(2) [of h s r] by (intro ledgers_publishLedger) (simp add: x)
  have dist: "h \<notin> fst ` set ps" and ok: "plan_ok L ps"
    using Cons.prems(1) by (auto simp: plan_ok_def x)
  have "map_option allocated (ledgers ?st h') = Some (allocated s')" if "(h', s', r') \<in> set ps" for h' s' r'
  proof -
    have "h' \<noteq> h"
      using that dist by force
    then show ?thesis
      using Cons.prems(2) [of h' s' r'] that by (auto simp: one)
  qed
  from Cons.IH [OF ok this] have "ledgers (fold publishLedger ps ?st) k =
      map_option (narrowed (cutOf ps k + (if k = h then allocated s - r else 0))
        (flow ps k + (if parentState s = Some k then allocated s - r else 0))) (ledgers st k)"
    by (simp add: one option.map_comp comp_def)
  moreover have "cutOf ps k + (if k = h then allocated s - r else 0) = cutOf (x # ps) k"
    using cut_notin [OF dist] by (simp add: x)
  ultimately show ?case
    by (simp add: x)
qed

section \<open>The law after publication\<close>

lemma cut_nonneg: "plan_ok L ps \<Longrightarrow> 0 \<le> cutOf ps k"
  by (induction ps rule: cutOf.induct) (auto simp: plan_ok_def)

lemma flow_nonneg: "plan_ok L ps \<Longrightarrow> 0 \<le> flow ps k"
  by (induction ps rule: flow.induct) (auto simp: plan_ok_def)

lemma cut_planned:
  "plan_ok L ps \<Longrightarrow> (h, s, r) \<in> set ps \<Longrightarrow> cutOf ps h = allocated s - r"
proof (induction ps rule: cutOf.induct)
  case (2 h' s' r' ps)
  then show ?case
    by (force simp: plan_ok_def)
qed simp

text \<open>What the children of a ledger give up is what flows back to it.\<close>

lemma children_cut_flow:
  assumes inv: "ledger_inv_with {} (\<lambda>_. 0) L n" and k: "L k = Some u" and plan: "plan_ok L ps"
  shows "sum_list (map (cutOf ps) (children u)) = flow ps k"
  using plan
proof (induction ps rule: cutOf.induct)
  case (2 h s r ps)
  have dist: "distinct (children u)"
    using inv_node(3) [OF inv k] by (simp add: children_ok_def)
  from 2(2) have h: "L h = Some s" "\<not> released s" "h \<notin> fst ` set ps" "plan_ok L ps"
    by (auto simp: plan_ok_def)
  have "h \<in> set (children u) \<longleftrightarrow> parentState s = Some k"
    by (rule inv_child_iff [OF inv h(1,2) k])
  then show ?case
    using 2(1) [OF h(4)] sum_list_fun_upd [OF dist, of "cutOf ps" h "allocated s - r"] cut_notin [OF h(3)]
    by (simp del: fun_upd_apply)
qed (induction "children u"; simp)

lemma sum_list_diff:
  fixes f g :: "'k \<Rightarrow> row"
  shows "sum_list (map (\<lambda>x. f x - g x) xs) = sum_list (map f xs) - sum_list (map g xs)"
  by (induction xs) (auto simp: algebra_simps)

definition narrowedL :: "(nat \<times> ledger_state \<times> row) list \<Rightarrow> (nat \<rightharpoonup> ledger_state) \<Rightarrow> nat \<rightharpoonup> ledger_state" where
  "narrowedL ps L k = map_option (narrowed (cutOf ps k) (flow ps k)) (L k)"

lemma unspent_narrowedL: "L k = Some u \<Longrightarrow> unspent (narrowedL ps L) k = unspent L k - cutOf ps k"
  by (simp add: unspent_def narrowedL_def algebra_simps)

lemma inv_narrowed:
  assumes inv: "ledger_inv_with {} (\<lambda>_. 0) L n" and plan: "plan_ok L ps"
    and fit: "\<And>h s r. (h, s, r) \<in> set ps \<Longrightarrow> spent s + reserved s - flow ps h \<le> r"
  shows "ledger_inv_with {} (\<lambda>_. 0) (narrowedL ps L) n"
proof -
  let ?L = "narrowedL ps L"
  have res: "reserved u - flow ps k = sum_list (map (unspent ?L) (children u))" if "L k = Some u" for k u
  proof -
    have eq: "map (unspent ?L) (children u) = map (\<lambda>c. unspent L c - cutOf ps c) (children u)"
      using inv_node(3) [OF inv that] by (auto simp: children_ok_def unspent_narrowedL)
    show ?thesis
      unfolding eq sum_list_diff
      using inv_node(5) [OF inv that] children_cut_flow [OF inv that plan] by simp
  qed
  have within: "spent u + (reserved u - flow ps k) \<le> allocated u - cutOf ps k" if "L k = Some u" for k u
  proof (cases "k \<in> fst ` set ps")
    case True
    then obtain s r where mem: "(k, s, r) \<in> set ps"
      by auto
    then have "s = u"
      using plan that by (auto simp: plan_ok_def list_all_iff)
    then show ?thesis
      using fit [OF mem] cut_planned [OF plan mem] by (auto simp: less_eq_row_def)
  next
    case False
    moreover have "spent u + reserved u \<le> allocated u"
      using inv_node(2) [OF inv that] by (simp add: amounts_ok_def)
    ultimately show ?thesis
      using flow_nonneg [OF plan, of k] by (simp add: cut_notin less_eq_row_def)
  qed
  have nonneg: "0 \<le> reserved u - flow ps k" if "L k = Some u" for k u
    using that
  proof (induction "n - k" arbitrary: k u rule: less_induct)
    case less
    have "0 \<le> unspent ?L c" if c: "c \<in> set (children u)" for c
    proof -
      from inv_node(3) [OF inv less.prems] c obtain t where t: "k < c" "L c = Some t"
        by (auto simp: children_ok_def)
      have "n - c < n - k"
        using t(1) inv_node(1) [OF inv t(2)] by linarith
      with less.hyps t(2) have "0 \<le> reserved t - flow ps c"
        by blast
      with within [OF t(2)] show ?thesis
        using t(2) by (auto simp: unspent_def narrowedL_def less_eq_row_def)
    qed
    then show ?case
      unfolding res [OF less.prems] by (rule sum_list_rows_nonneg)
  qed
  show ?thesis
  proof (rule inv_intro)
    fix k t
    assume "?L k = Some t"
    then obtain u where u: "L k = Some u" "t = narrowed (cutOf ps k) (flow ps k) u"
      by (auto simp: narrowedL_def)
    have look: "\<exists>v'. ?L j = Some v' \<and> parentState v' = parentState v \<and> released v' = released v \<and>
        children v' = children v" if "L j = Some v" for j v
      using that by (simp add: narrowedL_def)
    show "k < n"
      by (rule inv_node(1) [OF inv u(1)])
    show "amounts_ok t"
      using within [OF u(1)] nonneg [OF u(1)] inv_node(2) [OF inv u(1)] by (simp add: u amounts_ok_def)
    show "children_ok {} ?L k t"
      using inv_node(3) [OF inv u(1)] look by (fastforce simp: u children_ok_def)
    show "parent_ok ?L k t"
      using inv_node(4) [OF inv u(1)] look by (fastforce simp: u parent_ok_def)
    show "reserved t = sum_list (map (unspent ?L) (children t)) + 0"
      using res [OF u(1)] by (simp add: u)
    show "released t \<Longrightarrow> k \<notin> {} \<Longrightarrow> children t = []"
      using inv_node(6) [OF inv u(1)] by (simp add: u)
  qed
qed

section \<open>The reservations after publication\<close>

lemma mem_shrink:
  assumes inv: "memory_inv_with {} P R n" and r: "R r = Some t" "\<not> rs_released t"
    and cap: "0 \<le> cap" "cap \<le> rs_capacity t" "rs_taken t \<Longrightarrow> cap = rs_capacity t"
    and p: "P (rs_pool t) = Some s"
  shows "memory_inv_with {} (P(rs_pool t \<mapsto> s\<lparr>p_reserved := p_reserved s - (rs_capacity t - cap)\<rparr>))
    (R(r \<mapsto> t\<lparr>rs_capacity := cap\<rparr>)) n" (is "memory_inv_with {} ?P ?R n")
proof (rule mem_intro)
  have taken: "taken_of ?R = taken_of R"
    using r(1) cap(3) by (auto simp: taken_of_def)
  have sums: "sum_list (map (capacity_of ?R) (p_reservations u)) =
      sum_list (map (capacity_of R) (p_reservations u)) - (if q = rs_pool t then rs_capacity t - cap else 0)"
    if "P q = Some u" for q u
  proof -
    have "distinct (p_reservations u)"
      using mem_pool(2) [OF inv that] by (simp add: pool_ok_def)
    with mem_member_iff [OF inv r that] r(1) show ?thesis
      by (auto simp: capacity_of_upd sum_list_int_upd sum_list_cong_upd simp del: fun_upd_apply)
  qed
  fix q u
  assume qu: "?P q = Some u"
  obtain u0 where u0: "P q = Some u0" "p_reservations u = p_reservations u0" "p_taken u = p_taken u0"
    "p_capacity u = p_capacity u0" "p_released u = p_released u0" "p_parent u = p_parent u0"
    "p_reserved u = p_reserved u0 - (if q = rs_pool t then rs_capacity t - cap else 0)"
    using qu p by (cases "q = rs_pool t") auto
  show "q < n"
    by (rule mem_pool(1) [OF inv u0(1)])
  have low: "p_reserved u0 - (if q = rs_pool t then rs_capacity t - cap else 0) \<le> p_reserved u0"
    using cap(2) by simp
  have parent: "r' < q \<and> (\<exists>v. ?R r' = Some v \<and> rs_taken v \<and> rs_child v = Some q \<and>
      rs_capacity v = p_capacity u0)" if "p_parent u0 = Some r'" for r'
    using mem_pool(2) [OF inv u0(1)] that r(1) cap(3) by (auto simp: pool_ok_def)
  have members: "q < x \<and> (\<exists>v. ?R x = Some v \<and> rs_pool v = q \<and> \<not> rs_released v)"
    if "x \<in> set (p_reservations u0)" for x
    using mem_pool(2) [OF inv u0(1)] that r by (auto simp: pool_ok_def)
  show "pool_ok {} ?P ?R q u"
    using mem_pool(2) [OF inv u0(1)] parent members sums [OF u0(1)] low taken u0(2-7)
    unfolding pool_ok_def by (auto simp del: fun_upd_apply)
next
  fix k v
  assume kv: "?R k = Some v"
  obtain v0 where v0: "R k = Some v0" "rs_pool v = rs_pool v0" "rs_taken v = rs_taken v0"
    "rs_child v = rs_child v0" "rs_released v = rs_released v0" "0 \<le> rs_capacity v0 \<Longrightarrow> 0 \<le> rs_capacity v"
    using kv r(1) cap(1) by (cases "k = r") auto
  have look: "\<exists>u'. ?P q = Some u' \<and> p_reservations u' = p_reservations u \<and> p_parent u' = p_parent u"
    if "P q = Some u" for q u
    using that p by (cases "q = rs_pool t") auto
  show "k < n"
    by (rule mem_reservation(1) [OF inv v0(1)])
  show "reservation_ok ?P ?R k v"
    using mem_reservation(2) [OF inv v0(1)] v0(2-6) look unfolding reservation_ok_def by metis
qed

definition memory_plan_ok :: "(nat \<rightharpoonup> reservation_state) \<Rightarrow> (nat \<times> reservation_state \<times> int) list \<Rightarrow> bool" where
  "memory_plan_ok R ms = (distinct (map fst ms) \<and>
     list_all (\<lambda>(r, t, cap). R r = Some t \<and> \<not> rs_released t \<and> 0 \<le> cap \<and> cap \<le> rs_capacity t \<and>
       (rs_taken t \<longrightarrow> cap = rs_capacity t)) ms)"

lemma resolveMemory_ok:
  "resolveMemory st mps seen = Inr ms \<Longrightarrow> list_all (\<lambda>(h, cap). 0 \<le> cap) mps \<Longrightarrow>
     memory_plan_ok (reservations st) ms \<and> (\<forall>x\<in>set ms. JRef (fst x) \<notin> set seen)"
proof (induction mps arbitrary: seen ms)
  case Nil
  then show ?case by (simp add: memory_plan_ok_def)
next
  case (Cons x mps)
  obtain handle cap where x: "x = (handle, cap)" by force
  from Cons.prems(1) obtain r t where rt: "getReservation st handle = Some (r, t)"
    by (cases "getReservation st handle") (auto simp: x)
  then have g: "handle = JRef r" "reservations st r = Some t"
    by (simp_all add: getReservation_Some)
  from Cons.prems(1) have cond: "\<not> rs_released t" "handle \<notin> set seen" "cap \<le> rs_capacity t"
      "rs_taken t \<longrightarrow> cap = rs_capacity t"
    and run: "bindE (resolveMemory st mps (handle # seen)) (\<lambda>ps. Inr ((r, t, cap) # ps)) = Inr ms"
    by (simp_all add: x rt split: if_splits)
  from run obtain ms0 where ms: "ms = (r, t, cap) # ms0"
    and rec: "resolveMemory st mps (handle # seen) = Inr ms0"
    by (auto simp: result_simps)
  from Cons.IH [OF rec] Cons.prems(2)
  have ih: "memory_plan_ok (reservations st) ms0" "\<forall>x\<in>set ms0. JRef (fst x) \<notin> set (handle # seen)"
    by simp_all
  then have "r \<notin> fst ` set ms0"
    using g(1) by auto
  with ih g cond Cons.prems(2) show ?case
    by (simp add: ms x memory_plan_ok_def)
qed

lemma publishMemory_reads:
  assumes "pools st (rs_pool t) = Some s" "reservations st r = Some t"
  shows "pools (publishMemory (r, t, cap) st) =
      (pools st)(rs_pool t \<mapsto> s\<lparr>p_reserved := p_reserved s - (rs_capacity t - cap)\<rparr>)"
    "reservations (publishMemory (r, t, cap) st) = (reservations st)(r \<mapsto> t\<lparr>rs_capacity := cap\<rparr>)"
    "nextRef (publishMemory (r, t, cap) st) = nextRef st"
    "ledgers (publishMemory (r, t, cap) st) = ledgers st"
  using assms by (simp_all add: publishMemory_def) (simp add: updPool_def updReservation_def)

lemma publish_memory_inv:
  "mem_ok {} st \<Longrightarrow> memory_plan_ok (reservations st) ms \<Longrightarrow>
     mem_ok {} (fold publishMemory ms st) \<and> nextRef (fold publishMemory ms st) = nextRef st \<and>
     ledgers (fold publishMemory ms st) = ledgers st"
proof (induction ms arbitrary: st)
  case (Cons x ms)
  obtain r t cap where x: "x = (r, t, cap)" by (cases x)
  from Cons.prems(2) have p: "reservations st r = Some t" "\<not> rs_released t" "0 \<le> cap"
      "cap \<le> rs_capacity t" "rs_taken t \<Longrightarrow> cap = rs_capacity t" "r \<notin> fst ` set ms"
      "memory_plan_ok (reservations st) ms"
    by (auto simp: x memory_plan_ok_def)
  from mem_live_member [OF Cons.prems(1) p(1,2)] obtain s where s: "pools st (rs_pool t) = Some s"
    by blast
  note reads = publishMemory_reads [OF s p(1), of cap]
  have "mem_ok {} (publishMemory (r, t, cap) st)"
    using mem_shrink [OF Cons.prems(1) p(1-5) s] unfolding reads .
  moreover have "memory_plan_ok (reservations (publishMemory (r, t, cap) st)) ms"
    using p(6,7) unfolding reads memory_plan_ok_def by (force simp: list_all_iff)
  ultimately show ?case
    using Cons.IH [of "publishMemory (r, t, cap) st"] reads(3,4) unfolding x by auto
qed simp

lemma publishLedger_memory:
  "pools (fold publishLedger ls st) = pools st \<and> reservations (fold publishLedger ls st) = reservations st \<and>
   nextRef (fold publishLedger ls st) = nextRef st"
proof (induction ls arbitrary: st)
  case (Cons x ls)
  have "pools (updLedger h f st) = pools st \<and> reservations (updLedger h f st) = reservations st"
    for h f and st :: "'a memory_store_scheme"
    by (simp add: updLedger_def split: option.split)
  then have "pools (publishLedger x st) = pools st \<and> reservations (publishLedger x st) = reservations st \<and>
      nextRef (publishLedger x st) = nextRef st"
    by (cases x) (simp add: publishLedger_def Let_def split: option.split)
  with Cons show ?case by simp
qed simp

definition store_inv :: "'z memory_store_scheme \<Rightarrow> bool" where
  "store_inv st = (ledger_inv st \<and> memory_inv st)"

lemma mapE_Inl: "mapE f xs = Inl e \<Longrightarrow> \<exists>x. f x = Inl e"
  by (induction xs) (auto simp: result_simps)

lemma arrayElements_Inl: "arrayElements v = Inl e \<Longrightarrow> e = INVALID_ROUTE"
  by (cases v) auto

lemma readPlans_Inl: "readPlans options = Inl e \<Longrightarrow> e = INVALID_ROUTE"
  by (auto simp: readPlans_def readLedgerPlan_def readMemoryPlan_def result_simps
      dest!: mapE_Inl dest: readers_Inl arrayElements_Inl)

lemma resolveLedgers_Inl: "resolveLedgers st lps seen ret = Inl e \<Longrightarrow> e = INVALID_ROUTE"
proof (induction st lps seen ret rule: resolveLedgers.induct)
  case (2 st handle r plans seen ret)
  then show ?case
    by (cases "getLedger st handle") (auto simp: Let_def result_simps split: if_splits)
qed simp

lemma resolveMemory_Inl: "resolveMemory st mps seen = Inl e \<Longrightarrow> e = INVALID_ROUTE"
proof (induction st mps seen rule: resolveMemory.induct)
  case (2 st handle cap plans seen)
  then show ?case
    by (cases "getReservation st handle") (auto simp: result_simps split: if_splits)
qed simp

lemma readPlans_caps: "readPlans options = Inr (lps, mps) \<Longrightarrow> list_all (\<lambda>(h, cap). 0 \<le> cap) mps"
proof -
  assume "readPlans options = Inr (lps, mps)"
  then obtain ms where "mapE readMemoryPlan ms = Inr mps"
    by (auto simp: readPlans_def result_simps)
  then show ?thesis
    by (rule mapE_all) (auto simp: readMemoryPlan_def result_simps checkU32_Inr)
qed

lemma narrow_cases:
  obtains (refused) "narrowPeerReservations options st = (st, Inl (Throws INVALID_ROUTE))"
  | (published) ls ms where
      "narrowPeerReservations options st = (fold publishMemory ms (fold publishLedger ls st), Inr ())"
      "plan_ok (ledgers st) ls" "ledgersFit ls (flow ls)" "memory_plan_ok (reservations st) ms"
proof (cases "bindE (readPlans options) (\<lambda>(lps, mps).
             bindE (resolveLedgers st lps [] (\<lambda>_. 0)) (\<lambda>(ls, seen, ret).
             bindE (requireE INVALID_ROUTE (ledgersFit ls ret)) (\<lambda>_.
             bindE (resolveMemory st mps seen) (\<lambda>ms. Inr (ls, ms)))))")
  case (Inl e)
  then have "e = INVALID_ROUTE"
    by (auto simp: result_simps split: prod.splits
        dest: readPlans_Inl resolveLedgers_Inl resolveMemory_Inl)
  with Inl show ?thesis
    by (intro refused) (simp add: narrowPeerReservations_def)
next
  case (Inr lm)
  then obtain lps mps ls seen ret ms where steps: "readPlans options = Inr (lps, mps)"
    "resolveLedgers st lps [] (\<lambda>_. 0) = Inr (ls, seen, ret)" "ledgersFit ls ret"
    "resolveMemory st mps seen = Inr ms" "lm = (ls, ms)"
    by (auto simp: result_simps)
  have "plan_ok (ledgers st) ls" "ret = flow ls"
    using resolveLedgers_ok [OF steps(2)] by (auto simp: fun_eq_iff)
  moreover have "memory_plan_ok (reservations st) ms"
    using resolveMemory_ok [OF steps(4) readPlans_caps [OF steps(1)]] by simp
  ultimately show ?thesis
    using Inr steps by (intro published [of ms ls]) (auto simp: narrowPeerReservations_def)
qed

lemma narrow_published:
  assumes "store_inv st" "plan_ok (ledgers st) ls" "ledgersFit ls (flow ls)"
    "memory_plan_ok (reservations st) ms" "st' = fold publishMemory ms (fold publishLedger ls st)"
  shows "store_inv st'" "ledgers st' = narrowedL ls (ledgers st)" "nextRef st' = nextRef st"
proof -
  let ?st1 = "fold publishLedger ls st"
  note mem1 = publishLedger_memory [of ls st]
  have inv: "ledger_inv_with {} (\<lambda>_. 0) (ledgers st) (nextRef st)" and ok: "mem_ok {} st"
    using assms(1) by (auto simp: store_inv_def ledger_inv_def memory_inv_def)
  have "map_option allocated (ledgers st h) = Some (allocated s)" if "(h, s, r) \<in> set ls" for h s r
    using assms(2) that by (auto simp: plan_ok_def list_all_iff)
  from ledgers_publish [OF assms(2) this] have L1: "ledgers ?st1 = narrowedL ls (ledgers st)"
    by (simp add: fun_eq_iff narrowedL_def)
  have "spent s + reserved s - flow ls h \<le> r" if "(h, s, r) \<in> set ls" for h s r
    using assms(3) that by (auto simp: ledgersFit_def list_all_iff)
  from inv_narrowed [OF inv assms(2) this]
  have inv1: "ledger_inv_with {} (\<lambda>_. 0) (ledgers ?st1) (nextRef st)"
    by (simp add: L1)
  have ok1: "mem_ok {} ?st1"
    using ok mem1 by simp
  have "memory_plan_ok (reservations ?st1) ms"
    using assms(4) mem1 by simp
  note fin = publish_memory_inv [OF ok1 this, folded assms(5)]
  show "ledgers st' = narrowedL ls (ledgers st)" "nextRef st' = nextRef st"
    using fin L1 mem1 by simp_all
  with inv1 L1 have "ledger_inv st'"
    by (simp add: ledger_inv_def)
  with fin show "store_inv st'"
    by (auto simp: store_inv_def memory_inv_def)
qed

end
