(* ===== verification/Peer_Store.thy ===== *)
theory Peer_Store
  imports Peer_Narrow
begin

text \<open>
  The ledgers, memory pools and the narrowing of \<^verbatim>\<open>peer-ledger.js\<close> over one store. The
  components use the same supply of handles and never touch each other's states; the laws of both
  hold along every interleaving of their operations.
\<close>

section \<open>What an operation leaves alone\<close>

text \<open>A relation that every primitive write of a component respects is respected by its operations.\<close>

locale ledger_frame =
  fixes R :: "'z ledger_store_scheme \<Rightarrow> 'z ledger_store_scheme \<Rightarrow> bool"
  assumes R_refl: "R st st"
    and R_trans: "R a b \<Longrightarrow> R b c \<Longrightarrow> R a c"
    and R_upd: "R st (updLedger h f st)"
    and R_new: "R st (snd (newLedger s st))"
begin

lemma R_charge: "R st (fst (chargeAncestors fuel r q st))"
proof (induction fuel r q st rule: chargeAncestors.induct)
  case (3 fuel r p st)
  then show ?case
    by (auto split: option.split intro: R_refl R_trans [OF R_upd])
qed (auto intro: R_refl)

lemma R_for: "(\<And>x st. R st (fst (f x st))) \<Longrightarrow> R st (fst (forS f xs st))"
proof (induction xs arbitrary: st)
  case (Cons x xs)
  have "R st (fst (f x st))" by (rule Cons.prems)
  moreover have "R u (fst (forS f xs u))" for u
    using Cons by blast
  ultimately show ?case
    by (auto simp: bindS_def split: prod.splits sum.splits intro: R_trans)
qed (auto intro: R_refl)

lemma R_detach: "R st (detachLedger h st)"
  by (auto simp: detachLedger_def Let_def split: option.split intro: R_upd R_trans [OF R_upd R_upd])

lemma R_release: "R st (fst (releaseLedger fuel h st))"
proof (induction fuel arbitrary: h st)
  case (Suc fuel)
  let ?st1 = "updLedger h (\<lambda>s. s\<lparr>released := True\<rparr>) st"
  have "R st (fst (bindS (forS (releaseLedger fuel) cs) (\<lambda>_ st'. (detachLedger h st', Inr True)) ?st1))" for cs
  proof (cases "forS (releaseLedger fuel) cs ?st1")
    case (Pair st2 r)
    have "R ?st1 st2"
      using R_for [of "releaseLedger fuel" ?st1 cs] Suc.IH Pair by simp
    then have "R st st2"
      by (rule R_trans [OF R_upd])
    then show ?thesis
      using Pair by (cases r) (auto intro: R_trans R_detach)
  qed
  then show ?case
    by (auto split: option.split intro: R_refl)
qed (simp add: R_refl)

lemma R_new_eq: "newLedger s st = (h, st') \<Longrightarrow> R st st'"
  using R_new [of st s] by simp

lemma R_step: "R st (ledger_step x st)"
proof (cases x)
  case (CreateLedger options)
  then show ?thesis
    by (auto simp: createPeerLedger_def split: sum.split prod.split intro: R_refl R_new_eq)
next
  case (ReserveLedger parent options)
  have "R st (updLedger p g (snd (newLedger s (updLedger p f st))))" for p f g s
    using R_trans [OF R_trans [OF R_upd R_new] R_upd] .
  then show ?thesis
    using ReserveLedger
    by (auto simp: reservePeerLedger_def Let_def case_prod_unfold split: option.split sum.split intro: R_refl)
next
  case (ChargeLedger handle options)
  then show ?thesis
    by (auto simp: chargePeerLedger_def split: option.split sum.split
        intro: R_refl R_trans [OF R_upd R_charge])
next
  case (ReleaseLedger handle)
  then show ?thesis
    by (auto simp: releasePeerLedger_def split: option.split intro: R_refl R_release
        simp del: releaseLedger.simps)
qed

end

interpretation lmono: ledger_frame "\<lambda>st st'. nextRef st \<le> nextRef st'"
  by unfold_locales (auto simp: newLedger_def)

interpretation lmem: ledger_frame "\<lambda>(st :: 'y memory_store_scheme) st'.
    pools st' = pools st \<and> reservations st' = reservations st"
  by unfold_locales (auto simp: newLedger_def updLedger_def split: option.split)

lemma ledger_inv_mono:
  "ledger_inv_with A D L n \<Longrightarrow> n \<le> m \<Longrightarrow> ledger_inv_with A D L m"
  by (auto simp: ledger_inv_with_def intro: less_le_trans)

lemma memory_inv_mono:
  "memory_inv_with A P R n \<Longrightarrow> n \<le> m \<Longrightarrow> memory_inv_with A P R m"
  unfolding memory_inv_with_def by (meson less_le_trans)

lemma ledger_step_store: "store_inv st \<Longrightarrow> store_inv (ledger_step x st)"
  using lmem.R_step [where st = st and x = x] lmono.R_step [where st = st and x = x]
    ledger_step_inv [of st x]
  by (auto simp: store_inv_def memory_inv_def intro: memory_inv_mono)

lemma memory_step_ledgers:
  assumes "memory_inv st"
  shows "ledgers (memory_step x st) = ledgers st" "nextRef st \<le> nextRef (memory_step x st)"
proof -
  have "ledgers (memory_step x st) = ledgers st \<and> nextRef st \<le> nextRef (memory_step x st)"
  proof (cases x)
    case (CreatePool v)
    then show ?thesis
      by (auto simp: createPeerMemoryPool_def newPool_def split: sum.split)
  next
    case (ReserveMemory p k v)
    then show ?thesis
      by (auto simp: reservePeerMemory_def Let_def updPool_def split: option.split sum.split)
  next
    case (TakeMemory h)
    then show ?thesis
      by (auto simp: takePeerMemory_def newPool_def Let_def updPool_def updReservation_def
          split: option.split)
  next
    case (ReleaseMemory h)
    from releasePeerMemory_returns [OF assms, of h] obtain st' res where
      "releasePeerMemory h st = (st', res)" "only_memory st st'"
      by blast
    moreover from this(2) have "ledgers st' = ledgers st"
      unfolding only_memory_def by (cases st; cases st') simp
    ultimately show ?thesis
      using ReleaseMemory only_memory_nextRef by (fastforce simp: le_refl)
  qed
  then show "ledgers (memory_step x st) = ledgers st" "nextRef st \<le> nextRef (memory_step x st)"
    by auto
qed

lemma memory_step_store: "store_inv st \<Longrightarrow> store_inv (memory_step x st)"
  using memory_step_ledgers [of st x] memory_step_inv [of st x]
  by (auto simp: store_inv_def ledger_inv_def intro: ledger_inv_mono)

lemma narrow_store: "store_inv st \<Longrightarrow> store_inv (fst (narrowPeerReservations options st))"
proof (cases rule: narrow_cases [of options st])
  case (published ls ms)
  assume "store_inv st"
  from narrow_published(1) [OF this published(2-4) refl] published(1) show ?thesis
    by simp
qed simp

section \<open>Every interleaving\<close>

datatype store_op = LedgerOp ledger_op | MemoryOp memory_op | NarrowOp jsval

fun store_step :: "store_op \<Rightarrow> 'z memory_store_scheme \<Rightarrow> 'z memory_store_scheme" where
  "store_step (LedgerOp x) st = ledger_step x st"
| "store_step (MemoryOp x) st = memory_step x st"
| "store_step (NarrowOp options) st = fst (narrowPeerReservations options st)"

interpretation stor: op_system store_step store_inv
proof
  fix st :: "'z memory_store_scheme" and x
  assume "store_inv st"
  then show "store_inv (store_step x st)"
    by (cases x) (simp_all add: ledger_step_store memory_step_store narrow_store)
qed

lemma store_run_inv: "store_inv (fold store_step ops emptyMemory)"
  by (rule stor.run_inv)
    (simp add: store_inv_def emptyMemory_def memory_inv_def memory_inv_with_def ledger_inv_def
      ledger_inv_with_def)

section \<open>Properties\<close>

text \<open>
  C15: Narrowing is all or nothing and only ever narrows. In any state reached by ledger and memory
  operations and earlier narrowings, a call either throws INVALID_ROUTE and changes nothing, or it
  returns with every ledger's allocation at most what it was, with spending, parents and children
  unchanged, with every ledger still spending and reserving within its allocation and reserving
  exactly the unspent part of its children, and with every pool's reservations within its capacity.
\<close>

theorem narrow_all_or_nothing:
  assumes "st = fold store_step ops emptyMemory"
  shows "case narrowPeerReservations options st of
      (st', Inl e) \<Rightarrow> st' = st \<and> e = Throws INVALID_ROUTE
    | (st', Inr _) \<Rightarrow>
        (\<forall>h s. ledgers st h = Some s \<longrightarrow> (\<exists>s'. ledgers st' h = Some s' \<and> allocated s' \<le> allocated s \<and>
           spent s' = spent s \<and> parentState s' = parentState s \<and> children s' = children s \<and>
           spent s' + reserved s' \<le> allocated s' \<and>
           reserved s' = sum_list (map (unspent (ledgers st')) (children s')))) \<and>
        (\<forall>p s. pools st' p = Some s \<longrightarrow> p_reserved s \<le> p_capacity s)"
proof (cases rule: narrow_cases [of options st])
  case (published ls ms)
  define st' where "st' = fold publishMemory ms (fold publishLedger ls st)"
  have "store_inv st"
    using store_run_inv by (simp add: assms)
  note new = narrow_published [OF this published(2-4) st'_def]
  have inv': "ledger_inv_with {} (\<lambda>_. 0) (ledgers st') (nextRef st')" and ok': "mem_ok {} st'"
    using new(1) by (auto simp: store_inv_def ledger_inv_def memory_inv_def)
  have "\<exists>s'. ledgers st' h = Some s' \<and> allocated s' \<le> allocated s \<and> spent s' = spent s \<and>
      parentState s' = parentState s \<and> children s' = children s \<and>
      spent s' + reserved s' \<le> allocated s' \<and>
      reserved s' = sum_list (map (unspent (ledgers st')) (children s'))" if "ledgers st h = Some s" for h s
  proof -
    let ?s = "narrowed (cutOf ls h) (flow ls h) s"
    have s': "ledgers st' h = Some ?s"
      using new(2) that by (simp add: narrowedL_def)
    show ?thesis
      using inv_node(2,5) [OF inv' s'] cut_nonneg [OF published(2), of h] s'
      by (intro exI [of _ ?s]) (simp add: amounts_ok_def)
  qed
  moreover have "p_reserved s \<le> p_capacity s" if "pools st' p = Some s" for p s
    using mem_pool(2) [OF ok' that] by (simp add: pool_ok_def)
  ultimately show ?thesis
    unfolding published(1) st'_def [symmetric] by simp
qed simp

definition example_narrow :: jsval where
  "example_narrow = JObj [(''ledgers'', DataProp (JArr [JObj [(''ledger'', DataProp (JRef 1)),
     (''cells'', DataProp (JNum 20)), (''bytes'', DataProp (JBig 24000)),
     (''commands'', DataProp (JNum 0))] []])), (''memory'', DataProp (JArr []))] []"

definition example_store_ops :: "store_op list" where
  "example_store_ops = [LedgerOp (CreateLedger (example_row 100)),
     LedgerOp (ReserveLedger (JRef 0) (example_row 60)),
     LedgerOp (ChargeLedger (JRef 1) (example_row 7)), MemoryOp (CreatePool (JNum 10))]"

theorem narrow_all_or_nothing_witness:
  "snd (narrowPeerReservations example_narrow (fold store_step example_store_ops emptyMemory)) = Inr () \<and>
   (case narrowPeerReservations example_narrow (fold store_step example_store_ops emptyMemory) of
      (st', Inl e) \<Rightarrow> False
    | (st', Inr _) \<Rightarrow> (\<forall>p s. pools st' p = Some s \<longrightarrow> p_reserved s \<le> p_capacity s))"
proof -
  have "snd (narrowPeerReservations example_narrow (fold store_step example_store_ops emptyMemory)) = Inr ()"
    by (simp add: example_store_ops_def ledger_eval memory_eval example_narrow_def
        narrowPeerReservations_def readPlans_def readLedgerPlan_def ownProp_def MAX_U64_def
        ledgersFit_def)
  with narrow_all_or_nothing [OF refl, of example_store_ops example_narrow] show ?thesis
    by (auto split: prod.splits)
qed

end
