(* ===== verification/Branch_Slots.thy ===== *)
theory Branch_Slots
  imports Peer_Store
begin

text \<open>
  \<^verbatim>\<open>lib/private/peer-ledger.js\<close>, part four: branch slots. A pool of slots admits at most
  its capacity of native branches; a branch's authority is four root ledgers. Releasing the
  authority retires the branch, adds what it spent to the pool's totals and frees the slot; a branch
  deferred to its join barrier keeps its slot when the pool closes.
\<close>

section \<open>State\<close>

text \<open>The four ledgers of a branch, in the order of \<open>BRANCH_KINDS\<close>.\<close>

datatype branch_kind = SendLedger | ReceiveLedger | TeardownSendLedger | TeardownReceiveLedger

definition BRANCH_KINDS :: "branch_kind list" where
  "BRANCH_KINDS = [SendLedger, ReceiveLedger, TeardownSendLedger, TeardownReceiveLedger]"

fun kind_name :: "branch_kind \<Rightarrow> string" where
  "kind_name SendLedger = ''sendLedger''"
| "kind_name ReceiveLedger = ''receiveLedger''"
| "kind_name TeardownSendLedger = ''teardownSendLedger''"
| "kind_name TeardownReceiveLedger = ''teardownReceiveLedger''"

definition ROW_FIELDS :: "string list" where
  "ROW_FIELDS = [''cells'', ''bytes'', ''commands'']"

record slot_pool =
  sp_capacity :: int
  sp_live :: "nat list"
  sp_retired :: int
  sp_closed :: bool
  sp_retiredSpent :: "branch_kind \<Rightarrow> row"

text \<open>The frozen authority object: its pool and the handles of its ledgers.\<close>

record authority =
  au_pool :: nat
  au_ledger :: "branch_kind \<Rightarrow> nat"
  au_released :: bool
  au_joinDeferred :: bool

record branch_store = memory_store +
  branchSlotPools :: "nat \<rightharpoonup> slot_pool"
  branchAuthorities :: "nat \<rightharpoonup> authority"

definition updSlots ::
  "nat \<Rightarrow> (slot_pool \<Rightarrow> slot_pool) \<Rightarrow> 'z branch_store_scheme \<Rightarrow> 'z branch_store_scheme" where
  "updSlots p f st =
     st\<lparr>branchSlotPools := (branchSlotPools st)(p := map_option f (branchSlotPools st p))\<rparr>"

definition updAuthority ::
  "nat \<Rightarrow> (authority \<Rightarrow> authority) \<Rightarrow> 'z branch_store_scheme \<Rightarrow> 'z branch_store_scheme" where
  "updAuthority a f st =
     st\<lparr>branchAuthorities := (branchAuthorities st)(a := map_option f (branchAuthorities st a))\<rparr>"

definition getSlots :: "'z branch_store_scheme \<Rightarrow> jsval \<Rightarrow> (nat \<times> slot_pool) option" where
  "getSlots st handle =
     (case refOf handle of None \<Rightarrow> None | Some p \<Rightarrow> map_option (Pair p) (branchSlotPools st p))"

definition getAuthority :: "'z branch_store_scheme \<Rightarrow> jsval \<Rightarrow> (nat \<times> authority) option" where
  "getAuthority st handle =
     (case refOf handle of None \<Rightarrow> None | Some a \<Rightarrow> map_option (Pair a) (branchAuthorities st a))"

section \<open>Operations\<close>

definition emptySpent :: "branch_kind \<Rightarrow> row" where
  "emptySpent = (\<lambda>_. 0)"

definition createPeerBranchSlots :: "jsval \<Rightarrow> ('z branch_store_scheme, failure, jsval) action" where
  "createPeerBranchSlots capacity st = (case checkU32 capacity of
     Inl e \<Rightarrow> (st, Inl (Throws e))
   | Inr c \<Rightarrow>
       if c < 1 then (st, Inl (Throws INVALID_ROUTE))
       else (st\<lparr>branchSlotPools := (branchSlotPools st)(nextRef st \<mapsto>
               \<lparr>sp_capacity = c, sp_live = [], sp_retired = 0, sp_closed = False,
                sp_retiredSpent = emptySpent\<rparr>), nextRef := nextRef st + 1\<rparr>, Inr (JRef (nextRef st))))"

definition readBranchRow :: "jsval \<Rightarrow> branch_kind \<Rightarrow> error_code + row" where
  "readBranchRow rows kind =
     bindE (ownProp rows (kind_name kind)) (\<lambda>v.
     bindE (exactKeys v ROW_FIELDS) (\<lambda>_.
     bindE (u32Prop v ''cells'') (\<lambda>c.
     bindE (u64Prop v ''bytes'') (\<lambda>b.
     bindE (u32Prop v ''commands'') (\<lambda>cmd. Inr (Row c b cmd))))))"

definition readBranchRows :: "jsval \<Rightarrow> error_code + row list" where
  "readBranchRows rows =
     bindE (exactKeys rows (map kind_name BRANCH_KINDS)) (\<lambda>_. mapE (readBranchRow rows) BRANCH_KINDS)"

text \<open>\<open>{ cells, bytes, commands }\<close>\<close>

definition rowObject :: "row \<Rightarrow> jsval" where
  "rowObject r = JObj [(''cells'', DataProp (JNum (r_cells r))), (''bytes'', DataProp (JBig (r_bytes r))),
     (''commands'', DataProp (JNum (r_commands r)))] []"

text \<open>The loop that creates the roots; their handles in the order of the rows.\<close>

fun createRoots :: "row list \<Rightarrow> ('z ledger_store_scheme, failure, nat list) action" where
  "createRoots [] st = (st, Inr [])"
| "createRoots (r # rs) st = bindS (createPeerLedger (rowObject r))
     (\<lambda>h. bindS (createRoots rs) (\<lambda>hs. returnS (case refOf h of Some n \<Rightarrow> n # hs | None \<Rightarrow> hs))) st"

definition kindIndex :: "branch_kind \<Rightarrow> nat" where
  "kindIndex kind = (case kind of SendLedger \<Rightarrow> 0 | ReceiveLedger \<Rightarrow> 1 | TeardownSendLedger \<Rightarrow> 2
     | TeardownReceiveLedger \<Rightarrow> 3)"

definition takePeerBranchAuthority ::
  "jsval \<Rightarrow> jsval \<Rightarrow> ('z branch_store_scheme, failure, jsval) action" where
  "takePeerBranchAuthority slotsHandle rows st = (case getSlots st slotsHandle of
     None \<Rightarrow> (st, Inl (Throws INVALID_ROUTE))
   | Some (p, pool) \<Rightarrow> (case readBranchRows rows of
       Inl e \<Rightarrow> (st, Inl (Throws e))
     | Inr plan \<Rightarrow>
         if sp_closed pool then (st, Inl (Throws INVALID_ROUTE))
         else if int (length (sp_live pool)) \<ge> sp_capacity pool
         then (st, Inl (Throws ERR_QUOTA_EXCEEDED))
         else (case createRoots plan st of
             (st1, Inl e) \<Rightarrow> (st1, Inl e)
           | (st1, Inr hs) \<Rightarrow>
               let a = nextRef st1;
                   st2 = updSlots p (\<lambda>s. s\<lparr>sp_live := sp_live s @ [a]\<rparr>) (st1\<lparr>nextRef := a + 1\<rparr>);
                   st3 = st2\<lparr>branchAuthorities := (branchAuthorities st2)(a \<mapsto>
                     \<lparr>au_pool = p, au_ledger = (\<lambda>k. hs ! kindIndex k), au_released = False,
                      au_joinDeferred = False\<rparr>)\<rparr>
               in (st3, Inr (JRef a)))))"

definition deferPeerBranchAuthorityJoin :: "jsval \<Rightarrow> ('z branch_store_scheme, failure, bool) action" where
  "deferPeerBranchAuthorityJoin handle st = (case getAuthority st handle of
     None \<Rightarrow> (st, Inl (Throws INVALID_ROUTE))
   | Some (a, au) \<Rightarrow>
       if au_released au then (st, Inl (Throws INVALID_ROUTE))
       else if au_joinDeferred au then (st, Inr False)
       else (updAuthority a (\<lambda>u. u\<lparr>au_joinDeferred := True\<rparr>) st, Inr True))"

definition addSpentRow :: "row \<Rightarrow> ledger_state \<Rightarrow> row" where
  "addSpentRow tot s = tot + spent s"

text \<open>One turn of the loop over the kinds: the spending joins the totals, the root is released.\<close>

definition retireKind :: "nat \<Rightarrow> authority \<Rightarrow> branch_kind \<Rightarrow> ('z branch_store_scheme, failure, bool) action" where
  "retireKind p au kind st = (case ledgers st (au_ledger au kind) of
     None \<Rightarrow> (st, Inl (Throws INVALID_ROUTE))
   | Some s \<Rightarrow> releasePeerLedger (JRef (au_ledger au kind))
       (updSlots p (\<lambda>pool. pool\<lparr>sp_retiredSpent :=
         (sp_retiredSpent pool)(kind := addSpentRow (sp_retiredSpent pool kind) s)\<rparr>) st))"

definition releaseAuthority :: "nat \<Rightarrow> authority \<Rightarrow> ('z branch_store_scheme, failure, bool) action" where
  "releaseAuthority a au st =
     bindS (forS (retireKind (au_pool au) au) BRANCH_KINDS)
       (\<lambda>_ st1. (updSlots (au_pool au)
          (\<lambda>pool. pool\<lparr>sp_live := removeAll a (sp_live pool), sp_retired := sp_retired pool + 1\<rparr>) st1, Inr True))
       (updAuthority a (\<lambda>u. u\<lparr>au_released := True\<rparr>) st)"

definition releasePeerBranchAuthority :: "jsval \<Rightarrow> ('z branch_store_scheme, failure, bool) action" where
  "releasePeerBranchAuthority handle st = (case getAuthority st handle of
     None \<Rightarrow> (st, Inl (Throws INVALID_ROUTE))
   | Some (a, au) \<Rightarrow> if au_released au then (st, Inr False) else releaseAuthority a au st)"

text \<open>One turn of the closing loop: deferred branches are skipped.\<close>

definition closeBranch :: "nat \<Rightarrow> ('z branch_store_scheme, failure, bool) action" where
  "closeBranch a st = (case branchAuthorities st a of
     Some au \<Rightarrow> if au_joinDeferred au then (st, Inr False) else releasePeerBranchAuthority (JRef a) st
   | None \<Rightarrow> releasePeerBranchAuthority (JRef a) st)"

definition closePeerBranchSlots :: "jsval \<Rightarrow> ('z branch_store_scheme, failure, bool) action" where
  "closePeerBranchSlots slotsHandle st = (case getSlots st slotsHandle of
     None \<Rightarrow> (st, Inl (Throws INVALID_ROUTE))
   | Some (p, pool) \<Rightarrow>
       if sp_closed pool then (st, Inr False)
       else bindS (forS closeBranch (sp_live pool)) (\<lambda>_. returnS True)
         (updSlots p (\<lambda>s. s\<lparr>sp_closed := True\<rparr>) st))"

record slots_view =
  sv_capacity :: int
  sv_live :: int
  sv_retired :: int
  sv_closed :: bool
  sv_reserved :: "branch_kind \<Rightarrow> row"
  sv_spent :: "branch_kind \<Rightarrow> row"

definition branchLedger :: "'z branch_store_scheme \<Rightarrow> branch_kind \<Rightarrow> nat \<Rightarrow> ledger_state option" where
  "branchLedger st kind a =
     (case branchAuthorities st a of None \<Rightarrow> None | Some au \<Rightarrow> ledgers st (au_ledger au kind))"

definition branchSpent :: "'z branch_store_scheme \<Rightarrow> branch_kind \<Rightarrow> nat \<Rightarrow> row" where
  "branchSpent st kind a = (case branchLedger st kind a of None \<Rightarrow> 0 | Some s \<Rightarrow> spent s)"

definition branchHeld :: "'z branch_store_scheme \<Rightarrow> branch_kind \<Rightarrow> nat \<Rightarrow> row" where
  "branchHeld st kind a = (case branchLedger st kind a of None \<Rightarrow> 0 | Some s \<Rightarrow> allocated s)"

definition readPeerBranchSlots :: "jsval \<Rightarrow> 'z branch_store_scheme \<Rightarrow> failure + slots_view" where
  "readPeerBranchSlots slotsHandle st = (case getSlots st slotsHandle of
     None \<Rightarrow> Inl (Throws INVALID_ROUTE)
   | Some (p, pool) \<Rightarrow> Inr \<lparr>sv_capacity = sp_capacity pool, sv_live = int (length (sp_live pool)),
       sv_retired = sp_retired pool, sv_closed = sp_closed pool,
       sv_reserved = (\<lambda>k. sum_list (map (branchHeld st k) (sp_live pool))),
       sv_spent = (\<lambda>k. sp_retiredSpent pool k + sum_list (map (branchSpent st k) (sp_live pool)))\<rparr>)"

end
