(* ===== verification/Branch_Invariant.thy ===== *)
theory Branch_Invariant
  imports Branch_Slots
begin

text \<open>
  The law of the branch slots of \<^verbatim>\<open>peer-ledger.js\<close> and its proof for retiring a branch and for
  closing a pool: both return, free exactly the slots they should, and move what a branch has spent
  into the totals of its pool.
\<close>

section \<open>The law of the slots\<close>

definition slots_ok :: "'z branch_store_scheme \<Rightarrow> bool" where
  "slots_ok st =
     ((\<forall>p pool. branchSlotPools st p = Some pool \<longrightarrow>
         p < nextRef st \<and> distinct (sp_live pool) \<and> int (length (sp_live pool)) \<le> sp_capacity pool \<and>
         (\<forall>a\<in>set (sp_live pool). \<exists>au. branchAuthorities st a = Some au \<and> \<not> au_released au \<and> au_pool au = p)) \<and>
      (\<forall>a au. branchAuthorities st a = Some au \<longrightarrow>
         a < nextRef st \<and> (\<forall>k. ledgers st (au_ledger au k) \<noteq> None) \<and>
         (\<exists>pool. branchSlotPools st (au_pool au) = Some pool \<and>
            (\<not> au_released au \<longrightarrow> a \<in> set (sp_live pool)))))"

definition branch_inv :: "'z branch_store_scheme \<Rightarrow> bool" where
  "branch_inv st = (store_inv st \<and> slots_ok st)"

lemma slots_pool:
  assumes "slots_ok st" "branchSlotPools st p = Some pool"
  shows "p < nextRef st" "distinct (sp_live pool)" "int (length (sp_live pool)) \<le> sp_capacity pool"
    "\<And>a. a \<in> set (sp_live pool) \<Longrightarrow>
       \<exists>au. branchAuthorities st a = Some au \<and> \<not> au_released au \<and> au_pool au = p"
  using assms by (auto simp: slots_ok_def)

lemma slots_authority:
  assumes "slots_ok st" "branchAuthorities st a = Some au"
  shows "a < nextRef st" "\<And>k. \<exists>s. ledgers st (au_ledger au k) = Some s"
    "\<exists>pool. branchSlotPools st (au_pool au) = Some pool \<and> (\<not> au_released au \<longrightarrow> a \<in> set (sp_live pool))"
  using assms unfolding slots_ok_def by blast+

text \<open>Steps of the other components keep the slots as long as ledgers do not disappear.\<close>

lemma slots_frame:
  assumes "slots_ok st" "branchSlotPools st' = branchSlotPools st"
    "branchAuthorities st' = branchAuthorities st" "nextRef st \<le> nextRef st'"
    "\<And>h s. ledgers st h = Some s \<Longrightarrow> ledgers st' h \<noteq> None"
  shows "slots_ok st'"
proof -
  have led: "ledgers st' h \<noteq> None" if "ledgers st h \<noteq> None" for h
    using that assms(5) by blast
  show ?thesis
    unfolding slots_ok_def assms(2,3)
  proof (intro conjI allI impI)
    fix p pool
    assume p: "branchSlotPools st p = Some pool"
    show "p < nextRef st'" "distinct (sp_live pool)" "int (length (sp_live pool)) \<le> sp_capacity pool"
      using slots_pool(1-3) [OF assms(1) p] assms(4) by auto
    show "\<forall>a\<in>set (sp_live pool). \<exists>au. branchAuthorities st a = Some au \<and> \<not> au_released au \<and> au_pool au = p"
      using slots_pool(4) [OF assms(1) p] by blast
  next
    fix a au
    assume a: "branchAuthorities st a = Some au"
    show "a < nextRef st'"
      using slots_authority(1) [OF assms(1) a] assms(4) by simp
    show "ledgers st' (au_ledger au k) \<noteq> None" for k
      using slots_authority(2) [OF assms(1) a, of k] by (intro led) auto
    show "\<exists>pool. branchSlotPools st (au_pool au) = Some pool \<and> (\<not> au_released au \<longrightarrow> a \<in> set (sp_live pool))"
      by (rule slots_authority(3) [OF assms(1) a])
  qed
qed

section \<open>Retiring a branch\<close>

lemma upd_slots_reads [simp]:
  "branchSlotPools (updSlots p f st) = (branchSlotPools st)(p := map_option f (branchSlotPools st p))"
  "branchAuthorities (updSlots p f st) = branchAuthorities st" "ledgers (updSlots p f st) = ledgers st"
  "pools (updSlots p f st) = pools st" "reservations (updSlots p f st) = reservations st"
  "nextRef (updSlots p f st) = nextRef st"
  "branchAuthorities (updAuthority a g st) = (branchAuthorities st)(a := map_option g (branchAuthorities st a))"
  "branchSlotPools (updAuthority a g st) = branchSlotPools st" "ledgers (updAuthority a g st) = ledgers st"
  "pools (updAuthority a g st) = pools st" "reservations (updAuthority a g st) = reservations st"
  "nextRef (updAuthority a g st) = nextRef st"
  by (simp_all add: updSlots_def updAuthority_def)

lemma store_inv_cong:
  "ledgers st' = ledgers st \<Longrightarrow> pools st' = pools st \<Longrightarrow> reservations st' = reservations st \<Longrightarrow>
     nextRef st' = nextRef st \<Longrightarrow> store_inv st' \<longleftrightarrow> store_inv st"
  by (simp add: store_inv_def ledger_inv_def memory_inv_def)

definition credited :: "branch_kind \<Rightarrow> row \<Rightarrow> slot_pool \<Rightarrow> slot_pool" where
  "credited k r pool = pool\<lparr>sp_retiredSpent := (sp_retiredSpent pool)(k := sp_retiredSpent pool k + r)\<rparr>"

text \<open>Only the ledgers and the slot pools change.\<close>

definition same_rest :: "'z branch_store_scheme \<Rightarrow> 'z branch_store_scheme \<Rightarrow> bool" where
  "same_rest st st' = (branchAuthorities st' = branchAuthorities st \<and> nextRef st' = nextRef st \<and>
     kept (ledgers st) (ledgers st') \<and> (store_inv st \<longrightarrow> store_inv st'))"

lemma same_rest_trans: "same_rest a b \<Longrightarrow> same_rest b c \<Longrightarrow> same_rest a c"
  by (auto simp: same_rest_def intro: kept_trans)

lemma releasePeerLedger_branch:
  assumes "store_inv (st :: 'z branch_store_scheme)" "ledgers st h = Some s"
  shows "\<exists>st' b. releasePeerLedger (JRef h) st = (st', Inr b) \<and> same_rest st st' \<and>
    branchSlotPools st' = branchSlotPools st"
proof (cases "released s")
  case True
  then show ?thesis
    using assms by (intro exI [of _ st] exI [of _ False]) (simp add: releasePeerLedger_def same_rest_def)
next
  case False
  have inv: "ledger_inv st"
    using assms(1) by (simp add: store_inv_def)
  obtain st' where st': "releasePeerLedger (JRef h) st = (st', Inr True)" "same_store st st'"
    "ledger_inv st'" "release_effect (ledgers st) h s (ledgers st')"
    by (rule releasePeerLedger_spec [OF inv assms(2) False])
  have same: "branchSlotPools st' = branchSlotPools st" "branchAuthorities st' = branchAuthorities st"
      "nextRef st' = nextRef st" "pools st' = pools st" "reservations st' = reservations st"
    using st'(2) unfolding same_store_def by (cases st; cases st'; simp)+
  then have "store_inv st'"
    using assms(1) st'(3) by (simp add: store_inv_def memory_inv_def)
  with same st' show ?thesis
    by (auto simp: same_rest_def release_effect_def)
qed

lemma retireKind_spec:
  assumes "store_inv st" "ledgers st (au_ledger au k) = Some s"
  shows "\<exists>st' b. retireKind p au k st = (st', Inr b) \<and> same_rest st st' \<and>
    branchSlotPools st' = (branchSlotPools st)(p := map_option (credited k (spent s)) (branchSlotPools st p))"
proof -
  let ?st = "updSlots p (credited k (spent s)) st"
  have "store_inv ?st"
    using assms(1) by (subst store_inv_cong) simp_all
  from releasePeerLedger_branch [OF this] assms(2) obtain st' b where
    "releasePeerLedger (JRef (au_ledger au k)) ?st = (st', Inr b)" "same_rest ?st st'"
    "branchSlotPools st' = branchSlotPools ?st"
    by fastforce
  moreover have "same_rest st st'"
    using \<open>same_rest ?st st'\<close> \<open>store_inv ?st\<close> by (simp add: same_rest_def)
  ultimately show ?thesis
    using assms(2) by (simp add: retireKind_def credited_def [abs_def] addSpentRow_def)
qed

text \<open>The loop over the kinds adds the spending of each to the totals.\<close>

definition creditAll :: "branch_kind list \<Rightarrow> (branch_kind \<Rightarrow> row) \<Rightarrow> slot_pool \<Rightarrow> slot_pool" where
  "creditAll ks f pool = pool\<lparr>sp_retiredSpent :=
     (\<lambda>k. sp_retiredSpent pool k + (if k \<in> set ks then f k else 0))\<rparr>"

lemma creditAll_step:
  "k \<notin> set ks \<Longrightarrow> creditAll ks f (credited k (f k) pool) = creditAll (k # ks) f pool"
  by (cases pool) (auto simp: creditAll_def credited_def fun_eq_iff)

lemma retireKinds_spec:
  assumes "distinct ks" "store_inv st" "\<And>k. ledgers st (au_ledger au k) \<noteq> None"
  shows "\<exists>st'. forS (retireKind p au) ks st = (st', Inr ()) \<and> same_rest st st' \<and>
    branchSlotPools st' = (branchSlotPools st)(p := map_option
      (creditAll ks (\<lambda>k. spent (the (ledgers st (au_ledger au k))))) (branchSlotPools st p))"
  using assms
proof (induction ks arbitrary: st)
  case Nil
  have "creditAll [] f pool = pool" for f pool
    by (cases pool) (simp add: creditAll_def)
  then show ?case
    using Nil by (intro exI [of _ st]) (simp add: same_rest_def option.map_ident_strong)
next
  case (Cons k ks)
  let ?f = "\<lambda>st k. spent (the (ledgers st (au_ledger au k)))"
  obtain s where s: "ledgers st (au_ledger au k) = Some s"
    using Cons.prems(3) [of k] by auto
  from retireKind_spec [OF Cons.prems(2) s, of p] obtain st1 b where
    st1: "retireKind p au k st = (st1, Inr b)" "same_rest st st1"
      "branchSlotPools st1 = (branchSlotPools st)(p := map_option (credited k (spent s)) (branchSlotPools st p))"
    by blast
  have kept1: "kept (ledgers st) (ledgers st1)" and inv1: "store_inv st1"
    using st1(2) Cons.prems(2) by (auto simp: same_rest_def)
  have same_spent: "?f st1 = ?f st"
  proof
    fix j
    obtain t where "ledgers st (au_ledger au j) = Some t"
      using Cons.prems(3) [of j] by auto
    with keptD [OF kept1 this] show "?f st1 j = ?f st j"
      by (auto simp: history_kept_def)
  qed
  have "ledgers st1 (au_ledger au j) \<noteq> None" for j
    using keptD [OF kept1] Cons.prems(3) [of j] by fastforce
  moreover have "distinct ks"
    using Cons.prems(1) by simp
  ultimately obtain st' where
    st': "forS (retireKind p au) ks st1 = (st', Inr ())" "same_rest st1 st'"
      "branchSlotPools st' = (branchSlotPools st1)(p := map_option (creditAll ks (?f st)) (branchSlotPools st1 p))"
    using Cons.IH [OF _ inv1] unfolding same_spent by blast
  have "creditAll ks (?f st) (credited k (spent s) pool) = creditAll (k # ks) (?f st) pool" for pool
    using creditAll_step [of k ks "?f st" pool] Cons.prems(1) s by simp
  then have "branchSlotPools st' = (branchSlotPools st)(p := map_option (creditAll (k # ks) (?f st)) (branchSlotPools st p))"
    by (simp add: st'(3) st1(3) option.map_comp comp_def)
  then show ?case
    using st1(1) st'(1) same_rest_trans [OF st1(2) st'(2)] by auto
qed

text \<open>The pool after a branch has retired.\<close>

definition retire :: "nat \<Rightarrow> (branch_kind \<Rightarrow> row) \<Rightarrow> slot_pool \<Rightarrow> slot_pool" where
  "retire a f pool = pool\<lparr>sp_retiredSpent := (\<lambda>k. sp_retiredSpent pool k + f k),
     sp_live := removeAll a (sp_live pool), sp_retired := sp_retired pool + 1\<rparr>"

lemma retire_fields [simp]:
  "sp_live (retire a f pool) = removeAll a (sp_live pool)"
  "sp_capacity (retire a f pool) = sp_capacity pool" "sp_closed (retire a f pool) = sp_closed pool"
  "sp_retiredSpent (retire a f pool) k = sp_retiredSpent pool k + f k"
  by (simp_all add: retire_def)

lemma slots_retire:
  assumes ok: "slots_ok st" and au: "branchAuthorities st a = Some au" "\<not> au_released au"
    and pool: "branchSlotPools st (au_pool au) = Some pool"
    and st': "branchSlotPools st' = (branchSlotPools st)(au_pool au \<mapsto> retire a f pool)"
      "branchAuthorities st' = (branchAuthorities st)(a \<mapsto> au\<lparr>au_released := True\<rparr>)"
      "nextRef st' = nextRef st" "kept (ledgers st) (ledgers st')"
  shows "slots_ok st'"
proof -
  have led: "ledgers st' h \<noteq> None" if "ledgers st h \<noteq> None" for h
    using keptD [OF st'(4)] that by fastforce
  have size: "length (removeAll a (sp_live pool)) \<le> length (sp_live pool)"
    by (simp add: removeAll_filter_not_eq)
  show ?thesis
    unfolding slots_ok_def
  proof (intro conjI allI impI)
    fix q pool'
    assume q: "branchSlotPools st' q = Some pool'"
    then obtain pool0 where p0: "branchSlotPools st q = Some pool0" "sp_capacity pool' = sp_capacity pool0"
      "set (sp_live pool') \<subseteq> set (sp_live pool0) - {a}" "length (sp_live pool') \<le> length (sp_live pool0)"
      "distinct (sp_live pool0) \<longrightarrow> distinct (sp_live pool')"
    proof (cases "q = au_pool au")
      case True
      with q show ?thesis
        using that [OF _ ] pool size by (auto simp: st'(1) distinct_removeAll)
    next
      case False
      with q have q': "branchSlotPools st q = Some pool'"
        by (simp add: st'(1))
      moreover have "a \<notin> set (sp_live pool')"
        using slots_pool(4) [OF ok q', of a] au False by auto
      ultimately show ?thesis
        by (intro that [of pool']) auto
    qed
    show "q < nextRef st'" "distinct (sp_live pool')" "int (length (sp_live pool')) \<le> sp_capacity pool'"
      using slots_pool(1-3) [OF ok p0(1)] p0 st'(3) by auto
    show "\<forall>b\<in>set (sp_live pool'). \<exists>bu. branchAuthorities st' b = Some bu \<and> \<not> au_released bu \<and> au_pool bu = q"
      using slots_pool(4) [OF ok p0(1)] p0(3) by (auto simp: st'(2))
  next
    fix b bu
    assume b: "branchAuthorities st' b = Some bu"
    then obtain b0 where b0: "branchAuthorities st b = Some b0" "au_pool bu = au_pool b0"
      "au_ledger bu = au_ledger b0" "\<not> au_released bu \<longrightarrow> \<not> au_released b0 \<and> b \<noteq> a"
      using au by (auto simp: st'(2) split: if_splits)
    show "b < nextRef st'"
      using slots_authority(1) [OF ok b0(1)] st'(3) by simp
    show "ledgers st' (au_ledger bu k) \<noteq> None" for k
      using slots_authority(2) [OF ok b0(1), of k] b0(3) by (intro led) auto
    from slots_authority(3) [OF ok b0(1)] obtain pl where
      "branchSlotPools st (au_pool b0) = Some pl" "\<not> au_released b0 \<longrightarrow> b \<in> set (sp_live pl)"
      by blast
    then show "\<exists>pool. branchSlotPools st' (au_pool bu) = Some pool \<and>
        (\<not> au_released bu \<longrightarrow> b \<in> set (sp_live pool))"
      using b0 pool by (auto simp: st'(1))
  qed
qed

lemma releaseAuthority_spec:
  assumes inv: "branch_inv st" and au: "branchAuthorities st a = Some au" "\<not> au_released au"
  shows "\<exists>st' pool. releaseAuthority a au st = (st', Inr True) \<and> branch_inv st' \<and>
    branchSlotPools st (au_pool au) = Some pool \<and> a \<in> set (sp_live pool) \<and>
    branchSlotPools st' = (branchSlotPools st)(au_pool au \<mapsto> retire a (\<lambda>k. branchSpent st k a) pool) \<and>
    branchAuthorities st' = (branchAuthorities st)(a \<mapsto> au\<lparr>au_released := True\<rparr>) \<and>
    kept (ledgers st) (ledgers st')"
proof -
  have ok: "slots_ok st" and sinv: "store_inv st"
    using inv by (auto simp: branch_inv_def)
  from slots_authority(3) [OF ok au(1)] au(2) obtain pool where
    pool: "branchSlotPools st (au_pool au) = Some pool" "a \<in> set (sp_live pool)"
    by blast
  define st1 where "st1 = updAuthority a (\<lambda>u. u\<lparr>au_released := True\<rparr>) st"
  have "store_inv st1"
    using sinv by (subst store_inv_cong [of _ st]) (simp_all add: st1_def)
  moreover have "ledgers st1 (au_ledger au k) \<noteq> None" for k
    using slots_authority(2) [OF ok au(1), of k] by (auto simp: st1_def)
  moreover have "distinct BRANCH_KINDS"
    by (simp add: BRANCH_KINDS_def)
  ultimately obtain st2 where st2: "forS (retireKind (au_pool au) au) BRANCH_KINDS st1 = (st2, Inr ())"
    "same_rest st1 st2" "branchSlotPools st2 = (branchSlotPools st1)(au_pool au := map_option
      (creditAll BRANCH_KINDS (\<lambda>k. spent (the (ledgers st1 (au_ledger au k))))) (branchSlotPools st1 (au_pool au)))"
    using retireKinds_spec [of BRANCH_KINDS st1 au "au_pool au"] by blast
  define st3 where "st3 = updSlots (au_pool au)
    (\<lambda>pool. pool\<lparr>sp_live := removeAll a (sp_live pool), sp_retired := sp_retired pool + 1\<rparr>) st2"
  have run: "releaseAuthority a au st = (st3, Inr True)"
    using st2(1) by (simp add: releaseAuthority_def st1_def st3_def)
  have spent: "spent (the (ledgers st1 (au_ledger au k))) = branchSpent st k a" for k
    using slots_authority(2) [OF ok au(1), of k] au(1)
    by (auto simp: branchSpent_def branchLedger_def st1_def)
  have all: "k \<in> set BRANCH_KINDS" for k
    by (cases k) (simp_all add: BRANCH_KINDS_def)
  have P3: "branchSlotPools st3 = (branchSlotPools st)(au_pool au \<mapsto> retire a (\<lambda>k. branchSpent st k a) pool)"
    using pool(1) spent [unfolded st1_def] by (simp add: st3_def st2(3) st1_def creditAll_def retire_def all)
  have A3: "branchAuthorities st3 = (branchAuthorities st)(a \<mapsto> au\<lparr>au_released := True\<rparr>)"
    and n3: "nextRef st3 = nextRef st" and k3: "kept (ledgers st) (ledgers st3)"
    using st2(2) au(1) by (auto simp: st3_def same_rest_def st1_def)
  have "store_inv st3"
    using st2(2) \<open>store_inv st1\<close> by (subst store_inv_cong [of _ st2]) (simp_all add: st3_def same_rest_def)
  with slots_retire [OF ok au pool(1) P3 A3 n3 k3] have "branch_inv st3"
    by (simp add: branch_inv_def)
  with run P3 A3 k3 pool show ?thesis
    by blast
qed

section \<open>Closing a pool\<close>

lemma getAuthority_Some: "getAuthority st h = Some (a, au) \<longleftrightarrow> h = JRef a \<and> branchAuthorities st a = Some au"
  by (cases h) (auto simp: getAuthority_def)

lemma getSlots_Some: "getSlots st h = Some (p, pool) \<longleftrightarrow> h = JRef p \<and> branchSlotPools st p = Some pool"
  by (cases h) (auto simp: getSlots_def)

text \<open>What every branch of a pool has spent, retired or live.\<close>

definition totalSpent :: "'z branch_store_scheme \<Rightarrow> branch_kind \<Rightarrow> slot_pool \<Rightarrow> row" where
  "totalSpent st k pool = sp_retiredSpent pool k + sum_list (map (branchSpent st k) (sp_live pool))"

lemma branchSpent_kept:
  assumes "branchAuthorities st a = Some au" "branchAuthorities st' a = Some au'"
    "au_ledger au' = au_ledger au" "kept (ledgers st) (ledgers st')" "slots_ok st"
  shows "branchSpent st' k a = branchSpent st k a"
proof -
  obtain s where "ledgers st (au_ledger au k) = Some s"
    using slots_authority(2) [OF assms(5,1)] by blast
  with keptD [OF assms(4) this] assms(1-3) show ?thesis
    by (auto simp: branchSpent_def branchLedger_def history_kept_def)
qed

lemma totalSpent_retire:
  assumes ok: "slots_ok st" and au: "branchAuthorities st a = Some au" "\<not> au_released au"
    and pool: "branchSlotPools st (au_pool au) = Some pool" "a \<in> set (sp_live pool)"
    and st': "branchAuthorities st' = (branchAuthorities st)(a \<mapsto> au\<lparr>au_released := True\<rparr>)"
      "kept (ledgers st) (ledgers st')"
  shows "totalSpent st' k (retire a (\<lambda>k. branchSpent st k a) pool) = totalSpent st k pool"
proof -
  have "branchSpent st' k b = branchSpent st k b" if b: "b \<in> set (sp_live pool)" for b
  proof -
    obtain bu where bu: "branchAuthorities st b = Some bu"
      using slots_pool(4) [OF ok pool(1) b] by blast
    have "\<exists>bu'. branchAuthorities st' b = Some bu' \<and> au_ledger bu' = au_ledger bu"
      using bu au(1) by (cases "b = a") (auto simp: st'(1))
    then show ?thesis
      using branchSpent_kept [OF bu _ _ st'(2) ok] by blast
  qed
  then have eq: "map (branchSpent st' k) (removeAll a (sp_live pool)) =
      map (branchSpent st k) (removeAll a (sp_live pool))"
    by auto
  show ?thesis
    unfolding totalSpent_def retire_fields eq
    using sum_list_removeAll [OF slots_pool(2) [OF ok pool(1)] pool(2), of "branchSpent st k"] by simp
qed

lemma releasePeerBranchAuthority_cases [consumes 1, case_names nothing retired]:
  assumes "branch_inv st"
  obtains (nothing) res where "releasePeerBranchAuthority h st = (st, res)"
      "res \<in> {Inr False, Inl (Throws INVALID_ROUTE)}"
      "\<not> (\<exists>a au. h = JRef a \<and> branchAuthorities st a = Some au \<and> \<not> au_released au)"
  | (retired) a au st' pool where "releasePeerBranchAuthority h st = (st', Inr True)" "h = JRef a"
      "branchAuthorities st a = Some au" "\<not> au_released au" "branch_inv st'"
      "branchSlotPools st (au_pool au) = Some pool" "a \<in> set (sp_live pool)"
      "branchSlotPools st' = (branchSlotPools st)(au_pool au \<mapsto> retire a (\<lambda>k. branchSpent st k a) pool)"
      "branchAuthorities st' = (branchAuthorities st)(a \<mapsto> au\<lparr>au_released := True\<rparr>)"
      "kept (ledgers st) (ledgers st')"
proof (cases "\<exists>a au. h = JRef a \<and> branchAuthorities st a = Some au \<and> \<not> au_released au")
  case False
  have "releasePeerBranchAuthority h st = (st, if getAuthority st h = None
      then Inl (Throws INVALID_ROUTE) else Inr False)"
    using False
    by (cases "getAuthority st h") (auto simp: releasePeerBranchAuthority_def getAuthority_Some)
  then show ?thesis
    by (rule nothing) (use False in auto)
next
  case True
  then obtain a au where a: "h = JRef a" "branchAuthorities st a = Some au" "\<not> au_released au"
    by blast
  then have "releasePeerBranchAuthority h st = releaseAuthority a au st"
    by (simp add: releasePeerBranchAuthority_def getAuthority_def)
  with releaseAuthority_spec [OF assms a(2,3)] a show ?thesis
    by (auto intro: retired)
qed

text \<open>The closing loop leaves exactly the deferred branches of its list.\<close>

definition deferred :: "'z branch_store_scheme \<Rightarrow> nat \<Rightarrow> bool" where
  "deferred st a = (case branchAuthorities st a of None \<Rightarrow> False | Some au \<Rightarrow> au_joinDeferred au)"

definition close_effect :: "nat \<Rightarrow> nat list \<Rightarrow> 'z branch_store_scheme \<Rightarrow> 'z branch_store_scheme \<Rightarrow> bool" where
  "close_effect p as st st' =
     (branch_inv st' \<and> kept (ledgers st) (ledgers st') \<and>
      (\<forall>pool. branchSlotPools st p = Some pool \<longrightarrow> (\<exists>pool'. branchSlotPools st' p = Some pool' \<and>
         sp_capacity pool' = sp_capacity pool \<and> sp_closed pool' = sp_closed pool \<and>
         sp_live pool' = filter (\<lambda>a. a \<notin> set as \<or> deferred st a) (sp_live pool) \<and>
         (\<forall>k. totalSpent st' k pool' = totalSpent st k pool))) \<and>
      (\<forall>a. deferred st' a = deferred st a))"

lemma closeBranch_spec:
  assumes inv: "branch_inv st" and p: "branchSlotPools st p = Some pool" "a \<in> set (sp_live pool)"
  shows "\<exists>st' b. closeBranch a st = (st', Inr b) \<and> close_effect p [a] st st'"
proof -
  have ok: "slots_ok st"
    using inv by (simp add: branch_inv_def)
  from slots_pool(4) [OF ok p] obtain au where
    au: "branchAuthorities st a = Some au" "\<not> au_released au" "au_pool au = p"
    by blast
  show ?thesis
  proof (cases "au_joinDeferred au")
    case True
    then have "filter (\<lambda>b. b \<notin> set [a] \<or> deferred st b) (sp_live pool) = sp_live pool"
      using au(1) by (auto simp: deferred_def intro: filter_True)
    with True inv au(1) p(1) show ?thesis
      by (intro exI [of _ st] exI [of _ False]) (simp add: closeBranch_def close_effect_def)
  next
    case False
    then have run: "closeBranch a st = releasePeerBranchAuthority (JRef a) st"
      using au(1) by (simp add: closeBranch_def)
    from inv show ?thesis
    proof (cases rule: releasePeerBranchAuthority_cases [where h = "JRef a"])
      case (nothing res)
      with au show ?thesis by auto
    next
      case (retired a' au' st' pool')
      with au p have same: "a' = a" "au' = au" "pool' = pool"
        by auto
      have "removeAll a (sp_live pool) = filter (\<lambda>b. b \<notin> set [a] \<or> deferred st b) (sp_live pool)"
        using au(1) False by (auto simp: removeAll_filter_not_eq deferred_def intro!: filter_cong)
      moreover have "deferred st' b = deferred st b" for b
        using retired(9) au(1) same by (auto simp: deferred_def)
      moreover have "totalSpent st' k (retire a (\<lambda>k. branchSpent st k a) pool) = totalSpent st k pool" for k
        using totalSpent_retire [OF ok au(1,2) _ p(2)] retired(9,10) p(1) au(3) same by simp
      ultimately have "close_effect p [a] st st'"
        using retired(5,8,10) p(1) au(3) same by (simp add: close_effect_def)
      then show ?thesis
        using run retired(1) by auto
    qed
  qed
qed

lemma close_loop:
  assumes "branch_inv st" "branchSlotPools st p = Some pool" "set as \<subseteq> set (sp_live pool)" "distinct as"
  shows "\<exists>st'. forS closeBranch as st = (st', Inr ()) \<and> close_effect p as st st'"
  using assms
proof (induction as arbitrary: st pool)
  case Nil
  then show ?case
    by (simp add: close_effect_def)
next
  case (Cons a as)
  from closeBranch_spec [OF Cons.prems(1,2), of a] Cons.prems(3) obtain st1 b where
    st1: "closeBranch a st = (st1, Inr b)" "close_effect p [a] st st1"
    by auto
  from st1(2) Cons.prems(2) obtain pool1 where
    pool1: "branchSlotPools st1 p = Some pool1"
      "sp_live pool1 = filter (\<lambda>x. x \<notin> set [a] \<or> deferred st x) (sp_live pool)"
      "sp_capacity pool1 = sp_capacity pool" "sp_closed pool1 = sp_closed pool"
      "\<forall>k. totalSpent st1 k pool1 = totalSpent st k pool"
    by (auto simp: close_effect_def)
  have def1: "deferred st1 = deferred st" and inv1: "branch_inv st1"
    using st1(2) by (auto simp: close_effect_def)
  have "set as \<subseteq> set (sp_live pool1)" "distinct as"
    using Cons.prems(3,4) by (auto simp: pool1(2))
  from Cons.IH [OF inv1 pool1(1) this] obtain st' where
    st': "forS closeBranch as st1 = (st', Inr ())" "close_effect p as st1 st'"
    by blast
  have "close_effect p (a # as) st st'"
    using st'(2) st1(2) pool1 Cons.prems(2) unfolding close_effect_def def1
    by (auto intro: kept_trans intro!: filter_cong)
  then show ?case
    using st1(1) st'(1) by auto
qed

end
