(* ===== verification/Branch_Properties.thy ===== *)
theory Branch_Properties
  imports Branch_Invariant
begin

text \<open>
  Branch slots over every interleaving of the operations of \<^verbatim>\<open>peer-ledger.js\<close>: the number of live
  branches never exceeds the capacity of their pool, and what branches have spent is neither lost nor
  counted twice when they retire.
\<close>

section \<open>The other operations\<close>

interpretation lslot: ledger_frame "\<lambda>(st :: 'y branch_store_scheme) st'.
    branchSlotPools st' = branchSlotPools st \<and> branchAuthorities st' = branchAuthorities st"
  by unfold_locales (auto simp: newLedger_def updLedger_def split: option.split)

interpretation ldom: ledger_frame "\<lambda>st st'. \<forall>h. ledgers st h \<noteq> None \<longrightarrow> ledgers st' h \<noteq> None"
  by unfold_locales (auto simp: newLedger_def)

lemma ledger_step_branch:
  assumes "branch_inv (st :: 'y branch_store_scheme)"
  shows "branch_inv (ledger_step x st)"
proof -
  have "slots_ok (ledger_step x st)"
  proof (rule slots_frame [of st])
    show "branchSlotPools (ledger_step x st) = branchSlotPools st"
      "branchAuthorities (ledger_step x st) = branchAuthorities st"
      using lslot.R_step [where st = st and x = x] by auto
    show "nextRef st \<le> nextRef (ledger_step x st)"
      by (rule lmono.R_step)
    show "ledgers (ledger_step x st) h \<noteq> None" if "ledgers st h = Some s" for h s
      using ldom.R_step [where st = st and x = x] that by auto
  qed (use assms in \<open>simp add: branch_inv_def\<close>)
  with assms show ?thesis
    by (simp add: branch_inv_def ledger_step_store)
qed

lemma memory_step_slots:
  assumes "memory_inv (st :: 'y branch_store_scheme)"
  shows "branchSlotPools (memory_step x st) = branchSlotPools st \<and>
    branchAuthorities (memory_step x st) = branchAuthorities st"
proof (cases x)
  case (CreatePool v)
  then show ?thesis
    by (auto simp: createPeerMemoryPool_def newPool_def split: sum.split)
next
  case (ReserveMemory p k v)
  then show ?thesis
    by (auto simp: reservePeerMemory_def Let_def updPool_def split: option.split sum.split)
next
  case (TakeMemory h)
  then show ?thesis
    by (auto simp: takePeerMemory_def newPool_def Let_def updPool_def updReservation_def
        split: option.split)
next
  case (ReleaseMemory h)
  from releasePeerMemory_returns [OF assms, of h] obtain st' res where
    st': "releasePeerMemory h st = (st', res)" "only_memory st st'"
    by blast
  from st'(2) have "branchSlotPools st' = branchSlotPools st" "branchAuthorities st' = branchAuthorities st"
    unfolding only_memory_def by (cases st; cases st'; simp)+
  with st'(1) ReleaseMemory show ?thesis
    by simp
qed

lemma memory_step_branch:
  assumes "branch_inv (st :: 'y branch_store_scheme)"
  shows "branch_inv (memory_step x st)"
proof -
  have inv: "memory_inv st"
    using assms by (simp add: branch_inv_def store_inv_def)
  have "slots_ok (memory_step x st)"
  proof (rule slots_frame [of st])
    show "ledgers (memory_step x st) h \<noteq> None" if "ledgers st h = Some s" for h s
      using memory_step_ledgers(1) [OF inv, of x] that by simp
  qed (use assms memory_step_slots [OF inv, of x] memory_step_ledgers(2) [OF inv, of x]
      in \<open>simp_all add: branch_inv_def\<close>)
  with assms show ?thesis
    by (simp add: branch_inv_def memory_step_store)
qed

lemma publish_slots:
  "branchSlotPools (fold publishMemory ms (st :: 'y branch_store_scheme)) = branchSlotPools st \<and>
   branchAuthorities (fold publishMemory ms st) = branchAuthorities st"
  "branchSlotPools (fold publishLedger ls (st :: 'y branch_store_scheme)) = branchSlotPools st \<and>
   branchAuthorities (fold publishLedger ls st) = branchAuthorities st"
proof -
  have "branchSlotPools (publishMemory m st) = branchSlotPools st \<and>
      branchAuthorities (publishMemory m st) = branchAuthorities st" for m and st :: "'y branch_store_scheme"
    by (cases m) (simp add: publishMemory_def updPool_def updReservation_def)
  then show "branchSlotPools (fold publishMemory ms st) = branchSlotPools st \<and>
      branchAuthorities (fold publishMemory ms st) = branchAuthorities st"
    by (induction ms arbitrary: st) auto
  have "branchSlotPools (publishLedger l st) = branchSlotPools st \<and>
      branchAuthorities (publishLedger l st) = branchAuthorities st" for l and st :: "'y branch_store_scheme"
    by (cases l) (simp add: publishLedger_def updLedger_def Let_def split: option.split)
  then show "branchSlotPools (fold publishLedger ls st) = branchSlotPools st \<and>
      branchAuthorities (fold publishLedger ls st) = branchAuthorities st"
    by (induction ls arbitrary: st) auto
qed

lemma narrow_branch:
  assumes "branch_inv (st :: 'y branch_store_scheme)"
  shows "branch_inv (fst (narrowPeerReservations options st))"
proof (cases rule: narrow_cases [of options st])
  case (published ls ms)
  let ?st = "fold publishMemory ms (fold publishLedger ls st)"
  have inv: "store_inv st"
    using assms by (simp add: branch_inv_def)
  note new = narrow_published [OF inv published(2-4) refl]
  have "slots_ok ?st"
  proof (rule slots_frame [of st])
    show "ledgers ?st h \<noteq> None" if "ledgers st h = Some s" for h s
      using that unfolding new(2) by (simp add: narrowedL_def)
    show "slots_ok st"
      using assms by (simp add: branch_inv_def)
  qed (simp_all add: publish_slots new(3))
  with new(1) published(1) show ?thesis
    by (simp add: branch_inv_def)
qed (use assms in simp)

definition row_valid :: "row \<Rightarrow> bool" where
  "row_valid r = (0 \<le> r_cells r \<and> r_cells r \<le> MAX_U32 \<and> 0 \<le> r_bytes r \<and> r_bytes r \<le> MAX_U64 \<and>
     0 \<le> r_commands r \<and> r_commands r \<le> MAX_U32)"

lemma readRow_rowObject: "row_valid r \<Longrightarrow> readRow (rowObject r) = Inr r"
  by (cases r) (simp add: row_valid_def readRow_def rowObject_def invalidE_def ownProp_def)

lemma readBranchRows_valid:
  assumes "readBranchRows rows = Inr plan"
  shows "list_all row_valid plan" "length plan = 4"
proof -
  from assms have m: "mapE (readBranchRow rows) BRANCH_KINDS = Inr plan"
    by (simp add: readBranchRows_def result_simps)
  from m show "list_all row_valid plan"
    by (rule mapE_all)
      (auto simp: readBranchRow_def result_simps checkU32_Inr checkU64_Inr row_valid_def)
  show "length plan = 4"
    using mapE_length [OF m] by (simp add: BRANCH_KINDS_def)
qed

lemma createRoots_spec:
  assumes "list_all row_valid plan" "store_inv (st :: 'y branch_store_scheme)"
  shows "\<exists>st' hs. createRoots plan st = (st', Inr hs) \<and> length hs = length plan \<and> store_inv st' \<and>
    (\<forall>h\<in>set hs. ledgers st' h \<noteq> None) \<and> (\<forall>h. ledgers st h \<noteq> None \<longrightarrow> ledgers st' h \<noteq> None) \<and>
    nextRef st \<le> nextRef st' \<and> branchSlotPools st' = branchSlotPools st \<and>
    branchAuthorities st' = branchAuthorities st"
  using assms
proof (induction plan arbitrary: st)
  case (Cons r rs)
  let ?st1 = "ledger_step (CreateLedger (rowObject r)) st"
  have create: "createPeerLedger (rowObject r) st = (?st1, Inr (JRef (nextRef st)))"
    using Cons.prems(1) by (simp add: createPeerLedger_def readRow_rowObject newLedger_def)
  have new: "ledgers ?st1 (nextRef st) \<noteq> None" "\<forall>h. ledgers st h \<noteq> None \<longrightarrow> ledgers ?st1 h \<noteq> None"
      "nextRef st \<le> nextRef ?st1" "branchSlotPools ?st1 = branchSlotPools st"
      "branchAuthorities ?st1 = branchAuthorities st"
    using Cons.prems(1) by (simp_all add: createPeerLedger_def readRow_rowObject newLedger_def)
  have "store_inv ?st1"
    by (rule ledger_step_store [OF Cons.prems(2)])
  with Cons.IH [of ?st1] Cons.prems(1) obtain st' hs where
    st': "createRoots rs ?st1 = (st', Inr hs)" "length hs = length rs" "store_inv st'"
      "\<forall>h\<in>set hs. ledgers st' h \<noteq> None" "\<forall>h. ledgers ?st1 h \<noteq> None \<longrightarrow> ledgers st' h \<noteq> None"
      "nextRef ?st1 \<le> nextRef st'" "branchSlotPools st' = branchSlotPools ?st1"
      "branchAuthorities st' = branchAuthorities ?st1"
    by auto
  have "createRoots (r # rs) st = (st', Inr (nextRef st # hs))"
    using create st'(1) by (simp del: ledger_step.simps)
  with st' new show ?case
    by (intro exI [of _ st'] exI [of _ "nextRef st # hs"]) (auto simp del: ledger_step.simps)
qed auto

lemma createPeerBranchSlots_inv:
  assumes "branch_inv st"
  shows "branch_inv (fst (createPeerBranchSlots v st))"
proof (cases "\<exists>c. checkU32 v = Inr c \<and> \<not> c < 1")
  case True
  then obtain c where c: "checkU32 v = Inr c" "1 \<le> c"
    by auto
  let ?st = "fst (createPeerBranchSlots v st)"
  have ok: "slots_ok st" and inv: "store_inv st"
    using assms by (auto simp: branch_inv_def)
  have unused: "branchSlotPools st (nextRef st) = None"
    using slots_pool(1) [OF ok, of "nextRef st"] by (cases "branchSlotPools st (nextRef st)") auto
  have reads: "ledgers ?st = ledgers st" "pools ?st = pools st" "reservations ?st = reservations st"
    "nextRef ?st = Suc (nextRef st)" "branchAuthorities ?st = branchAuthorities st"
    "branchSlotPools ?st = (branchSlotPools st)(nextRef st \<mapsto> \<lparr>sp_capacity = c, sp_live = [],
       sp_retired = 0, sp_closed = False, sp_retiredSpent = emptySpent\<rparr>)"
    using c by (simp_all add: createPeerBranchSlots_def)
  have "slots_ok ?st"
    unfolding slots_ok_def reads
  proof (intro conjI allI impI)
    fix p pool
    assume "((branchSlotPools st)(nextRef st \<mapsto> \<lparr>sp_capacity = c, sp_live = [], sp_retired = 0,
       sp_closed = False, sp_retiredSpent = emptySpent\<rparr>)) p = Some pool"
    then consider "p = nextRef st" "sp_live pool = []" "sp_capacity pool = c" | "branchSlotPools st p = Some pool"
      by (auto split: if_splits)
    then show "p < Suc (nextRef st)" "distinct (sp_live pool)" "int (length (sp_live pool)) \<le> sp_capacity pool"
        "\<forall>a\<in>set (sp_live pool). \<exists>au. branchAuthorities st a = Some au \<and> \<not> au_released au \<and> au_pool au = p"
      using slots_pool [OF ok] c(2) by (cases; fastforce)+
  next
    fix a au
    assume a: "branchAuthorities st a = Some au"
    show "a < Suc (nextRef st)"
      using slots_authority(1) [OF ok a] by simp
    show "ledgers st (au_ledger au k) \<noteq> None" for k
      using slots_authority(2) [OF ok a] by auto
    show "\<exists>pool. ((branchSlotPools st)(nextRef st \<mapsto> \<lparr>sp_capacity = c, sp_live = [], sp_retired = 0,
       sp_closed = False, sp_retiredSpent = emptySpent\<rparr>)) (au_pool au) = Some pool \<and>
       (\<not> au_released au \<longrightarrow> a \<in> set (sp_live pool))"
      using slots_authority(3) [OF ok a] unused by auto
  qed
  moreover have "store_inv ?st"
    using inv unfolding store_inv_def ledger_inv_def memory_inv_def reads
    by (auto intro: ledger_inv_mono memory_inv_mono)
  ultimately show ?thesis
    by (simp add: branch_inv_def)
next
  case False
  then show ?thesis
    using assms by (auto simp: createPeerBranchSlots_def split: sum.splits)
qed

text \<open>Admission: the new branch takes a slot together with four fresh roots.\<close>

lemma slots_admit:
  assumes ok: "slots_ok st" and p: "branchSlotPools st p = Some pool"
    and room: "int (length (sp_live pool)) < sp_capacity pool"
    and a: "a = nextRef st" "\<And>k. ledgers st (l k) \<noteq> None"
    and st': "branchSlotPools st' = (branchSlotPools st)(p \<mapsto> pool\<lparr>sp_live := sp_live pool @ [a]\<rparr>)"
      "branchAuthorities st' = (branchAuthorities st)(a \<mapsto> \<lparr>au_pool = p, au_ledger = l,
         au_released = False, au_joinDeferred = False\<rparr>)"
      "ledgers st' = ledgers st" "nextRef st' = Suc (nextRef st)"
  shows "slots_ok st'"
proof -
  have fresh: "branchAuthorities st a = None"
    using slots_authority(1) [OF ok, of a] a(1) by (cases "branchAuthorities st a") auto
  have notlive: "a \<notin> set (sp_live q)" if "branchSlotPools st k = Some q" for k q
    using slots_pool(4) [OF ok that, of a] fresh by auto
  show ?thesis
    unfolding slots_ok_def st'(3,4)
  proof (intro conjI allI impI)
    fix q pool'
    assume q: "branchSlotPools st' q = Some pool'"
    then consider (admitted) "q = p" "pool' = pool\<lparr>sp_live := sp_live pool @ [a]\<rparr>" | (other) "q \<noteq> p" "branchSlotPools st q = Some pool'"
      by (auto simp: st'(1) split: if_splits)
    note cq = this
    show "q < Suc (nextRef st)"
      using cq slots_pool(1) [OF ok] p by cases fastforce+
    show "distinct (sp_live pool')" "int (length (sp_live pool')) \<le> sp_capacity pool'"
      using cq slots_pool(2,3) [OF ok] p notlive [OF p] room by (cases; auto)+
    show "\<forall>b\<in>set (sp_live pool'). \<exists>bu. branchAuthorities st' b = Some bu \<and> \<not> au_released bu \<and> au_pool bu = q"
      using cq
    proof cases
      case admitted
      then show ?thesis
        using slots_pool(4) [OF ok p] notlive [OF p] by (auto simp: st'(2))
    next
      case other
      then show ?thesis
        using slots_pool(4) [OF ok other(2)] notlive [OF other(2)] by (auto simp: st'(2))
    qed
  next
    fix b bu
    assume b: "branchAuthorities st' b = Some bu"
    then consider (new) "b = a" "bu = \<lparr>au_pool = p, au_ledger = l, au_released = False, au_joinDeferred = False\<rparr>"
      | (old) "branchAuthorities st b = Some bu"
      unfolding st'(2) by (metis fun_upd_apply option.inject)
    note cb = this
    show "b < Suc (nextRef st)"
      using cb
    proof cases
      case old
      then show ?thesis
        using slots_authority(1) [OF ok old] by simp
    qed (simp add: a(1))
    show "ledgers st (au_ledger bu k) \<noteq> None" for k
      using cb
    proof cases
      case old
      then show ?thesis
        using slots_authority(2) [OF ok old, of k] by auto
    qed (use a(2) in simp)
    show "\<exists>pool. branchSlotPools st' (au_pool bu) = Some pool \<and> (\<not> au_released bu \<longrightarrow> b \<in> set (sp_live pool))"
      using cb
    proof cases
      case old
      then show ?thesis
        using slots_authority(3) [OF ok old] p by (auto simp: st'(1))
    qed (simp add: st'(1))
  qed
qed

lemma takePeerBranchAuthority_inv:
  assumes inv: "branch_inv st"
  shows "branch_inv (fst (takePeerBranchAuthority h rows st))"
proof (cases "\<exists>p pool plan. getSlots st h = Some (p, pool) \<and> readBranchRows rows = Inr plan \<and>
    \<not> sp_closed pool \<and> int (length (sp_live pool)) < sp_capacity pool")
  case False
  then have "fst (takePeerBranchAuthority h rows st) = st"
    by (auto simp: takePeerBranchAuthority_def split: option.split sum.split)
  with inv show ?thesis by simp
next
  case True
  then obtain p pool plan where t: "getSlots st h = Some (p, pool)" "readBranchRows rows = Inr plan"
    "\<not> sp_closed pool" "int (length (sp_live pool)) < sp_capacity pool"
    by blast
  from inv have sinv: "store_inv st" and ok: "slots_ok st"
    by (auto simp: branch_inv_def)
  from createRoots_spec [OF readBranchRows_valid(1) [OF t(2)] sinv] obtain st1 hs where
    st1: "createRoots plan st = (st1, Inr hs)" "length hs = length plan" "store_inv st1"
      "\<forall>h\<in>set hs. ledgers st1 h \<noteq> None" "\<forall>h. ledgers st h \<noteq> None \<longrightarrow> ledgers st1 h \<noteq> None"
      "nextRef st \<le> nextRef st1" "branchSlotPools st1 = branchSlotPools st"
      "branchAuthorities st1 = branchAuthorities st"
    by blast
  have ok1: "slots_ok st1"
    using slots_frame [OF ok st1(7,8,6)] st1(5) by blast
  have p: "branchSlotPools st1 p = Some pool"
    using t(1) st1(7) by (simp add: getSlots_Some)
  let ?st = "fst (takePeerBranchAuthority h rows st)"
  have reads: "ledgers ?st = ledgers st1" "pools ?st = pools st1" "reservations ?st = reservations st1"
    "nextRef ?st = Suc (nextRef st1)"
    "branchSlotPools ?st = (branchSlotPools st1)(p \<mapsto> pool\<lparr>sp_live := sp_live pool @ [nextRef st1]\<rparr>)"
    "branchAuthorities ?st = (branchAuthorities st1)(nextRef st1 \<mapsto> \<lparr>au_pool = p,
       au_ledger = (\<lambda>k. hs ! kindIndex k), au_released = False, au_joinDeferred = False\<rparr>)"
    using t st1(1) p by (simp_all add: takePeerBranchAuthority_def Let_def)
  have "kindIndex k < length hs" for k
    using st1(2) readBranchRows_valid(2) [OF t(2)] by (cases k) (simp_all add: kindIndex_def)
  then have "ledgers st1 (hs ! kindIndex k) \<noteq> None" for k
    using st1(4) nth_mem by blast
  from slots_admit [OF ok1 p t(4) refl this reads(5,6,1,4)] have "slots_ok ?st" .
  moreover have "store_inv ?st"
    using st1(3) unfolding store_inv_def ledger_inv_def memory_inv_def reads
    by (auto intro: ledger_inv_mono memory_inv_mono)
  ultimately show ?thesis
    by (simp add: branch_inv_def)
qed

lemma deferPeerBranchAuthorityJoin_inv:
  assumes inv: "branch_inv st"
  shows "branch_inv (fst (deferPeerBranchAuthorityJoin h st))"
proof (cases "\<exists>a au. h = JRef a \<and> branchAuthorities st a = Some au \<and> \<not> au_released au \<and> \<not> au_joinDeferred au")
  case False
  then have "fst (deferPeerBranchAuthorityJoin h st) = st"
    by (auto simp: deferPeerBranchAuthorityJoin_def getAuthority_Some split: option.split)
  with inv show ?thesis by simp
next
  case True
  then obtain a au where a: "h = JRef a" "branchAuthorities st a = Some au" "\<not> au_released au"
    "\<not> au_joinDeferred au"
    by blast
  let ?st = "updAuthority a (\<lambda>u. u\<lparr>au_joinDeferred := True\<rparr>) st"
  have run: "fst (deferPeerBranchAuthorityJoin h st) = ?st"
    using a by (simp add: deferPeerBranchAuthorityJoin_def getAuthority_def)
  have ok: "slots_ok st" and "store_inv st"
    using inv by (auto simp: branch_inv_def)
  have look: "\<exists>bu'. branchAuthorities ?st b = Some bu' \<and> au_released bu' = au_released bu \<and>
      au_pool bu' = au_pool bu" if "branchAuthorities st b = Some bu" for b bu
    using that by (cases "b = a") auto
  have back_look: "\<exists>bu. branchAuthorities st b = Some bu \<and> au_released bu' = au_released bu \<and>
      au_pool bu' = au_pool bu \<and> au_ledger bu' = au_ledger bu" if "branchAuthorities ?st b = Some bu'" for b bu'
    using that by (cases "b = a") auto
  have "slots_ok ?st"
    unfolding slots_ok_def upd_slots_reads(8,9,12)
  proof (intro conjI allI impI)
    fix p pool
    assume p: "branchSlotPools st p = Some pool"
    show "p < nextRef st" "distinct (sp_live pool)" "int (length (sp_live pool)) \<le> sp_capacity pool"
      using slots_pool(1-3) [OF ok p] by auto
    show "\<forall>b\<in>set (sp_live pool). \<exists>bu. branchAuthorities ?st b = Some bu \<and> \<not> au_released bu \<and> au_pool bu = p"
      using slots_pool(4) [OF ok p] look by metis
  next
    fix b bu'
    assume b: "branchAuthorities ?st b = Some bu'"
    from back_look [OF b] obtain bu where bu: "branchAuthorities st b = Some bu"
      "au_released bu' = au_released bu" "au_pool bu' = au_pool bu" "au_ledger bu' = au_ledger bu"
      by blast
    show "b < nextRef st"
      by (rule slots_authority(1) [OF ok bu(1)])
    show "ledgers st (au_ledger bu' k) \<noteq> None" for k
      using slots_authority(2) [OF ok bu(1), of k] bu(4) by auto
    show "\<exists>pool. branchSlotPools st (au_pool bu') = Some pool \<and> (\<not> au_released bu' \<longrightarrow> b \<in> set (sp_live pool))"
      unfolding bu(2,3) by (rule slots_authority(3) [OF ok bu(1)])
  qed
  moreover have "store_inv ?st"
    using \<open>store_inv st\<close> by (subst store_inv_cong [of _ st]) simp_all
  ultimately show ?thesis
    unfolding run by (simp add: branch_inv_def)
qed

text \<open>Marking the pool closed, then the loop.\<close>

lemma slots_mark_closed:
  assumes "branch_inv st" "branchSlotPools st p = Some pool"
  shows "branch_inv (updSlots p (\<lambda>s. s\<lparr>sp_closed := True\<rparr>) st)"
proof -
  let ?st = "updSlots p (\<lambda>s. s\<lparr>sp_closed := True\<rparr>) st"
  have ok: "slots_ok st" and "store_inv st"
    using assms(1) by (auto simp: branch_inv_def)
  have there: "\<exists>q'. branchSlotPools ?st k = Some q' \<and> sp_live q' = sp_live q" if "branchSlotPools st k = Some q" for k q
    using that by (cases "k = p") auto
  have back_there: "\<exists>q. branchSlotPools st k = Some q \<and> sp_live q' = sp_live q \<and> sp_capacity q' = sp_capacity q"
    if "branchSlotPools ?st k = Some q'" for k q'
    using that by (cases "k = p") auto
  have "slots_ok ?st"
    unfolding slots_ok_def upd_slots_reads(2,3,6)
  proof (intro conjI allI impI)
    fix k q'
    assume k: "branchSlotPools ?st k = Some q'"
    from back_there [OF k] obtain q where q: "branchSlotPools st k = Some q" "sp_live q' = sp_live q"
      "sp_capacity q' = sp_capacity q"
      by blast
    show "k < nextRef st" "distinct (sp_live q')" "int (length (sp_live q')) \<le> sp_capacity q'"
      using slots_pool(1-3) [OF ok q(1)] q by auto
    show "\<forall>a\<in>set (sp_live q'). \<exists>au. branchAuthorities st a = Some au \<and> \<not> au_released au \<and> au_pool au = k"
      using slots_pool(4) [OF ok q(1)] q(2) by simp
  next
    fix a au
    assume a: "branchAuthorities st a = Some au"
    show "a < nextRef st" "ledgers st (au_ledger au k) \<noteq> None" for k
      using slots_authority(1,2) [OF ok a] by auto
    show "\<exists>pool. branchSlotPools ?st (au_pool au) = Some pool \<and> (\<not> au_released au \<longrightarrow> a \<in> set (sp_live pool))"
      using slots_authority(3) [OF ok a] there by fastforce
  qed
  moreover have "store_inv ?st"
    using \<open>store_inv st\<close> by (subst store_inv_cong [of _ st]) simp_all
  ultimately show ?thesis
    by (simp add: branch_inv_def)
qed

lemma closePeerBranchSlots_spec:
  assumes inv: "branch_inv st" and p: "branchSlotPools st p = Some pool" "\<not> sp_closed pool"
  shows "\<exists>st'. closePeerBranchSlots (JRef p) st = (st', Inr True) \<and>
    close_effect p (sp_live pool) (updSlots p (\<lambda>s. s\<lparr>sp_closed := True\<rparr>) st) st'"
proof -
  let ?st = "updSlots p (\<lambda>s. s\<lparr>sp_closed := True\<rparr>) st"
  have "branch_inv ?st"
    by (rule slots_mark_closed [OF inv p(1)])
  moreover have "branchSlotPools ?st p = Some (pool\<lparr>sp_closed := True\<rparr>)"
    using p(1) by simp
  moreover have "distinct (sp_live pool)"
    using slots_pool(2) [OF _ p(1)] inv by (simp add: branch_inv_def)
  ultimately obtain st' where "forS closeBranch (sp_live pool) ?st = (st', Inr ())"
    "close_effect p (sp_live pool) ?st st'"
    using close_loop [of ?st p "pool\<lparr>sp_closed := True\<rparr>" "sp_live pool"] by auto
  with p show ?thesis
    by (auto simp: closePeerBranchSlots_def getSlots_def)
qed

lemma closePeerBranchSlots_inv:
  assumes "branch_inv st"
  shows "branch_inv (fst (closePeerBranchSlots h st))"
proof (cases "\<exists>p pool. h = JRef p \<and> branchSlotPools st p = Some pool \<and> \<not> sp_closed pool")
  case True
  with closePeerBranchSlots_spec [OF assms] show ?thesis
    by (fastforce simp: close_effect_def)
next
  case False
  then have "fst (closePeerBranchSlots h st) = st"
    by (auto simp: closePeerBranchSlots_def getSlots_Some split: option.split)
  with assms show ?thesis by simp
qed

section \<open>The whole module\<close>

datatype branch_op =
    StoreOp store_op
  | CreateSlots jsval
  | TakeBranch jsval jsval
  | DeferBranch jsval
  | ReleaseBranch jsval
  | CloseSlots jsval

fun branch_step :: "branch_op \<Rightarrow> 'z branch_store_scheme \<Rightarrow> 'z branch_store_scheme" where
  "branch_step (StoreOp x) st = store_step x st"
| "branch_step (CreateSlots v) st = fst (createPeerBranchSlots v st)"
| "branch_step (TakeBranch h rows) st = fst (takePeerBranchAuthority h rows st)"
| "branch_step (DeferBranch h) st = fst (deferPeerBranchAuthorityJoin h st)"
| "branch_step (ReleaseBranch h) st = fst (releasePeerBranchAuthority h st)"
| "branch_step (CloseSlots h) st = fst (closePeerBranchSlots h st)"

definition emptyBranches :: branch_store where
  "emptyBranches = \<lparr>ledgers = Map.empty, nextRef = 0, pools = Map.empty, reservations = Map.empty,
     branchSlotPools = Map.empty, branchAuthorities = Map.empty\<rparr>"

lemma branch_step_inv:
  assumes "branch_inv (st :: 'z branch_store_scheme)"
  shows "branch_inv (branch_step x st)"
proof (cases x)
  case (StoreOp y)
  with assms show ?thesis
    by (cases y) (simp_all add: ledger_step_branch memory_step_branch narrow_branch)
next
  case (ReleaseBranch h)
  from assms show ?thesis
  proof (cases rule: releasePeerBranchAuthority_cases [where h = h])
    case (nothing res)
    with assms ReleaseBranch show ?thesis by simp
  next
    case (retired a au st' pool)
    with ReleaseBranch show ?thesis by simp
  qed
qed (use assms in \<open>simp_all add: createPeerBranchSlots_inv takePeerBranchAuthority_inv
    deferPeerBranchAuthorityJoin_inv closePeerBranchSlots_inv\<close>)

interpretation brm: op_system branch_step branch_inv
  by unfold_locales (rule branch_step_inv)

lemma branch_run_inv: "branch_inv (fold branch_step ops emptyBranches)"
  by (rule brm.run_inv)
    (simp add: branch_inv_def slots_ok_def store_inv_def emptyBranches_def memory_inv_def
      memory_inv_with_def ledger_inv_def ledger_inv_with_def)

section \<open>Properties\<close>

text \<open>
  C9: Whatever sequence of operations of the module runs (ledgers, memory, narrowing, branch slots,
  with any arguments), a pool of branch slots never holds more live branches than its capacity, no
  branch holds two slots, and every live branch is unreleased, belongs to the pool and has its four
  ledgers.
\<close>

theorem branch_slots_bounded:
  assumes "st = fold branch_step ops emptyBranches" "branchSlotPools st p = Some pool"
  shows "int (length (sp_live pool)) \<le> sp_capacity pool \<and> distinct (sp_live pool) \<and>
    (\<forall>a\<in>set (sp_live pool). \<exists>au. branchAuthorities st a = Some au \<and> \<not> au_released au \<and> au_pool au = p \<and>
       (\<forall>k. ledgers st (au_ledger au k) \<noteq> None))"
proof -
  have ok: "slots_ok st"
    using branch_run_inv [of ops] by (simp add: branch_inv_def assms(1))
  have "\<exists>au. branchAuthorities st a = Some au \<and> \<not> au_released au \<and> au_pool au = p \<and>
      (\<forall>k. ledgers st (au_ledger au k) \<noteq> None)" if "a \<in> set (sp_live pool)" for a
  proof -
    from slots_pool(4) [OF ok assms(2) that] obtain au where
      au: "branchAuthorities st a = Some au" "\<not> au_released au" "au_pool au = p"
      by blast
    with slots_authority(2) [OF ok au(1)] show ?thesis
      by auto
  qed
  with slots_pool(2,3) [OF ok assms(2)] show ?thesis
    by blast
qed

definition example_rows :: jsval where
  "example_rows = JObj (map (\<lambda>k. (kind_name k, DataProp (example_row 5))) BRANCH_KINDS) []"

definition example_branch_ops :: "branch_op list" where
  "example_branch_ops = [CreateSlots (JNum 2), TakeBranch (JRef 0) example_rows]"

definition example_pool :: slot_pool where
  "example_pool = \<lparr>sp_capacity = 2, sp_live = [5], sp_retired = 0, sp_closed = False,
     sp_retiredSpent = emptySpent\<rparr>"

lemma readBranchRows_example: "readBranchRows example_rows = Inr (replicate 4 (Row 5 6000 0))"
  by (simp add: readBranchRows_def readBranchRow_def example_rows_def example_row_def BRANCH_KINDS_def
      exactKeys_def ownProp_def ROW_FIELDS_def MAX_U32_def MAX_U64_def eval_nat_numeral)

lemma example_branch_pool:
  "branchSlotPools (fold branch_step example_branch_ops emptyBranches) 0 = Some example_pool"
  by (simp add: example_branch_ops_def createPeerBranchSlots_def emptyBranches_def MAX_U32_def MAX_U64_def
      takePeerBranchAuthority_def readBranchRows_example getSlots_def createPeerLedger_def
      readRow_rowObject row_valid_def newLedger_def example_pool_def updSlots_def Let_def eval_nat_numeral)

theorem branch_slots_bounded_witness:
  "int (length (sp_live example_pool)) \<le> sp_capacity example_pool"
  using branch_slots_bounded [OF refl example_branch_pool] by blast

text \<open>
  Closing a pool of branch slots returns true the first time; afterwards the pool is closed and
  exactly the branches deferred to their join barrier still hold slots, and what all branches of the
  pool have spent, retired or live, is unchanged for every kind of ledger.
\<close>

theorem closing_keeps_deferred_branches:
  assumes "st = fold branch_step ops emptyBranches" "branchSlotPools st p = Some pool" "\<not> sp_closed pool"
  shows "\<exists>st' pool'. closePeerBranchSlots (JRef p) st = (st', Inr True) \<and>
    branchSlotPools st' p = Some pool' \<and> sp_closed pool' \<and>
    sp_live pool' = filter (deferred st) (sp_live pool) \<and>
    (\<forall>k. totalSpent st' k pool' = totalSpent st k pool)"
proof -
  have inv: "branch_inv st"
    using branch_run_inv [of ops] by (simp add: assms(1))
  let ?st = "updSlots p (\<lambda>s. s\<lparr>sp_closed := True\<rparr>) st"
  from closePeerBranchSlots_spec [OF inv assms(2,3)] obtain st' where
    st': "closePeerBranchSlots (JRef p) st = (st', Inr True)" "close_effect p (sp_live pool) ?st st'"
    by blast
  have "branchSlotPools ?st p = Some (pool\<lparr>sp_closed := True\<rparr>)"
    using assms(2) by simp
  with st'(2) obtain pool' where pool': "branchSlotPools st' p = Some pool'" "sp_closed pool'"
    "sp_live pool' = filter (\<lambda>a. a \<notin> set (sp_live pool) \<or> deferred ?st a) (sp_live pool)"
    "\<forall>k. totalSpent st' k pool' = totalSpent ?st k (pool\<lparr>sp_closed := True\<rparr>)"
    by (auto simp: close_effect_def)
  have "deferred ?st = deferred st"
    by (simp add: deferred_def fun_eq_iff)
  then have "sp_live pool' = filter (deferred st) (sp_live pool)"
    unfolding pool'(3) by (intro filter_cong) auto
  moreover have "totalSpent ?st k (pool\<lparr>sp_closed := True\<rparr>) = totalSpent st k pool" for k
  proof -
    have "branchSpent ?st k = branchSpent st k"
      by (simp add: fun_eq_iff branchSpent_def branchLedger_def split: option.split)
    then show ?thesis
      by (simp add: totalSpent_def)
  qed
  ultimately show ?thesis
    using st'(1) pool' by auto
qed

theorem closing_keeps_deferred_branches_witness:
  "\<exists>st' pool'. closePeerBranchSlots (JRef 0) (fold branch_step example_branch_ops emptyBranches) = (st', Inr True) \<and>
    branchSlotPools st' 0 = Some pool' \<and> sp_closed pool' \<and>
    sp_live pool' = filter (deferred (fold branch_step example_branch_ops emptyBranches)) [5]"
proof -
  have "\<not> sp_closed example_pool" "sp_live example_pool = [5]"
    by (simp_all add: example_pool_def)
  with closing_keeps_deferred_branches [OF refl example_branch_pool] show ?thesis
    by metis
qed

end
