(* ===== verification/Compact_Encoding.thy ===== *)
theory Compact_Encoding
  imports Interfaces
begin

text \<open>
  The interface of the \<^verbatim>\<open>compact-encoding\<close> package, which is not part of the repository: a codec
  is a triple of functions on a state with a cursor, an end and a buffer. The package's own codecs
  are a parameter of everything built on them (record \<open>compact\<close>); what the message codecs rely on
  is the locale \<open>compact_encoding\<close>, stated with the wire images of record \<open>wires\<close>. Also here:
  \<^verbatim>\<open>lib/encode.js\<close>, the statement combinators the message codecs are written with, and the
  contract \<open>wire_codec\<close> every codec satisfies.
\<close>

section \<open>Codec states\<close>

record cstate =
  cs_start :: nat
  cs_end :: nat
  cs_buffer :: bytes

text \<open>
  A codec of \<^verbatim>\<open>compact-encoding\<close>: \<open>preencode\<close> adds the size to \<open>end\<close>, \<open>encode\<close> writes at
  \<open>start\<close>, \<open>decode\<close> reads at \<open>start\<close>; \<open>Inl ()\<close> is a throw. A codec may write one type and
  read another.
\<close>

record ('a, 'b) codec2 =
  preencode :: "'a \<Rightarrow> cstate \<Rightarrow> cstate"
  encode :: "'a \<Rightarrow> cstate \<Rightarrow> unit + cstate"
  decode :: "cstate \<Rightarrow> unit + ('b \<times> cstate)"

type_synonym 'a codec = "('a, 'a) codec2"
type_synonym grower = "cstate \<Rightarrow> cstate"
type_synonym writer = "cstate \<Rightarrow> unit + cstate"
type_synonym 'a reader = "cstate \<Rightarrow> unit + ('a \<times> cstate)"

text \<open>\<open>state.end += n\<close>\<close>

definition grow :: "nat \<Rightarrow> grower" where
  "grow n st = st\<lparr>cs_end := cs_end st + n\<rparr>"

text \<open>Statements in sequence, a statement under a condition, and the field reads of a decoder.\<close>

fun growAll :: "grower list \<Rightarrow> grower" where
  "growAll [] st = st"
| "growAll (p # ps) st = growAll ps (p st)"

fun writeAll :: "writer list \<Rightarrow> writer" where
  "writeAll [] st = Inr st"
| "writeAll (w # ws) st = bindE (w st) (writeAll ws)"

definition growIf :: "bool \<Rightarrow> grower \<Rightarrow> grower" where
  "growIf b p st = (if b then p st else st)"

definition writeIf :: "bool \<Rightarrow> writer \<Rightarrow> writer" where
  "writeIf b w st = (if b then w st else Inr st)"

fun growOpt :: "('a \<Rightarrow> grower) \<Rightarrow> 'a option \<Rightarrow> grower" where
  "growOpt p None st = st"
| "growOpt p (Some x) st = p x st"

fun writeOpt :: "('a \<Rightarrow> writer) \<Rightarrow> 'a option \<Rightarrow> writer" where
  "writeOpt w None st = Inr st"
| "writeOpt w (Some x) st = w x st"

definition readRet :: "'a \<Rightarrow> 'a reader" where
  "readRet x st = Inr (x, st)"

definition readBind :: "'a reader \<Rightarrow> ('a \<Rightarrow> 'b reader) \<Rightarrow> 'b reader" where
  "readBind r f st = bindE (r st) (\<lambda>(x, st'). f x st')"

definition readIf :: "bool \<Rightarrow> 'a reader \<Rightarrow> 'a option reader" where
  "readIf b r = (if b then readBind r (\<lambda>x. readRet (Some x)) else readRet None)"

text \<open>\<^verbatim>\<open>lib/encode.js\<close>\<close>

definition encodeUnslab :: "('a, 'b) codec2 \<Rightarrow> 'a \<Rightarrow> unit + bytes" where
  "encodeUnslab enc msg =
     (let st = preencode enc msg \<lparr>cs_start = 0, cs_end = 0, cs_buffer = []\<rparr>;
          st = st\<lparr>cs_buffer := replicate (cs_end st) 0\<rparr>
      in bindE (encode enc msg st) (\<lambda>st'. Inr (cs_buffer st')))"

text \<open>A decoder started on a whole buffer.\<close>

definition decodeBuffer :: "('b, 'a) codec2 \<Rightarrow> bytes \<Rightarrow> unit + 'a" where
  "decodeBuffer enc bs =
     bindE (decode enc \<lparr>cs_start = 0, cs_end = length bs, cs_buffer = bs\<rparr>) (\<lambda>(x, _). Inr x)"

section \<open>The contract of a codec\<close>

definition put :: "bytes \<Rightarrow> cstate \<Rightarrow> cstate" where
  "put bs st = st\<lparr>cs_start := cs_start st + length bs,
     cs_buffer := take (cs_start st) (cs_buffer st) @ bs @ drop (cs_start st + length bs) (cs_buffer st)\<rparr>"

definition advance :: "nat \<Rightarrow> cstate \<Rightarrow> cstate" where
  "advance n st = st\<lparr>cs_start := cs_start st + n\<rparr>"

definition showsAt :: "bytes \<Rightarrow> cstate \<Rightarrow> bool" where
  "showsAt bs st \<longleftrightarrow> cs_start st + length bs \<le> cs_end st
     \<and> cs_end st \<le> length (cs_buffer st)
     \<and> take (length bs) (drop (cs_start st) (cs_buffer st)) = bs"

text \<open>A statement grows by a size, writes or reads exactly the given bytes.\<close>

definition grows :: "grower \<Rightarrow> nat \<Rightarrow> bool" where
  "grows p n \<longleftrightarrow> (\<forall>st. p st = grow n st)"

definition writes :: "writer \<Rightarrow> bytes \<Rightarrow> bool" where
  "writes w bs \<longleftrightarrow>
     (\<forall>st. cs_start st + length bs \<le> length (cs_buffer st) \<longrightarrow> w st = Inr (put bs st))"

definition reads :: "'a reader \<Rightarrow> bytes \<Rightarrow> 'a \<Rightarrow> bool" where
  "reads r bs x \<longleftrightarrow> (\<forall>st. showsAt bs st \<longrightarrow> r st = Inr (x, advance (length bs) st))"

text \<open>
  A codec lays valid values out as their wire image, announces the size of that image and reads it
  back, up to the normalisation \<open>norm\<close> (absent buffers and empty ones are not told apart, say).
\<close>

locale wire_writer =
  fixes K :: "('a, 'b) codec2"
    and valid :: "'a \<Rightarrow> bool"
    and wire :: "'a \<Rightarrow> bytes"
  assumes grows_wire: "valid x \<Longrightarrow> grows (preencode K x) (length (wire x))"
    and writes_wire: "valid x \<Longrightarrow> writes (encode K x) (wire x)"
begin

lemma encodes: "valid x \<Longrightarrow> encodeUnslab K x = Inr (wire x)"
  using grows_wire [of x] writes_wire [of x]
  by (simp add: grows_def writes_def grow_def encodeUnslab_def Let_def put_def)

end

locale wire_reader =
  fixes K :: "('c, 'a) codec2"
    and valid :: "'b \<Rightarrow> bool"
    and wire :: "'b \<Rightarrow> bytes"
    and norm :: "'b \<Rightarrow> 'a"
  assumes reads_wire: "valid x \<Longrightarrow> reads (decode K) (wire x) (norm x)"
begin

lemma decodes: "valid x \<Longrightarrow> decodeBuffer K (wire x @ rest) = Inr (norm x)"
  using reads_wire [of x] by (simp add: reads_def showsAt_def decodeBuffer_def)

end

locale wire_codec = wire_writer K valid wire + wire_reader K valid wire norm
  for K :: "'a codec" and valid wire and norm :: "'a \<Rightarrow> 'a"
begin

lemma round_trip:
  assumes "valid x"
  shows "\<exists>bs. encodeUnslab K x = Inr bs \<and> decodeBuffer K bs = Inr (norm x)"
  using encodes [OF assms] decodes [OF assms, of "[]"] by simp

end

section \<open>Sequences of statements\<close>

named_theorems wire_intros \<open>what a sequence of statements grows by, writes or reads\<close>

lemma put_put: "put cs (put bs st) = put (bs @ cs) st"
  if "cs_start st + length (bs @ cs) \<le> length (cs_buffer st)"
  using that by (cases st) (simp add: put_def ac_simps)

lemma put_Nil [simp]: "put [] st = st"
  by (cases st) (simp add: put_def)

lemma put_room [simp]:
  "cs_start (put bs st) = cs_start st + length bs"
  "cs_start st + length bs \<le> length (cs_buffer st) \<Longrightarrow>
   length (cs_buffer (put bs st)) = length (cs_buffer st)"
  by (simp_all add: put_def)

lemma advance_advance [simp]: "advance m (advance n st) = advance (n + m) st"
  by (simp add: advance_def ac_simps)

lemma advance_0 [simp]: "advance 0 st = st"
  by (simp add: advance_def)

lemma showsAt_append:
  "showsAt (bs @ cs) st \<longleftrightarrow> showsAt bs st \<and> showsAt cs (advance (length bs) st)"
  by (auto simp: showsAt_def advance_def take_add append_eq_append_conv ac_simps)

lemma grows_Nil [wire_intros]: "grows (growAll []) 0"
  by (simp add: grows_def grow_def)

lemma grows_Cons [wire_intros]:
  "grows p n \<Longrightarrow> grows (growAll ps) k \<Longrightarrow> grows (growAll (p # ps)) (n + k)"
  by (simp add: grows_def grow_def ac_simps)

lemma grows_grow [wire_intros]: "grows (grow n) n"
  by (simp add: grows_def)

lemma grows_If: "(b \<Longrightarrow> grows p n) \<Longrightarrow> grows (growIf b p) (if b then n else 0)"
  by (simp add: grows_def growIf_def grow_def)

lemma grows_Opt: "(\<And>x. v = Some x \<Longrightarrow> grows (p x) (f x)) \<Longrightarrow>
  grows (growOpt p v) (case v of None \<Rightarrow> 0 | Some x \<Rightarrow> f x)"
  by (cases v) (simp_all add: grows_def grow_def)

lemma writes_Nil [wire_intros]: "writes (writeAll []) []"
  by (simp add: writes_def)

lemma writes_Cons [wire_intros]:
  assumes "writes w bs" "writes (writeAll ws) cs"
  shows "writes (writeAll (w # ws)) (bs @ cs)"
  unfolding writes_def
proof (intro allI impI)
  fix st :: cstate assume "cs_start st + length (bs @ cs) \<le> length (cs_buffer st)"
  with assms show "writeAll (w # ws) st = Inr (put (bs @ cs) st)"
    by (simp add: writes_def put_put)
qed

lemma writes_If: "(b \<Longrightarrow> writes w bs) \<Longrightarrow> writes (writeIf b w) (if b then bs else [])"
  by (simp add: writes_def writeIf_def)

lemma writes_Opt: "(\<And>x. v = Some x \<Longrightarrow> writes (w x) (f x)) \<Longrightarrow>
  writes (writeOpt w v) (case v of None \<Rightarrow> [] | Some x \<Rightarrow> f x)"
  by (cases v) (simp_all add: writes_def)

lemma reads_Ret: "reads (readRet x) [] x"
  by (simp add: reads_def readRet_def)

lemma reads_Bind:
  assumes "reads r bs x" "reads (f x) cs y"
  shows "reads (readBind r f) (bs @ cs) y"
  using assms by (simp add: reads_def readBind_def showsAt_append)

lemma reads_If:
  assumes "b \<longleftrightarrow> v \<noteq> None" "\<And>x. v = Some x \<Longrightarrow> reads r (f x) (g x)"
  shows "reads (readIf b r) (case v of None \<Rightarrow> [] | Some x \<Rightarrow> f x) (map_option g v)"
proof (cases v)
  case None
  with assms(1) show ?thesis by (simp add: readIf_def reads_Ret)
next
  case (Some x)
  have "reads (readBind r (\<lambda>x. readRet (Some x))) (f x @ []) (Some (g x))"
    by (rule reads_Bind [where x = "g x"], rule assms(2) [OF Some], rule reads_Ret)
  with Some assms(1) show ?thesis by (simp add: readIf_def)
qed

section \<open>The package as a parameter\<close>

record address =
  host :: string
  port :: nat

text \<open>
  The codecs of the package the repository uses. \<open>c.array\<close> is taken at the element types it is
  applied to; \<open>c.buffer\<close> reads an empty buffer as \<open>null\<close>.
\<close>

record ('relay, 'peer) compact =
  c_uint :: "nat codec"
  c_buffer :: "bytes option codec"
  c_string :: "string codec"
  c_fixed32 :: "bytes codec"
  c_fixed64 :: "bytes codec"
  c_raw :: "bytes codec"
  c_ipv4Address :: "address codec"
  c_ipv6Address :: "address codec"
  c_arrayAddress :: "address codec \<Rightarrow> address list codec"
  c_arrayRelay :: "'relay codec \<Rightarrow> 'relay list codec"
  c_arrayPeer :: "'peer codec \<Rightarrow> 'peer list codec"
  c_arrayRaw :: "bytes codec \<Rightarrow> bytes list codec"

text \<open>The wire images the package gives, and the addresses and strings it can represent.\<close>

record wires =
  w_uint :: "nat \<Rightarrow> bytes"
  w_string :: "string \<Rightarrow> bytes"
  v_string :: "string \<Rightarrow> bool"
  w_ipv4 :: "address \<Rightarrow> bytes"
  v_ipv4 :: "address \<Rightarrow> bool"
  w_ipv6 :: "address \<Rightarrow> bytes"
  v_ipv6 :: "address \<Rightarrow> bool"

definition v_uint :: "nat \<Rightarrow> bool" where
  "v_uint n \<longleftrightarrow> n < 2 ^ 53"

definition bytesOf :: "bytes option \<Rightarrow> bytes" where
  "bytesOf b = (case b of None \<Rightarrow> [] | Some bs \<Rightarrow> bs)"

definition w_buffer :: "wires \<Rightarrow> bytes option \<Rightarrow> bytes" where
  "w_buffer W b = w_uint W (length (bytesOf b)) @ bytesOf b"

definition v_buffer :: "bytes option \<Rightarrow> bool" where
  "v_buffer b \<longleftrightarrow> v_uint (length (bytesOf b))"

text \<open>What \<open>c.buffer\<close> reads back: an empty buffer is \<open>null\<close>.\<close>

definition n_buffer :: "bytes option \<Rightarrow> bytes option" where
  "n_buffer b = (if bytesOf b = [] then None else b)"

definition w_array :: "wires \<Rightarrow> ('a \<Rightarrow> bytes) \<Rightarrow> 'a list \<Rightarrow> bytes" where
  "w_array W f xs = w_uint W (length xs) @ concat (map f xs)"

definition v_array :: "('a \<Rightarrow> bool) \<Rightarrow> 'a list \<Rightarrow> bool" where
  "v_array v xs \<longleftrightarrow> length xs \<le> 2 ^ 20 \<and> list_all v xs"

text \<open>\<open>c.array\<close>: the length, then the elements by the element codec.\<close>

definition array_writer :: "wires \<Rightarrow> ('a codec \<Rightarrow> 'a list codec) \<Rightarrow> bool" where
  "array_writer W arr \<longleftrightarrow> (\<forall>K v f. wire_writer K v f \<longrightarrow>
     wire_writer (arr K) (v_array v) (w_array W f))"

definition array_reader :: "wires \<Rightarrow> ('a codec \<Rightarrow> 'a list codec) \<Rightarrow> bool" where
  "array_reader W arr \<longleftrightarrow> (\<forall>K v f (n :: 'a \<Rightarrow> 'a). wire_reader K v f n \<longrightarrow>
     wire_reader (arr K) (v_array v) (w_array W f) (map n))"

text \<open>The documented behaviour of the package.\<close>

locale compact_encoding =
  fixes C :: "('relay, 'peer) compact"
    and W :: wires
  assumes uint: "wire_codec (c_uint C) v_uint (w_uint W) (\<lambda>n. n)"
    and uint_short: "n < 253 \<Longrightarrow> length (w_uint W n) = 1"
    and uint_nonempty: "w_uint W n \<noteq> []"
    and buffer: "wire_codec (c_buffer C) v_buffer (w_buffer W) n_buffer"
    and string: "wire_codec (c_string C) (v_string W) (w_string W) (\<lambda>s. s)"
    and fixed32: "wire_codec (c_fixed32 C) (\<lambda>b. length b = 32) (\<lambda>b. b) (\<lambda>b. b)"
    and fixed64: "wire_codec (c_fixed64 C) (\<lambda>b. length b = 64) (\<lambda>b. b) (\<lambda>b. b)"
    and raw: "wire_writer (c_raw C) (\<lambda>_. True) (\<lambda>b. b)"
    and ipv4Address: "wire_codec (c_ipv4Address C) (v_ipv4 W) (w_ipv4 W) (\<lambda>a. a)"
    and ipv4_size: "v_ipv4 W a \<Longrightarrow> length (w_ipv4 W a) = 6"
    and ipv6Address: "wire_codec (c_ipv6Address C) (v_ipv6 W) (w_ipv6 W) (\<lambda>a. a)"
    and arrayAddress: "array_writer W (c_arrayAddress C)" "array_reader W (c_arrayAddress C)"
    and arrayRelay: "array_writer W (c_arrayRelay C)" "array_reader W (c_arrayRelay C)"
    and arrayPeer: "array_writer W (c_arrayPeer C)" "array_reader W (c_arrayPeer C)"
    and arrayRaw: "array_writer W (c_arrayRaw C)"

section \<open>What decoders return\<close>

text \<open>Whatever a reader returns lies in a range.\<close>

definition ranges :: "'a reader \<Rightarrow> ('a \<Rightarrow> bool) \<Rightarrow> bool" where
  "ranges r v \<longleftrightarrow> (\<forall>st x st'. r st = Inr (x, st') \<longrightarrow> v x)"

definition array_ranges :: "('a codec \<Rightarrow> 'a list codec) \<Rightarrow> bool" where
  "array_ranges arr \<longleftrightarrow> (\<forall>K v. ranges (decode K) v \<longrightarrow> ranges (decode (arr K)) (v_array v))"

lemma ranges_Bind:
  assumes "ranges r v" "\<And>x. v x \<Longrightarrow> ranges (f x) w"
  shows "ranges (readBind r f) w"
  using assms by (fastforce simp: ranges_def readBind_def result_simps)

lemma ranges_Ret: "v x \<Longrightarrow> ranges (readRet x) v"
  by (simp add: ranges_def readRet_def)

lemma ranges_If: "ranges r v \<Longrightarrow> ranges (readIf b r) (\<lambda>x. case x of None \<Rightarrow> True | Some y \<Rightarrow> v y)"
  by (auto simp: readIf_def intro!: ranges_Bind ranges_Ret)

lemma ranges_decodeBuffer: "ranges (decode K) v \<Longrightarrow> decodeBuffer K bs = Inr x \<Longrightarrow> v x"
  by (auto simp: ranges_def decodeBuffer_def result_simps)

text \<open>The decoders of the package return values the package can represent.\<close>

locale compact_ranges = compact_encoding +
  assumes uint_range: "ranges (decode (c_uint C)) v_uint"
    and buffer_range: "ranges (decode (c_buffer C)) (\<lambda>b. v_buffer b \<and> b \<noteq> Some [])"
    and fixed32_range: "ranges (decode (c_fixed32 C)) (\<lambda>b. length b = 32)"
    and fixed64_range: "ranges (decode (c_fixed64 C)) (\<lambda>b. length b = 64)"
    and ipv4Address_range: "ranges (decode (c_ipv4Address C)) (v_ipv4 W)"
    and arrayAddress_range: "array_ranges (c_arrayAddress C)"

end
