(* ===== verification/Messages.thy ===== *)
theory Messages
  imports Compact_Encoding
begin

text \<open>
  \<^verbatim>\<open>lib/messages.js\<close>: the wire messages of the DHT, in the order of the file. A message object is a
  record; a field the code tests for truth before it writes it is an option (\<open>None\<close> for \<open>null\<close>,
  \<open>undefined\<close>). Every codec is three definitions, its \<open>preencode\<close>, \<open>encode\<close> and \<open>decode\<close> as
  statement lists and field reads in the order of the source, on the package \<open>C\<close> they call.
\<close>

section \<open>Message objects\<close>

record handshake_msg =
  hs_mode :: nat
  hs_noise :: "bytes option"
  hs_peerAddress :: "address option"
  hs_relayAddress :: "address option"

record relay_info =
  ri_relayAddress :: address
  ri_peerAddress :: address

record holepunch_info =
  hi_id :: nat
  hi_relays :: "relay_info list"

record udx_info =
  ux_version :: nat
  ux_reusableSocket :: bool
  ux_id :: nat
  ux_seq :: nat

record secret_stream_info =
  ss_version :: nat

record relay_through_info =
  rt_version :: nat
  rt_publicKey :: bytes
  rt_token :: bytes

record noise_payload =
  np_version :: nat
  np_error :: nat
  np_firewall :: nat
  np_holepunch :: "holepunch_info option"
  np_addresses4 :: "address list option"
  np_addresses6 :: "address list option"
  np_udx :: "udx_info option"
  np_secretStream :: "secret_stream_info option"
  np_relayThrough :: "relay_through_info option"
  np_relayAddresses :: "address list option"

record holepunch_msg =
  hp_mode :: nat
  hp_id :: nat
  hp_payload :: "bytes option"
  hp_peerAddress :: "address option"

record holepunch_payload =
  pp_error :: nat
  pp_firewall :: nat
  pp_round :: nat
  pp_connected :: bool
  pp_punching :: bool
  pp_addresses :: "address list option"
  pp_remoteAddress :: "address option"
  pp_token :: "bytes option"
  pp_remoteToken :: "bytes option"

record peer_msg =
  pe_publicKey :: bytes
  pe_relayAddresses :: "address list"

record 'p lookup_reply =
  lr_peers :: "'p list"
  lr_bump :: nat

record announce_msg =
  an_peer :: "peer_msg option"
  an_refresh :: "bytes option"
  an_signature :: "bytes option"
  an_bump :: nat

record mutable_signable =
  ms_seq :: nat
  ms_value :: "bytes option"

record mutable_put_request =
  mp_publicKey :: bytes
  mp_seq :: nat
  mp_value :: "bytes option"
  mp_signature :: bytes

record mutable_get_response =
  mg_seq :: nat
  mg_value :: "bytes option"
  mg_signature :: bytes

record plugin_request =
  pl_plugin :: string
  pl_version :: nat
  pl_command :: nat
  pl_value :: "bytes option"

type_synonym cenc = "(relay_info, peer_msg) compact"

text \<open>\<open>cond ? bit : 0\<close>, a term of a flags expression, and \<open>(flags & bit) !== 0\<close>.\<close>

definition flag :: "bool \<Rightarrow> nat \<Rightarrow> nat" where
  "flag b n = (if b then n else 0)"

definition hasFlag :: "nat \<Rightarrow> nat \<Rightarrow> bool" where
  "hasFlag flags n \<longleftrightarrow> flags AND n \<noteq> 0"

text \<open>\<open>m.addresses && m.addresses.length\<close>\<close>

definition someItems :: "'a list option \<Rightarrow> 'a list option" where
  "someItems v = (case v of None \<Rightarrow> None | Some xs \<Rightarrow> if xs = [] then None else Some xs)"

section \<open>Addresses\<close>

definition ipv4_decode :: "cenc \<Rightarrow> address reader" where
  "ipv4_decode C = readBind (decode (c_ipv4Address C)) (\<lambda>ip.
     readRet \<lparr>host = host ip, port = port ip\<rparr>)"

definition ipv4 :: "cenc \<Rightarrow> address codec" where
  "ipv4 C = (c_ipv4Address C)\<lparr>decode := ipv4_decode C\<rparr>"

definition ipv4Array :: "cenc \<Rightarrow> address list codec" where
  "ipv4Array C = c_arrayAddress C (ipv4 C)"

definition ipv6_decode :: "cenc \<Rightarrow> address reader" where
  "ipv6_decode C = readBind (decode (c_ipv6Address C)) (\<lambda>ip.
     readRet \<lparr>host = host ip, port = port ip\<rparr>)"

definition ipv6 :: "cenc \<Rightarrow> address codec" where
  "ipv6 C = (c_ipv6Address C)\<lparr>decode := ipv6_decode C\<rparr>"

definition ipv6Array :: "cenc \<Rightarrow> address list codec" where
  "ipv6Array C = c_arrayAddress C (ipv6 C)"

section \<open>Connection set-up\<close>

definition handshake_preencode :: "cenc \<Rightarrow> handshake_msg \<Rightarrow> grower" where
  "handshake_preencode C m = growAll [
     grow (1 + 1 + (if hs_peerAddress m \<noteq> None then 6 else 0) + (if hs_relayAddress m \<noteq> None then 6 else 0)),
     preencode (c_buffer C) (hs_noise m)]"

definition handshake_encode :: "cenc \<Rightarrow> handshake_msg \<Rightarrow> writer" where
  "handshake_encode C m = (let flags = flag (hs_peerAddress m \<noteq> None) 1 OR flag (hs_relayAddress m \<noteq> None) 2
   in writeAll [
     encode (c_uint C) flags,
     encode (c_uint C) (hs_mode m),
     encode (c_buffer C) (hs_noise m),
     writeOpt (encode (ipv4 C)) (hs_peerAddress m),
     writeOpt (encode (ipv4 C)) (hs_relayAddress m)])"

definition handshake_decode :: "cenc \<Rightarrow> handshake_msg reader" where
  "handshake_decode C =
     readBind (decode (c_uint C)) (\<lambda>flags.
     readBind (decode (c_uint C)) (\<lambda>mode.
     readBind (decode (c_buffer C)) (\<lambda>noise.
     readBind (readIf (hasFlag flags 1) (decode (ipv4 C))) (\<lambda>peerAddress.
     readBind (readIf (hasFlag flags 2) (decode (ipv4 C))) (\<lambda>relayAddress.
     readRet \<lparr>hs_mode = mode, hs_noise = noise, hs_peerAddress = peerAddress, hs_relayAddress = relayAddress\<rparr>)))))"

definition handshake :: "cenc \<Rightarrow> handshake_msg codec" where
  "handshake C = \<lparr>preencode = handshake_preencode C, encode = handshake_encode C, decode = handshake_decode C\<rparr>"

definition relayInfo_preencode :: "cenc \<Rightarrow> relay_info \<Rightarrow> grower" where
  "relayInfo_preencode C m = growAll [
     grow 12]"

definition relayInfo_encode :: "cenc \<Rightarrow> relay_info \<Rightarrow> writer" where
  "relayInfo_encode C m = writeAll [
     encode (ipv4 C) (ri_relayAddress m),
     encode (ipv4 C) (ri_peerAddress m)]"

definition relayInfo_decode :: "cenc \<Rightarrow> relay_info reader" where
  "relayInfo_decode C =
     readBind (decode (ipv4 C)) (\<lambda>relayAddress.
     readBind (decode (ipv4 C)) (\<lambda>peerAddress.
     readRet \<lparr>ri_relayAddress = relayAddress, ri_peerAddress = peerAddress\<rparr>))"

definition relayInfo :: "cenc \<Rightarrow> relay_info codec" where
  "relayInfo C = \<lparr>preencode = relayInfo_preencode C, encode = relayInfo_encode C, decode = relayInfo_decode C\<rparr>"

definition relayInfoArray :: "cenc \<Rightarrow> relay_info list codec" where
  "relayInfoArray C = c_arrayRelay C (relayInfo C)"

definition holepunchInfo_preencode :: "cenc \<Rightarrow> holepunch_info \<Rightarrow> grower" where
  "holepunchInfo_preencode C m = growAll [
     preencode (c_uint C) (hi_id m),
     preencode (relayInfoArray C) (hi_relays m)]"

definition holepunchInfo_encode :: "cenc \<Rightarrow> holepunch_info \<Rightarrow> writer" where
  "holepunchInfo_encode C m = writeAll [
     encode (c_uint C) (hi_id m),
     encode (relayInfoArray C) (hi_relays m)]"

definition holepunchInfo_decode :: "cenc \<Rightarrow> holepunch_info reader" where
  "holepunchInfo_decode C =
     readBind (decode (c_uint C)) (\<lambda>i.
     readBind (decode (relayInfoArray C)) (\<lambda>relays.
     readRet \<lparr>hi_id = i, hi_relays = relays\<rparr>))"

definition holepunchInfo :: "cenc \<Rightarrow> holepunch_info codec" where
  "holepunchInfo C = \<lparr>preencode = holepunchInfo_preencode C, encode = holepunchInfo_encode C, decode = holepunchInfo_decode C\<rparr>"

definition udxInfo_preencode :: "cenc \<Rightarrow> udx_info \<Rightarrow> grower" where
  "udxInfo_preencode C m = growAll [
     grow 2,
     preencode (c_uint C) (ux_id m),
     preencode (c_uint C) (ux_seq m)]"

definition udxInfo_encode :: "cenc \<Rightarrow> udx_info \<Rightarrow> writer" where
  "udxInfo_encode C m = writeAll [
     encode (c_uint C) 1,
     encode (c_uint C) (if ux_reusableSocket m then 1 else 0),
     encode (c_uint C) (ux_id m),
     encode (c_uint C) (ux_seq m)]"

definition udxInfo_decode :: "cenc \<Rightarrow> udx_info reader" where
  "udxInfo_decode C =
     readBind (decode (c_uint C)) (\<lambda>version.
     readBind (decode (c_uint C)) (\<lambda>features.
     readBind (decode (c_uint C)) (\<lambda>i.
     readBind (decode (c_uint C)) (\<lambda>seq.
     readRet \<lparr>ux_version = version, ux_reusableSocket = hasFlag features 1, ux_id = i, ux_seq = seq\<rparr>))))"

definition udxInfo :: "cenc \<Rightarrow> udx_info codec" where
  "udxInfo C = \<lparr>preencode = udxInfo_preencode C, encode = udxInfo_encode C, decode = udxInfo_decode C\<rparr>"

definition secretStreamInfo_preencode :: "cenc \<Rightarrow> secret_stream_info \<Rightarrow> grower" where
  "secretStreamInfo_preencode C m = growAll [
     preencode (c_uint C) 1]"

definition secretStreamInfo_encode :: "cenc \<Rightarrow> secret_stream_info \<Rightarrow> writer" where
  "secretStreamInfo_encode C m = writeAll [
     encode (c_uint C) 1]"

definition secretStreamInfo_decode :: "cenc \<Rightarrow> secret_stream_info reader" where
  "secretStreamInfo_decode C =
     readBind (decode (c_uint C)) (\<lambda>version.
     readRet \<lparr>ss_version = version\<rparr>)"

definition secretStreamInfo :: "cenc \<Rightarrow> secret_stream_info codec" where
  "secretStreamInfo C = \<lparr>preencode = secretStreamInfo_preencode C, encode = secretStreamInfo_encode C, decode = secretStreamInfo_decode C\<rparr>"

definition relayThroughInfo_preencode :: "cenc \<Rightarrow> relay_through_info \<Rightarrow> grower" where
  "relayThroughInfo_preencode C m = growAll [
     preencode (c_uint C) 1,
     preencode (c_uint C) 0,
     preencode (c_fixed32 C) (rt_publicKey m),
     preencode (c_fixed32 C) (rt_token m)]"

definition relayThroughInfo_encode :: "cenc \<Rightarrow> relay_through_info \<Rightarrow> writer" where
  "relayThroughInfo_encode C m = writeAll [
     encode (c_uint C) 1,
     encode (c_uint C) 0,
     encode (c_fixed32 C) (rt_publicKey m),
     encode (c_fixed32 C) (rt_token m)]"

definition relayThroughInfo_decode :: "cenc \<Rightarrow> relay_through_info reader" where
  "relayThroughInfo_decode C =
     readBind (decode (c_uint C)) (\<lambda>version.
     readBind (decode (c_uint C)) (\<lambda>_.
     readBind (decode (c_fixed32 C)) (\<lambda>publicKey.
     readBind (decode (c_fixed32 C)) (\<lambda>token.
     readRet \<lparr>rt_version = version, rt_publicKey = publicKey, rt_token = token\<rparr>))))"

definition relayThroughInfo :: "cenc \<Rightarrow> relay_through_info codec" where
  "relayThroughInfo C = \<lparr>preencode = relayThroughInfo_preencode C, encode = relayThroughInfo_encode C, decode = relayThroughInfo_decode C\<rparr>"

definition noisePayload_preencode :: "cenc \<Rightarrow> noise_payload \<Rightarrow> grower" where
  "noisePayload_preencode C m = growAll [
     grow 4,
     growOpt (preencode (holepunchInfo C)) (np_holepunch m),
     growOpt (preencode (ipv4Array C)) (someItems (np_addresses4 m)),
     growOpt (preencode (ipv6Array C)) (someItems (np_addresses6 m)),
     growOpt (preencode (udxInfo C)) (np_udx m),
     growOpt (preencode (secretStreamInfo C)) (np_secretStream m),
     growOpt (preencode (relayThroughInfo C)) (np_relayThrough m),
     growOpt (preencode (ipv4Array C)) (np_relayAddresses m)]"

definition noisePayload_encode :: "cenc \<Rightarrow> noise_payload \<Rightarrow> writer" where
  "noisePayload_encode C m = (let flags = flag (np_holepunch m \<noteq> None) 1 OR
       flag (someItems (np_addresses4 m) \<noteq> None) 2 OR
       flag (someItems (np_addresses6 m) \<noteq> None) 4 OR
       flag (np_udx m \<noteq> None) 8 OR
       flag (np_secretStream m \<noteq> None) 16 OR
       flag (np_relayThrough m \<noteq> None) 32 OR
       flag (np_relayAddresses m \<noteq> None) 64
   in writeAll [
     encode (c_uint C) 1,
     encode (c_uint C) flags,
     encode (c_uint C) (np_error m),
     encode (c_uint C) (np_firewall m),
     writeOpt (encode (holepunchInfo C)) (np_holepunch m),
     writeOpt (encode (ipv4Array C)) (someItems (np_addresses4 m)),
     writeOpt (encode (ipv6Array C)) (someItems (np_addresses6 m)),
     writeOpt (encode (udxInfo C)) (np_udx m),
     writeOpt (encode (secretStreamInfo C)) (np_secretStream m),
     writeOpt (encode (relayThroughInfo C)) (np_relayThrough m),
     writeOpt (encode (ipv4Array C)) (np_relayAddresses m)])"

definition noisePayload_decode :: "cenc \<Rightarrow> noise_payload reader" where
  "noisePayload_decode C =
     readBind (decode (c_uint C)) (\<lambda>version.
     if version \<noteq> 1
     then readRet \<lparr>np_version = version, np_error = 0, np_firewall = 0, np_holepunch = None,
       np_addresses4 = Some [], np_addresses6 = Some [], np_udx = None, np_secretStream = None,
       np_relayThrough = None, np_relayAddresses = None\<rparr>
     else readBind (decode (c_uint C)) (\<lambda>flags.
     readBind (decode (c_uint C)) (\<lambda>err.
     readBind (decode (c_uint C)) (\<lambda>firewall.
     readBind (readIf (hasFlag flags 1) (decode (holepunchInfo C))) (\<lambda>holepunch.
     readBind (readIf (hasFlag flags 2) (decode (ipv4Array C))) (\<lambda>addresses4.
     readBind (readIf (hasFlag flags 4) (decode (ipv6Array C))) (\<lambda>addresses6.
     readBind (readIf (hasFlag flags 8) (decode (udxInfo C))) (\<lambda>udx.
     readBind (readIf (hasFlag flags 16) (decode (secretStreamInfo C))) (\<lambda>secretStream.
     readBind (readIf (hasFlag flags 32) (decode (relayThroughInfo C))) (\<lambda>relayThrough.
     readBind (readIf (hasFlag flags 64) (decode (ipv4Array C))) (\<lambda>relayAddresses.
     readRet \<lparr>np_version = version, np_error = err, np_firewall = firewall, np_holepunch = holepunch, np_addresses4 = Some (case addresses4 of None \<Rightarrow> [] | Some xs \<Rightarrow> xs), np_addresses6 = Some (case addresses6 of None \<Rightarrow> [] | Some xs \<Rightarrow> xs), np_udx = udx, np_secretStream = secretStream, np_relayThrough = relayThrough, np_relayAddresses = relayAddresses\<rparr>)))))))))))"

definition noisePayload :: "cenc \<Rightarrow> noise_payload codec" where
  "noisePayload C = \<lparr>preencode = noisePayload_preencode C, encode = noisePayload_encode C, decode = noisePayload_decode C\<rparr>"

section \<open>Holepunching\<close>

definition holepunch_preencode :: "cenc \<Rightarrow> holepunch_msg \<Rightarrow> grower" where
  "holepunch_preencode C m = growAll [
     grow 2,
     preencode (c_uint C) (hp_id m),
     preencode (c_buffer C) (hp_payload m),
     growOpt (preencode (ipv4 C)) (hp_peerAddress m)]"

definition holepunch_encode :: "cenc \<Rightarrow> holepunch_msg \<Rightarrow> writer" where
  "holepunch_encode C m = (let flags = flag (hp_peerAddress m \<noteq> None) 1
   in writeAll [
     encode (c_uint C) flags,
     encode (c_uint C) (hp_mode m),
     encode (c_uint C) (hp_id m),
     encode (c_buffer C) (hp_payload m),
     writeOpt (encode (ipv4 C)) (hp_peerAddress m)])"

definition holepunch_decode :: "cenc \<Rightarrow> holepunch_msg reader" where
  "holepunch_decode C =
     readBind (decode (c_uint C)) (\<lambda>flags.
     readBind (decode (c_uint C)) (\<lambda>mode.
     readBind (decode (c_uint C)) (\<lambda>i.
     readBind (decode (c_buffer C)) (\<lambda>payload.
     readBind (readIf (hasFlag flags 1) (decode (ipv4 C))) (\<lambda>peerAddress.
     readRet \<lparr>hp_mode = mode, hp_id = i, hp_payload = payload, hp_peerAddress = peerAddress\<rparr>)))))"

definition holepunch :: "cenc \<Rightarrow> holepunch_msg codec" where
  "holepunch C = \<lparr>preencode = holepunch_preencode C, encode = holepunch_encode C, decode = holepunch_decode C\<rparr>"

definition holepunchPayload_preencode :: "cenc \<Rightarrow> holepunch_payload \<Rightarrow> grower" where
  "holepunchPayload_preencode C m = growAll [
     grow 4,
     growOpt (preencode (ipv4Array C)) (pp_addresses m),
     growIf (pp_remoteAddress m \<noteq> None) (grow 6),
     growIf (pp_token m \<noteq> None) (grow 32),
     growIf (pp_remoteToken m \<noteq> None) (grow 32)]"

definition holepunchPayload_encode :: "cenc \<Rightarrow> holepunch_payload \<Rightarrow> writer" where
  "holepunchPayload_encode C m = (let flags = flag (pp_connected m) 1 OR flag (pp_punching m) 2 OR flag (pp_addresses m \<noteq> None) 4 OR
       flag (pp_remoteAddress m \<noteq> None) 8 OR flag (pp_token m \<noteq> None) 16 OR
       flag (pp_remoteToken m \<noteq> None) 32
   in writeAll [
     encode (c_uint C) flags,
     encode (c_uint C) (pp_error m),
     encode (c_uint C) (pp_firewall m),
     encode (c_uint C) (pp_round m),
     writeOpt (encode (ipv4Array C)) (pp_addresses m),
     writeOpt (encode (ipv4 C)) (pp_remoteAddress m),
     writeOpt (encode (c_fixed32 C)) (pp_token m),
     writeOpt (encode (c_fixed32 C)) (pp_remoteToken m)])"

definition holepunchPayload_decode :: "cenc \<Rightarrow> holepunch_payload reader" where
  "holepunchPayload_decode C =
     readBind (decode (c_uint C)) (\<lambda>flags.
     readBind (decode (c_uint C)) (\<lambda>err.
     readBind (decode (c_uint C)) (\<lambda>firewall.
     readBind (decode (c_uint C)) (\<lambda>round.
     readBind (readIf (hasFlag flags 4) (decode (ipv4Array C))) (\<lambda>addresses.
     readBind (readIf (hasFlag flags 8) (decode (ipv4 C))) (\<lambda>remoteAddress.
     readBind (readIf (hasFlag flags 16) (decode (c_fixed32 C))) (\<lambda>token.
     readBind (readIf (hasFlag flags 32) (decode (c_fixed32 C))) (\<lambda>remoteToken.
     readRet \<lparr>pp_error = err, pp_firewall = firewall, pp_round = round, pp_connected = hasFlag flags 1, pp_punching = hasFlag flags 2, pp_addresses = addresses, pp_remoteAddress = remoteAddress, pp_token = token, pp_remoteToken = remoteToken\<rparr>))))))))"

definition holepunchPayload :: "cenc \<Rightarrow> holepunch_payload codec" where
  "holepunchPayload C = \<lparr>preencode = holepunchPayload_preencode C, encode = holepunchPayload_encode C, decode = holepunchPayload_decode C\<rparr>"

section \<open>Announcements and lookups\<close>

definition peer_preencode :: "cenc \<Rightarrow> peer_msg \<Rightarrow> grower" where
  "peer_preencode C m = growAll [
     grow 32,
     preencode (ipv4Array C) (pe_relayAddresses m)]"

definition peer_encode :: "cenc \<Rightarrow> peer_msg \<Rightarrow> writer" where
  "peer_encode C m = writeAll [
     encode (c_fixed32 C) (pe_publicKey m),
     encode (ipv4Array C) (pe_relayAddresses m)]"

definition peer_decode :: "cenc \<Rightarrow> peer_msg reader" where
  "peer_decode C =
     readBind (decode (c_fixed32 C)) (\<lambda>publicKey.
     readBind (decode (ipv4Array C)) (\<lambda>relayAddresses.
     readRet \<lparr>pe_publicKey = publicKey, pe_relayAddresses = relayAddresses\<rparr>))"

definition peer :: "cenc \<Rightarrow> peer_msg codec" where
  "peer C = \<lparr>preencode = peer_preencode C, encode = peer_encode C, decode = peer_decode C\<rparr>"

definition peers :: "cenc \<Rightarrow> peer_msg list codec" where
  "peers C = c_arrayPeer C (peer C)"

definition rawPeers :: "cenc \<Rightarrow> bytes list codec" where
  "rawPeers C = c_arrayRaw C (c_raw C)"

text \<open>The reply is written from encoded peers and read as peers; a missing bump reads as zero.\<close>

definition lookupRawReply_preencode :: "cenc \<Rightarrow> bytes lookup_reply \<Rightarrow> grower" where
  "lookupRawReply_preencode C m = growAll [
     preencode (rawPeers C) (lr_peers m),
     preencode (c_uint C) (lr_bump m)]"

definition lookupRawReply_encode :: "cenc \<Rightarrow> bytes lookup_reply \<Rightarrow> writer" where
  "lookupRawReply_encode C m = writeAll [
     encode (rawPeers C) (lr_peers m),
     encode (c_uint C) (lr_bump m)]"

definition lookupRawReply_decode :: "cenc \<Rightarrow> peer_msg lookup_reply reader" where
  "lookupRawReply_decode C =
     readBind (decode (peers C)) (\<lambda>ps.
     readBind (\<lambda>st. if cs_start st < cs_end st then decode (c_uint C) st else Inr (0, st)) (\<lambda>bump.
     readRet \<lparr>lr_peers = ps, lr_bump = bump\<rparr>))"

definition lookupRawReply :: "cenc \<Rightarrow> (bytes lookup_reply, peer_msg lookup_reply) codec2" where
  "lookupRawReply C = \<lparr>preencode = lookupRawReply_preencode C, encode = lookupRawReply_encode C,
     decode = lookupRawReply_decode C\<rparr>"

definition announce_preencode :: "cenc \<Rightarrow> announce_msg \<Rightarrow> grower" where
  "announce_preencode C m = growAll [
     grow 1,
     growOpt (preencode (peer C)) (an_peer m),
     growIf (an_refresh m \<noteq> None) (grow 32),
     growIf (an_signature m \<noteq> None) (grow 64),
     growIf (an_bump m \<noteq> 0) (preencode (c_uint C) (an_bump m))]"

definition announce_encode :: "cenc \<Rightarrow> announce_msg \<Rightarrow> writer" where
  "announce_encode C m = (let flags = flag (an_peer m \<noteq> None) 1 OR flag (an_refresh m \<noteq> None) 2 OR
       flag (an_signature m \<noteq> None) 4 OR flag (an_bump m \<noteq> 0) 8
   in writeAll [
     encode (c_uint C) flags,
     writeOpt (encode (peer C)) (an_peer m),
     writeOpt (encode (c_fixed32 C)) (an_refresh m),
     writeOpt (encode (c_fixed64 C)) (an_signature m),
     writeIf (an_bump m \<noteq> 0) (encode (c_uint C) (an_bump m))])"

definition announce_decode :: "cenc \<Rightarrow> announce_msg reader" where
  "announce_decode C =
     readBind (decode (c_uint C)) (\<lambda>flags.
     readBind (readIf (hasFlag flags 1) (decode (peer C))) (\<lambda>p.
     readBind (readIf (hasFlag flags 2) (decode (c_fixed32 C))) (\<lambda>refresh.
     readBind (readIf (hasFlag flags 4) (decode (c_fixed64 C))) (\<lambda>signature.
     readBind (readIf (hasFlag flags 8) (decode (c_uint C))) (\<lambda>bump.
     readRet \<lparr>an_peer = p, an_refresh = refresh, an_signature = signature, an_bump = (case bump of None \<Rightarrow> 0 | Some n \<Rightarrow> n)\<rparr>)))))"

definition announce :: "cenc \<Rightarrow> announce_msg codec" where
  "announce C = \<lparr>preencode = announce_preencode C, encode = announce_encode C, decode = announce_decode C\<rparr>"

section \<open>Stored values and plugins\<close>

definition mutableSignable_preencode :: "cenc \<Rightarrow> mutable_signable \<Rightarrow> grower" where
  "mutableSignable_preencode C m = growAll [
     preencode (c_uint C) (ms_seq m),
     preencode (c_buffer C) (ms_value m)]"

definition mutableSignable_encode :: "cenc \<Rightarrow> mutable_signable \<Rightarrow> writer" where
  "mutableSignable_encode C m = writeAll [
     encode (c_uint C) (ms_seq m),
     encode (c_buffer C) (ms_value m)]"

definition mutableSignable_decode :: "cenc \<Rightarrow> mutable_signable reader" where
  "mutableSignable_decode C =
     readBind (decode (c_uint C)) (\<lambda>seq.
     readBind (decode (c_buffer C)) (\<lambda>val.
     readRet \<lparr>ms_seq = seq, ms_value = val\<rparr>))"

definition mutableSignable :: "cenc \<Rightarrow> mutable_signable codec" where
  "mutableSignable C = \<lparr>preencode = mutableSignable_preencode C, encode = mutableSignable_encode C, decode = mutableSignable_decode C\<rparr>"

definition mutablePutRequest_preencode :: "cenc \<Rightarrow> mutable_put_request \<Rightarrow> grower" where
  "mutablePutRequest_preencode C m = growAll [
     preencode (c_fixed32 C) (mp_publicKey m),
     preencode (c_uint C) (mp_seq m),
     preencode (c_buffer C) (mp_value m),
     preencode (c_fixed64 C) (mp_signature m)]"

definition mutablePutRequest_encode :: "cenc \<Rightarrow> mutable_put_request \<Rightarrow> writer" where
  "mutablePutRequest_encode C m = writeAll [
     encode (c_fixed32 C) (mp_publicKey m),
     encode (c_uint C) (mp_seq m),
     encode (c_buffer C) (mp_value m),
     encode (c_fixed64 C) (mp_signature m)]"

definition mutablePutRequest_decode :: "cenc \<Rightarrow> mutable_put_request reader" where
  "mutablePutRequest_decode C =
     readBind (decode (c_fixed32 C)) (\<lambda>publicKey.
     readBind (decode (c_uint C)) (\<lambda>seq.
     readBind (decode (c_buffer C)) (\<lambda>val.
     readBind (decode (c_fixed64 C)) (\<lambda>signature.
     readRet \<lparr>mp_publicKey = publicKey, mp_seq = seq, mp_value = val, mp_signature = signature\<rparr>))))"

definition mutablePutRequest :: "cenc \<Rightarrow> mutable_put_request codec" where
  "mutablePutRequest C = \<lparr>preencode = mutablePutRequest_preencode C, encode = mutablePutRequest_encode C, decode = mutablePutRequest_decode C\<rparr>"

definition mutableGetResponse_preencode :: "cenc \<Rightarrow> mutable_get_response \<Rightarrow> grower" where
  "mutableGetResponse_preencode C m = growAll [
     preencode (c_uint C) (mg_seq m),
     preencode (c_buffer C) (mg_value m),
     preencode (c_fixed64 C) (mg_signature m)]"

definition mutableGetResponse_encode :: "cenc \<Rightarrow> mutable_get_response \<Rightarrow> writer" where
  "mutableGetResponse_encode C m = writeAll [
     encode (c_uint C) (mg_seq m),
     encode (c_buffer C) (mg_value m),
     encode (c_fixed64 C) (mg_signature m)]"

definition mutableGetResponse_decode :: "cenc \<Rightarrow> mutable_get_response reader" where
  "mutableGetResponse_decode C =
     readBind (decode (c_uint C)) (\<lambda>seq.
     readBind (decode (c_buffer C)) (\<lambda>val.
     readBind (decode (c_fixed64 C)) (\<lambda>signature.
     readRet \<lparr>mg_seq = seq, mg_value = val, mg_signature = signature\<rparr>)))"

definition mutableGetResponse :: "cenc \<Rightarrow> mutable_get_response codec" where
  "mutableGetResponse C = \<lparr>preencode = mutableGetResponse_preencode C, encode = mutableGetResponse_encode C, decode = mutableGetResponse_decode C\<rparr>"

definition pluginRequest_preencode :: "cenc \<Rightarrow> plugin_request \<Rightarrow> grower" where
  "pluginRequest_preencode C m = growAll [
     preencode (c_string C) (pl_plugin m),
     preencode (c_uint C) (pl_version m),
     preencode (c_uint C) (pl_command m),
     grow 1,
     growIf (pl_value m \<noteq> None) (preencode (c_buffer C) (pl_value m))]"

definition pluginRequest_encode :: "cenc \<Rightarrow> plugin_request \<Rightarrow> writer" where
  "pluginRequest_encode C m = (let flags = flag (pl_value m \<noteq> None) 1
   in writeAll [
     encode (c_string C) (pl_plugin m),
     encode (c_uint C) (pl_version m),
     encode (c_uint C) (pl_command m),
     encode (c_uint C) flags,
     writeIf (pl_value m \<noteq> None) (encode (c_buffer C) (pl_value m))])"

definition pluginRequest_decode :: "cenc \<Rightarrow> plugin_request reader" where
  "pluginRequest_decode C =
     readBind (decode (c_string C)) (\<lambda>r0.
     readBind (decode (c_uint C)) (\<lambda>r1.
     readBind (decode (c_uint C)) (\<lambda>r2.
     readBind (decode (c_uint C)) (\<lambda>flags.
     readBind (readIf (hasFlag flags 1) (decode (c_buffer C))) (\<lambda>val.
     readRet \<lparr>pl_plugin = r0, pl_version = r1, pl_command = r2, pl_value = (case val of None \<Rightarrow> None | Some v \<Rightarrow> v)\<rparr>)))))"

definition pluginRequest :: "cenc \<Rightarrow> plugin_request codec" where
  "pluginRequest C = \<lparr>preencode = pluginRequest_preencode C, encode = pluginRequest_encode C, decode = pluginRequest_decode C\<rparr>"

end
