(* ===== verification/Message_Codecs.thy ===== *)
theory Message_Codecs
  imports Messages
begin

text \<open>
  Every codec of \<^verbatim>\<open>lib/messages.js\<close> satisfies the contract \<open>wire_codec\<close>: the wire image of each
  message, the messages it represents (\<open>v_\<close>) and what is read back of them (\<open>n_\<close>), and the
  interpretations that rest on the documented behaviour of the package.
\<close>

section \<open>Flags\<close>

named_theorems flag_simps \<open>flags of a message\<close>

lemma or_less_pow:
  fixes x y :: nat
  assumes "x < 2 ^ n" "y < 2 ^ n"
  shows "x OR y < 2 ^ n"
  using assms by (metis take_bit_nat_eq_self_iff take_bit_or)

lemma hasFlag_or [flag_simps]: "hasFlag (x OR y) n \<longleftrightarrow> hasFlag x n \<or> hasFlag y n"
  by (auto simp: hasFlag_def bit_eq_iff bit_and_iff bit_or_iff)

lemma hasFlag_flag [flag_simps]: "hasFlag (flag b k) n \<longleftrightarrow> b \<and> hasFlag k n"
  by (simp add: hasFlag_def flag_def)

lemma odd_flag [flag_simps]: "odd (flag b k) \<longleftrightarrow> b \<and> odd k"
  by (simp add: flag_def)

lemmas odd_or [flag_simps] = even_or_iff

lemma hasFlag_numerals [flag_simps]:
  "hasFlag (Suc 0) n \<longleftrightarrow> odd n"
  "hasFlag k (Suc 0) \<longleftrightarrow> odd k"
  "hasFlag (numeral v) (numeral w) \<longleftrightarrow> (numeral v AND numeral w :: nat) \<noteq> 0"
  using one_and_eq [of n] and_one_eq [of k]
  by (simp_all add: hasFlag_def odd_iff_mod_2_eq_one)

lemma flag_less: "n < 2 ^ 7 \<Longrightarrow> flag b n < 2 ^ 7"
  by (simp add: flag_def)

lemma flags_short:
  "(x::nat) < 2 ^ 7 \<Longrightarrow> x < 253"
  by simp

lemma v_uint_short: "n < 253 \<Longrightarrow> v_uint n"
  by (simp add: v_uint_def)

section \<open>Wire images\<close>

abbreviation opt_wire :: "('a \<Rightarrow> bytes) \<Rightarrow> 'a option \<Rightarrow> bytes" where
  "opt_wire f v \<equiv> (case v of None \<Rightarrow> [] | Some x \<Rightarrow> f x)"

abbreviation opt_valid :: "('a \<Rightarrow> bool) \<Rightarrow> 'a option \<Rightarrow> bool" where
  "opt_valid f v \<equiv> (case v of None \<Rightarrow> True | Some x \<Rightarrow> f x)"

lemma length_opt_wire:
  "length (opt_wire f v) = (case v of None \<Rightarrow> 0 | Some x \<Rightarrow> length (f x))"
  by (cases v) simp_all

definition handshake_flags :: "handshake_msg \<Rightarrow> nat" where
  "handshake_flags m = flag (hs_peerAddress m \<noteq> None) 1 OR flag (hs_relayAddress m \<noteq> None) 2"

definition v_handshake :: "wires \<Rightarrow> handshake_msg \<Rightarrow> bool" where
  "v_handshake W m \<longleftrightarrow> hs_mode m < 253
     \<and> v_buffer (hs_noise m)
     \<and> opt_valid (v_ipv4 W) (hs_peerAddress m)
     \<and> opt_valid (v_ipv4 W) (hs_relayAddress m)"

definition w_handshake :: "wires \<Rightarrow> handshake_msg \<Rightarrow> bytes" where
  "w_handshake W m = w_uint W (handshake_flags m) @
     w_uint W (hs_mode m) @
     w_buffer W (hs_noise m) @
     opt_wire (w_ipv4 W) (hs_peerAddress m) @
     opt_wire (w_ipv4 W) (hs_relayAddress m)"

definition n_handshake :: "handshake_msg \<Rightarrow> handshake_msg" where
  "n_handshake m = \<lparr>hs_mode = hs_mode m,
     hs_noise = n_buffer (hs_noise m),
     hs_peerAddress = hs_peerAddress m,
     hs_relayAddress = hs_relayAddress m\<rparr>"

definition v_relayInfo :: "wires \<Rightarrow> relay_info \<Rightarrow> bool" where
  "v_relayInfo W m \<longleftrightarrow> v_ipv4 W (ri_relayAddress m)
     \<and> v_ipv4 W (ri_peerAddress m)"

definition w_relayInfo :: "wires \<Rightarrow> relay_info \<Rightarrow> bytes" where
  "w_relayInfo W m = w_ipv4 W (ri_relayAddress m) @
     w_ipv4 W (ri_peerAddress m)"

definition n_relayInfo :: "relay_info \<Rightarrow> relay_info" where
  "n_relayInfo m = \<lparr>ri_relayAddress = ri_relayAddress m,
     ri_peerAddress = ri_peerAddress m\<rparr>"

definition v_holepunchInfo :: "wires \<Rightarrow> holepunch_info \<Rightarrow> bool" where
  "v_holepunchInfo W m \<longleftrightarrow> v_uint (hi_id m)
     \<and> v_array (v_relayInfo W) (hi_relays m)"

definition w_holepunchInfo :: "wires \<Rightarrow> holepunch_info \<Rightarrow> bytes" where
  "w_holepunchInfo W m = w_uint W (hi_id m) @
     w_array W (w_relayInfo W) (hi_relays m)"

definition n_holepunchInfo :: "holepunch_info \<Rightarrow> holepunch_info" where
  "n_holepunchInfo m = \<lparr>hi_id = hi_id m,
     hi_relays = map n_relayInfo (hi_relays m)\<rparr>"

definition v_udxInfo :: "wires \<Rightarrow> udx_info \<Rightarrow> bool" where
  "v_udxInfo W m \<longleftrightarrow> v_uint (ux_id m)
     \<and> v_uint (ux_seq m)"

definition w_udxInfo :: "wires \<Rightarrow> udx_info \<Rightarrow> bytes" where
  "w_udxInfo W m = w_uint W 1 @
     w_uint W (if ux_reusableSocket m then 1 else 0) @
     w_uint W (ux_id m) @
     w_uint W (ux_seq m)"

definition n_udxInfo :: "udx_info \<Rightarrow> udx_info" where
  "n_udxInfo m = \<lparr>ux_version = 1,
     ux_reusableSocket = ux_reusableSocket m,
     ux_id = ux_id m,
     ux_seq = ux_seq m\<rparr>"

definition v_secretStreamInfo :: "wires \<Rightarrow> secret_stream_info \<Rightarrow> bool" where
  "v_secretStreamInfo W m \<longleftrightarrow> True"

definition w_secretStreamInfo :: "wires \<Rightarrow> secret_stream_info \<Rightarrow> bytes" where
  "w_secretStreamInfo W m = w_uint W 1"

definition n_secretStreamInfo :: "secret_stream_info \<Rightarrow> secret_stream_info" where
  "n_secretStreamInfo m = \<lparr>ss_version = 1\<rparr>"

definition v_relayThroughInfo :: "wires \<Rightarrow> relay_through_info \<Rightarrow> bool" where
  "v_relayThroughInfo W m \<longleftrightarrow> length (rt_publicKey m) = 32
     \<and> length (rt_token m) = 32"

definition w_relayThroughInfo :: "wires \<Rightarrow> relay_through_info \<Rightarrow> bytes" where
  "w_relayThroughInfo W m = w_uint W 1 @
     w_uint W 0 @
     rt_publicKey m @
     rt_token m"

definition n_relayThroughInfo :: "relay_through_info \<Rightarrow> relay_through_info" where
  "n_relayThroughInfo m = \<lparr>rt_version = 1,
     rt_publicKey = rt_publicKey m,
     rt_token = rt_token m\<rparr>"

definition noisePayload_flags :: "noise_payload \<Rightarrow> nat" where
  "noisePayload_flags m = flag (np_holepunch m \<noteq> None) 1 OR
     flag (someItems (np_addresses4 m) \<noteq> None) 2 OR
     flag (someItems (np_addresses6 m) \<noteq> None) 4 OR
     flag (np_udx m \<noteq> None) 8 OR
     flag (np_secretStream m \<noteq> None) 16 OR
     flag (np_relayThrough m \<noteq> None) 32 OR
     flag (np_relayAddresses m \<noteq> None) 64"

definition v_noisePayload :: "wires \<Rightarrow> noise_payload \<Rightarrow> bool" where
  "v_noisePayload W m \<longleftrightarrow> np_error m < 253
     \<and> np_firewall m < 253
     \<and> opt_valid (v_holepunchInfo W) (np_holepunch m)
     \<and> opt_valid (v_array (v_ipv4 W)) (someItems (np_addresses4 m))
     \<and> opt_valid (v_array (v_ipv6 W)) (someItems (np_addresses6 m))
     \<and> opt_valid (v_udxInfo W) (np_udx m)
     \<and> opt_valid (v_secretStreamInfo W) (np_secretStream m)
     \<and> opt_valid (v_relayThroughInfo W) (np_relayThrough m)
     \<and> opt_valid (v_array (v_ipv4 W)) (np_relayAddresses m)"

definition w_noisePayload :: "wires \<Rightarrow> noise_payload \<Rightarrow> bytes" where
  "w_noisePayload W m = w_uint W 1 @
     w_uint W (noisePayload_flags m) @
     w_uint W (np_error m) @
     w_uint W (np_firewall m) @
     opt_wire (w_holepunchInfo W) (np_holepunch m) @
     opt_wire (w_array W (w_ipv4 W)) (someItems (np_addresses4 m)) @
     opt_wire (w_array W (w_ipv6 W)) (someItems (np_addresses6 m)) @
     opt_wire (w_udxInfo W) (np_udx m) @
     opt_wire (w_secretStreamInfo W) (np_secretStream m) @
     opt_wire (w_relayThroughInfo W) (np_relayThrough m) @
     opt_wire (w_array W (w_ipv4 W)) (np_relayAddresses m)"

definition n_noisePayload :: "noise_payload \<Rightarrow> noise_payload" where
  "n_noisePayload m = \<lparr>np_version = 1,
     np_error = np_error m,
     np_firewall = np_firewall m,
     np_holepunch = map_option n_holepunchInfo (np_holepunch m),
     np_addresses4 = Some (case np_addresses4 m of None \<Rightarrow> [] | Some xs \<Rightarrow> xs),
     np_addresses6 = Some (case np_addresses6 m of None \<Rightarrow> [] | Some xs \<Rightarrow> xs),
     np_udx = map_option n_udxInfo (np_udx m),
     np_secretStream = map_option n_secretStreamInfo (np_secretStream m),
     np_relayThrough = map_option n_relayThroughInfo (np_relayThrough m),
     np_relayAddresses = np_relayAddresses m\<rparr>"

definition holepunch_flags :: "holepunch_msg \<Rightarrow> nat" where
  "holepunch_flags m = flag (hp_peerAddress m \<noteq> None) 1"

definition v_holepunch :: "wires \<Rightarrow> holepunch_msg \<Rightarrow> bool" where
  "v_holepunch W m \<longleftrightarrow> hp_mode m < 253
     \<and> v_uint (hp_id m)
     \<and> v_buffer (hp_payload m)
     \<and> opt_valid (v_ipv4 W) (hp_peerAddress m)"

definition w_holepunch :: "wires \<Rightarrow> holepunch_msg \<Rightarrow> bytes" where
  "w_holepunch W m = w_uint W (holepunch_flags m) @
     w_uint W (hp_mode m) @
     w_uint W (hp_id m) @
     w_buffer W (hp_payload m) @
     opt_wire (w_ipv4 W) (hp_peerAddress m)"

definition n_holepunch :: "holepunch_msg \<Rightarrow> holepunch_msg" where
  "n_holepunch m = \<lparr>hp_mode = hp_mode m,
     hp_id = hp_id m,
     hp_payload = n_buffer (hp_payload m),
     hp_peerAddress = hp_peerAddress m\<rparr>"

definition holepunchPayload_flags :: "holepunch_payload \<Rightarrow> nat" where
  "holepunchPayload_flags m = flag (pp_connected m) 1 OR flag (pp_punching m) 2 OR flag (pp_addresses m \<noteq> None) 4 OR
     flag (pp_remoteAddress m \<noteq> None) 8 OR flag (pp_token m \<noteq> None) 16 OR
     flag (pp_remoteToken m \<noteq> None) 32"

definition v_holepunchPayload :: "wires \<Rightarrow> holepunch_payload \<Rightarrow> bool" where
  "v_holepunchPayload W m \<longleftrightarrow> pp_error m < 253
     \<and> pp_firewall m < 253
     \<and> pp_round m < 253
     \<and> opt_valid (v_array (v_ipv4 W)) (pp_addresses m)
     \<and> opt_valid (v_ipv4 W) (pp_remoteAddress m)
     \<and> opt_valid (\<lambda>b. length b = 32) (pp_token m)
     \<and> opt_valid (\<lambda>b. length b = 32) (pp_remoteToken m)"

definition w_holepunchPayload :: "wires \<Rightarrow> holepunch_payload \<Rightarrow> bytes" where
  "w_holepunchPayload W m = w_uint W (holepunchPayload_flags m) @
     w_uint W (pp_error m) @
     w_uint W (pp_firewall m) @
     w_uint W (pp_round m) @
     opt_wire (w_array W (w_ipv4 W)) (pp_addresses m) @
     opt_wire (w_ipv4 W) (pp_remoteAddress m) @
     opt_wire (\<lambda>b. b) (pp_token m) @
     opt_wire (\<lambda>b. b) (pp_remoteToken m)"

definition n_holepunchPayload :: "holepunch_payload \<Rightarrow> holepunch_payload" where
  "n_holepunchPayload m = \<lparr>pp_error = pp_error m,
     pp_firewall = pp_firewall m,
     pp_round = pp_round m,
     pp_connected = pp_connected m,
     pp_punching = pp_punching m,
     pp_addresses = pp_addresses m,
     pp_remoteAddress = pp_remoteAddress m,
     pp_token = pp_token m,
     pp_remoteToken = pp_remoteToken m\<rparr>"

definition v_peer :: "wires \<Rightarrow> peer_msg \<Rightarrow> bool" where
  "v_peer W m \<longleftrightarrow> length (pe_publicKey m) = 32
     \<and> v_array (v_ipv4 W) (pe_relayAddresses m)"

definition w_peer :: "wires \<Rightarrow> peer_msg \<Rightarrow> bytes" where
  "w_peer W m = pe_publicKey m @
     w_array W (w_ipv4 W) (pe_relayAddresses m)"

definition n_peer :: "peer_msg \<Rightarrow> peer_msg" where
  "n_peer m = \<lparr>pe_publicKey = pe_publicKey m,
     pe_relayAddresses = pe_relayAddresses m\<rparr>"

definition announce_flags :: "announce_msg \<Rightarrow> nat" where
  "announce_flags m = flag (an_peer m \<noteq> None) 1 OR flag (an_refresh m \<noteq> None) 2 OR
     flag (an_signature m \<noteq> None) 4 OR flag (an_bump m \<noteq> 0) 8"

definition v_announce :: "wires \<Rightarrow> announce_msg \<Rightarrow> bool" where
  "v_announce W m \<longleftrightarrow> opt_valid (v_peer W) (an_peer m)
     \<and> opt_valid (\<lambda>b. length b = 32) (an_refresh m)
     \<and> opt_valid (\<lambda>b. length b = 64) (an_signature m)
     \<and> v_uint (an_bump m)"

definition w_announce :: "wires \<Rightarrow> announce_msg \<Rightarrow> bytes" where
  "w_announce W m = w_uint W (announce_flags m) @
     opt_wire (w_peer W) (an_peer m) @
     opt_wire (\<lambda>b. b) (an_refresh m) @
     opt_wire (\<lambda>b. b) (an_signature m) @
     (if an_bump m \<noteq> 0 then w_uint W (an_bump m) else [])"

definition n_announce :: "announce_msg \<Rightarrow> announce_msg" where
  "n_announce m = \<lparr>an_peer = map_option n_peer (an_peer m),
     an_refresh = an_refresh m,
     an_signature = an_signature m,
     an_bump = an_bump m\<rparr>"

definition v_mutableSignable :: "wires \<Rightarrow> mutable_signable \<Rightarrow> bool" where
  "v_mutableSignable W m \<longleftrightarrow> v_uint (ms_seq m)
     \<and> v_buffer (ms_value m)"

definition w_mutableSignable :: "wires \<Rightarrow> mutable_signable \<Rightarrow> bytes" where
  "w_mutableSignable W m = w_uint W (ms_seq m) @
     w_buffer W (ms_value m)"

definition n_mutableSignable :: "mutable_signable \<Rightarrow> mutable_signable" where
  "n_mutableSignable m = \<lparr>ms_seq = ms_seq m,
     ms_value = n_buffer (ms_value m)\<rparr>"

definition v_mutablePutRequest :: "wires \<Rightarrow> mutable_put_request \<Rightarrow> bool" where
  "v_mutablePutRequest W m \<longleftrightarrow> length (mp_publicKey m) = 32
     \<and> v_uint (mp_seq m)
     \<and> v_buffer (mp_value m)
     \<and> length (mp_signature m) = 64"

definition w_mutablePutRequest :: "wires \<Rightarrow> mutable_put_request \<Rightarrow> bytes" where
  "w_mutablePutRequest W m = mp_publicKey m @
     w_uint W (mp_seq m) @
     w_buffer W (mp_value m) @
     mp_signature m"

definition n_mutablePutRequest :: "mutable_put_request \<Rightarrow> mutable_put_request" where
  "n_mutablePutRequest m = \<lparr>mp_publicKey = mp_publicKey m,
     mp_seq = mp_seq m,
     mp_value = n_buffer (mp_value m),
     mp_signature = mp_signature m\<rparr>"

definition v_mutableGetResponse :: "wires \<Rightarrow> mutable_get_response \<Rightarrow> bool" where
  "v_mutableGetResponse W m \<longleftrightarrow> v_uint (mg_seq m)
     \<and> v_buffer (mg_value m)
     \<and> length (mg_signature m) = 64"

definition w_mutableGetResponse :: "wires \<Rightarrow> mutable_get_response \<Rightarrow> bytes" where
  "w_mutableGetResponse W m = w_uint W (mg_seq m) @
     w_buffer W (mg_value m) @
     mg_signature m"

definition n_mutableGetResponse :: "mutable_get_response \<Rightarrow> mutable_get_response" where
  "n_mutableGetResponse m = \<lparr>mg_seq = mg_seq m,
     mg_value = n_buffer (mg_value m),
     mg_signature = mg_signature m\<rparr>"

definition pluginRequest_flags :: "plugin_request \<Rightarrow> nat" where
  "pluginRequest_flags m = flag (pl_value m \<noteq> None) 1"

definition v_pluginRequest :: "wires \<Rightarrow> plugin_request \<Rightarrow> bool" where
  "v_pluginRequest W m \<longleftrightarrow> v_string W (pl_plugin m)
     \<and> v_uint (pl_version m)
     \<and> v_uint (pl_command m)
     \<and> v_buffer (pl_value m)"

definition w_pluginRequest :: "wires \<Rightarrow> plugin_request \<Rightarrow> bytes" where
  "w_pluginRequest W m = w_string W (pl_plugin m) @
     w_uint W (pl_version m) @
     w_uint W (pl_command m) @
     w_uint W (pluginRequest_flags m) @
     (if pl_value m \<noteq> None then w_buffer W (pl_value m) else [])"

definition n_pluginRequest :: "plugin_request \<Rightarrow> plugin_request" where
  "n_pluginRequest m = \<lparr>pl_plugin = pl_plugin m,
     pl_version = pl_version m,
     pl_command = pl_command m,
     pl_value = n_buffer (pl_value m)\<rparr>"

text \<open>The reply to a lookup is written from the encodings of peers and read as the peers.\<close>

definition v_lookupReply :: "wires \<Rightarrow> peer_msg lookup_reply \<Rightarrow> bool" where
  "v_lookupReply W m \<longleftrightarrow> v_array (v_peer W) (lr_peers m) \<and> v_uint (lr_bump m)"

definition rawReply :: "wires \<Rightarrow> peer_msg lookup_reply \<Rightarrow> bytes lookup_reply" where
  "rawReply W m = \<lparr>lr_peers = map (w_peer W) (lr_peers m), lr_bump = lr_bump m\<rparr>"

definition v_lookupRawReply :: "bytes lookup_reply \<Rightarrow> bool" where
  "v_lookupRawReply m \<longleftrightarrow> length (lr_peers m) \<le> 2 ^ 20 \<and> v_uint (lr_bump m)"

definition w_lookupRawReply :: "wires \<Rightarrow> bytes lookup_reply \<Rightarrow> bytes" where
  "w_lookupRawReply W m = w_array W (\<lambda>b. b) (lr_peers m) @ w_uint W (lr_bump m)"

section \<open>The contract of the messages\<close>

lemma grows_eq: "grows p n \<Longrightarrow> n = k \<Longrightarrow> grows p k"
  by (simp add: grows_def)

lemma writes_eq: "writes w bs \<Longrightarrow> bs = cs \<Longrightarrow> writes w cs"
  by simp

lemma reads_BindRet: "reads r bs x \<Longrightarrow> f x = readRet y \<Longrightarrow> reads (readBind r f) bs y"
  using reads_Bind [of r bs x f "[]" y] by (simp add: reads_Ret)

lemma showsAt_less: "showsAt bs st \<Longrightarrow> bs \<noteq> [] \<Longrightarrow> cs_start st < cs_end st"
  by (cases bs) (auto simp: showsAt_def)

lemma reads_Else: "\<not> b \<Longrightarrow> reads r bs x \<Longrightarrow> reads (if b then q else r) bs x"
  by simp

lemma reads_IfB:
  assumes "b \<longleftrightarrow> c" "c \<Longrightarrow> reads r bs x"
  shows "reads (readIf b r) (if c then bs else []) (if c then Some x else None)"
proof (cases c)
  case True
  have "reads (readBind r (\<lambda>x. readRet (Some x))) bs (Some x)"
    by (rule reads_BindRet [OF assms(2) [OF True]]) simp
  with True assms(1) show ?thesis by (simp add: readIf_def)
qed (use assms(1) in \<open>simp add: readIf_def reads_Ret\<close>)

text \<open>The rules of a codec, to be resolved against single statements.\<close>

lemma codec_grows: "wire_codec K v w n \<Longrightarrow> v x \<Longrightarrow> grows (preencode K x) (length (w x))"
  by (simp add: wire_codec_def wire_writer_def)

lemma codec_writes: "wire_codec K v w n \<Longrightarrow> v x \<Longrightarrow> writes (encode K x) (w x)"
  by (simp add: wire_codec_def wire_writer_def)

lemma codec_reads: "wire_codec K v w n \<Longrightarrow> v x \<Longrightarrow> reads (decode K) (w x) (n x)"
  by (simp add: wire_codec_def wire_reader_def)

lemma wire_codecI:
  assumes "\<And>x. v x \<Longrightarrow> grows (preencode K x) (length (w x))"
    and "\<And>x. v x \<Longrightarrow> writes (encode K x) (w x)"
    and "\<And>x. v x \<Longrightarrow> reads (decode K) (w x) (n x)"
  shows "wire_codec K v w n"
  using assms by (simp add: wire_codec_def wire_writer_def wire_reader_def)

lemma array_codec:
  assumes "array_writer W arr" "array_reader W arr" "wire_codec K v w n"
  shows "wire_codec (arr K) (v_array v) (w_array W w) (map n)"
  using assms by (auto simp: array_writer_def array_reader_def wire_codec_def)

locale dht_messages = compact_encoding C W for C :: cenc and W
begin

lemma ipv4_codec: "wire_codec (ipv4 C) (v_ipv4 W) (w_ipv4 W) (\<lambda>a. a)"
proof (rule wire_codecI)
  fix a assume a: "v_ipv4 W a"
  show "reads (decode (ipv4 C)) (w_ipv4 W a) a"
    unfolding ipv4_def ipv4_decode_def
    by (simp, rule reads_BindRet, rule codec_reads [OF ipv4Address a], cases a, simp)
qed (simp_all add: ipv4_def codec_grows [OF ipv4Address] codec_writes [OF ipv4Address])

lemma ipv6_codec: "wire_codec (ipv6 C) (v_ipv6 W) (w_ipv6 W) (\<lambda>a. a)"
proof (rule wire_codecI)
  fix a assume a: "v_ipv6 W a"
  show "reads (decode (ipv6 C)) (w_ipv6 W a) a"
    unfolding ipv6_def ipv6_decode_def
    by (simp, rule reads_BindRet, rule codec_reads [OF ipv6Address a], cases a, simp)
qed (simp_all add: ipv6_def codec_grows [OF ipv6Address] codec_writes [OF ipv6Address])

lemma ipv4Array_codec:
  "wire_codec (ipv4Array C) (v_array (v_ipv4 W)) (w_array W (w_ipv4 W)) (map (\<lambda>a. a))"
  unfolding ipv4Array_def by (rule array_codec [OF arrayAddress ipv4_codec])

lemma ipv6Array_codec:
  "wire_codec (ipv6Array C) (v_array (v_ipv6 W)) (w_array W (w_ipv6 W)) (map (\<lambda>a. a))"
  unfolding ipv6Array_def by (rule array_codec [OF arrayAddress ipv6_codec])

lemmas base_codecs = uint buffer string fixed32 fixed64 ipv4_codec ipv6_codec ipv4Array_codec
  ipv6Array_codec

lemmas base_grows = base_codecs [THEN codec_grows]
lemmas base_writes = base_codecs [THEN codec_writes]
lemmas base_reads = base_codecs [THEN codec_reads]

lemma handshake_codec: "wire_codec (handshake C) (v_handshake W) (w_handshake W) n_handshake"
proof (rule wire_codecI)
  fix m assume v: "v_handshake W m"
  have fl: "handshake_flags m < 253"
    unfolding handshake_flags_def by (intro flags_short or_less_pow flag_less) simp_all
  note vs = v [unfolded v_handshake_def] fl v_uint_short
  show "grows (preencode (handshake C) m) (length (w_handshake W m))"
    unfolding handshake_def handshake_preencode_def codec2.simps
    by (rule grows_eq, (rule wire_intros grows_Opt grows_If base_grows  
      | (simp add: vs; fail) | (use v in \<open>simp add: v_handshake_def\<close>; fail))+)
      (use v fl in \<open>auto simp: v_handshake_def w_handshake_def uint_short ipv4_size split: option.splits\<close>)
  show "writes (encode (handshake C) m) (w_handshake W m)"
    unfolding handshake_def handshake_encode_def codec2.simps Let_def handshake_flags_def [symmetric]
    by (rule writes_eq, (rule wire_intros writes_Opt writes_If base_writes 
      | (simp add: vs; fail) | (use v in \<open>simp add: v_handshake_def\<close>; fail))+)
      (simp add: w_handshake_def)
  show "reads (decode (handshake C)) (w_handshake W m) (n_handshake m)"
    unfolding handshake_def handshake_decode_def codec2.simps w_handshake_def
    by (rule reads_Bind reads_BindRet reads_Else reads_If reads_IfB base_reads 
      | (simp add: vs; fail)
      | (use v in \<open>simp add: v_handshake_def handshake_flags_def flag_simps\<close>; fail)
      | (simp add: n_handshake_def handshake_flags_def flag_simps option.map_ident list.map_ident; fail))+
qed

lemma relayInfo_codec: "wire_codec (relayInfo C) (v_relayInfo W) (w_relayInfo W) n_relayInfo"
proof (rule wire_codecI)
  fix m assume v: "v_relayInfo W m"
  note vs = v [unfolded v_relayInfo_def] v_uint_short
  show "grows (preencode (relayInfo C) m) (length (w_relayInfo W m))"
    unfolding relayInfo_def relayInfo_preencode_def codec2.simps
    by (rule grows_eq, (rule wire_intros grows_Opt grows_If base_grows  
      | (simp add: vs; fail) | (use v in \<open>simp add: v_relayInfo_def\<close>; fail))+)
      (use v in \<open>auto simp: v_relayInfo_def w_relayInfo_def uint_short ipv4_size split: option.splits\<close>)
  show "writes (encode (relayInfo C) m) (w_relayInfo W m)"
    unfolding relayInfo_def relayInfo_encode_def codec2.simps Let_def
    by (rule writes_eq, (rule wire_intros writes_Opt writes_If base_writes 
      | (simp add: vs; fail) | (use v in \<open>simp add: v_relayInfo_def\<close>; fail))+)
      (simp add: w_relayInfo_def)
  show "reads (decode (relayInfo C)) (w_relayInfo W m) (n_relayInfo m)"
    unfolding relayInfo_def relayInfo_decode_def codec2.simps w_relayInfo_def
    by (rule reads_Bind reads_BindRet reads_Else reads_If reads_IfB base_reads 
      | (simp add: vs; fail)
      | (use v in \<open>simp add: v_relayInfo_def  flag_simps\<close>; fail)
      | (simp add: n_relayInfo_def  flag_simps option.map_ident list.map_ident; fail))+
qed

lemma relayInfoArray_codec:
  "wire_codec (relayInfoArray C) (v_array (v_relayInfo W)) (w_array W (w_relayInfo W)) (map n_relayInfo)"
  unfolding relayInfoArray_def by (rule array_codec [OF arrayRelay relayInfo_codec])

lemma holepunchInfo_codec: "wire_codec (holepunchInfo C) (v_holepunchInfo W) (w_holepunchInfo W) n_holepunchInfo"
proof (rule wire_codecI)
  fix m assume v: "v_holepunchInfo W m"
  note vs = v [unfolded v_holepunchInfo_def] v_uint_short
  show "grows (preencode (holepunchInfo C) m) (length (w_holepunchInfo W m))"
    unfolding holepunchInfo_def holepunchInfo_preencode_def codec2.simps
    by (rule grows_eq, (rule wire_intros grows_Opt grows_If base_grows relayInfoArray_codec [THEN codec_grows] 
      | (simp add: vs; fail) | (use v in \<open>simp add: v_holepunchInfo_def\<close>; fail))+)
      (use v in \<open>auto simp: v_holepunchInfo_def w_holepunchInfo_def uint_short ipv4_size split: option.splits\<close>)
  show "writes (encode (holepunchInfo C) m) (w_holepunchInfo W m)"
    unfolding holepunchInfo_def holepunchInfo_encode_def codec2.simps Let_def
    by (rule writes_eq, (rule wire_intros writes_Opt writes_If base_writes relayInfoArray_codec [THEN codec_writes]
      | (simp add: vs; fail) | (use v in \<open>simp add: v_holepunchInfo_def\<close>; fail))+)
      (simp add: w_holepunchInfo_def)
  show "reads (decode (holepunchInfo C)) (w_holepunchInfo W m) (n_holepunchInfo m)"
    unfolding holepunchInfo_def holepunchInfo_decode_def codec2.simps w_holepunchInfo_def
    by (rule reads_Bind reads_BindRet reads_Else reads_If reads_IfB base_reads relayInfoArray_codec [THEN codec_reads]
      | (simp add: vs; fail)
      | (use v in \<open>simp add: v_holepunchInfo_def  flag_simps\<close>; fail)
      | (simp add: n_holepunchInfo_def  flag_simps option.map_ident list.map_ident; fail))+
qed

lemma udxInfo_codec: "wire_codec (udxInfo C) (v_udxInfo W) (w_udxInfo W) n_udxInfo"
proof (rule wire_codecI)
  fix m assume v: "v_udxInfo W m"
  note vs = v [unfolded v_udxInfo_def] v_uint_short
  show "grows (preencode (udxInfo C) m) (length (w_udxInfo W m))"
    unfolding udxInfo_def udxInfo_preencode_def codec2.simps
    by (rule grows_eq, (rule wire_intros grows_Opt grows_If base_grows  
      | (simp add: vs; fail) | (use v in \<open>simp add: v_udxInfo_def\<close>; fail))+)
      (use v in \<open>auto simp: v_udxInfo_def w_udxInfo_def uint_short ipv4_size split: option.splits\<close>)
  show "writes (encode (udxInfo C) m) (w_udxInfo W m)"
    unfolding udxInfo_def udxInfo_encode_def codec2.simps Let_def
    by (rule writes_eq, (rule wire_intros writes_Opt writes_If base_writes 
      | (simp add: vs; fail) | (use v in \<open>simp add: v_udxInfo_def\<close>; fail))+)
      (simp add: w_udxInfo_def)
  show "reads (decode (udxInfo C)) (w_udxInfo W m) (n_udxInfo m)"
    unfolding udxInfo_def udxInfo_decode_def codec2.simps w_udxInfo_def
    by (rule reads_Bind reads_BindRet reads_Else reads_If reads_IfB base_reads 
      | (simp add: vs; fail)
      | (use v in \<open>simp add: v_udxInfo_def  flag_simps\<close>; fail)
      | (simp add: n_udxInfo_def  flag_simps option.map_ident list.map_ident; fail))+
qed

lemma secretStreamInfo_codec: "wire_codec (secretStreamInfo C) (v_secretStreamInfo W) (w_secretStreamInfo W) n_secretStreamInfo"
proof (rule wire_codecI)
  fix m assume v: "v_secretStreamInfo W m"
  note vs = v [unfolded v_secretStreamInfo_def] v_uint_short
  show "grows (preencode (secretStreamInfo C) m) (length (w_secretStreamInfo W m))"
    unfolding secretStreamInfo_def secretStreamInfo_preencode_def codec2.simps
    by (rule grows_eq, (rule wire_intros grows_Opt grows_If base_grows  
      | (simp add: vs; fail) | (use v in \<open>simp add: v_secretStreamInfo_def\<close>; fail))+)
      (use v in \<open>auto simp: v_secretStreamInfo_def w_secretStreamInfo_def uint_short ipv4_size split: option.splits\<close>)
  show "writes (encode (secretStreamInfo C) m) (w_secretStreamInfo W m)"
    unfolding secretStreamInfo_def secretStreamInfo_encode_def codec2.simps Let_def
    by (rule writes_eq, (rule wire_intros writes_Opt writes_If base_writes 
      | (simp add: vs; fail) | (use v in \<open>simp add: v_secretStreamInfo_def\<close>; fail))+)
      (simp add: w_secretStreamInfo_def)
  show "reads (decode (secretStreamInfo C)) (w_secretStreamInfo W m) (n_secretStreamInfo m)"
    unfolding secretStreamInfo_def secretStreamInfo_decode_def codec2.simps w_secretStreamInfo_def
    by (rule reads_Bind reads_BindRet reads_Else reads_If reads_IfB base_reads 
      | (simp add: vs; fail)
      | (use v in \<open>simp add: v_secretStreamInfo_def  flag_simps\<close>; fail)
      | (simp add: n_secretStreamInfo_def  flag_simps option.map_ident list.map_ident; fail))+
qed

lemma relayThroughInfo_codec: "wire_codec (relayThroughInfo C) (v_relayThroughInfo W) (w_relayThroughInfo W) n_relayThroughInfo"
proof (rule wire_codecI)
  fix m assume v: "v_relayThroughInfo W m"
  note vs = v [unfolded v_relayThroughInfo_def] v_uint_short
  show "grows (preencode (relayThroughInfo C) m) (length (w_relayThroughInfo W m))"
    unfolding relayThroughInfo_def relayThroughInfo_preencode_def codec2.simps
    by (rule grows_eq, (rule wire_intros grows_Opt grows_If base_grows  
      | (simp add: vs; fail) | (use v in \<open>simp add: v_relayThroughInfo_def\<close>; fail))+)
      (use v in \<open>auto simp: v_relayThroughInfo_def w_relayThroughInfo_def uint_short ipv4_size split: option.splits\<close>)
  show "writes (encode (relayThroughInfo C) m) (w_relayThroughInfo W m)"
    unfolding relayThroughInfo_def relayThroughInfo_encode_def codec2.simps Let_def
    by (rule writes_eq, (rule wire_intros writes_Opt writes_If base_writes 
      | (simp add: vs; fail) | (use v in \<open>simp add: v_relayThroughInfo_def\<close>; fail))+)
      (simp add: w_relayThroughInfo_def)
  show "reads (decode (relayThroughInfo C)) (w_relayThroughInfo W m) (n_relayThroughInfo m)"
    unfolding relayThroughInfo_def relayThroughInfo_decode_def codec2.simps w_relayThroughInfo_def
    by (rule reads_Bind reads_BindRet reads_Else reads_If reads_IfB base_reads 
      | (simp add: vs; fail)
      | (use v in \<open>simp add: v_relayThroughInfo_def  flag_simps\<close>; fail)
      | (simp add: n_relayThroughInfo_def  flag_simps option.map_ident list.map_ident; fail))+
qed

lemma noisePayload_codec: "wire_codec (noisePayload C) (v_noisePayload W) (w_noisePayload W) n_noisePayload"
proof (rule wire_codecI)
  fix m assume v: "v_noisePayload W m"
  have fl: "noisePayload_flags m < 253"
    unfolding noisePayload_flags_def by (intro flags_short or_less_pow flag_less) simp_all
  note vs = v [unfolded v_noisePayload_def] fl v_uint_short
  show "grows (preencode (noisePayload C) m) (length (w_noisePayload W m))"
    unfolding noisePayload_def noisePayload_preencode_def codec2.simps
    by (rule grows_eq, (rule wire_intros grows_Opt grows_If base_grows holepunchInfo_codec [THEN codec_grows] udxInfo_codec [THEN codec_grows] secretStreamInfo_codec [THEN codec_grows] relayThroughInfo_codec [THEN codec_grows] 
      | (simp add: vs; fail) | (use v in \<open>simp add: v_noisePayload_def\<close>; fail))+)
      (use v fl in \<open>simp add: v_noisePayload_def w_noisePayload_def uint_short ipv4_size length_opt_wire\<close>)
  show "writes (encode (noisePayload C) m) (w_noisePayload W m)"
    unfolding noisePayload_def noisePayload_encode_def codec2.simps Let_def noisePayload_flags_def [symmetric]
    by (rule writes_eq, (rule wire_intros writes_Opt writes_If base_writes holepunchInfo_codec [THEN codec_writes] udxInfo_codec [THEN codec_writes] secretStreamInfo_codec [THEN codec_writes] relayThroughInfo_codec [THEN codec_writes]
      | (simp add: vs; fail) | (use v in \<open>simp add: v_noisePayload_def\<close>; fail))+)
      (simp add: w_noisePayload_def)
  show "reads (decode (noisePayload C)) (w_noisePayload W m) (n_noisePayload m)"
    unfolding noisePayload_def noisePayload_decode_def codec2.simps w_noisePayload_def
    by (rule reads_Bind reads_BindRet reads_Else reads_If reads_IfB base_reads holepunchInfo_codec [THEN codec_reads] udxInfo_codec [THEN codec_reads] secretStreamInfo_codec [THEN codec_reads] relayThroughInfo_codec [THEN codec_reads]
      | (simp add: vs; fail)
      | (use v in \<open>simp add: v_noisePayload_def noisePayload_flags_def flag_simps\<close>; fail)
      | (simp add: n_noisePayload_def noisePayload_flags_def flag_simps option.map_ident list.map_ident someItems_def split: option.split; fail))+
qed

lemma holepunch_codec: "wire_codec (holepunch C) (v_holepunch W) (w_holepunch W) n_holepunch"
proof (rule wire_codecI)
  fix m assume v: "v_holepunch W m"
  have fl: "holepunch_flags m < 253"
    unfolding holepunch_flags_def by (intro flags_short or_less_pow flag_less) simp_all
  note vs = v [unfolded v_holepunch_def] fl v_uint_short
  show "grows (preencode (holepunch C) m) (length (w_holepunch W m))"
    unfolding holepunch_def holepunch_preencode_def codec2.simps
    by (rule grows_eq, (rule wire_intros grows_Opt grows_If base_grows  
      | (simp add: vs; fail) | (use v in \<open>simp add: v_holepunch_def\<close>; fail))+)
      (use v fl in \<open>auto simp: v_holepunch_def w_holepunch_def uint_short ipv4_size split: option.splits\<close>)
  show "writes (encode (holepunch C) m) (w_holepunch W m)"
    unfolding holepunch_def holepunch_encode_def codec2.simps Let_def holepunch_flags_def [symmetric]
    by (rule writes_eq, (rule wire_intros writes_Opt writes_If base_writes 
      | (simp add: vs; fail) | (use v in \<open>simp add: v_holepunch_def\<close>; fail))+)
      (simp add: w_holepunch_def)
  show "reads (decode (holepunch C)) (w_holepunch W m) (n_holepunch m)"
    unfolding holepunch_def holepunch_decode_def codec2.simps w_holepunch_def
    by (rule reads_Bind reads_BindRet reads_Else reads_If reads_IfB base_reads 
      | (simp add: vs; fail)
      | (use v in \<open>simp add: v_holepunch_def holepunch_flags_def flag_simps\<close>; fail)
      | (simp add: n_holepunch_def holepunch_flags_def flag_simps option.map_ident list.map_ident; fail))+
qed

lemma holepunchPayload_codec: "wire_codec (holepunchPayload C) (v_holepunchPayload W) (w_holepunchPayload W) n_holepunchPayload"
proof (rule wire_codecI)
  fix m assume v: "v_holepunchPayload W m"
  have fl: "holepunchPayload_flags m < 253"
    unfolding holepunchPayload_flags_def by (intro flags_short or_less_pow flag_less) simp_all
  note vs = v [unfolded v_holepunchPayload_def] fl v_uint_short
  show "grows (preencode (holepunchPayload C) m) (length (w_holepunchPayload W m))"
    unfolding holepunchPayload_def holepunchPayload_preencode_def codec2.simps
    by (rule grows_eq, (rule wire_intros grows_Opt grows_If base_grows  
      | (simp add: vs; fail) | (use v in \<open>simp add: v_holepunchPayload_def\<close>; fail))+)
      (use v fl in \<open>auto simp: v_holepunchPayload_def w_holepunchPayload_def uint_short ipv4_size split: option.splits\<close>)
  show "writes (encode (holepunchPayload C) m) (w_holepunchPayload W m)"
    unfolding holepunchPayload_def holepunchPayload_encode_def codec2.simps Let_def holepunchPayload_flags_def [symmetric]
    by (rule writes_eq, (rule wire_intros writes_Opt writes_If base_writes 
      | (simp add: vs; fail) | (use v in \<open>simp add: v_holepunchPayload_def\<close>; fail))+)
      (simp add: w_holepunchPayload_def)
  show "reads (decode (holepunchPayload C)) (w_holepunchPayload W m) (n_holepunchPayload m)"
    unfolding holepunchPayload_def holepunchPayload_decode_def codec2.simps w_holepunchPayload_def
    by (rule reads_Bind reads_BindRet reads_Else reads_If reads_IfB base_reads 
      | (simp add: vs; fail)
      | (use v in \<open>simp add: v_holepunchPayload_def holepunchPayload_flags_def flag_simps\<close>; fail)
      | (simp add: n_holepunchPayload_def holepunchPayload_flags_def flag_simps option.map_ident list.map_ident; fail))+
qed

lemma peer_codec: "wire_codec (peer C) (v_peer W) (w_peer W) n_peer"
proof (rule wire_codecI)
  fix m assume v: "v_peer W m"
  note vs = v [unfolded v_peer_def] v_uint_short
  show "grows (preencode (peer C) m) (length (w_peer W m))"
    unfolding peer_def peer_preencode_def codec2.simps
    by (rule grows_eq, (rule wire_intros grows_Opt grows_If base_grows  
      | (simp add: vs; fail) | (use v in \<open>simp add: v_peer_def\<close>; fail))+)
      (use v in \<open>auto simp: v_peer_def w_peer_def uint_short ipv4_size split: option.splits\<close>)
  show "writes (encode (peer C) m) (w_peer W m)"
    unfolding peer_def peer_encode_def codec2.simps Let_def
    by (rule writes_eq, (rule wire_intros writes_Opt writes_If base_writes 
      | (simp add: vs; fail) | (use v in \<open>simp add: v_peer_def\<close>; fail))+)
      (simp add: w_peer_def)
  show "reads (decode (peer C)) (w_peer W m) (n_peer m)"
    unfolding peer_def peer_decode_def codec2.simps w_peer_def
    by (rule reads_Bind reads_BindRet reads_Else reads_If reads_IfB base_reads 
      | (simp add: vs; fail)
      | (use v in \<open>simp add: v_peer_def  flag_simps\<close>; fail)
      | (simp add: n_peer_def  flag_simps option.map_ident list.map_ident; fail))+
qed

lemma peers_codec: "wire_codec (peers C) (v_array (v_peer W)) (w_array W (w_peer W)) (map n_peer)"
  unfolding peers_def by (rule array_codec [OF arrayPeer peer_codec])

lemma announce_codec: "wire_codec (announce C) (v_announce W) (w_announce W) n_announce"
proof (rule wire_codecI)
  fix m assume v: "v_announce W m"
  have fl: "announce_flags m < 253"
    unfolding announce_flags_def by (intro flags_short or_less_pow flag_less) simp_all
  note vs = v [unfolded v_announce_def] fl v_uint_short
  show "grows (preencode (announce C) m) (length (w_announce W m))"
    unfolding announce_def announce_preencode_def codec2.simps
    by (rule grows_eq, (rule wire_intros grows_Opt grows_If base_grows peer_codec [THEN codec_grows] 
      | (simp add: vs; fail) | (use v in \<open>simp add: v_announce_def\<close>; fail))+)
      (use v fl in \<open>auto simp: v_announce_def w_announce_def uint_short ipv4_size split: option.splits\<close>)
  show "writes (encode (announce C) m) (w_announce W m)"
    unfolding announce_def announce_encode_def codec2.simps Let_def announce_flags_def [symmetric]
    by (rule writes_eq, (rule wire_intros writes_Opt writes_If base_writes peer_codec [THEN codec_writes]
      | (simp add: vs; fail) | (use v in \<open>simp add: v_announce_def\<close>; fail))+)
      (simp add: w_announce_def)
  show "reads (decode (announce C)) (w_announce W m) (n_announce m)"
    unfolding announce_def announce_decode_def codec2.simps w_announce_def
    by (rule reads_Bind reads_BindRet reads_Else reads_If reads_IfB base_reads peer_codec [THEN codec_reads]
      | (simp add: vs; fail)
      | (use v in \<open>simp add: v_announce_def announce_flags_def flag_simps\<close>; fail)
      | (simp add: n_announce_def announce_flags_def flag_simps option.map_ident list.map_ident; fail))+
qed

lemma mutableSignable_codec: "wire_codec (mutableSignable C) (v_mutableSignable W) (w_mutableSignable W) n_mutableSignable"
proof (rule wire_codecI)
  fix m assume v: "v_mutableSignable W m"
  note vs = v [unfolded v_mutableSignable_def] v_uint_short
  show "grows (preencode (mutableSignable C) m) (length (w_mutableSignable W m))"
    unfolding mutableSignable_def mutableSignable_preencode_def codec2.simps
    by (rule grows_eq, (rule wire_intros grows_Opt grows_If base_grows  
      | (simp add: vs; fail) | (use v in \<open>simp add: v_mutableSignable_def\<close>; fail))+)
      (use v in \<open>auto simp: v_mutableSignable_def w_mutableSignable_def uint_short ipv4_size split: option.splits\<close>)
  show "writes (encode (mutableSignable C) m) (w_mutableSignable W m)"
    unfolding mutableSignable_def mutableSignable_encode_def codec2.simps Let_def
    by (rule writes_eq, (rule wire_intros writes_Opt writes_If base_writes 
      | (simp add: vs; fail) | (use v in \<open>simp add: v_mutableSignable_def\<close>; fail))+)
      (simp add: w_mutableSignable_def)
  show "reads (decode (mutableSignable C)) (w_mutableSignable W m) (n_mutableSignable m)"
    unfolding mutableSignable_def mutableSignable_decode_def codec2.simps w_mutableSignable_def
    by (rule reads_Bind reads_BindRet reads_Else reads_If reads_IfB base_reads 
      | (simp add: vs; fail)
      | (use v in \<open>simp add: v_mutableSignable_def  flag_simps\<close>; fail)
      | (simp add: n_mutableSignable_def  flag_simps option.map_ident list.map_ident; fail))+
qed

lemma mutablePutRequest_codec: "wire_codec (mutablePutRequest C) (v_mutablePutRequest W) (w_mutablePutRequest W) n_mutablePutRequest"
proof (rule wire_codecI)
  fix m assume v: "v_mutablePutRequest W m"
  note vs = v [unfolded v_mutablePutRequest_def] v_uint_short
  show "grows (preencode (mutablePutRequest C) m) (length (w_mutablePutRequest W m))"
    unfolding mutablePutRequest_def mutablePutRequest_preencode_def codec2.simps
    by (rule grows_eq, (rule wire_intros grows_Opt grows_If base_grows  
      | (simp add: vs; fail) | (use v in \<open>simp add: v_mutablePutRequest_def\<close>; fail))+)
      (use v in \<open>auto simp: v_mutablePutRequest_def w_mutablePutRequest_def uint_short ipv4_size split: option.splits\<close>)
  show "writes (encode (mutablePutRequest C) m) (w_mutablePutRequest W m)"
    unfolding mutablePutRequest_def mutablePutRequest_encode_def codec2.simps Let_def
    by (rule writes_eq, (rule wire_intros writes_Opt writes_If base_writes 
      | (simp add: vs; fail) | (use v in \<open>simp add: v_mutablePutRequest_def\<close>; fail))+)
      (simp add: w_mutablePutRequest_def)
  show "reads (decode (mutablePutRequest C)) (w_mutablePutRequest W m) (n_mutablePutRequest m)"
    unfolding mutablePutRequest_def mutablePutRequest_decode_def codec2.simps w_mutablePutRequest_def
    by (rule reads_Bind reads_BindRet reads_Else reads_If reads_IfB base_reads 
      | (simp add: vs; fail)
      | (use v in \<open>simp add: v_mutablePutRequest_def  flag_simps\<close>; fail)
      | (simp add: n_mutablePutRequest_def  flag_simps option.map_ident list.map_ident; fail))+
qed

lemma mutableGetResponse_codec: "wire_codec (mutableGetResponse C) (v_mutableGetResponse W) (w_mutableGetResponse W) n_mutableGetResponse"
proof (rule wire_codecI)
  fix m assume v: "v_mutableGetResponse W m"
  note vs = v [unfolded v_mutableGetResponse_def] v_uint_short
  show "grows (preencode (mutableGetResponse C) m) (length (w_mutableGetResponse W m))"
    unfolding mutableGetResponse_def mutableGetResponse_preencode_def codec2.simps
    by (rule grows_eq, (rule wire_intros grows_Opt grows_If base_grows  
      | (simp add: vs; fail) | (use v in \<open>simp add: v_mutableGetResponse_def\<close>; fail))+)
      (use v in \<open>auto simp: v_mutableGetResponse_def w_mutableGetResponse_def uint_short ipv4_size split: option.splits\<close>)
  show "writes (encode (mutableGetResponse C) m) (w_mutableGetResponse W m)"
    unfolding mutableGetResponse_def mutableGetResponse_encode_def codec2.simps Let_def
    by (rule writes_eq, (rule wire_intros writes_Opt writes_If base_writes 
      | (simp add: vs; fail) | (use v in \<open>simp add: v_mutableGetResponse_def\<close>; fail))+)
      (simp add: w_mutableGetResponse_def)
  show "reads (decode (mutableGetResponse C)) (w_mutableGetResponse W m) (n_mutableGetResponse m)"
    unfolding mutableGetResponse_def mutableGetResponse_decode_def codec2.simps w_mutableGetResponse_def
    by (rule reads_Bind reads_BindRet reads_Else reads_If reads_IfB base_reads 
      | (simp add: vs; fail)
      | (use v in \<open>simp add: v_mutableGetResponse_def  flag_simps\<close>; fail)
      | (simp add: n_mutableGetResponse_def  flag_simps option.map_ident list.map_ident; fail))+
qed

lemma pluginRequest_codec: "wire_codec (pluginRequest C) (v_pluginRequest W) (w_pluginRequest W) n_pluginRequest"
proof (rule wire_codecI)
  fix m assume v: "v_pluginRequest W m"
  have fl: "pluginRequest_flags m < 253"
    unfolding pluginRequest_flags_def by (intro flags_short or_less_pow flag_less) simp_all
  note vs = v [unfolded v_pluginRequest_def] fl v_uint_short
  show "grows (preencode (pluginRequest C) m) (length (w_pluginRequest W m))"
    unfolding pluginRequest_def pluginRequest_preencode_def codec2.simps
    by (rule grows_eq, (rule wire_intros grows_Opt grows_If base_grows  
      | (simp add: vs; fail) | (use v in \<open>simp add: v_pluginRequest_def\<close>; fail))+)
      (use v fl in \<open>auto simp: v_pluginRequest_def w_pluginRequest_def uint_short ipv4_size split: option.splits\<close>)
  show "writes (encode (pluginRequest C) m) (w_pluginRequest W m)"
    unfolding pluginRequest_def pluginRequest_encode_def codec2.simps Let_def pluginRequest_flags_def [symmetric]
    by (rule writes_eq, (rule wire_intros writes_Opt writes_If base_writes 
      | (simp add: vs; fail) | (use v in \<open>simp add: v_pluginRequest_def\<close>; fail))+)
      (simp add: w_pluginRequest_def)
  show "reads (decode (pluginRequest C)) (w_pluginRequest W m) (n_pluginRequest m)"
    unfolding pluginRequest_def pluginRequest_decode_def codec2.simps w_pluginRequest_def
    by (rule reads_Bind reads_BindRet reads_Else reads_If reads_IfB base_reads 
      | (simp add: vs; fail)
      | (use v in \<open>simp add: v_pluginRequest_def pluginRequest_flags_def flag_simps\<close>; fail)
      | (simp add: n_pluginRequest_def pluginRequest_flags_def flag_simps option.map_ident list.map_ident n_buffer_def bytesOf_def split: option.split; fail))+
qed

lemma rawPeers_writer: "wire_writer (rawPeers C) (v_array (\<lambda>_. True)) (w_array W (\<lambda>b. b))"
  unfolding rawPeers_def using arrayRaw raw by (simp add: array_writer_def)

lemma lookupRawReply_writer:
  "wire_writer (lookupRawReply C) v_lookupRawReply (w_lookupRawReply W)"
proof
  fix m assume v: "v_lookupRawReply m"
  then have vp: "v_array (\<lambda>_. True) (lr_peers m)" and vb: "v_uint (lr_bump m)"
    by (simp_all add: v_lookupRawReply_def v_array_def list_all_iff)
  note g = wire_writer.grows_wire [OF rawPeers_writer vp] codec_grows [OF uint vb]
    and w = wire_writer.writes_wire [OF rawPeers_writer vp] codec_writes [OF uint vb]
  show "grows (preencode (lookupRawReply C) m) (length (w_lookupRawReply W m))"
    unfolding lookupRawReply_def codec2.simps lookupRawReply_preencode_def
    by (rule grows_eq, (rule wire_intros g)+) (simp add: w_lookupRawReply_def)
  show "writes (encode (lookupRawReply C) m) (w_lookupRawReply W m)"
    unfolding lookupRawReply_def codec2.simps lookupRawReply_encode_def
    by (rule writes_eq, (rule wire_intros w)+) (simp add: w_lookupRawReply_def)
qed

lemma bump_reads:
  assumes "v_uint n"
  shows "reads (\<lambda>st. if cs_start st < cs_end st then decode (c_uint C) st else Inr (0, st))
     (w_uint W n) n"
  using codec_reads [OF uint assms] showsAt_less [OF _ uint_nonempty [of n]]
  by (simp add: reads_def)

lemma rawReply_wire:
  "w_lookupRawReply W (rawReply W m) = w_array W (w_peer W) (lr_peers m) @ w_uint W (lr_bump m)"
  by (simp add: w_lookupRawReply_def rawReply_def w_array_def comp_def)

lemma lookupRawReply_reader:
  "wire_reader (lookupRawReply C) (v_lookupReply W) (\<lambda>m. w_lookupRawReply W (rawReply W m))
     (\<lambda>m. \<lparr>lr_peers = map n_peer (lr_peers m), lr_bump = lr_bump m\<rparr>)"
proof
  fix m assume "v_lookupReply W m"
  then have v: "v_array (v_peer W) (lr_peers m)" "v_uint (lr_bump m)"
    by (simp_all add: v_lookupReply_def)
  show "reads (decode (lookupRawReply C)) (w_lookupRawReply W (rawReply W m))
      \<lparr>lr_peers = map n_peer (lr_peers m), lr_bump = lr_bump m\<rparr>"
    unfolding lookupRawReply_def codec2.simps lookupRawReply_decode_def rawReply_wire
    by (rule reads_Bind [OF codec_reads [OF peers_codec v(1)]],
        rule reads_BindRet [OF bump_reads [OF v(2)]]) simp
qed

end

sublocale dht_messages \<subseteq> hs: wire_codec "handshake C" "v_handshake W" "w_handshake W" n_handshake
  by (rule handshake_codec)

sublocale dht_messages \<subseteq> np: wire_codec "noisePayload C" "v_noisePayload W" "w_noisePayload W" n_noisePayload
  by (rule noisePayload_codec)

sublocale dht_messages \<subseteq> hp: wire_codec "holepunch C" "v_holepunch W" "w_holepunch W" n_holepunch
  by (rule holepunch_codec)

sublocale dht_messages \<subseteq> pp: wire_codec "holepunchPayload C" "v_holepunchPayload W"
    "w_holepunchPayload W" n_holepunchPayload
  by (rule holepunchPayload_codec)

sublocale dht_messages \<subseteq> pe: wire_codec "peer C" "v_peer W" "w_peer W" n_peer
  by (rule peer_codec)

sublocale dht_messages \<subseteq> lw: wire_writer "lookupRawReply C" v_lookupRawReply "w_lookupRawReply W"
  by (rule lookupRawReply_writer)

sublocale dht_messages \<subseteq> lr: wire_reader "lookupRawReply C" "v_lookupReply W"
    "\<lambda>m. w_lookupRawReply W (rawReply W m)" "\<lambda>m. \<lparr>lr_peers = map n_peer (lr_peers m), lr_bump = lr_bump m\<rparr>"
  by (rule lookupRawReply_reader)

sublocale dht_messages \<subseteq> an: wire_codec "announce C" "v_announce W" "w_announce W" n_announce
  by (rule announce_codec)

sublocale dht_messages \<subseteq> ms: wire_codec "mutableSignable C" "v_mutableSignable W"
    "w_mutableSignable W" n_mutableSignable
  by (rule mutableSignable_codec)

sublocale dht_messages \<subseteq> mp: wire_codec "mutablePutRequest C" "v_mutablePutRequest W"
    "w_mutablePutRequest W" n_mutablePutRequest
  by (rule mutablePutRequest_codec)

sublocale dht_messages \<subseteq> mg: wire_codec "mutableGetResponse C" "v_mutableGetResponse W"
    "w_mutableGetResponse W" n_mutableGetResponse
  by (rule mutableGetResponse_codec)

sublocale dht_messages \<subseteq> pl: wire_codec "pluginRequest C" "v_pluginRequest W"
    "w_pluginRequest W" n_pluginRequest
  by (rule pluginRequest_codec)

end
