(* ===== verification/Compact_Reference.thy ===== *)
theory Compact_Reference
  imports Message_Codecs
begin

text \<open>
  An implementation of the package by its documented wire format: variable-length unsigned integers
  (one, three, five or nine bytes, little endian), length-prefixed buffers, strings and arrays,
  addresses as their bytes and a little-endian port. It shows that the behaviour the message codecs
  rely on can be met, and gives the concrete inputs on which the properties are exercised.
\<close>

section \<open>Codecs from a printer and a parser\<close>

definition refCodec :: "('a \<Rightarrow> bytes) \<Rightarrow> (bytes \<Rightarrow> ('a \<times> nat) option) \<Rightarrow> 'a codec" where
  "refCodec f p = \<lparr>preencode = (\<lambda>x. grow (length (f x))),
     encode = (\<lambda>x st. if cs_start st + length (f x) \<le> length (cs_buffer st) then Inr (put (f x) st)
       else Inl ()),
     decode = (\<lambda>st. case p (take (cs_end st - cs_start st) (drop (cs_start st) (cs_buffer st))) of
       None \<Rightarrow> Inl () | Some (x, n) \<Rightarrow> Inr (x, advance n st))\<rparr>"

lemma showsAt_rest:
  assumes "showsAt bs st"
  obtains rest where "take (cs_end st - cs_start st) (drop (cs_start st) (cs_buffer st)) = bs @ rest"
proof -
  let ?d = "drop (cs_start st) (cs_buffer st)" and ?n = "cs_end st - cs_start st"
  from assms have "length bs \<le> ?n" "take (length bs) ?d = bs"
    by (auto simp: showsAt_def)
  then have "take (length bs) (take ?n ?d) = bs"
    by (simp add: min_def)
  then have "take ?n ?d = bs @ drop (length bs) (take ?n ?d)"
    by (metis append_take_drop_id)
  then show ?thesis by (rule that)
qed

lemma refCodec_writer: "wire_writer (refCodec f p) v f"
  by standard (simp_all add: refCodec_def grows_def writes_def)

lemma refCodec_codec:
  assumes "\<And>x rest. v x \<Longrightarrow> p (f x @ rest) = Some (n x, length (f x))"
  shows "wire_codec (refCodec f p) v f n"
proof (rule wire_codecI)
  fix x assume v: "v x"
  show "reads (decode (refCodec f p)) (f x) (n x)"
    unfolding reads_def
  proof (intro allI impI)
    fix st assume "showsAt (f x) st"
    then obtain rest where "take (cs_end st - cs_start st) (drop (cs_start st) (cs_buffer st)) = f x @ rest"
      by (rule showsAt_rest)
    with assms [OF v] show "decode (refCodec f p) st = Inr (n x, advance (length (f x)) st)"
      by (simp add: refCodec_def)
  qed
qed (simp_all add: refCodec_def grows_def writes_def)

section \<open>Integers\<close>

definition le_bytes :: "nat \<Rightarrow> nat \<Rightarrow> bytes" where
  "le_bytes k n = rev (be_bytes k n)"

definition le_nat :: "bytes \<Rightarrow> nat" where
  "le_nat bs = be_nat (rev bs)"

lemma length_le_bytes [simp]: "length (le_bytes k n) = k"
  by (simp add: le_bytes_def)

lemma le_nat_le_bytes: "n < 256 ^ k \<Longrightarrow> le_nat (le_bytes k n) = n"
  by (simp add: le_nat_def le_bytes_def be_simps)

lemma le_nat_Nil [simp]: "le_nat [] = 0"
  by (simp add: le_nat_def)

definition uintWire :: "nat \<Rightarrow> bytes" where
  "uintWire n = (if n < 253 then [word_of_nat n] else if n < 2 ^ 16 then 253 # le_bytes 2 n
     else if n < 2 ^ 32 then 254 # le_bytes 4 n else 255 # le_bytes 8 n)"

fun uintParse :: "bytes \<Rightarrow> (nat \<times> nat) option" where
  "uintParse [] = None"
| "uintParse (b # bs) =
     (let k = (if b = 253 then 2 else if b = 254 then 4 else if b = 255 then 8 else 0)
      in if length bs < k \<or> le_nat (take k bs) \<ge> 2 ^ 53 then None
         else Some (if k = 0 then unat b else le_nat (take k bs), 1 + k))"

lemma byte_of_nat_eq_iff:
  assumes "n < 253"
  shows "(word_of_nat n :: byte) \<noteq> 253" "(word_of_nat n :: byte) \<noteq> 254"
    "(word_of_nat n :: byte) \<noteq> 255" "unat (word_of_nat n :: byte) = n"
proof -
  from assms show u: "unat (word_of_nat n :: byte) = n"
    by (simp add: unat_of_nat)
  from assms u show "(word_of_nat n :: byte) \<noteq> 253" "(word_of_nat n :: byte) \<noteq> 254"
    "(word_of_nat n :: byte) \<noteq> 255"
    by auto
qed

lemma uintParse_wire:
  assumes "v_uint n"
  shows "uintParse (uintWire n @ rest) = Some (n, length (uintWire n))"
  using assms byte_of_nat_eq_iff [of n]
  by (simp add: uintWire_def v_uint_def le_nat_le_bytes)

lemma uintParse_length: "uintParse bs = Some (n, k) \<Longrightarrow> k \<le> length bs"
  by (cases bs) (auto simp: Let_def split: if_splits)

section \<open>Byte strings\<close>

definition bufferParse :: "bytes \<Rightarrow> (bytes option \<times> nat) option" where
  "bufferParse bs = (case uintParse bs of None \<Rightarrow> None
     | Some (n, k) \<Rightarrow> if length bs < k + n then None
         else Some (if n = 0 then None else Some (take n (drop k bs)), k + n))"

definition stringWire :: "string \<Rightarrow> bytes" where
  "stringWire s = uintWire (length s) @ map (\<lambda>c. word_of_nat (of_char c)) s"

definition stringValid :: "string \<Rightarrow> bool" where
  "stringValid s \<longleftrightarrow> length s < 2 ^ 32 \<and> list_all (\<lambda>c. (of_char c :: nat) < 128) s"

definition stringParse :: "bytes \<Rightarrow> (string \<times> nat) option" where
  "stringParse bs = (case uintParse bs of None \<Rightarrow> None
     | Some (n, k) \<Rightarrow> if length bs < k + n then None
         else Some (map (\<lambda>b. char_of (unat b)) (take n (drop k bs)), k + n))"

definition fixedParse :: "nat \<Rightarrow> bytes \<Rightarrow> (bytes \<times> nat) option" where
  "fixedParse n bs = (if length bs < n then None else Some (take n bs, n))"

lemma bufferParse_wire:
  assumes "v_buffer b" and "\<And>n. w_uint W n = uintWire n"
  shows "bufferParse (w_buffer W b @ rest) = Some (n_buffer b, length (w_buffer W b))"
proof -
  from assms(1) have "v_uint (length (bytesOf b))"
    by (simp add: v_buffer_def)
  then show ?thesis
    using assms(2) by (cases b) (auto simp: w_buffer_def bufferParse_def uintParse_wire n_buffer_def bytesOf_def)
qed

lemma stringParse_wire:
  assumes "stringValid s"
  shows "stringParse (stringWire s @ rest) = Some (s, length (stringWire s))"
proof -
  from assms have v: "v_uint (length s)"
    by (simp add: stringValid_def v_uint_def)
  have c: "char_of (unat (word_of_nat (of_char c) :: byte)) = c" for c :: char
    by (simp add: unat_of_nat)
  show ?thesis
    by (simp add: stringParse_def stringWire_def uintParse_wire [OF v] c comp_def)
qed

section \<open>Addresses\<close>

fun splitOn :: "char \<Rightarrow> string \<Rightarrow> string list" where
  "splitOn sep [] = [[]]"
| "splitOn sep (c # cs) = (if c = sep then [] # splitOn sep cs
     else (case splitOn sep cs of [] \<Rightarrow> [[c]] | w # ws \<Rightarrow> (c # w) # ws))"

fun joinWith :: "char \<Rightarrow> string list \<Rightarrow> string" where
  "joinWith sep [] = []"
| "joinWith sep [w] = w"
| "joinWith sep (w # ws) = w @ [sep] @ joinWith sep ws"

definition digit :: "nat \<Rightarrow> char" where
  "digit d = ''0123456789abcdef'' ! d"

definition digitVal :: "char \<Rightarrow> nat" where
  "digitVal c = (let n = of_char c in if n < 58 then n - 48 else n - 87)"

text \<open>Numerals of at most four digits, which is what an address has.\<close>

fun showNum :: "nat \<Rightarrow> nat \<Rightarrow> nat \<Rightarrow> string" where
  "showNum 0 base n = []"
| "showNum (Suc k) base n = (if n < base then [digit n] else showNum k base (n div base) @ [digit (n mod base)])"

definition readNum :: "nat \<Rightarrow> string \<Rightarrow> nat" where
  "readNum base s = foldl (\<lambda>a c. a * base + digitVal c) 0 s"

definition ipv4Wire :: "address \<Rightarrow> bytes" where
  "ipv4Wire a = map (\<lambda>s. word_of_nat (readNum 10 s)) (splitOn CHR ''.'' (host a)) @ le_bytes 2 (port a)"

definition ipv4Parse :: "bytes \<Rightarrow> (address \<times> nat) option" where
  "ipv4Parse bs = (if length bs < 6 then None
     else Some (\<lparr>host = joinWith CHR ''.'' (map (\<lambda>b. showNum 3 10 (unat b)) (take 4 bs)),
       port = le_nat (take 2 (drop 4 bs))\<rparr>, 6))"

definition ipv4Valid :: "address \<Rightarrow> bool" where
  "ipv4Valid a \<longleftrightarrow> length (ipv4Wire a) = 6 \<and> ipv4Parse (ipv4Wire a) = Some (a, 6)"

definition ipv6Wire :: "address \<Rightarrow> bytes" where
  "ipv6Wire a = concat (map (\<lambda>s. be_bytes 2 (readNum 16 s)) (splitOn CHR '':'' (host a))) @ le_bytes 2 (port a)"

definition ipv6Parse :: "bytes \<Rightarrow> (address \<times> nat) option" where
  "ipv6Parse bs = (if length bs < 18 then None
     else Some (\<lparr>host = joinWith CHR '':'' (map (\<lambda>i. showNum 4 16 (be_nat (take 2 (drop (2 * i) bs)))) [0, 1, 2, 3, 4, 5, 6, 7]),
       port = le_nat (take 2 (drop 16 bs))\<rparr>, 18))"

definition ipv6Valid :: "address \<Rightarrow> bool" where
  "ipv6Valid a \<longleftrightarrow> length (ipv6Wire a) = 18 \<and> ipv6Parse (ipv6Wire a) = Some (a, 18)"

lemma ipv4Parse_append: "length bs = 6 \<Longrightarrow> ipv4Parse (bs @ rest) = ipv4Parse bs"
  by (simp add: ipv4Parse_def)

lemma ipv6Parse_append:
  assumes "length bs = 18"
  shows "ipv6Parse (bs @ rest) = ipv6Parse bs"
proof -
  have groups: "map (\<lambda>i. showNum 4 16 (be_nat (take 2 (drop (2 * i) (bs @ rest))))) [0, 1, 2, 3, 4, 5, 6, 7] =
      map (\<lambda>i. showNum 4 16 (be_nat (take 2 (drop (2 * i) bs)))) [0, 1, 2, 3, 4, 5, 6, 7]"
    using assms by (intro map_cong refl) auto
  have last: "take 2 (drop 16 (bs @ rest)) = take 2 (drop 16 bs)"
    using assms by simp
  show ?thesis
    unfolding ipv6Parse_def groups last using assms by simp
qed

section \<open>Arrays\<close>

fun readN :: "'a reader \<Rightarrow> nat \<Rightarrow> 'a list reader" where
  "readN r 0 = readRet []"
| "readN r (Suc n) = readBind r (\<lambda>x. readBind (readN r n) (\<lambda>xs. readRet (x # xs)))"

definition refUint :: "nat codec" where
  "refUint = refCodec uintWire uintParse"

definition refArray :: "'a codec \<Rightarrow> 'a list codec" where
  "refArray K = \<lparr>preencode = (\<lambda>xs. growAll (preencode refUint (length xs) # map (preencode K) xs)),
     encode = (\<lambda>xs. writeAll (encode refUint (length xs) # map (encode K) xs)),
     decode = readBind (decode refUint) (\<lambda>n. if n > 2 ^ 20 then (\<lambda>_. Inl ()) else readN (decode K) n)\<rparr>"

lemma refUint_codec: "wire_codec refUint v_uint uintWire (\<lambda>n. n)"
  unfolding refUint_def by (rule refCodec_codec) (rule uintParse_wire)

lemma array_length_valid: "v_array v xs \<Longrightarrow> v_uint (length xs)"
  by (simp add: v_array_def v_uint_def)

lemma refArray_writer:
  assumes W: "\<And>n. w_uint W n = uintWire n"
  shows "array_writer W refArray"
  unfolding array_writer_def
proof (intro allI impI)
  fix K :: "'a codec" and v f
  assume K: "wire_writer K v f"
  have g: "grows (growAll (map (preencode K) xs)) (length (concat (map f xs)))"
    if "list_all v xs" for xs
    using that by (induction xs) (auto intro!: wire_intros wire_writer.grows_wire [OF K])
  have w: "writes (writeAll (map (encode K) xs)) (concat (map f xs))"
    if "list_all v xs" for xs
    using that by (induction xs) (auto intro!: wire_intros wire_writer.writes_wire [OF K] simp del: writeAll.simps)
  show "wire_writer (refArray K) (v_array v) (w_array W f)"
  proof
    fix xs assume v: "v_array v xs"
    then have l: "list_all v xs" by (simp add: v_array_def)
    show "grows (preencode (refArray K) xs) (length (w_array W f xs))"
      unfolding refArray_def codec2.simps
      by (rule grows_eq, rule wire_intros, rule codec_grows [OF refUint_codec array_length_valid [OF v]],
          rule g [OF l]) (simp add: w_array_def W)
    show "writes (encode (refArray K) xs) (w_array W f xs)"
      unfolding refArray_def codec2.simps w_array_def W
      by (rule wire_intros, rule codec_writes [OF refUint_codec array_length_valid [OF v]], rule w [OF l])
  qed
qed

lemma readN_reads:
  assumes "wire_reader K v f n" "list_all v xs"
  shows "reads (readN (decode K) (length xs)) (concat (map f xs)) (map n xs)"
  using assms(2)
proof (induction xs)
  case (Cons x xs)
  have "reads (readN (decode K) (Suc (length xs))) (f x @ concat (map f xs)) (n x # map n xs)"
    unfolding readN.simps
    by (rule reads_Bind [OF wire_reader.reads_wire [OF assms(1)]], use Cons.prems in simp,
        rule reads_BindRet [OF Cons.IH], use Cons.prems in simp, simp)
  then show ?case by simp
qed (simp add: reads_Ret)

lemma refArray_reader:
  assumes W: "\<And>n. w_uint W n = uintWire n"
  shows "array_reader W refArray"
  unfolding array_reader_def
proof (intro allI impI)
  fix K :: "'a codec" and v f and n :: "'a \<Rightarrow> 'a"
  assume K: "wire_reader K v f n"
  show "wire_reader (refArray K) (v_array v) (w_array W f) (map n)"
  proof
    fix xs assume v: "v_array v xs"
    then have l: "list_all v xs" "\<not> length xs > 2 ^ 20" by (simp_all add: v_array_def)
    show "reads (decode (refArray K)) (w_array W f xs) (map n xs)"
      unfolding refArray_def codec2.simps w_array_def W
      by (rule reads_Bind [OF codec_reads [OF refUint_codec array_length_valid [OF v]]],
          rule reads_Else [OF l(2) readN_reads [OF K l(1)]])
  qed
qed

section \<open>The package\<close>

definition refW :: wires where
  "refW = \<lparr>w_uint = uintWire, w_string = stringWire, v_string = stringValid, w_ipv4 = ipv4Wire,
     v_ipv4 = ipv4Valid, w_ipv6 = ipv6Wire, v_ipv6 = ipv6Valid\<rparr>"

definition refC :: cenc where
  "refC = \<lparr>c_uint = refUint, c_buffer = refCodec (w_buffer refW) bufferParse,
     c_string = refCodec stringWire stringParse, c_fixed32 = refCodec (\<lambda>b. b) (fixedParse 32),
     c_fixed64 = refCodec (\<lambda>b. b) (fixedParse 64), c_raw = refCodec (\<lambda>b. b) (\<lambda>bs. Some (bs, length bs)),
     c_ipv4Address = refCodec ipv4Wire ipv4Parse, c_ipv6Address = refCodec ipv6Wire ipv6Parse,
     c_arrayAddress = refArray, c_arrayRelay = refArray, c_arrayPeer = refArray, c_arrayRaw = refArray\<rparr>"

interpretation ref: dht_messages refC refW
proof (intro dht_messages.intro compact_encoding.intro)
  show "wire_codec (c_uint refC) v_uint (w_uint refW) (\<lambda>n. n)"
    by (simp add: refC_def refW_def refUint_codec)
  show "wire_codec (c_buffer refC) v_buffer (w_buffer refW) n_buffer"
    unfolding refC_def compact.simps
    by (rule refCodec_codec, rule bufferParse_wire) (simp_all add: refW_def)
  show "wire_codec (c_string refC) (v_string refW) (w_string refW) (\<lambda>s. s)"
    unfolding refC_def refW_def compact.simps wires.simps
    by (rule refCodec_codec) (rule stringParse_wire)
  show "wire_codec (c_ipv4Address refC) (v_ipv4 refW) (w_ipv4 refW) (\<lambda>a. a)"
    unfolding refC_def refW_def compact.simps wires.simps
    by (rule refCodec_codec) (simp add: ipv4Valid_def ipv4Parse_append)
  show "wire_codec (c_ipv6Address refC) (v_ipv6 refW) (w_ipv6 refW) (\<lambda>a. a)"
    unfolding refC_def refW_def compact.simps wires.simps
    by (rule refCodec_codec) (simp add: ipv6Valid_def ipv6Parse_append)
  show "wire_codec (c_fixed32 refC) (\<lambda>b. length b = 32) (\<lambda>b. b) (\<lambda>b. b)"
    unfolding refC_def compact.simps by (rule refCodec_codec) (simp add: fixedParse_def)
  show "wire_codec (c_fixed64 refC) (\<lambda>b. length b = 64) (\<lambda>b. b) (\<lambda>b. b)"
    unfolding refC_def compact.simps by (rule refCodec_codec) (simp add: fixedParse_def)
  show "wire_writer (c_raw refC) (\<lambda>_. True) (\<lambda>b. b)"
    unfolding refC_def compact.simps by (rule refCodec_writer)
qed (simp_all add: refC_def refW_def refArray_writer refArray_reader uintWire_def ipv4Valid_def)

end
