(* ===== verification/Message_Properties.thy ===== *)
theory Message_Properties
  imports Compact_Reference
begin

text \<open>
  The properties of the wire messages: buffers sized by \<open>preencode\<close> are filled exactly, decoders
  read back what was written, a lookup reply relayed as raw records reads as the peers they encode,
  and what is signed for a mutable value determines its sequence number and value.
\<close>

section \<open>What is read back\<close>

lemma n_id [simp]:
  "n_relayInfo r = r" "n_holepunchInfo i = i" "n_peer p = p" "n_announce a = a"
  "n_holepunchPayload m = m"
proof -
  show r: "n_relayInfo r = r" for r by (cases r) (simp add: n_relayInfo_def)
  show p: "n_peer p = p" for p by (cases p) (simp add: n_peer_def)
  have "map_option n_peer v = v" for v by (cases v) (simp_all add: p)
  then show "n_announce a = a" by (cases a) (simp add: n_announce_def)
  have "map n_relayInfo xs = xs" for xs by (simp add: r list.map_ident_strong)
  then show "n_holepunchInfo i = i" by (cases i) (simp add: n_holepunchInfo_def)
  show "n_holepunchPayload m = m" by (cases m) (simp add: n_holepunchPayload_def)
qed

lemma codec_round_trip:
  assumes "wire_codec K v w n" "v m"
  shows "encodeUnslab K m = Inr (w m) \<and> decodeBuffer K (w m @ rest) = Inr (n m)"
  using wire_writer.encodes [OF wire_codec.axioms(1) [OF assms(1)]]
    wire_reader.decodes [OF wire_codec.axioms(2) [OF assms(1)]] assms(2)
  by blast

section \<open>Connection set-up\<close>

text \<open>
  the payload of the Noise handshake. Given the documented behaviour of the codec package, for
  every payload with one-byte error and firewall fields, the buffer sized by \<open>preencode\<close> is filled
  exactly with the wire image, and decoding it (whatever follows in the buffer) gives the payload
  with version 1, missing address lists read as empty ones and every optional part present exactly
  when it was sent.
\<close>
theorem noise_payload_roundtrip:
  assumes "dht_messages C W" "v_noisePayload W m"
  shows "encodeUnslab (noisePayload C) m = Inr (w_noisePayload W m)
    \<and> decodeBuffer (noisePayload C) (w_noisePayload W m @ rest) = Inr
       \<lparr>np_version = 1, np_error = np_error m, np_firewall = np_firewall m,
        np_holepunch = np_holepunch m,
        np_addresses4 = Some (case np_addresses4 m of None \<Rightarrow> [] | Some xs \<Rightarrow> xs),
        np_addresses6 = Some (case np_addresses6 m of None \<Rightarrow> [] | Some xs \<Rightarrow> xs),
        np_udx = map_option (\<lambda>u. u\<lparr>ux_version := 1\<rparr>) (np_udx m),
        np_secretStream = map_option (\<lambda>u. u\<lparr>ss_version := 1\<rparr>) (np_secretStream m),
        np_relayThrough = map_option (\<lambda>u. u\<lparr>rt_version := 1\<rparr>) (np_relayThrough m),
        np_relayAddresses = np_relayAddresses m\<rparr>"
proof -
  have "map_option n_udxInfo v = map_option (\<lambda>u. u\<lparr>ux_version := 1\<rparr>) v" for v
    by (cases v) (simp_all add: n_udxInfo_def)
  moreover have "map_option n_secretStreamInfo v = map_option (\<lambda>u. u\<lparr>ss_version := 1\<rparr>) v" for v
    by (cases v) (simp_all add: n_secretStreamInfo_def)
  moreover have "map_option n_relayThroughInfo v = map_option (\<lambda>u. u\<lparr>rt_version := 1\<rparr>) v" for v
    by (cases v) (simp_all add: n_relayThroughInfo_def)
  moreover have "map_option n_holepunchInfo v = v" for v
    by (cases v) simp_all
  ultimately show ?thesis
    using codec_round_trip [OF dht_messages.noisePayload_codec [OF assms(1)] assms(2), of rest]
    by (simp add: n_noisePayload_def)
qed

definition sample_address :: address where
  "sample_address = \<lparr>host = ''88.99.3.86'', port = 49737\<rparr>"

definition sample_payload :: noise_payload where
  "sample_payload = \<lparr>np_version = 1, np_error = 0, np_firewall = 2,
     np_holepunch = Some \<lparr>hi_id = 300, hi_relays = [\<lparr>ri_relayAddress = sample_address, ri_peerAddress = sample_address\<rparr>]\<rparr>,
     np_addresses4 = Some [sample_address], np_addresses6 = Some [\<lparr>host = ''2a01:4f8:0:0:0:0:0:2'', port = 80\<rparr>],
     np_udx = Some \<lparr>ux_version = 1, ux_reusableSocket = True, ux_id = 70000, ux_seq = 0\<rparr>,
     np_secretStream = None, np_relayThrough = None, np_relayAddresses = Some []\<rparr>"

lemma showNum_numeral:
  "showNum (numeral k) base n = (if n < base then [digit n]
     else showNum (pred_numeral k) base (n div base) @ [digit (n mod base)])"
  by (simp only: numeral_eq_Suc showNum.simps)

lemma be_bytes_numeral:
  "be_bytes (numeral k) n = be_bytes (pred_numeral k) (n div 256) @ [word_of_nat n]"
  by (simp only: numeral_eq_Suc be_bytes.simps)

lemmas address_eval = showNum_numeral be_bytes_numeral refW_def ipv4Valid_def ipv4Wire_def ipv4Parse_def ipv6Valid_def ipv6Wire_def
  ipv6Parse_def readNum_def digitVal_def digit_def le_bytes_def le_nat_def be_nat_def

lemma sample_ipv4: "v_ipv4 refW sample_address"
  by (simp add: sample_address_def address_eval)

lemma sample_ipv6: "v_ipv6 refW \<lparr>host = ''2a01:4f8:0:0:0:0:0:2'', port = 80\<rparr>"
  by (simp add: address_eval)

lemma sample_valid: "v_noisePayload refW sample_payload"
  using sample_ipv4
  by (simp add: v_noisePayload_def sample_payload_def v_holepunchInfo_def v_array_def someItems_def
    v_relayInfo_def v_uint_def v_udxInfo_def sample_ipv6)

theorem noise_payload_roundtrip_witness:
  "decodeBuffer (noisePayload refC) (w_noisePayload refW sample_payload) = Inr sample_payload"
  using noise_payload_roundtrip [OF ref.dht_messages_axioms sample_valid, of "[]"]
  by (simp add: sample_payload_def)

text \<open>
  a Noise payload of another version. Whatever follows a version number other than 1, the decoder
  stops there and returns that version with every other field empty, so that the caller can refuse
  it; no later field is read.
\<close>
theorem noise_payload_other_version:
  assumes "dht_messages C W" "v_uint v" "v \<noteq> 1"
  shows "decodeBuffer (noisePayload C) (w_uint W v @ rest) = Inr
     \<lparr>np_version = v, np_error = 0, np_firewall = 0, np_holepunch = None, np_addresses4 = Some [],
      np_addresses6 = Some [], np_udx = None, np_secretStream = None, np_relayThrough = None,
      np_relayAddresses = None\<rparr>"
proof -
  have "reads (decode (c_uint C)) (w_uint W v) v"
    using codec_reads [OF compact_encoding.uint [OF dht_messages.axioms [OF assms(1)]] assms(2)] .
  then show ?thesis
    using assms(3)
    by (simp add: reads_def showsAt_def decodeBuffer_def noisePayload_def noisePayload_decode_def
        readBind_def readRet_def)
qed

theorem noise_payload_other_version_witness:
  "map_sum id np_version (decodeBuffer (noisePayload refC) (w_uint refW 7 @ [1, 2])) = Inr 7"
  using noise_payload_other_version [OF ref.dht_messages_axioms, of 7 "[1, 2]"]
  by (simp add: v_uint_def)

section \<open>Holepunching\<close>

text \<open>
  the messages of a connection attempt. For handshake, holepunch and holepunch-payload messages
  whose mode, error, firewall and round fields fit one byte, encoding fills the announced size exactly
  and decoding returns the message, an empty noise or payload buffer read as \<open>null\<close>.
\<close>
theorem punch_messages_roundtrip:
  assumes M: "dht_messages C W"
    and v: "v_handshake W m" "v_holepunch W h" "v_holepunchPayload W p"
  shows "encodeUnslab (handshake C) m = Inr (w_handshake W m)
    \<and> decodeBuffer (handshake C) (w_handshake W m @ rest) = Inr (m\<lparr>hs_noise := n_buffer (hs_noise m)\<rparr>)
    \<and> encodeUnslab (holepunch C) h = Inr (w_holepunch W h)
    \<and> decodeBuffer (holepunch C) (w_holepunch W h @ rest) = Inr (h\<lparr>hp_payload := n_buffer (hp_payload h)\<rparr>)
    \<and> encodeUnslab (holepunchPayload C) p = Inr (w_holepunchPayload W p)
    \<and> decodeBuffer (holepunchPayload C) (w_holepunchPayload W p @ rest) = Inr p"
proof -
  have m: "n_handshake m = m\<lparr>hs_noise := n_buffer (hs_noise m)\<rparr>"
    by (cases m) (simp add: n_handshake_def)
  have h: "n_holepunch h = h\<lparr>hp_payload := n_buffer (hp_payload h)\<rparr>"
    by (cases h) (simp add: n_holepunch_def)
  show ?thesis
    using codec_round_trip [OF dht_messages.handshake_codec [OF M] v(1), of rest]
      codec_round_trip [OF dht_messages.holepunch_codec [OF M] v(2), of rest]
      codec_round_trip [OF dht_messages.holepunchPayload_codec [OF M] v(3), of rest]
    unfolding m h by simp
qed

definition sample_handshake :: handshake_msg where
  "sample_handshake = \<lparr>hs_mode = 2, hs_noise = Some [1, 2, 3], hs_peerAddress = Some sample_address,
     hs_relayAddress = None\<rparr>"

definition sample_punch :: holepunch_msg where
  "sample_punch = \<lparr>hp_mode = 1, hp_id = 9, hp_payload = None, hp_peerAddress = Some sample_address\<rparr>"

definition sample_round :: holepunch_payload where
  "sample_round = \<lparr>pp_error = 0, pp_firewall = 2, pp_round = 4, pp_connected = False, pp_punching = True,
     pp_addresses = Some [sample_address], pp_remoteAddress = None, pp_token = Some (replicate 32 7),
     pp_remoteToken = None\<rparr>"

lemma sample_punches_valid:
  "v_handshake refW sample_handshake" "v_holepunch refW sample_punch" "v_holepunchPayload refW sample_round"
  using sample_ipv4
  by (simp_all add: v_handshake_def v_holepunch_def v_holepunchPayload_def sample_handshake_def
    sample_punch_def sample_round_def v_buffer_def bytesOf_def v_uint_def v_array_def)

theorem punch_messages_roundtrip_witness:
  "decodeBuffer (handshake refC) (w_handshake refW sample_handshake) = Inr sample_handshake
   \<and> decodeBuffer (holepunch refC) (w_holepunch refW sample_punch) = Inr sample_punch
   \<and> encodeUnslab (holepunchPayload refC) sample_round = Inr (w_holepunchPayload refW sample_round)"
  using punch_messages_roundtrip [OF ref.dht_messages_axioms sample_punches_valid, of "[]"]
  by (simp add: sample_handshake_def sample_punch_def n_buffer_def bytesOf_def)

section \<open>Stored records\<close>

text \<open>
  the reply to a lookup. A node stores the encoding of each announced peer and writes the stored
  bytes as they are; the client, reading with the peer codec, gets back exactly the announced peers
  and the bump, and a reply that ends before the bump (an older node) reads with bump 0.
\<close>
theorem lookup_reply_roundtrip:
  assumes "dht_messages C W" "v_lookupReply W m"
  shows "encodeUnslab (lookupRawReply C)
       \<lparr>lr_peers = map (\<lambda>p. projr (encodeUnslab (peer C) p)) (lr_peers m), lr_bump = lr_bump m\<rparr>
       = Inr (w_array W (w_peer W) (lr_peers m) @ w_uint W (lr_bump m))
    \<and> decodeBuffer (lookupRawReply C) (w_array W (w_peer W) (lr_peers m) @ w_uint W (lr_bump m)) = Inr m
    \<and> decodeBuffer (lookupRawReply C) (w_array W (w_peer W) (lr_peers m)) = Inr (m\<lparr>lr_bump := 0\<rparr>)"
proof -
  note M = assms(1)
  from assms(2) have v: "v_array (v_peer W) (lr_peers m)" "v_uint (lr_bump m)"
    by (simp_all add: v_lookupReply_def)
  have raws: "map (\<lambda>p. projr (encodeUnslab (peer C) p)) (lr_peers m) = map (w_peer W) (lr_peers m)"
    using v(1) codec_round_trip [OF dht_messages.peer_codec [OF M]]
    by (auto simp: v_array_def list_all_iff)
  have "v_lookupRawReply (rawReply W m)"
    using v by (simp add: v_lookupRawReply_def rawReply_def v_array_def)
  from wire_writer.encodes [OF dht_messages.lookupRawReply_writer [OF M] this]
  have "encodeUnslab (lookupRawReply C) \<lparr>lr_peers = map (w_peer W) (lr_peers m), lr_bump = lr_bump m\<rparr>
      = Inr (w_array W (w_peer W) (lr_peers m) @ w_uint W (lr_bump m))"
    unfolding dht_messages.rawReply_wire [OF M] by (simp add: rawReply_def)
  moreover have "decodeBuffer (lookupRawReply C) (w_array W (w_peer W) (lr_peers m)) = Inr (m\<lparr>lr_bump := 0\<rparr>)"
    using codec_reads [OF dht_messages.peers_codec [OF M] v(1)]
    by (cases m) (simp add: reads_def showsAt_def decodeBuffer_def lookupRawReply_def
        lookupRawReply_decode_def readBind_def readRet_def advance_def list.map_ident_strong)
  moreover have "map n_peer (lr_peers m) = lr_peers m"
    by (simp add: list.map_ident_strong)
  ultimately show ?thesis
    using wire_reader.decodes [OF dht_messages.lookupRawReply_reader [OF M] assms(2), of "[]"]
    unfolding dht_messages.rawReply_wire [OF M] raws by simp
qed

definition sample_peer :: peer_msg where
  "sample_peer = \<lparr>pe_publicKey = replicate 32 9, pe_relayAddresses = [sample_address]\<rparr>"

lemma sample_peer_valid: "v_peer refW sample_peer"
  using sample_ipv4 by (simp add: v_peer_def sample_peer_def v_array_def)

theorem lookup_reply_roundtrip_witness:
  "decodeBuffer (lookupRawReply refC) (w_array refW (w_peer refW) [sample_peer] @ w_uint refW 500)
   = Inr \<lparr>lr_peers = [sample_peer], lr_bump = 500\<rparr>"
  using lookup_reply_roundtrip [OF ref.dht_messages_axioms, of "\<lparr>lr_peers = [sample_peer], lr_bump = 500\<rparr>"]
    sample_peer_valid
  by (simp add: v_lookupReply_def v_array_def v_uint_def)

text \<open>
  the messages of the store. Announcements, mutable puts, stored mutable values and plugin
  requests fill their announced size exactly and read back as sent, an empty value read as \<open>null\<close>.
\<close>
theorem store_messages_roundtrip:
  assumes M: "dht_messages C W"
    and v: "v_announce W a" "v_mutablePutRequest W p" "v_mutableGetResponse W g" "v_pluginRequest W q"
  shows "encodeUnslab (announce C) a = Inr (w_announce W a)
    \<and> decodeBuffer (announce C) (w_announce W a @ rest) = Inr a
    \<and> encodeUnslab (mutablePutRequest C) p = Inr (w_mutablePutRequest W p)
    \<and> decodeBuffer (mutablePutRequest C) (w_mutablePutRequest W p @ rest) = Inr (p\<lparr>mp_value := n_buffer (mp_value p)\<rparr>)
    \<and> encodeUnslab (mutableGetResponse C) g = Inr (w_mutableGetResponse W g)
    \<and> decodeBuffer (mutableGetResponse C) (w_mutableGetResponse W g @ rest) = Inr (g\<lparr>mg_value := n_buffer (mg_value g)\<rparr>)
    \<and> encodeUnslab (pluginRequest C) q = Inr (w_pluginRequest W q)
    \<and> decodeBuffer (pluginRequest C) (w_pluginRequest W q @ rest) = Inr (q\<lparr>pl_value := n_buffer (pl_value q)\<rparr>)"
proof -
  have p: "n_mutablePutRequest p = p\<lparr>mp_value := n_buffer (mp_value p)\<rparr>"
    by (cases p) (simp add: n_mutablePutRequest_def)
  have g: "n_mutableGetResponse g = g\<lparr>mg_value := n_buffer (mg_value g)\<rparr>"
    by (cases g) (simp add: n_mutableGetResponse_def)
  have q: "n_pluginRequest q = q\<lparr>pl_value := n_buffer (pl_value q)\<rparr>"
    by (cases q) (simp add: n_pluginRequest_def)
  show ?thesis
    using codec_round_trip [OF dht_messages.announce_codec [OF M] v(1), of rest]
      codec_round_trip [OF dht_messages.mutablePutRequest_codec [OF M] v(2), of rest]
      codec_round_trip [OF dht_messages.mutableGetResponse_codec [OF M] v(3), of rest]
      codec_round_trip [OF dht_messages.pluginRequest_codec [OF M] v(4), of rest]
    unfolding p g q by simp
qed

definition sample_announce :: announce_msg where
  "sample_announce = \<lparr>an_peer = Some sample_peer, an_refresh = None, an_signature = Some (replicate 64 1), an_bump = 12\<rparr>"

definition sample_put :: mutable_put_request where
  "sample_put = \<lparr>mp_publicKey = replicate 32 9, mp_seq = 3, mp_value = Some [1], mp_signature = replicate 64 0\<rparr>"

definition sample_get :: mutable_get_response where
  "sample_get = \<lparr>mg_seq = 3, mg_value = Some [1], mg_signature = replicate 64 0\<rparr>"

definition sample_plugin :: plugin_request where
  "sample_plugin = \<lparr>pl_plugin = ''keet'', pl_version = 1, pl_command = 2, pl_value = Some [5]\<rparr>"

lemma sample_store_valid:
  "v_announce refW sample_announce" "v_mutablePutRequest refW sample_put"
  "v_mutableGetResponse refW sample_get" "v_pluginRequest refW sample_plugin"
  using sample_peer_valid
  by (simp_all add: sample_announce_def sample_put_def sample_get_def sample_plugin_def v_announce_def
    v_mutablePutRequest_def v_mutableGetResponse_def v_pluginRequest_def v_uint_def v_buffer_def
    bytesOf_def refW_def stringValid_def)

theorem store_messages_roundtrip_witness:
  "decodeBuffer (announce refC) (w_announce refW sample_announce) = Inr sample_announce
   \<and> decodeBuffer (mutablePutRequest refC) (w_mutablePutRequest refW sample_put) = Inr sample_put
   \<and> decodeBuffer (mutableGetResponse refC) (w_mutableGetResponse refW sample_get) = Inr sample_get
   \<and> decodeBuffer (pluginRequest refC) (w_pluginRequest refW sample_plugin) = Inr sample_plugin"
  using store_messages_roundtrip [OF ref.dht_messages_axioms sample_store_valid, of "[]"]
  by (simp add: sample_put_def sample_get_def sample_plugin_def n_buffer_def bytesOf_def)

text \<open>
  what a mutable value's signature covers. Two pairs of sequence number and value with the same
  signable bytes have the same sequence number and the same value, an absent value counting as the
  empty one, so a signature cannot be moved to another sequence number or another value.
\<close>
theorem mutable_signable_unambiguous:
  assumes "dht_messages C W" "v_mutableSignable W a" "v_mutableSignable W b"
    and "encodeUnslab (mutableSignable C) a = encodeUnslab (mutableSignable C) b"
  shows "ms_seq a = ms_seq b \<and> bytesOf (ms_value a) = bytesOf (ms_value b)"
proof -
  note rt = codec_round_trip [OF dht_messages.mutableSignable_codec [OF assms(1)]]
  from rt [OF assms(2), of "[]"] rt [OF assms(3), of "[]"] assms(4)
  have "n_mutableSignable a = n_mutableSignable b"
    by simp
  then have "ms_seq a = ms_seq b" "n_buffer (ms_value a) = n_buffer (ms_value b)"
    by (simp_all add: n_mutableSignable_def)
  then show ?thesis
    by (auto simp: n_buffer_def bytesOf_def split: if_splits option.splits)
qed

theorem mutable_signable_unambiguous_witness:
  "ms_seq \<lparr>ms_seq = 4, ms_value = None\<rparr> = ms_seq \<lparr>ms_seq = 4, ms_value = Some []\<rparr>
   \<and> encodeUnslab (mutableSignable refC) \<lparr>ms_seq = 4, ms_value = None\<rparr>
     = encodeUnslab (mutableSignable refC) \<lparr>ms_seq = 4, ms_value = Some []\<rparr>"
proof -
  let ?a = "\<lparr>ms_seq = 4, ms_value = None\<rparr>" and ?b = "\<lparr>ms_seq = 4, ms_value = Some []\<rparr>"
  have v: "v_mutableSignable refW ?a" "v_mutableSignable refW ?b"
    by (simp_all add: v_mutableSignable_def v_uint_def v_buffer_def bytesOf_def)
  have "encodeUnslab (mutableSignable refC) ?a = encodeUnslab (mutableSignable refC) ?b"
    using codec_round_trip [OF ref.mutableSignable_codec v(1)] codec_round_trip [OF ref.mutableSignable_codec v(2)]
    by (simp add: w_mutableSignable_def w_buffer_def bytesOf_def)
  with mutable_signable_unambiguous [OF ref.dht_messages_axioms v] show ?thesis
    by simp
qed

end
