(* ===== verification/DHT_Constants.thy ===== *)
theory DHT_Constants
  imports JS_Prelude
begin

text \<open>
  \<^verbatim>\<open>lib/constants.js\<close> and \<^verbatim>\<open>lib/errors.js\<close>: the command numbers, firewall states and error numbers
  of the DHT, and its error class with one factory per code. The namespaces come from
  \<^verbatim>\<open>hypercore-crypto\<close>, which is not part of the repository: they are arguments where they are used.
\<close>

section \<open>Numbers on the wire\<close>

datatype command = PEER_HANDSHAKE | PEER_HOLEPUNCH | FIND_PEER | LOOKUP | ANNOUNCE | UNANNOUNCE
  | MUTABLE_PUT | MUTABLE_GET | IMMUTABLE_PUT | IMMUTABLE_GET | PLUGIN

fun COMMANDS :: "command \<Rightarrow> nat" where
  "COMMANDS PEER_HANDSHAKE = 0"
| "COMMANDS PEER_HOLEPUNCH = 1"
| "COMMANDS FIND_PEER = 2"
| "COMMANDS LOOKUP = 3"
| "COMMANDS ANNOUNCE = 4"
| "COMMANDS UNANNOUNCE = 5"
| "COMMANDS MUTABLE_PUT = 6"
| "COMMANDS MUTABLE_GET = 7"
| "COMMANDS IMMUTABLE_PUT = 8"
| "COMMANDS IMMUTABLE_GET = 9"
| "COMMANDS PLUGIN = 10"

definition BOOTSTRAP_NODES :: "string list" where
  "BOOTSTRAP_NODES = [''88.99.3.86@node1.hyperdht.org:49737'',
     ''142.93.90.113@node2.hyperdht.org:49737'', ''138.68.147.8@node3.hyperdht.org:49737'']"

definition UNKNOWN_FIREWALL :: nat where
  "UNKNOWN_FIREWALL = 0"

definition OPEN_FIREWALL :: nat where
  "OPEN_FIREWALL = 1"

definition CONSISTENT_FIREWALL :: nat where
  "CONSISTENT_FIREWALL = 2"

definition RANDOM_FIREWALL :: nat where
  "RANDOM_FIREWALL = 3"

lemmas FIREWALL_defs = UNKNOWN_FIREWALL_def OPEN_FIREWALL_def CONSISTENT_FIREWALL_def RANDOM_FIREWALL_def

datatype dht_failure = NO_ERROR | ABORTED | VERSION_MISMATCH | TRY_LATER | SEQ_REUSED | SEQ_TOO_LOW

fun ERROR :: "dht_failure \<Rightarrow> nat" where
  "ERROR NO_ERROR = 0"
| "ERROR ABORTED = 1"
| "ERROR VERSION_MISMATCH = 2"
| "ERROR TRY_LATER = 3"
| "ERROR SEQ_REUSED = 16"
| "ERROR SEQ_TOO_LOW = 17"

text \<open>The commands whose namespaces are drawn, in order, from \<open>crypto.namespace\<close>.\<close>

definition NS_COMMANDS :: "command list" where
  "NS_COMMANDS = [ANNOUNCE, UNANNOUNCE, MUTABLE_PUT, PEER_HANDSHAKE, PEER_HOLEPUNCH, PLUGIN]"

text \<open>The namespace of a command in what \<open>crypto.namespace('hyperswarm/dht', ids)\<close> returns.\<close>

definition NS :: "(string \<Rightarrow> nat list \<Rightarrow> bytes list) \<Rightarrow> command \<Rightarrow> bytes option" where
  "NS namespace c = map_of (zip NS_COMMANDS (namespace ''hyperswarm/dht'' (map COMMANDS NS_COMMANDS))) c"

section \<open>Errors\<close>

datatype dht_code =
    BAD_HANDSHAKE_REPLY
  | BAD_HOLEPUNCH_REPLY
  | HOLEPUNCH_ABORTED
  | HOLEPUNCH_INVALID
  | HOLEPUNCH_PROBE_TIMEOUT
  | HOLEPUNCH_DOUBLE_RANDOMIZED_NATS
  | CANNOT_HOLEPUNCH
  | REMOTE_NOT_HOLEPUNCHING
  | REMOTE_NOT_HOLEPUNCHABLE
  | REMOTE_ABORTED
  | HANDSHAKE_UNFINISHED
  | HANDSHAKE_INVALID
  | ALREADY_LISTENING
  | KEYPAIR_ALREADY_USED
  | NODE_DESTROYED
  | PEER_CONNECTION_FAILED
  | PEER_NOT_FOUND
  | STREAM_NOT_CONNECTED
  | SERVER_INCOMPATIBLE
  | SERVER_ERROR
  | DUPLICATE_CONNECTION
  | RELAY_ABORTED
  | SUSPENDED

fun dht_code_name :: "dht_code \<Rightarrow> string" where
  "dht_code_name BAD_HANDSHAKE_REPLY = ''BAD_HANDSHAKE_REPLY''"
| "dht_code_name BAD_HOLEPUNCH_REPLY = ''BAD_HOLEPUNCH_REPLY''"
| "dht_code_name HOLEPUNCH_ABORTED = ''HOLEPUNCH_ABORTED''"
| "dht_code_name HOLEPUNCH_INVALID = ''HOLEPUNCH_INVALID''"
| "dht_code_name HOLEPUNCH_PROBE_TIMEOUT = ''HOLEPUNCH_PROBE_TIMEOUT''"
| "dht_code_name HOLEPUNCH_DOUBLE_RANDOMIZED_NATS = ''HOLEPUNCH_DOUBLE_RANDOMIZED_NATS''"
| "dht_code_name CANNOT_HOLEPUNCH = ''CANNOT_HOLEPUNCH''"
| "dht_code_name REMOTE_NOT_HOLEPUNCHING = ''REMOTE_NOT_HOLEPUNCHING''"
| "dht_code_name REMOTE_NOT_HOLEPUNCHABLE = ''REMOTE_NOT_HOLEPUNCHABLE''"
| "dht_code_name REMOTE_ABORTED = ''REMOTE_ABORTED''"
| "dht_code_name HANDSHAKE_UNFINISHED = ''HANDSHAKE_UNFINISHED''"
| "dht_code_name HANDSHAKE_INVALID = ''HANDSHAKE_INVALID''"
| "dht_code_name ALREADY_LISTENING = ''ALREADY_LISTENING''"
| "dht_code_name KEYPAIR_ALREADY_USED = ''KEYPAIR_ALREADY_USED''"
| "dht_code_name NODE_DESTROYED = ''NODE_DESTROYED''"
| "dht_code_name PEER_CONNECTION_FAILED = ''PEER_CONNECTION_FAILED''"
| "dht_code_name PEER_NOT_FOUND = ''PEER_NOT_FOUND''"
| "dht_code_name STREAM_NOT_CONNECTED = ''STREAM_NOT_CONNECTED''"
| "dht_code_name SERVER_INCOMPATIBLE = ''SERVER_INCOMPATIBLE''"
| "dht_code_name SERVER_ERROR = ''SERVER_ERROR''"
| "dht_code_name DUPLICATE_CONNECTION = ''DUPLICATE_CONNECTION''"
| "dht_code_name RELAY_ABORTED = ''RELAY_ABORTED''"
| "dht_code_name SUSPENDED = ''SUSPENDED''"

text \<open>The default message of each factory.\<close>

fun dht_message :: "dht_code \<Rightarrow> string" where
  "dht_message BAD_HANDSHAKE_REPLY = ''Bad handshake reply''"
| "dht_message BAD_HOLEPUNCH_REPLY = ''Bad holepunch reply''"
| "dht_message HOLEPUNCH_ABORTED = ''Holepunch aborted''"
| "dht_message HOLEPUNCH_INVALID = ''Invalid holepunch payload''"
| "dht_message HOLEPUNCH_PROBE_TIMEOUT = ''Holepunching probe did not finish in time''"
| "dht_message HOLEPUNCH_DOUBLE_RANDOMIZED_NATS = ''Both remote and local NATs are randomized''"
| "dht_message CANNOT_HOLEPUNCH = ''Cannot holepunch to remote''"
| "dht_message REMOTE_NOT_HOLEPUNCHING = ''Remote is not holepunching''"
| "dht_message REMOTE_NOT_HOLEPUNCHABLE = ''Remote is not holepunchable''"
| "dht_message REMOTE_ABORTED = ''Remote aborted''"
| "dht_message HANDSHAKE_UNFINISHED = ''Handshake did not finish''"
| "dht_message HANDSHAKE_INVALID = ''Received invalid handshake''"
| "dht_message ALREADY_LISTENING = ''Already listening''"
| "dht_message KEYPAIR_ALREADY_USED = ''Keypair already used''"
| "dht_message NODE_DESTROYED = ''Node destroyed''"
| "dht_message PEER_CONNECTION_FAILED = ''Could not connect to peer''"
| "dht_message PEER_NOT_FOUND = ''Peer not found''"
| "dht_message STREAM_NOT_CONNECTED = ''Stream is not connected''"
| "dht_message SERVER_INCOMPATIBLE = ''Server is using an incompatible version''"
| "dht_message SERVER_ERROR = ''Server returned an error''"
| "dht_message DUPLICATE_CONNECTION = ''Duplicate connection''"
| "dht_message RELAY_ABORTED = ''Relay aborted''"
| "dht_message SUSPENDED = ''Suspended''"

record dht_error =
  de_message :: string
  de_code :: string
  de_name :: string

definition DHTError :: "string \<Rightarrow> string \<Rightarrow> dht_error" where
  "DHTError msg code = \<lparr>de_message = code @ '': '' @ msg, de_code = code, de_name = ''DHTError''\<rparr>"

text \<open>A factory called with or without a message.\<close>

definition dhtFactory :: "dht_code \<Rightarrow> string option \<Rightarrow> dht_error" where
  "dhtFactory c msg = DHTError (case msg of None \<Rightarrow> dht_message c | Some s \<Rightarrow> s) (dht_code_name c)"

end
