(* ===== verification/DHT_Router.thy ===== *)
theory DHT_Router
  imports Message_Properties DHT_Constants
begin

text \<open>
  \<^verbatim>\<open>lib/router.js\<close>: the table of forwards (one per target, from an announcement or from a local
  server), the handlers that relay handshake and holepunch messages between client, relays and server,
  and the client's side of both exchanges. The cache (\<^verbatim>\<open>xache\<close>), the helpers \<open>c.encode\<close> and
  \<open>c.decode\<close>, the hexadecimal printer and \<open>dht.request\<close> are arguments; the answers of a server's
  callbacks are part of its forward. A handler returns the messages it sends.
\<close>

section \<open>Requests and what a handler sends\<close>

record dht_request =
  rq_command :: nat
  rq_target :: "bytes option"
  rq_token :: "bytes option"
  rq_value :: "bytes option"
  rq_sender :: address

record reply_opts =
  ro_socket :: "nat option"
  ro_to :: "address option"
  ro_closerNodes :: "bool option"
  ro_token :: "bool option"

definition noOpts :: reply_opts where
  "noOpts = \<lparr>ro_socket = None, ro_to = None, ro_closerNodes = None, ro_token = None\<rparr>"

text \<open>\<open>{ closerNodes: false, token: false }\<close>, to an address or through a socket when given.\<close>

definition quietOpts :: "nat option \<Rightarrow> address option \<Rightarrow> reply_opts" where
  "quietOpts socket dest = \<lparr>ro_socket = socket, ro_to = dest, ro_closerNodes = Some False, ro_token = Some False\<rparr>"

datatype effect =
    Reply "bytes option" reply_opts
  | Relay bytes address reply_opts
  | ErrorReply nat
  | PluginRequest nat plugin_request

section \<open>What the router is given\<close>

record ('c, 'v) cache =
  ca_get :: "'c \<Rightarrow> string \<Rightarrow> 'v option"
  ca_set :: "'c \<Rightarrow> string \<Rightarrow> 'v \<Rightarrow> 'c"
  ca_retain :: "'c \<Rightarrow> string \<Rightarrow> 'v \<Rightarrow> 'c"
  ca_delete :: "'c \<Rightarrow> string \<Rightarrow> 'c"
  ca_destroy :: "'c \<Rightarrow> 'c"

text \<open>\<open>c.encode\<close> and \<open>c.decode\<close> of the package at the message types they are used at.\<close>

record helpers =
  encHandshake :: "handshake_msg \<Rightarrow> unit + bytes"
  decHandshake :: "bytes \<Rightarrow> unit + handshake_msg"
  encHolepunch :: "holepunch_msg \<Rightarrow> unit + bytes"
  decHolepunch :: "bytes \<Rightarrow> unit + holepunch_msg"
  encLookupReply :: "bytes lookup_reply \<Rightarrow> unit + bytes"
  encPeer :: "peer_msg \<Rightarrow> unit + bytes"
  decAnnounce :: "bytes \<Rightarrow> unit + announce_msg"
  decUint :: "bytes \<Rightarrow> unit + nat"
  encSignable :: "mutable_signable \<Rightarrow> unit + bytes"
  decMutablePut :: "bytes \<Rightarrow> unit + mutable_put_request"
  decMutableGet :: "bytes \<Rightarrow> unit + mutable_get_response"
  decPlugin :: "bytes \<Rightarrow> unit + plugin_request"

text \<open>The answers of a server's callbacks: a throw, nothing, or a reply.\<close>

record hs_reply =
  hr_noise :: "bytes option"
  hr_socket :: "nat option"

record hp_reply =
  pr_payload :: "bytes option"
  pr_socket :: "nat option"

record forward =
  fw_relay :: "address option"
  fw_record :: bytes
  fw_onpeerhandshake :: "(bytes \<Rightarrow> address option \<Rightarrow> dht_request \<Rightarrow> unit + hs_reply option) option"
  fw_onpeerholepunch :: "(nat \<Rightarrow> bytes option \<Rightarrow> address \<Rightarrow> dht_request \<Rightarrow> unit + hp_reply option) option"

datatype target_key = KeyString string | KeyBuffer bytes

section \<open>The router\<close>

definition FROM_CLIENT :: nat where "FROM_CLIENT = 0"
definition FROM_SERVER :: nat where "FROM_SERVER = 1"
definition FROM_RELAY :: nat where "FROM_RELAY = 2"
definition FROM_SECOND_RELAY :: nat where "FROM_SECOND_RELAY = 3"
definition REPLY_MODE_HS :: nat where "REPLY_MODE_HS = 4"

lemmas mode_defs = FROM_CLIENT_def FROM_SERVER_def FROM_RELAY_def FROM_SECOND_RELAY_def REPLY_MODE_HS_def

fun keyString :: "(bytes \<Rightarrow> string) \<Rightarrow> target_key \<Rightarrow> string" where
  "keyString hex (KeyString s) = s"
| "keyString hex (KeyBuffer b) = hex b"

definition router_set :: "('c, forward) cache \<Rightarrow> (bytes \<Rightarrow> string) \<Rightarrow> target_key \<Rightarrow> forward \<Rightarrow> 'c \<Rightarrow> 'c" where
  "router_set L hex target state fwd =
     (if fw_onpeerhandshake state \<noteq> None then ca_retain L fwd (keyString hex target) state
      else ca_set L fwd (keyString hex target) state)"

definition router_get :: "('c, forward) cache \<Rightarrow> (bytes \<Rightarrow> string) \<Rightarrow> target_key \<Rightarrow> 'c \<Rightarrow> forward option" where
  "router_get L hex target fwd = ca_get L fwd (keyString hex target)"

definition router_delete :: "('c, forward) cache \<Rightarrow> (bytes \<Rightarrow> string) \<Rightarrow> target_key \<Rightarrow> 'c \<Rightarrow> 'c" where
  "router_delete L hex target fwd = ca_delete L fwd (keyString hex target)"

definition router_destroy :: "('c, forward) cache \<Rightarrow> 'c \<Rightarrow> 'c" where
  "router_destroy L fwd = ca_destroy L fwd"

text \<open>The file's \<open>decode\<close>: a missing value or a throw gives \<open>null\<close>.\<close>

definition decodeOr :: "(bytes \<Rightarrow> unit + 'a) \<Rightarrow> bytes option \<Rightarrow> 'a option" where
  "decodeOr dec v = (case v of None \<Rightarrow> None
     | Some bs \<Rightarrow> (case dec bs of Inl _ \<Rightarrow> None | Inr x \<Rightarrow> Some x))"

definition sendWith :: "unit + bytes \<Rightarrow> (bytes \<Rightarrow> effect) \<Rightarrow> unit + effect list" where
  "sendWith encoded f = bindE encoded (\<lambda>bs. Inr [f bs])"

text \<open>The answer of a server to a handshake, by the mode of the message.\<close>

definition serverHandshake ::
    "helpers \<Rightarrow> dht_request \<Rightarrow> nat \<Rightarrow> address option \<Rightarrow> address option \<Rightarrow> bytes \<Rightarrow> nat option \<Rightarrow> unit + effect list" where
  "serverHandshake H req mode peerAddress relayAddress noise socket =
     (if mode = FROM_CLIENT
      then sendWith (encHandshake H \<lparr>hs_mode = REPLY_MODE_HS, hs_noise = Some noise, hs_peerAddress = None,
          hs_relayAddress = None\<rparr>) (\<lambda>bs. Reply (Some bs) (quietOpts socket None))
      else if mode = FROM_RELAY
      then sendWith (encHandshake H \<lparr>hs_mode = FROM_SERVER, hs_noise = Some noise, hs_peerAddress = peerAddress,
          hs_relayAddress = None\<rparr>) (\<lambda>bs. Relay bs (rq_sender req) (quietOpts socket None))
      else if mode = FROM_SECOND_RELAY
      then (case relayAddress of None \<Rightarrow> Inr []
        | Some relay \<Rightarrow> sendWith (encHandshake H \<lparr>hs_mode = FROM_SERVER, hs_noise = Some noise,
            hs_peerAddress = peerAddress, hs_relayAddress = None\<rparr>)
            (\<lambda>bs. Relay bs relay (quietOpts socket None)))
      else Inr [])"

text \<open>The relaying of a handshake by a node that has no server for the target.\<close>

definition relayHandshake ::
    "helpers \<Rightarrow> dht_request \<Rightarrow> handshake_msg \<Rightarrow> address option \<Rightarrow> unit + effect list" where
  "relayHandshake H req hs relay =
     (let mode = hs_mode hs; noise = hs_noise hs; peerAddress = hs_peerAddress hs; relayAddress = hs_relayAddress hs
      in if mode = FROM_CLIENT
      then (if noise = None then Inr []
        else (case (case relayAddress of None \<Rightarrow> relay | Some a \<Rightarrow> Some a) of
            None \<Rightarrow> Inr [Reply None \<lparr>ro_socket = None, ro_to = None, ro_closerNodes = Some True, ro_token = Some False\<rparr>]
          | Some dest \<Rightarrow> sendWith (encHandshake H \<lparr>hs_mode = FROM_RELAY, hs_noise = noise,
              hs_peerAddress = Some (rq_sender req), hs_relayAddress = None\<rparr>) (\<lambda>bs. Relay bs dest noOpts)))
      else if mode = FROM_RELAY
      then (case relay of None \<Rightarrow> Inr []
        | Some dest \<Rightarrow> if noise = None then Inr []
            else sendWith (encHandshake H \<lparr>hs_mode = FROM_SECOND_RELAY, hs_noise = noise,
              hs_peerAddress = peerAddress, hs_relayAddress = Some (rq_sender req)\<rparr>) (\<lambda>bs. Relay bs dest noOpts))
      else if mode = FROM_SERVER
      then (if peerAddress = None \<or> noise = None then Inr []
        else sendWith (encHandshake H \<lparr>hs_mode = REPLY_MODE_HS, hs_noise = noise,
            hs_peerAddress = Some (rq_sender req), hs_relayAddress = None\<rparr>)
            (\<lambda>bs. Reply (Some bs) (quietOpts None peerAddress)))
      else Inr [])"

definition onpeerhandshake ::
    "('c, forward) cache \<Rightarrow> (bytes \<Rightarrow> string) \<Rightarrow> helpers \<Rightarrow> 'c \<Rightarrow> dht_request \<Rightarrow> unit + effect list" where
  "onpeerhandshake L hex H fwd req = (case decodeOr (decHandshake H) (rq_value req) of
     None \<Rightarrow> Inr []
   | Some hs \<Rightarrow>
       (let state = (case rq_target req of None \<Rightarrow> None | Some t \<Rightarrow> router_get L hex (KeyBuffer t) fwd)
        in case (case state of None \<Rightarrow> None | Some s \<Rightarrow> fw_onpeerhandshake s) of
          Some callback \<Rightarrow> (case hs_noise hs of None \<Rightarrow> Inr []
            | Some noise \<Rightarrow> (case callback noise (hs_peerAddress hs) req of
                Inl _ \<Rightarrow> Inr []
              | Inr None \<Rightarrow> Inr []
              | Inr (Some reply) \<Rightarrow> (case hr_noise reply of None \<Rightarrow> Inr []
                  | Some n \<Rightarrow> serverHandshake H req (hs_mode hs) (hs_peerAddress hs) (hs_relayAddress hs) n (hr_socket reply))))
        | None \<Rightarrow> relayHandshake H req hs (case state of None \<Rightarrow> None | Some s \<Rightarrow> fw_relay s)))"

definition onpeerholepunch ::
    "('c, forward) cache \<Rightarrow> (bytes \<Rightarrow> string) \<Rightarrow> helpers \<Rightarrow> 'c \<Rightarrow> dht_request \<Rightarrow> unit + effect list" where
  "onpeerholepunch L hex H fwd req = (case decodeOr (decHolepunch H) (rq_value req) of
     None \<Rightarrow> Inr []
   | Some hp \<Rightarrow>
       (let state = (case rq_target req of None \<Rightarrow> None | Some t \<Rightarrow> router_get L hex (KeyBuffer t) fwd);
            relay = (case state of None \<Rightarrow> None | Some s \<Rightarrow> fw_relay s)
        in if hp_mode hp = FROM_CLIENT
        then (case (case hp_peerAddress hp of None \<Rightarrow> relay | Some a \<Rightarrow> Some a) of
            None \<Rightarrow> Inr []
          | Some dest \<Rightarrow> sendWith (encHolepunch H \<lparr>hp_mode = FROM_RELAY, hp_id = hp_id hp, hp_payload = hp_payload hp,
              hp_peerAddress = Some (rq_sender req)\<rparr>) (\<lambda>bs. Relay bs dest noOpts))
        else if hp_mode hp = FROM_RELAY
        then (case (case state of None \<Rightarrow> None | Some s \<Rightarrow> fw_onpeerholepunch s) of
            None \<Rightarrow> Inr []
          | Some callback \<Rightarrow> (case hp_peerAddress hp of None \<Rightarrow> Inr []
              | Some peerAddress \<Rightarrow> (case callback (hp_id hp) (hp_payload hp) peerAddress req of
                  Inl _ \<Rightarrow> Inr []
                | Inr None \<Rightarrow> Inr []
                | Inr (Some reply) \<Rightarrow> sendWith (encHolepunch H \<lparr>hp_mode = FROM_SERVER, hp_id = 0,
                    hp_payload = pr_payload reply, hp_peerAddress = Some peerAddress\<rparr>)
                    (\<lambda>bs. Relay bs (rq_sender req) (quietOpts (pr_socket reply) None)))))
        else if hp_mode hp = FROM_SERVER
        then sendWith (encHolepunch H \<lparr>hp_mode = REPLY_MODE_HS, hp_id = hp_id hp, hp_payload = hp_payload hp,
            hp_peerAddress = Some (rq_sender req)\<rparr>) (\<lambda>bs. Reply (Some bs) (quietOpts None (hp_peerAddress hp)))
        else Inr []))"

section \<open>The client's side\<close>

record dht_response =
  rs_sender :: address
  rs_to :: address
  rs_value :: "bytes option"

datatype router_failure = Rejected | RouterError dht_error

record handshake_result =
  hx_noise :: bytes
  hx_relayed :: bool
  hx_serverAddress :: address
  hx_clientAddress :: address

record holepunch_result =
  px_sender :: address
  px_to :: address
  px_payload :: "bytes option"
  px_peerAddress :: address

text \<open>\<open>dht.request\<close>: the command, target and value sent to an address, and the response or a rejection.\<close>

type_synonym dht_rpc = "nat \<Rightarrow> bytes \<Rightarrow> bytes \<Rightarrow> address \<Rightarrow> unit + dht_response"

definition orReject :: "unit + 'a \<Rightarrow> router_failure + 'a" where
  "orReject r = (case r of Inl _ \<Rightarrow> Inl Rejected | Inr x \<Rightarrow> Inr x)"

definition peerHandshake ::
    "helpers \<Rightarrow> dht_rpc \<Rightarrow> bytes \<Rightarrow> bytes option \<Rightarrow> address option \<Rightarrow> address option \<Rightarrow> address
     \<Rightarrow> router_failure + handshake_result" where
  "peerHandshake H rpc target noise peerAddress relayAddress dest =
     bindE (orReject (encHandshake H \<lparr>hs_mode = FROM_CLIENT, hs_noise = noise, hs_peerAddress = peerAddress,
         hs_relayAddress = relayAddress\<rparr>)) (\<lambda>requestValue.
     bindE (orReject (rpc (COMMANDS PEER_HANDSHAKE) target requestValue dest)) (\<lambda>res.
     case decodeOr (decHandshake H) (rs_value res) of
       None \<Rightarrow> Inl (RouterError (dhtFactory BAD_HANDSHAKE_REPLY None))
     | Some hs \<Rightarrow>
         if hs_mode hs \<noteq> REPLY_MODE_HS \<or> host dest \<noteq> host (rs_sender res) \<or> port dest \<noteq> port (rs_sender res)
         then Inl (RouterError (dhtFactory BAD_HANDSHAKE_REPLY None))
         else (case hs_noise hs of
           None \<Rightarrow> Inl (RouterError (dhtFactory BAD_HANDSHAKE_REPLY None))
         | Some n \<Rightarrow> Inr \<lparr>hx_noise = n, hx_relayed = hs_peerAddress hs \<noteq> None,
             hx_serverAddress = (case hs_peerAddress hs of None \<Rightarrow> dest | Some a \<Rightarrow> a),
             hx_clientAddress = rs_to res\<rparr>)))"

definition peerHolepunch ::
    "helpers \<Rightarrow> dht_rpc \<Rightarrow> bytes \<Rightarrow> nat \<Rightarrow> bytes option \<Rightarrow> address option \<Rightarrow> address
     \<Rightarrow> router_failure + holepunch_result" where
  "peerHolepunch H rpc target i payload peerAddress dest =
     bindE (orReject (encHolepunch H \<lparr>hp_mode = FROM_CLIENT, hp_id = i, hp_payload = payload,
         hp_peerAddress = peerAddress\<rparr>)) (\<lambda>requestValue.
     bindE (orReject (rpc (COMMANDS PEER_HOLEPUNCH) target requestValue dest)) (\<lambda>res.
     case decodeOr (decHolepunch H) (rs_value res) of
       None \<Rightarrow> Inl (RouterError (dhtFactory BAD_HOLEPUNCH_REPLY None))
     | Some hp \<Rightarrow>
         if hp_mode hp \<noteq> REPLY_MODE_HS \<or> host dest \<noteq> host (rs_sender res) \<or> port dest \<noteq> port (rs_sender res)
         then Inl (RouterError (dhtFactory BAD_HOLEPUNCH_REPLY None))
         else Inr \<lparr>px_sender = rs_sender res, px_to = rs_to res, px_payload = hp_payload hp,
           px_peerAddress = (case hp_peerAddress hp of None \<Rightarrow> dest | Some a \<Rightarrow> a)\<rparr>))"

end
