(* ===== verification/DHT_Persistent.thy ===== *)
theory DHT_Persistent
  imports DHT_Router
begin

text \<open>
  \<^verbatim>\<open>lib/persistent.js\<close> and the dispatch of \<^verbatim>\<open>index.js\<close>: the records, bumps, refresh tokens and
  values a node keeps for others, and the handlers that read and change them. The caches
  (\<^verbatim>\<open>record-cache\<close>, \<^verbatim>\<open>xache\<close>), \<^verbatim>\<open>sodium\<close>, the hexadecimal printer, the codec helpers and the
  namespaces are arguments (record \<open>store_lib\<close>); \<^verbatim>\<open>lib/refresh-chain.js\<close> is here too, since the
  chain is what the refresh tokens come from.
\<close>

section \<open>What the store is given\<close>

record 'r record_cache =
  rc_get :: "'r \<Rightarrow> string \<Rightarrow> nat \<Rightarrow> bytes list"
  rc_add :: "'r \<Rightarrow> string \<Rightarrow> bytes \<Rightarrow> bytes \<Rightarrow> 'r"
  rc_remove :: "'r \<Rightarrow> string \<Rightarrow> bytes \<Rightarrow> 'r"
  rc_destroy :: "'r \<Rightarrow> 'r"

record refresh_entry =
  rf_announceSelf :: bool
  rf_k :: string
  rf_record :: bytes

record ('f, 'r, 'b, 'e, 'v) store_lib =
  sl_forwards :: "('f, forward) cache"
  sl_records :: "'r record_cache"
  sl_bumps :: "('b, nat) cache"
  sl_refreshes :: "('e, refresh_entry) cache"
  sl_values :: "('v, bytes) cache"
  sl_hex :: "bytes \<Rightarrow> string"
  sl_hash :: "bytes \<Rightarrow> bytes"
  sl_hashBatch :: "bytes list \<Rightarrow> bytes"
  sl_verify :: "bytes \<Rightarrow> bytes \<Rightarrow> bytes \<Rightarrow> bool"
  sl_sign :: "bytes \<Rightarrow> bytes \<Rightarrow> bytes"
  sl_ns :: "command \<Rightarrow> bytes"
  sl_cenc :: cenc
  sl_helpers :: helpers

text \<open>The node: its identifier, the clock and the registered plugins (identity and version).\<close>

record node =
  nd_id :: "bytes option"
  nd_now :: nat
  nd_plugins :: "string \<Rightarrow> (nat \<times> nat) option"
  nd_persistent :: bool

record ('f, 'r, 'b, 'e, 'v) dht_store =
  st_forwards :: 'f
  st_records :: 'r
  st_bumps :: 'b
  st_refreshes :: 'e
  st_mutables :: 'v
  st_immutables :: 'v

definition MAX_BUMP_DRIFT :: nat where
  "MAX_BUMP_DRIFT = 60000"

section \<open>Signatures\<close>

definition annSignable ::
    "('f, 'r, 'b, 'e, 'v) store_lib \<Rightarrow> bytes \<Rightarrow> bytes \<Rightarrow> bytes \<Rightarrow> announce_msg \<Rightarrow> bytes \<Rightarrow> unit + bytes" where
  "annSignable L target token i ann ns = (case an_peer ann of
     None \<Rightarrow> Inl ()
   | Some p \<Rightarrow> bindE (encPeer (sl_helpers L) p) (\<lambda>bs.
       Inr (ns @ sl_hashBatch L [target, i, token, bs, bytesOf (an_refresh ann)])))"

definition mutableSignableBytes ::
    "('f, 'r, 'b, 'e, 'v) store_lib \<Rightarrow> nat \<Rightarrow> bytes option \<Rightarrow> unit + bytes" where
  "mutableSignableBytes L seq val =
     bindE (encSignable (sl_helpers L) \<lparr>ms_seq = seq, ms_value = val\<rparr>) (\<lambda>bs.
       Inr (sl_ns L MUTABLE_PUT @ sl_hash L bs))"

definition verifyMutable ::
    "('f, 'r, 'b, 'e, 'v) store_lib \<Rightarrow> bytes \<Rightarrow> nat \<Rightarrow> bytes option \<Rightarrow> bytes \<Rightarrow> unit + bool" where
  "verifyMutable L signature seq val publicKey =
     bindE (mutableSignableBytes L seq val) (\<lambda>signable. Inr (sl_verify L signature signable publicKey))"

text \<open>A key pair signs with its own function or with its secret key; a bare secret key is accepted.\<close>

datatype signer = SignFunction "bytes \<Rightarrow> bytes" | SecretKey bytes

fun signBytes :: "('f, 'r, 'b, 'e, 'v) store_lib \<Rightarrow> bytes \<Rightarrow> signer \<Rightarrow> bytes" where
  "signBytes L signable (SignFunction f) = f signable"
| "signBytes L signable (SecretKey k) = sl_sign L signable k"

definition signMutable :: "('f, 'r, 'b, 'e, 'v) store_lib \<Rightarrow> nat \<Rightarrow> bytes option \<Rightarrow> signer \<Rightarrow> unit + bytes" where
  "signMutable L seq val keyPair =
     bindE (mutableSignableBytes L seq val) (\<lambda>signable. Inr (signBytes L signable keyPair))"

definition signAnnounce ::
    "('f, 'r, 'b, 'e, 'v) store_lib \<Rightarrow> bytes \<Rightarrow> bytes \<Rightarrow> bytes \<Rightarrow> announce_msg \<Rightarrow> signer \<Rightarrow> unit + bytes" where
  "signAnnounce L target token i ann keyPair =
     bindE (annSignable L target token i ann (sl_ns L ANNOUNCE)) (\<lambda>signable. Inr (signBytes L signable keyPair))"

definition signUnannounce ::
    "('f, 'r, 'b, 'e, 'v) store_lib \<Rightarrow> bytes \<Rightarrow> bytes \<Rightarrow> bytes \<Rightarrow> announce_msg \<Rightarrow> signer \<Rightarrow> unit + bytes" where
  "signUnannounce L target token i ann keyPair =
     bindE (annSignable L target token i ann (sl_ns L UNANNOUNCE)) (\<lambda>signable. Inr (signBytes L signable keyPair))"

section \<open>Announcements\<close>

type_synonym ('f, 'r, 'b, 'e, 'v) handler =
  "dht_request \<Rightarrow> (('f, 'r, 'b, 'e, 'v) dht_store, unit, effect list) action"

definition onlookup :: "('f, 'r, 'b, 'e, 'v) store_lib \<Rightarrow> ('f, 'r, 'b, 'e, 'v) handler" where
  "onlookup L req st = (case rq_target req of
     None \<Rightarrow> (st, Inr [])
   | Some target \<Rightarrow>
       (let k = sl_hex L target;
            records = rc_get (sl_records L) (st_records st) k 20;
            bump = (case ca_get (sl_bumps L) (st_bumps st) k of None \<Rightarrow> 0 | Some n \<Rightarrow> n);
            records = (case router_get (sl_forwards L) (sl_hex L) (KeyString k) (st_forwards st) of
                None \<Rightarrow> records
              | Some fwd \<Rightarrow> if length records < 20 then records @ [fw_record fwd] else records)
        in if records = [] then (st, Inr [Reply None noOpts])
           else (st, sendWith (encLookupReply (sl_helpers L) \<lparr>lr_peers = records, lr_bump = bump\<rparr>)
             (\<lambda>bs. Reply (Some bs) noOpts))))"

definition onfindpeer :: "('f, 'r, 'b, 'e, 'v) store_lib \<Rightarrow> ('f, 'r, 'b, 'e, 'v) handler" where
  "onfindpeer L req st = (case rq_target req of
     None \<Rightarrow> (st, Inr [])
   | Some target \<Rightarrow> (st, Inr [Reply
       (map_option fw_record (router_get (sl_forwards L) (sl_hex L) (KeyBuffer target) (st_forwards st))) noOpts]))"

definition unannounce ::
    "('f, 'r, 'b, 'e, 'v) store_lib \<Rightarrow> bytes \<Rightarrow> bytes \<Rightarrow> ('f, 'r, 'b, 'e, 'v) dht_store \<Rightarrow> ('f, 'r, 'b, 'e, 'v) dht_store" where
  "unannounce L target publicKey st =
     (let k = sl_hex L target;
          st = (if sl_hash L publicKey = target
            then st\<lparr>st_forwards := router_delete (sl_forwards L) (sl_hex L) (KeyString k) (st_forwards st)\<rparr> else st)
      in st\<lparr>st_records := rc_remove (sl_records L) (st_records st) k publicKey\<rparr>)"

definition onunannounce :: "('f, 'r, 'b, 'e, 'v) store_lib \<Rightarrow> node \<Rightarrow> ('f, 'r, 'b, 'e, 'v) handler" where
  "onunannounce L nd req st = (case (rq_target req, rq_token req) of
     (Some target, Some token) \<Rightarrow>
       (case decodeOr (decAnnounce (sl_helpers L)) (rq_value req) of
          None \<Rightarrow> (st, Inr [])
        | Some unann \<Rightarrow> (case (an_peer unann, an_signature unann) of
            (Some p, Some signature) \<Rightarrow> (case nd_id nd of
                None \<Rightarrow> (st, Inl ())
              | Some i \<Rightarrow> (case annSignable L target token i unann (sl_ns L UNANNOUNCE) of
                  Inl e \<Rightarrow> (st, Inl e)
                | Inr signable \<Rightarrow>
                    if \<not> sl_verify L signature signable (pe_publicKey p) then (st, Inr [])
                    else (unannounce L target (pe_publicKey p) st, Inr [Reply None (quietOpts None None)])))
          | _ \<Rightarrow> (st, Inr [])))
   | _ \<Rightarrow> (st, Inr []))"

text \<open>
  Storing an announcement: in the router when the target is the hash of the key, else among the
  records of the topic.
\<close>

definition forwardOf :: "address \<Rightarrow> bytes \<Rightarrow> forward" where
  "forwardOf relay rec = \<lparr>fw_relay = Some relay, fw_record = rec, fw_onpeerhandshake = None, fw_onpeerholepunch = None\<rparr>"

definition announceSelfAs ::
    "('f, 'r, 'b, 'e, 'v) store_lib \<Rightarrow> dht_request \<Rightarrow> string \<Rightarrow> bytes \<Rightarrow> bytes
     \<Rightarrow> ('f, 'r, 'b, 'e, 'v) dht_store \<Rightarrow> ('f, 'r, 'b, 'e, 'v) dht_store" where
  "announceSelfAs L req k publicKey rec st =
     (let st = st\<lparr>st_forwards := router_set (sl_forwards L) (sl_hex L) (KeyString k) (forwardOf (rq_sender req) rec) (st_forwards st)\<rparr>
      in st\<lparr>st_records := rc_remove (sl_records L) (st_records st) k publicKey\<rparr>)"

definition onrefresh :: "('f, 'r, 'b, 'e, 'v) store_lib \<Rightarrow> bytes \<Rightarrow> ('f, 'r, 'b, 'e, 'v) handler" where
  "onrefresh L token req st =
     (let activeRefresh = sl_hex L (sl_hash L token)
      in case ca_get (sl_refreshes L) (st_refreshes st) activeRefresh of
        None \<Rightarrow> (st, Inr [])
      | Some r \<Rightarrow>
          (let k = rf_k r; rec = rf_record r; publicKey = take 32 rec;
               st = (if rf_announceSelf r then announceSelfAs L req k publicKey rec st
                 else st\<lparr>st_records := rc_add (sl_records L) (st_records st) k publicKey rec\<rparr>);
               st = st\<lparr>st_refreshes := ca_delete (sl_refreshes L) (st_refreshes st) activeRefresh\<rparr>;
               st = st\<lparr>st_refreshes := ca_set (sl_refreshes L) (st_refreshes st) (sl_hex L token) r\<rparr>
           in (st, Inr [Reply None (quietOpts None None)])))"

definition bumpTopic ::
    "('f, 'r, 'b, 'e, 'v) store_lib \<Rightarrow> node \<Rightarrow> string \<Rightarrow> nat \<Rightarrow> ('f, 'r, 'b, 'e, 'v) dht_store \<Rightarrow> ('f, 'r, 'b, 'e, 'v) dht_store" where
  "bumpTopic L nd k bump st =
     (let currentBump = (case ca_get (sl_bumps L) (st_bumps st) k of None \<Rightarrow> 0 | Some n \<Rightarrow> n)
      in if bump > currentBump \<and> bump \<le> nd_now nd + MAX_BUMP_DRIFT
         then st\<lparr>st_bumps := ca_set (sl_bumps L) (st_bumps st) k bump\<rparr> else st)"

definition storeAnnounce ::
    "('f, 'r, 'b, 'e, 'v) store_lib \<Rightarrow> node \<Rightarrow> dht_request \<Rightarrow> bytes \<Rightarrow> peer_msg \<Rightarrow> announce_msg \<Rightarrow> bytes
     \<Rightarrow> ('f, 'r, 'b, 'e, 'v) dht_store \<Rightarrow> ('f, 'r, 'b, 'e, 'v) dht_store" where
  "storeAnnounce L nd req target p ann rec st =
     (let k = sl_hex L target;
          announceSelf = (sl_hash L (pe_publicKey p) = target);
          st = (if announceSelf then announceSelfAs L req k (pe_publicKey p) rec st
            else (let st = bumpTopic L nd k (an_bump ann) st
              in st\<lparr>st_records := rc_add (sl_records L) (st_records st) k (pe_publicKey p) rec\<rparr>))
      in case an_refresh ann of None \<Rightarrow> st
       | Some refresh \<Rightarrow> st\<lparr>st_refreshes := ca_set (sl_refreshes L) (st_refreshes st) (sl_hex L refresh)
           \<lparr>rf_announceSelf = announceSelf, rf_k = k, rf_record = rec\<rparr>\<rparr>)"

text \<open>At most three relay addresses are kept.\<close>

definition trimRelays :: "peer_msg \<Rightarrow> peer_msg" where
  "trimRelays p = (if length (pe_relayAddresses p) > 3
     then p\<lparr>pe_relayAddresses := take 3 (pe_relayAddresses p)\<rparr> else p)"

definition onannounce :: "('f, 'r, 'b, 'e, 'v) store_lib \<Rightarrow> node \<Rightarrow> ('f, 'r, 'b, 'e, 'v) handler" where
  "onannounce L nd req st = (case (rq_target req, rq_token req, nd_id nd) of
     (Some target, Some token, Some i) \<Rightarrow>
       (case decodeOr (decAnnounce (sl_helpers L)) (rq_value req) of
          None \<Rightarrow> (st, Inr [])
        | Some ann \<Rightarrow> (case an_peer ann of
            None \<Rightarrow> (case an_refresh ann of None \<Rightarrow> (st, Inr []) | Some refresh \<Rightarrow> onrefresh L refresh req st)
          | Some p \<Rightarrow> (case annSignable L target token i ann (sl_ns L ANNOUNCE) of
              Inl e \<Rightarrow> (st, Inl e)
            | Inr signable \<Rightarrow> (case an_signature ann of
                None \<Rightarrow> (st, Inr [])
              | Some signature \<Rightarrow>
                  if \<not> sl_verify L signature signable (pe_publicKey p) then (st, Inr [])
                  else (case encodeUnslab (peer (sl_cenc L)) (trimRelays p) of
                      Inl e \<Rightarrow> (st, Inl e)
                    | Inr rec \<Rightarrow> (storeAnnounce L nd req target (trimRelays p) ann rec st,
                        Inr [Reply None (quietOpts None None)]))))))
   | _ \<Rightarrow> (st, Inr []))"

section \<open>Values\<close>

definition onmutableget :: "('f, 'r, 'b, 'e, 'v) store_lib \<Rightarrow> ('f, 'r, 'b, 'e, 'v) handler" where
  "onmutableget L req st = (case (rq_target req, rq_value req) of
     (Some target, Some v) \<Rightarrow> (case decUint (sl_helpers L) v of
         Inl _ \<Rightarrow> (st, Inr [])
       | Inr seq \<Rightarrow> (case ca_get (sl_values L) (st_mutables st) (sl_hex L target) of
           None \<Rightarrow> (st, Inr [Reply None noOpts])
         | Some val \<Rightarrow> (st, bindE (decUint (sl_helpers L) val) (\<lambda>localSeq.
             Inr [Reply (if localSeq < seq then None else Some val) noOpts]))))
   | _ \<Rightarrow> (st, Inr []))"

text \<open>The check of a put against the value already stored.\<close>

definition seqConflict :: "mutable_get_response \<Rightarrow> nat \<Rightarrow> bytes \<Rightarrow> dht_failure option" where
  "seqConflict existing seq val =
     (if mg_value existing \<noteq> None \<and> mg_seq existing = seq \<and> mg_value existing \<noteq> Some val then Some SEQ_REUSED
      else if seq < mg_seq existing then Some SEQ_TOO_LOW else None)"

definition storeMutable ::
    "('f, 'r, 'b, 'e, 'v) store_lib \<Rightarrow> string \<Rightarrow> mutable_get_response
     \<Rightarrow> (('f, 'r, 'b, 'e, 'v) dht_store, unit, effect list) action" where
  "storeMutable L k g st = (case encodeUnslab (mutableGetResponse (sl_cenc L)) g of
     Inl e \<Rightarrow> (st, Inl e)
   | Inr bs \<Rightarrow> (st\<lparr>st_mutables := ca_set (sl_values L) (st_mutables st) k bs\<rparr>, Inr [Reply None noOpts]))"

definition onmutableput :: "('f, 'r, 'b, 'e, 'v) store_lib \<Rightarrow> ('f, 'r, 'b, 'e, 'v) handler" where
  "onmutableput L req st = (case (rq_target req, rq_token req, decodeOr (decMutablePut (sl_helpers L)) (rq_value req)) of
     (Some target, Some _, Some p) \<Rightarrow>
       (let hsh = sl_hash L (mp_publicKey p); seq = mp_seq p
        in if hsh \<noteq> target then (st, Inr [])
        else (case mp_value p of None \<Rightarrow> (st, Inr [])
          | Some val \<Rightarrow> (case verifyMutable L (mp_signature p) seq (Some val) (mp_publicKey p) of
              Inl e \<Rightarrow> (st, Inl e)
            | Inr ok \<Rightarrow>
              if \<not> ok then (st, Inr [])
              else (let k = sl_hex L hsh; g = \<lparr>mg_seq = seq, mg_value = Some val, mg_signature = mp_signature p\<rparr>
                in case ca_get (sl_values L) (st_mutables st) k of
                    None \<Rightarrow> storeMutable L k g st
                  | Some local \<Rightarrow> (case decMutableGet (sl_helpers L) local of
                      Inl e \<Rightarrow> (st, Inl e)
                    | Inr existing \<Rightarrow> (case seqConflict existing seq val of
                        Some failure \<Rightarrow> (st, Inr [ErrorReply (ERROR failure)])
                      | None \<Rightarrow> storeMutable L k g st))))))
   | _ \<Rightarrow> (st, Inr []))"

definition onimmutableget :: "('f, 'r, 'b, 'e, 'v) store_lib \<Rightarrow> ('f, 'r, 'b, 'e, 'v) handler" where
  "onimmutableget L req st = (case rq_target req of
     None \<Rightarrow> (st, Inr [])
   | Some target \<Rightarrow> (st, Inr [Reply (ca_get (sl_values L) (st_immutables st) (sl_hex L target)) noOpts]))"

definition onimmutableput :: "('f, 'r, 'b, 'e, 'v) store_lib \<Rightarrow> ('f, 'r, 'b, 'e, 'v) handler" where
  "onimmutableput L req st = (case (rq_target req, rq_token req, rq_value req) of
     (Some target, Some _, Some val) \<Rightarrow>
       (let hsh = sl_hash L val
        in if hsh \<noteq> target then (st, Inr [])
           else (st\<lparr>st_immutables := ca_set (sl_values L) (st_immutables st) (sl_hex L hsh) val\<rparr>,
             Inr [Reply None noOpts]))
   | _ \<Rightarrow> (st, Inr []))"

definition onplugin :: "('f, 'r, 'b, 'e, 'v) store_lib \<Rightarrow> node \<Rightarrow> ('f, 'r, 'b, 'e, 'v) handler" where
  "onplugin L nd req st = (case decodeOr (decPlugin (sl_helpers L)) (rq_value req) of
     None \<Rightarrow> (st, Inr [])
   | Some plugreq \<Rightarrow> (case nd_plugins nd (pl_plugin plugreq) of
       None \<Rightarrow> (st, Inr [])
     | Some (i, version) \<Rightarrow>
         if version \<noteq> pl_version plugreq then (st, Inr []) else (st, Inr [PluginRequest i plugreq])))"

text \<open>The destructor of the file leaves the bumps alone.\<close>

definition persistent_destroy ::
    "('f, 'r, 'b, 'e, 'v) store_lib \<Rightarrow> ('f, 'r, 'b, 'e, 'v) dht_store \<Rightarrow> ('f, 'r, 'b, 'e, 'v) dht_store" where
  "persistent_destroy L st =
     st\<lparr>st_records := rc_destroy (sl_records L) (st_records st),
        st_refreshes := ca_destroy (sl_refreshes L) (st_refreshes st),
        st_mutables := ca_destroy (sl_values L) (st_mutables st),
        st_immutables := ca_destroy (sl_values L) (st_immutables st)\<rparr>"

section \<open>Dispatch\<close>

text \<open>\<open>onrequest\<close> of \<^verbatim>\<open>index.js\<close>: whether the request was handled, and what the handler did.\<close>

definition routed :: "('s \<Rightarrow> unit + effect list) \<Rightarrow> ('s, unit, effect list) action" where
  "routed f st = (st, f st)"

definition handlerOf ::
    "('f, 'r, 'b, 'e, 'v) store_lib \<Rightarrow> node \<Rightarrow> nat \<Rightarrow> ('f, 'r, 'b, 'e, 'v) handler option" where
  "handlerOf L nd cmd =
     (if cmd = COMMANDS PEER_HANDSHAKE
      then Some (\<lambda>req. routed (\<lambda>st. onpeerhandshake (sl_forwards L) (sl_hex L) (sl_helpers L) (st_forwards st) req))
      else if cmd = COMMANDS PEER_HOLEPUNCH
      then Some (\<lambda>req. routed (\<lambda>st. onpeerholepunch (sl_forwards L) (sl_hex L) (sl_helpers L) (st_forwards st) req))
      else if \<not> nd_persistent nd \<or> nd_id nd = None then None
      else if cmd = COMMANDS FIND_PEER then Some (onfindpeer L)
      else if cmd = COMMANDS LOOKUP then Some (onlookup L)
      else if cmd = COMMANDS ANNOUNCE then Some (onannounce L nd)
      else if cmd = COMMANDS UNANNOUNCE then Some (onunannounce L nd)
      else if cmd = COMMANDS MUTABLE_PUT then Some (onmutableput L)
      else if cmd = COMMANDS MUTABLE_GET then Some (onmutableget L)
      else if cmd = COMMANDS IMMUTABLE_PUT then Some (onimmutableput L)
      else if cmd = COMMANDS IMMUTABLE_GET then Some (onimmutableget L)
      else if cmd = COMMANDS PLUGIN then Some (onplugin L nd)
      else None)"

definition onrequest ::
    "('f, 'r, 'b, 'e, 'v) store_lib \<Rightarrow> node \<Rightarrow> dht_request \<Rightarrow> ('f, 'r, 'b, 'e, 'v) dht_store
     \<Rightarrow> ('f, 'r, 'b, 'e, 'v) dht_store \<times> (unit + effect list) \<times> bool" where
  "onrequest L nd req st = (case handlerOf L nd (rq_command req) of
     None \<Rightarrow> (st, Inr [], False)
   | Some h \<Rightarrow> (let (st', r) = h req st in (st', r, True)))"

section \<open>Refresh chains\<close>

text \<open>
  \<open>createRefreshChain(cnt)\<close>: block \<open>cnt - 1\<close> is the hash of the random seed and every other block
  the hash of the next one.
\<close>

fun refreshBlocks :: "(bytes \<Rightarrow> bytes) \<Rightarrow> bytes \<Rightarrow> nat \<Rightarrow> bytes list \<Rightarrow> bytes list" where
  "refreshBlocks hash prev 0 acc = acc"
| "refreshBlocks hash prev (Suc i) acc = refreshBlocks hash (hash prev) i (hash prev # acc)"

definition createRefreshChain :: "(bytes \<Rightarrow> bytes) \<Rightarrow> bytes \<Rightarrow> nat \<Rightarrow> bytes list" where
  "createRefreshChain hash seed cnt = (if cnt = 0 then [] else refreshBlocks hash seed cnt [])"

end
