(* ===== verification/Message_Ranges.thy ===== *)
theory Message_Ranges
  imports Compact_Reference
begin

text \<open>
  What the decoders of announcements and mutable puts return is a message their encoders represent,
  so that a node can store the re-encoding of what it has decoded and read it back.
\<close>

locale dht_decoders = compact_ranges C W for C :: cenc and W

sublocale dht_decoders \<subseteq> dht_messages C W
  by unfold_locales

context dht_decoders
begin

lemma ipv4_range: "ranges (decode (ipv4 C)) (v_ipv4 W)"
proof -
  have "decode (ipv4 C) = ipv4_decode C"
    by (simp add: ipv4_def)
  moreover have "\<lparr>host = host ip, port = port ip\<rparr> = ip" for ip :: address
    by (cases ip) simp
  ultimately show ?thesis
    unfolding ipv4_decode_def by (auto intro!: ranges_Bind [OF ipv4Address_range] ranges_Ret)
qed

lemma ipv4Array_range: "ranges (decode (ipv4Array C)) (v_array (v_ipv4 W))"
  using arrayAddress_range ipv4_range by (simp add: ipv4Array_def array_ranges_def)

lemma peer_range: "ranges (decode (peer C)) (v_peer W)"
  unfolding peer_def codec2.simps peer_decode_def
  by (intro ranges_Bind [OF fixed32_range] ranges_Bind [OF ipv4Array_range] ranges_Ret)
    (simp add: v_peer_def)

lemma announce_range: "ranges (decode (announce C)) (v_announce W)"
  unfolding announce_def codec2.simps announce_decode_def
  by (intro ranges_Bind [OF uint_range] ranges_Bind [OF ranges_If [OF peer_range]]
      ranges_Bind [OF ranges_If [OF fixed32_range]] ranges_Bind [OF ranges_If [OF fixed64_range]]
      ranges_Bind [OF ranges_If [OF uint_range]] ranges_Ret)
    (simp add: v_announce_def v_uint_def split: option.splits)

lemma mutablePut_range:
  "ranges (decode (mutablePutRequest C)) (\<lambda>p. v_mutablePutRequest W p \<and> mp_value p \<noteq> Some [])"
  unfolding mutablePutRequest_def codec2.simps mutablePutRequest_decode_def
  by (intro ranges_Bind [OF fixed32_range] ranges_Bind [OF uint_range] ranges_Bind [OF buffer_range]
      ranges_Bind [OF fixed64_range] ranges_Ret)
    (simp add: v_mutablePutRequest_def)

end

section \<open>The documented format\<close>

lemma refCodec_ranges:
  assumes "\<And>bs x n. p bs = Some (x, n) \<Longrightarrow> v x"
  shows "ranges (decode (refCodec f p)) v"
  using assms by (auto simp: ranges_def refCodec_def split: option.splits prod.splits)

lemma uintParse_range: "uintParse bs = Some (n, k) \<Longrightarrow> v_uint n"
proof (cases bs)
  case (Cons b bs')
  have "unat b < 2 ^ 53"
    by (rule less_trans [OF unsigned_less [where 'a = nat]]) simp
  moreover assume "uintParse bs = Some (n, k)"
  ultimately show ?thesis
    using Cons by (auto simp: Let_def v_uint_def split: if_splits)
qed simp

lemma readN_ranges:
  "ranges r v \<Longrightarrow> ranges (readN r n) (\<lambda>xs. length xs = n \<and> list_all v xs)"
proof (induction n)
  case (Suc n)
  show ?case
    unfolding readN.simps
    by (intro ranges_Bind [OF Suc.prems] ranges_Bind [OF Suc.IH [OF Suc.prems]] ranges_Ret) simp
qed (simp add: ranges_Ret)

lemma refArray_ranges: "array_ranges refArray"
  unfolding array_ranges_def
proof (intro allI impI)
  fix K :: "'a codec" and v
  assume K: "ranges (decode K) v"
  have "ranges (readN (decode K) n) (v_array v)" if "\<not> n > 2 ^ 20" for n
    using readN_ranges [OF K, of n] that by (auto simp: ranges_def v_array_def)
  then show "ranges (decode (refArray K)) (v_array v)"
    unfolding refArray_def codec2.simps
    by (intro ranges_Bind [where v = "\<lambda>_. True"]) (auto simp: ranges_def)
qed

lemma digitVal_digit: "d < 10 \<Longrightarrow> digitVal (digit d) = d"
  by (auto simp: less_Suc_eq numeral_eq_Suc digit_def digitVal_def)

lemma digit_not_dot: "d < 10 \<Longrightarrow> digit d \<noteq> CHR ''.''"
  by (auto simp: less_Suc_eq numeral_eq_Suc digit_def)

lemma showNum_byte:
  assumes "n < 256"
  shows "readNum 10 (showNum 3 10 n) = n" "CHR ''.'' \<notin> set (showNum 3 10 n)"
proof -
  have s: "showNum 3 10 n = (if n < 10 then [digit n] else if n div 10 < 10 then [digit (n div 10), digit (n mod 10)]
      else [digit (n div 100), digit (n div 10 mod 10), digit (n mod 10)])"
    using assms by (simp add: eval_nat_numeral(2) [of "num.Bit1 num.One"] numeral_3_eq_3 div_mult2_eq [of n 10 10, simplified, symmetric])
  have d: "n mod 10 < 10" "n div 10 mod 10 < 10" "n div 100 < 10"
    using assms by auto
  have "n div 100 = n div 10 div 10"
    by (simp add: div_mult2_eq [symmetric])
  with div_mult_mod_eq [of "n div 10" 10] div_mult_mod_eq [of n 10]
  have h: "n div 100 * 100 + n div 10 mod 10 * 10 + n mod 10 = n"
    by linarith
  show "readNum 10 (showNum 3 10 n) = n"
    using d h by (auto simp: s readNum_def digitVal_digit)
  show "CHR ''.'' \<notin> set (showNum 3 10 n)"
    using d digit_not_dot by (auto simp: s dest: sym)
qed

lemma splitOn_word: "sep \<notin> set w \<Longrightarrow> splitOn sep w = [w]"
  by (induction w) auto

lemma splitOn_append: "sep \<notin> set w \<Longrightarrow> splitOn sep (w @ sep # s) = w # splitOn sep s"
  by (induction w) auto

lemma splitOn_joinWith:
  "ws \<noteq> [] \<Longrightarrow> \<forall>w \<in> set ws. sep \<notin> set w \<Longrightarrow> splitOn sep (joinWith sep ws) = ws"
  by (induction sep ws rule: joinWith.induct) (auto simp: splitOn_word splitOn_append)

lemma le_bytes_le_nat: "length bs = k \<Longrightarrow> le_bytes k (le_nat bs) = bs"
  using be_bytes_be_nat [of "rev bs"] by (simp add: le_bytes_def le_nat_def)

lemma ipv4Parse_range:
  assumes "ipv4Parse bs = Some (a, n)"
  shows "ipv4Valid a"
proof -
  let ?q = "take 4 bs" and ?w = "map (\<lambda>b. showNum 3 10 (unat b)) (take 4 bs)"
  from assms have l: "6 \<le> length bs"
    and a: "a = \<lparr>host = joinWith CHR ''.'' ?w, port = le_nat (take 2 (drop 4 bs))\<rparr>"
    by (auto simp: ipv4Parse_def split: if_splits)
  have u: "unat (b :: byte) < 256" for b
    using unsigned_less [of b] by simp
  have "splitOn CHR ''.'' (host a) = ?w"
    using l showNum_byte(2) [OF u] by (auto simp: a intro!: splitOn_joinWith)
  then have "ipv4Wire a = ?q @ take 2 (drop 4 bs)"
    using l showNum_byte(1) [OF u] by (simp add: ipv4Wire_def comp_def a le_bytes_le_nat)
  also have "\<dots> = take 6 bs"
    using take_add [of 4 2 bs] by simp
  finally have w: "ipv4Wire a = take 6 bs" .
  then show ?thesis
    using l ipv4Parse_append [of "take 6 bs" "drop 6 bs"] assms
    by (auto simp: ipv4Valid_def ipv4Parse_def split: if_splits)
qed

interpretation refd: dht_decoders refC refW
proof (intro dht_decoders.intro compact_ranges.intro compact_ranges_axioms.intro)
  show "compact_encoding refC refW" by (rule ref.compact_encoding_axioms)
  show "ranges (decode (c_uint refC)) v_uint"
    unfolding refC_def compact.simps refUint_def by (rule refCodec_ranges) (rule uintParse_range)
  show "ranges (decode (c_buffer refC)) (\<lambda>b. v_buffer b \<and> b \<noteq> Some [])"
    unfolding refC_def compact.simps
    by (rule refCodec_ranges)
      (auto simp: bufferParse_def v_buffer_def bytesOf_def v_uint_def split: option.splits if_splits
        dest!: uintParse_range)
  show "ranges (decode (c_fixed32 refC)) (\<lambda>b. length b = 32)"
    unfolding refC_def compact.simps by (rule refCodec_ranges) (auto simp: fixedParse_def split: if_splits)
  show "ranges (decode (c_fixed64 refC)) (\<lambda>b. length b = 64)"
    unfolding refC_def compact.simps by (rule refCodec_ranges) (auto simp: fixedParse_def split: if_splits)
  show "ranges (decode (c_ipv4Address refC)) (v_ipv4 refW)"
    unfolding refC_def refW_def compact.simps wires.simps
    by (rule refCodec_ranges) (rule ipv4Parse_range)
  show "array_ranges (c_arrayAddress refC)"
    by (simp add: refC_def refArray_ranges)
qed

end
