(* ===== verification/DHT_Store_Laws.thy ===== *)
theory DHT_Store_Laws
  imports DHT_Persistent Message_Ranges
begin

text \<open>
  What the store relies on, as contracts: a cache returns what was last set under a key or nothing
  (entries may be dropped at any time, but not by the call that sets them), a record cache keeps at most
  one record per topic and key, the last one that was added, the codec helpers run the codecs on a fresh state. The invariant of the store and its preservation
  by every handler are proved in the locale that collects them.
\<close>

section \<open>Caches\<close>

lemma map_le_Some: "m \<subseteq>\<^sub>m n \<Longrightarrow> m x = Some y \<Longrightarrow> n x = Some y"
  by (metis domI map_le_def)

locale cache_laws =
  fixes A :: "('c, 'v) cache"
  assumes cache_set: "ca_get A (ca_set A c k v) \<subseteq>\<^sub>m (ca_get A c)(k \<mapsto> v)"
    and cache_set_visible: "ca_get A (ca_set A c k v) k = Some v"
    and cache_retain: "ca_get A (ca_retain A c k v) \<subseteq>\<^sub>m (ca_get A c)(k \<mapsto> v)"
    and cache_delete: "ca_get A (ca_delete A c k) \<subseteq>\<^sub>m (ca_get A c)(k := None)"
    and cache_destroy: "ca_get A (ca_destroy A c) \<subseteq>\<^sub>m ca_get A c"
begin

lemma set_cases:
  "ca_get A (ca_set A c k v) k' = Some u \<Longrightarrow> k' = k \<and> u = v \<or> ca_get A c k' = Some u"
  using map_le_Some [OF cache_set [of c k v], of k' u] by (auto split: if_splits)

lemma retain_cases:
  "ca_get A (ca_retain A c k v) k' = Some u \<Longrightarrow> k' = k \<and> u = v \<or> ca_get A c k' = Some u"
  using map_le_Some [OF cache_retain [of c k v], of k' u] by (auto split: if_splits)

lemma delete_cases: "ca_get A (ca_delete A c k) k' = Some u \<Longrightarrow> k' \<noteq> k \<and> ca_get A c k' = Some u"
  using map_le_Some [OF cache_delete [of c k], of k' u] by (auto split: if_splits)

lemma destroy_cases: "ca_get A (ca_destroy A c) k = Some u \<Longrightarrow> ca_get A c k = Some u"
  using map_le_Some [OF cache_destroy [of c], of k u] by simp

end

text \<open>\<open>ent r k i\<close> is the record kept for topic \<open>k\<close> and key \<open>i\<close>.\<close>

locale record_laws =
  fixes A :: "'r record_cache" and ent :: "'r \<Rightarrow> string \<Rightarrow> bytes \<rightharpoonup> bytes"
  assumes record_get: "set (rc_get A r k n) \<subseteq> ran (ent r k)" "length (rc_get A r k n) \<le> n"
    and record_add: "ent (rc_add A r k i v) k' \<subseteq>\<^sub>m (if k' = k then (ent r k)(i \<mapsto> v) else ent r k')"
    and record_add_visible: "ent (rc_add A r k i v) k i = Some v"
    and record_remove: "ent (rc_remove A r k i) k' \<subseteq>\<^sub>m (if k' = k then (ent r k)(i := None) else ent r k')"
    and record_destroy: "ent (rc_destroy A r) k \<subseteq>\<^sub>m ent r k"
begin

lemma add_cases:
  "ent (rc_add A r k i v) k' j = Some u \<Longrightarrow> k' = k \<and> j = i \<and> u = v \<or> ent r k' j = Some u"
  using map_le_Some [OF record_add [of r k i v k'], of j u] by (auto split: if_splits)

lemma remove_cases: "ent (rc_remove A r k i) k' j = Some u \<Longrightarrow> ent r k' j = Some u"
  using map_le_Some [OF record_remove [of r k i k'], of j u] by (auto split: if_splits)

lemma rdestroy_cases: "ent (rc_destroy A r) k j = Some u \<Longrightarrow> ent r k j = Some u"
  using map_le_Some [OF record_destroy [of r k], of j u] by simp

end

section \<open>Helpers\<close>

definition helpers_ok :: "cenc \<Rightarrow> helpers \<Rightarrow> bool" where
  "helpers_ok C H \<longleftrightarrow>
     encHandshake H = encodeUnslab (handshake C) \<and> decHandshake H = decodeBuffer (handshake C)
     \<and> encHolepunch H = encodeUnslab (holepunch C) \<and> decHolepunch H = decodeBuffer (holepunch C)
     \<and> encLookupReply H = encodeUnslab (lookupRawReply C) \<and> encPeer H = encodeUnslab (peer C)
     \<and> decAnnounce H = decodeBuffer (announce C) \<and> decUint H = decodeBuffer (c_uint C)
     \<and> encSignable H = encodeUnslab (mutableSignable C) \<and> decMutablePut H = decodeBuffer (mutablePutRequest C)
     \<and> decMutableGet H = decodeBuffer (mutableGetResponse C) \<and> decPlugin H = decodeBuffer (pluginRequest C)"

section \<open>The contract of the store's libraries\<close>

locale store_laws =
  fixes L :: "('f, 'r, 'b, 'e, 'v) store_lib"
    and ent :: "'r \<Rightarrow> string \<Rightarrow> bytes \<rightharpoonup> bytes"
    and W :: wires
  assumes forwards: "cache_laws (sl_forwards L)"
    and bumps: "cache_laws (sl_bumps L)"
    and refreshes: "cache_laws (sl_refreshes L)"
    and kept: "cache_laws (sl_values L)"
    and records: "record_laws (sl_records L) ent"
    and decoders: "dht_decoders (sl_cenc L) W"
    and helpers: "helpers_ok (sl_cenc L) (sl_helpers L)"

section \<open>The invariant\<close>

text \<open>The stored form of an announced peer: at most three relay addresses, keyed by its public key.\<close>

definition peerRecord :: "wires \<Rightarrow> bytes \<Rightarrow> bytes \<Rightarrow> bool" where
  "peerRecord W i rec \<longleftrightarrow>
     (\<exists>p. v_peer W p \<and> length (pe_relayAddresses p) \<le> 3 \<and> rec = w_peer W p \<and> pe_publicKey p = i)"

text \<open>The stored form of a mutable value: signed by the key whose hash it is stored under.\<close>

definition signedValue :: "('f, 'r, 'b, 'e, 'v) store_lib \<Rightarrow> wires \<Rightarrow> string \<Rightarrow> bytes \<Rightarrow> bool" where
  "signedValue L W k bs \<longleftrightarrow>
     (\<exists>pk g val. bs = w_mutableGetResponse W g \<and> v_mutableGetResponse W g \<and> mg_value g = Some val \<and> val \<noteq> []
        \<and> k = sl_hex L (sl_hash L pk) \<and> verifyMutable L (mg_signature g) (mg_seq g) (Some val) pk = Inr True)"

definition forwards_ok where
  "forwards_ok L W f \<longleftrightarrow> (\<forall>k s. ca_get (sl_forwards L) f k = Some s \<longrightarrow> fw_onpeerhandshake s = None \<longrightarrow>
     (\<exists>i. peerRecord W i (fw_record s) \<and> k = sl_hex L (sl_hash L i)))"

definition records_ok where
  "records_ok ent W r \<longleftrightarrow> (\<forall>k i rec. ent r k i = Some rec \<longrightarrow> peerRecord W i rec)"

definition refreshes_ok where
  "refreshes_ok L W e \<longleftrightarrow> (\<forall>k r. ca_get (sl_refreshes L) e k = Some r \<longrightarrow>
     (\<exists>i. peerRecord W i (rf_record r) \<and> (rf_announceSelf r \<longrightarrow> rf_k r = sl_hex L (sl_hash L i))))"

definition mutables_ok where
  "mutables_ok L W m \<longleftrightarrow> (\<forall>k bs. ca_get (sl_values L) m k = Some bs \<longrightarrow> signedValue L W k bs)"

definition immutables_ok where
  "immutables_ok L m \<longleftrightarrow> (\<forall>k bs. ca_get (sl_values L) m k = Some bs \<longrightarrow> k = sl_hex L (sl_hash L bs))"

definition store_ok where
  "store_ok L ent W st \<longleftrightarrow> forwards_ok L W (st_forwards st) \<and> records_ok ent W (st_records st)
     \<and> refreshes_ok L W (st_refreshes st) \<and> mutables_ok L W (st_mutables st)
     \<and> immutables_ok L (st_immutables st)"

lemma peerRecord_key: "peerRecord W i rec \<Longrightarrow> take 32 rec = i"
  by (auto simp: peerRecord_def w_peer_def v_peer_def)

context store_laws
begin

lemmas fwd_set = cache_laws.set_cases [OF forwards]
lemmas fwd_retain = cache_laws.retain_cases [OF forwards]
lemmas fwd_delete = cache_laws.delete_cases [OF forwards]
lemmas ref_set = cache_laws.set_cases [OF refreshes]
lemmas ref_delete = cache_laws.delete_cases [OF refreshes]
lemmas ref_destroy = cache_laws.destroy_cases [OF refreshes]
lemmas val_set = cache_laws.set_cases [OF kept]
lemmas val_destroy = cache_laws.destroy_cases [OF kept]
lemmas rec_add = record_laws.add_cases [OF records]
lemmas rec_remove = record_laws.remove_cases [OF records]
lemmas rec_destroy = record_laws.rdestroy_cases [OF records]

lemma messages: "dht_messages (sl_cenc L) W"
  using decoders dht_decoders_def compact_ranges_def dht_messages_def by blast

lemma records_ok_add:
  "records_ok ent W r \<Longrightarrow> peerRecord W i rec \<Longrightarrow> records_ok ent W (rc_add (sl_records L) r k i rec)"
  by (fastforce simp: records_ok_def dest: rec_add)

lemma records_ok_remove: "records_ok ent W r \<Longrightarrow> records_ok ent W (rc_remove (sl_records L) r k i)"
  by (fastforce simp: records_ok_def dest: rec_remove)

lemma forwards_ok_delete:
  "forwards_ok L W f \<Longrightarrow> forwards_ok L W (router_delete (sl_forwards L) hex t f)"
  by (fastforce simp: forwards_ok_def router_delete_def dest: fwd_delete)

lemma forwards_ok_announce:
  assumes "forwards_ok L W f" "peerRecord W i rec"
  shows "forwards_ok L W (router_set (sl_forwards L) hex (KeyString (sl_hex L (sl_hash L i))) (forwardOf relay rec) f)"
  using assms by (fastforce simp: forwards_ok_def router_set_def forwardOf_def dest!: fwd_set)

lemma forwards_ok_serve:
  "forwards_ok L W f \<Longrightarrow> fw_onpeerhandshake s \<noteq> None \<Longrightarrow> forwards_ok L W (router_set (sl_forwards L) hex t s f)"
  by (fastforce simp: forwards_ok_def router_set_def dest!: fwd_retain)

lemma refreshes_ok_set:
  assumes "refreshes_ok L W e" "peerRecord W i (rf_record r)"
    "rf_announceSelf r \<Longrightarrow> rf_k r = sl_hex L (sl_hash L i)"
  shows "refreshes_ok L W (ca_set (sl_refreshes L) e k r)"
  using assms by (fastforce simp: refreshes_ok_def dest!: ref_set)

lemma refreshes_ok_delete: "refreshes_ok L W e \<Longrightarrow> refreshes_ok L W (ca_delete (sl_refreshes L) e k)"
  by (fastforce simp: refreshes_ok_def dest: ref_delete)

end

end
