(* ===== verification/DHT_Store_Invariant.thy ===== *)
theory DHT_Store_Invariant
  imports DHT_Store_Laws
begin

text \<open>
  Every handler keeps the invariant of the store, and so does everything else that happens to it:
  entries dropped by the caches, a local server registering its forward, a local unannounce and the
  destruction of the store.
\<close>

lemma decodeOr_Some: "decodeOr dec v = Some x \<longleftrightarrow> (\<exists>bs. v = Some bs \<and> dec bs = Inr x)"
  by (auto simp: decodeOr_def split: option.splits sum.splits)

text \<open>
  The evidence an announcement or unannouncement carries: a signature of the announced peer's key over the
  target, the node's identifier, the token, the peer and the refresh value, in the namespace of the command \<open>c\<close>.
\<close>

definition signed_for :: "('f, 'r, 'b, 'e, 'v) store_lib \<Rightarrow> node \<Rightarrow> dht_request \<Rightarrow> announce_msg \<Rightarrow> command \<Rightarrow> bool" where
  "signed_for L nd req ann c \<longleftrightarrow>
     (\<exists>p target token i signable signature. an_peer ann = Some p \<and> rq_target req = Some target
        \<and> rq_token req = Some token \<and> nd_id nd = Some i
        \<and> annSignable L target token i ann (sl_ns L c) = Inr signable \<and> an_signature ann = Some signature
        \<and> sl_verify L signature signable (pe_publicKey p))"

context store_laws
begin

lemma store_okD:
  assumes "store_ok L ent W st"
  shows "forwards_ok L W (st_forwards st)" "records_ok ent W (st_records st)"
    "refreshes_ok L W (st_refreshes st)" "mutables_ok L W (st_mutables st)"
    "immutables_ok L (st_immutables st)"
  using assms by (simp_all add: store_ok_def)

lemma announceSelfAs_ok:
  assumes "store_ok L ent W st" "peerRecord W i rec"
  shows "store_ok L ent W (announceSelfAs L req (sl_hex L (sl_hash L i)) j rec st)"
  using assms by (simp add: store_ok_def announceSelfAs_def Let_def forwards_ok_announce records_ok_remove)

lemma onrefresh_ok:
  assumes "store_ok L ent W st"
  shows "store_ok L ent W (fst (onrefresh L token req st))"
proof (cases "ca_get (sl_refreshes L) (st_refreshes st) (sl_hex L (sl_hash L token))")
  case None
  with assms show ?thesis by (simp add: onrefresh_def)
next
  case (Some r)
  with assms obtain i where i: "peerRecord W i (rf_record r)"
    "rf_announceSelf r \<Longrightarrow> rf_k r = sl_hex L (sl_hash L i)"
    by (fastforce simp: store_ok_def refreshes_ok_def)
  define st1 where "st1 = (if rf_announceSelf r then announceSelfAs L req (rf_k r) (take 32 (rf_record r)) (rf_record r) st
      else st\<lparr>st_records := rc_add (sl_records L) (st_records st) (rf_k r) (take 32 (rf_record r)) (rf_record r)\<rparr>)"
  have "store_ok L ent W st1"
    using assms i announceSelfAs_ok [OF assms i(1)] peerRecord_key [OF i(1)]
    by (auto simp: st1_def store_ok_def records_ok_add)
  moreover have "fst (onrefresh L token req st) = st1\<lparr>st_refreshes :=
      ca_set (sl_refreshes L) (ca_delete (sl_refreshes L) (st_refreshes st1) (sl_hex L (sl_hash L token))) (sl_hex L token) r\<rparr>"
    using Some by (simp add: onrefresh_def st1_def Let_def)
  ultimately show ?thesis
    using i by (simp add: store_ok_def refreshes_ok_set refreshes_ok_delete)
qed

lemma bumpTopic_ok: "store_ok L ent W st \<Longrightarrow> store_ok L ent W (bumpTopic L nd k b st)"
  by (simp add: store_ok_def bumpTopic_def Let_def)

lemma storeAnnounce_ok:
  assumes "store_ok L ent W st" "peerRecord W (pe_publicKey p) rec"
  shows "store_ok L ent W (storeAnnounce L nd req target p ann rec st)"
proof -
  define self where "self \<longleftrightarrow> sl_hash L (pe_publicKey p) = target"
  define st1 where "st1 = (if self then announceSelfAs L req (sl_hex L target) (pe_publicKey p) rec st
     else (bumpTopic L nd (sl_hex L target) (an_bump ann) st)\<lparr>st_records :=
       rc_add (sl_records L) (st_records (bumpTopic L nd (sl_hex L target) (an_bump ann) st)) (sl_hex L target) (pe_publicKey p) rec\<rparr>)"
  have "store_ok L ent W st1"
  proof (cases self)
    case True
    then show ?thesis
      using announceSelfAs_ok [OF assms] by (simp add: st1_def self_def)
  next
    case False
    then show ?thesis
      using bumpTopic_ok [OF assms(1), of nd "sl_hex L target" "an_bump ann"] assms(2)
      by (simp add: st1_def store_ok_def records_ok_add)
  qed
  moreover have "storeAnnounce L nd req target p ann rec st = (case an_refresh ann of None \<Rightarrow> st1
      | Some refresh \<Rightarrow> st1\<lparr>st_refreshes := ca_set (sl_refreshes L) (st_refreshes st1) (sl_hex L refresh)
          \<lparr>rf_announceSelf = self, rf_k = sl_hex L target, rf_record = rec\<rparr>\<rparr>)"
    unfolding storeAnnounce_def st1_def self_def Let_def ..
  ultimately show ?thesis
    using assms(2)
    by (auto simp: store_ok_def self_def split: option.split intro!: refreshes_ok_set [where i = "pe_publicKey p"])
qed

lemma announced_record:
  assumes "v_peer W p" "encodeUnslab (peer (sl_cenc L)) (trimRelays p) = Inr rec"
  shows "peerRecord W (pe_publicKey (trimRelays p)) rec"
proof -
  have v: "v_peer W (trimRelays p)"
    using assms(1) by (auto simp: trimRelays_def v_peer_def v_array_def list_all_iff dest: in_set_takeD)
  then have "rec = w_peer W (trimRelays p)"
    using assms(2) wire_writer.encodes [OF wire_codec.axioms(1) [OF dht_messages.peer_codec [OF messages]]]
    by simp
  with v show ?thesis
    by (auto simp: peerRecord_def trimRelays_def)
qed

lemma decoded_announce:
  assumes "decodeOr (decAnnounce (sl_helpers L)) v = Some ann"
  shows "v_announce W ann"
  using assms helpers ranges_decodeBuffer [OF dht_decoders.announce_range [OF decoders]]
  by (auto simp: decodeOr_Some helpers_ok_def)

lemma decoded_put:
  assumes "decodeOr (decMutablePut (sl_helpers L)) v = Some p"
  shows "v_mutablePutRequest W p" "mp_value p \<noteq> Some []"
  using assms helpers ranges_decodeBuffer [OF dht_decoders.mutablePut_range [OF decoders]]
  by (auto simp: decodeOr_Some helpers_ok_def)

text \<open>An announcement either leaves the store alone, refreshes an entry or stores a signed peer.\<close>

lemma onannounce_cases:
  obtains (same) "fst (onannounce L nd req st) = st"
  | (refresh) ann refresh where "fst (onannounce L nd req st) = fst (onrefresh L refresh req st)"
      "decodeOr (decAnnounce (sl_helpers L)) (rq_value req) = Some ann" "rq_token req \<noteq> None"
      "an_refresh ann = Some refresh" "an_peer ann = None"
      "ca_get (sl_refreshes L) (st_refreshes st) (sl_hex L (sl_hash L refresh)) \<noteq> None"
  | (store) target token i ann p signature signable rec
      where "fst (onannounce L nd req st) = storeAnnounce L nd req target (trimRelays p) ann rec st"
      "rq_target req = Some target" "rq_token req = Some token" "nd_id nd = Some i"
      "decodeOr (decAnnounce (sl_helpers L)) (rq_value req) = Some ann" "an_peer ann = Some p"
      "annSignable L target token i ann (sl_ns L ANNOUNCE) = Inr signable" "an_signature ann = Some signature"
      "sl_verify L signature signable (pe_publicKey p)"
      "encodeUnslab (peer (sl_cenc L)) (trimRelays p) = Inr rec"
proof -
  show thesis
  proof (cases "rq_target req = None \<or> rq_token req = None \<or> nd_id nd = None
      \<or> decodeOr (decAnnounce (sl_helpers L)) (rq_value req) = None")
    case True
    then show thesis
      by (intro same) (auto simp: onannounce_def split: option.split)
  next
    case False
    then obtain target token i ann where eqs: "rq_target req = Some target" "rq_token req = Some token"
      "nd_id nd = Some i" "decodeOr (decAnnounce (sl_helpers L)) (rq_value req) = Some ann"
      by auto
    show thesis
    proof (cases "an_peer ann")
      case None
      show thesis
      proof (cases "an_refresh ann")
        case None
        with \<open>an_peer ann = None\<close> eqs show thesis
          by (intro same) (simp add: onannounce_def)
      next
        case (Some refresh)
        with None eqs have on: "onannounce L nd req st = onrefresh L refresh req st"
          by (simp add: onannounce_def)
        show thesis
        proof (cases "ca_get (sl_refreshes L) (st_refreshes st) (sl_hex L (sl_hash L refresh))")
          case None
          with on show thesis by (intro same) (simp add: onrefresh_def)
        next
          case (Some r)
          with on eqs \<open>an_refresh ann = Some refresh\<close> \<open>an_peer ann = None\<close> show thesis by (intro refresh [of refresh ann]) simp_all
        qed
      qed
    next
      case (Some p)
      show thesis
      proof (cases "\<exists>signable signature rec. annSignable L target token i ann (sl_ns L ANNOUNCE) = Inr signable
          \<and> an_signature ann = Some signature \<and> sl_verify L signature signable (pe_publicKey p)
          \<and> encodeUnslab (peer (sl_cenc L)) (trimRelays p) = Inr rec")
        case True
        then obtain signable signature rec where h:
          "annSignable L target token i ann (sl_ns L ANNOUNCE) = Inr signable" "an_signature ann = Some signature"
          "sl_verify L signature signable (pe_publicKey p)" "encodeUnslab (peer (sl_cenc L)) (trimRelays p) = Inr rec"
          by blast
        then have "fst (onannounce L nd req st) = storeAnnounce L nd req target (trimRelays p) ann rec st"
          using Some eqs by (simp add: onannounce_def)
        from store [OF this eqs Some h] show thesis .
      next
        case False
        then have "fst (onannounce L nd req st) = st"
          using Some eqs by (auto simp: onannounce_def split: sum.split option.split)
        then show thesis by (rule same)
      qed
    qed
  qed
qed

lemma onannounce_ok:
  assumes "store_ok L ent W st"
  shows "store_ok L ent W (fst (onannounce L nd req st))"
proof (cases rule: onannounce_cases [of nd req st])
  case same
  with assms show ?thesis by simp
next
  case (refresh ann refresh)
  with onrefresh_ok [OF assms] show ?thesis by simp
next
  case (store target token i ann p signature signable rec)
  have "v_peer W p"
    using decoded_announce [OF store(5)] store(6) by (simp add: v_announce_def)
  from announced_record [OF this store(10)] show ?thesis
    unfolding store(1) by (rule storeAnnounce_ok [OF assms])
qed

lemma unannounce_ok: "store_ok L ent W st \<Longrightarrow> store_ok L ent W (unannounce L target pk st)"
  by (simp add: store_ok_def unannounce_def Let_def forwards_ok_delete records_ok_remove)

lemma onunannounce_cases:
  "fst (onunannounce L nd req st) = st \<or>
   (\<exists>target token i unann p signature signable. fst (onunannounce L nd req st) = unannounce L target (pe_publicKey p) st
      \<and> rq_target req = Some target \<and> rq_token req = Some token \<and> nd_id nd = Some i
      \<and> decodeOr (decAnnounce (sl_helpers L)) (rq_value req) = Some unann
      \<and> an_peer unann = Some p \<and> an_signature unann = Some signature
      \<and> annSignable L target token i unann (sl_ns L UNANNOUNCE) = Inr signable
      \<and> sl_verify L signature signable (pe_publicKey p))"
  unfolding onunannounce_def by (auto split: option.split sum.split)

lemma onunannounce_ok:
  "store_ok L ent W st \<Longrightarrow> store_ok L ent W (fst (onunannounce L nd req st))"
  using onunannounce_cases [of nd req st] unannounce_ok by metis

lemma onmutableput_cases:
  obtains (same) "fst (onmutableput L req st) = st"
  | (store) p val k g bs where "decodeOr (decMutablePut (sl_helpers L)) (rq_value req) = Some p"
      "mp_value p = Some val" "k = sl_hex L (sl_hash L (mp_publicKey p))"
      "verifyMutable L (mp_signature p) (mp_seq p) (Some val) (mp_publicKey p) = Inr True"
      "g = \<lparr>mg_seq = mp_seq p, mg_value = Some val, mg_signature = mp_signature p\<rparr>"
      "encodeUnslab (mutableGetResponse (sl_cenc L)) g = Inr bs"
      "fst (onmutableput L req st) = st\<lparr>st_mutables := ca_set (sl_values L) (st_mutables st) k bs\<rparr>"
      "\<And>old. ca_get (sl_values L) (st_mutables st) k = Some old \<Longrightarrow>
         \<exists>existing. decMutableGet (sl_helpers L) old = Inr existing \<and> seqConflict existing (mp_seq p) val = None"
proof -
  show thesis
  proof (cases "fst (onmutableput L req st) = st")
    case True
    then show thesis by (rule same)
  next
    case False
    then obtain target token p where t: "rq_target req = Some target" "rq_token req = Some token"
      "decodeOr (decMutablePut (sl_helpers L)) (rq_value req) = Some p"
      by (auto simp: onmutableput_def split: option.splits)
    define k where "k = sl_hex L (sl_hash L (mp_publicKey p))"
    from False t have h: "sl_hash L (mp_publicKey p) = target"
      by (auto simp: onmutableput_def Let_def split: if_splits)
    from False t h obtain val where val: "mp_value p = Some val"
      by (cases "mp_value p") (auto simp: onmutableput_def Let_def)
    define g where "g = \<lparr>mg_seq = mp_seq p, mg_value = Some val, mg_signature = mp_signature p\<rparr>"
    from False t h val have v: "verifyMutable L (mp_signature p) (mp_seq p) (Some val) (mp_publicKey p) = Inr True"
      by (cases "verifyMutable L (mp_signature p) (mp_seq p) (Some val) (mp_publicKey p)")
        (auto simp: onmutableput_def Let_def split: if_splits)
    have eq: "onmutableput L req st = (case ca_get (sl_values L) (st_mutables st) k of
        None \<Rightarrow> storeMutable L k g st
      | Some local \<Rightarrow> (case decMutableGet (sl_helpers L) local of
          Inl e \<Rightarrow> (st, Inl e)
        | Inr existing \<Rightarrow> (case seqConflict existing (mp_seq p) val of
            Some failure \<Rightarrow> (st, Inr [ErrorReply (ERROR failure)])
          | None \<Rightarrow> storeMutable L k g st)))"
      unfolding k_def g_def h using t h val v by (simp add: onmutableput_def Let_def)
    with False have st: "onmutableput L req st = storeMutable L k g st"
      and old: "\<And>old. ca_get (sl_values L) (st_mutables st) k = Some old \<Longrightarrow>
         \<exists>existing. decMutableGet (sl_helpers L) old = Inr existing \<and> seqConflict existing (mp_seq p) val = None"
      by (auto split: option.splits sum.splits)
    from False st obtain bs where bs: "encodeUnslab (mutableGetResponse (sl_cenc L)) g = Inr bs"
      by (cases "encodeUnslab (mutableGetResponse (sl_cenc L)) g") (auto simp: storeMutable_def)
    then have "fst (onmutableput L req st) = st\<lparr>st_mutables := ca_set (sl_values L) (st_mutables st) k bs\<rparr>"
      by (simp add: st storeMutable_def)
    from store [OF t(3) val k_def v g_def bs this old] show thesis .
  qed
qed

lemma stored_response:
  assumes "decodeOr (decMutablePut (sl_helpers L)) v = Some p" "mp_value p = Some val"
    and "g = \<lparr>mg_seq = mp_seq p, mg_value = Some val, mg_signature = mp_signature p\<rparr>"
    and "encodeUnslab (mutableGetResponse (sl_cenc L)) g = Inr bs"
  shows "v_mutableGetResponse W g" "bs = w_mutableGetResponse W g" "val \<noteq> []"
proof -
  show v: "v_mutableGetResponse W g"
    using decoded_put [OF assms(1)] assms(2,3)
    by (simp add: v_mutablePutRequest_def v_mutableGetResponse_def)
  show "bs = w_mutableGetResponse W g"
    using assms(4) v
      wire_writer.encodes [OF wire_codec.axioms(1) [OF dht_messages.mutableGetResponse_codec [OF messages]]]
    by simp
  show "val \<noteq> []"
    using decoded_put [OF assms(1)] assms(2) by auto
qed

lemma mutables_ok_set:
  assumes "mutables_ok L W m" "signedValue L W k bs"
  shows "mutables_ok L W (ca_set (sl_values L) m k bs)"
  using assms by (fastforce simp: mutables_ok_def dest!: val_set)

lemma onmutableput_ok:
  assumes "store_ok L ent W st"
  shows "store_ok L ent W (fst (onmutableput L req st))"
proof (cases rule: onmutableput_cases [of req st])
  case same
  with assms show ?thesis by simp
next
  case (store p val k g bs)
  have "signedValue L W k bs"
    using stored_response [OF store(1,2,5,6)] store(3,4,5) unfolding signedValue_def
    by (intro exI [of _ "mp_publicKey p"] exI [of _ g] exI [of _ val]) simp
  with assms show ?thesis
    by (simp add: store(7) store_ok_def mutables_ok_set)
qed

lemma onimmutableput_ok:
  assumes "store_ok L ent W st"
  shows "store_ok L ent W (fst (onimmutableput L req st))"
proof -
  have "immutables_ok L (ca_set (sl_values L) (st_immutables st) (sl_hex L (sl_hash L v)) v)" for v
    using assms by (fastforce simp: store_ok_def immutables_ok_def dest!: val_set)
  with assms show ?thesis
    by (auto simp: store_ok_def onimmutableput_def Let_def split: option.splits)
qed

lemma reads_keep:
  "fst (onlookup L req st) = st" "fst (onfindpeer L req st) = st" "fst (onmutableget L req st) = st"
  "fst (onimmutableget L req st) = st" "fst (onplugin L nd req st) = st"
  by (simp_all add: onlookup_def onfindpeer_def onmutableget_def onimmutableget_def onplugin_def Let_def
    split: option.split sum.split prod.split)

lemma onrequest_state:
  "fst (onrequest L nd req st) \<in> {st, fst (onannounce L nd req st), fst (onunannounce L nd req st),
     fst (onmutableput L req st), fst (onimmutableput L req st)}"
  by (auto simp: onrequest_def handlerOf_def routed_def case_prod_unfold Let_def reads_keep)

text \<open>The records and the forwards change with announcements and unannouncements only.\<close>

lemma onrequest_announcements:
  assumes "st_records (fst (onrequest L nd req st)) \<noteq> st_records st \<or> st_forwards (fst (onrequest L nd req st)) \<noteq> st_forwards st"
  shows "rq_command req = COMMANDS ANNOUNCE \<and> fst (onrequest L nd req st) = fst (onannounce L nd req st)
    \<or> rq_command req = COMMANDS UNANNOUNCE \<and> fst (onrequest L nd req st) = fst (onunannounce L nd req st)"
proof -
  have "st_records (fst (onmutableput L req st)) = st_records st" "st_forwards (fst (onmutableput L req st)) = st_forwards st"
    by (cases rule: onmutableput_cases [of req st]; simp)+
  moreover have "st_records (fst (onimmutableput L req st)) = st_records st" "st_forwards (fst (onimmutableput L req st)) = st_forwards st"
    by (simp_all add: onimmutableput_def Let_def split: option.split)
  ultimately show ?thesis
    using assms by (auto simp: onrequest_def handlerOf_def routed_def case_prod_unfold Let_def reads_keep split: if_splits)
qed

lemma announce_mutables:
  "st_mutables (fst (onannounce L nd req st)) = st_mutables st"
  "st_mutables (fst (onunannounce L nd req st)) = st_mutables st"
proof -
  show "st_mutables (fst (onannounce L nd req st)) = st_mutables st"
    by (cases rule: onannounce_cases [of nd req st])
      (auto simp: onrefresh_def announceSelfAs_def storeAnnounce_def bumpTopic_def Let_def split: option.split)
  show "st_mutables (fst (onunannounce L nd req st)) = st_mutables st"
    using onunannounce_cases [of nd req st] by (auto simp: unannounce_def Let_def)
qed

lemma onrequest_ok:
  "store_ok L ent W st \<Longrightarrow> store_ok L ent W (fst (onrequest L nd req st))"
  using onrequest_state [of nd req st] onannounce_ok onunannounce_ok onmutableput_ok onimmutableput_ok
  by (metis empty_iff insert_iff)

end

section \<open>Everything that happens to a store\<close>

text \<open>Caches may drop entries at any time.\<close>

definition forgets where
  "forgets L ent st st' \<longleftrightarrow>
     ca_get (sl_forwards L) (st_forwards st') \<subseteq>\<^sub>m ca_get (sl_forwards L) (st_forwards st)
     \<and> (\<forall>k. ent (st_records st') k \<subseteq>\<^sub>m ent (st_records st) k)
     \<and> ca_get (sl_bumps L) (st_bumps st') \<subseteq>\<^sub>m ca_get (sl_bumps L) (st_bumps st)
     \<and> ca_get (sl_refreshes L) (st_refreshes st') \<subseteq>\<^sub>m ca_get (sl_refreshes L) (st_refreshes st)
     \<and> ca_get (sl_values L) (st_mutables st') \<subseteq>\<^sub>m ca_get (sl_values L) (st_mutables st)
     \<and> ca_get (sl_values L) (st_immutables st') \<subseteq>\<^sub>m ca_get (sl_values L) (st_immutables st)"

text \<open>
  One step: a request, whoever sent it and whatever the clock and the plugins; a local server that
  listens or stops; a local unannounce; the destruction of the store; entries expiring.
\<close>

inductive dht_step for L ent where
  request: "dht_step L ent st (fst (onrequest L nd req st))"
| serve: "fw_onpeerhandshake f \<noteq> None \<Longrightarrow>
    dht_step L ent st (st\<lparr>st_forwards := router_set (sl_forwards L) (sl_hex L) t f (st_forwards st)\<rparr>)"
| stop: "dht_step L ent st (st\<lparr>st_forwards := router_delete (sl_forwards L) (sl_hex L) t (st_forwards st)\<rparr>)"
| local_unannounce: "dht_step L ent st (unannounce L target pk st)"
| destroy: "dht_step L ent st (persistent_destroy L st)"
| expire: "forgets L ent st st' \<Longrightarrow> dht_step L ent st st'"

definition empty_store where
  "empty_store L ent st \<longleftrightarrow>
     ca_get (sl_forwards L) (st_forwards st) = Map.empty \<and> (\<forall>k. ent (st_records st) k = Map.empty)
     \<and> ca_get (sl_bumps L) (st_bumps st) = Map.empty \<and> ca_get (sl_refreshes L) (st_refreshes st) = Map.empty
     \<and> ca_get (sl_values L) (st_mutables st) = Map.empty \<and> ca_get (sl_values L) (st_immutables st) = Map.empty"

context store_laws
begin

lemma forgets_ok:
  assumes "store_ok L ent W st" "forgets L ent st st'"
  shows "store_ok L ent W st'"
  unfolding store_ok_def
proof (intro conjI)
  note f = assms(2) [unfolded forgets_def] and ok = store_okD [OF assms(1)]
  from f have keep: "\<And>k s. ca_get (sl_forwards L) (st_forwards st') k = Some s \<Longrightarrow> ca_get (sl_forwards L) (st_forwards st) k = Some s"
    "\<And>k i x. ent (st_records st') k i = Some x \<Longrightarrow> ent (st_records st) k i = Some x"
    "\<And>k r. ca_get (sl_refreshes L) (st_refreshes st') k = Some r \<Longrightarrow> ca_get (sl_refreshes L) (st_refreshes st) k = Some r"
    "\<And>k b. ca_get (sl_values L) (st_mutables st') k = Some b \<Longrightarrow> ca_get (sl_values L) (st_mutables st) k = Some b"
    "\<And>k b. ca_get (sl_values L) (st_immutables st') k = Some b \<Longrightarrow> ca_get (sl_values L) (st_immutables st) k = Some b"
    by (blast intro: map_le_Some)+
  show "forwards_ok L W (st_forwards st')"
    using ok(1) keep(1) unfolding forwards_ok_def by blast
  show "records_ok ent W (st_records st')"
    using ok(2) keep(2) unfolding records_ok_def by blast
  show "refreshes_ok L W (st_refreshes st')"
    using ok(3) keep(3) unfolding refreshes_ok_def by blast
  show "mutables_ok L W (st_mutables st')"
    using ok(4) keep(4) unfolding mutables_ok_def by blast
  show "immutables_ok L (st_immutables st')"
    using ok(5) keep(5) unfolding immutables_ok_def by blast
qed

lemma destroy_ok: "store_ok L ent W st \<Longrightarrow> store_ok L ent W (persistent_destroy L st)"
  unfolding store_ok_def persistent_destroy_def records_ok_def refreshes_ok_def mutables_ok_def immutables_ok_def
  by (auto dest: ref_destroy val_destroy rec_destroy)

lemma step_ok: "dht_step L ent st st' \<Longrightarrow> store_ok L ent W st \<Longrightarrow> store_ok L ent W st'"
proof (induction rule: dht_step.induct)
  case (serve f st t)
  then show ?case
    using forwards_ok_serve [of "st_forwards st" f] by (simp add: store_ok_def)
next
  case (stop st t)
  then show ?case
    using forwards_ok_delete [of "st_forwards st"] by (simp add: store_ok_def)
qed (auto intro: onrequest_ok unannounce_ok destroy_ok forgets_ok)

lemma reachable_ok:
  assumes "empty_store L ent st0" "(dht_step L ent)\<^sup>*\<^sup>* st0 st"
  shows "store_ok L ent W st"
  using assms(2)
proof (induction rule: rtranclp_induct)
  case base
  from assms(1) show ?case
    by (simp add: empty_store_def store_ok_def forwards_ok_def records_ok_def refreshes_ok_def
      mutables_ok_def immutables_ok_def)
qed (rule step_ok)

text \<open>What a stored mutable value decodes to.\<close>

lemma signedValue_decodes:
  assumes "signedValue L W k bs"
  shows "\<exists>pk g val. decodeBuffer (mutableGetResponse (sl_cenc L)) bs = Inr g \<and> mg_value g = Some val
    \<and> k = sl_hex L (sl_hash L pk) \<and> verifyMutable L (mg_signature g) (mg_seq g) (Some val) pk = Inr True"
proof -
  from assms obtain pk g val where g: "bs = w_mutableGetResponse W g" "v_mutableGetResponse W g"
    "mg_value g = Some val" "val \<noteq> []" "k = sl_hex L (sl_hash L pk)"
    "verifyMutable L (mg_signature g) (mg_seq g) (Some val) pk = Inr True"
    unfolding signedValue_def by blast
  have "decodeBuffer (mutableGetResponse (sl_cenc L)) bs = Inr (n_mutableGetResponse g)"
    using wire_reader.decodes [OF wire_codec.axioms(2) [OF dht_messages.mutableGetResponse_codec [OF messages]] g(2), of "[]"]
    by (simp add: g(1))
  moreover have "n_mutableGetResponse g = g"
    using g(3,4) by (cases g) (simp add: n_mutableGetResponse_def n_buffer_def bytesOf_def)
  ultimately show ?thesis
    using g(3,5,6) by auto
qed

lemma peerRecord_decodes:
  assumes "peerRecord W i rec"
  shows "\<exists>p. decodeBuffer (peer (sl_cenc L)) rec = Inr p \<and> pe_publicKey p = i \<and> length (pe_relayAddresses p) \<le> 3"
proof -
  from assms obtain p where p: "v_peer W p" "length (pe_relayAddresses p) \<le> 3" "rec = w_peer W p" "pe_publicKey p = i"
    unfolding peerRecord_def by blast
  have "decodeBuffer (peer (sl_cenc L)) rec = Inr (n_peer p)"
    using wire_reader.decodes [OF wire_codec.axioms(2) [OF dht_messages.peer_codec [OF messages]] p(1), of "[]"]
    by (simp add: p(3))
  with p(2,4) show ?thesis
    by (auto simp: n_peer_def)
qed

text \<open>A put that changes what a key holds raises its sequence number or keeps its value.\<close>

lemma put_monotone:
  assumes ok: "store_ok L ent W st"
    and old: "ca_get (sl_values L) (st_mutables st) k = Some old"
    and new: "ca_get (sl_values L) (st_mutables (fst (onmutableput L req st))) k = Some new"
  shows "\<exists>g h. decodeBuffer (mutableGetResponse (sl_cenc L)) old = Inr g
    \<and> decodeBuffer (mutableGetResponse (sl_cenc L)) new = Inr h
    \<and> mg_seq g \<le> mg_seq h \<and> (mg_seq g = mg_seq h \<longrightarrow> mg_value g = mg_value h)"
proof -
  let ?dec = "decodeBuffer (mutableGetResponse (sl_cenc L))"
  from ok old obtain g val where g: "?dec old = Inr g" "mg_value g = Some val"
    using signedValue_decodes unfolding store_ok_def mutables_ok_def by blast
  from onmutableput_ok [OF ok] new obtain h where h: "?dec new = Inr h"
    using signedValue_decodes unfolding store_ok_def mutables_ok_def by blast
  show ?thesis
  proof (cases rule: onmutableput_cases [of req st])
    case same
    with old new g show ?thesis by auto
  next
    case (store p v k' r bs)
    from new [unfolded store(7)] consider "k = k'" "new = bs" | "new = old"
      using val_set [of "st_mutables st" k' bs k new] old by auto
    then show ?thesis
    proof cases
      case 1
      with store(8) old obtain e where e: "decMutableGet (sl_helpers L) old = Inr e" "seqConflict e (mp_seq p) v = None"
        by blast
      have "e = g"
        using e(1) g(1) helpers by (simp add: helpers_ok_def)
      moreover have "h = n_mutableGetResponse r"
        using wire_reader.decodes [OF wire_codec.axioms(2) [OF dht_messages.mutableGetResponse_codec [OF messages]]
            stored_response(1) [OF store(1,2,5,6)], of "[]"] stored_response(2) [OF store(1,2,5,6)] h 1
        by simp
      ultimately show ?thesis
        using g h e(2) store(5) stored_response(3) [OF store(1,2,5,6)]
        by (auto simp: seqConflict_def n_mutableGetResponse_def n_buffer_def bytesOf_def split: if_splits)
    next
      case 2
      with g show ?thesis by blast
    qed
  qed
qed

text \<open>Every other step leaves the mutable values as they are or drops some.\<close>

lemma step_mutables:
  assumes "dht_step L ent st st'"
  shows "ca_get (sl_values L) (st_mutables st') \<subseteq>\<^sub>m ca_get (sl_values L) (st_mutables st)
    \<or> (\<exists>req. st' = fst (onmutableput L req st))"
  using assms
proof cases
  case (request nd req)
  have "st_mutables (fst (onimmutableput L req st)) = st_mutables st"
    by (simp add: onimmutableput_def Let_def split: option.split)
  with request announce_mutables [of nd req st] onrequest_state [of nd req st]
  have "st' = fst (onmutableput L req st) \<or> st_mutables st' = st_mutables st"
    by auto
  then show ?thesis by auto
next
  case destroy
  then show ?thesis
    using cache_laws.cache_destroy [OF kept] by (simp add: persistent_destroy_def)
next
  case expire
  then show ?thesis by (simp add: forgets_def)
qed (simp_all add: unannounce_def Let_def)

text \<open>A put that passes every check is stored as the response a get sends.\<close>

lemma accepted_put:
  assumes "rq_target req = Some (sl_hash L (mp_publicKey p))" "rq_token req = Some token" "rq_value req = Some v"
    and dec: "decodeBuffer (mutablePutRequest (sl_cenc L)) v = Inr p"
    and val: "mp_value p = Some val"
    and ver: "verifyMutable L (mp_signature p) (mp_seq p) (Some val) (mp_publicKey p) = Inr True"
    and old: "\<And>old. ca_get (sl_values L) (st_mutables st) (sl_hex L (sl_hash L (mp_publicKey p))) = Some old \<Longrightarrow>
         \<exists>e. decodeBuffer (mutableGetResponse (sl_cenc L)) old = Inr e \<and> seqConflict e (mp_seq p) val = None"
    and g: "g = \<lparr>mg_seq = mp_seq p, mg_value = Some val, mg_signature = mp_signature p\<rparr>"
  shows "onmutableput L req st = (st\<lparr>st_mutables := ca_set (sl_values L) (st_mutables st)
      (sl_hex L (sl_hash L (mp_publicKey p))) (w_mutableGetResponse W g)\<rparr>, Inr [Reply None noOpts])"
    and "v_mutableGetResponse W g" "val \<noteq> []"
proof -
  have d: "decodeOr (decMutablePut (sl_helpers L)) (rq_value req) = Some p"
    using assms(3) dec helpers by (simp add: decodeOr_Some helpers_ok_def)
  show v: "v_mutableGetResponse W g" and "val \<noteq> []"
    using decoded_put [OF d] val g by (auto simp: v_mutablePutRequest_def v_mutableGetResponse_def)
  have "encodeUnslab (mutableGetResponse (sl_cenc L)) g = Inr (w_mutableGetResponse W g)"
    by (rule wire_writer.encodes [OF wire_codec.axioms(1) [OF dht_messages.mutableGetResponse_codec [OF messages]] v])
  then have st: "storeMutable L k g st = (st\<lparr>st_mutables := ca_set (sl_values L) (st_mutables st) k
      (w_mutableGetResponse W g)\<rparr>, Inr [Reply None noOpts])" for k
    by (simp add: storeMutable_def)
  have h: "decMutableGet (sl_helpers L) = decodeBuffer (mutableGetResponse (sl_cenc L))"
    using helpers by (simp add: helpers_ok_def)
  show "onmutableput L req st = (st\<lparr>st_mutables := ca_set (sl_values L) (st_mutables st)
      (sl_hex L (sl_hash L (mp_publicKey p))) (w_mutableGetResponse W g)\<rparr>, Inr [Reply None noOpts])"
    unfolding onmutableput_def using assms(1,2) d val ver old st [unfolded g]
    by (cases "ca_get (sl_values L) (st_mutables st) (sl_hex L (sl_hash L (mp_publicKey p)))")
      (auto simp: Let_def h g)
qed

lemma get_answer:
  assumes "ca_get (sl_values L) (st_mutables st) (sl_hex L target) = Some (w_mutableGetResponse W g)"
    and "v_mutableGetResponse W g" "rq_target req = Some target" "rq_value req = Some (w_uint W s)" "v_uint s"
  shows "onmutableget L req st = (st, Inr [Reply (if mg_seq g < s then None else Some (w_mutableGetResponse W g)) noOpts])"
proof -
  note u = wire_reader.decodes [OF wire_codec.axioms(2) [OF compact_encoding.uint [OF dht_messages.axioms [OF messages]]]]
  have "decUint (sl_helpers L) (w_uint W s) = Inr s"
    using u [OF assms(5), of "[]"] helpers by (simp add: helpers_ok_def)
  moreover have "decUint (sl_helpers L) (w_mutableGetResponse W g) = Inr (mg_seq g)"
    using u [of "mg_seq g"] assms(2) helpers by (simp add: helpers_ok_def w_mutableGetResponse_def v_mutableGetResponse_def)
  ultimately show ?thesis
    using assms(1,3,4) by (simp add: onmutableget_def)
qed

text \<open>What a request that changes the store through an announcement must carry.\<close>

lemma decoded_value:
  "decodeOr (decAnnounce (sl_helpers L)) v = Some ann \<Longrightarrow> decodeBuffer (announce (sl_cenc L)) (bytesOf v) = Inr ann"
  using helpers by (auto simp: decodeOr_Some helpers_ok_def bytesOf_def)

lemma announce_evidence:
  assumes "fst (onannounce L nd req st) \<noteq> st"
  shows "\<exists>ann. decodeBuffer (announce (sl_cenc L)) (bytesOf (rq_value req)) = Inr ann \<and> rq_token req \<noteq> None \<and>
    (signed_for L nd req ann ANNOUNCE
     \<or> an_peer ann = None \<and> (\<exists>refresh. an_refresh ann = Some refresh
        \<and> ca_get (sl_refreshes L) (st_refreshes st) (sl_hex L (sl_hash L refresh)) \<noteq> None))"
proof (cases rule: onannounce_cases [of nd req st])
  case same
  with assms show ?thesis by simp
next
  case (refresh ann refresh)
  from decoded_value [OF refresh(2)] refresh(3-6) show ?thesis by blast
next
  case (store target token i ann p signature signable rec)
  from store(2,3,4,6-9) have "signed_for L nd req ann ANNOUNCE" unfolding signed_for_def by blast
  with decoded_value [OF store(5)] store(3) show ?thesis by blast
qed

lemma unannounce_evidence:
  assumes "fst (onunannounce L nd req st) \<noteq> st"
  shows "\<exists>ann. decodeBuffer (announce (sl_cenc L)) (bytesOf (rq_value req)) = Inr ann \<and> rq_token req \<noteq> None
    \<and> signed_for L nd req ann UNANNOUNCE"
proof -
  from onunannounce_cases [of nd req st] assms obtain target token i unann p signature signable where
    u: "rq_target req = Some target" "rq_token req = Some token" "nd_id nd = Some i"
    "decodeOr (decAnnounce (sl_helpers L)) (rq_value req) = Some unann" "an_peer unann = Some p"
    "an_signature unann = Some signature" "annSignable L target token i unann (sl_ns L UNANNOUNCE) = Inr signable"
    "sl_verify L signature signable (pe_publicKey p)"
    by blast
  from u(1-3,5-8) have "signed_for L nd req unann UNANNOUNCE" unfolding signed_for_def by blast
  with decoded_value [OF u(4)] u(2) show ?thesis by blast
qed

text \<open>An announcement that passes every check is stored.\<close>

lemma accepted_announce:
  assumes "rq_target req = Some target" "rq_token req = Some token" "nd_id nd = Some i" "rq_value req = Some v"
    and dec: "decodeBuffer (announce (sl_cenc L)) v = Inr ann" and "an_peer ann = Some p"
    and "annSignable L target token i ann (sl_ns L ANNOUNCE) = Inr signable" "an_signature ann = Some signature"
    and "sl_verify L signature signable (pe_publicKey p)"
  shows "onannounce L nd req st = (storeAnnounce L nd req target (trimRelays p) ann (w_peer W (trimRelays p)) st,
      Inr [Reply None (quietOpts None None)])"
    and "v_peer W (trimRelays p)"
proof -
  have d: "decodeOr (decAnnounce (sl_helpers L)) (rq_value req) = Some ann"
    using assms(4) dec helpers by (simp add: decodeOr_Some helpers_ok_def)
  have "v_peer W p"
    using decoded_announce [OF d] assms(6) by (simp add: v_announce_def)
  then show v: "v_peer W (trimRelays p)"
    by (auto simp: trimRelays_def v_peer_def v_array_def list_all_iff dest: in_set_takeD)
  have "encodeUnslab (peer (sl_cenc L)) (trimRelays p) = Inr (w_peer W (trimRelays p))"
    by (rule wire_writer.encodes [OF wire_codec.axioms(1) [OF dht_messages.peer_codec [OF messages]] v])
  with assms d show "onannounce L nd req st = (storeAnnounce L nd req target (trimRelays p) ann (w_peer W (trimRelays p)) st,
      Inr [Reply None (quietOpts None None)])"
    by (simp add: onannounce_def)
qed

lemma self_announced:
  assumes "sl_hash L (pe_publicKey p) = target"
  shows "ca_get (sl_forwards L) (st_forwards (storeAnnounce L nd req target p ann rec st)) (sl_hex L target)
     = Some (forwardOf (rq_sender req) rec)"
  using assms cache_laws.cache_set_visible [OF forwards]
  by (simp add: storeAnnounce_def announceSelfAs_def router_set_def forwardOf_def Let_def split: option.split)

lemma refresh_stored:
  assumes "an_refresh ann = Some refresh"
  shows "ca_get (sl_refreshes L) (st_refreshes (storeAnnounce L nd req target p ann rec st)) (sl_hex L refresh)
     = Some \<lparr>rf_announceSelf = (sl_hash L (pe_publicKey p) = target), rf_k = sl_hex L target, rf_record = rec\<rparr>"
  using assms cache_laws.cache_set_visible [OF refreshes] by (simp add: storeAnnounce_def Let_def)

text \<open>A refresh with the preimage of a stored token renews the announcement and replaces the token.\<close>

lemma refresh_accepted:
  assumes "ca_get (sl_refreshes L) (st_refreshes st) (sl_hex L (sl_hash L token)) = Some r"
  shows "snd (onrefresh L token req st) = Inr [Reply None (quietOpts None None)]"
    and "ca_get (sl_refreshes L) (st_refreshes (fst (onrefresh L token req st))) (sl_hex L token) = Some r"
    and "rf_announceSelf r \<Longrightarrow>
      ca_get (sl_forwards L) (st_forwards (fst (onrefresh L token req st))) (rf_k r) = Some (forwardOf (rq_sender req) (rf_record r))"
    and "\<not> rf_announceSelf r \<Longrightarrow>
      ent (st_records (fst (onrefresh L token req st))) (rf_k r) (take 32 (rf_record r)) = Some (rf_record r)"
  using assms cache_laws.cache_set_visible [OF refreshes] cache_laws.cache_set_visible [OF forwards]
    record_laws.record_add_visible [OF records]
  by (simp_all add: onrefresh_def Let_def announceSelfAs_def router_set_def forwardOf_def)

end

section \<open>Refresh requests\<close>

text \<open>A request that carries a refresh token and no peer.\<close>

definition carries_token :: "('f, 'r, 'b, 'e, 'v) store_lib \<Rightarrow> node \<Rightarrow> dht_request \<Rightarrow> bytes \<Rightarrow> bool" where
  "carries_token L nd req token \<longleftrightarrow> rq_target req \<noteq> None \<and> rq_token req \<noteq> None \<and> nd_id nd \<noteq> None
     \<and> (\<exists>v ann. rq_value req = Some v \<and> decodeBuffer (announce (sl_cenc L)) v = Inr ann
          \<and> an_peer ann = None \<and> an_refresh ann = Some token)"

text \<open>The store after a list of announce requests.\<close>

definition after_announces where
  "after_announces L nd reqs st = fold (\<lambda>req s. fst (onannounce L nd req s)) reqs st"

context store_laws
begin

lemma onannounce_token:
  "carries_token L nd req token \<Longrightarrow> onannounce L nd req st = onrefresh L token req st"
  using helpers by (auto simp: carries_token_def onannounce_def decodeOr_def helpers_ok_def)

lemma chain_active:
  assumes "\<And>i. i < length reqs \<Longrightarrow> carries_token L nd (reqs ! i) (tokens ! Suc i)"
    and "\<And>i. i < length reqs \<Longrightarrow> sl_hash L (tokens ! Suc i) = tokens ! i"
    and "ca_get (sl_refreshes L) (st_refreshes st) (sl_hex L (tokens ! 0)) = Some r"
    and "j \<le> length reqs"
  shows "ca_get (sl_refreshes L) (st_refreshes (after_announces L nd (take j reqs) st)) (sl_hex L (tokens ! j)) = Some r"
  using assms(4)
proof (induction j)
  case 0
  from assms(3) show ?case by (simp add: after_announces_def)
next
  case (Suc j)
  then have "after_announces L nd (take (Suc j) reqs) st
      = fst (onrefresh L (tokens ! Suc j) (reqs ! j) (after_announces L nd (take j reqs) st))"
    using onannounce_token [OF assms(1) [of j]] by (simp add: after_announces_def take_Suc_conv_app_nth)
  then show ?case
    using refresh_accepted(2) [of "after_announces L nd (take j reqs) st" "tokens ! Suc j" r] Suc assms(2) [of j] by simp
qed

end

end
