(* ===== verification/DHT_Store_Properties.thy ===== *)
theory DHT_Store_Properties
  imports DHT_Store_Invariant Message_Properties
begin

text \<open>
  The properties of the store: what it holds is authentic in every reachable state, a mutable value
  is never replaced by an older one, an accepted put is what a get returns, an announced peer can be
  found, a refresh chain keeps an announcement alive.
\<close>

section \<open>Refresh chains\<close>

lemma refreshBlocks_append: "refreshBlocks hash prev n acc = refreshBlocks hash prev n [] @ acc"
proof (induction n arbitrary: prev acc)
  case (Suc n)
  show ?case
    using Suc [of "hash prev" "hash prev # acc"] Suc [of "hash prev" "[hash prev]"] by simp
qed simp

text \<open>The chain in closed form: block \<open>i\<close> of \<open>cnt\<close> is the seed hashed \<open>cnt - i\<close> times.\<close>

lemma refreshBlocks_closed: "refreshBlocks hash seed cnt [] = map (\<lambda>i. (hash ^^ (cnt - i)) seed) [0..<cnt]"
proof (induction cnt arbitrary: seed)
  case (Suc n)
  have "refreshBlocks hash seed (Suc n) [] = map (\<lambda>i. (hash ^^ (n - i)) (hash seed)) [0..<n] @ [hash seed]"
    using refreshBlocks_append [of hash "hash seed" n "[hash seed]"] Suc by simp
  also have "map (\<lambda>i. (hash ^^ (n - i)) (hash seed)) [0..<n] = map (\<lambda>i. (hash ^^ (Suc n - i)) seed) [0..<n]"
    by (intro map_cong refl) (simp add: Suc_diff_le funpow_swap1)
  finally show ?case by simp
qed simp

lemma refreshChain_closed: "createRefreshChain hash seed cnt = map (\<lambda>i. (hash ^^ (cnt - i)) seed) [0..<cnt]"
  by (simp add: createRefreshChain_def refreshBlocks_closed)

lemma refreshChain_links:
  assumes "Suc i < cnt"
  shows "hash (createRefreshChain hash seed cnt ! Suc i) = createRefreshChain hash seed cnt ! i"
proof -
  have "cnt - i = Suc (cnt - Suc i)"
    using assms by simp
  then show ?thesis
    using assms by (simp add: refreshChain_closed)
qed

section \<open>A concrete library\<close>

text \<open>
  Caches that never drop anything, a hash that pads, a signature that quotes the key and the message:
  an instance on which the properties are exercised.
\<close>

definition mapCache :: "(string \<rightharpoonup> 'v, 'v) cache" where
  "mapCache = \<lparr>ca_get = (\<lambda>c. c), ca_set = (\<lambda>c k v. c(k \<mapsto> v)), ca_retain = (\<lambda>c k v. c(k \<mapsto> v)),
     ca_delete = (\<lambda>c k. c(k := None)), ca_destroy = (\<lambda>c. Map.empty)\<rparr>"

definition listRecords :: "(string \<Rightarrow> (bytes \<times> bytes) list) record_cache" where
  "listRecords = \<lparr>rc_get = (\<lambda>r k n. take n (map snd (AList.clearjunk (r k)))),
     rc_add = (\<lambda>r k i v. r(k := AList.update i v (r k))),
     rc_remove = (\<lambda>r k i. r(k := AList.delete i (r k))), rc_destroy = (\<lambda>r k. [])\<rparr>"

definition refHex :: "bytes \<Rightarrow> string" where
  "refHex bs = concat (map (\<lambda>b. [digit (unat b div 16), digit (unat b mod 16)]) bs)"

definition refHash :: "bytes \<Rightarrow> bytes" where
  "refHash bs = take 32 (1 # bs @ replicate 32 0)"

definition refSign :: "bytes \<Rightarrow> bytes \<Rightarrow> bytes" where
  "refSign signable key = take 64 (key @ signable @ replicate 64 0)"

definition refHelpers :: helpers where
  "refHelpers = \<lparr>encHandshake = encodeUnslab (handshake refC), decHandshake = decodeBuffer (handshake refC),
     encHolepunch = encodeUnslab (holepunch refC), decHolepunch = decodeBuffer (holepunch refC),
     encLookupReply = encodeUnslab (lookupRawReply refC), encPeer = encodeUnslab (peer refC),
     decAnnounce = decodeBuffer (announce refC), decUint = decodeBuffer (c_uint refC),
     encSignable = encodeUnslab (mutableSignable refC), decMutablePut = decodeBuffer (mutablePutRequest refC),
     decMutableGet = decodeBuffer (mutableGetResponse refC), decPlugin = decodeBuffer (pluginRequest refC)\<rparr>"

definition refL :: "(string \<rightharpoonup> forward, string \<Rightarrow> (bytes \<times> bytes) list, string \<rightharpoonup> nat,
    string \<rightharpoonup> refresh_entry, string \<rightharpoonup> bytes) store_lib" where
  "refL = \<lparr>sl_forwards = mapCache, sl_records = listRecords, sl_bumps = mapCache, sl_refreshes = mapCache,
     sl_values = mapCache, sl_hex = refHex, sl_hash = refHash, sl_hashBatch = (\<lambda>bss. refHash (concat bss)),
     sl_verify = (\<lambda>signature signable pk. signature = refSign signable pk), sl_sign = refSign,
     sl_ns = (\<lambda>c. replicate 32 (word_of_nat (COMMANDS c))), sl_cenc = refC, sl_helpers = refHelpers\<rparr>"

definition refEnt :: "(string \<Rightarrow> (bytes \<times> bytes) list) \<Rightarrow> string \<Rightarrow> bytes \<rightharpoonup> bytes" where
  "refEnt r k = map_of (r k)"

lemma mapCache_laws: "cache_laws mapCache"
  by standard (simp_all add: mapCache_def)

lemma listRecords_laws: "record_laws listRecords refEnt"
proof
  fix r :: "string \<Rightarrow> (bytes \<times> bytes) list" and k n
  have "snd ` set (AList.clearjunk (r k)) = ran (map_of (r k))"
    by (metis distinct_clearjunk map_of_clearjunk ran_distinct)
  then show "set (rc_get listRecords r k n) \<subseteq> ran (refEnt r k)"
    using set_take_subset [of n "map snd (AList.clearjunk (r k))"] by (auto simp: listRecords_def refEnt_def)
qed (simp_all add: listRecords_def refEnt_def update_conv' delete_conv')

interpretation refs: store_laws refL refEnt refW
proof (intro store_laws.intro)
  show "dht_decoders (sl_cenc refL) refW"
    by (simp add: refL_def refd.dht_decoders_axioms)
qed (simp_all add: refL_def mapCache_laws listRecords_laws helpers_ok_def refHelpers_def)

definition refStore :: "(string \<rightharpoonup> forward, string \<Rightarrow> (bytes \<times> bytes) list, string \<rightharpoonup> nat,
    string \<rightharpoonup> refresh_entry, string \<rightharpoonup> bytes) dht_store" where
  "refStore = \<lparr>st_forwards = Map.empty, st_records = (\<lambda>_. []), st_bumps = Map.empty, st_refreshes = Map.empty,
     st_mutables = Map.empty, st_immutables = Map.empty\<rparr>"

lemma refStore_empty: "empty_store refL refEnt refStore"
  by (simp add: empty_store_def refStore_def refL_def mapCache_def refEnt_def)

section \<open>Authenticity\<close>

text \<open>
  C4: in every state a node can reach from an empty store, by requests of any peers, local servers,
  expiry and destruction in any order: an immutable value is stored under its hash; a mutable value is
  stored under the hash of a public key and carries a signature of that key over its sequence number
  and value; every record of a topic is the encoding of a peer with at most three relay addresses,
  filed under that peer's key; and a forward that was announced is filed under the hash of its peer's
  key.
\<close>
theorem store_integrity:
  assumes "store_laws L ent W" "empty_store L ent st0" "(dht_step L ent)\<^sup>*\<^sup>* st0 st"
  shows "(\<forall>k v. ca_get (sl_values L) (st_immutables st) k = Some v \<longrightarrow> k = sl_hex L (sl_hash L v))
    \<and> (\<forall>k bs. ca_get (sl_values L) (st_mutables st) k = Some bs \<longrightarrow>
        (\<exists>pk g val. decodeBuffer (mutableGetResponse (sl_cenc L)) bs = Inr g \<and> mg_value g = Some val
          \<and> k = sl_hex L (sl_hash L pk) \<and> verifyMutable L (mg_signature g) (mg_seq g) (Some val) pk = Inr True))
    \<and> (\<forall>k i rec. ent (st_records st) k i = Some rec \<longrightarrow>
        (\<exists>p. decodeBuffer (peer (sl_cenc L)) rec = Inr p \<and> pe_publicKey p = i \<and> length (pe_relayAddresses p) \<le> 3))
    \<and> (\<forall>k f. ca_get (sl_forwards L) (st_forwards st) k = Some f \<longrightarrow> fw_onpeerhandshake f = None \<longrightarrow>
        (\<exists>p. decodeBuffer (peer (sl_cenc L)) (fw_record f) = Inr p \<and> k = sl_hex L (sl_hash L (pe_publicKey p))))"
proof -
  have ok: "store_ok L ent W st"
    by (rule store_laws.reachable_ok [OF assms])
  note peers = store_laws.peerRecord_decodes [OF assms(1)] and sv = store_laws.signedValue_decodes [OF assms(1)]
  show ?thesis
  proof (intro conjI allI impI)
    fix k v assume "ca_get (sl_values L) (st_immutables st) k = Some v"
    then show "k = sl_hex L (sl_hash L v)"
      using ok by (simp add: store_ok_def immutables_ok_def)
  next
    fix k bs assume "ca_get (sl_values L) (st_mutables st) k = Some bs"
    then show "\<exists>pk g val. decodeBuffer (mutableGetResponse (sl_cenc L)) bs = Inr g \<and> mg_value g = Some val
        \<and> k = sl_hex L (sl_hash L pk) \<and> verifyMutable L (mg_signature g) (mg_seq g) (Some val) pk = Inr True"
      using ok sv by (simp add: store_ok_def mutables_ok_def)
  next
    fix k i rec assume "ent (st_records st) k i = Some rec"
    then show "\<exists>p. decodeBuffer (peer (sl_cenc L)) rec = Inr p \<and> pe_publicKey p = i \<and> length (pe_relayAddresses p) \<le> 3"
      using ok peers by (simp add: store_ok_def records_ok_def)
  next
    fix k f assume "ca_get (sl_forwards L) (st_forwards st) k = Some f" "fw_onpeerhandshake f = None"
    then obtain i where "peerRecord W i (fw_record f)" "k = sl_hex L (sl_hash L i)"
      using ok by (auto simp: store_ok_def forwards_ok_def)
    with peers show "\<exists>p. decodeBuffer (peer (sl_cenc L)) (fw_record f) = Inr p \<and> k = sl_hex L (sl_hash L (pe_publicKey p))"
      by blast
  qed
qed

definition sample_node :: node where
  "sample_node = \<lparr>nd_id = Some (replicate 32 5), nd_now = 1000, nd_plugins = (\<lambda>_. None), nd_persistent = True\<rparr>"

definition sample_immutable :: dht_request where
  "sample_immutable = \<lparr>rq_command = 8, rq_target = Some (refHash [7]), rq_token = Some [1], rq_value = Some [7],
     rq_sender = sample_address\<rparr>"

theorem store_integrity_witness:
  "ca_get (sl_values refL) (st_immutables (fst (onrequest refL sample_node sample_immutable refStore)))
     (refHex (refHash [7])) = Some [7]
   \<and> refHex (refHash [7]) = sl_hex refL (sl_hash refL [7])"
proof
  let ?st = "fst (onrequest refL sample_node sample_immutable refStore)"
  show stored: "ca_get (sl_values refL) (st_immutables ?st) (refHex (refHash [7])) = Some [7]"
    by (simp add: onrequest_def handlerOf_def sample_node_def sample_immutable_def onimmutableput_def Let_def
        refL_def mapCache_def refStore_def)
  have "(dht_step refL refEnt)\<^sup>*\<^sup>* refStore ?st"
    by (blast intro: dht_step.request)
  from store_integrity [OF refs.store_laws_axioms refStore_empty this] stored
  show "refHex (refHash [7]) = sl_hex refL (sl_hash refL [7])"
    by blast
qed

section \<open>Mutable values\<close>

text \<open>
  C6: no rollback of mutable values. Whatever happens in one step to a reachable store (a put by any
  peer included), if a key held a value before and holds one after, the sequence number has not
  decreased, and if it is unchanged so is the value.
\<close>
theorem mutable_never_rolls_back:
  assumes "store_laws L ent W" "empty_store L ent st0" "(dht_step L ent)\<^sup>*\<^sup>* st0 st" "dht_step L ent st st'"
    and "ca_get (sl_values L) (st_mutables st) k = Some old" "ca_get (sl_values L) (st_mutables st') k = Some new"
  shows "\<exists>g h. decodeBuffer (mutableGetResponse (sl_cenc L)) old = Inr g
    \<and> decodeBuffer (mutableGetResponse (sl_cenc L)) new = Inr h
    \<and> mg_seq g \<le> mg_seq h \<and> (mg_seq g = mg_seq h \<longrightarrow> mg_value g = mg_value h)"
proof -
  have ok: "store_ok L ent W st"
    by (rule store_laws.reachable_ok [OF assms(1-3)])
  from store_laws.step_mutables [OF assms(1,4)] show ?thesis
  proof
    assume "ca_get (sl_values L) (st_mutables st') \<subseteq>\<^sub>m ca_get (sl_values L) (st_mutables st)"
    from map_le_Some [OF this assms(6)] have "new = old"
      using assms(5) by simp
    moreover from ok assms(5) have "signedValue L W k old"
      by (simp add: store_ok_def mutables_ok_def)
    ultimately show ?thesis
      using store_laws.signedValue_decodes [OF assms(1)] by blast
  next
    assume "\<exists>req. st' = fst (onmutableput L req st)"
    then show ?thesis
      using store_laws.put_monotone [OF assms(1) ok assms(5)] assms(6) by blast
  qed
qed

text \<open>
  put, then get. A put whose target is the hash of its key, whose signature verifies and which
  does not conflict with what is stored is acknowledged; from then on (until the entry is dropped) a
  get for any sequence number up to the stored one is answered with bytes that decode to exactly the
  sequence number, value and signature that were put, and a get for a later number with nothing.
\<close>
theorem mutable_put_then_get:
  assumes "store_laws L ent W"
    and "rq_target req = Some (sl_hash L (mp_publicKey p))" "rq_token req = Some token" "rq_value req = Some v"
    and "decodeBuffer (mutablePutRequest (sl_cenc L)) v = Inr p" "mp_value p = Some val"
    and "verifyMutable L (mp_signature p) (mp_seq p) (Some val) (mp_publicKey p) = Inr True"
    and "\<And>old. ca_get (sl_values L) (st_mutables st) (sl_hex L (sl_hash L (mp_publicKey p))) = Some old \<Longrightarrow>
         \<exists>e. decodeBuffer (mutableGetResponse (sl_cenc L)) old = Inr e \<and> seqConflict e (mp_seq p) val = None"
    and "rq_target get = Some (sl_hash L (mp_publicKey p))" "rq_value get = Some (w_uint W s)" "v_uint s"
  shows "snd (onmutableput L req st) = Inr [Reply None noOpts]
    \<and> (\<exists>bs. snd (onmutableget L get (fst (onmutableput L req st))) = Inr [Reply (if mp_seq p < s then None else Some bs) noOpts]
        \<and> decodeBuffer (mutableGetResponse (sl_cenc L)) bs
          = Inr \<lparr>mg_seq = mp_seq p, mg_value = Some val, mg_signature = mp_signature p\<rparr>)"
proof -
  define g where "g = \<lparr>mg_seq = mp_seq p, mg_value = Some val, mg_signature = mp_signature p\<rparr>"
  note put = store_laws.accepted_put [OF assms(1-8) g_def]
  note visible = cache_laws.cache_set_visible [OF store_laws.kept [OF assms(1)]]
  have "onmutableget L get (fst (onmutableput L req st)) = (fst (onmutableput L req st),
      Inr [Reply (if mg_seq g < s then None else Some (w_mutableGetResponse W g)) noOpts])"
    by (rule store_laws.get_answer [OF assms(1) _ put(2) assms(9-11)]) (simp add: put(1) visible)
  moreover have "decodeBuffer (mutableGetResponse (sl_cenc L)) (w_mutableGetResponse W g) = Inr g"
    using codec_round_trip [OF dht_messages.mutableGetResponse_codec [OF store_laws.messages [OF assms(1)]] put(2), where rest = "[]"]
      put(3) by (simp add: g_def n_mutableGetResponse_def n_buffer_def bytesOf_def)
  ultimately show ?thesis
    using put(1) by (auto simp: g_def)
qed

definition sample_key :: bytes where
  "sample_key = replicate 32 3"

definition sample_signature :: "nat \<Rightarrow> bytes" where
  "sample_signature seq = refSign (replicate 32 6 @ refHash (w_mutableSignable refW \<lparr>ms_seq = seq, ms_value = Some [9]\<rparr>)) sample_key"

definition sample_update :: "nat \<Rightarrow> mutable_put_request" where
  "sample_update seq = \<lparr>mp_publicKey = sample_key, mp_seq = seq, mp_value = Some [9], mp_signature = sample_signature seq\<rparr>"

definition sample_put_request :: "nat \<Rightarrow> dht_request" where
  "sample_put_request seq = \<lparr>rq_command = 6, rq_target = Some (refHash sample_key), rq_token = Some [1],
     rq_value = Some (w_mutablePutRequest refW (sample_update seq)), rq_sender = sample_address\<rparr>"

definition sample_get_request :: dht_request where
  "sample_get_request = \<lparr>rq_command = 7, rq_target = Some (refHash sample_key), rq_token = None,
     rq_value = Some (w_uint refW 0), rq_sender = sample_address\<rparr>"

lemma sample_update_valid: "seq < 100 \<Longrightarrow> v_mutablePutRequest refW (sample_update seq)"
  by (simp add: v_mutablePutRequest_def sample_update_def sample_key_def v_uint_def v_buffer_def bytesOf_def
    sample_signature_def refSign_def refHash_def)

lemma sample_put_facts:
  assumes "seq < 100"
  shows "decodeBuffer (mutablePutRequest (sl_cenc refL)) (w_mutablePutRequest refW (sample_update seq)) = Inr (sample_update seq)"
    and "verifyMutable refL (mp_signature (sample_update seq)) (mp_seq (sample_update seq)) (Some [9])
      (mp_publicKey (sample_update seq)) = Inr True"
proof -
  have "n_mutablePutRequest (sample_update seq) = sample_update seq"
    by (simp add: n_mutablePutRequest_def sample_update_def n_buffer_def bytesOf_def)
  then show "decodeBuffer (mutablePutRequest (sl_cenc refL)) (w_mutablePutRequest refW (sample_update seq)) = Inr (sample_update seq)"
    using codec_round_trip [OF ref.mutablePutRequest_codec sample_update_valid [OF assms], of "[]"]
    by (simp add: refL_def)
  have "v_mutableSignable refW \<lparr>ms_seq = seq, ms_value = Some [9]\<rparr>"
    using assms by (simp add: v_mutableSignable_def v_uint_def v_buffer_def bytesOf_def)
  from codec_round_trip [OF ref.mutableSignable_codec this]
  show "verifyMutable refL (mp_signature (sample_update seq)) (mp_seq (sample_update seq)) (Some [9])
      (mp_publicKey (sample_update seq)) = Inr True"
    by (simp add: verifyMutable_def mutableSignableBytes_def refL_def refHelpers_def sample_update_def sample_signature_def)
qed

theorem mutable_put_then_get_witness:
  "\<exists>bs. snd (onmutableget refL sample_get_request (fst (onmutableput refL (sample_put_request 4) refStore)))
      = Inr [Reply (Some bs) noOpts]
    \<and> decodeBuffer (mutableGetResponse refC) bs = Inr \<lparr>mg_seq = 4, mg_value = Some [9], mg_signature = sample_signature 4\<rparr>"
  using mutable_put_then_get [OF refs.store_laws_axioms, of "sample_put_request 4" "sample_update 4" "[1]"
      "w_mutablePutRequest refW (sample_update 4)" "[9]" refStore sample_get_request 0] sample_put_facts [of 4]
  by (simp add: sample_put_request_def sample_get_request_def sample_update_def refL_def refStore_def mapCache_def v_uint_def)

definition sample_response :: "nat \<Rightarrow> mutable_get_response" where
  "sample_response seq = \<lparr>mg_seq = seq, mg_value = Some [9], mg_signature = sample_signature seq\<rparr>"

lemma sample_put_stores:
  assumes "seq < 100"
    and "\<And>old. st_mutables st (refHex (refHash sample_key)) = Some old \<Longrightarrow>
      \<exists>e. decodeBuffer (mutableGetResponse refC) old = Inr e \<and> seqConflict e seq [9] = None"
  shows "fst (onrequest refL sample_node (sample_put_request seq) st) = st\<lparr>st_mutables :=
      (st_mutables st)(refHex (refHash sample_key) \<mapsto> w_mutableGetResponse refW (sample_response seq))\<rparr>"
proof -
  have "onmutableput refL (sample_put_request seq) st = (st\<lparr>st_mutables := ca_set (sl_values refL) (st_mutables st)
      (sl_hex refL (sl_hash refL (mp_publicKey (sample_update seq)))) (w_mutableGetResponse refW (sample_response seq))\<rparr>,
      Inr [Reply None noOpts])"
    by (rule refs.accepted_put(1) [of "sample_put_request seq" "sample_update seq" "[1]"
          "w_mutablePutRequest refW (sample_update seq)" "[9]" st])
      (use assms sample_put_facts [OF assms(1)] in \<open>auto simp: sample_put_request_def sample_update_def
        sample_response_def refL_def mapCache_def\<close>)
  then show ?thesis
    by (simp add: onrequest_def handlerOf_def sample_node_def sample_put_request_def refL_def mapCache_def sample_update_def)
qed

theorem mutable_never_rolls_back_witness:
  "\<exists>g h. decodeBuffer (mutableGetResponse refC) (w_mutableGetResponse refW (sample_response 4)) = Inr g
    \<and> decodeBuffer (mutableGetResponse refC) (w_mutableGetResponse refW (sample_response 5)) = Inr h
    \<and> mg_seq g \<le> mg_seq h"
proof -
  let ?s1 = "fst (onrequest refL sample_node (sample_put_request 4) refStore)"
  let ?s2 = "fst (onrequest refL sample_node (sample_put_request 5) ?s1)"
  have v: "v_mutableGetResponse refW (sample_response 4)"
    using sample_update_valid [of 4] by (simp add: v_mutableGetResponse_def v_mutablePutRequest_def sample_response_def sample_update_def)
  have d: "decodeBuffer (mutableGetResponse refC) (w_mutableGetResponse refW (sample_response 4)) = Inr (sample_response 4)"
    using codec_round_trip [OF ref.mutableGetResponse_codec v, of "[]"]
    by (simp add: sample_response_def n_mutableGetResponse_def n_buffer_def bytesOf_def)
  have s1: "st_mutables ?s1 (refHex (refHash sample_key)) = Some (w_mutableGetResponse refW (sample_response 4))"
    by (subst sample_put_stores) (simp_all add: refStore_def)
  moreover have "st_mutables ?s2 (refHex (refHash sample_key)) = Some (w_mutableGetResponse refW (sample_response 5))"
    using s1 d by (subst sample_put_stores) (auto simp: seqConflict_def sample_response_def)
  moreover have "(dht_step refL refEnt)\<^sup>*\<^sup>* refStore ?s1" "dht_step refL refEnt ?s1 ?s2"
    by (auto intro: dht_step.request r_into_rtranclp)
  ultimately show ?thesis
    using mutable_never_rolls_back [OF refs.store_laws_axioms refStore_empty, of ?s1 ?s2]
    by (fastforce simp: refL_def mapCache_def)
qed

section \<open>Announcements\<close>

text \<open>
  C12: only authenticated requests change what is announced. If handling a request changes the records
  or the forwards of a node, the request has a token and is one of three: an announcement whose peer signed
  the target, the node's identifier, the token, the peer and the refresh value in the namespace of
  announcements; an unannouncement whose peer signed them in the namespace of unannouncements; or an
  announcement without a peer that carries the preimage of a refresh value stored earlier. What was signed
  for one command is worth nothing for the other.
\<close>
theorem announce_authenticated:
  assumes "store_laws L ent W" "onrequest L nd req st = (st', r, handled)"
    and "st_records st' \<noteq> st_records st \<or> st_forwards st' \<noteq> st_forwards st"
  shows "\<exists>ann. decodeBuffer (announce (sl_cenc L)) (bytesOf (rq_value req)) = Inr ann \<and> rq_token req \<noteq> None \<and>
    (rq_command req = COMMANDS ANNOUNCE \<and> signed_for L nd req ann ANNOUNCE
     \<or> rq_command req = COMMANDS UNANNOUNCE \<and> signed_for L nd req ann UNANNOUNCE
     \<or> rq_command req = COMMANDS ANNOUNCE \<and> an_peer ann = None \<and> (\<exists>refresh. an_refresh ann = Some refresh
        \<and> ca_get (sl_refreshes L) (st_refreshes st) (sl_hex L (sl_hash L refresh)) \<noteq> None))"
proof -
  have st': "st' = fst (onrequest L nd req st)"
    by (simp add: assms(2))
  from store_laws.onrequest_announcements [OF assms(1), of nd req st] assms(3)
  consider "rq_command req = COMMANDS ANNOUNCE" "st' = fst (onannounce L nd req st)"
    | "rq_command req = COMMANDS UNANNOUNCE" "st' = fst (onunannounce L nd req st)"
    unfolding st' by blast
  then show ?thesis
  proof cases
    case 1
    with assms(3) have "fst (onannounce L nd req st) \<noteq> st"
      by auto
    from store_laws.announce_evidence [OF assms(1) this] 1(1) show ?thesis by blast
  next
    case 2
    with assms(3) have "fst (onunannounce L nd req st) \<noteq> st"
      by auto
    from store_laws.unannounce_evidence [OF assms(1) this] 2(1) show ?thesis by blast
  qed
qed

text \<open>
  a peer that announces itself can be found. A request whose target is the hash of the announced
  key and whose signature verifies is acknowledged, and a find-peer request for that target is then
  answered with bytes that decode to the announced peer, with its first three relay addresses.
\<close>
theorem self_announce_findable:
  assumes "store_laws L ent W"
    and "rq_target req = Some (sl_hash L (pe_publicKey p))" "rq_token req = Some token" "nd_id nd = Some i" "rq_value req = Some v"
    and "decodeBuffer (announce (sl_cenc L)) v = Inr ann" "an_peer ann = Some p"
    and "annSignable L (sl_hash L (pe_publicKey p)) token i ann (sl_ns L ANNOUNCE) = Inr signable"
    and "an_signature ann = Some signature" "sl_verify L signature signable (pe_publicKey p)"
    and "rq_target query = Some (sl_hash L (pe_publicKey p))"
  shows "snd (onannounce L nd req st) = Inr [Reply None (quietOpts None None)]
    \<and> (\<exists>rec. snd (onfindpeer L query (fst (onannounce L nd req st))) = Inr [Reply (Some rec) noOpts]
        \<and> decodeBuffer (peer (sl_cenc L)) rec
          = Inr (p\<lparr>pe_relayAddresses := take 3 (pe_relayAddresses p)\<rparr>))"
proof -
  note acc = store_laws.accepted_announce [OF assms(1-10)]
  have "sl_hash L (pe_publicKey (trimRelays p)) = sl_hash L (pe_publicKey p)"
    by (simp add: trimRelays_def)
  from store_laws.self_announced [OF assms(1) this]
  have "snd (onfindpeer L query (fst (onannounce L nd req st)))
      = Inr [Reply (Some (w_peer W (trimRelays p))) noOpts]"
    using assms(11) by (simp add: onfindpeer_def acc(1) router_get_def forwardOf_def)
  moreover have "decodeBuffer (peer (sl_cenc L)) (w_peer W (trimRelays p)) = Inr (trimRelays p)"
    using codec_round_trip [OF dht_messages.peer_codec [OF store_laws.messages [OF assms(1)]] acc(2), where rest = "[]"] by simp
  moreover have "trimRelays p = p\<lparr>pe_relayAddresses := take 3 (pe_relayAddresses p)\<rparr>"
    by (cases p) (simp add: trimRelays_def)
  ultimately show ?thesis
    using acc(1) by simp
qed

text \<open>
  C16: a refresh chain keeps an announcement alive. When a node holds an announcement made with the
  first token of a chain, it accepts the announcer's later requests one after the other, each carrying
  only the next token of the chain and no signature. Every one is acknowledged, and right after it the
  announcement is stored again: that of the peer itself is the forward for its target, reached through the
  sender of that request, and that of a topic is the record of the peer's key among those of the topic.
\<close>
theorem refresh_chain_keeps_alive:
  assumes "store_laws L ent W" "tokens = createRefreshChain (sl_hash L) seed cnt" "length reqs < cnt"
    and "\<And>i. i < length reqs \<Longrightarrow> carries_token L nd (reqs ! i) (tokens ! Suc i)"
    and "ca_get (sl_refreshes L) (st_refreshes st) (sl_hex L (tokens ! 0)) = Some r"
    and "j < length reqs"
  shows "snd (onannounce L nd (reqs ! j) (after_announces L nd (take j reqs) st)) = Inr [Reply None (quietOpts None None)]
    \<and> (let st' = after_announces L nd (take (Suc j) reqs) st
       in if rf_announceSelf r
          then ca_get (sl_forwards L) (st_forwards st') (rf_k r) = Some (forwardOf (rq_sender (reqs ! j)) (rf_record r))
          else ent (st_records st') (rf_k r) (take 32 (rf_record r)) = Some (rf_record r))"
proof -
  let ?s = "after_announces L nd (take j reqs) st"
  have link: "sl_hash L (tokens ! Suc i) = tokens ! i" if "i < length reqs" for i
    using that assms(2,3) refreshChain_links [of i cnt "sl_hash L" seed] by simp
  have "ca_get (sl_refreshes L) (st_refreshes ?s) (sl_hex L (tokens ! j)) = Some r"
    using store_laws.chain_active [OF assms(1,4) link assms(5)] assms(6) by simp
  with link [OF assms(6)] have "ca_get (sl_refreshes L) (st_refreshes ?s) (sl_hex L (sl_hash L (tokens ! Suc j))) = Some r"
    by simp
  note acc = store_laws.refresh_accepted [OF assms(1) this, of "reqs ! j"]
    and on = store_laws.onannounce_token [OF assms(1) assms(4) [OF assms(6)], of ?s]
  have "after_announces L nd (take (Suc j) reqs) st = fst (onannounce L nd (reqs ! j) ?s)"
    using assms(6) by (simp add: after_announces_def take_Suc_conv_app_nth)
  with on acc(1,3,4) show ?thesis by simp
qed

section \<open>A concrete announcement\<close>

definition sample_self :: peer_msg where
  "sample_self = \<lparr>pe_publicKey = sample_key, pe_relayAddresses = [sample_address]\<rparr>"

definition sample_chain :: "bytes list" where
  "sample_chain = createRefreshChain refHash (replicate 32 8) 3"

definition sample_ann_signable :: bytes where
  "sample_ann_signable = replicate 32 4 @ refHash (concat [refHash sample_key, replicate 32 5, [1],
     w_peer refW sample_self, sample_chain ! 0])"

definition sample_ann :: announce_msg where
  "sample_ann = \<lparr>an_peer = Some sample_self, an_refresh = Some (sample_chain ! 0),
     an_signature = Some (refSign sample_ann_signable sample_key), an_bump = 0\<rparr>"

definition sample_renewal :: announce_msg where
  "sample_renewal = \<lparr>an_peer = None, an_refresh = Some (sample_chain ! 1), an_signature = None, an_bump = 0\<rparr>"

definition sample_request :: "nat \<Rightarrow> announce_msg \<Rightarrow> dht_request" where
  "sample_request cmd ann = \<lparr>rq_command = cmd, rq_target = Some (refHash sample_key), rq_token = Some [1],
     rq_value = Some (w_announce refW ann), rq_sender = sample_address\<rparr>"

lemma refHash_length [simp]: "length (refHash bs) = 32"
  by (simp add: refHash_def)

lemma sample_chain_length: "length (sample_chain ! 0) = 32" "length (sample_chain ! 1) = 32"
  by (simp_all add: sample_chain_def refreshChain_closed numeral_3_eq_3)

lemma sample_self_valid: "v_peer refW sample_self"
  using sample_ipv4 by (simp add: v_peer_def sample_self_def sample_key_def v_array_def)

lemma sample_ann_decodes:
  "decodeBuffer (announce (sl_cenc refL)) (w_announce refW sample_ann) = Inr sample_ann"
  "decodeBuffer (announce (sl_cenc refL)) (w_announce refW sample_renewal) = Inr sample_renewal"
proof -
  have "v_announce refW sample_ann"
    using sample_self_valid sample_chain_length
    by (simp add: v_announce_def sample_ann_def v_uint_def refSign_def sample_key_def sample_ann_signable_def)
  from codec_round_trip [OF ref.announce_codec this, of "[]"]
  show "decodeBuffer (announce (sl_cenc refL)) (w_announce refW sample_ann) = Inr sample_ann"
    by (simp add: refL_def)
  have "v_announce refW sample_renewal"
    using sample_chain_length by (simp add: v_announce_def sample_renewal_def v_uint_def)
  from codec_round_trip [OF ref.announce_codec this, of "[]"]
  show "decodeBuffer (announce (sl_cenc refL)) (w_announce refW sample_renewal) = Inr sample_renewal"
    by (simp add: refL_def)
qed

lemma sample_ann_signed:
  "annSignable refL (refHash sample_key) [1] (replicate 32 5) sample_ann (sl_ns refL ANNOUNCE) = Inr sample_ann_signable"
  using codec_round_trip [OF ref.peer_codec sample_self_valid]
  by (simp add: annSignable_def sample_ann_def refL_def refHelpers_def sample_ann_signable_def bytesOf_def)

lemmas sample_accepted = refs.accepted_announce [of "sample_request 4 sample_ann" "refHash sample_key" "[1]" sample_node
    "replicate 32 5" "w_announce refW sample_ann" sample_ann sample_self sample_ann_signable "refSign sample_ann_signable sample_key"]

lemma sample_request_facts:
  "rq_target (sample_request cmd ann) = Some (refHash sample_key)" "rq_token (sample_request cmd ann) = Some [1]"
  "rq_value (sample_request cmd ann) = Some (w_announce refW ann)" "nd_id sample_node = Some (replicate 32 5)"
  "an_peer sample_ann = Some sample_self" "an_signature sample_ann = Some (refSign sample_ann_signable sample_key)"
  "an_refresh sample_ann = Some (sample_chain ! 0)" "pe_publicKey sample_self = sample_key"
  "sl_hash refL = refHash" "sl_hex refL = refHex" "sl_verify refL signature signable pk \<longleftrightarrow> signature = refSign signable pk"
  by (simp_all add: sample_request_def sample_node_def sample_ann_def sample_self_def refL_def)

theorem self_announce_findable_witness:
  "\<exists>rec. snd (onfindpeer refL (sample_request 2 sample_ann) (fst (onannounce refL sample_node (sample_request 4 sample_ann) refStore)))
      = Inr [Reply (Some rec) noOpts]
    \<and> decodeBuffer (peer refC) rec = Inr sample_self"
  using self_announce_findable [OF refs.store_laws_axioms, of "sample_request 4 sample_ann" sample_self "[1]" sample_node
      "replicate 32 5" "w_announce refW sample_ann" sample_ann sample_ann_signable "refSign sample_ann_signable sample_key"
      "sample_request 2 sample_ann" refStore] sample_ann_decodes(1) sample_ann_signed
  by (simp add: sample_request_facts) (simp add: sample_self_def refL_def)

theorem announce_authenticated_witness:
  "\<exists>ann. decodeBuffer (announce (sl_cenc refL)) (bytesOf (rq_value (sample_request 4 sample_ann))) = Inr ann"
proof -
  let ?st = "fst (onannounce refL sample_node (sample_request 4 sample_ann) refStore)"
  have on: "onrequest refL sample_node (sample_request 4 sample_ann) refStore
      = (?st, snd (onannounce refL sample_node (sample_request 4 sample_ann) refStore), True)"
    by (simp add: onrequest_def handlerOf_def sample_node_def sample_request_def case_prod_unfold Let_def)
  have "ca_get (sl_forwards refL) (st_forwards ?st) (sl_hex refL (refHash sample_key)) \<noteq> None"
    using sample_accepted(1) [of refStore] sample_ann_decodes(1) sample_ann_signed
      refs.self_announced [of "trimRelays sample_self" "refHash sample_key"]
    by (simp add: sample_request_facts trimRelays_def sample_self_def)
  moreover have "ca_get (sl_forwards refL) (st_forwards refStore) (sl_hex refL (refHash sample_key)) = None"
    by (simp add: refL_def mapCache_def refStore_def)
  ultimately have "st_forwards ?st \<noteq> st_forwards refStore"
    by auto
  with announce_authenticated [OF refs.store_laws_axioms on] show ?thesis
    by blast
qed

theorem refresh_chain_keeps_alive_witness:
  "snd (onannounce refL sample_node (sample_request 4 sample_renewal)
      (fst (onannounce refL sample_node (sample_request 4 sample_ann) refStore))) = Inr [Reply None (quietOpts None None)]"
proof -
  let ?st = "fst (onannounce refL sample_node (sample_request 4 sample_ann) refStore)"
  have "carries_token refL sample_node (sample_request 4 sample_renewal) (sample_chain ! Suc 0)"
    using sample_ann_decodes(2) by (auto simp: carries_token_def sample_request_facts sample_renewal_def)
  moreover have "\<exists>r. ca_get (sl_refreshes refL) (st_refreshes ?st) (sl_hex refL (sample_chain ! 0)) = Some r"
    using sample_accepted(1) [of refStore] sample_ann_decodes(1) sample_ann_signed refs.refresh_stored [of sample_ann]
    by (simp add: sample_request_facts)
  moreover have "sample_chain = createRefreshChain (sl_hash refL) (replicate 32 8) 3"
    by (simp add: sample_chain_def refL_def)
  ultimately show ?thesis
    using refresh_chain_keeps_alive [OF refs.store_laws_axioms, of sample_chain "replicate 32 8" 3
        "[sample_request 4 sample_renewal]" sample_node ?st _ 0]
    by (auto simp: after_announces_def)
qed

end
