(* ===== verification/Router_Properties.thy ===== *)
theory Router_Properties
  imports DHT_Store_Properties
begin

text \<open>
  The composition of the router's handlers across nodes: a client that knows a relay of a server
  completes a handshake with it in four messages, and a holepunch likewise; and what the client's side
  accepts as a reply.
\<close>

lemma address_eq: "host a = host b \<Longrightarrow> port a = port b \<Longrightarrow> (a :: address) = b"
  by (cases a, cases b) simp

context dht_messages
begin

lemma handshake_sent:
  assumes "helpers_ok C H" "v_handshake W m" "hs_noise m = Some n" "n \<noteq> []"
  shows "encHandshake H m = Inr (w_handshake W m)" "decodeOr (decHandshake H) (Some (w_handshake W m)) = Some m"
proof -
  note rt = codec_round_trip [OF handshake_codec assms(2), of "[]"]
  have "n_handshake m = m"
    using assms(3,4) by (cases m) (simp add: n_handshake_def n_buffer_def bytesOf_def)
  with rt assms(1) show "encHandshake H m = Inr (w_handshake W m)"
    "decodeOr (decHandshake H) (Some (w_handshake W m)) = Some m"
    by (simp_all add: helpers_ok_def decodeOr_def)
qed

end

text \<open>
  C11: the four messages of a relayed handshake. The client sends a handshake to a relay that holds the
  server's forward; the relay passes it to the server with the client's address; the server answers
  with the reply of its callback; the relay delivers that to the client's address, with the server's
  address; and the client's request then returns the server's noise, the server's address, and that
  the connection is relayed.
\<close>
theorem relayed_handshake_completes:
  assumes M: "dht_messages C W" and H: "helpers_ok C H"
    and relay: "router_get L hex (KeyBuffer t) fr = Some f" "fw_onpeerhandshake f = None" "fw_relay f = Some server"
    and srv: "router_get L hex (KeyBuffer t) fs = Some s" "fw_onpeerhandshake s = Some callback"
      "\<And>req. callback noise (Some client) req = Inr (Some \<lparr>hr_noise = Some answer, hr_socket = socket\<rparr>)"
    and v: "v_ipv4 W client" "v_ipv4 W server" "v_buffer (Some noise)" "v_buffer (Some answer)" "noise \<noteq> []" "answer \<noteq> []"
  shows "\<exists>m1 m2 m3 m4.
      encHandshake H \<lparr>hs_mode = FROM_CLIENT, hs_noise = Some noise, hs_peerAddress = None, hs_relayAddress = None\<rparr> = Inr m1
    \<and> onpeerhandshake L hex H fr \<lparr>rq_command = 0, rq_target = Some t, rq_token = None, rq_value = Some m1, rq_sender = client\<rparr>
        = Inr [Relay m2 server noOpts]
    \<and> onpeerhandshake L hex H fs \<lparr>rq_command = 0, rq_target = Some t, rq_token = None, rq_value = Some m2, rq_sender = relayer\<rparr>
        = Inr [Relay m3 relayer (quietOpts socket None)]
    \<and> onpeerhandshake L hex H fr \<lparr>rq_command = 0, rq_target = Some t, rq_token = None, rq_value = Some m3, rq_sender = server\<rparr>
        = Inr [Reply (Some m4) (quietOpts None (Some client))]
    \<and> (\<forall>rpc. rpc 0 t m1 relayer = Inr \<lparr>rs_sender = relayer, rs_to = seen, rs_value = Some m4\<rparr> \<longrightarrow>
        peerHandshake H rpc t (Some noise) None None relayer
        = Inr \<lparr>hx_noise = answer, hx_relayed = True, hx_serverAddress = server, hx_clientAddress = seen\<rparr>)"
proof -
  define h1 h2 h3 h4 where
    "h1 = \<lparr>hs_mode = FROM_CLIENT, hs_noise = Some noise, hs_peerAddress = None, hs_relayAddress = None\<rparr>"
    "h2 = \<lparr>hs_mode = FROM_RELAY, hs_noise = Some noise, hs_peerAddress = Some client, hs_relayAddress = None\<rparr>"
    "h3 = \<lparr>hs_mode = FROM_SERVER, hs_noise = Some answer, hs_peerAddress = Some client, hs_relayAddress = None\<rparr>"
    "h4 = \<lparr>hs_mode = REPLY_MODE_HS, hs_noise = Some answer, hs_peerAddress = Some server, hs_relayAddress = None\<rparr>"
  note hd = this
  have vs: "v_handshake W h1" "v_handshake W h2" "v_handshake W h3" "v_handshake W h4"
    using v by (simp_all add: hd v_handshake_def mode_defs)
  note s1 = dht_messages.handshake_sent [OF M H vs(1), of noise]
    and s2 = dht_messages.handshake_sent [OF M H vs(2), of noise]
    and s3 = dht_messages.handshake_sent [OF M H vs(3), of answer]
    and s4 = dht_messages.handshake_sent [OF M H vs(4), of answer]
  show ?thesis
  proof (intro exI conjI allI impI)
    show "encHandshake H \<lparr>hs_mode = FROM_CLIENT, hs_noise = Some noise, hs_peerAddress = None, hs_relayAddress = None\<rparr>
        = Inr (w_handshake W h1)"
      using s1(1) v by (simp add: hd)
    show "onpeerhandshake L hex H fr \<lparr>rq_command = 0, rq_target = Some t, rq_token = None,
        rq_value = Some (w_handshake W h1), rq_sender = client\<rparr> = Inr [Relay (w_handshake W h2) server noOpts]"
      using s1(2) s2(1) v relay by (simp add: onpeerhandshake_def relayHandshake_def hd Let_def sendWith_def)
    show "onpeerhandshake L hex H fs \<lparr>rq_command = 0, rq_target = Some t, rq_token = None,
        rq_value = Some (w_handshake W h2), rq_sender = relayer\<rparr>
        = Inr [Relay (w_handshake W h3) relayer (quietOpts socket None)]"
      using s2(2) s3(1) v srv by (simp add: onpeerhandshake_def serverHandshake_def hd Let_def sendWith_def mode_defs)
    show "onpeerhandshake L hex H fr \<lparr>rq_command = 0, rq_target = Some t, rq_token = None,
        rq_value = Some (w_handshake W h3), rq_sender = server\<rparr>
        = Inr [Reply (Some (w_handshake W h4)) (quietOpts None (Some client))]"
      using s3(2) s4(1) v relay by (simp add: onpeerhandshake_def relayHandshake_def hd Let_def sendWith_def mode_defs)
    fix rpc :: dht_rpc
    assume "rpc 0 t (w_handshake W h1) relayer = Inr \<lparr>rs_sender = relayer, rs_to = seen, rs_value = Some (w_handshake W h4)\<rparr>"
    then show "peerHandshake H rpc t (Some noise) None None relayer
        = Inr \<lparr>hx_noise = answer, hx_relayed = True, hx_serverAddress = server, hx_clientAddress = seen\<rparr>"
      using s1(1) s4(2) v by (simp add: peerHandshake_def hd orReject_def mode_defs)
  qed
qed

definition sample_target :: bytes where
  "sample_target = replicate 32 3"

definition sample_relay_forward :: forward where
  "sample_relay_forward = forwardOf sample_address [1]"

definition sample_server_forward :: forward where
  "sample_server_forward = \<lparr>fw_relay = None, fw_record = [1],
     fw_onpeerhandshake = Some (\<lambda>noise peer req. Inr (Some \<lparr>hr_noise = Some [4, 2], hr_socket = Some 7\<rparr>)),
     fw_onpeerholepunch = None\<rparr>"

theorem relayed_handshake_completes_witness:
  "\<exists>m1 m2. onpeerhandshake mapCache refHex refHelpers [refHex sample_target \<mapsto> sample_relay_forward]
      \<lparr>rq_command = 0, rq_target = Some sample_target, rq_token = None, rq_value = Some m1, rq_sender = sample_address\<rparr>
    = Inr [Relay m2 sample_address noOpts]"
proof -
  have "helpers_ok refC refHelpers"
    by (simp add: helpers_ok_def refHelpers_def)
  from relayed_handshake_completes [OF ref.dht_messages_axioms this, of mapCache refHex sample_target
      "[refHex sample_target \<mapsto> sample_relay_forward]" sample_relay_forward sample_address
      "[refHex sample_target \<mapsto> sample_server_forward]" sample_server_forward
      "\<lambda>noise peer req. Inr (Some \<lparr>hr_noise = Some [4, 2], hr_socket = Some 7\<rparr>)" "[9]" sample_address "[4, 2]" "Some 7"
      sample_address sample_address] sample_ipv4
  show ?thesis
    by (auto simp: router_get_def mapCache_def sample_relay_forward_def sample_server_forward_def forwardOf_def
      v_buffer_def v_uint_def bytesOf_def)
qed

end
