(* ===== verification/Semaphore.thy ===== *)
theory Semaphore
  imports Interfaces
begin

text \<open>
  \<^verbatim>\<open>lib/semaphore.js\<close> and \<^verbatim>\<open>lib/sleeper.js\<close>: the two small schedulers of the connection code. A
  promise is the identifier of its waiter; an operation returns the new state and the promises it
  resolves, with the value they resolve to.
\<close>

section \<open>The semaphore\<close>

text \<open>A promise of \<open>wait\<close> by its waiter, or the shared promise of \<open>flush\<close>.\<close>

datatype 'w promise = Waiter 'w | Flusher

record 'w semaphore =
  sm_limit :: int
  sm_active :: int
  sm_waiting :: "'w list"
  sm_flushing :: bool
  sm_destroyed :: bool

type_synonym 'w resolved = "('w promise \<times> bool) list"

definition Semaphore_new :: "int \<Rightarrow> 'w semaphore" where
  "Semaphore_new limit = \<lparr>sm_limit = limit, sm_active = 0, sm_waiting = [], sm_flushing = False, sm_destroyed = False\<rparr>"

definition sm_wait :: "'w \<Rightarrow> 'w semaphore \<Rightarrow> 'w semaphore \<times> 'w resolved" where
  "sm_wait w s =
     (if sm_destroyed s then (s, [(Waiter w, False)])
      else if sm_active s < sm_limit s \<and> sm_waiting s = [] then (s\<lparr>sm_active := sm_active s + 1\<rparr>, [(Waiter w, True)])
      else (s\<lparr>sm_waiting := sm_waiting s @ [w]\<rparr>, []))"

text \<open>The loop of \<open>signal\<close>: waiters leave the queue while there is room.\<close>

fun sm_release :: "int \<Rightarrow> int \<Rightarrow> 'w list \<Rightarrow> int \<times> 'w list \<times> 'w resolved" where
  "sm_release limit active [] = (active, [], [])"
| "sm_release limit active (w # ws) =
     (if active < limit
      then (let (a, rest, rs) = sm_release limit (active + 1) ws in (a, rest, (Waiter w, True) # rs))
      else (active, w # ws, []))"

definition sm_signal :: "'w semaphore \<Rightarrow> 'w semaphore \<times> 'w resolved" where
  "sm_signal s =
     (if sm_destroyed s then (s, [])
      else (let (a, rest, rs) = sm_release (sm_limit s) (sm_active s - 1) (sm_waiting s);
                s = s\<lparr>sm_active := a, sm_waiting := rest\<rparr>
        in if a = 0 \<and> sm_flushing s then (s\<lparr>sm_flushing := False\<rparr>, rs @ [(Flusher, True)]) else (s, rs)))"

text \<open>\<open>flush\<close> resolves at once when nothing is active; otherwise its promise is shared.\<close>

definition sm_flush :: "'w semaphore \<Rightarrow> 'w semaphore \<times> bool" where
  "sm_flush s =
     (if sm_destroyed s then (s, True) else if sm_active s = 0 then (s, True)
      else if sm_flushing s then (s, False) else (s\<lparr>sm_flushing := True\<rparr>, False))"

definition sm_destroy :: "'w semaphore \<Rightarrow> 'w semaphore \<times> 'w resolved" where
  "sm_destroy s = (s\<lparr>sm_destroyed := True, sm_active := 0, sm_waiting := []\<rparr>,
     map (\<lambda>w. (Waiter w, False)) (rev (sm_waiting s)) @ (if sm_flushing s then [(Flusher, False)] else []))"

section \<open>Runs\<close>

text \<open>The calls of users that signal only what they hold.\<close>

datatype 'w sm_call = CallWait 'w | CallSignal | CallFlush

fun sm_step :: "'w sm_call \<Rightarrow> 'w semaphore \<Rightarrow> 'w semaphore \<times> 'w resolved" where
  "sm_step (CallWait w) s = sm_wait w s"
| "sm_step CallSignal s = (if sm_active s > 0 then sm_signal s else (s, []))"
| "sm_step CallFlush s = (fst (sm_flush s), [])"

fun sm_run :: "'w sm_call list \<Rightarrow> 'w semaphore \<Rightarrow> 'w semaphore \<times> 'w resolved" where
  "sm_run [] s = (s, [])"
| "sm_run (c # cs) s = (let (t, r) = sm_step c s; (u, rs) = sm_run cs t in (u, r @ rs))"

definition granted :: "'w resolved \<Rightarrow> 'w list" where
  "granted rs = concat (map (\<lambda>(p, b). case p of Waiter w \<Rightarrow> if b then [w] else [] | Flusher \<Rightarrow> []) rs)"

definition waited :: "'w sm_call list \<Rightarrow> 'w list" where
  "waited cs = concat (map (\<lambda>c. case c of CallWait w \<Rightarrow> [w] | _ \<Rightarrow> []) cs)"

definition sm_ok :: "'w semaphore \<Rightarrow> bool" where
  "sm_ok s \<longleftrightarrow> \<not> sm_destroyed s \<and> 1 \<le> sm_limit s \<and> 0 \<le> sm_active s \<and> sm_active s \<le> sm_limit s
     \<and> (sm_waiting s \<noteq> [] \<longrightarrow> sm_active s = sm_limit s)
     \<and> (sm_flushing s \<longrightarrow> 0 < sm_active s)"

lemma granted_simps [simp]:
  "granted [] = []" "granted ((Waiter w, True) # rs) = w # granted rs" "granted ((p, False) # rs) = granted rs"
  "granted ((Flusher, b) # rs) = granted rs" "granted (rs @ rs') = granted rs @ granted rs'"
  by (simp_all add: granted_def split: promise.split)

lemma waited_simps [simp]:
  "waited [] = []" "waited (CallWait w # cs) = w # waited cs" "waited (CallSignal # cs) = waited cs"
  "waited (CallFlush # cs) = waited cs" "waited (cs @ ds) = waited cs @ waited ds"
  by (simp_all add: waited_def)

lemma sm_release_full:
  "\<not> active < limit \<Longrightarrow> sm_release limit active ws = (active, ws, [])"
  by (cases ws) simp_all

lemma sm_release_one:
  "active + 1 = limit \<Longrightarrow> sm_release limit active (w # ws) = (limit, ws, [(Waiter w, True)])"
  by (simp add: sm_release_full)

text \<open>A signal of a held permit hands it to the head of the queue, or frees it.\<close>

lemma signal_waiting:
  assumes "sm_ok s" "sm_waiting s = w # ws"
  shows "sm_signal s = (s\<lparr>sm_waiting := ws\<rparr>, [(Waiter w, True)])"
  using assms sm_release_one [of "sm_active s - 1" "sm_limit s" w ws]
  by (cases s) (auto simp: sm_ok_def sm_signal_def)

lemma signal_free:
  assumes "sm_ok s" "sm_waiting s = []"
  shows "sm_signal s = (s\<lparr>sm_active := sm_active s - 1, sm_flushing := sm_flushing s \<and> sm_active s \<noteq> 1\<rparr>,
    if sm_flushing s \<and> sm_active s = 1 then [(Flusher, True)] else [])"
  using assms by (cases s) (auto simp: sm_ok_def sm_signal_def)

lemma sm_step_ok:
  assumes "sm_ok s" "sm_step c s = (t, rs)"
  shows "sm_ok t" "sm_limit t = sm_limit s" "sm_waiting s @ waited [c] = granted rs @ sm_waiting t"
proof -
  have "sm_ok t \<and> sm_limit t = sm_limit s \<and> sm_waiting s @ waited [c] = granted rs @ sm_waiting t"
  proof (cases c)
    case (CallWait w)
    with assms show ?thesis
      by (auto simp: sm_ok_def sm_wait_def split: if_splits)
  next
    case CallSignal
    show ?thesis
    proof (cases "sm_waiting s")
      case Nil
      with assms CallSignal signal_free [OF assms(1) Nil] show ?thesis
        by (auto simp: sm_ok_def split: if_splits)
    next
      case (Cons w ws)
      with assms CallSignal signal_waiting [OF assms(1) Cons] show ?thesis
        by (auto simp: sm_ok_def split: if_splits)
    qed
  next
    case CallFlush
    with assms show ?thesis
      by (auto simp: sm_ok_def sm_flush_def split: if_splits)
  qed
  then show "sm_ok t" "sm_limit t = sm_limit s" "sm_waiting s @ waited [c] = granted rs @ sm_waiting t"
    by blast+
qed

lemma sm_run_ok:
  assumes "sm_ok s" "sm_run cs s = (t, rs)"
  shows "sm_ok t \<and> sm_limit t = sm_limit s \<and> sm_waiting s @ waited cs = granted rs @ sm_waiting t"
  using assms
proof (induction cs arbitrary: s rs)
  case (Cons c cs)
  obtain u r where st: "sm_step c s = (u, r)" by force
  obtain v rs' where rn: "sm_run cs u = (v, rs')" by force
  note ok = sm_step_ok [OF Cons.prems(1) st]
  have t: "v = t" "rs = r @ rs'"
    using Cons.prems(2) st rn by simp_all
  from Cons.IH [OF ok(1), of rs'] rn t(1) have ih: "sm_ok t" "sm_limit t = sm_limit u"
    "sm_waiting u @ waited cs = granted rs' @ sm_waiting t"
    by simp_all
  have "waited (c # cs) = waited [c] @ waited cs"
    by (simp add: waited_def)
  with ok(3) ih(3) have "sm_waiting s @ waited (c # cs) = granted rs @ sm_waiting t"
    unfolding t(2) granted_simps by (metis append_assoc)
  with ih ok(2) show ?case by simp
qed simp

lemma signals_serve:
  assumes "sm_ok s" "sm_waiting s = ws @ rest"
  shows "granted (snd (sm_run (replicate (length ws) CallSignal) s)) = ws
    \<and> sm_waiting (fst (sm_run (replicate (length ws) CallSignal) s)) = rest"
  using assms
proof (induction ws arbitrary: s)
  case (Cons w ws)
  then have sig: "sm_signal s = (s\<lparr>sm_waiting := ws @ rest\<rparr>, [(Waiter w, True)])" and act: "sm_active s > 0"
    using signal_waiting [of s w "ws @ rest"] by (auto simp: sm_ok_def)
  have "sm_ok (s\<lparr>sm_waiting := ws @ rest\<rparr>)"
    using Cons.prems by (simp add: sm_ok_def)
  from Cons.IH [OF this] sig act show ?case
    by (auto simp: case_prod_unfold Let_def)
qed simp

text \<open>
  C17: the semaphore admits in order, never too many, and never forgets a waiter. For any calls of
  \<open>wait\<close>, \<open>flush\<close> and \<open>signal\<close> (of permits that are held) on a new semaphore: the waiters granted so
  far, followed by those still waiting, are exactly the callers of \<open>wait\<close> in the order of their calls;
  the active permits stay between zero and the limit, and nobody waits while a permit is free. And in
  any such state, as many signals as there are waiters up to a given one grant them all, in order.
\<close>
theorem semaphore_serves_in_order:
  assumes "1 \<le> limit" "sm_run cs (Semaphore_new limit) = (s, rs)" "sm_waiting s = ws @ rest"
  shows "granted rs @ sm_waiting s = waited cs \<and> 0 \<le> sm_active s \<and> sm_active s \<le> limit
    \<and> (sm_waiting s \<noteq> [] \<longrightarrow> sm_active s = limit)
    \<and> granted (snd (sm_run (replicate (length ws) CallSignal) s)) = ws"
proof -
  have "sm_ok (Semaphore_new limit :: 'a semaphore)"
    using assms(1) by (simp add: sm_ok_def Semaphore_new_def)
  from sm_run_ok [OF this assms(2)] have "sm_ok s" "sm_limit s = limit" "waited cs = granted rs @ sm_waiting s"
    by (simp_all add: Semaphore_new_def)
  with signals_serve [OF _ assms(3)] show ?thesis
    by (auto simp: sm_ok_def)
qed

theorem semaphore_serves_in_order_witness:
  "granted (snd (sm_run [CallSignal, CallSignal] (fst (sm_run (map CallWait [1, 2, 3, 4]) (Semaphore_new 2))))) = [3, 4 :: nat]"
  using semaphore_serves_in_order [of 2 "map CallWait [1, 2, 3, 4]" _ _ "[3, 4 :: nat]" "[]"]
  by (simp add: Semaphore_new_def sm_wait_def eval_nat_numeral)

section \<open>The sleeper\<close>

text \<open>
  \<open>pause\<close> makes a promise (its number), \<open>_resolve\<close> is the promise the next trigger resolves,
  \<open>_timeout\<close> whether a timer is armed. Every operation returns the promises it resolves.
\<close>

record sleeper =
  sp_timeout :: bool
  sp_resolve :: "nat option"

definition Sleeper_new :: sleeper where
  "Sleeper_new = \<lparr>sp_timeout = False, sp_resolve = None\<rparr>"

definition sp_trigger :: "sleeper \<Rightarrow> sleeper \<times> nat list" where
  "sp_trigger s = (case sp_resolve s of None \<Rightarrow> (s, [])
     | Some p \<Rightarrow> (s\<lparr>sp_timeout := False, sp_resolve := None\<rparr>, [p]))"

definition sp_pause :: "nat \<Rightarrow> sleeper \<Rightarrow> sleeper \<times> nat list" where
  "sp_pause p s =
     (let s = s\<lparr>sp_resolve := Some p\<rparr>;
          (s, rs) = (if sp_timeout s then sp_trigger s else (s, []))
      in (s\<lparr>sp_timeout := True\<rparr>, rs))"

definition sp_resume :: "sleeper \<Rightarrow> sleeper \<times> nat list" where
  "sp_resume s = (if sp_timeout s then sp_trigger s else (s, []))"

text \<open>
  A second pause before the first has ended: the executor of the new promise runs before the pending
  one is triggered, so the new promise is resolved at once, and the first is never resolved, whatever
  follows.
\<close>

datatype sp_call = CallPause nat | CallResume | TimerFires

fun sp_step :: "sp_call \<Rightarrow> sleeper \<Rightarrow> sleeper \<times> nat list" where
  "sp_step (CallPause p) s = sp_pause p s"
| "sp_step CallResume s = sp_resume s"
| "sp_step TimerFires s = sp_trigger s"

fun sp_run :: "sp_call list \<Rightarrow> sleeper \<Rightarrow> nat list" where
  "sp_run [] s = []"
| "sp_run (c # cs) s = snd (sp_step c s) @ sp_run cs (fst (sp_step c s))"

lemma sp_run_fresh:
  "sp_resolve s \<noteq> Some p \<Longrightarrow> CallPause p \<notin> set cs \<Longrightarrow> p \<notin> set (sp_run cs s)"
proof (induction cs arbitrary: s)
  case (Cons c cs)
  then show ?case
    by (cases c) (auto simp: sp_pause_def sp_resume_def sp_trigger_def Let_def split: option.splits if_splits)
qed simp

lemma overlapping_pause_lost:
  assumes "p \<noteq> q" "CallPause p \<notin> set cs"
  shows "sp_run (CallPause p # CallPause q # cs) Sleeper_new = q # sp_run cs \<lparr>sp_timeout = True, sp_resolve = None\<rparr>"
    and "p \<notin> set (sp_run (CallPause p # CallPause q # cs) Sleeper_new)"
proof -
  show r: "sp_run (CallPause p # CallPause q # cs) Sleeper_new = q # sp_run cs \<lparr>sp_timeout = True, sp_resolve = None\<rparr>"
    by (simp add: sp_pause_def sp_trigger_def Sleeper_new_def)
  show "p \<notin> set (sp_run (CallPause p # CallPause q # cs) Sleeper_new)"
    unfolding r using assms sp_run_fresh [of "\<lparr>sp_timeout = True, sp_resolve = None\<rparr>" p cs] by simp
qed

end
