(* ===== verification/Nat_Sampler.thy ===== *)
theory Nat_Sampler
  imports Compact_Encoding DHT_Constants "HOL-Library.Multiset"
begin

text \<open>
  \<^verbatim>\<open>lib/nat.js\<close>: the sampler that learns, from the addresses other nodes see, what kind of firewall
  the node is behind. Whether the DHT is firewalled and its table of nodes are arguments of each call,
  \<open>Inl ()\<close> is a TypeError. A visited node is kept by its address; the public addresses are listed by
  host and port (the objects the code lists also carry the hit counter, which nobody reads there).
\<close>

section \<open>Samples\<close>

record sample =
  sa_host :: string
  sa_port :: nat
  sa_hits :: nat

abbreviation sa_key :: "sample \<Rightarrow> string \<times> nat" where
  "sa_key s \<equiv> (sa_host s, sa_port s)"

text \<open>The inner loop of \<open>addSample\<close>, on the samples before \<open>s\<close> from the nearest to the first.\<close>

fun bubble :: "sample list \<Rightarrow> sample \<Rightarrow> sample list" where
  "bubble [] s = [s]"
| "bubble (prev # before) s =
     (if sa_hits prev \<ge> sa_hits s then s # prev # before else prev # bubble before s)"

text \<open>The outer loop, with the samples already passed in reverse.\<close>

fun addSampleFrom :: "sample list \<Rightarrow> sample list \<Rightarrow> string \<Rightarrow> nat \<Rightarrow> sample list" where
  "addSampleFrom before [] h p = rev before @ [\<lparr>sa_host = h, sa_port = p, sa_hits = 1\<rparr>]"
| "addSampleFrom before (s # ss) h p =
     (if sa_port s \<noteq> p \<or> sa_host s \<noteq> h then addSampleFrom (s # before) ss h p
      else rev (bubble before (s\<lparr>sa_hits := sa_hits s + 1\<rparr>)) @ ss)"

definition addSample :: "sample list \<Rightarrow> string \<Rightarrow> nat \<Rightarrow> sample list" where
  "addSample samples h p = addSampleFrom [] samples h p"

section \<open>The sampler\<close>

record nat_sampler =
  na_samplesHost :: "sample list"
  na_samplesFull :: "sample list"
  na_visited :: "address \<Rightarrow> nat option"
  na_minSamples :: nat
  na_autoSampling :: bool
  na_sampled :: nat
  na_firewall :: nat
  na_addresses :: "(string \<times> nat) list option"
  na_frozen :: bool
  na_resolved :: bool
  na_pending :: nat
  na_retry :: bool

definition Nat_new :: "bool \<Rightarrow> nat_sampler" where
  "Nat_new firewalled = \<lparr>na_samplesHost = [], na_samplesFull = [], na_visited = Map.empty, na_minSamples = 4,
     na_autoSampling = False, na_sampled = 0,
     na_firewall = (if firewalled then UNKNOWN_FIREWALL else OPEN_FIREWALL), na_addresses = None,
     na_frozen = False, na_resolved = False, na_pending = 0, na_retry = False\<rparr>"

definition na_updateFirewall :: "bool \<Rightarrow> nat_sampler \<Rightarrow> unit + nat_sampler" where
  "na_updateFirewall firewalled s =
     (if \<not> firewalled then Inr (s\<lparr>na_firewall := OPEN_FIREWALL\<rparr>)
      else if na_sampled s < 3 then Inr s
      else (case na_samplesFull s of [] \<Rightarrow> Inl ()
        | best # others \<Rightarrow>
            if sa_hits best \<ge> 3 then Inr (s\<lparr>na_firewall := CONSISTENT_FIREWALL\<rparr>)
            else if sa_hits best = 1 then Inr (s\<lparr>na_firewall := RANDOM_FIREWALL\<rparr>)
            else if length (na_samplesHost s) = 1 \<and> na_sampled s > 3 then Inr (s\<lparr>na_firewall := RANDOM_FIREWALL\<rparr>)
            else if length (na_samplesHost s) > 1 \<and> others = [] then Inl ()
            else if length (na_samplesHost s) > 1 \<and> sa_hits (hd others) > 1 then Inr (s\<lparr>na_firewall := CONSISTENT_FIREWALL\<rparr>)
            else if na_sampled s > 4 then Inr (s\<lparr>na_firewall := RANDOM_FIREWALL\<rparr>)
            else Inr s))"

text \<open>The addresses of a consistent firewall: those seen twice, and enough others to have two.\<close>

fun pickAddresses :: "sample list \<Rightarrow> (string \<times> nat) list \<Rightarrow> (string \<times> nat) list" where
  "pickAddresses [] acc = acc"
| "pickAddresses (a # as) acc =
     pickAddresses as (if sa_hits a \<ge> 2 \<or> length acc < 2 then acc @ [sa_key a] else acc)"

text \<open>\<open>[this._samplesHost[0]]\<close>, the empty list standing for \<open>[undefined]\<close> when there is no sample.\<close>

definition na_updateAddresses :: "nat_sampler \<Rightarrow> nat_sampler" where
  "na_updateAddresses s =
     (if na_firewall s = UNKNOWN_FIREWALL then s\<lparr>na_addresses := None\<rparr>
      else if na_firewall s = RANDOM_FIREWALL
      then s\<lparr>na_addresses := Some (map sa_key (take 1 (na_samplesHost s)))\<rparr>
      else if na_firewall s = CONSISTENT_FIREWALL
      then s\<lparr>na_addresses := Some (pickAddresses (na_samplesFull s) [])\<rparr>
      else s)"

definition na_update :: "bool \<Rightarrow> nat_sampler \<Rightarrow> unit + nat_sampler" where
  "na_update firewalled s =
     (let s = (if firewalled \<and> na_firewall s = OPEN_FIREWALL then s\<lparr>na_firewall := UNKNOWN_FIREWALL\<rparr> else s)
      in bindE (na_updateFirewall firewalled s) (\<lambda>s. Inr (na_updateAddresses s)))"

definition na_unfreeze :: "bool \<Rightarrow> nat_sampler \<Rightarrow> unit + nat_sampler" where
  "na_unfreeze firewalled s = bindE (na_updateFirewall firewalled (s\<lparr>na_frozen := False\<rparr>)) (\<lambda>s. Inr (na_updateAddresses s))"

definition na_freeze :: "nat_sampler \<Rightarrow> nat_sampler" where
  "na_freeze s = s\<lparr>na_frozen := True\<rparr>"

definition na_destroy :: "nat_sampler \<Rightarrow> nat_sampler" where
  "na_destroy s = s\<lparr>na_autoSampling := True, na_minSamples := 0, na_resolved := True\<rparr>"

definition na_add :: "bool \<Rightarrow> address \<Rightarrow> address \<Rightarrow> nat_sampler \<Rightarrow> unit + nat_sampler" where
  "na_add firewalled addr origin s =
     (if na_visited s origin = Some 2 then Inr s
      else (let s = s\<lparr>na_visited := (na_visited s)(origin \<mapsto> 2)\<rparr>;
                s = s\<lparr>na_samplesHost := addSample (na_samplesHost s) (host addr) 0\<rparr>;
                s = s\<lparr>na_samplesFull := addSample (na_samplesFull s) (host addr) (port addr)\<rparr>;
                s = s\<lparr>na_sampled := na_sampled s + 1\<rparr>
        in bindE (if (na_sampled s \<ge> 3 \<or> \<not> firewalled) \<and> \<not> na_frozen s then na_update firewalled s else Inr s)
          (\<lambda>s. Inr (if na_firewall s = CONSISTENT_FIREWALL \<or> na_firewall s = OPEN_FIREWALL
              \<or> na_sampled s \<ge> na_minSamples s then s\<lparr>na_resolved := True\<rparr> else s))))"

section \<open>Automatic sampling\<close>

text \<open>
  The loop over the table of nodes, latest first: \<open>skip\<close> nodes are passed over, then every node not
  yet visited is pinged while samples and pings together are fewer than wanted.
\<close>

fun samplePings :: "nat \<Rightarrow> nat \<Rightarrow> address list \<Rightarrow> nat_sampler \<Rightarrow> nat_sampler \<times> address list" where
  "samplePings maxPings skip [] s = (s, [])"
| "samplePings maxPings skip (node # nodes) s =
     (if \<not> na_sampled s + na_pending s < maxPings then (s, [])
      else if skip > 0 then samplePings maxPings (skip - 1) nodes s
      else if na_visited s node \<noteq> None then samplePings maxPings 0 nodes s
      else (let (t, ps) = samplePings maxPings 0 nodes
                (s\<lparr>na_visited := (na_visited s)(node \<mapsto> 1), na_pending := na_pending s + 1\<rparr>)
        in (t, node # ps)))"

text \<open>\<open>autoSample\<close> up to its own call of \<open>onskip\<close>, which the extra pending entry stands for.\<close>

definition startSampling :: "address list \<Rightarrow> bool \<Rightarrow> nat_sampler \<Rightarrow> nat_sampler \<times> address list" where
  "startSampling nodes retry s =
     (let (t, ps) = samplePings (na_minSamples s) (if length nodes \<ge> 8 then 5 else 0) nodes
        (s\<lparr>na_autoSampling := True, na_pending := 0, na_retry := retry\<rparr>)
      in (t\<lparr>na_pending := na_pending t + 1\<rparr>, ps))"

text \<open>The end of a ping, answered or not; a first round that falls short is followed by a second.\<close>

definition na_onskip1 :: "nat_sampler \<Rightarrow> nat_sampler" where
  "na_onskip1 s =
     (let s = s\<lparr>na_pending := na_pending s - 1\<rparr>
      in if na_pending s = 0 \<and> na_sampled s < na_minSamples s then s\<lparr>na_resolved := True\<rparr> else s)"

definition na_onskip :: "address list \<Rightarrow> nat_sampler \<Rightarrow> nat_sampler \<times> address list" where
  "na_onskip nodes s =
     (if na_pending s = 1 \<and> na_sampled s < na_minSamples s \<and> na_retry s
      then (let (t, ps) = startSampling nodes False (s\<lparr>na_pending := 0, na_autoSampling := False\<rparr>)
        in (na_onskip1 t, ps))
      else (na_onskip1 s, []))"

definition na_autoSample :: "address list \<Rightarrow> bool \<Rightarrow> nat_sampler \<Rightarrow> nat_sampler \<times> address list" where
  "na_autoSample nodes retry s =
     (if na_autoSampling s then (s, [])
      else (let (t, ps) = startSampling nodes retry s; (u, qs) = na_onskip nodes t in (u, ps @ qs)))"

definition na_onpong :: "bool \<Rightarrow> address list \<Rightarrow> address \<Rightarrow> address \<Rightarrow> nat_sampler \<Rightarrow> unit + nat_sampler \<times> address list" where
  "na_onpong firewalled nodes addr origin s =
     bindE (na_add firewalled addr origin s) (\<lambda>s. Inr (na_onskip nodes s))"

section \<open>What the samples count\<close>

text \<open>The samples of a log of addresses: one per address, with its number of occurrences, most frequent first.\<close>

definition samples_of :: "(string \<times> nat) list \<Rightarrow> sample list \<Rightarrow> bool" where
  "samples_of log ss \<longleftrightarrow> distinct (map sa_key ss) \<and> sorted_wrt (\<lambda>a b. sa_hits a \<ge> sa_hits b) ss
     \<and> set (map sa_key ss) = set log \<and> (\<forall>s \<in> set ss. sa_hits s = count_list log (sa_key s))"

lemma mset_bubble [simp]: "mset (bubble before s) = add_mset s (mset before)"
  by (induction before) auto

lemma set_bubble [simp]: "set (bubble before s) = insert s (set before)"
  by (metis mset_bubble set_mset_add_mset_insert set_mset_mset)

text \<open>Bubbling keeps the order, when what follows is not above the old place of the sample.\<close>

lemma sorted_bubble:
  assumes "sorted_wrt (\<lambda>a b. sa_hits a \<ge> sa_hits b) (rev before)"
  shows "sorted_wrt (\<lambda>a b. sa_hits a \<ge> sa_hits b) (rev (bubble before s))"
  using assms by (induction before) (auto simp: sorted_wrt_append)

lemma sorted_bubble_append:
  assumes "sorted_wrt (\<lambda>a b. sa_hits a \<ge> sa_hits b) (rev before @ s # ss)" "sa_hits t = sa_hits s + 1"
  shows "sorted_wrt (\<lambda>a b. sa_hits a \<ge> sa_hits b) (rev (bubble before t) @ ss)"
proof -
  have "sorted_wrt (\<lambda>a b. sa_hits a \<ge> sa_hits b) (rev before)"
    using assms(1) by (simp add: sorted_wrt_append)
  from sorted_bubble [OF this, of t] show ?thesis
    using assms by (auto simp: sorted_wrt_append)
qed

lemma addSampleFrom_mset:
  assumes "distinct (map sa_key (rev before @ ss))" "(h, p) \<notin> sa_key ` set before"
  shows "mset (addSampleFrom before ss h p) =
    (if \<exists>s \<in> set ss. sa_key s = (h, p)
     then mset before + image_mset (\<lambda>s. if sa_key s = (h, p) then s\<lparr>sa_hits := sa_hits s + 1\<rparr> else s) (mset ss)
     else add_mset \<lparr>sa_host = h, sa_port = p, sa_hits = 1\<rparr> (mset before + mset ss))"
  using assms
proof (induction before ss h p rule: addSampleFrom.induct)
  case (2 before s ss h p)
  show ?case
  proof (cases "sa_key s = (h, p)")
    case True
    then have "\<forall>t \<in> set ss. sa_key t \<noteq> (h, p)"
      using 2(2) by (auto simp: image_iff)
    then have "image_mset (\<lambda>s. if sa_key s = (h, p) then s\<lparr>sa_hits := sa_hits s + 1\<rparr> else s) (mset ss) = mset ss"
      by (auto intro: multiset.map_ident_strong)
    with True show ?thesis by simp
  next
    case False
    with 2 have "mset (addSampleFrom (s # before) ss h p) =
        (if \<exists>s \<in> set ss. sa_key s = (h, p)
         then mset (s # before) + image_mset (\<lambda>s. if sa_key s = (h, p) then s\<lparr>sa_hits := sa_hits s + 1\<rparr> else s) (mset ss)
         else add_mset \<lparr>sa_host = h, sa_port = p, sa_hits = 1\<rparr> (mset (s # before) + mset ss))"
      by (intro 2(1)) auto
    with False show ?thesis by auto
  qed
qed auto

lemma addSampleFrom_sorted:
  assumes "sorted_wrt (\<lambda>a b. sa_hits a \<ge> sa_hits b) (rev before @ ss)" "\<forall>s \<in> set before \<union> set ss. sa_hits s \<ge> 1"
  shows "sorted_wrt (\<lambda>a b. sa_hits a \<ge> sa_hits b) (addSampleFrom before ss h p)"
  using assms
proof (induction before ss h p rule: addSampleFrom.induct)
  case (2 before s ss h p)
  then show ?case
    using sorted_bubble_append [of before s ss "s\<lparr>sa_hits := sa_hits s + 1\<rparr>"] by auto
qed (auto simp: sorted_wrt_append)

lemma count_list_snoc: "count_list (xs @ [x]) y = count_list xs y + (if x = y then 1 else 0)"
  by (induction xs) auto

lemma samples_of_hits: "samples_of log ss \<Longrightarrow> s \<in> set ss \<Longrightarrow> sa_hits s \<ge> 1"
  by (metis (mono_tags, lifting) One_nat_def Suc_leI count_list_0_iff gr0I image_eqI list.set_map samples_of_def)

lemma samples_of_add:
  assumes "samples_of log ss"
  shows "samples_of (log @ [(h, p)]) (addSample ss h p)"
proof -
  let ?bump = "\<lambda>s. if sa_key s = (h, p) then s\<lparr>sa_hits := sa_hits s + 1\<rparr> else s"
  let ?new = "\<lparr>sa_host = h, sa_port = p, sa_hits = 1\<rparr>"
  from assms have d: "distinct (map sa_key ss)" and keys: "set (map sa_key ss) = set log"
    and hits: "\<And>s. s \<in> set ss \<Longrightarrow> sa_hits s = count_list log (sa_key s)"
    and sorted: "sorted_wrt (\<lambda>a b. sa_hits a \<ge> sa_hits b) ss"
    by (auto simp: samples_of_def)
  have srt: "sorted_wrt (\<lambda>a b. sa_hits a \<ge> sa_hits b) (addSample ss h p)"
    unfolding addSample_def using sorted samples_of_hits [OF assms] by (intro addSampleFrom_sorted) auto
  have ms: "mset (addSample ss h p) = (if \<exists>s \<in> set ss. sa_key s = (h, p) then mset (map ?bump ss) else mset (?new # ss))"
    using addSampleFrom_mset [of "[]" ss h p] d by (auto simp: addSample_def)
  show ?thesis
  proof (cases "\<exists>s \<in> set ss. sa_key s = (h, p)")
    case True
    then have m: "mset (addSample ss h p) = mset (map ?bump ss)"
      using ms by (simp only: if_True)
    have k: "map sa_key (map ?bump ss) = map sa_key ss"
      by (auto simp: comp_def)
    have "mset (map sa_key (addSample ss h p)) = mset (map sa_key (map ?bump ss))"
      by (simp only: mset_map [of sa_key] m)
    then have mk: "mset (map sa_key (addSample ss h p)) = mset (map sa_key ss)"
      by (simp only: k)
    then have dist: "distinct (map sa_key (addSample ss h p))"
      using d mset_eq_imp_distinct_iff by blast
    have st: "set (addSample ss h p) = ?bump ` set ss"
      using mset_eq_setD [OF m] by simp
    have "(h, p) \<in> set log"
      using True keys by force
    moreover have "set (map sa_key (addSample ss h p)) = set log"
      using mset_eq_setD [OF mk] keys by simp
    moreover have "sa_hits (?bump s) = count_list (log @ [(h, p)]) (sa_key (?bump s))" if "s \<in> set ss" for s
      using hits [OF that] by (auto simp: count_list_snoc)
    then have "\<forall>x \<in> set (addSample ss h p). sa_hits x = count_list (log @ [(h, p)]) (sa_key x)"
      unfolding st by blast
    ultimately show ?thesis
      using srt dist unfolding samples_of_def by (simp add: insert_absorb)
  next
    case False
    then have m: "mset (addSample ss h p) = mset (?new # ss)"
      using ms by (simp only: if_False)
    have n: "(h, p) \<notin> set log"
      using False keys by force
    have "mset (map sa_key (addSample ss h p)) = mset (map sa_key (?new # ss))"
      by (simp only: mset_map [of sa_key] m)
    then have dist: "distinct (map sa_key (addSample ss h p))"
      using d n keys mset_eq_imp_distinct_iff [of "map sa_key (addSample ss h p)" "map sa_key (?new # ss)"] by simp
    have st: "set (addSample ss h p) = insert ?new (set ss)"
      using mset_eq_setD [OF m] by simp
    have "set (map sa_key (addSample ss h p)) = set (log @ [(h, p)])"
      using st keys by simp
    moreover have "sa_hits s = count_list (log @ [(h, p)]) (sa_key s)" if "s \<in> set ss" for s
      using hits [OF that] False that by (auto simp: count_list_snoc)
    moreover have "count_list log (h, p) = 0"
      using n by (simp add: count_list_0_iff)
    ultimately show ?thesis
      using srt dist unfolding samples_of_def st by (simp add: count_list_snoc)
  qed
qed

section \<open>Runs of the sampler\<close>

datatype nat_call = NaAdd bool address address | NaUpdate bool | NaFreeze | NaUnfreeze bool | NaDestroy
  | NaAutoSample "address list" bool | NaPong bool "address list" address address | NaSkip "address list"

text \<open>The answers that count: the node that sent one, and the address it saw.\<close>

definition newAnswer :: "address \<Rightarrow> address \<Rightarrow> nat_sampler \<Rightarrow> (address \<times> (string \<times> nat)) list" where
  "newAnswer addr origin s = (if na_visited s origin = Some 2 then [] else [(origin, (host addr, port addr))])"

fun na_step :: "nat_call \<Rightarrow> nat_sampler \<Rightarrow> unit + (nat_sampler \<times> (address \<times> (string \<times> nat)) list)" where
  "na_step (NaAdd fw addr origin) s = bindE (na_add fw addr origin s) (\<lambda>t. Inr (t, newAnswer addr origin s))"
| "na_step (NaUpdate fw) s = bindE (na_update fw s) (\<lambda>t. Inr (t, []))"
| "na_step NaFreeze s = Inr (na_freeze s, [])"
| "na_step (NaUnfreeze fw) s = bindE (na_unfreeze fw s) (\<lambda>t. Inr (t, []))"
| "na_step NaDestroy s = Inr (na_destroy s, [])"
| "na_step (NaAutoSample nodes retry) s = Inr (fst (na_autoSample nodes retry s), [])"
| "na_step (NaPong fw nodes addr origin) s = bindE (na_onpong fw nodes addr origin s) (\<lambda>(t, _). Inr (t, newAnswer addr origin s))"
| "na_step (NaSkip nodes) s = Inr (fst (na_onskip nodes s), [])"

fun na_run :: "nat_call list \<Rightarrow> nat_sampler \<Rightarrow> unit + (nat_sampler \<times> (address \<times> (string \<times> nat)) list)" where
  "na_run [] s = Inr (s, [])"
| "na_run (c # cs) s = bindE (na_step c s) (\<lambda>(t, l). bindE (na_run cs t) (\<lambda>(u, ls). Inr (u, l @ ls)))"

text \<open>
  The invariant, for the log of answers: every sender answers once, both lists of samples are those of
  the log, a consistent firewall has an address seen twice, a random one at least three answers.
\<close>

definition seenTwice :: "(address \<times> (string \<times> nat)) list \<Rightarrow> bool" where
  "seenTwice log \<longleftrightarrow> (\<exists>a. count_list (map snd log) a \<ge> 2)"

definition na_ok :: "nat_sampler \<Rightarrow> (address \<times> (string \<times> nat)) list \<Rightarrow> bool" where
  "na_ok s log \<longleftrightarrow> distinct (map fst log) \<and> (\<forall>a. na_visited s a = Some 2 \<longleftrightarrow> a \<in> fst ` set log)
     \<and> samples_of (map snd log) (na_samplesFull s) \<and> samples_of (map (\<lambda>(_, h, _). (h, 0)) log) (na_samplesHost s)
     \<and> na_sampled s = length log
     \<and> (na_firewall s = CONSISTENT_FIREWALL \<longrightarrow> seenTwice log)
     \<and> (na_firewall s = RANDOM_FIREWALL \<longrightarrow> length log \<ge> 3)"

lemma samples_of_max:
  assumes "samples_of log (s # ss)"
  shows "count_list log (sa_key s) = sa_hits s"
  using assms by (simp add: samples_of_def)

lemma samples_of_one_host:
  assumes "samples_of (map snd log) [s]" "samples_of (map (\<lambda>(_, h, _). (h, 0)) log) hs"
  shows "length hs \<le> 1"
proof -
  have "set (map snd log) = {sa_key s}"
    using assms(1) by (simp add: samples_of_def)
  then have "\<forall>x \<in> set log. snd x = sa_key s"
    by auto
  then have "set (map (\<lambda>(_, h, _). (h, 0)) log) \<subseteq> {(sa_host s, 0 :: nat)}"
    by (auto split: prod.splits)
  then have "set (map sa_key hs) \<subseteq> {(sa_host s, 0)}"
    using assms(2) by (simp add: samples_of_def)
  moreover have "distinct (map sa_key hs)"
    using assms(2) by (simp add: samples_of_def)
  ultimately have "length (map sa_key hs) \<le> card {(sa_host s, 0 :: nat)}"
    using distinct_card [of "map sa_key hs"] card_mono [of "{(sa_host s, 0 :: nat)}" "set (map sa_key hs)"] by simp
  then show ?thesis by simp
qed

lemma updateFirewall_ok:
  assumes "na_ok s log"
  shows "\<exists>t. na_updateFirewall fw s = Inr t \<and> na_ok t log \<and> na_frozen t = na_frozen s"
proof (cases "\<not> fw \<or> na_sampled s < 3")
  case True
  with assms show ?thesis
    by (auto simp: na_updateFirewall_def na_ok_def FIREWALL_defs)
next
  case False
  with assms have three: "length log \<ge> 3"
    by (simp add: na_ok_def)
  have full: "samples_of (map snd log) (na_samplesFull s)"
    and hosts: "samples_of (map (\<lambda>(_, h, _). (h, 0)) log) (na_samplesHost s)"
    using assms by (simp_all add: na_ok_def)
  have "na_samplesFull s \<noteq> []"
    using full three by (cases log) (auto simp: samples_of_def)
  then obtain b others where b: "na_samplesFull s = b # others"
    by (cases "na_samplesFull s") auto
  have others: "\<not> (length (na_samplesHost s) > 1 \<and> others = [])"
    using samples_of_one_host [OF _ hosts, of b] full b by (cases others) auto
  have consistent: "na_ok (s\<lparr>na_firewall := CONSISTENT_FIREWALL\<rparr>) log" if "count_list (map snd log) a \<ge> 2" for a
  proof -
    from that have "seenTwice log"
      unfolding seenTwice_def by blast
    with assms show ?thesis
      by (simp add: na_ok_def FIREWALL_defs)
  qed
  have random: "na_ok (s\<lparr>na_firewall := RANDOM_FIREWALL\<rparr>) log"
    using assms three by (simp add: na_ok_def FIREWALL_defs)
  have hits: "count_list (map snd log) (sa_key b) = sa_hits b"
    using full b samples_of_max by metis
  have hits2: "count_list (map snd log) (sa_key (hd others)) = sa_hits (hd others)" if "others \<noteq> []"
    using full b that by (simp add: samples_of_def)
  show ?thesis
    using assms others random hits hits2 b False consistent [of "sa_key b"] consistent [of "sa_key (hd others)"]
    by (auto simp: na_updateFirewall_def)
qed

lemma updateAddresses_ok: "na_ok s log \<Longrightarrow> na_ok (na_updateAddresses s) log"
  by (auto simp: na_updateAddresses_def na_ok_def FIREWALL_defs)

lemma update_ok:
  assumes "na_ok s log"
  shows "\<exists>t. na_update fw s = Inr t \<and> na_ok t log"
proof -
  have "na_ok (if fw \<and> na_firewall s = OPEN_FIREWALL then s\<lparr>na_firewall := UNKNOWN_FIREWALL\<rparr> else s) log"
    using assms by (auto simp: na_ok_def FIREWALL_defs)
  from updateFirewall_ok [OF this, of fw] show ?thesis
    using updateAddresses_ok by (auto simp: na_update_def)
qed

lemma unfreeze_ok:
  assumes "na_ok s log"
  shows "\<exists>t. na_unfreeze fw s = Inr t \<and> na_ok t log"
proof -
  have "na_ok (s\<lparr>na_frozen := False\<rparr>) log"
    using assms by (simp add: na_ok_def)
  from updateFirewall_ok [OF this, of fw] show ?thesis
    using updateAddresses_ok by (auto simp: na_unfreeze_def)
qed

lemma add_ok:
  assumes "na_ok s log"
  shows "\<exists>t. na_add fw addr origin s = Inr t \<and> na_ok t (log @ newAnswer addr origin s)"
proof (cases "na_visited s origin = Some 2")
  case True
  with assms show ?thesis by (simp add: na_add_def newAnswer_def)
next
  case False
  define s1 where "s1 = s\<lparr>na_visited := (na_visited s)(origin \<mapsto> 2),
    na_samplesHost := addSample (na_samplesHost s) (host addr) 0,
    na_samplesFull := addSample (na_samplesFull s) (host addr) (port addr), na_sampled := na_sampled s + 1\<rparr>"
  let ?log = "log @ [(origin, host addr, port addr)]"
  have seen: "seenTwice log \<Longrightarrow> seenTwice ?log"
    unfolding seenTwice_def by (metis count_list_append le_add1 map_append order_trans)
  have samples: "samples_of (map snd ?log) (na_samplesFull s1)"
    "samples_of (map (\<lambda>(_, h, _). (h, 0)) ?log) (na_samplesHost s1)"
    using assms samples_of_add by (simp_all add: na_ok_def s1_def)
  have "distinct (map fst ?log)" "\<forall>a. na_visited s1 a = Some 2 \<longleftrightarrow> a \<in> fst ` set ?log"
    using assms False by (auto simp: na_ok_def s1_def)
  with samples seen assms have ok1: "na_ok s1 ?log"
    unfolding na_ok_def by (auto simp: s1_def)
  then obtain t where t: "(if (na_sampled s1 \<ge> 3 \<or> \<not> fw) \<and> \<not> na_frozen s1 then na_update fw s1 else Inr s1) = Inr t" "na_ok t ?log"
    using update_ok [OF ok1, of fw] by (cases "(na_sampled s1 \<ge> 3 \<or> \<not> fw) \<and> \<not> na_frozen s1") auto
  have "na_add fw addr origin s =
      bindE (if (na_sampled s1 \<ge> 3 \<or> \<not> fw) \<and> \<not> na_frozen s1 then na_update fw s1 else Inr s1)
        (\<lambda>s. Inr (if na_firewall s = CONSISTENT_FIREWALL \<or> na_firewall s = OPEN_FIREWALL
          \<or> na_sampled s \<ge> na_minSamples s then s\<lparr>na_resolved := True\<rparr> else s))"
    using False by (simp add: na_add_def s1_def Let_def)
  then have "na_add fw addr origin s = Inr (if na_firewall t = CONSISTENT_FIREWALL \<or> na_firewall t = OPEN_FIREWALL
      \<or> na_sampled t \<ge> na_minSamples t then t\<lparr>na_resolved := True\<rparr> else t)"
    unfolding t(1) by simp
  moreover have "na_ok (t\<lparr>na_resolved := True\<rparr>) ?log"
    using t(2) by (simp add: na_ok_def)
  ultimately show ?thesis
    using False t(2) by (simp add: newAnswer_def)
qed

lemma samplePings_ok:
  "na_ok s log \<Longrightarrow> na_ok (fst (samplePings m k nodes s)) log"
proof (induction m k nodes s rule: samplePings.induct)
  case (2 m k node nodes s)
  have "na_ok (s\<lparr>na_visited := (na_visited s)(node \<mapsto> 1), na_pending := na_pending s + 1\<rparr>) log"
    if "na_visited s node = None"
  proof -
    have "node \<notin> fst ` set log"
      using 2(4) that by (metis na_ok_def option.distinct(1))
    with 2(4) show ?thesis
      by (simp add: na_ok_def)
  qed
  with 2 show ?case
    by (simp add: case_prod_unfold Let_def)
qed simp

lemma na_ok_cong:
  assumes "na_ok s log" "na_visited t = na_visited s" "na_samplesFull t = na_samplesFull s"
    "na_samplesHost t = na_samplesHost s" "na_sampled t = na_sampled s" "na_firewall t = na_firewall s"
  shows "na_ok t log"
  using assms by (simp add: na_ok_def)

lemma startSampling_ok:
  assumes "na_ok s log"
  shows "na_ok (fst (startSampling nodes retry s)) log"
proof -
  let ?s = "s\<lparr>na_autoSampling := True, na_pending := 0, na_retry := retry\<rparr>"
  have "na_ok ?s log"
    by (rule na_ok_cong [OF assms]) simp_all
  from samplePings_ok [OF this] show ?thesis
    unfolding startSampling_def case_prod_unfold Let_def fst_conv by (rule na_ok_cong) simp_all
qed

lemma onskip1_ok: "na_ok s log \<Longrightarrow> na_ok (na_onskip1 s) log"
  by (simp add: na_onskip1_def Let_def na_ok_def)

lemma onskip_ok:
  assumes "na_ok s log"
  shows "na_ok (fst (na_onskip nodes s)) log"
proof -
  have "na_ok (s\<lparr>na_pending := 0, na_autoSampling := False\<rparr>) log"
    by (rule na_ok_cong [OF assms]) simp_all
  from onskip1_ok [OF startSampling_ok [OF this]] onskip1_ok [OF assms] show ?thesis
    by (simp add: na_onskip_def case_prod_unfold Let_def)
qed

lemma autoSample_ok:
  assumes "na_ok s log"
  shows "na_ok (fst (na_autoSample nodes retry s)) log"
  using assms onskip_ok [OF startSampling_ok [OF assms]]
  by (simp add: na_autoSample_def case_prod_unfold Let_def)

lemma na_step_ok:
  assumes "na_ok s log"
  shows "\<exists>t l. na_step c s = Inr (t, l) \<and> na_ok t (log @ l)"
proof (cases c)
  case (NaAdd fw addr origin)
  then show ?thesis using add_ok [OF assms, of fw addr origin] by auto
next
  case (NaUpdate fw)
  then show ?thesis using update_ok [OF assms, of fw] by auto
next
  case NaFreeze
  then show ?thesis using na_ok_cong [OF assms, of "na_freeze s"] by (simp add: na_freeze_def)
next
  case (NaUnfreeze fw)
  then show ?thesis using unfreeze_ok [OF assms, of fw] by auto
next
  case NaDestroy
  then show ?thesis using na_ok_cong [OF assms, of "na_destroy s"] by (simp add: na_destroy_def)
next
  case (NaAutoSample nodes retry)
  then show ?thesis using autoSample_ok [OF assms] by simp
next
  case (NaPong fw nodes addr origin)
  then show ?thesis using add_ok [OF assms, of fw addr origin] onskip_ok [of _ "log @ newAnswer addr origin s" nodes]
    by (auto simp: na_onpong_def split: prod.split) (metis fst_conv)
next
  case (NaSkip nodes)
  then show ?thesis using onskip_ok [OF assms] by simp
qed

lemma na_run_ok:
  assumes "na_ok s log"
  shows "\<exists>t l. na_run cs s = Inr (t, l) \<and> na_ok t (log @ l)"
  using assms
proof (induction cs arbitrary: s log)
  case (Cons c cs)
  from na_step_ok [OF Cons.prems, of c] obtain t l where st: "na_step c s = Inr (t, l)" "na_ok t (log @ l)"
    by blast
  from Cons.IH [OF st(2)] obtain u ls where "na_run cs t = Inr (u, ls)" "na_ok u ((log @ l) @ ls)"
    by blast
  with st(1) show ?case by simp
qed simp

text \<open>
  what the sampler knows is what the network told it. For any interleaving of answers, pings
  started, answered or lost, freezing and unfreezing, changes of the DHT's own firewall state and
  destruction, the sampler never fails, counts one answer per node, and keeps its samples with their
  exact number of occurrences, most frequent first and without repetition, by address and by host; it
  calls the firewall consistent only when some address was seen by two different nodes, and random only
  after three answers.
\<close>
theorem nat_samples_exact:
  "\<exists>s log. na_run calls (Nat_new firewalled) = Inr (s, log) \<and> distinct (map fst log)
    \<and> na_sampled s = length log
    \<and> sorted_wrt (\<lambda>a b. sa_hits a \<ge> sa_hits b) (na_samplesFull s) \<and> distinct (map sa_key (na_samplesFull s))
    \<and> set (map sa_key (na_samplesFull s)) = set (map snd log)
    \<and> (\<forall>x \<in> set (na_samplesFull s). sa_hits x = count_list (map snd log) (sa_key x))
    \<and> (\<forall>x \<in> set (na_samplesHost s). sa_hits x = count_list (map (fst \<circ> snd) log) (sa_host x))
    \<and> (na_firewall s = CONSISTENT_FIREWALL \<longrightarrow> (\<exists>a. count_list (map snd log) a \<ge> 2))
    \<and> (na_firewall s = RANDOM_FIREWALL \<longrightarrow> length log \<ge> 3)"
proof -
  have "na_ok (Nat_new firewalled) []"
    by (simp add: na_ok_def Nat_new_def samples_of_def FIREWALL_defs)
  from na_run_ok [OF this, of calls] obtain s log where run: "na_run calls (Nat_new firewalled) = Inr (s, log)" "na_ok s log"
    by auto
  have "count_list (map (\<lambda>(_, h, _). (h, 0 :: nat)) l) (h, 0) = count_list (map (fst \<circ> snd) l) h"
    for l :: "(address \<times> (string \<times> nat)) list" and h
    by (induction l) auto
  moreover have "sa_port x = 0" if "x \<in> set (na_samplesHost s)" for x
  proof -
    have "set (map sa_key (na_samplesHost s)) = set (map (\<lambda>(_, h, _). (h, 0)) log)"
      using run(2) unfolding na_ok_def samples_of_def by blast
    moreover have "sa_key x \<in> set (map sa_key (na_samplesHost s))"
      using that by simp
    ultimately have "sa_key x \<in> set (map (\<lambda>(_, h, _). (h, 0)) log)"
      by simp
    then show ?thesis by auto
  qed
  ultimately have "\<forall>x \<in> set (na_samplesHost s). sa_hits x = count_list (map (fst \<circ> snd) log) (sa_host x)"
    using run(2) by (simp add: na_ok_def samples_of_def)
  with run show ?thesis
    by (intro exI [of _ s] exI [of _ log]) (simp add: na_ok_def samples_of_def seenTwice_def)
qed

text \<open>Three nodes saw the same address: the firewall is consistent.\<close>

definition sample_answers :: "nat_call list" where
  "sample_answers = map (\<lambda>p. NaAdd True \<lparr>host = ''me'', port = 9\<rparr> \<lparr>host = ''node'', port = p\<rparr>) [1, 2, 3]"

lemmas na_eval = sample_answers_def Nat_new_def na_add_def na_update_def na_updateFirewall_def na_updateAddresses_def
  addSample_def newAnswer_def Let_def FIREWALL_defs

theorem nat_samples_exact_witness:
  "\<exists>s log. na_run sample_answers (Nat_new True) = Inr (s, log) \<and> na_firewall s = CONSISTENT_FIREWALL
     \<and> na_addresses s = Some [(''me'', 9)] \<and> (\<exists>a. count_list (map snd log) a \<ge> 2) \<and> length log = 3"
proof -
  obtain s log where run: "na_run sample_answers (Nat_new True) = Inr (s, log)"
    and twice: "na_firewall s = CONSISTENT_FIREWALL \<longrightarrow> (\<exists>a. count_list (map snd log) a \<ge> 2)"
    using nat_samples_exact [of sample_answers True] by blast
  moreover have "na_firewall s = CONSISTENT_FIREWALL" "na_addresses s = Some [(''me'', 9)]" "length log = 3"
    using run by (auto simp: na_eval)
  ultimately show ?thesis
    by blast
qed

end
