(* ===== verification/Crypto_Suite.thy ===== *)
theory Crypto_Suite
  imports M3_Objects Counters
begin

text \<open>
  The primitive adapter of private routing (\<^verbatim>\<open>lib/private/crypto-suite.js\<close>): key pairs, key agreement,
  key derivation and the sealing of cells. \<^verbatim>\<open>sodium-universal\<close> and \<^verbatim>\<open>hypercore-crypto\<close> are the record
  \<open>sodium\<close> of functions on byte strings; what the code relies on is stated in the locale \<open>aead\<close>, and
  the contract it then offers to the cell codec in the locale \<open>cell_crypto\<close>. Copies are equal to what
  they copy, so only their identity (used by the alias checks of the codec) is kept; the zeroization of
  scratch buffers and failing allocations are not modelled.
\<close>

section \<open>The libraries\<close>

text \<open>An exception: whether its constructor is \<open>Error\<close> itself, and its message.\<close>

datatype js_exn = Exn bool string

text \<open>
  The two outcomes of a call with a status are the content of the output buffer and whether the
  returned value is other than \<open>false\<close>.
\<close>

record sodium =
  so_keyPair :: "bytes option \<Rightarrow> bytes \<times> bytes"
  so_encryptionKeyPair :: "bytes option \<Rightarrow> bytes \<times> bytes"
  so_scalarmult :: "bytes \<Rightarrow> bytes \<Rightarrow> js_exn + bytes \<times> bool"
  so_generichash :: "bytes \<Rightarrow> bytes \<Rightarrow> bytes"
  so_encrypt :: "bytes \<Rightarrow> bytes \<Rightarrow> bytes \<Rightarrow> bytes \<Rightarrow> js_exn + bytes"
  so_decrypt :: "bytes \<Rightarrow> bytes \<Rightarrow> bytes \<Rightarrow> bytes \<Rightarrow> js_exn + bytes \<times> bool"

datatype crypto_failure = RouteFailure error_code | Raised js_exn

lemma map_sum_Inr [result_simps]: "map_sum f g r = Inr y \<longleftrightarrow> (\<exists>x. r = Inr x \<and> y = g x)"
  by (cases r) auto

section \<open>Constants and helpers\<close>

definition ZERO_KEY :: bytes where
  "ZERO_KEY = replicate 32 0"

definition MAX_TRANSCRIPT :: int where
  "MAX_TRANSCRIPT = 4096"

definition MAX_ASSOCIATED_DATA :: int where
  "MAX_ASSOCIATED_DATA = 512"

definition AEAD_TAG_BYTES :: nat where
  "AEAD_TAG_BYTES = 16"

definition MAX_AEAD_PLAINTEXT :: int where
  "MAX_AEAD_PLAINTEXT = 65535"

definition DOMAIN :: "string \<Rightarrow> bytes" where
  "DOMAIN name = (case map_of DOMAIN_VALUES name of None \<Rightarrow> [] | Some tag \<Rightarrow> tag)"

fun copySlow :: "jsval \<Rightarrow> crypto_failure + bytes" where
  "copySlow (JBuf b) = Inr (content b)"
| "copySlow _ = Inl (Raised (Exn False ''Invalid internal buffer''))"

definition validateSeed :: "jsval \<Rightarrow> crypto_failure + unit" where
  "validateSeed seed = requireE (RouteFailure INVALID_KEY) (seed = Undefined \<or> bufferLength seed = 32)"

definition ownedSeed :: "jsval \<Rightarrow> crypto_failure + bytes option" where
  "ownedSeed seed = (if seed = Undefined then Inr None else map_sum id Some (copySlow seed))"

definition suite_keyPair :: "sodium \<Rightarrow> jsval \<Rightarrow> crypto_failure + bytes \<times> bytes" where
  "suite_keyPair L seed = bindE (validateSeed seed) (\<lambda>_. bindE (ownedSeed seed) (\<lambda>s. Inr (so_keyPair L s)))"

definition suite_encryptionKeyPair :: "sodium \<Rightarrow> jsval \<Rightarrow> crypto_failure + bytes \<times> bytes" where
  "suite_encryptionKeyPair L seed =
     bindE (validateSeed seed) (\<lambda>_. bindE (ownedSeed seed) (\<lambda>s. Inr (so_encryptionKeyPair L s)))"

section \<open>Key agreement\<close>

fun isNativeLowOrderError :: "js_exn \<Rightarrow> bool" where
  "isNativeLowOrderError (Exn plain message) \<longleftrightarrow> plain \<and> message = ''status: -1''"

definition keyAgreement :: "sodium \<Rightarrow> jsval \<Rightarrow> jsval \<Rightarrow> crypto_failure + bytes" where
  "keyAgreement L localSecretKey remotePublicKey =
     (if bufferLength localSecretKey \<noteq> 32 \<or> bufferLength remotePublicKey \<noteq> 32
      then Inl (RouteFailure INVALID_KEY)
      else bindE (copySlow localSecretKey) (\<lambda>secret. bindE (copySlow remotePublicKey) (\<lambda>public.
        if public ! 31 AND 0x80 \<noteq> 0 then Inl (RouteFailure INVALID_KEY)
        else (case so_scalarmult L secret public of
          Inl err \<Rightarrow> Inl (if isNativeLowOrderError err then RouteFailure INVALID_KEY else Raised err)
        | Inr (shared, ok) \<Rightarrow>
            if \<not> ok \<or> shared = ZERO_KEY then Inl (RouteFailure INVALID_KEY) else Inr shared))))"

section \<open>Key derivation\<close>

definition deriveMessage :: "bytes \<Rightarrow> bytes \<Rightarrow> bytes" where
  "deriveMessage label transcript =
     be_bytes 2 (length label) @ label @ be_bytes 4 PROTOCOL_VERSION
       @ be_bytes 4 (length transcript) @ transcript"

definition derive :: "sodium \<Rightarrow> bytes \<Rightarrow> bytes \<Rightarrow> bytes \<Rightarrow> bytes" where
  "derive L sharedSecret label transcript = so_generichash L (deriveMessage label transcript) sharedSecret"

record route_keys =
  forwardKey :: bytes
  reverseKey :: bytes
  forwardNoncePrefix :: bytes
  reverseNoncePrefix :: bytes

definition deriveKeys :: "sodium \<Rightarrow> jsval \<Rightarrow> jsval \<Rightarrow> crypto_failure + route_keys" where
  "deriveKeys L sharedSecret transcript =
     (if bufferLength sharedSecret \<noteq> 32 \<or> bufferLength transcript < 0 \<or> bufferLength transcript > MAX_TRANSCRIPT
      then Inl (RouteFailure INVALID_KEY)
      else bindE (copySlow sharedSecret) (\<lambda>secret. bindE (copySlow transcript) (\<lambda>owned.
        let forwardNonce = derive L secret (DOMAIN ''KDF_FORWARD_NONCE'') owned;
            reverseNonce = derive L secret (DOMAIN ''KDF_REVERSE_NONCE'') owned
        in Inr \<lparr>forwardKey = derive L secret (DOMAIN ''KDF_FORWARD_KEY'') owned,
                reverseKey = derive L secret (DOMAIN ''KDF_REVERSE_KEY'') owned,
                forwardNoncePrefix = take 16 forwardNonce,
                reverseNoncePrefix = take 16 reverseNonce\<rparr>)))"

section \<open>Sealing\<close>

definition validateKeyAndNoncePrefix :: "jsval \<Rightarrow> jsval \<Rightarrow> crypto_failure + unit" where
  "validateKeyAndNoncePrefix key noncePrefix =
     requireE (RouteFailure INVALID_KEY) (bufferLength key = 32 \<and> bufferLength noncePrefix = 16)"

definition ownDataOption :: "jsval \<Rightarrow> string \<Rightarrow> crypto_failure + jsval" where
  "ownDataOption options name =
     (case ownDescriptor options name of
        Inr (Some (DataProp v)) \<Rightarrow> Inr v
      | _ \<Rightarrow> Inl (RouteFailure CELL_INVALID))"

record cell_inputs =
  ci_key :: bytes
  ci_noncePrefix :: bytes
  ci_counter :: nat
  ci_associatedData :: bytes
  ci_payload :: jsval

definition snapshotCellInputs :: "jsval \<Rightarrow> string \<Rightarrow> crypto_failure + cell_inputs" where
  "snapshotCellInputs options payloadName =
     (if \<not> plainObject options then Inl (RouteFailure CELL_INVALID)
      else
        bindE (ownDataOption options ''key'') (\<lambda>key.
        bindE (ownDataOption options ''noncePrefix'') (\<lambda>noncePrefix.
        bindE (ownDataOption options ''counter'') (\<lambda>counter.
        bindE (ownDataOption options ''associatedData'') (\<lambda>associatedData.
        bindE (ownDataOption options payloadName) (\<lambda>payload.
        bindE (validateKeyAndNoncePrefix key noncePrefix) (\<lambda>_.
          (case counterValue counter MAX_COUNTER of
             Inl _ \<Rightarrow> Inl (RouteFailure CELL_INVALID)
           | Inr c \<Rightarrow>
               if bufferLength associatedData < 0 \<or> bufferLength associatedData > MAX_ASSOCIATED_DATA
               then Inl (RouteFailure CELL_INVALID)
               else
                 bindE (copySlow key) (\<lambda>k. bindE (copySlow noncePrefix) (\<lambda>n. bindE (copySlow associatedData) (\<lambda>ad.
                   Inr \<lparr>ci_key = k, ci_noncePrefix = n, ci_counter = c, ci_associatedData = ad,
                        ci_payload = payload\<rparr>)))))))))))"

definition nonceFor :: "bytes \<Rightarrow> nat \<Rightarrow> bytes" where
  "nonceFor noncePrefix counter = noncePrefix @ be_bytes 8 counter"

definition aead_seal :: "sodium \<Rightarrow> jsval \<Rightarrow> crypto_failure + bytes" where
  "aead_seal L options =
     bindE (snapshotCellInputs options ''plaintext'') (\<lambda>i.
       if bufferLength (ci_payload i) < 0 \<or> bufferLength (ci_payload i) > MAX_AEAD_PLAINTEXT
       then Inl (RouteFailure CELL_INVALID)
       else bindE (copySlow (ci_payload i)) (\<lambda>plaintext.
         map_sum Raised id (so_encrypt L plaintext (ci_associatedData i)
           (nonceFor (ci_noncePrefix i) (ci_counter i)) (ci_key i))))"

fun verifyFailed :: "js_exn \<Rightarrow> bool" where
  "verifyFailed (Exn _ message) \<longleftrightarrow> message = ''could not verify data''"

definition aead_open :: "sodium \<Rightarrow> jsval \<Rightarrow> crypto_failure + bytes option" where
  "aead_open L options =
     bindE (snapshotCellInputs options ''ciphertext'') (\<lambda>i.
       if bufferLength (ci_payload i) < int AEAD_TAG_BYTES
         \<or> bufferLength (ci_payload i) > MAX_AEAD_PLAINTEXT + int AEAD_TAG_BYTES
       then Inl (RouteFailure CELL_INVALID)
       else bindE (copySlow (ci_payload i)) (\<lambda>ciphertext.
         (case so_decrypt L ciphertext (ci_associatedData i)
             (nonceFor (ci_noncePrefix i) (ci_counter i)) (ci_key i) of
            Inl err \<Rightarrow> if verifyFailed err then Inr None else Inl (Raised err)
          | Inr (plaintext, ok) \<Rightarrow> Inr (if ok then Some plaintext else None))))"

text \<open>The primitives of the reusable contexts, on validated buffers.\<close>

definition cellAead_sealInto :: "sodium \<Rightarrow> bytes \<Rightarrow> bytes \<Rightarrow> bytes \<Rightarrow> bytes \<Rightarrow> crypto_failure + bytes" where
  "cellAead_sealInto L plaintext associatedData nonce key =
     map_sum Raised id (so_encrypt L plaintext associatedData nonce key)"

definition cellAead_openInto :: "sodium \<Rightarrow> bytes \<Rightarrow> bytes \<Rightarrow> bytes \<Rightarrow> bytes \<Rightarrow> crypto_failure + bytes option" where
  "cellAead_openInto L ciphertext associatedData nonce key =
     (case so_decrypt L ciphertext associatedData nonce key of
        Inl err \<Rightarrow> if verifyFailed err then Inr None else Inl (Raised err)
      | Inr (plaintext, ok) \<Rightarrow> Inr (if ok then Some plaintext else None))"

section \<open>Contracts\<close>

text \<open>
  The documented behaviour of the authenticated encryption: with a key of 32 and a nonce of 24 bytes
  it appends a tag of 16 bytes; decryption inverts it, and succeeds on nothing but an encryption under
  the same key, nonce and associated data.
\<close>

locale aead =
  fixes L :: sodium
  assumes encrypts: "length key = 32 \<Longrightarrow> length nonce = 24 \<Longrightarrow>
      \<exists>c. so_encrypt L plaintext ad nonce key = Inr c \<and> length c = length plaintext + 16"
    and decrypts: "length key = 32 \<Longrightarrow> length nonce = 24 \<Longrightarrow>
      so_encrypt L plaintext ad nonce key = Inr c \<Longrightarrow> so_decrypt L c ad nonce key = Inr (plaintext, True)"
    and decrypts_only: "length key = 32 \<Longrightarrow> length nonce = 24 \<Longrightarrow>
      so_decrypt L c ad nonce key = Inr (plaintext, True) \<Longrightarrow> so_encrypt L plaintext ad nonce key = Inr c"
    and decrypt_fails: "length key = 32 \<Longrightarrow> length nonce = 24 \<Longrightarrow>
      so_decrypt L c ad nonce key = Inl err \<Longrightarrow> verifyFailed err"

text \<open>The inputs of one call, as the codec passes them.\<close>

definition sealOptions :: "jsval \<Rightarrow> jsval \<Rightarrow> nat \<Rightarrow> jsval \<Rightarrow> string \<Rightarrow> jsval \<Rightarrow> jsval" where
  "sealOptions key noncePrefix counter associatedData payloadName payload =
     JObj [(''key'', DataProp key), (''noncePrefix'', DataProp noncePrefix), (''counter'', DataProp (JBig (int counter))),
       (''associatedData'', DataProp associatedData), (payloadName, DataProp payload)] []"

lemma snapshot_sealOptions:
  assumes "byteLength key = 32" "byteLength np = 16" "counter \<le> MAX_COUNTER" "byteLength ad \<le> 512"
    "name \<in> {''plaintext'', ''ciphertext''}"
  shows "snapshotCellInputs (sealOptions (JBuf key) (JBuf np) counter (JBuf ad) name payload) name
    = Inr \<lparr>ci_key = content key, ci_noncePrefix = content np, ci_counter = counter,
           ci_associatedData = content ad, ci_payload = payload\<rparr>"
  using assms
  by (auto simp: snapshotCellInputs_def sealOptions_def ownDataOption_def validateKeyAndNoncePrefix_def
      requireE_def counterValue_Inr MAX_ASSOCIATED_DATA_def)

lemma length_nonceFor [simp]: "length (nonceFor np c) = length np + 8"
  by (simp add: nonceFor_def)

text \<open>What the codec relies on of its provider, whatever it is.\<close>

locale cell_crypto =
  fixes seal_call :: "jsval \<Rightarrow> crypto_failure + bytes"
    and open_call :: "jsval \<Rightarrow> crypto_failure + bytes option"
  assumes seals: "byteLength key = 32 \<Longrightarrow> byteLength np = 16 \<Longrightarrow> counter \<le> MAX_COUNTER \<Longrightarrow>
      byteLength ad \<le> 512 \<Longrightarrow> byteLength bdy \<le> 65535 \<Longrightarrow>
      \<exists>c. seal_call (sealOptions (JBuf key) (JBuf np) counter (JBuf ad) ''plaintext'' (JBuf bdy)) = Inr c
        \<and> length c = byteLength bdy + 16"
    and opens: "byteLength key = 32 \<Longrightarrow> byteLength np = 16 \<Longrightarrow> counter \<le> MAX_COUNTER \<Longrightarrow>
      byteLength ad \<le> 512 \<Longrightarrow> byteLength bdy \<le> 65535 \<Longrightarrow>
      seal_call (sealOptions (JBuf key) (JBuf np) counter (JBuf ad) ''plaintext'' (JBuf bdy)) = Inr c \<Longrightarrow>
      content key' = content key \<Longrightarrow> content np' = content np \<Longrightarrow> content ad' = content ad \<Longrightarrow> content cb = c \<Longrightarrow>
      open_call (sealOptions (JBuf key') (JBuf np') counter (JBuf ad') ''ciphertext'' (JBuf cb)) = Inr (Some (content bdy))"
    and opens_only: "byteLength key = 32 \<Longrightarrow> byteLength np = 16 \<Longrightarrow> counter \<le> MAX_COUNTER \<Longrightarrow>
      byteLength ad \<le> 512 \<Longrightarrow> content bdy = plaintext \<Longrightarrow> length plaintext \<le> 65535 \<Longrightarrow>
      open_call (sealOptions (JBuf key) (JBuf np) counter (JBuf ad) ''ciphertext'' (JBuf cb)) = Inr (Some plaintext) \<Longrightarrow>
      seal_call (sealOptions (JBuf key) (JBuf np) counter (JBuf ad) ''plaintext'' (JBuf bdy)) = Inr (content cb)"

context aead
begin

lemma aead_seal_eq:
  assumes "byteLength key = 32" "byteLength np = 16" "counter \<le> MAX_COUNTER" "byteLength ad \<le> 512" "byteLength bdy \<le> 65535"
  shows "aead_seal L (sealOptions (JBuf key) (JBuf np) counter (JBuf ad) ''plaintext'' (JBuf bdy))
    = map_sum Raised id (so_encrypt L (content bdy) (content ad) (nonceFor (content np) counter) (content key))"
  using assms by (simp add: aead_seal_def snapshot_sealOptions MAX_AEAD_PLAINTEXT_def)

lemma aead_open_eq:
  assumes "byteLength key = 32" "byteLength np = 16" "counter \<le> MAX_COUNTER" "byteLength ad \<le> 512"
    "16 \<le> byteLength cb" "byteLength cb \<le> 65551"
  shows "aead_open L (sealOptions (JBuf key) (JBuf np) counter (JBuf ad) ''ciphertext'' (JBuf cb))
    = cellAead_openInto L (content cb) (content ad) (nonceFor (content np) counter) (content key)"
  using assms by (simp add: aead_open_def cellAead_openInto_def snapshot_sealOptions MAX_AEAD_PLAINTEXT_def AEAD_TAG_BYTES_def)

lemma aead_cell_crypto: "cell_crypto (aead_seal L) (aead_open L)"
proof
  fix key np ad bdy :: buffer and counter c
  assume a: "byteLength key = 32" "byteLength np = 16" "counter \<le> MAX_COUNTER" "byteLength ad \<le> 512"
  note l = a(1) and n = a(2)
  have nonce: "length (nonceFor (content np) counter) = 24"
    using n by simp
  show "\<exists>c. aead_seal L (sealOptions (JBuf key) (JBuf np) counter (JBuf ad) ''plaintext'' (JBuf bdy)) = Inr c
      \<and> length c = byteLength bdy + 16" if "byteLength bdy \<le> 65535"
    using encrypts [OF l nonce, of "content bdy" "content ad"] aead_seal_eq [OF a that] by auto
  show "aead_open L (sealOptions (JBuf key') (JBuf np') counter (JBuf ad') ''ciphertext'' (JBuf cb)) = Inr (Some (content bdy))"
    if b: "byteLength bdy \<le> 65535"
      and s: "aead_seal L (sealOptions (JBuf key) (JBuf np) counter (JBuf ad) ''plaintext'' (JBuf bdy)) = Inr c"
      and e: "content key' = content key" "content np' = content np" "content ad' = content ad" "content cb = c"
    for key' np' ad' cb :: buffer
  proof -
    from s have enc: "so_encrypt L (content bdy) (content ad) (nonceFor (content np) counter) (content key) = Inr c"
      unfolding aead_seal_eq [OF a b] by (cases "so_encrypt L (content bdy) (content ad) (nonceFor (content np) counter) (content key)") auto
    then have "length c = byteLength bdy + 16"
      using encrypts [OF l nonce, of "content bdy" "content ad"] by simp
    then have "aead_open L (sealOptions (JBuf key') (JBuf np') counter (JBuf ad') ''ciphertext'' (JBuf cb))
        = cellAead_openInto L (content cb) (content ad') (nonceFor (content np') counter) (content key')"
      using a b e by (intro aead_open_eq) simp_all
    then show ?thesis
      using decrypts [OF l nonce enc] e by (simp add: cellAead_openInto_def)
  qed
  show "aead_seal L (sealOptions (JBuf key) (JBuf np) counter (JBuf ad) ''plaintext'' (JBuf bdy)) = Inr (content cb)"
    if p: "content bdy = plaintext" "length plaintext \<le> 65535"
      and o: "aead_open L (sealOptions (JBuf key) (JBuf np) counter (JBuf ad) ''ciphertext'' (JBuf cb)) = Inr (Some plaintext)"
    for plaintext cb
  proof -
    have sz: "16 \<le> byteLength cb" "byteLength cb \<le> 65551"
      using o a by (auto simp: aead_open_def snapshot_sealOptions AEAD_TAG_BYTES_def MAX_AEAD_PLAINTEXT_def split: if_splits)
    from o have "so_decrypt L (content cb) (content ad) (nonceFor (content np) counter) (content key) = Inr (plaintext, True)"
      unfolding aead_open_eq [OF a sz] by (auto simp: cellAead_openInto_def split: sum.splits if_splits)
    from decrypts_only [OF l nonce this] p show ?thesis
      by (simp add: aead_seal_eq [OF a])
  qed
qed

end

sublocale aead \<subseteq> suite: cell_crypto "aead_seal L" "aead_open L"
  by (rule aead_cell_crypto)

section \<open>A reference instance\<close>

text \<open>
  A concrete library with the documented behaviour of authenticated encryption (and none of its
  secrecy): the text is kept and the tag is the first half of the key. It shows that the laws can hold
  together and lets the witnesses compute.
\<close>

definition refSodium :: sodium where
  "refSodium = \<lparr>so_keyPair = (\<lambda>_. (replicate 32 1, replicate 64 2)),
     so_encryptionKeyPair = (\<lambda>_. (replicate 32 1, replicate 32 2)),
     so_scalarmult = (\<lambda>s p. Inr (s, True)),
     so_generichash = (\<lambda>m k. k),
     so_encrypt = (\<lambda>p ad n k. Inr (p @ take 16 k)),
     so_decrypt = (\<lambda>c ad n k. if length c \<ge> 16 \<and> drop (length c - 16) c = take 16 k then Inr (take (length c - 16) c, True)
        else Inl (Exn True ''could not verify data''))\<rparr>"

interpretation refsod: aead refSodium
proof
  fix key nonce :: bytes and ad c :: bytes and plaintext :: bytes and err
  assume k: "length key = 32"
  show "\<exists>c. so_encrypt refSodium plaintext ad nonce key = Inr c \<and> length c = length plaintext + 16"
    using k by (simp add: refSodium_def)
  show "so_decrypt refSodium c ad nonce key = Inr (plaintext, True)" if "so_encrypt refSodium plaintext ad nonce key = Inr c"
    using that k by (auto simp: refSodium_def)
  show "so_encrypt refSodium plaintext ad nonce key = Inr c" if "so_decrypt refSodium c ad nonce key = Inr (plaintext, True)"
    using that by (auto simp: refSodium_def split: if_splits) (metis append_take_drop_id)
  show "verifyFailed err" if "so_decrypt refSodium c ad nonce key = Inl err"
    using that by (auto simp: refSodium_def split: if_splits)
qed

section \<open>Key derivation is unambiguous\<close>

lemma deriveMessage_inject:
  assumes "deriveMessage l t = deriveMessage l' t'" "length l < 65536" "length l' < 65536"
  shows "l = l' \<and> t = t'"
proof -
  from assms(1) have "be_bytes 2 (length l) = be_bytes 2 (length l')"
    by (simp add: deriveMessage_def)
  from be_bytes_inject [OF this] assms(2,3) have "length l = length l'"
    by simp
  with assms(1) show ?thesis
    by (simp add: deriveMessage_def)
qed

end
