(* ===== verification/Cell_Codec.thy ===== *)
theory Cell_Codec
  imports Crypto_Suite Ordered_Receiver Replay_Window
begin

text \<open>
  The cells of a private link (\<^verbatim>\<open>lib/private/cell-codec.js\<close>): \<open>CellCodec.seal\<close> and \<open>CellCodec.open\<close>. The
  sender counters and receivers a codec calls are objects of a world, known by their handles; they are
  those of \<^verbatim>\<open>lib/private/counters.js\<close>. The provider of the cryptography is a pair of functions, in
  production the adapter of \<^verbatim>\<open>lib/private/crypto-suite.js\<close>. Every buffer a call allocates gets a backing
  store numbered from \<open>alloc\<close>, so that the alias check on the provider's plaintext is the code's.
  Scratch memory is that of the default allocator; its zeroization is not modelled.
\<close>

section \<open>Constants and helpers\<close>

definition CELL_HEADER_SIZE :: nat where
  "CELL_HEADER_SIZE = 36"

definition CELL_BODY_SIZE :: nat where
  "CELL_BODY_SIZE = 1148"

definition CELL_BYTES :: nat where
  "CELL_BYTES = 1200"

definition MAX_CELL_PAYLOAD :: nat where
  "MAX_CELL_PAYLOAD = 1146"

definition CELL_HEADER_DOMAIN :: bytes where
  "CELL_HEADER_DOMAIN = DOMAIN ''CELL_HEADER''"

definition RECEIVER_FAILURES :: "error_code list" where
  "RECEIVER_FAILURES = [REPLAY, COUNTER_INVALID, COUNTER_GAP, COUNTER_EXHAUSTED]"

abbreviation invalidCell :: crypto_failure where
  "invalidCell \<equiv> RouteFailure CELL_INVALID"

definition cell_optionsObject :: "jsval \<Rightarrow> crypto_failure + jsval" where
  "cell_optionsObject options = (if plainObject options then Inr options else Inl invalidCell)"

definition cell_option :: "jsval \<Rightarrow> string \<Rightarrow> bool \<Rightarrow> crypto_failure + jsval" where
  "cell_option options name required =
     (case ownDescriptor options name of
        Inl _ \<Rightarrow> Inl invalidCell
      | Inr None \<Rightarrow> if required \<or> inheritedName options name then Inl invalidCell else Inr Undefined
      | Inr (Some AccessorProp) \<Rightarrow> Inl invalidCell
      | Inr (Some (DataProp v)) \<Rightarrow> Inr v)"

definition isBufferOf :: "jsval \<Rightarrow> nat \<Rightarrow> bool" where
  "isBufferOf v n \<longleftrightarrow> bufferLength v = int n"

fun contentOf :: "jsval \<Rightarrow> bytes" where
  "contentOf (JBuf b) = content b"
| "contentOf _ = []"

definition ownBuf :: "nat \<Rightarrow> bytes \<Rightarrow> buffer" where
  "ownBuf n bs = \<lparr>backing = n, byteOffset = 0, sharedStore = False, content = bs\<rparr>"

definition cell_subarray :: "buffer \<Rightarrow> nat \<Rightarrow> nat \<Rightarrow> buffer" where
  "cell_subarray b start stop = b\<lparr>byteOffset := byteOffset b + start, content := take (stop - start) (drop start (content b))\<rparr>"

fun overlaps :: "jsval \<Rightarrow> jsval \<Rightarrow> bool" where
  "overlaps (JBuf l) (JBuf r) \<longleftrightarrow>
     byteLength l > 0 \<and> byteLength r > 0 \<and> backing l = backing r
     \<and> byteOffset l < byteOffset r + byteLength r \<and> byteOffset r < byteOffset l + byteLength l"
| "overlaps _ _ \<longleftrightarrow> False"

definition overlapsAny :: "jsval \<Rightarrow> jsval list \<Rightarrow> bool" where
  "overlapsAny v protectedValues = list_ex (overlaps v) protectedValues"

definition uint64 :: "jsval \<Rightarrow> bool" where
  "uint64 v = (case v of JBig n \<Rightarrow> 0 \<le> n \<and> n \<le> int MAX_COUNTER | _ \<Rightarrow> False)"

definition knownClass :: "jsval \<Rightarrow> bool" where
  "knownClass v = (v \<in> set (map (\<lambda>(_, n). JNum (int n)) CELL_CLASS))"

definition knownDirection :: "jsval \<Rightarrow> bool" where
  "knownDirection v = (v \<in> set (map (\<lambda>(_, n). JNum (int n)) DIRECTION))"

fun number :: "jsval \<Rightarrow> nat" where
  "number (JNum n) = nat n"
| "number (JBig n) = nat n"
| "number _ = 0"

section \<open>The objects a codec calls\<close>

datatype link_receiver = Ordered OrderedReceiver | Window DatagramReplayWindow

record cell_world =
  senders :: "nat \<Rightarrow> SenderCounter option"
  receivers :: "nat \<Rightarrow> link_receiver option"

definition receiverFailure :: "error_code \<Rightarrow> crypto_failure" where
  "receiverFailure e = RouteFailure (if e \<in> set RECEIVER_FAILURES then e else CELL_INVALID)"

fun senderOf :: "jsval \<Rightarrow> cell_world \<Rightarrow> (nat \<times> SenderCounter) option" where
  "senderOf (JRef h) w = map_option (Pair h) (senders w h)"
| "senderOf _ w = None"

text \<open>\<open>next()\<close> with the translation of its failures.\<close>

definition callNext :: "nat \<Rightarrow> SenderCounter \<Rightarrow> (cell_world, crypto_failure, nat) action" where
  "callNext h s w = (case sc_next s of (t, r) \<Rightarrow> (w\<lparr>senders := (senders w)(h \<mapsto> t)\<rparr>, map_sum receiverFailure id r))"

definition callAccept :: "nat \<Rightarrow> DatagramReplayWindow \<Rightarrow> jsval \<Rightarrow> (cell_world, crypto_failure, bool) action" where
  "callAccept h s counter w =
     (case acceptAuthenticated counter s of (t, r) \<Rightarrow>
        (w\<lparr>receivers := (receivers w)(h \<mapsto> Window t)\<rparr>, map_sum receiverFailure id r))"

definition callPush :: "callback \<Rightarrow> callback \<Rightarrow> nat \<Rightarrow> OrderedReceiver \<Rightarrow> jsval \<Rightarrow> jsval \<Rightarrow>
    (cell_world, crypto_failure, jsval list) action" where
  "callPush now obs h s counter payload w =
     (case pushAuthenticated now obs counter payload s of (t, r) \<Rightarrow>
        (w\<lparr>receivers := (receivers w)(h \<mapsto> Ordered t)\<rparr>, map_sum receiverFailure id r))"

text \<open>Handing an authenticated payload to the receiver of its class.\<close>

definition deliverCell ::
  "callback \<Rightarrow> callback \<Rightarrow> nat \<Rightarrow> jsval \<Rightarrow> nat \<Rightarrow> jsval \<Rightarrow> (cell_world, crypto_failure, jsval) action" where
  "deliverCell now obs cellClass receiver counter payload w =
     (case receiver of JRef h \<Rightarrow>
        (case receivers w h of
           Some (Window s) \<Rightarrow>
             if cellClass = 2
             then bindS (callAccept h s (JBig (int counter))) (\<lambda>ok. if ok then returnS payload else throwS invalidCell) w
             else (w, Inl invalidCell)
         | Some (Ordered s) \<Rightarrow>
             if cellClass = 2 then (w, Inl invalidCell)
             else bindS (callPush now obs h s (JBig (int counter)) payload) (\<lambda>ds. returnS (JArr ds)) w
         | None \<Rightarrow> (w, Inl invalidCell))
      | _ \<Rightarrow> (w, Inl invalidCell))"

section \<open>The codec\<close>

text \<open>
  A provider: the data methods found on the object, each given the number of the next backing store.
\<close>

record provider =
  pv_seal :: "(nat \<Rightarrow> jsval \<Rightarrow> crypto_failure + jsval) option"
  pv_open :: "(nat \<Rightarrow> jsval \<Rightarrow> crypto_failure + jsval) option"
  pv_randomBytes :: "(nat \<Rightarrow> js_exn + jsval) option"

record cell_codec =
  cc_seal :: "nat \<Rightarrow> jsval \<Rightarrow> crypto_failure + jsval"
  cc_open :: "nat \<Rightarrow> jsval \<Rightarrow> crypto_failure + jsval"
  cc_padding :: "nat \<Rightarrow> js_exn + jsval"
  cc_reusable :: bool
  cc_configuredPadding :: jsval

definition choosePadding :: "(nat \<Rightarrow> nat \<Rightarrow> js_exn + jsval) \<Rightarrow> provider \<Rightarrow> jsval \<Rightarrow> (nat \<Rightarrow> js_exn + jsval) option" where
  "choosePadding functions p configured = (case configured of
     Undefined \<Rightarrow> pv_randomBytes p | JFun f \<Rightarrow> Some (functions f) | _ \<Rightarrow> None)"

definition CellCodec_new ::
  "jsval \<Rightarrow> (jsval \<Rightarrow> provider option) \<Rightarrow> (nat \<Rightarrow> nat \<Rightarrow> js_exn + jsval) \<Rightarrow> jsval \<Rightarrow> crypto_failure + cell_codec" where
  "CellCodec_new cryptoSuite providers functions options0 =
     bindE (cell_optionsObject options0) (\<lambda>options.
     bindE (cell_option options ''crypto'' True) (\<lambda>crypto.
     bindE (cell_option options ''cellSize'' True) (\<lambda>cellSize.
     bindE (cell_option options ''padding'' False) (\<lambda>configured.
       if cellSize \<noteq> JNum (int CELL_BYTES) then Inl invalidCell
       else (case providers crypto of
         None \<Rightarrow> Inl invalidCell
       | Some p \<Rightarrow> (case (pv_seal p, pv_open p, choosePadding functions p configured) of
           (Some s, Some op, Some pad) \<Rightarrow>
             Inr \<lparr>cc_seal = s, cc_open = op, cc_padding = pad, cc_reusable = (crypto = cryptoSuite),
                  cc_configuredPadding = configured\<rparr>
         | _ \<Rightarrow> Inl invalidCell))))))"

text \<open>The production adapter as a provider: its outputs are allocated by itself.\<close>

definition suiteProvider :: "sodium \<Rightarrow> (nat \<Rightarrow> js_exn + jsval) \<Rightarrow> provider" where
  "suiteProvider L random =
     \<lparr>pv_seal = Some (\<lambda>n options. map_sum id (\<lambda>bs. JBuf (ownBuf n bs)) (aead_seal L options)),
      pv_open = Some (\<lambda>n options. map_sum id (\<lambda>r. case r of None \<Rightarrow> Null | Some bs \<Rightarrow> JBuf (ownBuf n bs)) (aead_open L options)),
      pv_randomBytes = Some random\<rparr>"

section \<open>Sealing a cell\<close>

record seal_options =
  se_key :: jsval
  se_noncePrefix :: jsval
  se_senderCounter :: jsval
  se_class :: jsval
  se_direction :: jsval
  se_epoch :: jsval
  se_circuitId :: jsval
  se_payload :: jsval

definition readSealOptions :: "jsval \<Rightarrow> crypto_failure + seal_options" where
  "readSealOptions options0 =
     bindE (cell_optionsObject options0) (\<lambda>options.
     bindE (cell_option options ''key'' True) (\<lambda>key.
     bindE (cell_option options ''noncePrefix'' True) (\<lambda>noncePrefix.
     bindE (cell_option options ''senderCounter'' True) (\<lambda>senderCounter.
     bindE (cell_option options ''class'' True) (\<lambda>cellClass.
     bindE (cell_option options ''direction'' True) (\<lambda>direction.
     bindE (cell_option options ''epoch'' True) (\<lambda>epoch.
     bindE (cell_option options ''circuitId'' True) (\<lambda>circuitId.
     bindE (cell_option options ''payload'' True) (\<lambda>payload.
       Inr \<lparr>se_key = key, se_noncePrefix = noncePrefix, se_senderCounter = senderCounter, se_class = cellClass,
            se_direction = direction, se_epoch = epoch, se_circuitId = circuitId, se_payload = payload\<rparr>)))))))))"

definition validSeal :: "seal_options \<Rightarrow> bool" where
  "validSeal opts \<longleftrightarrow> isBufferOf (se_key opts) 32 \<and> isBufferOf (se_noncePrefix opts) 16 \<and> knownClass (se_class opts)
     \<and> knownDirection (se_direction opts) \<and> uint64 (se_epoch opts) \<and> isBufferOf (se_circuitId opts) 16
     \<and> bufferLength (se_payload opts) \<ge> 0 \<and> bufferLength (se_payload opts) \<le> int MAX_CELL_PAYLOAD"

definition cellPadding :: "cell_codec \<Rightarrow> nat \<Rightarrow> crypto_failure + bytes" where
  "cellPadding C n =
     (if n = 0 then Inr []
      else (case cc_padding C n of
        Inl _ \<Rightarrow> Inl invalidCell
      | Inr v \<Rightarrow> if isBufferOf v n then Inr (contentOf v) else Inl invalidCell))"

definition cellBody :: "bytes \<Rightarrow> bytes \<Rightarrow> bytes" where
  "cellBody payload padding = be_bytes 2 (length payload) @ payload @ padding"

definition cellHeader :: "nat \<Rightarrow> nat \<Rightarrow> nat \<Rightarrow> bytes \<Rightarrow> nat \<Rightarrow> bytes" where
  "cellHeader cellClass direction epoch circuitId counter =
     [word_of_nat PROTOCOL_VERSION, word_of_nat cellClass, word_of_nat direction, 0]
       @ be_bytes 8 epoch @ circuitId @ be_bytes 8 counter"

definition associatedData :: "bytes \<Rightarrow> bytes" where
  "associatedData header = CELL_HEADER_DOMAIN @ header"

text \<open>After the counter is taken: the ciphertext of the body under the header, and the packet.\<close>

definition sealPacket :: "cell_codec \<Rightarrow> nat \<Rightarrow> seal_options \<Rightarrow> bytes \<Rightarrow> nat \<Rightarrow> crypto_failure + bytes" where
  "sealPacket C alloc opts bdy counter =
     (let header = cellHeader (number (se_class opts)) (number (se_direction opts)) (number (se_epoch opts))
            (contentOf (se_circuitId opts)) counter
      in bindE (cc_seal C (alloc + 4)
             (sealOptions (JBuf (ownBuf alloc (contentOf (se_key opts)))) (JBuf (ownBuf (alloc + 1) (contentOf (se_noncePrefix opts))))
               counter (JBuf (ownBuf (alloc + 2) (associatedData header))) ''plaintext'' (JBuf (ownBuf (alloc + 3) bdy))))
           (\<lambda>ciphertext. if isBufferOf ciphertext (CELL_BODY_SIZE + AEAD_TAG_BYTES)
              then Inr (header @ contentOf ciphertext) else Inl invalidCell))"

definition cell_seal :: "cell_codec \<Rightarrow> nat \<Rightarrow> jsval \<Rightarrow> (cell_world, crypto_failure, bytes) action" where
  "cell_seal C alloc options w = (case readSealOptions options of
     Inl e \<Rightarrow> (w, Inl e)
   | Inr opts \<Rightarrow> (case senderOf (se_senderCounter opts) w of
       None \<Rightarrow> (w, Inl invalidCell)
     | Some (h, sender) \<Rightarrow>
         if \<not> validSeal opts then (w, Inl invalidCell)
         else (case cellPadding C (MAX_CELL_PAYLOAD - length (contentOf (se_payload opts))) of
           Inl e \<Rightarrow> (w, Inl e)
         | Inr padding \<Rightarrow>
             bindS (callNext h sender) (\<lambda>counter w.
               if \<not> uint64 (JBig (int counter)) then (w, Inl invalidCell)
               else (w, sealPacket C alloc opts (cellBody (contentOf (se_payload opts)) padding) counter)) w)))"

section \<open>Opening a cell\<close>

record open_options =
  op_key :: jsval
  op_noncePrefix :: jsval
  op_class :: jsval
  op_direction :: jsval
  op_epoch :: jsval
  op_circuitId :: jsval

definition readOpenOptions :: "jsval \<Rightarrow> crypto_failure + open_options" where
  "readOpenOptions options0 =
     bindE (cell_optionsObject options0) (\<lambda>options.
     bindE (cell_option options ''key'' True) (\<lambda>key.
     bindE (cell_option options ''noncePrefix'' True) (\<lambda>noncePrefix.
     bindE (cell_option options ''expectedClass'' True) (\<lambda>expectedClass.
     bindE (cell_option options ''expectedDirection'' True) (\<lambda>expectedDirection.
     bindE (cell_option options ''expectedEpoch'' True) (\<lambda>expectedEpoch.
     bindE (cell_option options ''expectedCircuitId'' True) (\<lambda>expectedCircuitId.
       Inr \<lparr>op_key = key, op_noncePrefix = noncePrefix, op_class = expectedClass, op_direction = expectedDirection,
            op_epoch = expectedEpoch, op_circuitId = expectedCircuitId\<rparr>)))))))"

record cell_header =
  ch_version :: nat
  ch_class :: nat
  ch_direction :: nat
  ch_flags :: nat
  ch_epoch :: nat
  ch_circuitId :: bytes
  ch_counter :: nat

definition readHeader :: "bytes \<Rightarrow> cell_header" where
  "readHeader header =
     \<lparr>ch_version = unat (header ! 0), ch_class = unat (header ! 1), ch_direction = unat (header ! 2), ch_flags = unat (header ! 3),
      ch_epoch = be_nat (take 8 (drop 4 header)), ch_circuitId = take 16 (drop 12 header),
      ch_counter = be_nat (take 8 (drop 28 header))\<rparr>"

definition validHeader :: "cell_header \<Rightarrow> bool" where
  "validHeader h \<longleftrightarrow> ch_version h = PROTOCOL_VERSION \<and> knownClass (JNum (int (ch_class h)))
     \<and> knownDirection (JNum (int (ch_direction h))) \<and> ch_flags h = 0"

definition validOpen :: "open_options \<Rightarrow> cell_header \<Rightarrow> bool" where
  "validOpen opts h \<longleftrightarrow> isBufferOf (op_key opts) 32 \<and> isBufferOf (op_noncePrefix opts) 16 \<and> knownClass (op_class opts)
     \<and> knownDirection (op_direction opts) \<and> uint64 (op_epoch opts) \<and> isBufferOf (op_circuitId opts) 16
     \<and> JNum (int (ch_class h)) = op_class opts \<and> JNum (int (ch_direction h)) = op_direction opts
     \<and> JBig (int (ch_epoch h)) = op_epoch opts \<and> ch_circuitId h = contentOf (op_circuitId opts)"

text \<open>The plaintext, after the provider's answer has passed every check; then the payload in it.\<close>

definition openBody :: "cell_codec \<Rightarrow> nat \<Rightarrow> open_options \<Rightarrow> buffer \<Rightarrow> nat \<Rightarrow> crypto_failure + bytes" where
  "openBody C alloc opts packet counter =
     (let key = JBuf (ownBuf alloc (contentOf (op_key opts)));
          np = JBuf (ownBuf (alloc + 1) (contentOf (op_noncePrefix opts)));
          ad = JBuf (ownBuf (alloc + 2) (associatedData (take CELL_HEADER_SIZE (content packet))))
      in bindE (cc_open C (alloc + 3) (sealOptions key np counter ad ''ciphertext''
             (JBuf (cell_subarray packet CELL_HEADER_SIZE (byteLength packet)))))
           (\<lambda>candidate.
             if bufferLength candidate < 0 then Inl invalidCell
             else if overlapsAny candidate [JBuf packet, op_key opts, op_noncePrefix opts, op_circuitId opts, key, np, ad]
             then Inl invalidCell
             else if \<not> isBufferOf candidate CELL_BODY_SIZE then Inl invalidCell
             else Inr (contentOf candidate)))"

definition bodyPayload :: "bytes \<Rightarrow> crypto_failure + bytes" where
  "bodyPayload plaintext =
     (let payloadLength = be_nat (take 2 plaintext)
      in if payloadLength > MAX_CELL_PAYLOAD then Inl invalidCell
         else Inr (take payloadLength (drop 2 plaintext)))"

definition cell_open ::
  "cell_codec \<Rightarrow> nat \<Rightarrow> callback \<Rightarrow> callback \<Rightarrow> jsval \<Rightarrow> jsval \<Rightarrow> (cell_world, crypto_failure, jsval) action" where
  "cell_open C alloc now obs options packet0 w = (case packet0 of
     JBuf packet \<Rightarrow>
       if byteLength packet \<noteq> CELL_BYTES then (w, Inl invalidCell)
       else (let h = readHeader (take CELL_HEADER_SIZE (content packet))
         in if \<not> validHeader h then (w, Inl invalidCell)
            else (case readOpenOptions options of
              Inl e \<Rightarrow> (w, Inl e)
            | Inr opts \<Rightarrow>
                if \<not> validOpen opts h then (w, Inl invalidCell)
                else (case bindE (openBody C alloc opts packet (ch_counter h)) bodyPayload of
                  Inl e \<Rightarrow> (w, Inl e)
                | Inr payload \<Rightarrow> (case cell_option options ''receiver'' True of
                    Inl e \<Rightarrow> (w, Inl e)
                  | Inr receiver \<Rightarrow>
                      deliverCell now obs (ch_class h) receiver (ch_counter h) (JBuf (ownBuf (alloc + 4) payload)) w))))
   | _ \<Rightarrow> (w, Inl invalidCell))"

end
