(* ===== verification/Cell_Link.thy ===== *)
theory Cell_Link
  imports Cell_Codec
begin

text \<open>
  What the cell codec promises: the packet of a sealed cell, opened with matching parameters, reaches
  the receiver with the payload and the counter it was sealed with; nothing else does; and over a
  whole link the payloads come out of the receiver in the order they were sealed.
\<close>

section \<open>Headers and bodies\<close>

lemma length_cellHeader [simp]: "length (cellHeader c d e circ n) = length circ + 20"
  by (simp add: cellHeader_def)

lemma readHeader_cellHeader:
  assumes "c < 256" "d < 256" "e \<le> MAX_COUNTER" "length circ = 16" "n \<le> MAX_COUNTER"
  shows "readHeader (cellHeader c d e circ n) = \<lparr>ch_version = PROTOCOL_VERSION, ch_class = c, ch_direction = d, ch_flags = 0,
    ch_epoch = e, ch_circuitId = circ, ch_counter = n\<rparr>"
proof -
  have "e < 256 ^ 8" "n < 256 ^ 8"
    using assms(3,5) by (simp_all add: MAX_COUNTER_def)
  moreover have "unat (word_of_nat c :: byte) = c" "unat (word_of_nat d :: byte) = d"
    using assms(1,2) by (simp_all add: unat_of_nat)
  moreover have "take 8 (drop 4 (cellHeader c d e circ n)) = be_bytes 8 e"
    "take 16 (drop 12 (cellHeader c d e circ n)) = circ"
    "take 8 (drop 28 (cellHeader c d e circ n)) = be_bytes 8 n"
    using assms(4) by (simp_all add: cellHeader_def)
  moreover have "cellHeader c d e circ n ! 0 = word_of_nat PROTOCOL_VERSION" "cellHeader c d e circ n ! 1 = word_of_nat c"
    "cellHeader c d e circ n ! 2 = word_of_nat d" "cellHeader c d e circ n ! 3 = 0"
    by (simp_all add: cellHeader_def nth_append numeral_2_eq_2 numeral_3_eq_3)
  ultimately show ?thesis
    by (simp add: readHeader_def be_simps PROTOCOL_VERSION_def)
qed

lemma bodyPayload_cellBody:
  assumes "length payload \<le> MAX_CELL_PAYLOAD"
  shows "bodyPayload (cellBody payload padding) = Inr payload"
  using assms by (simp add: bodyPayload_def cellBody_def be_simps MAX_CELL_PAYLOAD_def)

lemma class_bounds:
  "knownClass v \<Longrightarrow> \<exists>n < 3. v = JNum (int n)" "knownDirection v \<Longrightarrow> \<exists>n < 2. v = JNum (int n)"
  by (auto simp: knownClass_def knownDirection_def CELL_CLASS_def DIRECTION_def)

lemma uint64_nat: "uint64 v \<Longrightarrow> \<exists>n \<le> MAX_COUNTER. v = JBig (int n)"
  by (auto simp: uint64_def split: jsval.splits intro!: exI [of _ "nat _"])

lemma isBufferOf_JBuf: "isBufferOf v n \<longleftrightarrow> (\<exists>b. v = JBuf b \<and> byteLength b = n)"
  by (cases v) (auto simp: isBufferOf_def)

lemma fresh_overlaps:
  assumes "backing b = n" "\<And>a. JBuf a \<in> set vs \<Longrightarrow> backing a \<noteq> n"
  shows "\<not> overlapsAny (JBuf b) vs"
proof -
  have "\<not> overlaps (JBuf b) v" if "v \<in> set vs" for v
    using assms that by (cases v) fastforce+
  then show ?thesis
    by (auto simp: overlapsAny_def list_ex_iff)
qed

text \<open>The two ends of a link agree on keys, class, direction, epoch and circuit.\<close>

definition sameLink :: "seal_options \<Rightarrow> open_options \<Rightarrow> bool" where
  "sameLink s p \<longleftrightarrow> isBufferOf (op_key p) 32 \<and> isBufferOf (op_noncePrefix p) 16 \<and> isBufferOf (op_circuitId p) 16
     \<and> contentOf (op_key p) = contentOf (se_key s) \<and> contentOf (op_noncePrefix p) = contentOf (se_noncePrefix s)
     \<and> contentOf (op_circuitId p) = contentOf (se_circuitId s)
     \<and> op_class p = se_class s \<and> op_direction p = se_direction s \<and> op_epoch p = se_epoch s"

text \<open>The buffers of a call to \<open>open\<close> were allocated before it.\<close>

definition allocatedBefore :: "nat \<Rightarrow> buffer \<Rightarrow> open_options \<Rightarrow> bool" where
  "allocatedBefore alloc packet p \<longleftrightarrow>
     (\<forall>b. JBuf b \<in> {JBuf packet, op_key p, op_noncePrefix p, op_circuitId p} \<longrightarrow> backing b < alloc)"

lemma plaintext_apart:
  assumes "allocatedBefore alloc packet p"
  shows "\<not> overlapsAny (JBuf (ownBuf (alloc + 3) bdy)) [JBuf packet, op_key p, op_noncePrefix p, op_circuitId p,
    JBuf (ownBuf alloc k), JBuf (ownBuf (alloc + 1) n), JBuf (ownBuf (alloc + 2) a)]"
proof (rule fresh_overlaps)
  fix b assume "JBuf b \<in> set [JBuf packet, op_key p, op_noncePrefix p, op_circuitId p,
    JBuf (ownBuf alloc k), JBuf (ownBuf (alloc + 1) n), JBuf (ownBuf (alloc + 2) a)]"
  then consider "JBuf b \<in> {JBuf packet, op_key p, op_noncePrefix p, op_circuitId p}"
    | "b \<in> {ownBuf alloc k, ownBuf (alloc + 1) n, ownBuf (alloc + 2) a}"
    by auto
  then show "backing b \<noteq> alloc + 3"
    using assms unfolding allocatedBefore_def by cases (fastforce simp: ownBuf_def)+
qed (simp add: ownBuf_def)

lemma cell_seal_success:
  assumes "cell_seal C alloc options w = (w', Inr pkt)"
  obtains s h sender t counter padding where
    "readSealOptions options = Inr s" "senderOf (se_senderCounter s) w = Some (h, sender)" "validSeal s"
    "cellPadding C (MAX_CELL_PAYLOAD - length (contentOf (se_payload s))) = Inr padding"
    "sc_next sender = (t, Inr counter)" "w' = w\<lparr>senders := (senders w)(h \<mapsto> t)\<rparr>" "counter \<le> MAX_COUNTER"
    "sealPacket C alloc s (cellBody (contentOf (se_payload s)) padding) counter = Inr pkt"
  using assms
  by (auto simp: cell_seal_def callNext_def bindS_def uint64_def map_sum_Inr split: sum.splits option.splits prod.splits if_splits)

lemma cellPadding_length: "cellPadding C n = Inr padding \<Longrightarrow> length padding = n"
  by (auto simp: cellPadding_def isBufferOf_JBuf split: if_splits sum.splits)

lemma cellBody_length:
  assumes "validSeal s" "cellPadding C (MAX_CELL_PAYLOAD - length (contentOf (se_payload s))) = Inr padding"
  shows "length (contentOf (se_payload s)) \<le> MAX_CELL_PAYLOAD"
    and "length (cellBody (contentOf (se_payload s)) padding) = CELL_BODY_SIZE"
proof -
  show "length (contentOf (se_payload s)) \<le> MAX_CELL_PAYLOAD"
    using assms(1) by (cases "se_payload s") (auto simp: validSeal_def)
  with cellPadding_length [OF assms(2)] show "length (cellBody (contentOf (se_payload s)) padding) = CELL_BODY_SIZE"
    by (simp add: cellBody_def CELL_BODY_SIZE_def MAX_CELL_PAYLOAD_def)
qed

abbreviation headerOf :: "seal_options \<Rightarrow> nat \<Rightarrow> bytes" where
  "headerOf s counter \<equiv> cellHeader (number (se_class s)) (number (se_direction s)) (number (se_epoch s)) (contentOf (se_circuitId s)) counter"

section \<open>The codec over a provider that keeps its contract\<close>

locale cell_link = cell_crypto seal_call open_call
  for seal_call open_call +
  fixes C :: cell_codec
  assumes seal_is: "cc_seal C = (\<lambda>n options. map_sum id (\<lambda>bs. JBuf (ownBuf n bs)) (seal_call options))"
    and open_is: "cc_open C = (\<lambda>n options. map_sum id (\<lambda>r. case r of None \<Rightarrow> Null | Some bs \<Rightarrow> JBuf (ownBuf n bs)) (open_call options))"
begin

lemma associatedData_small: "length circ = 16 \<Longrightarrow> length (associatedData (cellHeader c d e circ n)) \<le> 512"
  by (simp add: associatedData_def CELL_HEADER_DOMAIN_def DOMAIN_def DOMAIN_VALUES_def utf8_def)

text \<open>Sealing succeeds, and what it produces opens to the same body.\<close>

lemma sealPacket_calls:
  assumes v: "validSeal s" "length bdy = CELL_BODY_SIZE" "counter \<le> MAX_COUNTER"
  obtains c where "length c = CELL_BODY_SIZE + AEAD_TAG_BYTES" "sealPacket C alloc s bdy counter = Inr (headerOf s counter @ c)"
    "seal_call (sealOptions (JBuf (ownBuf alloc (contentOf (se_key s)))) (JBuf (ownBuf (alloc + 1) (contentOf (se_noncePrefix s))))
       counter (JBuf (ownBuf (alloc + 2) (associatedData (headerOf s counter)))) ''plaintext'' (JBuf (ownBuf (alloc + 3) bdy))) = Inr c"
    "byteLength (ownBuf alloc (contentOf (se_key s))) = 32" "byteLength (ownBuf (alloc + 1) (contentOf (se_noncePrefix s))) = 16"
    "byteLength (ownBuf (alloc + 2) (associatedData (headerOf s counter))) \<le> 512" "byteLength (ownBuf (alloc + 3) bdy) \<le> 65535"
proof -
  let ?k = "ownBuf alloc (contentOf (se_key s))" and ?n = "ownBuf (alloc + 1) (contentOf (se_noncePrefix s))"
    and ?a = "ownBuf (alloc + 2) (associatedData (headerOf s counter))" and ?b = "ownBuf (alloc + 3) bdy"
  from v(1) have sizes: "length (contentOf (se_key s)) = 32" "length (contentOf (se_noncePrefix s)) = 16"
    "length (contentOf (se_circuitId s)) = 16"
    by (auto simp: validSeal_def isBufferOf_JBuf)
  have pre: "byteLength ?k = 32" "byteLength ?n = 16" "counter \<le> MAX_COUNTER" "byteLength ?a \<le> 512" "byteLength ?b \<le> 65535"
    using sizes v(2,3) associatedData_small [OF sizes(3)] by (simp_all add: ownBuf_def CELL_BODY_SIZE_def)
  obtain c where c: "seal_call (sealOptions (JBuf ?k) (JBuf ?n) counter (JBuf ?a) ''plaintext'' (JBuf ?b)) = Inr c" "length c = length bdy + 16"
    using seals [OF pre] by (auto simp: ownBuf_def)
  have "sealPacket C alloc s bdy counter = Inr (headerOf s counter @ c)"
    using c v(2) by (simp add: sealPacket_def Let_def seal_is isBufferOf_def ownBuf_def AEAD_TAG_BYTES_def)
  with c v(2) show thesis
    by (intro that [of c] pre) (simp_all add: AEAD_TAG_BYTES_def)
qed

lemma sealPacket_opens:
  assumes v: "validSeal s" "length bdy = CELL_BODY_SIZE" "counter \<le> MAX_COUNTER"
    and p: "contentOf (op_key p) = contentOf (se_key s)" "contentOf (op_noncePrefix p) = contentOf (se_noncePrefix s)"
    and f: "allocatedBefore alloc' packet p"
  shows "\<exists>c. sealPacket C alloc s bdy counter = Inr (headerOf s counter @ c)
    \<and> length c = CELL_BODY_SIZE + AEAD_TAG_BYTES
    \<and> (content packet = headerOf s counter @ c \<longrightarrow> openBody C alloc' p packet counter = Inr bdy)"
proof -
  let ?h = "headerOf s counter"
  let ?k = "ownBuf alloc (contentOf (se_key s))" and ?n = "ownBuf (alloc + 1) (contentOf (se_noncePrefix s))"
    and ?a = "ownBuf (alloc + 2) (associatedData ?h)" and ?b = "ownBuf (alloc + 3) bdy"
  obtain c where c: "length c = CELL_BODY_SIZE + AEAD_TAG_BYTES" "sealPacket C alloc s bdy counter = Inr (?h @ c)"
      "seal_call (sealOptions (JBuf ?k) (JBuf ?n) counter (JBuf ?a) ''plaintext'' (JBuf ?b)) = Inr c"
    and pre: "byteLength ?k = 32" "byteLength ?n = 16" "byteLength ?a \<le> 512" "byteLength ?b \<le> 65535"
    by (rule sealPacket_calls [OF v])
  from v(1) have circ: "length (contentOf (se_circuitId s)) = 16"
    by (auto simp: validSeal_def isBufferOf_JBuf)
  have "openBody C alloc' p packet counter = Inr bdy" if pk: "content packet = ?h @ c"
  proof -
    let ?k' = "ownBuf alloc' (contentOf (op_key p))" and ?n' = "ownBuf (alloc' + 1) (contentOf (op_noncePrefix p))"
      and ?a' = "ownBuf (alloc' + 2) (associatedData (take CELL_HEADER_SIZE (content packet)))"
      and ?c' = "cell_subarray packet CELL_HEADER_SIZE (byteLength packet)"
    have "content ?k' = content ?k" "content ?n' = content ?n" "content ?a' = content ?a" "content ?c' = c"
      using p pk circ by (simp_all add: ownBuf_def cell_subarray_def CELL_HEADER_SIZE_def)
    from opens [OF pre(1,2) v(3) pre(3,4) c(3) this]
    have o: "open_call (sealOptions (JBuf ?k') (JBuf ?n') counter (JBuf ?a') ''ciphertext'' (JBuf ?c')) = Inr (Some bdy)"
      by (simp add: ownBuf_def)
    note plaintext_apart [OF f, of bdy "contentOf (op_key p)" "contentOf (op_noncePrefix p)" "content ?a'"]
    with o v(2) show ?thesis
      by (simp add: openBody_def open_is Let_def isBufferOf_def ownBuf_def)
  qed
  with c show ?thesis by blast
qed

lemma cell_seal_succeeds:
  assumes "validSeal s" "se_senderCounter s = JRef h" "senders w h = Some sd" "\<not> sc_closed sd" "sc_value sd \<le> MAX_COUNTER"
    and "cellPadding C (MAX_CELL_PAYLOAD - length (contentOf (se_payload s))) = Inr padding" "readSealOptions options = Inr s"
  shows "\<exists>pkt. cell_seal C alloc options w = (w\<lparr>senders := (senders w)(h \<mapsto> fst (sc_next sd))\<rparr>, Inr pkt)"
proof -
  obtain c where "sealPacket C alloc s (cellBody (contentOf (se_payload s)) padding) (sc_value sd) = Inr (headerOf s (sc_value sd) @ c)"
    using sealPacket_calls [OF assms(1) cellBody_length(2) [OF assms(1,6)] assms(5)] by blast
  moreover obtain t where "sc_next sd = (t, Inr (sc_value sd))"
    using assms(4) by (cases "sc_value sd = sc_maximum sd") (auto simp: sc_next_def Let_def)
  ultimately show ?thesis
    using assms by (simp add: cell_seal_def callNext_def bindS_def uint64_def)
qed

lemma cell_open_sealed:
  assumes v: "validSeal s" "cellPadding C' (MAX_CELL_PAYLOAD - length (contentOf (se_payload s))) = Inr padding" "counter \<le> MAX_COUNTER"
    and pkt: "sealPacket C alloc s (cellBody (contentOf (se_payload s)) padding) counter = Inr (content packet)"
    and p: "readOpenOptions options = Inr p" "sameLink s p" "cell_option options ''receiver'' True = Inr receiver"
    and f: "allocatedBefore alloc' packet p"
  shows "cell_open C alloc' now obs options (JBuf packet) w
    = deliverCell now obs (number (se_class s)) receiver counter (JBuf (ownBuf (alloc' + 4) (contentOf (se_payload s)))) w"
proof -
  let ?h = "headerOf s counter"
  note len = cellBody_length [OF v(1,2)]
  have same: "contentOf (op_key p) = contentOf (se_key s)" "contentOf (op_noncePrefix p) = contentOf (se_noncePrefix s)"
    using p(2) by (simp_all add: sameLink_def)
  from sealPacket_opens [OF v(1) len(2) v(3) same f, of alloc]
  obtain c where c: "content packet = ?h @ c" "length c = CELL_BODY_SIZE + AEAD_TAG_BYTES"
    "openBody C alloc' p packet counter = Inr (cellBody (contentOf (se_payload s)) padding)"
    using pkt by auto
  obtain cl d e where cde: "se_class s = JNum (int cl)" "cl < 3" "se_direction s = JNum (int d)" "d < 2"
    "se_epoch s = JBig (int e)" "e \<le> MAX_COUNTER"
    using v(1) class_bounds uint64_nat unfolding validSeal_def by metis
  have circ: "length (contentOf (se_circuitId s)) = 16"
    using v(1) by (auto simp: validSeal_def isBufferOf_JBuf)
  have hd: "take CELL_HEADER_SIZE (content packet) = ?h" "byteLength packet = CELL_BYTES"
    using c(1,2) circ by (simp_all add: CELL_HEADER_SIZE_def CELL_BYTES_def CELL_BODY_SIZE_def AEAD_TAG_BYTES_def)
  have rh: "readHeader (take CELL_HEADER_SIZE (content packet)) = \<lparr>ch_version = PROTOCOL_VERSION, ch_class = cl, ch_direction = d, ch_flags = 0,
      ch_epoch = e, ch_circuitId = contentOf (se_circuitId s), ch_counter = counter\<rparr>"
    using readHeader_cellHeader [of cl d e "contentOf (se_circuitId s)" counter] cde circ v(3) unfolding hd(1) by simp
  have "validHeader (readHeader (take CELL_HEADER_SIZE (content packet)))"
    "validOpen p (readHeader (take CELL_HEADER_SIZE (content packet)))"
    using v(1) p(2) cde by (simp_all add: rh validHeader_def validOpen_def validSeal_def sameLink_def)
  then show ?thesis
    using hd(2) rh p(1,3) c(3) bodyPayload_cellBody [OF len(1)] cde(1) by (simp add: cell_open_def Let_def)
qed

text \<open>Conversely, a packet that reaches the receiver is the sealing of its body under its own header.\<close>

lemma openBody_only:
  assumes "openBody C alloc p packet counter = Inr bdy" "isBufferOf (op_key p) 32" "isBufferOf (op_noncePrefix p) 16"
    "counter \<le> MAX_COUNTER" "length (associatedData (take CELL_HEADER_SIZE (content packet))) \<le> 512"
  shows "length bdy = CELL_BODY_SIZE
    \<and> seal_call (sealOptions (JBuf (ownBuf alloc (contentOf (op_key p)))) (JBuf (ownBuf (alloc + 1) (contentOf (op_noncePrefix p))))
        counter (JBuf (ownBuf (alloc + 2) (associatedData (take CELL_HEADER_SIZE (content packet)))))
        ''plaintext'' (JBuf (ownBuf (alloc + 3) bdy)))
      = Inr (drop CELL_HEADER_SIZE (content packet))"
proof -
  let ?k = "ownBuf alloc (contentOf (op_key p))" and ?n = "ownBuf (alloc + 1) (contentOf (op_noncePrefix p))"
    and ?a = "ownBuf (alloc + 2) (associatedData (take CELL_HEADER_SIZE (content packet)))"
    and ?c = "cell_subarray packet CELL_HEADER_SIZE (byteLength packet)"
  from assms(1) obtain o' where o: "open_call (sealOptions (JBuf ?k) (JBuf ?n) counter (JBuf ?a) ''ciphertext'' (JBuf ?c)) = Inr (Some o')"
    "o' = bdy" "length bdy = CELL_BODY_SIZE"
    by (auto simp: openBody_def Let_def open_is isBufferOf_def ownBuf_def result_simps
        split: if_splits option.splits)
  have "byteLength ?k = 32" "byteLength ?n = 16" "byteLength ?a \<le> 512" "content (ownBuf (alloc + 3) bdy) = bdy" "length bdy \<le> 65535"
    using assms o(3) by (auto simp: isBufferOf_JBuf ownBuf_def CELL_BODY_SIZE_def)
  from opens_only [OF this(1,2) assms(4) this(3-5) o(1) [unfolded o(2)]] o(3) show ?thesis
    by (simp add: cell_subarray_def)
qed

end

section \<open>The options of a link\<close>

definition sealObject :: "seal_options \<Rightarrow> jsval" where
  "sealObject s = JObj [(''key'', DataProp (se_key s)), (''noncePrefix'', DataProp (se_noncePrefix s)),
     (''senderCounter'', DataProp (se_senderCounter s)), (''class'', DataProp (se_class s)),
     (''direction'', DataProp (se_direction s)), (''epoch'', DataProp (se_epoch s)),
     (''circuitId'', DataProp (se_circuitId s)), (''payload'', DataProp (se_payload s))] []"

definition openObject :: "open_options \<Rightarrow> jsval \<Rightarrow> jsval" where
  "openObject p receiver = JObj [(''key'', DataProp (op_key p)), (''noncePrefix'', DataProp (op_noncePrefix p)),
     (''expectedClass'', DataProp (op_class p)), (''expectedDirection'', DataProp (op_direction p)),
     (''expectedEpoch'', DataProp (op_epoch p)), (''expectedCircuitId'', DataProp (op_circuitId p)),
     (''receiver'', DataProp receiver)] []"

lemma readSealOptions_object [simp]: "readSealOptions (sealObject s) = Inr s"
  by (simp add: readSealOptions_def sealObject_def cell_optionsObject_def cell_option_def)

lemma readOpenOptions_object [simp]: "readOpenOptions (openObject p receiver) = Inr p"
  by (simp add: readOpenOptions_def openObject_def cell_optionsObject_def cell_option_def)

lemma receiver_option_object [simp]: "cell_option (openObject p receiver) ''receiver'' True = Inr receiver"
  by (simp add: openObject_def cell_option_def)

section \<open>Runs of a link\<close>

text \<open>Sealing one payload after the other, and opening whatever packets arrive.\<close>

fun sendCells :: "cell_codec \<Rightarrow> nat \<Rightarrow> seal_options \<Rightarrow> jsval list \<Rightarrow> (cell_world, crypto_failure, bytes list) action" where
  "sendCells C alloc s [] w = (w, Inr [])"
| "sendCells C alloc s (p # ps) w =
     bindS (cell_seal C alloc (sealObject (s\<lparr>se_payload := p\<rparr>))) (\<lambda>pkt.
     bindS (sendCells C alloc s ps) (\<lambda>pkts. returnS (pkt # pkts))) w"

type_synonym arrival = "nat \<times> callback \<times> callback \<times> buffer"

fun receiveCells :: "cell_codec \<Rightarrow> jsval \<Rightarrow> arrival list \<Rightarrow> cell_world \<Rightarrow> cell_world \<times> jsval list" where
  "receiveCells C options [] w = (w, [])"
| "receiveCells C options ((alloc, now, obs, packet) # as) w =
     (case cell_open C alloc now obs options (JBuf packet) w of
        (w', Inr (JArr ds)) \<Rightarrow> (case receiveCells C options as w' of (w'', out) \<Rightarrow> (w'', ds @ out))
      | (w', _) \<Rightarrow> receiveCells C options as w')"

text \<open>The \<open>i\<close>-th packet is the sealing of the \<open>i\<close>-th payload under the \<open>i\<close>-th counter.\<close>

definition sealedAs :: "cell_codec \<Rightarrow> nat \<Rightarrow> seal_options \<Rightarrow> nat \<Rightarrow> bytes \<Rightarrow> bool" where
  "sealedAs C alloc s counter pkt \<longleftrightarrow> (\<exists>padding. validSeal s
     \<and> cellPadding C (MAX_CELL_PAYLOAD - length (contentOf (se_payload s))) = Inr padding \<and> counter \<le> MAX_COUNTER
     \<and> sealPacket C alloc s (cellBody (contentOf (se_payload s)) padding) counter = Inr pkt)"

lemma cell_seal_sealedAs:
  assumes "cell_seal C alloc (sealObject s) w = (w', Inr pkt)" "se_senderCounter s = JRef h" "senders w h = Some sd"
  shows "sealedAs C alloc s (sc_value sd) pkt" "\<not> sc_closed sd"
    "w' = w\<lparr>senders := (senders w)(h \<mapsto> fst (sc_next sd))\<rparr>"
proof -
  from assms obtain t counter padding where *: "validSeal s"
    "cellPadding C (MAX_CELL_PAYLOAD - length (contentOf (se_payload s))) = Inr padding"
    "sc_next sd = (t, Inr counter)" "w' = w\<lparr>senders := (senders w)(h \<mapsto> t)\<rparr>" "counter \<le> MAX_COUNTER"
    "sealPacket C alloc s (cellBody (contentOf (se_payload s)) padding) counter = Inr pkt"
    by (auto elim!: cell_seal_success)
  moreover from *(3) have "counter = sc_value sd" "\<not> sc_closed sd"
    by (auto simp: sc_next_def Let_def split: if_splits)
  ultimately show "sealedAs C alloc s (sc_value sd) pkt" "\<not> sc_closed sd"
    "w' = w\<lparr>senders := (senders w)(h \<mapsto> fst (sc_next sd))\<rparr>"
    unfolding sealedAs_def by auto
qed

lemma sendCells_sealedAs:
  assumes "sendCells C alloc s ps w = (w', Inr pkts)" "se_senderCounter s = JRef h" "senders w h = Some sd"
  shows "length pkts = length ps \<and> receivers w' = receivers w
    \<and> (\<forall>i < length ps. sealedAs C alloc (s\<lparr>se_payload := ps ! i\<rparr>) (sc_value sd + i) (pkts ! i))"
  using assms
proof (induction ps arbitrary: w w' pkts sd)
  case (Cons p ps)
  from Cons.prems(1) obtain w1 pkt rest where one: "cell_seal C alloc (sealObject (s\<lparr>se_payload := p\<rparr>)) w = (w1, Inr pkt)"
    and more: "sendCells C alloc s ps w1 = (w', Inr rest)" and pkts: "pkts = pkt # rest"
    by (auto simp: bindS_def returnS_def split: prod.splits sum.splits)
  note first = cell_seal_sealedAs [OF one, simplified, OF Cons.prems(2,3)]
  let ?t = "fst (sc_next sd)"
  have w1: "senders w1 h = Some ?t" "receivers w1 = receivers w"
    by (simp_all add: first(3))
  have IH: "length rest = length ps \<and> receivers w' = receivers w1
      \<and> (\<forall>i < length ps. sealedAs C alloc (s\<lparr>se_payload := ps ! i\<rparr>) (sc_value ?t + i) (rest ! i))"
    by (rule Cons.IH [OF more Cons.prems(2) w1(1)])
  show ?case
  proof (cases "sc_value sd = sc_maximum sd")
    case True
    then have "sc_closed ?t" using first(2) by (simp add: sc_next_def)
    moreover have "ps = [] \<or> \<not> sc_closed ?t"
    proof (cases ps)
      case (Cons q qs)
      with more obtain w2 x where "cell_seal C alloc (sealObject (s\<lparr>se_payload := q\<rparr>)) w1 = (w2, Inr x)"
        by (auto simp: bindS_def split: prod.splits sum.splits)
      from cell_seal_sealedAs(2) [OF this, simplified, OF Cons.prems(2) w1(1)] show ?thesis by simp
    qed simp
    ultimately show ?thesis
      using IH first w1 pkts by simp
  next
    case False
    then have "sc_value ?t = sc_value sd + 1"
      using first(2) by (simp add: sc_next_def Let_def)
    with IH first w1 pkts show ?thesis
      by (auto simp: nth_Cons split: nat.splits)
  qed
qed simp

text \<open>A packet that does not authenticate under the keys of the link, whatever its counter.\<close>

definition rejected :: "cell_codec \<Rightarrow> nat \<Rightarrow> open_options \<Rightarrow> buffer \<Rightarrow> bool" where
  "rejected C alloc p packet \<longleftrightarrow> (\<forall>counter. \<exists>e. openBody C alloc p packet counter = Inl e)"

lemma rejected_open:
  assumes "rejected C alloc p packet"
  shows "\<exists>e. cell_open C alloc now obs (openObject p receiver) (JBuf packet) w = (w, Inl e)"
proof -
  let ?c = "ch_counter (readHeader (take CELL_HEADER_SIZE (content packet)))"
  obtain e where "openBody C alloc p packet ?c = Inl e"
    using assms by (auto simp: rejected_def)
  then show ?thesis
    by (simp add: cell_open_def Let_def)
qed

text \<open>The pushes of a run, seen by the receiver alone.\<close>

definition goodPush :: "nat \<Rightarrow> jsval list \<Rightarrow> or_op \<Rightarrow> bool" where
  "goodPush v ps x \<longleftrightarrow> (\<exists>now obs i a. i < length ps \<and> x = OrPush now obs (JBig (int (v + i))) (JBuf (ownBuf a (contentOf (ps ! i)))))"

lemma or_run_accepted:
  assumes "or_run ops s = (t, acc, out)" "\<forall>x \<in> set ops. goodPush v ps x"
  shows "\<forall>(c, p) \<in> set acc. \<exists>i < length ps. c = v + i \<and> contentOf p = contentOf (ps ! i)"
  using assms
proof (induction ops arbitrary: s t acc out)
  case (Cons x ops)
  then obtain now obs i a where x: "x = OrPush now obs (JBig (int (v + i))) (JBuf (ownBuf a (contentOf (ps ! i))))" "i < length ps"
    by (auto simp: goodPush_def)
  obtain u r where push: "pushAuthenticated now obs (JBig (int (v + i))) (JBuf (ownBuf a (contentOf (ps ! i)))) s = (u, r)"
    by (cases "pushAuthenticated now obs (JBig (int (v + i))) (JBuf (ownBuf a (contentOf (ps ! i)))) s") auto
  obtain t' acc' out' where run: "or_run ops u = (t', acc', out')"
    by (cases "or_run ops u") auto
  have IH: "\<forall>(c, p) \<in> set acc'. \<exists>i < length ps. c = v + i \<and> contentOf p = contentOf (ps ! i)"
    using Cons.IH [OF run] Cons.prems(2) by simp
  show ?case
  proof (cases r)
    case (Inl e)
    with Cons.prems(1) push run IH show ?thesis by (simp add: x(1))
  next
    case (Inr ds)
    with Cons.prems(1) push run have "acc = (v + i, JBuf (ownBuf a (contentOf (ps ! i)))) # acc'"
      by (simp add: x(1) nat_int_add)
    with IH x(2) show ?thesis by (auto simp: ownBuf_def)
  qed
qed simp

lemma or_run_delivers_prefix:
  assumes "OrderedReceiver_new v = Inr s" "or_run ops s = (t, acc, out)" "\<forall>x \<in> set ops. goodPush (or_next s) ps x"
  shows "length out \<le> length ps \<and> map contentOf out = map contentOf (take (length out) ps)"
proof -
  from OrderedReceiver_new_inv [OF assms(1)] have "or_inv s" "or_buffer s = []" by auto
  with or_run_in_order [OF this(1) assms(2)] have o: "distinct (map fst acc)"
    "out = map (\<lambda>c. the (map_of acc c)) [or_next s ..< or_next s + length out]"
    "\<forall>c \<in> {or_next s ..< or_next s + length out}. map_of acc c \<noteq> None"
    unfolding or_in_order_def by auto
  have at: "j < length ps \<and> contentOf (out ! j) = contentOf (ps ! j)" if j: "j < length out" for j
  proof -
    obtain q where q: "map_of acc (or_next s + j) = Some q"
      using o(3) j by fastforce
    then have "(or_next s + j, q) \<in> set acc"
      by (rule map_of_SomeD)
    then have "j < length ps \<and> contentOf q = contentOf (ps ! j)"
      using or_run_accepted [OF assms(2,3)] by fastforce
    moreover have "out ! j = q"
      by (subst o(2)) (use j q in simp)
    ultimately show ?thesis by simp
  qed
  have len: "length out \<le> length ps"
    using at [of "length out - 1"] by (cases out) auto
  with at show ?thesis
    by (auto intro!: nth_equalityI)
qed

lemma push_in_order:
  assumes "or_inv s" "\<not> or_closed s" "or_buffer s = []"
  obtains t where "pushAuthenticated now obs (JBig (int (or_next s))) q s = (t, Inr [q])" "or_inv t" "or_buffer t = []"
    "or_maximum t = or_maximum s" "or_next s < or_maximum s \<Longrightarrow> \<not> or_closed t \<and> or_next t = or_next s + 1"
proof -
  have s: "or_next s \<le> or_maximum s" "or_gapStartedAt s = None" "or_lastObservedAt s = None" "\<not> or_mutating s" "\<not> or_destroyRequested s"
    using assms by (auto simp: or_inv_def or_core_def)
  have "counterValue (JBig (int (or_next s))) (or_maximum s) = Inr (or_next s)"
    using s(1) by (simp add: counterValue_Inr)
  then have push: "pushAuthenticated now obs (JBig (int (or_next s))) q s = (if or_next s = or_maximum s
      then (or_closeExhausted (s\<lparr>or_mutating := True\<rparr>))\<lparr>or_mutating := False\<rparr>
      else s\<lparr>or_next := or_next s + 1\<rparr>, Inr [q])"
    using s assms by (simp add: pushAuthenticated_def or_mutate_def or_push_def or_pushNext_def or_drain.simps
        or_assertNoDeferredDestroy_def or_closeExhausted_def or_clearBuffered_def Let_def)
  show thesis
    by (rule that [OF push]) (use s assms in \<open>auto simp: or_inv_def or_core_def or_closeExhausted_def or_clearBuffered_def\<close>)
qed

context cell_link
begin

lemma sealed_open:
  assumes "sealedAs C alloc s counter (content packet)" "sameLink s p" "allocatedBefore alloc' packet p" "se_class s \<noteq> JNum 2"
    and "receivers w r = Some (Ordered rc)"
  shows "cell_open C alloc' now obs (openObject p (JRef r)) (JBuf packet) w
    = (case pushAuthenticated now obs (JBig (int counter)) (JBuf (ownBuf (alloc' + 4) (contentOf (se_payload s)))) rc of
        (t, res) \<Rightarrow> (w\<lparr>receivers := (receivers w)(r \<mapsto> Ordered t)\<rparr>, map_sum receiverFailure JArr res))"
proof -
  from assms(1) obtain padding where v: "validSeal s"
    "cellPadding C (MAX_CELL_PAYLOAD - length (contentOf (se_payload s))) = Inr padding" "counter \<le> MAX_COUNTER"
    "sealPacket C alloc s (cellBody (contentOf (se_payload s)) padding) counter = Inr (content packet)"
    by (auto simp: sealedAs_def)
  have "number (se_class s) \<noteq> 2"
    using v(1) class_bounds(1) [of "se_class s"] assms(4) by (auto simp: validSeal_def)
  with assms(5) show ?thesis
    unfolding cell_open_sealed [OF v(1-4) readOpenOptions_object assms(2) receiver_option_object assms(3)]
    by (cases "pushAuthenticated now obs (JBig (int counter)) (JBuf (ownBuf (alloc' + 4) (contentOf (se_payload s)))) rc";
        cases "snd (pushAuthenticated now obs (JBig (int counter)) (JBuf (ownBuf (alloc' + 4) (contentOf (se_payload s)))) rc)")
      (simp_all add: deliverCell_def callPush_def bindS_def returnS_def)
qed

lemma receive_is_run:
  assumes sent: "\<And>i. i < length ps \<Longrightarrow> sealedAs C alloc (s\<lparr>se_payload := ps ! i\<rparr>) (v + i) (pkts ! i)" "length pkts = length ps"
    and link: "sameLink s p" "se_class s \<noteq> JNum 2"
    and "receivers w r = Some (Ordered rc)"
    and "\<forall>(alloc, now, obs, packet) \<in> set as. allocatedBefore alloc packet p \<and> (content packet \<in> set pkts \<or> rejected C alloc p packet)"
  shows "\<exists>ops t acc. or_run ops rc = (t, acc, snd (receiveCells C (openObject p (JRef r)) as w)) \<and> (\<forall>x \<in> set ops. goodPush v ps x)"
  using assms(5,6)
proof (induction as arbitrary: w rc)
  case Nil
  then show ?case by (intro exI [of _ "[]"]) simp
next
  case (Cons a as)
  obtain al now obs packet where a: "a = (al, now, obs, packet)" by (cases a) auto
  let ?o = "openObject p (JRef r)"
  have rest: "\<forall>(alloc, now, obs, packet) \<in> set as. allocatedBefore alloc packet p \<and> (content packet \<in> set pkts \<or> rejected C alloc p packet)"
    using Cons.prems(2) by simp
  from Cons.prems(2) a consider "rejected C al p packet" | "content packet \<in> set pkts" "allocatedBefore al packet p"
    by auto
  then show ?case
  proof cases
    case 1
    then obtain e where "cell_open C al now obs ?o (JBuf packet) w = (w, Inl e)"
      using rejected_open by blast
    with Cons.IH [OF Cons.prems(1) rest] a show ?thesis by simp
  next
    case 2
    then obtain i where i: "i < length ps" "content packet = pkts ! i"
      using sent(2) by (auto simp: in_set_conv_nth)
    let ?s = "s\<lparr>se_payload := ps ! i\<rparr>" and ?q = "JBuf (ownBuf (al + 4) (contentOf (ps ! i)))"
    obtain t res where push: "pushAuthenticated now obs (JBig (int (v + i))) ?q rc = (t, res)"
      by (cases "pushAuthenticated now obs (JBig (int (v + i))) ?q rc") auto
    define w1 where "w1 = w\<lparr>receivers := (receivers w)(r \<mapsto> Ordered t)\<rparr>"
    have "sealedAs C alloc ?s (v + i) (content packet)" "sameLink ?s p" "se_class ?s \<noteq> JNum 2"
      using sent(1) [OF i(1)] i(2) link by (simp_all add: sameLink_def)
    from sealed_open [OF this(1,2) 2(2) this(3) Cons.prems(1), of now obs] push
    have op: "cell_open C al now obs ?o (JBuf packet) w = (w1, map_sum receiverFailure JArr res)"
      by (simp add: w1_def)
    have good: "goodPush v ps (OrPush now obs (JBig (int (v + i))) ?q)"
      using i(1) unfolding goodPush_def by blast
    have w1: "receivers w1 r = Some (Ordered t)"
      by (simp add: w1_def)
    from Cons.IH [OF w1 rest] obtain ops u acc
      where run: "or_run ops t = (u, acc, snd (receiveCells C ?o as w1))" "\<forall>x \<in> set ops. goodPush v ps x"
      by blast
    have "\<exists>acc'. or_run (OrPush now obs (JBig (int (v + i))) ?q # ops) rc = (u, acc', snd (receiveCells C ?o (a # as) w))"
      using push run(1) op a by (cases res) (simp_all add: case_prod_unfold)
    with good run(2) show ?thesis
      by (metis set_ConsD)
  qed
qed

lemma receive_in_order:
  assumes "\<And>i. i < length ps \<Longrightarrow> sealedAs C alloc (s\<lparr>se_payload := ps ! i\<rparr>) (or_next rc + i) (content (snd (snd (snd (as ! i)))))"
    and "length as = length ps" "sameLink s p" "se_class s \<noteq> JNum 2" "receivers w r = Some (Ordered rc)"
    and "\<And>i. i < length ps \<Longrightarrow> allocatedBefore (fst (as ! i)) (snd (snd (snd (as ! i)))) p"
    and "or_inv rc" "\<not> or_closed rc" "or_buffer rc = []" "or_next rc + length ps \<le> or_maximum rc + 1"
  shows "map contentOf (snd (receiveCells C (openObject p (JRef r)) as w)) = map contentOf ps"
  using assms
proof (induction as arbitrary: ps w rc)
  case (Cons a as)
  then obtain q qs where ps: "ps = q # qs" by (cases ps) auto
  obtain al now obs packet where a: "a = (al, now, obs, packet)" by (cases a) auto
  let ?q = "JBuf (ownBuf (al + 4) (contentOf q))"
  obtain t where t: "pushAuthenticated now obs (JBig (int (or_next rc))) ?q rc = (t, Inr [?q])" "or_inv t" "or_buffer t = []"
    "or_maximum t = or_maximum rc" "or_next rc < or_maximum rc \<Longrightarrow> \<not> or_closed t \<and> or_next t = or_next rc + 1"
    using push_in_order [OF Cons.prems(7-9)] by blast
  define w1 where "w1 = w\<lparr>receivers := (receivers w)(r \<mapsto> Ordered t)\<rparr>"
  have w1: "receivers w1 r = Some (Ordered t)" by (simp add: w1_def)
  have "sealedAs C alloc (s\<lparr>se_payload := q\<rparr>) (or_next rc) (content packet)" "allocatedBefore al packet p"
    using Cons.prems(1,6) [of 0] a ps by simp_all
  moreover have "sameLink (s\<lparr>se_payload := q\<rparr>) p" "se_class (s\<lparr>se_payload := q\<rparr>) \<noteq> JNum 2"
    using Cons.prems(3,4) by (simp_all add: sameLink_def)
  ultimately have op: "cell_open C al now obs (openObject p (JRef r)) (JBuf packet) w = (w1, Inr (JArr [?q]))"
    using sealed_open [where packet = packet and w = w and now = now and obs = obs, OF _ _ _ _ Cons.prems(5)] t(1)
    by (simp add: w1_def)
  have "map contentOf (snd (receiveCells C (openObject p (JRef r)) as w1)) = map contentOf qs"
  proof (cases qs)
    case Nil
    with Cons.prems(2) ps show ?thesis by simp
  next
    case (Cons q' qs')
    then have "or_next rc < or_maximum rc" using Cons.prems(10) ps by simp
    note t5 = t(5) [OF this]
    show ?thesis
    proof (rule Cons.IH [OF _ _ Cons.prems(3,4) w1 _ t(2) _ t(3)])
      show "sealedAs C alloc (s\<lparr>se_payload := qs ! i\<rparr>) (or_next t + i) (content (snd (snd (snd (as ! i)))))" if "i < length qs" for i
        using Cons.prems(1) [of "Suc i"] that t5 ps by simp
      show "allocatedBefore (fst (as ! i)) (snd (snd (snd (as ! i)))) p" if "i < length qs" for i
        using Cons.prems(6) [of "Suc i"] that ps by simp
    qed (use Cons.prems(2,10) t5 t(4) ps in simp_all)
  qed
  with op a ps show ?case
    by (simp add: case_prod_unfold ownBuf_def)
qed simp

end

end
