(* ===== verification/Cell_Contexts.thy ===== *)
theory Cell_Contexts
  imports Cell_Link
begin

text \<open>
  The reusable sealers and openers of \<^verbatim>\<open>lib/private/cell-codec.js\<close> (\<open>createSealer\<close>, \<open>createOpener\<close>): they
  snapshot the static inputs of a link once, keep their scratch buffers between cells and write into
  buffers of the caller. A context is a record; its scratch buffers matter only for the alias checks,
  which see their backing stores. The caller's output is passed with its content, and the content
  after the call is returned. A padding hook may destroy its context while it runs (a re-entrant call
  does so too); hooks that detach the scratch buffers are not modelled.
\<close>

section \<open>Contexts\<close>

record cell_context =
  cx_sealing :: bool
  cx_sender :: nat
  cx_key :: bytes
  cx_noncePrefix :: bytes
  cx_header :: bytes
  cx_sources :: "jsval list"
  cx_buffers :: "jsval list"
  cx_destroyed :: bool
  cx_counter :: "nat option"

fun ordinaryBuffer :: "jsval \<Rightarrow> bool" where
  "ordinaryBuffer (JBuf b) \<longleftrightarrow> \<not> sharedStore b"
| "ordinaryBuffer _ \<longleftrightarrow> False"

text \<open>The sizes of the scratch buffers in the order of their allocation.\<close>

definition scratchSizes :: "bool \<Rightarrow> nat list" where
  "scratchSizes sealing = [32, 16, 24, CELL_HEADER_SIZE, length CELL_HEADER_DOMAIN + CELL_HEADER_SIZE, CELL_BODY_SIZE,
     CELL_BODY_SIZE + AEAD_TAG_BYTES] @ (if sealing then [MAX_CELL_PAYLOAD] else [])"

definition scratchBuffers :: "nat \<Rightarrow> bool \<Rightarrow> jsval list" where
  "scratchBuffers alloc sealing =
     map (\<lambda>(i, n). JBuf (ownBuf (alloc + i) (replicate n 0))) (zip [0 ..< length (scratchSizes sealing)] (scratchSizes sealing))"

text \<open>The backing store of the module's constant \<open>CELL_HEADER_DOMAIN\<close>.\<close>

definition domainBuffer :: "nat \<Rightarrow> jsval" where
  "domainBuffer d = JBuf (ownBuf d CELL_HEADER_DOMAIN)"

definition contextOf ::
  "nat \<Rightarrow> nat \<Rightarrow> bool \<Rightarrow> nat \<Rightarrow> jsval \<Rightarrow> jsval \<Rightarrow> jsval \<Rightarrow> jsval \<Rightarrow> jsval \<Rightarrow> jsval \<Rightarrow> crypto_failure + cell_context" where
  "contextOf d alloc sealing sender key noncePrefix cellClass direction epoch circuitId =
     (if \<not> ordinaryBuffer key \<or> \<not> isBufferOf key 32 \<or> \<not> ordinaryBuffer noncePrefix \<or> \<not> isBufferOf noncePrefix 16
        \<or> \<not> knownClass cellClass \<or> \<not> knownDirection direction \<or> \<not> uint64 epoch
        \<or> \<not> ordinaryBuffer circuitId \<or> \<not> isBufferOf circuitId 16
      then Inl invalidCell
      else Inr \<lparr>cx_sealing = sealing, cx_sender = sender, cx_key = contentOf key, cx_noncePrefix = contentOf noncePrefix,
        cx_header = cellHeader (number cellClass) (number direction) (number epoch) (contentOf circuitId) 0,
        cx_sources = [key, noncePrefix, circuitId, domainBuffer d], cx_buffers = scratchBuffers alloc sealing,
        cx_destroyed = False, cx_counter = None\<rparr>)"

fun paddingHookOk :: "jsval \<Rightarrow> jsval \<Rightarrow> bool" where
  "paddingHookOk configuredPadding Undefined \<longleftrightarrow> configuredPadding = Undefined"
| "paddingHookOk configuredPadding (JFun _) \<longleftrightarrow> True"
| "paddingHookOk configuredPadding _ \<longleftrightarrow> False"

definition createSealer :: "cell_codec \<Rightarrow> nat \<Rightarrow> nat \<Rightarrow> jsval \<Rightarrow> cell_world \<Rightarrow> crypto_failure + cell_context" where
  "createSealer C d alloc options0 w =
     (if \<not> cc_reusable C then Inl invalidCell
      else
        bindE (cell_optionsObject options0) (\<lambda>options.
        bindE (cell_option options ''key'' True) (\<lambda>key.
        bindE (cell_option options ''noncePrefix'' True) (\<lambda>noncePrefix.
        bindE (cell_option options ''class'' True) (\<lambda>cellClass.
        bindE (cell_option options ''direction'' True) (\<lambda>direction.
        bindE (cell_option options ''epoch'' True) (\<lambda>epoch.
        bindE (cell_option options ''circuitId'' True) (\<lambda>circuitId.
        bindE (cell_option options ''senderCounter'' True) (\<lambda>senderCounter.
          (case senderOf senderCounter w of
             None \<Rightarrow> Inl invalidCell
           | Some (h, _) \<Rightarrow>
               bindE (cell_option options ''paddingInto'' False) (\<lambda>paddingInto.
                 if \<not> paddingHookOk (cc_configuredPadding C) paddingInto then Inl invalidCell
                 else contextOf d alloc True h key noncePrefix cellClass direction epoch circuitId)))))))))))"

definition createOpener :: "cell_codec \<Rightarrow> nat \<Rightarrow> nat \<Rightarrow> jsval \<Rightarrow> crypto_failure + cell_context" where
  "createOpener C d alloc options =
     (if \<not> cc_reusable C then Inl invalidCell
      else bindE (readOpenOptions options) (\<lambda>p.
        contextOf d alloc False 0 (op_key p) (op_noncePrefix p) (op_class p) (op_direction p) (op_epoch p) (op_circuitId p)))"

definition context_destroy :: "cell_context \<Rightarrow> cell_context" where
  "context_destroy x = (if cx_destroyed x then x else x\<lparr>cx_destroyed := True, cx_counter := None\<rparr>)"

definition safeOutput :: "cell_context \<Rightarrow> jsval \<Rightarrow> jsval \<Rightarrow> bool" where
  "safeOutput x output input \<longleftrightarrow> ordinaryBuffer output \<and> \<not> overlaps output input
     \<and> \<not> overlapsAny output (cx_sources x) \<and> \<not> overlapsAny output (cx_buffers x)"

section \<open>Sealing into a buffer\<close>

definition overwrite :: "bytes \<Rightarrow> nat \<Rightarrow> bytes \<Rightarrow> bytes" where
  "overwrite bs offset new = take offset bs @ new @ drop (offset + length new) bs"

definition clearOutputRange :: "jsval \<Rightarrow> bytes \<Rightarrow> bytes" where
  "clearOutputRange offset bs =
     (if \<not> isSafeInteger offset \<or> (case offset of JNum n \<Rightarrow> n < 0 | _ \<Rightarrow> True) then bs
      else overwrite bs (number offset) (replicate (min CELL_BYTES (length bs - number offset)) 0))"

text \<open>The outcome of the padding hook: it throws, or fills the buffer and may have destroyed the context.\<close>

type_synonym padding_fill = "js_exn + bytes \<times> bool"

definition fillPadding :: "padding_fill \<Rightarrow> nat \<Rightarrow> crypto_failure + bytes" where
  "fillPadding fill n =
     (if n = 0 then Inr []
      else (case fill of
        Inl _ \<Rightarrow> Inl invalidCell
      | Inr (bs, dead) \<Rightarrow> if dead then Inl invalidCell else Inr (take n bs)))"

definition sealInto :: "sodium \<Rightarrow> padding_fill \<Rightarrow> buffer \<Rightarrow> jsval \<Rightarrow> jsval \<Rightarrow>
    (cell_context \<times> cell_world, crypto_failure, nat \<times> bytes) action" where
  "sealInto L fill output payload offset xw = (case xw of (x, w) \<Rightarrow>
     if cx_destroyed x \<or> \<not> safeOutput x (JBuf output) payload \<or> \<not> isSafeInteger offset
       \<or> (case offset of JNum n \<Rightarrow> n < 0 \<or> int (byteLength output) - n < int CELL_BYTES | _ \<Rightarrow> True)
       \<or> \<not> ordinaryBuffer payload \<or> bufferLength payload > int MAX_CELL_PAYLOAD \<or> overlapsAny payload (cx_buffers x)
     then ((x, w), Inl invalidCell)
     else (case fillPadding fill (MAX_CELL_PAYLOAD - length (contentOf payload)) of
       Inl e \<Rightarrow> ((x, w), Inl e)
     | Inr padding \<Rightarrow> (case senders w (cx_sender x) of
         None \<Rightarrow> ((x, w), Inl invalidCell)
       | Some sender \<Rightarrow> (case callNext (cx_sender x) sender w of
           (w', Inl e) \<Rightarrow> ((x, w'), Inl e)
         | (w', Inr counter) \<Rightarrow>
             ((x, w'),
              if \<not> uint64 (JBig (int counter)) then Inl invalidCell
              else (let header = take 28 (cx_header x) @ be_bytes 8 counter
                in bindE (cellAead_sealInto L (cellBody (contentOf payload) padding) (CELL_HEADER_DOMAIN @ header)
                     (cx_noncePrefix x @ be_bytes 8 counter) (cx_key x))
                   (\<lambda>ciphertext. Inr (CELL_BYTES, overwrite (content output) (number offset) (header @ ciphertext)))))))))"

text \<open>
  The \<open>finally\<close> block: on a failure the context is destroyed, and the range of the output is zeroed
  unless it aliases an input; the result is the new content of the output with the returned value.
\<close>

definition sealer_sealInto :: "sodium \<Rightarrow> padding_fill \<Rightarrow> buffer \<Rightarrow> jsval \<Rightarrow> jsval \<Rightarrow> cell_context \<times> cell_world \<Rightarrow>
    cell_context \<times> cell_world \<times> bytes \<times> (crypto_failure + nat)" where
  "sealer_sealInto L fill output payload offset xw = (case sealInto L fill output payload offset xw of
     ((x, w), Inl e) \<Rightarrow>
       (context_destroy x, w,
        if safeOutput (fst xw) (JBuf output) payload then clearOutputRange offset (content output) else content output, Inl e)
   | ((x, w), Inr (n, out)) \<Rightarrow> (x, w, out, Inr n))"

section \<open>Opening into a buffer\<close>

definition openInto :: "sodium \<Rightarrow> buffer \<Rightarrow> buffer \<Rightarrow> cell_context \<Rightarrow> crypto_failure + nat \<times> nat \<times> bytes" where
  "openInto L packet output x =
     (if cx_destroyed x \<or> \<not> safeOutput x (JBuf output) (JBuf packet) \<or> byteLength output \<noteq> CELL_BODY_SIZE
        \<or> \<not> ordinaryBuffer (JBuf packet) \<or> byteLength packet \<noteq> CELL_BYTES \<or> overlapsAny (JBuf packet) (cx_buffers x)
      then Inl invalidCell
      else if take 28 (content packet) \<noteq> take 28 (cx_header x) then Inl invalidCell
      else (let counter = be_nat (take 8 (drop 28 (content packet)))
        in bindE (cellAead_openInto L (drop CELL_HEADER_SIZE (content packet))
               (CELL_HEADER_DOMAIN @ take CELL_HEADER_SIZE (content packet)) (cx_noncePrefix x @ be_bytes 8 counter) (cx_key x))
             (\<lambda>r. case r of
                None \<Rightarrow> Inl invalidCell
              | Some bdy \<Rightarrow>
                  (let payloadLength = be_nat (take 2 bdy)
                   in if payloadLength > MAX_CELL_PAYLOAD then Inl invalidCell
                      else Inr (payloadLength, counter, bdy)))))"

definition opener_openInto :: "sodium \<Rightarrow> buffer \<Rightarrow> buffer \<Rightarrow> cell_context \<Rightarrow> cell_context \<times> bytes \<times> (crypto_failure + nat)" where
  "opener_openInto L packet output x = (case openInto L packet output x of
     Inl e \<Rightarrow>
       (context_destroy (x\<lparr>cx_counter := None\<rparr>),
        if safeOutput x (JBuf output) (JBuf packet) then replicate (byteLength output) 0 else content output, Inl e)
   | Inr (n, counter, bdy) \<Rightarrow> (x\<lparr>cx_counter := Some counter\<rparr>, bdy, Inr n))"

end
