(* ===== verification/Cell_Properties.thy ===== *)
theory Cell_Properties
  imports Cell_Contexts
begin

text \<open>
  The properties of the cell codec in production, over the adapter of \<^verbatim>\<open>lib/private/crypto-suite.js\<close>
  and a library with the documented behaviour of authenticated encryption.
\<close>

section \<open>The production codec\<close>

definition suiteCodec :: "sodium \<Rightarrow> (nat \<Rightarrow> js_exn + jsval) \<Rightarrow> cell_codec" where
  "suiteCodec L random =
     \<lparr>cc_seal = (\<lambda>n options. map_sum id (\<lambda>bs. JBuf (ownBuf n bs)) (aead_seal L options)),
      cc_open = (\<lambda>n options. map_sum id (\<lambda>r. case r of None \<Rightarrow> Null | Some bs \<Rightarrow> JBuf (ownBuf n bs)) (aead_open L options)),
      cc_padding = random, cc_reusable = True, cc_configuredPadding = Undefined\<rparr>"

lemma suiteCodec_constructed:
  assumes "providers suite = Some (suiteProvider L random)"
  shows "CellCodec_new suite providers functions (JObj [(''crypto'', DataProp suite), (''cellSize'', DataProp (JNum 1200))] [])
    = Inr (suiteCodec L random)"
  using assms
  by (simp add: CellCodec_new_def cell_optionsObject_def cell_option_def CELL_BYTES_def choosePadding_def
      suiteProvider_def suiteCodec_def)

lemma suite_link: "aead L \<Longrightarrow> cell_link (aead_seal L) (aead_open L) (suiteCodec L random)"
  by (intro cell_link.intro cell_link_axioms.intro aead.aead_cell_crypto) (simp_all add: suiteCodec_def)

text \<open>Padding of zeros, for the reference instance.\<close>

definition zeroRandom :: "nat \<Rightarrow> js_exn + jsval" where
  "zeroRandom n = Inr (JBuf (ownBuf 0 (replicate n 0)))"

interpretation reflink: cell_link "aead_seal refSodium" "aead_open refSodium" "suiteCodec refSodium zeroRandom"
  by (rule suite_link [OF refsod.aead_axioms])

section \<open>Links\<close>

text \<open>
  C2: a link of private cells. Let the payloads \<open>ps\<close> be sealed one after the other with a sender counter
  whose value is the next counter of a new ordered receiver, and let packets arrive in any order, any
  number of times, mixed with packets that do not authenticate. Then the payloads that come out of the
  receiver are an initial part of \<open>ps\<close>, in order and each once. When exactly the sealed packets arrive
  in the order of sealing, and the receiver's maximum is not below the counters used, all come out.
\<close>
theorem link_delivers_in_order:
  assumes "aead L" "sendCells (suiteCodec L random) alloc s ps w = (w', Inr pkts)"
    and "se_senderCounter s = JRef h" "senders w h = Some sd" "se_class s \<noteq> JNum 2" "sameLink s p"
    and "OrderedReceiver_new v = Inr rc" "or_next rc = sc_value sd" "receivers w r = Some (Ordered rc)"
    and "\<forall>(alloc, now, obs, packet) \<in> set as. allocatedBefore alloc packet p
      \<and> (content packet \<in> set pkts \<or> rejected (suiteCodec L random) alloc p packet)"
  shows "(\<exists>n \<le> length ps. map contentOf (snd (receiveCells (suiteCodec L random) (openObject p (JRef r)) as w'))
        = map contentOf (take n ps))
    \<and> (map (\<lambda>(_, _, _, packet). content packet) as = pkts \<and> sc_value sd + length ps \<le> or_maximum rc + 1 \<longrightarrow>
        map contentOf (snd (receiveCells (suiteCodec L random) (openObject p (JRef r)) as w')) = map contentOf ps)"
proof -
  let ?C = "suiteCodec L random"
  note link = suite_link [OF assms(1), of random]
  from sendCells_sealedAs [OF assms(2-4)] assms(8,9)
  have sent: "\<And>i. i < length ps \<Longrightarrow> sealedAs ?C alloc (s\<lparr>se_payload := ps ! i\<rparr>) (or_next rc + i) (pkts ! i)" "length pkts = length ps"
    and rc: "receivers w' r = Some (Ordered rc)"
    by auto
  from cell_link.receive_is_run [OF link sent assms(6,5) rc assms(10)] obtain ops t acc
    where run: "or_run ops rc = (t, acc, snd (receiveCells ?C (openObject p (JRef r)) as w'))" "\<forall>x \<in> set ops. goodPush (or_next rc) ps x"
    by blast
  from or_run_delivers_prefix [OF assms(7) run]
  have "\<exists>n \<le> length ps. map contentOf (snd (receiveCells ?C (openObject p (JRef r)) as w')) = map contentOf (take n ps)"
    by blast
  moreover have "map contentOf (snd (receiveCells ?C (openObject p (JRef r)) as w')) = map contentOf ps"
    if order: "map (\<lambda>(_, _, _, packet). content packet) as = pkts" and m: "sc_value sd + length ps \<le> or_maximum rc + 1"
  proof -
    have len: "length as = length ps"
      using order sent(2) by auto
    have pk: "content (snd (snd (snd (as ! i)))) = pkts ! i" "allocatedBefore (fst (as ! i)) (snd (snd (snd (as ! i)))) p"
      if i: "i < length ps" for i
    proof -
      show "content (snd (snd (snd (as ! i)))) = pkts ! i"
        unfolding order [symmetric] using i len by (simp add: case_prod_unfold)
      have "as ! i \<in> set as" using i len by simp
      then show "allocatedBefore (fst (as ! i)) (snd (snd (snd (as ! i)))) p"
        using assms(10) by (auto simp: case_prod_unfold)
    qed
    from OrderedReceiver_new_inv [OF assms(7)] have inv: "or_inv rc" "\<not> or_closed rc" "or_buffer rc = []" by auto
    have "sealedAs ?C alloc (s\<lparr>se_payload := ps ! i\<rparr>) (or_next rc + i) (content (snd (snd (snd (as ! i)))))" if "i < length ps" for i
      using sent(1) pk(1) that by simp
    from cell_link.receive_in_order [OF link this len assms(6,5) rc pk(2) inv] m assms(8) show ?thesis
      by simp
  qed
  ultimately show ?thesis by blast
qed

text \<open>Two payloads on the link of the receiver of the earlier examples, whose next counter is 3.\<close>

definition example_link :: seal_options where
  "example_link = \<lparr>se_key = JBuf (ownBuf 1 (replicate 32 7)), se_noncePrefix = JBuf (ownBuf 2 (replicate 16 8)),
     se_senderCounter = JRef 0, se_class = JNum 1, se_direction = JNum 0, se_epoch = JBig 5,
     se_circuitId = JBuf (ownBuf 3 (replicate 16 9)), se_payload = Undefined\<rparr>"

definition example_end :: open_options where
  "example_end = \<lparr>op_key = se_key example_link, op_noncePrefix = se_noncePrefix example_link, op_class = se_class example_link,
     op_direction = se_direction example_link, op_epoch = se_epoch example_link, op_circuitId = se_circuitId example_link\<rparr>"

definition example_payloads :: "jsval list" where
  "example_payloads = [JBuf (ownBuf 4 [1, 2]), JBuf (ownBuf 5 [3])]"

definition example_world :: "nat \<Rightarrow> cell_world" where
  "example_world n = \<lparr>senders = [0 \<mapsto> \<lparr>sc_value = n, sc_maximum = 100, sc_rotateAt = 0, sc_closed = False\<rparr>],
     receivers = [1 \<mapsto> Ordered example_receiver]\<rparr>"

lemma example_link_valid:
  assumes "length bs \<le> 1146"
  shows "validSeal (example_link\<lparr>se_payload := JBuf (ownBuf n bs)\<rparr>)"
  using assms
  by (simp add: validSeal_def example_link_def isBufferOf_def ownBuf_def knownClass_def knownDirection_def CELL_CLASS_def
      DIRECTION_def uint64_def MAX_COUNTER_def MAX_CELL_PAYLOAD_def)

lemma example_seals:
  assumes "length bs \<le> 1146" "n < 100"
  shows "\<exists>pkt. cell_seal (suiteCodec refSodium zeroRandom) alloc (sealObject (example_link\<lparr>se_payload := JBuf (ownBuf k bs)\<rparr>)) (example_world n)
    = (example_world (n + 1), Inr pkt)"
proof -
  let ?sd = "\<lparr>sc_value = n, sc_maximum = 100, sc_rotateAt = 0, sc_closed = False\<rparr>"
  have "cellPadding (suiteCodec refSodium zeroRandom) (MAX_CELL_PAYLOAD - length (contentOf (JBuf (ownBuf k bs))))
      = Inr (replicate (1146 - length bs) 0)"
    by (simp add: cellPadding_def suiteCodec_def zeroRandom_def isBufferOf_def ownBuf_def MAX_CELL_PAYLOAD_def)
  moreover have "senders (example_world n) 0 = Some ?sd" "se_senderCounter example_link = JRef 0"
    by (simp_all add: example_world_def example_link_def)
  moreover have "(example_world n)\<lparr>senders := (senders (example_world n))(0 \<mapsto> fst (sc_next ?sd))\<rparr> = example_world (n + 1)"
    using assms(2) by (simp add: example_world_def sc_next_def)
  ultimately show ?thesis
    using reflink.cell_seal_succeeds [OF example_link_valid [OF assms(1), of k], where h = 0 and w = "example_world n" and sd = ?sd
        and options = "sealObject (example_link\<lparr>se_payload := JBuf (ownBuf k bs)\<rparr>)" and alloc = alloc]
      assms(2) by (simp add: MAX_COUNTER_def)
qed

theorem link_delivers_in_order_witness:
  "\<exists>w pkts. sendCells (suiteCodec refSodium zeroRandom) 10 example_link example_payloads (example_world 3) = (w, Inr pkts)
    \<and> map contentOf (snd (receiveCells (suiteCodec refSodium zeroRandom) (openObject example_end (JRef 1))
        (map (\<lambda>pkt. (30, quiet, quiet, ownBuf 20 pkt)) pkts) w)) = [[1, 2], [3]]"
proof -
  let ?C = "suiteCodec refSodium zeroRandom"
  obtain p1 p2 where send: "sendCells ?C 10 example_link example_payloads (example_world 3) = (example_world 5, Inr [p1, p2])"
    using example_seals [of "[1, 2]" 3 10 4] example_seals [of "[3]" 4 10 5]
    by (auto simp: example_payloads_def bindS_def returnS_def)
  have "map contentOf (snd (receiveCells ?C (openObject example_end (JRef 1)) (map (\<lambda>pkt. (30, quiet, quiet, ownBuf 20 pkt)) [p1, p2]) (example_world 5)))
      = map contentOf example_payloads"
    by (rule mp [OF conjunct2 [OF link_delivers_in_order [OF refsod.aead_axioms send _ _ _ _ example_receiver_new,
          where h = 0 and r = 1 and sd = "\<lparr>sc_value = 3, sc_maximum = 100, sc_rotateAt = 0, sc_closed = False\<rparr>" and p = example_end]]])
      (simp_all add: example_link_def example_world_def example_end_def sameLink_def isBufferOf_def ownBuf_def
        example_receiver_new allocatedBefore_def example_payloads_def)
  with send show ?thesis
    by (simp add: example_payloads_def ownBuf_def)
qed

section \<open>Authenticity\<close>

lemma associatedData_length: "length (associatedData (take CELL_HEADER_SIZE bs)) \<le> 512"
  by (simp add: associatedData_def CELL_HEADER_DOMAIN_def DOMAIN_def DOMAIN_VALUES_def utf8_def CELL_HEADER_SIZE_def)

lemma be_nat_8_bound: "be_nat (take 8 (drop k bs)) \<le> MAX_COUNTER"
proof -
  have "be_nat (take 8 (drop k bs)) < 256 ^ length (take 8 (drop k bs))"
    by (rule be_nat_less)
  also have "\<dots> \<le> 256 ^ 8"
    by (intro power_increasing) simp_all
  finally show ?thesis
    by (simp add: MAX_COUNTER_def)
qed

text \<open>
  C7: only authentic cells reach a receiver. If opening a packet succeeds, or changes any sender or
  receiver, then the packet has the class, direction, epoch and circuit that were expected, and its
  ciphertext is the encryption of a body of the fixed size under the key of the link, with the nonce of
  its own counter and its own header as associated data.
\<close>
theorem cell_open_authentic:
  assumes "aead L" "cell_open (suiteCodec L random) alloc now obs options (JBuf packet) w = (w', res)"
    and "w' \<noteq> w \<or> \<not> isl res"
  shows "\<exists>p bdy. readOpenOptions options = Inr p \<and> byteLength packet = CELL_BYTES
    \<and> validHeader (readHeader (take CELL_HEADER_SIZE (content packet))) \<and> validOpen p (readHeader (take CELL_HEADER_SIZE (content packet)))
    \<and> length bdy = CELL_BODY_SIZE
    \<and> so_encrypt L bdy (CELL_HEADER_DOMAIN @ take CELL_HEADER_SIZE (content packet))
        (nonceFor (contentOf (op_noncePrefix p)) (ch_counter (readHeader (take CELL_HEADER_SIZE (content packet)))))
        (contentOf (op_key p)) = Inr (drop CELL_HEADER_SIZE (content packet))"
proof -
  let ?h = "readHeader (take CELL_HEADER_SIZE (content packet))" and ?C = "suiteCodec L random"
  from assms(2,3) obtain p payload where p: "readOpenOptions options = Inr p" "byteLength packet = CELL_BYTES"
      "validHeader ?h" "validOpen p ?h" "bindE (openBody ?C alloc p packet (ch_counter ?h)) bodyPayload = Inr payload"
    by (auto simp: cell_open_def Let_def split: if_splits sum.splits)
  then obtain bdy where bdy: "openBody ?C alloc p packet (ch_counter ?h) = Inr bdy"
    by (auto simp: bindE_Inr)
  have keys: "isBufferOf (op_key p) 32" "isBufferOf (op_noncePrefix p) 16"
    using p(4) by (simp_all add: validOpen_def)
  have "ch_counter ?h \<le> MAX_COUNTER"
    by (simp add: readHeader_def be_nat_8_bound)
  from cell_link.openBody_only [OF suite_link [OF assms(1)] bdy keys this associatedData_length]
  have "length bdy = CELL_BODY_SIZE" and sealed: "aead_seal L (sealOptions (JBuf (ownBuf alloc (contentOf (op_key p))))
      (JBuf (ownBuf (alloc + 1) (contentOf (op_noncePrefix p)))) (ch_counter ?h)
      (JBuf (ownBuf (alloc + 2) (associatedData (take CELL_HEADER_SIZE (content packet)))))
      ''plaintext'' (JBuf (ownBuf (alloc + 3) bdy))) = Inr (drop CELL_HEADER_SIZE (content packet))"
    by auto
  moreover have "so_encrypt L bdy (associatedData (take CELL_HEADER_SIZE (content packet)))
      (nonceFor (contentOf (op_noncePrefix p)) (ch_counter ?h)) (contentOf (op_key p)) = Inr (drop CELL_HEADER_SIZE (content packet))"
    using sealed keys associatedData_length [of "content packet"] \<open>length bdy = CELL_BODY_SIZE\<close> \<open>ch_counter ?h \<le> MAX_COUNTER\<close>
    by (subst (asm) aead.aead_seal_eq [OF assms(1)]) (auto simp: ownBuf_def isBufferOf_JBuf CELL_BODY_SIZE_def map_sum_Inr)
  ultimately show ?thesis
    using p by (auto simp: associatedData_def)
qed

lemma example_opens:
  "\<exists>pkt. length pkt = CELL_BYTES \<and> \<not> isl (snd (cell_open (suiteCodec refSodium zeroRandom) 30 quiet quiet
     (openObject example_end (JRef 1)) (JBuf (ownBuf 20 pkt)) (example_world 4)))"
proof -
  let ?C = "suiteCodec refSodium zeroRandom" and ?s = "example_link\<lparr>se_payload := JBuf (ownBuf 4 [1, 2])\<rparr>"
  obtain pkt where "cell_seal ?C 10 (sealObject ?s) (example_world 3) = (example_world 4, Inr pkt)"
    using example_seals [of "[1, 2]" 3 10 4] by auto
  then have "sealedAs ?C 10 ?s 3 (content (ownBuf 20 pkt))"
    using cell_seal_sealedAs(1) [where h = 0 and sd = "\<lparr>sc_value = 3, sc_maximum = 100, sc_rotateAt = 0, sc_closed = False\<rparr>"]
    by (fastforce simp: example_link_def example_world_def ownBuf_def)
  from reflink.sealed_open [OF this, where p = example_end and alloc' = 30 and r = 1 and rc = example_receiver and w = "example_world 4"
      and now = quiet and obs = quiet]
  have open_is: "cell_open ?C 30 quiet quiet (openObject example_end (JRef 1)) (JBuf (ownBuf 20 pkt)) (example_world 4)
      = (case pushAuthenticated quiet quiet (JBig (int 3)) (JBuf (ownBuf (30 + 4) [1, 2])) example_receiver of
          (t, res) \<Rightarrow> ((example_world 4)\<lparr>receivers := (receivers (example_world 4))(1 \<mapsto> Ordered t)\<rparr>, map_sum receiverFailure JArr res))"
    by (simp add: sameLink_def example_end_def example_link_def isBufferOf_def ownBuf_def allocatedBefore_def example_world_def)
  have ok: "\<not> isl (snd (cell_open ?C 30 quiet quiet (openObject example_end (JRef 1)) (JBuf (ownBuf 20 pkt)) (example_world 4)))"
    unfolding open_is by (simp add: or_eval)
  moreover from ok have "length pkt = CELL_BYTES"
    by (auto simp: cell_open_def ownBuf_def split: if_splits)
  ultimately show ?thesis by blast
qed

text \<open>The first cell of the example link opens, so its packet is authentic.\<close>

theorem cell_open_authentic_witness:
  "\<exists>pkt bdy. length bdy = CELL_BODY_SIZE \<and> \<not> isl (snd (cell_open (suiteCodec refSodium zeroRandom) 30 quiet quiet
       (openObject example_end (JRef 1)) (JBuf (ownBuf 20 pkt)) (example_world 4)))
    \<and> so_encrypt refSodium bdy (CELL_HEADER_DOMAIN @ take CELL_HEADER_SIZE pkt)
        (nonceFor (replicate 16 8) (ch_counter (readHeader (take CELL_HEADER_SIZE pkt)))) (replicate 32 7) = Inr (drop CELL_HEADER_SIZE pkt)"
proof -
  let ?C = "suiteCodec refSodium zeroRandom"
  obtain pkt where ok: "\<not> isl (snd (cell_open ?C 30 quiet quiet (openObject example_end (JRef 1)) (JBuf (ownBuf 20 pkt)) (example_world 4)))"
    using example_opens by blast
  obtain w' res where run: "cell_open ?C 30 quiet quiet (openObject example_end (JRef 1)) (JBuf (ownBuf 20 pkt)) (example_world 4) = (w', res)"
    by (cases "cell_open ?C 30 quiet quiet (openObject example_end (JRef 1)) (JBuf (ownBuf 20 pkt)) (example_world 4)") auto
  have ends: "contentOf (op_key example_end) = replicate 32 7" "contentOf (op_noncePrefix example_end) = replicate 16 8"
    "content (ownBuf 20 pkt) = pkt"
    by (simp_all add: example_end_def example_link_def ownBuf_def)
  have "\<not> isl res" using ok unfolding run by simp
  from cell_open_authentic [OF refsod.aead_axioms run disjI2 [OF this]] ok show ?thesis
    unfolding readOpenOptions_object ends by (auto simp: ends)
qed

section \<open>Reusable contexts\<close>

lemma cellHeader_counter:
  assumes "length circ = 16"
  shows "take 28 (cellHeader c d e circ 0) @ be_bytes 8 n = cellHeader c d e circ n"
  using assms by (simp add: cellHeader_def)

lemma createSealer_context:
  assumes "createSealer C d alloc (sealObject s) w = Inr x"
  obtains h where "se_senderCounter s = JRef h" "x = \<lparr>cx_sealing = True, cx_sender = h, cx_key = contentOf (se_key s),
      cx_noncePrefix = contentOf (se_noncePrefix s), cx_header = headerOf s 0,
      cx_sources = [se_key s, se_noncePrefix s, se_circuitId s, domainBuffer d], cx_buffers = scratchBuffers alloc True,
      cx_destroyed = False, cx_counter = None\<rparr>"
    "isBufferOf (se_key s) 32" "isBufferOf (se_noncePrefix s) 16" "isBufferOf (se_circuitId s) 16" "knownClass (se_class s)"
    "knownDirection (se_direction s)" "uint64 (se_epoch s)"
proof -
  obtain h sd where "senderOf (se_senderCounter s) w = Some (h, sd)"
    using assms by (auto simp: createSealer_def sealObject_def cell_optionsObject_def cell_option_def split: if_splits option.splits)
  then have "se_senderCounter s = JRef h"
    by (cases "se_senderCounter s") auto
  with assms that show thesis
    by (auto simp: createSealer_def sealObject_def cell_optionsObject_def cell_option_def contextOf_def split: if_splits option.splits)
qed

text \<open>What \<open>seal\<close> computes, with the library's encryption written out.\<close>

lemma sealPacket_suite:
  assumes "aead L" "validSeal s" "length bdy = CELL_BODY_SIZE" "counter \<le> MAX_COUNTER"
  shows "sealPacket (suiteCodec L random) alloc s bdy counter
    = bindE (cellAead_sealInto L bdy (CELL_HEADER_DOMAIN @ headerOf s counter) (contentOf (se_noncePrefix s) @ be_bytes 8 counter)
        (contentOf (se_key s))) (\<lambda>c. Inr (headerOf s counter @ c))"
proof -
  obtain c where c: "sealPacket (suiteCodec L random) alloc s bdy counter = Inr (headerOf s counter @ c)"
    and call: "aead_seal L (sealOptions (JBuf (ownBuf alloc (contentOf (se_key s)))) (JBuf (ownBuf (alloc + 1) (contentOf (se_noncePrefix s))))
       counter (JBuf (ownBuf (alloc + 2) (associatedData (headerOf s counter)))) ''plaintext'' (JBuf (ownBuf (alloc + 3) bdy))) = Inr c"
    and pre: "byteLength (ownBuf alloc (contentOf (se_key s))) = 32" "byteLength (ownBuf (alloc + 1) (contentOf (se_noncePrefix s))) = 16"
      "byteLength (ownBuf (alloc + 2) (associatedData (headerOf s counter))) \<le> 512" "byteLength (ownBuf (alloc + 3) bdy) \<le> 65535"
    using cell_link.sealPacket_calls [OF suite_link [OF assms(1)] assms(2-4)] by metis
  have "cellAead_sealInto L bdy (CELL_HEADER_DOMAIN @ headerOf s counter) (contentOf (se_noncePrefix s) @ be_bytes 8 counter)
      (contentOf (se_key s)) = Inr c"
    using call unfolding aead.aead_seal_eq [OF assms(1) pre(1,2) assms(4) pre(3,4)]
    by (simp add: cellAead_sealInto_def ownBuf_def associatedData_def nonceFor_def)
  with c show ?thesis by simp
qed

lemma cell_seal_steps:
  assumes "validSeal s" "se_senderCounter s = JRef h" "senders w h = Some sd"
  shows "cell_seal C alloc (sealObject s) w = (case cellPadding C (MAX_CELL_PAYLOAD - length (contentOf (se_payload s))) of
      Inl e \<Rightarrow> (w, Inl e)
    | Inr padding \<Rightarrow> (case callNext h sd w of
        (w', Inl e) \<Rightarrow> (w', Inl e)
      | (w', Inr counter) \<Rightarrow> (w', if \<not> uint64 (JBig (int counter)) then Inl invalidCell
          else sealPacket C alloc s (cellBody (contentOf (se_payload s)) padding) counter)))"
  using assms by (simp add: cell_seal_def bindS_def split: sum.split prod.split)

lemma sealInto_steps:
  assumes x: "\<not> cx_destroyed x" "cx_sender x = h" "cx_key x = contentOf (se_key s)" "cx_noncePrefix x = contentOf (se_noncePrefix s)"
      "cx_header x = headerOf s 0" "length (contentOf (se_circuitId s)) = 16" "senders w h = Some sd"
    and ok: "safeOutput x (JBuf output) payload" "ordinaryBuffer payload" "\<not> overlapsAny payload (cx_buffers x)"
      "offset + CELL_BYTES \<le> byteLength output" "int offset \<le> MAX_SAFE_INTEGER" "bufferLength payload \<le> int MAX_CELL_PAYLOAD"
  shows "sealInto L fill output payload (JNum (int offset)) (x, w) = (case fillPadding fill (MAX_CELL_PAYLOAD - length (contentOf payload)) of
      Inl e \<Rightarrow> ((x, w), Inl e)
    | Inr padding \<Rightarrow> (case callNext h sd w of
        (w', Inl e) \<Rightarrow> ((x, w'), Inl e)
      | (w', Inr counter) \<Rightarrow> ((x, w'), if \<not> uint64 (JBig (int counter)) then Inl invalidCell
          else bindE (cellAead_sealInto L (cellBody (contentOf payload) padding) (CELL_HEADER_DOMAIN @ headerOf s counter)
              (contentOf (se_noncePrefix s) @ be_bytes 8 counter) (contentOf (se_key s)))
             (\<lambda>c. Inr (CELL_BYTES, overwrite (content output) offset (headerOf s counter @ c))))))"
proof -
  have guard: "(cx_destroyed x \<or> \<not> safeOutput x (JBuf output) payload \<or> \<not> isSafeInteger (JNum (int offset))
       \<or> (case JNum (int offset) of JNum n \<Rightarrow> n < 0 \<or> int (byteLength output) - n < int CELL_BYTES | _ \<Rightarrow> True)
       \<or> \<not> ordinaryBuffer payload \<or> bufferLength payload > int MAX_CELL_PAYLOAD \<or> overlapsAny payload (cx_buffers x)) = False"
    using x(1) ok by auto
  show ?thesis
    unfolding sealInto_def prod.case guard if_False x(2-5,7) option.case Let_def cellHeader_counter [OF x(6)] number.simps nat_int ..
qed

text \<open>
  C8: sealing into a buffer is sealing. For a sealer made from the options of a link, a payload and an
  output that share no memory with its own buffers, and padding hooks that produce the same bytes,
  \<open>sealInto\<close> takes the same counter as \<open>seal\<close> would, writes exactly the packet that \<open>seal\<close> would return
  at the given offset, and touches nothing else; where \<open>seal\<close> fails it fails with the same error,
  leaves zeros in that range and destroys the sealer.
\<close>
theorem sealInto_equals_seal:
  assumes "aead L" "createSealer (suiteCodec L random) d alloc (sealObject (s\<lparr>se_payload := payload\<rparr>)) w0 = Inr x"
    and "senders w (cx_sender x) \<noteq> None"
    and "safeOutput x (JBuf output) payload" "ordinaryBuffer payload" "\<not> overlapsAny payload (cx_buffers x)"
    and "offset + CELL_BYTES \<le> byteLength output" "int offset \<le> MAX_SAFE_INTEGER"
    and "bufferLength payload \<le> int MAX_CELL_PAYLOAD"
    and "cellPadding (suiteCodec L random) (MAX_CELL_PAYLOAD - length (contentOf payload))
      = fillPadding fill (MAX_CELL_PAYLOAD - length (contentOf payload))"
  shows "sealer_sealInto L fill output payload (JNum (int offset)) (x, w)
    = (case cell_seal (suiteCodec L random) alloc' (sealObject (s\<lparr>se_payload := payload\<rparr>)) w of
        (w', Inr pkt) \<Rightarrow> (x, w', overwrite (content output) offset pkt, Inr CELL_BYTES)
      | (w', Inl e) \<Rightarrow> (context_destroy x, w', overwrite (content output) offset (replicate CELL_BYTES 0), Inl e))"
proof -
  let ?C = "suiteCodec L random" and ?s = "s\<lparr>se_payload := payload\<rparr>"
  note made = createSealer_context [OF assms(2)]
  obtain h where "se_senderCounter ?s = JRef h" "x = \<lparr>cx_sealing = True, cx_sender = h, cx_key = contentOf (se_key ?s),
      cx_noncePrefix = contentOf (se_noncePrefix ?s), cx_header = headerOf ?s 0,
      cx_sources = [se_key ?s, se_noncePrefix ?s, se_circuitId ?s, domainBuffer d], cx_buffers = scratchBuffers alloc True,
      cx_destroyed = False, cx_counter = None\<rparr>"
    by (rule made)
  then have h: "se_senderCounter s = JRef h" "cx_sender x = h" "cx_key x = contentOf (se_key s)" "cx_noncePrefix x = contentOf (se_noncePrefix s)"
      "cx_header x = headerOf s 0" "\<not> cx_destroyed x"
    by simp_all
  have ok: "isBufferOf (se_key s) 32" "isBufferOf (se_noncePrefix s) 16" "isBufferOf (se_circuitId s) 16" "knownClass (se_class s)"
      "knownDirection (se_direction s)" "uint64 (se_epoch s)"
    by (rule made, simp)+
  obtain b where b: "payload = JBuf b" using assms(5) by (cases payload) auto
  have valid: "validSeal ?s"
    using ok assms(9) by (simp add: validSeal_def b)
  have circ: "length (contentOf (se_circuitId s)) = 16"
    using ok(3) by (auto simp: isBufferOf_JBuf)
  obtain sd where sd: "senders w h = Some sd" using assms(3) h(2) by auto
  have wiped: "clearOutputRange (JNum (int offset)) (content output) = overwrite (content output) offset (replicate CELL_BYTES 0)"
    using assms(7,8) by (simp add: clearOutputRange_def overwrite_def)
  note seal = cell_seal_steps [OF valid, of h w sd ?C alloc', simplified, OF h(1) sd]
    and into = sealInto_steps [OF h(6,2-5) circ sd assms(4-9), of L fill]
  show ?thesis
  proof (cases "fillPadding fill (MAX_CELL_PAYLOAD - length (contentOf payload))")
    case (Inl e)
    then show ?thesis
      using assms(4,10) by (simp add: sealer_sealInto_def into seal wiped)
  next
    case (Inr padding)
    have "length (cellBody (contentOf payload) padding) = CELL_BODY_SIZE"
      using cellBody_length(2) [OF valid, of ?C padding] assms(10) Inr by simp
    note packet = sealPacket_suite [OF assms(1) valid this, where random = random and alloc = alloc']
    obtain w' r where call: "callNext h sd w = (w', r)" by (cases "callNext h sd w") auto
    show ?thesis
    proof (cases r)
      case (Inl e)
      with call Inr assms(4,10) show ?thesis by (simp add: sealer_sealInto_def into seal wiped)
    next
      case (Inr counter)
      show ?thesis
      proof (cases "uint64 (JBig (int counter))")
        case True
        then have "counter \<le> MAX_COUNTER" by (simp add: uint64_def)
        from packet [OF this] True Inr call \<open>fillPadding _ _ = _\<close> assms(4,10) show ?thesis
          by (cases "cellAead_sealInto L (cellBody (contentOf payload) padding) (CELL_HEADER_DOMAIN @ headerOf s counter)
                (contentOf (se_noncePrefix s) @ be_bytes 8 counter) (contentOf (se_key s))")
            (simp_all add: sealer_sealInto_def into seal wiped)
      next
        case False
        with Inr call \<open>fillPadding _ _ = _\<close> assms(4,10) show ?thesis by (simp add: sealer_sealInto_def into seal wiped)
      qed
    qed
  qed
qed

theorem sealInto_equals_seal_witness:
  "\<exists>x pkt. createSealer (suiteCodec refSodium zeroRandom) 6 70 (sealObject (example_link\<lparr>se_payload := JBuf (ownBuf 4 [1, 2])\<rparr>)) (example_world 3) = Inr x
    \<and> cell_seal (suiteCodec refSodium zeroRandom) 10 (sealObject (example_link\<lparr>se_payload := JBuf (ownBuf 4 [1, 2])\<rparr>)) (example_world 3)
      = (example_world 4, Inr pkt)
    \<and> sealer_sealInto refSodium (Inr (replicate 1146 0, False)) (ownBuf 60 (replicate 1300 5)) (JBuf (ownBuf 4 [1, 2])) (JNum (int 50)) (x, example_world 3)
      = (x, example_world 4, overwrite (replicate 1300 5) 50 pkt, Inr CELL_BYTES)"
proof -
  let ?C = "suiteCodec refSodium zeroRandom" and ?p = "JBuf (ownBuf 4 [1, 2])"
  obtain pkt where pkt: "cell_seal ?C 10 (sealObject (example_link\<lparr>se_payload := ?p\<rparr>)) (example_world 3) = (example_world 4, Inr pkt)"
    using example_seals [of "[1, 2]" 3 10 4] by auto
  obtain x where x: "createSealer ?C 6 70 (sealObject (example_link\<lparr>se_payload := ?p\<rparr>)) (example_world 3) = Inr x"
    by (simp add: createSealer_def sealObject_def cell_optionsObject_def cell_option_def suiteCodec_def example_link_def example_world_def
        contextOf_def isBufferOf_def ownBuf_def knownClass_def knownDirection_def CELL_CLASS_def DIRECTION_def uint64_def MAX_COUNTER_def)
  obtain h where "x = \<lparr>cx_sealing = True, cx_sender = h, cx_key = contentOf (se_key (example_link\<lparr>se_payload := ?p\<rparr>)),
      cx_noncePrefix = contentOf (se_noncePrefix (example_link\<lparr>se_payload := ?p\<rparr>)), cx_header = headerOf (example_link\<lparr>se_payload := ?p\<rparr>) 0,
      cx_sources = [se_key (example_link\<lparr>se_payload := ?p\<rparr>), se_noncePrefix (example_link\<lparr>se_payload := ?p\<rparr>),
        se_circuitId (example_link\<lparr>se_payload := ?p\<rparr>), domainBuffer 6], cx_buffers = scratchBuffers 70 True,
      cx_destroyed = False, cx_counter = None\<rparr>" "se_senderCounter (example_link\<lparr>se_payload := ?p\<rparr>) = JRef h"
    by (rule createSealer_context [OF x])
  then have views: "cx_sender x = 0" "cx_sources x = [JBuf (ownBuf 1 (replicate 32 7)), JBuf (ownBuf 2 (replicate 16 8)), JBuf (ownBuf 3 (replicate 16 9)), domainBuffer 6]"
    "cx_buffers x = scratchBuffers 70 True"
    by (simp_all add: example_link_def)
  have apart: "\<not> overlapsAny (JBuf (ownBuf k bs)) (cx_buffers x)" if "k < 70" for k bs
    unfolding views by (rule fresh_overlaps [of _ k]) (use that in \<open>auto simp: scratchBuffers_def ownBuf_def\<close>)
  have "\<not> overlapsAny (JBuf (ownBuf 60 (replicate 1300 5))) (cx_sources x)"
    unfolding views by (rule fresh_overlaps [of _ 60]) (auto simp: ownBuf_def domainBuffer_def)
  with apart have safe: "safeOutput x (JBuf (ownBuf 60 (replicate 1300 5))) ?p"
    by (simp add: safeOutput_def ownBuf_def)
  have "sealer_sealInto refSodium (Inr (replicate 1146 0, False)) (ownBuf 60 (replicate 1300 5)) ?p (JNum (int 50)) (x, example_world 3)
      = (case cell_seal ?C 10 (sealObject (example_link\<lparr>se_payload := ?p\<rparr>)) (example_world 3) of
        (w', Inr pkt) \<Rightarrow> (x, w', overwrite (content (ownBuf 60 (replicate 1300 5))) 50 pkt, Inr CELL_BYTES)
      | (w', Inl e) \<Rightarrow> (context_destroy x, w', overwrite (content (ownBuf 60 (replicate 1300 5))) 50 (replicate CELL_BYTES 0), Inl e))"
    by (rule sealInto_equals_seal [OF refsod.aead_axioms x _ safe _ apart])
      (simp_all add: views example_world_def CELL_BYTES_def MAX_SAFE_INTEGER_def MAX_CELL_PAYLOAD_def ownBuf_def cellPadding_def
        fillPadding_def suiteCodec_def zeroRandom_def isBufferOf_def)
  with x pkt show ?thesis
    by (auto simp: ownBuf_def)
qed

lemma header_rebuilt:
  assumes "length hb = 36" "unat (hb ! 0) = PROTOCOL_VERSION" "unat (hb ! 3) = 0"
  shows "hb = cellHeader (unat (hb ! 1)) (unat (hb ! 2)) (be_nat (take 8 (drop 4 hb))) (take 16 (drop 12 hb)) (be_nat (take 8 (drop 28 hb)))"
proof -
  have "hb ! 0 = 0" "hb ! 3 = 0"
    using assms(2,3) by (simp_all add: PROTOCOL_VERSION_def unat_eq_zero)
  moreover have "take 4 hb = [hb ! 0, hb ! 1, hb ! 2, hb ! 3]"
    using assms(1) by (intro nth_equalityI) (auto simp: less_Suc_eq numeral_eq_Suc)
  moreover have "hb = take 4 hb @ take 8 (drop 4 hb) @ take 16 (drop 12 hb) @ take 8 (drop 28 hb)"
  proof -
    have "drop 12 hb = take 16 (drop 12 hb) @ take 8 (drop 28 hb)"
      using append_take_drop_id [of 16 "drop 12 hb"] assms(1) by (simp add: drop_drop)
    moreover have "drop 4 hb = take 8 (drop 4 hb) @ drop 12 hb"
      using append_take_drop_id [of 8 "drop 4 hb"] by (simp add: drop_drop)
    ultimately show ?thesis
      by (metis append_take_drop_id)
  qed
  moreover have "be_bytes 8 (be_nat (take 8 (drop 4 hb))) = take 8 (drop 4 hb)" "be_bytes 8 (be_nat (take 8 (drop 28 hb))) = take 8 (drop 28 hb)"
    using be_bytes_be_nat [of "take 8 (drop 4 hb)"] be_bytes_be_nat [of "take 8 (drop 28 hb)"] assms(1) by simp_all
  ultimately show ?thesis
    unfolding cellHeader_def by (simp add: PROTOCOL_VERSION_def)
qed

text \<open>Comparing 28 bytes with the header of the context is checking every field of the header.\<close>

lemma header_matches:
  assumes "length hb = 36" "isBufferOf (op_key p) 32" "isBufferOf (op_noncePrefix p) 16" "isBufferOf (op_circuitId p) 16"
    "knownClass (op_class p)" "knownDirection (op_direction p)" "uint64 (op_epoch p)"
  shows "take 28 hb = take 28 (cellHeader (number (op_class p)) (number (op_direction p)) (number (op_epoch p)) (contentOf (op_circuitId p)) 0)
    \<longleftrightarrow> validHeader (readHeader hb) \<and> validOpen p (readHeader hb)"
proof -
  obtain c d e where cde: "op_class p = JNum (int c)" "c < 3" "op_direction p = JNum (int d)" "d < 2" "op_epoch p = JBig (int e)" "e \<le> MAX_COUNTER"
    using assms(5-7) class_bounds uint64_nat by metis
  let ?circ = "contentOf (op_circuitId p)"
  have circ: "length ?circ = 16" using assms(4) by (auto simp: isBufferOf_JBuf)
  show ?thesis
  proof
    assume *: "take 28 hb = take 28 (cellHeader (number (op_class p)) (number (op_direction p)) (number (op_epoch p)) ?circ 0)"
    have "be_bytes 8 (be_nat (drop 28 hb)) = drop 28 hb"
      using be_bytes_be_nat [of "drop 28 hb"] assms(1) by simp
    then have "hb = take 28 hb @ be_bytes 8 (be_nat (drop 28 hb))"
      by simp
    then have hb: "hb = cellHeader c d e ?circ (be_nat (drop 28 hb))"
      unfolding * cellHeader_counter [OF circ] by (simp add: cde)
    have "be_nat (drop 28 hb) \<le> MAX_COUNTER"
      using be_nat_less [of "drop 28 hb"] assms(1) by (simp add: MAX_COUNTER_def)
    from readHeader_cellHeader [OF _ _ cde(6) circ this, of c d] cde(2,4) hb
    have "readHeader hb = \<lparr>ch_version = PROTOCOL_VERSION, ch_class = c, ch_direction = d, ch_flags = 0,
      ch_epoch = e, ch_circuitId = ?circ, ch_counter = be_nat (drop 28 hb)\<rparr>"
      by simp
    then show "validHeader (readHeader hb) \<and> validOpen p (readHeader hb)"
      using assms cde by (simp add: validHeader_def validOpen_def)
  next
    assume v: "validHeader (readHeader hb) \<and> validOpen p (readHeader hb)"
    then have "hb = cellHeader (unat (hb ! 1)) (unat (hb ! 2)) (be_nat (take 8 (drop 4 hb))) (take 16 (drop 12 hb)) (be_nat (take 8 (drop 28 hb)))"
      by (intro header_rebuilt [OF assms(1)]) (simp_all add: validHeader_def readHeader_def)
    moreover have "ch_class (readHeader hb) = c" "ch_direction (readHeader hb) = d" "ch_epoch (readHeader hb) = e" "ch_circuitId (readHeader hb) = ?circ"
      using v cde by (simp_all add: validOpen_def)
    then have "unat (hb ! 1) = c" "unat (hb ! 2) = d" "be_nat (take 8 (drop 4 hb)) = e" "take 16 (drop 12 hb) = ?circ"
      by (simp_all only: readHeader_def cell_header.simps)
    ultimately obtain n where "hb = cellHeader c d e ?circ n" by metis
    then show "take 28 hb = take 28 (cellHeader (number (op_class p)) (number (op_direction p)) (number (op_epoch p)) ?circ 0)"
      using circ cde by (simp add: cellHeader_def)
  qed
qed

text \<open>The checks of \<open>open\<close> up to the payload, shared by both ways of opening a cell.\<close>

definition openChecked :: "cell_codec \<Rightarrow> nat \<Rightarrow> open_options \<Rightarrow> buffer \<Rightarrow> crypto_failure + nat \<times> nat \<times> bytes" where
  "openChecked C alloc p packet =
     (let h = readHeader (take CELL_HEADER_SIZE (content packet))
      in if \<not> (validHeader h \<and> validOpen p h) then Inl invalidCell
         else bindE (openBody C alloc p packet (ch_counter h)) (\<lambda>bdy.
           bindE (bodyPayload bdy) (\<lambda>payload. Inr (length payload, ch_counter h, bdy))))"

lemma openBody_suite:
  assumes "aead L" "allocatedBefore alloc packet p" "byteLength packet = CELL_BYTES" "isBufferOf (op_key p) 32" "isBufferOf (op_noncePrefix p) 16"
    and "counter \<le> MAX_COUNTER"
  shows "openBody (suiteCodec L random) alloc p packet counter
    = bindE (cellAead_openInto L (drop CELL_HEADER_SIZE (content packet)) (CELL_HEADER_DOMAIN @ take CELL_HEADER_SIZE (content packet))
        (contentOf (op_noncePrefix p) @ be_bytes 8 counter) (contentOf (op_key p)))
      (\<lambda>r. case r of None \<Rightarrow> Inl invalidCell | Some bdy \<Rightarrow> Inr bdy)
    \<and> (\<forall>bdy. openBody (suiteCodec L random) alloc p packet counter = Inr bdy \<longrightarrow> length bdy = CELL_BODY_SIZE)"
proof -
  let ?k = "ownBuf alloc (contentOf (op_key p))" and ?n = "ownBuf (alloc + 1) (contentOf (op_noncePrefix p))"
    and ?a = "ownBuf (alloc + 2) (associatedData (take CELL_HEADER_SIZE (content packet)))"
    and ?c = "cell_subarray packet CELL_HEADER_SIZE (byteLength packet)"
  let ?ad = "CELL_HEADER_DOMAIN @ take CELL_HEADER_SIZE (content packet)" and ?ct = "drop CELL_HEADER_SIZE (content packet)"
    and ?nonce = "contentOf (op_noncePrefix p) @ be_bytes 8 counter"
  have sizes: "length (contentOf (op_key p)) = 32" "length ?nonce = 24"
    using assms(4,5) by (auto simp: isBufferOf_JBuf)
  have "byteLength ?k = 32" "byteLength ?n = 16" "byteLength ?a \<le> 512" "16 \<le> byteLength ?c" "byteLength ?c \<le> 65551"
    using sizes associatedData_length [of "content packet"] assms(3)
    by (simp_all add: ownBuf_def cell_subarray_def CELL_BYTES_def CELL_HEADER_SIZE_def)
  from aead.aead_open_eq [OF assms(1) this(1,2) assms(6) this(3-5)]
  have o: "aead_open L (sealOptions (JBuf ?k) (JBuf ?n) counter (JBuf ?a) ''ciphertext'' (JBuf ?c))
      = cellAead_openInto L ?ct ?ad ?nonce (contentOf (op_key p))"
    by (simp add: ownBuf_def cell_subarray_def associatedData_def nonceFor_def)
  have len: "length bdy = CELL_BODY_SIZE" if "cellAead_openInto L ?ct ?ad ?nonce (contentOf (op_key p)) = Inr (Some bdy)" for bdy
  proof -
    from that have "so_decrypt L ?ct ?ad ?nonce (contentOf (op_key p)) = Inr (bdy, True)"
      by (auto simp: cellAead_openInto_def split: sum.splits if_splits)
    from aead.decrypts_only [OF assms(1) sizes this] aead.encrypts [OF assms(1) sizes, of bdy ?ad] show ?thesis
      using assms(3) by (simp add: CELL_BYTES_def CELL_HEADER_SIZE_def CELL_BODY_SIZE_def)
  qed
  note apart = plaintext_apart [OF assms(2), where k = "contentOf (op_key p)" and n = "contentOf (op_noncePrefix p)" and a = "content ?a"]
  show ?thesis
  proof (cases "cellAead_openInto L ?ct ?ad ?nonce (contentOf (op_key p))")
    case (Inl e)
    with o show ?thesis by (simp add: openBody_def suiteCodec_def Let_def)
  next
    case (Inr r)
    show ?thesis
    proof (cases r)
      case None
      with Inr o show ?thesis by (simp add: openBody_def suiteCodec_def Let_def)
    next
      case (Some bdy)
      with Inr o apart [where bdy = bdy] len [of bdy] show ?thesis
        by (simp add: openBody_def suiteCodec_def Let_def isBufferOf_def ownBuf_def)
    qed
  qed
qed

lemma createOpener_context:
  assumes "createOpener C d alloc (openObject p receiver) = Inr x"
  shows "\<not> cx_destroyed x" "cx_key x = contentOf (op_key p)" "cx_noncePrefix x = contentOf (op_noncePrefix p)"
    "cx_header x = cellHeader (number (op_class p)) (number (op_direction p)) (number (op_epoch p)) (contentOf (op_circuitId p)) 0"
    "isBufferOf (op_key p) 32" "isBufferOf (op_noncePrefix p) 16" "isBufferOf (op_circuitId p) 16"
    "knownClass (op_class p)" "knownDirection (op_direction p)" "uint64 (op_epoch p)"
  using assms by (auto simp: createOpener_def contextOf_def split: if_splits)

text \<open>
  opening into a buffer is opening. For an opener made from the options of a link, a packet and an
  output of the right sizes that share no memory with its buffers, \<open>openInto\<close> and \<open>open\<close> accept the same
  packets with the same errors. \<open>openInto\<close> then leaves the body in the output and the counter in the
  opener, and returns the length of the payload, which starts at the third byte of the body; \<open>open\<close> hands
  exactly that payload and that counter to the receiver. On a failure the output is zeroed, the opener
  destroyed, and no receiver changed.
\<close>
theorem openInto_equals_open:
  assumes "aead L" "createOpener (suiteCodec L random) d al (openObject p receiver) = Inr x"
    and "safeOutput x (JBuf output) (JBuf packet)" "byteLength output = CELL_BODY_SIZE" "ordinaryBuffer (JBuf packet)"
    and "byteLength packet = CELL_BYTES" "\<not> overlapsAny (JBuf packet) (cx_buffers x)" "allocatedBefore alloc packet p"
  shows "case openChecked (suiteCodec L random) alloc p packet of
      Inl e \<Rightarrow>
        opener_openInto L packet output x = (context_destroy (x\<lparr>cx_counter := None\<rparr>), replicate CELL_BODY_SIZE 0, Inl e)
        \<and> cell_open (suiteCodec L random) alloc now obs (openObject p receiver) (JBuf packet) w = (w, Inl e)
    | Inr (n, counter, bdy) \<Rightarrow>
        opener_openInto L packet output x = (x\<lparr>cx_counter := Some counter\<rparr>, bdy, Inr n)
        \<and> cell_open (suiteCodec L random) alloc now obs (openObject p receiver) (JBuf packet) w
          = deliverCell now obs (number (op_class p)) receiver counter (JBuf (ownBuf (alloc + 4) (take n (drop 2 bdy)))) w"
proof -
  let ?C = "suiteCodec L random" and ?hb = "take CELL_HEADER_SIZE (content packet)"
  let ?h = "readHeader ?hb"
  note x = createOpener_context [OF assms(2)]
  have hb: "length ?hb = 36"
    using assms(6) by (simp add: CELL_HEADER_SIZE_def CELL_BYTES_def)
  have m: "take 28 (content packet) = take 28 (cx_header x) \<longleftrightarrow> validHeader ?h \<and> validOpen p ?h"
    using header_matches [OF hb x(5-10)] by (simp add: x(4) CELL_HEADER_SIZE_def min_def)
  have counter: "be_nat (take 8 (drop 28 (content packet))) = ch_counter ?h" "ch_counter ?h \<le> MAX_COUNTER"
    by (simp_all add: readHeader_def CELL_HEADER_SIZE_def drop_take min_def be_nat_8_bound)
  note body = openBody_suite [OF assms(1,8,6) x(5,6) counter(2), where random = random]
  have into: "openInto L packet output x = (if \<not> (validHeader ?h \<and> validOpen p ?h) then Inl invalidCell
      else bindE (openBody ?C alloc p packet (ch_counter ?h)) (\<lambda>bdy.
        if be_nat (take 2 bdy) > MAX_CELL_PAYLOAD then Inl invalidCell else Inr (be_nat (take 2 bdy), ch_counter ?h, bdy)))"
  proof -
    have guard: "(cx_destroyed x \<or> \<not> safeOutput x (JBuf output) (JBuf packet) \<or> byteLength output \<noteq> CELL_BODY_SIZE
        \<or> \<not> ordinaryBuffer (JBuf packet) \<or> byteLength packet \<noteq> CELL_BYTES \<or> overlapsAny (JBuf packet) (cx_buffers x)) = False"
      using assms(3-7) x(1) by simp
    show ?thesis
      unfolding openInto_def guard if_False m Let_def counter(1) x(2,3) conjunct1 [OF body]
      by (cases "cellAead_openInto L (drop CELL_HEADER_SIZE (content packet)) (CELL_HEADER_DOMAIN @ ?hb)
          (contentOf (op_noncePrefix p) @ be_bytes 8 (ch_counter ?h)) (contentOf (op_key p))")
        (simp_all split: option.split)
  qed
  have cl: "ch_class ?h = number (op_class p)" if "validOpen p ?h"
    using that by (metis validOpen_def number.simps(1) nat_int)
  show ?thesis
  proof (cases "validHeader ?h \<and> validOpen p ?h")
    case False
    then show ?thesis
      using into assms(3,4,6) by (auto simp: openChecked_def opener_openInto_def cell_open_def Let_def)
  next
    case True
    show ?thesis
    proof (cases "openBody ?C alloc p packet (ch_counter ?h)")
      case (Inl e)
      with True into assms(3,4,6) show ?thesis
        by (simp add: openChecked_def opener_openInto_def cell_open_def Let_def)
    next
      case (Inr bdy)
      then have "length bdy = CELL_BODY_SIZE" using body by blast
      then have "length (take (be_nat (take 2 bdy)) (drop 2 bdy)) = be_nat (take 2 bdy)" if "be_nat (take 2 bdy) \<le> MAX_CELL_PAYLOAD"
        using that by (simp add: CELL_BODY_SIZE_def MAX_CELL_PAYLOAD_def)
      with Inr True into assms(3,4,6) cl show ?thesis
        by (auto simp: openChecked_def opener_openInto_def cell_open_def bodyPayload_def Let_def)
    qed
  qed
qed

theorem openInto_equals_open_witness:
  "\<exists>x pkt n c bdy. createOpener (suiteCodec refSodium zeroRandom) 6 70 (openObject example_end (JRef 1)) = Inr x
    \<and> opener_openInto refSodium (ownBuf 20 pkt) (ownBuf 60 (replicate CELL_BODY_SIZE 5)) x = (x\<lparr>cx_counter := Some c\<rparr>, bdy, Inr n)
    \<and> cell_open (suiteCodec refSodium zeroRandom) 30 quiet quiet (openObject example_end (JRef 1)) (JBuf (ownBuf 20 pkt)) (example_world 4)
      = deliverCell quiet quiet 1 (JRef 1) c (JBuf (ownBuf 34 (take n (drop 2 bdy)))) (example_world 4)"
proof -
  let ?C = "suiteCodec refSodium zeroRandom" and ?out = "ownBuf 60 (replicate CELL_BODY_SIZE 5)"
  obtain pkt where pkt: "length pkt = CELL_BYTES"
      "\<not> isl (snd (cell_open ?C 30 quiet quiet (openObject example_end (JRef 1)) (JBuf (ownBuf 20 pkt)) (example_world 4)))"
    using example_opens by blast
  obtain x where x: "createOpener ?C 6 70 (openObject example_end (JRef 1)) = Inr x"
    and views: "cx_sources x = [JBuf (ownBuf 1 (replicate 32 7)), JBuf (ownBuf 2 (replicate 16 8)), JBuf (ownBuf 3 (replicate 16 9)), domainBuffer 6]"
      "cx_buffers x = scratchBuffers 70 False"
    by (simp add: createOpener_def suiteCodec_def example_end_def example_link_def contextOf_def isBufferOf_def ownBuf_def
        knownClass_def knownDirection_def CELL_CLASS_def DIRECTION_def uint64_def MAX_COUNTER_def)
  have apart: "\<not> overlapsAny (JBuf (ownBuf k bs)) (cx_buffers x)" if "k < 70" for k bs
    unfolding views by (rule fresh_overlaps [of _ k]) (use that in \<open>auto simp: scratchBuffers_def ownBuf_def\<close>)
  have "\<not> overlapsAny (JBuf ?out) (cx_sources x)"
    unfolding views by (rule fresh_overlaps [of _ 60]) (auto simp: ownBuf_def domainBuffer_def)
  with apart have safe: "safeOutput x (JBuf ?out) (JBuf (ownBuf 20 pkt))"
    by (simp add: safeOutput_def ownBuf_def)
  have before: "allocatedBefore 30 (ownBuf 20 pkt) example_end"
    by (simp add: allocatedBefore_def example_end_def example_link_def ownBuf_def)
  have "byteLength ?out = CELL_BODY_SIZE" "ordinaryBuffer (JBuf (ownBuf 20 pkt))" "byteLength (ownBuf 20 pkt) = CELL_BYTES"
    using pkt(1) by (simp_all add: ownBuf_def)
  from openInto_equals_open [OF refsod.aead_axioms x safe this apart before, of quiet quiet "example_world 4"] pkt(2)
  obtain n c bdy where "opener_openInto refSodium (ownBuf 20 pkt) ?out x = (x\<lparr>cx_counter := Some c\<rparr>, bdy, Inr n)"
    "cell_open ?C 30 quiet quiet (openObject example_end (JRef 1)) (JBuf (ownBuf 20 pkt)) (example_world 4)
      = deliverCell quiet quiet (number (op_class example_end)) (JRef 1) c (JBuf (ownBuf (30 + 4) (take n (drop 2 bdy)))) (example_world 4)"
    by (auto split: sum.splits)
  moreover have "number (op_class example_end) = 1" "(30::nat) + 4 = 34"
    by (simp_all add: example_end_def example_link_def)
  ultimately show ?thesis
    using x by metis
qed

end
