(* ===== verification/Blinded_Presence.thy ===== *)
theory Blinded_Presence
  imports Crypto_Suite DHT_Persistent
begin

text \<open>
  Private presence under blinded keys (\<^verbatim>\<open>lib/private/blinded-presence.js\<close>): the blinded signer of a
  period, the fixed-size encrypted record that is stored as a mutable value, opening it, the periods to
  publish and to look up, and the state a reader keeps. The Ed25519 primitives of \<^verbatim>\<open>sodium-native\<close> and
  the hash of the crypto suite are the record \<open>ed25519\<close>; sealing is that of theory \<open>Crypto_Suite\<close> and the
  signed bytes are those of \<^verbatim>\<open>lib/persistent.js\<close>. Times are whole milliseconds. Zeroization is modelled
  only where it can be observed, in the state of a destroyed signer.
\<close>

section \<open>Constants and primitives\<close>

record ed25519 =
  ed_sha512 :: "bytes \<Rightarrow> bytes"
  ed_reduce :: "bytes \<Rightarrow> bytes"
  ed_mult :: "bytes \<Rightarrow> bytes \<Rightarrow> js_exn + bytes"
  ed_base :: "bytes \<Rightarrow> js_exn + bytes"
  ed_valid :: "bytes \<Rightarrow> bool"
  ed_mul :: "bytes \<Rightarrow> bytes \<Rightarrow> bytes"
  ed_add :: "bytes \<Rightarrow> bytes \<Rightarrow> bytes"
  ed_hash :: "bytes list \<Rightarrow> bytes"

definition PRESENCE_RECORD_VERSION :: nat where "PRESENCE_RECORD_VERSION = 1"
definition PRESENCE_RECORD_SIZE :: nat where "PRESENCE_RECORD_SIZE = 895"
definition HEADER_BYTES :: nat where "HEADER_BYTES = 1 + 4 + 16"
definition BODY_FIXED_BYTES :: nat where "BODY_FIXED_BYTES = 1 + 8 + 1 + 32 + 2"
definition MAX_DESCRIPTOR_BYTES :: nat where
  "MAX_DESCRIPTOR_BYTES = PRESENCE_RECORD_SIZE - HEADER_BYTES - AEAD_TAG_BYTES - BODY_FIXED_BYTES"
definition TYPE_DESCRIPTOR :: nat where "TYPE_DESCRIPTOR = 1"
definition TYPE_TOMBSTONE :: nat where "TYPE_TOMBSTONE = 2"
definition SCOPE_PERIOD :: nat where "SCOPE_PERIOD = 1"
definition SCOPE_RECORD :: nat where "SCOPE_RECORD = 2"
definition PERIOD_MS :: nat where "PERIOD_MS = 86400000"
definition OVERLAP_MS :: nat where "OVERLAP_MS = 3600000"
definition MAX_UINT32 :: nat where "MAX_UINT32 = 4294967295"

lemmas presence_sizes = PRESENCE_RECORD_SIZE_def HEADER_BYTES_def BODY_FIXED_BYTES_def MAX_DESCRIPTOR_BYTES_def AEAD_TAG_BYTES_def

definition BLIND_DOMAIN :: bytes where "BLIND_DOMAIN = utf8 (''hyperdht-private-routes/presence/blind/v1'' @ [CHR 0x0A])"
definition NONCE_DOMAIN :: bytes where "NONCE_DOMAIN = utf8 (''hyperdht-private-routes/presence/nonce/v1'' @ [CHR 0x0A])"
definition AD_DOMAIN :: bytes where "AD_DOMAIN = utf8 (''hyperdht-private-routes/presence/ad/v1'' @ [CHR 0x0A])"
definition READER_DOMAIN :: bytes where "READER_DOMAIN = utf8 (''hyperdht-private-routes/presence/reader/v1'' @ [CHR 0x0A])"

definition ZERO32 :: bytes where "ZERO32 = replicate 32 0"

definition isFixed :: "jsval \<Rightarrow> nat \<Rightarrow> bool" where
  "isFixed v n \<longleftrightarrow> (case v of JBuf b \<Rightarrow> byteLength b = n | _ \<Rightarrow> False)"

definition isUint64 :: "jsval \<Rightarrow> bool" where
  "isUint64 v \<longleftrightarrow> (case v of JBig n \<Rightarrow> 0 \<le> n \<and> n \<le> int MAX_COUNTER | _ \<Rightarrow> False)"

definition isUint32 :: "jsval \<Rightarrow> bool" where
  "isUint32 v \<longleftrightarrow> (case v of JNum n \<Rightarrow> 0 \<le> n \<and> n \<le> int MAX_UINT32 | _ \<Rightarrow> False)"

fun bytesAt :: "jsval \<Rightarrow> bytes" where
  "bytesAt (JBuf b) = content b"
| "bytesAt _ = []"

fun natAt :: "jsval \<Rightarrow> nat" where
  "natAt (JBig n) = nat n"
| "natAt (JNum n) = nat n"
| "natAt _ = 0"

definition isAllZero :: "bytes \<Rightarrow> bool" where
  "isAllZero bs \<longleftrightarrow> list_all (\<lambda>b. b = 0) bs"

definition isRecordTombstoneTarget :: "jsval \<Rightarrow> bool" where
  "isRecordTombstoneTarget v \<longleftrightarrow> isFixed v 32 \<and> \<not> isAllZero (bytesAt v)"

definition periodBytes :: "nat \<Rightarrow> bytes" where
  "periodBytes period = be_bytes 8 period @ be_bytes 4 PERIOD_MS"

abbreviation invalidDescriptor :: crypto_failure where "invalidDescriptor \<equiv> RouteFailure INVALID_DESCRIPTOR"
abbreviation invalidKey :: crypto_failure where "invalidKey \<equiv> RouteFailure INVALID_KEY"

section \<open>Blinded keys\<close>

definition clampScalar :: "bytes \<Rightarrow> bytes" where
  "clampScalar scalar =
     (let s = scalar[0 := (scalar ! 0) AND 248]; s = s[31 := (s ! 31) AND 63] in s[31 := (s ! 31) OR 64])"

definition hashSha512 :: "ed25519 \<Rightarrow> bytes list \<Rightarrow> bytes" where
  "hashSha512 E parts = ed_sha512 E (concat parts)"

record blinding =
  bl_publicKey :: bytes
  bl_secretScalar :: "bytes option"
  bl_nonceRoot :: "bytes option"
  bl_blindingScalar :: bytes

text \<open>The secret half: the scalar \<open>a' = h a\<close>, checked against the blinded public key.\<close>

definition blindSecret :: "ed25519 \<Rightarrow> bytes \<Rightarrow> bytes \<Rightarrow> bytes \<Rightarrow> crypto_failure + bytes" where
  "blindSecret E h a APrime =
     (case ed_base E (ed_mul E h a) of
        Inl err \<Rightarrow> Inl (Raised err)
      | Inr check \<Rightarrow> if check \<noteq> APrime then Inl invalidKey else Inr (ed_mul E h a))"

definition deriveBlindingMaterial :: "ed25519 \<Rightarrow> jsval \<Rightarrow> jsval \<Rightarrow> jsval option \<Rightarrow> crypto_failure + blinding" where
  "deriveBlindingMaterial E identityPublicKey period identitySecretKey =
     (if \<not> isFixed identityPublicKey 32 then Inl invalidKey
      else if \<not> isUint64 period then Inl invalidDescriptor
      else if (case identitySecretKey of None \<Rightarrow> False | Some sk \<Rightarrow> \<not> isFixed sk 64) then Inl invalidKey
      else (let h = ed_reduce E (hashSha512 E [BLIND_DOMAIN, bytesAt identityPublicKey, periodBytes (natAt period)])
        in if isAllZero h then Inl invalidKey
           else (case ed_mult E h (bytesAt identityPublicKey) of
             Inl err \<Rightarrow> Inl (Raised err)
           | Inr APrime \<Rightarrow>
               if \<not> ed_valid E APrime then Inl invalidKey
               else (case identitySecretKey of
                 None \<Rightarrow> Inr \<lparr>bl_publicKey = APrime, bl_secretScalar = None, bl_nonceRoot = None, bl_blindingScalar = h\<rparr>
               | Some sk \<Rightarrow>
                   (let expanded = ed_sha512 E (take 32 (bytesAt sk)); a = clampScalar (take 32 expanded)
                    in bindE (blindSecret E h a APrime) (\<lambda>aPrime.
                      Inr \<lparr>bl_publicKey = APrime, bl_secretScalar = Some aPrime,
                           bl_nonceRoot = Some (take 32 (drop 32 expanded)), bl_blindingScalar = h\<rparr>))))))"

definition deriveBlindedPublicKey :: "ed25519 \<Rightarrow> jsval \<Rightarrow> jsval \<Rightarrow> crypto_failure + bytes" where
  "deriveBlindedPublicKey E identityPublicKey period =
     bindE (deriveBlindingMaterial E identityPublicKey period None) (\<lambda>m. Inr (bl_publicKey m))"

record blinded_signer =
  bs_live :: bool
  bs_publicKey :: bytes
  bs_secretScalar :: bytes
  bs_nonceRoot :: bytes
  bs_blindingScalar :: bytes

text \<open>
  The signature \<open>R || S\<close> with \<open>R = r B\<close> and \<open>S = r + k a'\<close>, where \<open>k\<close> hashes \<open>R\<close>, the blinded key and the
  message.
\<close>

definition signUnderBlinded :: "ed25519 \<Rightarrow> blinded_signer \<Rightarrow> bytes \<Rightarrow> crypto_failure + bytes" where
  "signUnderBlinded E s message =
     (let r = ed_reduce E (hashSha512 E [NONCE_DOMAIN, bs_nonceRoot s, bs_blindingScalar s, message])
      in case ed_base E r of
        Inl err \<Rightarrow> Inl (Raised err)
      | Inr R \<Rightarrow>
          (let k = ed_reduce E (hashSha512 E [R, bs_publicKey s, message])
           in Inr (R @ ed_add E r (ed_mul E k (bs_secretScalar s)))))"

definition createBlindedSigner :: "ed25519 \<Rightarrow> jsval \<Rightarrow> jsval \<Rightarrow> jsval \<Rightarrow> crypto_failure + blinded_signer" where
  "createBlindedSigner E publicKey secretKey period =
     (if \<not> isFixed publicKey 32 \<or> \<not> isFixed secretKey 64 then Inl invalidKey
      else bindE (deriveBlindingMaterial E publicKey period (Some secretKey)) (\<lambda>m.
        (case (bl_secretScalar m, bl_nonceRoot m) of
           (Some scalar, Some root) \<Rightarrow>
             Inr \<lparr>bs_live = True, bs_publicKey = bl_publicKey m, bs_secretScalar = scalar, bs_nonceRoot = root,
                  bs_blindingScalar = bl_blindingScalar m\<rparr>
         | _ \<Rightarrow> Inl invalidKey)))"

definition signer_sign :: "ed25519 \<Rightarrow> blinded_signer \<Rightarrow> jsval \<Rightarrow> crypto_failure + bytes" where
  "signer_sign E s message =
     (if \<not> bs_live s then Inl (RouteFailure UNAUTHORIZED)
      else (case message of JBuf b \<Rightarrow> signUnderBlinded E s (content b) | _ \<Rightarrow> Inl invalidDescriptor))"

definition signer_destroy :: "blinded_signer \<Rightarrow> blinded_signer" where
  "signer_destroy s =
     (if \<not> bs_live s then s
      else \<lparr>bs_live = False, bs_publicKey = replicate (length (bs_publicKey s)) 0,
            bs_secretScalar = replicate (length (bs_secretScalar s)) 0, bs_nonceRoot = replicate (length (bs_nonceRoot s)) 0,
            bs_blindingScalar = replicate (length (bs_blindingScalar s)) 0\<rparr>)"

section \<open>Periods\<close>

fun periodOf :: "jsval \<Rightarrow> crypto_failure + nat" where
  "periodOf (JNum wallMs) = (if wallMs < 0 then Inl invalidDescriptor else Inr (nat wallMs div PERIOD_MS))"
| "periodOf _ = Inl invalidDescriptor"

definition publishPeriods :: "jsval \<Rightarrow> crypto_failure + nat list" where
  "publishPeriods wallMs =
     bindE (periodOf wallMs) (\<lambda>current.
       Inr (if natAt wallMs + OVERLAP_MS \<ge> (current + 1) * PERIOD_MS then [current, current + 1] else [current]))"

definition lookupPeriods :: "jsval \<Rightarrow> crypto_failure + nat list" where
  "lookupPeriods wallMs =
     bindE (periodOf wallMs) (\<lambda>current.
       Inr (if current > 0 \<and> natAt wallMs < current * PERIOD_MS + OVERLAP_MS then [current, current - 1] else [current]))"

section \<open>Records\<close>

definition buildAssociatedData :: "bytes \<Rightarrow> nat \<Rightarrow> nat \<Rightarrow> nat \<Rightarrow> bytes" where
  "buildAssociatedData publicKey version period revision =
     AD_DOMAIN @ publicKey @ [word_of_nat version] @ be_bytes 8 period @ be_bytes 4 revision"

definition deriveReaderKey :: "ed25519 \<Rightarrow> jsval \<Rightarrow> bytes \<Rightarrow> nat \<Rightarrow> crypto_failure + bytes" where
  "deriveReaderKey E readerSecret publicKey period =
     (if \<not> isFixed readerSecret 32 \<or> length publicKey \<noteq> 32 then Inl invalidKey
      else Inr (ed_hash E [READER_DOMAIN @ bytesAt readerSecret @ publicKey @ be_bytes 8 period]))"

definition encodeBody :: "nat \<Rightarrow> nat \<Rightarrow> nat \<Rightarrow> bytes \<Rightarrow> bytes option \<Rightarrow> crypto_failure + bytes" where
  "encodeBody typ period tombstoneScope tombstoneTarget descriptor =
     (let fixed = (\<lambda>n. [word_of_nat typ] @ be_bytes 8 period @ [word_of_nat tombstoneScope] @ tombstoneTarget @ be_bytes 2 n)
      in if typ = TYPE_DESCRIPTOR then
           (if tombstoneScope \<noteq> 0 \<or> \<not> isAllZero tombstoneTarget then Inl invalidDescriptor
            else (case descriptor of
              None \<Rightarrow> Inl invalidDescriptor
            | Some d \<Rightarrow>
                if length d > MAX_DESCRIPTOR_BYTES then Inl invalidDescriptor
                else Inr (fixed (length d) @ d @ replicate (MAX_DESCRIPTOR_BYTES - length d) 0)))
         else if typ = TYPE_TOMBSTONE then
           (if descriptor \<noteq> None \<and> descriptor \<noteq> Some [] then Inl invalidDescriptor
            else if tombstoneScope \<noteq> SCOPE_PERIOD \<and> tombstoneScope \<noteq> SCOPE_RECORD then Inl invalidDescriptor
            else if length tombstoneTarget \<noteq> 32 then Inl invalidDescriptor
            else if tombstoneScope = SCOPE_RECORD \<and> isAllZero tombstoneTarget then Inl invalidDescriptor
            else if tombstoneScope = SCOPE_PERIOD \<and> \<not> isAllZero tombstoneTarget then Inl invalidDescriptor
            else Inr (fixed 0 @ replicate MAX_DESCRIPTOR_BYTES 0))
         else Inl invalidDescriptor)"

text \<open>The options of \<open>encodePresenceRecord\<close>; the signer is its public key and its \<open>sign\<close> function.\<close>

record presence_options =
  po_signerKey :: jsval
  po_period :: jsval
  po_revision :: jsval
  po_readerSecret :: jsval
  po_type :: jsval
  po_descriptor :: jsval
  po_tombstone :: "(jsval \<times> jsval) option"

definition presenceContent :: "presence_options \<Rightarrow> crypto_failure + nat \<times> nat \<times> bytes \<times> bytes option" where
  "presenceContent o' =
     (if po_type o' = JNum (int TYPE_DESCRIPTOR) then
        (case po_descriptor o' of
           JBuf d \<Rightarrow> if byteLength d > MAX_DESCRIPTOR_BYTES then Inl invalidDescriptor
             else Inr (TYPE_DESCRIPTOR, 0, ZERO32, Some (content d))
         | _ \<Rightarrow> Inl invalidDescriptor)
      else if po_type o' = JNum (int TYPE_TOMBSTONE) then
        (case po_tombstone o' of
           None \<Rightarrow> Inl invalidDescriptor
         | Some (scope, target) \<Rightarrow>
             if scope = JNum (int SCOPE_RECORD) then
               (if \<not> isRecordTombstoneTarget target then Inl invalidDescriptor
                else Inr (TYPE_TOMBSTONE, SCOPE_RECORD, bytesAt target, None))
             else if scope = JNum (int SCOPE_PERIOD) then Inr (TYPE_TOMBSTONE, SCOPE_PERIOD, ZERO32, None)
             else Inl invalidDescriptor)
      else Inl invalidDescriptor)"

record presence_record =
  rec_publicKey :: bytes
  rec_seq :: nat
  rec_value :: bytes

definition presenceBuf :: "bytes \<Rightarrow> jsval" where
  "presenceBuf bs = JBuf \<lparr>backing = 0, byteOffset = 0, sharedStore = False, content = bs\<rparr>"

definition sealPresence :: "ed25519 \<Rightarrow> sodium \<Rightarrow> bytes \<Rightarrow> jsval \<Rightarrow> bytes \<Rightarrow> nat \<Rightarrow> nat \<Rightarrow> bytes \<Rightarrow> crypto_failure + bytes" where
  "sealPresence E S noncePrefix readerSecret publicKey period revision bdy =
     bindE (deriveReaderKey E readerSecret publicKey period) (\<lambda>readerKey.
     bindE (aead_seal S (sealOptions (presenceBuf readerKey) (presenceBuf noncePrefix) 0
         (presenceBuf (buildAssociatedData publicKey PRESENCE_RECORD_VERSION period revision)) ''plaintext'' (presenceBuf bdy))) (\<lambda>ciphertext.
       if length ciphertext \<noteq> BODY_FIXED_BYTES + MAX_DESCRIPTOR_BYTES + AEAD_TAG_BYTES then Inl invalidDescriptor
       else Inr ([word_of_nat PRESENCE_RECORD_VERSION] @ be_bytes 4 revision @ noncePrefix @ ciphertext)))"

definition encodePresenceRecord :: "ed25519 \<Rightarrow> sodium \<Rightarrow> bytes \<Rightarrow> presence_options \<Rightarrow> crypto_failure + presence_record" where
  "encodePresenceRecord E S noncePrefix o' =
     (if \<not> isFixed (po_signerKey o') 32 then Inl invalidKey
      else if \<not> isUint64 (po_period o') \<or> \<not> isUint32 (po_revision o') then Inl invalidDescriptor
      else if \<not> isFixed (po_readerSecret o') 32 then Inl invalidKey
      else
        bindE (presenceContent o') (\<lambda>(typ, scope, target, descriptor).
        bindE (encodeBody typ (natAt (po_period o')) scope target descriptor) (\<lambda>bdy.
        bindE (sealPresence E S noncePrefix (po_readerSecret o') (bytesAt (po_signerKey o')) (natAt (po_period o')) (natAt (po_revision o')) bdy)
          (\<lambda>val.
            if length val \<noteq> PRESENCE_RECORD_SIZE then Inl invalidDescriptor
            else Inr \<lparr>rec_publicKey = bytesAt (po_signerKey o'), rec_seq = natAt (po_revision o'), rec_value = val\<rparr>))))"

text \<open>The record's own \<open>signMutable\<close>, bound to its revision, key and value.\<close>

definition record_signMutable :: "('f, 'r, 'b, 'e, 'v) store_lib \<Rightarrow> (bytes \<Rightarrow> crypto_failure + bytes) \<Rightarrow> presence_record \<Rightarrow>
    jsval \<Rightarrow> jsval \<Rightarrow> jsval \<Rightarrow> crypto_failure + bytes" where
  "record_signMutable L sign rec seq recordValue keyPairPublicKey =
     (if seq \<noteq> JNum (int (rec_seq rec)) then Inl (RouteFailure UNAUTHORIZED)
      else if \<not> isFixed keyPairPublicKey 32 \<or> bytesAt keyPairPublicKey \<noteq> rec_publicKey rec then Inl (RouteFailure UNAUTHORIZED)
      else if \<not> isFixed recordValue PRESENCE_RECORD_SIZE then Inl invalidDescriptor
      else if bytesAt recordValue \<noteq> rec_value rec then Inl (RouteFailure UNAUTHORIZED)
      else (case mutableSignableBytes L (rec_seq rec) (Some (rec_value rec)) of
        Inl _ \<Rightarrow> Inl (Raised (Exn True []))
      | Inr signable \<Rightarrow> sign signable))"

section \<open>Opening a record\<close>

datatype presence_content = Descriptor bytes | Tombstone nat bytes

record opened_presence =
  pr_period :: nat
  pr_revision :: nat
  pr_content :: presence_content

record open_presence_options =
  oo_identityPublicKey :: jsval
  oo_period :: jsval
  oo_revision :: jsval
  oo_readerSecret :: jsval
  oo_value :: jsval
  oo_signature :: jsval

definition parseBody :: "nat \<Rightarrow> nat \<Rightarrow> bytes \<Rightarrow> crypto_failure + opened_presence" where
  "parseBody period revision plaintext =
     (let typ = unat (plaintext ! 0); innerPeriod = be_nat (take 8 (drop 1 plaintext)); scope = unat (plaintext ! 9);
          target = take 32 (drop 10 plaintext); descriptorLength = be_nat (take 2 (drop 42 plaintext));
          region = take MAX_DESCRIPTOR_BYTES (drop 44 plaintext)
      in if innerPeriod \<noteq> period then Inl invalidDescriptor
         else if descriptorLength > MAX_DESCRIPTOR_BYTES then Inl invalidDescriptor
         else if \<not> isAllZero (drop descriptorLength region) then Inl invalidDescriptor
         else if typ = TYPE_DESCRIPTOR then
           (if scope \<noteq> 0 \<or> \<not> isAllZero target then Inl invalidDescriptor
            else Inr \<lparr>pr_period = period, pr_revision = revision, pr_content = Descriptor (take descriptorLength region)\<rparr>)
         else if typ = TYPE_TOMBSTONE then
           (if descriptorLength \<noteq> 0 then Inl invalidDescriptor
            else if scope \<noteq> SCOPE_PERIOD \<and> scope \<noteq> SCOPE_RECORD then Inl invalidDescriptor
            else if scope = SCOPE_RECORD \<and> isAllZero target then Inl invalidDescriptor
            else if scope = SCOPE_PERIOD \<and> \<not> isAllZero target then Inl invalidDescriptor
            else Inr \<lparr>pr_period = period, pr_revision = revision, pr_content = Tombstone scope target\<rparr>)
         else Inl invalidDescriptor)"

definition openSealed :: "ed25519 \<Rightarrow> sodium \<Rightarrow> jsval \<Rightarrow> bytes \<Rightarrow> nat \<Rightarrow> nat \<Rightarrow> bytes \<Rightarrow> crypto_failure + bytes" where
  "openSealed E S readerSecret publicKey period revision val =
     bindE (deriveReaderKey E readerSecret publicKey period) (\<lambda>readerKey.
     bindE (aead_open S (sealOptions (presenceBuf readerKey) (presenceBuf (take 16 (drop 5 val))) 0
         (presenceBuf (buildAssociatedData publicKey PRESENCE_RECORD_VERSION period revision)) ''ciphertext'' (presenceBuf (drop HEADER_BYTES val)))) (\<lambda>r.
       (case r of
          None \<Rightarrow> Inl (RouteFailure ERR_AUTHENTICATION)
        | Some plaintext \<Rightarrow>
            if length plaintext \<noteq> BODY_FIXED_BYTES + MAX_DESCRIPTOR_BYTES then Inl invalidDescriptor else Inr plaintext)))"

definition openPresenceRecord :: "ed25519 \<Rightarrow> sodium \<Rightarrow> ('f, 'r, 'b, 'e, 'v) store_lib \<Rightarrow> open_presence_options \<Rightarrow> crypto_failure + opened_presence" where
  "openPresenceRecord E S L o' =
     (let val = bytesAt (oo_value o'); period = natAt (oo_period o'); revision = natAt (oo_revision o')
      in if \<not> isFixed (oo_identityPublicKey o') 32 then Inl invalidKey
         else if \<not> isUint64 (oo_period o') \<or> \<not> isUint32 (oo_revision o') then Inl invalidDescriptor
         else if \<not> isFixed (oo_readerSecret o') 32 then Inl invalidKey
         else if \<not> isFixed (oo_value o') PRESENCE_RECORD_SIZE then Inl invalidDescriptor
         else if \<not> isFixed (oo_signature o') 64 then Inl (RouteFailure ERR_AUTHENTICATION)
         else
           bindE (deriveBlindedPublicKey E (oo_identityPublicKey o') (oo_period o')) (\<lambda>expected.
             if unat (val ! 0) \<noteq> PRESENCE_RECORD_VERSION \<or> be_nat (take 4 (drop 1 val)) \<noteq> revision then Inl invalidDescriptor
             else (case verifyMutable L (bytesAt (oo_signature o')) revision (Some val) expected of
               Inl _ \<Rightarrow> Inl (Raised (Exn True []))
             | Inr False \<Rightarrow> Inl (RouteFailure ERR_AUTHENTICATION)
             | Inr True \<Rightarrow>
                 bindE (openSealed E S (oo_readerSecret o') expected period revision val) (parseBody period revision))))"

definition recordDigestOf :: "ed25519 \<Rightarrow> jsval \<Rightarrow> crypto_failure + bytes" where
  "recordDigestOf E v = (if \<not> isFixed v PRESENCE_RECORD_SIZE then Inl invalidDescriptor else Inr (ed_hash E [bytesAt v]))"

section \<open>The state of a reader\<close>

record presence_state =
  ps_present :: "bool option"
  ps_ignored :: bool
  ps_descriptor :: "bytes option"
  ps_period :: nat
  ps_revision :: nat
  ps_digest :: bytes

definition absent :: "opened_presence \<Rightarrow> bytes \<Rightarrow> presence_state" where
  "absent opened digest = \<lparr>ps_present = Some False, ps_ignored = False, ps_descriptor = None, ps_period = pr_period opened,
     ps_revision = pr_revision opened, ps_digest = digest\<rparr>"

definition resolvePresenceState :: "presence_state option \<Rightarrow> opened_presence \<Rightarrow> bytes \<Rightarrow> crypto_failure + presence_state" where
  "resolvePresenceState previous opened digest =
     (if \<not> pr_revision opened \<le> MAX_UINT32 \<or> \<not> pr_period opened \<le> MAX_COUNTER \<or> length digest \<noteq> 32 then Inl invalidDescriptor
      else if (case previous of Some p \<Rightarrow> ps_period p \<le> MAX_COUNTER \<and> pr_period opened < ps_period p | None \<Rightarrow> False)
      then Inl (RouteFailure REPLAY)
      else (let samePeriod = (case previous of Some p \<Rightarrow> ps_period p = pr_period opened | None \<Rightarrow> False);
                sameRecord = (case previous of Some p \<Rightarrow> ps_period p = pr_period opened \<and> pr_revision opened = ps_revision p
                    \<and> length (ps_digest p) = 32 \<and> digest = ps_digest p | None \<Rightarrow> False)
        in if samePeriod \<and> (case previous of Some p \<Rightarrow> ps_revision p \<le> MAX_UINT32
              \<and> (pr_revision opened < ps_revision p \<or> pr_revision opened = ps_revision p \<and> \<not> sameRecord) | None \<Rightarrow> False)
           then Inl (RouteFailure REPLAY)
           else (case pr_content opened of
             Tombstone scope target \<Rightarrow>
               if scope = SCOPE_PERIOD then Inr (absent opened digest)
               else if scope = SCOPE_RECORD then
                 (if sameRecord \<and> (case previous of Some p \<Rightarrow> ps_present p = Some False | None \<Rightarrow> False) then Inr (absent opened digest)
                  else if samePeriod \<and> length target = 32
                    \<and> (case previous of Some p \<Rightarrow> length (ps_digest p) = 32 \<and> target = ps_digest p | None \<Rightarrow> False)
                  then Inr (absent opened digest)
                  else Inr ((absent opened digest)\<lparr>ps_present := None, ps_ignored := True\<rparr>))
               else Inl invalidDescriptor
           | Descriptor d \<Rightarrow>
               Inr \<lparr>ps_present = Some True, ps_ignored = False, ps_descriptor = Some d, ps_period = pr_period opened,
                    ps_revision = pr_revision opened, ps_digest = digest\<rparr>)))"

end
