(* ===== verification/Presence_Properties.thy ===== *)
theory Presence_Properties
  imports Blinded_Presence Cell_Properties DHT_Store_Properties
begin

text \<open>
  What private presence promises: a blinded signature verifies under the blinded key; a published
  record opens, for a reader with the credential, to what was published; nothing else opens; a reader
  finds the period of a publisher in spite of the clock; and a reader's state never goes back.
\<close>

section \<open>Blinded signatures\<close>

text \<open>
  The order of the group of Ed25519 and the little-endian scalars of 32 bytes; a scalar below the order is
  canonical, and no other is accepted in a signature (RFC 8032, 5.1.7).
\<close>

definition ED_ORDER :: nat where
  "ED_ORDER = 2 ^ 252 + 27742317777372353535851937790883648493"

definition scalarOf :: "bytes \<Rightarrow> nat" where
  "scalarOf bs = be_nat (rev bs)"

definition scalarBytes :: "nat \<Rightarrow> bytes" where
  "scalarBytes n = rev (be_bytes 32 n)"

definition canonicalScalar :: "bytes \<Rightarrow> bool" where
  "canonicalScalar bs \<longleftrightarrow> length bs = 32 \<and> scalarOf bs < ED_ORDER"

lemma order_fits: "n < ED_ORDER \<Longrightarrow> n mod 256 ^ 32 = n"
  by (rule mod_less) (simp add: ED_ORDER_def)

lemma scalarBytes_eval [simp]:
  "length (scalarBytes n) = 32" "n < ED_ORDER \<Longrightarrow> scalarOf (scalarBytes n) = n"
  by (simp_all only: scalarBytes_def scalarOf_def be_nat_be_bytes order_fits rev_rev_ident length_rev be_bytes_length)

lemma canonical_scalarBytes [simp]: "canonicalScalar (scalarBytes (n mod ED_ORDER))"
  by (simp add: canonicalScalar_def) (simp add: ED_ORDER_def)

lemma order_pos [simp]: "n mod ED_ORDER < ED_ORDER"
  by (simp add: ED_ORDER_def)

lemma clampScalar_length [simp]: "length (clampScalar bs) = length bs"
  by (simp add: clampScalar_def Let_def)

text \<open>
  The documented behaviour of Ed25519 in \<^verbatim>\<open>sodium\<close>: \<open>act n P\<close> encodes the multiple of a point of the group of
  prime order (\<open>inGroup\<close>), \<open>padd\<close> adds encoded points; reducing, multiplying and adding scalars is arithmetic
  modulo the order with a canonical result; a signature \<open>R || S\<close> whose \<open>R\<close> is the base multiple of a canonical
  scalar (and so no point of small order) and whose \<open>S\<close> is canonical is accepted under a valid point \<open>A\<close> when
  \<open>S B = R + k A\<close> for the hash \<open>k\<close>.
\<close>

locale ed25519_laws =
  fixes E :: ed25519 and verify :: "bytes \<Rightarrow> bytes \<Rightarrow> bytes \<Rightarrow> bool"
    and act :: "nat \<Rightarrow> bytes \<Rightarrow> bytes" and padd :: "bytes \<Rightarrow> bytes \<Rightarrow> bytes" and B :: bytes and inGroup :: "bytes \<Rightarrow> bool"
  assumes sha512_length: "length (ed_sha512 E message) = 64"
    and scalar_reduce: "length h = 64 \<Longrightarrow> canonicalScalar (ed_reduce E h) \<and> scalarOf (ed_reduce E h) = scalarOf h mod ED_ORDER"
    and scalar_mul: "length s = 32 \<Longrightarrow> length t = 32 \<Longrightarrow>
      canonicalScalar (ed_mul E s t) \<and> scalarOf (ed_mul E s t) = scalarOf s * scalarOf t mod ED_ORDER"
    and scalar_add: "length s = 32 \<Longrightarrow> length t = 32 \<Longrightarrow>
      canonicalScalar (ed_add E s t) \<and> scalarOf (ed_add E s t) = (scalarOf s + scalarOf t) mod ED_ORDER"
    and generator: "inGroup B"
    and act_mul: "inGroup P \<Longrightarrow> act m (act n P) = act (m * n) P"
    and act_add: "inGroup P \<Longrightarrow> act (m + n) P = padd (act m P) (act n P)"
    and act_order: "inGroup P \<Longrightarrow> act (n mod ED_ORDER) P = act n P"
    and base: "canonicalScalar s \<Longrightarrow> ed_base E s = Inr P \<Longrightarrow> P = act (scalarOf s) B \<and> length P = 32"
    and verify_equation: "canonicalScalar r \<Longrightarrow> ed_base E r = Inr R \<Longrightarrow> canonicalScalar S \<Longrightarrow> ed_valid E A \<Longrightarrow>
      act (scalarOf S) B = padd R (act (scalarOf (ed_reduce E (ed_sha512 E (R @ A @ message)))) A) \<Longrightarrow> verify (R @ S) message A"
begin

lemma reduced: "canonicalScalar (ed_reduce E (hashSha512 E parts))"
  using scalar_reduce [OF sha512_length] by (simp add: hashSha512_def)

lemma canonical_length: "canonicalScalar s \<Longrightarrow> length s = 32"
  by (simp add: canonicalScalar_def)

text \<open>A live signer of a period: the scalar it holds is the discrete logarithm of its public key.\<close>

lemma signer_scalar:
  assumes "createBlindedSigner E pk sk period = Inr s"
  shows "bs_live s \<and> ed_valid E (bs_publicKey s) \<and> bs_publicKey s = act (scalarOf (bs_secretScalar s)) B
    \<and> canonicalScalar (bs_secretScalar s)
    \<and> deriveBlindedPublicKey E pk period = Inr (bs_publicKey s) \<and> length (bs_publicKey s) = 32"
proof -
  from assms obtain m scalar root where m: "deriveBlindingMaterial E pk period (Some sk) = Inr m"
    "bl_secretScalar m = Some scalar" "bl_nonceRoot m = Some root"
    and s: "s = \<lparr>bs_live = True, bs_publicKey = bl_publicKey m, bs_secretScalar = scalar, bs_nonceRoot = root,
      bs_blindingScalar = bl_blindingScalar m\<rparr>"
    by (auto simp: createBlindedSigner_def bindE_Inr split: if_splits option.splits)
  let ?h = "ed_reduce E (hashSha512 E [BLIND_DOMAIN, bytesAt pk, periodBytes (natAt period)])"
  let ?a = "clampScalar (take 32 (ed_sha512 E (take 32 (bytesAt sk))))"
  from m obtain A where A: "ed_mult E ?h (bytesAt pk) = Inr A" "ed_valid E A" "blindSecret E ?h ?a A = Inr scalar" "bl_publicKey m = A"
    and ok: "isFixed pk 32" "isUint64 period" "\<not> isAllZero ?h"
    by (auto simp: deriveBlindingMaterial_def Let_def bindE_Inr split: if_splits sum.splits)
  from A(3) have "ed_base E scalar = Inr A" "scalar = ed_mul E ?h ?a"
    by (auto simp: blindSecret_def split: sum.splits if_splits)
  moreover from this have canon: "canonicalScalar scalar"
    using scalar_mul [OF canonical_length [OF reduced], of ?a] by (simp add: sha512_length)
  ultimately have "A = act (scalarOf scalar) B" "length A = 32"
    using base by blast+
  moreover have "deriveBlindedPublicKey E pk period = Inr A"
    using A ok by (simp add: deriveBlindedPublicKey_def deriveBlindingMaterial_def Let_def)
  ultimately show ?thesis
    using A(2,4) s canon by simp
qed

lemma signature_verifies:
  assumes "ed_valid E (bs_publicKey s)" "bs_publicKey s = act (scalarOf (bs_secretScalar s)) B" "canonicalScalar (bs_secretScalar s)"
    and "signUnderBlinded E s m = Inr sig"
  shows "verify sig m (bs_publicKey s) \<and> length sig = 64"
proof -
  let ?r = "ed_reduce E (hashSha512 E [NONCE_DOMAIN, bs_nonceRoot s, bs_blindingScalar s, m])" and ?a = "bs_secretScalar s"
  from assms(4) obtain R where R: "ed_base E ?r = Inr R"
    and sig: "sig = R @ ed_add E ?r (ed_mul E (ed_reduce E (hashSha512 E [R, bs_publicKey s, m])) ?a)"
    by (auto simp: signUnderBlinded_def Let_def split: sum.splits)
  let ?k = "ed_reduce E (ed_sha512 E (R @ bs_publicKey s @ m))"
  have k: "ed_reduce E (hashSha512 E [R, bs_publicKey s, m]) = ?k"
    by (simp add: hashSha512_def)
  have ck: "canonicalScalar ?k"
    using scalar_reduce [OF sha512_length] by blast
  note r32 = canonical_length [OF reduced [of "[NONCE_DOMAIN, bs_nonceRoot s, bs_blindingScalar s, m]"]]
    and ka = scalar_mul [OF canonical_length [OF ck] canonical_length [OF assms(3)]]
  let ?S = "ed_add E ?r (ed_mul E ?k ?a)"
  have S: "canonicalScalar ?S" "scalarOf ?S = (scalarOf ?r + (scalarOf ?k * scalarOf ?a) mod ED_ORDER) mod ED_ORDER"
    using scalar_add [OF r32 canonical_length [OF conjunct1 [OF ka]]] ka by auto
  have "act (scalarOf ?S) B = padd (act (scalarOf ?r) B) (act (scalarOf ?k * scalarOf ?a) B)"
    unfolding S(2) by (simp add: act_order [OF generator] act_add [OF generator])
  also have "\<dots> = padd R (act (scalarOf ?k) (bs_publicKey s))"
    using base [OF reduced R] by (simp add: assms(2) act_mul [OF generator])
  finally have "verify (R @ ?S) m (bs_publicKey s)"
    by (rule verify_equation [OF reduced R S(1) assms(1)])
  moreover have "length R = 32" "length ?S = 32"
    using base [OF reduced R] canonical_length [OF S(1)] by blast+
  ultimately show ?thesis
    unfolding sig k by (simp only: length_append) simp
qed

end

text \<open>
  blinded signatures. With the documented algebra of Ed25519, whatever a blinded signer of a period
  signs verifies under the blinded public key that anyone derives from the identity key and the period.
\<close>
theorem blinded_signature_verifies:
  assumes "ed25519_laws E verify act padd B inGroup" "createBlindedSigner E pk sk period = Inr s" "signer_sign E s (JBuf m) = Inr sig"
  shows "\<exists>A. deriveBlindedPublicKey E pk period = Inr A \<and> verify sig (content m) A"
proof -
  note s = ed25519_laws.signer_scalar [OF assms(1,2)]
  with assms(3) have "signUnderBlinded E s (content m) = Inr sig"
    by (simp add: signer_sign_def)
  with ed25519_laws.signature_verifies [OF assms(1) _ _ _ this] s show ?thesis by blast
qed

text \<open>
  A concrete instance: the integers modulo the order as the group, written like scalars. It has the laws and
  none of the secrecy.
\<close>

definition refAct :: "nat \<Rightarrow> bytes \<Rightarrow> bytes" where
  "refAct n P = scalarBytes (n * scalarOf P mod ED_ORDER)"

definition refAdd :: "bytes \<Rightarrow> bytes \<Rightarrow> bytes" where
  "refAdd P Q = scalarBytes ((scalarOf P + scalarOf Q) mod ED_ORDER)"

definition refBase :: bytes where
  "refBase = scalarBytes 1"

definition refEd :: ed25519 where
  "refEd = \<lparr>ed_sha512 = (\<lambda>bs. replicate 64 (word_of_nat (length bs) OR 1)), ed_reduce = (\<lambda>bs. scalarBytes (scalarOf bs mod ED_ORDER)),
     ed_mult = (\<lambda>s P. Inr (refAct (scalarOf s) P)), ed_base = (\<lambda>s. Inr (refAct (scalarOf s) refBase)), ed_valid = canonicalScalar,
     ed_mul = (\<lambda>s t. scalarBytes (scalarOf s * scalarOf t mod ED_ORDER)), ed_add = (\<lambda>s t. scalarBytes ((scalarOf s + scalarOf t) mod ED_ORDER)),
     ed_hash = (\<lambda>bss. take 32 (concat bss @ replicate 32 0))\<rparr>"

definition refVerify :: "bytes \<Rightarrow> bytes \<Rightarrow> bytes \<Rightarrow> bool" where
  "refVerify sig m A \<longleftrightarrow> length sig = 64 \<and> canonicalScalar (drop 32 sig) \<and> canonicalScalar A \<and>
     refAct (scalarOf (drop 32 sig)) refBase
       = refAdd (take 32 sig) (refAct (scalarOf (ed_reduce refEd (ed_sha512 refEd (take 32 sig @ A @ m)))) A)"

lemma refEd_eval [simp]:
  "ed_sha512 refEd bs = replicate 64 (word_of_nat (length bs) OR 1)" "ed_reduce refEd bs = scalarBytes (scalarOf bs mod ED_ORDER)"
  "ed_mult refEd s P = Inr (refAct (scalarOf s) P)" "ed_base refEd s = Inr (refAct (scalarOf s) refBase)"
  "ed_valid refEd P = canonicalScalar P"
  "ed_mul refEd s t = scalarBytes (scalarOf s * scalarOf t mod ED_ORDER)" "ed_add refEd s t = scalarBytes ((scalarOf s + scalarOf t) mod ED_ORDER)"
  "ed_hash refEd bss = take 32 (concat bss @ replicate 32 0)"
  by (simp_all add: refEd_def)

lemma refAct_eval [simp]:
  "length (refAct n P) = 32" "scalarOf (refAct n P) = n * scalarOf P mod ED_ORDER" "canonicalScalar (refAct n P)"
  by (simp_all add: refAct_def)

lemma refBase_eval: "scalarOf refBase = 1" "canonicalScalar refBase"
  by (simp_all add: refBase_def canonicalScalar_def ED_ORDER_def)

interpretation refed: ed25519_laws refEd refVerify refAct refAdd refBase canonicalScalar
proof
  fix P :: bytes and m n :: nat
  show "refAct m (refAct n P) = refAct (m * n) P"
    by (simp add: refAct_def mod_mult_right_eq mult.assoc)
  show "refAct (m + n) P = refAdd (refAct m P) (refAct n P)"
    by (simp add: refAct_def refAdd_def mod_add_eq algebra_simps)
  show "refAct (n mod ED_ORDER) P = refAct n P"
    by (simp add: refAct_def mod_mult_left_eq)
next
  fix r R S A m
  assume "ed_base refEd r = Inr R" "canonicalScalar S" "ed_valid refEd A"
    and "refAct (scalarOf S) refBase = refAdd R (refAct (scalarOf (ed_reduce refEd (ed_sha512 refEd (R @ A @ m)))) A)"
  then show "refVerify (R @ S) m A"
    by (auto simp: refVerify_def canonicalScalar_def)
qed (auto simp: refBase_eval)

text \<open>A signer: the identity is the base multiple of the scalar of its secret key.\<close>

definition sample_secret :: bytes where
  "sample_secret = clampScalar (replicate 32 33)"

definition sample_blinding :: bytes where
  "sample_blinding = scalarBytes (scalarOf (replicate 64 87) mod ED_ORDER)"

definition sample_identity :: bytes where
  "sample_identity = refAct (scalarOf sample_secret) refBase"

definition sample_signer :: blinded_signer where
  "sample_signer = \<lparr>bs_live = True, bs_publicKey = refAct (scalarOf sample_blinding) sample_identity,
     bs_secretScalar = scalarBytes (scalarOf sample_blinding * scalarOf sample_secret mod ED_ORDER),
     bs_nonceRoot = replicate 32 33, bs_blindingScalar = sample_blinding\<rparr>"

lemma isAllZero_scalar: "isAllZero bs \<Longrightarrow> scalarOf bs = 0"
proof -
  have "isAllZero bs \<Longrightarrow> be_nat bs = 0" for bs
    by (induction bs rule: rev_induct) (simp_all add: isAllZero_def be_nat_def)
  then show "isAllZero bs \<Longrightarrow> scalarOf bs = 0"
    by (simp add: scalarOf_def isAllZero_def)
qed

lemma be_nat_replicate: "be_nat (replicate n b) * 255 + unat b = unat b * 256 ^ n"
proof (induction n)
  case (Suc n)
  have "replicate (Suc n) b = replicate n b @ [b]"
    by (simp add: replicate_append_same)
  then have "be_nat (replicate (Suc n) b) * 255 + unat b = (be_nat (replicate n b) * 255 + unat b) * 256"
    by (simp only: be_nat_snoc) simp
  with Suc show ?case by simp
qed simp

lemma sample_blinding_nonzero: "\<not> isAllZero sample_blinding"
proof
  assume "isAllZero sample_blinding"
  then have "scalarOf (replicate 64 87) mod ED_ORDER = 0"
    using isAllZero_scalar by (fastforce simp: sample_blinding_def)
  moreover have "scalarOf (replicate 64 87) = 87 * ((256 ^ 64 - 1) div 255)"
    using be_nat_replicate [of 64 87] by (simp add: scalarOf_def)
  ultimately show False
    by (simp add: ED_ORDER_def)
qed

lemma sample_lengths [simp]: "length sample_identity = 32" "length (bs_publicKey sample_signer) = 32" "bs_live sample_signer"
  by (simp_all add: sample_identity_def sample_signer_def)

lemma sample_key_pair:
  "refAct (scalarOf (scalarBytes (scalarOf sample_blinding * scalarOf sample_secret mod ED_ORDER))) refBase
    = refAct (scalarOf sample_blinding) sample_identity"
  by (simp add: sample_identity_def refAct_def refBase_eval mod_mult_right_eq)

lemma sample_signer_created:
  "createBlindedSigner refEd (presenceBuf sample_identity) (presenceBuf (replicate 64 5)) (JBig 20000) = Inr sample_signer"
proof -
  have fixed: "isFixed (presenceBuf sample_identity) 32" "isFixed (presenceBuf (replicate 64 5)) 64"
    by (simp_all add: isFixed_def presenceBuf_def)
  have h: "ed_reduce refEd (hashSha512 refEd [BLIND_DOMAIN, bytesAt (presenceBuf sample_identity), periodBytes (natAt (JBig 20000))]) = sample_blinding"
    by (simp add: hashSha512_def presenceBuf_def BLIND_DOMAIN_def utf8_def periodBytes_def sample_blinding_def)
  have key: "bytesAt (presenceBuf sample_identity) = sample_identity"
    "clampScalar (take 32 (ed_sha512 refEd (take 32 (bytesAt (presenceBuf (replicate 64 5)))))) = sample_secret"
    "take 32 (drop 32 (ed_sha512 refEd (take 32 (bytesAt (presenceBuf (replicate 64 5)))))) = replicate 32 33"
    by (simp_all add: presenceBuf_def sample_secret_def)
  have secret: "blindSecret refEd sample_blinding sample_secret (refAct (scalarOf sample_blinding) sample_identity)
      = Inr (bs_secretScalar sample_signer)"
    using sample_key_pair by (simp add: blindSecret_def sample_signer_def)
  have mult: "ed_mult refEd sample_blinding sample_identity = Inr (refAct (scalarOf sample_blinding) sample_identity)"
    "ed_valid refEd (refAct (scalarOf sample_blinding) sample_identity)" "isUint64 (JBig 20000)"
    by (simp_all add: isUint64_def MAX_COUNTER_def)
  have "deriveBlindingMaterial refEd (presenceBuf sample_identity) (JBig 20000) (Some (presenceBuf (replicate 64 5)))
      = Inr \<lparr>bl_publicKey = bs_publicKey sample_signer, bl_secretScalar = Some (bs_secretScalar sample_signer),
          bl_nonceRoot = Some (bs_nonceRoot sample_signer), bl_blindingScalar = bs_blindingScalar sample_signer\<rparr>"
    unfolding deriveBlindingMaterial_def Let_def h unfolding key mult(1) option.case sum.case secret
    using fixed mult(2,3) sample_blinding_nonzero by (simp del: refEd_eval add: sample_signer_def)
  then show ?thesis
    using fixed by (simp add: createBlindedSigner_def sample_signer_def)
qed

lemma sample_signs: "\<exists>sig. signer_sign refEd sample_signer (presenceBuf m) = Inr sig"
  by (simp add: signer_sign_def presenceBuf_def signUnderBlinded_def Let_def)

theorem blinded_signature_verifies_witness:
  "\<exists>sig A. signer_sign refEd sample_signer (presenceBuf [1, 2, 3]) = Inr sig
    \<and> deriveBlindedPublicKey refEd (presenceBuf sample_identity) (JBig 20000) = Inr A \<and> refVerify sig [1, 2, 3] A"
proof -
  obtain sig where sig: "signer_sign refEd sample_signer (presenceBuf [1, 2, 3]) = Inr sig"
    using sample_signs by blast
  from blinded_signature_verifies [OF refed.ed25519_laws_axioms sample_signer_created sig [unfolded presenceBuf_def]] sig show ?thesis
    by (simp add: presenceBuf_def)
qed

section \<open>Periods\<close>

text \<open>
  publisher and reader meet. If a record is published for the periods \<open>publishPeriods\<close> gives, then a
  reader who looks up at any time within the overlap after that finds one of them among the periods
  \<open>lookupPeriods\<close> gives, whatever day boundary lies between.
\<close>
theorem lookup_meets_publish:
  assumes "publishPeriods (JNum (int t)) = Inr ps" "lookupPeriods (JNum (int u)) = Inr qs" "t \<le> u" "u \<le> t + OVERLAP_MS"
  shows "set ps \<inter> set qs \<noteq> {}"
proof -
  let ?p = "t div PERIOD_MS" and ?q = "u div PERIOD_MS"
  have ps: "set ps = (if t + OVERLAP_MS \<ge> (?p + 1) * PERIOD_MS then {?p, ?p + 1} else {?p})"
    using assms(1) by (auto simp: publishPeriods_def)
  have qs: "?q \<in> set qs"
    using assms(2) by (auto simp: lookupPeriods_def)
  have q: "?q = ?p \<or> ?q = ?p + 1 \<and> t + OVERLAP_MS \<ge> (?p + 1) * PERIOD_MS"
    using assms(3,4) by (simp add: PERIOD_MS_def OVERLAP_MS_def) linarith
  then have "?q \<in> set ps"
    unfolding ps by auto
  with qs show ?thesis by blast
qed

text \<open>A record published half an hour before midnight is found half an hour after.\<close>

theorem lookup_meets_publish_witness:
  "publishPeriods (JNum (int 84600000)) = Inr [0, 1] \<and> lookupPeriods (JNum (int 88200000)) = Inr [1, 0]
   \<and> set [0, 1 :: nat] \<inter> set [1, 0] \<noteq> {}"
proof -
  have p: "publishPeriods (JNum (int 84600000)) = Inr [0, 1]" and q: "lookupPeriods (JNum (int 88200000)) = Inr [1, 0]"
    by (simp_all add: publishPeriods_def lookupPeriods_def PERIOD_MS_def OVERLAP_MS_def)
  from lookup_meets_publish [OF p q] p q show ?thesis by (simp add: OVERLAP_MS_def)
qed

section \<open>Records\<close>

lemma isAllZero_replicate [simp]: "isAllZero (replicate n 0)"
  by (simp add: isAllZero_def list_all_iff)

definition contentOfBody :: "nat \<Rightarrow> nat \<Rightarrow> bytes \<Rightarrow> bytes option \<Rightarrow> presence_content" where
  "contentOfBody typ scope target d = (if typ = TYPE_DESCRIPTOR then Descriptor (bytesOf d) else Tombstone scope target)"

lemma parseBody_encodeBody:
  assumes "encodeBody typ period scope target d = Inr bdy" "length target = 32" "period \<le> MAX_COUNTER"
  shows "parseBody period revision bdy = Inr \<lparr>pr_period = period, pr_revision = revision, pr_content = contentOfBody typ scope target d\<rparr>
    \<and> length bdy = BODY_FIXED_BYTES + MAX_DESCRIPTOR_BYTES"
proof -
  define n where "n = (if typ = TYPE_DESCRIPTOR then length (bytesOf d) else 0)"
  define rest where "rest = (if typ = TYPE_DESCRIPTOR then bytesOf d else []) @ replicate (MAX_DESCRIPTOR_BYTES - n) 0"
  have bdy: "bdy = [word_of_nat typ] @ be_bytes 8 period @ [word_of_nat scope] @ target @ be_bytes 2 n @ rest"
    and n: "n \<le> MAX_DESCRIPTOR_BYTES" and tyc: "typ = TYPE_DESCRIPTOR \<or> typ = TYPE_TOMBSTONE"
    and kind: "typ = TYPE_DESCRIPTOR \<Longrightarrow> scope = 0 \<and> isAllZero target"
      "typ = TYPE_TOMBSTONE \<Longrightarrow> (scope = SCOPE_PERIOD \<and> isAllZero target \<or> scope = SCOPE_RECORD \<and> \<not> isAllZero target)"
    using assms(1) by (auto simp: encodeBody_def Let_def n_def rest_def bytesOf_def TYPE_DESCRIPTOR_def TYPE_TOMBSTONE_def
        SCOPE_PERIOD_def SCOPE_RECORD_def split: if_splits option.splits)
  have rest: "length rest = MAX_DESCRIPTOR_BYTES" "drop n rest = replicate (MAX_DESCRIPTOR_BYTES - n) 0"
    "take n rest = (if typ = TYPE_DESCRIPTOR then bytesOf d else [])"
    using n by (simp_all add: rest_def n_def)
  have words: "unat (word_of_nat typ :: byte) = typ" "unat (word_of_nat scope :: byte) = scope"
    using tyc kind by (auto simp: TYPE_DESCRIPTOR_def TYPE_TOMBSTONE_def SCOPE_PERIOD_def SCOPE_RECORD_def)
  have nats: "be_nat (be_bytes 8 period) = period" "be_nat (be_bytes 2 n) = n"
    using assms(3) n by (simp_all add: be_simps MAX_COUNTER_def presence_sizes)
  have fields: "unat (bdy ! 0) = typ" "unat (bdy ! 9) = scope" "be_nat (take 8 (drop 1 bdy)) = period" "take 32 (drop 10 bdy) = target"
    "be_nat (take 2 (drop 42 bdy)) = n" "take MAX_DESCRIPTOR_BYTES (drop 44 bdy) = rest"
    using assms(2) rest(1) words nats by (simp_all add: bdy nth_append)
  have "parseBody period revision bdy = Inr \<lparr>pr_period = period, pr_revision = revision, pr_content = contentOfBody typ scope target d\<rparr>"
  proof (cases "typ = TYPE_DESCRIPTOR")
    case True
    then show ?thesis
      unfolding parseBody_def Let_def fields rest(2) using n kind(1) rest(3) by (simp add: contentOfBody_def)
  next
    case False
    then show ?thesis
      unfolding parseBody_def Let_def fields rest(2) using tyc kind(2) by (auto simp: contentOfBody_def n_def SCOPE_PERIOD_def SCOPE_RECORD_def)
  qed
  moreover have "length bdy = BODY_FIXED_BYTES + MAX_DESCRIPTOR_BYTES"
    using assms(2) rest(1) by (simp add: bdy BODY_FIXED_BYTES_def)
  ultimately show ?thesis by blast
qed

lemma aead_seal_sizes:
  assumes "aead_seal S (sealOptions (JBuf k) (JBuf n) c (JBuf ad) ''plaintext'' (JBuf b)) = Inr ct" "c \<le> MAX_COUNTER"
  shows "byteLength k = 32" "byteLength n = 16" "byteLength ad \<le> 512" "byteLength b \<le> 65535"
  using assms
  by (auto simp: aead_seal_def snapshotCellInputs_def sealOptions_def ownDataOption_def validateKeyAndNoncePrefix_def requireE_def
      bindE_Inr counterValue_Inr MAX_ASSOCIATED_DATA_def MAX_AEAD_PLAINTEXT_def split: if_splits sum.splits)

lemma openSealed_sealPresence:
  assumes "aead S" "sealPresence E S np rs pk period revision bdy = Inr val" "length np = 16" "revision \<le> MAX_UINT32"
    and "length bdy = BODY_FIXED_BYTES + MAX_DESCRIPTOR_BYTES"
  shows "openSealed E S rs pk period revision val = Inr bdy \<and> length val = PRESENCE_RECORD_SIZE
    \<and> unat (val ! 0) = PRESENCE_RECORD_VERSION \<and> be_nat (take 4 (drop 1 val)) = revision"
proof -
  let ?ad = "buildAssociatedData pk PRESENCE_RECORD_VERSION period revision"
  from assms(2) obtain k ct where k: "deriveReaderKey E rs pk period = Inr k"
    and ct: "aead_seal S (sealOptions (presenceBuf k) (presenceBuf np) 0 (presenceBuf ?ad) ''plaintext'' (presenceBuf bdy)) = Inr ct"
    and len: "length ct = BODY_FIXED_BYTES + MAX_DESCRIPTOR_BYTES + AEAD_TAG_BYTES"
    and val: "val = [word_of_nat PRESENCE_RECORD_VERSION] @ be_bytes 4 revision @ np @ ct"
    by (auto simp: sealPresence_def bindE_Inr split: if_splits)
  note sizes = aead_seal_sizes [OF ct [unfolded presenceBuf_def]]
  have parts: "take 16 (drop 5 val) = np" "drop HEADER_BYTES val = ct" "take 4 (drop 1 val) = be_bytes 4 revision"
    using assms(3) by (simp_all add: val HEADER_BYTES_def)
  have "aead_open S (sealOptions (presenceBuf k) (presenceBuf np) 0 (presenceBuf ?ad) ''ciphertext'' (presenceBuf ct)) = Inr (Some bdy)"
    unfolding presenceBuf_def
    using cell_crypto.opens [OF aead.aead_cell_crypto [OF assms(1)] sizes(1,2) _ sizes(3,4) ct [unfolded presenceBuf_def]] by simp
  then have "openSealed E S rs pk period revision val = Inr bdy"
    using assms(5) by (simp add: openSealed_def k parts)
  moreover have "be_nat (be_bytes 4 revision) = revision"
    using assms(4) by (simp add: be_simps MAX_UINT32_def)
  ultimately show ?thesis
    using len assms(3) by (simp add: parts val presence_sizes PRESENCE_RECORD_VERSION_def)
qed

lemma presenceContent_target:
  assumes "presenceContent o' = Inr (ty, scope, target, d)"
  shows "length target = 32"
  using assms
  by (auto simp: presenceContent_def ZERO32_def isRecordTombstoneTarget_def isFixed_def
      split: if_splits option.splits jsval.splits)

text \<open>What an encoded record consists of.\<close>

lemma encodePresenceRecord_Inr:
  assumes "encodePresenceRecord E S np o' = Inr rec"
  obtains ty scope target d bdy where "presenceContent o' = Inr (ty, scope, target, d)"
    "encodeBody ty (natAt (po_period o')) scope target d = Inr bdy"
    "sealPresence E S np (po_readerSecret o') (rec_publicKey rec) (natAt (po_period o')) (rec_seq rec) bdy = Inr (rec_value rec)"
    "rec_publicKey rec = bytesAt (po_signerKey o')" "rec_seq rec = natAt (po_revision o')"
    "isUint64 (po_period o')" "isUint32 (po_revision o')" "isFixed (po_readerSecret o') 32"
  using assms by (auto simp: encodePresenceRecord_def bindE_Inr split: if_splits)

lemma isUint_bounds:
  "isUint64 v \<Longrightarrow> natAt v \<le> MAX_COUNTER"
  "isUint32 v \<Longrightarrow> natAt v \<le> MAX_UINT32"
  by (auto simp: isUint64_def isUint32_def split: jsval.splits)

lemma presence_record_opens:
  assumes "aead S" "ed25519_laws E (sl_verify L) act padd B inGroup" "createBlindedSigner E pk sk period = Inr s"
    and "po_signerKey o' = presenceBuf (bs_publicKey s)" "po_period o' = period" "length np = 16"
    and "encodePresenceRecord E S np o' = Inr rec"
    and "record_signMutable L (\<lambda>m. signer_sign E s (presenceBuf m)) rec (JNum (int (rec_seq rec)))
           (presenceBuf (rec_value rec)) (presenceBuf (rec_publicKey rec)) = Inr sig"
  shows "\<exists>ty scope target d. presenceContent o' = Inr (ty, scope, target, d)
    \<and> openPresenceRecord E S L \<lparr>oo_identityPublicKey = pk, oo_period = period, oo_revision = po_revision o',
        oo_readerSecret = po_readerSecret o', oo_value = presenceBuf (rec_value rec), oo_signature = presenceBuf sig\<rparr>
      = Inr \<lparr>pr_period = natAt period, pr_revision = natAt (po_revision o'), pr_content = contentOfBody ty scope target d\<rparr>"
proof -
  note s = ed25519_laws.signer_scalar [OF assms(2,3)]
  from assms(7) obtain ty scope target d bdy where rec: "presenceContent o' = Inr (ty, scope, target, d)"
    "encodeBody ty (natAt (po_period o')) scope target d = Inr bdy"
    "sealPresence E S np (po_readerSecret o') (rec_publicKey rec) (natAt (po_period o')) (rec_seq rec) bdy = Inr (rec_value rec)"
    "rec_publicKey rec = bytesAt (po_signerKey o')" "rec_seq rec = natAt (po_revision o')"
    and opts: "isUint64 (po_period o')" "isUint32 (po_revision o')" "isFixed (po_readerSecret o') 32"
    by (rule encodePresenceRecord_Inr)
  have pub: "rec_publicKey rec = bs_publicKey s"
    using rec(4) assms(4) by (simp add: presenceBuf_def)
  have rev: "rec_seq rec \<le> MAX_UINT32"
    unfolding rec(5) by (rule isUint_bounds(2) [OF opts(2)])
  have bdy: "parseBody (natAt period) (rec_seq rec) bdy = Inr \<lparr>pr_period = natAt period, pr_revision = rec_seq rec,
      pr_content = contentOfBody ty scope target d\<rparr>"
    and bdyl: "length bdy = BODY_FIXED_BYTES + MAX_DESCRIPTOR_BYTES"
    using parseBody_encodeBody [OF rec(2) presenceContent_target [OF rec(1)] isUint_bounds(1) [OF opts(1)]] assms(5) by simp_all
  note sealed = openSealed_sealPresence [OF assms(1) rec(3) assms(6) rev bdyl]
  from assms(8) obtain signable where sb: "mutableSignableBytes L (rec_seq rec) (Some (rec_value rec)) = Inr signable"
    and "signer_sign E s (presenceBuf signable) = Inr sig"
    by (auto simp: record_signMutable_def split: if_splits sum.splits)
  then have "signUnderBlinded E s signable = Inr sig"
    using s by (simp add: signer_sign_def presenceBuf_def)
  with ed25519_laws.signature_verifies [OF assms(2) _ _ _ this] s
  have sig: "sl_verify L sig signable (bs_publicKey s)" "length sig = 64" by auto
  have ver: "verifyMutable L sig (rec_seq rec) (Some (rec_value rec)) (bs_publicKey s) = Inr True"
    using sb sig(1) by (simp add: verifyMutable_def)
  have fixed: "isFixed pk 32" "isFixed (presenceBuf (rec_value rec)) PRESENCE_RECORD_SIZE" "isFixed (presenceBuf sig) 64"
    using assms(3) sealed sig(2) by (auto simp: createBlindedSigner_def isFixed_def presenceBuf_def split: if_splits)
  have bytes: "bytesAt (presenceBuf (rec_value rec)) = rec_value rec" "bytesAt (presenceBuf sig) = sig"
    by (simp_all add: presenceBuf_def)
  have "openPresenceRecord E S L \<lparr>oo_identityPublicKey = pk, oo_period = period, oo_revision = po_revision o',
        oo_readerSecret = po_readerSecret o', oo_value = presenceBuf (rec_value rec), oo_signature = presenceBuf sig\<rparr>
      = Inr \<lparr>pr_period = natAt period, pr_revision = natAt (po_revision o'), pr_content = contentOfBody ty scope target d\<rparr>"
    using s ver sealed fixed opts assms(5) bdy
    by (simp add: openPresenceRecord_def bytes rec(5) [symmetric] pub)
  with rec(1) show ?thesis by blast
qed

text \<open>
  C18: publish and read. A record encoded for a blinded signer and signed through its own \<open>signMutable\<close>
  opens, for whoever holds the identity key and the reader's secret, to the period, the revision and the
  content that were published, with the documented laws of the AEAD and of Ed25519.
\<close>
theorem presence_record_roundtrip:
  assumes "aead S" "ed25519_laws E (sl_verify L) act padd B inGroup" "createBlindedSigner E pk sk period = Inr s"
    and "po_signerKey o' = presenceBuf (bs_publicKey s)" "po_period o' = period" "length np = 16"
    and "encodePresenceRecord E S np o' = Inr rec"
    and "record_signMutable L (\<lambda>m. signer_sign E s (presenceBuf m)) rec (JNum (int (rec_seq rec)))
           (presenceBuf (rec_value rec)) (presenceBuf (rec_publicKey rec)) = Inr sig"
  shows "\<exists>ty scope target d. presenceContent o' = Inr (ty, scope, target, d)
    \<and> openPresenceRecord E S L \<lparr>oo_identityPublicKey = pk, oo_period = period, oo_revision = po_revision o',
        oo_readerSecret = po_readerSecret o', oo_value = presenceBuf (rec_value rec), oo_signature = presenceBuf sig\<rparr>
      = Inr \<lparr>pr_period = natAt period, pr_revision = natAt (po_revision o'), pr_content = contentOfBody ty scope target d\<rparr>"
  using presence_record_opens [OF assms] .

text \<open>The body of what an opened record says: every byte is determined by its period and content.\<close>

fun bodyOf :: "nat \<Rightarrow> presence_content \<Rightarrow> bytes" where
  "bodyOf period (Descriptor d) =
     [1] @ be_bytes 8 period @ [0] @ replicate 32 0 @ be_bytes 2 (length d) @ d @ replicate (MAX_DESCRIPTOR_BYTES - length d) 0"
| "bodyOf period (Tombstone scope target) =
     [2] @ be_bytes 8 period @ [word_of_nat scope] @ target @ be_bytes 2 0 @ replicate MAX_DESCRIPTOR_BYTES 0"

lemma byte_unat: "word_of_nat (unat b) = (b :: byte)"
  by (simp add: of_nat_unat)

lemma isAllZero_eq: "isAllZero bs \<Longrightarrow> bs = replicate (length bs) 0"
  by (simp add: isAllZero_def list_all_iff replicate_length_same)

lemma body_fields:
  assumes "length bdy = BODY_FIXED_BYTES + MAX_DESCRIPTOR_BYTES"
  shows "bdy = [bdy ! 0] @ be_bytes 8 (be_nat (take 8 (drop 1 bdy))) @ [bdy ! 9] @ take 32 (drop 10 bdy)
    @ be_bytes 2 (be_nat (take 2 (drop 42 bdy))) @ take MAX_DESCRIPTOR_BYTES (drop 44 bdy)"
proof -
  have l: "length bdy = 858"
    using assms by (simp add: presence_sizes)
  have "be_bytes 8 (be_nat (take 8 (drop 1 bdy))) = take 8 (drop 1 bdy)" "be_bytes 2 (be_nat (take 2 (drop 42 bdy))) = take 2 (drop 42 bdy)"
    using be_bytes_be_nat [of "take 8 (drop 1 bdy)"] be_bytes_be_nat [of "take 2 (drop 42 bdy)"] l by simp_all
  moreover have "bdy = [bdy ! 0] @ drop 1 bdy" "drop 1 bdy = take 8 (drop 1 bdy) @ drop 9 bdy" "drop 9 bdy = [bdy ! 9] @ drop 10 bdy"
    "drop 10 bdy = take 32 (drop 10 bdy) @ drop 42 bdy" "drop 42 bdy = take 2 (drop 42 bdy) @ drop 44 bdy"
    using l Cons_nth_drop_Suc [of 0 bdy] Cons_nth_drop_Suc [of 9 bdy] append_take_drop_id [of 8 "drop 1 bdy"]
      append_take_drop_id [of 32 "drop 10 bdy"] append_take_drop_id [of 2 "drop 42 bdy"]
    by simp_all
  moreover have "drop 44 bdy = take MAX_DESCRIPTOR_BYTES (drop 44 bdy)"
    using l by (simp add: presence_sizes)
  ultimately show ?thesis
    by metis
qed

lemma parseBody_body:
  assumes "parseBody period revision bdy = Inr r" "length bdy = BODY_FIXED_BYTES + MAX_DESCRIPTOR_BYTES"
  shows "bdy = bodyOf period (pr_content r) \<and> pr_period r = period \<and> pr_revision r = revision"
proof -
  define region where "region = take MAX_DESCRIPTOR_BYTES (drop 44 bdy)"
  define n where "n = be_nat (take 2 (drop 42 bdy))"
  define target where "target = take 32 (drop 10 bdy)"
  have parse: "be_nat (take 8 (drop 1 bdy)) = period" "n \<le> MAX_DESCRIPTOR_BYTES" "isAllZero (drop n region)"
    and kind: "unat (bdy ! 0) = TYPE_DESCRIPTOR \<and> unat (bdy ! 9) = 0 \<and> isAllZero target \<and> pr_content r = Descriptor (take n region)
      \<or> unat (bdy ! 0) = TYPE_TOMBSTONE \<and> n = 0 \<and> pr_content r = Tombstone (unat (bdy ! 9)) target"
    and r: "pr_period r = period" "pr_revision r = revision"
    using assms(1) unfolding parseBody_def Let_def n_def region_def target_def by (auto split: if_splits)
  have lens: "length region = MAX_DESCRIPTOR_BYTES" "length target = 32"
    using assms(2) by (simp_all add: region_def target_def presence_sizes)
  have region: "region = take n region @ replicate (MAX_DESCRIPTOR_BYTES - n) 0" "length (take n region) = n"
    using isAllZero_eq [OF parse(3)] lens parse(2) append_take_drop_id [of n region] by simp_all
  have bdy: "bdy = [bdy ! 0] @ be_bytes 8 period @ [bdy ! 9] @ target @ be_bytes 2 n @ region"
    using body_fields [OF assms(2)] unfolding parse(1) n_def region_def target_def .
  have "bdy = bodyOf period (pr_content r)"
    using kind
  proof (elim disjE conjE)
    assume k: "unat (bdy ! 0) = TYPE_DESCRIPTOR" "unat (bdy ! 9) = 0" "isAllZero target" "pr_content r = Descriptor (take n region)"
    have "bdy ! 0 = 1" "bdy ! 9 = 0" "target = replicate 32 0"
      using k(1,2) isAllZero_eq [OF k(3)] lens(2) byte_unat [of "bdy ! 0"] by (simp_all add: TYPE_DESCRIPTOR_def unat_eq_zero)
    with bdy region k(4) show ?thesis
      by (metis bodyOf.simps(1))
  next
    assume k: "unat (bdy ! 0) = TYPE_TOMBSTONE" "n = 0" "pr_content r = Tombstone (unat (bdy ! 9)) target"
    have "bdy ! 0 = 2" "word_of_nat (unat (bdy ! 9)) = bdy ! 9" "region = replicate MAX_DESCRIPTOR_BYTES 0"
      using k(1,2) region(1) byte_unat [of "bdy ! 0"] by (simp_all add: TYPE_TOMBSTONE_def)
    with bdy k(2,3) show ?thesis
      by (metis bodyOf.simps(2))
  qed
  with r show ?thesis by blast
qed

lemma aead_open_sizes:
  assumes "aead_open S (sealOptions (JBuf k) (JBuf n) c (JBuf ad) ''ciphertext'' (JBuf b)) = Inr r" "c \<le> MAX_COUNTER"
  shows "byteLength k = 32" "byteLength n = 16" "byteLength ad \<le> 512"
  using assms
  by (auto simp: aead_open_def snapshotCellInputs_def sealOptions_def ownDataOption_def validateKeyAndNoncePrefix_def requireE_def
      bindE_Inr counterValue_Inr MAX_ASSOCIATED_DATA_def split: if_splits sum.splits)

lemma openSealed_encrypted:
  assumes "aead S" "openSealed E S rs pk period revision val = Inr bdy"
  shows "so_encrypt S bdy (AD_DOMAIN @ pk @ [1] @ be_bytes 8 period @ be_bytes 4 revision) (take 16 (drop 5 val) @ be_bytes 8 0)
      (ed_hash E [READER_DOMAIN @ bytesAt rs @ pk @ be_bytes 8 period]) = Inr (drop 21 val)
    \<and> length bdy = BODY_FIXED_BYTES + MAX_DESCRIPTOR_BYTES"
proof -
  let ?b = "\<lambda>bs. \<lparr>backing = 0, byteOffset = 0, sharedStore = False, content = bs\<rparr>"
  let ?k = "ed_hash E [READER_DOMAIN @ bytesAt rs @ pk @ be_bytes 8 period]"
    and ?ad = "AD_DOMAIN @ pk @ [1] @ be_bytes 8 period @ be_bytes 4 revision"
  have ad: "buildAssociatedData pk PRESENCE_RECORD_VERSION period revision = ?ad"
    by (simp add: buildAssociatedData_def PRESENCE_RECORD_VERSION_def)
  from assms(2) have op: "aead_open S (sealOptions (JBuf (?b ?k)) (JBuf (?b (take 16 (drop 5 val)))) 0 (JBuf (?b ?ad)) ''ciphertext''
      (JBuf (?b (drop 21 val)))) = Inr (Some bdy)" and len: "length bdy = BODY_FIXED_BYTES + MAX_DESCRIPTOR_BYTES"
    unfolding openSealed_def ad deriveReaderKey_def presenceBuf_def
    by (auto simp: bindE_Inr HEADER_BYTES_def split: if_splits option.splits)
  note sz = aead_open_sizes [OF op]
  have small: "length bdy \<le> 65535"
    using len by (simp add: presence_sizes)
  have "aead_seal S (sealOptions (JBuf (?b ?k)) (JBuf (?b (take 16 (drop 5 val)))) 0 (JBuf (?b ?ad)) ''plaintext'' (JBuf (?b bdy)))
      = Inr (content (?b (drop 21 val)))"
    using cell_crypto.opens_only [OF aead.aead_cell_crypto [OF assms(1)] sz(1,2) _ sz(3) _ small op, of "?b bdy"] by simp
  moreover have "aead_seal S (sealOptions (JBuf (?b ?k)) (JBuf (?b (take 16 (drop 5 val)))) 0 (JBuf (?b ?ad)) ''plaintext'' (JBuf (?b bdy)))
      = map_sum Raised id (so_encrypt S bdy ?ad (nonceFor (take 16 (drop 5 val)) 0) ?k)"
    using aead.aead_seal_eq [OF assms(1) sz(1,2) _ sz(3), of 0 "?b bdy"] small by simp
  ultimately show ?thesis
    using len by (cases "so_encrypt S bdy ?ad (nonceFor (take 16 (drop 5 val)) 0) ?k") (simp_all add: nonceFor_def)
qed

text \<open>
  C19: only the owner's records open. Whatever a reader opens carries, over its revision and bytes, a
  signature that verifies under the blinded key \<open>A\<close> of the identity and period. By the laws of the AEAD, its
  ciphertext is the encryption of exactly what was opened, under the hash of the reader's secret, \<open>A\<close> and the
  period, with \<open>A\<close>, the version, the period and the revision as associated data and the nonce of its header,
  and the header shows the version and the revision.
\<close>
theorem presence_open_authentic:
  assumes "aead S" "openPresenceRecord E S L o' = Inr r"
  shows "\<exists>A signable. deriveBlindedPublicKey E (oo_identityPublicKey o') (oo_period o') = Inr A
    \<and> mutableSignableBytes L (pr_revision r) (Some (bytesAt (oo_value o'))) = Inr signable
    \<and> sl_verify L (bytesAt (oo_signature o')) signable A
    \<and> pr_period r = natAt (oo_period o') \<and> pr_revision r = natAt (oo_revision o')
    \<and> take 5 (bytesAt (oo_value o')) = 1 # be_bytes 4 (pr_revision r)
    \<and> so_encrypt S (bodyOf (pr_period r) (pr_content r))
        (AD_DOMAIN @ A @ [1] @ be_bytes 8 (pr_period r) @ be_bytes 4 (pr_revision r))
        (take 16 (drop 5 (bytesAt (oo_value o'))) @ be_bytes 8 0)
        (ed_hash E [READER_DOMAIN @ bytesAt (oo_readerSecret o') @ A @ be_bytes 8 (pr_period r)])
      = Inr (drop 21 (bytesAt (oo_value o')))"
proof -
  let ?val = "bytesAt (oo_value o')" and ?p = "natAt (oo_period o')" and ?rev = "natAt (oo_revision o')"
  from assms(2) obtain A where A: "deriveBlindedPublicKey E (oo_identityPublicKey o') (oo_period o') = Inr A"
    and ver: "verifyMutable L (bytesAt (oo_signature o')) ?rev (Some ?val) A = Inr True"
    and r: "bindE (openSealed E S (oo_readerSecret o') A ?p ?rev ?val) (parseBody ?p ?rev) = Inr r"
    and hd: "unat (?val ! 0) = PRESENCE_RECORD_VERSION" "be_nat (take 4 (drop 1 ?val)) = ?rev" "isFixed (oo_value o') PRESENCE_RECORD_SIZE"
    by (auto simp: openPresenceRecord_def Let_def bindE_Inr split: if_splits sum.splits bool.splits)
  from r obtain bdy where bdy: "openSealed E S (oo_readerSecret o') A ?p ?rev ?val = Inr bdy" "parseBody ?p ?rev bdy = Inr r"
    by (auto simp: bindE_Inr)
  note enc = openSealed_encrypted [OF assms(1) bdy(1)]
  from parseBody_body [OF bdy(2) conjunct2 [OF enc]] have b: "bdy = bodyOf ?p (pr_content r)" "pr_period r = ?p" "pr_revision r = ?rev"
    by blast+
  from hd(3) have len: "length ?val = 895"
    by (auto simp: isFixed_def PRESENCE_RECORD_SIZE_def split: jsval.splits)
  then have "take 5 ?val = [?val ! 0] @ take 4 (drop 1 ?val)"
    by (simp add: take_Suc_conv_app_nth take_Cons' eval_nat_numeral flip: Cons_nth_drop_Suc [of 0 ?val])
  moreover have "?val ! 0 = 1" "take 4 (drop 1 ?val) = be_bytes 4 ?rev"
    using hd(1,2) len be_bytes_be_nat [of "take 4 (drop 1 ?val)"] byte_unat [of "?val ! 0"]
    by (simp_all add: PRESENCE_RECORD_VERSION_def)
  ultimately have "take 5 ?val = 1 # be_bytes 4 ?rev"
    by simp
  with A ver enc b show ?thesis
    by (auto simp: verifyMutable_def bindE_Inr)
qed

text \<open>A concrete record: a descriptor published for the sample signer.\<close>

definition presL :: "(string \<rightharpoonup> forward, string \<Rightarrow> (bytes \<times> bytes) list, string \<rightharpoonup> nat,
    string \<rightharpoonup> refresh_entry, string \<rightharpoonup> bytes) store_lib" where
  "presL = refL\<lparr>sl_verify := refVerify\<rparr>"

definition sample_presence :: presence_options where
  "sample_presence = \<lparr>po_signerKey = presenceBuf (bs_publicKey sample_signer), po_period = JBig 20000, po_revision = JNum 3,
     po_readerSecret = presenceBuf (replicate 32 7), po_type = JNum 1, po_descriptor = presenceBuf [1, 2], po_tombstone = None\<rparr>"

definition sample_open :: "presence_record \<Rightarrow> bytes \<Rightarrow> open_presence_options" where
  "sample_open rec sig = \<lparr>oo_identityPublicKey = presenceBuf sample_identity, oo_period = JBig 20000, oo_revision = JNum 3,
     oo_readerSecret = presenceBuf (replicate 32 7), oo_value = presenceBuf (rec_value rec), oo_signature = presenceBuf sig\<rparr>"

lemma sealPresence_exists:
  assumes "aead S" "isFixed rs 32" "length pk = 32" "\<And>bss. length (ed_hash E bss) = 32" "length np = 16"
    and "length bdy = BODY_FIXED_BYTES + MAX_DESCRIPTOR_BYTES"
  shows "\<exists>val. sealPresence E S np rs pk period revision bdy = Inr val \<and> length val = PRESENCE_RECORD_SIZE"
proof -
  obtain k where k: "deriveReaderKey E rs pk period = Inr k" "length k = 32"
    using assms(2-4) by (simp add: deriveReaderKey_def)
  let ?b = "\<lambda>bs. \<lparr>backing = 0, byteOffset = 0, sharedStore = False, content = bs\<rparr>"
  let ?ad = "buildAssociatedData pk PRESENCE_RECORD_VERSION period revision"
  have sizes: "byteLength (?b k) = 32" "byteLength (?b np) = 16" "byteLength (?b ?ad) \<le> 512" "byteLength (?b bdy) \<le> 65535"
    using k(2) assms(3,5,6) by (simp_all add: buildAssociatedData_def AD_DOMAIN_def utf8_def presence_sizes)
  obtain ct where "aead_seal S (sealOptions (presenceBuf k) (presenceBuf np) 0 (presenceBuf ?ad) ''plaintext'' (presenceBuf bdy)) = Inr ct"
    "length ct = length bdy + 16"
    using cell_crypto.seals [OF aead.aead_cell_crypto [OF assms(1)] sizes(1,2) _ sizes(3,4)] unfolding presenceBuf_def by auto
  with k assms(5,6) show ?thesis
    by (simp add: sealPresence_def presence_sizes)
qed

lemma sample_presence_published:
  "\<exists>rec sig. encodePresenceRecord refEd refSodium (replicate 16 4) sample_presence = Inr rec
    \<and> record_signMutable presL (\<lambda>m. signer_sign refEd sample_signer (presenceBuf m)) rec (JNum (int (rec_seq rec)))
        (presenceBuf (rec_value rec)) (presenceBuf (rec_publicKey rec)) = Inr sig"
proof -
  have pc: "presenceContent sample_presence = Inr (TYPE_DESCRIPTOR, 0, ZERO32, Some [1, 2])"
    by (simp add: presenceContent_def sample_presence_def TYPE_DESCRIPTOR_def presenceBuf_def presence_sizes)
  obtain bdy where bdy: "encodeBody TYPE_DESCRIPTOR 20000 0 ZERO32 (Some [1, 2]) = Inr bdy"
    by (simp add: encodeBody_def ZERO32_def presence_sizes)
  then have bdyl: "length bdy = BODY_FIXED_BYTES + MAX_DESCRIPTOR_BYTES"
    using parseBody_encodeBody [OF bdy] by (simp add: ZERO32_def MAX_COUNTER_def)
  have fixed: "isFixed (presenceBuf (replicate 32 7)) 32" "length (bs_publicKey sample_signer) = 32"
    by (simp_all add: isFixed_def presenceBuf_def sample_signer_def)
  have hashed: "\<And>bss. length (ed_hash refEd bss) = 32"
    by (simp add: min_def)
  obtain val where val: "sealPresence refEd refSodium (replicate 16 4) (presenceBuf (replicate 32 7)) (bs_publicKey sample_signer) 20000 3 bdy = Inr val"
    "length val = PRESENCE_RECORD_SIZE"
    using sealPresence_exists [OF refsod.aead_axioms fixed hashed _ bdyl, of "replicate 16 4" 20000 3] by auto
  let ?rec = "\<lparr>rec_publicKey = bs_publicKey sample_signer, rec_seq = 3, rec_value = val\<rparr>"
  have enc: "encodePresenceRecord refEd refSodium (replicate 16 4) sample_presence = Inr ?rec"
    using fixed pc bdy val unfolding encodePresenceRecord_def
    by (simp add: sample_presence_def isFixed_def presenceBuf_def isUint64_def isUint32_def MAX_COUNTER_def MAX_UINT32_def)
  have "v_mutableSignable refW \<lparr>ms_seq = 3, ms_value = Some val\<rparr>"
    using val(2) by (simp add: v_mutableSignable_def v_uint_def v_buffer_def bytesOf_def presence_sizes)
  from codec_round_trip [OF ref.mutableSignable_codec this]
  obtain signable where "mutableSignableBytes presL 3 (Some val) = Inr signable"
    by (simp add: mutableSignableBytes_def presL_def refL_def refHelpers_def)
  then have "\<exists>sig. record_signMutable presL (\<lambda>m. signer_sign refEd sample_signer (presenceBuf m)) ?rec (JNum (int (rec_seq ?rec)))
      (presenceBuf (rec_value ?rec)) (presenceBuf (rec_publicKey ?rec)) = Inr sig"
    using val(2) fixed(2)
    by (simp add: record_signMutable_def isFixed_def presenceBuf_def signer_sign_def sample_signer_def signUnderBlinded_def Let_def)
  with enc show ?thesis by blast
qed

lemma presL_laws: "ed25519_laws refEd (sl_verify presL) refAct refAdd refBase canonicalScalar"
  using refed.ed25519_laws_axioms by (simp add: presL_def)

theorem presence_record_roundtrip_witness:
  "\<exists>rec sig. encodePresenceRecord refEd refSodium (replicate 16 4) sample_presence = Inr rec
    \<and> openPresenceRecord refEd refSodium presL (sample_open rec sig)
      = Inr \<lparr>pr_period = 20000, pr_revision = 3, pr_content = Descriptor [1, 2]\<rparr>"
proof -
  obtain rec sig where rec: "encodePresenceRecord refEd refSodium (replicate 16 4) sample_presence = Inr rec"
    and sig: "record_signMutable presL (\<lambda>m. signer_sign refEd sample_signer (presenceBuf m)) rec (JNum (int (rec_seq rec)))
        (presenceBuf (rec_value rec)) (presenceBuf (rec_publicKey rec)) = Inr sig"
    using sample_presence_published by blast
  have "\<exists>ty scope target d. presenceContent sample_presence = Inr (ty, scope, target, d)
    \<and> openPresenceRecord refEd refSodium presL (sample_open rec sig)
      = Inr \<lparr>pr_period = 20000, pr_revision = 3, pr_content = contentOfBody ty scope target d\<rparr>"
    using presence_record_roundtrip [OF refsod.aead_axioms presL_laws sample_signer_created _ _ _ rec sig]
    by (simp add: sample_presence_def sample_open_def)
  with rec show ?thesis
    by (force simp: presenceContent_def sample_presence_def TYPE_DESCRIPTOR_def presenceBuf_def presence_sizes contentOfBody_def bytesOf_def)
qed

theorem presence_open_authentic_witness:
  "\<exists>o' r A signable. openPresenceRecord refEd refSodium presL o' = Inr r \<and> pr_period r = 20000
    \<and> deriveBlindedPublicKey refEd (oo_identityPublicKey o') (oo_period o') = Inr A
    \<and> mutableSignableBytes presL (pr_revision r) (Some (bytesAt (oo_value o'))) = Inr signable
    \<and> refVerify (bytesAt (oo_signature o')) signable A"
proof -
  obtain rec sig where rec: "encodePresenceRecord refEd refSodium (replicate 16 4) sample_presence = Inr rec"
    and sig: "record_signMutable presL (\<lambda>m. signer_sign refEd sample_signer (presenceBuf m)) rec (JNum (int (rec_seq rec)))
        (presenceBuf (rec_value rec)) (presenceBuf (rec_publicKey rec)) = Inr sig"
    using sample_presence_published by blast
  obtain r where r: "openPresenceRecord refEd refSodium presL (sample_open rec sig) = Inr r" "pr_period r = 20000"
    using presence_record_opens [OF refsod.aead_axioms presL_laws sample_signer_created _ _ _ rec sig]
    by (auto simp: sample_presence_def sample_open_def)
  have v: "sl_verify presL = refVerify"
    by (simp add: presL_def)
  from presence_open_authentic [OF refsod.aead_axioms r(1)] r show ?thesis
    unfolding v by blast
qed

section \<open>The state of a reader\<close>

text \<open>What one reader goes through: each record it accepts replaces its state.\<close>

definition presence_step :: "presence_state \<Rightarrow> presence_state \<Rightarrow> bool" where
  "presence_step p q \<longleftrightarrow> (\<exists>opened digest. resolvePresenceState (Some p) opened digest = Inr q)"

definition presence_state_ok :: "presence_state \<Rightarrow> bool" where
  "presence_state_ok p \<longleftrightarrow> ps_period p \<le> MAX_COUNTER \<and> ps_revision p \<le> MAX_UINT32 \<and> length (ps_digest p) = 32"

definition presence_before :: "presence_state \<Rightarrow> presence_state \<Rightarrow> bool" where
  "presence_before p q \<longleftrightarrow> ps_period p < ps_period q \<or> ps_period p = ps_period q \<and>
     (ps_revision p < ps_revision q \<or> ps_revision p = ps_revision q \<and> ps_digest p = ps_digest q)"

lemma resolvePresenceState_key:
  assumes "resolvePresenceState previous opened digest = Inr q"
  shows "ps_period q = pr_period opened" "ps_revision q = pr_revision opened" "ps_digest q = digest" "presence_state_ok q"
  using assms
  by (auto simp: resolvePresenceState_def absent_def presence_state_ok_def Let_def split: if_splits presence_content.splits)

lemma presence_step_before:
  assumes "presence_step p q" "presence_state_ok p"
  shows "presence_before p q \<and> presence_state_ok q"
proof -
  from assms(1) obtain opened digest where r: "resolvePresenceState (Some p) opened digest = Inr q"
    by (auto simp: presence_step_def)
  note key = resolvePresenceState_key [OF r]
  have "\<not> pr_period opened < ps_period p"
    using r assms(2) by (auto simp: resolvePresenceState_def presence_state_ok_def split: if_splits)
  moreover have "ps_period p = pr_period opened \<Longrightarrow> ps_revision p < pr_revision opened \<or> ps_revision p = pr_revision opened \<and> ps_digest p = digest"
    using r assms(2) by (auto simp: resolvePresenceState_def presence_state_ok_def Let_def split: if_splits)
  ultimately show ?thesis
    using key by (auto simp: presence_before_def)
qed

lemma presence_before_trans: "presence_before p q \<Longrightarrow> presence_before q r \<Longrightarrow> presence_before p r"
  by (auto simp: presence_before_def)

lemma presence_before_refl: "presence_before p p"
  by (simp add: presence_before_def)

text \<open>
  no rollback. Over any sequence of accepted records the pair of period and revision a reader keeps
  never decreases lexicographically, and at an unchanged pair the record is the same: a stored older
  record, a stale tombstone or a second record of the same revision is never taken.
\<close>
theorem presence_never_goes_back:
  assumes "presence_step\<^sup>*\<^sup>* p q" "presence_state_ok p"
  shows "presence_before p q"
proof -
  from assms(1) have "presence_before p q \<and> presence_state_ok q"
  proof (induction rule: rtranclp_induct)
    case base
    show ?case using assms(2) by (simp add: presence_before_refl)
  next
    case (step q r)
    then show ?case
      using presence_step_before [of q r] presence_before_trans by blast
  qed
  then show ?thesis ..
qed

definition example_opened :: "nat \<Rightarrow> presence_content \<Rightarrow> opened_presence" where
  "example_opened r cont = \<lparr>pr_period = 5, pr_revision = r, pr_content = cont\<rparr>"

definition example_presence :: presence_state where
  "example_presence = absent (example_opened 1 (Tombstone SCOPE_PERIOD ZERO32)) (replicate 32 1)"

definition example_presence' :: presence_state where
  "example_presence' = absent (example_opened 2 (Tombstone SCOPE_PERIOD ZERO32)) (replicate 32 2)"

theorem presence_never_goes_back_witness:
  "presence_step\<^sup>*\<^sup>* example_presence example_presence' \<and> presence_before example_presence example_presence'"
proof -
  have "resolvePresenceState (Some example_presence) (example_opened 2 (Tombstone SCOPE_PERIOD ZERO32)) (replicate 32 2) = Inr example_presence'"
    by (simp add: resolvePresenceState_def example_opened_def example_presence_def example_presence'_def absent_def MAX_UINT32_def MAX_COUNTER_def
        SCOPE_PERIOD_def Let_def)
  then have "presence_step example_presence example_presence'"
    unfolding presence_step_def by blast
  then have step: "presence_step\<^sup>*\<^sup>* example_presence example_presence'" ..
  have "presence_state_ok example_presence"
    by (simp add: presence_state_ok_def example_presence_def absent_def example_opened_def MAX_UINT32_def MAX_COUNTER_def)
  from presence_never_goes_back [OF step this] step show ?thesis by simp
qed

end
