(* ===== verification/Overlay_Descriptor.thy ===== *)
theory Overlay_Descriptor
  imports Blinded_Presence
begin

text \<open>
  Route descriptors (\<^verbatim>\<open>lib/private/overlay-descriptor-service.js\<close>): the signed wire format and the
  plugin that stores descriptors on a node. The hash of \<^verbatim>\<open>lib/crypto.js\<close>, signature verification and
  hexadecimal notation are the fields of \<open>overlay_lib\<close> beside the Ed25519 primitives. Numbers that the
  code converts with \<open>BigInt\<close> are integers here; zeroization of released buffers is not modelled, since
  every stored or returned buffer is a private copy.
\<close>

section \<open>Constants and primitives\<close>

record overlay_lib =
  ol_ed :: ed25519
  ol_hash :: "bytes \<Rightarrow> bytes"
  ol_verify :: "bytes \<Rightarrow> bytes \<Rightarrow> bytes \<Rightarrow> bool"
  ol_hex :: "bytes \<Rightarrow> string"

definition COMMAND_GET :: nat where "COMMAND_GET = 0"
definition COMMAND_PUT :: nat where "COMMAND_PUT = 1"
definition COMMAND_CAPABILITY :: nat where "COMMAND_CAPABILITY = 2"
definition COMMAND_LOOKUP :: nat where "COMMAND_LOOKUP = 3"
definition DESCRIPTOR_VERSION :: nat where "DESCRIPTOR_VERSION = 3"
definition DESCRIPTOR_BYTES :: nat where "DESCRIPTOR_BYTES = 217"
definition DESCRIPTOR_BODY_BYTES :: nat where "DESCRIPTOR_BODY_BYTES = 153"
definition MAX_RECORDS :: nat where "MAX_RECORDS = 256"
definition MAX_REPLIES :: nat where "MAX_REPLIES = 8"
definition MIN_READ_QUORUM :: nat where "MIN_READ_QUORUM = 2"
definition MIN_WRITE_QUORUM :: nat where "MIN_WRITE_QUORUM = 3"
definition MAX_LIFETIME_MS :: int where "MAX_LIFETIME_MS = 15 * 60 * 1000"
definition DESCRIPTOR_DOMAIN :: bytes where "DESCRIPTOR_DOMAIN = utf8 ''hyperdht/private-route-descriptor/v3''"
definition DIRECTORY_SAMPLE_TARGETS :: nat where "DIRECTORY_SAMPLE_TARGETS = 3"
definition DIRECTORY_TTL_MS :: int where "DIRECTORY_TTL_MS = 5 * 60 * 1000"

definition RELAY_TARGETS :: "overlay_lib \<Rightarrow> bytes list" where
  "RELAY_TARGETS L = map (\<lambda>digit. ol_hash L (utf8 (''hyperdht/private-route-relays/v7/'' @ [digit]))) ''01234567''"

lemmas descriptor_sizes = DESCRIPTOR_BYTES_def DESCRIPTOR_BODY_BYTES_def DESCRIPTOR_VERSION_def

abbreviation unavailable :: crypto_failure where "unavailable \<equiv> RouteFailure ERR_PRIVACY_UNAVAILABLE"
abbreviation invalidRoute :: crypto_failure where "invalidRoute \<equiv> RouteFailure INVALID_ROUTE"

definition u64 :: "bytes \<Rightarrow> nat \<Rightarrow> nat" where
  "u64 buf offset = be_nat (take 8 (drop offset buf))"

definition putU64 :: "int \<Rightarrow> crypto_failure + bytes" where
  "putU64 v = (if v < 0 \<or> v > int MAX_COUNTER then Inl invalidRoute else Inr (be_bytes 8 (nat v)))"

definition signatureInput :: "bytes \<Rightarrow> bytes" where
  "signatureInput bdy = DESCRIPTOR_DOMAIN @ bdy"

section \<open>Targets\<close>

definition descriptorTarget :: "overlay_lib \<Rightarrow> jsval \<Rightarrow> nat \<Rightarrow> crypto_failure + bytes" where
  "descriptorTarget L destinationPublicKey period =
     bindE (deriveBlindedPublicKey (ol_ed L) destinationPublicKey (JBig (int period))) (\<lambda>blinded. Inr (ol_hash L blinded))"

definition blindedDescriptorTarget :: "overlay_lib \<Rightarrow> jsval \<Rightarrow> crypto_failure + bytes" where
  "blindedDescriptorTarget L blindedPublicKey =
     (if \<not> isFixed blindedPublicKey 32 then Inl invalidRoute else Inr (ol_hash L (bytesAt blindedPublicKey)))"

definition targetsForLookup :: "overlay_lib \<Rightarrow> jsval \<Rightarrow> jsval \<Rightarrow> crypto_failure + (nat \<times> bytes) list" where
  "targetsForLookup L destinationPublicKey now =
     bindE (lookupPeriods now) (mapE (\<lambda>period.
       bindE (descriptorTarget L destinationPublicKey period) (\<lambda>target. Inr (period, target))))"

section \<open>The wire format\<close>

record encode_options =
  eo_publicKey :: jsval
  eo_secretKey :: jsval
  eo_entryRelay :: jsval
  eo_guard :: jsval
  eo_routeToken :: jsval
  eo_seq :: int
  eo_expiresAt :: int
  eo_period :: int

definition encodeDescriptor :: "overlay_lib \<Rightarrow> encode_options \<Rightarrow> crypto_failure + bytes" where
  "encodeDescriptor L o' =
     (if \<not> isFixed (eo_publicKey o') 32 \<or> \<not> isFixed (eo_secretKey o') 64 \<or> \<not> isFixed (eo_entryRelay o') 32
         \<or> \<not> isFixed (eo_guard o') 32 \<or> \<not> isFixed (eo_routeToken o') 32
         \<or> bytesAt (eo_entryRelay o') = bytesAt (eo_guard o')
      then Inl invalidRoute
      else
        bindE (createBlindedSigner (ol_ed L) (eo_publicKey o') (eo_secretKey o') (JBig (eo_period o'))) (\<lambda>signer.
        bindE (putU64 (eo_period o')) (\<lambda>period.
        bindE (putU64 (eo_seq o')) (\<lambda>seq.
        bindE (putU64 (eo_expiresAt o')) (\<lambda>expiresAt.
          (let bdy = [word_of_nat DESCRIPTOR_VERSION] @ period @ bs_publicKey signer @ bytesAt (eo_entryRelay o')
                 @ bytesAt (eo_guard o') @ bytesAt (eo_routeToken o') @ seq @ expiresAt
           in bindE (signer_sign (ol_ed L) signer (presenceBuf (signatureInput bdy))) (\<lambda>signature. Inr (bdy @ signature))))))))"

record descriptor =
  d_wire :: bytes
  d_period :: nat
  d_blindedPublicKey :: bytes
  d_entryRelay :: bytes
  d_guard :: bytes
  d_routeToken :: bytes
  d_seq :: nat
  d_expiresAt :: nat

record decode_options =
  do_expectedPeriod :: "nat option"
  do_expectedDestination :: "jsval option"
  do_now :: int

definition expectedKey :: "overlay_lib \<Rightarrow> decode_options \<Rightarrow> descriptor \<Rightarrow> crypto_failure + unit" where
  "expectedKey L o' d =
     (case do_expectedDestination o' of
        None \<Rightarrow> Inr ()
      | Some pk \<Rightarrow>
          bindE (deriveBlindedPublicKey (ol_ed L) pk (JBig (int (d_period d)))) (\<lambda>expected.
            if d_blindedPublicKey d \<noteq> expected then Inl invalidRoute else Inr ()))"

definition descriptorFields :: "bytes \<Rightarrow> descriptor" where
  "descriptorFields wire =
     \<lparr>d_wire = wire, d_period = u64 wire 1, d_blindedPublicKey = take 32 (drop 9 wire), d_entryRelay = take 32 (drop 41 wire),
      d_guard = take 32 (drop 73 wire), d_routeToken = take 32 (drop 105 wire), d_seq = u64 wire 137, d_expiresAt = u64 wire 145\<rparr>"

definition descriptorSigned :: "overlay_lib \<Rightarrow> descriptor \<Rightarrow> bool" where
  "descriptorSigned L d \<longleftrightarrow>
     ol_verify L (drop DESCRIPTOR_BODY_BYTES (d_wire d)) (signatureInput (take DESCRIPTOR_BODY_BYTES (d_wire d))) (d_blindedPublicKey d)"

definition decodeDescriptor :: "overlay_lib \<Rightarrow> jsval \<Rightarrow> decode_options \<Rightarrow> crypto_failure + descriptor" where
  "decodeDescriptor L wire o' =
     (if \<not> isFixed wire DESCRIPTOR_BYTES \<or> unat (bytesAt wire ! 0) \<noteq> DESCRIPTOR_VERSION then Inl invalidRoute
      else (let d = descriptorFields (bytesAt wire)
        in if d_entryRelay d = d_guard d then Inl invalidRoute
           else if (case do_expectedPeriod o' of None \<Rightarrow> False | Some p \<Rightarrow> d_period d \<noteq> p) then Inl invalidRoute
           else bindE (expectedKey L o' d) (\<lambda>_.
             if \<not> descriptorSigned L d then Inl invalidRoute
             else if int (d_expiresAt d) \<le> do_now o' \<or> int (d_expiresAt d) - do_now o' > MAX_LIFETIME_MS then Inl unavailable
             else Inr d)))"

section \<open>The plugin of a storing node\<close>

text \<open>
  The records are a \<open>Map\<close>, kept in insertion order: the order decides which of two records with the same
  expiry is evicted.
\<close>

record descriptor_plugin =
  dp_relayPublicKey :: "bytes option"
  dp_records :: "(string \<times> descriptor) list"

definition DescriptorPlugin_new :: "bytes option \<Rightarrow> descriptor_plugin" where
  "DescriptorPlugin_new relayPublicKey = \<lparr>dp_relayPublicKey = relayPublicKey, dp_records = []\<rparr>"

definition dp_destroy :: "descriptor_plugin \<Rightarrow> descriptor_plugin" where
  "dp_destroy p = \<lparr>dp_relayPublicKey = None, dp_records = []\<rparr>"

definition dp_prune :: "int \<Rightarrow> descriptor_plugin \<Rightarrow> descriptor_plugin" where
  "dp_prune now p = p\<lparr>dp_records := filter (\<lambda>(_, d). int (d_expiresAt d) > now) (dp_records p)\<rparr>"

definition oldestOf :: "(string \<times> descriptor) list \<Rightarrow> (string \<times> nat) option" where
  "oldestOf records = fold (\<lambda>(k, d) oldest. case oldest of
       None \<Rightarrow> Some (k, d_expiresAt d)
     | Some (k', e) \<Rightarrow> if d_expiresAt d < e then Some (k, d_expiresAt d) else Some (k', e)) records None"

definition dp_evictOldest :: "descriptor_plugin \<Rightarrow> descriptor_plugin" where
  "dp_evictOldest p =
     (case oldestOf (dp_records p) of
        None \<Rightarrow> p
      | Some (k, _) \<Rightarrow> p\<lparr>dp_records := AList.delete k (dp_records p)\<rparr>)"

text \<open>
  The outer request of the node and the reply that is sent on it: the value and the flags for the token
  and the closer nodes. The storage routing is the function \<open>reply\<close>, and whether it is told to learn the
  requester is the last part of the result. The clock is read up to three times.
\<close>

record outer_request =
  oq_target :: jsval
  oq_token :: bool
  oq_command :: nat
  oq_value :: jsval

datatype outer_reply = OuterReply "bytes option" bool bool

type_synonym plugin_result = "descriptor_plugin \<times> (crypto_failure + outer_reply list) \<times> bool"

definition storeDescriptor :: "string \<Rightarrow> descriptor \<Rightarrow> descriptor_plugin \<Rightarrow> descriptor_plugin \<times> outer_reply list" where
  "storeDescriptor recordKey d p =
     (case map_of (dp_records p) recordKey of
        Some current \<Rightarrow>
          if d_seq d = d_seq current \<and> d_wire d \<noteq> d_wire current then (p, [])
          else (if d_seq d > d_seq current then p\<lparr>dp_records := AList.update recordKey d (dp_records p)\<rparr> else p,
                [OuterReply None False False])
      | None \<Rightarrow>
          (let p' = (if length (dp_records p) \<ge> MAX_RECORDS then dp_evictOldest p else p)
           in (p'\<lparr>dp_records := AList.update recordKey d (dp_records p')\<rparr>, [OuterReply None False False])))"

definition dp_put :: "overlay_lib \<Rightarrow> (nat \<Rightarrow> int) \<Rightarrow> outer_request \<Rightarrow> descriptor_plugin \<Rightarrow> descriptor_plugin \<times> outer_reply list" where
  "dp_put L clock req p =
     (case bindE (periodOf (JNum (clock 2))) (\<lambda>period.
            bindE (decodeDescriptor L (oq_value req) \<lparr>do_expectedPeriod = Some period, do_expectedDestination = None, do_now = clock 1\<rparr>) (\<lambda>d.
            bindE (blindedDescriptorTarget L (presenceBuf (d_blindedPublicKey d))) (\<lambda>target. Inr (d, target)))) of
        Inl _ \<Rightarrow> (p, [])
      | Inr (d, target) \<Rightarrow>
          if target \<noteq> bytesAt (oq_target req) then (p, [])
          else storeDescriptor (ol_hex L (bytesAt (oq_target req))) d p)"

definition dp_lookup :: "overlay_lib \<Rightarrow> (bytes \<Rightarrow> bytes option \<Rightarrow> crypto_failure + bytes option) \<Rightarrow> outer_request \<Rightarrow> descriptor_plugin \<Rightarrow> plugin_result" where
  "dp_lookup L reply req p =
     (if \<not> isFixed (oq_value req) 1 \<or> unat (bytesAt (oq_value req) ! 0) > 1 then (p, Inr [], False)
      else (case reply (bytesAt (oq_target req)) (map_option d_wire (map_of (dp_records p) (ol_hex L (bytesAt (oq_target req))))) of
        Inl e \<Rightarrow> (p, Inl e, False)
      | Inr v \<Rightarrow> (p, Inr [OuterReply v True False], v \<noteq> None \<and> unat (bytesAt (oq_value req) ! 0) = 1)))"

definition dp_onrequest :: "overlay_lib \<Rightarrow> (bytes \<Rightarrow> bytes option \<Rightarrow> crypto_failure + bytes option) \<Rightarrow> (nat \<Rightarrow> int) \<Rightarrow>
    outer_request \<Rightarrow> descriptor_plugin \<Rightarrow> plugin_result" where
  "dp_onrequest L reply clock req p =
     (if oq_command req = COMMAND_CAPABILITY then
        (p, Inr (case dp_relayPublicKey p of
           None \<Rightarrow> []
         | Some pk \<Rightarrow> if (case oq_target req of JBuf t \<Rightarrow> content t \<in> set (RELAY_TARGETS L) | _ \<Rightarrow> False) then [OuterReply (Some pk) True True] else []), False)
      else if \<not> isFixed (oq_target req) 32 then (p, Inr [], False)
      else (let p = dp_prune (clock 0) p; recordKey = ol_hex L (bytesAt (oq_target req))
        in if oq_command req = COMMAND_LOOKUP then dp_lookup L reply req p
           else if oq_command req = COMMAND_GET then
             (p, Inr [OuterReply (map_option d_wire (map_of (dp_records p) recordKey)) True True], False)
           else if oq_command req \<noteq> COMMAND_PUT \<or> \<not> oq_token req \<or> bufferLength (oq_value req) < 0 then (p, Inr [], False)
           else (let (p', rs) = dp_put L clock req p in (p', Inr rs, False))))"

end
