(* ===== verification/Overlay_Service.thy ===== *)
theory Overlay_Service
  imports Overlay_Descriptor "HOL-Library.List_Lexorder"
begin

text \<open>
  The client half of \<^verbatim>\<open>lib/private/overlay-descriptor-service.js\<close>: sampling the relay directory, reading a
  descriptor by quorum, publishing one, and the operations that own the queries and requests in flight.
  What the network delivers is an explicit sequence: a query is the list of its replies in arrival order,
  each with the clock and the outcome of the operation's \<open>check\<close> at that moment.
\<close>

section \<open>Sampling by secret rank\<close>

text \<open>
  One candidate is offered to a bounded sample that is sorted by falling rank. The rank is the keyed hash
  of the candidate, compared bytewise; \<open>sort\<close> is stable. The same loop is in \<open>_sampleDirectoryTarget\<close> and
  in the \<open>_bootstrap\<close> of the storage routing.
\<close>

definition sortDescending :: "('a \<Rightarrow> bytes) \<Rightarrow> 'a list \<Rightarrow> 'a list" where
  "sortDescending rank xs = rev (sort_key rank (rev xs))"

definition offerSample :: "nat \<Rightarrow> ('a \<Rightarrow> string) \<Rightarrow> ('a \<Rightarrow> bytes) \<Rightarrow> 'a \<Rightarrow> 'a list \<Rightarrow> 'a list" where
  "offerSample limit key rank x sample =
     (if key x \<in> key ` set sample then sample
      else if length sample = limit \<and> \<not> rank x < rank (sample ! 0) then sample
      else sortDescending rank ((if length sample = limit then drop 1 sample else sample) @ [x]))"

definition sampleCandidates :: "nat \<Rightarrow> ('a \<Rightarrow> string) \<Rightarrow> ('a \<Rightarrow> bytes) \<Rightarrow> 'a list \<Rightarrow> 'a list" where
  "sampleCandidates limit key rank xs = fold (offerSample limit key rank) xs []"

text \<open>The peers of a lookup reply whose public key is well formed, in order.\<close>

definition peerKeys :: "jsval list list \<Rightarrow> bytes list" where
  "peerKeys replies = map bytesAt (filter (\<lambda>pk. isFixed pk 32) (concat replies))"

definition sampleDirectoryTarget :: "overlay_lib \<Rightarrow> (bytes \<Rightarrow> bytes) \<Rightarrow> jsval list list \<Rightarrow> bytes list" where
  "sampleDirectoryTarget L rank replies = sampleCandidates MAX_REPLIES (ol_hex L) rank (peerKeys replies)"

section \<open>The relay directory\<close>

record directory_state =
  dy_directory :: "bytes list"
  dy_expiresAt :: int
  dy_generation :: nat
  dy_closed :: bool
  dy_suspended :: bool

text \<open>The partial shuffle: \<open>draws i\<close> is the uniform number below \<open>length - i\<close>.\<close>

fun shuffleTargets :: "(nat \<Rightarrow> nat) \<Rightarrow> nat \<Rightarrow> nat \<Rightarrow> 'a list \<Rightarrow> 'a list" where
  "shuffleTargets draws i 0 ts = ts"
| "shuffleTargets draws i (Suc n) ts =
     (let s = i + draws i in shuffleTargets draws (Suc i) n (ts[i := ts ! s, s := ts ! i]))"

definition directoryTargets :: "overlay_lib \<Rightarrow> (nat \<Rightarrow> nat) \<Rightarrow> bytes list" where
  "directoryTargets L draws = take DIRECTORY_SAMPLE_TARGETS (shuffleTargets draws 0 DIRECTORY_SAMPLE_TARGETS (RELAY_TARGETS L))"

text \<open>The settled samples are merged: the first key of each hexadecimal name stays.\<close>

definition mergeSamples :: "overlay_lib \<Rightarrow> bytes list option list \<Rightarrow> bytes list" where
  "mergeSamples L replies =
     fold (\<lambda>pk found. if ol_hex L pk \<in> ol_hex L ` set found then found else found @ [pk])
       (concat (map (case_option [] id) replies)) []"

definition collectDirectory :: "overlay_lib \<Rightarrow> int \<Rightarrow> nat \<Rightarrow> bytes list option list \<Rightarrow> directory_state \<Rightarrow>
    directory_state \<times> (crypto_failure + unit)" where
  "collectDirectory L now generation replies s =
     (if dy_closed s \<or> dy_suspended s \<or> generation \<noteq> dy_generation s \<or> list_all (\<lambda>r. r = None) replies
      then (s, Inl unavailable)
      else (s\<lparr>dy_directory := mergeSamples L replies, dy_expiresAt := now + DIRECTORY_TTL_MS\<rparr>, Inr ()))"

definition discoverRelays :: "overlay_lib \<Rightarrow> bytes list \<Rightarrow> directory_state \<Rightarrow> crypto_failure + bytes list" where
  "discoverRelays L excluded s =
     (if dy_closed s \<or> dy_suspended s then Inl unavailable
      else Inr (filter (\<lambda>pk. ol_hex L pk \<notin> ol_hex L ` set excluded) (dy_directory s)))"

definition dy_suspend :: "directory_state \<Rightarrow> directory_state" where
  "dy_suspend s = s\<lparr>dy_suspended := True, dy_generation := Suc (dy_generation s), dy_expiresAt := 0\<rparr>"

definition dy_resume :: "directory_state \<Rightarrow> directory_state" where
  "dy_resume s = (if dy_closed s then s else s\<lparr>dy_suspended := False\<rparr>)"

definition dy_destroy :: "directory_state \<Rightarrow> directory_state" where
  "dy_destroy s = s\<lparr>dy_closed := True, dy_generation := Suc (dy_generation s), dy_directory := []\<rparr>"

section \<open>Reading by quorum\<close>

record read_reply =
  rr_check :: "crypto_failure + unit"
  rr_value :: jsval
  rr_from :: "string option"
  rr_now :: int

record read_options =
  ro_expectedPeriod :: "nat option"
  ro_expectedDestination :: "jsval option"
  ro_expectedWire :: "bytes option"

record read_state =
  rs_candidates :: "(string \<times> descriptor \<times> nat) list"
  rs_respondents :: "string list"

definition readDescriptor :: "overlay_lib \<Rightarrow> read_options \<Rightarrow> read_reply \<Rightarrow> descriptor option" where
  "readDescriptor L o' r =
     (case decodeDescriptor L (rr_value r) \<lparr>do_expectedPeriod = ro_expectedPeriod o',
          do_expectedDestination = ro_expectedDestination o', do_now = rr_now r\<rparr> of
        Inl _ \<Rightarrow> None
      | Inr d \<Rightarrow> if (case ro_expectedWire o' of None \<Rightarrow> False | Some w \<Rightarrow> w \<noteq> d_wire d) then None else Some d)"

text \<open>One reply: it may be skipped, counted, or complete the quorum with the candidate's descriptor.\<close>

definition countReply :: "overlay_lib \<Rightarrow> read_options \<Rightarrow> read_reply \<Rightarrow> read_state \<Rightarrow> read_state \<times> descriptor option" where
  "countReply L o' r s =
     (if bufferLength (rr_value r) < 0 then (s, None)
      else if (case rr_from r of None \<Rightarrow> False | Some a \<Rightarrow> a \<in> set (rs_respondents s)) then (s, None)
      else (case readDescriptor L o' r of
        None \<Rightarrow> (s, None)
      | Some d \<Rightarrow>
          (let s = s\<lparr>rs_respondents := (case rr_from r of None \<Rightarrow> rs_respondents s | Some a \<Rightarrow> a # rs_respondents s)\<rparr>;
               (first, n) = (case map_of (rs_candidates s) (ol_hex L (d_wire d)) of None \<Rightarrow> (d, 1) | Some (c, k) \<Rightarrow> (c, k + 1))
           in (s\<lparr>rs_candidates := AList.update (ol_hex L (d_wire d)) (first, n) (rs_candidates s)\<rparr>,
               if n \<ge> MIN_READ_QUORUM then Some first else None))))"

text \<open>
  The loop over the replies; \<open>ended\<close> is the failure of the query or of the last check.
\<close>

fun readReplies :: "overlay_lib \<Rightarrow> read_options \<Rightarrow> crypto_failure + unit \<Rightarrow> read_reply list \<Rightarrow> read_state \<Rightarrow> crypto_failure + descriptor option" where
  "readReplies L o' ended [] s = bindE ended (\<lambda>_. Inr None)"
| "readReplies L o' ended (r # rs) s =
     bindE (rr_check r) (\<lambda>_.
       (case countReply L o' r s of
          (s', Some d) \<Rightarrow> Inr (Some d)
        | (s', None) \<Rightarrow> readReplies L o' ended rs s'))"

definition readTarget :: "overlay_lib \<Rightarrow> read_options \<Rightarrow> crypto_failure + unit \<Rightarrow> read_reply list \<Rightarrow> crypto_failure + descriptor option" where
  "readTarget L o' ended rs = readReplies L o' ended rs \<lparr>rs_candidates = [], rs_respondents = []\<rparr>"

text \<open>\<open>get\<close>: the freshest of the descriptors of the periods that are looked up.\<close>

fun bestOf :: "descriptor option \<Rightarrow> (crypto_failure + descriptor option) list \<Rightarrow> crypto_failure + descriptor option" where
  "bestOf best [] = Inr best"
| "bestOf best (Inl e # rs) = Inl e"
| "bestOf best (Inr None # rs) = bestOf best rs"
| "bestOf best (Inr (Some d) # rs) =
     bestOf (case best of None \<Rightarrow> Some d | Some b \<Rightarrow> if d_seq d > d_seq b then Some d else Some b) rs"

text \<open>The arguments are what the query of each target delivers and the last check of the operation.\<close>

definition overlay_get :: "overlay_lib \<Rightarrow> jsval \<Rightarrow> jsval \<Rightarrow> (bytes \<Rightarrow> (crypto_failure + unit) \<times> read_reply list) \<Rightarrow>
    crypto_failure + unit \<Rightarrow> crypto_failure + descriptor" where
  "overlay_get L destinationPublicKey now network check =
     (if \<not> isFixed destinationPublicKey 32 then Inl invalidRoute
      else
        bindE (targetsForLookup L destinationPublicKey now) (\<lambda>targets.
        bindE (bestOf None (map (\<lambda>(period, target).
            readTarget L \<lparr>ro_expectedPeriod = Some period, ro_expectedDestination = Some destinationPublicKey, ro_expectedWire = None\<rparr>
              (fst (network target)) (snd (network target))) targets)) (\<lambda>best.
        bindE check (\<lambda>_.
          (case best of None \<Rightarrow> Inl unavailable | Some d \<Rightarrow> Inr d)))))"

definition getByTarget :: "overlay_lib \<Rightarrow> jsval \<Rightarrow> nat \<Rightarrow> jsval \<Rightarrow> (crypto_failure + unit) \<times> read_reply list \<Rightarrow>
    crypto_failure + unit \<Rightarrow> crypto_failure + descriptor" where
  "getByTarget L target period now network check =
     (if \<not> isFixed target 32 then Inl invalidRoute
      else
        bindE (lookupPeriods now) (\<lambda>periods.
          if period \<notin> set periods then Inl invalidRoute
          else
            bindE (readTarget L \<lparr>ro_expectedPeriod = Some period, ro_expectedDestination = None, ro_expectedWire = None\<rparr> (fst network) (snd network)) (\<lambda>r.
            bindE check (\<lambda>_.
              (case r of
                 None \<Rightarrow> Inl unavailable
               | Some d \<Rightarrow>
                   bindE (blindedDescriptorTarget L (presenceBuf (d_blindedPublicKey d))) (\<lambda>actual.
                     if bytesAt target \<noteq> actual then Inl invalidRoute else Inr d))))))"

section \<open>Publishing\<close>

text \<open>A reply among the closest of the finished query: the endpoint it came from and its token.\<close>

record closest_reply =
  cr_from :: "string option"
  cr_token :: jsval

fun selectCandidates :: "closest_reply list \<Rightarrow> (string \<times> bytes) list \<Rightarrow> (string \<times> bytes) list" where
  "selectCandidates [] acc = acc"
| "selectCandidates (r # rs) acc =
     (case cr_from r of
        None \<Rightarrow> selectCandidates rs acc
      | Some a \<Rightarrow>
          if \<not> isFixed (cr_token r) 32 \<or> a \<in> fst ` set acc then selectCandidates rs acc
          else (let acc = acc @ [(a, bytesAt (cr_token r))] in if length acc \<ge> MAX_REPLIES then acc else selectCandidates rs acc))"

text \<open>
  \<open>put\<close>: \<open>queried\<close> is the finished query (its failure, or its closest replies), \<open>acked\<close> says which of the
  writes were acknowledged, \<open>pn_checks\<close> are the checks of the operation after the query, after the
  writes and at the end, and the last argument is what the chosen nodes answer when they are read back.
\<close>

record put_network =
  pn_queried :: "crypto_failure + closest_reply list"
  pn_acked :: "string \<Rightarrow> bool"
  pn_checks :: "(crypto_failure + unit) \<times> (crypto_failure + unit) \<times> (crypto_failure + unit)"
  pn_readback :: "(string \<times> bytes) list \<Rightarrow> (crypto_failure + unit) \<times> read_reply list"

definition overlay_put :: "overlay_lib \<Rightarrow> (nat \<Rightarrow> int) \<Rightarrow> put_network \<Rightarrow> jsval \<Rightarrow> crypto_failure + nat" where
  "overlay_put L clock net wire =
     (let (c1, c2, c3) = pn_checks net
      in bindE (periodOf (JNum (clock 1))) (\<lambda>period.
         bindE (decodeDescriptor L wire \<lparr>do_expectedPeriod = Some period, do_expectedDestination = None, do_now = clock 0\<rparr>) (\<lambda>d.
         bindE (blindedDescriptorTarget L (presenceBuf (d_blindedPublicKey d))) (\<lambda>target.
         bindE (pn_queried net) (\<lambda>closest.
         bindE c1 (\<lambda>_.
         (let candidates = selectCandidates closest []; stored = length (filter (\<lambda>(a, _). pn_acked net a) candidates)
          in if length candidates < MIN_WRITE_QUORUM then Inl unavailable
             else bindE c2 (\<lambda>_.
               if stored < MIN_WRITE_QUORUM then Inl unavailable
               else
                 bindE (readTarget L \<lparr>ro_expectedPeriod = Some (d_period d), ro_expectedDestination = None, ro_expectedWire = Some (d_wire d)\<rparr>
                     (fst (pn_readback net candidates)) (snd (pn_readback net candidates))) (\<lambda>readback.
                 bindE c3 (\<lambda>_.
                   (case readback of
                      None \<Rightarrow> Inl unavailable
                    | Some b \<Rightarrow> if d_wire b \<noteq> d_wire d then Inl unavailable else Inr stored)))))))))))"

end
