(* ===== verification/Overlay_Sampling.thy ===== *)
theory Overlay_Sampling
  imports Overlay_Service
begin

text \<open>
  What the client half of the descriptor service computes: the sampling loop keeps the candidates of
  lowest rank whatever the order and number of replies, and a read returns the first descriptor that two
  respondents agree on.
\<close>

section \<open>Sampling\<close>

lemma take_insort_less:
  "sorted (map f zs) \<Longrightarrow> n < length zs \<Longrightarrow> f x < f (zs ! n) \<Longrightarrow> take (Suc n) (insort_key f x zs) = insort_key f x (take n zs)"
proof (induction zs arbitrary: n)
  case (Cons z zs)
  then show ?case
    by (cases n) auto
qed simp

lemma take_insort_greater:
  "sorted (map f zs) \<Longrightarrow> n < length zs \<Longrightarrow> f (zs ! n) < f x \<Longrightarrow> take (Suc n) (insort_key f x zs) = take (Suc n) zs"
proof (induction zs arbitrary: n)
  case (Cons z zs)
  show ?case
  proof (cases n)
    case 0
    with Cons.prems show ?thesis by auto
  next
    case (Suc m)
    have "f z \<le> f (zs ! m)"
      using Cons.prems Suc by (simp add: nth_mem)
    also have "f (zs ! m) < f x"
      using Cons.prems Suc by simp
    finally have "\<not> f x \<le> f z"
      by (simp add: not_le)
    with Suc Cons show ?thesis by simp
  qed
qed simp

lemma sort_key_remdups_set:
  assumes "inj_on f (set xs)" "set xs = set ys"
  shows "sort_key f (remdups xs) = sort_key f (remdups ys)"
proof (rule map_sorted_distinct_set_unique [where f = f])
  show "inj_on f (set (sort_key f (remdups xs)) \<union> set (sort_key f (remdups ys)))"
    using assms by simp
qed (use assms in \<open>simp_all add: distinct_map\<close>)

lemma sort_key_remdups_snoc:
  assumes "inj_on f (insert x (set ys))" "x \<notin> set ys"
  shows "sort_key f (remdups (ys @ [x])) = insort_key f x (sort_key f (remdups ys))"
proof -
  have "sort_key f (remdups (ys @ [x])) = sort_key f (remdups (x # ys))"
    using assms(1) by (intro sort_key_remdups_set) auto
  then show ?thesis
    using assms(2) by simp
qed

lemma sortDescending_snoc:
  assumes "sorted (map f zs)"
  shows "sortDescending f (rev zs @ [x]) = rev (insort_key f x zs)"
  using assms by (simp add: sortDescending_def sort_key_id_if_sorted)

lemma offerSample_step:
  assumes n: "0 < n" and inj: "inj_on rank (insert x (set ys))" "inj_on key (insert x (set ys))"
  defines "ref \<equiv> \<lambda>zs. rev (take n (sort_key rank (remdups zs)))"
  shows "offerSample n key rank x (ref ys) = ref (ys @ [x])"
proof -
  define Z where "Z = sort_key rank (remdups ys)"
  have Z: "sorted (map rank Z)" "set Z = set ys" "distinct Z"
    by (simp_all add: Z_def)
  have S: "ref ys = rev (take n Z)"
    by (simp add: ref_def Z_def)
  have key: "key x \<in> key ` set (ref ys) \<longleftrightarrow> x \<in> set (take n Z)"
    using inj(2) Z(2) in_set_takeD [of _ n Z] unfolding S by (force simp: inj_on_def)
  have first: "ref ys ! 0 = Z ! (n - 1)" if "length Z \<ge> n"
    using that n unfolding S by (simp add: rev_nth)
  have len: "length (ref ys) = n \<longleftrightarrow> length Z \<ge> n"
    unfolding S by auto
  show ?thesis
  proof (cases "x \<in> set ys")
    case True
    then have same: "ref (ys @ [x]) = ref ys"
      unfolding ref_def using inj(1) by (subst sort_key_remdups_set [of rank ys "ys @ [x]"]) (auto simp: insert_absorb)
    have "length Z \<ge> n \<and> \<not> rank x < rank (Z ! (n - 1))" if out: "x \<notin> set (take n Z)"
    proof -
      from True Z(2) obtain i where i: "i < length Z" "Z ! i = x"
        by (metis in_set_conv_nth)
      with out have "n \<le> i"
        by (metis in_set_conv_nth length_take linorder_not_less min_less_iff_conj nth_take)
      moreover from this have "rank (Z ! (n - 1)) \<le> rank x"
        using sorted_nth_mono [OF Z(1), of "n - 1" i] i n by simp
      ultimately show ?thesis
        using i by (simp add: not_less)
    qed
    then show ?thesis
      unfolding same offerSample_def key len using first by auto
  next
    case False
    then have next': "ref (ys @ [x]) = rev (take n (insort_key rank x Z))"
      unfolding ref_def Z_def using sort_key_remdups_snoc [OF inj(1)] by simp
    have notin: "x \<notin> set (take n Z)"
      using False Z(2) in_set_takeD by fastforce
    show ?thesis
    proof (cases "length Z \<ge> n")
      case True
      then obtain m where m: "n = Suc m" "m < length Z"
        using n by (cases n) auto
      have "Z ! m \<in> set ys"
        using m Z(2) nth_mem by blast
      with False inj(1) have "rank x \<noteq> rank (Z ! m)"
        by (auto simp: inj_on_def)
      then consider "rank x < rank (Z ! m)" | "rank (Z ! m) < rank x"
        by (meson linorder_neqE)
      then show ?thesis
      proof cases
        case 1
        have "drop 1 (ref ys) = rev (take m Z)"
          unfolding S m(1) using m(2) by (simp add: take_Suc_conv_app_nth)
        moreover have "sorted (map rank (take m Z))"
          using Z(1) by (simp add: sorted_wrt_take flip: take_map)
        ultimately have "offerSample n key rank x (ref ys) = rev (insort_key rank x (take m Z))"
          unfolding offerSample_def key len using notin True first 1 m(1) by (simp add: sortDescending_snoc)
        then show ?thesis
          unfolding next' m(1) take_insort_less [OF Z(1) m(2) 1] .
      next
        case 2
        then have "\<not> rank x < rank (Z ! m)" by simp
        then show ?thesis
          unfolding next' offerSample_def key len using notin True first m take_insort_greater [OF Z(1) m(2) 2]
          by (simp add: S)
      qed
    next
      case False
      then have "ref ys = rev Z" "take n (insort_key rank x Z) = insort_key rank x Z"
        unfolding S by simp_all
      then show ?thesis
        unfolding next' offerSample_def key len using notin False sortDescending_snoc [OF Z(1)] by simp
    qed
  qed
qed

text \<open>
  C22: an unbiased sample. The sampling loop ends with exactly the candidates of lowest rank, once each, in
  falling order of rank: neither the order in which replies arrive nor how often a candidate is repeated
  has any influence, as long as names and ranks do not collide.
\<close>
theorem sample_is_lowest_ranks:
  assumes "0 < limit" "inj_on rank (set xs)" "inj_on key (set xs)"
  shows "sampleCandidates limit key rank xs = rev (take limit (sort_key rank (remdups xs)))"
  using assms(2,3)
proof (induction xs rule: rev_induct)
  case (snoc x ys)
  then have "sampleCandidates limit key rank ys = rev (take limit (sort_key rank (remdups ys)))"
    by simp
  moreover have "inj_on rank (insert x (set ys))" "inj_on key (insert x (set ys))"
    using snoc.prems by simp_all
  ultimately show ?case
    using offerSample_step [OF assms(1)] by (simp add: sampleCandidates_def)
qed (simp add: sampleCandidates_def)

theorem sample_is_lowest_ranks_witness:
  "sampleCandidates 2 (map (\<lambda>b. CHR ''a'')) id [[5], [1 :: byte, 1], [5], [3, 3, 3], [1, 1]] = [[3, 3, 3], [1, 1]]"
proof -
  have "inj_on (map (\<lambda>b :: byte. CHR ''a'')) (set [[5], [1 :: byte, 1], [5], [3, 3, 3], [1, 1]])"
    by (auto simp: inj_on_def)
  from sample_is_lowest_ranks [OF _ _ this, of 2 id] show ?thesis
    by simp
qed

section \<open>Reading by quorum\<close>

text \<open>
  The reference: every respondent has one vote, its first reply that decodes to an acceptable descriptor
  (replies without an address vote each), and the descriptor read is the first that gets a second vote.
\<close>

fun votes :: "overlay_lib \<Rightarrow> read_options \<Rightarrow> string set \<Rightarrow> read_reply list \<Rightarrow> descriptor list" where
  "votes L o' voted [] = []"
| "votes L o' voted (r # rs) =
     (case readDescriptor L o' r of
        None \<Rightarrow> votes L o' voted rs
      | Some d \<Rightarrow> if set_option (rr_from r) \<subseteq> voted \<and> rr_from r \<noteq> None then votes L o' voted rs
          else d # votes L o' (voted \<union> set_option (rr_from r)) rs)"

fun firstRepeated :: "'a set \<Rightarrow> 'a list \<Rightarrow> 'a option" where
  "firstRepeated seen [] = None"
| "firstRepeated seen (x # xs) = (if x \<in> seen then Some x else firstRepeated (insert x seen) xs)"

lemma decodeDescriptor_Inr:
  assumes "decodeDescriptor L wire o' = Inr d"
  shows "d = descriptorFields (bytesAt wire)" "d_wire d = bytesAt wire" "isFixed wire DESCRIPTOR_BYTES" "descriptorSigned L d"
    "do_now o' < int (d_expiresAt d)" "int (d_expiresAt d) \<le> do_now o' + MAX_LIFETIME_MS"
    "unat (bytesAt wire ! 0) = DESCRIPTOR_VERSION" "\<forall>p\<in>set_option (do_expectedPeriod o'). d_period d = p"
  using assms by (auto simp: decodeDescriptor_def Let_def bindE_Inr descriptorFields_def split: if_splits option.splits)

lemma readDescriptor_Some:
  assumes "readDescriptor L o' r = Some d"
  shows "d = descriptorFields (bytesAt (rr_value r))" "d_wire d = bytesAt (rr_value r)" "0 \<le> bufferLength (rr_value r)" "descriptorSigned L d"
proof -
  from assms obtain opts where "decodeDescriptor L (rr_value r) opts = Inr d"
    by (auto simp: readDescriptor_def split: sum.splits if_splits option.splits)
  from decodeDescriptor_Inr [OF this] show "d = descriptorFields (bytesAt (rr_value r))" "d_wire d = bytesAt (rr_value r)"
    "0 \<le> bufferLength (rr_value r)" "descriptorSigned L d"
    by (auto simp: isFixed_def split: jsval.splits)
qed

lemma readDescriptor_wire: "readDescriptor L o' r = Some d \<Longrightarrow> readDescriptor L o'' r' = Some d' \<Longrightarrow> d_wire d = d_wire d' \<Longrightarrow> d = d'"
  using readDescriptor_Some(1,2) by metis

lemma readReplies_votes:
  assumes "inj (ol_hex L)" "\<And>d d'. d \<in> seen \<Longrightarrow> d' = descriptorFields (d_wire d) \<Longrightarrow> d' = d"
    and "\<And>k v. map_of (rs_candidates s) k = Some v \<longleftrightarrow> (\<exists>d\<in>seen. k = ol_hex L (d_wire d) \<and> v = (d, 1))"
    and "list_all (\<lambda>r. rr_check r = Inr ()) rs"
  shows "readReplies L o' (Inr ()) rs s = Inr (firstRepeated seen (votes L o' (set (rs_respondents s)) rs))"
  using assms(2-4)
proof (induction rs arbitrary: s seen)
  case Nil
  then show ?case by simp
next
  case (Cons r rs)
  show ?case
  proof (cases "readDescriptor L o' r")
    case None
    then have "countReply L o' r s = (s, None)"
      by (simp add: countReply_def)
    with None Cons show ?thesis by simp
  next
    case (Some d)
    note d = readDescriptor_Some [OF Some]
    show ?thesis
    proof (cases "rr_from r \<noteq> None \<and> set_option (rr_from r) \<subseteq> set (rs_respondents s)")
      case True
      then have "countReply L o' r s = (s, None)"
        by (auto simp: countReply_def split: option.splits)
      with True Some Cons show ?thesis by simp
    next
      case False
      then have fresh: "\<not> (case rr_from r of None \<Rightarrow> False | Some a \<Rightarrow> a \<in> set (rs_respondents s))"
        by (auto split: option.splits)
      let ?k = "ol_hex L (d_wire d)" and ?resp = "case rr_from r of None \<Rightarrow> rs_respondents s | Some a \<Rightarrow> a # rs_respondents s"
      have resp: "set ?resp = set (rs_respondents s) \<union> set_option (rr_from r)"
        by (auto split: option.splits)
      have known: "map_of (rs_candidates s) ?k = (if d \<in> seen then Some (d, 1) else None)"
      proof -
        have "d' = d" if "d' \<in> seen" "?k = ol_hex L (d_wire d')" for d'
          using Cons.prems(1) [OF that(1), of d] d(1,2) injD [OF assms(1) that(2)] by simp
        then have "d \<in> seen" if "map_of (rs_candidates s) ?k = Some v" for v
          using Cons.prems(2) [of ?k v] that by blast
        moreover have "map_of (rs_candidates s) ?k = Some (d, 1)" if "d \<in> seen"
          using Cons.prems(2) [of ?k "(d, 1)"] that by blast
        ultimately show ?thesis
          by (cases "map_of (rs_candidates s) ?k") auto
      qed
      show ?thesis
      proof (cases "d \<in> seen")
        case True
        then have "snd (countReply L o' r s) = Some d"
          using d(3) fresh Some known by (simp add: countReply_def MIN_READ_QUORUM_def Let_def)
        then show ?thesis
          using False Some True Cons.prems(3) by (auto split: prod.splits)
      next
        case new: False
        let ?s = "s\<lparr>rs_respondents := ?resp, rs_candidates := AList.update ?k (d, 1) (rs_candidates s)\<rparr>"
        have "countReply L o' r s = (?s, None)"
          using d(3) fresh Some known new by (simp add: countReply_def MIN_READ_QUORUM_def Let_def)
        moreover have "readReplies L o' (Inr ()) rs ?s = Inr (firstRepeated (insert d seen) (votes L o' (set (rs_respondents ?s)) rs))"
        proof (rule Cons.IH)
          show "map_of (rs_candidates ?s) k = Some v \<longleftrightarrow> (\<exists>d'\<in>insert d seen. k = ol_hex L (d_wire d') \<and> v = (d', 1))" for k v
            using Cons.prems(2) [of k v] known new by (auto simp: update_conv')
        qed (use Cons.prems d in auto)
        ultimately show ?thesis
          using False Some new Cons.prems(3) resp by auto
      qed
    qed
  qed
qed

end
