(* ===== verification/Overlay_Properties.thy ===== *)
theory Overlay_Properties
  imports Overlay_Sampling Presence_Properties
begin

text \<open>
  What route descriptors promise: an encoded descriptor decodes to its fields, a storing node keeps only
  signed descriptors under the hash of their blinded key, never more than its capacity, never replaces
  one by an older one, and gives back what was put; a client reads by quorum.
\<close>

section \<open>The wire format\<close>

lemma putU64_Inr: "putU64 v = Inr bs \<longleftrightarrow> 0 \<le> v \<and> v \<le> int MAX_COUNTER \<and> bs = be_bytes 8 (nat v)"
  by (auto simp: putU64_def)

lemma descriptor_decodes:
  assumes "ed25519_laws (ol_ed L) (ol_verify L) act padd B inGroup" "encodeDescriptor L o' = Inr wire"
    and "now < eo_expiresAt o'" "eo_expiresAt o' \<le> now + MAX_LIFETIME_MS"
  shows "\<exists>A. deriveBlindedPublicKey (ol_ed L) (eo_publicKey o') (JBig (eo_period o')) = Inr A \<and>
    decodeDescriptor L (presenceBuf wire) \<lparr>do_expectedPeriod = Some (nat (eo_period o')), do_expectedDestination = Some (eo_publicKey o'), do_now = now\<rparr>
      = Inr \<lparr>d_wire = wire, d_period = nat (eo_period o'), d_blindedPublicKey = A, d_entryRelay = bytesAt (eo_entryRelay o'),
          d_guard = bytesAt (eo_guard o'), d_routeToken = bytesAt (eo_routeToken o'), d_seq = nat (eo_seq o'), d_expiresAt = nat (eo_expiresAt o')\<rparr>"
proof -
  let ?E = "ol_ed L"
  from assms(2) obtain s where fixed: "isFixed (eo_entryRelay o') 32" "isFixed (eo_guard o') 32" "isFixed (eo_routeToken o') 32"
      "bytesAt (eo_entryRelay o') \<noteq> bytesAt (eo_guard o')"
    and s: "createBlindedSigner ?E (eo_publicKey o') (eo_secretKey o') (JBig (eo_period o')) = Inr s"
    and ranges: "0 \<le> eo_period o'" "eo_period o' \<le> int MAX_COUNTER" "0 \<le> eo_seq o'" "eo_seq o' \<le> int MAX_COUNTER"
      "0 \<le> eo_expiresAt o'" "eo_expiresAt o' \<le> int MAX_COUNTER"
    and sg: "bindE (signer_sign ?E s (presenceBuf (signatureInput ([word_of_nat DESCRIPTOR_VERSION] @ be_bytes 8 (nat (eo_period o'))
      @ bs_publicKey s @ bytesAt (eo_entryRelay o') @ bytesAt (eo_guard o') @ bytesAt (eo_routeToken o')
      @ be_bytes 8 (nat (eo_seq o')) @ be_bytes 8 (nat (eo_expiresAt o'))))))
      (\<lambda>signature. Inr (([word_of_nat DESCRIPTOR_VERSION] @ be_bytes 8 (nat (eo_period o'))
      @ bs_publicKey s @ bytesAt (eo_entryRelay o') @ bytesAt (eo_guard o') @ bytesAt (eo_routeToken o')
      @ be_bytes 8 (nat (eo_seq o')) @ be_bytes 8 (nat (eo_expiresAt o'))) @ signature)) = Inr wire"
    unfolding encodeDescriptor_def Let_def by (auto simp only: bindE_Inr putU64_Inr split: if_splits)
  define bdy where "bdy = [word_of_nat DESCRIPTOR_VERSION] @ be_bytes 8 (nat (eo_period o'))
      @ bs_publicKey s @ bytesAt (eo_entryRelay o') @ bytesAt (eo_guard o') @ bytesAt (eo_routeToken o')
      @ be_bytes 8 (nat (eo_seq o')) @ be_bytes 8 (nat (eo_expiresAt o'))"
  from sg obtain sig where sign: "signer_sign ?E s (presenceBuf (signatureInput bdy)) = Inr sig" and wire: "wire = bdy @ sig"
    unfolding bdy_def [symmetric] by (auto simp: bindE_Inr)
  note signer = ed25519_laws.signer_scalar [OF assms(1) s]
  have "signUnderBlinded ?E s (signatureInput bdy) = Inr sig"
    using sign signer by (simp add: signer_sign_def presenceBuf_def)
  with ed25519_laws.signature_verifies [OF assms(1) _ _ _ this] signer
  have sig: "ol_verify L sig (signatureInput bdy) (bs_publicKey s)" "length sig = 64" by auto
  have lens: "length (bytesAt (eo_entryRelay o')) = 32" "length (bytesAt (eo_guard o')) = 32" "length (bytesAt (eo_routeToken o')) = 32"
    "length (bs_publicKey s) = 32"
    using fixed signer by (auto simp: isFixed_def split: jsval.splits)
  have len: "length bdy = DESCRIPTOR_BODY_BYTES"
    using lens by (simp add: bdy_def descriptor_sizes)
  have nats: "be_nat (be_bytes 8 (nat v)) = nat v" if "0 \<le> v" "v \<le> int MAX_COUNTER" for v
    using that by (simp add: be_simps MAX_COUNTER_def)
  have fields: "descriptorFields wire = \<lparr>d_wire = wire, d_period = nat (eo_period o'), d_blindedPublicKey = bs_publicKey s,
      d_entryRelay = bytesAt (eo_entryRelay o'), d_guard = bytesAt (eo_guard o'), d_routeToken = bytesAt (eo_routeToken o'),
      d_seq = nat (eo_seq o'), d_expiresAt = nat (eo_expiresAt o')\<rparr>"
    using lens nats [OF ranges(1,2)] nats [OF ranges(3,4)] nats [OF ranges(5,6)]
    by (simp add: descriptorFields_def u64_def wire bdy_def)
  have "descriptorSigned L (descriptorFields wire)"
    unfolding fields descriptorSigned_def using sig(1) len by (simp add: wire)
  moreover have "unat (wire ! 0) = DESCRIPTOR_VERSION" "isFixed (presenceBuf wire) DESCRIPTOR_BYTES" "bytesAt (presenceBuf wire) = wire"
    using len sig(2) by (simp_all add: wire isFixed_def presenceBuf_def descriptor_sizes) (simp add: bdy_def descriptor_sizes)
  moreover have "expectedKey L \<lparr>do_expectedPeriod = Some (nat (eo_period o')), do_expectedDestination = Some (eo_publicKey o'), do_now = now\<rparr>
      (descriptorFields wire) = Inr ()"
    using signer ranges(1) unfolding fields by (simp add: expectedKey_def)
  ultimately show ?thesis
    using signer fixed(4) assms(3,4) ranges(5) unfolding decodeDescriptor_def by (simp add: fields)
qed

text \<open>
  descriptors round trip. What \<open>encodeDescriptor\<close> produces decodes, for anyone who expects that
  destination and period and within the lifetime, to exactly the period, relays, token, sequence number and
  expiry that were encoded, with the blinded key of the destination.
\<close>
theorem descriptor_roundtrip:
  assumes "ed25519_laws (ol_ed L) (ol_verify L) act padd B inGroup" "encodeDescriptor L o' = Inr wire"
    and "now < eo_expiresAt o'" "eo_expiresAt o' \<le> now + MAX_LIFETIME_MS"
  shows "\<exists>A. deriveBlindedPublicKey (ol_ed L) (eo_publicKey o') (JBig (eo_period o')) = Inr A \<and>
    decodeDescriptor L (presenceBuf wire) \<lparr>do_expectedPeriod = Some (nat (eo_period o')), do_expectedDestination = Some (eo_publicKey o'), do_now = now\<rparr>
      = Inr \<lparr>d_wire = wire, d_period = nat (eo_period o'), d_blindedPublicKey = A, d_entryRelay = bytesAt (eo_entryRelay o'),
          d_guard = bytesAt (eo_guard o'), d_routeToken = bytesAt (eo_routeToken o'), d_seq = nat (eo_seq o'), d_expiresAt = nat (eo_expiresAt o')\<rparr>"
  using descriptor_decodes [OF assms] .

section \<open>The store of a node\<close>

definition descriptor_ok :: "overlay_lib \<Rightarrow> string \<Rightarrow> descriptor \<Rightarrow> bool" where
  "descriptor_ok L k d \<longleftrightarrow> k = ol_hex L (ol_hash L (d_blindedPublicKey d)) \<and> d = descriptorFields (d_wire d)
     \<and> length (d_wire d) = DESCRIPTOR_BYTES \<and> descriptorSigned L d"

definition descriptor_store_inv :: "overlay_lib \<Rightarrow> descriptor_plugin \<Rightarrow> bool" where
  "descriptor_store_inv L p \<longleftrightarrow> distinct (map fst (dp_records p)) \<and> length (dp_records p) \<le> MAX_RECORDS
     \<and> (\<forall>(k, d)\<in>set (dp_records p). descriptor_ok L k d)"

text \<open>A step of the store: a request with any clock, any storage routing and any answer of it, or its end.\<close>

definition plugin_step :: "overlay_lib \<Rightarrow> descriptor_plugin \<Rightarrow> descriptor_plugin \<Rightarrow> bool" where
  "plugin_step L p q \<longleftrightarrow> (\<exists>reply clock req. q = fst (dp_onrequest L reply clock req p)) \<or> q = dp_destroy p"

lemma oldestOf_Cons: "fold (\<lambda>(k, d) oldest. case oldest of
       None \<Rightarrow> Some (k, d_expiresAt d)
     | Some (k', e) \<Rightarrow> if d_expiresAt d < e then Some (k, d_expiresAt d) else Some (k', e)) rs (Some (k0, e0)) = Some (k, e) \<Longrightarrow>
   k = k0 \<and> e = e0 \<or> k \<in> fst ` set rs"
proof (induction rs arbitrary: k0 e0)
  case (Cons r rs)
  then show ?case
    by (cases r) (auto split: if_splits)
qed auto

lemma oldestOf_isSome: "fold (\<lambda>(k, d) oldest. case oldest of
       None \<Rightarrow> Some (k, d_expiresAt d)
     | Some (k', e) \<Rightarrow> if d_expiresAt d < e then Some (k, d_expiresAt d) else Some (k', e)) rs (Some v) \<noteq> None"
proof (induction rs arbitrary: v)
  case (Cons r rs)
  then show ?case
    by (cases r; cases v) auto
qed simp

lemma oldestOf_Some:
  assumes "rs \<noteq> []"
  obtains k e where "oldestOf rs = Some (k, e)" "k \<in> fst ` set rs"
proof -
  from assms obtain k0 d0 rs' where rs: "rs = (k0, d0) # rs'"
    by (metis list.exhaust surj_pair)
  then obtain k e where "oldestOf rs = Some (k, e)"
    using oldestOf_isSome [of rs' "(k0, d_expiresAt d0)"] unfolding oldestOf_def by auto
  moreover from this oldestOf_Cons [of rs' k0 "d_expiresAt d0" k e] have "k \<in> fst ` set rs"
    unfolding oldestOf_def rs by auto
  ultimately show thesis by (rule that)
qed

lemma delete_shorter:
  assumes "k \<in> fst ` set xs"
  shows "length (AList.delete k xs) < length xs"
  unfolding AList.delete_eq using assms by (force simp: length_filter_less)

lemma records_delete: "descriptor_store_inv L p \<Longrightarrow> descriptor_store_inv L (p\<lparr>dp_records := AList.delete k (dp_records p)\<rparr>)"
  by (auto simp: descriptor_store_inv_def AList.delete_eq distinct_map_filter intro: order_trans [OF length_filter_le])

lemma evict_inv:
  assumes "descriptor_store_inv L p"
  shows "descriptor_store_inv L (dp_evictOldest p)"
  using records_delete [OF assms] assms by (auto simp: dp_evictOldest_def split: option.splits)

lemma evict_room:
  assumes "descriptor_store_inv L p"
  shows "length (dp_records (if length (dp_records p) \<ge> MAX_RECORDS then dp_evictOldest p else p)) < MAX_RECORDS"
proof (cases "length (dp_records p) \<ge> MAX_RECORDS")
  case True
  then have "dp_records p \<noteq> []"
    by (auto simp: MAX_RECORDS_def)
  then obtain k e where "oldestOf (dp_records p) = Some (k, e)" "k \<in> fst ` set (dp_records p)"
    by (rule oldestOf_Some)
  then have "length (dp_records (dp_evictOldest p)) < length (dp_records p)"
    by (simp add: dp_evictOldest_def delete_shorter)
  with True assms show ?thesis
    by (auto simp: descriptor_store_inv_def)
qed simp

lemma length_update_le: "length (AList.update k v xs) \<le> Suc (length xs)"
  by (induction xs) auto

lemma length_update_known: "k \<in> fst ` set xs \<Longrightarrow> length (AList.update k v xs) = length xs"
  by (induction xs) auto

lemma set_update_subset: "set (AList.update k v xs) \<subseteq> insert (k, v) (set xs)"
  by (induction xs) auto

lemma update_inv:
  assumes "descriptor_store_inv L p" "descriptor_ok L k d" "k \<in> fst ` set (dp_records p) \<or> length (dp_records p) < MAX_RECORDS"
  shows "descriptor_store_inv L (p\<lparr>dp_records := AList.update k d (dp_records p)\<rparr>)"
proof -
  have "length (dp_records p) \<le> MAX_RECORDS"
    using assms(1) by (simp add: descriptor_store_inv_def)
  with assms(3) have "length (AList.update k d (dp_records p)) \<le> MAX_RECORDS"
    using length_update_le [of k d "dp_records p"] length_update_known [of k "dp_records p" d] by linarith
  moreover have "distinct (map fst (AList.update k d (dp_records p)))"
    using assms(1) by (simp add: descriptor_store_inv_def distinct_update)
  ultimately show ?thesis
    using assms(1,2) set_update_subset [of k d "dp_records p"] by (auto simp: descriptor_store_inv_def)
qed

lemma store_inv_subset:
  assumes "descriptor_store_inv L p"
  shows "descriptor_store_inv L (dp_prune now p)" "descriptor_store_inv L (dp_destroy p)"
  using assms by (auto simp: descriptor_store_inv_def dp_prune_def dp_destroy_def distinct_map_filter
      intro: order_trans [OF length_filter_le])

lemma decoded_ok:
  assumes "decodeDescriptor L wire o' = Inr d"
  shows "descriptor_ok L (ol_hex L (ol_hash L (d_blindedPublicKey d))) d" "length (d_blindedPublicKey d) = 32"
proof -
  note d = decodeDescriptor_Inr [OF assms]
  have len: "length (d_wire d) = DESCRIPTOR_BYTES"
    using d(2,3) by (auto simp: isFixed_def split: jsval.splits)
  with d show "descriptor_ok L (ol_hex L (ol_hash L (d_blindedPublicKey d))) d"
    by (simp add: descriptor_ok_def)
  show "length (d_blindedPublicKey d) = 32"
    using len d(1,2) by (simp add: descriptorFields_def descriptor_sizes)
qed

lemma storeDescriptor_inv:
  assumes "descriptor_store_inv L p" "descriptor_ok L k d"
  shows "descriptor_store_inv L (fst (storeDescriptor k d p))"
proof (cases "map_of (dp_records p) k")
  case None
  then show ?thesis
    using update_inv [OF _ assms(2)] evict_inv [OF assms(1)] evict_room [OF assms(1)] assms(1)
    by (simp add: storeDescriptor_def Let_def)
next
  case (Some c)
  then have "k \<in> fst ` set (dp_records p)"
    by (force dest: map_of_SomeD)
  with Some assms update_inv [OF assms] show ?thesis
    by (simp add: storeDescriptor_def)
qed

lemma dp_put_inv:
  assumes "descriptor_store_inv L p"
  shows "descriptor_store_inv L (fst (dp_put L clock req p))"
  unfolding dp_put_def using assms decoded_ok(1) storeDescriptor_inv [OF assms]
  by (auto simp: bindE_Inr blindedDescriptorTarget_def presenceBuf_def split: sum.splits if_splits) metis

text \<open>A request leaves the store as it is, prunes it, or prunes it and puts a descriptor.\<close>

lemma dp_lookup_state [simp]: "fst (dp_lookup L reply req p) = p"
  by (simp add: dp_lookup_def split: sum.splits)

lemma dp_onrequest_cases:
  obtains "fst (dp_onrequest L reply clock req p) = p"
  | "fst (dp_onrequest L reply clock req p) = dp_prune (clock 0) p"
  | "oq_command req = COMMAND_PUT" "fst (dp_onrequest L reply clock req p) = fst (dp_put L clock req (dp_prune (clock 0) p))"
proof -
  have "fst (dp_onrequest L reply clock req p) = p \<or> fst (dp_onrequest L reply clock req p) = dp_prune (clock 0) p
    \<or> oq_command req = COMMAND_PUT \<and> fst (dp_onrequest L reply clock req p) = fst (dp_put L clock req (dp_prune (clock 0) p))"
    by (simp add: dp_onrequest_def Let_def split_beta)
  with that show thesis by blast
qed

lemma plugin_step_inv:
  assumes "plugin_step L p q" "descriptor_store_inv L p"
  shows "descriptor_store_inv L q"
proof -
  have "descriptor_store_inv L (fst (dp_onrequest L reply clock req p))" for reply clock req
    by (rule dp_onrequest_cases [of L reply clock req p])
      (simp_all add: assms(2) store_inv_subset(1) dp_put_inv)
  with assms store_inv_subset(2) show ?thesis
    by (auto simp: plugin_step_def)
qed

text \<open>
  C20: integrity of the descriptor store. In every state a node reaches, whatever is requested of it, the
  store holds at most \<open>MAX_RECORDS\<close> records under distinct keys, and each is a descriptor of the full size
  whose fields are those of its bytes, filed under the hash of its blinded key and signed by that key.
\<close>
theorem descriptor_store_integrity:
  assumes "(plugin_step L)\<^sup>*\<^sup>* (DescriptorPlugin_new relay) p"
  shows "descriptor_store_inv L p"
  using assms
proof (induction rule: rtranclp_induct)
  case base
  show ?case by (simp add: descriptor_store_inv_def DescriptorPlugin_new_def)
next
  case (step p q)
  then show ?case by (blast intro: plugin_step_inv)
qed

lemma map_of_prune:
  assumes "descriptor_store_inv L p"
  shows "map_of (dp_records (dp_prune now p)) k = Some d \<longleftrightarrow> map_of (dp_records p) k = Some d \<and> now < int (d_expiresAt d)"
proof -
  have "distinct (map fst (dp_records p))"
    using assms by (simp add: descriptor_store_inv_def)
  then show ?thesis
    by (auto simp: dp_prune_def distinct_map_filter map_of_eq_Some_iff)
qed

lemma map_of_evict: "map_of (dp_records (dp_evictOldest p)) k = Some d \<Longrightarrow> map_of (dp_records p) k = Some d"
  by (auto simp: dp_evictOldest_def delete_conv' split: option.splits if_splits)

lemma map_of_storeDescriptor:
  assumes "map_of (dp_records p) k = Some d" "map_of (dp_records (fst (storeDescriptor k' new p))) k = Some d'"
  shows "d' = d \<or> d_seq d < d_seq d'"
proof (cases "map_of (dp_records p) k'")
  case None
  then have "k \<noteq> k'"
    using assms(1) by auto
  with None assms show ?thesis
    using map_of_evict [of p k d'] by (auto simp: storeDescriptor_def Let_def update_conv' split: if_splits)
next
  case (Some c)
  with assms show ?thesis
    by (auto simp: storeDescriptor_def update_conv' split: if_splits)
qed

lemma dp_put_state: "fst (dp_put L clock req p) = p \<or> (\<exists>k d. fst (dp_put L clock req p) = fst (storeDescriptor k d p))"
  by (auto simp: dp_put_def split: sum.splits)

text \<open>
  C21: no rollback at a storing node. While a record is unexpired, a request leaves it, removes it, or
  replaces it by a descriptor of a higher sequence number for the same blinded key.
\<close>
theorem descriptor_never_rolls_back:
  assumes "descriptor_store_inv L p" "map_of (dp_records p) k = Some d" "clock 0 < int (d_expiresAt d)"
    and "map_of (dp_records (fst (dp_onrequest L reply clock req p))) k = Some d'"
  shows "d' = d \<or> d_seq d < d_seq d'"
proof -
  have pruned: "map_of (dp_records (dp_prune (clock 0) p)) k = Some d"
    using map_of_prune [OF assms(1)] assms(2,3) by simp
  show ?thesis
  proof (rule dp_onrequest_cases [of L reply clock req p])
    assume "fst (dp_onrequest L reply clock req p) = fst (dp_put L clock req (dp_prune (clock 0) p))"
    with assms(4) have "map_of (dp_records (fst (dp_put L clock req (dp_prune (clock 0) p)))) k = Some d'" by simp
    with pruned show ?thesis
      using dp_put_state [of L clock req "dp_prune (clock 0) p"] map_of_storeDescriptor [OF pruned] by fastforce
  qed (use assms pruned in auto)
qed

text \<open>A valid put, and what the store answers to a later get.\<close>

definition validPut :: "overlay_lib \<Rightarrow> (nat \<Rightarrow> int) \<Rightarrow> outer_request \<Rightarrow> descriptor \<Rightarrow> bool" where
  "validPut L clock req d \<longleftrightarrow> oq_command req = COMMAND_PUT \<and> oq_token req \<and> isFixed (oq_target req) 32
     \<and> bytesAt (oq_target req) = ol_hash L (d_blindedPublicKey d)
     \<and> decodeDescriptor L (oq_value req) \<lparr>do_expectedPeriod = Some (nat (clock 2) div PERIOD_MS), do_expectedDestination = None, do_now = clock 1\<rparr> = Inr d
     \<and> 0 \<le> clock 2"

lemma dp_put_valid:
  assumes "validPut L clock req d"
  shows "dp_put L clock req p = storeDescriptor (ol_hex L (ol_hash L (d_blindedPublicKey d))) d p"
  using assms decoded_ok(2)
  by (auto simp: dp_put_def validPut_def blindedDescriptorTarget_def presenceBuf_def isFixed_def)

lemma storeDescriptor_accepts:
  assumes "descriptor_store_inv L p" "descriptor_ok L k d"
    and "\<And>c. map_of (dp_records p) k = Some c \<Longrightarrow> d_seq c < d_seq d \<or> c = d"
  shows "map_of (dp_records (fst (storeDescriptor k d p))) k = Some d" "snd (storeDescriptor k d p) = [OuterReply None False False]"
  using assms(3) by (auto simp: storeDescriptor_def update_conv' Let_def split: option.splits)

text \<open>
  put, then get. A put of a valid descriptor at its own target is acknowledged and, unless the node has
  an unexpired one of the same or a higher sequence number, a later get at that target returns exactly its
  bytes as long as it has not expired.
\<close>
theorem descriptor_put_then_get:
  assumes "descriptor_store_inv L p" "validPut L clock req d"
    and "\<And>c. map_of (dp_records p) (ol_hex L (bytesAt (oq_target req))) = Some c \<Longrightarrow> d_seq c < d_seq d \<or> c = d \<or> int (d_expiresAt c) \<le> clock 0"
    and "oq_command req' = COMMAND_GET" "oq_target req' = oq_target req" "clock' 0 < int (d_expiresAt d)"
  shows "fst (snd (dp_onrequest L reply clock req p)) = Inr [OuterReply None False False]
    \<and> fst (snd (dp_onrequest L reply clock' req' (fst (dp_onrequest L reply clock req p)))) = Inr [OuterReply (Some (d_wire d)) True True]"
proof -
  let ?k = "ol_hex L (ol_hash L (d_blindedPublicKey d))" and ?p = "dp_prune (clock 0) p"
  have req: "isFixed (oq_target req) 32" "bytesAt (oq_target req) = ol_hash L (d_blindedPublicKey d)" "oq_command req = COMMAND_PUT" "oq_token req"
    using assms(2) by (simp_all add: validPut_def)
  obtain o' where dec: "decodeDescriptor L (oq_value req) o' = Inr d"
    using assms(2) by (auto simp: validPut_def)
  have val: "\<not> bufferLength (oq_value req) < 0"
    using decodeDescriptor_Inr(3) [OF dec] by (auto simp: isFixed_def split: jsval.splits)
  have inv: "descriptor_store_inv L ?p" and ok: "descriptor_ok L ?k d"
    using store_inv_subset [OF assms(1)] decoded_ok(1) [OF dec] by blast+
  have "d_seq c < d_seq d \<or> c = d" if "map_of (dp_records ?p) ?k = Some c" for c
    using that assms(3) [of c] map_of_prune [OF assms(1), of "clock 0" ?k c] req(2) by auto
  note stored = storeDescriptor_accepts [OF inv ok this]
  have put: "dp_onrequest L reply clock req p = (fst (storeDescriptor ?k d ?p), Inr [OuterReply None False False], False)"
    using req val stored(2) by (simp add: dp_onrequest_def Let_def dp_put_valid [OF assms(2)] split_beta
        COMMAND_PUT_def COMMAND_GET_def COMMAND_LOOKUP_def COMMAND_CAPABILITY_def)
  have "map_of (dp_records (dp_prune (clock' 0) (fst (storeDescriptor ?k d ?p)))) ?k = Some d"
    using map_of_prune [OF storeDescriptor_inv [OF inv ok]] stored(1) assms(6) by simp
  then show ?thesis
    unfolding put using assms(4,5) req(1,2)
    by (simp add: dp_onrequest_def Let_def COMMAND_GET_def COMMAND_LOOKUP_def COMMAND_CAPABILITY_def)
qed

section \<open>Reading by quorum\<close>

text \<open>
  C23: a read is a quorum of two. With an operation that stays open, \<open>_readTarget\<close> returns exactly the first
  descriptor on which two votes agree, one vote for each respondent, and nothing when there is no such
  descriptor.
\<close>
theorem read_quorum_exact:
  assumes "inj (ol_hex L)" "list_all (\<lambda>r. rr_check r = Inr ()) rs"
  shows "readTarget L o' (Inr ()) rs = Inr (firstRepeated {} (votes L o' {} rs))"
  unfolding readTarget_def using readReplies_votes [OF assms(1), of "{}" "\<lparr>rs_candidates = [], rs_respondents = []\<rparr>" rs o'] assms(2) by simp

section \<open>A concrete descriptor\<close>

definition byteName :: "bytes \<Rightarrow> string" where
  "byteName bs = map (\<lambda>b. char_of (unat b)) bs"

lemma inj_byteName: "inj byteName"
proof -
  have "inj (\<lambda>b :: byte. char_of (unat b))"
  proof (rule injI)
    fix a b :: byte
    assume "char_of (unat a) = char_of (unat b)"
    then have "of_char (char_of (unat a)) = (of_char (char_of (unat b)) :: nat)" by simp
    then show "a = b"
      using unsigned_less [where ?'a = nat, of a] unsigned_less [where ?'a = nat, of b] by (simp add: word_unat_eq_iff)
  qed
  then have "inj (map (\<lambda>b :: byte. char_of (unat b)))" by (rule inj_mapI)
  then show ?thesis
    by (simp add: inj_def byteName_def)
qed

definition refO :: overlay_lib where
  "refO = \<lparr>ol_ed = refEd, ol_hash = refHash, ol_verify = refVerify, ol_hex = byteName\<rparr>"

definition sample_encode :: encode_options where
  "sample_encode = \<lparr>eo_publicKey = presenceBuf sample_identity, eo_secretKey = presenceBuf (replicate 64 5), eo_entryRelay = presenceBuf (replicate 32 8),
     eo_guard = presenceBuf (replicate 32 9), eo_routeToken = presenceBuf (replicate 32 10), eo_seq = 4, eo_expiresAt = 1728000600000, eo_period = 20000\<rparr>"

definition sample_clock :: "nat \<Rightarrow> int" where
  "sample_clock n = 1728000000000"

lemma refO_laws: "ed25519_laws (ol_ed refO) (ol_verify refO) refAct refAdd refBase canonicalScalar"
  using refed.ed25519_laws_axioms by (simp add: refO_def)

lemma sample_encoded: "\<exists>wire. encodeDescriptor refO sample_encode = Inr wire"
proof -
  have "createBlindedSigner (ol_ed refO) (eo_publicKey sample_encode) (eo_secretKey sample_encode) (JBig (eo_period sample_encode)) = Inr sample_signer"
    using sample_signer_created by (simp add: refO_def sample_encode_def)
  moreover have "\<exists>sig. signer_sign (ol_ed refO) sample_signer (presenceBuf m) = Inr sig" for m
    using sample_signs by (simp add: refO_def)
  moreover have "\<not> (replicate 32 8 :: bytes) = replicate 32 9"
    by (simp add: replicate_eq_replicate)
  ultimately show ?thesis
    unfolding encodeDescriptor_def Let_def
    by (simp add: sample_encode_def isFixed_def presenceBuf_def putU64_def MAX_COUNTER_def) (metis bindE.simps(2))
qed

theorem descriptor_roundtrip_witness:
  "\<exists>wire d. encodeDescriptor refO sample_encode = Inr wire \<and> d_seq d = 4 \<and> d_guard d = replicate 32 9 \<and>
    decodeDescriptor refO (presenceBuf wire) \<lparr>do_expectedPeriod = Some 20000, do_expectedDestination = Some (presenceBuf sample_identity), do_now = 1728000000000\<rparr> = Inr d"
proof -
  obtain wire where "encodeDescriptor refO sample_encode = Inr wire"
    using sample_encoded by blast
  with descriptor_roundtrip [OF refO_laws this, of 1728000000000] show ?thesis
    by (auto simp: sample_encode_def MAX_LIFETIME_MS_def presenceBuf_def)
qed

definition sample_descriptor_request :: "nat \<Rightarrow> bytes \<Rightarrow> outer_request" where
  "sample_descriptor_request cmd wire = \<lparr>oq_target = presenceBuf (refHash (bs_publicKey sample_signer)), oq_token = True, oq_command = cmd, oq_value = presenceBuf wire\<rparr>"

lemma sample_decoded:
  "\<exists>wire d. decodeDescriptor refO (presenceBuf wire) \<lparr>do_expectedPeriod = Some 20000, do_expectedDestination = None, do_now = 1728000000000\<rparr> = Inr d
    \<and> d_blindedPublicKey d = bs_publicKey sample_signer \<and> d_seq d = 4 \<and> d_expiresAt d = 1728000600000"
proof -
  obtain wire where wire: "encodeDescriptor refO sample_encode = Inr wire"
    using sample_encoded by blast
  obtain A where A: "deriveBlindedPublicKey refEd (presenceBuf sample_identity) (JBig 20000) = Inr A"
    and dec: "decodeDescriptor refO (presenceBuf wire) \<lparr>do_expectedPeriod = Some 20000, do_expectedDestination = Some (presenceBuf sample_identity), do_now = 1728000000000\<rparr>
      = Inr \<lparr>d_wire = wire, d_period = 20000, d_blindedPublicKey = A, d_entryRelay = replicate 32 8,
          d_guard = replicate 32 9, d_routeToken = replicate 32 10, d_seq = 4, d_expiresAt = 1728000600000\<rparr>"
    using descriptor_decodes [OF refO_laws wire, of 1728000000000]
    by (auto simp: sample_encode_def MAX_LIFETIME_MS_def presenceBuf_def refO_def)
  have "A = bs_publicKey sample_signer"
    using A ed25519_laws.signer_scalar [OF refed.ed25519_laws_axioms sample_signer_created] by simp
  moreover have "decodeDescriptor refO (presenceBuf wire) \<lparr>do_expectedPeriod = Some 20000, do_expectedDestination = None, do_now = 1728000000000\<rparr>
      = Inr \<lparr>d_wire = wire, d_period = 20000, d_blindedPublicKey = A, d_entryRelay = replicate 32 8,
          d_guard = replicate 32 9, d_routeToken = replicate 32 10, d_seq = 4, d_expiresAt = 1728000600000\<rparr>"
    using dec by (auto simp: decodeDescriptor_def Let_def bindE_Inr expectedKey_def split: if_splits)
  moreover have "d_blindedPublicKey \<lparr>d_wire = wire, d_period = 20000, d_blindedPublicKey = A, d_entryRelay = replicate 32 8,
          d_guard = replicate 32 9, d_routeToken = replicate 32 10, d_seq = 4, d_expiresAt = 1728000600000\<rparr> = A"
    "d_seq \<lparr>d_wire = wire, d_period = 20000, d_blindedPublicKey = A, d_entryRelay = replicate 32 8,
          d_guard = replicate 32 9, d_routeToken = replicate 32 10, d_seq = 4, d_expiresAt = 1728000600000\<rparr> = 4"
    "d_expiresAt \<lparr>d_wire = wire, d_period = 20000, d_blindedPublicKey = A, d_entryRelay = replicate 32 8,
          d_guard = replicate 32 9, d_routeToken = replicate 32 10, d_seq = 4, d_expiresAt = 1728000600000\<rparr> = 1728000600000"
    by (rule descriptor.select_convs)+
  ultimately show ?thesis by metis
qed

lemma sample_validPut:
  "\<exists>wire d. validPut refO sample_clock (sample_descriptor_request COMMAND_PUT wire) d \<and> d_seq d = 4 \<and> d_expiresAt d = 1728000600000
    \<and> d_blindedPublicKey d = bs_publicKey sample_signer"
proof -
  obtain wire d where d: "decodeDescriptor refO (presenceBuf wire) \<lparr>do_expectedPeriod = Some 20000, do_expectedDestination = None, do_now = 1728000000000\<rparr> = Inr d"
    "d_blindedPublicKey d = bs_publicKey sample_signer" "d_seq d = 4" "d_expiresAt d = 1728000600000"
    using sample_decoded by blast
  have "nat (sample_clock 2) div PERIOD_MS = 20000"
    by (simp add: sample_clock_def PERIOD_MS_def)
  then have "validPut refO sample_clock (sample_descriptor_request COMMAND_PUT wire) d"
    using d by (simp add: validPut_def sample_descriptor_request_def sample_clock_def refO_def isFixed_def presenceBuf_def refHash_length)
  with d show ?thesis by blast
qed

lemma empty_plugin_inv: "descriptor_store_inv L (DescriptorPlugin_new relay)"
  by (simp add: descriptor_store_inv_def DescriptorPlugin_new_def)

theorem descriptor_put_then_get_witness:
  "\<exists>wire (d :: descriptor). d_seq d = 4 \<and> fst (snd (dp_onrequest refO (\<lambda>_ _. Inr None) sample_clock (sample_descriptor_request COMMAND_GET [])
      (fst (dp_onrequest refO (\<lambda>_ _. Inr None) sample_clock (sample_descriptor_request COMMAND_PUT wire) (DescriptorPlugin_new None)))))
    = Inr [OuterReply (Some (d_wire d)) True True]"
proof -
  obtain wire d where d: "validPut refO sample_clock (sample_descriptor_request COMMAND_PUT wire) d" "d_seq d = 4" "d_expiresAt d = 1728000600000"
    using sample_validPut by blast
  from descriptor_put_then_get [OF empty_plugin_inv d(1), of None "sample_descriptor_request COMMAND_GET []" sample_clock "\<lambda>_ _. Inr None"] d(2,3)
  have "fst (snd (dp_onrequest refO (\<lambda>_ _. Inr None) sample_clock (sample_descriptor_request COMMAND_GET [])
      (fst (dp_onrequest refO (\<lambda>_ _. Inr None) sample_clock (sample_descriptor_request COMMAND_PUT wire) (DescriptorPlugin_new None)))))
    = Inr [OuterReply (Some (d_wire d)) True True]"
    by (simp add: DescriptorPlugin_new_def sample_descriptor_request_def sample_clock_def)
  with d(2) show ?thesis by blast
qed

lemma sample_stored:
  "\<exists>wire d. d_seq d = 4 \<and> d_expiresAt d = 1728000600000 \<and>
    map_of (dp_records (fst (dp_onrequest refO (\<lambda>_ _. Inr None) sample_clock (sample_descriptor_request COMMAND_PUT wire) (DescriptorPlugin_new None))))
      (byteName (refHash (bs_publicKey sample_signer))) = Some d"
proof -
  obtain wire d where d: "validPut refO sample_clock (sample_descriptor_request COMMAND_PUT wire) d" "d_seq d = 4" "d_expiresAt d = 1728000600000"
    "d_blindedPublicKey d = bs_publicKey sample_signer"
    using sample_validPut by blast
  have "dp_prune (sample_clock 0) (DescriptorPlugin_new None) = DescriptorPlugin_new None"
    by (simp add: dp_prune_def DescriptorPlugin_new_def)
  then have "fst (dp_onrequest refO (\<lambda>_ _. Inr None) sample_clock (sample_descriptor_request COMMAND_PUT wire) (DescriptorPlugin_new None))
    = fst (storeDescriptor (byteName (refHash (bs_publicKey sample_signer))) d (DescriptorPlugin_new None))"
    using dp_put_valid [OF d(1)] d(4)
    by (simp add: dp_onrequest_def Let_def split_beta sample_descriptor_request_def isFixed_def presenceBuf_def refHash_length refO_def
        COMMAND_PUT_def COMMAND_GET_def COMMAND_LOOKUP_def COMMAND_CAPABILITY_def)
  also have "map_of (dp_records \<dots>) (byteName (refHash (bs_publicKey sample_signer))) = Some d"
    by (simp add: storeDescriptor_def DescriptorPlugin_new_def MAX_RECORDS_def)
  finally show ?thesis
    using d(2,3) by blast
qed

theorem descriptor_store_integrity_witness:
  "\<exists>p d. map_of (dp_records p) (byteName (refHash (bs_publicKey sample_signer))) = Some d \<and> (plugin_step refO)\<^sup>*\<^sup>* (DescriptorPlugin_new None) p \<and> descriptor_store_inv refO p"
proof -
  obtain wire d where d: "map_of (dp_records (fst (dp_onrequest refO (\<lambda>_ _. Inr None) sample_clock (sample_descriptor_request COMMAND_PUT wire) (DescriptorPlugin_new None))))
      (byteName (refHash (bs_publicKey sample_signer))) = Some d"
    using sample_stored by blast
  have "plugin_step refO (DescriptorPlugin_new None) (fst (dp_onrequest refO (\<lambda>_ _. Inr None) sample_clock (sample_descriptor_request COMMAND_PUT wire) (DescriptorPlugin_new None)))"
    unfolding plugin_step_def by blast
  then have "(plugin_step refO)\<^sup>*\<^sup>* (DescriptorPlugin_new None) (fst (dp_onrequest refO (\<lambda>_ _. Inr None) sample_clock (sample_descriptor_request COMMAND_PUT wire) (DescriptorPlugin_new None)))" ..
  with d descriptor_store_integrity [OF this] show ?thesis by blast
qed

theorem descriptor_never_rolls_back_witness:
  "\<exists>p d. map_of (dp_records p) (byteName (refHash (bs_publicKey sample_signer))) = Some d \<and> d_seq d = 4 \<and>
    map_of (dp_records (fst (dp_onrequest refO (\<lambda>_ _. Inr None) sample_clock (sample_descriptor_request COMMAND_GET []) p))) (byteName (refHash (bs_publicKey sample_signer))) = Some d"
proof -
  obtain wire d where d: "d_seq d = 4" "d_expiresAt d = 1728000600000"
    "map_of (dp_records (fst (dp_onrequest refO (\<lambda>_ _. Inr None) sample_clock (sample_descriptor_request COMMAND_PUT wire) (DescriptorPlugin_new None))))
      (byteName (refHash (bs_publicKey sample_signer))) = Some d"
    using sample_stored by blast
  define p where "p = fst (dp_onrequest refO (\<lambda>_ _. Inr None) sample_clock (sample_descriptor_request COMMAND_PUT wire) (DescriptorPlugin_new None))"
  have inv: "descriptor_store_inv refO p"
    unfolding p_def by (rule plugin_step_inv [OF _ empty_plugin_inv]) (auto simp: plugin_step_def)
  have "fst (dp_onrequest refO (\<lambda>_ _. Inr None) sample_clock (sample_descriptor_request COMMAND_GET []) p) = dp_prune (sample_clock 0) p"
    by (simp add: dp_onrequest_def Let_def sample_descriptor_request_def isFixed_def presenceBuf_def refHash_length
        COMMAND_GET_def COMMAND_LOOKUP_def COMMAND_CAPABILITY_def)
  then have after: "map_of (dp_records (fst (dp_onrequest refO (\<lambda>_ _. Inr None) sample_clock (sample_descriptor_request COMMAND_GET []) p))) (byteName (refHash (bs_publicKey sample_signer))) = Some d"
    using map_of_prune [OF inv] d by (simp add: p_def sample_clock_def)
  from descriptor_never_rolls_back [OF inv d(3) [folded p_def] _ this] d after show ?thesis
    unfolding p_def by blast
qed

definition sample_reply :: "bytes \<Rightarrow> string \<Rightarrow> read_reply" where
  "sample_reply wire a = \<lparr>rr_check = Inr (), rr_value = presenceBuf wire, rr_from = Some a, rr_now = 1728000000000\<rparr>"

definition sample_read :: read_options where
  "sample_read = \<lparr>ro_expectedPeriod = Some 20000, ro_expectedDestination = None, ro_expectedWire = None\<rparr>"

text \<open>A repeated answer of one node does not count twice; the answer of a second node completes the quorum.\<close>

theorem read_quorum_exact_witness:
  "\<exists>wire d. readTarget refO sample_read (Inr ()) [sample_reply wire ''a'', sample_reply wire ''a''] = Inr None
    \<and> readTarget refO sample_read (Inr ()) [sample_reply wire ''a'', sample_reply wire ''a'', sample_reply wire ''b''] = Inr (Some d)"
proof -
  obtain wire d where "decodeDescriptor refO (presenceBuf wire) \<lparr>do_expectedPeriod = Some 20000, do_expectedDestination = None, do_now = 1728000000000\<rparr> = Inr d"
    using sample_decoded by blast
  then have d: "readDescriptor refO sample_read (sample_reply wire a) = Some d" for a
    by (simp add: readDescriptor_def sample_read_def sample_reply_def)
  have inj: "inj (ol_hex refO)"
    by (simp add: refO_def inj_byteName)
  have "readTarget refO sample_read (Inr ()) [sample_reply wire ''a'', sample_reply wire ''a''] = Inr None"
    by (subst read_quorum_exact [OF inj]) (simp_all add: d, simp_all add: sample_reply_def)
  moreover have "readTarget refO sample_read (Inr ()) [sample_reply wire ''a'', sample_reply wire ''a'', sample_reply wire ''b''] = Inr (Some d)"
    by (subst read_quorum_exact [OF inj]) (simp_all add: d, simp_all add: sample_reply_def)
  ultimately show ?thesis by blast
qed

end
