(* ===== verification/Route_Frames.thy ===== *)
theory Route_Frames
  imports Overlay_Descriptor Cell_Codec Compact_Reference
begin

text \<open>
  The formats and checks of the private peer controller (first part of
  \<^verbatim>\<open>lib/private/private-peer-controller.js\<close>): logical frames inside cells, route contexts, the admission
  of a destination at its guard, the origin of counters, and the diversity of relay addresses. The address
  test of \<^verbatim>\<open>udx-native\<close> and hexadecimal notation are arguments.
\<close>

section \<open>Constants\<close>

definition CONTROL_VERSION :: nat where "CONTROL_VERSION = 7"
definition MAX_CONTROL_CELLS :: nat where "MAX_CONTROL_CELLS = 16"
definition ROUTE_CONTEXT_BYTES :: nat where "ROUTE_CONTEXT_BYTES = 120"
definition DESTINATION_ADMISSION_CHALLENGE_BYTES :: nat where "DESTINATION_ADMISSION_CHALLENGE_BYTES = 32"
definition DESTINATION_ADMISSION_SIGNATURE_BYTES :: nat where "DESTINATION_ADMISSION_SIGNATURE_BYTES = 64"
definition DESTINATION_ADMISSION_IDENTITY_BYTES :: nat where
  "DESTINATION_ADMISSION_IDENTITY_BYTES = 8 + 32 + DESTINATION_ADMISSION_SIGNATURE_BYTES"
definition DESTINATION_ADMISSION_DOMAIN :: bytes where "DESTINATION_ADMISSION_DOMAIN = utf8 ''hyperdht/private-peer/destination-admission/v4''"
definition COUNTER_ORIGIN_DOMAIN :: bytes where "COUNTER_ORIGIN_DOMAIN = utf8 ''hyperdht/private-peer/counter-origin/v1''"
definition DIVERSITY_DOMAIN :: string where "DIVERSITY_DOMAIN = ''hyperdht/private-peer/relay-diversity/v1/''"
definition LOGICAL_HEADER_BYTES :: nat where "LOGICAL_HEADER_BYTES = 5"
definition MAX_LOGICAL_PAYLOAD :: nat where "MAX_LOGICAL_PAYLOAD = MAX_CELL_PAYLOAD - LOGICAL_HEADER_BYTES"
definition LOGICAL_DATA :: int where "LOGICAL_DATA = 0"
definition LOGICAL_OPEN :: int where "LOGICAL_OPEN = 1"
definition LOGICAL_FIN :: int where "LOGICAL_FIN = 2"
definition LOGICAL_RESET :: int where "LOGICAL_RESET = 3"
definition LOGICAL_CREDIT :: int where "LOGICAL_CREDIT = 4"
definition LOGICAL_DEMAND :: int where "LOGICAL_DEMAND = 5"
definition LOGICAL_RELEASE :: int where "LOGICAL_RELEASE = 6"
definition LOGICAL_SPLICE_OPEN :: int where "LOGICAL_SPLICE_OPEN = 7"
definition LOGICAL_SPLICE_READY :: int where "LOGICAL_SPLICE_READY = 8"
definition CIRCUIT_STREAM_ID :: int where "CIRCUIT_STREAM_ID = 4294967295"
definition STREAM_WINDOW :: nat where "STREAM_WINDOW = 512"
definition CIRCUIT_WINDOW :: nat where "CIRCUIT_WINDOW = 2048"

lemmas logical_flags = LOGICAL_DATA_def LOGICAL_OPEN_def LOGICAL_FIN_def LOGICAL_RESET_def LOGICAL_CREDIT_def LOGICAL_DEMAND_def
  LOGICAL_RELEASE_def LOGICAL_SPLICE_OPEN_def LOGICAL_SPLICE_READY_def
lemmas logical_sizes = LOGICAL_HEADER_BYTES_def MAX_LOGICAL_PAYLOAD_def MAX_CELL_PAYLOAD_def CIRCUIT_STREAM_ID_def
  STREAM_WINDOW_def CIRCUIT_WINDOW_def

section \<open>Logical frames\<close>

definition readU32 :: "bytes \<Rightarrow> nat" where
  "readU32 bs = be_nat (take 4 bs)"

definition writeU32 :: "jsval \<Rightarrow> crypto_failure + bytes" where
  "writeU32 v = (case v of
     JNum n \<Rightarrow> if \<not> isSafeInteger v \<or> n < 0 \<or> n > 4294967295 then Inl invalidRoute else Inr (be_bytes 4 (nat n))
   | _ \<Rightarrow> Inl invalidRoute)"

definition validLogicalPayload :: "int \<Rightarrow> int \<Rightarrow> jsval \<Rightarrow> bool" where
  "validLogicalPayload streamId flags data =
     (case data of
        JBuf b \<Rightarrow>
          if byteLength b > MAX_LOGICAL_PAYLOAD then False
          else if flags = LOGICAL_SPLICE_OPEN \<or> flags = LOGICAL_SPLICE_READY then
            streamId \<noteq> CIRCUIT_STREAM_ID \<and> byteLength b = 4 \<and> readU32 (content b) \<noteq> 0
          else if flags < LOGICAL_CREDIT then
            streamId \<noteq> CIRCUIT_STREAM_ID \<and> (flags = LOGICAL_DATA \<or> byteLength b = 0)
          else if flags > LOGICAL_RELEASE \<or> byteLength b \<noteq> 2 then False
          else if flags \<noteq> LOGICAL_CREDIT \<and> streamId \<noteq> CIRCUIT_STREAM_ID then False
          else (let amount = unat (content b ! 0) * 256 + unat (content b ! 1);
                    maximum = (if streamId = CIRCUIT_STREAM_ID then CIRCUIT_WINDOW else STREAM_WINDOW)
            in amount \<le> maximum \<and> (amount \<noteq> 0 \<or> flags = LOGICAL_DEMAND))
      | _ \<Rightarrow> False)"

definition encodeLogical :: "jsval \<Rightarrow> jsval \<Rightarrow> jsval \<Rightarrow> crypto_failure + bytes" where
  "encodeLogical streamId flags data =
     (case (streamId, flags) of
        (JNum s, JNum f) \<Rightarrow>
          if \<not> isSafeInteger streamId \<or> s < 0 \<or> s > 4294967295 \<or> \<not> isSafeInteger flags \<or> f < LOGICAL_DATA
             \<or> f > LOGICAL_SPLICE_READY \<or> \<not> validLogicalPayload s f data
          then Inl invalidRoute
          else bindE (writeU32 streamId) (\<lambda>header. Inr (header @ [word_of_int f] @ bytesAt data))
      | _ \<Rightarrow> Inl invalidRoute)"

record logical_frame =
  lf_streamId :: nat
  lf_flags :: nat
  lf_data :: bytes

definition decodeLogical :: "jsval \<Rightarrow> crypto_failure + logical_frame" where
  "decodeLogical frame =
     (case frame of
        JBuf b \<Rightarrow>
          if byteLength b < LOGICAL_HEADER_BYTES then Inl invalidRoute
          else (let streamId = readU32 (content b); flags = unat (content b ! 4); data = drop LOGICAL_HEADER_BYTES (content b)
            in if \<not> validLogicalPayload (int streamId) (int flags) (presenceBuf data) then Inl invalidRoute
               else Inr \<lparr>lf_streamId = streamId, lf_flags = flags, lf_data = data\<rparr>)
      | _ \<Rightarrow> Inl invalidRoute)"

text \<open>The payload of a credit message.\<close>

definition creditBytes :: "nat \<Rightarrow> bytes" where
  "creditBytes amount = [word_of_nat (amount div 256), word_of_nat amount]"

definition controlHeader :: "nat \<Rightarrow> bytes" where
  "controlHeader opcode = [word_of_nat CONTROL_VERSION, word_of_nat opcode]"

section \<open>Route contexts\<close>

record route_context =
  rx_circuitId :: bytes
  rx_epoch :: int
  rx_forwardKey :: bytes
  rx_forwardNonce :: bytes
  rx_reverseKey :: bytes
  rx_reverseNonce :: bytes

text \<open>The random buffers are drawn in the order epoch, circuit, forward key and nonce, reverse key and nonce.\<close>

definition createRouteContext :: "(nat \<Rightarrow> bytes) \<Rightarrow> route_context" where
  "createRouteContext draw =
     \<lparr>rx_circuitId = draw 1, rx_epoch = int (be_nat (draw 0)), rx_forwardKey = draw 2, rx_forwardNonce = draw 3,
      rx_reverseKey = draw 4, rx_reverseNonce = draw 5\<rparr>"

definition encodeRouteContext :: "route_context \<Rightarrow> crypto_failure + bytes" where
  "encodeRouteContext c =
     bindE (putU64 (rx_epoch c)) (\<lambda>epoch.
       Inr (rx_circuitId c @ epoch @ rx_forwardKey c @ rx_forwardNonce c @ rx_reverseKey c @ rx_reverseNonce c))"

definition decodeRouteContext :: "jsval \<Rightarrow> crypto_failure + route_context" where
  "decodeRouteContext wire =
     (if \<not> isFixed wire ROUTE_CONTEXT_BYTES then Inl invalidRoute
      else (let w = bytesAt wire
        in Inr \<lparr>rx_circuitId = take 16 w, rx_epoch = int (u64 w 16), rx_forwardKey = take 32 (drop 24 w),
             rx_forwardNonce = take 16 (drop 56 w), rx_reverseKey = take 32 (drop 72 w), rx_reverseNonce = take 16 (drop 104 w)\<rparr>))"

text \<open>\<open>keyed\<close> is the keyed hash of 32 bytes.\<close>

definition counterOrigin :: "(bytes \<Rightarrow> bytes \<Rightarrow> bytes) \<Rightarrow> bytes \<Rightarrow> nat" where
  "counterOrigin keyed k = (u64 (keyed COUNTER_ORIGIN_DOMAIN k) 0 AND 9223372036854775807) + 1"

section \<open>Admission of a destination\<close>

definition destinationAdmissionInput :: "jsval \<Rightarrow> jsval \<Rightarrow> jsval \<Rightarrow> jsval \<Rightarrow> crypto_failure + bytes" where
  "destinationAdmissionInput challenge remotePublicKey guardPublicKey blindedIdentity =
     (if \<not> isFixed challenge DESTINATION_ADMISSION_CHALLENGE_BYTES \<or> \<not> isFixed remotePublicKey 32 \<or> \<not> isFixed guardPublicKey 32
         \<or> \<not> isFixed blindedIdentity 40
      then Inl invalidRoute
      else Inr (DESTINATION_ADMISSION_DOMAIN @ bytesAt challenge @ bytesAt remotePublicKey @ bytesAt guardPublicKey @ bytesAt blindedIdentity))"

definition signDestinationAdmission :: "ed25519 \<Rightarrow> jsval \<Rightarrow> jsval \<Rightarrow> int \<Rightarrow> jsval \<Rightarrow> jsval \<Rightarrow> jsval \<Rightarrow> crypto_failure + bytes" where
  "signDestinationAdmission E publicKey secretKey period challenge remotePublicKey guardPublicKey =
     bindE (createBlindedSigner E publicKey secretKey (JBig period)) (\<lambda>signer.
     bindE (putU64 period) (\<lambda>p.
     (let identity = p @ bs_publicKey signer
      in bindE (destinationAdmissionInput challenge remotePublicKey guardPublicKey (presenceBuf identity)) (\<lambda>input.
         bindE (signer_sign E signer (presenceBuf input)) (\<lambda>signature. Inr (identity @ signature))))))"

definition verifyDestinationAdmission :: "(bytes \<Rightarrow> bytes \<Rightarrow> bytes \<Rightarrow> bool) \<Rightarrow> jsval \<Rightarrow> jsval \<Rightarrow> jsval \<Rightarrow> jsval \<Rightarrow> crypto_failure + bool" where
  "verifyDestinationAdmission verify identity challenge remotePublicKey guardPublicKey =
     (if \<not> isFixed identity DESTINATION_ADMISSION_IDENTITY_BYTES then Inr False
      else
        bindE (destinationAdmissionInput challenge remotePublicKey guardPublicKey (presenceBuf (take 40 (bytesAt identity)))) (\<lambda>input.
          Inr (verify (drop 40 (bytesAt identity)) input (take 32 (drop 8 (bytesAt identity))))))"

section \<open>Diversity of relays\<close>

record ip_address =
  ip_family :: nat
  ip_bytes :: bytes

text \<open>\<open>split('::')\<close>, and the index of the last colon.\<close>

fun splitDouble :: "string \<Rightarrow> string list" where
  "splitDouble [] = [[]]"
| "splitDouble [c] = [[c]]"
| "splitDouble (c # c' # cs) =
     (if c = CHR '':'' \<and> c' = CHR '':'' then [] # splitDouble cs
      else (case splitDouble (c' # cs) of [] \<Rightarrow> [[c]] | w # ws \<Rightarrow> (c # w) # ws))"

definition afterLastColon :: "string \<Rightarrow> string" where
  "afterLastColon h = rev (takeWhile (\<lambda>c. c \<noteq> CHR '':'') (rev h))"

definition upToLastColon :: "string \<Rightarrow> string" where
  "upToLastColon h = rev (dropWhile (\<lambda>c. c \<noteq> CHR '':'') (rev h))"

text \<open>An IPv6 address that ends in dotted decimals is rewritten with two hexadecimal groups.\<close>

definition hexTail :: "string \<Rightarrow> string" where
  "hexTail h =
     (if CHR ''.'' \<in> set h then
        (let parts = map (readNum 10) (splitOn CHR ''.'' (afterLastColon h))
         in upToLastColon h @ showNum 4 16 ((parts ! 0 * 256) OR (parts ! 1)) @ [CHR '':''] @ showNum 4 16 ((parts ! 2 * 256) OR (parts ! 3)))
      else h)"

definition groupsOf :: "string \<Rightarrow> string list" where
  "groupsOf part = (if part = [] then [] else splitOn CHR '':'' part)"

definition ipWords :: "string \<Rightarrow> string list" where
  "ipWords h =
     (let halves = splitDouble h; before = groupsOf (halves ! 0);
          after = (if length halves = 2 then groupsOf (halves ! 1) else [])
      in if length halves = 2 then before @ replicate (8 - length before - length after) ''0'' @ after else before)"

definition normalizedIP :: "(string \<Rightarrow> nat) \<Rightarrow> jsval \<Rightarrow> ip_address option" where
  "normalizedIP isIP v =
     (case v of
        JStr h \<Rightarrow>
          if isIP h = 4 then Some \<lparr>ip_family = 4, ip_bytes = map (\<lambda>s. word_of_nat (readNum 10 s)) (splitOn CHR ''.'' h)\<rparr>
          else if isIP h \<noteq> 6 then None
          else (let ws = ipWords (hexTail h)
            in if length ws \<noteq> 8 then None
               else (let bs = concat (map (\<lambda>w. be_bytes 2 (readNum 16 w)) ws)
                 in if isAllZero (take 10 bs) \<and> bs ! 10 = 255 \<and> bs ! 11 = 255 then Some \<lparr>ip_family = 4, ip_bytes = drop 12 bs\<rparr>
                    else Some \<lparr>ip_family = 6, ip_bytes = bs\<rparr>))
      | _ \<Rightarrow> None)"

definition isLoopback :: "ip_address option \<Rightarrow> bool" where
  "isLoopback address =
     (case address of
        None \<Rightarrow> False
      | Some a \<Rightarrow> if ip_family a = 4 then ip_bytes a ! 0 = 127 else ip_bytes a ! 15 = 1 \<and> isAllZero (take 15 (ip_bytes a)))"

definition relayDiversityKey :: "(string \<Rightarrow> nat) \<Rightarrow> (bytes \<Rightarrow> string) \<Rightarrow> jsval \<Rightarrow> jsval \<Rightarrow> bool \<Rightarrow> crypto_failure + string" where
  "relayDiversityKey isIP hex h prt allowLoopback =
     (case (normalizedIP isIP h, prt) of
        (Some a, JNum p) \<Rightarrow>
          if p \<le> 0 \<or> p > 65535 then Inl unavailable
          else if isAllZero (ip_bytes a) \<or> (if ip_family a = 4 then unat (ip_bytes a ! 0) \<ge> 224 else ip_bytes a ! 0 = 255) then Inl unavailable
          else if isLoopback (Some a) then
            (if \<not> allowLoopback then Inl unavailable
             else Inr (''loopback:'' @ showNum 5 10 (ip_family a) @ '':'' @ hex (ip_bytes a) @ '':'' @ showNum 5 10 (nat p)))
          else Inr (if ip_family a = 4 then ''ipv4/24:'' @ hex (take 3 (ip_bytes a)) else ''ipv6/48:'' @ hex (take 6 (ip_bytes a)))
      | _ \<Rightarrow> Inl unavailable)"

fun requireDiverseFrom :: "bytes list \<Rightarrow> jsval list \<Rightarrow> crypto_failure + unit" where
  "requireDiverseFrom seen [] = Inr ()"
| "requireDiverseFrom seen (v # vs) =
     (if \<not> isFixed v 32 then Inl invalidRoute
      else if bytesAt v \<in> set seen then Inl unavailable
      else requireDiverseFrom (bytesAt v # seen) vs)"

definition requireDiverse :: "jsval list \<Rightarrow> crypto_failure + unit" where
  "requireDiverse vs = requireDiverseFrom [] vs"

end
