(* ===== verification/Route_Properties.thy ===== *)
theory Route_Properties
  imports Route_Frames Overlay_Properties
begin

text \<open>
  What the formats of the private peer controller promise: logical frames have exactly one encoding, a
  destination's admission verifies at the guard it was made for, counters start in the lower half of their
  range, and relays that share a network share a diversity key.
\<close>

section \<open>Logical frames\<close>

definition logical_enc :: "nat \<times> nat \<times> bytes \<Rightarrow> crypto_failure + bytes" where
  "logical_enc = (\<lambda>(s, f, d). encodeLogical (JNum (int s)) (JNum (int f)) (presenceBuf d))"

definition logical_dec :: "bytes \<Rightarrow> crypto_failure + nat \<times> nat \<times> bytes" where
  "logical_dec bs = bindE (decodeLogical (presenceBuf bs)) (\<lambda>l. Inr (lf_streamId l, lf_flags l, lf_data l))"

lemma valid_flags: "validLogicalPayload s f d \<Longrightarrow> f \<le> LOGICAL_SPLICE_READY"
  by (auto simp: validLogicalPayload_def logical_flags split: jsval.splits if_splits)

lemma logical_enc_Inr:
  "logical_enc (s, f, d) = Inr bs \<longleftrightarrow> s < 2 ^ 32 \<and> validLogicalPayload (int s) (int f) (presenceBuf d)
     \<and> bs = be_bytes 4 s @ [word_of_nat f] @ d"
proof -
  have "int f \<le> 8" if "validLogicalPayload (int s) (int f) (presenceBuf d)"
    using valid_flags [OF that] by (simp add: logical_flags)
  then show ?thesis
    by (auto simp: logical_enc_def encodeLogical_def writeU32_def MAX_SAFE_INTEGER_def presenceBuf_def logical_flags)
qed

lemma logical_dec_Inr:
  "logical_dec bs = Inr (s, f, d) \<longleftrightarrow> 5 \<le> length bs \<and> s = be_nat (take 4 bs) \<and> f = unat (bs ! 4) \<and> d = drop 5 bs
     \<and> validLogicalPayload (int s) (int f) (presenceBuf d)"
  by (auto simp: logical_dec_def decodeLogical_def presenceBuf_def readU32_def LOGICAL_HEADER_BYTES_def Let_def bindE_Inr split: if_splits)

interpretation logical: strict_codec logical_enc logical_dec
proof
  fix x bs
  assume enc: "logical_enc x = Inr bs"
  obtain s f d where x: "x = (s, f, d)" by (cases x)
  with enc have v: "s < 2 ^ 32" "validLogicalPayload (int s) (int f) (presenceBuf d)" "bs = be_bytes 4 s @ [word_of_nat f] @ d"
    by (simp_all only: logical_enc_Inr)
  have "f < 256"
    using valid_flags [OF v(2)] by (simp add: logical_flags)
  then have "unat (word_of_nat f :: byte) = f"
    by (simp add: unsigned_of_nat take_bit_eq_mod)
  with v x show "logical_dec bs = Inr x"
    by (simp add: logical_dec_Inr be_simps nth_append)
next
  fix bs x
  assume dec: "logical_dec bs = Inr x"
  obtain s f d where x: "x = (s, f, d)" by (cases x)
  with dec have v: "5 \<le> length bs" "s = be_nat (take 4 bs)" "f = unat (bs ! 4)" "d = drop 5 bs"
      "validLogicalPayload (int s) (int f) (presenceBuf d)"
    by (auto simp only: logical_dec_Inr)
  have "be_bytes 4 s = take 4 bs"
    using be_bytes_be_nat [of "take 4 bs"] v(1,2) by simp
  moreover have "bs = take 4 bs @ [bs ! 4] @ drop 5 bs"
    using v(1) id_take_nth_drop [of 4 bs] by simp
  moreover have "s < 2 ^ 32"
    using be_nat_less [of "take 4 bs"] v(1,2) by simp
  ultimately show "logical_enc x = Inr bs"
    using v(2-5) x by (simp add: logical_enc_Inr)
qed

text \<open>
  logical frames. A payload of a cell decodes as a logical frame exactly when it is the encoding of the
  decoded stream, flags and data; in particular credit amounts outside their window never pass.
\<close>
theorem logical_frames_strict:
  "(\<exists>l. decodeLogical (presenceBuf bs) = Inr l \<and> lf_streamId l = s \<and> lf_flags l = f \<and> lf_data l = d)
     \<longleftrightarrow> encodeLogical (JNum (int s)) (JNum (int f)) (presenceBuf d) = Inr bs"
  using logical.decode_iff_encode [of bs "(s, f, d)"]
  by (auto simp: logical_enc_def logical_dec_def bindE_Inr)

section \<open>Route contexts and counters\<close>

definition context_ok :: "route_context \<Rightarrow> bool" where
  "context_ok c \<longleftrightarrow> length (rx_circuitId c) = 16 \<and> length (rx_forwardKey c) = 32 \<and> length (rx_forwardNonce c) = 16
     \<and> length (rx_reverseKey c) = 32 \<and> length (rx_reverseNonce c) = 16 \<and> 0 \<le> rx_epoch c \<and> rx_epoch c \<le> int MAX_COUNTER"

lemma context_roundtrip:
  assumes "context_ok c"
  shows "\<exists>w. encodeRouteContext c = Inr w \<and> decodeRouteContext (presenceBuf w) = Inr c"
proof -
  have "nat (rx_epoch c) < 18446744073709551616"
    using assms by (auto simp: context_ok_def MAX_COUNTER_def nat_less_iff)
  then have "be_nat (be_bytes 8 (nat (rx_epoch c))) = nat (rx_epoch c)"
    by (simp add: be_simps)
  with assms show ?thesis
    by (simp add: context_ok_def encodeRouteContext_def decodeRouteContext_def putU64_def presenceBuf_def isFixed_def
        ROUTE_CONTEXT_BYTES_def u64_def Let_def)
qed

lemma createRouteContext_ok:
  assumes "length (draw 0) = 8" "length (draw 1) = 16" "length (draw 2) = 32" "length (draw 3) = 16" "length (draw 4) = 32" "length (draw 5) = 16"
  shows "context_ok (createRouteContext draw)"
proof -
  have "be_nat (draw 0) < 18446744073709551616"
    using be_nat_less [of "draw 0"] assms(1) by simp
  with assms show ?thesis
    by (simp add: context_ok_def createRouteContext_def MAX_COUNTER_def)
qed

text \<open>At least half of the counters of a key are left when it starts at its origin.\<close>

lemma counterOrigin_bounds: "1 \<le> counterOrigin keyed k" "counterOrigin keyed k \<le> 2 ^ 63"
proof -
  have "(n AND 9223372036854775807 :: nat) = take_bit 63 n" for n
    by (simp add: take_bit_eq_mask mask_eq_exp_minus_1)
  then have "(n AND 9223372036854775807 :: nat) < 2 ^ 63" for n
    using take_bit_nat_less_exp [of 63 n] by simp
  then show "counterOrigin keyed k \<le> 2 ^ 63"
    by (simp add: counterOrigin_def Suc_le_eq)
qed (simp add: counterOrigin_def)

section \<open>Admission of a destination\<close>

text \<open>
  admission. What a destination signs for a challenge of its guard verifies there: with the documented
  algebra of Ed25519, \<open>verifyDestinationAdmission\<close> accepts the identity that
  \<open>signDestinationAdmission\<close> makes for the same challenge, connection and guard, and the identity shows the
  period and the blinded key, never the destination's own key.
\<close>
theorem admission_verifies:
  assumes "ed25519_laws E verify act padd B inGroup" "signDestinationAdmission E pk sk period challenge remote guard = Inr identity"
  shows "verifyDestinationAdmission verify (presenceBuf identity) challenge remote guard = Inr True
    \<and> (\<exists>A. deriveBlindedPublicKey E pk (JBig period) = Inr A \<and> take 40 identity = be_bytes 8 (nat period) @ A)"
proof -
  from assms(2) obtain s sig input where s: "createBlindedSigner E pk sk (JBig period) = Inr s"
    and input: "destinationAdmissionInput challenge remote guard (presenceBuf (be_bytes 8 (nat period) @ bs_publicKey s)) = Inr input"
    and sig: "signer_sign E s (presenceBuf input) = Inr sig"
    and identity: "identity = (be_bytes 8 (nat period) @ bs_publicKey s) @ sig"
    by (auto simp: signDestinationAdmission_def Let_def bindE_Inr putU64_Inr)
  note signer = ed25519_laws.signer_scalar [OF assms(1) s]
  have "signUnderBlinded E s input = Inr sig"
    using sig signer by (simp add: signer_sign_def presenceBuf_def)
  with ed25519_laws.signature_verifies [OF assms(1) _ _ _ this] signer
  have v: "verify sig input (bs_publicKey s)" "length sig = 64" by auto
  have len: "length (bs_publicKey s) = 32"
    using signer by blast
  have parts: "take 40 identity = be_bytes 8 (nat period) @ bs_publicKey s" "drop 40 identity = sig"
    "take 32 (drop 8 identity) = bs_publicKey s" "length identity = 104"
    using len v(2) by (simp_all add: identity)
  have "bytesAt (presenceBuf identity) = identity" "isFixed (presenceBuf identity) DESTINATION_ADMISSION_IDENTITY_BYTES"
    using parts(4) by (simp_all add: presenceBuf_def isFixed_def DESTINATION_ADMISSION_IDENTITY_BYTES_def DESTINATION_ADMISSION_SIGNATURE_BYTES_def)
  then show ?thesis
    using v(1) input signer parts by (simp add: verifyDestinationAdmission_def)
qed

theorem admission_verifies_witness:
  "\<exists>identity. signDestinationAdmission refEd (presenceBuf sample_identity) (presenceBuf (replicate 64 5)) 20000
      (presenceBuf (replicate 32 1)) (presenceBuf (replicate 32 2)) (presenceBuf (replicate 32 3)) = Inr identity
    \<and> verifyDestinationAdmission refVerify (presenceBuf identity) (presenceBuf (replicate 32 1)) (presenceBuf (replicate 32 2))
        (presenceBuf (replicate 32 3)) = Inr True"
proof -
  have "\<exists>identity. signDestinationAdmission refEd (presenceBuf sample_identity) (presenceBuf (replicate 64 5)) 20000
      (presenceBuf (replicate 32 1)) (presenceBuf (replicate 32 2)) (presenceBuf (replicate 32 3)) = Inr identity"
    unfolding signDestinationAdmission_def sample_signer_created
    by (simp add: putU64_def MAX_COUNTER_def destinationAdmissionInput_def isFixed_def presenceBuf_def
        DESTINATION_ADMISSION_CHALLENGE_BYTES_def signer_sign_def signUnderBlinded_def Let_def)
  then obtain identity where "signDestinationAdmission refEd (presenceBuf sample_identity) (presenceBuf (replicate 64 5)) 20000
      (presenceBuf (replicate 32 1)) (presenceBuf (replicate 32 2)) (presenceBuf (replicate 32 3)) = Inr identity" ..
  with admission_verifies [OF refed.ed25519_laws_axioms this] show ?thesis by blast
qed

end
