(* ===== verification/Credit_Pool.thy ===== *)
theory Credit_Pool
  imports Route_Frames
begin

text \<open>
  The circuit credit of a multiplexed route (class \<open>CircuitCreditPool\<close> of
  \<^verbatim>\<open>lib/private/private-peer-controller.js\<close>). A grant is reported through a callback that may call the
  pool again before \<open>_distribute\<close> goes on: the callback is an argument that says, for each grant, which
  calls it makes and whether it throws; \<open>cp_grants\<close> records every report in order. Legs are objects, so a leg carries an identity. The loop of
  \<open>_distribute\<close> need not end for every callback; not returning is \<open>None\<close>.
\<close>

section \<open>State\<close>

definition CREDIT_IDLE_MS :: int where "CREDIT_IDLE_MS = 50"
definition CREDIT_GRANT_IDLE_MS :: int where "CREDIT_GRANT_IDLE_MS = 6000"
definition DEMAND_PROGRESS :: nat where "DEMAND_PROGRESS = 32"
definition MAX_ROUTE_STREAMS :: nat where "MAX_ROUTE_STREAMS = 64"

record credit_leg =
  lg_id :: nat
  lg_granted :: nat
  lg_wanted :: nat
  lg_demandOpen :: bool
  lg_lastDemandAt :: int
  lg_progress :: nat
  lg_lastActivity :: int
  lg_idleTimer :: bool

record credit_pool =
  cp_available :: nat
  cp_inFlight :: nat
  cp_legs :: "(nat \<times> credit_leg) list"
  cp_pending :: "(nat \<times> nat) list"
  cp_distributing :: bool
  cp_closed :: bool
  cp_nextLeg :: nat
  cp_grants :: "(nat \<times> nat) list"

definition CircuitCreditPool_new :: credit_pool where
  "CircuitCreditPool_new = \<lparr>cp_available = CIRCUIT_WINDOW, cp_inFlight = 0, cp_legs = [], cp_pending = [],
     cp_distributing = False, cp_closed = False, cp_nextLeg = 0, cp_grants = []\<rparr>"

definition setLeg :: "nat \<Rightarrow> credit_leg \<Rightarrow> credit_pool \<Rightarrow> credit_pool" where
  "setLeg owner leg p = p\<lparr>cp_legs := AList.update owner leg (cp_legs p)\<rparr>"

abbreviation legOf :: "credit_pool \<Rightarrow> nat \<Rightarrow> credit_leg option" where
  "legOf p \<equiv> map_of (cp_legs p)"

section \<open>The calls, up to the distribution they end with\<close>

definition newLeg :: "nat \<Rightarrow> credit_leg" where
  "newLeg identity = \<lparr>lg_id = identity, lg_granted = 0, lg_wanted = 0, lg_demandOpen = False, lg_lastDemandAt = 0,
     lg_progress = DEMAND_PROGRESS, lg_lastActivity = 0, lg_idleTimer = False\<rparr>"

definition pool_add :: "nat \<Rightarrow> credit_pool \<Rightarrow> crypto_failure + credit_pool" where
  "pool_add owner p =
     (if cp_closed p \<or> length (cp_legs p) \<ge> MAX_ROUTE_STREAMS \<or> legOf p owner \<noteq> None then Inl unavailable
      else Inr (p\<lparr>cp_legs := cp_legs p @ [(owner, newLeg (cp_nextLeg p))], cp_nextLeg := Suc (cp_nextLeg p)\<rparr>))"

definition pool_cancel :: "nat \<Rightarrow> credit_pool \<Rightarrow> credit_pool" where
  "pool_cancel owner p =
     (case legOf p owner of
        None \<Rightarrow> p
      | Some leg \<Rightarrow> (setLeg owner (leg\<lparr>lg_wanted := 0, lg_demandOpen := False\<rparr>) p)
          \<lparr>cp_pending := filter (\<lambda>c. c \<noteq> (owner, lg_id leg)) (cp_pending p)\<rparr>)"

definition pool_demand :: "nat \<Rightarrow> int \<Rightarrow> bool \<Rightarrow> int \<Rightarrow> credit_pool \<Rightarrow> crypto_failure + credit_pool" where
  "pool_demand owner amount rateLimited now p =
     (case legOf p owner of
        None \<Rightarrow> Inl invalidRoute
      | Some leg \<Rightarrow>
          if cp_closed p \<or> amount < 0 \<or> amount > int CIRCUIT_WINDOW then Inl invalidRoute
          else if amount = 0 then (if \<not> lg_demandOpen leg then Inl invalidRoute else Inr (pool_cancel owner p))
          else if lg_wanted leg \<noteq> 0 \<or> lg_granted leg + nat amount > CIRCUIT_WINDOW then Inl invalidRoute
          else if rateLimited \<and> lg_progress leg < DEMAND_PROGRESS \<and> now - lg_lastDemandAt leg < CREDIT_IDLE_MS then Inl invalidRoute
          else Inr ((setLeg owner (leg\<lparr>lg_lastDemandAt := now, lg_progress := lg_progress leg - DEMAND_PROGRESS,
              lg_demandOpen := True, lg_wanted := nat amount\<rparr>) p)\<lparr>cp_pending := cp_pending p @ [(owner, lg_id leg)]\<rparr>))"

definition clearIdle :: "credit_leg \<Rightarrow> credit_leg" where
  "clearIdle leg = (if lg_granted leg = 0 then leg\<lparr>lg_idleTimer := False\<rparr> else leg)"

definition pool_sent :: "nat \<Rightarrow> int \<Rightarrow> int \<Rightarrow> credit_pool \<Rightarrow> crypto_failure + credit_pool" where
  "pool_sent owner amount now p =
     (case legOf p owner of
        None \<Rightarrow> Inl invalidRoute
      | Some leg \<Rightarrow>
          if cp_closed p \<or> amount < 1 \<or> amount > int (lg_granted leg) then Inl invalidRoute
          else Inr ((setLeg owner (clearIdle (leg\<lparr>lg_granted := lg_granted leg - nat amount,
              lg_progress := min (2 * DEMAND_PROGRESS) (lg_progress leg + nat amount), lg_lastActivity := now\<rparr>)) p)
            \<lparr>cp_inFlight := cp_inFlight p + nat amount\<rparr>))"

definition pool_touch :: "nat \<Rightarrow> int \<Rightarrow> credit_pool \<Rightarrow> credit_pool" where
  "pool_touch owner now p =
     (case legOf p owner of
        None \<Rightarrow> p
      | Some leg \<Rightarrow> if \<not> cp_closed p \<and> lg_granted leg > 0 then setLeg owner (leg\<lparr>lg_lastActivity := now\<rparr>) p else p)"

definition pool_returned :: "int \<Rightarrow> credit_pool \<Rightarrow> crypto_failure + credit_pool" where
  "pool_returned amount p =
     (if cp_closed p \<or> amount < 1 \<or> amount > int (cp_inFlight p) then Inl invalidRoute
      else Inr (p\<lparr>cp_inFlight := cp_inFlight p - nat amount, cp_available := cp_available p + nat amount\<rparr>))"

definition pool_release :: "nat \<Rightarrow> int \<Rightarrow> credit_pool \<Rightarrow> crypto_failure + credit_pool" where
  "pool_release owner amount p =
     (case legOf p owner of
        None \<Rightarrow> Inl invalidRoute
      | Some leg \<Rightarrow>
          if cp_closed p \<or> amount < 1 \<or> amount > int (lg_granted leg) then Inl invalidRoute
          else Inr ((setLeg owner (clearIdle (leg\<lparr>lg_granted := lg_granted leg - nat amount\<rparr>)) p)
            \<lparr>cp_available := cp_available p + nat amount\<rparr>))"

definition pool_remove :: "nat \<Rightarrow> credit_pool \<Rightarrow> credit_pool" where
  "pool_remove owner p =
     (case legOf p owner of
        None \<Rightarrow> p
      | Some leg \<Rightarrow> (pool_cancel owner p)\<lparr>cp_legs := AList.delete owner (cp_legs p), cp_available := cp_available p + lg_granted leg\<rparr>)"

definition pool_destroy :: "credit_pool \<Rightarrow> credit_pool" where
  "pool_destroy p = p\<lparr>cp_closed := True, cp_pending := [], cp_legs := [], cp_available := 0, cp_inFlight := 0\<rparr>"

text \<open>The idle timer of a leg: it is armed again, or the owner is told; \<open>busy\<close> says that input is waiting.\<close>

definition idleFired :: "nat \<Rightarrow> nat \<Rightarrow> bool \<Rightarrow> int \<Rightarrow> credit_pool \<Rightarrow> credit_pool \<times> bool" where
  "idleFired owner identity busy now p =
     (case legOf p owner of
        None \<Rightarrow> (p, False)
      | Some leg \<Rightarrow>
          if lg_id leg \<noteq> identity then (p, False)
          else if cp_closed p \<or> lg_granted leg = 0 then (setLeg owner (leg\<lparr>lg_idleTimer := False\<rparr>) p, False)
          else if busy then (setLeg owner (leg\<lparr>lg_lastActivity := now, lg_idleTimer := True\<rparr>) p, False)
          else if CREDIT_GRANT_IDLE_MS - (now - lg_lastActivity leg) > 0 then (setLeg owner (leg\<lparr>lg_idleTimer := True\<rparr>) p, False)
          else (setLeg owner (leg\<lparr>lg_idleTimer := False\<rparr>) p, True))"

datatype pool_call =
    Add nat
  | Demand nat int bool int
  | Sent nat int int
  | Touch nat int
  | Returned int
  | Release nat int
  | Cancel nat
  | Remove nat
  | IdleTimer nat nat bool int
  | Destroy

fun callPool :: "pool_call \<Rightarrow> credit_pool \<Rightarrow> crypto_failure + credit_pool" where
  "callPool (Add owner) p = pool_add owner p"
| "callPool (Demand owner amount limited now) p = pool_demand owner amount limited now p"
| "callPool (Sent owner amount now) p = pool_sent owner amount now p"
| "callPool (Touch owner now) p = Inr (pool_touch owner now p)"
| "callPool (Returned amount) p = pool_returned amount p"
| "callPool (Release owner amount) p = pool_release owner amount p"
| "callPool (Cancel owner) p = Inr (pool_cancel owner p)"
| "callPool (Remove owner) p = Inr (pool_remove owner p)"
| "callPool (IdleTimer owner identity busy now) p = Inr (fst (idleFired owner identity busy now p))"
| "callPool Destroy p = Inr (pool_destroy p)"

text \<open>Which calls go on to distribute.\<close>

fun distributes :: "pool_call \<Rightarrow> credit_pool \<Rightarrow> bool" where
  "distributes (Demand owner amount limited now) p \<longleftrightarrow> amount \<noteq> 0"
| "distributes (Returned amount) p \<longleftrightarrow> True"
| "distributes (Release owner amount) p \<longleftrightarrow> True"
| "distributes (Remove owner) p \<longleftrightarrow> legOf p owner \<noteq> None"
| "distributes _ p \<longleftrightarrow> False"

section \<open>Distribution\<close>

text \<open>
  What a callback does at the \<open>k\<close>-th grant of a distribution: it calls the pool, where every nested
  distribution returns at once because one is running, and may throw.
\<close>

type_synonym grant_callback = "nat \<Rightarrow> nat \<Rightarrow> nat \<Rightarrow> pool_call list \<times> bool"

definition reenter :: "pool_call list \<Rightarrow> credit_pool \<Rightarrow> credit_pool" where
  "reenter calls p = fold (\<lambda>c p. case callPool c p of Inl _ \<Rightarrow> p | Inr p' \<Rightarrow> p') calls p"

text \<open>One turn of the inner loop: the first pending leg gets its share, or is dropped when it is stale.\<close>

definition grantNext :: "nat \<Rightarrow> int \<Rightarrow> credit_pool \<Rightarrow> credit_pool \<times> (nat \<times> nat) option" where
  "grantNext share now p =
     (let (owner, identity) = hd (cp_pending p); p = p\<lparr>cp_pending := tl (cp_pending p)\<rparr>
      in case legOf p owner of
        None \<Rightarrow> (p, None)
      | Some leg \<Rightarrow>
          if lg_id leg \<noteq> identity \<or> lg_wanted leg = 0 then (p, None)
          else (let amount = min (min share (lg_wanted leg)) (cp_available p)
            in ((setLeg owner (leg\<lparr>lg_granted := lg_granted leg + amount, lg_wanted := lg_wanted leg - amount,
                   lg_lastActivity := now, lg_idleTimer := True\<rparr>) p)
                 \<lparr>cp_pending := (if lg_wanted leg - amount > 0 then cp_pending p @ [(owner, identity)] else cp_pending p),
                  cp_available := cp_available p - amount, cp_grants := cp_grants p @ [(owner, amount)]\<rparr>,
                Some (owner, amount))))"

partial_function (option) distributeLoop ::
    "grant_callback \<Rightarrow> (nat \<Rightarrow> int) \<Rightarrow> nat \<Rightarrow> nat \<Rightarrow> nat \<Rightarrow> credit_pool \<Rightarrow> (credit_pool \<times> bool) option" where
  "distributeLoop cb clock k share left p =
     (if cp_available p = 0 \<or> cp_pending p = [] then Some (p, False)
      else if left = 0 then distributeLoop cb clock k (max 1 (cp_available p div length (cp_pending p))) (length (cp_pending p)) p
      else (case grantNext share (clock k) p of
        (p', None) \<Rightarrow> distributeLoop cb clock k share (left - 1) p'
      | (p', Some (owner, amount)) \<Rightarrow>
          if snd (cb k owner amount) then Some (reenter (fst (cb k owner amount)) p', True)
          else distributeLoop cb clock (Suc k) share (left - 1) (reenter (fst (cb k owner amount)) p')))"

definition distribute :: "grant_callback \<Rightarrow> (nat \<Rightarrow> int) \<Rightarrow> credit_pool \<Rightarrow> (credit_pool \<times> bool) option" where
  "distribute cb clock p =
     (if cp_closed p \<or> cp_distributing p then Some (p, False)
      else map_option (\<lambda>(p', threw). (p'\<lparr>cp_distributing := False\<rparr>, threw)) (distributeLoop cb clock 0 0 0 (p\<lparr>cp_distributing := True\<rparr>)))"

text \<open>A call from outside: its own effect, then the distribution.\<close>

definition pool_step :: "grant_callback \<Rightarrow> (nat \<Rightarrow> int) \<Rightarrow> pool_call \<Rightarrow> credit_pool \<Rightarrow> (credit_pool \<times> (crypto_failure + bool)) option" where
  "pool_step cb clock c p =
     (case callPool c p of
        Inl e \<Rightarrow> Some (p, Inl e)
      | Inr p' \<Rightarrow>
          if distributes c p then map_option (\<lambda>(q, threw). (q, Inr threw)) (distribute cb clock p') else Some (p', Inr False))"

end
