(* ===== verification/Credit_Properties.thy ===== *)
theory Credit_Properties
  imports Credit_Pool
begin

text \<open>
  Credit of a circuit is conserved whatever the calls, the callbacks and their re-entrant calls, and a
  distribution whose callbacks ask for nothing ends with no credit left or no demand open.
\<close>

section \<open>Legs\<close>

definition grantedSum :: "credit_pool \<Rightarrow> nat" where
  "grantedSum p = sum_list (map (\<lambda>(_, l). lg_granted l) (cp_legs p))"

lemma sum_list_update_key:
  assumes "distinct (map fst xs)" "map_of xs k = Some v"
  shows "sum_list (map (\<lambda>(_, l). f l) (AList.update k v' xs)) + f v = sum_list (map (\<lambda>(_, l). f l) xs) + (f v' :: nat)"
  using assms by (induction xs) (auto split: if_splits)

lemma sum_list_delete_key:
  assumes "distinct (map fst xs)" "map_of xs k = Some v"
  shows "sum_list (map (\<lambda>(_, l). f l) (AList.delete k xs)) + f v = sum_list (map (\<lambda>(_, l). f l) xs :: nat list)"
  using assms
proof (induction xs)
  case (Cons x xs)
  show ?case
  proof (cases "fst x = k")
    case True
    then have "AList.delete k xs = xs"
      using Cons.prems(1) by (auto simp: AList.delete_eq filter_id_conv rev_image_eqI)
    with True Cons.prems show ?thesis by (cases x) (simp add: AList.delete_eq)
  next
    case False
    with Cons show ?thesis by (cases x) (simp add: AList.delete_eq)
  qed
qed simp

lemma update_members:
  assumes "distinct (map fst xs)" "(k', w) \<in> set (AList.update k v xs)"
  shows "k' = k \<and> w = v \<or> k' \<noteq> k \<and> (k', w) \<in> set xs"
proof -
  have "distinct (map fst (AList.update k v xs))"
    using assms(1) by (rule distinct_update)
  then have "map_of (AList.update k v xs) k' = Some w"
    using assms(2) by simp
  then show ?thesis
    by (auto simp: update_conv' dest: map_of_SomeD split: if_splits)
qed

section \<open>The invariant\<close>

definition leg_ok :: "(nat \<times> nat) list \<Rightarrow> nat \<Rightarrow> credit_leg \<Rightarrow> bool" where
  "leg_ok pending owner l \<longleftrightarrow> lg_granted l + lg_wanted l \<le> CIRCUIT_WINDOW \<and> (0 < lg_wanted l \<longrightarrow> (owner, lg_id l) \<in> set pending)"

definition pool_inv :: "credit_pool \<Rightarrow> bool" where
  "pool_inv p \<longleftrightarrow> distinct (map fst (cp_legs p)) \<and> (\<forall>(owner, l)\<in>set (cp_legs p). leg_ok (cp_pending p) owner l)
     \<and> (if cp_closed p then cp_legs p = [] \<and> cp_pending p = [] \<and> cp_available p = 0 \<and> cp_inFlight p = 0
        else cp_available p + grantedSum p + cp_inFlight p = CIRCUIT_WINDOW)"

text \<open>Replacing one leg, with the available and travelling credit adjusted to it.\<close>

lemma setLeg_inv:
  assumes "pool_inv p" "legOf p owner = Some l" "\<not> cp_closed p" "leg_ok pending owner l'"
    and "\<And>o' l. (o', l) \<in> set (cp_legs p) \<Longrightarrow> o' \<noteq> owner \<Longrightarrow> leg_ok (cp_pending p) o' l \<Longrightarrow> leg_ok pending o' l"
    and "a + lg_granted l' + f = cp_available p + lg_granted l + cp_inFlight p"
  shows "pool_inv ((setLeg owner l' p)\<lparr>cp_pending := pending, cp_available := a, cp_inFlight := f\<rparr>)"
proof -
  have d: "distinct (map fst (cp_legs p))"
    using assms(1) by (simp add: pool_inv_def)
  have "grantedSum (setLeg owner l' p) + lg_granted l = grantedSum p + lg_granted l'"
    unfolding grantedSum_def setLeg_def using sum_list_update_key [OF d assms(2)] by simp
  moreover have "grantedSum ((setLeg owner l' p)\<lparr>cp_pending := pending, cp_available := a, cp_inFlight := f\<rparr>) = grantedSum (setLeg owner l' p)"
    by (simp add: grantedSum_def)
  moreover have "cp_available p + grantedSum p + cp_inFlight p = CIRCUIT_WINDOW"
    using assms(1,3) by (simp add: pool_inv_def)
  ultimately have "a + grantedSum ((setLeg owner l' p)\<lparr>cp_pending := pending, cp_available := a, cp_inFlight := f\<rparr>) + f = CIRCUIT_WINDOW"
    using assms(6) by linarith
  moreover have "leg_ok pending o' w" if "(o', w) \<in> set (cp_legs (setLeg owner l' p))" for o' w
    using update_members [OF d that [unfolded setLeg_def, simplified]] assms(1,4,5) unfolding pool_inv_def by blast
  moreover have "distinct (map fst (cp_legs (setLeg owner l' p)))"
    using d by (simp add: setLeg_def distinct_update)
  ultimately show ?thesis
    using assms(3) by (auto simp: pool_inv_def setLeg_def)
qed

lemma pool_leg:
  assumes "pool_inv p" "legOf p owner = Some l"
  shows "leg_ok (cp_pending p) owner l" "\<not> cp_closed p" "(owner, l) \<in> set (cp_legs p)"
proof -
  show m: "(owner, l) \<in> set (cp_legs p)"
    using assms(2) by (rule map_of_SomeD)
  with assms(1) show "leg_ok (cp_pending p) owner l" "\<not> cp_closed p"
    by (auto simp: pool_inv_def split: if_splits)
qed

text \<open>A leg whose credit and demand stay as they are.\<close>

lemma setLeg_same_inv:
  assumes "pool_inv p" "legOf p owner = Some l" "lg_granted l' = lg_granted l" "lg_wanted l' = lg_wanted l" "lg_id l' = lg_id l"
  shows "pool_inv (setLeg owner l' p)"
  using setLeg_inv [OF assms(1,2) pool_leg(2) [OF assms(1,2)], of "cp_pending p" l' "cp_available p" "cp_inFlight p"]
    pool_leg(1) [OF assms(1,2)] assms(3-5) by (simp add: leg_ok_def setLeg_def)

lemma clearIdle_fields [simp]:
  "lg_granted (clearIdle l) = lg_granted l" "lg_wanted (clearIdle l) = lg_wanted l" "lg_id (clearIdle l) = lg_id l"
  by (simp_all add: clearIdle_def)

lemma leg_ok_mono: "leg_ok pending owner l \<Longrightarrow> set pending \<subseteq> set pending' \<Longrightarrow> leg_ok pending' owner l"
  by (auto simp: leg_ok_def)

lemma cancel_inv:
  assumes "pool_inv p"
  shows "pool_inv (pool_cancel owner p)"
proof (cases "legOf p owner")
  case (Some l)
  have "pool_inv ((setLeg owner (l\<lparr>lg_wanted := 0, lg_demandOpen := False\<rparr>) p)
      \<lparr>cp_pending := filter (\<lambda>c. c \<noteq> (owner, lg_id l)) (cp_pending p), cp_available := cp_available p, cp_inFlight := cp_inFlight p\<rparr>)"
    by (rule setLeg_inv [OF assms Some pool_leg(2) [OF assms Some]]) (use pool_leg(1) [OF assms Some] in \<open>auto simp: leg_ok_def\<close>)
  then show ?thesis
    using Some by (simp add: pool_cancel_def setLeg_def)
qed (simp add: pool_cancel_def assms)

lemma remove_inv:
  assumes "pool_inv p"
  shows "pool_inv (pool_remove owner p)"
proof (cases "legOf p owner")
  case (Some l)
  have d: "distinct (map fst (cp_legs p))" and open': "\<not> cp_closed p"
    using assms pool_leg [OF assms Some] by (simp_all add: pool_inv_def)
  have "grantedSum (pool_remove owner p) + lg_granted l = grantedSum p"
    unfolding grantedSum_def using sum_list_delete_key [OF d Some] Some by (simp add: pool_remove_def)
  moreover have "leg_ok (filter (\<lambda>c. c \<noteq> (owner, lg_id l)) (cp_pending p)) o' w" if "(o', w) \<in> set (AList.delete owner (cp_legs p))" for o' w
    using that assms by (auto simp: pool_inv_def leg_ok_def)
  moreover have "distinct (map fst (AList.delete owner (cp_legs p)))"
    using d by (simp add: distinct_delete)
  ultimately show ?thesis
    using assms Some open' by (auto simp: pool_inv_def pool_remove_def pool_cancel_def setLeg_def)
qed (simp add: pool_remove_def assms)

lemma callPool_inv:
  assumes "pool_inv p" "callPool c p = Inr q"
  shows "pool_inv q"
proof (cases c)
  case (Add owner)
  then have q: "\<not> cp_closed p" "legOf p owner = None"
    "q = p\<lparr>cp_legs := cp_legs p @ [(owner, newLeg (cp_nextLeg p))], cp_nextLeg := Suc (cp_nextLeg p)\<rparr>"
    using assms(2) by (auto simp: pool_add_def split: if_splits)
  have "owner \<notin> fst ` set (cp_legs p)"
    using q(2) by (simp add: map_of_eq_None_iff)
  with assms(1) q(1,3) show ?thesis
    by (auto simp: pool_inv_def grantedSum_def leg_ok_def newLeg_def)
next
  case (Demand owner amount limited now)
  with assms(2) obtain l where l: "legOf p owner = Some l"
    by (cases "legOf p owner") (auto simp: pool_demand_def)
  note leg = pool_leg [OF assms(1) l]
  show ?thesis
  proof (cases "amount = 0")
    case True
    with Demand assms l show ?thesis
      by (auto simp: pool_demand_def cancel_inv split: if_splits)
  next
    case False
    let ?l = "l\<lparr>lg_lastDemandAt := now, lg_progress := lg_progress l - DEMAND_PROGRESS, lg_demandOpen := True, lg_wanted := nat amount\<rparr>"
    have q: "lg_granted l + nat amount \<le> CIRCUIT_WINDOW"
      "q = (setLeg owner ?l p)\<lparr>cp_pending := cp_pending p @ [(owner, lg_id l)]\<rparr>"
      using assms(2) Demand l False by (auto simp: pool_demand_def split: if_splits)
    have "pool_inv ((setLeg owner ?l p)\<lparr>cp_pending := cp_pending p @ [(owner, lg_id l)], cp_available := cp_available p, cp_inFlight := cp_inFlight p\<rparr>)"
      by (rule setLeg_inv [OF assms(1) l leg(2)]) (use q(1) in \<open>auto simp: leg_ok_def\<close>)
    then show ?thesis
      by (simp add: q(2) setLeg_def)
  qed
next
  case (Sent owner amount now)
  with assms(2) obtain l where l: "legOf p owner = Some l"
    by (cases "legOf p owner") (auto simp: pool_sent_def)
  note leg = pool_leg [OF assms(1) l]
  let ?l = "clearIdle (l\<lparr>lg_granted := lg_granted l - nat amount,
      lg_progress := min (2 * DEMAND_PROGRESS) (lg_progress l + nat amount), lg_lastActivity := now\<rparr>)"
  have q: "1 \<le> amount" "nat amount \<le> lg_granted l" "q = (setLeg owner ?l p)\<lparr>cp_inFlight := cp_inFlight p + nat amount\<rparr>"
    using assms(2) Sent l by (auto simp: pool_sent_def split: if_splits)
  have "pool_inv ((setLeg owner ?l p)\<lparr>cp_pending := cp_pending p, cp_available := cp_available p, cp_inFlight := cp_inFlight p + nat amount\<rparr>)"
    by (rule setLeg_inv [OF assms(1) l leg(2)]) (use q(1,2) leg(1) in \<open>auto simp: leg_ok_def\<close>)
  then show ?thesis
    by (simp add: q(3) setLeg_def)
next
  case (Touch owner now)
  with assms setLeg_same_inv [OF assms(1), of owner] show ?thesis
    by (auto simp: pool_touch_def split: option.splits)
next
  case (Returned amount)
  with assms show ?thesis
    by (auto simp: pool_returned_def pool_inv_def grantedSum_def split: if_splits)
next
  case (Release owner amount)
  with assms(2) obtain l where l: "legOf p owner = Some l"
    by (cases "legOf p owner") (auto simp: pool_release_def)
  note leg = pool_leg [OF assms(1) l]
  let ?l = "clearIdle (l\<lparr>lg_granted := lg_granted l - nat amount\<rparr>)"
  have q: "1 \<le> amount" "nat amount \<le> lg_granted l" "q = (setLeg owner ?l p)\<lparr>cp_available := cp_available p + nat amount\<rparr>"
    using assms(2) Release l by (auto simp: pool_release_def split: if_splits)
  have "pool_inv ((setLeg owner ?l p)\<lparr>cp_pending := cp_pending p, cp_available := cp_available p + nat amount, cp_inFlight := cp_inFlight p\<rparr>)"
    by (rule setLeg_inv [OF assms(1) l leg(2)]) (use q(1,2) leg(1) in \<open>auto simp: leg_ok_def\<close>)
  then show ?thesis
    by (simp add: q(3) setLeg_def)
next
  case (Cancel owner)
  with assms cancel_inv show ?thesis by auto
next
  case (Remove owner)
  with assms remove_inv show ?thesis by auto
next
  case (IdleTimer owner identity busy now)
  with assms setLeg_same_inv [OF assms(1), of owner] show ?thesis
    by (auto simp: idleFired_def split: option.splits)
next
  case Destroy
  with assms show ?thesis
    by (auto simp: pool_destroy_def pool_inv_def)
qed

lemma reenter_inv: "pool_inv p \<Longrightarrow> pool_inv (reenter calls p)"
  unfolding reenter_def
  by (induction calls arbitrary: p) (auto intro: callPool_inv split: sum.split)

lemma pool_inv_grants [simp]: "pool_inv (p\<lparr>cp_grants := g\<rparr>) \<longleftrightarrow> pool_inv p"
  by (simp add: pool_inv_def grantedSum_def)

lemma grantNext_inv:
  assumes "pool_inv p" "cp_pending p \<noteq> []"
  shows "pool_inv (fst (grantNext share now p))"
proof -
  obtain owner identity rest where pend: "cp_pending p = (owner, identity) # rest"
    using assms(2) by (metis neq_Nil_conv surj_pair)
  have drop: "pool_inv (p\<lparr>cp_pending := rest\<rparr>)"
    if "\<And>l. legOf p owner = Some l \<Longrightarrow> lg_id l = identity \<Longrightarrow> lg_wanted l = 0"
  proof -
    have "leg_ok rest o' l" if m: "(o', l) \<in> set (cp_legs p)" for o' l
    proof -
      have "legOf p o' = Some l"
        using m assms(1) by (simp add: pool_inv_def)
      with that m show ?thesis
        using \<open>\<And>l. legOf p owner = Some l \<Longrightarrow> lg_id l = identity \<Longrightarrow> lg_wanted l = 0\<close> [of l] assms(1) pend
        by (fastforce simp: pool_inv_def leg_ok_def)
    qed
    with assms(1) pend show ?thesis
      by (auto simp: pool_inv_def grantedSum_def split: if_splits)
  qed
  show ?thesis
  proof (cases "legOf p owner")
    case None
    then show ?thesis
      using drop by (simp add: grantNext_def pend Let_def)
  next
    case (Some l)
    show ?thesis
    proof (cases "lg_id l \<noteq> identity \<or> lg_wanted l = 0")
      case True
      then show ?thesis
        using drop Some by (simp add: grantNext_def pend Let_def)
    next
      case False
      note leg = pool_leg [OF assms(1) Some]
      let ?a = "min (min share (lg_wanted l)) (cp_available p)"
      let ?l = "l\<lparr>lg_granted := lg_granted l + ?a, lg_wanted := lg_wanted l - ?a, lg_lastActivity := now, lg_idleTimer := True\<rparr>"
      let ?pend = "if lg_wanted l - ?a > 0 then rest @ [(owner, identity)] else rest"
      have "pool_inv ((setLeg owner ?l p)\<lparr>cp_pending := ?pend, cp_available := cp_available p - ?a, cp_inFlight := cp_inFlight p\<rparr>)"
        by (rule setLeg_inv [OF assms(1) Some leg(2)])
          (use leg(1) False pend in \<open>auto simp: leg_ok_def\<close>)
      moreover have "fst (grantNext share now p) = (setLeg owner ?l p)\<lparr>cp_pending := ?pend, cp_available := cp_available p - ?a,
          cp_grants := cp_grants p @ [(owner, ?a)]\<rparr>"
        using False Some by (simp add: grantNext_def pend Let_def setLeg_def)
      ultimately show ?thesis
        by (simp add: setLeg_def)
    qed
  qed
qed

lemma distributeLoop_inv:
  assumes "distributeLoop cb clock k share left p = Some r"
  shows "pool_inv p \<longrightarrow> pool_inv (fst r) \<and> (\<not> snd r \<longrightarrow> cp_available (fst r) = 0 \<or> cp_pending (fst r) = [])"
proof (rule distributeLoop.raw_induct [OF _ assms, where P = "\<lambda>_ _ _ _ _ p r. pool_inv p \<longrightarrow>
    pool_inv (fst r) \<and> (\<not> snd r \<longrightarrow> cp_available (fst r) = 0 \<or> cp_pending (fst r) = [])"], rule impI, goal_cases)
  case (1 loop cb clock k share left p r)
  obtain p' g where g: "grantNext share (clock k) p = (p', g)" by force
  have "cp_pending p \<noteq> [] \<Longrightarrow> pool_inv p'"
    using grantNext_inv [OF 1(3), of share "clock k"] g by simp
  then have inv: "cp_pending p \<noteq> [] \<Longrightarrow> pool_inv p'" "cp_pending p \<noteq> [] \<Longrightarrow> pool_inv (reenter calls p')" for calls
    by (simp_all add: reenter_inv)
  show ?case
  proof (cases "cp_available p = 0 \<or> cp_pending p = []")
    case True
    with 1(2,3) show ?thesis by auto
  next
    case False
    show ?thesis
    proof (cases "left = 0")
      case True
      with False 1(1) [of _ _ _ _ _ p r] 1(2,3) show ?thesis by simp
    next
      case left: False
      show ?thesis
      proof (cases g)
        case None
        with False left 1(1) [of _ _ _ _ _ p' r] 1(2) inv(1) g show ?thesis by simp
      next
        case (Some og)
        obtain owner amount where og: "og = (owner, amount)" by force
        show ?thesis
        proof (cases "snd (cb k owner amount)")
          case True
          with False left 1(2) inv(2) g Some og show ?thesis by auto
        next
          case nothrow: False
          with False left 1(1) [of _ _ _ _ _ "reenter (fst (cb k owner amount)) p'" r] 1(2) inv(2) g Some og show ?thesis by simp
        qed
      qed
    qed
  qed
qed

lemma pool_inv_distributing [simp]: "pool_inv (p\<lparr>cp_distributing := b\<rparr>) \<longleftrightarrow> pool_inv p"
  by (simp add: pool_inv_def grantedSum_def)

lemma distribute_inv:
  assumes "distribute cb clock p = Some (q, threw)" "pool_inv p"
  shows "pool_inv q"
  using assms distributeLoop_inv [of cb clock 0 0 0 "p\<lparr>cp_distributing := True\<rparr>"]
  by (auto simp: distribute_def split: if_splits)

lemma pool_step_inv:
  assumes "pool_step cb clock c p = Some (q, r)" "pool_inv p"
  shows "pool_inv q"
  using assms callPool_inv [OF assms(2)] distribute_inv
  by (auto simp: pool_step_def split: sum.splits if_splits)

definition pool_moves :: "credit_pool \<Rightarrow> credit_pool \<Rightarrow> bool" where
  "pool_moves p q \<longleftrightarrow> (\<exists>cb clock c r. pool_step cb clock c p = Some (q, r))"

text \<open>
  C24: credit is conserved. Over any sequence of calls, with any callbacks and whatever these call in turn,
  an open pool has exactly its window of credit: what is available, what is granted to legs and what is in
  flight.
\<close>
theorem credit_conserved:
  assumes "pool_moves\<^sup>*\<^sup>* CircuitCreditPool_new p" "\<not> cp_closed p"
  shows "cp_available p + grantedSum p + cp_inFlight p = CIRCUIT_WINDOW"
proof -
  have "pool_inv CircuitCreditPool_new"
    by (simp add: pool_inv_def CircuitCreditPool_new_def grantedSum_def)
  with assms(1) have "pool_inv p"
    by (induction rule: rtranclp_induct) (auto simp: pool_moves_def intro: pool_step_inv)
  with assms(2) show ?thesis
    by (simp add: pool_inv_def)
qed

section \<open>Termination and fairness\<close>

fun asks :: "pool_call \<Rightarrow> bool" where
  "asks (Demand _ _ _ _) = True"
| "asks _ = False"

definition quiet :: "grant_callback \<Rightarrow> bool" where
  "quiet cb \<longleftrightarrow> (\<forall>k owner amount. \<not> snd (cb k owner amount) \<and> list_all (\<lambda>c. \<not> asks c) (fst (cb k owner amount)))"

definition openDemand :: "credit_pool \<Rightarrow> nat \<times> nat \<Rightarrow> nat" where
  "openDemand p e = (case legOf p (fst e) of None \<Rightarrow> 0 | Some l \<Rightarrow> if lg_id l = snd e then lg_wanted l else 0)"

definition workLeft :: "credit_pool \<Rightarrow> nat" where
  "workLeft p = sum_list (map (\<lambda>e. Suc (openDemand p e)) (cp_pending p))"

lemma sum_list_filter_le:
  "(\<And>x. f x \<le> g x) \<Longrightarrow> sum_list (map f (filter P xs)) \<le> sum_list (map g xs :: nat list)"
  by (induction xs) (auto intro: add_mono le_SucI trans_le_add2)

lemma quiet_call:
  assumes "callPool c p = Inr q" "\<not> asks c"
  shows "workLeft q \<le> workLeft p"
proof -
  have "(\<exists>P. cp_pending q = filter P (cp_pending p)) \<and> (\<forall>e. openDemand q e \<le> openDemand p e)"
  proof (cases c)
    case (Add owner)
    then have "cp_pending q = cp_pending p" "cp_legs q = cp_legs p @ [(owner, newLeg (cp_nextLeg p))]"
      using assms(1) by (auto simp: pool_add_def split: if_splits)
    moreover from this have "openDemand q e \<le> openDemand p e" for e
      by (auto simp: openDemand_def map_add_def newLeg_def split: option.splits)
    ultimately show ?thesis
      by (auto intro: exI [of _ "\<lambda>_. True"])
  next
    case (Sent owner amount now)
    with assms(1) show ?thesis
      by (auto simp: pool_sent_def openDemand_def setLeg_def update_conv' split: option.splits if_splits intro: exI [of _ "\<lambda>_. True"])
  next
    case (Touch owner now)
    with assms(1) show ?thesis
      by (auto simp: pool_touch_def openDemand_def setLeg_def update_conv' split: option.splits if_splits intro: exI [of _ "\<lambda>_. True"])
  next
    case (Returned amount)
    with assms(1) show ?thesis
      by (auto simp: pool_returned_def openDemand_def split: if_splits intro: exI [of _ "\<lambda>_. True"])
  next
    case (Release owner amount)
    with assms(1) show ?thesis
      by (auto simp: pool_release_def openDemand_def setLeg_def update_conv' split: option.splits if_splits intro: exI [of _ "\<lambda>_. True"])
  next
    case (Cancel owner)
    with assms(1) show ?thesis
      by (auto simp: pool_cancel_def openDemand_def setLeg_def update_conv' split: option.splits if_splits intro: exI [of _ "\<lambda>_. True"])
  next
    case (Remove owner)
    with assms(1) show ?thesis
      by (auto simp: pool_remove_def pool_cancel_def openDemand_def setLeg_def delete_conv' split: option.splits if_splits intro: exI [of _ "\<lambda>_. True"])
  next
    case (IdleTimer owner identity busy now)
    with assms(1) show ?thesis
      by (auto simp: idleFired_def openDemand_def setLeg_def update_conv' split: option.splits if_splits intro: exI [of _ "\<lambda>_. True"])
  next
    case Destroy
    with assms(1) show ?thesis
      by (auto simp: pool_destroy_def openDemand_def intro: exI [of _ "\<lambda>_. False"])
  qed (use assms(2) in simp)
  then obtain P where "cp_pending q = filter P (cp_pending p)" "\<And>e. openDemand q e \<le> openDemand p e"
    by blast
  then show ?thesis
    unfolding workLeft_def by (simp add: sum_list_filter_le)
qed

lemma quiet_reenter: "list_all (\<lambda>c. \<not> asks c) calls \<Longrightarrow> workLeft (reenter calls p) \<le> workLeft p"
  unfolding reenter_def
proof (induction calls arbitrary: p)
  case (Cons c calls)
  have "workLeft (case callPool c p of Inl _ \<Rightarrow> p | Inr p' \<Rightarrow> p') \<le> workLeft p"
    using quiet_call [of c p] Cons.prems by (auto split: sum.split)
  with Cons show ?case by (fastforce intro: order_trans)
qed simp

lemma grantNext_work:
  assumes "cp_pending p \<noteq> []" "0 < cp_available p" "0 < share"
  shows "workLeft (fst (grantNext share now p)) < workLeft p"
proof -
  obtain owner identity rest where pend: "cp_pending p = (owner, identity) # rest"
    using assms(1) by (metis neq_Nil_conv surj_pair)
  have drop: "workLeft (p\<lparr>cp_pending := rest\<rparr>) < workLeft p"
    by (simp add: workLeft_def pend openDemand_def)
  show ?thesis
  proof (cases "legOf p owner")
    case None
    then show ?thesis
      using drop by (simp add: grantNext_def pend Let_def)
  next
    case (Some l)
    show ?thesis
    proof (cases "lg_id l \<noteq> identity \<or> lg_wanted l = 0")
      case True
      then show ?thesis
        using drop Some by (simp add: grantNext_def pend Let_def)
    next
      case False
      let ?a = "min (min share (lg_wanted l)) (cp_available p)" and ?q = "fst (grantNext share now p)"
      have a: "0 < ?a"
        using False assms(2,3) by simp
      have q: "openDemand ?q e \<le> openDemand p e" "openDemand ?q (owner, identity) = lg_wanted l - ?a"
        "cp_pending ?q = (if lg_wanted l - ?a > 0 then rest @ [(owner, identity)] else rest)" for e
        using False Some by (auto simp: grantNext_def pend Let_def setLeg_def openDemand_def update_conv')
      have "sum_list (map (\<lambda>e. Suc (openDemand ?q e)) rest) \<le> sum_list (map (\<lambda>e. Suc (openDemand p e)) rest)"
        using q(1) by (intro sum_list_mono) simp
      moreover have "openDemand p (owner, identity) = lg_wanted l"
        using False Some by (simp add: openDemand_def)
      ultimately show ?thesis
        using a False unfolding workLeft_def q(3) by (auto simp: pend q(2))
    qed
  qed
qed

lemma distributeLoop_returns:
  assumes "quiet cb" "left = 0 \<or> 0 < share"
  shows "\<exists>q. distributeLoop cb clock k share left p = Some (q, False)"
  using assms(2)
proof (induction "2 * workLeft p + (if left = 0 then 1 else 0 :: nat)" arbitrary: k share left p rule: less_induct)
  case less
  show ?case
  proof (cases "cp_available p = 0 \<or> cp_pending p = []")
    case True
    then show ?thesis by (subst distributeLoop.simps) simp
  next
    case False
    show ?thesis
    proof (cases "left = 0")
      case True
      with False less.hyps [of p "length (cp_pending p)" "max 1 (cp_available p div length (cp_pending p))" k] show ?thesis
        by (subst distributeLoop.simps) simp
    next
      case left: False
      obtain p' g where g: "grantNext share (clock k) p = (p', g)" by force
      have dec: "workLeft p' < workLeft p"
        using grantNext_work [of p share "clock k"] False left less.prems g by simp
      show ?thesis
      proof (cases g)
        case None
        have "\<exists>q. distributeLoop cb clock k share (left - 1) p' = Some (q, False)"
          using dec left less.prems by (intro less.hyps) auto
        with False left g None show ?thesis
          by (subst distributeLoop.simps) simp
      next
        case (Some og)
        obtain owner amount where og: "og = (owner, amount)" by force
        let ?p = "reenter (fst (cb k owner amount)) p'"
        have q: "\<not> snd (cb k owner amount)" "workLeft ?p \<le> workLeft p'"
          using assms(1) quiet_reenter by (auto simp: quiet_def)
        have "\<exists>q. distributeLoop cb clock (Suc k) share (left - 1) ?p = Some (q, False)"
          using dec q(2) left less.prems by (intro less.hyps) auto
        with False left g Some og q(1) show ?thesis
          by (subst distributeLoop.simps) simp
      qed
    qed
  qed
qed

text \<open>
  C25: distribution ends and wastes nothing. When its callbacks do not throw and do not ask for more, a
  distribution returns, and then either no credit is left or no leg has open demand.
\<close>
theorem distribution_work_conserving:
  assumes "quiet cb" "pool_inv p" "\<not> cp_closed p" "\<not> cp_distributing p"
  shows "\<exists>q. distribute cb clock p = Some (q, False) \<and> (cp_available q = 0 \<or> (\<forall>(owner, l)\<in>set (cp_legs q). lg_wanted l = 0))"
proof -
  obtain q where q: "distributeLoop cb clock 0 0 0 (p\<lparr>cp_distributing := True\<rparr>) = Some (q, False)"
    using distributeLoop_returns [OF assms(1)] by blast
  from distributeLoop_inv [OF q] assms(2) have inv: "pool_inv q" "cp_available q = 0 \<or> cp_pending q = []"
    by simp_all
  then have "cp_available q = 0 \<or> (\<forall>(owner, l)\<in>set (cp_legs q). lg_wanted l = 0)"
    by (fastforce simp: pool_inv_def leg_ok_def)
  with q assms(3,4) show ?thesis
    by (simp add: distribute_def)
qed

section \<open>A concrete pool\<close>

definition silent :: grant_callback where
  "silent k owner amount = ([], False)"

definition sample_pool :: credit_pool where
  "sample_pool = CircuitCreditPool_new\<lparr>cp_legs := [(7, (newLeg 0)\<lparr>lg_wanted := 5, lg_demandOpen := True\<rparr>)], cp_pending := [(7, 0)], cp_nextLeg := 1\<rparr>"

lemma sample_pool_inv: "pool_inv sample_pool"
  by (simp add: sample_pool_def pool_inv_def CircuitCreditPool_new_def grantedSum_def leg_ok_def newLeg_def CIRCUIT_WINDOW_def)

theorem distribution_work_conserving_witness:
  "\<exists>q. distribute silent (\<lambda>_. 0) sample_pool = Some (q, False) \<and> (cp_available q = 0 \<or> list_all (\<lambda>(owner, l). lg_wanted l = 0) (cp_legs q))"
proof -
  have "quiet silent" "\<not> cp_closed sample_pool" "\<not> cp_distributing sample_pool"
    by (simp_all add: quiet_def silent_def sample_pool_def CircuitCreditPool_new_def)
  from distribution_work_conserving [OF this(1) sample_pool_inv this(2,3), of "\<lambda>_. 0"] show ?thesis
    by (simp add: list_all_iff)
qed

theorem credit_conserved_witness:
  "\<exists>p. pool_moves\<^sup>*\<^sup>* CircuitCreditPool_new p \<and> legOf p 7 \<noteq> None \<and> cp_available p + grantedSum p + cp_inFlight p = 2048"
proof -
  let ?p = "CircuitCreditPool_new\<lparr>cp_legs := [(7, newLeg 0)], cp_nextLeg := 1\<rparr>"
  have "pool_step silent (\<lambda>_. 0) (Add 7) CircuitCreditPool_new = Some (?p, Inr False)"
    by (simp add: pool_step_def pool_add_def CircuitCreditPool_new_def MAX_ROUTE_STREAMS_def)
  then have "pool_moves CircuitCreditPool_new ?p"
    unfolding pool_moves_def by blast
  then have "pool_moves\<^sup>*\<^sup>* CircuitCreditPool_new ?p" ..
  with credit_conserved [OF this] show ?thesis
    by (auto simp: CircuitCreditPool_new_def CIRCUIT_WINDOW_def)
qed

end
