(* ===== verification/Logical_Stream.thy ===== *)
theory Logical_Stream
  imports Credit_Pool
begin

text \<open>
  One stream of a multiplexed route (class \<open>LogicalRouteStream\<close> of
  \<^verbatim>\<open>lib/private/private-peer-controller.js\<close>): send and receive credit, the credit it borrows from the
  circuit, and the ring buffer of received frames. What a method sends, pushes or calls is appended to the
  trace of the stream, in order; a thrown error is the left part of the result. On the destination side the
  stream belongs to a circuit with a credit pool, whose grants come back as calls of \<open>grantCircuit\<close>.
\<close>

section \<open>State\<close>

definition STREAM_CREDIT_BATCH :: nat where "STREAM_CREDIT_BATCH = 128"
definition CIRCUIT_CREDIT_BATCH :: nat where "CIRCUIT_CREDIT_BATCH = 32"
definition SEND_BATCH_CELLS :: nat where "SEND_BATCH_CELLS = 64"
definition MAX_STREAM_BYTES :: nat where "MAX_STREAM_BYTES = 32 * 1024 * 1024 * 1024"
definition MAX_STREAM_DATA_FRAMES :: nat where
  "MAX_STREAM_DATA_FRAMES = (MAX_STREAM_BYTES + MAX_LOGICAL_PAYLOAD - 1) div MAX_LOGICAL_PAYLOAD"

datatype stream_event =
    SendLogical int int bytes
  | PoolDemand nat
  | PoolSent
  | PoolCancel
  | PoolRelease nat
  | PoolRemove
  | Consumed nat bool
  | Push "bytes option"
  | WakeWriter
  | RejectWriter

record logical_stream =
  ls_streamId :: nat
  ls_circuit :: bool
  ls_remoteEnded :: bool
  ls_localEnded :: bool
  ls_sentBytes :: nat
  ls_receivedBytes :: nat
  ls_sentFrames :: nat
  ls_receivedFrames :: nat
  ls_sendCredit :: nat
  ls_receiveCredit :: int
  ls_streamReturnPending :: nat
  ls_circuitCredit :: nat
  ls_circuitRequested :: nat
  ls_circuitCanceling :: bool
  ls_circuitReceiveCredit :: int
  ls_circuitReturnPending :: nat
  ls_creditWaiter :: bool
  ls_writing :: bool
  ls_idleTimer :: bool
  ls_returnTimer :: bool
  ls_queuedBytes :: nat
  ls_queue :: "bytes option list"
  ls_queueHead :: nat
  ls_queueLength :: nat
  ls_receivedOutstanding :: nat
  ls_delivered :: bool
  ls_wantRead :: bool
  ls_remoteResetReceived :: bool
  ls_destroying :: bool
  ls_linkDestroyed :: bool
  ls_trace :: "stream_event list"

definition LogicalRouteStream_new :: "nat \<Rightarrow> bool \<Rightarrow> logical_stream" where
  "LogicalRouteStream_new streamId circuit =
     \<lparr>ls_streamId = streamId, ls_circuit = circuit, ls_remoteEnded = False, ls_localEnded = False, ls_sentBytes = 0,
      ls_receivedBytes = 0, ls_sentFrames = 0, ls_receivedFrames = 0, ls_sendCredit = STREAM_WINDOW,
      ls_receiveCredit = int STREAM_WINDOW, ls_streamReturnPending = 0, ls_circuitCredit = 0, ls_circuitRequested = 0,
      ls_circuitCanceling = False, ls_circuitReceiveCredit = int CIRCUIT_WINDOW, ls_circuitReturnPending = 0,
      ls_creditWaiter = False, ls_writing = False, ls_idleTimer = False, ls_returnTimer = False, ls_queuedBytes = 0,
      ls_queue = replicate STREAM_WINDOW None, ls_queueHead = 0, ls_queueLength = 0, ls_receivedOutstanding = 0,
      ls_delivered = False, ls_wantRead = False, ls_remoteResetReceived = False, ls_destroying = False,
      ls_linkDestroyed = False, ls_trace = []\<rparr>"

abbreviation emit :: "stream_event \<Rightarrow> logical_stream \<Rightarrow> logical_stream" where
  "emit e s \<equiv> s\<lparr>ls_trace := ls_trace s @ [e]\<rparr>"

type_synonym stream_result = "logical_stream \<times> (crypto_failure + unit)"

definition sendCredit :: "int \<Rightarrow> int \<Rightarrow> nat \<Rightarrow> logical_stream \<Rightarrow> logical_stream" where
  "sendCredit streamId flags amount s = emit (SendLogical streamId flags (creditBytes amount)) s"

section \<open>Sending\<close>

definition wakeWriter :: "logical_stream \<Rightarrow> logical_stream" where
  "wakeWriter s =
     (if \<not> ls_creditWaiter s \<or> ls_sendCredit s = 0 \<or> ls_circuitCredit s = 0 then s
      else emit WakeWriter (s\<lparr>ls_creditWaiter := False\<rparr>))"

definition requestCircuit :: "logical_stream \<Rightarrow> logical_stream" where
  "requestCircuit s =
     (if ls_destroying s \<or> ls_localEnded s \<or> ls_linkDestroyed s \<or> ls_sendCredit s = 0 \<or> ls_circuitCanceling s
         \<or> ls_circuitRequested s \<noteq> 0 \<or> ls_circuitCredit s > CIRCUIT_WINDOW div 2
      then s
      else (let amount = CIRCUIT_WINDOW - ls_circuitCredit s; s = s\<lparr>ls_circuitRequested := amount\<rparr>
        in if ls_circuit s then emit (PoolDemand amount) s else sendCredit CIRCUIT_STREAM_ID LOGICAL_DEMAND amount s))"

definition releaseCircuit :: "logical_stream \<Rightarrow> logical_stream" where
  "releaseCircuit s =
     (if ls_linkDestroyed s then s
      else if ls_circuit s then
        (let s = (emit PoolCancel s)\<lparr>ls_circuitRequested := 0\<rparr>
         in if ls_circuitCredit s \<noteq> 0 then emit (PoolRelease (ls_circuitCredit s)) (s\<lparr>ls_circuitCredit := 0\<rparr>) else s)
      else
        (let s = (if ls_circuitRequested s \<noteq> 0 \<and> \<not> ls_circuitCanceling s
               then sendCredit CIRCUIT_STREAM_ID LOGICAL_DEMAND 0 (s\<lparr>ls_circuitCanceling := True\<rparr>) else s)
         in if ls_circuitCredit s \<noteq> 0
            then sendCredit CIRCUIT_STREAM_ID LOGICAL_RELEASE (ls_circuitCredit s) (s\<lparr>ls_circuitCredit := 0\<rparr>) else s))"

definition scheduleIdle :: "logical_stream \<Rightarrow> logical_stream" where
  "scheduleIdle s =
     (if ls_destroying s \<or> ls_linkDestroyed s \<or> ls_idleTimer s \<or> ls_circuitCredit s = 0 \<and> ls_circuitRequested s = 0 then s
      else s\<lparr>ls_idleTimer := True\<rparr>)"

definition idleTimerFired :: "logical_stream \<Rightarrow> logical_stream" where
  "idleTimerFired s =
     (let s = s\<lparr>ls_idleTimer := False\<rparr> in if \<not> ls_writing s \<and> \<not> ls_destroying s then releaseCircuit s else s)"

text \<open>
  \<open>_sendData\<close>: the loop body up to its next \<open>await\<close>. It fails, waits for credit, or sends a batch of frames
  and leaves the rest of the data.
\<close>

datatype send_outcome = SendFailed | SendWaiting | SendSent bytes

fun sendFrames :: "nat \<Rightarrow> bytes \<Rightarrow> logical_stream \<Rightarrow> logical_stream \<times> send_outcome" where
  "sendFrames 0 data s = (s, SendSent data)"
| "sendFrames (Suc n) data s =
     (let len = min MAX_LOGICAL_PAYLOAD (length data);
          s = s\<lparr>ls_sentBytes := ls_sentBytes s + len, ls_sentFrames := Suc (ls_sentFrames s)\<rparr>
      in if ls_sentBytes s > MAX_STREAM_BYTES \<or> ls_sentFrames s > MAX_STREAM_DATA_FRAMES then (s, SendFailed)
         else (let s = s\<lparr>ls_sendCredit := ls_sendCredit s - 1, ls_circuitCredit := ls_circuitCredit s - 1\<rparr>;
                   s = (if ls_circuit s then emit PoolSent s else s)
           in sendFrames n (drop len data) (emit (SendLogical (int (ls_streamId s)) LOGICAL_DATA (take len data)) s)))"

definition sendBatch :: "bytes \<Rightarrow> logical_stream \<Rightarrow> logical_stream \<times> send_outcome" where
  "sendBatch data s =
     (if ls_destroying s \<or> ls_linkDestroyed s then (s, SendFailed)
      else (let s = (if ls_sendCredit s = 0 then releaseCircuit s else requestCircuit s)
        in if ls_sendCredit s = 0 \<or> ls_circuitCredit s = 0 then (s\<lparr>ls_creditWaiter := True\<rparr>, SendWaiting)
           else sendFrames (min (min SEND_BATCH_CELLS (ls_sendCredit s)) (min (ls_circuitCredit s)
                  ((length data + MAX_LOGICAL_PAYLOAD - 1) div MAX_LOGICAL_PAYLOAD))) data s))"

definition stream_write :: "logical_stream \<Rightarrow> stream_result" where
  "stream_write s = (if ls_localEnded s \<or> ls_linkDestroyed s then (s, Inl unavailable) else (s\<lparr>ls_writing := True, ls_idleTimer := False\<rparr>, Inr ()))"

definition sendDone :: "logical_stream \<Rightarrow> logical_stream" where
  "sendDone s = scheduleIdle (s\<lparr>ls_writing := False\<rparr>)"

definition grantCircuit :: "int \<Rightarrow> logical_stream \<Rightarrow> stream_result" where
  "grantCircuit amount s =
     (if ls_destroying s then (s, Inr ())
      else if amount < 1 \<or> amount > int (ls_circuitRequested s) \<or> int (ls_circuitCredit s) + amount > int CIRCUIT_WINDOW then (s, Inl invalidRoute)
      else (let s = s\<lparr>ls_circuitRequested := ls_circuitRequested s - nat amount, ls_circuitCredit := ls_circuitCredit s + nat amount\<rparr>;
                s = (if ls_sendCredit s = 0 \<or> ls_localEnded s then releaseCircuit s else wakeWriter s)
        in (if \<not> ls_writing s then scheduleIdle s else s, Inr ())))"

definition cancelCircuit :: "logical_stream \<Rightarrow> stream_result" where
  "cancelCircuit s =
     (if ls_destroying s then (s, Inr ())
      else if ls_circuit s \<or> \<not> ls_circuitCanceling s then (s, Inl invalidRoute)
      else (let s = s\<lparr>ls_circuitCanceling := False, ls_circuitRequested := 0\<rparr>;
                s = (if \<not> ls_writing s \<or> ls_sendCredit s = 0 \<or> ls_localEnded s then releaseCircuit s else requestCircuit s)
        in (wakeWriter s, Inr ())))"

definition grantStream :: "int \<Rightarrow> logical_stream \<Rightarrow> stream_result" where
  "grantStream amount s =
     (if ls_destroying s then (s, Inr ())
      else if amount < 1 \<or> int (ls_sendCredit s) + amount > int STREAM_WINDOW then (s, Inl invalidRoute)
      else (let s = s\<lparr>ls_sendCredit := ls_sendCredit s + nat amount\<rparr>; s = (if ls_writing s then requestCircuit s else s)
        in (wakeWriter s, Inr ())))"

section \<open>Receiving\<close>

definition drain :: "logical_stream \<Rightarrow> logical_stream" where
  "drain s =
     (if ls_destroying s then s
      else (let s = (if ls_wantRead s \<and> ls_queueLength s > 0 then
               (let data = (case ls_queue s ! ls_queueHead s of None \<Rightarrow> [] | Some d \<Rightarrow> d)
                in emit (Push (Some data)) (s\<lparr>ls_queue := (ls_queue s)[ls_queueHead s := None],
                     ls_queueHead := Suc (ls_queueHead s) mod STREAM_WINDOW, ls_queueLength := ls_queueLength s - 1,
                     ls_queuedBytes := ls_queuedBytes s - length data, ls_wantRead := False, ls_delivered := True\<rparr>))
             else s)
        in if ls_remoteEnded s \<and> ls_queueLength s = 0 \<and> \<not> ls_delivered s then emit (Push None) (s\<lparr>ls_wantRead := False\<rparr>) else s))"

text \<open>\<open>destroy\<close> marks the stream and runs \<open>_predestroy\<close>; \<open>_destroy\<close> follows as a call of its own.\<close>

definition stream_destroy :: "logical_stream \<Rightarrow> logical_stream" where
  "stream_destroy s =
     (if ls_destroying s then s
      else (let s = s\<lparr>ls_destroying := True, ls_idleTimer := False, ls_returnTimer := False\<rparr>
        in if ls_creditWaiter s then emit RejectWriter (s\<lparr>ls_creditWaiter := False\<rparr>) else s))"

definition returnCircuit :: "nat \<Rightarrow> bool \<Rightarrow> logical_stream \<Rightarrow> stream_result" where
  "returnCircuit amount flush s =
     (if ls_circuit s then (emit (Consumed amount flush) s, Inr ())
      else if ls_linkDestroyed s then (s, Inr ())
      else (let s = s\<lparr>ls_circuitReturnPending := ls_circuitReturnPending s + amount\<rparr>
        in if ls_circuitReturnPending s = 0 then (s, Inr ())
           else if \<not> flush \<and> ls_circuitReturnPending s < CIRCUIT_CREDIT_BATCH then (s\<lparr>ls_returnTimer := True\<rparr>, Inr ())
           else (let returned = ls_circuitReturnPending s;
                     s = s\<lparr>ls_returnTimer := False, ls_circuitReturnPending := 0, ls_circuitReceiveCredit := ls_circuitReceiveCredit s + int returned\<rparr>
             in if ls_circuitReceiveCredit s > int CIRCUIT_WINDOW then (s, Inl invalidRoute)
                else (sendCredit CIRCUIT_STREAM_ID LOGICAL_CREDIT returned s, Inr ()))))"

definition acknowledgeRead :: "logical_stream \<Rightarrow> stream_result" where
  "acknowledgeRead s =
     (if \<not> ls_delivered s then (s, Inr ())
      else (let s = s\<lparr>ls_delivered := False, ls_receivedOutstanding := ls_receivedOutstanding s - 1,
                  ls_streamReturnPending := Suc (ls_streamReturnPending s)\<rparr>;
                s = (if ls_streamReturnPending s \<ge> STREAM_CREDIT_BATCH
                  then sendCredit (int (ls_streamId s)) LOGICAL_CREDIT (ls_streamReturnPending s)
                    (s\<lparr>ls_streamReturnPending := 0, ls_receiveCredit := ls_receiveCredit s + int (ls_streamReturnPending s)\<rparr>) else s)
        in returnCircuit 1 False s))"

definition stream_read :: "logical_stream \<Rightarrow> stream_result" where
  "stream_read s =
     (case acknowledgeRead s of
        (s, Inl e) \<Rightarrow> (s, Inl unavailable)
      | (s, Inr u) \<Rightarrow> (drain (s\<lparr>ls_wantRead := True\<rparr>), Inr ()))"

definition stream_receive :: "bytes \<Rightarrow> logical_stream \<Rightarrow> stream_result" where
  "stream_receive data s =
     (let s = (if ls_circuit s then s else s\<lparr>ls_circuitReceiveCredit := ls_circuitReceiveCredit s - 1\<rparr>)
      in if \<not> ls_circuit s \<and> ls_circuitReceiveCredit s < 0 then (stream_destroy s, Inr ())
         else if ls_destroying s \<or> ls_remoteEnded s then
           (case returnCircuit 1 False s of
              (s, Inl e) \<Rightarrow> (s, Inl e)
            | (s, Inr u) \<Rightarrow> (stream_destroy s, Inr ()))
         else (let s = s\<lparr>ls_receivedBytes := ls_receivedBytes s + length data, ls_receivedFrames := Suc (ls_receivedFrames s),
                    ls_receivedOutstanding := Suc (ls_receivedOutstanding s), ls_receiveCredit := ls_receiveCredit s - 1\<rparr>
           in if ls_receivedBytes s > MAX_STREAM_BYTES \<or> ls_receivedFrames s > MAX_STREAM_DATA_FRAMES \<or> ls_receiveCredit s < 0
                 \<or> ls_queueLength s \<ge> STREAM_WINDOW
              then (stream_destroy s, Inr ())
              else (drain (s\<lparr>ls_queuedBytes := ls_queuedBytes s + length data,
                 ls_queue := (ls_queue s)[(ls_queueHead s + ls_queueLength s) mod STREAM_WINDOW := Some data],
                 ls_queueLength := Suc (ls_queueLength s)\<rparr>), Inr ())))"

definition remoteFin :: "logical_stream \<Rightarrow> logical_stream" where
  "remoteFin s = (if ls_remoteEnded s then s else drain (s\<lparr>ls_remoteEnded := True\<rparr>))"

definition remoteReset :: "logical_stream \<Rightarrow> logical_stream" where
  "remoteReset s = (if ls_destroying s then s else stream_destroy (s\<lparr>ls_remoteResetReceived := True\<rparr>))"

section \<open>Ending\<close>

definition stream_final :: "logical_stream \<Rightarrow> logical_stream" where
  "stream_final s = emit (SendLogical (int (ls_streamId s)) LOGICAL_FIN []) (releaseCircuit (s\<lparr>ls_localEnded := True\<rparr>))"

definition stream_destroyed :: "logical_stream \<Rightarrow> stream_result" where
  "stream_destroyed s =
     (let s = (if \<not> (ls_localEnded s \<and> ls_remoteEnded s) \<and> \<not> ls_remoteResetReceived s \<and> \<not> ls_linkDestroyed s
             then emit (SendLogical (int (ls_streamId s)) LOGICAL_RESET []) s else s);
          s = (if ls_circuit s then emit PoolRemove s else s);
          discarded = ls_receivedOutstanding s;
          s = s\<lparr>ls_queue := [], ls_queueLength := 0, ls_queuedBytes := 0, ls_receivedOutstanding := 0\<rparr>
      in returnCircuit discarded True s)"

end
