(* ===== verification/Stream_Flow.thy ===== *)
theory Stream_Flow
  imports Logical_Stream
begin

text \<open>
  Flow control of a logical stream from its sender to its receiver. A configuration holds both ends and how
  far each has read what the other sent: the relays in between forward the frames of a stream in order and
  rewrite its id only, so the channels are the traces of the two ends. The receiver is the destination's end,
  the side with a credit pool. The theorems say that a window of frames in flight never overruns the receiver,
  that its ring buffer keeps the order, and that what it hands to the reader is what was written.
\<close>

section \<open>What the two ends have sent\<close>

fun eventFrame :: "int \<Rightarrow> stream_event \<Rightarrow> (int \<times> bytes) list" where
  "eventFrame i (SendLogical streamId flags data) =
     (if streamId = i \<and> (flags = LOGICAL_DATA \<or> flags = LOGICAL_FIN) then [(flags, data)] else [])"
| "eventFrame i e = []"

fun eventCredit :: "int \<Rightarrow> stream_event \<Rightarrow> nat list" where
  "eventCredit i (SendLogical streamId flags data) =
     (if streamId = i \<and> flags = LOGICAL_CREDIT then [unat (data ! 0) * 256 + unat (data ! 1)] else [])"
| "eventCredit i e = []"

fun eventPush :: "stream_event \<Rightarrow> bytes option list" where
  "eventPush (Push d) = [d]"
| "eventPush e = []"

definition streamFrames :: "logical_stream \<Rightarrow> (int \<times> bytes) list" where
  "streamFrames s = concat (map (eventFrame (int (ls_streamId s))) (ls_trace s))"

definition streamCredits :: "logical_stream \<Rightarrow> nat list" where
  "streamCredits s = concat (map (eventCredit (int (ls_streamId s))) (ls_trace s))"

definition pushes :: "logical_stream \<Rightarrow> bytes option list" where
  "pushes s = concat (map eventPush (ls_trace s))"

definition dataOf :: "(int \<times> bytes) list \<Rightarrow> bytes list" where
  "dataOf fs = map snd (filter (\<lambda>f. fst f = LOGICAL_DATA) fs)"

definition pushedData :: "logical_stream \<Rightarrow> bytes list" where
  "pushedData s = map the (filter (\<lambda>x. x \<noteq> None) (pushes s))"

definition readerEnded :: "logical_stream \<Rightarrow> bool" where
  "readerEnded s \<longleftrightarrow> None \<in> set (pushes s)"

text \<open>The part of the two dispatchers (\<open>DestinationCircuit._receive\<close>) that hands a frame to its stream.\<close>

definition deliver :: "int \<times> bytes \<Rightarrow> logical_stream \<Rightarrow> stream_result" where
  "deliver f s = (if fst f = LOGICAL_DATA then stream_receive (snd f) s else (remoteFin s, Inr ()))"

record flow =
  fl_source :: logical_stream
  fl_destination :: logical_stream
  fl_delivered :: nat
  fl_credited :: nat

text \<open>
  A write is one call of \<open>_write\<close>, batches of \<open>_sendData\<close> until it is done; the duplex stream calls \<open>_final\<close>
  once and only between writes.
\<close>

inductive flow_step :: "flow \<Rightarrow> flow \<Rightarrow> bool" where
  flow_write: "\<not> ls_writing (fl_source c) \<Longrightarrow> stream_write (fl_source c) = (a, r) \<Longrightarrow> flow_step c (c\<lparr>fl_source := a\<rparr>)"
| flow_batch: "ls_writing (fl_source c) \<Longrightarrow> sendBatch data (fl_source c) = (a, r') \<Longrightarrow> flow_step c (c\<lparr>fl_source := a\<rparr>)"
| flow_done: "ls_writing (fl_source c) \<Longrightarrow> flow_step c (c\<lparr>fl_source := sendDone (fl_source c)\<rparr>)"
| flow_final: "\<not> ls_writing (fl_source c) \<Longrightarrow> \<not> ls_localEnded (fl_source c) \<Longrightarrow>
    flow_step c (c\<lparr>fl_source := stream_final (fl_source c)\<rparr>)"
| flow_grant: "grantCircuit amount (fl_source c) = (a, r) \<Longrightarrow> flow_step c (c\<lparr>fl_source := a\<rparr>)"
| flow_cancel: "cancelCircuit (fl_source c) = (a, r) \<Longrightarrow> flow_step c (c\<lparr>fl_source := a\<rparr>)"
| flow_idle: "flow_step c (c\<lparr>fl_source := idleTimerFired (fl_source c)\<rparr>)"
| flow_receive: "fl_delivered c < length (streamFrames (fl_source c)) \<Longrightarrow>
    deliver (streamFrames (fl_source c) ! fl_delivered c) (fl_destination c) = (b, r) \<Longrightarrow>
    flow_step c (c\<lparr>fl_destination := b, fl_delivered := Suc (fl_delivered c)\<rparr>)"
| flow_read: "stream_read (fl_destination c) = (b, r) \<Longrightarrow> flow_step c (c\<lparr>fl_destination := b\<rparr>)"
| flow_credit: "fl_credited c < length (streamCredits (fl_destination c)) \<Longrightarrow>
    grantStream (int (streamCredits (fl_destination c) ! fl_credited c)) (fl_source c) = (a, r) \<Longrightarrow>
    flow_step c (c\<lparr>fl_source := a, fl_credited := Suc (fl_credited c)\<rparr>)"

definition flow_start :: "nat \<Rightarrow> nat \<Rightarrow> bool \<Rightarrow> flow" where
  "flow_start i j circuit = \<lparr>fl_source = LogicalRouteStream_new i circuit, fl_destination = LogicalRouteStream_new j True,
     fl_delivered = 0, fl_credited = 0\<rparr>"

lemmas trace_views = streamFrames_def streamCredits_def pushes_def

lemmas logical_flags = LOGICAL_DATA_def LOGICAL_FIN_def LOGICAL_CREDIT_def LOGICAL_DEMAND_def LOGICAL_RELEASE_def

section \<open>The sender\<close>

definition sameSender :: "logical_stream \<Rightarrow> logical_stream \<Rightarrow> bool" where
  "sameSender s t \<longleftrightarrow> ls_sendCredit s = ls_sendCredit t \<and> ls_sentBytes s = ls_sentBytes t \<and>
     ls_sentFrames s = ls_sentFrames t \<and> ls_localEnded s = ls_localEnded t \<and> streamFrames s = streamFrames t \<and>
     ls_destroying s = ls_destroying t"

lemma sameSender_trans: "sameSender s t \<Longrightarrow> sameSender t u \<Longrightarrow> sameSender s u"
  by (simp add: sameSender_def)

lemma sameSender_circuit:
  "sameSender (requestCircuit s) s" "sameSender (releaseCircuit s) s" "sameSender (wakeWriter s) s" "sameSender (scheduleIdle s) s"
  by (simp_all add: requestCircuit_def releaseCircuit_def wakeWriter_def scheduleIdle_def sameSender_def sendCredit_def trace_views
      logical_flags Let_def)

lemma writing_circuit [simp]:
  "ls_writing (requestCircuit s) = ls_writing s" "ls_writing (releaseCircuit s) = ls_writing s"
  "ls_writing (wakeWriter s) = ls_writing s" "ls_writing (scheduleIdle s) = ls_writing s"
  by (simp_all add: requestCircuit_def releaseCircuit_def wakeWriter_def scheduleIdle_def sendCredit_def Let_def)

definition sender_ok :: "nat \<Rightarrow> logical_stream \<Rightarrow> bool" where
  "sender_ok granted s \<longleftrightarrow>
     (let ds = dataOf (streamFrames s) in
       streamFrames s = map (Pair LOGICAL_DATA) ds @ (if ls_localEnded s then [(LOGICAL_FIN, [])] else []) \<and>
       length (concat ds) \<le> min (ls_sentBytes s) MAX_STREAM_BYTES \<and> length ds \<le> min (ls_sentFrames s) MAX_STREAM_DATA_FRAMES \<and>
       ls_sendCredit s + length ds = STREAM_WINDOW + granted \<and> \<not> ls_destroying s \<and> (ls_localEnded s \<longrightarrow> \<not> ls_writing s))"

lemma sender_ok_same:
  "sender_ok g s \<Longrightarrow> sameSender t s \<Longrightarrow> ls_writing t = ls_writing s \<or> \<not> ls_localEnded s \<Longrightarrow> sender_ok g t"
  by (auto simp: sender_ok_def sameSender_def Let_def)

text \<open>A step of the sender keeps its invariant and only adds frames.\<close>

definition sends_on :: "nat \<Rightarrow> logical_stream \<Rightarrow> logical_stream \<Rightarrow> bool" where
  "sends_on g s t \<longleftrightarrow> sender_ok g t \<and> (\<exists>fs. streamFrames t = streamFrames s @ fs)"

lemma sends_on_same:
  assumes "sender_ok g s" "sameSender t s" "ls_writing t = ls_writing s \<or> \<not> ls_localEnded s"
  shows "sends_on g s t"
  using sender_ok_same [OF assms] assms(2) by (simp add: sends_on_def sameSender_def)

lemma sends_on_trans: "sends_on g s t \<Longrightarrow> sends_on g t u \<Longrightarrow> sends_on g s u"
  by (auto simp: sends_on_def)

lemma dataOf_simps [simp]:
  "dataOf [] = []" "dataOf (xs @ ys) = dataOf xs @ dataOf ys" "dataOf (map (Pair LOGICAL_DATA) ds) = ds"
  "dataOf [(LOGICAL_DATA, d)] = [d]" "dataOf [(LOGICAL_FIN, d)] = []"
  by (simp_all add: dataOf_def logical_flags filter_map o_def)

lemma sender_ok_frame:
  assumes "sender_ok g s" "\<not> ls_localEnded s" "0 < ls_sendCredit s" "ls_sentBytes s + length d \<le> MAX_STREAM_BYTES"
    "Suc (ls_sentFrames s) \<le> MAX_STREAM_DATA_FRAMES" "ls_sentBytes t = ls_sentBytes s + length d" "ls_sentFrames t = Suc (ls_sentFrames s)"
    "ls_sendCredit t = ls_sendCredit s - 1" "ls_localEnded t = ls_localEnded s" "ls_destroying t = ls_destroying s"
    "streamFrames t = streamFrames s @ [(LOGICAL_DATA, d)]"
  shows "sender_ok g t"
  using assms by (auto simp: sender_ok_def Let_def)

lemma sendFrames_ok:
  "sendFrames n data s = (t, r) \<Longrightarrow> sender_ok g s \<Longrightarrow> \<not> ls_localEnded s \<Longrightarrow> n \<le> ls_sendCredit s \<Longrightarrow>
    sends_on g s t \<and> \<not> ls_localEnded t"
proof (induction n arbitrary: data s)
  case (Suc n)
  define len where "len = min MAX_LOGICAL_PAYLOAD (length data)"
  define u where "u = s\<lparr>ls_sentBytes := ls_sentBytes s + len, ls_sentFrames := Suc (ls_sentFrames s)\<rparr>"
  show ?case
  proof (cases "ls_sentBytes u > MAX_STREAM_BYTES \<or> ls_sentFrames u > MAX_STREAM_DATA_FRAMES")
    case True
    then have "t = u"
      using Suc.prems(1) by (simp add: Let_def u_def len_def)
    then show ?thesis
      using Suc.prems(2,3) by (auto simp: u_def sends_on_def sender_ok_def Let_def streamFrames_def)
  next
    case False
    define v where "v = u\<lparr>ls_sendCredit := ls_sendCredit u - 1, ls_circuitCredit := ls_circuitCredit u - 1\<rparr>"
    define w where "w = emit (SendLogical (int (ls_streamId s)) LOGICAL_DATA (take len data)) (if ls_circuit s then emit PoolSent v else v)"
    have fields: "ls_sentBytes w = ls_sentBytes s + len" "ls_sentFrames w = Suc (ls_sentFrames s)" "ls_sendCredit w = ls_sendCredit s - 1"
      "ls_localEnded w = ls_localEnded s" "ls_destroying w = ls_destroying s" "streamFrames w = streamFrames s @ [(LOGICAL_DATA, take len data)]"
      by (simp_all add: w_def v_def u_def streamFrames_def)
    have w: "sender_ok g w"
      by (rule sender_ok_frame [OF Suc.prems(2,3)]) (use False Suc.prems(4) fields in \<open>auto simp: u_def len_def\<close>)
    have "sendFrames n (drop len data) w = (t, r)"
      using Suc.prems(1) False by (simp add: Let_def u_def v_def w_def len_def split: if_splits)
    then have "sends_on g w t \<and> \<not> ls_localEnded t"
      using Suc.IH w Suc.prems(3,4) fields by simp
    then show ?thesis
      using fields(6) by (auto simp: sends_on_def)
  qed
qed (simp add: sends_on_def)

text \<open>What a batch sent, followed by what it left, is the data of the write.\<close>

lemma sendFrames_data:
  "sendFrames n data s = (t, SendSent rest) \<Longrightarrow> concat (dataOf (streamFrames t)) @ rest = concat (dataOf (streamFrames s)) @ data"
proof (induction n arbitrary: data s)
  case (Suc n)
  define len where "len = min MAX_LOGICAL_PAYLOAD (length data)"
  define v where "v = s\<lparr>ls_sentBytes := ls_sentBytes s + len, ls_sentFrames := Suc (ls_sentFrames s),
    ls_sendCredit := ls_sendCredit s - 1, ls_circuitCredit := ls_circuitCredit s - 1\<rparr>"
  define w where "w = emit (SendLogical (int (ls_streamId s)) LOGICAL_DATA (take len data)) (if ls_circuit s then emit PoolSent v else v)"
  have "sendFrames n (drop len data) w = (t, SendSent rest)"
    using Suc.prems by (simp add: Let_def v_def w_def len_def split: if_splits)
  from Suc.IH [OF this] have "concat (dataOf (streamFrames t)) @ rest = concat (dataOf (streamFrames w)) @ drop len data" .
  moreover have "streamFrames w = streamFrames s @ [(LOGICAL_DATA, take len data)]"
    by (simp add: w_def v_def streamFrames_def)
  ultimately show ?case
    by simp
qed simp

lemma sendBatch_data:
  assumes "sendBatch data s = (t, SendSent rest)"
  shows "concat (dataOf (streamFrames t)) @ rest = concat (dataOf (streamFrames s)) @ data"
proof -
  define u where "u = (if ls_sendCredit s = 0 then releaseCircuit s else requestCircuit s)"
  have "streamFrames u = streamFrames s"
    using sameSender_circuit(1,2) [of s] by (simp add: u_def sameSender_def)
  moreover obtain n where "sendFrames n data u = (t, SendSent rest)"
    using assms by (auto simp: sendBatch_def Let_def u_def [symmetric] split: if_splits)
  ultimately show ?thesis
    using sendFrames_data by metis
qed

lemma sendBatch_ok:
  assumes "sendBatch data s = (t, r)" "sender_ok g s" "ls_writing s"
  shows "sends_on g s t"
proof -
  define u where "u = (if ls_sendCredit s = 0 then releaseCircuit s else requestCircuit s)"
  have same: "sameSender u s" and writing: "ls_writing u = ls_writing s"
    by (simp_all add: u_def sameSender_circuit)
  have on: "sends_on g s u"
    using sends_on_same [OF assms(2) same] writing by simp
  then have u: "sender_ok g u" "\<not> ls_localEnded u"
    using assms(3) writing by (auto simp: sends_on_def sender_ok_def Let_def)
  have waiting: "sends_on g u (u\<lparr>ls_creditWaiter := True\<rparr>)"
    by (rule sends_on_same [OF u(1)]) (simp_all add: sameSender_def streamFrames_def)
  have "t = s \<or> sends_on g u t"
    using assms(1) waiting
    by (auto simp: sendBatch_def Let_def u_def [symmetric] split: if_splits dest!: sendFrames_ok [OF _ u])
  then show ?thesis
    using on assms(2) by (auto simp: sends_on_def)
qed

lemma stream_write_ok: "stream_write s = (t, r) \<Longrightarrow> sender_ok g s \<Longrightarrow> sends_on g s t"
  by (auto simp: stream_write_def sends_on_def sender_ok_def Let_def streamFrames_def split: if_splits)

lemma sendDone_ok:
  assumes "sender_ok g s"
  shows "sends_on g s (sendDone s)"
proof -
  have off: "sends_on g s (s\<lparr>ls_writing := False\<rparr>)"
    using assms by (simp add: sends_on_def sender_ok_def Let_def streamFrames_def)
  then have "sends_on g (s\<lparr>ls_writing := False\<rparr>) (sendDone s)"
    unfolding sendDone_def by (intro sends_on_same) (simp_all add: sameSender_circuit sends_on_def)
  then show ?thesis
    by (rule sends_on_trans [OF off])
qed

lemma stream_final_ok:
  assumes "sender_ok g s" "\<not> ls_writing s" "\<not> ls_localEnded s"
  shows "sends_on g s (stream_final s)"
proof -
  define u where "u = releaseCircuit (s\<lparr>ls_localEnded := True\<rparr>)"
  have "sameSender u (s\<lparr>ls_localEnded := True\<rparr>)" "ls_writing u = ls_writing s" "ls_streamId u = ls_streamId s"
    by (simp_all add: u_def sameSender_circuit) (simp add: releaseCircuit_def sendCredit_def Let_def)
  moreover have "stream_final s = emit (SendLogical (int (ls_streamId s)) LOGICAL_FIN []) u"
    by (simp add: stream_final_def u_def)
  ultimately show ?thesis
    using assms by (auto simp: sends_on_def sender_ok_def sameSender_def Let_def streamFrames_def)
qed

lemma grantCircuit_ok:
  assumes "grantCircuit amount s = (t, r)" "sender_ok g s"
  shows "sends_on g s t"
proof (cases "t = s")
  case False
  define u where "u = s\<lparr>ls_circuitRequested := ls_circuitRequested s - nat amount, ls_circuitCredit := ls_circuitCredit s + nat amount\<rparr>"
  define v where "v = (if ls_sendCredit u = 0 \<or> ls_localEnded u then releaseCircuit u else wakeWriter u)"
  have u: "sameSender u s" "ls_writing u = ls_writing s"
    by (simp_all add: u_def sameSender_def streamFrames_def)
  have v: "sameSender v u" "ls_writing v = ls_writing u"
    by (simp_all add: v_def sameSender_circuit)
  have "t = (if \<not> ls_writing v then scheduleIdle v else v)"
    using assms(1) False by (auto simp: grantCircuit_def Let_def u_def v_def split: if_splits)
  then have "sameSender t v" "ls_writing t = ls_writing v"
    using sameSender_circuit(4) [of v] by (simp_all add: sameSender_def)
  then have "sameSender t s" "ls_writing t = ls_writing s"
    using u v by (auto intro: sameSender_trans)
  then show ?thesis
    using assms(2) sends_on_same by blast
qed (use assms in \<open>simp add: sends_on_def\<close>)

lemma cancelCircuit_ok:
  assumes "cancelCircuit s = (t, r)" "sender_ok g s"
  shows "sends_on g s t"
proof (cases "t = s")
  case False
  define u where "u = s\<lparr>ls_circuitCanceling := False, ls_circuitRequested := 0\<rparr>"
  define v where "v = (if \<not> ls_writing u \<or> ls_sendCredit u = 0 \<or> ls_localEnded u then releaseCircuit u else requestCircuit u)"
  have u: "sameSender u s" "ls_writing u = ls_writing s"
    by (simp_all add: u_def sameSender_def streamFrames_def)
  have v: "sameSender v u" "ls_writing v = ls_writing u"
    by (simp_all add: v_def sameSender_circuit)
  have "t = wakeWriter v"
    using assms(1) False by (auto simp: cancelCircuit_def Let_def u_def v_def split: if_splits)
  then have "sameSender t s" "ls_writing t = ls_writing s"
    using u v sameSender_circuit(3) [of v] by (auto intro: sameSender_trans)
  then show ?thesis
    using assms(2) sends_on_same by blast
qed (use assms in \<open>simp add: sends_on_def\<close>)

lemma idleTimerFired_ok:
  assumes "sender_ok g s"
  shows "sends_on g s (idleTimerFired s)"
proof -
  have off: "sends_on g s (s\<lparr>ls_idleTimer := False\<rparr>)"
    using assms by (simp add: sends_on_def sender_ok_def Let_def streamFrames_def)
  have "sameSender (idleTimerFired s) (s\<lparr>ls_idleTimer := False\<rparr>)" "ls_writing (idleTimerFired s) = ls_writing s"
    using sameSender_circuit(2) by (simp_all add: idleTimerFired_def Let_def) (simp add: sameSender_def)
  then have "sends_on g (s\<lparr>ls_idleTimer := False\<rparr>) (idleTimerFired s)"
    using off by (intro sends_on_same) (simp_all add: sends_on_def)
  then show ?thesis
    by (rule sends_on_trans [OF off])
qed

lemma grantStream_ok:
  assumes "sender_ok g s" "1 \<le> amount" "ls_sendCredit s + amount \<le> STREAM_WINDOW" "grantStream (int amount) s = (t, r)"
  shows "sends_on (g + amount) s t \<and> r = Inr ()"
proof -
  define u where "u = s\<lparr>ls_sendCredit := ls_sendCredit s + amount\<rparr>"
  define v where "v = (if ls_writing u then requestCircuit u else u)"
  have u: "sender_ok (g + amount) u"
    using assms(1) by (simp add: u_def sender_ok_def Let_def streamFrames_def)
  have same: "sameSender (wakeWriter v) u" "ls_writing (wakeWriter v) = ls_writing u"
    using sameSender_circuit(1) [of u] sameSender_circuit(3) [of v] by (auto simp: v_def intro: sameSender_trans)
  have "(t, r) = (wakeWriter v, Inr ())"
    using assms by (auto simp: grantStream_def sender_ok_def Let_def u_def v_def)
  moreover have "sends_on (g + amount) u (wakeWriter v)"
    using sends_on_same [OF u same(1)] same(2) by simp
  ultimately show ?thesis
    by (simp add: sends_on_def u_def streamFrames_def)
qed

end
