(* ===== verification/Stream_Properties.thy ===== *)
theory Stream_Properties
  imports Stream_Flow
begin

text \<open>
  The receiving end of a logical stream, its ring buffer as a queue, and the composition with the sending end:
  the flow-control theorem of a stream.
\<close>

section \<open>The ring buffer\<close>

definition ringData :: "logical_stream \<Rightarrow> bytes list" where
  "ringData s = map (\<lambda>k. case ls_queue s ! ((ls_queueHead s + k) mod STREAM_WINDOW) of None \<Rightarrow> [] | Some d \<Rightarrow> d) [0..<ls_queueLength s]"

lemma mod_window_inj:
  fixes h :: nat
  assumes "k < l" "l < W"
  shows "(h + k) mod W \<noteq> (h + l) mod W"
proof
  assume "(h + k) mod W = (h + l) mod W"
  then have "W dvd (h + l) - (h + k)"
    using assms by (metis add_le_cancel_left less_imp_le mod_eq_dvd_iff_nat)
  then show False
    using assms by (auto dest: dvd_imp_le)
qed

lemma ring_enqueue:
  assumes "length q = W" "n < W" "0 < W"
  shows "map (\<lambda>k. f (q[(h + n) mod W := x] ! ((h + k) mod W))) [0..<Suc n] = map (\<lambda>k. f (q ! ((h + k) mod W))) [0..<n] @ [f x]"
proof -
  have "q[(h + n) mod W := x] ! ((h + k) mod W) = q ! ((h + k) mod W)" if "k < n" for k
    using mod_window_inj [OF that assms(2), of h] by (simp add: nth_list_update_neq)
  then show ?thesis
    using assms by simp
qed

lemma ring_dequeue:
  assumes "length q = W" "Suc n \<le> W" "h < W"
  shows "map (\<lambda>k. f (q ! ((h + k) mod W))) [0..<Suc n] = f (q ! h) # map (\<lambda>k. f (q[h := x] ! ((Suc h mod W + k) mod W))) [0..<n]"
proof -
  have "q[h := x] ! ((Suc h mod W + k) mod W) = q ! ((h + Suc k) mod W)" if "k < n" for k
    using mod_window_inj [of 0 "Suc k" W h] that assms by (simp add: mod_simps nth_list_update_neq)
  then have "map (\<lambda>k. f (q[h := x] ! ((Suc h mod W + k) mod W))) [0..<n] = map (\<lambda>k. f (q ! ((h + Suc k) mod W))) [0..<n]"
    by simp
  then show ?thesis
    using assms(3) by (simp only: map_upt_Suc) simp
qed

lemma ringData_enqueue:
  assumes "length (ls_queue s) = STREAM_WINDOW" "ls_queueLength s < STREAM_WINDOW"
    "ls_queue t = (ls_queue s)[(ls_queueHead s + ls_queueLength s) mod STREAM_WINDOW := Some d]"
    "ls_queueHead t = ls_queueHead s" "ls_queueLength t = Suc (ls_queueLength s)"
  shows "ringData t = ringData s @ [d]"
  unfolding ringData_def assms(3-5)
  by (subst ring_enqueue [where f = "\<lambda>x. case x of None \<Rightarrow> [] | Some d \<Rightarrow> d"])
    (use assms(1,2) in \<open>simp_all add: STREAM_WINDOW_def\<close>)

lemma ringData_dequeue:
  assumes "length (ls_queue s) = STREAM_WINDOW" "0 < ls_queueLength s" "ls_queueLength s \<le> STREAM_WINDOW" "ls_queueHead s < STREAM_WINDOW"
    "ls_queue t = (ls_queue s)[ls_queueHead s := None]"
    "ls_queueHead t = Suc (ls_queueHead s) mod STREAM_WINDOW" "ls_queueLength t = ls_queueLength s - 1"
  shows "ringData s = (case ls_queue s ! ls_queueHead s of None \<Rightarrow> [] | Some d \<Rightarrow> d) # ringData t"
proof -
  obtain n where n: "ls_queueLength s = Suc n"
    using assms(2) by (cases "ls_queueLength s") auto
  show ?thesis
    unfolding ringData_def assms(5-7) n diff_Suc_1
    by (rule ring_dequeue [where f = "\<lambda>x. case x of None \<Rightarrow> [] | Some d \<Rightarrow> d"]) (use assms n in simp_all)
qed

section \<open>The receiver\<close>

definition receiver_ok :: "(int \<times> bytes) list \<Rightarrow> logical_stream \<Rightarrow> bool" where
  "receiver_ok fs s \<longleftrightarrow>
     \<not> ls_destroying s \<and> ls_circuit s \<and> ls_receivedBytes s = length (concat (dataOf fs)) \<and>
     ls_receivedFrames s = length (dataOf fs) \<and> ls_remoteEnded s = (LOGICAL_FIN \<in> fst ` set fs) \<and>
     ls_receiveCredit s + int (length (dataOf fs)) = int (STREAM_WINDOW + sum_list (streamCredits s)) \<and>
     ls_receiveCredit s + int (ls_receivedOutstanding s) + int (ls_streamReturnPending s) = int STREAM_WINDOW \<and>
     0 \<le> ls_receiveCredit s \<and> ls_streamReturnPending s < STREAM_CREDIT_BATCH \<and> (\<forall>n \<in> set (streamCredits s). 1 \<le> n) \<and>
     ls_receivedOutstanding s = ls_queueLength s + of_bool (ls_delivered s) \<and> length (ls_queue s) = STREAM_WINDOW \<and>
     ls_queueHead s < STREAM_WINDOW \<and> pushedData s @ ringData s = dataOf fs \<and>
     (readerEnded s \<longrightarrow> ls_remoteEnded s \<and> ls_queueLength s = 0)"

lemma receiver_views [simp]:
  "pushedData (s\<lparr>ls_wantRead := w\<rparr>) = pushedData s" "readerEnded (s\<lparr>ls_wantRead := w\<rparr>) = readerEnded s"
  "streamCredits (s\<lparr>ls_wantRead := w\<rparr>) = streamCredits s" "ringData (s\<lparr>ls_wantRead := w\<rparr>) = ringData s"
  "pushedData (s\<lparr>ls_remoteEnded := w\<rparr>) = pushedData s" "readerEnded (s\<lparr>ls_remoteEnded := w\<rparr>) = readerEnded s"
  "streamCredits (s\<lparr>ls_remoteEnded := w\<rparr>) = streamCredits s" "ringData (s\<lparr>ls_remoteEnded := w\<rparr>) = ringData s"
  "pushedData (emit (Consumed n b) s) = pushedData s" "readerEnded (emit (Consumed n b) s) = readerEnded s"
  "streamCredits (emit (Consumed n b) s) = streamCredits s" "ringData (emit e s) = ringData s"
  "pushedData (emit (Push None) s) = pushedData s" "streamCredits (emit (Push d) s) = streamCredits s"
  by (simp_all add: pushedData_def readerEnded_def trace_views ringData_def)

lemma receiver_ok_dequeue:
  assumes "receiver_ok fs s" "0 < ls_queueLength s" "\<not> ls_delivered s"
  defines "d \<equiv> case ls_queue s ! ls_queueHead s of None \<Rightarrow> [] | Some d \<Rightarrow> d"
  shows "receiver_ok fs (emit (Push (Some d)) (s\<lparr>ls_queue := (ls_queue s)[ls_queueHead s := None],
     ls_queueHead := Suc (ls_queueHead s) mod STREAM_WINDOW, ls_queueLength := ls_queueLength s - 1,
     ls_queuedBytes := ls_queuedBytes s - length d, ls_wantRead := False, ls_delivered := True\<rparr>))" (is "receiver_ok fs ?t")
proof -
  have len: "ls_queueLength s \<le> STREAM_WINDOW"
    using assms(1) by (simp add: receiver_ok_def)
  have ring: "ringData s = d # ringData ?t"
    unfolding d_def by (rule ringData_dequeue) (use assms(1,2) len in \<open>simp_all add: receiver_ok_def\<close>)
  have pushed: "pushedData ?t = pushedData s @ [d]" "readerEnded ?t = readerEnded s" "streamCredits ?t = streamCredits s"
    by (simp_all add: pushedData_def readerEnded_def trace_views)
  show ?thesis
    using assms(1-3) ring pushed by (simp add: receiver_ok_def STREAM_WINDOW_def)
qed

lemma drain_ok:
  assumes "receiver_ok fs s" "ls_wantRead s \<Longrightarrow> \<not> ls_delivered s"
  shows "receiver_ok fs (drain s) \<and> (ls_wantRead (drain s) \<longrightarrow> \<not> ls_delivered (drain s))"
proof -
  define d where "d = (case ls_queue s ! ls_queueHead s of None \<Rightarrow> [] | Some d \<Rightarrow> d)"
  define t where "t = (if ls_wantRead s \<and> ls_queueLength s > 0 then emit (Push (Some d)) (s\<lparr>ls_queue := (ls_queue s)[ls_queueHead s := None],
     ls_queueHead := Suc (ls_queueHead s) mod STREAM_WINDOW, ls_queueLength := ls_queueLength s - 1,
     ls_queuedBytes := ls_queuedBytes s - length d, ls_wantRead := False, ls_delivered := True\<rparr>) else s)"
  have t: "receiver_ok fs t" "ls_wantRead t \<longrightarrow> \<not> ls_delivered t"
    using receiver_ok_dequeue [of fs s] assms by (simp_all add: t_def d_def)
  have drained: "drain s = (if ls_remoteEnded t \<and> ls_queueLength t = 0 \<and> \<not> ls_delivered t then emit (Push None) (t\<lparr>ls_wantRead := False\<rparr>) else t)"
    using assms(1) by (simp add: drain_def Let_def t_def d_def receiver_ok_def)
  have "receiver_ok fs (emit (Push None) u)" if "receiver_ok fs u" "ls_remoteEnded u" "ls_queueLength u = 0" for u
    using that by (auto simp: receiver_ok_def)
  from this [of "t\<lparr>ls_wantRead := False\<rparr>"]
  have "receiver_ok fs (emit (Push None) (t\<lparr>ls_wantRead := False\<rparr>))" if "ls_remoteEnded t" "ls_queueLength t = 0"
    using t(1) that by (auto simp: receiver_ok_def)
  then show ?thesis
    using t unfolding drained by simp
qed

definition reader_ok :: "(int \<times> bytes) list \<Rightarrow> logical_stream \<Rightarrow> bool" where
  "reader_ok fs s \<longleftrightarrow> receiver_ok fs s \<and> (ls_wantRead s \<longrightarrow> \<not> ls_delivered s)"

lemma credit_decoded: "n \<le> 512 \<Longrightarrow> unat (creditBytes n ! 0) * 256 + unat (creditBytes n ! 1) = n"
  by (simp add: creditBytes_def unat_of_nat)

lemma acknowledge_ok:
  assumes "reader_ok fs s" "acknowledgeRead s = (t, r)"
  shows "receiver_ok fs t" "\<not> ls_delivered t" "r = Inr ()"
proof -
  have ok: "receiver_ok fs s"
    using assms(1) by (simp add: reader_ok_def)
  define p where "p = Suc (ls_streamReturnPending s)"
  define u where "u = s\<lparr>ls_delivered := False, ls_receivedOutstanding := ls_receivedOutstanding s - 1, ls_streamReturnPending := p\<rparr>"
  define v where "v = (if p \<ge> STREAM_CREDIT_BATCH then sendCredit (int (ls_streamId u)) LOGICAL_CREDIT p
      (u\<lparr>ls_streamReturnPending := 0, ls_receiveCredit := ls_receiveCredit u + int p\<rparr>) else u)"
  have bound: "p \<le> STREAM_CREDIT_BATCH"
    using ok by (simp add: p_def receiver_ok_def)
  have views: "pushedData v = pushedData s" "readerEnded v = readerEnded s" "ringData v = ringData s"
    by (simp_all add: v_def u_def pushedData_def readerEnded_def trace_views ringData_def sendCredit_def)
  have fields: "ls_delivered v = False" "ls_receivedOutstanding v = ls_receivedOutstanding s - 1"
    "ls_streamReturnPending v = (if p \<ge> STREAM_CREDIT_BATCH then 0 else p)"
    "ls_receiveCredit v = ls_receiveCredit s + (if p \<ge> STREAM_CREDIT_BATCH then int p else 0)"
    "ls_queueLength v = ls_queueLength s" "ls_queueHead v = ls_queueHead s" "ls_queue v = ls_queue s" "ls_remoteEnded v = ls_remoteEnded s"
    "ls_destroying v = ls_destroying s" "ls_circuit v = ls_circuit s" "ls_receivedBytes v = ls_receivedBytes s" "ls_receivedFrames v = ls_receivedFrames s"
    by (simp_all add: v_def u_def sendCredit_def)
  have credits: "streamCredits v = streamCredits s @ (if p \<ge> STREAM_CREDIT_BATCH then [p] else [])"
    using bound credit_decoded [of STREAM_CREDIT_BATCH] by (simp add: v_def u_def trace_views sendCredit_def STREAM_CREDIT_BATCH_def)
  show "receiver_ok fs t" "\<not> ls_delivered t" "r = Inr ()"
  proof (atomize (full), cases "ls_delivered s")
    case True
    have v: "receiver_ok fs v"
      using ok True bound unfolding receiver_ok_def views credits fields by (auto simp: p_def STREAM_CREDIT_BATCH_def)
    have "ls_circuit v" "\<not> ls_delivered v"
      using v fields by (simp_all add: receiver_ok_def)
    moreover have "acknowledgeRead s = returnCircuit 1 False v"
      unfolding v_def u_def p_def acknowledgeRead_def Let_def using True by simp
    ultimately have "(t, r) = (emit (Consumed 1 False) v, Inr ())"
      using assms(2) by (simp add: returnCircuit_def)
    then show "receiver_ok fs t \<and> \<not> ls_delivered t \<and> r = Inr ()"
      using v \<open>\<not> ls_delivered v\<close> by (auto simp: receiver_ok_def)
  next
    case False
    then show "receiver_ok fs t \<and> \<not> ls_delivered t \<and> r = Inr ()"
      using assms(2) ok by (simp add: acknowledgeRead_def)
  qed
qed

lemma stream_read_ok:
  assumes "reader_ok fs s" "stream_read s = (t, r)"
  shows "reader_ok fs t \<and> r = Inr ()"
proof -
  obtain u q where u: "acknowledgeRead s = (u, q)"
    by fastforce
  note a = acknowledge_ok [OF assms(1) u]
  have "receiver_ok fs (u\<lparr>ls_wantRead := True\<rparr>)" "\<not> ls_delivered (u\<lparr>ls_wantRead := True\<rparr>)"
    using a by (auto simp: receiver_ok_def)
  moreover have "(t, r) = (drain (u\<lparr>ls_wantRead := True\<rparr>), Inr ())"
    using assms(2) a u by (simp add: stream_read_def)
  ultimately show ?thesis
    using drain_ok [of fs "u\<lparr>ls_wantRead := True\<rparr>"] by (simp add: reader_ok_def)
qed

lemma stream_receive_ok:
  assumes "reader_ok fs s" "LOGICAL_FIN \<notin> fst ` set fs" "1 \<le> ls_receiveCredit s"
    "length (concat (dataOf fs)) + length d \<le> MAX_STREAM_BYTES" "length (dataOf fs) < MAX_STREAM_DATA_FRAMES"
    "stream_receive d s = (t, r)"
  shows "reader_ok (fs @ [(LOGICAL_DATA, d)]) t \<and> r = Inr ()"
proof -
  have ok: "receiver_ok fs s"
    using assms(1) by (simp add: reader_ok_def)
  have room: "ls_queueLength s < STREAM_WINDOW"
    using ok assms(3) by (simp add: receiver_ok_def)
  define u where "u = s\<lparr>ls_receivedBytes := ls_receivedBytes s + length d, ls_receivedFrames := Suc (ls_receivedFrames s),
    ls_receivedOutstanding := Suc (ls_receivedOutstanding s), ls_receiveCredit := ls_receiveCredit s - 1,
    ls_queuedBytes := ls_queuedBytes s + length d,
    ls_queue := (ls_queue s)[(ls_queueHead s + ls_queueLength s) mod STREAM_WINDOW := Some d], ls_queueLength := Suc (ls_queueLength s)\<rparr>"
  have ring: "ringData u = ringData s @ [d]"
    by (rule ringData_enqueue) (use ok room in \<open>simp_all add: u_def receiver_ok_def\<close>)
  have views: "pushedData u = pushedData s" "readerEnded u = readerEnded s" "streamCredits u = streamCredits s"
    by (simp_all add: u_def pushedData_def readerEnded_def trace_views)
  have fin: "(LOGICAL_FIN \<in> fst ` set (fs @ [(LOGICAL_DATA, d)])) = (LOGICAL_FIN \<in> fst ` set fs)"
    by (simp add: logical_flags)
  have fields: "ls_receivedBytes u = ls_receivedBytes s + length d" "ls_receivedFrames u = Suc (ls_receivedFrames s)"
    "ls_receivedOutstanding u = Suc (ls_receivedOutstanding s)" "ls_receiveCredit u = ls_receiveCredit s - 1"
    "ls_queueLength u = Suc (ls_queueLength s)" "ls_queueHead u = ls_queueHead s" "length (ls_queue u) = length (ls_queue s)"
    "ls_delivered u = ls_delivered s" "ls_remoteEnded u = ls_remoteEnded s" "ls_destroying u = ls_destroying s" "ls_circuit u = ls_circuit s"
    "ls_streamReturnPending u = ls_streamReturnPending s"
    by (simp_all add: u_def)
  have u: "receiver_ok (fs @ [(LOGICAL_DATA, d)]) u"
    using ok assms(2,3) unfolding receiver_ok_def ring views fin fields by auto
  have "(t, r) = (drain u, Inr ())"
    using assms ok room by (simp add: stream_receive_def Let_def u_def receiver_ok_def)
  moreover have "ls_wantRead u \<longrightarrow> \<not> ls_delivered u"
    using assms(1) by (simp add: u_def reader_ok_def)
  ultimately show ?thesis
    using drain_ok [OF u] by (simp add: reader_ok_def)
qed

lemma remoteFin_ok:
  assumes "reader_ok fs s"
  shows "reader_ok (fs @ [(LOGICAL_FIN, d)]) (remoteFin s)"
proof -
  have "receiver_ok (fs @ [(LOGICAL_FIN, d)]) (s\<lparr>ls_remoteEnded := True\<rparr>)"
    using assms by (auto simp: reader_ok_def receiver_ok_def)
  moreover have "s\<lparr>ls_remoteEnded := True\<rparr> = s" if "ls_remoteEnded s"
    using that by simp
  ultimately show ?thesis
    using drain_ok [of "fs @ [(LOGICAL_FIN, d)]" "s\<lparr>ls_remoteEnded := True\<rparr>"] assms
    by (cases "ls_remoteEnded s") (simp_all add: remoteFin_def reader_ok_def)
qed

section \<open>Both ends together\<close>

definition flow_ok :: "flow \<Rightarrow> bool" where
  "flow_ok c \<longleftrightarrow>
     sender_ok (sum_list (take (fl_credited c) (streamCredits (fl_destination c)))) (fl_source c) \<and>
     reader_ok (take (fl_delivered c) (streamFrames (fl_source c))) (fl_destination c) \<and>
     fl_delivered c \<le> length (streamFrames (fl_source c)) \<and> fl_credited c \<le> length (streamCredits (fl_destination c))"

lemma flow_start_ok: "flow_ok (flow_start i j circuit)"
  by (simp add: flow_ok_def flow_start_def LogicalRouteStream_new_def sender_ok_def reader_ok_def receiver_ok_def trace_views
      pushedData_def readerEnded_def ringData_def STREAM_WINDOW_def STREAM_CREDIT_BATCH_def)

lemma sum_take_le: "sum_list (take k xs) \<le> sum_list (xs :: nat list)"
  by (metis append_take_drop_id le_add1 sum_list_append)

lemma dataOf_take_le: "length (dataOf (take k fs)) \<le> length (dataOf fs)"
  by (metis append_take_drop_id dataOf_simps(2) le_add1 length_append)

text \<open>The window: what the sender may still send and what is on its way fit in the credit of the receiver.\<close>

lemma flow_window:
  assumes "flow_ok c"
  shows "int (ls_sendCredit (fl_source c)) + int (length (dataOf (drop (fl_delivered c) (streamFrames (fl_source c)))))
      + int (sum_list (drop (fl_credited c) (streamCredits (fl_destination c)))) = ls_receiveCredit (fl_destination c)"
proof -
  have "streamFrames (fl_source c) = take (fl_delivered c) (streamFrames (fl_source c)) @ drop (fl_delivered c) (streamFrames (fl_source c))"
    by simp
  then have "length (dataOf (streamFrames (fl_source c))) = length (dataOf (take (fl_delivered c) (streamFrames (fl_source c))))
      + length (dataOf (drop (fl_delivered c) (streamFrames (fl_source c))))"
    by (metis dataOf_simps(2) length_append)
  moreover have "sum_list (streamCredits (fl_destination c)) = sum_list (take (fl_credited c) (streamCredits (fl_destination c)))
      + sum_list (drop (fl_credited c) (streamCredits (fl_destination c)))"
    by (metis append_take_drop_id sum_list_append)
  ultimately show ?thesis
    using assms by (auto simp: flow_ok_def sender_ok_def reader_ok_def receiver_ok_def Let_def)
qed

lemma flow_deliver:
  assumes ok: "flow_ok c" and i: "fl_delivered c < length (streamFrames (fl_source c))"
    and b: "deliver (streamFrames (fl_source c) ! fl_delivered c) (fl_destination c) = (b, r)"
  shows "reader_ok (take (Suc (fl_delivered c)) (streamFrames (fl_source c))) b \<and> r = Inr ()"
proof -
  define fs where "fs = streamFrames (fl_source c)"
  define ds where "ds = dataOf fs"
  let ?i = "fl_delivered c"
  have fs: "fs = map (Pair LOGICAL_DATA) ds @ (if ls_localEnded (fl_source c) then [(LOGICAL_FIN, [])] else [])"
    and bytes: "length (concat ds) \<le> MAX_STREAM_BYTES" and frames: "length ds \<le> MAX_STREAM_DATA_FRAMES"
    and reader: "reader_ok (take ?i fs) (fl_destination c)"
    using ok by (auto simp: flow_ok_def sender_ok_def fs_def ds_def Let_def)
  have next_frame: "take (Suc ?i) fs = take ?i fs @ [fs ! ?i]"
    using i by (simp add: fs_def take_Suc_conv_app_nth)
  show ?thesis
  proof (cases "?i < length ds")
    case True
    then have f: "fs ! ?i = (LOGICAL_DATA, ds ! ?i)" and t: "take ?i fs = map (Pair LOGICAL_DATA) (take ?i ds)"
      by (subst fs; simp add: nth_append take_map)+
    have "ds = take ?i ds @ [ds ! ?i] @ drop (Suc ?i) ds"
      using True by (simp add: id_take_nth_drop [symmetric])
    then have "concat ds = concat (take ?i ds) @ ds ! ?i @ concat (drop (Suc ?i) ds)"
      by (metis concat.simps(2) concat_append append_Cons append_Nil)
    then have room: "length (concat (take ?i ds)) + length (ds ! ?i) \<le> MAX_STREAM_BYTES"
      using bytes by simp
    have "drop ?i fs = (LOGICAL_DATA, ds ! ?i) # drop (Suc ?i) fs"
      using i f Cons_nth_drop_Suc [of ?i fs] by (simp add: fs_def)
    then have "1 \<le> length (dataOf (drop ?i fs))"
      by (simp add: dataOf_def)
    then have credit: "1 \<le> ls_receiveCredit (fl_destination c)"
      using flow_window [OF ok] by (simp add: fs_def)
    have "LOGICAL_FIN \<notin> fst ` set (take ?i fs)"
      by (auto simp: t logical_flags)
    then have "reader_ok (take ?i fs @ [(LOGICAL_DATA, ds ! ?i)]) b \<and> r = Inr ()"
      by (rule stream_receive_ok [OF reader _ credit])
        (use True b f room frames in \<open>auto simp: t deliver_def fs_def [symmetric]\<close>)
    then show ?thesis
      using next_frame f by (simp add: fs_def)
  next
    case False
    moreover have "length fs = length ds + (if ls_localEnded (fl_source c) then 1 else 0)"
      by (subst fs) simp
    ultimately have "?i = length ds" "ls_localEnded (fl_source c)"
      using i by (auto simp: fs_def [symmetric] split: if_splits)
    then have f: "fs ! ?i = (LOGICAL_FIN, [])"
      by (subst fs) (simp add: nth_append)
    then have "(b, r) = (remoteFin (fl_destination c), Inr ())"
      using b by (simp add: deliver_def fs_def [symmetric] logical_flags)
    then show ?thesis
      using remoteFin_ok [OF reader, of "[]"] next_frame f by (simp add: fs_def)
  qed
qed

lemma flow_credit_ok:
  assumes ok: "flow_ok c" and j: "fl_credited c < length (streamCredits (fl_destination c))"
    and a: "grantStream (int (streamCredits (fl_destination c) ! fl_credited c)) (fl_source c) = (a, r)"
  shows "sends_on (sum_list (take (Suc (fl_credited c)) (streamCredits (fl_destination c)))) (fl_source c) a \<and> r = Inr ()"
proof -
  let ?cs = "streamCredits (fl_destination c)" and ?j = "fl_credited c"
  have "sum_list (drop ?j ?cs) = ?cs ! ?j + sum_list (drop (Suc ?j) ?cs)"
    using j by (simp add: Cons_nth_drop_Suc [symmetric])
  moreover have "ls_receiveCredit (fl_destination c) \<le> int STREAM_WINDOW" "1 \<le> ?cs ! ?j"
    using ok j by (auto simp: flow_ok_def reader_ok_def receiver_ok_def)
  ultimately have "ls_sendCredit (fl_source c) + ?cs ! ?j \<le> STREAM_WINDOW"
    using flow_window [OF ok] by simp
  moreover have "sender_ok (sum_list (take ?j ?cs)) (fl_source c)"
    using ok by (simp add: flow_ok_def)
  ultimately show ?thesis
    using grantStream_ok a \<open>1 \<le> ?cs ! ?j\<close> by (simp add: take_Suc_conv_app_nth [OF j])
qed

lemma flow_source_ok:
  assumes "flow_ok c" "sends_on (sum_list (take (fl_credited c) (streamCredits (fl_destination c)))) (fl_source c) a"
  shows "flow_ok (c\<lparr>fl_source := a\<rparr>)"
  using assms by (auto simp: flow_ok_def sends_on_def)

definition traceGrows :: "logical_stream \<Rightarrow> logical_stream \<Rightarrow> bool" where
  "traceGrows s t \<longleftrightarrow> ls_streamId t = ls_streamId s \<and> (\<exists>es. ls_trace t = ls_trace s @ es)"

lemma traceGrows_same: "ls_streamId t = ls_streamId s \<Longrightarrow> ls_trace t = ls_trace s \<Longrightarrow> traceGrows s t"
  by (simp add: traceGrows_def)

lemma traceGrows_trans: "traceGrows s t \<Longrightarrow> traceGrows t u \<Longrightarrow> traceGrows s u"
  by (auto simp: traceGrows_def)

lemma drain_grows: "traceGrows s (drain s)"
  by (simp add: drain_def traceGrows_def Let_def)

lemma destroy_grows: "traceGrows s (stream_destroy s)"
  by (simp add: stream_destroy_def traceGrows_def Let_def)

lemma acknowledge_grows: "acknowledgeRead s = (t, r) \<Longrightarrow> ls_circuit s \<Longrightarrow> traceGrows s t"
  by (auto simp: acknowledgeRead_def returnCircuit_def traceGrows_def sendCredit_def Let_def split: if_splits)

lemma stream_read_grows:
  assumes "stream_read s = (t, r)" "ls_circuit s"
  shows "traceGrows s t"
proof -
  obtain u q where u: "acknowledgeRead s = (u, q)"
    by fastforce
  have "traceGrows u (drain (u\<lparr>ls_wantRead := True\<rparr>))"
    by (rule traceGrows_trans [OF traceGrows_same drain_grows]) simp_all
  then show ?thesis
    using assms(1) acknowledge_grows [OF u assms(2)]
    by (auto simp: stream_read_def u split: sum.splits intro: traceGrows_trans)
qed

lemma stream_receive_grows:
  assumes "stream_receive d s = (t, r)" "ls_circuit s"
  shows "traceGrows s t"
proof -
  have "(\<exists>u. traceGrows s u \<and> (t = drain u \<or> t = stream_destroy u))"
  proof (cases "ls_destroying s \<or> ls_remoteEnded s")
    case True
    have "traceGrows s (emit (Consumed 1 False) s)"
      by (simp add: traceGrows_def)
    moreover have "t = stream_destroy (emit (Consumed 1 False) s)"
      using assms True by (simp add: stream_receive_def Let_def returnCircuit_def)
    ultimately show ?thesis
      by blast
  next
    case False
    define u where "u = s\<lparr>ls_receivedBytes := ls_receivedBytes s + length d, ls_receivedFrames := Suc (ls_receivedFrames s),
      ls_receivedOutstanding := Suc (ls_receivedOutstanding s), ls_receiveCredit := ls_receiveCredit s - 1\<rparr>"
    define v where "v = u\<lparr>ls_queuedBytes := ls_queuedBytes u + length d,
      ls_queue := (ls_queue u)[(ls_queueHead u + ls_queueLength u) mod STREAM_WINDOW := Some d], ls_queueLength := Suc (ls_queueLength u)\<rparr>"
    have "traceGrows s u" "traceGrows s v"
      by (simp_all add: traceGrows_def u_def v_def)
    moreover have "t = stream_destroy u \<or> t = drain v"
      using assms False unfolding stream_receive_def Let_def v_def u_def by (simp split: if_splits)
    ultimately show ?thesis
      by blast
  qed
  then show ?thesis
    using drain_grows destroy_grows traceGrows_trans by blast
qed

lemma deliver_grows:
  assumes "deliver f s = (t, r)" "ls_circuit s"
  shows "traceGrows s t"
proof -
  have "traceGrows s (drain (s\<lparr>ls_remoteEnded := True\<rparr>))"
    by (rule traceGrows_trans [OF traceGrows_same drain_grows]) simp_all
  then have "traceGrows s (remoteFin s)"
    by (simp add: remoteFin_def traceGrows_same)
  then show ?thesis
    using assms stream_receive_grows by (auto simp: deliver_def split: if_splits)
qed

lemma flow_destination_ok:
  assumes "flow_ok c" "reader_ok (take n (streamFrames (fl_source c))) b" "n \<le> length (streamFrames (fl_source c))"
    "traceGrows (fl_destination c) b"
  shows "flow_ok (c\<lparr>fl_destination := b, fl_delivered := n\<rparr>)"
  using assms by (auto simp: flow_ok_def streamCredits_def traceGrows_def)

lemma flow_step_ok:
  assumes "flow_step c c'" "flow_ok c"
  shows "flow_ok c'"
proof -
  let ?g = "sum_list (take (fl_credited c) (streamCredits (fl_destination c)))"
  have a: "sender_ok ?g (fl_source c)" and b: "reader_ok (take (fl_delivered c) (streamFrames (fl_source c))) (fl_destination c)"
    and le: "fl_delivered c \<le> length (streamFrames (fl_source c))"
    using assms(2) by (simp_all add: flow_ok_def)
  then have circuit: "ls_circuit (fl_destination c)"
    by (simp add: reader_ok_def receiver_ok_def)
  note source = flow_source_ok [OF assms(2)] and destination = flow_destination_ok [OF assms(2)]
  show ?thesis
    using assms(1)
  proof cases
    case (flow_write a r) then show ?thesis using source stream_write_ok a by simp
  next
    case (flow_batch data a r) then show ?thesis using source sendBatch_ok a by simp
  next
    case flow_done then show ?thesis using source sendDone_ok a by simp
  next
    case flow_final then show ?thesis using source stream_final_ok a by simp
  next
    case (flow_grant amount a r) then show ?thesis using source grantCircuit_ok a by simp
  next
    case (flow_cancel a r) then show ?thesis using source cancelCircuit_ok a by simp
  next
    case flow_idle then show ?thesis using source idleTimerFired_ok a by simp
  next
    case (flow_receive b r)
    show ?thesis
      unfolding flow_receive(1)
      by (rule destination) (use flow_deliver [OF assms(2) flow_receive(2,3)] flow_receive(2) deliver_grows [OF flow_receive(3) circuit] in auto)
  next
    case (flow_read b' r)
    have "flow_ok (c\<lparr>fl_destination := b', fl_delivered := fl_delivered c\<rparr>)"
      by (rule destination) (use stream_read_ok [OF b flow_read(2)] stream_read_grows [OF flow_read(2) circuit] le in auto)
    then show ?thesis
      using flow_read(1) by simp
  next
    case (flow_credit a r)
    then have "sends_on (sum_list (take (Suc (fl_credited c)) (streamCredits (fl_destination c)))) (fl_source c) a"
      using flow_credit_ok [OF assms(2)] by blast
    then show ?thesis
      using assms(2) flow_credit by (auto simp: flow_ok_def sends_on_def)
  qed
qed

lemma flow_reachable:
  assumes "flow_step\<^sup>*\<^sup>* (flow_start i j circuit) c"
  shows "flow_ok c"
  using assms by (induction rule: rtranclp_induct) (auto simp: flow_start_ok intro: flow_step_ok)

lemma flow_prefix:
  assumes "flow_ok c"
  shows "\<exists>rest. dataOf (streamFrames (fl_source c)) = pushedData (fl_destination c) @ ringData (fl_destination c) @ rest"
proof -
  have "pushedData (fl_destination c) @ ringData (fl_destination c) = dataOf (take (fl_delivered c) (streamFrames (fl_source c)))"
    using assms by (simp add: flow_ok_def reader_ok_def receiver_ok_def)
  then show ?thesis
    by (metis append.assoc append_take_drop_id dataOf_simps(2))
qed

lemma flow_ended:
  assumes "flow_ok c" "readerEnded (fl_destination c)"
  shows "dataOf (streamFrames (fl_source c)) = pushedData (fl_destination c) \<and> ls_localEnded (fl_source c)"
proof -
  let ?fs = "streamFrames (fl_source c)" and ?n = "fl_delivered c"
  define ds where "ds = dataOf ?fs"
  have fs: "?fs = map (Pair LOGICAL_DATA) ds @ (if ls_localEnded (fl_source c) then [(LOGICAL_FIN, [])] else [])"
    using assms(1) by (simp add: flow_ok_def sender_ok_def ds_def Let_def)
  have fin: "LOGICAL_FIN \<in> fst ` set (take ?n ?fs)" "ringData (fl_destination c) = []"
    "pushedData (fl_destination c) @ ringData (fl_destination c) = dataOf (take ?n ?fs)"
    using assms by (auto simp: flow_ok_def reader_ok_def receiver_ok_def ringData_def)
  have plain: "LOGICAL_FIN \<notin> fst ` set (map (Pair LOGICAL_DATA) xs)" for xs :: "bytes list"
    by (auto simp: logical_flags)
  have "length ds < ?n"
  proof (rule ccontr)
    assume "\<not> length ds < ?n"
    then have "take ?n ?fs = map (Pair LOGICAL_DATA) (take ?n ds)"
      by (subst fs) (simp add: take_map)
    then show False
      using fin(1) plain by metis
  qed
  then have "take ?n ?fs = ?fs"
    by (subst (1 2) fs) (simp add: Suc_le_eq)
  then show ?thesis
    using fin plain [of ds] fs by (auto split: if_splits)
qed

section \<open>A run: circuit credit is asked for and granted, one frame is sent, delivered and read\<close>

definition sampleSource :: "nat \<Rightarrow> logical_stream" where
  "sampleSource k = (let a = LogicalRouteStream_new 0 False; ask = SendLogical CIRCUIT_STREAM_ID LOGICAL_DEMAND (creditBytes CIRCUIT_WINDOW)
     in if k = 0 then a
        else if k = 1 then a\<lparr>ls_writing := True\<rparr>
        else if k = 2 then a\<lparr>ls_writing := True, ls_circuitRequested := CIRCUIT_WINDOW, ls_creditWaiter := True, ls_trace := [ask]\<rparr>
        else if k = 3 then a\<lparr>ls_writing := True, ls_circuitCredit := CIRCUIT_WINDOW, ls_trace := [ask, WakeWriter]\<rparr>
        else a\<lparr>ls_writing := True, ls_circuitCredit := CIRCUIT_WINDOW - 1, ls_sendCredit := STREAM_WINDOW - 1, ls_sentBytes := 3, ls_sentFrames := 1,
               ls_trace := [ask, WakeWriter, SendLogical 0 LOGICAL_DATA [1, 2, 3]]\<rparr>)"

definition sampleDestination :: "nat \<Rightarrow> logical_stream" where
  "sampleDestination k = (let b = LogicalRouteStream_new 2 True
     in if k = 0 then b
        else if k = 1 then b\<lparr>ls_wantRead := True\<rparr>
        else b\<lparr>ls_receivedBytes := 3, ls_receivedFrames := 1, ls_receivedOutstanding := 1, ls_receiveCredit := int STREAM_WINDOW - 1,
               ls_queueHead := 1, ls_delivered := True, ls_trace := [Push (Some [1, 2, 3])]\<rparr>)"

definition sampleFlow :: "nat \<Rightarrow> nat \<Rightarrow> nat \<Rightarrow> flow" where
  "sampleFlow k l n = \<lparr>fl_source = sampleSource k, fl_destination = sampleDestination l, fl_delivered = n, fl_credited = 0\<rparr>"

lemmas sample_states = sampleSource_def sampleDestination_def LogicalRouteStream_new_def Let_def

lemma sample_source_steps:
  "stream_write (sampleSource 0) = (sampleSource 1, Inr ())"
  "sendBatch [1, 2, 3] (sampleSource 1) = (sampleSource 2, SendWaiting)"
  "grantCircuit (int CIRCUIT_WINDOW) (sampleSource 2) = (sampleSource 3, Inr ())"
  "sendBatch [1, 2, 3] (sampleSource 3) = (sampleSource 4, SendSent [])"
  by (simp_all add: sample_states stream_write_def sendBatch_def requestCircuit_def sendCredit_def grantCircuit_def wakeWriter_def
      logical_sizes MAX_STREAM_BYTES_def MAX_STREAM_DATA_FRAMES_def SEND_BATCH_CELLS_def)

lemma sample_destination_steps:
  "stream_read (sampleDestination 0) = (sampleDestination 1, Inr ())"
  "deliver (LOGICAL_DATA, [1, 2, 3]) (sampleDestination 1) = (sampleDestination 2, Inr ())"
  using list_update_id [of "replicate 512 None" 0]
  by (simp_all add: sample_states stream_read_def acknowledgeRead_def drain_def deliver_def stream_receive_def
      MAX_STREAM_BYTES_def MAX_STREAM_DATA_FRAMES_def logical_sizes)

lemma sample_frames: "streamFrames (sampleSource 4) = [(LOGICAL_DATA, [1, 2, 3])]"
  by (simp add: sample_states trace_views logical_flags CIRCUIT_STREAM_ID_def)

lemma sample_reachable: "flow_step\<^sup>*\<^sup>* (flow_start 0 2 False) (sampleFlow 4 2 1)"
proof -
  have writing: "\<not> ls_writing (sampleSource 0)" "ls_writing (sampleSource 1)" "ls_writing (sampleSource 3)"
    by (simp_all add: sample_states)
  have start: "flow_start 0 2 False = sampleFlow 0 0 0"
    by (simp add: flow_start_def sampleFlow_def sampleSource_def sampleDestination_def)
  have sp: "flow_step (sampleFlow 0 0 0) (sampleFlow 1 0 0)"
    using flow_write [of "sampleFlow 0 0 0"] sample_source_steps(1) writing by (simp add: sampleFlow_def)
  have sq: "flow_step (sampleFlow 1 0 0) (sampleFlow 2 0 0)"
    using flow_batch [of "sampleFlow 1 0 0"] sample_source_steps(2) writing by (simp add: sampleFlow_def)
  have sr: "flow_step (sampleFlow 2 0 0) (sampleFlow 3 0 0)"
    using flow_grant [of _ "sampleFlow 2 0 0"] sample_source_steps(3) by (simp add: sampleFlow_def)
  have ss: "flow_step (sampleFlow 3 0 0) (sampleFlow 4 0 0)"
    using flow_batch [of "sampleFlow 3 0 0"] sample_source_steps(4) writing by (simp add: sampleFlow_def)
  have st: "flow_step (sampleFlow 4 0 0) (sampleFlow 4 1 0)"
    using flow_read [of "sampleFlow 4 0 0"] sample_destination_steps(1) by (simp add: sampleFlow_def)
  have su: "flow_step (sampleFlow 4 1 0) (sampleFlow 4 2 1)"
    using flow_receive [of "sampleFlow 4 1 0"] sample_destination_steps(2) by (simp add: sampleFlow_def sample_frames)
  show ?thesis
    unfolding start
    by (rule converse_rtranclp_into_rtranclp, rule sp, rule converse_rtranclp_into_rtranclp, rule sq, rule converse_rtranclp_into_rtranclp, rule sr,
        rule converse_rtranclp_into_rtranclp, rule ss, rule converse_rtranclp_into_rtranclp, rule st, rule r_into_rtranclp, rule su)
qed

section \<open>Flow control\<close>

text \<open>
  C26: However the two ends of a logical stream are scheduled, the receiver is never overrun: its ring buffer
  holds at most a window, the stream is not torn down, no frame and no credit on its way is refused, and the
  credit of the sender, the data on its way and the credit on its way back add up to the credit the receiver
  has given out. No credit is lost either: once everything sent was delivered and read and all credit came
  back, the sender has more than a window less one batch.
\<close>

theorem stream_never_overrun:
  assumes "flow_step\<^sup>*\<^sup>* (flow_start i j circuit) c"
  shows "\<not> ls_destroying (fl_destination c) \<and> ls_queueLength (fl_destination c) \<le> STREAM_WINDOW
    \<and> int (ls_sendCredit (fl_source c)) + int (length (dataOf (drop (fl_delivered c) (streamFrames (fl_source c)))))
        + int (sum_list (drop (fl_credited c) (streamCredits (fl_destination c)))) = ls_receiveCredit (fl_destination c)
    \<and> (fl_delivered c < length (streamFrames (fl_source c)) \<longrightarrow>
        snd (deliver (streamFrames (fl_source c) ! fl_delivered c) (fl_destination c)) = Inr ())
    \<and> (fl_credited c < length (streamCredits (fl_destination c)) \<longrightarrow>
        snd (grantStream (int (streamCredits (fl_destination c) ! fl_credited c)) (fl_source c)) = Inr ())
    \<and> (fl_delivered c = length (streamFrames (fl_source c)) \<and> ls_receivedOutstanding (fl_destination c) = 0 \<and>
        fl_credited c = length (streamCredits (fl_destination c)) \<longrightarrow>
        STREAM_WINDOW < ls_sendCredit (fl_source c) + STREAM_CREDIT_BATCH)"
proof -
  have ok: "flow_ok c"
    by (rule flow_reachable [OF assms])
  have r: "receiver_ok (take (fl_delivered c) (streamFrames (fl_source c))) (fl_destination c)"
    using ok by (simp add: flow_ok_def reader_ok_def)
  have "\<not> ls_destroying (fl_destination c)" "ls_queueLength (fl_destination c) \<le> STREAM_WINDOW"
    using r by (auto simp: receiver_ok_def)
  moreover have "STREAM_WINDOW < ls_sendCredit (fl_source c) + STREAM_CREDIT_BATCH"
    if "fl_delivered c = length (streamFrames (fl_source c))" "ls_receivedOutstanding (fl_destination c) = 0"
      "fl_credited c = length (streamCredits (fl_destination c))"
    using r that flow_window [OF ok] by (auto simp: receiver_ok_def)
  ultimately show ?thesis
    using flow_window [OF ok] flow_deliver [OF ok, OF _ prod.collapse [symmetric]] flow_credit_ok [OF ok, OF _ prod.collapse [symmetric]]
    by blast
qed

theorem stream_never_overrun_witness:
  "flow_step\<^sup>*\<^sup>* (flow_start 0 2 False) (sampleFlow 4 2 1) \<and> \<not> ls_destroying (fl_destination (sampleFlow 4 2 1))
    \<and> ls_queueLength (fl_destination (sampleFlow 4 2 1)) \<le> STREAM_WINDOW"
  using stream_never_overrun [OF sample_reachable] sample_reachable by blast

text \<open>
  C27: What a logical stream hands to its reader is a prefix of what was sent, in order, whatever the ring
  buffer wrapped around; and when the reader sees the end of the stream, it has been handed all of it and the
  sender has ended.
\<close>

theorem stream_delivers_in_order:
  assumes "flow_step\<^sup>*\<^sup>* (flow_start i j circuit) c"
  shows "(\<exists>rest. dataOf (streamFrames (fl_source c)) = pushedData (fl_destination c) @ rest)
    \<and> (readerEnded (fl_destination c) \<longrightarrow>
        dataOf (streamFrames (fl_source c)) = pushedData (fl_destination c) \<and> ls_localEnded (fl_source c))"
  using flow_prefix [OF flow_reachable [OF assms]] flow_ended [OF flow_reachable [OF assms]] by blast

theorem stream_delivers_in_order_witness:
  "flow_step\<^sup>*\<^sup>* (flow_start 0 2 False) (sampleFlow 4 2 1) \<and> pushedData (fl_destination (sampleFlow 4 2 1)) = [[1, 2, 3]]
    \<and> (\<exists>rest. dataOf (streamFrames (fl_source (sampleFlow 4 2 1))) = [[1, 2, 3]] @ rest)"
proof -
  have "pushedData (fl_destination (sampleFlow 4 2 1)) = [[1, 2, 3]]"
    by (simp add: sampleFlow_def sample_states pushedData_def pushes_def)
  then show ?thesis
    using stream_delivers_in_order [OF sample_reachable] sample_reachable by simp
qed

end
