(* ===== verification/Entry_Circuit.thy ===== *)
theory Entry_Circuit
  imports Logical_Stream
begin

text \<open>
  The entry relay of a route (class \<open>EntryCircuit\<close> of \<^verbatim>\<open>lib/private/private-peer-controller.js\<close>): sources on
  links of their own, multiplexed onto the one link to the destination. What is sent, and what is done to
  spliced native streams, is appended to the trace. The link of a source closes synchronously, so destroying
  it runs its close handler. A grant of the pool sends a credit frame on the link of its source, which calls
  nothing of the pool; a link that fails while it sends is a close of its own. The clock and the ids of new
  native streams are arguments.
\<close>

section \<open>State\<close>

definition MAX_SPLICED_ROUTE_STREAMS :: nat where "MAX_SPLICED_ROUTE_STREAMS = 256"

datatype entry_event =
    ToDestination int int bytes
  | ToSource nat int int bytes
  | SpliceConnect nat bool nat
  | SpliceRelay nat
  | SpliceClose nat
  | LinkDestroyed

text \<open>\<open>es_attached\<close>: the handlers of the source's link are attached, the last thing an admission does.\<close>

record entry_source =
  es_attached :: bool
  es_splice :: "bool option"
  es_sourceEnded :: bool
  es_destinationEnded :: bool
  es_resetReceived :: bool
  es_sentBytes :: nat
  es_sentFrames :: nat
  es_receivedBytes :: nat
  es_receivedFrames :: nat
  es_sendCredit :: nat
  es_receiveCredit :: nat
  es_reverseInFlight :: nat

record entry_circuit =
  ec_spliced :: bool
  ec_sources :: "(nat \<times> entry_source) list"
  ec_nextStreamId :: nat
  ec_closed :: bool
  ec_retired :: bool
  ec_reverseReceiveCredit :: nat
  ec_reverseReturnPending :: nat
  ec_returnTimer :: bool
  ec_forwardPool :: credit_pool
  ec_trace :: "entry_event list"

definition EntryCircuit_new :: "bool \<Rightarrow> entry_circuit" where
  "EntryCircuit_new spliced =
     \<lparr>ec_spliced = spliced, ec_sources = [], ec_nextStreamId = 2, ec_closed = False, ec_retired = False,
      ec_reverseReceiveCredit = CIRCUIT_WINDOW, ec_reverseReturnPending = 0, ec_returnTimer = False,
      ec_forwardPool = CircuitCreditPool_new, ec_trace = []\<rparr>"

definition newSource :: entry_source where
  "newSource = \<lparr>es_attached = False, es_splice = None, es_sourceEnded = False, es_destinationEnded = False, es_resetReceived = False, es_sentBytes = 0,
     es_sentFrames = 0, es_receivedBytes = 0, es_receivedFrames = 0, es_sendCredit = STREAM_WINDOW, es_receiveCredit = STREAM_WINDOW,
     es_reverseInFlight = 0\<rparr>"

abbreviation sourceOf :: "entry_circuit \<Rightarrow> nat \<Rightarrow> entry_source option" where
  "sourceOf e \<equiv> map_of (ec_sources e)"

abbreviation tell :: "entry_event \<Rightarrow> entry_circuit \<Rightarrow> entry_circuit" where
  "tell v e \<equiv> e\<lparr>ec_trace := ec_trace e @ [v]\<rparr>"

definition setSource :: "nat \<Rightarrow> entry_source \<Rightarrow> entry_circuit \<Rightarrow> entry_circuit" where
  "setSource streamId r e = e\<lparr>ec_sources := AList.update streamId r (ec_sources e)\<rparr>"

type_synonym entry_result = "entry_circuit \<times> (crypto_failure + unit)"

definition thenE :: "entry_result \<Rightarrow> (entry_circuit \<Rightarrow> entry_result) \<Rightarrow> entry_result" where
  "thenE r f = (case r of (e, Inl x) \<Rightarrow> (e, Inl x) | (e, Inr u) \<Rightarrow> f e)"

text \<open>A call of the pool; its grants call nothing back.\<close>

definition forwardGrant :: grant_callback where
  "forwardGrant k owner amount = ([], False)"

definition callForward :: "int \<Rightarrow> pool_call \<Rightarrow> entry_circuit \<Rightarrow> entry_result" where
  "callForward now c e =
     (case pool_step forwardGrant (\<lambda>_. now) c (ec_forwardPool e) of
        None \<Rightarrow> (e, Inl unavailable)
      | Some (p, Inl x) \<Rightarrow> (e, Inl x)
      | Some (p, Inr threw) \<Rightarrow> (e\<lparr>ec_forwardPool := p\<rparr>, Inr ()))"

definition readUInt16 :: "bytes \<Rightarrow> nat" where
  "readUInt16 bs = unat (bs ! 0) * 256 + unat (bs ! 1)"

section \<open>Credit of the reverse direction\<close>

definition returnReverse :: "nat \<Rightarrow> bool \<Rightarrow> entry_circuit \<Rightarrow> entry_result" where
  "returnReverse amount flush e =
     (if ec_closed e then (e, Inr ())
      else (let e = e\<lparr>ec_reverseReturnPending := ec_reverseReturnPending e + amount\<rparr>
        in if ec_reverseReturnPending e = 0 then (e, Inr ())
           else if \<not> flush \<and> ec_reverseReturnPending e < CIRCUIT_CREDIT_BATCH then (e\<lparr>ec_returnTimer := True\<rparr>, Inr ())
           else (let returned = ec_reverseReturnPending e;
                     e = e\<lparr>ec_returnTimer := False, ec_reverseReturnPending := 0, ec_reverseReceiveCredit := ec_reverseReceiveCredit e + returned\<rparr>
             in if ec_reverseReceiveCredit e > CIRCUIT_WINDOW then (e, Inl invalidRoute)
                else (tell (ToDestination CIRCUIT_STREAM_ID LOGICAL_CREDIT (creditBytes returned)) e, Inr ()))))"

section \<open>Closing\<close>

definition closeSplice :: "nat \<Rightarrow> entry_source \<Rightarrow> entry_circuit \<Rightarrow> entry_circuit" where
  "closeSplice streamId r e = (if es_splice r \<noteq> None then tell (SpliceClose streamId) e else e)"

text \<open>The link of a source is closed, by the relay or by its other end: its close handler.\<close>

definition closeSource :: "int \<Rightarrow> nat \<Rightarrow> entry_circuit \<Rightarrow> entry_result" where
  "closeSource now streamId e =
     (case sourceOf e streamId of
        None \<Rightarrow> (e, Inr ())
      | Some r \<Rightarrow>
          if \<not> es_attached r then (e, Inr ())
          else thenE (callForward now (Remove streamId) (closeSplice streamId r (e\<lparr>ec_sources := AList.delete streamId (ec_sources e)\<rparr>))) (\<lambda>e.
          thenE (returnReverse (es_reverseInFlight r) True e) (\<lambda>e.
            if ec_closed e \<or> es_resetReceived r \<or> (es_sourceEnded r \<and> es_destinationEnded r) then (e, Inr ())
            else (tell (ToDestination (int streamId) LOGICAL_RESET []) e, Inr ()))))"

fun closeSources :: "nat list \<Rightarrow> int \<Rightarrow> entry_circuit \<Rightarrow> entry_result" where
  "closeSources [] now e = (e, Inr ())"
| "closeSources (i # is) now e = thenE (closeSource now i e) (closeSources is now)"

definition entry_destroy :: "int \<Rightarrow> entry_circuit \<Rightarrow> entry_result" where
  "entry_destroy now e =
     (if ec_closed e then (e, Inr ())
      else thenE (closeSources (map fst (ec_sources e)) now
               (e\<lparr>ec_closed := True, ec_returnTimer := False, ec_forwardPool := pool_destroy (ec_forwardPool e)\<rparr>))
             (\<lambda>e. (tell LinkDestroyed (e\<lparr>ec_sources := []\<rparr>), Inr ())))"

text \<open>The timer of \<open>scheduleCreditReturn\<close>.\<close>

definition returnTimerFired :: "int \<Rightarrow> entry_circuit \<Rightarrow> entry_result" where
  "returnTimerFired now e =
     (if \<not> ec_returnTimer e then (e, Inr ())
      else (case returnReverse 0 True (e\<lparr>ec_returnTimer := False\<rparr>) of
        (e, Inl x) \<Rightarrow> entry_destroy now e
      | (e, Inr u) \<Rightarrow> (e, Inr u)))"

definition entry_retire :: "entry_circuit \<Rightarrow> entry_circuit" where
  "entry_retire e = e\<lparr>ec_retired := True\<rparr>"

section \<open>Admission of a source\<close>

definition activate :: "int \<Rightarrow> entry_circuit \<Rightarrow> entry_circuit \<times> (crypto_failure + nat)" where
  "activate now e =
     (if ec_closed e \<or> ec_retired e
         \<or> length (ec_sources e) \<ge> (if ec_spliced e then MAX_SPLICED_ROUTE_STREAMS else MAX_ROUTE_STREAMS)
         \<or> int (ec_nextStreamId e) \<ge> CIRCUIT_STREAM_ID
      then (e, Inl unavailable)
      else (let streamId = ec_nextStreamId e; e = setSource streamId newSource (e\<lparr>ec_nextStreamId := ec_nextStreamId e + 2\<rparr>)
        in case callForward now (Add streamId) e of
             (e, Inl x) \<Rightarrow> (e, Inl x)
           | (e, Inr u) \<Rightarrow> let e = setSource streamId (newSource\<lparr>es_attached := True\<rparr>) e in (if ec_spliced e then e else tell (ToDestination (int streamId) LOGICAL_OPEN []) e, Inr streamId)))"

section \<open>Frames of a source\<close>

definition endOrReset :: "nat \<Rightarrow> bool \<Rightarrow> nat \<Rightarrow> entry_source \<Rightarrow> entry_circuit \<Rightarrow> entry_circuit" where
  "endOrReset flags fromSource streamId r e =
     (let r = (if int flags = LOGICAL_FIN then (if fromSource then r\<lparr>es_sourceEnded := True\<rparr> else r\<lparr>es_destinationEnded := True\<rparr>) else r)
      in if int flags = LOGICAL_RESET then closeSplice streamId r (setSource streamId (r\<lparr>es_resetReceived := True, es_splice := None\<rparr>) e)
         else setSource streamId r e)"

definition sourceCircuit :: "int \<Rightarrow> nat \<Rightarrow> entry_source \<Rightarrow> logical_frame \<Rightarrow> entry_circuit \<Rightarrow> entry_result" where
  "sourceCircuit now streamId r f e =
     (let amount = readUInt16 (lf_data f)
      in if int (lf_flags f) = LOGICAL_CREDIT then
           (if amount > es_reverseInFlight r then (e, Inl invalidRoute)
            else returnReverse amount False (setSource streamId (r\<lparr>es_reverseInFlight := es_reverseInFlight r - amount\<rparr>) e))
         else if int (lf_flags f) = LOGICAL_DEMAND then
           (if amount \<noteq> 0 \<and> es_sourceEnded r then (e, Inl invalidRoute)
            else thenE (callForward now (Demand streamId (int amount) True now) e) (\<lambda>e.
              (if amount = 0 then tell (ToSource streamId CIRCUIT_STREAM_ID LOGICAL_DEMAND (creditBytes 0)) e else e, Inr ())))
         else if int (lf_flags f) = LOGICAL_RELEASE then callForward now (Release streamId (int amount)) e
         else (e, Inl invalidRoute))"

definition sourceData :: "int \<Rightarrow> nat \<Rightarrow> logical_frame \<Rightarrow> entry_circuit \<Rightarrow> entry_result" where
  "sourceData now streamId f e =
     (case sourceOf e streamId of
        None \<Rightarrow> (e, Inr ())
      | Some r \<Rightarrow>
          if int (lf_flags f) = LOGICAL_DATA then
            (if es_sourceEnded r \<or> es_sendCredit r = 0 then (e, Inl invalidRoute)
             else (let r = r\<lparr>es_sentBytes := es_sentBytes r + length (lf_data f), es_sentFrames := Suc (es_sentFrames r)\<rparr>;
                       e = setSource streamId r e
               in if es_sentBytes r > MAX_STREAM_BYTES \<or> es_sentFrames r > MAX_STREAM_DATA_FRAMES then (e, Inl unavailable)
                  else thenE (callForward now (Sent streamId 1 now) e) (\<lambda>e.
                    (setSource streamId (r\<lparr>es_sendCredit := es_sendCredit r - 1\<rparr>) e, Inr ()))))
          else if int (lf_flags f) = LOGICAL_CREDIT then
            (if es_receiveCredit r + readUInt16 (lf_data f) > STREAM_WINDOW then (e, Inl invalidRoute)
             else (setSource streamId (r\<lparr>es_receiveCredit := es_receiveCredit r + readUInt16 (lf_data f)\<rparr>) e, Inr ()))
          else (e, Inr ()))"

text \<open>\<open>_fromSource\<close>: the id \<open>downId\<close> is that of the native stream a splice opens towards the destination.\<close>

definition sourceFrame :: "int \<Rightarrow> nat \<Rightarrow> nat \<Rightarrow> entry_source \<Rightarrow> logical_frame \<Rightarrow> entry_circuit \<Rightarrow> entry_result" where
  "sourceFrame now downId streamId r f e =
     (if int (lf_streamId f) = CIRCUIT_STREAM_ID then sourceCircuit now streamId r f e
      else if lf_streamId f \<noteq> 0 then (e, Inl invalidRoute)
      else if int (lf_flags f) = LOGICAL_OPEN then
        (if \<not> ec_spliced e \<or> es_splice r \<noteq> None then (e, Inl invalidRoute)
         else (tell (ToDestination (int streamId) LOGICAL_OPEN []) e, Inr ()))
      else if int (lf_flags f) = LOGICAL_SPLICE_OPEN then
        (if es_splice r \<noteq> None then (e, Inl invalidRoute)
         else (tell (ToDestination (int streamId) LOGICAL_SPLICE_OPEN (be_bytes 4 downId))
                (tell (SpliceConnect streamId True (readU32 (lf_data f))) (setSource streamId (r\<lparr>es_splice := Some False\<rparr>) e)), Inr ()))
      else thenE (sourceData now streamId f (endOrReset (lf_flags f) True streamId r e)) (\<lambda>e.
        (tell (ToDestination (int streamId) (int (lf_flags f)) (lf_data f)) e, Inr ())))"

definition fromSource :: "int \<Rightarrow> nat \<Rightarrow> nat \<Rightarrow> jsval \<Rightarrow> entry_circuit \<Rightarrow> entry_result" where
  "fromSource now downId streamId payload e =
     (case sourceOf e streamId of
        None \<Rightarrow> (e, Inr ())
      | Some r \<Rightarrow>
          if \<not> es_attached r then (e, Inr ())
          else (case decodeLogical payload of
             Inl x \<Rightarrow> closeSource now streamId e
           | Inr f \<Rightarrow> (case sourceFrame now downId streamId r f e of
               (e, Inl x) \<Rightarrow> closeSource now streamId e
             | (e, Inr u) \<Rightarrow> (e, Inr u))))"

section \<open>Frames of the destination\<close>

definition destinationData :: "nat \<Rightarrow> logical_frame \<Rightarrow> entry_circuit \<Rightarrow> entry_result" where
  "destinationData streamId f e =
     (case sourceOf e streamId of
        None \<Rightarrow> (e, Inr ())
      | Some r \<Rightarrow>
          if int (lf_flags f) = LOGICAL_DATA then
            (let r = r\<lparr>es_reverseInFlight := Suc (es_reverseInFlight r)\<rparr>
             in if es_destinationEnded r \<or> es_receiveCredit r = 0 then (setSource streamId r e, Inl invalidRoute)
                else (let r = r\<lparr>es_receivedBytes := es_receivedBytes r + length (lf_data f), es_receivedFrames := Suc (es_receivedFrames r)\<rparr>
                  in if es_receivedBytes r > MAX_STREAM_BYTES \<or> es_receivedFrames r > MAX_STREAM_DATA_FRAMES then (setSource streamId r e, Inl unavailable)
                     else (setSource streamId (r\<lparr>es_receiveCredit := es_receiveCredit r - 1\<rparr>) e, Inr ())))
          else if int (lf_flags f) = LOGICAL_CREDIT then
            (if es_sendCredit r + readUInt16 (lf_data f) > STREAM_WINDOW then (e, Inl invalidRoute)
             else (setSource streamId (r\<lparr>es_sendCredit := es_sendCredit r + readUInt16 (lf_data f)\<rparr>) e, Inr ()))
          else (e, Inr ()))"

definition destinationFrame :: "nat \<Rightarrow> nat \<Rightarrow> entry_source \<Rightarrow> logical_frame \<Rightarrow> entry_circuit \<Rightarrow> entry_result" where
  "destinationFrame upId streamId r f e =
     (if int (lf_flags f) = LOGICAL_OPEN \<or> int (lf_flags f) = LOGICAL_SPLICE_OPEN then (e, Inl invalidRoute)
      else if int (lf_flags f) = LOGICAL_SPLICE_READY then
        (if es_splice r \<noteq> Some False then (e, Inl invalidRoute)
         else (tell (ToSource streamId 0 LOGICAL_SPLICE_READY (be_bytes 4 upId)) (tell (SpliceRelay streamId)
                (tell (SpliceConnect streamId False (readU32 (lf_data f))) (setSource streamId (r\<lparr>es_splice := Some True\<rparr>) e))), Inr ()))
      else thenE (destinationData streamId f (endOrReset (lf_flags f) False streamId r e)) (\<lambda>e.
        (tell (ToSource streamId 0 (int (lf_flags f)) (lf_data f)) e, Inr ())))"

text \<open>
  \<open>_receive\<close>: \<open>upId\<close> is the id of the native stream towards the source. The handler of a failure returns a
  charged frame when there is a record, but the charge has passed to the record before anything can fail there.
\<close>

definition entry_receive :: "int \<Rightarrow> nat \<Rightarrow> jsval \<Rightarrow> entry_circuit \<Rightarrow> entry_result" where
  "entry_receive now upId payload e =
     (case decodeLogical payload of
        Inl x \<Rightarrow> entry_destroy now e
      | Inr f \<Rightarrow>
          if int (lf_streamId f) = CIRCUIT_STREAM_ID then
            (if int (lf_flags f) \<noteq> LOGICAL_CREDIT then entry_destroy now e
             else (case callForward now (Returned (int (readUInt16 (lf_data f)))) e of (e, Inl x) \<Rightarrow> entry_destroy now e | (e, Inr u) \<Rightarrow> (e, Inr u)))
          else if int (lf_flags f) = LOGICAL_DATA \<and> ec_reverseReceiveCredit e = 0 then entry_destroy now e
          else (let charged = (int (lf_flags f) = LOGICAL_DATA);
                    e = (if charged then e\<lparr>ec_reverseReceiveCredit := ec_reverseReceiveCredit e - 1\<rparr> else e);
                    streamId = lf_streamId f
            in case sourceOf e streamId of
                 None \<Rightarrow>
                   if streamId > 0 \<and> streamId mod 2 = 0 \<and> streamId < ec_nextStreamId e then
                     (if charged then (case returnReverse 1 False e of (e, Inl x) \<Rightarrow> entry_destroy now e | (e, Inr u) \<Rightarrow> (e, Inr u)) else (e, Inr ()))
                   else if int (lf_flags f) = LOGICAL_FIN \<or> int (lf_flags f) = LOGICAL_RESET then (e, Inr ())
                   else entry_destroy now e
               | Some r \<Rightarrow>
                   (case destinationFrame upId streamId r f e of (e, Inl x) \<Rightarrow> closeSource now streamId e | (e, Inr u) \<Rightarrow> (e, Inr u))))"

text \<open>One step of an entry circuit: an admission, a frame of a source or of the destination, a closed link or a timer.\<close>

datatype entry_input =
    Activate int
  | FromSource int nat nat jsval
  | FromDestination int nat jsval
  | SourceClosed int nat
  | ReturnTimer int
  | Expiry
  | EntryDestroy int

fun entry_step :: "entry_input \<Rightarrow> entry_circuit \<Rightarrow> entry_result" where
  "entry_step (Activate now) e = (fst (activate now e), Inr ())"
| "entry_step (FromSource now downId streamId payload) e = fromSource now downId streamId payload e"
| "entry_step (FromDestination now upId payload) e = (if ec_closed e then (e, Inr ()) else entry_receive now upId payload e)"
| "entry_step (SourceClosed now streamId) e = closeSource now streamId e"
| "entry_step (ReturnTimer now) e = returnTimerFired now e"
| "entry_step Expiry e = (entry_retire e, Inr ())"
| "entry_step (EntryDestroy now) e = entry_destroy now e"

end
