(* ===== verification/Entry_Properties.thy ===== *)
theory Entry_Properties
  imports Entry_Circuit Credit_Properties
begin

text \<open>
  An entry circuit keeps its accounts whatever the sources, the destination and the timers do: credit of the
  reverse direction is conserved, no handler fails, and no pending credit is left without a timer.
\<close>

section \<open>The forward pool\<close>

lemma forwardGrant_quiet: "quiet forwardGrant"
  by (simp add: quiet_def forwardGrant_def)

lemma pool_step_returns:
  assumes "quiet cb"
  shows "pool_step cb clock c p \<noteq> None"
proof -
  have "distribute cb clock q \<noteq> None" for q
    using distributeLoop_returns [OF assms, where clock = clock and k = 0 and share = 0 and left = 0 and p = "q\<lparr>cp_distributing := True\<rparr>"] by (auto simp: distribute_def)
  then show ?thesis
    by (auto simp: pool_step_def split: sum.splits)
qed

definition sameBooks :: "entry_circuit \<Rightarrow> entry_circuit \<Rightarrow> bool" where
  "sameBooks e e' \<longleftrightarrow> (ec_spliced e', ec_sources e', ec_nextStreamId e', ec_closed e', ec_retired e', ec_reverseReceiveCredit e',
       ec_reverseReturnPending e', ec_returnTimer e') =
     (ec_spliced e, ec_sources e, ec_nextStreamId e, ec_closed e, ec_retired e, ec_reverseReceiveCredit e, ec_reverseReturnPending e, ec_returnTimer e)"

lemma callForward_books:
  assumes "callForward now c e = (e', r)"
  shows "sameBooks e e'"
  using assms by (auto simp: callForward_def sameBooks_def split: option.splits sum.splits prod.splits)

lemma callForward_pool:
  assumes "callForward now c e = (e', r)" "pool_inv (ec_forwardPool e)"
  shows "pool_inv (ec_forwardPool e')"
  using assms pool_step_inv by (fastforce simp: callForward_def split: option.splits sum.splits prod.splits)

lemma callForward_remove: "\<exists>e'. callForward now (Remove i) e = (e', Inr ())"
  using pool_step_returns [OF forwardGrant_quiet, of "\<lambda>_. now" "Remove i" "ec_forwardPool e"]
  by (auto simp: callForward_def pool_step_def split: option.splits if_splits)

section \<open>The accounts\<close>

definition inFlightSum :: "entry_circuit \<Rightarrow> nat" where
  "inFlightSum e = sum_list (map (\<lambda>(_, r). es_reverseInFlight r) (ec_sources e))"

text \<open>The accounts, with \<open>extra\<close> credit in the hands of the running handler.\<close>

definition entry_owes :: "nat \<Rightarrow> entry_circuit \<Rightarrow> bool" where
  "entry_owes extra e \<longleftrightarrow> pool_inv (ec_forwardPool e) \<and> distinct (map fst (ec_sources e)) \<and>
     (\<forall>(i, r) \<in> set (ec_sources e). es_sendCredit r \<le> STREAM_WINDOW \<and> es_receiveCredit r \<le> STREAM_WINDOW \<and> i < ec_nextStreamId e) \<and>
     length (ec_sources e) \<le> MAX_SPLICED_ROUTE_STREAMS \<and>
     (\<not> ec_closed e \<longrightarrow> ec_reverseReceiveCredit e + ec_reverseReturnPending e + inFlightSum e + extra = CIRCUIT_WINDOW
        \<and> (0 < ec_reverseReturnPending e \<longrightarrow> ec_returnTimer e))"

abbreviation entry_inv :: "entry_circuit \<Rightarrow> bool" where
  "entry_inv \<equiv> entry_owes 0"

lemma length_update_Some: "map_of xs k = Some v \<Longrightarrow> length (AList.update k v' xs) = length xs"
  by (induction xs) (auto split: if_splits)

lemma owes_books:
  assumes "entry_owes x e" "sameBooks e e'" "pool_inv (ec_forwardPool e')"
  shows "entry_owes x e'"
  using assms by (simp add: entry_owes_def sameBooks_def inFlightSum_def)

lemma owes_forward:
  assumes "entry_owes x e" "callForward now c e = (e', r)"
  shows "entry_owes x e'"
proof -
  have "pool_inv (ec_forwardPool e)"
    using assms(1) by (simp add: entry_owes_def)
  then show ?thesis
    by (rule owes_books [OF assms(1) callForward_books [OF assms(2)] callForward_pool [OF assms(2)]])
qed

lemma owes_trace [simp]: "entry_owes x (e\<lparr>ec_trace := t\<rparr>) \<longleftrightarrow> entry_owes x e"
  by (simp add: entry_owes_def inFlightSum_def)

lemma closeSplice_books [simp]: "entry_owes x (closeSplice i r e) \<longleftrightarrow> entry_owes x e"
  by (simp add: closeSplice_def)

lemma owes_setSource:
  assumes "entry_owes x e" "sourceOf e i = Some r" "es_sendCredit r' \<le> STREAM_WINDOW" "es_receiveCredit r' \<le> STREAM_WINDOW"
    "es_reverseInFlight r' + y = es_reverseInFlight r + x"
  shows "entry_owes y (setSource i r' e)"
proof -
  have d: "distinct (map fst (ec_sources e))"
    using assms(1) by (simp add: entry_owes_def)
  have mem: "(i, r) \<in> set (ec_sources e)"
    using assms(2) by (rule map_of_SomeD)
  have sum: "inFlightSum (setSource i r' e) + es_reverseInFlight r = inFlightSum e + es_reverseInFlight r'"
    using sum_list_update_key [OF d assms(2), of es_reverseInFlight r'] by (simp add: inFlightSum_def setSource_def)
  have len: "length (AList.update i r' (ec_sources e)) = length (ec_sources e)"
    using assms(2) by (rule length_update_Some)
  have mems: "\<forall>p \<in> set (AList.update i r' (ec_sources e)). p \<in> insert (i, r') (set (ec_sources e))"
    using update_members [OF d] by fastforce
  show ?thesis
    using assms(1,3-5) mem sum len mems d by (fastforce simp: entry_owes_def setSource_def distinct_update)
qed

lemma owes_closed: "entry_owes x e \<Longrightarrow> ec_closed e \<Longrightarrow> entry_owes y e"
  by (simp add: entry_owes_def)

lemma owes_window: "entry_owes x e \<Longrightarrow> sourceOf e i = Some r \<Longrightarrow> es_sendCredit r \<le> STREAM_WINDOW \<and> es_receiveCredit r \<le> STREAM_WINDOW"
  by (auto simp: entry_owes_def dest!: map_of_SomeD)

lemma returnReverse_ok:
  assumes "entry_owes (x + amount) e"
  shows "\<exists>e'. returnReverse amount flush e = (e', Inr ()) \<and> entry_owes x e' \<and> ec_sources e' = ec_sources e \<and> ec_closed e' = ec_closed e"
proof (cases "ec_closed e")
  case True
  then show ?thesis
    using assms by (auto simp: returnReverse_def elim: owes_closed)
next
  case False
  then show ?thesis
    using assms by (auto simp: returnReverse_def entry_owes_def inFlightSum_def Let_def)
qed

lemma owes_delete:
  assumes "entry_owes x e" "sourceOf e i = Some r"
  shows "entry_owes (x + es_reverseInFlight r) (e\<lparr>ec_sources := AList.delete i (ec_sources e)\<rparr>)"
proof -
  have d: "distinct (map fst (ec_sources e))"
    using assms(1) by (simp add: entry_owes_def)
  have "length (AList.delete i (ec_sources e)) \<le> length (ec_sources e)"
    by (simp add: AList.delete_eq)
  moreover have "set (AList.delete i (ec_sources e)) \<subseteq> set (ec_sources e)"
    by (auto simp: AList.delete_eq)
  moreover have "inFlightSum (e\<lparr>ec_sources := AList.delete i (ec_sources e)\<rparr>) + es_reverseInFlight r = inFlightSum e"
    using sum_list_delete_key [OF d assms(2), of es_reverseInFlight] by (simp add: inFlightSum_def)
  ultimately show ?thesis
    using assms(1) d by (auto simp: entry_owes_def distinct_delete)
qed

lemma closeSource_ok:
  assumes "entry_owes x e"
  shows "\<exists>e'. closeSource now i e = (e', Inr ()) \<and> entry_owes x e' \<and> ec_closed e' = ec_closed e"
proof (cases "\<exists>r. sourceOf e i = Some r \<and> es_attached r")
  case True
  then obtain r where r: "sourceOf e i = Some r" "es_attached r"
    by blast
  define d where "d = closeSplice i r (e\<lparr>ec_sources := AList.delete i (ec_sources e)\<rparr>)"
  have "entry_owes (x + es_reverseInFlight r) d" "ec_closed d = ec_closed e"
    using owes_delete [OF assms r(1)] by (simp_all add: d_def) (simp add: closeSplice_def)
  moreover obtain f where f: "callForward now (Remove i) d = (f, Inr ())"
    using callForward_remove by blast
  ultimately have owes: "entry_owes (x + es_reverseInFlight r) f" and closed: "ec_closed f = ec_closed e"
    using owes_forward callForward_books [OF f] by (auto simp: sameBooks_def)
  from returnReverse_ok [OF owes] obtain g where g: "returnReverse (es_reverseInFlight r) True f = (g, Inr ())" "entry_owes x g" "ec_closed g = ec_closed f"
    by blast
  show ?thesis
    using r f g closed by (simp add: closeSource_def thenE_def d_def)
next
  case False
  then show ?thesis
    using assms by (auto simp: closeSource_def split: option.splits)
qed

lemma closeSources_ok:
  assumes "entry_owes x e"
  shows "\<exists>e'. closeSources is now e = (e', Inr ()) \<and> entry_owes x e' \<and> ec_closed e' = ec_closed e"
  using assms
proof (induction "is" arbitrary: e)
  case (Cons i "is")
  from closeSource_ok [OF Cons.prems] obtain f where "closeSource now i e = (f, Inr ())" "entry_owes x f" "ec_closed f = ec_closed e"
    by blast
  then show ?case
    using Cons.IH by (fastforce simp: thenE_def)
qed simp

lemma entry_destroy_ok:
  assumes "entry_owes x e"
  shows "\<exists>e'. entry_destroy now e = (e', Inr ()) \<and> entry_inv e' \<and> ec_closed e'"
proof (cases "ec_closed e")
  case True
  then show ?thesis
    using assms by (auto simp: entry_destroy_def elim: owes_closed)
next
  case False
  define d where "d = e\<lparr>ec_closed := True, ec_returnTimer := False, ec_forwardPool := pool_destroy (ec_forwardPool e)\<rparr>"
  have "pool_inv (pool_destroy (ec_forwardPool e))"
    using callPool_inv [of "ec_forwardPool e" Destroy] assms by (simp add: entry_owes_def)
  then have "entry_owes x d"
    using assms by (simp add: d_def entry_owes_def)
  from closeSources_ok [OF this, of "map fst (ec_sources e)" now] obtain f
    where f: "closeSources (map fst (ec_sources e)) now d = (f, Inr ())" "entry_owes x f" "ec_closed f"
    by (auto simp: d_def)
  then have "entry_inv (tell LinkDestroyed (f\<lparr>ec_sources := []\<rparr>))"
    by (simp add: entry_owes_def)
  then show ?thesis
    using False f by (simp add: entry_destroy_def thenE_def d_def)
qed

lemma returnTimerFired_ok:
  assumes "entry_inv e"
  shows "\<exists>e'. returnTimerFired now e = (e', Inr ()) \<and> entry_inv e'"
proof (cases "ec_returnTimer e")
  case True
  show ?thesis
  proof (cases "ec_closed e")
    case closed: True
    then show ?thesis
      using True assms by (auto simp: returnTimerFired_def returnReverse_def entry_owes_def inFlightSum_def)
  next
    case False
    then show ?thesis
      using True assms by (auto simp: returnTimerFired_def returnReverse_def entry_owes_def inFlightSum_def Let_def)
  qed
qed (use assms in \<open>simp add: returnTimerFired_def\<close>)

section \<open>Frames\<close>

lemma sourceOf_setSource [simp]: "sourceOf (setSource i r e) i = Some r"
  by (simp add: setSource_def update_conv')

lemma setSource_fields [simp]:
  "ec_closed (setSource i r e) = ec_closed e" "ec_reverseReceiveCredit (setSource i r e) = ec_reverseReceiveCredit e"
  "ec_spliced (setSource i r e) = ec_spliced e"
  by (simp_all add: setSource_def)

lemma endOrReset_ok:
  assumes "entry_owes x e" "sourceOf e i = Some r"
  shows "entry_owes x (endOrReset fl b i r e)" "\<exists>r'. sourceOf (endOrReset fl b i r e) i = Some r' \<and> es_reverseInFlight r' = es_reverseInFlight r"
  using owes_window [OF assms]
  by (auto simp: endOrReset_def closeSplice_def Let_def intro!: owes_setSource [OF assms])

lemma sourceCircuit_ok:
  assumes "entry_owes x e" "sourceOf e i = Some r" "sourceCircuit now i r f e = (e', q)"
  shows "entry_owes x e'"
proof -
  let ?amount = "readUInt16 (lf_data f)"
  have credit: "entry_owes x g" if "returnReverse ?amount False (setSource i (r\<lparr>es_reverseInFlight := es_reverseInFlight r - ?amount\<rparr>) e) = (g, q)"
    "?amount \<le> es_reverseInFlight r" for g
    using returnReverse_ok [OF owes_setSource [OF assms(1,2), of _ "x + ?amount"], of "r\<lparr>es_reverseInFlight := es_reverseInFlight r - ?amount\<rparr>" False]
      owes_window [OF assms(1,2)] that by auto
  show ?thesis
    using assms(1,3) credit owes_forward [OF assms(1)]
    by (auto simp: sourceCircuit_def Let_def thenE_def split: if_splits prod.splits sum.splits)
qed

lemma sourceData_ok:
  assumes "entry_owes x e" "sourceData now i f e = (e', q)"
  shows "entry_owes x e'"
proof (cases "sourceOf e i")
  case (Some r)
  note w = owes_window [OF assms(1) Some]
  define u where "u = r\<lparr>es_sentBytes := es_sentBytes r + length (lf_data f), es_sentFrames := Suc (es_sentFrames r)\<rparr>"
  have u: "entry_owes x (setSource i u e)"
    by (rule owes_setSource [OF assms(1) Some]) (use w in \<open>simp_all add: u_def\<close>)
  have sent: "entry_owes x (setSource i (u\<lparr>es_sendCredit := es_sendCredit u - 1\<rparr>) g)" if "callForward now (Sent i 1 now) (setSource i u e) = (g, z)" for g z
  proof -
    have "sourceOf g i = Some u"
      using callForward_books [OF that] by (simp add: sameBooks_def)
    then show ?thesis
      by (rule owes_setSource [OF owes_forward [OF u that]]) (use w in \<open>auto simp: u_def\<close>)
  qed
  have credit: "entry_owes x (setSource i (r\<lparr>es_receiveCredit := c\<rparr>) e)" if "c \<le> STREAM_WINDOW" for c
    by (rule owes_setSource [OF assms(1) Some]) (use w that in simp_all)
  show ?thesis
    using assms Some u sent credit owes_forward [OF u]
    by (auto simp: sourceData_def Let_def thenE_def u_def [symmetric] split: if_splits prod.splits sum.splits)
qed (use assms in \<open>simp add: sourceData_def\<close>)

lemma sourceFrame_ok:
  assumes "entry_owes x e" "sourceOf e i = Some r" "sourceFrame now downId i r f e = (e', q)"
  shows "entry_owes x e'"
proof -
  have splice: "entry_owes x (setSource i (r\<lparr>es_splice := v\<rparr>) e)" for v
    by (rule owes_setSource [OF assms(1,2)]) (use owes_window [OF assms(1,2)] in simp_all)
  have data: "entry_owes x g" if "sourceData now i f (endOrReset (lf_flags f) True i r e) = (g, z)" for g z
    using sourceData_ok [OF endOrReset_ok(1) [OF assms(1,2)] that] .
  show ?thesis
    using assms(1,3) sourceCircuit_ok [OF assms(1,2)] splice data
    by (auto simp: sourceFrame_def thenE_def split: if_splits prod.splits sum.splits)
qed

lemma fromSource_ok:
  assumes "entry_inv e"
  shows "\<exists>e'. fromSource now downId i payload e = (e', Inr ()) \<and> entry_inv e'"
proof (cases "sourceOf e i")
  case (Some r)
  have frame: "entry_inv g" if "sourceFrame now downId i r f e = (g, z)" for f g z
    using sourceFrame_ok [OF assms Some that] .
  show ?thesis
    using Some assms frame closeSource_ok
    by (auto simp: fromSource_def split: sum.splits prod.splits) (metis closeSource_ok)+
qed (use assms in \<open>simp add: fromSource_def\<close>)

lemma destinationData_ok:
  assumes "entry_owes (if int (lf_flags f) = LOGICAL_DATA then 1 else 0) e" "sourceOf e i = Some r" "destinationData i f e = (e', q)"
  shows "entry_inv e'"
proof -
  note w = owes_window [OF assms(1,2)]
  have set: "entry_inv (setSource i r' e)"
    if "es_sendCredit r' \<le> STREAM_WINDOW" "es_receiveCredit r' \<le> STREAM_WINDOW"
      "es_reverseInFlight r' = es_reverseInFlight r + (if int (lf_flags f) = LOGICAL_DATA then 1 else 0)" for r'
    by (rule owes_setSource [OF assms(1,2)]) (use that in simp_all)
  show ?thesis
    using assms w by (auto simp: destinationData_def Let_def logical_flags split: if_splits intro!: set)
qed

lemma destinationFrame_ok:
  assumes "entry_owes (if int (lf_flags f) = LOGICAL_DATA then 1 else 0) e" "sourceOf e i = Some r" "destinationFrame upId i r f e = (e', q)"
  shows "entry_inv e'"
proof -
  have splice: "entry_owes x (setSource i (r\<lparr>es_splice := v\<rparr>) e)" if "entry_owes x e" for v x
    by (rule owes_setSource [OF that assms(2)]) (use owes_window [OF assms(1,2)] in simp_all)
  obtain r' where "sourceOf (endOrReset (lf_flags f) False i r e) i = Some r'"
    using endOrReset_ok(2) [OF assms(1,2)] by blast
  then have data: "entry_inv g" if "destinationData i f (endOrReset (lf_flags f) False i r e) = (g, z)" for g z
    using destinationData_ok [OF endOrReset_ok(1) [OF assms(1,2)] _ that] by blast
  show ?thesis
    using assms(1,3) splice data
    by (auto simp: destinationFrame_def thenE_def LOGICAL_OPEN_def LOGICAL_SPLICE_OPEN_def LOGICAL_SPLICE_READY_def LOGICAL_DATA_def
        split: if_splits prod.splits sum.splits)
qed

lemma entry_receive_ok:
  assumes "entry_inv e" "\<not> ec_closed e"
  shows "\<exists>e'. entry_receive now upId payload e = (e', Inr ()) \<and> entry_inv e'"
proof (cases "decodeLogical payload")
  case (Inr f)
  note destroy = entry_destroy_ok [of _ _ now]
  show ?thesis
  proof (cases "int (lf_streamId f) = CIRCUIT_STREAM_ID")
    case True
    obtain g z where "callForward now (Returned (int (readUInt16 (lf_data f)))) e = (g, z)"
      by fastforce
    then show ?thesis
      using Inr True destroy [OF assms(1)] owes_forward [OF assms(1)] destroy [of 0 g]
      by (cases z) (auto simp: entry_receive_def)
  next
    case False
    let ?data = "int (lf_flags f) = LOGICAL_DATA" and ?i = "lf_streamId f"
    define c where "c = (if ?data then e\<lparr>ec_reverseReceiveCredit := ec_reverseReceiveCredit e - 1\<rparr> else e)"
    show ?thesis
    proof (cases "?data \<and> ec_reverseReceiveCredit e = 0")
      case none: True
      then show ?thesis
        using Inr False destroy [OF assms(1)] by (auto simp: entry_receive_def)
    next
      case some: False
      then have c: "entry_owes (if ?data then 1 else 0) c"
        using assms by (auto simp: c_def entry_owes_def inFlightSum_def)
      have step: "entry_receive now upId payload e = (case sourceOf c ?i of
          None \<Rightarrow> if ?i > 0 \<and> ?i mod 2 = 0 \<and> ?i < ec_nextStreamId c then
              (if ?data then (case returnReverse 1 False c of (e, Inl x) \<Rightarrow> entry_destroy now e | (e, Inr u) \<Rightarrow> (e, Inr u)) else (c, Inr ()))
            else if int (lf_flags f) = LOGICAL_FIN \<or> int (lf_flags f) = LOGICAL_RESET then (c, Inr ()) else entry_destroy now c
        | Some r \<Rightarrow> (case destinationFrame upId ?i r f c of (e, Inl x) \<Rightarrow> closeSource now ?i e | (e, Inr u) \<Rightarrow> (e, Inr u)))"
        unfolding entry_receive_def Inr sum.case Let_def c_def [symmetric] by (simp only: False some if_False)
      have plain: "entry_inv c" if "\<not> ?data"
        using c that by simp
      show ?thesis
      proof (cases "sourceOf c ?i")
        case None
        have "\<exists>e'. returnReverse 1 False c = (e', Inr ()) \<and> entry_inv e'" if ?data
          using returnReverse_ok [of 0 1 c False] c that by auto
        then show ?thesis
          unfolding step None using plain destroy [OF c] by (auto simp: logical_flags LOGICAL_RESET_def)
      next
        case (Some r)
        obtain g z where g: "destinationFrame upId ?i r f c = (g, z)"
          by fastforce
        have "entry_inv g"
          by (rule destinationFrame_ok [OF c Some g])
        then show ?thesis
          unfolding step Some using g closeSource_ok [of 0 g now ?i] by (cases z) auto
      qed
    qed
  qed
next
  case (Inl x)
  then show ?thesis
    using entry_destroy_ok [OF assms(1), of now] by (auto simp: entry_receive_def)
qed

lemma owes_newSource:
  assumes "entry_inv e" "length (ec_sources e) < MAX_SPLICED_ROUTE_STREAMS"
  shows "entry_inv (setSource (ec_nextStreamId e) newSource (e\<lparr>ec_nextStreamId := ec_nextStreamId e + 2\<rparr>))"
proof -
  have fresh: "ec_nextStreamId e \<notin> fst ` set (ec_sources e)"
    using assms(1) by (auto simp: entry_owes_def)
  then have "AList.update (ec_nextStreamId e) newSource (ec_sources e) = ec_sources e @ [(ec_nextStreamId e, newSource)]"
    by (simp add: update_new map_of_eq_None_iff)
  then show ?thesis
    using assms fresh by (auto simp: entry_owes_def setSource_def inFlightSum_def newSource_def)
qed

lemma activate_ok:
  assumes "entry_inv e"
  shows "entry_inv (fst (activate now e))"
proof (cases "ec_closed e \<or> ec_retired e \<or> length (ec_sources e) \<ge> (if ec_spliced e then MAX_SPLICED_ROUTE_STREAMS else MAX_ROUTE_STREAMS)
    \<or> int (ec_nextStreamId e) \<ge> CIRCUIT_STREAM_ID")
  case False
  define i where "i = ec_nextStreamId e"
  define d where "d = setSource i newSource (e\<lparr>ec_nextStreamId := ec_nextStreamId e + 2\<rparr>)"
  have d: "entry_inv d"
    unfolding d_def i_def by (rule owes_newSource [OF assms]) (use False in \<open>auto simp: MAX_SPLICED_ROUTE_STREAMS_def MAX_ROUTE_STREAMS_def split: if_splits\<close>)
  obtain g z where g: "callForward now (Add i) d = (g, z)"
    by fastforce
  have owes: "entry_inv g"
    by (rule owes_forward [OF d g])
  have "sourceOf g i = Some newSource"
    using callForward_books [OF g] by (simp add: sameBooks_def) (simp add: d_def)
  then have "entry_inv (setSource i (newSource\<lparr>es_attached := True\<rparr>) g)"
    by (rule owes_setSource [OF owes]) (simp_all add: newSource_def)
  moreover have "fst (activate now e) = (case z of Inl x \<Rightarrow> g | Inr u \<Rightarrow>
      (if ec_spliced g then setSource i (newSource\<lparr>es_attached := True\<rparr>) g
       else tell (ToDestination (int i) LOGICAL_OPEN []) (setSource i (newSource\<lparr>es_attached := True\<rparr>) g)))"
    using False g by (simp add: activate_def Let_def d_def i_def split: sum.splits)
  ultimately show ?thesis
    using owes by (auto split: sum.splits)
qed (use assms in \<open>simp add: activate_def\<close>)

lemma entry_step_ok:
  assumes "entry_inv e"
  shows "\<exists>e'. entry_step inp e = (e', Inr ()) \<and> entry_inv e'"
proof (cases inp)
  case (FromSource now downId i payload)
  then show ?thesis using fromSource_ok [OF assms] by simp
next
  case (FromDestination now upId payload)
  then show ?thesis using entry_receive_ok [OF assms] assms by simp
next
  case (SourceClosed now i)
  then show ?thesis using closeSource_ok [OF assms] by fastforce
next
  case (ReturnTimer now)
  then show ?thesis using returnTimerFired_ok [OF assms] by simp
next
  case (EntryDestroy now)
  then show ?thesis using entry_destroy_ok [OF assms] by fastforce
next
  case Expiry
  then show ?thesis using assms by (simp add: entry_retire_def entry_owes_def inFlightSum_def)
qed (use assms in \<open>simp add: activate_ok\<close>)

lemma entry_new_ok: "entry_inv (EntryCircuit_new spliced)"
  by (simp add: entry_owes_def EntryCircuit_new_def inFlightSum_def CircuitCreditPool_new_def pool_inv_def grantedSum_def)

definition entry_run :: "entry_input list \<Rightarrow> entry_circuit \<Rightarrow> entry_circuit" where
  "entry_run inputs e = fold (\<lambda>i e. fst (entry_step i e)) inputs e"

lemma entry_run_ok: "entry_inv e \<Longrightarrow> entry_inv (entry_run inputs e)"
proof (induction inputs arbitrary: e)
  case (Cons i inputs)
  then show ?case
    using entry_step_ok [OF Cons.prems, of i] by (auto simp: entry_run_def)
qed (simp add: entry_run_def)


section \<open>Admission beyond the legs of the pool\<close>

text \<open>
  A spliced relay admits up to 256 sources, but its forward pool has room for 64 legs and is asked after the
  source was filed: the admission fails and the source stays.
\<close>

lemma activate_full_pool:
  assumes "ec_spliced e" "\<not> ec_closed e" "\<not> ec_retired e" "length (ec_sources e) < MAX_SPLICED_ROUTE_STREAMS"
    "int (ec_nextStreamId e) < CIRCUIT_STREAM_ID" "sourceOf e (ec_nextStreamId e) = None"
    "MAX_ROUTE_STREAMS \<le> length (cp_legs (ec_forwardPool e))"
  shows "\<exists>e'. activate now e = (e', Inl unavailable) \<and> length (ec_sources e') = Suc (length (ec_sources e))"
proof -
  define d where "d = setSource (ec_nextStreamId e) newSource (e\<lparr>ec_nextStreamId := ec_nextStreamId e + 2\<rparr>)"
  have "callForward now (Add (ec_nextStreamId e)) d = (d, Inl unavailable)"
    using assms(7) by (simp add: callForward_def pool_step_def pool_add_def d_def setSource_def)
  moreover have "length (ec_sources d) = Suc (length (ec_sources e))"
    using update_new [OF assms(6)] by (simp add: d_def setSource_def)
  ultimately show ?thesis
    using assms by (simp add: activate_def d_def Let_def)
qed

lemma update_last: "k \<notin> fst ` set xs \<Longrightarrow> AList.update k v (xs @ [(k, w)]) = xs @ [(k, v)]"
  by (induction xs) auto

text \<open>The sources and legs after \<open>k\<close> admissions.\<close>

definition admitted :: "nat \<Rightarrow> entry_circuit \<Rightarrow> bool" where
  "admitted k e \<longleftrightarrow> ec_spliced e \<and> \<not> ec_closed e \<and> \<not> ec_retired e \<and> length (ec_sources e) = k \<and> ec_nextStreamId e = 2 + 2 * k \<and>
     map fst (ec_sources e) = map fst (cp_legs (ec_forwardPool e)) \<and> \<not> cp_closed (ec_forwardPool e) \<and> (\<forall>i \<in> fst ` set (ec_sources e). i < 2 + 2 * k)"

lemma admitted_Suc:
  assumes "admitted k e" "k < MAX_ROUTE_STREAMS"
  shows "admitted (Suc k) (fst (activate now e))"
proof -
  let ?i = "ec_nextStreamId e"
  have fresh: "?i \<notin> fst ` set (ec_sources e)" "?i \<notin> fst ` set (cp_legs (ec_forwardPool e))"
    using assms(1) by (auto simp: admitted_def simp flip: set_map)
  have len: "length (cp_legs (ec_forwardPool e)) = k"
    using assms(1) by (metis admitted_def length_map)
  define p where "p = (ec_forwardPool e)\<lparr>cp_legs := cp_legs (ec_forwardPool e) @ [(?i, newLeg (cp_nextLeg (ec_forwardPool e)))],
     cp_nextLeg := Suc (cp_nextLeg (ec_forwardPool e))\<rparr>"
  have pool: "pool_step forwardGrant (\<lambda>_. now) (Add ?i) (ec_forwardPool e) = Some (p, Inr False)"
    using assms len fresh(2) by (simp add: pool_step_def pool_add_def p_def admitted_def map_of_eq_None_iff)
  have s: "AList.update ?i v (ec_sources e) = ec_sources e @ [(?i, v)]" "AList.update ?i v (ec_sources e @ [(?i, w)]) = ec_sources e @ [(?i, v)]" for v w
    using fresh(1) by (simp_all add: update_new map_of_eq_None_iff update_last)
  show ?thesis
    using assms pool s
    by (auto simp: admitted_def activate_def callForward_def Let_def setSource_def p_def MAX_ROUTE_STREAMS_def MAX_SPLICED_ROUTE_STREAMS_def CIRCUIT_STREAM_ID_def)
qed

lemma admissions: "k \<le> MAX_ROUTE_STREAMS \<Longrightarrow> admitted k (entry_run (replicate k (Activate now)) (EntryCircuit_new True))"
proof (induction k)
  case (Suc k)
  have "entry_run (replicate (Suc k) (Activate now)) e = fst (activate now (entry_run (replicate k (Activate now)) e))" for e
    by (simp add: entry_run_def replicate_append_same [symmetric] del: replicate_Suc)
  then show ?case
    using Suc admitted_Suc by simp
qed (simp add: admitted_def entry_run_def EntryCircuit_new_def CircuitCreditPool_new_def)

theorem refused_admission_keeps_source:
  "let e = entry_run (replicate MAX_ROUTE_STREAMS (Activate now)) (EntryCircuit_new True) in
     \<exists>e'. activate now e = (e', Inl unavailable) \<and> length (ec_sources e') = Suc (length (ec_sources e))"
proof -
  define e where "e = entry_run (replicate MAX_ROUTE_STREAMS (Activate now)) (EntryCircuit_new True)"
  have e: "admitted MAX_ROUTE_STREAMS e"
    unfolding e_def by (rule admissions) simp
  moreover have "MAX_ROUTE_STREAMS = length (cp_legs (ec_forwardPool e))"
    using e by (metis admitted_def length_map)
  ultimately have "\<exists>e'. activate now e = (e', Inl unavailable) \<and> length (ec_sources e') = Suc (length (ec_sources e))"
    by (intro activate_full_pool) (auto simp: admitted_def MAX_ROUTE_STREAMS_def MAX_SPLICED_ROUTE_STREAMS_def CIRCUIT_STREAM_ID_def map_of_eq_None_iff)
  then show ?thesis
    by (simp add: e_def)
qed

end
