(* ===== verification/Circuit_Link.thy ===== *)
theory Circuit_Link
  imports Logical_Stream
begin

text \<open>
  The link of a circuit (class \<open>CircuitLink\<close> of \<^verbatim>\<open>lib/private/private-peer-controller.js\<close>): the queue of each
  stream, the deficit round robin that picks the next cell, batches in flight and their settlement, and how
  chunks of the transport are cut into cells. The linked list of queues is a list; a job's promise is an event
  under the identity of the job. Whether a picked job can be sealed (its relay address, its ledger, its counter)
  is an argument, as is what opening a cell does.
\<close>

section \<open>State\<close>

definition CONTROL_RESERVE :: nat where "CONTROL_RESERVE = 256"
definition SEND_PIPELINE_BATCHES :: nat where "SEND_PIPELINE_BATCHES = 2"
definition SEND_QUANTUM_BYTES :: nat where "SEND_QUANTUM_BYTES = 4 * CELL_BYTES"

record send_job =
  sj_id :: nat
  sj_payload :: bytes
  sj_isData :: bool

record send_queue =
  sq_streamId :: nat
  sq_jobs :: "send_job list"
  sq_deficit :: nat

datatype link_event =
    Written "send_job list"
  | Resolved nat
  | Rejected nat
  | LinkClosed

record circuit_link =
  cl_multiplexed :: bool
  cl_queues :: "send_queue list"
  cl_queuedSends :: nat
  cl_inflight :: "send_job list list"
  cl_flushScheduled :: bool
  cl_pendingSends :: nat
  cl_pendingData :: nat
  cl_pendingControl :: nat
  cl_settled :: "nat list"
  cl_destroyed :: bool
  cl_nextJob :: nat
  cl_trace :: "link_event list"

definition CircuitLink_new :: "bool \<Rightarrow> circuit_link" where
  "CircuitLink_new multiplexed =
     \<lparr>cl_multiplexed = multiplexed, cl_queues = [], cl_queuedSends = 0, cl_inflight = [], cl_flushScheduled = False,
      cl_pendingSends = 0, cl_pendingData = 0, cl_pendingControl = 0, cl_settled = [], cl_destroyed = False, cl_nextJob = 0, cl_trace = []\<rparr>"

section \<open>Settlement\<close>

definition settleSend :: "bool \<Rightarrow> send_job \<Rightarrow> circuit_link \<Rightarrow> circuit_link" where
  "settleSend failed job l =
     (if sj_id job \<in> set (cl_settled l) then l
      else (let l = l\<lparr>cl_settled := sj_id job # cl_settled l, cl_pendingSends := cl_pendingSends l - 1\<rparr>;
                l = (if sj_isData job then l\<lparr>cl_pendingData := cl_pendingData l - 1\<rparr> else l\<lparr>cl_pendingControl := cl_pendingControl l - 1\<rparr>)
        in l\<lparr>cl_trace := cl_trace l @ [if failed then Rejected (sj_id job) else Resolved (sj_id job)]\<rparr>))"

definition link_destroy :: "circuit_link \<Rightarrow> circuit_link" where
  "link_destroy l =
     (if cl_destroyed l then l
      else (let l = l\<lparr>cl_destroyed := True\<rparr>;
                l = fold (settleSend True) (concat (cl_inflight l)) l;
                l = fold (settleSend True) (concat (map sq_jobs (cl_queues l))) l
        in l\<lparr>cl_queues := [], cl_queuedSends := 0, cl_trace := cl_trace l @ [LinkClosed]\<rparr>))"

section \<open>Sending\<close>

definition scheduleSends :: "circuit_link \<Rightarrow> circuit_link" where
  "scheduleSends l = (if cl_destroyed l \<or> cl_flushScheduled l \<or> cl_queuedSends l = 0 then l else l\<lparr>cl_flushScheduled := True\<rparr>)"

fun appendJob :: "nat \<Rightarrow> send_job \<Rightarrow> send_queue list \<Rightarrow> send_queue list" where
  "appendJob streamId job [] = [\<lparr>sq_streamId = streamId, sq_jobs = [job], sq_deficit = 0\<rparr>]"
| "appendJob streamId job (q # qs) =
     (if sq_streamId q = streamId then q\<lparr>sq_jobs := sq_jobs q @ [job]\<rparr> # qs else q # appendJob streamId job qs)"

text \<open>\<open>send\<close>: the identity of the accepted job, or nothing when the link refuses and closes.\<close>

definition link_send :: "jsval \<Rightarrow> circuit_link \<Rightarrow> circuit_link \<times> nat option" where
  "link_send payload l =
     (let valid = (case payload of JBuf b \<Rightarrow> byteLength b \<le> MAX_CELL_PAYLOAD | _ \<Rightarrow> False);
          bs = bytesAt payload;
          isData = (valid \<and> length bs \<ge> LOGICAL_HEADER_BYTES \<and> uint (bs ! 4) = LOGICAL_DATA)
      in if \<not> valid \<or> cl_destroyed l \<or> (if isData then cl_pendingData l \<ge> CIRCUIT_WINDOW else cl_pendingControl l \<ge> CONTROL_RESERVE)
         then (link_destroy l, None)
         else (let streamId = (if cl_multiplexed l \<and> length bs \<ge> LOGICAL_HEADER_BYTES then readU32 bs else 0);
                   job = \<lparr>sj_id = cl_nextJob l, sj_payload = bs, sj_isData = isData\<rparr>;
                   l = l\<lparr>cl_nextJob := Suc (cl_nextJob l), cl_pendingSends := Suc (cl_pendingSends l)\<rparr>;
                   l = (if isData then l\<lparr>cl_pendingData := Suc (cl_pendingData l)\<rparr> else l\<lparr>cl_pendingControl := Suc (cl_pendingControl l)\<rparr>);
                   l = l\<lparr>cl_queues := appendJob streamId job (cl_queues l), cl_queuedSends := Suc (cl_queuedSends l)\<rparr>
           in (scheduleSends l, Some (sj_id job))))"

definition nextSend :: "circuit_link \<Rightarrow> send_job \<times> circuit_link" where
  "nextSend l =
     (let q = hd (cl_queues l); qs = tl (cl_queues l);
          deficit = (if sq_deficit q = 0 then SEND_QUANTUM_BYTES else sq_deficit q) - CELL_BYTES;
          job = hd (sq_jobs q);
          q = q\<lparr>sq_jobs := tl (sq_jobs q), sq_deficit := deficit\<rparr>
      in (job, l\<lparr>cl_queuedSends := cl_queuedSends l - 1,
                 cl_queues := (if sq_jobs q = [] then qs else if deficit = 0 \<and> qs \<noteq> [] then qs @ [q] else q # qs)\<rparr>))"

text \<open>
  The loop of \<open>_flushSends\<close> over one batch. The batch is in flight while its jobs are picked, so a job that
  cannot be sealed closes the link and is settled with the rest.
\<close>

fun fillBatch :: "(send_job \<Rightarrow> bool) \<Rightarrow> nat \<Rightarrow> send_job list list \<Rightarrow> send_job list \<Rightarrow> circuit_link \<Rightarrow> send_job list \<times> circuit_link" where
  "fillBatch seals 0 others batch l = (batch, l)"
| "fillBatch seals (Suc n) others batch l =
     (if cl_destroyed l then (batch, l)
      else (let (job, l) = nextSend l; batch = batch @ [job]; l = l\<lparr>cl_inflight := others @ [batch]\<rparr>
        in fillBatch seals n others batch (if seals job then l else link_destroy l)))"

fun flushTimes :: "nat \<Rightarrow> (send_job \<Rightarrow> bool) \<Rightarrow> circuit_link \<Rightarrow> circuit_link" where
  "flushTimes 0 seals l = l"
| "flushTimes (Suc n) seals l =
     (if cl_destroyed l \<or> length (cl_inflight l) \<ge> SEND_PIPELINE_BATCHES \<or> cl_queuedSends l = 0 then l
      else (let others = cl_inflight l;
                (batch, l) = fillBatch seals (min SEND_BATCH_CELLS (cl_queuedSends l)) others [] (l\<lparr>cl_inflight := others @ [[]]\<rparr>)
        in if cl_destroyed l then l\<lparr>cl_inflight := others\<rparr>
           else flushTimes n seals (l\<lparr>cl_trace := cl_trace l @ [Written batch]\<rparr>)))"

text \<open>Each turn of the loop puts one more batch in flight, so there are no more turns than batches.\<close>

definition flushSends :: "(send_job \<Rightarrow> bool) \<Rightarrow> circuit_link \<Rightarrow> circuit_link" where
  "flushSends seals l = flushTimes SEND_PIPELINE_BATCHES seals (l\<lparr>cl_flushScheduled := False\<rparr>)"

text \<open>\<open>_finishBatch\<close>, for the batch at an index.\<close>

definition finishBatch :: "nat \<Rightarrow> bool \<Rightarrow> circuit_link \<Rightarrow> circuit_link" where
  "finishBatch k failed l =
     (if k \<ge> length (cl_inflight l) then l
      else (let batch = cl_inflight l ! k;
                l = l\<lparr>cl_inflight := take k (cl_inflight l) @ drop (Suc k) (cl_inflight l)\<rparr>;
                l = (if failed then link_destroy l else l);
                l = fold (settleSend (cl_destroyed l)) batch l
        in scheduleSends l))"

section \<open>Receiving\<close>

text \<open>
  \<open>_receive\<close>: the bytes of an incomplete cell are kept; every complete cell is opened in turn by \<open>openCell\<close>,
  which answers whether the link goes on.
\<close>

function openCells :: "('s \<Rightarrow> bytes \<Rightarrow> 's \<times> bool) \<Rightarrow> bytes \<Rightarrow> 's \<Rightarrow> bytes \<times> 's \<times> bool" where
  "openCells openCell chunk s =
     (if length chunk < CELL_BYTES then (chunk, s, True)
      else (case openCell s (take CELL_BYTES chunk) of
        (s, False) \<Rightarrow> ([], s, False)
      | (s, True) \<Rightarrow> openCells openCell (drop CELL_BYTES chunk) s))"
  by pat_completeness auto
termination
  by (relation "measure (\<lambda>(_, chunk, _). length chunk)") (auto simp: CELL_BYTES_def)

declare openCells.simps [simp del]

definition link_receive :: "('s \<Rightarrow> bytes \<Rightarrow> 's \<times> bool) \<Rightarrow> bytes \<Rightarrow> bytes \<times> 's \<times> bool \<Rightarrow> bytes \<times> 's \<times> bool" where
  "link_receive openCell chunk st =
     (case st of (incoming, s, alive) \<Rightarrow>
        if \<not> alive then st
        else if chunk = [] then ([], s, False)
        else if incoming \<noteq> [] then
          (let len = min (CELL_BYTES - length incoming) (length chunk); cell = incoming @ take len chunk
           in if length cell \<noteq> CELL_BYTES then (cell, s, True)
              else (case openCell s cell of
                (s, False) \<Rightarrow> ([], s, False)
              | (s, True) \<Rightarrow> openCells openCell (drop len chunk) s))
        else openCells openCell chunk s)"

end
