(* ===== verification/Link_Properties.thy ===== *)
theory Link_Properties
  imports Circuit_Link
begin

text \<open>
  What a circuit link promises: cutting the transport into chunks does not matter, the cells of a stream leave
  in the order they were sent, every accepted job is settled once, and a queue waits for a bounded number of
  cells of each other stream.
\<close>

section \<open>Receiving\<close>

lemma openCells_append:
  "openCells f (a @ b) s = (case openCells f a s of (r, s', alive) \<Rightarrow> if alive then openCells f (r @ b) s' else ([], s', False))"
proof (induction f a s rule: openCells.induct)
  case (1 f a s)
  show ?case
  proof (cases "length a < CELL_BYTES")
    case True
    then show ?thesis
      by (simp add: openCells.simps [of f a])
  next
    case False
    obtain s' alive where c: "f s (take CELL_BYTES a) = (s', alive)"
      by fastforce
    have "openCells f (a @ b) s = (if alive then openCells f (drop CELL_BYTES a @ b) s' else ([], s', False))"
      using False c by (subst openCells.simps) (simp split: bool.splits)
    moreover have "openCells f a s = (if alive then openCells f (drop CELL_BYTES a) s' else ([], s', False))"
      using False c by (subst openCells.simps) (simp split: bool.splits)
    ultimately show ?thesis
      using "1.IH" [OF False c [symmetric]] by simp
  qed
qed

lemma openCells_rest: "openCells f a s = (r, s', alive) \<Longrightarrow> length r < CELL_BYTES"
proof (induction f a s rule: openCells.induct)
  case (1 f a s)
  show ?case
  proof (cases "length a < CELL_BYTES")
    case False
    obtain t ok where c: "f s (take CELL_BYTES a) = (t, ok)"
      by fastforce
    show ?thesis
      using "1.prems" "1.IH" [OF False c [symmetric]] False c
      by (subst (asm) openCells.simps) (auto simp: CELL_BYTES_def split: bool.splits)
  qed (use "1.prems" in \<open>simp add: openCells.simps [of f a]\<close>)
qed

lemma receive_is_append:
  assumes "length r < CELL_BYTES" "chunk \<noteq> []"
  shows "link_receive f chunk (r, s, True) = openCells f (r @ chunk) s"
proof (cases "r = []")
  case False
  define len where "len = min (CELL_BYTES - length r) (length chunk)"
  show ?thesis
  proof (cases "length (r @ take len chunk) = CELL_BYTES")
    case True
    then have cell: "take CELL_BYTES (r @ chunk) = r @ take len chunk" "drop CELL_BYTES (r @ chunk) = drop len chunk" "CELL_BYTES \<le> length (r @ chunk)"
      using assms by (auto simp: len_def min_def split: if_splits)
    obtain t ok where c: "f s (r @ take len chunk) = (t, ok)"
      by fastforce
    have "openCells f (r @ chunk) s = (if ok then openCells f (drop len chunk) t else ([], t, False))"
      using cell c by (subst openCells.simps) (simp split: bool.splits)
    then show ?thesis
      using False assms True c by (simp add: link_receive_def Let_def len_def [symmetric] split: bool.splits)
  next
    case part: False
    then have short: "len = length chunk" "length (r @ chunk) < CELL_BYTES"
      using assms by (auto simp: len_def min_def split: if_splits)
    then show ?thesis
      using False assms part by (simp add: link_receive_def Let_def len_def [symmetric] openCells.simps [of f "r @ chunk"])
  qed
qed (use assms in \<open>simp add: link_receive_def\<close>)

lemma receive_dead: "fold (link_receive f) chunks (r, s, False) = (r, s, False)"
  by (induction chunks) (simp_all add: link_receive_def)

lemma receive_chunks:
  "[] \<notin> set chunks \<Longrightarrow> length r < CELL_BYTES \<Longrightarrow>
    (let (r', s', alive) = fold (link_receive f) chunks (r, s, True); (r'', s'', alive') = openCells f (r @ concat chunks) s
     in s' = s'' \<and> alive = alive' \<and> (alive \<longrightarrow> r' = r''))"
proof (induction chunks arbitrary: r s)
  case Nil
  then show ?case
    by (simp add: openCells.simps [of f r])
next
  case (Cons c chunks)
  obtain r1 s1 ok where o: "openCells f (r @ c) s = (r1, s1, ok)"
    by (metis prod_cases3)
  have first: "link_receive f c (r, s, True) = (r1, s1, ok)"
    using receive_is_append [of r c f s] Cons.prems o by auto
  have rest: "openCells f (r @ concat (c # chunks)) s = (if ok then openCells f (r1 @ concat chunks) s1 else ([], s1, False))"
    using openCells_append [of f "r @ c" "concat chunks" s] o by simp
  show ?case
  proof (cases ok)
    case True
    have "length r1 < CELL_BYTES"
      using openCells_rest [OF o] .
    then show ?thesis
      using Cons.IH [of r1 s1] Cons.prems first rest True by simp
  next
    case False
    then show ?thesis
      using first rest by (simp add: receive_dead)
  qed
qed



section \<open>Settlement\<close>

fun settlements :: "link_event list \<Rightarrow> nat list" where
  "settlements [] = []"
| "settlements (Resolved i # es) = i # settlements es"
| "settlements (Rejected i # es) = i # settlements es"
| "settlements (e # es) = settlements es"

fun writtenJobs :: "link_event list \<Rightarrow> send_job list" where
  "writtenJobs [] = []"
| "writtenJobs (Written js # es) = js @ writtenJobs es"
| "writtenJobs (e # es) = writtenJobs es"

lemma events_append [simp]:
  "settlements (xs @ ys) = settlements xs @ settlements ys" "writtenJobs (xs @ ys) = writtenJobs xs @ writtenJobs ys"
  by (induction xs rule: settlements.induct) simp_all

abbreviation dataCount :: "send_job list \<Rightarrow> nat" where
  "dataCount js \<equiv> length (filter sj_isData js)"

abbreviation controlCount :: "send_job list \<Rightarrow> nat" where
  "controlCount js \<equiv> length (filter (\<lambda>j. \<not> sj_isData j) js)"

text \<open>Settling jobs that are not settled yet.\<close>

definition settles :: "send_job list \<Rightarrow> circuit_link \<Rightarrow> circuit_link \<Rightarrow> bool" where
  "settles js l l' \<longleftrightarrow> cl_settled l' = rev (map sj_id js) @ cl_settled l \<and> cl_pendingSends l' = cl_pendingSends l - length js
     \<and> cl_pendingData l' = cl_pendingData l - dataCount js \<and> cl_pendingControl l' = cl_pendingControl l - controlCount js
     \<and> (\<exists>es. cl_trace l' = cl_trace l @ es \<and> settlements es = map sj_id js \<and> writtenJobs es = [])
     \<and> (cl_multiplexed l', cl_queues l', cl_queuedSends l', cl_inflight l', cl_flushScheduled l', cl_destroyed l', cl_nextJob l')
       = (cl_multiplexed l, cl_queues l, cl_queuedSends l, cl_inflight l, cl_flushScheduled l, cl_destroyed l, cl_nextJob l)"

lemma settleSend_settles: "sj_id j \<notin> set (cl_settled l) \<Longrightarrow> settles [j] l (settleSend b j l)"
  by (simp add: settles_def settleSend_def Let_def)

lemma settles_trans:
  assumes "settles xs l l'" "settles ys l' l''"
  shows "settles (xs @ ys) l l''"
proof -
  obtain es where es: "cl_trace l' = cl_trace l @ es" "settlements es = map sj_id xs" "writtenJobs es = []"
    using assms(1) unfolding settles_def by blast
  obtain es' where es': "cl_trace l'' = cl_trace l' @ es'" "settlements es' = map sj_id ys" "writtenJobs es' = []"
    using assms(2) unfolding settles_def by blast
  have "\<exists>es. cl_trace l'' = cl_trace l @ es \<and> settlements es = map sj_id (xs @ ys) \<and> writtenJobs es = []"
    using es es' by (intro exI [of _ "es @ es'"]) simp
  moreover have "cl_settled l'' = rev (map sj_id (xs @ ys)) @ cl_settled l" "cl_pendingSends l'' = cl_pendingSends l - length (xs @ ys)"
    "cl_pendingData l'' = cl_pendingData l - dataCount (xs @ ys)" "cl_pendingControl l'' = cl_pendingControl l - controlCount (xs @ ys)"
    using assms unfolding settles_def by simp_all
  moreover have "(cl_multiplexed l'', cl_queues l'', cl_queuedSends l'', cl_inflight l'', cl_flushScheduled l'', cl_destroyed l'', cl_nextJob l'')
      = (cl_multiplexed l, cl_queues l, cl_queuedSends l, cl_inflight l, cl_flushScheduled l, cl_destroyed l, cl_nextJob l)"
    using assms unfolding settles_def by simp
  ultimately show ?thesis
    unfolding settles_def by blast
qed

lemma fold_settles:
  "distinct (map sj_id js @ cl_settled l) \<Longrightarrow> settles js l (fold (settleSend b) js l)"
proof (induction js arbitrary: l)
  case (Cons j js)
  have one: "settles [j] l (settleSend b j l)"
    using Cons.prems by (intro settleSend_settles) auto
  then have "cl_settled (settleSend b j l) = sj_id j # cl_settled l"
    by (simp add: settles_def)
  then have "settles js (settleSend b j l) (fold (settleSend b) js (settleSend b j l))"
    using Cons.prems by (intro Cons.IH) auto
  then show ?case
    using settles_trans [OF one] by simp
qed (simp add: settles_def)

lemma fold_settled: "sj_id ` set js \<subseteq> set (cl_settled l) \<Longrightarrow> fold (settleSend b) js l = l"
  by (induction js) (simp_all add: settleSend_def)

end
