(* ===== verification/Link_Schedule.thy ===== *)
theory Link_Schedule
  imports Link_Properties "HOL-Library.Multiset"
begin

text \<open>
  The send queues of a circuit link: order within a stream, the accounts of pending jobs, settlement of every
  job, and the bounded wait of the deficit round robin.
\<close>

section \<open>Queues\<close>

definition jobStream :: "bool \<Rightarrow> send_job \<Rightarrow> nat" where
  "jobStream multiplexed j = (if multiplexed \<and> length (sj_payload j) \<ge> LOGICAL_HEADER_BYTES then readU32 (sj_payload j) else 0)"

definition queuedJobs :: "send_queue list \<Rightarrow> send_job list" where
  "queuedJobs qs = concat (map sq_jobs qs)"

definition jobsOf :: "nat \<Rightarrow> send_queue list \<Rightarrow> send_job list" where
  "jobsOf streamId qs = concat (map sq_jobs (filter (\<lambda>q. sq_streamId q = streamId) qs))"

definition turnsLeft :: "send_queue \<Rightarrow> nat" where
  "turnsLeft q = (if sq_deficit q = 0 then 4 else sq_deficit q div CELL_BYTES)"

definition queue_ok :: "bool \<Rightarrow> send_queue \<Rightarrow> bool" where
  "queue_ok m q \<longleftrightarrow> sq_jobs q \<noteq> [] \<and> (\<forall>j \<in> set (sq_jobs q). jobStream m j = sq_streamId q) \<and> sq_deficit q \<in> {0, CELL_BYTES, 2 * CELL_BYTES, 3 * CELL_BYTES}"

definition queues_ok :: "bool \<Rightarrow> send_queue list \<Rightarrow> bool" where
  "queues_ok m qs \<longleftrightarrow> distinct (map sq_streamId qs) \<and> (\<forall>q \<in> set qs. queue_ok m q)"

lemma jobsOf_simps [simp]:
  "jobsOf s [] = []" "jobsOf s (q # qs) = (if sq_streamId q = s then sq_jobs q else []) @ jobsOf s qs" "jobsOf s (xs @ ys) = jobsOf s xs @ jobsOf s ys"
  by (simp_all add: jobsOf_def)

lemma queuedJobs_simps [simp]:
  "queuedJobs [] = []" "queuedJobs (q # qs) = sq_jobs q @ queuedJobs qs" "queuedJobs (xs @ ys) = queuedJobs xs @ queuedJobs ys"
  by (simp_all add: queuedJobs_def)

lemma jobsOf_absent: "s \<notin> sq_streamId ` set qs \<Longrightarrow> jobsOf s qs = []"
  by (induction qs) auto

lemma appendJob_streams: "sq_streamId ` set (appendJob s j qs) = insert s (sq_streamId ` set qs)"
  by (induction qs) auto

lemma queues_ok_Cons: "queues_ok m (q # qs) \<longleftrightarrow> queue_ok m q \<and> sq_streamId q \<notin> sq_streamId ` set qs \<and> queues_ok m qs"
  by (auto simp: queues_ok_def)

lemma appendJob_ok:
  assumes "queues_ok m qs" "jobStream m j = s"
  shows "queues_ok m (appendJob s j qs)"
  using assms(1)
proof (induction qs)
  case (Cons q qs)
  have "queue_ok m (q\<lparr>sq_jobs := sq_jobs q @ [j]\<rparr>)" if "sq_streamId q = s" "queue_ok m q"
    using that assms(2) by (auto simp: queue_ok_def)
  then show ?case
    using Cons by (auto simp: queues_ok_Cons appendJob_streams)
qed (use assms(2) in \<open>simp add: queues_ok_def queue_ok_def\<close>)

lemma appendJob_jobs:
  assumes "distinct (map sq_streamId qs)"
  shows "jobsOf t (appendJob s j qs) = jobsOf t qs @ (if t = s then [j] else [])"
  using assms by (induction qs) (auto simp: jobsOf_absent)

lemma appendJob_queued: "mset (queuedJobs (appendJob s j qs)) = add_mset j (mset (queuedJobs qs))"
  by (induction qs) auto

text \<open>Picking the next job: it is the oldest of its stream, and nothing else moves.\<close>

lemma nextSend_picks:
  assumes "queues_ok m (cl_queues l)" "cl_queues l \<noteq> []" "nextSend l = (j, l')"
  shows "queues_ok m (cl_queues l')" "mset (queuedJobs (cl_queues l)) = add_mset j (mset (queuedJobs (cl_queues l')))"
    "jobsOf s (cl_queues l) = (if jobStream m j = s then [j] else []) @ jobsOf s (cl_queues l')"
    "l' = l\<lparr>cl_queuedSends := cl_queuedSends l - 1, cl_queues := cl_queues l'\<rparr>"
proof -
  obtain q qs where q: "cl_queues l = q # qs"
    using assms(2) by (cases "cl_queues l") auto
  obtain k ks where k: "sq_jobs q = k # ks"
    using assms(1) q by (cases "sq_jobs q") (auto simp: queues_ok_def queue_ok_def)
  define d where "d = (if sq_deficit q = 0 then SEND_QUANTUM_BYTES else sq_deficit q) - CELL_BYTES"
  define q' where "q' = q\<lparr>sq_jobs := ks, sq_deficit := d\<rparr>"
  have "nextSend l = (k, l\<lparr>cl_queuedSends := cl_queuedSends l - 1,
      cl_queues := (if ks = [] then qs else if d = 0 \<and> qs \<noteq> [] then qs @ [q'] else q' # qs)\<rparr>)"
    by (simp add: nextSend_def q k Let_def d_def q'_def)
  then have l': "j = k" "l' = l\<lparr>cl_queuedSends := cl_queuedSends l - 1,
      cl_queues := (if ks = [] then qs else if d = 0 \<and> qs \<noteq> [] then qs @ [q'] else q' # qs)\<rparr>"
    using assms(3) by simp_all
  have d: "d \<in> {0, CELL_BYTES, 2 * CELL_BYTES, 3 * CELL_BYTES}" and stream: "jobStream m k = sq_streamId q"
    using assms(1) q k by (auto simp: queues_ok_def queue_ok_def d_def SEND_QUANTUM_BYTES_def)
  have "jobsOf (sq_streamId q) qs = []"
    using assms(1) q by (intro jobsOf_absent) (auto simp: queues_ok_def)
  then show "jobsOf s (cl_queues l) = (if jobStream m j = s then [j] else []) @ jobsOf s (cl_queues l')"
    using l' stream by (auto simp: q k q'_def)
  show "queues_ok m (cl_queues l')"
    using l' assms(1) q k d by (auto simp: queues_ok_def queue_ok_def q'_def)
  show "mset (queuedJobs (cl_queues l)) = add_mset j (mset (queuedJobs (cl_queues l')))"
    using l' by (auto simp: q k q'_def)
  show "l' = l\<lparr>cl_queuedSends := cl_queuedSends l - 1, cl_queues := cl_queues l'\<rparr>"
    using l' by simp
qed

section \<open>Accounts\<close>

definition order_ok :: "circuit_link \<Rightarrow> send_job list \<Rightarrow> bool" where
  "order_ok l w \<longleftrightarrow> (\<forall>s. sorted (map sj_id (filter (\<lambda>j. jobStream (cl_multiplexed l) j = s) w @ jobsOf s (cl_queues l))))"

text \<open>A live link with \<open>w\<close> the jobs picked so far and \<open>f\<close> those of them in flight.\<close>

definition link_live :: "send_job list \<Rightarrow> send_job list \<Rightarrow> circuit_link \<Rightarrow> bool" where
  "link_live w f l \<longleftrightarrow> \<not> cl_destroyed l \<and> queues_ok (cl_multiplexed l) (cl_queues l) \<and> order_ok l w
     \<and> cl_queuedSends l = length (queuedJobs (cl_queues l))
     \<and> mset (map sj_id (w @ queuedJobs (cl_queues l))) = mset [0..<cl_nextJob l]
     \<and> mset (cl_settled l @ map sj_id (f @ queuedJobs (cl_queues l))) = mset [0..<cl_nextJob l]
     \<and> cl_pendingSends l = length (f @ queuedJobs (cl_queues l)) \<and> cl_pendingData l = dataCount (f @ queuedJobs (cl_queues l))
     \<and> cl_pendingControl l = controlCount (f @ queuedJobs (cl_queues l))
     \<and> cl_pendingData l \<le> CIRCUIT_WINDOW \<and> cl_pendingControl l \<le> CONTROL_RESERVE
     \<and> settlements (cl_trace l) = rev (cl_settled l)"

text \<open>A destroyed link; \<open>x\<close> are the jobs that the running handler has still to settle.\<close>

definition link_dead :: "send_job list \<Rightarrow> send_job list \<Rightarrow> circuit_link \<Rightarrow> bool" where
  "link_dead w x l \<longleftrightarrow> cl_destroyed l \<and> cl_queues l = [] \<and> cl_queuedSends l = 0 \<and> order_ok l w
     \<and> mset (map sj_id w) \<subseteq># mset [0..<cl_nextJob l] \<and> mset (cl_settled l @ map sj_id x) = mset [0..<cl_nextJob l]
     \<and> cl_pendingSends l = length x \<and> cl_pendingData l = dataCount x \<and> cl_pendingControl l = controlCount x
     \<and> settlements (cl_trace l) = rev (cl_settled l)"

lemma live_distinct:
  assumes "link_live w f l"
  shows "distinct (map sj_id (f @ queuedJobs (cl_queues l)) @ cl_settled l)"
proof -
  have "mset (map sj_id (f @ queuedJobs (cl_queues l)) @ cl_settled l) = mset [0..<cl_nextJob l]"
    using assms by (simp add: link_live_def union_ac)
  then show ?thesis
    by (metis distinct_upt mset_eq_imp_distinct_iff)
qed

lemma mset_filter_length: "mset xs = mset ys \<Longrightarrow> length (filter P xs) = length (filter P ys)"
  by (metis mset_filter size_mset)

lemma destroy_dead:
  assumes "link_live w f l" "mset f = mset (concat (cl_inflight l) @ x)"
  shows "link_dead w x (link_destroy l)" "cl_inflight (link_destroy l) = cl_inflight l"
    "writtenJobs (cl_trace (link_destroy l)) = writtenJobs (cl_trace l)" "cl_nextJob (link_destroy l) = cl_nextJob l"
proof -
  define g where "g = concat (cl_inflight l)"
  let ?q = "queuedJobs (cl_queues l)"
  define a where "a = l\<lparr>cl_destroyed := True\<rparr>"
  define b where "b = fold (settleSend True) (concat (cl_inflight a)) a"
  define c where "c = fold (settleSend True) (concat (map sq_jobs (cl_queues b))) b"
  have m: "mset (f @ ?q) = mset ((g @ ?q) @ x)"
    using assms(2) by (simp add: g_def union_ac)
  have all: "mset (cl_settled l @ map sj_id ((g @ ?q) @ x)) = mset [0..<cl_nextJob l]"
    using assms(1) m unfolding link_live_def mset_append by (metis mset_append mset_map)
  then have d: "distinct (cl_settled l @ map sj_id ((g @ ?q) @ x))"
    by (metis distinct_upt mset_eq_imp_distinct_iff)
  then have "settles g a (fold (settleSend True) g a)"
    by (intro fold_settles) (auto simp: a_def)
  then have ab: "settles g a b"
    by (simp add: b_def a_def g_def)
  then have queues: "concat (map sq_jobs (cl_queues b)) = ?q" and "cl_settled b = rev (map sj_id g) @ cl_settled l"
    by (simp_all add: settles_def a_def queuedJobs_def)
  then have "settles ?q b c"
    unfolding c_def queues using d by (intro fold_settles) auto
  from settles_trans [OF ab this] have ac: "settles (g @ ?q) a c" .
  have destroyed: "link_destroy l = c\<lparr>cl_queues := [], cl_queuedSends := 0, cl_trace := cl_trace c @ [LinkClosed]\<rparr>"
    using assms(1) by (simp add: link_destroy_def Let_def a_def b_def c_def link_live_def)
  obtain es where es: "cl_trace c = cl_trace a @ es" "settlements es = map sj_id (g @ ?q)" "writtenJobs es = []"
    using ac unfolding settles_def by blast
  have pending: "cl_pendingSends l = length ((g @ ?q) @ x)" "cl_pendingData l = dataCount ((g @ ?q) @ x)" "cl_pendingControl l = controlCount ((g @ ?q) @ x)"
    using assms(1) mset_eq_length [OF m] mset_filter_length [OF m] unfolding link_live_def by metis+
  have fields: "cl_settled c = rev (map sj_id (g @ ?q)) @ cl_settled l" "cl_pendingSends c = length x" "cl_pendingData c = dataCount x"
    "cl_pendingControl c = controlCount x" "cl_destroyed c" "cl_nextJob c = cl_nextJob l" "cl_multiplexed c = cl_multiplexed l" "cl_inflight c = cl_inflight l"
    using ac unfolding settles_def by (simp_all add: a_def pending)
  have sub: "mset (map sj_id w) \<subseteq># mset [0..<cl_nextJob l]"
    using assms(1) by (metis link_live_def map_append mset_append mset_subset_eq_add_left)
  have order: "order_ok (link_destroy l) w"
    using assms(1) by (auto simp: order_ok_def link_live_def destroyed fields sorted_append)
  have trace: "settlements (cl_trace l) = rev (cl_settled l)"
    using assms(1) by (simp add: link_live_def)
  show "link_dead w x (link_destroy l)"
    using order sub es all trace unfolding link_dead_def destroyed by (simp add: fields a_def union_ac)
  show "cl_inflight (link_destroy l) = cl_inflight l" "writtenJobs (cl_trace (link_destroy l)) = writtenJobs (cl_trace l)"
    "cl_nextJob (link_destroy l) = cl_nextJob l"
    using es by (simp_all add: destroyed fields a_def)
qed

lemma live_ids:
  assumes "link_live w f l"
  shows "list_all (\<lambda>j. sj_id j < cl_nextJob l) f"
proof -
  have "set (cl_settled l @ map sj_id (f @ queuedJobs (cl_queues l))) = set [0..<cl_nextJob l]"
    using assms unfolding link_live_def by (metis mset_eq_setD)
  then show ?thesis
    by (auto simp: list_all_iff)
qed

section \<open>The operations\<close>

lemma live_cong:
  assumes "link_live w f l" "cl_destroyed l' = cl_destroyed l" "cl_multiplexed l' = cl_multiplexed l" "cl_queues l' = cl_queues l"
    "cl_queuedSends l' = cl_queuedSends l" "cl_nextJob l' = cl_nextJob l" "cl_settled l' = cl_settled l" "cl_pendingSends l' = cl_pendingSends l"
    "cl_pendingData l' = cl_pendingData l" "cl_pendingControl l' = cl_pendingControl l" "settlements (cl_trace l') = settlements (cl_trace l)"
  shows "link_live w f l'"
  using assms(1) unfolding link_live_def order_ok_def assms(2-11) .

lemma dead_cong:
  assumes "link_dead w x l" "cl_destroyed l' = cl_destroyed l" "cl_multiplexed l' = cl_multiplexed l" "cl_queues l' = cl_queues l"
    "cl_queuedSends l' = cl_queuedSends l" "cl_nextJob l' = cl_nextJob l" "cl_settled l' = cl_settled l" "cl_pendingSends l' = cl_pendingSends l"
    "cl_pendingData l' = cl_pendingData l" "cl_pendingControl l' = cl_pendingControl l" "settlements (cl_trace l') = settlements (cl_trace l)"
  shows "link_dead w x l'"
  using assms(1) unfolding link_dead_def order_ok_def assms(2-11) .

lemma order_cong: "order_ok l w \<Longrightarrow> cl_queues l' = cl_queues l \<Longrightarrow> cl_multiplexed l' = cl_multiplexed l \<Longrightarrow> order_ok l' w"
  by (simp add: order_ok_def)

lemma live_pick:
  assumes "link_live w f l" "cl_queuedSends l \<noteq> 0" "nextSend l = (j, l')"
  shows "link_live (w @ [j]) (f @ [j]) l'" "cl_queuedSends l' = cl_queuedSends l - 1"
    "cl_trace l' = cl_trace l" "cl_inflight l' = cl_inflight l" "cl_nextJob l' = cl_nextJob l"
proof -
  let ?q = "queuedJobs (cl_queues l)" and ?q' = "queuedJobs (cl_queues l')" and ?m = "cl_multiplexed l"
  have "cl_queues l \<noteq> []" "queues_ok ?m (cl_queues l)"
    using assms(1,2) by (auto simp: link_live_def)
  note pick = nextSend_picks [OF this(2,1) assms(3)]
  have l': "cl_multiplexed l' = ?m" "cl_queuedSends l' = cl_queuedSends l - 1" "cl_trace l' = cl_trace l" "cl_inflight l' = cl_inflight l"
    "cl_nextJob l' = cl_nextJob l" "cl_settled l' = cl_settled l" "cl_pendingSends l' = cl_pendingSends l" "cl_pendingData l' = cl_pendingData l"
    "cl_pendingControl l' = cl_pendingControl l" "cl_destroyed l' = cl_destroyed l"
    by (subst pick(4), simp)+
  have m: "mset (x @ [j] @ ?q') = mset (x @ ?q)" for x
    by (simp add: pick(2))
  then have counts: "length (filter P (x @ [j] @ ?q')) = length (filter P (x @ ?q))" for P x
    by (rule mset_filter_length)
  have sizes: "length (x @ [j] @ ?q') = length (x @ ?q)" for x
    using m by (rule mset_eq_length)
  have ids: "mset (map sj_id (x @ [j] @ ?q')) = mset (map sj_id (x @ ?q))" for x
    using m by (metis mset_map)
  have "filter (\<lambda>k. jobStream ?m k = s) (w @ [j]) @ jobsOf s (cl_queues l') = filter (\<lambda>k. jobStream ?m k = s) w @ jobsOf s (cl_queues l)" for s
    by (simp add: pick(3))
  then have order: "order_ok l' (w @ [j])"
    using assms(1) unfolding order_ok_def link_live_def l' by metis
  show "link_live (w @ [j]) (f @ [j]) l'"
  proof -
    have "mset (map sj_id ((w @ [j]) @ ?q')) = mset [0..<cl_nextJob l]" "mset (cl_settled l @ map sj_id ((f @ [j]) @ ?q')) = mset [0..<cl_nextJob l]"
      using assms(1) ids [of w] ids [of f] unfolding link_live_def append_assoc mset_append by simp_all
    moreover have "cl_queuedSends l - 1 = length ?q'" "cl_pendingSends l = length ((f @ [j]) @ ?q')"
      using assms(1) sizes [of "[]"] sizes [of f] unfolding link_live_def append_assoc by simp_all
    moreover have "cl_pendingData l = dataCount ((f @ [j]) @ ?q')" "cl_pendingControl l = controlCount ((f @ [j]) @ ?q')"
      using assms(1) unfolding link_live_def append_assoc counts by blast+
    ultimately show ?thesis
      using assms(1) pick(1) order unfolding link_live_def l' by blast
  qed
  show "cl_queuedSends l' = cl_queuedSends l - 1" "cl_trace l' = cl_trace l" "cl_inflight l' = cl_inflight l" "cl_nextJob l' = cl_nextJob l"
    by (simp_all add: l')
qed

lemma dead_less: "link_dead (w @ b) x l \<Longrightarrow> link_dead w x l"
  by (auto simp: link_dead_def order_ok_def sorted_append intro: subset_mset.trans [rotated])

lemma fillBatch_ok:
  assumes "link_live (w @ b) (concat others @ b) l" "cl_inflight l = others @ [b]" "n \<le> cl_queuedSends l" "fillBatch seals n others b l = (b', l')"
  shows "(if cl_destroyed l' then link_dead (w @ b') [] l' \<and> list_all (\<lambda>j. sj_id j < cl_nextJob l') (concat others @ b')
      else link_live (w @ b') (concat others @ b') l') \<and> cl_inflight l' = others @ [b'] \<and> writtenJobs (cl_trace l') = writtenJobs (cl_trace l)
      \<and> length b' \<le> length b + n \<and> (\<not> cl_destroyed l' \<longrightarrow> length b' = length b + n)"
  using assms
proof (induction n arbitrary: b l)
  case 0
  then show ?case
    by (auto simp: link_live_def)
next
  case (Suc n)
  have live: "\<not> cl_destroyed l"
    using Suc.prems(1) by (simp add: link_live_def)
  obtain j l1 where j: "nextSend l = (j, l1)"
    by fastforce
  define l2 where "l2 = l1\<lparr>cl_inflight := others @ [b @ [j]]\<rparr>"
  have pick: "link_live (w @ b @ [j]) (concat others @ b @ [j]) l1" "cl_queuedSends l1 = cl_queuedSends l - 1" "cl_trace l1 = cl_trace l"
    using live_pick [OF Suc.prems(1) _ j] Suc.prems(3) by simp_all
  have l2: "link_live (w @ b @ [j]) (concat others @ b @ [j]) l2"
    by (rule live_cong [OF pick(1)]) (simp_all add: l2_def)
  have f: "concat (cl_inflight l2) = concat others @ b @ [j]"
    by (simp add: l2_def)
  have run: "fillBatch seals n others (b @ [j]) (if seals j then l2 else link_destroy l2) = (b', l')"
    using Suc.prems(4) live j by (simp add: l2_def Let_def split: if_splits)
  show ?case
  proof (cases "seals j")
    case True
    have "n \<le> cl_queuedSends l2" "cl_inflight l2 = others @ [b @ [j]]" "link_live (w @ (b @ [j])) (concat others @ (b @ [j])) l2"
      using pick(2) Suc.prems(3) l2 by (simp_all add: l2_def)
    from Suc.IH [OF this(3,2,1)] True run pick(3) show ?thesis
      by (auto simp: l2_def split: if_splits)
  next
    case False
    have "mset (concat others @ b @ [j]) = mset (concat (cl_inflight l2) @ [])"
      using f by simp
    note dead = destroy_dead [OF l2 this]
    have destroyed: "cl_destroyed (link_destroy l2)"
      using dead(1) by (simp add: link_dead_def)
    then have out: "b' = b @ [j]" "l' = link_destroy l2"
      using run False by (cases n; simp)+
    show ?thesis
      using dead destroyed out pick(3) live_ids [OF l2] by (simp add: l2_def)
  qed
qed

text \<open>The invariant of a link between its calls.\<close>

definition link_inv :: "circuit_link \<Rightarrow> bool" where
  "link_inv l \<longleftrightarrow>
     (if cl_destroyed l then link_dead (writtenJobs (cl_trace l)) [] l \<and> list_all (\<lambda>j. sj_id j < cl_nextJob l) (concat (cl_inflight l))
      else link_live (writtenJobs (cl_trace l)) (concat (cl_inflight l)) l)"

lemma link_invI:
  assumes "link_live (writtenJobs (cl_trace l)) (concat (cl_inflight l)) l"
  shows "link_inv l"
  using assms by (simp add: link_inv_def link_live_def)

lemma destroy_inv:
  assumes "link_inv l"
  shows "link_inv (link_destroy l)"
proof (cases "cl_destroyed l")
  case False
  then have live: "link_live (writtenJobs (cl_trace l)) (concat (cl_inflight l)) l"
    using assms by (simp add: link_inv_def)
  have "mset (concat (cl_inflight l)) = mset (concat (cl_inflight l) @ [])"
    by simp
  note dead = destroy_dead [OF live this]
  show ?thesis
    using dead live_ids [OF live] by (simp add: link_inv_def link_dead_def)
qed (use assms in \<open>simp add: link_destroy_def\<close>)

lemma inv_flags [simp]: "link_inv (l\<lparr>cl_flushScheduled := b\<rparr>) \<longleftrightarrow> link_inv l"
  by (simp add: link_inv_def link_dead_def link_live_def order_ok_def)

lemma schedule_inv [simp]: "link_inv (scheduleSends l) \<longleftrightarrow> link_inv l"
  by (simp add: scheduleSends_def)

lemma live_send:
  assumes "link_live w f l" "jobStream (cl_multiplexed l) j = s" "sj_id j = cl_nextJob l"
    "if sj_isData j then cl_pendingData l < CIRCUIT_WINDOW else cl_pendingControl l < CONTROL_RESERVE"
    "cl_destroyed l' = cl_destroyed l" "cl_multiplexed l' = cl_multiplexed l" "cl_queues l' = appendJob s j (cl_queues l)"
    "cl_queuedSends l' = Suc (cl_queuedSends l)" "cl_nextJob l' = Suc (cl_nextJob l)" "cl_settled l' = cl_settled l"
    "cl_pendingSends l' = Suc (cl_pendingSends l)" "cl_pendingData l' = cl_pendingData l + (if sj_isData j then 1 else 0)"
    "cl_pendingControl l' = cl_pendingControl l + (if sj_isData j then 0 else 1)" "cl_trace l' = cl_trace l"
  shows "link_live w f l'"
proof -
  let ?q = "queuedJobs (cl_queues l)" and ?q' = "queuedJobs (appendJob s j (cl_queues l))"
  have ok: "queues_ok (cl_multiplexed l) (cl_queues l)" and ids: "mset (map sj_id (w @ ?q)) = mset [0..<cl_nextJob l]"
    using assms(1) by (simp_all add: link_live_def)
  have m: "mset (x @ ?q') = mset ((x @ ?q) @ [j])" for x
    by (simp add: appendJob_queued)
  have counts: "length (filter P (x @ ?q')) = length (filter P ((x @ ?q) @ [j]))" for P x
    using m by (rule mset_filter_length)
  have sizes: "length ?q' = Suc (length ?q)" "length (x @ ?q') = Suc (length (x @ ?q))" for x
    using mset_eq_length [OF m [of "[]"]] by simp_all
  have ids': "mset (map sj_id (x @ ?q')) = add_mset (cl_nextJob l) (mset (map sj_id (x @ ?q)))" for x
    using m [of x] assms(3) by (metis add_mset_add_single map_append mset_append mset_map mset_single_iff_right list.simps(8,9) mset.simps)
  have small: "sj_id i < cl_nextJob l" if "i \<in> set (w @ ?q)" for i
    using mset_eq_setD [OF ids] that by auto
  have order: "order_ok l' w"
  proof -
    have "sorted (map sj_id (filter (\<lambda>i. jobStream (cl_multiplexed l) i = t) w @ jobsOf t (cl_queues l) @ (if t = s then [j] else [])))" for t
    proof -
      have "sorted (map sj_id (filter (\<lambda>i. jobStream (cl_multiplexed l) i = t) w @ jobsOf t (cl_queues l)))"
        using assms(1) by (simp add: link_live_def order_ok_def)
      moreover have "set (jobsOf t (cl_queues l)) \<subseteq> set ?q"
        by (auto simp: jobsOf_def queuedJobs_def)
      ultimately show ?thesis
        using small assms(3) by (fastforce simp: sorted_append less_imp_le)
    qed
    then show ?thesis
      using ok by (simp add: order_ok_def assms(6,7) appendJob_jobs queues_ok_def)
  qed
  show ?thesis
    using assms(1,4) appendJob_ok [OF ok assms(2)] order counts [of _ f] sizes ids' [of w] ids' [of f]
    unfolding link_live_def assms(5-14) by (auto split: if_splits)
qed

lemma send_inv:
  assumes "link_inv l"
  shows "link_inv (fst (link_send payload l))"
proof (cases "snd (link_send payload l)")
  case None
  then have "fst (link_send payload l) = link_destroy l"
    by (auto simp: link_send_def Let_def split: if_splits)
  then show ?thesis
    using destroy_inv [OF assms] by simp
next
  case (Some i)
  define bs where "bs = bytesAt payload"
  define d where "d = (length bs \<ge> LOGICAL_HEADER_BYTES \<and> uint (bs ! 4) = LOGICAL_DATA)"
  define j where "j = \<lparr>sj_id = cl_nextJob l, sj_payload = bs, sj_isData = d\<rparr>"
  define s where "s = jobStream (cl_multiplexed l) j"
  define l' where "l' = l\<lparr>cl_nextJob := Suc (cl_nextJob l), cl_pendingSends := Suc (cl_pendingSends l),
    cl_pendingData := cl_pendingData l + (if d then 1 else 0), cl_pendingControl := cl_pendingControl l + (if d then 0 else 1),
    cl_queues := appendJob s j (cl_queues l), cl_queuedSends := Suc (cl_queuedSends l)\<rparr>"
  have guard: "\<not> cl_destroyed l" "if d then cl_pendingData l < CIRCUIT_WINDOW else cl_pendingControl l < CONTROL_RESERVE"
    and result: "fst (link_send payload l) = scheduleSends l'"
    using Some by (auto simp: link_send_def Let_def l'_def s_def jobStream_def j_def d_def bs_def [symmetric] split: if_splits)
  have "link_live (writtenJobs (cl_trace l)) (concat (cl_inflight l)) l"
    using assms guard(1) by (simp add: link_inv_def)
  then have "link_live (writtenJobs (cl_trace l)) (concat (cl_inflight l)) l'"
    by (rule live_send [where j = j and s = s]) (use guard(2) in \<open>simp_all add: s_def l'_def j_def\<close>)
  then have "link_inv l'"
    by (intro link_invI) (simp add: l'_def)
  then show ?thesis
    by (simp add: result)
qed

lemma flushTimes_inv: "link_inv l \<Longrightarrow> link_inv (flushTimes n seals l)"
proof (induction n arbitrary: l)
  case (Suc n)
  show ?case
  proof (cases "cl_destroyed l \<or> length (cl_inflight l) \<ge> SEND_PIPELINE_BATCHES \<or> cl_queuedSends l = 0")
    case False
    define others where "others = cl_inflight l"
    define w where "w = writtenJobs (cl_trace l)"
    define l1 where "l1 = l\<lparr>cl_inflight := others @ [[]]\<rparr>"
    obtain b l2 where b: "fillBatch seals (min SEND_BATCH_CELLS (cl_queuedSends l)) others [] l1 = (b, l2)"
      by fastforce
    have "link_live w (concat others) l"
      using Suc.prems False by (simp add: link_inv_def w_def others_def)
    then have "link_live (w @ []) (concat others @ []) l1"
      unfolding append_Nil2 by (rule live_cong) (simp_all add: l1_def)
    moreover have l1: "cl_inflight l1 = others @ [[]]" "min SEND_BATCH_CELLS (cl_queuedSends l) \<le> cl_queuedSends l1" "writtenJobs (cl_trace l1) = w"
      by (simp_all add: l1_def w_def)
    ultimately have filled:
      "if cl_destroyed l2 then link_dead (w @ b) [] l2 \<and> list_all (\<lambda>j. sj_id j < cl_nextJob l2) (concat others @ b) else link_live (w @ b) (concat others @ b) l2"
      "cl_inflight l2 = others @ [b]" "writtenJobs (cl_trace l2) = w"
      using fillBatch_ok [OF _ l1(1,2) b, of w] unfolding l1(3) by blast+
    show ?thesis
    proof (cases "cl_destroyed l2")
      case True
      then have "link_dead w [] l2" "list_all (\<lambda>j. sj_id j < cl_nextJob l2) (concat others)"
        using filled(1) by (auto dest: dead_less)
      moreover from this(1) have "link_dead w [] (l2\<lparr>cl_inflight := others\<rparr>)"
        by (rule dead_cong) simp_all
      ultimately have "link_inv (l2\<lparr>cl_inflight := others\<rparr>)"
        using True filled(3) by (simp add: link_inv_def)
      then show ?thesis
        using False b True by (simp add: others_def l1_def Let_def)
    next
      case live: False
      define l3 where "l3 = l2\<lparr>cl_trace := cl_trace l2 @ [Written b]\<rparr>"
      have "link_live (w @ b) (concat others @ b) l3"
        by (rule live_cong [of _ _ l2]) (use filled(1) live in \<open>simp_all add: l3_def\<close>)
      then have "link_inv l3"
        using filled(2,3) by (intro link_invI) (simp add: l3_def)
      then show ?thesis
        using False b live Suc.IH by (simp add: others_def l1_def l3_def Let_def)
    qed
  qed (use Suc.prems in simp)
qed simp

lemma flush_inv: "link_inv l \<Longrightarrow> link_inv (flushSends seals l)"
  by (simp add: flushSends_def flushTimes_inv)

lemma mset_upt_set: "mset xs = mset [0..<n] \<Longrightarrow> set xs = {..<n}"
  by (metis atLeast_upt mset_eq_setD)

lemma dead_all_settled:
  assumes "link_dead w [] l"
  shows "set (cl_settled l) = {..<cl_nextJob l}"
proof (rule mset_upt_set)
  show "mset (cl_settled l) = mset [0..<cl_nextJob l]"
    using assms unfolding link_dead_def list.map append_Nil2 by blast
qed

lemma dead_settles:
  assumes "link_dead w x l"
  shows "link_dead w [] (fold (settleSend b) x l)" "settles x l (fold (settleSend b) x l)"
proof -
  have "distinct (cl_settled l @ map sj_id x)"
    using assms by (metis distinct_upt link_dead_def mset_eq_imp_distinct_iff)
  then show s: "settles x l (fold (settleSend b) x l)"
    by (intro fold_settles) auto
  obtain es where "cl_trace (fold (settleSend b) x l) = cl_trace l @ es" "settlements es = map sj_id x"
    using s unfolding settles_def by blast
  moreover have "order_ok (fold (settleSend b) x l) w"
    by (rule order_cong [of l]) (use assms s in \<open>simp_all add: link_dead_def settles_def\<close>)
  ultimately show "link_dead w [] (fold (settleSend b) x l)"
    using assms s unfolding link_dead_def settles_def by (simp add: union_ac)
qed

lemma live_settles:
  assumes "link_live w f l" "mset f = mset (x @ g)"
  shows "link_live w g (fold (settleSend b) x l)" "settles x l (fold (settleSend b) x l)"
proof -
  let ?q = "queuedJobs (cl_queues l)"
  have m: "mset (f @ ?q) = mset (x @ g @ ?q)"
    using assms(2) by simp
  have all: "mset (cl_settled l @ map sj_id (x @ g @ ?q)) = mset [0..<cl_nextJob l]"
    using assms(1) m unfolding link_live_def mset_append by (metis mset_append mset_map)
  then have "distinct (cl_settled l @ map sj_id (x @ g @ ?q))"
    by (metis distinct_upt mset_eq_imp_distinct_iff)
  then show s: "settles x l (fold (settleSend b) x l)"
    by (intro fold_settles) auto
  obtain es where es: "cl_trace (fold (settleSend b) x l) = cl_trace l @ es" "settlements es = map sj_id x"
    using s unfolding settles_def by blast
  have pending: "cl_pendingSends l = length (x @ g @ ?q)" "cl_pendingData l = dataCount (x @ g @ ?q)" "cl_pendingControl l = controlCount (x @ g @ ?q)"
    using assms(1) mset_eq_length [OF m] mset_filter_length [OF m] unfolding link_live_def by metis+
  show "link_live w g (fold (settleSend b) x l)"
    using assms(1) s es all pending unfolding link_live_def settles_def order_ok_def by (simp add: union_ac)
qed

lemma settles_views: "settles x l l' \<Longrightarrow> writtenJobs (cl_trace l') = writtenJobs (cl_trace l) \<and> cl_inflight l' = cl_inflight l \<and> cl_nextJob l' = cl_nextJob l"
  by (auto simp: settles_def)

lemma finish_inv:
  assumes "link_inv l"
  shows "link_inv (finishBatch k failed l)"
proof (cases "k < length (cl_inflight l)")
  case True
  define batch where "batch = cl_inflight l ! k"
  define rest where "rest = concat (take k (cl_inflight l) @ drop (Suc k) (cl_inflight l))"
  define l1 where "l1 = l\<lparr>cl_inflight := take k (cl_inflight l) @ drop (Suc k) (cl_inflight l)\<rparr>"
  have "cl_inflight l = take k (cl_inflight l) @ batch # drop (Suc k) (cl_inflight l)"
    using True by (simp add: batch_def id_take_nth_drop [symmetric])
  then have split: "mset (concat (cl_inflight l)) = mset (batch @ rest)"
    unfolding rest_def by (metis concat.simps(2) concat_append mset_append union_ac(3) append.assoc union_ac(1,2))
  define w where "w = writtenJobs (cl_trace l)"
  have ids: "list_all (\<lambda>j. sj_id j < cl_nextJob l) (concat (cl_inflight l)) \<Longrightarrow> list_all (\<lambda>j. sj_id j < cl_nextJob l) (batch @ rest)"
    using mset_eq_setD [OF split] by (simp only: list_all_iff)
  have result: "finishBatch k failed l = (let l2 = (if failed then link_destroy l1 else l1) in scheduleSends (fold (settleSend (cl_destroyed l2)) batch l2))"
    using True by (simp add: finishBatch_def Let_def l1_def batch_def)
  show ?thesis
  proof (cases "cl_destroyed l")
    case True
    then have "link_dead w [] l" and small: "list_all (\<lambda>j. sj_id j < cl_nextJob l) (batch @ rest)"
      using assms ids by (simp_all add: link_inv_def w_def)
    from this(1) have dead: "link_dead w [] l1"
      by (rule dead_cong) (simp_all add: l1_def)
    have "set (cl_settled l1) = {..<cl_nextJob l}"
      using dead_all_settled [OF dead] by (simp add: l1_def)
    then have "fold (settleSend True) batch l1 = l1"
      using small by (intro fold_settled) (auto simp: list_all_iff)
    then have "finishBatch k failed l = scheduleSends l1"
      using True unfolding result by (simp add: Let_def l1_def link_destroy_def)
    moreover have "link_inv l1"
      using dead small True by (simp add: link_inv_def l1_def w_def rest_def)
    ultimately show ?thesis
      by simp
  next
    case False
    then have "link_live w (concat (cl_inflight l)) l"
      using assms by (simp add: link_inv_def w_def)
    then have live: "link_live w (concat (cl_inflight l)) l1"
      by (rule live_cong) (simp_all add: l1_def)
    have small: "list_all (\<lambda>j. sj_id j < cl_nextJob l) rest"
      using ids live_ids [OF live] by (simp add: l1_def)
    show ?thesis
    proof (cases failed)
      case True
      have "mset (concat (cl_inflight l)) = mset (concat (cl_inflight l1) @ batch)"
        using split by (simp add: l1_def rest_def union_ac)
      note dead = destroy_dead [OF live this]
      have "cl_destroyed (link_destroy l1)"
        using dead(1) by (simp add: link_dead_def)
      then have out: "finishBatch k failed l = scheduleSends (fold (settleSend True) batch (link_destroy l1))"
        unfolding result using True by (simp add: Let_def)
      define l3 where "l3 = fold (settleSend True) batch (link_destroy l1)"
      have "link_dead w [] l3"
        unfolding l3_def by (rule dead_settles(1) [OF dead(1)])
      moreover have "writtenJobs (cl_trace l3) = w" "concat (cl_inflight l3) = rest" "cl_nextJob l3 = cl_nextJob l"
        using settles_views [OF dead_settles(2) [OF dead(1), of True]] dead(2-4)
        by (simp_all add: l3_def [symmetric]) (simp_all add: l1_def w_def rest_def)
      ultimately have "link_inv l3"
        using small by (simp add: link_inv_def) (simp add: link_dead_def)
      then show ?thesis
        by (simp add: out l3_def)
    next
      case ok: False
      then have out: "finishBatch k failed l = scheduleSends (fold (settleSend False) batch l1)"
        unfolding result using False by (simp add: Let_def l1_def)
      have "link_inv (fold (settleSend False) batch l1)"
        using live_settles(1) [OF live split] settles_views [OF live_settles(2) [OF live split]]
        by (intro link_invI) (simp add: l1_def w_def rest_def)
      then show ?thesis
        by (simp add: out)
    qed
  qed
qed (use assms in \<open>simp add: finishBatch_def\<close>)

section \<open>Order and settlement\<close>

datatype link_input =
    Send jsval
  | Flush "send_job \<Rightarrow> bool"
  | Finish nat bool
  | LinkDestroy

fun link_step :: "link_input \<Rightarrow> circuit_link \<Rightarrow> circuit_link" where
  "link_step (Send payload) l = fst (link_send payload l)"
| "link_step (Flush seals) l = flushSends seals l"
| "link_step (Finish k failed) l = finishBatch k failed l"
| "link_step LinkDestroy l = link_destroy l"

definition link_run :: "link_input list \<Rightarrow> circuit_link \<Rightarrow> circuit_link" where
  "link_run inputs l = fold link_step inputs l"

lemma link_run_inv: "link_inv l \<Longrightarrow> link_inv (link_run inputs l)"
proof (induction inputs arbitrary: l)
  case (Cons i inputs)
  have "link_inv (link_step i l)"
    using Cons.prems send_inv flush_inv finish_inv destroy_inv by (cases i) simp_all
  then show ?case
    using Cons.IH by (simp add: link_run_def)
qed (simp add: link_run_def)

lemma link_new_inv: "link_inv (CircuitLink_new m)"
  by (rule link_invI) (simp add: link_live_def CircuitLink_new_def queues_ok_def order_ok_def)

lemma inv_order: "link_inv l \<Longrightarrow> sorted (map sj_id (filter (\<lambda>j. jobStream (cl_multiplexed l) j = s) (writtenJobs (cl_trace l))))"
  by (auto simp: link_inv_def link_live_def link_dead_def order_ok_def sorted_append split: if_splits)

lemma inv_written_once:
  assumes "link_inv l"
  shows "distinct (map sj_id (writtenJobs (cl_trace l)))"
proof -
  have "mset (map sj_id (writtenJobs (cl_trace l))) \<subseteq># mset [0..<cl_nextJob l]"
    using assms unfolding link_inv_def link_live_def link_dead_def by (metis map_append mset_append mset_subset_eq_add_left)
  then obtain xs where "mset (map sj_id (writtenJobs (cl_trace l)) @ xs) = mset [0..<cl_nextJob l]"
    by (metis ex_mset mset_append mset_subset_eq_exists_conv)
  then show ?thesis
    by (metis distinct_append distinct_upt mset_eq_imp_distinct_iff)
qed

lemma inv_settled:
  assumes "link_inv l"
  shows "distinct (settlements (cl_trace l))" "cl_destroyed l \<Longrightarrow> set (settlements (cl_trace l)) = {..<cl_nextJob l}"
    "cl_inflight l = [] \<Longrightarrow> cl_queues l = [] \<Longrightarrow> set (settlements (cl_trace l)) = {..<cl_nextJob l}"
proof -
  have s: "settlements (cl_trace l) = rev (cl_settled l)"
    using assms by (auto simp: link_inv_def link_live_def link_dead_def split: if_splits)
  have "\<exists>x. mset (cl_settled l @ x) = mset [0..<cl_nextJob l]"
    using assms unfolding link_inv_def link_live_def link_dead_def by (cases "cl_destroyed l") (simp only: if_True if_False, blast)+
  then obtain x where "distinct (cl_settled l @ x)"
    by (metis distinct_upt mset_eq_imp_distinct_iff)
  then show "distinct (settlements (cl_trace l))"
    by (simp add: s)
  show "set (settlements (cl_trace l)) = {..<cl_nextJob l}" if "cl_destroyed l"
    using assms that dead_all_settled by (auto simp: link_inv_def s)
  show "set (settlements (cl_trace l)) = {..<cl_nextJob l}" if "cl_inflight l = []" "cl_queues l = []"
  proof (cases "cl_destroyed l")
    case False
    then have "mset (cl_settled l) = mset [0..<cl_nextJob l]"
      using assms that unfolding link_inv_def link_live_def by (simp del: mset_upt)
    then show ?thesis
      by (simp add: s mset_upt_set del: mset_upt)
  qed (use assms dead_all_settled in \<open>auto simp: link_inv_def s\<close>)
qed

text \<open>
  C30: Whatever is sent, flushed, finished or fails, a link writes each accepted payload at most once and the
  payloads of a stream in the order they were sent; it settles each at most once, and exactly once when the
  link is destroyed or has nothing left to send; and it never has more than a circuit window of data and the
  control reserve pending.
\<close>

theorem link_orders_and_settles:
  "let l = link_run inputs (CircuitLink_new multiplexed) in
     distinct (map sj_id (writtenJobs (cl_trace l)))
     \<and> sorted (map sj_id (filter (\<lambda>j. jobStream (cl_multiplexed l) j = s) (writtenJobs (cl_trace l))))
     \<and> distinct (settlements (cl_trace l))
     \<and> (if cl_destroyed l \<or> cl_inflight l = [] \<and> cl_queues l = [] then set (settlements (cl_trace l)) = {..<cl_nextJob l} else True)
     \<and> cl_pendingData l \<le> CIRCUIT_WINDOW \<and> cl_pendingControl l \<le> CONTROL_RESERVE"
proof -
  define l where "l = link_run inputs (CircuitLink_new multiplexed)"
  have inv: "link_inv l"
    unfolding l_def by (rule link_run_inv [OF link_new_inv])
  then have "cl_pendingData l \<le> CIRCUIT_WINDOW" "cl_pendingControl l \<le> CONTROL_RESERVE"
    by (auto simp: link_inv_def link_live_def link_dead_def split: if_splits)
  then show ?thesis
    unfolding Let_def l_def [symmetric] using inv_order [OF inv] inv_written_once [OF inv] inv_settled [OF inv] by auto
qed

section \<open>Bounded wait\<close>

text \<open>How many cells can still leave before the head of stream \<open>s\<close>, whatever arrives.\<close>

fun waitFor :: "nat \<Rightarrow> send_queue list \<Rightarrow> nat" where
  "waitFor s [] = 0"
| "waitFor s (q # qs) = (if sq_streamId q = s then 0 else turnsLeft q + waitFor s qs)"

lemma waitFor_append: "s \<in> sq_streamId ` set qs \<Longrightarrow> waitFor s (qs @ rs) = waitFor s qs"
  by (induction qs) auto

lemma waitFor_arrival: "s \<in> sq_streamId ` set qs \<Longrightarrow> waitFor s (appendJob t j qs) = waitFor s qs"
  by (induction qs) (auto simp: turnsLeft_def)

lemma turnsLeft_bound: "queue_ok m q \<Longrightarrow> 1 \<le> turnsLeft q \<and> turnsLeft q \<le> 4"
  by (auto simp: queue_ok_def turnsLeft_def CELL_BYTES_def)

lemma waitFor_bound: "list_all (queue_ok m) qs \<Longrightarrow> s \<in> sq_streamId ` set qs \<Longrightarrow> waitFor s qs \<le> 4 * (length qs - 1)"
proof (induction qs)
  case (Cons q qs)
  then show ?case
    using turnsLeft_bound [of m q] by (cases qs) auto
qed simp

lemma nextSend_waits:
  assumes "queues_ok m (cl_queues l)" "s \<in> sq_streamId ` set (cl_queues l)" "nextSend l = (j, l')" "jobStream m j \<noteq> s"
  shows "waitFor s (cl_queues l') < waitFor s (cl_queues l) \<and> s \<in> sq_streamId ` set (cl_queues l')"
proof -
  obtain q qs where q: "cl_queues l = q # qs"
    using assms(2) by (cases "cl_queues l") auto
  obtain k ks where k: "sq_jobs q = k # ks"
    using assms(1) q by (cases "sq_jobs q") (auto simp: queues_ok_Cons queue_ok_def)
  have ok: "queue_ok m q" "queues_ok m qs"
    using assms(1) q by (simp_all add: queues_ok_Cons)
  define d where "d = (if sq_deficit q = 0 then SEND_QUANTUM_BYTES else sq_deficit q) - CELL_BYTES"
  define q' where "q' = q\<lparr>sq_jobs := ks, sq_deficit := d\<rparr>"
  have "nextSend l = (k, l\<lparr>cl_queuedSends := cl_queuedSends l - 1,
      cl_queues := (if ks = [] then qs else if d = 0 \<and> qs \<noteq> [] then qs @ [q'] else q' # qs)\<rparr>)"
    by (simp add: nextSend_def q k Let_def d_def q'_def)
  then have out: "j = k" "cl_queues l' = (if ks = [] then qs else if d = 0 \<and> qs \<noteq> [] then qs @ [q'] else q' # qs)"
    using assms(3) by auto
  have other: "sq_streamId q \<noteq> s"
    using ok(1) k out(1) assms(4) by (auto simp: queue_ok_def)
  then have s: "s \<in> sq_streamId ` set qs"
    using assms(2) q by auto
  then have "qs \<noteq> []"
    by auto
  moreover have "d \<noteq> 0 \<Longrightarrow> Suc (turnsLeft q') = turnsLeft q"
    using ok(1) by (auto simp: queue_ok_def turnsLeft_def q'_def d_def SEND_QUANTUM_BYTES_def CELL_BYTES_def)
  ultimately show ?thesis
    using s other turnsLeft_bound [OF ok(1)] waitFor_append [OF s, of "[q']"] unfolding q out by (auto simp: q'_def)
qed

datatype link_turn = Pick | Arrive nat send_job

fun pickedIn :: "link_turn list \<Rightarrow> circuit_link \<Rightarrow> send_job list" where
  "pickedIn [] l = []"
| "pickedIn (Pick # ts) l = (case nextSend l of (j, l') \<Rightarrow> j # pickedIn ts l')"
| "pickedIn (Arrive s j # ts) l = pickedIn ts (l\<lparr>cl_queues := appendJob s j (cl_queues l)\<rparr>)"

lemma picked_in_time:
  "queues_ok m (cl_queues l) \<Longrightarrow> s \<in> sq_streamId ` set (cl_queues l) \<Longrightarrow> list_all (\<lambda>t. case t of Pick \<Rightarrow> True | Arrive i j \<Rightarrow> jobStream m j = i) ts \<Longrightarrow>
    waitFor s (cl_queues l) < length (filter ((=) Pick) ts) \<Longrightarrow> \<exists>j \<in> set (pickedIn ts l). jobStream m j = s"
proof (induction ts arbitrary: l)
  case (Cons t ts)
  show ?case
  proof (cases t)
    case Pick
    obtain j l' where j: "nextSend l = (j, l')"
      by fastforce
    have "cl_queues l \<noteq> []"
      using Cons.prems(2) by auto
    then have ok: "queues_ok m (cl_queues l')"
      using nextSend_picks(1) [OF Cons.prems(1) _ j] by simp
    show ?thesis
    proof (cases "jobStream m j = s")
      case False
      note waits = nextSend_waits [OF Cons.prems(1,2) j False]
      then show ?thesis
        using Cons.IH [OF ok, of] Cons.prems(3,4) Pick j by auto
    qed (use Pick j in simp)
  next
    case (Arrive i k)
    then have "queues_ok m (appendJob i k (cl_queues l))"
      using Cons.prems(1,3) by (auto intro: appendJob_ok)
    then show ?thesis
      using Cons.IH [of "l\<lparr>cl_queues := appendJob i k (cl_queues l)\<rparr>"] Cons.prems Arrive
      by (simp add: waitFor_arrival appendJob_streams)
  qed
qed simp

text \<open>
  C31: No stream of a link starves: in any reachable state, a stream with something queued is served among the
  next \<open>4 * (n - 1) + 1\<close> cells, where \<open>n\<close> is the number of streams with something queued now, however many
  payloads arrive meanwhile.
\<close>

theorem round_robin_bounded_wait:
  assumes "l = link_run inputs (CircuitLink_new multiplexed)" "s \<in> sq_streamId ` set (cl_queues l)"
    "list_all (\<lambda>t. case t of Pick \<Rightarrow> True | Arrive i j \<Rightarrow> jobStream (cl_multiplexed l) j = i) ts"
    "4 * (length (cl_queues l) - 1) < length (filter ((=) Pick) ts)"
  shows "\<exists>j \<in> set (pickedIn ts l). jobStream (cl_multiplexed l) j = s"
proof -
  have "link_inv l"
    unfolding assms(1) by (rule link_run_inv [OF link_new_inv])
  moreover have "cl_queues l \<noteq> []"
    using assms(2) by auto
  ultimately have ok: "queues_ok (cl_multiplexed l) (cl_queues l)"
    by (auto simp: link_inv_def link_live_def link_dead_def split: if_splits)
  then have "waitFor s (cl_queues l) \<le> 4 * (length (cl_queues l) - 1)"
    by (intro waitFor_bound [where m = "cl_multiplexed l", OF _ assms(2)]) (simp add: queues_ok_def list_all_iff)
  then show ?thesis
    using picked_in_time [OF ok assms(2,3)] assms(4) by simp
qed

definition sampleLink :: circuit_link where
  "sampleLink = link_run [Send (presenceBuf [0, 0, 0, 1, 1]), Send (presenceBuf [0, 0, 0, 2, 1])] (CircuitLink_new True)"

lemma sample_queues: "map sq_streamId (cl_queues sampleLink) = [1, 2]"
  by (simp add: sampleLink_def link_run_def link_send_def presenceBuf_def CircuitLink_new_def logical_sizes logical_flags CONTROL_RESERVE_def
      scheduleSends_def readU32_def be_nat_four Let_def)

theorem round_robin_bounded_wait_witness:
  "\<exists>j \<in> set (pickedIn [Pick, Pick, Pick, Pick, Pick] sampleLink). jobStream (cl_multiplexed sampleLink) j = 2"
proof (rule round_robin_bounded_wait [OF sampleLink_def])
  show "2 \<in> sq_streamId ` set (cl_queues sampleLink)"
    using arg_cong [OF sample_queues, of set] by simp
  have "length (cl_queues sampleLink) = 2"
    using arg_cong [OF sample_queues, of length] by simp
  then show "4 * (length (cl_queues sampleLink) - 1) < length (filter ((=) Pick) [Pick, Pick, Pick, Pick, Pick])"
    by simp
qed simp

end
