(* ===== verification/Storage_Routing.thy ===== *)
theory Storage_Routing
  imports Overlay_Service Compact_Encoding
begin

text \<open>
  The routing of storage requests (class \<open>StorageRouting\<close> of \<^verbatim>\<open>lib/private/overlay-storage-routing.js\<close>): which
  addresses are contacts, the reply of a serving node and its decoding, quarantine of dead endpoints, bootstrap
  samples and learning of requesters. The address codec, the hash, the test for an IP and the routing table are
  arguments; the clock is an argument of each call, and what the network answers is an input of a call of its own.
\<close>

section \<open>Contacts\<close>

definition MAX_CONTACTS :: nat where "MAX_CONTACTS = 256"
definition MAX_REFERRALS :: nat where "MAX_REFERRALS = 20"
definition MAX_LEARNING :: nat where "MAX_LEARNING = 4"
definition BOOTSTRAP_TTL_MS :: int where "BOOTSTRAP_TTL_MS = 5 * 60 * 1000"

record contact =
  ct_id :: bytes
  ct_host :: string
  ct_port :: nat

text \<open>A JavaScript address: a host, a port and, when it was observed, an id.\<close>

record storage_address =
  sa_host :: string
  sa_port :: jsval
  sa_id :: jsval

record storage_lib =
  so_isIP :: "string \<Rightarrow> nat"
  so_encode :: "address \<Rightarrow> bytes"
  so_decode :: "bytes \<Rightarrow> address option"
  so_hash :: "bytes \<Rightarrow> bytes"
  so_closest :: "bytes \<Rightarrow> nat \<Rightarrow> contact list \<Rightarrow> contact list"
  so_add :: "contact \<Rightarrow> contact list \<Rightarrow> contact list"

fun decimal :: "nat \<Rightarrow> string" where
  "decimal n = (if n < 10 then [char_of (48 + n)] else decimal (n div 10) @ [char_of (48 + n mod 10)])"

declare decimal.simps [simp del]

definition endpointKey :: "contact \<Rightarrow> string" where
  "endpointKey endpoint = ct_host endpoint @ '':'' @ decimal (ct_port endpoint)"

definition storageContact :: "storage_lib \<Rightarrow> string option \<Rightarrow> storage_address option \<Rightarrow> bool \<Rightarrow> crypto_failure + contact" where
  "storageContact L localHost address observed =
     (case address of
        None \<Rightarrow> Inl unavailable
      | Some a \<Rightarrow>
          (case sa_port a of
             JNum p \<Rightarrow>
               if so_isIP L (sa_host a) \<noteq> 4 \<or> p < 1 \<or> p > 65535 then Inl unavailable
               else (let encoded = so_encode L \<lparr>host = sa_host a, port = nat p\<rparr>
                 in if encoded ! 0 = 0 \<or> unat (encoded ! 0) \<ge> 224 then Inl unavailable
                    else if unat (encoded ! 0) = 127 \<and>
                        (case localHost of None \<Rightarrow> True | Some h \<Rightarrow> so_isIP L h \<noteq> 4 \<or> take 4 h \<noteq> ''127.'') then Inl unavailable
                    else if observed \<and> (\<not> isFixed (sa_id a) 32 \<or> bytesAt (sa_id a) \<noteq> so_hash L encoded) then Inl unavailable
                    else Inr \<lparr>ct_id = so_hash L encoded, ct_host = sa_host a, ct_port = nat p\<rparr>)
           | _ \<Rightarrow> Inl unavailable))"

definition plainAddress :: "address \<Rightarrow> storage_address" where
  "plainAddress a = \<lparr>sa_host = host a, sa_port = JNum (int (port a)), sa_id = Undefined\<rparr>"

section \<open>State\<close>

record storage_routing =
  sr_recordBytes :: nat
  sr_serving :: bool
  sr_table :: "contact list"
  sr_bootstrapHints :: "contact list"
  sr_bootstrapExpiresAt :: int
  sr_learning :: "string list"
  sr_learnedAt :: "(string \<times> int) list"
  sr_deadEndpoints :: "(string \<times> int) list"
  sr_started :: bool
  sr_stopped :: bool
  sr_closed :: bool
  sr_active :: bool

definition StorageRouting_new :: "nat \<Rightarrow> bool \<Rightarrow> storage_routing" where
  "StorageRouting_new recordBytes serving =
     \<lparr>sr_recordBytes = recordBytes, sr_serving = serving, sr_table = [], sr_bootstrapHints = [], sr_bootstrapExpiresAt = 0, sr_learning = [],
      sr_learnedAt = [], sr_deadEndpoints = [], sr_started = False, sr_stopped = False, sr_closed = False, sr_active = False\<rparr>"

text \<open>The node's own view: its id, its address as others see it, and its local address.\<close>

record own_node =
  on_id :: "bytes option"
  on_remote :: "storage_address option"
  on_local :: "string option"

definition serverAddress :: "storage_lib \<Rightarrow> own_node \<Rightarrow> storage_routing \<Rightarrow> contact option" where
  "serverAddress L n s =
     (case on_id n of
        None \<Rightarrow> None
      | Some i \<Rightarrow>
          if \<not> sr_serving s then None
          else (case storageContact L (on_local n) (on_remote n) False of Inl e \<Rightarrow> None | Inr c \<Rightarrow> if ct_id c = i then Some c else None))"

definition isDead :: "int \<Rightarrow> string \<Rightarrow> storage_routing \<Rightarrow> storage_routing \<times> bool" where
  "isDead now i s =
     (case map_of (sr_deadEndpoints s) i of
        None \<Rightarrow> (s, False)
      | Some expires \<Rightarrow>
          if expires = 0 then (s, False)
          else if now \<ge> expires then (s\<lparr>sr_deadEndpoints := AList.delete i (sr_deadEndpoints s)\<rparr>, False)
          else (s, True))"

definition retain :: "storage_lib \<Rightarrow> contact \<Rightarrow> storage_routing \<Rightarrow> storage_routing" where
  "retain L c s =
     (if sr_closed s \<or> sr_stopped s then s
      else if length (sr_table s) \<ge> MAX_CONTACTS \<and> ct_id c \<notin> ct_id ` set (sr_table s) then s
      else s\<lparr>sr_table := so_add L c (sr_table s)\<rparr>)"

section \<open>Replies\<close>

definition encodeContact :: "storage_lib \<Rightarrow> contact \<Rightarrow> bytes" where
  "encodeContact L c = so_encode L \<lparr>host = ct_host c, port = ct_port c\<rparr>"

definition storage_reply :: "storage_lib \<Rightarrow> own_node \<Rightarrow> storage_routing \<Rightarrow> bytes \<Rightarrow> bytes option \<Rightarrow> crypto_failure + bytes option" where
  "storage_reply L n s target wire =
     (if \<not> sr_serving s \<or> sr_closed s \<or> sr_stopped s \<or> serverAddress L n s = None then Inr None
      else (let contacts = so_closest L target MAX_REFERRALS (sr_table s); w = (case wire of None \<Rightarrow> [] | Some w \<Rightarrow> w)
        in if length w \<noteq> 0 \<and> length w \<noteq> sr_recordBytes s then Inl unavailable
           else Inr (Some ([1] @ be_bytes 2 (length w) @ [word_of_nat (length contacts)] @ w @ concat (map (encodeContact L) contacts)))))"

text \<open>What a request is answered with, and what \<open>_decode\<close> makes of it.\<close>

record request_reply =
  rq_error :: int
  rq_token :: jsval
  rq_from :: "storage_address option"
  rq_value :: jsval

record storage_answer =
  sn_from :: contact
  sn_token :: bytes
  sn_closerNodes :: "contact list"
  sn_value :: "bytes option"

fun decodeReferrals :: "storage_lib \<Rightarrow> string option \<Rightarrow> int \<Rightarrow> nat \<Rightarrow> bytes \<Rightarrow> storage_routing \<Rightarrow> storage_routing \<times> (crypto_failure + contact list)" where
  "decodeReferrals L localHost now 0 bs s = (s, Inr [])"
| "decodeReferrals L localHost now (Suc n) bs s =
     (case so_decode L (take 6 bs) of
        None \<Rightarrow> (s, Inl unavailable)
      | Some a \<Rightarrow>
          (case storageContact L localHost (Some (plainAddress a)) False of
             Inl e \<Rightarrow> (s, Inl unavailable)
           | Inr c \<Rightarrow>
               (let (s, dead) = isDead now (endpointKey c) s
                in case decodeReferrals L localHost now n (drop 6 bs) s of
                  (s, Inl e) \<Rightarrow> (s, Inl e)
                | (s, Inr cs) \<Rightarrow> (s, Inr (if dead then cs else c # cs)))))"

definition decodeBody :: "storage_lib \<Rightarrow> string option \<Rightarrow> int \<Rightarrow> bytes \<Rightarrow> storage_routing \<Rightarrow> storage_routing \<times> (crypto_failure + contact list \<times> bytes option)" where
  "decodeBody L localHost now bs s =
     (if length bs < 4 \<or> bs ! 0 \<noteq> 1 then (s, Inl unavailable)
      else (let len = be_nat (take 2 (drop 1 bs)); count = unat (bs ! 3)
        in if (len \<noteq> 0 \<and> len \<noteq> sr_recordBytes s) \<or> count > MAX_REFERRALS \<or> length bs \<noteq> 4 + len + count * 6 then (s, Inl unavailable)
           else (case decodeReferrals L localHost now count (drop (4 + len) bs) s of
             (s, Inl e) \<Rightarrow> (s, Inl e)
           | (s, Inr cs) \<Rightarrow> (s, Inr (cs, if len = 0 then None else Some (take len (drop 4 bs)))))))"

definition storage_decode :: "storage_lib \<Rightarrow> string option \<Rightarrow> int \<Rightarrow> request_reply option \<Rightarrow> contact \<Rightarrow> storage_routing \<Rightarrow>
    storage_routing \<times> (crypto_failure + storage_answer)" where
  "storage_decode L localHost now reply requested s =
     (case reply of
        None \<Rightarrow> (s, Inl unavailable)
      | Some r \<Rightarrow>
          if rq_error r \<noteq> 0 \<or> \<not> isFixed (rq_token r) 32 then (s, Inl unavailable)
          else (case storageContact L localHost (rq_from r) True of
            Inl e \<Rightarrow> (s, Inl e)
          | Inr from' \<Rightarrow>
              if endpointKey from' \<noteq> endpointKey requested then (s, Inl unavailable)
              else (case rq_value r of
                JBuf b \<Rightarrow>
                  (case decodeBody L localHost now (content b) s of
                     (s, Inl e) \<Rightarrow> (s, Inl e)
                   | (s, Inr (cs, v)) \<Rightarrow>
                       (retain L from' s, Inr \<lparr>sn_from = from', sn_token = bytesAt (rq_token r), sn_closerNodes = cs, sn_value = v\<rparr>))
              | _ \<Rightarrow> (s, Inl unavailable))))"

section \<open>Requests\<close>

text \<open>\<open>_request\<close> up to the attempt it makes: the contact it asks and whether it says that it serves.\<close>

definition storage_request :: "storage_lib \<Rightarrow> own_node \<Rightarrow> bool \<Rightarrow> nat \<Rightarrow> storage_address option \<Rightarrow> storage_routing \<Rightarrow> crypto_failure + contact \<times> bool" where
  "storage_request L n internal command to s =
     (if \<not> sr_active s \<or> sr_closed s \<or> sr_stopped s \<or> internal \<or> command \<noteq> 0 then Inl unavailable
      else bindE (storageContact L (on_local n) to False) (\<lambda>c. Inr (c, serverAddress L n s \<noteq> None)))"

text \<open>The failure of an attempt that was not cancelled.\<close>

definition attemptFailed :: "int \<Rightarrow> contact \<Rightarrow> storage_routing \<Rightarrow> storage_routing" where
  "attemptFailed now c s =
     (let ep = endpointKey c;
          hints = filter (\<lambda>h. endpointKey h \<noteq> ep) (sr_bootstrapHints s)
      in s\<lparr>sr_deadEndpoints := AList.update ep (now + 60000) (sr_deadEndpoints s), sr_table := filter (\<lambda>t. ct_id t \<noteq> ct_id c) (sr_table s),
           sr_bootstrapHints := hints, sr_bootstrapExpiresAt := (if length hints < 3 then 0 else sr_bootstrapExpiresAt s)\<rparr>)"

section \<open>Bootstrap\<close>

text \<open>
  The addresses of the lookup replies, in order: replies with too many peers and peers with too many relay
  addresses are skipped, as are addresses that are no contacts.
\<close>

definition contactsOf :: "storage_lib \<Rightarrow> string option \<Rightarrow> storage_address option list list list \<Rightarrow> contact list" where
  "contactsOf L localHost replies =
     List.map_filter (\<lambda>a. case storageContact L localHost a False of Inl e \<Rightarrow> None | Inr c \<Rightarrow> Some c)
       (concat (concat (map (filter (\<lambda>peer. length peer \<le> 3)) (filter (\<lambda>peers. length peers \<le> MAX_REFERRALS) replies))))"

definition offerContact :: "int \<Rightarrow> (bytes \<Rightarrow> bytes) \<Rightarrow> contact \<Rightarrow> contact list \<times> storage_routing \<Rightarrow> contact list \<times> storage_routing" where
  "offerContact now rank c st =
     (case st of (sample, s) \<Rightarrow>
        if endpointKey c \<in> endpointKey ` set sample then (sample, s)
        else (let (s, dead) = isDead now (endpointKey c) s
          in if dead then (sample, s) else (offerSample MAX_REFERRALS endpointKey (rank \<circ> ct_id) c sample, s)))"

text \<open>\<open>_bootstrap\<close>; \<open>replies\<close> is \<open>None\<close> when the lookup fails before it is complete.\<close>

definition storage_bootstrap :: "storage_lib \<Rightarrow> string option \<Rightarrow> int \<Rightarrow> (bytes \<Rightarrow> bytes) \<Rightarrow> storage_address option list list list option \<Rightarrow> nat \<Rightarrow>
    storage_routing \<Rightarrow> storage_routing \<times> contact list option" where
  "storage_bootstrap L localHost now rank replies limit s =
     (if now < sr_bootstrapExpiresAt s then (s, Some (take limit (sr_bootstrapHints s)))
      else (case replies of
        None \<Rightarrow> (s\<lparr>sr_bootstrapExpiresAt := 0\<rparr>, None)
      | Some rs \<Rightarrow>
          (let (sample, s) = fold (offerContact now rank) (contactsOf L localHost rs) ([], s);
               s = (if sample = [] then s\<lparr>sr_deadEndpoints := []\<rparr> else s)
           in (s\<lparr>sr_bootstrapHints := sample, sr_bootstrapExpiresAt := (if sample \<noteq> [] then now + BOOTSTRAP_TTL_MS else 0)\<rparr>, Some (take limit sample)))))"

section \<open>Learning requesters\<close>

definition learnRequester :: "storage_lib \<Rightarrow> string option \<Rightarrow> int \<Rightarrow> storage_address option \<Rightarrow> storage_routing \<Rightarrow> storage_routing \<times> contact option" where
  "learnRequester L localHost now from' s =
     (if \<not> sr_serving s \<or> sr_closed s \<or> sr_stopped s \<or> length (sr_learning s) \<ge> MAX_LEARNING then (s, None)
      else (case storageContact L localHost from' True of
        Inl e \<Rightarrow> (s, None)
      | Inr c \<Rightarrow>
          let i = endpointKey c in
          if ct_id c \<in> ct_id ` set (sr_table s) then (s, None)
          else if i \<in> set (sr_learning s) \<or> now - (case map_of (sr_learnedAt s) i of None \<Rightarrow> 0 | Some t \<Rightarrow> t) < 5000 then (s, None)
          else (let learnedAt = (if length (sr_learnedAt s) \<ge> MAX_CONTACTS then drop 1 (sr_learnedAt s) else sr_learnedAt s)
            in (s\<lparr>sr_learnedAt := AList.update i now learnedAt, sr_learning := sr_learning s @ [i]\<rparr>, Some c))))"

text \<open>The learning request is over; it was answered, or not.\<close>

definition learned :: "storage_lib \<Rightarrow> string option \<Rightarrow> int \<Rightarrow> contact \<Rightarrow> request_reply option \<Rightarrow> storage_routing \<Rightarrow> storage_routing" where
  "learned L localHost now c reply s =
     (let s = (case reply of None \<Rightarrow> s | Some r \<Rightarrow> fst (storage_decode L localHost now (Some r) c s))
      in s\<lparr>sr_learning := filter (\<lambda>i. i \<noteq> endpointKey c) (sr_learning s)\<rparr>)"

section \<open>Life cycle\<close>

definition storage_start :: "storage_routing \<Rightarrow> crypto_failure + storage_routing" where
  "storage_start s = (if sr_closed s then Inl unavailable else Inr (s\<lparr>sr_started := True, sr_stopped := False, sr_active := True\<rparr>))"

definition addressChanged :: "storage_routing \<Rightarrow> storage_routing" where
  "addressChanged s = s\<lparr>sr_bootstrapExpiresAt := 0\<rparr>"

definition storage_suspend :: "storage_routing \<Rightarrow> storage_routing" where
  "storage_suspend s = s\<lparr>sr_stopped := True, sr_bootstrapExpiresAt := 0, sr_active := False\<rparr>"

definition storage_resume :: "storage_routing \<Rightarrow> storage_routing" where
  "storage_resume s = (if sr_closed s then s else s\<lparr>sr_stopped := False, sr_active := True\<rparr>)"

definition storage_destroy :: "storage_routing \<Rightarrow> storage_routing" where
  "storage_destroy s = s\<lparr>sr_closed := True, sr_stopped := True, sr_active := False, sr_table := [], sr_bootstrapHints := [], sr_bootstrapExpiresAt := 0,
     sr_learning := [], sr_learnedAt := []\<rparr>"

end
