(* ===== verification/Storage_Properties.thy ===== *)
theory Storage_Properties
  imports Storage_Routing Message_Properties "HOL-Library.Multiset"
begin

text \<open>
  What storage routing relies on of its libraries, the round trip of a reply, and the bounds of everything a
  node keeps for other nodes.
\<close>

locale storage_laws =
  fixes L :: storage_lib
  assumes encode_length: "so_isIP L (host a) = 4 \<Longrightarrow> port a < 65536 \<Longrightarrow> length (so_encode L a) = 6"
    and decode_encode: "so_isIP L (host a) = 4 \<Longrightarrow> port a < 65536 \<Longrightarrow> so_decode L (so_encode L a) = Some a"
    and closest_members: "set (so_closest L target limit table) \<subseteq> set table"
    and closest_limit: "length (so_closest L target limit table) \<le> limit"
    and add_members: "set (so_add L c table) \<subseteq> insert c (set table)"
    and add_length: "length (so_add L c table) \<le> (if ct_id c \<in> ct_id ` set table then length table else Suc (length table))"

section \<open>Quarantine\<close>

lemma isDead_state: "fst (isDead now i s) = s\<lparr>sr_deadEndpoints := sr_deadEndpoints (fst (isDead now i s))\<rparr>"
  by (simp add: isDead_def split: option.splits)

lemma isDead_again: "snd (isDead now j (fst (isDead now i s))) = snd (isDead now j s)"
  by (auto simp: isDead_def delete_conv' split: option.splits if_splits)

definition onlyDead :: "storage_routing \<Rightarrow> storage_routing \<Rightarrow> bool" where
  "onlyDead s s' \<longleftrightarrow> (\<exists>d. s' = s\<lparr>sr_deadEndpoints := d\<rparr>)"

lemma onlyDead_refl: "onlyDead s s"
  unfolding onlyDead_def by (rule exI [of _ "sr_deadEndpoints s"]) simp

lemma onlyDead_trans: "onlyDead s t \<Longrightarrow> onlyDead t u \<Longrightarrow> onlyDead s u"
  by (auto simp: onlyDead_def)

lemma onlyDead_isDead: "onlyDead s (fst (isDead now i s))"
  using isDead_state [of now i s] unfolding onlyDead_def by blast

section \<open>A reply and its decoding\<close>

definition knownContact :: "storage_lib \<Rightarrow> string option \<Rightarrow> contact \<Rightarrow> bool" where
  "knownContact L localHost c \<longleftrightarrow> storageContact L localHost (Some (plainAddress \<lparr>host = ct_host c, port = ct_port c\<rparr>)) False = Inr c"

lemma knownContact_range: "knownContact L lh c \<Longrightarrow> so_isIP L (ct_host c) = 4 \<and> ct_port c < 65536"
  by (auto simp: knownContact_def storageContact_def plainAddress_def Let_def split: if_splits)

context storage_laws
begin

lemma encodeContact_bytes:
  assumes "knownContact L lh c"
  shows "length (encodeContact L c) = 6" "so_decode L (encodeContact L c) = Some \<lparr>host = ct_host c, port = ct_port c\<rparr>"
  using knownContact_range [OF assms] encode_length [of "\<lparr>host = ct_host c, port = ct_port c\<rparr>"] decode_encode [of "\<lparr>host = ct_host c, port = ct_port c\<rparr>"]
  by (simp_all add: encodeContact_def)

lemma referrals_length: "list_all (knownContact L lh) cs \<Longrightarrow> length (concat (map (encodeContact L) cs)) = length cs * 6"
  by (induction cs) (auto dest: encodeContact_bytes(1))

lemma referrals_decode:
  "list_all (knownContact L lh) cs \<Longrightarrow>
    \<exists>s'. decodeReferrals L lh now (length cs) (concat (map (encodeContact L) cs)) s
        = (s', Inr (filter (\<lambda>c. \<not> snd (isDead now (endpointKey c) s)) cs)) \<and> onlyDead s s'"
proof (induction cs arbitrary: s)
  case (Cons c cs)
  note c = encodeContact_bytes [of lh c]
  have known: "knownContact L lh c"
    using Cons.prems by simp
  obtain t dead where t: "isDead now (endpointKey c) s = (t, dead)"
    by fastforce
  have same: "snd (isDead now i t) = snd (isDead now i s)" for i
    using isDead_again [of now i "endpointKey c" s] t by simp
  obtain u where u: "decodeReferrals L lh now (length cs) (concat (map (encodeContact L) cs)) t
      = (u, Inr (filter (\<lambda>c. \<not> snd (isDead now (endpointKey c) t)) cs))" "onlyDead t u"
    using Cons.IH [of t] Cons.prems by auto
  have "onlyDead s t"
    using onlyDead_isDead [of s now "endpointKey c"] t by simp
  then have "onlyDead s u"
    using u(2) by (rule onlyDead_trans)
  then show ?case
    using c [OF known] known t u(1) by (simp add: knownContact_def same)
qed (simp add: onlyDead_refl)

lemma body_decodes:
  assumes "list_all (knownContact L lh) cs" "length cs \<le> MAX_REFERRALS" "length w = 0 \<or> length w = sr_recordBytes s" "length w < 65536"
  shows "\<exists>s'. decodeBody L lh now ([1] @ be_bytes 2 (length w) @ [word_of_nat (length cs)] @ w @ concat (map (encodeContact L) cs)) s
      = (s', Inr (filter (\<lambda>c. \<not> snd (isDead now (endpointKey c) s)) cs, if w = [] then None else Some w)) \<and> onlyDead s s'"
proof -
  define bs where "bs = [1] @ be_bytes 2 (length w) @ [word_of_nat (length cs)] @ w @ concat (map (encodeContact L) cs)"
  have two: "length (be_bytes 2 (length w)) = 2"
    by simp
  have "length cs < 256"
    using assms(2) by (simp add: MAX_REFERRALS_def)
  then have parts: "length bs = 4 + length w + length cs * 6" "bs ! 0 = 1" "take 2 (drop 1 bs) = be_bytes 2 (length w)" "unat (bs ! 3) = length cs"
    using referrals_length [OF assms(1)] two by (simp_all add: bs_def nth_append nth_Cons' unat_of_nat)
  define h where "h = [1] @ be_bytes 2 (length w) @ [word_of_nat (length cs)]"
  have "length h = 4" "bs = h @ w @ concat (map (encodeContact L) cs)"
    by (simp_all add: h_def bs_def)
  then have rest: "drop (4 + length w) bs = concat (map (encodeContact L) cs)" "take (length w) (drop 4 bs) = w"
    by simp_all
  have "be_nat (be_bytes 2 (length w)) = length w"
    using assms(4) by (simp add: be_nat_be_bytes)
  then show ?thesis
    unfolding bs_def [symmetric] using referrals_decode [OF assms(1), of now s] assms(2,3) parts rest by (auto simp: decodeBody_def Let_def)
qed

end

text \<open>
  C32: What a serving node replies, another node decodes to the same record, or to none when there is none, and
  to the referrals of the reply, in order, without the endpoints it holds for dead.
\<close>

theorem storage_reply_roundtrip:
  assumes "storage_laws L" "storage_reply L n s target wire = Inr (Some v)" "sr_recordBytes c = sr_recordBytes s" "sr_recordBytes s < 65536"
    "wire \<noteq> Some []" "list_all (knownContact L localHost) (sr_table s)" "storageContact L localHost (Some sender) True = Inr requested" "isFixed token 32"
  shows "\<exists>c'. storage_decode L localHost now (Some \<lparr>rq_error = 0, rq_token = token, rq_from = Some sender, rq_value = presenceBuf v\<rparr>) requested c
    = (c', Inr \<lparr>sn_from = requested, sn_token = bytesAt token,
         sn_closerNodes = filter (\<lambda>k. \<not> snd (isDead now (endpointKey k) c)) (so_closest L target MAX_REFERRALS (sr_table s)), sn_value = wire\<rparr>)"
proof -
  define cs where "cs = so_closest L target MAX_REFERRALS (sr_table s)"
  define w where "w = (case wire of None \<Rightarrow> [] | Some w \<Rightarrow> w)"
  have cs: "list_all (knownContact L localHost) cs" "length cs \<le> MAX_REFERRALS"
    using storage_laws.closest_members [OF assms(1), of target MAX_REFERRALS "sr_table s"] storage_laws.closest_limit [OF assms(1), of target MAX_REFERRALS "sr_table s"] assms(6)
    by (auto simp: cs_def list_all_iff)
  have v: "v = [1] @ be_bytes 2 (length w) @ [word_of_nat (length cs)] @ w @ concat (map (encodeContact L) cs)" and w: "length w = 0 \<or> length w = sr_recordBytes s"
    using assms(2) by (auto simp: storage_reply_def Let_def w_def cs_def split: if_splits)
  have wire: "wire = (if w = [] then None else Some w)"
    using assms(5) by (cases wire) (auto simp: w_def)
  obtain c' where "decodeBody L localHost now v c = (c', Inr (filter (\<lambda>k. \<not> snd (isDead now (endpointKey k) c)) cs, wire))"
    using storage_laws.body_decodes [OF assms(1) cs, of w c now] w assms(3,4) unfolding v wire by auto
  then show ?thesis
    using assms(7,8) by (simp add: storage_decode_def presenceBuf_def cs_def)
qed

section \<open>A concrete library\<close>

definition refHost :: "string \<Rightarrow> bool" where
  "refHost h \<longleftrightarrow> length (splitOn CHR ''.'' h) = 4
     \<and> joinWith CHR ''.'' (map (\<lambda>p. showNum 3 10 (unat (word_of_nat (readNum 10 p) :: 8 word))) (splitOn CHR ''.'' h)) = h"

definition refStorage :: storage_lib where
  "refStorage = \<lparr>so_isIP = (\<lambda>h. if refHost h then 4 else 0), so_encode = ipv4Wire, so_decode = (\<lambda>bs. map_option fst (ipv4Parse bs)),
     so_hash = (\<lambda>bs. take 32 (bs @ replicate 32 0)), so_closest = (\<lambda>_ limit table. take limit table),
     so_add = (\<lambda>c table. if ct_id c \<in> ct_id ` set table then table else table @ [c])\<rparr>"

interpretation refRouting: storage_laws refStorage
proof
  fix a :: address
  assume a: "so_isIP refStorage (host a) = 4" "port a < 65536"
  then have h: "refHost (host a)"
    by (simp add: refStorage_def split: if_splits)
  then show "length (so_encode refStorage a) = 6"
    by (simp add: refStorage_def ipv4Wire_def refHost_def)
  show "so_decode refStorage (so_encode refStorage a) = Some a"
    using h a(2) by (simp add: refStorage_def ipv4Wire_def ipv4Parse_def refHost_def comp_def le_nat_le_bytes)
next
  fix target limit and table :: "contact list"
  show "set (so_closest refStorage target limit table) \<subseteq> set table"
    by (auto simp: refStorage_def dest: in_set_takeD)
qed (auto simp: refStorage_def)

section \<open>Bounds\<close>

inductive storage_step :: "storage_lib \<Rightarrow> storage_routing \<Rightarrow> storage_routing \<Rightarrow> bool" for L where
  step_decode: "storage_step L s (fst (storage_decode L localHost now reply requested s))"
| step_failed: "storage_step L s (attemptFailed now c s)"
| step_bootstrap: "storage_step L s (fst (storage_bootstrap L localHost now rank replies limit s))"
| step_learn: "storage_step L s (fst (learnRequester L localHost now from' s))"
| step_learned: "storage_step L s (learned L localHost now c reply s)"
| step_start: "storage_start s = Inr s' \<Longrightarrow> storage_step L s s'"
| step_changed: "storage_step L s (addressChanged s)"
| step_suspend: "storage_step L s (storage_suspend s)"
| step_resume: "storage_step L s (storage_resume s)"
| step_destroy: "storage_step L s (storage_destroy s)"

definition storage_ok :: "storage_routing \<Rightarrow> bool" where
  "storage_ok s \<longleftrightarrow> length (sr_table s) \<le> MAX_CONTACTS \<and> length (sr_bootstrapHints s) \<le> MAX_REFERRALS \<and> distinct (map endpointKey (sr_bootstrapHints s))
     \<and> length (sr_learning s) \<le> MAX_LEARNING \<and> distinct (sr_learning s) \<and> length (sr_learnedAt s) \<le> MAX_CONTACTS"

lemma onlyDead_ok: "onlyDead s s' \<Longrightarrow> storage_ok s' \<longleftrightarrow> storage_ok s"
  by (auto simp: onlyDead_def storage_ok_def)

lemma decodeReferrals_dead: "decodeReferrals L lh now n bs s = (s', r) \<Longrightarrow> onlyDead s s'"
proof (induction n arbitrary: bs s s' r)
  case (Suc n)
  show ?case
  proof (cases "\<exists>a c. so_decode L (take 6 bs) = Some a \<and> storageContact L lh (Some (plainAddress a)) False = Inr c")
    case True
    then obtain a c where a: "so_decode L (take 6 bs) = Some a" "storageContact L lh (Some (plainAddress a)) False = Inr c"
      by blast
    obtain t dead where t: "isDead now (endpointKey c) s = (t, dead)"
      by fastforce
    obtain u q where u: "decodeReferrals L lh now n (drop 6 bs) t = (u, q)"
      by fastforce
    have "onlyDead s t"
      using onlyDead_isDead [of s now "endpointKey c"] t by simp
    moreover have "s' = u"
      using Suc.prems a t u by (simp split: sum.splits)
    ultimately show ?thesis
      using Suc.IH [OF u] onlyDead_trans by blast
  next
    case False
    then have "s' = s"
      using Suc.prems by (auto split: option.splits sum.splits)
    then show ?thesis
      by (simp add: onlyDead_refl)
  qed
qed (simp add: onlyDead_refl)

lemma decodeBody_dead:
  assumes "decodeBody L lh now bs s = (s', r)"
  shows "onlyDead s s'"
proof -
  obtain u q where u: "decodeReferrals L lh now (unat (bs ! 3)) (drop (4 + be_nat (take 2 (drop 1 bs))) bs) s = (u, q)"
    by fastforce
  obtain short wrong v where "decodeBody L lh now bs s = (if short then (s, Inl unavailable) else if wrong then (s, Inl unavailable)
      else (case (u, q) of (s, Inl e) \<Rightarrow> (s, Inl e) | (s, Inr cs) \<Rightarrow> (s, Inr (cs, v))))"
    using decodeBody_def [of L lh now bs s] unfolding Let_def u by (rule that)
  then have "s' = s \<or> s' = u"
    using assms by (simp split: if_splits sum.splits)
  then show ?thesis
    using decodeReferrals_dead [OF u] onlyDead_refl by blast
qed

lemma retain_ok:
  assumes "storage_laws L" "storage_ok s"
  shows "storage_ok (retain L c s)"
  using assms(2) storage_laws.add_length [OF assms(1), of c "sr_table s"] by (auto simp: retain_def storage_ok_def split: if_splits)

lemma decode_ok:
  assumes "storage_laws L" "storage_ok s"
  shows "storage_ok (fst (storage_decode L lh now reply requested s))"
proof -
  have "storage_ok s'" if "decodeBody L lh now bs s = (s', r)" for bs s' r
    using decodeBody_dead [OF that] assms(2) onlyDead_ok by blast
  then show ?thesis
    using assms(2) retain_ok [OF assms(1)]
    by (auto simp: storage_decode_def split: option.splits sum.splits jsval.splits prod.splits if_splits)
qed

lemma sortDescending_mset: "set (sortDescending rank xs) = set xs" "length (sortDescending rank xs) = length xs" "distinct (map f (sortDescending rank xs)) = distinct (map f xs)"
proof -
  show "set (sortDescending rank xs) = set xs" "length (sortDescending rank xs) = length xs"
    by (simp_all add: sortDescending_def)
  have "mset (map f (sortDescending rank xs)) = mset (map f xs)"
    by (simp add: sortDescending_def)
  then show "distinct (map f (sortDescending rank xs)) = distinct (map f xs)"
    by (rule mset_eq_imp_distinct_iff)
qed

lemma offerSample_bounds:
  assumes "length sample \<le> limit" "0 < limit" "distinct (map key sample)"
  shows "length (offerSample limit key rank x sample) \<le> limit" "distinct (map key (offerSample limit key rank x sample))"
  using assms by (auto simp: offerSample_def sortDescending_mset distinct_drop drop_map [symmetric] dest: in_set_dropD simp del: drop_map)

lemma offerContacts_ok:
  assumes "length sample \<le> MAX_REFERRALS" "distinct (map endpointKey sample)" "fold (offerContact now rank) cs (sample, s) = (sample', s')"
  shows "length sample' \<le> MAX_REFERRALS \<and> distinct (map endpointKey sample') \<and> onlyDead s s'"
  using assms
proof (induction cs arbitrary: sample s)
  case (Cons c cs)
  obtain t dead where t: "isDead now (endpointKey c) s = (t, dead)"
    by fastforce
  have st: "onlyDead s t"
    using onlyDead_isDead [of s now "endpointKey c"] t by simp
  define one where "one = offerSample MAX_REFERRALS endpointKey (rank \<circ> ct_id) c sample"
  have one: "length one \<le> MAX_REFERRALS" "distinct (map endpointKey one)"
    unfolding one_def by (rule offerSample_bounds; use Cons.prems in \<open>simp add: MAX_REFERRALS_def\<close>)+
  show ?case
    using Cons.IH [of sample s] Cons.IH [of sample t] Cons.IH [of one t] Cons.prems t st one onlyDead_trans [OF st]
    by (auto simp: offerContact_def one_def [symmetric] split: if_splits)
qed (simp add: onlyDead_refl)

lemma bootstrap_ok:
  assumes "storage_ok s"
  shows "storage_ok (fst (storage_bootstrap L lh now rank replies limit s))"
proof (cases "now < sr_bootstrapExpiresAt s \<or> replies = None")
  case True
  then show ?thesis
    using assms by (auto simp: storage_bootstrap_def storage_ok_def split: option.splits)
next
  case False
  then obtain rs where rs: "replies = Some rs"
    by blast
  obtain sample t where t: "fold (offerContact now rank) (contactsOf L lh rs) ([], s) = (sample, t)"
    by fastforce
  have ok: "length sample \<le> MAX_REFERRALS" "distinct (map endpointKey sample)" "onlyDead s t"
    using offerContacts_ok [OF _ _ t] by simp_all
  have "storage_ok t"
    using assms onlyDead_ok [OF ok(3)] by simp
  then show ?thesis
    using False rs t ok by (auto simp: storage_bootstrap_def storage_ok_def Let_def)
qed

lemma length_update_bound: "length (AList.update k v xs) \<le> Suc (length xs)"
  by (induction xs) auto

lemma learn_ok:
  assumes "storage_ok s"
  shows "storage_ok (fst (learnRequester L lh now from' s))"
proof (cases "storageContact L lh from' True")
  case (Inr c)
  define recent where "recent = (if length (sr_learnedAt s) \<ge> MAX_CONTACTS then drop 1 (sr_learnedAt s) else sr_learnedAt s)"
  have "length (AList.update (endpointKey c) now recent) \<le> MAX_CONTACTS"
    using length_update_bound [of "endpointKey c" now recent] assms by (auto simp: recent_def storage_ok_def MAX_CONTACTS_def)
  then show ?thesis
    using assms Inr by (auto simp: learnRequester_def storage_ok_def Let_def recent_def [symmetric])
qed (use assms in \<open>simp add: learnRequester_def\<close>)

lemma length_filter_bound: "length xs \<le> n \<Longrightarrow> length (filter P xs) \<le> n"
  by (rule order_trans [OF length_filter_le])

lemma learned_ok:
  assumes "storage_laws L" "storage_ok s"
  shows "storage_ok (learned L lh now c reply s)"
proof -
  have "storage_ok (t\<lparr>sr_learning := filter P (sr_learning t)\<rparr>)" if "storage_ok t" for t P
    using that by (auto simp: storage_ok_def length_filter_bound)
  then show ?thesis
    using assms decode_ok [OF assms] by (auto simp: learned_def Let_def split: option.splits)
qed

lemma storage_step_ok:
  assumes "storage_step L s s'" "storage_laws L" "storage_ok s"
  shows "storage_ok s'"
  using assms(1)
proof cases
  case (step_failed now c)
  then show ?thesis
    using assms(3) by (auto simp: attemptFailed_def storage_ok_def Let_def distinct_map_filter length_filter_bound)
next
  case step_start
  then show ?thesis
    using assms(3) by (auto simp: storage_start_def storage_ok_def split: if_splits)
qed (use assms(2,3) in \<open>simp_all add: decode_ok bootstrap_ok learn_ok learned_ok\<close>,
     simp_all add: storage_ok_def addressChanged_def storage_suspend_def storage_resume_def storage_destroy_def MAX_CONTACTS_def)

text \<open>
  C33: Whatever other nodes send and however requests end, a node keeps at most 256 contacts, 20 bootstrap hints
  for distinct endpoints and the times of 256 learned requesters, and learns from at most 4 at a time.
\<close>

theorem storage_tables_bounded:
  assumes "storage_laws L" "(storage_step L)\<^sup>*\<^sup>* (StorageRouting_new recordBytes serving) s"
  shows "length (sr_table s) \<le> MAX_CONTACTS \<and> length (sr_bootstrapHints s) \<le> MAX_REFERRALS \<and> distinct (map endpointKey (sr_bootstrapHints s))
    \<and> length (sr_learning s) \<le> MAX_LEARNING \<and> distinct (sr_learning s) \<and> length (sr_learnedAt s) \<le> MAX_CONTACTS"
proof -
  have "storage_ok s"
    using assms(2)
  proof (induction rule: rtranclp_induct)
    case (step t u)
    then show ?case
      using storage_step_ok [OF _ assms(1)] by blast
  qed (simp add: storage_ok_def StorageRouting_new_def)
  then show ?thesis
    by (simp add: storage_ok_def)
qed

section \<open>A sample\<close>

definition sampleNode :: own_node where
  "sampleNode = \<lparr>on_id = Some (take 32 (ipv4Wire \<lparr>host = ''1.2.3.4'', port = 5\<rparr> @ replicate 32 0)),
     on_remote = Some (plainAddress \<lparr>host = ''1.2.3.4'', port = 5\<rparr>), on_local = None\<rparr>"

definition sampleContact :: contact where
  "sampleContact = \<lparr>ct_id = take 32 (ipv4Wire \<lparr>host = ''1.2.3.4'', port = 5\<rparr> @ replicate 32 0), ct_host = ''1.2.3.4'', ct_port = 5\<rparr>"

definition sampleServer :: storage_routing where
  "sampleServer = (StorageRouting_new 2 True)\<lparr>sr_table := [sampleContact], sr_active := True\<rparr>"

lemma sample_host: "refHost ''1.2.3.4''"
  by (simp add: refHost_def address_eval)

lemma sample_wire: "ipv4Wire \<lparr>host = ''1.2.3.4'', port = 5\<rparr> = [1, 2, 3, 4, 5, 0]"
  by (simp add: refHost_def address_eval)

lemmas sample_defs = sampleNode_def sampleContact_def sampleServer_def StorageRouting_new_def plainAddress_def refStorage_def sample_wire sample_host

lemma sample_known: "knownContact refStorage None sampleContact"
  by (simp add: knownContact_def storageContact_def sample_defs)

lemma sample_replies: "storage_reply refStorage sampleNode sampleServer [] (Some [7, 8]) = Inr (Some [1, 0, 2, 1, 7, 8, 1, 2, 3, 4, 5, 0])"
  by (simp add: storage_reply_def serverAddress_def storageContact_def encodeContact_def sample_defs be_bytes_numeral MAX_REFERRALS_def)

definition sampleSender :: storage_address where
  "sampleSender = (plainAddress \<lparr>host = ''1.2.3.4'', port = 5\<rparr>)\<lparr>sa_id := presenceBuf (ct_id sampleContact)\<rparr>"

lemma sample_sender: "storageContact refStorage None (Some sampleSender) True = Inr sampleContact"
  by (simp add: storageContact_def sampleSender_def sample_defs presenceBuf_def isFixed_def)

theorem storage_reply_roundtrip_witness:
  "\<exists>c' closer. storage_decode refStorage None 0 (Some \<lparr>rq_error = 0, rq_token = presenceBuf (replicate 32 9), rq_from = Some sampleSender,
      rq_value = presenceBuf [1, 0, 2, 1, 7, 8, 1, 2, 3, 4, 5, 0]\<rparr>) sampleContact sampleServer
    = (c', Inr \<lparr>sn_from = sampleContact, sn_token = replicate 32 9, sn_closerNodes = closer, sn_value = Some [7, 8]\<rparr>)"
proof -
  have "list_all (knownContact refStorage None) (sr_table sampleServer)" "isFixed (presenceBuf (replicate 32 9)) 32" "sr_recordBytes sampleServer < 65536"
    using sample_known by (simp_all add: sampleServer_def StorageRouting_new_def isFixed_def presenceBuf_def)
  from storage_reply_roundtrip [OF refRouting.storage_laws_axioms sample_replies refl this(3) _ this(1) sample_sender this(2), of 0]
  show ?thesis
    by (auto simp: presenceBuf_def)
qed

theorem storage_tables_bounded_witness:
  "\<exists>s. (storage_step refStorage)\<^sup>*\<^sup>* (StorageRouting_new 2 True) s \<and> sr_active s \<and> length (sr_table s) \<le> MAX_CONTACTS"
proof -
  let ?s = "(StorageRouting_new 2 True)\<lparr>sr_started := True, sr_stopped := False, sr_active := True\<rparr>"
  have "storage_step refStorage (StorageRouting_new 2 True) ?s"
    by (rule step_start) (simp add: storage_start_def StorageRouting_new_def)
  then have reach: "(storage_step refStorage)\<^sup>*\<^sup>* (StorageRouting_new 2 True) ?s" ..
  then show ?thesis
    using storage_tables_bounded [OF refRouting.storage_laws_axioms reach] by (intro exI [of _ ?s]) simp
qed

end
