(* ===== verification/Raw_Stream_Set.thy ===== *)
theory Raw_Stream_Set
  imports Interfaces "HOL-Library.Word" "HOL-Library.AList"
begin

unbundle bit_operations_syntax

text \<open>
  The set of raw streams of a node (\<^verbatim>\<open>lib/raw-stream-set.js\<close>). Streams are filed under the low bits of their
  32-bit id, because the native library finds them that way; \<open>_prefix\<close> is the mask of these bits. Numbers that
  \<open>Math.random\<close> yields are an argument, and so is whether the native library creates the stream.
\<close>

section \<open>Definitions\<close>

record raw_stream_set =
  rw_prefix :: nat
  rw_streams :: "(nat \<times> 32 word) list"

definition RawStreamSet_new :: raw_stream_set where
  "RawStreamSet_new = \<lparr>rw_prefix = 16 - 1, rw_streams = []\<rparr>"

definition lowBits :: "32 word \<Rightarrow> nat \<Rightarrow> nat" where
  "lowBits i prefix = unat (i AND word_of_nat prefix)"

definition rw_size :: "raw_stream_set \<Rightarrow> nat" where
  "rw_size s = length (rw_streams s)"

definition isTaken :: "raw_stream_set \<Rightarrow> 32 word \<Rightarrow> bool" where
  "isTaken s i \<longleftrightarrow> map_of (rw_streams s) (lowBits i (rw_prefix s)) \<noteq> None"

text \<open>The first of the random ids that is free; the loop goes on while there is none.\<close>

fun rollId :: "raw_stream_set \<Rightarrow> 32 word list \<Rightarrow> 32 word option" where
  "rollId s [] = None"
| "rollId s (i # is) = (if isTaken s i then rollId s is else Some i)"

definition growPrefix :: "raw_stream_set \<Rightarrow> raw_stream_set" where
  "growPrefix s =
     (if 2 * rw_size s \<ge> rw_prefix s then
        (let prefix = 2 * rw_prefix s + 1
         in \<lparr>rw_prefix = prefix, rw_streams = fold (\<lambda>(_, i) m. AList.update (lowBits i prefix) i m) (rw_streams s) []\<rparr>)
      else s)"

definition rw_add :: "32 word list \<Rightarrow> bool \<Rightarrow> raw_stream_set \<Rightarrow> raw_stream_set \<times> 32 word option" where
  "rw_add rolls created s =
     (case rollId s rolls of
        None \<Rightarrow> (s, None)
      | Some i \<Rightarrow>
          (let s = growPrefix s
           in if created then (s\<lparr>rw_streams := AList.update (lowBits i (rw_prefix s)) i (rw_streams s)\<rparr>, Some i) else (s, None)))"

definition rw_onclose :: "32 word \<Rightarrow> raw_stream_set \<Rightarrow> raw_stream_set" where
  "rw_onclose i s = s\<lparr>rw_streams := AList.delete (lowBits i (rw_prefix s)) (rw_streams s)\<rparr>"

definition rw_iterator :: "raw_stream_set \<Rightarrow> 32 word list" where
  "rw_iterator s = map snd (rw_streams s)"

text \<open>\<open>clear\<close> destroys every stream and waits until all are closed.\<close>

definition rw_clear :: "raw_stream_set \<Rightarrow> raw_stream_set" where
  "rw_clear s = fold rw_onclose (rw_iterator s) s"

section \<open>Low bits\<close>

definition rw_inv :: "raw_stream_set \<Rightarrow> bool" where
  "rw_inv s \<longleftrightarrow> (\<exists>n \<ge> 4. rw_prefix s = 2 ^ n - 1) \<and> 2 * rw_size s \<le> Suc (rw_prefix s)
     \<and> distinct (map fst (rw_streams s)) \<and> (\<forall>(k, i) \<in> set (rw_streams s). k = lowBits i (rw_prefix s))"

lemma lowBits_mask: "lowBits i (2 ^ n - 1) = unat (take_bit n i)"
proof -
  have "word_of_nat (2 ^ n - 1) = (mask n :: 32 word)"
    by (simp add: mask_eq_exp_minus_1 of_nat_diff)
  then show ?thesis
    by (simp add: lowBits_def take_bit_eq_mask)
qed

lemma double_mask: "2 * (2 ^ n - 1) + 1 = (2 ^ Suc n - 1 :: nat)"
  using one_le_power [of "2::nat" n] by (simp only: power_Suc) linarith

lemma lowBits_refine:
  assumes "lowBits i (2 ^ Suc n - 1) = lowBits j (2 ^ Suc n - 1)"
  shows "lowBits i (2 ^ n - 1) = lowBits j (2 ^ n - 1)"
proof -
  have "take_bit (Suc n) i = take_bit (Suc n) j"
    using assms unfolding lowBits_mask by (rule word_unat_eq_iff [THEN iffD2])
  then have "take_bit n (take_bit (Suc n) i) = take_bit n (take_bit (Suc n) j)"
    by simp
  then show ?thesis
    by (simp only: lowBits_mask take_bit_take_bit min_def) simp
qed

lemma update_fresh: "k \<notin> fst ` set m \<Longrightarrow> AList.update k v m = m @ [(k, v)]"
  by (induction m) auto

lemma fold_update_fresh:
  "distinct (map (f \<circ> snd) xs) \<Longrightarrow> (f \<circ> snd) ` set xs \<inter> fst ` set m = {} \<Longrightarrow>
   fold (\<lambda>(_, i) m. AList.update (f i) i m) xs m = m @ map (\<lambda>(_, i). (f i, i)) xs"
  by (induction xs arbitrary: m) (auto simp: update_fresh split_beta)

section \<open>Every operation keeps the set exact\<close>

lemma rw_keys: "rw_inv s \<Longrightarrow> map fst (rw_streams s) = map (\<lambda>x. lowBits (snd x) (rw_prefix s)) (rw_streams s)"
  by (auto simp: rw_inv_def)

lemma distinct_low: "rw_inv s \<Longrightarrow> distinct (map (\<lambda>x. lowBits (snd x) (rw_prefix s)) (rw_streams s))"
  unfolding rw_keys [symmetric] by (simp add: rw_inv_def)

lemma taken_iff: "rw_inv s \<Longrightarrow> isTaken s i \<longleftrightarrow> lowBits i (rw_prefix s) \<in> (\<lambda>j. lowBits j (rw_prefix s)) ` set (rw_iterator s)"
  using arg_cong [OF rw_keys, of s set]
  by (simp only: isTaken_def map_of_eq_None_iff not_not) (simp add: rw_iterator_def image_image)

lemma distinct_map_finer: "distinct (map f xs) \<Longrightarrow> (\<And>x y. g x = g y \<Longrightarrow> f x = f y) \<Longrightarrow> distinct (map g xs)"
  unfolding distinct_map inj_on_def by blast

lemma distinct_iterator: "rw_inv s \<Longrightarrow> distinct (rw_iterator s)"
  unfolding rw_iterator_def
  by (rule distinct_map_finer [OF distinct_low]) auto

lemma grow_inv:
  assumes "rw_inv s"
  shows "rw_inv (growPrefix s)" "rw_iterator (growPrefix s) = rw_iterator s" "2 * rw_size (growPrefix s) < rw_prefix (growPrefix s)"
    "\<not> isTaken s i \<Longrightarrow> \<not> isTaken (growPrefix s) i"
proof -
  obtain n where n: "n \<ge> 4" "rw_prefix s = 2 ^ n - 1"
    using assms by (auto simp: rw_inv_def)
  have p': "2 * rw_prefix s + 1 = 2 ^ Suc n - 1"
    using double_mask [of n] by (simp only: n)
  have n16: "16 \<le> (2::nat) ^ n"
    using power_increasing [OF n(1), of "2::nat"] by simp
  have fine: "lowBits i (rw_prefix s) = lowBits j (rw_prefix s)" if "lowBits i (2 * rw_prefix s + 1) = lowBits j (2 * rw_prefix s + 1)" for i j
    using lowBits_refine [of i n j] that unfolding p' unfolding n(2) by blast
  have d: "distinct (map ((\<lambda>i. lowBits i (2 * rw_prefix s + 1)) \<circ> snd) (rw_streams s))"
    by (rule distinct_map_finer [OF distinct_low [OF assms]]) (simp only: comp_def, erule fine)
  show 1: "rw_iterator (growPrefix s) = rw_iterator s"
    using fold_update_fresh [OF d, of "[]"] by (simp add: growPrefix_def rw_iterator_def split_beta Let_def)
  show 2: "2 * rw_size (growPrefix s) < rw_prefix (growPrefix s)"
    using assms n16 n(2) fold_update_fresh [OF d, of "[]"] by (auto simp: growPrefix_def Let_def rw_size_def rw_inv_def split: if_splits)
  show 3: "rw_inv (growPrefix s)"
  proof (cases "2 * rw_size s \<ge> rw_prefix s")
    case True
    have p: "rw_prefix (growPrefix s) = 2 * rw_prefix s + 1"
      using True by (simp add: growPrefix_def Let_def)
    have streams: "rw_streams (growPrefix s) = map (\<lambda>x. (lowBits (snd x) (rw_prefix (growPrefix s)), snd x)) (rw_streams s)"
      using True fold_update_fresh [OF d, of "[]"] by (simp add: growPrefix_def Let_def split_beta)
    have "\<exists>n \<ge> 4. rw_prefix (growPrefix s) = 2 ^ n - 1"
      unfolding p p' using n(1) by (intro exI [of _ "Suc n"]) simp
    moreover have "distinct (map fst (rw_streams (growPrefix s)))"
      using d unfolding streams p by (simp add: comp_def)
    moreover have "\<forall>(k, i) \<in> set (rw_streams (growPrefix s)). k = lowBits i (rw_prefix (growPrefix s))"
      unfolding streams by auto
    ultimately show ?thesis
      using 2 unfolding rw_inv_def by simp
  qed (use assms in \<open>simp add: growPrefix_def\<close>)
  show "\<not> isTaken (growPrefix s) i" if "\<not> isTaken s i"
  proof (cases "2 * rw_size s \<ge> rw_prefix s")
    case True
    then have p: "rw_prefix (growPrefix s) = 2 * rw_prefix s + 1"
      by (simp add: growPrefix_def)
    show ?thesis
      using that unfolding taken_iff [OF 3] taken_iff [OF assms] 1 p image_iff by (blast dest: fine)
  qed (use that in \<open>simp add: growPrefix_def\<close>)
qed

lemma add_inv:
  assumes "rw_inv s"
  shows "rw_inv (fst (rw_add rolls created s))"
    "rw_iterator (fst (rw_add rolls created s)) = rw_iterator s @ (case snd (rw_add rolls created s) of None \<Rightarrow> [] | Some i \<Rightarrow> [i])"
proof -
  have roll: "\<not> isTaken s i" if "rollId s rolls = Some i" for i
    using that by (induction rolls) (auto split: if_splits)
  show "rw_inv (fst (rw_add rolls created s))"
    "rw_iterator (fst (rw_add rolls created s)) = rw_iterator s @ (case snd (rw_add rolls created s) of None \<Rightarrow> [] | Some i \<Rightarrow> [i])"
    using assms grow_inv [OF assms] roll
    by (auto simp: rw_add_def Let_def isTaken_def map_of_eq_None_iff update_fresh rw_inv_def rw_size_def rw_iterator_def split: option.splits)
qed

lemma close_inv:
  assumes "rw_inv s" "i \<in> set (rw_iterator s)"
  shows "rw_inv (rw_onclose i s)" "rw_iterator (rw_onclose i s) = removeAll i (rw_iterator s)"
proof -
  have one: "k = lowBits i (rw_prefix s) \<longleftrightarrow> j = i" if "(k, j) \<in> set (rw_streams s)" for k j
  proof -
    obtain k' where k': "(k', i) \<in> set (rw_streams s)"
      using assms(2) by (auto simp: rw_iterator_def)
    have "k = lowBits j (rw_prefix s)" "k' = lowBits i (rw_prefix s)"
      using that k' assms(1) by (auto simp: rw_inv_def)
    then show ?thesis
      using inj_onD [OF distinct_map [THEN iffD1, OF distinct_low [OF assms(1)], THEN conjunct2] _ that k'] by auto
  qed
  have del: "AList.delete (lowBits i (rw_prefix s)) (rw_streams s) = filter (\<lambda>x. snd x \<noteq> i) (rw_streams s)"
    unfolding AList.delete_eq
  proof (rule filter_cong)
    fix x assume "x \<in> set (rw_streams s)"
    then show "(case x of (k, _) \<Rightarrow> lowBits i (rw_prefix s) \<noteq> k) \<longleftrightarrow> snd x \<noteq> i"
      using one [of "fst x" "snd x"] by (cases x) auto
  qed simp
  show "rw_iterator (rw_onclose i s) = removeAll i (rw_iterator s)"
    unfolding rw_iterator_def rw_onclose_def by (simp add: del removeAll_filter_not_eq filter_map comp_def) (metis (no_types, lifting))
  have "length (filter (\<lambda>x. snd x \<noteq> i) (rw_streams s)) \<le> length (rw_streams s)"
    by (rule length_filter_le)
  then have "2 * length (filter (\<lambda>x. snd x \<noteq> i) (rw_streams s)) \<le> Suc (rw_prefix s)"
    using assms(1) unfolding rw_inv_def rw_size_def by linarith
  then show "rw_inv (rw_onclose i s)"
    using assms(1) unfolding rw_inv_def rw_onclose_def rw_size_def by (simp add: del distinct_map_filter)
qed

lemma clear_empty:
  assumes "rw_inv s"
  shows "rw_iterator (rw_clear s) = []"
proof -
  have "rw_iterator (fold rw_onclose is t) = filter (\<lambda>j. j \<notin> set is) (rw_iterator t)" if "rw_inv t" "set is \<subseteq> set (rw_iterator t)" "distinct is" for "is" t
    using that
  proof (induction "is" arbitrary: t)
    case (Cons i "is")
    then show ?case
      using close_inv [of t i] by (subst fold_simps, subst Cons.IH) (auto simp: removeAll_filter_not_eq intro!: filter_cong)
  qed simp
  then show ?thesis
    using assms distinct_iterator by (simp add: rw_clear_def)
qed

datatype rw_event = RwAdd "32 word list" bool | RwClosed "32 word"

text \<open>A stream closes once, so only a stream of the set does.\<close>

fun rw_step :: "rw_event \<Rightarrow> raw_stream_set \<Rightarrow> raw_stream_set" where
  "rw_step (RwAdd rolls created) s = fst (rw_add rolls created s)"
| "rw_step (RwClosed i) s = (if i \<in> set (rw_iterator s) then rw_onclose i s else s)"

interpretation rawset: op_system rw_step rw_inv
proof
  show "rw_inv s \<Longrightarrow> rw_inv (rw_step e s)" for s e
    by (cases e) (simp_all add: add_inv close_inv)
qed

lemma rw_run_inv: "rw_inv (fold rw_step events RawStreamSet_new)"
  by (rule rawset.run_inv) (auto simp: RawStreamSet_new_def rw_inv_def rw_size_def intro: exI [of _ 4])

section \<open>Free ids\<close>

lemma card_lowBits:
  assumes "n \<le> 32"
  shows "card {i :: 32 word. lowBits i (2 ^ n - 1) = k} \<le> 2 ^ (32 - n)"
proof -
  let ?A = "{i :: 32 word. lowBits i (2 ^ n - 1) = k}"
  have low: "lowBits i (2 ^ n - 1) = unat i mod 2 ^ n" for i
    by (simp only: lowBits_mask unsigned_take_bit_eq) (simp only: take_bit_eq_mod)
  have "inj_on (\<lambda>i. unat i div 2 ^ n) ?A"
  proof (rule inj_onI)
    fix i j assume "i \<in> ?A" "j \<in> ?A" "unat i div 2 ^ n = unat j div 2 ^ n"
    then have "unat i = unat j"
      using div_mult_mod_eq [of "unat i" "2 ^ n"] div_mult_mod_eq [of "unat j" "2 ^ n"] unfolding mem_Collect_eq low by simp
    then show "i = j"
      by (simp add: word_unat_eq_iff)
  qed
  moreover have "(\<lambda>i. unat i div 2 ^ n) ` ?A \<subseteq> {..< 2 ^ (32 - n)}"
  proof safe
    fix i :: "32 word"
    have "unat i < 2 ^ (32 - n) * 2 ^ n"
      using unsigned_less [of i] assms by (simp flip: power_add)
    then show "unat i div 2 ^ n < 2 ^ (32 - n)"
      by (simp add: less_mult_imp_div_less)
  qed
  ultimately show ?thesis
    using card_inj_on_le [of "\<lambda>i. unat i div 2 ^ n" ?A "{..< 2 ^ (32 - n)}"] by simp
qed

lemma half_free:
  assumes "rw_inv s" "rw_prefix s < 2 ^ 32"
  shows "2 * card {i. isTaken s i} \<le> 2 ^ 32"
proof -
  obtain n where n: "n \<ge> 4" "rw_prefix s = 2 ^ n - 1"
    using assms(1) by (auto simp: rw_inv_def)
  have "n \<le> 32"
  proof (rule ccontr)
    assume "\<not> n \<le> 32"
    then have "(2::nat) ^ 33 \<le> 2 ^ n"
      by (intro power_increasing) auto
    then show False
      using assms(2) n(2) by simp
  qed
  have "{i. isTaken s i} \<subseteq> (\<Union>k \<in> fst ` set (rw_streams s). {i. lowBits i (2 ^ n - 1) = k})"
    by (auto simp: isTaken_def n map_of_eq_None_iff simp del: not_None_eq)
  then have "card {i. isTaken s i} \<le> card (\<Union>k \<in> fst ` set (rw_streams s). {i. lowBits i (2 ^ n - 1) = k})"
    by (intro card_mono) auto
  also have "\<dots> \<le> (\<Sum>k \<in> fst ` set (rw_streams s). card {i. lowBits i (2 ^ n - 1) = k})"
    by (rule card_UN_le) simp
  also have "\<dots> \<le> (\<Sum>k \<in> fst ` set (rw_streams s). 2 ^ (32 - n))"
    by (rule sum_mono) (rule card_lowBits [OF \<open>n \<le> 32\<close>])
  also have "\<dots> = rw_size s * 2 ^ (32 - n)"
    using assms(1) distinct_card [of "map fst (rw_streams s)"] by (simp add: rw_inv_def rw_size_def)
  finally have "2 * card {i. isTaken s i} \<le> (2 * rw_size s) * 2 ^ (32 - n)"
    by simp
  also have "\<dots> \<le> 2 ^ n * 2 ^ (32 - n)"
    using assms(1) n(2) by (intro mult_le_mono1) (auto simp: rw_inv_def)
  also have "\<dots> = 2 ^ 32"
    using \<open>n \<le> 32\<close> by (simp flip: power_add)
  finally show ?thesis .
qed

section \<open>The property\<close>

text \<open>
  C34: The set of raw streams is exact. After any adds and closes, an id is found under its low bits exactly when
  its stream is in the set; adding appends the new stream, whose low bits no other has, and closing removes
  exactly the closed one, also across the growth of the mask; clearing leaves nothing; and at least half of all
  ids are free, so that a random roll succeeds with probability one half.
\<close>

theorem raw_streams_exact:
  fixes s :: raw_stream_set
  assumes "s = fold rw_step events RawStreamSet_new"
  shows "(map_of (rw_streams s) (lowBits i (rw_prefix s)) = Some i \<longleftrightarrow> i \<in> set (rw_iterator s))
    \<and> distinct (rw_iterator s)
    \<and> rw_iterator (fst (rw_add rolls created s)) = rw_iterator s @ (case snd (rw_add rolls created s) of None \<Rightarrow> [] | Some j \<Rightarrow> [j])
    \<and> (i \<in> set (rw_iterator s) \<longrightarrow> rw_iterator (rw_onclose i s) = removeAll i (rw_iterator s))
    \<and> rw_iterator (rw_clear s) = []
    \<and> (rw_prefix s < 2 ^ 32 \<longrightarrow> 2 * card {i. isTaken s i} \<le> 2 ^ 32)"
proof -
  have inv: "rw_inv s"
    unfolding assms by (rule rw_run_inv)
  have "map_of (rw_streams s) (lowBits i (rw_prefix s)) = Some i \<longleftrightarrow> i \<in> set (rw_iterator s)"
    using inv unfolding rw_inv_def rw_iterator_def by (force simp: map_of_eq_Some_iff)
  then show ?thesis
    using distinct_iterator [OF inv] add_inv(2) [OF inv] close_inv(2) [OF inv] clear_empty [OF inv] half_free [OF inv] by blast
qed

text \<open>Two streams whose low four bits are 5 and 9; a third roll of a taken id is repeated.\<close>

theorem raw_streams_exact_witness:
  "let s = fold rw_step [RwAdd [0x15] True, RwAdd [0x25, 0x29] True, RwClosed 0x15] RawStreamSet_new
   in rw_iterator s = [0x29] \<and> map_of (rw_streams s) (lowBits 0x29 (rw_prefix s)) = Some 0x29 \<and> distinct (rw_iterator s)
     \<and> rw_iterator (rw_clear s) = [] \<and> 2 * card {i. isTaken s i} \<le> 2 ^ 32"
proof -
  let ?e = "[RwAdd [0x15] True, RwAdd [0x25, 0x29] True, RwClosed 0x15]"
  have s: "rw_iterator (fold rw_step ?e RawStreamSet_new) = [0x29]" "rw_prefix (fold rw_step ?e RawStreamSet_new) < 2 ^ 32"
    by (simp_all add: RawStreamSet_new_def rw_add_def isTaken_def lowBits_def growPrefix_def rw_size_def rw_onclose_def rw_iterator_def Let_def)
  then show ?thesis
    using raw_streams_exact [OF refl, of ?e "0x29" "[]" False] unfolding Let_def by simp
qed

end
