(* ===== verification/Connection_Pool.thy ===== *)
theory Connection_Pool
  imports Interfaces "HOL-Library.AList" "HOL-Library.Word"
begin

text \<open>
  The pool that keeps one connection per remote peer (\<^verbatim>\<open>lib/connection-pool.js\<close>). A stream is a number, with
  its keys and its role in \<open>info\<close>; the hexadecimal key strings are the keys themselves. The events of streams,
  opened and closed, are calls; a stream that is destroyed closes some time later. \<open>cn_attached\<close> holds the
  handlers a stream has from the pool, with the variable \<open>opened\<close> they share; \<open>cn_waiting\<close> holds the handlers that
  attach a new stream once the one it replaces has closed.
\<close>

section \<open>Definitions\<close>

record pool_stream =
  ps_publicKey :: bytes
  ps_remotePublicKey :: bytes
  ps_isInitiator :: bool

record connection_pool =
  cn_servers :: "bytes list"
  cn_connecting :: "(bytes \<times> nat) list"
  cn_connections :: "(bytes \<times> nat) list"
  cn_attached :: "(nat \<times> bool) list"
  cn_waiting :: "(nat \<times> nat \<times> bool) list"
  cn_refs :: "(nat \<times> int) list"
  cn_closed :: "nat list"
  cn_destroyed :: "nat list"
  cn_emitted :: "nat list"

definition ConnectionPool_new :: connection_pool where
  "ConnectionPool_new = \<lparr>cn_servers = [], cn_connecting = [], cn_connections = [], cn_attached = [], cn_waiting = [], cn_refs = [],
     cn_closed = [], cn_destroyed = [], cn_emitted = []\<rparr>"

text \<open>\<open>b4a.compare\<close>.\<close>

fun compareBytes :: "bytes \<Rightarrow> bytes \<Rightarrow> int" where
  "compareBytes [] [] = 0"
| "compareBytes [] (y # ys) = - 1"
| "compareBytes (x # xs) [] = 1"
| "compareBytes (x # xs) (y # ys) = (if x < y then - 1 else if y < x then 1 else compareBytes xs ys)"

definition cn_has :: "bytes \<Rightarrow> connection_pool \<Rightarrow> bool" where
  "cn_has key p \<longleftrightarrow> map_of (cn_connections p) key \<noteq> None \<or> map_of (cn_connecting p) key \<noteq> None"

definition cn_get :: "bytes \<Rightarrow> connection_pool \<Rightarrow> nat option" where
  "cn_get key p = (case map_of (cn_connections p) key of Some s \<Rightarrow> Some s | None \<Rightarrow> map_of (cn_connecting p) key)"

definition keepNew :: "pool_stream \<Rightarrow> pool_stream \<Rightarrow> bool" where
  "keepNew stream existing \<longleftrightarrow>
     ps_isInitiator stream = ps_isInitiator existing \<or> compareBytes (ps_publicKey stream) (ps_remotePublicKey stream) > 0"

definition destroyStream :: "nat \<Rightarrow> connection_pool \<Rightarrow> connection_pool" where
  "destroyStream s p = p\<lparr>cn_destroyed := s # cn_destroyed p\<rparr>"

definition attachStream :: "(nat \<Rightarrow> pool_stream) \<Rightarrow> nat \<Rightarrow> bool \<Rightarrow> connection_pool \<Rightarrow> connection_pool" where
  "attachStream info stream opened p =
     (let key = ps_remotePublicKey (info stream)
      in case cn_get key p of
        Some existing \<Rightarrow>
          if keepNew (info stream) (info existing)
          then destroyStream existing (p\<lparr>cn_waiting := cn_waiting p @ [(existing, stream, opened)]\<rparr>)
          else destroyStream stream p
      | None \<Rightarrow>
          (let p = p\<lparr>cn_attached := AList.update stream opened (cn_attached p), cn_refs := AList.update stream 0 (cn_refs p)\<rparr>
           in if opened then p\<lparr>cn_connections := AList.update key stream (cn_connections p), cn_emitted := cn_emitted p @ [stream]\<rparr>
              else p\<lparr>cn_connecting := AList.update key stream (cn_connecting p)\<rparr>))"

text \<open>The handlers of a replaced stream's close: the new stream is attached unless it has closed as well.\<close>

fun attachWaiting :: "(nat \<Rightarrow> pool_stream) \<Rightarrow> (nat \<times> nat \<times> bool) list \<Rightarrow> connection_pool \<Rightarrow> connection_pool" where
  "attachWaiting info [] p = p"
| "attachWaiting info ((_, stream, opened) # ws) p =
     attachWaiting info ws (if stream \<in> set (cn_closed p) then p else attachStream info stream opened p)"

text \<open>A stream emits \<open>close\<close>: first the handler of the pool, then those that wait for it.\<close>

definition streamClosed :: "(nat \<Rightarrow> pool_stream) \<Rightarrow> nat \<Rightarrow> connection_pool \<Rightarrow> connection_pool" where
  "streamClosed info stream p =
     (if stream \<in> set (cn_closed p) then p
      else (let key = ps_remotePublicKey (info stream); p = p\<lparr>cn_closed := stream # cn_closed p\<rparr>;
                p = (case map_of (cn_attached p) stream of
                       None \<Rightarrow> p
                     | Some True \<Rightarrow> p\<lparr>cn_connections := AList.delete key (cn_connections p)\<rparr>
                     | Some False \<Rightarrow> p\<lparr>cn_connecting := AList.delete key (cn_connecting p)\<rparr>);
                p = p\<lparr>cn_attached := AList.delete stream (cn_attached p)\<rparr>
        in attachWaiting info (filter (\<lambda>w. fst w = stream) (cn_waiting p)) (p\<lparr>cn_waiting := filter (\<lambda>w. fst w \<noteq> stream) (cn_waiting p)\<rparr>)))"

text \<open>A stream emits \<open>open\<close>, for which only a stream attached as not yet open has a handler.\<close>

definition streamOpened :: "(nat \<Rightarrow> pool_stream) \<Rightarrow> nat \<Rightarrow> connection_pool \<Rightarrow> connection_pool" where
  "streamOpened info stream p =
     (if map_of (cn_attached p) stream = Some False then
        (let key = ps_remotePublicKey (info stream)
         in p\<lparr>cn_attached := AList.update stream True (cn_attached p), cn_connecting := AList.delete key (cn_connecting p),
              cn_connections := AList.update key stream (cn_connections p), cn_emitted := cn_emitted p @ [stream]\<rparr>)
      else p)"

definition attachServer :: "bytes \<Rightarrow> connection_pool \<Rightarrow> connection_pool" where
  "attachServer key p = p\<lparr>cn_servers := List.insert key (cn_servers p)\<rparr>"

definition serverClosed :: "bytes \<Rightarrow> connection_pool \<Rightarrow> connection_pool" where
  "serverClosed key p = p\<lparr>cn_servers := removeAll key (cn_servers p)\<rparr>"

text \<open>The methods of \<open>ConnectionRef\<close>, on the session of a stream.\<close>

definition ref_add :: "int \<Rightarrow> nat \<Rightarrow> connection_pool \<Rightarrow> connection_pool" where
  "ref_add d stream p = p\<lparr>cn_refs := AList.map_entry stream (\<lambda>n. n + d) (cn_refs p)\<rparr>"

definition ref_active :: "nat \<Rightarrow> connection_pool \<Rightarrow> connection_pool" where
  "ref_active = ref_add 1"

definition ref_inactive :: "nat \<Rightarrow> connection_pool \<Rightarrow> connection_pool" where
  "ref_inactive = ref_add (- 1)"

definition ref_release :: "nat \<Rightarrow> connection_pool \<Rightarrow> connection_pool" where
  "ref_release = destroyStream"

definition cn_connectingCount :: "connection_pool \<Rightarrow> nat" where
  "cn_connectingCount p = length (cn_connecting p)"

section \<open>The pool is exact\<close>

abbreviation remoteOf :: "(nat \<Rightarrow> pool_stream) \<Rightarrow> nat \<Rightarrow> bytes" where
  "remoteOf info s \<equiv> ps_remotePublicKey (info s)"

abbreviation attachedAs :: "connection_pool \<Rightarrow> nat \<Rightarrow> bool option" where
  "attachedAs p \<equiv> map_of (cn_attached p)"

definition waits :: "connection_pool \<Rightarrow> nat \<Rightarrow> nat \<Rightarrow> bool" where
  "waits p e t \<longleftrightarrow> (\<exists>opened. (e, t, opened) \<in> set (cn_waiting p))"

text \<open>
  A session is one of an attached stream, filed under its key in the map its handler will delete it from; no
  two attached streams have the same peer; whoever waits, waits for an attached stream of the same peer that is
  being destroyed; and every stream that was offered is accounted for.
\<close>

definition filed :: "(nat \<Rightarrow> pool_stream) \<Rightarrow> connection_pool \<Rightarrow> bool" where
  "filed info p \<longleftrightarrow>
     (\<forall>k s. map_of (cn_connecting p) k = Some s \<longleftrightarrow> remoteOf info s = k \<and> attachedAs p s = Some False)
     \<and> (\<forall>k s. map_of (cn_connections p) k = Some s \<longleftrightarrow> remoteOf info s = k \<and> attachedAs p s = Some True)
     \<and> (\<forall>s t. attachedAs p s \<noteq> None \<longrightarrow> attachedAs p t \<noteq> None \<longrightarrow> remoteOf info s = remoteOf info t \<longrightarrow> s = t)"

definition waiting_ok :: "(nat \<Rightarrow> pool_stream) \<Rightarrow> connection_pool \<Rightarrow> bool" where
  "waiting_ok info p \<longleftrightarrow>
     (\<forall>e t. waits p e t \<longrightarrow> attachedAs p e \<noteq> None \<and> e \<in> set (cn_destroyed p) \<and> remoteOf info e = remoteOf info t)"

definition emitted_ok :: "connection_pool \<Rightarrow> bool" where
  "emitted_ok p \<longleftrightarrow> distinct (cn_emitted p) \<and> (\<forall>s. attachedAs p s = Some False \<longrightarrow> s \<notin> set (cn_emitted p))"

text \<open>The streams \<open>pending\<close> and those that wait are neither attached nor emitted, and none is there twice.\<close>

definition idle_ok :: "nat list \<Rightarrow> connection_pool \<Rightarrow> bool" where
  "idle_ok pending p \<longleftrightarrow> distinct (pending @ map (fst \<circ> snd) (cn_waiting p))
     \<and> (\<forall>t \<in> set (pending @ map (fst \<circ> snd) (cn_waiting p)). attachedAs p t = None \<and> t \<notin> set (cn_emitted p))"

definition accounted :: "nat list \<Rightarrow> nat list \<Rightarrow> connection_pool \<Rightarrow> bool" where
  "accounted pending offered p \<longleftrightarrow>
     (\<forall>s \<in> set offered. s \<in> set pending \<or> s \<in> set (cn_closed p) \<or> s \<in> set (cn_destroyed p) \<or> attachedAs p s \<noteq> None \<or> (\<exists>e. waits p e s))
     \<and> (\<forall>s. s \<in> set pending \<or> (\<exists>e. waits p e s) \<or> s \<in> set (cn_emitted p) \<longrightarrow> s \<in> set offered)
     \<and> (\<forall>s. attachedAs p s \<noteq> None \<longrightarrow> s \<notin> set (cn_closed p) \<and> s \<in> set offered)"

definition pool_inv :: "(nat \<Rightarrow> pool_stream) \<Rightarrow> nat list \<Rightarrow> nat list \<times> connection_pool \<Rightarrow> bool" where
  "pool_inv info pending x \<longleftrightarrow> (case x of (offered, p) \<Rightarrow>
     filed info p \<and> waiting_ok info p \<and> emitted_ok p \<and> idle_ok pending p \<and> accounted pending offered p)"

lemma filedD:
  assumes "filed info p"
  shows "map_of (cn_connecting p) k = Some s \<longleftrightarrow> remoteOf info s = k \<and> attachedAs p s = Some False"
    "map_of (cn_connections p) k = Some s \<longleftrightarrow> remoteOf info s = k \<and> attachedAs p s = Some True"
    "attachedAs p s \<noteq> None \<Longrightarrow> attachedAs p t \<noteq> None \<Longrightarrow> remoteOf info s = remoteOf info t \<Longrightarrow> s = t"
  using assms unfolding filed_def by blast+

lemma filedI:
  assumes "\<And>k s. map_of (cn_connecting p) k = Some s \<longleftrightarrow> remoteOf info s = k \<and> attachedAs p s = Some False"
    "\<And>k s. map_of (cn_connections p) k = Some s \<longleftrightarrow> remoteOf info s = k \<and> attachedAs p s = Some True"
    "\<And>s t. attachedAs p s \<noteq> None \<Longrightarrow> attachedAs p t \<noteq> None \<Longrightarrow> remoteOf info s = remoteOf info t \<Longrightarrow> s = t"
  shows "filed info p"
  using assms unfolding filed_def by blast

lemma get_iff:
  assumes "filed info p"
  shows "cn_get k p = Some s \<longleftrightarrow> remoteOf info s = k \<and> attachedAs p s \<noteq> None"
proof -
  note c = filedD(1,2) [OF assms] and one = filedD(3) [OF assms]
  show ?thesis
  proof (cases "map_of (cn_connections p) k")
    case None
    then have "\<not> (remoteOf info s = k \<and> attachedAs p s = Some True)"
      using c(2) [of k s] by simp
    then show ?thesis
      using c(1) [of k s] None by (cases "attachedAs p s") (auto simp: cn_get_def)
  next
    case (Some t)
    then show ?thesis
      using c(2) [of k t] one [of s t] by (auto simp: cn_get_def)
  qed
qed

lemma get_None:
  assumes "filed info p" "cn_get k p = None"
  shows "remoteOf info s = k \<Longrightarrow> attachedAs p s = None"
  using get_iff [OF assms(1), of k s] assms(2) by auto

lemma filed_alone: "filed info p \<Longrightarrow> attachedAs p x = Some b \<Longrightarrow> remoteOf info s = remoteOf info x \<Longrightarrow> s \<noteq> x \<Longrightarrow> attachedAs p s = None"
  unfolding filed_def by blast

lemma waits_simps [simp]:
  "waits (p\<lparr>cn_waiting := ws @ [(e, t, opened)]\<rparr>) a b \<longleftrightarrow> waits (p\<lparr>cn_waiting := ws\<rparr>) a b \<or> a = e \<and> b = t"
  "waits (p\<lparr>cn_attached := x1\<rparr>) a b = waits p a b" "waits (p\<lparr>cn_connecting := x2\<rparr>) a b = waits p a b"
  "waits (p\<lparr>cn_connections := x2\<rparr>) a b = waits p a b" "waits (p\<lparr>cn_refs := x3\<rparr>) a b = waits p a b"
  "waits (p\<lparr>cn_emitted := x4\<rparr>) a b = waits p a b" "waits (p\<lparr>cn_destroyed := x4\<rparr>) a b = waits p a b"
  "waits (p\<lparr>cn_closed := x4\<rparr>) a b = waits p a b" "waits (p\<lparr>cn_servers := x5\<rparr>) a b = waits p a b"
  "waits (p\<lparr>cn_waiting := cn_waiting p\<rparr>) a b = waits p a b"
  by (auto simp: waits_def)

section \<open>Every event keeps it so\<close>

lemma distinct_map_clash: "distinct (map f xs) \<Longrightarrow> x \<in> set xs \<Longrightarrow> y \<in> set xs \<Longrightarrow> f x = f y \<Longrightarrow> x = y"
  by (auto simp: distinct_map inj_on_def)

lemma attach_new:
  assumes inv: "pool_inv info (t # pending) (offered, p)" and live: "t \<notin> set (cn_closed p)" and none: "cn_get (remoteOf info t) p = None"
  shows "pool_inv info pending (offered, attachStream info t opened p)"
proof -
  have parts: "filed info p" "waiting_ok info p" "emitted_ok p" "idle_ok (t # pending) p" "accounted (t # pending) offered p"
    using inv by (auto simp: pool_inv_def)
  have free: "attachedAs p s = None" if "remoteOf info s = remoteOf info t" for s
    using get_None [OF parts(1) none that] .
  have t: "attachedAs p t = None" "t \<notin> set (cn_emitted p)" "\<not> waits p e t" "t \<notin> set pending" for e
    using parts(4) by (force simp: idle_ok_def waits_def)+
  let ?q = "attachStream info t opened p"
  have q: "attachedAs ?q = (attachedAs p)(t \<mapsto> opened)" "cn_waiting ?q = cn_waiting p" "cn_closed ?q = cn_closed p" "cn_destroyed ?q = cn_destroyed p"
    "cn_emitted ?q = cn_emitted p @ (if opened then [t] else [])"
    "map_of (cn_connecting ?q) = (if opened then map_of (cn_connecting p) else (map_of (cn_connecting p))(remoteOf info t \<mapsto> t))"
    "map_of (cn_connections ?q) = (if opened then (map_of (cn_connections p))(remoteOf info t \<mapsto> t) else map_of (cn_connections p))"
    by (simp_all add: attachStream_def none Let_def update_conv')
  have w: "waits ?q a b = waits p a b" for a b
    by (simp add: waits_def q)
  have "filed info ?q"
    using parts(1) free unfolding filed_def q by (auto split: if_splits)
  moreover have "waiting_ok info ?q"
    using parts(2) unfolding waiting_ok_def w q by auto
  moreover have "emitted_ok ?q"
    using parts(3) t unfolding emitted_ok_def q by auto
  moreover have "idle_ok pending ?q"
    using parts(4) unfolding idle_ok_def q by auto
  moreover have "accounted pending offered ?q"
    using parts(5) live unfolding accounted_def w q by (auto split: if_splits)
  ultimately show ?thesis
    by (simp add: pool_inv_def)
qed

lemma attach_existing:
  assumes inv: "pool_inv info (t # pending) (offered, p)" and some: "cn_get (remoteOf info t) p = Some e"
  shows "pool_inv info pending (offered, attachStream info t opened p)"
proof -
  have parts: "filed info p" "waiting_ok info p" "emitted_ok p" "idle_ok (t # pending) p" "accounted (t # pending) offered p"
    using inv by (auto simp: pool_inv_def)
  have e: "attachedAs p e \<noteq> None" "remoteOf info e = remoteOf info t"
    using get_iff [OF parts(1), of "remoteOf info t" e] some by auto
  let ?q = "attachStream info t opened p"
  have same: "attachedAs ?q = attachedAs p" "cn_emitted ?q = cn_emitted p" "cn_closed ?q = cn_closed p"
    "cn_connecting ?q = cn_connecting p" "cn_connections ?q = cn_connections p"
    by (simp_all add: attachStream_def some destroyStream_def)
  have keep: "filed info ?q" "emitted_ok ?q"
    using parts(1,3) unfolding filed_def emitted_ok_def same by auto
  show ?thesis
  proof (cases "keepNew (info t) (info e)")
    case True
    then have q: "cn_waiting ?q = cn_waiting p @ [(e, t, opened)]" "cn_destroyed ?q = e # cn_destroyed p"
      by (simp_all add: attachStream_def some destroyStream_def)
    have w: "waits ?q a b \<longleftrightarrow> waits p a b \<or> a = e \<and> b = t" for a b
      by (auto simp: waits_def q)
    have "waiting_ok info ?q"
      using parts(2) e unfolding waiting_ok_def w q same by auto
    moreover have "idle_ok pending ?q"
      using parts(4) unfolding idle_ok_def q same by auto
    moreover have "accounted pending offered ?q"
      using parts(5) unfolding accounted_def w q same by auto
    ultimately show ?thesis
      using keep by (simp add: pool_inv_def)
  next
    case False
    then have q: "cn_waiting ?q = cn_waiting p" "cn_destroyed ?q = t # cn_destroyed p"
      by (simp_all add: attachStream_def some destroyStream_def)
    have w: "waits ?q a b = waits p a b" for a b
      by (auto simp: waits_def q)
    have "waiting_ok info ?q"
      using parts(2) unfolding waiting_ok_def w q same by auto
    moreover have "idle_ok pending ?q"
      using parts(4) unfolding idle_ok_def q same by auto
    moreover have "accounted pending offered ?q"
      using parts(5) unfolding accounted_def w q same by auto
    ultimately show ?thesis
      using keep by (simp add: pool_inv_def)
  qed
qed

lemma attach_inv:
  assumes "pool_inv info (t # pending) (offered, p)" "t \<notin> set (cn_closed p)"
  shows "pool_inv info pending (offered, attachStream info t opened p)"
  using assms attach_new attach_existing by (cases "cn_get (remoteOf info t) p") auto

lemma attachWaiting_inv: "pool_inv info (map (fst \<circ> snd) ws) (offered, p) \<Longrightarrow> pool_inv info [] (offered, attachWaiting info ws p)"
proof (induction info ws p rule: attachWaiting.induct)
  case (2 info e t opened ws p)
  have "pool_inv info (map (fst \<circ> snd) ws) (offered, if t \<in> set (cn_closed p) then p else attachStream info t opened p)"
  proof (cases "t \<in> set (cn_closed p)")
    case True
    have parts: "filed info p" "waiting_ok info p" "emitted_ok p" "idle_ok (t # map (fst \<circ> snd) ws) p"
      "accounted (t # map (fst \<circ> snd) ws) offered p"
      using 2(2) by (simp_all add: pool_inv_def comp_def)
    have "idle_ok (map (fst \<circ> snd) ws) p"
      using parts(4) unfolding idle_ok_def by auto
    moreover have "accounted (map (fst \<circ> snd) ws) offered p"
      using parts(5) True unfolding accounted_def by (auto 0 3)
    ultimately show ?thesis
      using parts True by (simp add: pool_inv_def)
  next
    case False
    then show ?thesis
      using attach_inv [of info t "map (fst \<circ> snd) ws" offered p opened] 2(2) by (simp add: comp_def)
  qed
  then show ?case
    unfolding attachWaiting.simps by (rule 2(1))
qed simp

lemma closed_inv:
  assumes inv: "pool_inv info [] (offered, p)"
  shows "pool_inv info [] (offered, streamClosed info x p)"
proof (cases "x \<in> set (cn_closed p)")
  case False
  have parts: "filed info p" "waiting_ok info p" "emitted_ok p" "idle_ok [] p" "accounted [] offered p"
    using inv by (auto simp: pool_inv_def)
  let ?del = "\<lambda>o' m. if attachedAs p x = Some o' then AList.delete (remoteOf info x) m else m"
  define q where "q = p\<lparr>cn_closed := x # cn_closed p, cn_connections := ?del True (cn_connections p), cn_connecting := ?del False (cn_connecting p),
      cn_attached := AList.delete x (cn_attached p), cn_waiting := filter (\<lambda>w. fst w \<noteq> x) (cn_waiting p)\<rparr>"
  let ?ws = "filter (\<lambda>w. fst w = x) (cn_waiting p)"
  have st: "streamClosed info x p = attachWaiting info ?ws q"
    using False by (auto simp: streamClosed_def q_def Let_def split: option.splits bool.splits)
  have q: "attachedAs q = (attachedAs p)(x := None)" "cn_emitted q = cn_emitted p" "cn_closed q = x # cn_closed p" "cn_destroyed q = cn_destroyed p"
    "map_of (cn_connecting q) = (if attachedAs p x = Some False then (map_of (cn_connecting p))(remoteOf info x := None) else map_of (cn_connecting p))"
    "map_of (cn_connections q) = (if attachedAs p x = Some True then (map_of (cn_connections p))(remoteOf info x := None) else map_of (cn_connections p))"
    by (simp_all add: q_def delete_conv')
  have w: "waits q a b \<longleftrightarrow> waits p a b \<and> a \<noteq> x" for a b
    by (auto simp: waits_def q_def)
  have "filed info q"
  proof (rule filedI)
    fix k s
    show "map_of (cn_connecting q) k = Some s \<longleftrightarrow> remoteOf info s = k \<and> attachedAs q s = Some False"
      using filedD(1) [OF parts(1), of k s] filed_alone [OF parts(1), of x _ s] unfolding q by (cases "s = x") auto
    show "map_of (cn_connections q) k = Some s \<longleftrightarrow> remoteOf info s = k \<and> attachedAs q s = Some True"
      using filedD(2) [OF parts(1), of k s] filed_alone [OF parts(1), of x _ s] unfolding q by (cases "s = x") auto
  next
    fix s t assume "attachedAs q s \<noteq> None" "attachedAs q t \<noteq> None" "remoteOf info s = remoteOf info t"
    then show "s = t"
      using filedD(3) [OF parts(1), of s t] unfolding q by (auto split: if_splits)
  qed
  moreover have "waiting_ok info q"
    using parts(2) unfolding waiting_ok_def w q by auto
  moreover have "emitted_ok q"
    using parts(3) unfolding emitted_ok_def q by auto
  moreover have "idle_ok (map (fst \<circ> snd) ?ws) q"
    using parts(4) unfolding idle_ok_def q by (auto simp: q_def distinct_map_filter dest: distinct_map_clash)
  moreover have "accounted (map (fst \<circ> snd) ?ws) offered q"
  proof -
    have pend: "s \<in> set (map (fst \<circ> snd) ?ws) \<longleftrightarrow> waits p x s" for s
      by (force simp: waits_def)
    show ?thesis
      using parts(5) unfolding accounted_def w q pend by auto
  qed
  ultimately show ?thesis
    unfolding st by (intro attachWaiting_inv) (simp add: pool_inv_def)
qed (use inv in \<open>simp add: streamClosed_def\<close>)

lemma opened_inv:
  assumes inv: "pool_inv info [] (offered, p)"
  shows "pool_inv info [] (offered, streamOpened info x p)"
proof (cases "attachedAs p x = Some False")
  case True
  have parts: "filed info p" "waiting_ok info p" "emitted_ok p" "idle_ok [] p" "accounted [] offered p"
    using inv by (auto simp: pool_inv_def)
  let ?q = "streamOpened info x p"
  have q: "attachedAs ?q = (attachedAs p)(x \<mapsto> True)" "cn_emitted ?q = cn_emitted p @ [x]" "cn_closed ?q = cn_closed p" "cn_destroyed ?q = cn_destroyed p"
    "cn_waiting ?q = cn_waiting p" "map_of (cn_connecting ?q) = (map_of (cn_connecting p))(remoteOf info x := None)"
    "map_of (cn_connections ?q) = (map_of (cn_connections p))(remoteOf info x \<mapsto> x)"
    using True by (simp_all add: streamOpened_def Let_def update_conv' delete_conv')
  have w: "waits ?q a b = waits p a b" for a b
    by (simp add: waits_def q)
  have "filed info ?q"
  proof (rule filedI)
    fix k s
    show "map_of (cn_connecting ?q) k = Some s \<longleftrightarrow> remoteOf info s = k \<and> attachedAs ?q s = Some False"
      using filedD(1) [OF parts(1), of k s] filed_alone [OF parts(1) True, of s] unfolding q by (cases "s = x") auto
    show "map_of (cn_connections ?q) k = Some s \<longleftrightarrow> remoteOf info s = k \<and> attachedAs ?q s = Some True"
      using filedD(2) [OF parts(1), of k s] filed_alone [OF parts(1) True, of s] unfolding q by (cases "s = x") auto
  next
    fix s t assume "attachedAs ?q s \<noteq> None" "attachedAs ?q t \<noteq> None" "remoteOf info s = remoteOf info t"
    then show "s = t"
      using filedD(3) [OF parts(1), of s t] True unfolding q by (auto split: if_splits)
  qed
  moreover have "waiting_ok info ?q"
    using parts(2) unfolding waiting_ok_def w q by auto
  moreover have "emitted_ok ?q"
    using parts(3) True unfolding emitted_ok_def q by auto
  moreover have "idle_ok [] ?q"
    using parts(4) True unfolding idle_ok_def q by auto
  moreover have "accounted [] offered ?q"
    using parts(5) True unfolding accounted_def w q by auto
  ultimately show ?thesis
    by (simp add: pool_inv_def)
qed (use inv in \<open>simp add: streamOpened_def\<close>)

section \<open>Runs of a pool\<close>

datatype pool_event =
    Offer nat bool
  | Opened nat
  | Closed nat
  | ServerAttached bytes
  | ServerClosed bytes
  | RefActive nat
  | RefInactive nat
  | RefRelease nat

text \<open>A stream is offered to the pool once; \<open>offered\<close> are those that were.\<close>

fun pool_run_step :: "(nat \<Rightarrow> pool_stream) \<Rightarrow> pool_event \<Rightarrow> nat list \<times> connection_pool \<Rightarrow> nat list \<times> connection_pool" where
  "pool_run_step info (Offer s opened) (offered, p) =
     (if s \<in> set offered \<or> s \<in> set (cn_closed p) then (offered, p) else (s # offered, attachStream info s opened p))"
| "pool_run_step info (Opened s) (offered, p) = (offered, streamOpened info s p)"
| "pool_run_step info (Closed s) (offered, p) = (offered, streamClosed info s p)"
| "pool_run_step info (ServerAttached k) (offered, p) = (offered, attachServer k p)"
| "pool_run_step info (ServerClosed k) (offered, p) = (offered, serverClosed k p)"
| "pool_run_step info (RefActive s) (offered, p) = (offered, ref_active s p)"
| "pool_run_step info (RefInactive s) (offered, p) = (offered, ref_inactive s p)"
| "pool_run_step info (RefRelease s) (offered, p) = (offered, ref_release s p)"

lemma offer_inv:
  assumes "pool_inv info [] (offered, p)" "s \<notin> set offered"
  shows "pool_inv info [s] (s # offered, p)"
proof -
  have parts: "filed info p" "waiting_ok info p" "emitted_ok p" "idle_ok [] p" "accounted [] offered p"
    using assms(1) by (auto simp: pool_inv_def)
  have fresh: "attachedAs p s = None" "s \<notin> set (cn_emitted p)" "\<not> waits p e s" for e
    using parts(5) assms(2) unfolding accounted_def by auto
  have "s \<notin> set (map (fst \<circ> snd) (cn_waiting p))"
    using fresh(3) by (force simp: waits_def)
  then have "idle_ok [s] p"
    using parts(4) fresh unfolding idle_ok_def by auto
  moreover have "accounted [s] (s # offered) p"
    using parts(5) unfolding accounted_def by auto
  ultimately show ?thesis
    using parts by (simp add: pool_inv_def)
qed

lemma pool_inv_frame:
  assumes "pool_inv info [] (offered, p)" "cn_attached q = cn_attached p" "cn_waiting q = cn_waiting p" "cn_connecting q = cn_connecting p"
    "cn_connections q = cn_connections p" "cn_emitted q = cn_emitted p" "cn_closed q = cn_closed p" "set (cn_destroyed p) \<subseteq> set (cn_destroyed q)"
  shows "pool_inv info [] (offered, q)"
proof -
  have w: "waits q a b = waits p a b" for a b
    by (simp add: waits_def assms)
  have "waiting_ok info q" "accounted [] offered q"
    using assms(1,8) unfolding pool_inv_def waiting_ok_def accounted_def w assms(2,6,7) by auto
  then show ?thesis
    using assms(1) unfolding pool_inv_def filed_def emitted_ok_def idle_ok_def by (simp add: assms(2-7))
qed

interpretation pool: op_system "pool_run_step info" "pool_inv info []" for info
proof
  show "pool_inv info [] (pool_run_step info x s)" if "pool_inv info [] s" for x s
    using that
  proof (cases "(info, x, s)" rule: pool_run_step.cases)
    case (1 info t opened offered p)
    then show ?thesis
      using that offer_inv [of info offered p t] attach_inv [of info t "[]" "t # offered" p opened] by auto
  qed (auto simp: opened_inv closed_inv attachServer_def serverClosed_def ref_active_def ref_inactive_def ref_add_def ref_release_def destroyStream_def
      intro: pool_inv_frame)
qed

lemma pool_new_inv: "pool_inv info [] ([], ConnectionPool_new)"
  by (simp add: pool_inv_def filed_def waiting_ok_def emitted_ok_def idle_ok_def accounted_def waits_def ConnectionPool_new_def)

section \<open>The properties\<close>

text \<open>
  C35: A pool keeps one connection per peer. Whatever streams are offered, opened and closed, in any order: the
  session found under a key is that of an offered stream of this peer that has not closed; no connection is
  announced twice; and no stream is forgotten: each offered stream has closed, is being destroyed, is the
  session of its peer, or waits for the session of its peer to close, which is being destroyed.
\<close>

theorem one_session_per_peer:
  assumes "fold (pool_run_step info) events ([], ConnectionPool_new) = (offered, p)"
  shows "(\<forall>k s. cn_get k p = Some s \<longrightarrow> remoteOf info s = k \<and> s \<in> set offered \<and> s \<notin> set (cn_closed p))
    \<and> distinct (cn_emitted p)
    \<and> (\<forall>s \<in> set offered. s \<in> set (cn_closed p) \<or> s \<in> set (cn_destroyed p) \<or> cn_get (remoteOf info s) p = Some s
         \<or> (\<exists>e opened. (e, s, opened) \<in> set (cn_waiting p) \<and> cn_get (remoteOf info s) p = Some e \<and> e \<in> set (cn_destroyed p)))"
proof -
  have "pool_inv info [] (offered, p)"
    using pool.run_inv [OF pool_new_inv, of info events] unfolding assms .
  then have parts: "filed info p" "waiting_ok info p" "emitted_ok p" "idle_ok [] p" "accounted [] offered p"
    by (auto simp: pool_inv_def)
  have get: "cn_get k p = Some s \<longleftrightarrow> remoteOf info s = k \<and> attachedAs p s \<noteq> None" for k s
    by (rule get_iff [OF parts(1)])
  have "remoteOf info s = k \<and> s \<in> set offered \<and> s \<notin> set (cn_closed p)" if "cn_get k p = Some s" for k s
    using that parts(5) unfolding get accounted_def by auto
  moreover have "s \<in> set (cn_closed p) \<or> s \<in> set (cn_destroyed p) \<or> cn_get (remoteOf info s) p = Some s
      \<or> (\<exists>e opened. (e, s, opened) \<in> set (cn_waiting p) \<and> cn_get (remoteOf info s) p = Some e \<and> e \<in> set (cn_destroyed p))" if s: "s \<in> set offered" for s
  proof -
    consider "s \<in> set (cn_closed p)" | "s \<in> set (cn_destroyed p)" | "attachedAs p s \<noteq> None" | e where "waits p e s"
      using bspec [OF accounted_def [THEN iffD1, THEN conjunct1, OF parts(5)] s] by auto
    then show ?thesis
    proof cases
      case 4
      then obtain opened where "(e, s, opened) \<in> set (cn_waiting p)"
        by (auto simp: waits_def)
      moreover have "attachedAs p e \<noteq> None" "e \<in> set (cn_destroyed p)" "remoteOf info e = remoteOf info s"
        using parts(2) 4 unfolding waiting_ok_def by blast+
      ultimately show ?thesis
        unfolding get by blast
    qed (simp_all add: get)
  qed
  ultimately show ?thesis
    using parts(3) unfolding emitted_ok_def by blast
qed

lemma compareBytes_flip: "compareBytes ys xs = - compareBytes xs ys"
  by (induction xs ys rule: compareBytes.induct) auto

lemma compareBytes_zero: "compareBytes xs ys = 0 \<longleftrightarrow> xs = ys"
  by (induction xs ys rule: compareBytes.induct) auto

text \<open>
  C36: Crossing connections. When two peers with different keys connect to each other at the same time, each
  offers its own stream before it accepts the other's. Both ends then destroy the same connection, and once it
  has closed both hold the other one.
\<close>

theorem crossing_connections_agree:
  assumes "a \<noteq> b"
    and "atA x = \<lparr>ps_publicKey = a, ps_remotePublicKey = b, ps_isInitiator = True\<rparr>" "atA y = \<lparr>ps_publicKey = a, ps_remotePublicKey = b, ps_isInitiator = False\<rparr>"
    and "atB y = \<lparr>ps_publicKey = b, ps_remotePublicKey = a, ps_isInitiator = True\<rparr>" "atB x = \<lparr>ps_publicKey = b, ps_remotePublicKey = a, ps_isInitiator = False\<rparr>"
    and "x \<noteq> y"
  shows "let pA = attachStream atA y True (attachStream atA x False ConnectionPool_new);
             pB = attachStream atB x True (attachStream atB y False ConnectionPool_new)
         in \<exists>lost kept. {lost, kept} = {x, y} \<and> cn_destroyed pA = [lost] \<and> cn_destroyed pB = [lost]
           \<and> cn_get b (streamClosed atA lost pA) = Some kept \<and> cn_get a (streamClosed atB lost pB) = Some kept"
proof -
  have cmp: "compareBytes b a = - compareBytes a b" "compareBytes a b \<noteq> 0"
    using compareBytes_flip [of b a] compareBytes_zero [of a b] assms(1) by simp_all
  note defs = assms(2-6) assms(6) [symmetric] attachStream_def ConnectionPool_new_def cn_get_def keepNew_def destroyStream_def streamClosed_def Let_def
  show ?thesis
  proof (cases "compareBytes a b > 0")
    case True
    then show ?thesis
      using cmp unfolding Let_def by (intro exI [of _ x] exI [of _ y]) (simp add: defs)
  next
    case False
    then show ?thesis
      using cmp unfolding Let_def by (intro exI [of _ y] exI [of _ x]) (simp add: defs insert_commute)
  qed
qed

section \<open>Samples\<close>

definition sampleInfo :: "nat \<Rightarrow> pool_stream" where
  "sampleInfo s = \<lparr>ps_publicKey = [2], ps_remotePublicKey = [1], ps_isInitiator = (s = 0)\<rparr>"

definition sampleOther :: "nat \<Rightarrow> pool_stream" where
  "sampleOther s = \<lparr>ps_publicKey = [1], ps_remotePublicKey = [2], ps_isInitiator = (s = 1)\<rparr>"

text \<open>The pool's own connection is replaced by the one it accepts.\<close>

theorem one_session_per_peer_witness:
  "let x = fold (pool_run_step sampleInfo) [Offer 0 False, Offer 1 True, Closed 0] ([], ConnectionPool_new)
   in cn_get [1] (snd x) = Some 1 \<and> distinct (cn_emitted (snd x)) \<and> 1 \<notin> set (cn_closed (snd x))"
proof -
  obtain offered p where p: "fold (pool_run_step sampleInfo) [Offer 0 False, Offer 1 True, Closed 0] ([], ConnectionPool_new) = (offered, p)"
    by fastforce
  have "cn_get [1] (snd (fold (pool_run_step sampleInfo) [Offer 0 False, Offer 1 True, Closed 0] ([], ConnectionPool_new))) = Some 1"
    by (simp add: ConnectionPool_new_def attachStream_def cn_get_def keepNew_def destroyStream_def streamClosed_def sampleInfo_def Let_def)
  then show ?thesis
    using one_session_per_peer [OF p] unfolding p Let_def by simp
qed

theorem crossing_connections_agree_witness:
  "\<exists>lost kept. {lost, kept} = {0, 1 :: nat}
     \<and> cn_destroyed (attachStream sampleInfo 1 True (attachStream sampleInfo 0 False ConnectionPool_new)) = [lost]
     \<and> cn_destroyed (attachStream sampleOther 0 True (attachStream sampleOther 1 False ConnectionPool_new)) = [lost]"
  using crossing_connections_agree [of "[2]" "[1]" sampleInfo 0 1 sampleOther] by (auto simp: sampleInfo_def sampleOther_def Let_def)

end
