(* ===== verification/Secure_Payload.thy ===== *)
theory Secure_Payload
  imports Message_Properties
begin

text \<open>
  The encrypted payload of hole-punching messages (\<^verbatim>\<open>lib/secure-payload.js\<close>): 24 bytes of nonce, then the
  encoding of the payload, encrypted in place, then the tag of 16 bytes. The secret box of \<^verbatim>\<open>sodium\<close> is a
  parameter; random bytes are arguments.
\<close>

section \<open>Definitions\<close>

record secretbox =
  sx_seal :: "bytes \<Rightarrow> bytes \<Rightarrow> bytes \<Rightarrow> bytes"
  sx_open :: "bytes \<Rightarrow> bytes \<Rightarrow> bytes \<Rightarrow> bytes option"
  sx_generichash :: "bytes \<Rightarrow> bytes \<Rightarrow> bytes"

record holepunch_secrets =
  hx_sharedSecret :: bytes
  hx_localSecret :: bytes

definition HolepunchPayload_new :: "bytes \<Rightarrow> bytes \<Rightarrow> holepunch_secrets" where
  "HolepunchPayload_new holepunchSecret random = \<lparr>hx_sharedSecret = holepunchSecret, hx_localSecret = random\<rparr>"

text \<open>The buffer, whose middle is decrypted in place, and the payload or \<open>null\<close>.\<close>

definition decryptPayload :: "cenc \<Rightarrow> secretbox \<Rightarrow> holepunch_secrets \<Rightarrow> bytes \<Rightarrow> bytes \<times> holepunch_payload option" where
  "decryptPayload C S h buffer =
     (let end' = length buffer - 16; nonce = take 24 buffer; cipher = drop 24 buffer
      in if end' \<le> 24 then (buffer, None)
         else (case sx_open S cipher nonce (hx_sharedSecret h) of
           None \<Rightarrow> (buffer, None)
         | Some msg \<Rightarrow>
             (let buffer = nonce @ msg @ drop end' buffer
              in (buffer, case decode (holepunchPayload C) \<lparr>cs_start = 24, cs_end = end', cs_buffer = buffer\<rparr> of
                    Inl e \<Rightarrow> None | Inr (payload, _) \<Rightarrow> Some payload))))"

definition encryptPayload :: "cenc \<Rightarrow> secretbox \<Rightarrow> holepunch_secrets \<Rightarrow> bytes \<Rightarrow> holepunch_payload \<Rightarrow> unit + bytes" where
  "encryptPayload C S h nonce payload =
     (let st = preencode (holepunchPayload C) payload \<lparr>cs_start = 24, cs_end = 24, cs_buffer = []\<rparr>;
          end' = cs_end st; st = st\<lparr>cs_buffer := replicate (end' + 16) 0\<rparr>
      in bindE (encode (holepunchPayload C) payload st) (\<lambda>st.
           Inr (nonce @ sx_seal S (take (end' - 24) (drop 24 (cs_buffer st))) nonce (hx_sharedSecret h))))"

definition payloadToken :: "secretbox \<Rightarrow> holepunch_secrets \<Rightarrow> address \<Rightarrow> bytes" where
  "payloadToken S h addr = sx_generichash S (map (word_of_nat \<circ> of_char) (host addr)) (hx_localSecret h)"

section \<open>The laws of a secret box\<close>

locale secretbox_laws =
  fixes S :: secretbox
  assumes seal_length: "length nonce = 24 \<Longrightarrow> length key = 32 \<Longrightarrow> length (sx_seal S msg nonce key) = length msg + 16"
    and open_seal: "length nonce = 24 \<Longrightarrow> length key = 32 \<Longrightarrow> sx_open S (sx_seal S msg nonce key) nonce key = Some msg"
    and open_only: "length nonce = 24 \<Longrightarrow> length key = 32 \<Longrightarrow> sx_open S c nonce key = Some msg \<Longrightarrow> c = sx_seal S msg nonce key"

definition refBox :: secretbox where
  "refBox = \<lparr>sx_seal = (\<lambda>m n k. m @ take 16 k), sx_open = (\<lambda>c n k. if drop (length c - 16) c = take 16 k \<and> length c \<ge> 16 then Some (take (length c - 16) c) else None),
     sx_generichash = (\<lambda>m k. take 32 (m @ k @ replicate 32 0))\<rparr>"

interpretation refbox: secretbox_laws refBox
proof
  show "c = sx_seal refBox msg nonce key" if "sx_open refBox c nonce key = Some msg" for c nonce key msg :: bytes
  proof -
    have "drop (length c - 16) c = take 16 key" "msg = take (length c - 16) c"
      using that by (auto simp: refBox_def split: if_splits)
    then show ?thesis
      using append_take_drop_id [of "length c - 16" c] by (simp add: refBox_def)
  qed
qed (simp_all add: refBox_def)

section \<open>The property\<close>

context dht_messages
begin

lemma payload_wire_nonempty: "v_holepunchPayload W p \<Longrightarrow> w_holepunchPayload W p \<noteq> []"
  using uint_short [of "pp_error p"] by (auto simp: w_holepunchPayload_def v_holepunchPayload_def)

end

text \<open>
  Payloads survive encryption and nothing else does. An encrypted payload is its nonce, its wire image and
  a tag, and the peer that shares the secret decrypts it to the same payload; a buffer that decrypts to anything
  is the sealing, under that secret and its own nonce, of the text that replaced it; and when it does not
  open, the buffer is left as it was.
\<close>

theorem payload_roundtrip:
  assumes M: "dht_messages C W" and S: "secretbox_laws S" and v: "v_holepunchPayload W p"
    and len: "length nonce = 24" "length (hx_sharedSecret h) = 32" and shared: "hx_sharedSecret h' = hx_sharedSecret h"
  shows "(\<exists>bs. encryptPayload C S h nonce p = Inr bs \<and> length bs = 24 + length (w_holepunchPayload W p) + 16 \<and> take 24 bs = nonce
      \<and> snd (decryptPayload C S h' bs) = Some p)
    \<and> (snd (decryptPayload C S h buffer) = Some q \<longrightarrow>
        (\<exists>msg. drop 24 buffer = sx_seal S msg (take 24 buffer) (hx_sharedSecret h) \<and> take (length msg) (drop 24 (fst (decryptPayload C S h buffer))) = msg))
    \<and> (sx_open S (drop 24 buffer) (take 24 buffer) (hx_sharedSecret h) = None \<longrightarrow> decryptPayload C S h buffer = (buffer, None))"
proof -
  let ?w = "w_holepunchPayload W p"
  have K: "wire_codec (holepunchPayload C) (v_holepunchPayload W) (w_holepunchPayload W) n_holepunchPayload"
    by (rule dht_messages.holepunchPayload_codec [OF M])
  have g: "grows (preencode (holepunchPayload C) p) (length ?w)" and wr: "writes (encode (holepunchPayload C) p) ?w"
    using wire_writer.grows_wire [OF wire_codec.axioms(1) [OF K]] wire_writer.writes_wire [OF wire_codec.axioms(1) [OF K]] v by blast+
  have rd: "reads (decode (holepunchPayload C)) ?w p"
    using wire_reader.reads_wire [OF wire_codec.axioms(2) [OF K] v] by (simp add: n_holepunchPayload_def)
  define bs where "bs = nonce @ sx_seal S ?w nonce (hx_sharedSecret h)"
  have "encryptPayload C S h nonce p = Inr bs"
    using g wr by (simp add: encryptPayload_def grows_def grow_def writes_def put_def bs_def Let_def)
  moreover have lbs: "length bs = 24 + length ?w + 16" "take 24 bs = nonce"
    using len by (simp_all add: bs_def secretbox_laws.seal_length [OF S])
  moreover have "snd (decryptPayload C S h' bs) = Some p"
  proof -
    have pos: "?w \<noteq> []"
      using dht_messages.payload_wire_nonempty [OF M v] .
    have o: "sx_open S (drop 24 bs) (take 24 bs) (hx_sharedSecret h') = Some ?w"
      using len shared by (simp add: bs_def secretbox_laws.open_seal [OF S])
    have "decode (holepunchPayload C) \<lparr>cs_start = 24, cs_end = length bs - 16, cs_buffer = nonce @ ?w @ drop (length bs - 16) bs\<rparr>
        = Inr (p, advance (length ?w) \<lparr>cs_start = 24, cs_end = length bs - 16, cs_buffer = nonce @ ?w @ drop (length bs - 16) bs\<rparr>)"
      using rd lbs len by (simp add: reads_def showsAt_def)
    then show ?thesis
      using o lbs pos by (simp add: decryptPayload_def Let_def)
  qed
  moreover have "\<exists>msg. drop 24 buffer = sx_seal S msg (take 24 buffer) (hx_sharedSecret h) \<and> take (length msg) (drop 24 (fst (decryptPayload C S h buffer))) = msg"
    if dec: "snd (decryptPayload C S h buffer) = Some q"
  proof -
    have "length buffer - 16 > 24"
      using dec by (auto simp: decryptPayload_def Let_def split: if_splits)
    moreover from this obtain msg where "sx_open S (drop 24 buffer) (take 24 buffer) (hx_sharedSecret h) = Some msg"
      using dec by (auto simp: decryptPayload_def Let_def split: option.splits)
    ultimately show ?thesis
      using secretbox_laws.open_only [OF S, of "take 24 buffer" "hx_sharedSecret h" "drop 24 buffer" msg] len
      by (auto simp: decryptPayload_def Let_def)
  qed
  moreover have "sx_open S (drop 24 buffer) (take 24 buffer) (hx_sharedSecret h) = None \<Longrightarrow> decryptPayload C S h buffer = (buffer, None)"
    by (simp add: decryptPayload_def Let_def)
  ultimately show ?thesis
    by blast
qed

theorem payload_roundtrip_witness:
  "\<exists>bs. encryptPayload refC refBox (HolepunchPayload_new (replicate 32 3) (replicate 32 4)) (replicate 24 5) sample_round = Inr bs
     \<and> snd (decryptPayload refC refBox (HolepunchPayload_new (replicate 32 3) (replicate 32 9)) bs) = Some sample_round"
  using payload_roundtrip [OF ref.dht_messages_axioms refbox.secretbox_laws_axioms sample_punches_valid(3),
    of "replicate 24 5" "HolepunchPayload_new (replicate 32 3) (replicate 32 4)" "HolepunchPayload_new (replicate 32 3) (replicate 32 9)"]
  by (auto simp: HolepunchPayload_new_def)

end
