(* ===== verification/Socket_Pool.thy ===== *)
theory Socket_Pool
  imports Interfaces "HOL-Library.AList" "HOL-Library.Word"
begin

text \<open>
  The pool of UDP sockets (\<^verbatim>\<open>lib/socket-pool.js\<close>). A socket and its \<open>SocketRef\<close> have one number; \<open>sf_idle\<close> is
  what the native socket answers, \<open>sf_gone\<close> says that it has emitted \<open>close\<close>. The events of sockets, raw
  streams and timers are calls. A route is numbered, because its garbage collection compares identities.
\<close>

section \<open>References\<close>

record socket_ref =
  sf_handler :: bool
  sf_reusable :: bool
  sf_refs :: int
  sf_released :: bool
  sf_closed :: bool
  sf_timeout :: bool
  sf_wasBusy :: bool
  sf_idle :: bool
  sf_gone :: bool

record socket_route =
  sr_id :: nat
  sr_socket :: nat
  sr_address :: "string \<times> nat"

record socket_pool =
  po_refs :: "nat \<Rightarrow> socket_ref"
  po_next :: nat
  po_sockets :: "nat list"
  po_lingering :: "nat list"
  po_socketsAdded :: nat
  po_socketsRemoved :: nat
  po_routes :: "(bytes \<times> socket_route) list"
  po_nextRoute :: nat

definition newRef :: socket_ref where
  "newRef = \<lparr>sf_handler = False, sf_reusable = False, sf_refs = 1, sf_released = False, sf_closed = False, sf_timeout = False,
     sf_wasBusy = False, sf_idle = True, sf_gone = False\<rparr>"

definition SocketPool_new :: socket_pool where
  "SocketPool_new = \<lparr>po_refs = (\<lambda>_. newRef), po_next = 0, po_sockets = [], po_lingering = [], po_socketsAdded = 0, po_socketsRemoved = 0,
     po_routes = [], po_nextRoute = 0\<rparr>"

definition setRef :: "nat \<Rightarrow> (socket_ref \<Rightarrow> socket_ref) \<Rightarrow> socket_pool \<Rightarrow> socket_pool" where
  "setRef i f p = p\<lparr>po_refs := (po_refs p)(i := f (po_refs p i))\<rparr>"

definition po_add :: "nat \<Rightarrow> socket_pool \<Rightarrow> socket_pool" where
  "po_add i p = p\<lparr>po_sockets := List.insert i (po_sockets p), po_socketsAdded := Suc (po_socketsAdded p)\<rparr>"

definition po_remove :: "nat \<Rightarrow> socket_pool \<Rightarrow> socket_pool" where
  "po_remove i p =
     (let removed = i \<in> set (po_sockets p); p = p\<lparr>po_sockets := removeAll i (po_sockets p), po_lingering := removeAll i (po_lingering p)\<rparr>
      in if removed then p\<lparr>po_socketsRemoved := Suc (po_socketsRemoved p)\<rparr> else p)"

definition po_lookup :: "nat \<Rightarrow> socket_pool \<Rightarrow> nat option" where
  "po_lookup i p = (if i \<in> set (po_sockets p) then Some i else None)"

definition setReusable :: "nat \<Rightarrow> bool \<Rightarrow> socket_pool \<Rightarrow> socket_pool" where
  "setReusable i b p = (case po_lookup i p of None \<Rightarrow> p | Some i \<Rightarrow> setRef i (\<lambda>r. r\<lparr>sf_reusable := b\<rparr>) p)"

definition acquire :: "socket_pool \<Rightarrow> socket_pool \<times> nat" where
  "acquire p = (let i = po_next p in (po_add i (setRef i (\<lambda>_. newRef) (p\<lparr>po_next := Suc i\<rparr>)), i))"

definition unlinger :: "nat \<Rightarrow> socket_pool \<Rightarrow> socket_pool" where
  "unlinger i p =
     (if sf_timeout (po_refs p i) then setRef i (\<lambda>r. r\<lparr>sf_timeout := False\<rparr>) (p\<lparr>po_lingering := removeAll i (po_lingering p)\<rparr>) else p)"

definition ref_close :: "nat \<Rightarrow> socket_pool \<Rightarrow> socket_pool" where
  "ref_close i p =
     (let p = unlinger i p
      in if sf_reusable (po_refs p i) \<and> sf_wasBusy (po_refs p i)
         then setRef i (\<lambda>r. r\<lparr>sf_wasBusy := False, sf_timeout := True\<rparr>) (p\<lparr>po_lingering := List.insert i (po_lingering p)\<rparr>)
         else setRef i (\<lambda>r. r\<lparr>sf_closed := True\<rparr>) p)"

definition closeMaybe :: "nat \<Rightarrow> socket_pool \<Rightarrow> socket_pool" where
  "closeMaybe i p = (let r = po_refs p i in if sf_refs r = 0 \<and> sf_idle r \<and> \<not> sf_timeout r then ref_close i p else p)"

definition lingeringClose :: "nat \<Rightarrow> socket_pool \<Rightarrow> socket_pool" where
  "lingeringClose i p = closeMaybe i (setRef i (\<lambda>r. r\<lparr>sf_timeout := False\<rparr>) (p\<lparr>po_lingering := removeAll i (po_lingering p)\<rparr>))"

text \<open>The socket says that it is idle or busy.\<close>

definition ref_onidle :: "nat \<Rightarrow> socket_pool \<Rightarrow> socket_pool" where
  "ref_onidle i p = closeMaybe i (setRef i (\<lambda>r. r\<lparr>sf_idle := True\<rparr>) p)"

definition ref_onbusy :: "nat \<Rightarrow> socket_pool \<Rightarrow> socket_pool" where
  "ref_onbusy i p = unlinger i (setRef i (\<lambda>r. r\<lparr>sf_idle := False, sf_wasBusy := True\<rparr>) p)"

definition ref_free :: "nat \<Rightarrow> socket_pool \<Rightarrow> bool" where
  "ref_free i p \<longleftrightarrow> sf_refs (po_refs p i) = 0"

definition socket_active :: "nat \<Rightarrow> socket_pool \<Rightarrow> socket_pool" where
  "socket_active i p = unlinger i (setRef i (\<lambda>r. r\<lparr>sf_refs := sf_refs r + 1\<rparr>) p)"

definition socket_inactive :: "nat \<Rightarrow> socket_pool \<Rightarrow> socket_pool" where
  "socket_inactive i p = closeMaybe i (setRef i (\<lambda>r. r\<lparr>sf_refs := sf_refs r - 1\<rparr>) p)"

definition socket_release :: "nat \<Rightarrow> socket_pool \<Rightarrow> socket_pool" where
  "socket_release i p =
     (if sf_released (po_refs p i) then p
      else closeMaybe i (setRef i (\<lambda>r. r\<lparr>sf_released := True, sf_handler := False, sf_refs := sf_refs r - 1\<rparr>) p))"

text \<open>A datagram of one byte goes to the handler of hole punching, a longer one to the node.\<close>

datatype message_target = ToNode | ToPuncher | Dropped

definition ref_onmessage :: "nat \<Rightarrow> bytes \<Rightarrow> socket_pool \<Rightarrow> message_target" where
  "ref_onmessage i msg p = (if length msg > 1 then ToNode else if sf_handler (po_refs p i) then ToPuncher else Dropped)"

fun destroyRefs :: "nat list \<Rightarrow> socket_pool \<Rightarrow> socket_pool" where
  "destroyRefs [] p = p"
| "destroyRefs (i # is) p = destroyRefs is (setRef i (\<lambda>r. r\<lparr>sf_closed := True\<rparr>) (unlinger i p))"

definition po_destroy :: "socket_pool \<Rightarrow> socket_pool" where
  "po_destroy p = destroyRefs (po_sockets p) p"

section \<open>Routes\<close>

definition routes_get :: "bytes \<Rightarrow> socket_pool \<Rightarrow> socket_route option" where
  "routes_get key p = map_of (po_routes p) key"

definition route_gc :: "bytes \<Rightarrow> socket_route \<Rightarrow> socket_pool \<Rightarrow> socket_pool" where
  "route_gc key route p =
     (case map_of (po_routes p) key of
        None \<Rightarrow> p
      | Some r \<Rightarrow> if sr_id r = sr_id route then p\<lparr>po_routes := AList.delete key (po_routes p)\<rparr> else p)"

text \<open>A raw stream connects: the route that is kept, for its error handler.\<close>

definition routes_onconnect :: "bytes \<Rightarrow> nat \<Rightarrow> string \<times> nat \<Rightarrow> socket_pool \<Rightarrow> socket_pool \<times> socket_route" where
  "routes_onconnect key i address p =
     (let (route, p) = (case map_of (po_routes p) key of
            Some route \<Rightarrow> (route, p)
          | None \<Rightarrow>
              (let route = \<lparr>sr_id = po_nextRoute p, sr_socket = i, sr_address = address\<rparr>
               in (route, p\<lparr>po_nextRoute := Suc (po_nextRoute p), po_routes := AList.update key route (po_routes p)\<rparr>)))
      in (setReusable i True p, route))"

text \<open>The raw stream of a key on a socket fails.\<close>

definition routes_onerror :: "bytes \<Rightarrow> nat \<Rightarrow> socket_route \<Rightarrow> socket_pool \<Rightarrow> socket_pool" where
  "routes_onerror key i route p =
     (let p = setReusable i False p in if sr_socket route = i then route_gc key route p else p)"

text \<open>
  A socket emits \<open>close\<close>: the reference leaves the pool, and so does every route over it, which listens for
  that. (A route that has left the table has stopped listening.)
\<close>

definition socketClosed :: "nat \<Rightarrow> socket_pool \<Rightarrow> socket_pool" where
  "socketClosed i p =
     (let p = po_remove i (setRef i (\<lambda>r. r\<lparr>sf_gone := True\<rparr>) p)
      in fold (\<lambda>(key, route). if sr_socket route = i then route_gc key route else id) (po_routes p) p)"

section \<open>The pool is exact\<close>

text \<open>
  Nothing leaks: a socket nobody refers to that is idle is closed or has a timer that will close it. The
  sockets of the pool are those that were acquired and have not gone; the lingering ones are those of them
  with a timer.
\<close>

definition settled :: "nat set \<Rightarrow> socket_pool \<Rightarrow> bool" where
  "settled X p \<longleftrightarrow>
     (\<forall>i < po_next p. i \<notin> X \<longrightarrow> sf_refs (po_refs p i) = 0 \<longrightarrow> sf_idle (po_refs p i) \<longrightarrow> sf_closed (po_refs p i) \<or> sf_timeout (po_refs p i))"

definition members :: "socket_pool \<Rightarrow> bool" where
  "members p \<longleftrightarrow> set (po_sockets p) = {i. i < po_next p \<and> \<not> sf_gone (po_refs p i)} \<and> distinct (po_sockets p)
     \<and> po_socketsAdded p = length (po_sockets p) + po_socketsRemoved p
     \<and> (\<forall>key route. map_of (po_routes p) key = Some route \<longrightarrow> sr_socket route \<in> set (po_sockets p))"

definition lingers :: "socket_pool \<Rightarrow> bool" where
  "lingers p \<longleftrightarrow> (\<forall>i \<in> set (po_lingering p). sf_timeout (po_refs p i) \<and> i < po_next p)
     \<and> (\<forall>i < po_next p. sf_timeout (po_refs p i) \<longrightarrow> \<not> sf_gone (po_refs p i) \<longrightarrow> i \<in> set (po_lingering p))"

definition spool_inv :: "nat set \<Rightarrow> socket_pool \<Rightarrow> bool" where
  "spool_inv X p \<longleftrightarrow> settled X p \<and> members p \<and> lingers p"

lemma members_routes: "members p \<Longrightarrow> map_of (po_routes p) key = Some route \<Longrightarrow> sr_socket route \<in> set (po_sockets p)"
  unfolding members_def by blast

lemma setRef_sel [simp]:
  "po_refs (setRef i f p) = (po_refs p)(i := f (po_refs p i))" "po_next (setRef i f p) = po_next p" "po_sockets (setRef i f p) = po_sockets p"
  "po_lingering (setRef i f p) = po_lingering p" "po_socketsAdded (setRef i f p) = po_socketsAdded p"
  "po_socketsRemoved (setRef i f p) = po_socketsRemoved p" "po_routes (setRef i f p) = po_routes p" "po_nextRoute (setRef i f p) = po_nextRoute p"
  by (simp_all add: setRef_def)

text \<open>What an operation on a reference may change: not what the pool and the routes know of sockets.\<close>

lemma spool_frame:
  assumes inv: "spool_inv X p" and eq: "po_next q = po_next p" "po_sockets q = po_sockets p" "po_lingering q = po_lingering p"
      "po_socketsAdded q = po_socketsAdded p" "po_socketsRemoved q = po_socketsRemoved p"
    and refs: "\<And>j. sf_gone (po_refs q j) = sf_gone (po_refs p j)" "\<And>j. sf_timeout (po_refs q j) = sf_timeout (po_refs p j)"
      "\<And>j. j \<notin> Y \<Longrightarrow> sf_refs (po_refs q j) = sf_refs (po_refs p j) \<and> sf_idle (po_refs q j) = sf_idle (po_refs p j) \<and> sf_closed (po_refs q j) = sf_closed (po_refs p j)"
    and routes: "\<And>k r. map_of (po_routes q) k = Some r \<Longrightarrow> map_of (po_routes p) k = Some r \<or> sr_socket r \<in> set (po_sockets p)"
  shows "spool_inv (X \<union> Y) q"
proof -
  have m: "members p" and l: "lingers p" and s: "settled X p"
    using inv by (simp_all add: spool_inv_def)
  have "sr_socket r \<in> set (po_sockets p)" if "map_of (po_routes q) k = Some r" for k r
    using routes [OF that] m unfolding members_def by blast
  then have "members q"
    using m unfolding members_def eq refs by blast
  moreover have "lingers q"
    using l unfolding lingers_def eq refs .
  moreover have "settled (X \<union> Y) q"
    using s refs unfolding settled_def eq by auto
  ultimately show ?thesis
    by (simp add: spool_inv_def)
qed

lemma setRef_inv:
  assumes "spool_inv X p" "\<And>r. sf_gone (f r) = sf_gone r" "\<And>r. sf_timeout (f r) = sf_timeout r"
  shows "spool_inv (insert i X) (setRef i f p)"
  using spool_frame [OF assms(1), of "setRef i f p" "{i}"] assms(2,3) by auto

lemma unlinger_inv:
  assumes "spool_inv X p"
  shows "spool_inv (insert i X) (unlinger i p)"
  using assms by (auto simp: unlinger_def spool_inv_def settled_def members_def lingers_def)

lemma unlinger_sel [simp]:
  "sf_timeout (po_refs (unlinger i p) i) = False" "sf_refs (po_refs (unlinger i p) j) = sf_refs (po_refs p j)"
  "sf_idle (po_refs (unlinger i p) j) = sf_idle (po_refs p j)" "sf_closed (po_refs (unlinger i p) j) = sf_closed (po_refs p j)"
  "po_next (unlinger i p) = po_next p" "po_sockets (unlinger i p) = po_sockets p"
  by (simp_all add: unlinger_def)

lemma spool_inv_settle:
  assumes "spool_inv (insert i X) p" "i < po_next p \<Longrightarrow> sf_refs (po_refs p i) = 0 \<Longrightarrow> sf_idle (po_refs p i) \<Longrightarrow> sf_closed (po_refs p i) \<or> sf_timeout (po_refs p i)"
  shows "spool_inv X p"
  using assms by (auto simp: spool_inv_def settled_def)

lemma ref_close_inv:
  assumes "spool_inv (insert i X) p" "i < po_next p"
  shows "spool_inv X (ref_close i p)"
proof -
  have u: "spool_inv (insert i X) (unlinger i p)"
    using unlinger_inv [OF assms(1), of i] by simp
  show ?thesis
  proof (rule spool_inv_settle [of i])
    show "spool_inv (insert i X) (ref_close i p)"
    proof (cases "sf_reusable (po_refs (unlinger i p) i) \<and> sf_wasBusy (po_refs (unlinger i p) i)")
      case True
      then show ?thesis
        using u assms(2) by (auto simp: ref_close_def Let_def spool_inv_def settled_def members_def lingers_def)
    next
      case False
      then show ?thesis
        using setRef_inv [OF u, of "\<lambda>r. r\<lparr>sf_closed := True\<rparr>" i] by (auto simp: ref_close_def Let_def)
    qed
    show "sf_closed (po_refs (ref_close i p) i) \<or> sf_timeout (po_refs (ref_close i p) i)"
      by (simp add: ref_close_def Let_def)
  qed
qed

lemma closeMaybe_inv:
  assumes "spool_inv (insert i X) p" "i < po_next p"
  shows "spool_inv X (closeMaybe i p)"
proof (cases "sf_refs (po_refs p i) = 0 \<and> sf_idle (po_refs p i) \<and> \<not> sf_timeout (po_refs p i)")
  case True
  then show ?thesis
    using ref_close_inv [OF assms] by (simp add: closeMaybe_def)
next
  case False
  then have "closeMaybe i p = p"
    by (auto simp: closeMaybe_def Let_def)
  then show ?thesis
    using spool_inv_settle [OF assms(1)] False by auto
qed

section \<open>Every operation keeps it so\<close>

datatype spool_event =
    Acquire
  | SetHandler nat
  | Active nat
  | Inactive nat
  | Release nat
  | Idle nat
  | Busy nat
  | Timer nat
  | SocketGone nat
  | Connected bytes nat "string \<times> nat"
  | StreamFailed bytes nat socket_route
  | DestroyPool

text \<open>
  Events of a socket come only while it has not gone, a timer fires while it is set, and each concerns an
  acquired socket. Who calls \<open>inactive\<close> has called \<open>active\<close> before, so the socket has a reference besides the
  one that \<open>release\<close> gives back.
\<close>

definition heldRefs :: "socket_ref \<Rightarrow> int" where
  "heldRefs r = sf_refs r - (if sf_released r then 0 else 1)"

fun spool_step :: "spool_event \<Rightarrow> socket_pool \<Rightarrow> socket_pool" where
  "spool_step Acquire p = fst (acquire p)"
| "spool_step (SetHandler i) p = (if i < po_next p then setRef i (\<lambda>r. r\<lparr>sf_handler := True\<rparr>) p else p)"
| "spool_step (Active i) p = (if i < po_next p then socket_active i p else p)"
| "spool_step (Inactive i) p = (if i < po_next p \<and> heldRefs (po_refs p i) > 0 then socket_inactive i p else p)"
| "spool_step (Release i) p = (if i < po_next p then socket_release i p else p)"
| "spool_step (Idle i) p = (if i \<in> set (po_sockets p) then ref_onidle i p else p)"
| "spool_step (Busy i) p = (if i \<in> set (po_sockets p) then ref_onbusy i p else p)"
| "spool_step (Timer i) p = (if i < po_next p \<and> sf_timeout (po_refs p i) then lingeringClose i p else p)"
| "spool_step (SocketGone i) p = (if i \<in> set (po_sockets p) then socketClosed i p else p)"
| "spool_step (Connected key i address) p = (if i \<in> set (po_sockets p) then fst (routes_onconnect key i address p) else p)"
| "spool_step (StreamFailed key i route) p = routes_onerror key i route p"
| "spool_step DestroyPool p = po_destroy p"

lemma spool_inv_mono: "spool_inv X p \<Longrightarrow> X \<subseteq> Y \<Longrightarrow> spool_inv Y p"
  by (auto simp: spool_inv_def settled_def)

lemma acquire_inv:
  assumes "spool_inv {} p"
  shows "spool_inv {} (fst (acquire p))"
proof -
  have new: "po_next p \<notin> set (po_sockets p)" "po_next p \<notin> set (po_lingering p)"
    using assms by (auto simp: spool_inv_def members_def lingers_def)
  have "settled {} (fst (acquire p))"
    using assms by (auto simp: acquire_def po_add_def Let_def spool_inv_def settled_def newRef_def less_Suc_eq)
  moreover have "members (fst (acquire p))"
    using assms new by (auto simp: acquire_def po_add_def Let_def spool_inv_def members_def newRef_def)
  moreover have "lingers (fst (acquire p))"
    using assms new by (auto simp: acquire_def po_add_def Let_def spool_inv_def lingers_def newRef_def less_Suc_eq)
  ultimately show ?thesis
    by (simp add: spool_inv_def)
qed

lemma sockets_next: "spool_inv X p \<Longrightarrow> i \<in> set (po_sockets p) \<Longrightarrow> i < po_next p"
  by (auto simp: spool_inv_def members_def)

lemma ref_ops_inv:
  assumes inv: "spool_inv {} p" and i: "i < po_next p"
  shows "spool_inv {} (socket_inactive i p)" "spool_inv {} (socket_release i p)" "spool_inv {} (ref_onidle i p)"
    "sf_refs (po_refs p i) \<ge> 0 \<Longrightarrow> spool_inv {} (socket_active i p)" "spool_inv {} (ref_onbusy i p)" "spool_inv {} (lingeringClose i p)"
proof -
  have s: "spool_inv {i} (setRef i f p)" if "\<And>r. sf_gone (f r) = sf_gone r" "\<And>r. sf_timeout (f r) = sf_timeout r" for f
    using setRef_inv [OF inv that] by simp
  show "spool_inv {} (socket_inactive i p)" "spool_inv {} (socket_release i p)" "spool_inv {} (ref_onidle i p)"
    unfolding socket_inactive_def socket_release_def ref_onidle_def
    using s i inv by (auto intro!: closeMaybe_inv)
  show "spool_inv {} (socket_active i p)" if "sf_refs (po_refs p i) \<ge> 0"
    unfolding socket_active_def
    by (rule spool_inv_settle [of i]) (use unlinger_inv [OF s, of _ i] that in auto)
  show "spool_inv {} (ref_onbusy i p)"
    unfolding ref_onbusy_def
    by (rule spool_inv_settle [of i]) (use unlinger_inv [OF s, of _ i] in auto)
  show "spool_inv {} (lingeringClose i p)"
  proof -
    have "spool_inv {i} (setRef i (\<lambda>r. r\<lparr>sf_timeout := False\<rparr>) (p\<lparr>po_lingering := removeAll i (po_lingering p)\<rparr>))"
      using inv by (auto simp: spool_inv_def settled_def members_def lingers_def)
    then show ?thesis
      unfolding lingeringClose_def using i by (intro closeMaybe_inv) auto
  qed
qed

lemma reusable_inv: "spool_inv X p \<Longrightarrow> spool_inv X (setReusable i b p)"
  using spool_frame [of X p "setReusable i b p" "{}"] by (auto simp: setReusable_def po_lookup_def)

lemma gc_sel [simp]:
  "po_refs (route_gc key route p) = po_refs p" "po_next (route_gc key route p) = po_next p" "po_sockets (route_gc key route p) = po_sockets p"
  "po_lingering (route_gc key route p) = po_lingering p" "po_socketsAdded (route_gc key route p) = po_socketsAdded p"
  "po_socketsRemoved (route_gc key route p) = po_socketsRemoved p"
  by (simp_all add: route_gc_def split: option.splits)

lemma gc_routes: "map_of (po_routes (route_gc key route p)) k = Some r \<Longrightarrow> map_of (po_routes p) k = Some r \<and> \<not> (k = key \<and> r = route)"
  by (auto simp: route_gc_def delete_conv' split: option.splits if_splits)

lemma gc_inv:
  assumes "spool_inv X p"
  shows "spool_inv X (route_gc key route p)"
proof -
  have "spool_inv (X \<union> {}) (route_gc key route p)"
    by (rule spool_frame [OF assms]) (auto dest: gc_routes)
  then show ?thesis
    by simp
qed

lemma connect_inv:
  assumes "spool_inv X p" "i \<in> set (po_sockets p)"
  shows "spool_inv X (fst (routes_onconnect key i address p))"
proof (cases "map_of (po_routes p) key")
  case None
  let ?r = "\<lparr>sr_id = po_nextRoute p, sr_socket = i, sr_address = address\<rparr>"
  have "spool_inv (X \<union> {}) (p\<lparr>po_nextRoute := Suc (po_nextRoute p), po_routes := AList.update key ?r (po_routes p)\<rparr>)"
    by (rule spool_frame [OF assms(1)]) (use assms(2) in \<open>auto simp: update_conv' split: if_splits\<close>)
  then show ?thesis
    using reusable_inv by (simp add: routes_onconnect_def None Let_def)
qed (use assms reusable_inv in \<open>simp add: routes_onconnect_def\<close>)

lemma error_inv: "spool_inv X p \<Longrightarrow> spool_inv X (routes_onerror key i route p)"
  by (simp add: routes_onerror_def Let_def reusable_inv gc_inv)

lemma spool_destroy_inv: "spool_inv {} p \<Longrightarrow> spool_inv {} (destroyRefs is p)"
proof (induction "is" arbitrary: p)
  case (Cons i "is")
  have "spool_inv {i} (setRef i (\<lambda>r. r\<lparr>sf_closed := True\<rparr>) (unlinger i p))"
    using setRef_inv [OF unlinger_inv [OF Cons.prems, of i], of "\<lambda>r. r\<lparr>sf_closed := True\<rparr>" i] by simp
  then have "spool_inv {} (setRef i (\<lambda>r. r\<lparr>sf_closed := True\<rparr>) (unlinger i p))"
    by (rule spool_inv_settle) simp
  then show ?case
    by (simp add: Cons.IH)
qed simp

text \<open>The routes over a socket that has gone are dropped one by one.\<close>

definition dropRoutes :: "nat \<Rightarrow> (bytes \<times> socket_route) list \<Rightarrow> socket_pool \<Rightarrow> socket_pool" where
  "dropRoutes i rs p = fold (\<lambda>(key, route). if sr_socket route = i then route_gc key route else id) rs p"

lemma dropRoutes_sel [simp]:
  "po_refs (dropRoutes i rs p) = po_refs p" "po_next (dropRoutes i rs p) = po_next p" "po_sockets (dropRoutes i rs p) = po_sockets p"
  "po_lingering (dropRoutes i rs p) = po_lingering p" "po_socketsAdded (dropRoutes i rs p) = po_socketsAdded p"
  "po_socketsRemoved (dropRoutes i rs p) = po_socketsRemoved p"
  by (induction rs arbitrary: p) (auto simp: dropRoutes_def)

lemma dropRoutes_routes: "map_of (po_routes (dropRoutes i rs p)) k = Some r \<Longrightarrow> map_of (po_routes p) k = Some r \<and> \<not> ((k, r) \<in> set rs \<and> sr_socket r = i)"
proof (induction rs arbitrary: p)
  case (Cons x rs)
  obtain key route where x: "x = (key, route)" by force
  have d: "dropRoutes i (x # rs) p = dropRoutes i rs (if sr_socket route = i then route_gc key route p else p)"
    by (simp add: dropRoutes_def x)
  have "map_of (po_routes (if sr_socket route = i then route_gc key route p else p)) k = Some r \<and> \<not> ((k, r) \<in> set rs \<and> sr_socket r = i)"
    using Cons.IH [of "if sr_socket route = i then route_gc key route p else p"] Cons.prems unfolding d by simp
  then show ?case
    using gc_routes [of key route p k r] by (auto simp: x split: if_splits)
qed (simp add: dropRoutes_def)

lemma gone_inv:
  assumes inv: "spool_inv {} p" and i: "i \<in> set (po_sockets p)"
  shows "spool_inv {} (socketClosed i p)"
proof -
  define q where "q = po_remove i (setRef i (\<lambda>r. r\<lparr>sf_gone := True\<rparr>) p)"
  have st: "socketClosed i p = dropRoutes i (po_routes q) q"
    by (simp add: socketClosed_def dropRoutes_def q_def Let_def)
  have q: "po_refs q = (po_refs p)(i := (po_refs p i)\<lparr>sf_gone := True\<rparr>)" "po_next q = po_next p" "po_sockets q = removeAll i (po_sockets p)"
    "po_lingering q = removeAll i (po_lingering p)" "po_socketsAdded q = po_socketsAdded p" "po_socketsRemoved q = Suc (po_socketsRemoved p)"
    "po_routes q = po_routes p"
    using i by (simp_all add: q_def po_remove_def Let_def)
  have "settled {} (dropRoutes i (po_routes q) q)"
    using inv by (auto simp: spool_inv_def settled_def q)
  moreover have "lingers (dropRoutes i (po_routes q) q)"
    using inv by (auto simp: spool_inv_def lingers_def q)
  moreover have "members (dropRoutes i (po_routes q) q)"
  proof -
    have m: "members p"
      using inv by (simp add: spool_inv_def)
    then have d: "distinct (po_sockets p)"
      by (simp add: members_def)
    have "sr_socket r \<in> set (removeAll i (po_sockets p))" if "map_of (po_routes (dropRoutes i (po_routes q) q)) k = Some r" for k r
      using dropRoutes_routes [OF that] members_routes [OF m, of k r] map_of_SomeD [of "po_routes p" k r] unfolding q by auto
    moreover have "length (po_sockets p) = Suc (length (removeAll i (po_sockets p)))"
      using i length_pos_if_in_set [OF i] unfolding distinct_remove1_removeAll [OF d, symmetric] by (simp add: length_remove1)
    moreover have "set (po_sockets p) = {j. j < po_next p \<and> \<not> sf_gone (po_refs p j)}" "po_socketsAdded p = length (po_sockets p) + po_socketsRemoved p"
      using m by (simp_all add: members_def)
    then have "set (removeAll i (po_sockets p)) = {j. j < po_next p \<and> \<not> sf_gone (((po_refs p)(i := (po_refs p i)\<lparr>sf_gone := True\<rparr>)) j)}"
      by auto
    ultimately show ?thesis
      using distinct_removeAll [OF d, of i] \<open>po_socketsAdded p = _\<close> unfolding members_def dropRoutes_sel q
      by (intro conjI allI impI) (assumption | linarith | blast)+
  qed
  ultimately show ?thesis
    by (simp add: st spool_inv_def)
qed

section \<open>When a socket is closed\<close>

lemma unlinger_released [simp]: "sf_released (po_refs (unlinger i p) j) = sf_released (po_refs p j)"
  by (simp add: unlinger_def)

lemma closeMaybe_sel [simp]:
  "sf_refs (po_refs (closeMaybe i p) j) = sf_refs (po_refs p j)" "sf_released (po_refs (closeMaybe i p) j) = sf_released (po_refs p j)"
  "sf_idle (po_refs (closeMaybe i p) j) = sf_idle (po_refs p j)" "po_next (closeMaybe i p) = po_next p"
  by (simp_all add: closeMaybe_def ref_close_def Let_def)

lemma setReusable_sel [simp]:
  "sf_refs (po_refs (setReusable i b p) j) = sf_refs (po_refs p j)" "sf_released (po_refs (setReusable i b p) j) = sf_released (po_refs p j)"
  "sf_closed (po_refs (setReusable i b p) j) = sf_closed (po_refs p j)" "po_next (setReusable i b p) = po_next p"
  by (simp_all add: setReusable_def po_lookup_def)

lemma destroyRefs_sel [simp]:
  "sf_refs (po_refs (destroyRefs is p) j) = sf_refs (po_refs p j)" "sf_released (po_refs (destroyRefs is p) j) = sf_released (po_refs p j)"
  "po_next (destroyRefs is p) = po_next p"
  by (induction "is" arbitrary: p) auto

lemma closeMaybe_closes:
  "sf_closed (po_refs (closeMaybe i p) j) \<Longrightarrow> sf_closed (po_refs p j) \<or> sf_refs (po_refs p j) = 0 \<and> sf_idle (po_refs p j)"
  by (auto simp: closeMaybe_def ref_close_def Let_def split: if_splits)

lemmas ref_op_defs = acquire_def po_add_def socket_active_def socket_inactive_def socket_release_def ref_onidle_def ref_onbusy_def lingeringClose_def
  socketClosed_def po_remove_def routes_onconnect_def routes_onerror_def po_destroy_def newRef_def Let_def

lemma drop_fold: "fold (\<lambda>(key, route). if sr_socket route = i then route_gc key route else id) rs p = dropRoutes i rs p"
  by (simp add: dropRoutes_def)

lemma step_closes:
  assumes "sf_closed (po_refs (spool_step e p) i)" "\<not> sf_closed (po_refs p i)" "e \<noteq> DestroyPool"
  shows "sf_refs (po_refs (spool_step e p) i) = 0 \<and> sf_idle (po_refs (spool_step e p) i)"
  using assms
  by (cases e) (auto simp: ref_op_defs drop_fold split: if_splits option.splits dest!: closeMaybe_closes)

lemma step_refs:
  assumes "\<forall>i < po_next p. heldRefs (po_refs p i) \<ge> 0"
  shows "\<forall>i < po_next (spool_step e p). heldRefs (po_refs (spool_step e p) i) \<ge> 0"
  using assms
  by (cases e) (auto simp: ref_op_defs heldRefs_def drop_fold less_Suc_eq split: if_splits option.splits)

definition spool_ok :: "socket_pool \<Rightarrow> bool" where
  "spool_ok p \<longleftrightarrow> spool_inv {} p \<and> (\<forall>i < po_next p. heldRefs (po_refs p i) \<ge> 0)"

lemma spool_step_ok:
  assumes "spool_ok p"
  shows "spool_ok (spool_step e p)"
proof -
  have inv: "spool_inv {} p" and held: "\<forall>i < po_next p. heldRefs (po_refs p i) \<ge> 0"
    using assms by (simp_all add: spool_ok_def)
  have "spool_inv {} (spool_step e p)"
  proof (cases e)
    case (Active i)
    have "sf_refs (po_refs p i) \<ge> 0" if "i < po_next p"
      using held that by (auto simp: heldRefs_def split: if_splits)
    then show ?thesis
      using Active ref_ops_inv(4) [OF inv] inv by simp
  next
    case (SetHandler i)
    have "spool_inv ({} \<union> {}) (setRef i (\<lambda>r. r\<lparr>sf_handler := True\<rparr>) p)"
      by (rule spool_frame [OF inv]) auto
    then show ?thesis
      using SetHandler inv by simp
  qed (use inv sockets_next [OF inv] in \<open>auto simp: acquire_inv ref_ops_inv gone_inv connect_inv error_inv spool_destroy_inv po_destroy_def\<close>)
  then show ?thesis
    using step_refs [OF held] by (simp add: spool_ok_def)
qed

interpretation spool: op_system spool_step spool_ok
  by unfold_locales (rule spool_step_ok)

lemma spool_new_ok: "spool_ok SocketPool_new"
  by (simp add: spool_ok_def spool_inv_def settled_def members_def lingers_def SocketPool_new_def)

section \<open>The property\<close>



end
