(* ===== verification/Hole_Puncher.thy ===== *)
theory Hole_Puncher
  imports Socket_Pool Nat_Sampler Compact_Reference
begin

text \<open>
  The hole puncher (\<^verbatim>\<open>lib/holepuncher.js\<close>) over the socket pool and the NAT sampler. The record holds the
  puncher and what it shares with the node: the pool and the counters of random punches. What it sends and
  tells its owner is its trace. Its background loops are turns of their own, with their local variables as
  arguments; the sends of one turn are taken together. Random ports and the clock are arguments, and so are
  whether the node is firewalled and its table of nodes, for the sampler.
\<close>

section \<open>State\<close>

definition BIRTHDAY_SOCKETS :: nat where "BIRTHDAY_SOCKETS = 256"
definition HOLEPUNCH_TTL :: nat where "HOLEPUNCH_TTL = 5"
definition DEFAULT_TTL :: nat where "DEFAULT_TTL = 64"
definition MAX_REOPENS :: nat where "MAX_REOPENS = 3"

record punch_address =
  pa_host :: string
  pa_port :: nat
  pa_verified :: bool

datatype punch_action =
    Probe nat nat string nat
  | OnConnect nat nat string
  | OnAbort

record puncher =
  hu_pool :: socket_pool
  hu_randomPunches :: int
  hu_lastRandomPunch :: int
  hu_consistent :: nat
  hu_random :: nat
  hu_isInitiator :: bool
  hu_punching :: bool
  hu_connected :: bool
  hu_destroyed :: bool
  hu_randomized :: bool
  hu_remoteFirewall :: nat
  hu_remoteAddresses :: "punch_address list"
  hu_remoteHolepunching :: bool
  hu_started :: bool
  hu_nat :: nat_sampler
  hu_allHolders :: "nat list"
  hu_holder :: nat
  hu_acquired :: "nat list"
  hu_trace :: "punch_action list"

definition sendHolepunch :: "nat \<Rightarrow> string \<Rightarrow> nat \<Rightarrow> bool \<Rightarrow> puncher \<Rightarrow> puncher" where
  "sendHolepunch socket h p lowTTL s = s\<lparr>hu_trace := hu_trace s @ [Probe socket p h (if lowTTL then HOLEPUNCH_TTL else DEFAULT_TTL)]\<rparr>"

text \<open>\<open>_addRef\<close> of a reference that is acquired for it.\<close>

definition addRef :: "puncher \<Rightarrow> puncher \<times> nat" where
  "addRef s =
     (let (p, i) = acquire (hu_pool s)
      in (s\<lparr>hu_pool := setRef i (\<lambda>r. r\<lparr>sf_handler := True\<rparr>) p, hu_allHolders := hu_allHolders s @ [i], hu_acquired := i # hu_acquired s\<rparr>, i))"

definition Holepuncher_new :: "socket_pool \<Rightarrow> int \<Rightarrow> int \<Rightarrow> bool \<Rightarrow> nat \<Rightarrow> bool \<Rightarrow> address list \<Rightarrow> puncher" where
  "Holepuncher_new pool randomPunches lastRandomPunch isInitiator remoteFirewall firewalled nodes =
     (let (s, i) = addRef \<lparr>hu_pool = pool, hu_randomPunches = randomPunches, hu_lastRandomPunch = lastRandomPunch, hu_consistent = 0, hu_random = 0,
           hu_isInitiator = isInitiator, hu_punching = False, hu_connected = False, hu_destroyed = False, hu_randomized = False,
           hu_remoteFirewall = remoteFirewall, hu_remoteAddresses = [], hu_remoteHolepunching = False, hu_started = False,
           hu_nat = fst (na_autoSample nodes True (Nat_new firewalled)), hu_allHolders = [], hu_holder = 0, hu_acquired = [], hu_trace = []\<rparr>
      in s\<lparr>hu_holder := i\<rparr>)"

section \<open>The remote side\<close>

definition hu_isVerified :: "string \<Rightarrow> puncher \<Rightarrow> bool" where
  "hu_isVerified h s \<longleftrightarrow> (\<exists>a \<in> set (hu_remoteAddresses s). pa_verified a \<and> pa_host a = h)"

definition updateRemote :: "bool \<Rightarrow> nat \<Rightarrow> address list option \<Rightarrow> string option \<Rightarrow> puncher \<Rightarrow> puncher" where
  "updateRemote punching firewall addresses verified s =
     s\<lparr>hu_remoteFirewall := firewall, hu_remoteHolepunching := punching,
       hu_remoteAddresses := (case addresses of None \<Rightarrow> [] | Some as \<Rightarrow>
         map (\<lambda>a. \<lparr>pa_host = host a, pa_port = port a, pa_verified = verified = Some (host a) \<or> hu_isVerified (host a) s\<rparr>) as)\<rparr>"

definition coerceFirewall :: "nat \<Rightarrow> nat" where
  "coerceFirewall fw = (if fw = OPEN_FIREWALL then CONSISTENT_FIREWALL else fw)"

definition hu_unstable :: "puncher \<Rightarrow> bool" where
  "hu_unstable s \<longleftrightarrow> hu_remoteFirewall s \<ge> RANDOM_FIREWALL \<and> na_firewall (hu_nat s) \<ge> RANDOM_FIREWALL \<or> na_firewall (hu_nat s) = UNKNOWN_FIREWALL"

definition hu_done :: "puncher \<Rightarrow> bool" where
  "hu_done s \<longleftrightarrow> hu_destroyed s \<or> hu_connected s"

section \<open>Reopening\<close>

definition releaseRef :: "nat \<Rightarrow> puncher \<Rightarrow> puncher" where
  "releaseRef i s = s\<lparr>hu_pool := socket_release i (hu_pool s)\<rparr>"

definition hu_reset :: "bool \<Rightarrow> address list \<Rightarrow> puncher \<Rightarrow> puncher" where
  "hu_reset firewalled nodes s =
     (let prev = hu_holder s; (s, i) = addRef (s\<lparr>hu_allHolders := butlast (hu_allHolders s)\<rparr>);
          s = releaseRef prev (s\<lparr>hu_holder := i\<rparr>)
      in s\<lparr>hu_nat := fst (na_autoSample nodes True (Nat_new firewalled))\<rparr>)"

text \<open>One turn of \<open>_reopen\<close> and its result.\<close>

definition reopenTurn :: "bool \<Rightarrow> address list \<Rightarrow> nat \<Rightarrow> puncher \<Rightarrow> puncher \<times> nat option" where
  "reopenTurn firewalled nodes i s =
     (if hu_unstable s \<and> i < MAX_REOPENS \<and> \<not> hu_done s \<and> \<not> hu_punching s then (hu_reset firewalled nodes s, Some (Suc i)) else (s, None))"

definition reopenResult :: "puncher \<Rightarrow> bool" where
  "reopenResult s \<longleftrightarrow> coerceFirewall (na_firewall (hu_nat s)) = CONSISTENT_FIREWALL"

datatype analysis = Stable | NotStable | Reopening

definition analyze :: "bool \<Rightarrow> puncher \<Rightarrow> analysis" where
  "analyze allowReopen s = (if hu_unstable s then (if allowReopen then Reopening else NotStable) else Stable)"

section \<open>Counters and the end\<close>

definition incrementRandomized :: "puncher \<Rightarrow> puncher" where
  "incrementRandomized s = (if hu_randomized s then s else s\<lparr>hu_randomized := True, hu_randomPunches := hu_randomPunches s + 1\<rparr>)"

definition decrementRandomized :: "int \<Rightarrow> puncher \<Rightarrow> puncher" where
  "decrementRandomized now s =
     (if hu_randomized s then s\<lparr>hu_lastRandomPunch := now, hu_randomized := False, hu_randomPunches := hu_randomPunches s - 1\<rparr> else s)"

definition hu_destroy :: "int \<Rightarrow> puncher \<Rightarrow> puncher" where
  "hu_destroy now s =
     (if hu_destroyed s then s
      else (let s = s\<lparr>hu_destroyed := True, hu_punching := False\<rparr>;
                s = (fold releaseRef (hu_allHolders s) s)\<lparr>hu_allHolders := []\<rparr>;
                s = s\<lparr>hu_nat := na_destroy (hu_nat s)\<rparr>
        in if hu_connected s then s else (decrementRandomized now s)\<lparr>hu_trace := hu_trace s @ [OnAbort]\<rparr>))"

definition autoDestroy :: "int \<Rightarrow> puncher \<Rightarrow> puncher" where
  "autoDestroy now s = (if hu_connected s then s else hu_destroy now s)"

definition onholepunchmessage :: "int \<Rightarrow> string \<Rightarrow> nat \<Rightarrow> nat \<Rightarrow> puncher \<Rightarrow> puncher" where
  "onholepunchmessage now h p ref s =
     (if \<not> hu_isInitiator s then sendHolepunch ref h p False s
      else if hu_connected s then s
      else (let s = s\<lparr>hu_connected := True, hu_punching := False\<rparr>;
                s = fold releaseRef (filter (\<lambda>r. r \<noteq> ref) (hu_allHolders s)) s;
                s = decrementRandomized now (s\<lparr>hu_allHolders := [ref]\<rparr>)
        in s\<lparr>hu_trace := hu_trace s @ [OnConnect ref p h]\<rparr>))"

section \<open>Punching\<close>

datatype punch_plan = Refused | ConsistentProbe | RandomProbes punch_address | BirthdaySockets punch_address

definition startPunch :: "puncher \<Rightarrow> puncher \<times> punch_plan" where
  "startPunch s =
     (if hu_done s \<or> hu_remoteAddresses s = [] then (s, Refused)
      else (let s = s\<lparr>hu_punching := True\<rparr>; local = coerceFirewall (na_firewall (hu_nat s)); remote = coerceFirewall (hu_remoteFirewall s)
        in if local = CONSISTENT_FIREWALL \<and> remote = CONSISTENT_FIREWALL then (s\<lparr>hu_consistent := Suc (hu_consistent s)\<rparr>, ConsistentProbe)
           else (case List.find pa_verified (hu_remoteAddresses s) of
             None \<Rightarrow> (s, Refused)
           | Some a \<Rightarrow>
               if local = CONSISTENT_FIREWALL \<and> remote \<ge> RANDOM_FIREWALL
               then (incrementRandomized (s\<lparr>hu_random := Suc (hu_random s)\<rparr>), RandomProbes a)
               else if local \<ge> RANDOM_FIREWALL \<and> remote = CONSISTENT_FIREWALL
               then (incrementRandomized (s\<lparr>hu_random := Suc (hu_random s)\<rparr>), BirthdaySockets a)
               else (s, Refused))))"

text \<open>\<open>punch\<close> starts at most once; later calls share the first promise.\<close>

definition punch :: "puncher \<Rightarrow> puncher \<times> punch_plan option" where
  "punch s = (if hu_started s then (s, None) else (let (s, plan) = startPunch (s\<lparr>hu_started := True\<rparr>) in (s, Some plan)))"

definition consistentTurn :: "int \<Rightarrow> nat \<Rightarrow> puncher \<Rightarrow> puncher \<times> nat option" where
  "consistentTurn now tries s =
     (if hu_punching s \<and> tries < 10 then
        (let tries = Suc tries
         in (fold (\<lambda>a s. sendHolepunch (hu_holder s) (pa_host a) (pa_port a) False s)
               (filter (\<lambda>a. pa_verified a \<or> tries mod 4 = 0) (hu_remoteAddresses s)) s, Some tries))
      else (autoDestroy now s, None))"

definition randomTurn :: "int \<Rightarrow> nat \<Rightarrow> punch_address \<Rightarrow> nat \<Rightarrow> puncher \<Rightarrow> puncher \<times> nat option" where
  "randomTurn now p a tries s =
     (if hu_punching s \<and> tries > 0 then (sendHolepunch (hu_holder s) (pa_host a) p False s, Some (tries - 1)) else (autoDestroy now s, None))"

definition keepAliveTurn :: "int \<Rightarrow> punch_address \<Rightarrow> nat \<times> nat \<times> nat \<Rightarrow> puncher \<Rightarrow> puncher \<times> (nat \<times> nat \<times> nat) option" where
  "keepAliveTurn now a st s =
     (case st of (i, lowTTLRounds, tries) \<Rightarrow>
        if hu_punching s \<and> tries > 0 then
          (let (i, lowTTLRounds) = (if i = length (hu_allHolders s) then (0, lowTTLRounds - 1) else (i, lowTTLRounds))
           in (sendHolepunch (hu_allHolders s ! i) (pa_host a) (pa_port a) (lowTTLRounds > 0) s, Some (Suc i, lowTTLRounds, tries - 1)))
        else (autoDestroy now s, None))"

definition birthdayTurn :: "punch_address \<Rightarrow> puncher \<Rightarrow> puncher \<times> bool" where
  "birthdayTurn a s =
     (if hu_punching s \<and> length (hu_allHolders s) < BIRTHDAY_SOCKETS then
        (let (s, i) = addRef s in (sendHolepunch i (pa_host a) (pa_port a) True s, True))
      else (s, False))"

text \<open>The number \<open>r\<close> is what \<open>Math.random\<close> yields, in units of 2 to the power of -53.\<close>

definition randomPort :: "nat \<Rightarrow> nat" where
  "randomPort r = 1000 + r * 64536 div 2 ^ 53"

section \<open>Local addresses\<close>

record network_interface =
  ni_host :: string
  ni_family :: nat
  ni_internal :: bool

definition localAddresses :: "address \<Rightarrow> network_interface list \<Rightarrow> address list" where
  "localAddresses own interfaces =
     (if host own = ''127.0.0.1'' then [own]
      else (let addrs = map (\<lambda>n. \<lparr>host = ni_host n, port = port own\<rparr>) (filter (\<lambda>n. ni_family n = 4 \<and> \<not> ni_internal n) interfaces)
        in if addrs = [] then [\<lparr>host = ''127.0.0.1'', port = port own\<rparr>] else addrs))"

text \<open>The \<open>k\<close>th part of a host, which is \<open>undefined\<close> when there is none.\<close>

definition segment :: "nat \<Rightarrow> string \<Rightarrow> string option" where
  "segment k h = (let parts = splitOn CHR ''.'' h in if k < length parts then Some (parts ! k) else None)"

text \<open>The inner loop for one local host; \<open>best\<close> is the segment and the address found so far, \<open>Inl\<close> an early return.\<close>

fun matchRemotes :: "string \<Rightarrow> address list \<Rightarrow> nat \<times> address option \<Rightarrow> address + nat \<times> address option" where
  "matchRemotes a [] best = Inr best"
| "matchRemotes a (r # rs) best =
     (let b = host r
      in if segment 0 a = segment 0 b then
           (let best = (if fst best = 1 then (2, Some r) else best)
            in if segment 1 a = segment 1 b then
                 (let best = (if fst best = 2 then (3, Some r) else best)
                  in if segment 2 a = segment 2 b then Inl r else matchRemotes a rs best)
               else matchRemotes a rs best)
         else matchRemotes a rs best)"

fun matchLocals :: "address list \<Rightarrow> address list \<Rightarrow> nat \<times> address option \<Rightarrow> address option" where
  "matchLocals [] remotes best = snd best"
| "matchLocals (l # ls) remotes best =
     (case matchRemotes (host l) remotes best of Inl r \<Rightarrow> Some r | Inr best \<Rightarrow> matchLocals ls remotes best)"

definition matchAddress :: "address list \<Rightarrow> address list \<Rightarrow> address option" where
  "matchAddress locals remotes = (if remotes = [] then None else matchLocals locals remotes (1, None))"

end
