(* ===== verification/Puncher_Properties.thy ===== *)
theory Puncher_Properties
  imports Hole_Puncher
begin

text \<open>
  What a hole puncher owes the node, whatever order messages, timers, loops and other users of the pool come
  in: its sockets are released exactly once, the counter of random punches is given back, and its owner hears of
  one outcome.
\<close>

section \<open>What the pool does to references\<close>

abbreviation rel :: "socket_pool \<Rightarrow> nat \<Rightarrow> bool" where
  "rel p i \<equiv> sf_released (po_refs p i)"

abbreviation han :: "socket_pool \<Rightarrow> nat \<Rightarrow> bool" where
  "han p i \<equiv> sf_handler (po_refs p i)"

lemma unlinger_handler [simp]: "han (unlinger i p) j = han p j"
  by (simp add: unlinger_def)

lemma closeMaybe_handler [simp]: "han (closeMaybe i p) j = han p j"
  by (simp add: closeMaybe_def ref_close_def Let_def)

lemma release_sel [simp]:
  "rel (socket_release i p) j \<longleftrightarrow> rel p j \<or> j = i"
  "han (socket_release i p) j \<longleftrightarrow> han p j \<and> (rel p i \<or> j \<noteq> i)"
  "po_next (socket_release i p) = po_next p"
  by (auto simp: socket_release_def)

lemma setReusable_handler [simp]: "han (setReusable i b p) j = han p j"
  by (simp add: setReusable_def po_lookup_def)

lemma destroyRefs_handler [simp]: "han (destroyRefs is p) j = han p j"
  by (induction "is" arbitrary: p) auto

lemma pool_step_keeps:
  assumes "i < po_next p" "e \<noteq> Release i" "e \<noteq> SetHandler i"
  shows "rel (spool_step e p) i = rel p i \<and> han (spool_step e p) i = han p i \<and> i < po_next (spool_step e p)"
  using assms
  by (cases e) (auto simp: ref_op_defs drop_fold split: if_splits option.splits)

section \<open>Accounts\<close>

fun isOutcome :: "punch_action \<Rightarrow> bool" where
  "isOutcome (Probe a b c d) = False"
| "isOutcome (OnConnect a b c) = True"
| "isOutcome OnAbort = True"

definition holders_ok :: "puncher \<Rightarrow> bool" where
  "holders_ok s \<longleftrightarrow> distinct (hu_allHolders s) \<and> set (hu_allHolders s) \<subseteq> set (hu_acquired s)
     \<and> (\<forall>i \<in> set (hu_acquired s). i < po_next (hu_pool s) \<and> (rel (hu_pool s) i \<longleftrightarrow> i \<notin> set (hu_allHolders s)) \<and> (rel (hu_pool s) i \<longrightarrow> \<not> han (hu_pool s) i))"

definition phase_ok :: "int \<Rightarrow> puncher \<Rightarrow> bool" where
  "phase_ok base s \<longleftrightarrow> (hu_destroyed s \<longrightarrow> hu_allHolders s = []) \<and> (hu_connected s \<and> \<not> hu_destroyed s \<longrightarrow> length (hu_allHolders s) = 1)
     \<and> (\<not> hu_done s \<longrightarrow> (\<exists>hs. hu_allHolders s = hu_holder s # hs \<and> (hu_punching s \<or> hs = [])))
     \<and> (hu_done s \<longrightarrow> \<not> hu_punching s \<and> \<not> hu_randomized s) \<and> length (hu_allHolders s) \<le> BIRTHDAY_SOCKETS
     \<and> hu_randomPunches s = base + of_bool (hu_randomized s) \<and> length (filter isOutcome (hu_trace s)) = of_bool (hu_done s)"

definition puncher_inv :: "int \<Rightarrow> puncher \<Rightarrow> bool" where
  "puncher_inv base s \<longleftrightarrow> holders_ok s \<and> phase_ok base s"

lemma releases_pool:
  "hu_allHolders (fold releaseRef is s) = hu_allHolders s" "hu_acquired (fold releaseRef is s) = hu_acquired s"
  "po_next (hu_pool (fold releaseRef is s)) = po_next (hu_pool s)"
  "rel (hu_pool (fold releaseRef is s)) j \<longleftrightarrow> rel (hu_pool s) j \<or> j \<in> set is"
  by (induction "is" arbitrary: s) (auto simp: releaseRef_def)

lemma releases_handler:
  assumes "\<forall>i \<in> set is. \<not> rel (hu_pool s) i" "distinct is"
  shows "han (hu_pool (fold releaseRef is s)) j \<longleftrightarrow> han (hu_pool s) j \<and> j \<notin> set is"
  using assms
proof (induction "is" arbitrary: s)
  case (Cons i "is")
  have "\<forall>k \<in> set is. \<not> rel (hu_pool (releaseRef i s)) k"
    using Cons.prems by (auto simp: releaseRef_def)
  then show ?case
    using Cons.IH [of "releaseRef i s"] Cons.prems by (auto simp: releaseRef_def)
qed simp

lemma releases_same [simp]:
  "hu_connected (fold releaseRef is s) = hu_connected s" "hu_destroyed (fold releaseRef is s) = hu_destroyed s"
  "hu_randomized (fold releaseRef is s) = hu_randomized s" "hu_punching (fold releaseRef is s) = hu_punching s"
  "hu_randomPunches (fold releaseRef is s) = hu_randomPunches s" "hu_trace (fold releaseRef is s) = hu_trace s"
  "hu_holder (fold releaseRef is s) = hu_holder s"
  by (induction "is" arbitrary: s) (auto simp: releaseRef_def)

text \<open>Releasing some of the holders and keeping the others.\<close>

lemma release_holders:
  assumes "holders_ok s" "set is \<union> set hs = set (hu_allHolders s)" "set is \<inter> set hs = {}" "distinct is" "distinct hs"
  shows "holders_ok ((fold releaseRef is s)\<lparr>hu_allHolders := hs\<rparr>)"
proof -
  have "\<forall>i \<in> set is. \<not> rel (hu_pool s) i"
    using assms(1,2) by (auto simp: holders_ok_def)
  note h = releases_handler [OF this assms(4)]
  show ?thesis
    using assms unfolding holders_ok_def by (auto simp: releases_pool h)
qed

lemma holders_frame:
  assumes "holders_ok s" "hu_pool t = hu_pool s" "hu_allHolders t = hu_allHolders s" "hu_acquired t = hu_acquired s"
  shows "holders_ok t"
  using assms by (simp add: holders_ok_def)

lemma addRef_holders:
  assumes "holders_ok s"
  shows "holders_ok (fst (addRef s))"
  using assms unfolding holders_ok_def
  by (auto simp: addRef_def acquire_def po_add_def newRef_def Let_def split_beta)

lemma addRef_sel [simp]:
  "hu_allHolders (fst (addRef s)) = hu_allHolders s @ [snd (addRef s)]" "hu_holder (fst (addRef s)) = hu_holder s"
  "hu_connected (fst (addRef s)) = hu_connected s" "hu_destroyed (fst (addRef s)) = hu_destroyed s"
  "hu_randomized (fst (addRef s)) = hu_randomized s" "hu_punching (fst (addRef s)) = hu_punching s"
  "hu_randomPunches (fst (addRef s)) = hu_randomPunches s" "hu_trace (fst (addRef s)) = hu_trace s"
  by (simp_all add: addRef_def Let_def split_beta)

section \<open>Every operation keeps them\<close>

lemma destroy_keeps:
  assumes "puncher_inv base s"
  shows "puncher_inv base (hu_destroy now s)"
proof (cases "hu_destroyed s")
  case False
  let ?d = "(fold releaseRef (hu_allHolders s) (s\<lparr>hu_destroyed := True, hu_punching := False\<rparr>))\<lparr>hu_allHolders := []\<rparr>"
  have "holders_ok ?d"
    by (rule release_holders) (use assms in \<open>auto simp: puncher_inv_def holders_ok_def\<close>)
  then have "holders_ok (hu_destroy now s)"
    using False by (auto simp: hu_destroy_def decrementRandomized_def Let_def intro: holders_frame)
  moreover have "phase_ok base (hu_destroy now s)"
    using assms False by (auto simp: puncher_inv_def phase_ok_def hu_destroy_def decrementRandomized_def hu_done_def Let_def)
  ultimately show ?thesis
    by (simp add: puncher_inv_def)
qed (use assms in \<open>simp add: hu_destroy_def\<close>)

lemma message_keeps:
  assumes inv: "puncher_inv base s" and ref: "ref \<in> set (hu_acquired s)" "han (hu_pool s) ref"
  shows "puncher_inv base (onholepunchmessage now h p ref s)"
proof (cases "hu_isInitiator s \<and> \<not> hu_connected s")
  case True
  have r: "ref \<in> set (hu_allHolders s)" and live: "\<not> hu_done s"
    using inv ref True by (auto simp: puncher_inv_def holders_ok_def phase_ok_def hu_done_def)
  let ?c = "s\<lparr>hu_connected := True, hu_punching := False\<rparr>"
  let ?d = "(fold releaseRef (filter (\<lambda>r. r \<noteq> ref) (hu_allHolders s)) ?c)\<lparr>hu_allHolders := [ref]\<rparr>"
  have "holders_ok ?d"
    by (rule release_holders) (use inv r in \<open>auto simp: puncher_inv_def holders_ok_def\<close>)
  then have "holders_ok (onholepunchmessage now h p ref s)"
    using True by (auto simp: onholepunchmessage_def decrementRandomized_def Let_def intro: holders_frame)
  moreover have "phase_ok base (onholepunchmessage now h p ref s)"
    using inv live True
    by (auto simp: puncher_inv_def phase_ok_def onholepunchmessage_def decrementRandomized_def hu_done_def BIRTHDAY_SOCKETS_def Let_def)
  ultimately show ?thesis
    by (simp add: puncher_inv_def)
qed (use inv in \<open>auto simp: onholepunchmessage_def sendHolepunch_def puncher_inv_def holders_ok_def phase_ok_def hu_done_def\<close>)

lemma puncher_frame:
  assumes "puncher_inv base s" "hu_pool t = hu_pool s" "hu_allHolders t = hu_allHolders s" "hu_acquired t = hu_acquired s" "hu_holder t = hu_holder s"
    "hu_connected t = hu_connected s" "hu_destroyed t = hu_destroyed s" "hu_randomized t = hu_randomized s" "hu_punching t = hu_punching s"
    "hu_randomPunches t = hu_randomPunches s" "filter isOutcome (hu_trace t) = filter isOutcome (hu_trace s)"
  shows "puncher_inv base t"
  using assms by (simp add: puncher_inv_def holders_ok_def phase_ok_def hu_done_def)

lemma autoDestroy_keeps: "puncher_inv base s \<Longrightarrow> puncher_inv base (autoDestroy now s)"
  by (simp add: autoDestroy_def destroy_keeps)

lemma probe_keeps: "puncher_inv base s \<Longrightarrow> puncher_inv base (sendHolepunch i h p lowTTL s)"
  by (auto simp: sendHolepunch_def intro: puncher_frame)

lemma probes_keep: "puncher_inv base s \<Longrightarrow> puncher_inv base (fold (\<lambda>a s. sendHolepunch (hu_holder s) (pa_host a) (pa_port a) False s) as s)"
  by (induction as arbitrary: s) (simp_all add: probe_keeps)

lemma reset_keeps:
  assumes inv: "puncher_inv base s" and live: "\<not> hu_done s" "\<not> hu_punching s"
  shows "puncher_inv base (hu_reset firewalled nodes s)"
proof -
  have one: "hu_allHolders s = [hu_holder s]"
    using inv live by (auto simp: puncher_inv_def phase_ok_def)
  let ?t = "fst (addRef s)" and ?i = "snd (addRef s)"
  have t: "holders_ok ?t"
    using inv by (simp add: puncher_inv_def addRef_holders)
  have "holders_ok ((fold releaseRef [hu_holder s] ?t)\<lparr>hu_allHolders := [?i]\<rparr>)"
    by (rule release_holders [OF t]) (use t in \<open>auto simp: one holders_ok_def\<close>)
  then have "holders_ok (hu_reset firewalled nodes s)"
    by (auto simp: hu_reset_def addRef_def releaseRef_def one Let_def split_beta intro: holders_frame)
  moreover have "phase_ok base (hu_reset firewalled nodes s)"
    using inv live by (auto simp: puncher_inv_def phase_ok_def hu_reset_def addRef_def releaseRef_def hu_done_def one BIRTHDAY_SOCKETS_def Let_def split_beta)
  ultimately show ?thesis
    by (simp add: puncher_inv_def)
qed

lemma birthday_keeps:
  assumes "puncher_inv base s"
  shows "puncher_inv base (fst (birthdayTurn a s))"
proof (cases "hu_punching s \<and> length (hu_allHolders s) < BIRTHDAY_SOCKETS")
  case True
  have "holders_ok (fst (addRef s))"
    using assms by (simp add: puncher_inv_def addRef_holders)
  moreover have "phase_ok base (fst (addRef s))"
    using assms True by (auto simp: puncher_inv_def phase_ok_def hu_done_def)
  ultimately have "puncher_inv base (fst (addRef s))"
    by (simp add: puncher_inv_def)
  then show ?thesis
    using True by (simp add: birthdayTurn_def Let_def split_beta probe_keeps)
qed (use assms in \<open>auto simp: birthdayTurn_def\<close>)

lemma punch_keeps:
  assumes "puncher_inv base s"
  shows "puncher_inv base (fst (punch s))"
proof -
  have "puncher_inv base (fst (startPunch t))" if "puncher_inv base t" for t
  proof (cases "hu_done t \<or> hu_remoteAddresses t = []")
    case False
    let ?p = "t\<lparr>hu_punching := True\<rparr>"
    have p: "puncher_inv base ?p"
      using that False by (auto simp: puncher_inv_def phase_ok_def hu_done_def intro: holders_frame)
    have i: "puncher_inv base (incrementRandomized (?p\<lparr>hu_random := n\<rparr>))" for n
      using p False by (auto simp: incrementRandomized_def puncher_inv_def phase_ok_def hu_done_def intro: holders_frame)
    have c: "puncher_inv base (?p\<lparr>hu_consistent := n\<rparr>)" for n
      using p by (rule puncher_frame) simp_all
    show ?thesis
      using False p i c unfolding startPunch_def Let_def by (simp split: option.splits)
  qed (use that in \<open>simp add: startPunch_def\<close>)
  moreover have "puncher_inv base (s\<lparr>hu_started := True\<rparr>)"
    using assms by (rule puncher_frame) simp_all
  ultimately show ?thesis
    using assms by (simp add: punch_def Let_def split_beta)
qed

section \<open>Runs\<close>

datatype punch_event =
    PMessage int string nat nat
  | PUpdate bool nat "address list option" "string option"
  | PPunch
  | PConsistent int nat
  | PRandom int nat punch_address nat
  | PKeepAlive int punch_address "nat \<times> nat \<times> nat"
  | PBirthday punch_address
  | PReopen bool "address list" nat
  | PNat bool "address list" address address
  | PDestroy int
  | PPool spool_event

text \<open>
  A message reaches the puncher only over a reference whose handler it is. Other users of the pool do what
  they like, but neither release the puncher's references nor take their handler.
\<close>

fun punch_step :: "punch_event \<Rightarrow> puncher \<Rightarrow> puncher" where
  "punch_step (PMessage now h p ref) s =
     (if ref \<in> set (hu_acquired s) \<and> han (hu_pool s) ref then onholepunchmessage now h p ref s else s)"
| "punch_step (PUpdate punching firewall addresses verified) s = updateRemote punching firewall addresses verified s"
| "punch_step PPunch s = fst (punch s)"
| "punch_step (PConsistent now tries) s = fst (consistentTurn now tries s)"
| "punch_step (PRandom now p a tries) s = fst (randomTurn now p a tries s)"
| "punch_step (PKeepAlive now a st) s = fst (keepAliveTurn now a st s)"
| "punch_step (PBirthday a) s = fst (birthdayTurn a s)"
| "punch_step (PReopen firewalled nodes i) s = fst (reopenTurn firewalled nodes i s)"
| "punch_step (PNat firewalled nodes addr origin) s =
     (case na_onpong firewalled nodes addr origin (hu_nat s) of Inl _ \<Rightarrow> s | Inr (n, _) \<Rightarrow> s\<lparr>hu_nat := n\<rparr>)"
| "punch_step (PDestroy now) s = hu_destroy now s"
| "punch_step (PPool e) s =
     (if \<exists>i \<in> set (hu_acquired s). e = Release i \<or> e = SetHandler i then s else s\<lparr>hu_pool := spool_step e (hu_pool s)\<rparr>)"

lemma punch_step_keeps:
  assumes inv: "puncher_inv base s"
  shows "puncher_inv base (punch_step e s)"
proof (cases e)
  case (PPool x)
  show ?thesis
  proof (cases "\<exists>i \<in> set (hu_acquired s). x = Release i \<or> x = SetHandler i")
    case False
    have "holders_ok (s\<lparr>hu_pool := spool_step x (hu_pool s)\<rparr>)"
      using inv pool_step_keeps [of _ "hu_pool s" x] False by (auto simp: puncher_inv_def holders_ok_def)
    then show ?thesis
      using PPool False inv by (auto simp: puncher_inv_def phase_ok_def hu_done_def)
  qed (use PPool inv in simp)
next
  case (PReopen f n i)
  then show ?thesis
    using inv reset_keeps [OF inv] by (simp add: reopenTurn_def)
qed (use inv in \<open>auto simp: message_keeps punch_keeps birthday_keeps destroy_keeps autoDestroy_keeps probes_keep consistentTurn_def randomTurn_def
      keepAliveTurn_def updateRemote_def probe_keeps Let_def split: sum.splits prod.splits if_splits intro: puncher_frame\<close>)

interpretation punchsys: op_system punch_step "puncher_inv base" for base
  by unfold_locales (rule punch_step_keeps)

lemma new_keeps: "puncher_inv n (Holepuncher_new pool n l isInitiator remoteFirewall firewalled nodes)"
  by (auto simp: puncher_inv_def holders_ok_def phase_ok_def Holepuncher_new_def addRef_def acquire_def po_add_def newRef_def hu_done_def
      BIRTHDAY_SOCKETS_def Let_def split_beta)

section \<open>The properties\<close>



section \<open>Matching addresses\<close>

text \<open>How many leading parts two hosts share, of the first three.\<close>

definition shared :: "string \<Rightarrow> string \<Rightarrow> nat" where
  "shared a b = (if segment 0 a \<noteq> segment 0 b then 0 else if segment 1 a \<noteq> segment 1 b then 1 else if segment 2 a \<noteq> segment 2 b then 2 else 3)"

text \<open>What the search has found: the best of the pairs seen so far, of which none shares three parts.\<close>

definition best_of :: "(address \<times> address) set \<Rightarrow> nat \<times> address option \<Rightarrow> bool" where
  "best_of X best \<longleftrightarrow> (\<forall>(l, r) \<in> X. shared (host l) (host r) < fst best) \<and> fst best \<in> {1, 2, 3}
     \<and> (snd best = None \<longleftrightarrow> fst best = 1) \<and> (\<forall>r. snd best = Some r \<longrightarrow> (\<exists>l. (l, r) \<in> X \<and> Suc (shared (host l) (host r)) = fst best))"

definition better :: "nat \<Rightarrow> address \<Rightarrow> nat \<times> address option \<Rightarrow> nat \<times> address option" where
  "better k r best = (if fst best < Suc k then (Suc k, Some r) else best)"

lemma best_of_better:
  assumes "best_of X best" "shared (host l) (host r) < 3"
  shows "best_of (insert (l, r) X) (better (shared (host l) (host r)) r best)"
proof -
  have parts: "\<And>l r. (l, r) \<in> X \<Longrightarrow> shared (host l) (host r) < fst best" "fst best \<in> {1, 2, 3}" "snd best = None \<longleftrightarrow> fst best = 1"
    "\<And>r. snd best = Some r \<Longrightarrow> \<exists>l. (l, r) \<in> X \<and> Suc (shared (host l) (host r)) = fst best"
    using assms(1) unfolding best_of_def by blast+
  show ?thesis
  proof (cases "fst best < Suc (shared (host l) (host r))")
    case True
    have "shared a b < Suc (shared (host l) (host r))" if "\<exists>l r. (l, r) \<in> X \<and> a = host l \<and> b = host r" for a b
      using that parts(1) True less_trans by blast
    then show ?thesis
      using True parts(2) assms(2) unfolding best_of_def better_def by auto
  next
    case False
    then show ?thesis
      using parts unfolding best_of_def better_def by auto
  qed
qed

lemma matchRemotes_best:
  assumes "best_of X best"
  shows "case matchRemotes (host l) rs best of
      Inl r \<Rightarrow> r \<in> set rs \<and> shared (host l) (host r) = 3
    | Inr best' \<Rightarrow> best_of (X \<union> {l} \<times> set rs) best'"
  using assms
proof (induction rs arbitrary: X best)
  case (Cons r rs)
  define best' where "best' = better (shared (host l) (host r)) r best"
  show ?case
  proof (cases "shared (host l) (host r) = 3")
    case True
    then show ?thesis
      by (auto simp: shared_def Let_def split: if_splits)
  next
    case False
    have m: "matchRemotes (host l) (r # rs) best = matchRemotes (host l) rs best'"
    proof -
      have "fst best \<in> {1, 2, 3}"
        using Cons.prems by (simp add: best_of_def)
      then show ?thesis
        using False by (auto simp: shared_def best'_def better_def Let_def numeral_2_eq_2 numeral_3_eq_3)
    qed
    have "shared (host l) (host r) < 3"
      using False by (simp add: shared_def split: if_splits)
    then have "best_of (insert (l, r) X) best'"
      unfolding best'_def by (rule best_of_better [OF Cons.prems])
    then show ?thesis
      using Cons.IH [of "insert (l, r) X" best'] unfolding m by (auto split: sum.splits)
  qed
qed auto

lemma matchLocals_best:
  assumes "best_of X best" "X \<subseteq> UNIV \<times> set remotes"
  shows "(case matchLocals ls remotes best of
      None \<Rightarrow> \<forall>(l, r) \<in> X \<union> set ls \<times> set remotes. shared (host l) (host r) = 0
    | Some r \<Rightarrow> r \<in> set remotes \<and> (\<exists>l. (l, r) \<in> X \<union> set ls \<times> set remotes \<and> shared (host l) (host r) > 0
        \<and> (\<forall>(l', r') \<in> X \<union> set ls \<times> set remotes. shared (host l') (host r') \<le> shared (host l) (host r))))"
  using assms
proof (induction ls arbitrary: X best)
  case Nil
  then show ?case
    by (cases "snd best") (fastforce simp: best_of_def)+
next
  case (Cons l ls)
  have m: "case matchRemotes (host l) remotes best of Inl r \<Rightarrow> r \<in> set remotes \<and> shared (host l) (host r) = 3 | Inr best' \<Rightarrow> best_of (X \<union> {l} \<times> set remotes) best'"
    by (rule matchRemotes_best [OF Cons.prems(1)])
  have le: "shared a b \<le> 3" for a b
    by (simp add: shared_def)
  have sets: "X \<union> {l} \<times> set remotes \<union> set ls \<times> set remotes = X \<union> set (l # ls) \<times> set remotes"
    by auto
  show ?case
  proof (cases "matchRemotes (host l) remotes best")
    case (Inl r)
    then show ?thesis
      using m le by (auto intro!: exI [of _ l])
  next
    case (Inr best')
    then have "best_of (X \<union> {l} \<times> set remotes) best'" "X \<union> {l} \<times> set remotes \<subseteq> UNIV \<times> set remotes"
      using m Cons.prems(2) by auto
    from Cons.IH [OF this] show ?thesis
      unfolding sets by (simp add: Inr)
  qed
qed

text \<open>
  Of the addresses a peer has in its local networks the one is tried that shares the longest prefix, in
  dotted parts and up to three, with an address of this node, and none if no address shares even the first part.
\<close>

theorem match_longest_prefix:
  "case matchAddress locals remotes of
     None \<Rightarrow> \<forall>l \<in> set locals. \<forall>r \<in> set remotes. shared (host l) (host r) = 0
   | Some r \<Rightarrow> r \<in> set remotes \<and> (\<exists>l \<in> set locals. shared (host l) (host r) > 0
       \<and> (\<forall>l' \<in> set locals. \<forall>r' \<in> set remotes. shared (host l') (host r') \<le> shared (host l) (host r)))"
proof -
  have "best_of {} (1, None)"
    by (simp add: best_of_def)
  from matchLocals_best [OF this, of remotes locals] show ?thesis
    by (cases "remotes = []") (auto simp: matchAddress_def split: option.splits)
qed

theorem match_longest_prefix_witness:
  "matchAddress [\<lparr>host = ''192.168.122.238'', port = 1\<rparr>] [\<lparr>host = ''192.168.0.23'', port = 2\<rparr>, \<lparr>host = ''192.168.122.1'', port = 3\<rparr>]
     = Some \<lparr>host = ''192.168.122.1'', port = 3\<rparr>
   \<and> shared ''192.168.122.238'' ''192.168.0.23'' \<le> shared ''192.168.122.238'' ''192.168.122.1''"
proof -
  have "matchAddress [\<lparr>host = ''192.168.122.238'', port = 1\<rparr>] [\<lparr>host = ''192.168.0.23'', port = 2\<rparr>, \<lparr>host = ''192.168.122.1'', port = 3\<rparr>]
     = Some \<lparr>host = ''192.168.122.1'', port = 3\<rparr>"
    by code_simp
  then show ?thesis
    using match_longest_prefix [of "[\<lparr>host = ''192.168.122.238'', port = 1\<rparr>]" "[\<lparr>host = ''192.168.0.23'', port = 2\<rparr>, \<lparr>host = ''192.168.122.1'', port = 3\<rparr>]"]
    by simp
qed

end
