(* ===== verification/Route_Bridge.thy ===== *)
theory Route_Bridge
  imports Entry_Circuit Overlay_Descriptor
begin

text \<open>
  Smaller parts of the relays (\<^verbatim>\<open>lib/private/private-peer-controller.js\<close>): the inbox of control messages,
  the pinned guards, the memory of relays that did not answer, a watched pair of spliced streams and the bridge
  between two links. Promises are outcomes in a trace, timers are calls, and a link that is destroyed closes at
  once, as it does in the code.
\<close>

section \<open>The inbox of control messages\<close>

datatype inbox_event = Read bytes | ReadFailed

record control_inbox =
  ib_queue :: "bytes list"
  ib_waiting :: bool
  ib_closed :: bool
  ib_linkDestroyed :: bool
  ib_trace :: "inbox_event list"

definition ControlInbox_new :: control_inbox where
  "ControlInbox_new = \<lparr>ib_queue = [], ib_waiting = False, ib_closed = False, ib_linkDestroyed = False, ib_trace = []\<rparr>"

definition inbox_detach :: "control_inbox \<Rightarrow> control_inbox \<times> (crypto_failure + bytes list)" where
  "inbox_detach b = (if ib_closed b \<or> ib_waiting b then (b, Inl invalidRoute) else (b\<lparr>ib_closed := True, ib_queue := []\<rparr>, Inr (ib_queue b)))"

definition inbox_destroy :: "control_inbox \<Rightarrow> control_inbox" where
  "inbox_destroy b =
     (if ib_closed b then b
      else (let b = (if ib_waiting b then b\<lparr>ib_waiting := False, ib_trace := ib_trace b @ [ReadFailed]\<rparr> else b)
        in fst (inbox_detach b)))"

text \<open>The link is destroyed, by a full inbox, a timeout or for another reason, and the inbox hears of it.\<close>

definition inbox_linkClosed :: "control_inbox \<Rightarrow> control_inbox" where
  "inbox_linkClosed b = inbox_destroy (b\<lparr>ib_linkDestroyed := True\<rparr>)"

definition inbox_payload :: "bytes \<Rightarrow> control_inbox \<Rightarrow> control_inbox" where
  "inbox_payload payload b =
     (if ib_closed b then b
      else if ib_waiting b then b\<lparr>ib_waiting := False, ib_trace := ib_trace b @ [Read payload]\<rparr>
      else if length (ib_queue b) < MAX_CONTROL_CELLS then b\<lparr>ib_queue := ib_queue b @ [payload]\<rparr>
      else inbox_linkClosed b)"

definition inbox_read :: "control_inbox \<Rightarrow> control_inbox" where
  "inbox_read b =
     (if ib_closed b \<or> ib_waiting b then b\<lparr>ib_trace := ib_trace b @ [ReadFailed]\<rparr>
      else (case ib_queue b of
        p # ps \<Rightarrow> b\<lparr>ib_queue := ps, ib_trace := ib_trace b @ [Read p]\<rparr>
      | [] \<Rightarrow> b\<lparr>ib_waiting := True\<rparr>))"

section \<open>Pinned guards\<close>

definition GUARD_SET_SIZE :: nat where "GUARD_SET_SIZE = 3"
definition GUARD_LIFETIME_MS :: int where "GUARD_LIFETIME_MS = 28 * 24 * 60 * 60 * 1000"

text \<open>A guard is an object: \<open>gd_id\<close> is its identity, and whether it is unreachable is kept by identity.\<close>

record guard =
  gd_id :: nat
  gd_publicKey :: bytes

record pinned_guards =
  pg_current :: "guard option"
  pg_alternates :: "guard list"
  pg_rotateAt :: int
  pg_unreachable :: "nat list"
  pg_next :: nat

definition PinnedGuards_new :: pinned_guards where
  "PinnedGuards_new = \<lparr>pg_current = None, pg_alternates = [], pg_rotateAt = 0, pg_unreachable = [], pg_next = 0\<rparr>"

definition candidates :: "pinned_guards \<Rightarrow> guard list" where
  "candidates g = (case pg_current g of None \<Rightarrow> [] | Some c \<Rightarrow> c # pg_alternates g)"

text \<open>The loop of \<open>ensure\<close>: the first relays with different keys, as new objects.\<close>

fun pickGuards :: "nat \<Rightarrow> bytes list \<Rightarrow> guard list \<Rightarrow> guard list" where
  "pickGuards n [] guards = guards"
| "pickGuards n (k # ks) guards =
     (if k \<in> gd_publicKey ` set guards then pickGuards n ks guards
      else (let guards = guards @ [\<lparr>gd_id = n, gd_publicKey = k\<rparr>]
        in if length guards = GUARD_SET_SIZE then guards else pickGuards (Suc n) ks guards))"

definition guards_ensure :: "bytes list \<Rightarrow> int \<Rightarrow> pinned_guards \<Rightarrow> pinned_guards" where
  "guards_ensure relays now g =
     (if pg_current g \<noteq> None \<and> now < pg_rotateAt g \<and> \<not> list_all (\<lambda>c. gd_id c \<in> set (pg_unreachable g)) (candidates g) then g
      else (let guards = pickGuards (pg_next g) relays []
        in g\<lparr>pg_current := (case guards of [] \<Rightarrow> None | c # _ \<Rightarrow> Some c), pg_alternates := tl guards, pg_rotateAt := now + GUARD_LIFETIME_MS,
             pg_next := pg_next g + GUARD_SET_SIZE\<rparr>))"

definition guards_isUnavailable :: "bytes \<Rightarrow> pinned_guards \<Rightarrow> bool" where
  "guards_isUnavailable k g \<longleftrightarrow> list_ex (\<lambda>c. gd_id c \<in> set (pg_unreachable g) \<and> gd_publicKey c = k) (candidates g)"

definition guards_select :: "guard \<Rightarrow> pinned_guards \<Rightarrow> pinned_guards" where
  "guards_select c g =
     (let g = g\<lparr>pg_unreachable := removeAll (gd_id c) (pg_unreachable g)\<rparr>
      in if c \<notin> set (candidates g) then g
         else g\<lparr>pg_current := Some c, pg_alternates := filter (\<lambda>d. d \<noteq> c) (candidates g)\<rparr>)"

definition guards_failed :: "guard \<Rightarrow> pinned_guards \<Rightarrow> pinned_guards" where
  "guards_failed c g =
     (let g = g\<lparr>pg_unreachable := List.insert (gd_id c) (pg_unreachable g)\<rparr>
      in if pg_current g \<noteq> Some c then g
         else (let cs = filter (\<lambda>d. d \<noteq> c) (candidates g) @ [c] in g\<lparr>pg_current := Some (hd cs), pg_alternates := tl cs\<rparr>))"

definition guards_clear :: "pinned_guards \<Rightarrow> pinned_guards" where
  "guards_clear g = g\<lparr>pg_current := None, pg_alternates := [], pg_rotateAt := 0\<rparr>"

section \<open>Relays that did not answer\<close>

definition markRelayUnreachable :: "bytes \<Rightarrow> int \<Rightarrow> (bytes \<times> int) list \<Rightarrow> (bytes \<times> int) list" where
  "markRelayUnreachable k now unreachable = AList.update k (now + 60000) unreachable"

definition liveRelays :: "bytes list \<Rightarrow> nat \<Rightarrow> int \<Rightarrow> (bytes \<times> int) list \<Rightarrow> bytes list \<times> (bytes \<times> int) list" where
  "liveRelays relays minCount now unreachable =
     (let unreachable = filter (\<lambda>(_, exp). now < exp) unreachable;
          live = filter (\<lambda>k. map_of unreachable k = None) relays
      in if length live \<ge> minCount then (live, unreachable) else (relays, []))"

section \<open>Spliced pairs\<close>

definition ROUTE_LIFETIME_MS :: int where "ROUTE_LIFETIME_MS = MAX_LIFETIME_MS"

record splice_pair =
  sx_up :: nat
  sx_down :: nat
  sx_active :: bool
  sx_lastRx :: nat
  sx_lastActiveAt :: int

definition newPair :: "nat \<Rightarrow> nat \<Rightarrow> int \<Rightarrow> splice_pair" where
  "newPair up down now = \<lparr>sx_up = up, sx_down = down, sx_active = False, sx_lastRx = 0, sx_lastActiveAt = now\<rparr>"

text \<open>The poll of \<open>watchSplicedPair\<close>: the pair, or nothing when it is closed for having been idle.\<close>

definition pollPair :: "nat \<Rightarrow> int \<Rightarrow> splice_pair \<Rightarrow> splice_pair option" where
  "pollPair rx now pair =
     (if rx > sx_lastRx pair then Some (pair\<lparr>sx_lastRx := rx, sx_lastActiveAt := now\<rparr>)
      else if now - sx_lastActiveAt pair \<ge> ROUTE_LIFETIME_MS then None else Some pair)"

section \<open>The bridge between two links\<close>

datatype side = LeftLink | RightLink

fun otherSide :: "side \<Rightarrow> side" where
  "otherSide LeftLink = RightLink"
| "otherSide RightLink = LeftLink"

datatype bridge_event =
    BridgeSend side bytes
  | BridgeConnect nat side nat
  | BridgeRelay nat nat
  | PairDestroyed nat nat
  | BridgeClosed

record bridge =
  br_closed :: bool
  br_splices :: "(nat \<times> splice_pair) list"
  br_trace :: "bridge_event list"

definition transformBridge :: bridge where
  "transformBridge = \<lparr>br_closed = False, br_splices = [], br_trace = []\<rparr>"

definition tellBridge :: "bridge_event \<Rightarrow> bridge \<Rightarrow> bridge" where
  "tellBridge e b = b\<lparr>br_trace := br_trace b @ [e]\<rparr>"

definition closePair :: "nat \<Rightarrow> bridge \<Rightarrow> bridge" where
  "closePair streamId b =
     (case map_of (br_splices b) streamId of
        None \<Rightarrow> b
      | Some pair \<Rightarrow> tellBridge (PairDestroyed (sx_up pair) (sx_down pair)) (b\<lparr>br_splices := AList.delete streamId (br_splices b)\<rparr>))"

definition bridge_close :: "bridge \<Rightarrow> bridge" where
  "bridge_close b =
     (if br_closed b then b
      else tellBridge BridgeClosed ((fold closePair (map fst (br_splices b)) (b\<lparr>br_closed := True\<rparr>))\<lparr>br_splices := []\<rparr>))"

text \<open>
  \<open>forward\<close>: \<open>up\<close> and \<open>down\<close> are the ids of new native streams, or nothing when they cannot be created. A link
  that is closed delivers nothing any more.
\<close>

definition spliceOpen :: "side \<Rightarrow> (nat \<times> nat) option \<Rightarrow> int \<Rightarrow> bytes \<Rightarrow> bridge \<Rightarrow> bridge" where
  "spliceOpen from' created now payload b =
     (let streamId = readU32 payload; prevUdxId = readU32 (drop LOGICAL_HEADER_BYTES payload)
      in if map_of (br_splices b) streamId \<noteq> None \<or> length (br_splices b) \<ge> MAX_SPLICED_ROUTE_STREAMS then bridge_close b
         else (case created of
           None \<Rightarrow> bridge_close b
         | Some (up, down) \<Rightarrow>
             tellBridge (BridgeSend (otherSide from') (take LOGICAL_HEADER_BYTES payload @ be_bytes 4 down))
               (tellBridge (BridgeConnect up from' prevUdxId) (b\<lparr>br_splices := AList.update streamId (newPair up down now) (br_splices b)\<rparr>))))"

definition spliceReady :: "side \<Rightarrow> bytes \<Rightarrow> bridge \<Rightarrow> bridge" where
  "spliceReady from' payload b =
     (let streamId = readU32 payload; nextUdxId = readU32 (drop LOGICAL_HEADER_BYTES payload)
      in case map_of (br_splices b) streamId of
           None \<Rightarrow> bridge_close b
         | Some pair \<Rightarrow>
             if sx_active pair then bridge_close b
             else tellBridge (BridgeSend (otherSide from') (take LOGICAL_HEADER_BYTES payload @ be_bytes 4 (sx_up pair)))
               (tellBridge (BridgeRelay (sx_up pair) (sx_down pair)) (tellBridge (BridgeConnect (sx_down pair) from' nextUdxId)
                 (b\<lparr>br_splices := AList.update streamId (pair\<lparr>sx_active := True\<rparr>) (br_splices b)\<rparr>))))"

definition bridge_forward :: "side \<Rightarrow> (nat \<times> nat) option \<Rightarrow> int \<Rightarrow> bytes \<Rightarrow> bridge \<Rightarrow> bridge" where
  "bridge_forward from' created now payload b =
     (if br_closed b then b
      else (let framed = length payload \<ge> LOGICAL_HEADER_BYTES; flags = uint (payload ! 4)
        in if framed \<and> flags = LOGICAL_SPLICE_OPEN \<and> length payload = LOGICAL_HEADER_BYTES + 4 then spliceOpen from' created now payload b
           else if framed \<and> flags = LOGICAL_SPLICE_READY \<and> length payload = LOGICAL_HEADER_BYTES + 4 then spliceReady from' payload b
           else tellBridge (BridgeSend (otherSide from') payload)
             (if framed \<and> flags = LOGICAL_RESET \<and> length payload = LOGICAL_HEADER_BYTES then closePair (readU32 payload) b else b)))"

definition bridge_poll :: "nat \<Rightarrow> nat \<Rightarrow> int \<Rightarrow> bridge \<Rightarrow> bridge" where
  "bridge_poll streamId rx now b =
     (case map_of (br_splices b) streamId of
        None \<Rightarrow> b
      | Some pair \<Rightarrow>
          (case pollPair rx now pair of
             None \<Rightarrow> closePair streamId b
           | Some pair \<Rightarrow> b\<lparr>br_splices := AList.update streamId pair (br_splices b)\<rparr>))"

end
