(* ===== verification/Bridge_Properties.thy ===== *)
theory Bridge_Properties
  imports Route_Bridge "HOL-Library.Multiset" "HOL-Library.Sublist"
begin

text \<open>
  What the smaller parts of the relays promise: control messages are read in order and once, guards stay pinned,
  and a bridge passes on every frame and destroys every pair of streams it made.
\<close>

section \<open>The inbox\<close>

datatype inbox_call = IPayload bytes | IRead | IDetach | ILinkClosed | IDestroy

text \<open>The inbox, the payloads that arrived while it was open, what \<open>detach\<close> handed over, and the number of reads.\<close>

type_synonym inbox_history = "control_inbox \<times> bytes list \<times> bytes list \<times> nat"

fun inbox_step :: "inbox_call \<Rightarrow> inbox_history \<Rightarrow> inbox_history" where
  "inbox_step (IPayload p) (b, arrived, handed, asked) = (inbox_payload p b, if ib_closed b then arrived else arrived @ [p], handed, asked)"
| "inbox_step IRead (b, arrived, handed, asked) = (inbox_read b, arrived, handed, Suc asked)"
| "inbox_step IDetach (b, arrived, handed, asked) =
     (fst (inbox_detach b), arrived, (case snd (inbox_detach b) of Inl _ \<Rightarrow> handed | Inr q \<Rightarrow> q), asked)"
| "inbox_step ILinkClosed (b, arrived, handed, asked) = (inbox_linkClosed b, arrived, handed, asked)"
| "inbox_step IDestroy (b, arrived, handed, asked) = (inbox_destroy b, arrived, handed, asked)"

fun readsOf :: "inbox_event list \<Rightarrow> bytes list" where
  "readsOf [] = []"
| "readsOf (Read p # es) = p # readsOf es"
| "readsOf (ReadFailed # es) = readsOf es"

lemma readsOf_append [simp]: "readsOf (es @ fs) = readsOf es @ readsOf fs"
  by (induction es rule: readsOf.induct) auto

definition inbox_inv :: "inbox_history \<Rightarrow> bool" where
  "inbox_inv h \<longleftrightarrow> (case h of (b, arrived, handed, asked) \<Rightarrow>
     (ib_waiting b \<longrightarrow> ib_queue b = [] \<and> \<not> ib_closed b) \<and> length (ib_queue b) \<le> MAX_CONTROL_CELLS
     \<and> (if ib_closed b then ib_queue b = [] \<and> prefix (readsOf (ib_trace b) @ handed) arrived
        else handed = [] \<and> readsOf (ib_trace b) @ ib_queue b = arrived)
     \<and> asked = length (ib_trace b) + of_bool (ib_waiting b))"

interpretation inboxsys: op_system inbox_step inbox_inv
proof
  show "inbox_inv (inbox_step x h)" if "inbox_inv h" for x h
    using that
    by (cases "(x, h)" rule: inbox_step.cases)
      (auto simp: inbox_inv_def inbox_payload_def inbox_read_def inbox_detach_def inbox_linkClosed_def inbox_destroy_def Let_def prefix_def
        split: if_splits list.splits)
qed

text \<open>
  Control messages are read in order, once. While the inbox is open, what was read and what is queued are
  exactly the payloads that arrived, at most 16 are queued, and only an empty inbox lets a reader wait; after that
  what was read, followed by what \<open>detach\<close> handed over, is an initial part of them. Every read but the one that
  waits has its answer.
\<close>

theorem inbox_reads_in_order:
  assumes "fold inbox_step calls (ControlInbox_new, [], [], 0) = (b, arrived, handed, asked)"
  shows "(\<not> ib_closed b \<longrightarrow> readsOf (ib_trace b) @ ib_queue b = arrived)
    \<and> prefix (readsOf (ib_trace b) @ handed) arrived \<and> length (ib_queue b) \<le> MAX_CONTROL_CELLS
    \<and> (ib_waiting b \<longrightarrow> ib_queue b = []) \<and> asked = length (ib_trace b) + of_bool (ib_waiting b)"
proof -
  have "inbox_inv (b, arrived, handed, asked)"
    unfolding assms [symmetric] by (rule inboxsys.run_inv) (simp add: inbox_inv_def ControlInbox_new_def)
  then show ?thesis
    by (auto simp: inbox_inv_def split: if_splits)
qed

theorem inbox_reads_in_order_witness:
  "let (b, arrived, handed, asked) = fold inbox_step [IRead, IPayload [1], IPayload [2], IPayload [3], IRead, IDetach] (ControlInbox_new, [], [], 0)
   in readsOf (ib_trace b) @ handed = [[1], [2], [3]] \<and> prefix (readsOf (ib_trace b) @ handed) arrived"
proof -
  let ?x = "fold inbox_step [IRead, IPayload [1], IPayload [2], IPayload [3], IRead, IDetach] (ControlInbox_new, [], [], 0)"
  obtain b arrived handed asked where x: "?x = (b, arrived, handed, asked)"
    by (cases ?x) auto
  have "readsOf (ib_trace (fst ?x)) @ fst (snd (snd ?x)) = [[1], [2], [3]]"
    by (simp add: ControlInbox_new_def inbox_payload_def inbox_read_def inbox_detach_def MAX_CONTROL_CELLS_def)
  then show ?thesis
    using inbox_reads_in_order [OF x] unfolding x by simp
qed

section \<open>Guards\<close>

definition guards_inv :: "pinned_guards \<Rightarrow> bool" where
  "guards_inv g \<longleftrightarrow> distinct (map gd_publicKey (candidates g)) \<and> distinct (map gd_id (candidates g)) \<and> length (candidates g) \<le> GUARD_SET_SIZE
     \<and> (pg_current g = None \<longrightarrow> pg_alternates g = []) \<and> (\<forall>c \<in> set (candidates g). gd_id c < pg_next g) \<and> (\<forall>i \<in> set (pg_unreachable g). i < pg_next g)"

text \<open>The different elements of a list, in the order of their first occurrences.\<close>

fun firsts :: "'a list \<Rightarrow> 'a list" where
  "firsts [] = []"
| "firsts (k # ks) = k # filter (\<lambda>x. x \<noteq> k) (firsts ks)"

lemma pickGuards_keys:
  "length gs < GUARD_SET_SIZE \<Longrightarrow>
   map gd_publicKey (pickGuards n ks gs) = take GUARD_SET_SIZE (map gd_publicKey gs @ filter (\<lambda>k. k \<notin> gd_publicKey ` set gs) (firsts ks))"
proof (induction n ks gs rule: pickGuards.induct)
  case (2 n k ks gs)
  have f: "filter (\<lambda>x. x \<notin> A) (filter (\<lambda>x. x \<noteq> k) (firsts ks)) = filter (\<lambda>x. x \<notin> insert k A) (firsts ks)" for A
    by (auto intro: filter_cong)
  show ?case
  proof (cases "k \<in> gd_publicKey ` set gs")
    case True
    then show ?thesis
      using 2 f [of "gd_publicKey ` set gs"] by (simp add: insert_absorb)
  next
    case False
    show ?thesis
    proof (cases "Suc (length gs) = GUARD_SET_SIZE")
      case True
      then have "GUARD_SET_SIZE - length gs = Suc 0"
        by simp
      then show ?thesis
        using True False by simp
    next
      case step: False
      then show ?thesis
        using "2.IH"(2) [OF False refl] "2.prems" False f [of "gd_publicKey ` set gs"] by (simp add: Let_def)
    qed
  qed
qed simp

lemma pickGuards_ids:
  "length gs < GUARD_SET_SIZE \<Longrightarrow> \<forall>c \<in> set gs. gd_id c < n \<Longrightarrow> distinct (map gd_id gs) \<Longrightarrow>
   distinct (map gd_id (pickGuards n ks gs)) \<and> (\<forall>c \<in> set (pickGuards n ks gs). c \<in> set gs \<or> n \<le> gd_id c \<and> gd_id c + length gs < n + GUARD_SET_SIZE)"
proof (induction n ks gs rule: pickGuards.induct)
  case (2 n k ks gs)
  show ?case
  proof (cases "k \<in> gd_publicKey ` set gs")
    case False
    have "distinct (map gd_id (gs @ [\<lparr>gd_id = n, gd_publicKey = k\<rparr>]))" "\<forall>c \<in> set (gs @ [\<lparr>gd_id = n, gd_publicKey = k\<rparr>]). gd_id c < Suc n"
      using "2.prems" by auto
    note new = this
    show ?thesis
    proof (cases "Suc (length gs) = GUARD_SET_SIZE")
      case True
      then show ?thesis
        using False new by auto
    next
      case step: False
      have ih: "distinct (map gd_id (pickGuards (Suc n) ks (gs @ [\<lparr>gd_id = n, gd_publicKey = k\<rparr>])))"
        "\<And>c. c \<in> set (pickGuards (Suc n) ks (gs @ [\<lparr>gd_id = n, gd_publicKey = k\<rparr>])) \<Longrightarrow>
           c \<in> set (gs @ [\<lparr>gd_id = n, gd_publicKey = k\<rparr>]) \<or> Suc n \<le> gd_id c \<and> gd_id c + length (gs @ [\<lparr>gd_id = n, gd_publicKey = k\<rparr>]) < Suc n + GUARD_SET_SIZE"
        using "2.IH"(2) [OF False refl] "2.prems" new step by auto
      have "c \<in> set gs \<or> n \<le> gd_id c \<and> gd_id c + length gs < n + GUARD_SET_SIZE" if "c \<in> set (pickGuards (Suc n) ks (gs @ [\<lparr>gd_id = n, gd_publicKey = k\<rparr>]))" for c
        using ih(2) [OF that] "2.prems"(1) by auto
      then show ?thesis
        using ih(1) False step by (simp add: Let_def)
    qed
  qed (use 2 in simp)
qed auto

lemma distinct_firsts: "distinct (firsts ks)"
  by (induction ks) auto

lemma ensure_new:
  assumes inv: "guards_inv g"
    and due: "pg_current g = None \<or> now \<ge> pg_rotateAt g \<or> list_all (\<lambda>c. gd_id c \<in> set (pg_unreachable g)) (candidates g)"
  shows "guards_inv (guards_ensure relays now g)" "map gd_publicKey (candidates (guards_ensure relays now g)) = take GUARD_SET_SIZE (firsts relays)"
    "\<forall>c \<in> set (candidates (guards_ensure relays now g)). gd_id c \<notin> set (pg_unreachable (guards_ensure relays now g))"
proof -
  let ?gs = "pickGuards (pg_next g) relays []" and ?g = "guards_ensure relays now g"
  have g: "candidates ?g = ?gs" "pg_unreachable ?g = pg_unreachable g" "pg_next ?g = pg_next g + GUARD_SET_SIZE" "pg_current ?g = None \<longrightarrow> pg_alternates ?g = []"
    using due by (auto simp: guards_ensure_def candidates_def Let_def split: list.splits)
  have k: "map gd_publicKey ?gs = take GUARD_SET_SIZE (firsts relays)"
    using pickGuards_keys [of "[]" "pg_next g" relays] by (simp add: GUARD_SET_SIZE_def)
  have i: "distinct (map gd_id ?gs) \<and> (\<forall>c \<in> set ?gs. pg_next g \<le> gd_id c \<and> gd_id c < pg_next g + GUARD_SET_SIZE)"
    using pickGuards_ids [of "[]" "pg_next g" relays] by (simp add: GUARD_SET_SIZE_def)
  have "length (map gd_publicKey ?gs) \<le> GUARD_SET_SIZE"
    unfolding k by simp
  then have l: "length ?gs \<le> GUARD_SET_SIZE"
    by simp
  show "guards_inv ?g"
    using inv i l distinct_firsts [of relays] g(4) unfolding guards_inv_def g(1-3) k by (auto intro: less_le_trans)
  show "map gd_publicKey (candidates ?g) = take GUARD_SET_SIZE (firsts relays)"
    unfolding g(1) by (rule k)
  show "\<forall>c \<in> set (candidates ?g). gd_id c \<notin> set (pg_unreachable ?g)"
    using inv i unfolding g(1-3) guards_inv_def by force
qed

lemma candidates_Nil: "guards_inv g \<Longrightarrow> candidates g = [] \<longleftrightarrow> pg_current g = None"
  by (auto simp: candidates_def split: option.splits)

lemma candidates_unreachable [simp]: "candidates (g\<lparr>pg_unreachable := u\<rparr>) = candidates g"
  by (simp add: candidates_def split: option.split)

text \<open>A state with the same guards in another order.\<close>

lemma guards_inv_perm:
  assumes "guards_inv g" "mset (candidates h) = mset (candidates g)" "pg_next h = pg_next g" "\<forall>i \<in> set (pg_unreachable h). i < pg_next g"
    "pg_current h = None \<longrightarrow> pg_alternates h = []"
  shows "guards_inv h"
proof -
  have "mset (map gd_publicKey (candidates h)) = mset (map gd_publicKey (candidates g))" "mset (map gd_id (candidates h)) = mset (map gd_id (candidates g))"
    using assms(2) by simp_all
  then show ?thesis
    using assms mset_eq_length [OF assms(2)] mset_eq_setD [OF assms(2)] mset_eq_imp_distinct_iff unfolding guards_inv_def by metis
qed

lemma select_guard:
  assumes inv: "guards_inv g"
  shows "guards_inv (guards_select c g)" "mset (candidates (guards_select c g)) = mset (candidates g)"
    "c \<in> set (candidates g) \<Longrightarrow> pg_current (guards_select c g) = Some c \<and> gd_id c \<notin> set (pg_unreachable (guards_select c g))"
proof -
  note cg = candidates_unreachable
  have d: "distinct (candidates g)"
    using inv by (auto simp: guards_inv_def distinct_map)
  show m: "mset (candidates (guards_select c g)) = mset (candidates g)"
  proof (cases "c \<in> set (candidates g)")
    case True
    then have "candidates (guards_select c g) = c # filter (\<lambda>d. d \<noteq> c) (candidates g)"
      unfolding guards_select_def Let_def cg by (simp add: candidates_def)
    then show ?thesis
      using True d set_eq_iff_mset_eq_distinct [of "candidates (guards_select c g)" "candidates g"] by auto
  qed (simp add: guards_select_def cg)
  show "pg_current (guards_select c g) = Some c \<and> gd_id c \<notin> set (pg_unreachable (guards_select c g))" if "c \<in> set (candidates g)"
    using that by (simp add: guards_select_def cg)
  show "guards_inv (guards_select c g)"
    by (rule guards_inv_perm [OF inv m]) (use inv in \<open>auto simp: guards_inv_def guards_select_def Let_def\<close>)
qed

lemma failed_guard:
  assumes inv: "guards_inv g" and c: "gd_id c < pg_next g"
  shows "guards_inv (guards_failed c g)" "mset (candidates (guards_failed c g)) = mset (candidates g)"
    "gd_id c \<in> set (pg_unreachable (guards_failed c g))"
    "pg_current g = Some c \<Longrightarrow> pg_alternates g = d # ds \<Longrightarrow> pg_current (guards_failed c g) = Some d \<and> last (candidates (guards_failed c g)) = c"
proof -
  have f: "filter (\<lambda>d. d \<noteq> c) (candidates g) = pg_alternates g" if "pg_current g = Some c"
  proof -
    have "c \<notin> set (pg_alternates g)"
      using inv that by (auto simp: guards_inv_def candidates_def)
    then show ?thesis
      using that by (auto simp: candidates_def filter_id_conv)
  qed
  have cs: "candidates (guards_failed c g) = pg_alternates g @ [c]" if "pg_current g = Some c"
    using that f [OF that] by (simp add: guards_failed_def Let_def) (simp add: candidates_def)
  show m: "mset (candidates (guards_failed c g)) = mset (candidates g)"
  proof (cases "pg_current g = Some c")
    case True
    then show ?thesis
      by (simp add: cs) (simp add: candidates_def)
  qed (simp add: guards_failed_def)
  show "guards_inv (guards_failed c g)"
    by (rule guards_inv_perm [OF inv m]) (use inv c in \<open>auto simp: guards_inv_def guards_failed_def Let_def\<close>)
  show "gd_id c \<in> set (pg_unreachable (guards_failed c g))"
    by (simp add: guards_failed_def Let_def)
  show "pg_current (guards_failed c g) = Some d \<and> last (candidates (guards_failed c g)) = c" if "pg_current g = Some c" "pg_alternates g = d # ds"
    using that f [OF that(1)] cs [OF that(1)] by (simp add: guards_failed_def Let_def)
qed

text \<open>Calls of a set of guards: \<open>ensure\<close> with what the directory offers, and what becomes of guards of the set.\<close>

datatype guard_call = GEnsure "bytes list" int | GSelect nat | GFailed nat | GClear

fun guard_step :: "guard_call \<Rightarrow> pinned_guards \<Rightarrow> pinned_guards" where
  "guard_step (GEnsure relays now) g = guards_ensure relays now g"
| "guard_step (GSelect k) g = (if k < length (candidates g) then guards_select (candidates g ! k) g else g)"
| "guard_step (GFailed k) g = (if k < length (candidates g) then guards_failed (candidates g ! k) g else g)"
| "guard_step GClear g = guards_clear g"

lemma guard_nth: "guards_inv g \<Longrightarrow> k < length (candidates g) \<Longrightarrow> gd_id (candidates g ! k) < pg_next g"
  by (simp add: guards_inv_def)

lemma ensure_keeps: "now < pg_rotateAt g \<Longrightarrow> \<exists>c \<in> set (candidates g). gd_id c \<notin> set (pg_unreachable g) \<Longrightarrow> guards_ensure relays now g = g"
  by (auto simp: guards_ensure_def list_all_iff candidates_def split: option.splits)

interpretation guardsys: op_system guard_step guards_inv
proof
  show "guards_inv (guard_step x g)" if inv: "guards_inv g" for x g
  proof (cases x)
    case (GEnsure relays now)
    then show ?thesis
      using ensure_new(1) [OF inv, of now relays] ensure_keeps [of now g relays] inv unfolding guard_step.simps list_all_iff by fastforce
  qed (use inv guard_nth select_guard(1) failed_guard(1) in \<open>auto simp: guards_clear_def guards_inv_def [of "g\<lparr>pg_current := None, pg_alternates := [], pg_rotateAt := 0\<rparr>"] candidates_def [of "g\<lparr>pg_current := None, pg_alternates := [], pg_rotateAt := 0\<rparr>"] guards_inv_def [of g]\<close>)
qed

lemma guards_new_inv: "guards_inv PinnedGuards_new"
  by (simp add: guards_inv_def PinnedGuards_new_def candidates_def)

text \<open>
  C40: Guards are pinned. In every reachable state there are at most three guards, with different keys. Selecting
  a guard and its failure only change the order: the selected one is current and reachable again, a
  failed current one goes to the end and the next takes its place. The set is replaced only when its lifetime is
  over or every guard is unreachable, and then by the first different relays of the directory, none of them
  marked.
\<close>

theorem guards_stay_pinned:
  assumes "g = fold guard_step calls PinnedGuards_new"
  shows "length (candidates g) \<le> GUARD_SET_SIZE \<and> distinct (map gd_publicKey (candidates g))
    \<and> mset (candidates (guard_step (GSelect k) g)) = mset (candidates g) \<and> mset (candidates (guard_step (GFailed k) g)) = mset (candidates g)
    \<and> (k < length (candidates g) \<longrightarrow> pg_current (guard_step (GSelect k) g) = Some (candidates g ! k)
         \<and> \<not> gd_id (candidates g ! k) \<in> set (pg_unreachable (guard_step (GSelect k) g)))
    \<and> (length (candidates g) > 1 \<longrightarrow> pg_current (guard_step (GFailed 0) g) = Some (candidates g ! 1)
         \<and> last (candidates (guard_step (GFailed 0) g)) = candidates g ! 0)
    \<and> (if now < pg_rotateAt g \<and> (\<exists>c \<in> set (candidates g). gd_id c \<notin> set (pg_unreachable g)) then guard_step (GEnsure relays now) g = g
       else map gd_publicKey (candidates (guard_step (GEnsure relays now) g)) = take GUARD_SET_SIZE (firsts relays)
         \<and> (\<forall>c \<in> set (candidates (guard_step (GEnsure relays now) g)). gd_id c \<notin> set (pg_unreachable (guard_step (GEnsure relays now) g))))"
proof -
  have inv: "guards_inv g"
    unfolding assms by (rule guardsys.run_inv [OF guards_new_inv])
  have one: "length (candidates g) > 1 \<Longrightarrow> pg_current (guard_step (GFailed 0) g) = Some (candidates g ! 1)
      \<and> last (candidates (guard_step (GFailed 0) g)) = candidates g ! 0"
  proof -
    assume l: "length (candidates g) > 1"
    then obtain c d ds where "pg_current g = Some c" "pg_alternates g = d # ds"
      by (cases "pg_alternates g") (auto simp: candidates_def split: option.splits)
    moreover from this have "candidates g = c # d # ds"
      by (simp add: candidates_def)
    ultimately show "pg_current (guard_step (GFailed 0) g) = Some (candidates g ! 1) \<and> last (candidates (guard_step (GFailed 0) g)) = candidates g ! 0"
      using failed_guard(4) [OF inv guard_nth [OF inv, of 0]] by simp
  qed
  have due: "pg_current g = None \<or> now \<ge> pg_rotateAt g \<or> list_all (\<lambda>c. gd_id c \<in> set (pg_unreachable g)) (candidates g)"
    if "\<not> (now < pg_rotateAt g \<and> (\<exists>c \<in> set (candidates g). gd_id c \<notin> set (pg_unreachable g)))"
    using that by (auto simp: list_all_iff)
  have sel: "mset (candidates (guard_step (GSelect k) g)) = mset (candidates g)" "mset (candidates (guard_step (GFailed k) g)) = mset (candidates g)"
    using select_guard(2) [OF inv] failed_guard(2) [OF inv guard_nth [OF inv]] by simp_all
  have cur: "k < length (candidates g) \<Longrightarrow> pg_current (guard_step (GSelect k) g) = Some (candidates g ! k)
         \<and> \<not> gd_id (candidates g ! k) \<in> set (pg_unreachable (guard_step (GSelect k) g))"
    using select_guard(3) [OF inv, of "candidates g ! k"] by simp
  have "length (candidates g) \<le> GUARD_SET_SIZE \<and> distinct (map gd_publicKey (candidates g))"
    using inv by (simp add: guards_inv_def)
  then show ?thesis
    using one sel cur ensure_keeps [of now g relays] ensure_new(2,3) [OF inv due, of relays] by auto
qed

theorem guards_stay_pinned_witness:
  "let g = fold guard_step [GEnsure [[1], [1], [2], [3], [4]] 0] PinnedGuards_new
   in map gd_publicKey (candidates g) = [[1], [2], [3]] \<and> pg_current (guard_step (GFailed 0) g) = Some (candidates g ! 1)
      \<and> guard_step (GEnsure [[9]] 5) g = g"
proof -
  let ?g = "fold guard_step [GEnsure [[1], [1], [2], [3], [4]] 0] PinnedGuards_new"
  have "candidates ?g = [\<lparr>gd_id = 0, gd_publicKey = [1]\<rparr>, \<lparr>gd_id = 1, gd_publicKey = [2]\<rparr>, \<lparr>gd_id = 2, gd_publicKey = [3]\<rparr>]"
    "pg_unreachable ?g = []" "5 < pg_rotateAt ?g"
    by (simp_all add: guards_ensure_def PinnedGuards_new_def candidates_def GUARD_SET_SIZE_def GUARD_LIFETIME_MS_def Let_def)
  moreover have "pg_current (guard_step (GFailed 0) ?g) = Some (candidates ?g ! 1)"
    using guards_stay_pinned [OF refl, of "[GEnsure [[1], [1], [2], [3], [4]] 0]"] calculation(1) by simp
  moreover have "guard_step (GEnsure [[9]] 5) ?g = ?g"
    using calculation(1-3) by (intro ensure_keeps [THEN trans [OF guard_step.simps(1)]]) auto
  ultimately show ?thesis
    unfolding Let_def by simp
qed

section \<open>The bridge\<close>

definition pairIds :: "bridge \<Rightarrow> (nat \<times> nat) list" where
  "pairIds b = map (\<lambda>(_, p). (sx_up p, sx_down p)) (br_splices b)"

fun destroyedPairs :: "bridge_event list \<Rightarrow> (nat \<times> nat) list" where
  "destroyedPairs [] = []"
| "destroyedPairs (PairDestroyed u d # es) = (u, d) # destroyedPairs es"
| "destroyedPairs (e # es) = destroyedPairs es"

lemma destroyedPairs_append [simp]: "destroyedPairs (es @ fs) = destroyedPairs es @ destroyedPairs fs"
  by (induction es rule: destroyedPairs.induct) auto

lemma update_same_ids:
  "map_of al k = Some v \<Longrightarrow> sx_up v' = sx_up v \<Longrightarrow> sx_down v' = sx_down v \<Longrightarrow>
   map (\<lambda>(_, p). (sx_up p, sx_down p)) (AList.update k v' al) = map (\<lambda>(_, p). (sx_up p, sx_down p)) al"
  by (induction al) (auto split: if_splits)

lemma delete_ids:
  "distinct (map fst al) \<Longrightarrow> map_of al k = Some v \<Longrightarrow>
   add_mset (sx_up v, sx_down v) (mset (map (\<lambda>(_, p). (sx_up p, sx_down p)) (AList.delete k al))) = mset (map (\<lambda>(_, p). (sx_up p, sx_down p)) al)"
proof (induction al)
  case (Cons x al)
  then show ?case
    by (cases "fst x = k") (auto simp: split_beta image_iff)
qed simp

lemma update_fresh_ids: "map_of al k = None \<Longrightarrow> AList.update k v al = al @ [(k, v)]"
  by (induction al) (auto split: if_splits)

datatype bridge_call =
    BForward side "(nat \<times> nat) option" int bytes
  | BPoll nat nat int
  | BPairClosed nat
  | BClose

fun bridge_step :: "bridge_call \<Rightarrow> bridge \<Rightarrow> bridge" where
  "bridge_step (BForward from' created now payload) b = bridge_forward from' created now payload b"
| "bridge_step (BPoll streamId rx now) b = bridge_poll streamId rx now b"
| "bridge_step (BPairClosed streamId) b = closePair streamId b"
| "bridge_step BClose b = bridge_close b"

text \<open>The bridge with the pairs it made: a call that adds one uses the streams created for it.\<close>

fun bridge_run_step :: "bridge_call \<Rightarrow> bridge \<times> (nat \<times> nat) list \<Rightarrow> bridge \<times> (nat \<times> nat) list" where
  "bridge_run_step c (b, made) =
     (bridge_step c b,
      case c of
        BForward _ (Some pair) _ _ \<Rightarrow> if length (br_splices (bridge_step c b)) > length (br_splices b) then made @ [pair] else made
      | _ \<Rightarrow> made)"

definition splices_ok :: "bridge \<Rightarrow> bool" where
  "splices_ok b \<longleftrightarrow> distinct (map fst (br_splices b)) \<and> length (br_splices b) \<le> MAX_SPLICED_ROUTE_STREAMS \<and> (br_closed b \<longrightarrow> br_splices b = [])"

definition balance :: "bridge \<Rightarrow> (nat \<times> nat) multiset" where
  "balance b = mset (destroyedPairs (br_trace b)) + mset (pairIds b)"

lemma closePair_ok:
  assumes "splices_ok b"
  shows "splices_ok (closePair k b) \<and> balance (closePair k b) = balance b \<and> length (br_splices (closePair k b)) \<le> length (br_splices b)
    \<and> br_closed (closePair k b) = br_closed b"
proof (cases "map_of (br_splices b) k")
  case (Some p)
  have d: "distinct (map fst (br_splices b))"
    using assms by (simp add: splices_ok_def)
  have "length (AList.delete k (br_splices b)) \<le> length (br_splices b)"
    by (rule length_delete_le)
  then show ?thesis
    using assms Some delete_ids [OF d Some] by (auto simp: closePair_def tellBridge_def splices_ok_def balance_def pairIds_def distinct_delete)
qed (use assms in \<open>simp add: closePair_def\<close>)

lemma closePairs_ok:
  assumes "splices_ok b"
  shows "splices_ok (fold closePair ks b) \<and> balance (fold closePair ks b) = balance b
    \<and> (\<forall>k s. map_of (br_splices (fold closePair ks b)) k = Some s \<longrightarrow> map_of (br_splices b) k = Some s \<and> k \<notin> set ks)"
  using assms
proof (induction ks arbitrary: b)
  case (Cons k ks)
  have "map_of (br_splices (closePair k b)) j = Some s \<Longrightarrow> map_of (br_splices b) j = Some s \<and> j \<noteq> k" for j s
    by (auto simp: closePair_def tellBridge_def delete_conv' split: option.splits if_splits)
  then show ?case
    using closePair_ok [OF Cons.prems, of k] Cons.IH [of "closePair k b"] by auto
qed simp

lemma closePair_closed: "closePair k (b\<lparr>br_closed := True\<rparr>) = (closePair k b)\<lparr>br_closed := True\<rparr>"
  by (simp add: closePair_def tellBridge_def split: option.split)

lemma closePairs_closed: "fold closePair ks (b\<lparr>br_closed := True\<rparr>) = (fold closePair ks b)\<lparr>br_closed := True\<rparr>"
  by (induction ks arbitrary: b) (simp_all add: closePair_closed)

lemma bridge_close_ok:
  assumes "splices_ok b"
  shows "splices_ok (bridge_close b) \<and> balance (bridge_close b) = balance b \<and> br_closed (bridge_close b)
    \<and> length (br_splices (bridge_close b)) \<le> length (br_splices b)"
proof (cases "br_closed b")
  case False
  let ?c = "fold closePair (map fst (br_splices b)) b"
  have c: "splices_ok ?c" "balance ?c = balance b" "\<And>k s. map_of (br_splices ?c) k = Some s \<Longrightarrow> map_of (br_splices b) k = Some s \<and> k \<notin> set (map fst (br_splices b))"
    using closePairs_ok [OF assms, of "map fst (br_splices b)"] by blast+
  moreover have "br_splices ?c = []"
  proof (rule ccontr)
    assume "br_splices ?c \<noteq> []"
    then obtain k s l where "br_splices ?c = (k, s) # l"
      by (metis list.exhaust surj_pair)
    then have "map_of (br_splices ?c) k = Some s"
      by simp
    with c(3) have "map_of (br_splices b) k = Some s" "k \<notin> set (map fst (br_splices b))"
      by blast+
    then show False
      using map_of_SomeD by force
  qed
  ultimately show ?thesis
    using False c closePairs_closed [of "map fst (br_splices b)" b] by (simp add: bridge_close_def tellBridge_def splices_ok_def balance_def pairIds_def)
qed (use assms in \<open>simp add: bridge_close_def\<close>)

lemma pair_update_ok:
  assumes "splices_ok b" "map_of (br_splices b) k = Some p" "sx_up p' = sx_up p" "sx_down p' = sx_down p"
  shows "splices_ok (b\<lparr>br_splices := AList.update k p' (br_splices b)\<rparr>)" "balance (b\<lparr>br_splices := AList.update k p' (br_splices b)\<rparr>) = balance b"
    "length (AList.update k p' (br_splices b)) = length (br_splices b)"
proof -
  have "map (\<lambda>(_, p). (sx_up p, sx_down p)) (AList.update k p' (br_splices b)) = map (\<lambda>(_, p). (sx_up p, sx_down p)) (br_splices b)"
    using update_same_ids [OF assms(2-4)] .
  note same = this
  show "balance (b\<lparr>br_splices := AList.update k p' (br_splices b)\<rparr>) = balance b"
    by (simp add: balance_def pairIds_def same)
  show l: "length (AList.update k p' (br_splices b)) = length (br_splices b)"
    using arg_cong [OF same, of length] by simp
  show "splices_ok (b\<lparr>br_splices := AList.update k p' (br_splices b)\<rparr>)"
    using assms(1,2) l by (auto simp: splices_ok_def distinct_update)
qed

lemma tell_ok [simp]:
  "splices_ok (tellBridge e b) = splices_ok b" "br_splices (tellBridge e b) = br_splices b" "br_closed (tellBridge e b) = br_closed b"
  "br_trace (tellBridge e b) = br_trace b @ [e]"
  by (simp_all add: tellBridge_def splices_ok_def)

lemma tell_balance [simp]: "balance (tellBridge e b) = mset (destroyedPairs [e]) + balance b"
  by (simp add: tellBridge_def balance_def pairIds_def)

lemma newPair_ids [simp]: "sx_up (newPair up down now) = up" "sx_down (newPair up down now) = down" "sx_active (newPair up down now) = False"
  by (simp_all add: newPair_def)

text \<open>One call: the pair it made, if any, is the change of the balance.\<close>

definition made_by :: "bridge_call \<Rightarrow> bridge \<Rightarrow> (nat \<times> nat) list" where
  "made_by c b = (case c of
     BForward _ (Some pair) _ _ \<Rightarrow> if length (br_splices (bridge_step c b)) > length (br_splices b) then [pair] else [] | _ \<Rightarrow> [])"

lemma bridge_forward_frame:
  assumes "\<not> br_closed b" "\<not> (length payload = LOGICAL_HEADER_BYTES + 4 \<and> uint (payload ! 4) \<in> {LOGICAL_SPLICE_OPEN, LOGICAL_SPLICE_READY})"
  shows "\<exists>x. bridge_forward from' created now payload b = tellBridge (BridgeSend (otherSide from') payload) x \<and> (x = b \<or> (\<exists>k. x = closePair k b))"
  unfolding bridge_forward_def Let_def using assms by simp blast

lemma bridge_step_ok:
  assumes ok: "splices_ok b"
  shows "splices_ok (bridge_step c b) \<and> balance (bridge_step c b) = balance b + mset (made_by c b)"
proof (cases c)
  case (BForward from' created now payload)
  let ?f = "bridge_forward from' created now payload b"
  have same: ?thesis if "splices_ok ?f" "balance ?f = balance b" "length (br_splices ?f) \<le> length (br_splices b)"
    using that BForward by (auto simp: made_by_def split: option.splits)
  have shut: ?thesis if "?f = bridge_close b"
    using bridge_close_ok [OF ok] that by (intro same) simp_all
  consider (closed) "br_closed b"
    | (op) "\<not> br_closed b" "length payload = LOGICAL_HEADER_BYTES + 4" "uint (payload ! 4) = LOGICAL_SPLICE_OPEN"
    | (ready) "\<not> br_closed b" "length payload = LOGICAL_HEADER_BYTES + 4" "uint (payload ! 4) = LOGICAL_SPLICE_READY" "uint (payload ! 4) \<noteq> LOGICAL_SPLICE_OPEN"
    | (frame) "\<not> br_closed b" "\<not> (length payload = LOGICAL_HEADER_BYTES + 4 \<and> uint (payload ! 4) \<in> {LOGICAL_SPLICE_OPEN, LOGICAL_SPLICE_READY})"
    by blast
  then show ?thesis
  proof cases
    case closed
    then show ?thesis
      by (intro same) (simp_all add: bridge_forward_def ok)
  next
    case op
    then have f: "?f = spliceOpen from' created now payload b"
      by (simp add: bridge_forward_def)
    show ?thesis
    proof (cases "map_of (br_splices b) (readU32 payload) \<noteq> None \<or> length (br_splices b) \<ge> MAX_SPLICED_ROUTE_STREAMS \<or> created = None")
      case True
      then show ?thesis
        by (intro shut) (auto simp: f spliceOpen_def Let_def split: option.splits)
    next
      case False
      then obtain up down where cr: "created = Some (up, down)"
        by auto
      have new: "AList.update (readU32 payload) (newPair up down now) (br_splices b) = br_splices b @ [(readU32 payload, newPair up down now)]"
        using False by (intro update_fresh_ids) auto
      have "readU32 payload \<notin> fst ` set (br_splices b)"
        using False by (simp add: map_of_eq_None_iff)
      then show ?thesis
        using ok False op(1) by (auto simp: BForward made_by_def f [unfolded cr] spliceOpen_def cr new splices_ok_def balance_def pairIds_def Let_def tellBridge_def)
    qed
  next
    case ready
    then have f: "?f = spliceReady from' payload b"
      by (simp add: bridge_forward_def)
    show ?thesis
    proof (cases "map_of (br_splices b) (readU32 payload)")
      case None
      then show ?thesis
        by (intro shut) (simp add: f spliceReady_def Let_def)
    next
      case (Some p)
      note u = pair_update_ok [OF ok Some, of "p\<lparr>sx_active := True\<rparr>", simplified]
      show ?thesis
      proof (cases "sx_active p")
        case True
        then show ?thesis
          by (intro shut) (simp add: f spliceReady_def Some Let_def)
      next
        case False
        then show ?thesis
          by (intro same) (simp_all add: f spliceReady_def Some Let_def u)
      qed
    qed
  next
    case frame
    then obtain x where x: "?f = tellBridge (BridgeSend (otherSide from') payload) x" "x = b \<or> (\<exists>k. x = closePair k b)"
      using bridge_forward_frame by blast
    then have "splices_ok x \<and> balance x = balance b \<and> length (br_splices x) \<le> length (br_splices b)"
      using closePair_ok [OF ok] ok by blast
    then show ?thesis
      by (intro same) (simp_all add: x(1))
  qed
next
  case (BPoll k rx now)
  show ?thesis
  proof (cases "map_of (br_splices b) k")
    case (Some p)
    have "splices_ok (bridge_poll k rx now b) \<and> balance (bridge_poll k rx now b) = balance b"
      using closePair_ok [OF ok, of k] pair_update_ok [OF ok Some, of "p\<lparr>sx_lastRx := rx, sx_lastActiveAt := now\<rparr>"] pair_update_ok [OF ok Some, of p]
      by (auto simp: bridge_poll_def Some pollPair_def)
    then show ?thesis
      by (simp add: BPoll made_by_def)
  qed (use ok in \<open>simp add: BPoll bridge_poll_def made_by_def\<close>)
qed (use closePair_ok [OF ok] bridge_close_ok [OF ok] in \<open>auto simp: made_by_def\<close>)

lemma bridge_run_made: "bridge_run_step c (b, made) = (bridge_step c b, made @ made_by c b)"
  by (cases c) (auto simp: made_by_def split: option.splits)

interpretation bridgesys: op_system bridge_run_step "\<lambda>(b, made). splices_ok b \<and> balance b = mset made"
  by unfold_locales (use bridge_step_ok in \<open>auto simp: bridge_run_made simp del: bridge_run_step.simps\<close>)

text \<open>
  C39: A bridge between two links passes on every frame and leaks no stream. A frame that does not open or complete
  a splice goes to the other side as it is; one that does either closes the bridge or goes on with the id
  of the new stream in place of the old one. At most 256 pairs are open, every pair ever made is open or
  destroyed, exactly once, and none is open once the bridge is closed.
\<close>

theorem bridge_passes_frames:
  assumes "fold bridge_run_step calls (transformBridge, []) = (b, made)"
  shows "length (br_splices b) \<le> MAX_SPLICED_ROUTE_STREAMS
    \<and> mset made = mset (destroyedPairs (br_trace b)) + mset (pairIds b) \<and> (br_closed b \<longrightarrow> pairIds b = [])
    \<and> (\<not> br_closed b \<longrightarrow>
        (let t = bridge_forward from' created now payload b
         in if length payload = LOGICAL_HEADER_BYTES + 4 \<and> uint (payload ! 4) \<in> {LOGICAL_SPLICE_OPEN, LOGICAL_SPLICE_READY}
            then br_closed t \<or> (\<exists>i. last (br_trace t) = BridgeSend (otherSide from') (take LOGICAL_HEADER_BYTES payload @ be_bytes 4 i))
            else \<not> br_closed t \<and> last (br_trace t) = BridgeSend (otherSide from') payload))"
proof -
  have "case (b, made) of (b, made) \<Rightarrow> splices_ok b \<and> balance b = mset made"
    unfolding assms [symmetric] by (rule bridgesys.run_inv) (simp add: transformBridge_def splices_ok_def balance_def pairIds_def)
  then have inv: "splices_ok b" "balance b = mset made"
    by simp_all
  have "br_closed (closePair k b) = br_closed b" for k
    using closePair_ok [OF inv(1), of k] by blast
  moreover have "br_closed (bridge_close b)"
    using bridge_close_ok [OF inv(1)] by blast
  ultimately have "\<not> br_closed b \<longrightarrow>
        (let t = bridge_forward from' created now payload b
         in if length payload = LOGICAL_HEADER_BYTES + 4 \<and> uint (payload ! 4) \<in> {LOGICAL_SPLICE_OPEN, LOGICAL_SPLICE_READY}
            then br_closed t \<or> (\<exists>i. last (br_trace t) = BridgeSend (otherSide from') (take LOGICAL_HEADER_BYTES payload @ be_bytes 4 i))
            else \<not> br_closed t \<and> last (br_trace t) = BridgeSend (otherSide from') payload)"
    by (auto simp: bridge_forward_def spliceOpen_def spliceReady_def Let_def split: option.splits if_splits)
  then show ?thesis
    using inv unfolding splices_ok_def balance_def by (auto simp: pairIds_def)
qed

lemma bridge_passes_frames_witness:
  "let calls = [BForward LeftLink (Some (41, 42)) 0 [0, 0, 0, 7, 7, 0, 0, 0, 9], BForward RightLink None 1 [0, 0, 0, 7, 8, 0, 0, 0, 5]];
       b = fst (fold bridge_run_step calls (transformBridge, []));
       t = bridge_forward RightLink None 2 [0, 0, 0, 7, 1, 65] b
   in snd (fold bridge_run_step calls (transformBridge, [])) = [(41, 42)] \<and> pairIds b = [(41, 42)]
      \<and> \<not> br_closed t \<and> last (br_trace t) = BridgeSend LeftLink [0, 0, 0, 7, 1, 65]"
proof -
  let ?calls = "[BForward LeftLink (Some (41, 42)) 0 [0, 0, 0, 7, 7, 0, 0, 0, 9], BForward RightLink None 1 [0, 0, 0, 7, 8, 0, 0, 0, 5]]"
  let ?r = "fold bridge_run_step ?calls (transformBridge, [])"
  have run: "pairIds (fst ?r) = [(41, 42)] \<and> snd ?r = [(41, 42)] \<and> \<not> br_closed (fst ?r)"
    by code_simp
  have "\<not> (length ([0, 0, 0, 7, 1, 65] :: bytes) = LOGICAL_HEADER_BYTES + 4)"
    by (simp add: LOGICAL_HEADER_BYTES_def)
  then show ?thesis
    using run bridge_passes_frames [of ?calls "fst ?r" "snd ?r" RightLink None 2 "[0, 0, 0, 7, 1, 65]"]
    unfolding Let_def prod.collapse by simp
qed

end
