(* ===== verification/Spec2Isabelle.thy ===== *)
theory Spec2Isabelle
  imports Ordered_Receiver Replay_Window Branch_Properties Router_Properties Semaphore Nat_Sampler Cell_Properties Presence_Properties
    Overlay_Properties Route_Properties Credit_Properties Stream_Properties Entry_Properties Link_Schedule Storage_Properties
    Raw_Stream_Set Connection_Pool Secure_Payload Puncher_Properties Bridge_Properties
begin

text \<open>
  A verification development of HyperDHT (\<^verbatim>\<open>index.js\<close>, \<^verbatim>\<open>lib/\<close>) and of its native private routing
  (\<^verbatim>\<open>lib/private/\<close>).

  \<^bold>\<open>The program.\<close> A HyperDHT node answers requests of other nodes (\<^verbatim>\<open>index.js\<close>, \<open>onrequest\<close>): it relays
  handshakes and hole-punching messages (\<^verbatim>\<open>lib/router.js\<close>), stores announcements and immutable and
  mutable values (\<^verbatim>\<open>lib/persistent.js\<close>) and hands plugin requests to plugins. The messages are those of
  \<^verbatim>\<open>lib/messages.js\<close>. Private routing adds a cell layer (\<^verbatim>\<open>crypto-suite.js\<close>, \<^verbatim>\<open>cell-codec.js\<close>,
  \<^verbatim>\<open>counters.js\<close>), protocol objects (\<^verbatim>\<open>protocol.js\<close>, \<^verbatim>\<open>peer-protocol.js\<close>), the accounting of what peers may
  use (\<^verbatim>\<open>peer-ledger.js\<close>), presence records under blinded keys (\<^verbatim>\<open>blinded-presence.js\<close>) and route
  descriptors that are stored in and read from the DHT (\<^verbatim>\<open>overlay-descriptor-service.js\<close>,
  \<^verbatim>\<open>overlay-storage-routing.js\<close>).

  \<^bold>\<open>Method.\<close> Every function of a modelled file is one definition of the same or a qualified name; the state
  of a class is a record and its methods take and return that record; a thrown error is the left part of a
  sum; a JavaScript value that is checked by the code is a \<open>jsval\<close> (theory \<open>JS_Prelude\<close>), so that every
  check and its order is in the model. What the code only calls is an argument: a record of functions for a
  package, a function for a callback, a number or a function for the clock, the bytes for a random buffer,
  and for asynchronous code the sequence of what is delivered. What the proofs rely on of such an argument
  is a locale with the documented laws of the package, and each of these locales is interpreted on a
  concrete instance, so that no law is empty.

  \<^bold>\<open>Theories.\<close>
  \<^item> \<open>JS_Prelude\<close>, \<open>Interfaces\<close>: values, errors, big-endian integers, lists; the interfaces the components
    share: \<open>op_system\<close> (operations that keep an invariant), \<open>single_use\<close> (nothing is handed out twice),
    \<open>strict_codec\<close> (a format with exactly one encoding of each object).
  \<^item> \<open>Private_Errors\<close> (\<^verbatim>\<open>private/errors.js\<close>); \<open>Counters\<close>, \<open>Ordered_Receiver\<close>, \<open>Replay_Window\<close>
    (\<^verbatim>\<open>counters.js\<close>): the sender never repeats a counter; the ordered receiver delivers the accepted cells in
    order, once, from a bounded buffer, whatever its callbacks do; the bitmap window implements its
    at-most-once specification.
  \<^item> \<open>Object_Envelope\<close>, \<open>M3_Objects\<close>, \<open>Peer_Objects\<close> (\<^verbatim>\<open>protocol.js\<close>, \<^verbatim>\<open>peer-protocol.js\<close>): tables and object
    codecs; each buffer that decodes is the encoding of what it decodes to.
  \<^item> \<open>Peer_Budget\<close>, \<open>Peer_Ledger\<close>, \<open>Ledger_Invariant\<close>, \<open>Ledger_Release\<close>, \<open>Ledger_Properties\<close>,
    \<open>Peer_Memory\<close>, \<open>Memory_Invariant\<close>, \<open>Memory_Properties\<close>, \<open>Peer_Narrow\<close>, \<open>Peer_Store\<close>, \<open>Branch_Slots\<close>,
    \<open>Branch_Invariant\<close>, \<open>Branch_Properties\<close> (\<^verbatim>\<open>peer-ledger.js\<close>): ledgers form a forest in which nothing is
    created or lost, memory pools stay within capacity, narrowing is all or nothing, and the live branches
    of a slot pool are bounded. The walk to the ancestors of a ledger has as fuel the number of handles that
    were ever given out, which exceeds the depth of the forest.
  \<^item> \<open>Compact_Encoding\<close>, \<open>Messages\<close>, \<open>Message_Codecs\<close>, \<open>Message_Ranges\<close>, \<open>Compact_Reference\<close>,
    \<open>Message_Properties\<close> (\<^verbatim>\<open>lib/encode.js\<close>, \<^verbatim>\<open>lib/messages.js\<close>): the codecs as the code composes them from
    those of \<^verbatim>\<open>compact-encoding\<close>, whose contract is the locale \<open>compact_encoding\<close> and its range version.
  \<^item> \<open>DHT_Constants\<close>, \<open>DHT_Router\<close>, \<open>Router_Properties\<close>, \<open>DHT_Persistent\<close>, \<open>DHT_Store_Laws\<close>,
    \<open>DHT_Store_Invariant\<close>, \<open>DHT_Store_Properties\<close> (\<^verbatim>\<open>lib/constants.js\<close>, \<^verbatim>\<open>lib/errors.js\<close>, \<^verbatim>\<open>lib/router.js\<close>,
    \<^verbatim>\<open>lib/persistent.js\<close>, \<^verbatim>\<open>lib/refresh-chain.js\<close>, \<open>onrequest\<close> of \<^verbatim>\<open>index.js\<close>): a relayed handshake
    completes; whatever is requested, stored values are filed under their hash and signed, mutable values
    never roll back, and announcements change only by a signature or a refresh token. The caches are
    parameters that may forget entries at any time.
  \<^item> \<open>Semaphore\<close> (\<^verbatim>\<open>lib/semaphore.js\<close>, \<^verbatim>\<open>lib/sleeper.js\<close>) and \<open>Nat_Sampler\<close> (\<^verbatim>\<open>lib/nat.js\<close>).
  \<^item> \<open>Raw_Stream_Set\<close> (\<^verbatim>\<open>lib/raw-stream-set.js\<close>): the set of native streams stays exact while the mask of its
    keys grows, and half of all ids stay free.
  \<^item> \<open>Connection_Pool\<close> (\<^verbatim>\<open>lib/connection-pool.js\<close>): one session per peer, no stream forgotten, and two peers that
    connect to each other at once keep the same connection. \<open>Secure_Payload\<close> (\<^verbatim>\<open>lib/secure-payload.js\<close>): payloads
    of hole-punching messages survive encryption, and nothing else decrypts.
  \<^item> \<open>Socket_Pool\<close> (\<^verbatim>\<open>lib/socket-pool.js\<close>), \<open>Hole_Puncher\<close>, \<open>Puncher_Properties\<close> (\<^verbatim>\<open>lib/holepuncher.js\<close>): no socket
    leaks or is closed under its users; a puncher releases each of its sockets once, gives back its random
    punch and reports one outcome, whatever order its events come in; local addresses are matched by their
    longest prefix.
  \<^item> \<open>Crypto_Suite\<close>, \<open>Cell_Codec\<close>, \<open>Cell_Contexts\<close>, \<open>Cell_Link\<close>, \<open>Cell_Properties\<close> (\<^verbatim>\<open>crypto-suite.js\<close>,
    \<^verbatim>\<open>cell-codec.js\<close>): the sender counter, the codec and the receiver compose to a link that delivers an
    initial part of what was sent, in order; the reusable contexts behave as the plain operations.
  \<^item> \<open>Blinded_Presence\<close>, \<open>Presence_Properties\<close> (\<^verbatim>\<open>blinded-presence.js\<close>): records round trip, only records of
    the owner open, readers and publishers agree on the period, readers never go back.
  \<^item> \<open>Overlay_Descriptor\<close>, \<open>Overlay_Service\<close>, \<open>Overlay_Sampling\<close>, \<open>Overlay_Properties\<close>
    (\<^verbatim>\<open>overlay-descriptor-service.js\<close>): descriptors round trip; the store of a node holds only signed
    descriptors, within its capacity and without rollback; sampling is by lowest rank; a read is exactly a
    quorum of two.
  \<^item> \<open>Route_Frames\<close>, \<open>Route_Properties\<close>, \<open>Credit_Pool\<close>, \<open>Credit_Properties\<close>, \<open>Logical_Stream\<close>, \<open>Stream_Flow\<close>,
    \<open>Stream_Properties\<close> (\<^verbatim>\<open>private-peer-controller.js\<close>): logical frames decode exactly when they are encodings;
    admission signatures verify; the credit of a circuit is conserved and distributed as long as there is
    demand (\<open>distributeLoop\<close> is a partial function, because callbacks may ask again for ever); a logical stream
    never overruns its receiver and delivers in order.
  \<^item> \<open>Entry_Circuit\<close>, \<open>Entry_Properties\<close>, \<open>Circuit_Link\<close>, \<open>Link_Properties\<close>, \<open>Link_Schedule\<close> (the classes
    \<open>EntryCircuit\<close> and \<open>CircuitLink\<close> of \<^verbatim>\<open>private-peer-controller.js\<close>): an entry relay keeps its accounts of
    credit in both directions whatever its sources and its destination send; a link opens the same cells
    however the transport splits its bytes, writes the frames of a stream in order and settles every promise
    once, and no stream waits for more than four cells of each other one. The loop over batches has as fuel
    the number of batches that may be in flight, since every turn adds one.
  \<^item> \<open>Route_Bridge\<close>, \<open>Bridge_Properties\<close> (\<open>ControlInbox\<close>, \<open>PinnedGuards\<close>, \<open>transformBridge\<close> of the same file):
    control messages are read in order and once, guards stay pinned, and a bridge passes on every frame
    and destroys every pair of streams it made.
  \<^item> \<open>Storage_Routing\<close>, \<open>Storage_Properties\<close> (\<^verbatim>\<open>overlay-storage-routing.js\<close>): replies round trip, and the tables
    a node keeps about others stay within their bounds.

  \<^bold>\<open>Parameters and their laws.\<close> The codecs of \<^verbatim>\<open>compact-encoding\<close> (\<open>compact_encoding\<close>, \<open>compact_ranges\<close>),
  the caches of \<^verbatim>\<open>xache\<close> and \<^verbatim>\<open>record-cache\<close> (\<open>cache_laws\<close>, \<open>record_laws\<close>), authenticated encryption of
  \<^verbatim>\<open>sodium\<close> (\<open>aead\<close>), the group of Ed25519 (\<open>ed25519_laws\<close>), the routing
  table and address codec of the storage overlay (\<open>storage_laws\<close>),
  the secret box (\<open>secretbox_laws\<close>); hash functions have no law but, where a statement
  says so, injectivity on what was hashed.

  \<^bold>\<open>Not modelled.\<close> Zeroization of buffers, failing allocations and the freezing of objects, except where the
  code can observe them. The parts of the program that sequence network input and output: \<^verbatim>\<open>lib/server.js\<close>,
  \<^verbatim>\<open>lib/connect.js\<close>, \<^verbatim>\<open>lib/announcer.js\<close>, the control
  sessions, the handlers of the other relay roles and the controller of \<^verbatim>\<open>private-peer-controller.js\<close>, and the announcement of the
  own address in \<^verbatim>\<open>overlay-storage-routing.js\<close>, whose behaviour is the interleaving of timers, sockets and
  promises of packages outside the repository; the rest of \<^verbatim>\<open>index.js\<close>, which wires those classes together; the command line tools, benchmarks, examples, tests
  and documents.
\<close>

end
